(* ===== verification/Prelude.thy ===== *)
theory Prelude
  imports Complex_Main "HOL-Library.Char_ord" "HOL-Library.List_Lexorder"
begin

text \<open>
  Shared vocabulary of the development: the types every component uses (identifiers,
  instants), the keyed tables in which both the database projections and the JavaScript
  objects indexed by id are modelled, and the generic lemmas about them.

  A table is the list of its rows in insertion order. \<open>upsert\<close> is PostgreSQL's
  \<open>INSERT ... ON CONFLICT (key) DO UPDATE\<close>: the row with the key is rewritten in place, and
  a key that is not there is appended. A JavaScript object used as a dictionary behaves the
  same way under \<open>{...record, [key]: value}\<close>, so both share this operation.
\<close>

section \<open>Identifiers and time\<close>

text \<open>Ids are opaque strings; instants are milliseconds since the epoch.\<close>

type_synonym ident = string
type_synonym instant = int

named_theorems table_simps \<open>lookups and updates of keyed tables\<close>
named_theorems row_simps \<open>projections of stored rows\<close>

section \<open>Keyed tables\<close>

fun upsert :: "('r \<Rightarrow> 'k) \<Rightarrow> ('r \<Rightarrow> 'r) \<Rightarrow> 'r \<Rightarrow> 'r list \<Rightarrow> 'r list" where
  "upsert key upd r [] = [r]"
| "upsert key upd r (x # xs) =
     (if key x = key r then upd x # xs else x # upsert key upd r xs)"

definition put_row :: "('r \<Rightarrow> 'k) \<Rightarrow> 'r \<Rightarrow> 'r list \<Rightarrow> 'r list" where
  "put_row key r = upsert key (\<lambda>_. r) r"

fun find_row :: "('r \<Rightarrow> 'k) \<Rightarrow> 'k \<Rightarrow> 'r list \<Rightarrow> 'r option" where
  "find_row key k [] = None"
| "find_row key k (x # xs) = (if key x = k then Some x else find_row key k xs)"

definition update_where :: "('r \<Rightarrow> bool) \<Rightarrow> ('r \<Rightarrow> 'r) \<Rightarrow> 'r list \<Rightarrow> 'r list" where
  "update_where p f = map (\<lambda>r. if p r then f r else r)"

definition unique_keys :: "('r \<Rightarrow> 'k) \<Rightarrow> 'r list \<Rightarrow> bool" where
  "unique_keys key xs \<longleftrightarrow> distinct (map key xs)"

lemma find_row_Some: "find_row key k xs = Some r \<Longrightarrow> r \<in> set xs \<and> key r = k"
  by (induction xs) (auto split: if_splits)

lemma find_row_None: "find_row key k xs = None \<longleftrightarrow> k \<notin> key ` set xs"
  by (induction xs) auto

lemma find_row_unique:
  "unique_keys key xs \<Longrightarrow> r \<in> set xs \<Longrightarrow> find_row key (key r) xs = Some r"
  by (induction xs) (auto simp: unique_keys_def image_iff)

lemma find_row_upsert_same [table_simps]:
  "(\<And>x. key (upd x) = key x) \<Longrightarrow>
   find_row key (key r) (upsert key upd r xs) =
     (case find_row key (key r) xs of None \<Rightarrow> Some r | Some x \<Rightarrow> Some (upd x))"
  by (induction xs) auto

lemma find_row_upsert_other [table_simps]:
  "(\<And>x. key (upd x) = key x) \<Longrightarrow> k \<noteq> key r \<Longrightarrow>
   find_row key k (upsert key upd r xs) = find_row key k xs"
  by (induction xs) auto

lemma keys_upsert:
  "(\<And>x. key (upd x) = key x) \<Longrightarrow>
   map key (upsert key upd r xs) =
     (if key r \<in> key ` set xs then map key xs else map key xs @ [key r])"
  by (induction xs) auto

lemma unique_keys_upsert [intro]:
  "(\<And>x. key (upd x) = key x) \<Longrightarrow> unique_keys key xs \<Longrightarrow> unique_keys key (upsert key upd r xs)"
  by (auto simp: unique_keys_def keys_upsert)

lemma set_upsert_subset:
  "set (upsert key upd r xs) \<subseteq> insert r (set xs \<union> upd ` {x \<in> set xs. key x = key r})"
  by (induction xs) auto

lemma upsert_fresh: "key r \<notin> key ` set xs \<Longrightarrow> upsert key upd r xs = xs @ [r]"
  by (induction xs) auto

lemma map_upsert:
  assumes "\<And>x. x \<in> set xs \<Longrightarrow> key' (f x) = key x" and "key' (f r) = key r"
    and "\<And>x. x \<in> set xs \<Longrightarrow> key x = key r \<Longrightarrow> f (upd x) = upd' (f x)"
  shows "map f (upsert key upd r xs) = upsert key' upd' (f r) (map f xs)"
  using assms by (induction xs) auto

text \<open>
  The rows of one session inside a table shared by all sessions: an upsert of a row of the
  session is an upsert among the session's rows, as long as no other session owns the key.
\<close>

lemma filter_upsert:
  assumes "P r" and "\<And>x. x \<in> set xs \<Longrightarrow> key x = key r \<Longrightarrow> P x \<and> P (upd x)"
  shows "filter P (upsert key upd r xs) = upsert key upd r (filter P xs)"
  using assms by (induction xs) auto

lemma filter_upsert_other:
  assumes "\<not> P r" and "\<And>x. x \<in> set xs \<Longrightarrow> key x = key r \<Longrightarrow> P (upd x) = P x \<and> (P x \<longrightarrow> upd x = x)"
  shows "filter P (upsert key upd r xs) = filter P xs"
  using assms by (induction xs) auto

lemma upsert_cong:
  "(\<And>x. x \<in> set xs \<Longrightarrow> key x = key r \<Longrightarrow> upd x = upd' x) \<Longrightarrow> upsert key upd r xs = upsert key upd' r xs"
  by (induction xs) auto

lemma filter_update_where:
  assumes "\<And>x. x \<in> set xs \<Longrightarrow> p x \<Longrightarrow> P (f x) = P x"
  shows "filter P (update_where p f xs) = update_where p f (filter P xs)"
  using assms by (induction xs) (auto simp: update_where_def)

lemma map_update_where:
  "map key (update_where p f xs) = map key xs" if "\<And>x. x \<in> set xs \<Longrightarrow> p x \<Longrightarrow> key (f x) = key x"
  using that by (induction xs) (auto simp: update_where_def)

lemma find_None: "find P xs = None \<longleftrightarrow> (\<forall>x \<in> set xs. \<not> P x)"
  by (induction xs) auto

lemma find_in: "find P xs = Some x \<Longrightarrow> x \<in> set xs \<and> P x"
  by (induction xs) (auto split: if_splits)

lemma update_where_none [simp]: "(\<And>x. x \<in> set xs \<Longrightarrow> \<not> p x) \<Longrightarrow> update_where p f xs = xs"
  by (induction xs) (auto simp: update_where_def)

lemma update_where_Nil [simp]: "update_where p f [] = []"
  by (simp add: update_where_def)

lemma update_where_Cons [simp]:
  "update_where p f (x # xs) = (if p x then f x else x) # update_where p f xs"
  by (simp add: update_where_def)

lemma length_update_where [simp]: "length (update_where p f xs) = length xs"
  by (simp add: update_where_def)

lemma unique_keys_update_where [intro]:
  "(\<And>x. x \<in> set xs \<Longrightarrow> p x \<Longrightarrow> key (f x) = key x) \<Longrightarrow> unique_keys key xs \<Longrightarrow>
   unique_keys key (update_where p f xs)"
  by (simp add: unique_keys_def map_update_where)

lemma find_row_update_where [table_simps]:
  "(\<And>x. key (f x) = key x) \<Longrightarrow>
   find_row key k (update_where p f xs) = map_option (\<lambda>r. if p r then f r else r) (find_row key k xs)"
  by (induction xs) auto

text \<open>Tables with the same keys and the same column \<open>g\<close> agree on that column everywhere.\<close>

lemma find_row_column:
  "map key xs = map key ys \<Longrightarrow> map g xs = map g ys \<Longrightarrow>
   map_option g (find_row key k xs) = map_option g (find_row key k ys)"
proof (induction xs arbitrary: ys)
  case (Cons x xs)
  then show ?case by (cases ys) auto
qed simp

lemma find_row_filter:
  "(\<And>x. x \<in> set xs \<Longrightarrow> key x = k \<Longrightarrow> P x) \<Longrightarrow> find_row key k (filter P xs) = find_row key k xs"
  by (induction xs) auto

lemma find_row_append:
  "find_row key k (xs @ ys) = (case find_row key k xs of None \<Rightarrow> find_row key k ys | Some r \<Rightarrow> Some r)"
  by (induction xs) auto

section \<open>The dictionary interface\<close>

text \<open>
  What the reducer and the projector rely on of a dictionary keyed by id: a lookup after a
  write gives the written value, and other keys are untouched.
\<close>

locale dictionary =
  fixes key :: "'v \<Rightarrow> 'k"
    and lookup :: "'k \<Rightarrow> 's \<Rightarrow> 'v option"
    and put :: "'v \<Rightarrow> 's \<Rightarrow> 's"
  assumes lookup_put_same: "lookup (key v) (put v s) = Some v"
    and lookup_put_other: "k \<noteq> key v \<Longrightarrow> lookup k (put v s) = lookup k s"
begin

lemma lookup_put: "lookup k (put v s) = (if k = key v then Some v else lookup k s)"
  by (simp add: lookup_put_same lookup_put_other)

text \<open>A sequence of writes leaves the last value written to each key.\<close>

lemma lookup_fold_put:
  "lookup k (fold put vs s) =
     (case find (\<lambda>v. key v = k) (rev vs) of None \<Rightarrow> lookup k s | Some v \<Rightarrow> Some v)"
proof (induction vs arbitrary: s)
  case Nil
  then show ?case by simp
next
  case (Cons v vs)
  have "find p (xs @ [v]) = (case find p xs of None \<Rightarrow> (if p v then Some v else None) | Some x \<Rightarrow> Some x)"
    for p and xs :: "'v list" by (induction xs) auto
  then show ?case by (auto simp: Cons lookup_put split: option.splits)
qed

lemma lookup_fold_put_notin: "k \<notin> key ` set vs \<Longrightarrow> lookup k (fold put vs s) = lookup k s"
  by (induction vs arbitrary: s) (auto simp: lookup_put)

end

lemma put_row_lookup_same: "find_row key (key r) (put_row key r xs) = Some r"
  by (induction xs) (auto simp: put_row_def)

lemma put_row_lookup_other: "k \<noteq> key r \<Longrightarrow> find_row key k (put_row key r xs) = find_row key k xs"
  by (induction xs) (auto simp: put_row_def)

text \<open>Rows keyed by any of their fields are a dictionary.\<close>

interpretation rows: dictionary key "find_row key" "put_row key" for key :: "'v \<Rightarrow> 'k"
  by unfold_locales (simp_all add: put_row_lookup_same put_row_lookup_other)

lemma unique_keys_put_row [intro]: "unique_keys key xs \<Longrightarrow> unique_keys key (put_row key r xs)"
proof -
  have "map key (put_row key r xs) = (if key r \<in> key ` set xs then map key xs else map key xs @ [key r])"
    by (induction xs) (auto simp: put_row_def)
  then show "unique_keys key xs \<Longrightarrow> unique_keys key (put_row key r xs)"
    by (auto simp: unique_keys_def)
qed

section \<open>Lists\<close>

lemma sorted_wrt_snoc:
  "sorted_wrt P (xs @ [x]) \<longleftrightarrow> sorted_wrt P xs \<and> (\<forall>y \<in> set xs. P y x)"
  by (induction xs) auto

lemma filter_gt_sorted_suffix:
  assumes "sorted_wrt (<) (map g xs)"
  shows "\<exists>ys. xs = ys @ filter (\<lambda>x. (n::nat) < g x) xs \<and> (\<forall>y \<in> set ys. g y \<le> n)"
  using assms
proof (induction xs)
  case Nil
  then show ?case by simp
next
  case (Cons x xs)
  then obtain ys where ys: "xs = ys @ filter (\<lambda>x. n < g x) xs" "\<forall>y \<in> set ys. g y \<le> n"
    by auto
  show ?case
  proof (cases "n < g x")
    case True
    with Cons.prems have "filter (\<lambda>x. n < g x) xs = xs"
      by (intro filter_True) auto
    with True have "x # xs = [] @ filter (\<lambda>x. n < g x) (x # xs)" by simp
    then show ?thesis by fastforce
  next
    case False
    then have "x # xs = (x # ys) @ filter (\<lambda>x. n < g x) (x # xs)" using ys(1) by simp
    then show ?thesis using ys(2) False by (metis linorder_not_less set_ConsD)
  qed
qed

end
