(* ===== verification/Protocol.thy ===== *)
theory Protocol
  imports Prelude
begin

text \<open>
  The agent session model of \<open>packages/agent-protocol/src/model.ts\<close> and the events of
  \<open>events.ts\<close>: sessions hold turns, turns hold attempts, items are the ordered transcript,
  and every change to a session is an event. Interfaces are records, string unions are
  datatypes with one constructor per literal, and a discriminated union is a datatype with
  one constructor per variant. A field that is optional or nullable is an option. Field names
  carry a prefix per type (\<open>t_\<close> turn, \<open>a_\<close> attempt, \<open>i_\<close> item, \<open>r_\<close> runtime request,
  \<open>p_\<close> provider thread, \<open>f_\<close> session fields), since HOL's record fields share one name space.
  ISO timestamps and the database's dates are both instants.
\<close>

section \<open>JSON\<close>

text \<open>
  A number of the wire is a finite IEEE double, hence a rational; the values \<open>typeof\<close> also
  calls numbers but JSON cannot write are kept, because the metadata rules refuse them.
\<close>

datatype js_number = Finite rat | Infinite bool | NotANumber

datatype json =
    JNull
  | JBool bool
  | JNum js_number
  | JStr string
  | JArr "json list"
  | JObj "(string \<times> json) list"

type_synonym json_object = "(string \<times> json) list"

section \<open>References, usage and errors\<close>

datatype ref_strength = Strong | Weak | NoStrength

record native_ref =
  n_id :: ident
  n_strength :: ref_strength

datatype agent_effort = Low | Medium | High | Xhigh | MaxEffort

datatype agent_error_kind = Auth | RateLimit | Unavailable | ModelIncompat

record agent_turn_usage =
  u_model :: "string option"
  u_input_tokens :: "nat option"
  u_cached_input_tokens :: "nat option"
  u_cache_creation_tokens :: "nat option"
  u_output_tokens :: "nat option"
  u_reasoning_tokens :: "nat option"
  u_cost_usd :: "rat option"
  u_context_tokens :: "nat option"
  u_context_window :: "nat option"

record agent_question_option =
  qo_label :: string
  qo_description :: string

record agent_question =
  q_question :: string
  q_header :: string
  q_multi_select :: bool
  q_options :: "agent_question_option list"

section \<open>Attachments and senders\<close>

datatype agent_text_source =
    Paste
  | Selection (sel_file_path: string) (sel_start_line: "nat option") (sel_end_line: "nat option")
  | UrlSource string
  | PathSource string
  | TabSource (tab_key: string) (tab_kind: string) (tab_title: string)
      (tab_url: "string option") (tab_file_path: "string option")
  | SkillSource (skill_name: string) (skill_path: "string option")

datatype media_kind = ImageMedia | DocumentMedia

datatype agent_attachment =
    MediaAttachment media_kind (att_name: string) (att_media_type: string) (att_data_base64: string)
  | TextAttachment (att_name: string) (att_text: string) (att_source: agent_text_source)

type_synonym session_user = ident

record watcher_ref =
  w_id :: ident
  w_session_id :: ident

datatype inbound_sender =
    AgentSender (snd_session_id: ident) (snd_agent_id: "ident option") (snd_project_id: "ident option")
  | AssistantSender (snd_external_user_id: ident)
  | WorkflowSender (snd_run_id: ident) (snd_workflow_name: string) (snd_display_name: "string option")
      (snd_enablement_id: "ident option") (snd_watcher: "watcher_ref option")
      (snd_scheduled_for: "instant option") (snd_fired_at: "instant option")

datatype session_message_author = UserAuthor session_user | InboundAuthor inbound_sender

datatype task_notification_status =
  TaskCompleted | TaskFailed | TaskUpdate | TaskNeedsInput | TaskStopped

datatype input_source =
    SessionSource ident "ident option"
  | WorkflowRunSource ident string
  | SurfaceSource string

record notified_task =
  nt_type :: string
  nt_id :: ident
  nt_title :: string
  nt_status :: task_notification_status

record question_answer =
  qa_request_id :: ident
  qa_questions :: "agent_question list"
  qa_answers :: "string list"

record settled_alert =
  sa_title :: "string option"
  sa_body :: "string option"

section \<open>Inputs\<close>

datatype session_input =
    UserInput (in_author: session_user) (in_text: string) (in_attachments: "agent_attachment list")
      (in_answer: "question_answer option")
  | InboundInput (in_from: inbound_sender) (in_text: string) (in_attachments: "agent_attachment list")
      (in_alert: "settled_alert option")
  | TaskInput (in_task: notified_task) (in_summary: string) (in_detail: string)
      (in_source: "input_source option")

text \<open>\<open>messageInput\<close>: a person's words, or someone else's.\<close>

definition message_input ::
  "session_message_author \<Rightarrow> string \<Rightarrow> agent_attachment list option \<Rightarrow> session_input" where
  "message_input author txt atts =
     (let attachments = (case atts of None \<Rightarrow> [] | Some xs \<Rightarrow> xs) in
      case author of
        UserAuthor u \<Rightarrow> UserInput u txt attachments None
      | InboundAuthor s \<Rightarrow> InboundInput s txt attachments None)"

datatype dispatch_mode = DQueue | DSteer | DInterrupt | DMessageOnly

datatype todo_status = TodoPending | TodoInProgress | TodoCompleted

record agent_todo =
  todo_id :: ident
  todo_title :: string
  todo_description :: string
  todo_stat :: todo_status
  todo_active_form :: "string option"

section \<open>Turns and attempts\<close>

datatype turn_status =
    Queued | Held | Preparing | Running | Waiting | Finalizing
  | Completed | Failed | Interrupted | Cancelled | RolledBack

definition SETTLED_TURN_STATUSES :: "turn_status list" where
  "SETTLED_TURN_STATUSES = [Completed, Failed, Interrupted, Cancelled, RolledBack]"

definition ACTIVE_TURN_STATUSES :: "turn_status list" where
  "ACTIVE_TURN_STATUSES = [Preparing, Running, Waiting, Finalizing]"

definition is_settled_turn_status :: "turn_status \<Rightarrow> bool" where
  "is_settled_turn_status s \<longleftrightarrow> s \<in> set SETTLED_TURN_STATUSES"

definition is_active_turn_status :: "turn_status \<Rightarrow> bool" where
  "is_active_turn_status s \<longleftrightarrow> s \<in> set ACTIVE_TURN_STATUSES"

lemma active_statuses [simp]:
  "is_active_turn_status s \<longleftrightarrow> s = Preparing \<or> s = Running \<or> s = Waiting \<or> s = Finalizing"
  by (auto simp: is_active_turn_status_def ACTIVE_TURN_STATUSES_def)

lemma settled_statuses [simp]:
  "is_settled_turn_status s \<longleftrightarrow>
   s = Completed \<or> s = Failed \<or> s = Interrupted \<or> s = Cancelled \<or> s = RolledBack"
  by (auto simp: is_settled_turn_status_def SETTLED_TURN_STATUSES_def)

record turn_error =
  e_message :: string
  e_kind :: "agent_error_kind option"
  e_retry_safe :: "bool option"

record provider_retry =
  pr_error_message :: string
  pr_error_kind :: "agent_error_kind option"
  pr_attempt :: "nat option"
  pr_max_attempts :: "nat option"
  pr_retry_at :: "instant option"

datatype file_change_kind = FileModified | FileDeleted

record turn_file_change =
  fc_path :: string
  fc_kind :: file_change_kind

record turn_outcome =
  o_changed_files :: "turn_file_change list"
  o_usage :: "agent_turn_usage option"
  o_store_sync :: "json_object option"
  o_workspace_sync :: "string option"
  o_notification :: "settled_alert option"

datatype turn_dispatch = TQueue | TInterrupt

record checkpoint =
  ck_before :: "string option"
  ck_after :: "string option"

record turn =
  t_id :: ident
  t_session_id :: ident
  t_ordinal :: nat
  t_status :: turn_status
  t_input_item_id :: "ident option"
  t_dispatch :: turn_dispatch
  t_priority :: int
  t_activity :: "string option"
  t_activity_at :: "instant option"
  t_provider_retry :: "provider_retry option"
  t_attempt_count :: nat
  t_active_attempt_id :: "ident option"
  t_provider_thread_id :: "ident option"
  t_retry_at :: "instant option"
  t_cancellation_requested :: bool
  t_error :: "turn_error option"
  t_outcome :: "turn_outcome option"
  t_checkpoint :: checkpoint
  t_continuation_of :: "ident option"
  t_created_at :: instant
  t_started_at :: "instant option"
  t_completed_at :: "instant option"
  t_updated_at :: instant

datatype attempt_reason = Initial | Retry | SteerRestart | Recovery

datatype attempt_status =
    APreparing | ARunning | ACompleted | AFailed | AInterrupted | ALost | ASuperseded

record attempt =
  a_id :: ident
  a_turn_id :: ident
  a_session_id :: ident
  a_ordinal :: nat
  a_reason :: attempt_reason
  a_status :: attempt_status
  a_provider_thread_id :: "ident option"
  a_native_turn_ref :: "native_ref option"
  a_error :: "turn_error option"
  a_created_at :: instant
  a_started_at :: "instant option"
  a_completed_at :: "instant option"

section \<open>Items\<close>

datatype item_status = InProgress | ItemCompleted | ItemFailed | ItemCancelled

record delivery_fields =
  d_dispatch :: dispatch_mode
  d_attention_required :: bool
  d_idempotency_key :: "string option"
  d_delivered_by :: "ident option"
  d_causation :: "ident list"

datatype item_change = ChangeCreated | ChangeModified | ChangeDeleted | ChangeRenamed

record plan_step =
  ps_text :: string
  ps_status :: todo_status

datatype handoff_strategy = DeltaHandoff | FullHandoff

text \<open>
  An item is what every item has (\<open>ItemCommon\<close>) and the fields of its own kind. The three
  input kinds carry the delivery fields beside their session input.
\<close>

datatype item_body =
    UserMessage delivery_fields (um_author: session_user) (b_text: string)
      (b_attachments: "agent_attachment list") (um_answer: "question_answer option")
  | InboundMessage delivery_fields (im_from: inbound_sender) (b_text: string)
      (b_attachments: "agent_attachment list") (im_alert: "settled_alert option")
  | TaskNotification delivery_fields (tn_task: notified_task) (tn_summary: string)
      (tn_detail: string) (tn_source: "input_source option")
  | AssistantMessage (b_text: string) (am_agent_id: "ident option")
  | Reasoning (b_text: string)
  | ToolCall (tc_tool: string) (tc_server: "string option") (b_description: "string option")
      (tc_input: json) (tc_result: "json option") (tc_error: "string option")
  | Command (cm_command: string) (b_description: "string option") (cm_output: string)
      (cm_exit_code: "int option")
  | FileChange (fi_path: string) (fi_change: "item_change option") (fi_previous: "string option")
  | Plan (pl_steps: "plan_step list")
  | RequestBody (rq_request_id: ident)
  | Subagent (sub_title: string) (sub_agent_type: "string option")
      (sub_child_session: "ident option") (sub_result: "string option")
  | Notice (no_code: string) (b_text: string) (no_data: json_object)
  | ContextHandoff (ch_strategy: handoff_strategy) (ch_from: "ident list") (ch_to: ident)
      (ch_covered: "nat \<times> nat") (b_text: string)

record item =
  i_id :: ident
  i_session_id :: ident
  i_turn_id :: "ident option"
  i_attempt_id :: "ident option"
  i_parent_item_id :: "ident option"
  i_position :: nat
  i_status :: item_status
  i_native_ref :: "native_ref option"
  i_created_at :: instant
  i_updated_at :: instant
  i_started_at :: "instant option"
  i_ended_at :: "instant option"
  i_body :: item_body

text \<open>The delivery fields of an input item; \<open>None\<close> for every other kind (\<open>isInputItem\<close>).\<close>

fun delivery_of :: "item_body \<Rightarrow> delivery_fields option" where
  "delivery_of (UserMessage d _ _ _ _) = Some d"
| "delivery_of (InboundMessage d _ _ _ _) = Some d"
| "delivery_of (TaskNotification d _ _ _ _) = Some d"
| "delivery_of _ = None"

definition is_input_item :: "item \<Rightarrow> bool" where
  "is_input_item i \<longleftrightarrow> delivery_of (i_body i) \<noteq> None"

definition is_unread_steer :: "item \<Rightarrow> bool" where
  "is_unread_steer i \<longleftrightarrow>
     is_input_item i \<and>
     (case delivery_of (i_body i) of Some d \<Rightarrow> d_dispatch d = DSteer | None \<Rightarrow> False) \<and>
     i_status i = InProgress"

section \<open>Runtime requests\<close>

datatype request_kind = KQuestion | KApproval | KElicitation

datatype request_status = RPending | RResolved | RExpired | RCancelled

datatype origin_kind = OTool | OProvider | OMcp | OHost

record request_origin =
  ro_kind :: origin_kind
  ro_id :: ident
  ro_display_name :: "string option"

datatype elicitation_action = EAccept | EDecline | ECancel

datatype request_response =
    ApprovalResponse (resp_approved: bool) (resp_remember: bool) (resp_reason: "string option")
  | QuestionResponse (resp_answers: "string list")
      (resp_attachments: "agent_attachment list list option")
  | ElicitationResponse elicitation_action (resp_content: "json option")

record approval_tool =
  at_server :: "string option"
  at_name :: string
  at_input :: json

record approval_ask =
  aa_action :: string
  aa_details :: "string option"
  aa_tool :: "approval_tool option"

record elicitation_ask =
  ea_server :: string
  ea_message :: string
  ea_schema :: "json_object option"
  ea_url :: "string option"

record runtime_request =
  r_id :: ident
  r_session_id :: ident
  r_turn_id :: "ident option"
  r_attempt_id :: "ident option"
  r_item_id :: "ident option"
  r_kind :: request_kind
  r_status :: request_status
  r_answerable :: bool
  r_blocking :: bool
  r_title :: string
  r_description :: "string option"
  r_origin :: request_origin
  r_questions :: "agent_question list option"
  r_approval :: "approval_ask option"
  r_elicitation :: "elicitation_ask option"
  r_approvers :: "ident list"
  r_expires_at :: "instant option"
  r_response :: "request_response option"
  r_resolved_by :: "ident option"
  r_reason :: "string option"
  r_created_at :: instant
  r_resolved_at :: "instant option"
  r_runner_key :: "string option"

section \<open>Provider threads and sessions\<close>

datatype thread_status = ThreadActive | ThreadUnavailable | ThreadClosed

record provider_thread =
  p_id :: ident
  p_session_id :: ident
  p_harness :: string
  p_native_ref :: "native_ref option"
  p_status :: thread_status
  p_last_turn_ordinal :: "nat option"
  p_portable :: bool
  p_created_at :: instant
  p_updated_at :: instant

type_synonym session_metadata = json_object

datatype imported_harness = ClaudeCode | Codex

record imported_session =
  im_harness :: imported_harness
  im_native_session_id :: ident
  im_source_path :: string
  im_content_sha256 :: string
  im_source_modified_at :: instant

datatype session_status = SessionActive | SessionClosed
datatype work_status = WorkOpen | WorkCompleted
datatype handoff_status = HandoffNone | HandoffPending

record session_fields =
  f_id :: ident
  f_project_id :: ident
  f_title :: "string option"
  f_icon :: "string option"
  f_agent_id :: "ident option"
  f_harness :: "string option"
  f_model :: "string option"
  f_model_effort :: "agent_effort option"
  f_status :: session_status
  f_work_status :: work_status
  f_activity :: "string option"
  f_todos :: "agent_todo list"
  f_metadata :: session_metadata
  f_imported :: "imported_session option"
  f_parent_session_id :: "ident option"
  f_forked_from_session_id :: "ident option"
  f_attention_revision :: nat
  f_environment :: "string option"
  f_authority_host_id :: ident
  f_authority_revision :: nat
  f_handoff_status :: handoff_status
  f_updated_at :: instant

text \<open>
  \<open>Partial<SessionFields>\<close>: every field may be left out, so a nullable field is an option of
  an option.
\<close>

record session_patch =
  c_id :: "ident option"
  c_project_id :: "ident option"
  c_title :: "string option option"
  c_icon :: "string option option"
  c_agent_id :: "ident option option"
  c_harness :: "string option option"
  c_model :: "string option option"
  c_model_effort :: "agent_effort option option"
  c_status :: "session_status option"
  c_work_status :: "work_status option"
  c_activity :: "string option option"
  c_todos :: "agent_todo list option"
  c_metadata :: "session_metadata option"
  c_imported :: "imported_session option option"
  c_parent_session_id :: "ident option option"
  c_forked_from_session_id :: "ident option option"
  c_attention_revision :: "nat option"
  c_environment :: "string option option"
  c_authority_host_id :: "ident option"
  c_authority_revision :: "nat option"
  c_handoff_status :: "handoff_status option"
  c_updated_at :: "instant option"

definition empty_patch :: session_patch where
  "empty_patch = \<lparr>c_id = None, c_project_id = None, c_title = None, c_icon = None, c_agent_id = None,
     c_harness = None, c_model = None, c_model_effort = None, c_status = None, c_work_status = None,
     c_activity = None, c_todos = None, c_metadata = None, c_imported = None,
     c_parent_session_id = None, c_forked_from_session_id = None, c_attention_revision = None,
     c_environment = None, c_authority_host_id = None, c_authority_revision = None,
     c_handoff_status = None, c_updated_at = None\<rparr>"

section \<open>Events\<close>

datatype stream_field = TextField | OutputField

datatype session_event =
    SessionChanged session_patch
  | TurnChanged turn
  | AttemptChanged attempt
  | ItemAdded item
  | ItemChanged item
  | ItemTextAppended (ta_item: ident) (ta_field: stream_field) (ta_text: string) (ta_at: instant)
  | RequestChanged runtime_request
  | ProviderThreadChanged provider_thread

record stored_event =
  se_session_id :: ident
  se_sequence :: nat
  se_at :: instant
  se_command_id :: "string option"
  se_event :: session_event

record session_snapshot =
  sn_sequence :: nat
  sn_session :: session_fields
  sn_turns :: "turn list"
  sn_attempts :: "attempt list"
  sn_items :: "item list"
  sn_requests :: "runtime_request list"
  sn_provider_threads :: "provider_thread list"
  sn_older_before :: "nat option"

datatype session_stream_message =
    StreamEvents "stored_event list"
  | StreamReset session_snapshot
  | StreamHeartbeat nat

datatype receipt_status = Accepted | Rejected

record command_receipt =
  cr_command_id :: string
  cr_status :: receipt_status
  cr_sequence :: nat
  cr_result :: "json_object option"
  cr_error :: "(string \<times> string) option"

end
