(* ===== verification/Reducer.thy ===== *)
theory Reducer
  imports Protocol
begin

text \<open>
  The client's view of one session, \<open>packages/agent-protocol/src/state.ts\<close>: a snapshot with
  every later event applied. A JavaScript record keyed by id is the list of its values in
  insertion order; \<open>{...record, [v.id]: v}\<close> is \<open>put_row\<close>. The items stay in transcript order.
\<close>

section \<open>The state and its snapshot\<close>

record session_state =
  s_sequence :: nat
  s_session :: session_fields
  s_turns :: "turn list"
  s_attempts :: "attempt list"
  s_items :: "item list"
  s_requests :: "runtime_request list"
  s_provider_threads :: "provider_thread list"
  s_older_before :: "nat option"
  s_stale :: bool

definition by_id :: "('v \<Rightarrow> ident) \<Rightarrow> 'v list \<Rightarrow> 'v list" where
  "by_id key values = fold (put_row key) values []"

text \<open>
  \<open>compareItems\<close> orders by position, then by id. The order is that of the key below, which
  is an instance of the library's linear orders, so sorting and insertion are the library's.
\<close>

datatype item_key = ItemKey (key_position: nat) (key_id: ident)

instantiation item_key :: linorder
begin

definition less_eq_item_key :: "item_key \<Rightarrow> item_key \<Rightarrow> bool" where
  "less_eq_item_key a b \<longleftrightarrow>
     key_position a < key_position b \<or> key_position a = key_position b \<and> key_id a \<le> key_id b"

definition less_item_key :: "item_key \<Rightarrow> item_key \<Rightarrow> bool" where
  "less_item_key a b \<longleftrightarrow>
     key_position a < key_position b \<or> key_position a = key_position b \<and> key_id a < key_id b"

instance
  by standard
    (auto simp: less_eq_item_key_def less_item_key_def item_key.expand intro: item_key.expand)

end

definition item_order :: "item \<Rightarrow> item_key" where
  "item_order i = ItemKey (i_position i) (i_id i)"

definition compare_items :: "item \<Rightarrow> item \<Rightarrow> int" where
  "compare_items a b =
     (if i_position a \<noteq> i_position b then int (i_position a) - int (i_position b)
      else if i_id a < i_id b then -1 else if i_id b < i_id a then 1 else 0)"

lemma compare_items_order: "0 < compare_items a b \<longleftrightarrow> item_order b < item_order a"
  by (auto simp: compare_items_def item_order_def less_item_key_def)

definition session_state_from_snapshot :: "session_snapshot \<Rightarrow> session_state" where
  "session_state_from_snapshot sn =
     \<lparr>s_sequence = sn_sequence sn, s_session = sn_session sn,
      s_turns = by_id t_id (sn_turns sn), s_attempts = by_id a_id (sn_attempts sn),
      s_items = sort_key item_order (sn_items sn), s_requests = by_id r_id (sn_requests sn),
      s_provider_threads = by_id p_id (sn_provider_threads sn),
      s_older_before = sn_older_before sn, s_stale = False\<rparr>"

section \<open>Items\<close>

text \<open>
  \<open>upsertItem\<close>: an item already there keeps the position it was added at; a new one goes
  to the slot found by walking back from the end.
\<close>

fun slot :: "item list \<Rightarrow> item \<Rightarrow> nat \<Rightarrow> nat" where
  "slot items it 0 = 0"
| "slot items it (Suc k) =
     (if 0 < compare_items (items ! k) it then slot items it k else Suc k)"

definition upsert_item :: "item list \<Rightarrow> item \<Rightarrow> item list" where
  "upsert_item items it =
     (if i_id it \<in> i_id ` set items
      then upsert i_id (\<lambda>existing. it\<lparr>i_position := i_position existing\<rparr>) it items
      else (let k = slot items it (length items) in take k items @ it # drop k items))"

text \<open>\<open>appendText\<close>: the item with text appended to its streamed field, or the item itself.\<close>

definition append_text :: "item \<Rightarrow> stream_field \<Rightarrow> string \<Rightarrow> instant \<Rightarrow> item" where
  "append_text it field txt tm =
     (case field of
        OutputField \<Rightarrow>
          (case i_body it of
             Command c d out x \<Rightarrow> it\<lparr>i_body := Command c d (out @ txt) x, i_updated_at := tm\<rparr>
           | _ \<Rightarrow> it)
      | TextField \<Rightarrow>
          (case i_body it of
             AssistantMessage t a \<Rightarrow> it\<lparr>i_body := AssistantMessage (t @ txt) a, i_updated_at := tm\<rparr>
           | Reasoning t \<Rightarrow> it\<lparr>i_body := Reasoning (t @ txt), i_updated_at := tm\<rparr>
           | _ \<Rightarrow> it))"

section \<open>Applying events\<close>

text \<open>\<open>{...state.session, ...event.session}\<close>: fields the change names win.\<close>

definition over :: "'a option \<Rightarrow> 'a \<Rightarrow> 'a" where
  "over new old = (case new of None \<Rightarrow> old | Some v \<Rightarrow> v)"

definition merge_session :: "session_fields \<Rightarrow> session_patch \<Rightarrow> session_fields" where
  "merge_session f c =
     \<lparr>f_id = over (c_id c) (f_id f),
      f_project_id = over (c_project_id c) (f_project_id f),
      f_title = over (c_title c) (f_title f),
      f_icon = over (c_icon c) (f_icon f),
      f_agent_id = over (c_agent_id c) (f_agent_id f),
      f_harness = over (c_harness c) (f_harness f),
      f_model = over (c_model c) (f_model f),
      f_model_effort = over (c_model_effort c) (f_model_effort f),
      f_status = over (c_status c) (f_status f),
      f_work_status = over (c_work_status c) (f_work_status f),
      f_activity = over (c_activity c) (f_activity f),
      f_todos = over (c_todos c) (f_todos f),
      f_metadata = over (c_metadata c) (f_metadata f),
      f_imported = over (c_imported c) (f_imported f),
      f_parent_session_id = over (c_parent_session_id c) (f_parent_session_id f),
      f_forked_from_session_id = over (c_forked_from_session_id c) (f_forked_from_session_id f),
      f_attention_revision = over (c_attention_revision c) (f_attention_revision f),
      f_environment = over (c_environment c) (f_environment f),
      f_authority_host_id = over (c_authority_host_id c) (f_authority_host_id f),
      f_authority_revision = over (c_authority_revision c) (f_authority_revision f),
      f_handoff_status = over (c_handoff_status c) (f_handoff_status f),
      f_updated_at = over (c_updated_at c) (f_updated_at f)\<rparr>"

definition append_at :: "ident \<Rightarrow> stream_field \<Rightarrow> string \<Rightarrow> instant \<Rightarrow> item list \<Rightarrow> item list" where
  "append_at iid field txt tm items =
     (case find_row i_id iid items of
        None \<Rightarrow> items
      | Some it \<Rightarrow> upsert i_id (\<lambda>x. append_text x field txt tm) it items)"

definition apply_one :: "session_state \<Rightarrow> stored_event \<Rightarrow> session_state" where
  "apply_one st stored =
     (let base = st\<lparr>s_sequence := se_sequence stored\<rparr> in
      case se_event stored of
        SessionChanged c \<Rightarrow> base\<lparr>s_session := merge_session (s_session st) c\<rparr>
      | TurnChanged t \<Rightarrow> base\<lparr>s_turns := put_row t_id t (s_turns st)\<rparr>
      | AttemptChanged a \<Rightarrow> base\<lparr>s_attempts := put_row a_id a (s_attempts st)\<rparr>
      | ItemAdded it \<Rightarrow> base\<lparr>s_items := upsert_item (s_items st) it\<rparr>
      | ItemChanged it \<Rightarrow> base\<lparr>s_items := upsert_item (s_items st) it\<rparr>
      | ItemTextAppended iid field txt tm \<Rightarrow> base\<lparr>s_items := append_at iid field txt tm (s_items st)\<rparr>
      | RequestChanged r \<Rightarrow> base\<lparr>s_requests := put_row r_id r (s_requests st)\<rparr>
      | ProviderThreadChanged p \<Rightarrow>
          base\<lparr>s_provider_threads := put_row p_id p (s_provider_threads st)\<rparr>)"

fun apply_session_events :: "session_state \<Rightarrow> stored_event list \<Rightarrow> session_state" where
  "apply_session_events st [] = st"
| "apply_session_events st (e # es) =
     (if s_stale st then st
      else if se_sequence e \<le> s_sequence st then apply_session_events st es
      else if se_sequence e \<noteq> s_sequence st + 1 then st\<lparr>s_stale := True\<rparr>
      else apply_session_events (apply_one st e) es)"

definition with_older_items :: "session_state \<Rightarrow> item list \<Rightarrow> nat option \<Rightarrow> session_state" where
  "with_older_items st page older =
     st\<lparr>s_items := fold (\<lambda>it items. upsert_item items it) page (s_items st), s_older_before := older\<rparr>"

section \<open>Selectors\<close>

definition ordered_turns :: "session_state \<Rightarrow> turn list" where
  "ordered_turns st = sort_key t_ordinal (s_turns st)"

definition active_turn :: "session_state \<Rightarrow> turn option" where
  "active_turn st = find (\<lambda>t. is_active_turn_status (t_status t)) (ordered_turns st)"

text \<open>
  \<open>queuedTurns\<close> sorts by descending priority, then creation, then ordinal: three stable
  sorts, the least significant first.
\<close>

definition queued_turns :: "session_state \<Rightarrow> turn list" where
  "queued_turns st =
     sort_key (\<lambda>t. - t_priority t)
       (sort_key t_created_at
         (sort_key t_ordinal
           (filter (\<lambda>t. t_status t = Queued \<or> t_status t = Held) (s_turns st))))"

definition items_of_turn :: "session_state \<Rightarrow> ident \<Rightarrow> item list" where
  "items_of_turn st tid = filter (\<lambda>it. i_turn_id it = Some tid) (s_items st)"

definition pending_requests :: "session_state \<Rightarrow> runtime_request list" where
  "pending_requests st = sort_key r_created_at (filter (\<lambda>r. r_status r = RPending) (s_requests st))"

definition is_working :: "session_state \<Rightarrow> bool" where
  "is_working st \<longleftrightarrow> active_turn st \<noteq> None"


section \<open>The replay interface\<close>

text \<open>
  What a reader of the session log needs of a reducer: it takes events in sequence order,
  skips what it has, and stops at a gap. \<open>run\<close> is the loop, \<open>step\<close> the application of one
  event. The laws are the loop's equations; the lemmas hold for any such reader.
\<close>

definition follows :: "('e \<Rightarrow> nat) \<Rightarrow> nat \<Rightarrow> 'e list \<Rightarrow> bool" where
  "follows eseq n es \<longleftrightarrow> map eseq es = [Suc n..<Suc n + length es]"

lemma follows_Nil [simp]: "follows eseq n []"
  by (simp add: follows_def)

lemma follows_Cons [simp]: "follows eseq n (e # es) \<longleftrightarrow> eseq e = Suc n \<and> follows eseq (Suc n) es"
  by (auto simp: follows_def upt_conv_Cons)

lemma follows_append:
  "follows eseq n (xs @ ys) \<longleftrightarrow> follows eseq n xs \<and> follows eseq (n + length xs) ys"
  by (induction xs arbitrary: n) auto

lemma follows_nth: "follows eseq n es \<Longrightarrow> k < length es \<Longrightarrow> eseq (es ! k) = Suc (n + k)"
  by (induction es arbitrary: n k) (auto simp: nth_Cons split: nat.splits)

lemma follows_sorted: "follows eseq n es \<Longrightarrow> sorted_wrt (<) (map eseq es)"
  by (simp add: follows_def del: upt_Suc)

lemma follows_inj:
  assumes "follows eseq n es" and "e \<in> set es" and "e' \<in> set es" and "eseq e = eseq e'"
  shows "e = e'"
  using assms follows_nth [OF assms(1)] by (metis Suc_inject add_left_cancel in_set_conv_nth)

locale replay =
  fixes eseq :: "'e \<Rightarrow> nat"
    and seq :: "'s \<Rightarrow> nat"
    and stale :: "'s \<Rightarrow> bool"
    and mark :: "'s \<Rightarrow> 's"
    and step :: "'s \<Rightarrow> 'e \<Rightarrow> 's"
    and run :: "'s \<Rightarrow> 'e list \<Rightarrow> 's"
  assumes seq_step: "seq (step s e) = eseq e"
    and stale_step: "stale (step s e) = stale s"
    and seq_mark: "seq (mark s) = seq s"
    and stale_mark: "stale (mark s)"
    and run_Nil: "run s [] = s"
    and run_Cons: "run s (e # es) =
      (if stale s then s else if eseq e \<le> seq s then run s es
       else if eseq e \<noteq> seq s + 1 then mark s else run (step s e) es)"
begin

lemma run_stale: "stale s \<Longrightarrow> run s es = s"
  by (cases es) (simp_all add: run_Nil run_Cons)

lemma run_append: "run s (xs @ ys) = run (run s xs) ys"
  by (induction xs arbitrary: s) (auto simp: run_Nil run_Cons run_stale stale_mark)

lemma run_old: "\<forall>e \<in> set es. eseq e \<le> seq s \<Longrightarrow> run s es = s"
  by (induction es) (auto simp: run_Nil run_Cons)

lemma seq_run_mono: "seq s \<le> seq (run s es)"
proof (induction es arbitrary: s)
  case Nil
  then show ?case by (simp add: run_Nil)
next
  case (Cons e es)
  show ?case using Cons [of s] Cons [of "step s e"]
    by (auto simp: run_Cons seq_step seq_mark)
qed

text \<open>A reader that was not told to reload has everything it was sent.\<close>

lemma run_covers: "\<not> stale (run s es) \<Longrightarrow> e \<in> set es \<Longrightarrow> eseq e \<le> seq (run s es)"
proof (induction es arbitrary: s)
  case Nil
  then show ?case by simp
next
  case (Cons x es)
  show ?case
    using Cons.IH [of s] Cons.IH [of "step s x"] Cons.prems
      seq_run_mono [of s es] seq_run_mono [of "step s x" es]
    by (auto simp: run_Cons seq_step stale_mark split: if_splits)
qed

lemma run_idempotent: "run (run s es) es = run s es"
  using run_covers run_old run_stale by blast

text \<open>In order and without a gap, the loop applies every event.\<close>

lemma run_follows:
  "\<not> stale s \<Longrightarrow> follows eseq (seq s) es \<Longrightarrow>
   run s es = foldl step s es \<and> seq (run s es) = seq s + length es \<and> \<not> stale (run s es)"
proof (induction es arbitrary: s)
  case Nil
  then show ?case by (simp add: run_Nil)
next
  case (Cons e es)
  with Cons.IH [of "step s e"] show ?case by (simp add: run_Cons seq_step stale_step)
qed

lemma run_gap:
  "\<not> stale s \<Longrightarrow> seq s + 1 < eseq e \<Longrightarrow> run s (e # es) = mark s"
  by (simp add: run_Cons)

end

lemma apply_one_frame:
  "s_sequence (apply_one st e) = se_sequence e" "s_stale (apply_one st e) = s_stale st"
  "s_older_before (apply_one st e) = s_older_before st"
  by (simp_all add: apply_one_def Let_def split: session_event.splits)

interpretation reader: replay se_sequence s_sequence s_stale "\<lambda>st. st\<lparr>s_stale := True\<rparr>"
    apply_one apply_session_events
  by unfold_locales (simp_all add: apply_one_frame)

section \<open>Order and identity of the transcript\<close>

definition transcript :: "item list \<Rightarrow> bool" where
  "transcript items \<longleftrightarrow> sorted_wrt (<) (map item_order items) \<and> unique_keys i_id items"

lemma item_order_inj: "i_id a \<noteq> i_id b \<Longrightarrow> item_order a \<noteq> item_order b"
  by (simp add: item_order_def)

lemma slot_le: "slot items it n \<le> n"
  by (induction n) auto

lemma slot_before:
  "n \<le> length items \<Longrightarrow> sorted_wrt (<) (map item_order items) \<Longrightarrow>
   x \<in> set (take (slot items it n) items) \<Longrightarrow> item_order x \<le> item_order it"
proof (induction n)
  case 0
  then show ?case by simp
next
  case (Suc n)
  show ?case
  proof (cases "0 < compare_items (items ! n) it")
    case True
    with Suc show ?thesis by simp
  next
    case False
    with Suc.prems have x: "x \<in> set (take (Suc n) items)" by simp
    from False have "item_order (items ! n) \<le> item_order it" by (simp add: compare_items_order not_less)
    moreover from x obtain j where "j < Suc n" "x = items ! j" "j < length items"
      using Suc.prems(1) by (auto simp: in_set_conv_nth)
    moreover have "j < n \<Longrightarrow> item_order (items ! j) < item_order (items ! n)"
      using Suc.prems(1,2) by (simp add: sorted_wrt_iff_nth_less)
    ultimately show ?thesis by (metis less_antisym order.strict_implies_order order.trans)
  qed
qed

lemma slot_after:
  "n \<le> length items \<Longrightarrow> x \<in> set (drop (slot items it n) (take n items)) \<Longrightarrow> item_order it < item_order x"
proof (induction n)
  case 0
  then show ?case by simp
next
  case (Suc n)
  show ?case
  proof (cases "0 < compare_items (items ! n) it")
    case True
    have "take (Suc n) items = take n items @ [items ! n]"
      using Suc.prems(1) by (simp add: take_Suc_conv_app_nth)
    moreover have "slot items it n \<le> length (take n items)"
      using slot_le [of items it n] Suc.prems(1) by simp
    ultimately have "x \<in> set (drop (slot items it n) (take n items)) \<or> x = items ! n"
      using Suc.prems(2) True by auto
    with Suc True show ?thesis by (auto simp: compare_items_order)
  next
    case False
    with Suc.prems show ?thesis by simp
  qed
qed

lemma upsert_keeps_keys:
  "(\<And>x. x \<in> set xs \<Longrightarrow> key x = key r \<Longrightarrow> g (upd x) = g x) \<Longrightarrow> key r \<in> key ` set xs \<Longrightarrow>
   map g (upsert key upd r xs) = map g xs"
  by (induction xs) auto

lemma transcript_upsert_item:
  assumes "transcript items"
  shows "transcript (upsert_item items it)"
proof (cases "i_id it \<in> i_id ` set items")
  case True
  let ?upd = "\<lambda>x. it\<lparr>i_position := i_position x\<rparr>"
  have "map item_order (upsert i_id ?upd it items) = map item_order items"
    using True by (intro upsert_keeps_keys) (auto simp: item_order_def)
  moreover have "map i_id (upsert i_id ?upd it items) = map i_id items"
    using True by (intro upsert_keeps_keys) auto
  ultimately show ?thesis using assms True by (simp add: transcript_def upsert_item_def unique_keys_def)
next
  case False
  let ?k = "slot items it (length items)"
  have parts: "items = take ?k items @ drop ?k items" by simp
  have sorted: "sorted_wrt (<) (map item_order items)" using assms by (simp add: transcript_def)
  have below: "\<forall>x \<in> set (take ?k items). item_order x < item_order it"
  proof
    fix x assume x: "x \<in> set (take ?k items)"
    with slot_before [of "length items" items x it] sorted have "item_order x \<le> item_order it" by simp
    moreover from x False have "item_order x \<noteq> item_order it"
      by (metis image_eqI in_set_takeD item_order_inj)
    ultimately show "item_order x < item_order it" by simp
  qed
  have above: "\<forall>x \<in> set (drop ?k items). item_order it < item_order x"
    using slot_after [of "length items" items _ it] by simp
  have "sorted_wrt (<) (map item_order (take ?k items @ drop ?k items))" using sorted by simp
  then have "sorted_wrt (<) (map item_order (take ?k items @ it # drop ?k items))"
    using below above by (auto simp: sorted_wrt_append simp del: append_take_drop_id)
  moreover have "unique_keys i_id (take ?k items @ it # drop ?k items)"
  proof -
    have "distinct (map i_id (take ?k items) @ map i_id (drop ?k items))"
      using assms by (simp add: transcript_def unique_keys_def flip: map_append)
    moreover have "i_id it \<notin> set (map i_id (take ?k items) @ map i_id (drop ?k items))"
      using False by (simp flip: map_append)
    ultimately show ?thesis by (auto simp: unique_keys_def)
  qed
  ultimately show ?thesis using False by (simp add: transcript_def upsert_item_def Let_def)
qed

lemma append_text_frame [simp]:
  "i_id (append_text it field txt tm) = i_id it" "i_position (append_text it field txt tm) = i_position it"
  "item_order (append_text it field txt tm) = item_order it"
  by (auto simp: append_text_def item_order_def split: stream_field.splits item_body.splits)

lemma append_at_keys:
  "map i_id (append_at iid field txt tm items) = map i_id items"
  "map item_order (append_at iid field txt tm items) = map item_order items"
proof -
  have "it \<in> set items \<Longrightarrow> map g (upsert i_id (\<lambda>x. append_text x field txt tm) it items) = map g items"
    if "\<And>x. g (append_text x field txt tm) = g x" for it and g :: "item \<Rightarrow> 'x"
    using that by (intro upsert_keeps_keys) auto
  note this [of i_id] this [of item_order]
  then show "map i_id (append_at iid field txt tm items) = map i_id items"
    "map item_order (append_at iid field txt tm items) = map item_order items"
    by (auto simp: append_at_def dest: find_row_Some split: option.splits)
qed

lemma transcript_append_at: "transcript items \<Longrightarrow> transcript (append_at iid field txt tm items)"
  by (simp add: transcript_def unique_keys_def append_at_keys)

lemma transcript_apply_one: "transcript (s_items st) \<Longrightarrow> transcript (s_items (apply_one st e))"
  by (auto simp: apply_one_def Let_def transcript_upsert_item transcript_append_at
      split: session_event.splits)

lemma transcript_apply_events:
  "transcript (s_items st) \<Longrightarrow> transcript (s_items (apply_session_events st es))"
  by (induction st es rule: apply_session_events.induct) (auto simp: transcript_apply_one)

lemma transcript_older:
  "transcript (s_items st) \<Longrightarrow> transcript (s_items (with_older_items st page older))"
proof -
  have "transcript items \<Longrightarrow> transcript (fold (\<lambda>it items. upsert_item items it) page items)" for items
    by (induction page arbitrary: items) (auto simp: transcript_upsert_item)
  then show "transcript (s_items st) \<Longrightarrow> transcript (s_items (with_older_items st page older))"
    by (simp add: with_older_items_def)
qed

text \<open>A new item is added after everything with a smaller position: at the end of the log.\<close>

lemma upsert_item_last:
  assumes "i_id it \<notin> i_id ` set items" and "\<forall>x \<in> set items. i_position x < i_position it"
  shows "upsert_item items it = items @ [it]"
proof -
  have "slot items it (length items) = length items"
  proof (cases "length items")
    case (Suc n)
    then have "items ! n \<in> set items" by simp
    with assms have "compare_items (items ! n) it \<le> 0" by (auto simp: compare_items_def)
    with Suc show ?thesis by simp
  qed simp
  with assms show ?thesis by (simp add: upsert_item_def)
qed

end
