(* ===== verification/Runner.thy ===== *)
theory Runner
  imports Protocol
begin

text \<open>
  The agent runner protocol, \<open>packages/agent-protocol/src/runner.ts\<close>: what a runner reports
  (harness events, host calls, frames), where it is
  (\<open>packages/core/src/services/sessions/runner-channels.ts\<close>), and how its frames are framed as
  lines. A frame's JSON is read and written by \<open>JSON.parse\<close> and \<open>JSON.stringify\<close>; the lines here
  carry its text.
\<close>

section \<open>Capabilities and location\<close>

datatype native_state_kind = StoreState | FileState | NoneState

record harness_capabilities =
  hc_steer :: bool
  hc_interrupt :: bool
  hc_retry :: bool
  hc_fork :: bool
  hc_rollback :: bool
  hc_questions :: bool
  hc_approvals :: bool
  hc_elicitations :: bool
  hc_tool_search :: bool
  hc_subagents :: bool
  hc_streams_text :: bool
  hc_streams_reasoning :: bool
  hc_native_state :: native_state_kind
  hc_thread_ids :: ref_strength
  hc_turn_ids :: ref_strength
  hc_item_ids :: ref_strength

definition NO_CAPABILITIES :: harness_capabilities where
  "NO_CAPABILITIES = \<lparr>hc_steer = False, hc_interrupt = False, hc_retry = False, hc_fork = False,
     hc_rollback = False, hc_questions = False, hc_approvals = False, hc_elicitations = False,
     hc_tool_search = False, hc_subagents = False, hc_streams_text = False,
     hc_streams_reasoning = False, hc_native_state = NoneState, hc_thread_ids = NoStrength,
     hc_turn_ids = NoStrength, hc_item_ids = NoStrength\<rparr>"

datatype runner_location =
    InProcess (loc_process: ident) (loc_runner_id: ident)
  | SandboxProcess (loc_allocation_id: ident) (loc_sandbox_id: ident) (loc_process_id: ident)

section \<open>Harness events\<close>

text \<open>\<open>ItemDraft\<close>: an item's payload, and the subagent's key it nests under.\<close>

record item_draft =
  id_body :: item_body
  id_parent_key :: "ident option"

text \<open>
  What a harness may send of an item it changes. \<open>Partial<ItemPayload>\<close> names the fields of the
  kinds a harness may start; an object that arrives as JSON can also carry the fields every item
  has, so they are here too. \<open>kind\<close> is a constructor of the payload and cannot be named.
\<close>

record item_changes =
  ch_id :: "ident option"
  ch_session_id :: "ident option"
  ch_turn_id :: "ident option option"
  ch_attempt_id :: "ident option option"
  ch_parent_item_id :: "ident option option"
  ch_position :: "nat option"
  ch_created_at :: "instant option"
  ch_text :: "string option"
  ch_agent_id :: "ident option option"
  ch_tool :: "string option"
  ch_server :: "string option option"
  ch_description :: "string option option"
  ch_input :: "json option"
  ch_result :: "json option option"
  ch_error :: "string option option"
  ch_command :: "string option"
  ch_output :: "string option"
  ch_exit_code :: "int option option"
  ch_path :: "string option"
  ch_change :: "item_change option option"
  ch_previous :: "string option option"
  ch_steps :: "plan_step list option"
  ch_title :: "string option"
  ch_agent_type :: "string option option"
  ch_child_session :: "ident option option"
  ch_sub_result :: "string option option"

definition no_changes :: item_changes where
  "no_changes = \<lparr>ch_id = None, ch_session_id = None, ch_turn_id = None, ch_attempt_id = None,
     ch_parent_item_id = None, ch_position = None, ch_created_at = None, ch_text = None,
     ch_agent_id = None, ch_tool = None, ch_server = None, ch_description = None, ch_input = None,
     ch_result = None, ch_error = None, ch_command = None, ch_output = None, ch_exit_code = None,
     ch_path = None, ch_change = None, ch_previous = None, ch_steps = None, ch_title = None,
     ch_agent_type = None, ch_child_session = None, ch_sub_result = None\<rparr>"

text \<open>The request a harness opens (\<open>RequestDraft\<close>).\<close>

record request_draft =
  rd_kind :: request_kind
  rd_blocking :: bool
  rd_title :: string
  rd_description :: "string option"
  rd_origin :: request_origin
  rd_questions :: "agent_question list option"
  rd_approval :: "approval_ask option"
  rd_elicitation :: "elicitation_ask option"

datatype diagnostic_level = InfoLevel | WarnLevel | ErrorLevel
datatype completion_status = TurnDone | TurnFailed | TurnInterrupted

datatype harness_event =
    ThreadEvent (he_ref: native_ref) (he_state_path: "string option")
  | ThreadLost (he_reason: string)
  | TurnStarted (he_turn_ref: "native_ref option")
  | ItemStarted (he_key: string) (he_item_ref: "native_ref option") (he_draft: item_draft)
      (he_status: "item_status option") (he_activity: "string option")
  | ItemDelta (he_key: string) (he_field: stream_field) (he_text: string)
  | ItemUpdated (he_key: string) (he_changes: item_changes)
  | ItemEnded (he_key: string) (he_end: item_status) (he_last: "item_changes option")
  | RequestOpened (he_key: string) (he_request: request_draft)
  | RequestClosed (he_key: string) (he_reason: string)
  | InputConsumed (he_items: "ident list")
  | StatusLine (he_text: string)
  | ProviderRetrying (he_retry: provider_retry)
  | ProviderResumed
  | TitleEvent (he_text: string)
  | UsageEvent (he_usage: agent_turn_usage)
  | Diagnostic diagnostic_level (he_text: string)
  | TurnEnded (he_completion: completion_status) (he_error: "turn_error option")
      (he_end_ref: "native_ref option")

section \<open>Host calls and frames\<close>

datatype host_call =
    ToolCallHost (hc_name: string) (hc_input: json) (hc_item_key: "string option")
  | NativeAppend (hc_thread: "ident option") (hc_subpath: "string option") (hc_entries: "json list")
  | NativeLoad (hc_thread: "ident option") (hc_subpath: "string option")
  | NativeSubpaths (hc_thread: "ident option")

datatype frame_body =
    Hello (fr_protocol: nat) (fr_version: string) (fr_harness: ident) (fr_capabilities: harness_capabilities)
  | Ack (fr_command_id: string) (fr_error: "string option")
  | EventFrame (fr_event: harness_event)
  | CallFrame (fr_call_id: ident) (fr_call: host_call)
  | Exit (fr_exit_error: "(string \<times> agent_error_kind option) option")

record runner_frame =
  fr_seq :: nat
  fr_body :: frame_body

section \<open>Framing\<close>

text \<open>A frame's line starts with an ASCII record separator and ends with a newline.\<close>

definition FRAME_MARK :: char where "FRAME_MARK = char_of (30::nat)"
definition NEWLINE :: char where "NEWLINE = char_of (10::nat)"
definition RUNNER_LINE_MAX_BYTES :: nat where "RUNNER_LINE_MAX_BYTES = 8 * 1024 * 1024"

definition encode_line :: "string \<Rightarrow> string" where
  "encode_line payload = FRAME_MARK # payload @ [NEWLINE]"

lemma frame_chars: "FRAME_MARK = CHR 0x1E" "NEWLINE = CHR 0x0A" "char_of (13::nat) = CHR 0x0D"
  by code_simp+

text \<open>\<open>buffer.indexOf(c, start)\<close>.\<close>

definition index_of :: "char \<Rightarrow> string \<Rightarrow> nat \<Rightarrow> nat option" where
  "index_of c buffer start =
     (let n = length (takeWhile (\<lambda>x. x \<noteq> c) (drop start buffer))
      in if start + n < length buffer then Some (start + n) else None)"

lemma index_of_Some:
  "index_of c buffer start = Some e \<Longrightarrow>
   start \<le> e \<and> e < length buffer \<and> buffer ! e = c \<and> c \<notin> set (take (e - start) (drop start buffer))"
proof -
  assume e: "index_of c buffer start = Some e"
  define d where "d = drop start buffer"
  define n where "n = length (takeWhile (\<lambda>x. x \<noteq> c) d)"
  from e have n: "start + n < length buffer" "e = start + n"
    by (auto simp: index_of_def d_def n_def Let_def split: if_splits)
  then have less: "n < length d" by (simp add: d_def)
  then have "\<not> (d ! n \<noteq> c)" using nth_length_takeWhile [of "\<lambda>x. x \<noteq> c" d] by (simp add: n_def)
  moreover have "take n d = takeWhile (\<lambda>x. x \<noteq> c) d" by (metis n_def takeWhile_eq_take)
  then have "c \<notin> set (take n d)" using set_takeWhileD by fastforce
  ultimately show ?thesis using n less by (simp add: d_def)
qed

lemma index_of_None: "index_of c buffer start = None \<Longrightarrow> c \<notin> set (drop start buffer)"
proof -
  have "length (takeWhile (\<lambda>x. x \<noteq> c) ys) < length ys" if "c \<in> set ys" for ys
    using that by (induction ys) auto
  moreover assume "index_of c buffer start = None"
  ultimately show ?thesis by (force simp: index_of_def Let_def split: if_splits)
qed

function split_from :: "string \<Rightarrow> nat \<Rightarrow> string list \<times> string" where
  "split_from buffer start =
     (case index_of NEWLINE buffer start of
        None \<Rightarrow> ([], drop start buffer)
      | Some e \<Rightarrow>
          (let (lines, rest) = split_from buffer (e + 1)
           in (take (e - start) (drop start buffer) # lines, rest)))"
  by pat_completeness auto
termination
  by (relation "measure (\<lambda>(buffer, start). length buffer - start)") (auto dest: index_of_Some)

declare split_from.simps [simp del]

definition split_buffer :: "string \<Rightarrow> string list \<times> string" where
  "split_buffer buffer = split_from buffer 0"

definition frame_payload :: "string \<Rightarrow> string option" where
  "frame_payload line =
     (let trimmed = (if line \<noteq> [] \<and> last line = char_of (13::nat) then butlast line else line)
      in case trimmed of [] \<Rightarrow> None | c # payload \<Rightarrow> if c = FRAME_MARK then Some payload else None)"

section \<open>Lines and streams\<close>

definition stream_of :: "string list \<Rightarrow> string" where
  "stream_of lines = concat (map (\<lambda>l. l @ [NEWLINE]) lines)"

lemma stream_of_append [simp]: "stream_of (xs @ ys) = stream_of xs @ stream_of ys"
  by (simp add: stream_of_def)

lemma stream_of_simps [simp]: "stream_of [] = []" "stream_of (l # ls) = l @ NEWLINE # stream_of ls"
  by (simp_all add: stream_of_def)

text \<open>The loop of \<open>splitLines\<close>: what it returns is the text again, cut at its newlines.\<close>

lemma split_from_correct:
  assumes "split_from buffer start = (lines, rest)"
  shows "drop start buffer = stream_of lines @ rest" and "\<forall>l \<in> set lines. NEWLINE \<notin> set l"
    and "NEWLINE \<notin> set rest"
proof -
  have "drop start buffer = stream_of lines @ rest \<and> (\<forall>l \<in> set lines. NEWLINE \<notin> set l) \<and> NEWLINE \<notin> set rest"
    using assms
  proof (induction buffer start arbitrary: lines rest rule: split_from.induct)
    case (1 buffer start)
    show ?case
    proof (cases "index_of NEWLINE buffer start")
      case None
      with 1(2) show ?thesis by (auto simp: split_from.simps dest: index_of_None)
    next
      case (Some e)
      obtain ls r where rec: "split_from buffer (e + 1) = (ls, r)" by fastforce
      with 1(2) Some have res: "lines = take (e - start) (drop start buffer) # ls" "rest = r"
        by (simp_all add: split_from.simps [of buffer start])
      note e = index_of_Some [OF Some]
      have "drop start buffer = take (e - start) (drop start buffer) @ drop e buffer"
        using e by (metis append_take_drop_id drop_drop le_add_diff_inverse2)
      also have "drop e buffer = NEWLINE # drop (e + 1) buffer" using e by (metis Cons_nth_drop_Suc Suc_eq_plus1)
      finally show ?thesis using 1(1) [OF Some rec] e res by simp
    qed
  qed
  then show "drop start buffer = stream_of lines @ rest" "\<forall>l \<in> set lines. NEWLINE \<notin> set l" "NEWLINE \<notin> set rest" by auto
qed

text \<open>Cutting at newlines is unique.\<close>

lemma lines_unique:
  assumes "stream_of xs @ r = stream_of ys @ s" and "\<forall>l \<in> set xs \<union> set ys. NEWLINE \<notin> set l"
    and "NEWLINE \<notin> set r" and "NEWLINE \<notin> set s"
  shows "xs = ys \<and> r = s"
  using assms
proof (induction xs arbitrary: ys)
  case Nil
  then show ?case by (cases ys) auto
next
  case (Cons x xs)
  show ?case
  proof (cases ys)
    case Nil
    with Cons.prems show ?thesis by (metis Un_iff append_Nil in_set_conv_decomp stream_of_simps append.assoc append_Cons)
  next
    case (Cons y ys')
    have nl: "NEWLINE \<notin> set x" "NEWLINE \<notin> set y" using Cons.prems(2) Cons by auto
    have eq: "x @ NEWLINE # (stream_of xs @ r) = y @ NEWLINE # (stream_of ys' @ s)"
      using Cons.prems(1) Cons by simp
    have cut: "takeWhile (\<lambda>c. c \<noteq> NEWLINE) (z @ NEWLINE # w) = z" if "NEWLINE \<notin> set z" for z w
      using that by (simp add: takeWhile_append)
    from eq cut [OF nl(1)] cut [OF nl(2)] have "x = y" by metis
    with eq have "stream_of xs @ r = stream_of ys' @ s" by simp
    with Cons.IH [of ys'] Cons.prems Cons \<open>x = y\<close> show ?thesis by auto
  qed
qed

lemma split_buffer_stream:
  assumes "\<forall>l \<in> set lines. NEWLINE \<notin> set l" and "NEWLINE \<notin> set rest"
  shows "split_buffer (stream_of lines @ rest) = (lines, rest)"
proof -
  obtain ls r where run: "split_buffer (stream_of lines @ rest) = (ls, r)" by fastforce
  from split_from_correct [OF run [unfolded split_buffer_def]] assms
  have "lines = ls \<and> rest = r" by (intro lines_unique) auto
  with run show ?thesis by simp
qed

text \<open>Reading lines in pieces is reading them whole: the rest of a piece starts the next.\<close>

fun feed_lines :: "string \<Rightarrow> string list \<Rightarrow> string list \<times> string" where
  "feed_lines partial [] = ([], partial)"
| "feed_lines partial (piece # pieces) =
     (let (lines, rest) = split_buffer (partial @ piece);
          (more_lines, left) = feed_lines rest pieces
      in (lines @ more_lines, left))"

lemma feed_lines_whole:
  assumes "NEWLINE \<notin> set partial"
  shows "feed_lines partial pieces = split_buffer (partial @ concat pieces)"
  using assms
proof (induction pieces arbitrary: partial)
  case Nil
  then show ?case using split_buffer_stream [of "[]" partial] by simp
next
  case (Cons piece pieces)
  obtain lines rest where one: "split_buffer (partial @ piece) = (lines, rest)" by fastforce
  obtain ls left where two: "split_buffer (rest @ concat pieces) = (ls, left)" by fastforce
  note c1 = split_from_correct [OF one [unfolded split_buffer_def]]
    and c2 = split_from_correct [OF two [unfolded split_buffer_def]]
  have "partial @ piece @ concat pieces = stream_of (lines @ ls) @ left"
    using c1(1) c2(1) by (metis append.assoc drop0 stream_of_append)
  with split_buffer_stream [of "lines @ ls" left] c1(2) c2(2,3)
  have "split_buffer (partial @ piece @ concat pieces) = (lines @ ls, left)" by auto
  with one two Cons.IH [OF c1(3)] show ?case by (simp add: append.assoc)
qed

text \<open>Every frame arrives, once and in order, however its bytes are split. A stream of
  encoded frames, with anything a harness printed between them, read in pieces of any sizes,
  yields the frames' payloads in order, and nothing is left over.\<close>

theorem frames_survive_chunking:
  assumes "concat pieces = concat (map (\<lambda>l. case l of Inl noise \<Rightarrow> noise @ [NEWLINE] | Inr payload \<Rightarrow> encode_line payload) ls)"
    and "\<forall>noise. Inl noise \<in> set ls \<longrightarrow> NEWLINE \<notin> set noise \<and> (noise = [] \<or> hd noise \<noteq> FRAME_MARK)"
    and "\<forall>payload. Inr payload \<in> set ls \<longrightarrow> NEWLINE \<notin> set payload \<and> (payload = [] \<or> last payload \<noteq> char_of (13::nat))"
  shows "case feed_lines [] pieces of (lines, left) \<Rightarrow>
     left = [] \<and> concat (map (\<lambda>l. case frame_payload l of None \<Rightarrow> [] | Some p \<Rightarrow> [p]) lines) =
       concat (map (\<lambda>l. case l of Inl _ \<Rightarrow> [] | Inr payload \<Rightarrow> [payload]) ls)"
proof -
  define line where "line = (\<lambda>l. case l of Inl noise \<Rightarrow> noise | Inr payload \<Rightarrow> FRAME_MARK # payload)"
  have mark: "FRAME_MARK \<noteq> NEWLINE" "FRAME_MARK \<noteq> char_of (13::nat)" by (simp_all add: FRAME_MARK_def NEWLINE_def)
  have "concat pieces = stream_of (map line ls) @ []"
    unfolding assms(1) by (induction ls) (auto simp: line_def encode_line_def split: sum.splits)
  moreover have "\<forall>l \<in> set (map line ls). NEWLINE \<notin> set l"
    using assms(2,3) mark by (auto simp: line_def split: sum.splits)
  ultimately have fed: "feed_lines [] pieces = (map line ls, [])"
    using feed_lines_whole [of "[]" pieces] split_buffer_stream [of "map line ls" "[]"] by simp
  have "(case frame_payload (line l) of None \<Rightarrow> [] | Some p \<Rightarrow> [p]) = (case l of Inl _ \<Rightarrow> [] | Inr payload \<Rightarrow> [payload])"
    if "l \<in> set ls" for l
  proof (cases l)
    case (Inl noise)
    with assms(2) that have noise: "noise = [] \<or> hd noise \<noteq> FRAME_MARK" by blast
    have "hd (butlast noise) = hd noise" if "butlast noise \<noteq> []"
      using that by (cases noise) auto
    with noise Inl show ?thesis
      by (auto simp: line_def frame_payload_def Let_def split: list.splits)
  next
    case (Inr payload)
    with assms(3) that mark show ?thesis by (auto simp: line_def frame_payload_def)
  qed
  then have "concat (map (\<lambda>l. case frame_payload l of None \<Rightarrow> [] | Some p \<Rightarrow> [p]) (map line ls)) =
      concat (map (\<lambda>l. case l of Inl _ \<Rightarrow> [] | Inr payload \<Rightarrow> [payload]) ls)"
    by (induction ls) auto
  with fed show ?thesis by simp
qed

theorem frames_survive_chunking_witness:
  "feed_lines [] [FRAME_MARK # ''on'', ''e'' @ [NEWLINE], ''warn'' @ [NEWLINE] @ encode_line ''two''] =
     ([FRAME_MARK # ''one'', ''warn'', FRAME_MARK # ''two''], []) \<and>
   concat (map (\<lambda>l. case frame_payload l of None \<Rightarrow> [] | Some p \<Rightarrow> [p]) [FRAME_MARK # ''one'', ''warn'', FRAME_MARK # ''two'']) =
     [''one'', ''two'']"
proof -
  let ?pieces = "[FRAME_MARK # ''on'', ''e'' @ [NEWLINE], ''warn'' @ [NEWLINE] @ encode_line ''two'']"
  have fed: "feed_lines [] ?pieces = ([FRAME_MARK # ''one'', ''warn'', FRAME_MARK # ''two''], [])" by code_simp
  have "case feed_lines [] ?pieces of (lines, left) \<Rightarrow>
     left = [] \<and> concat (map (\<lambda>l. case frame_payload l of None \<Rightarrow> [] | Some p \<Rightarrow> [p]) lines) =
       concat (map (\<lambda>l. case l of Inl _ \<Rightarrow> [] | Inr payload \<Rightarrow> [payload]) [Inr ''one'', Inl ''warn'', Inr ''two''])"
    by (rule frames_survive_chunking) (auto simp: encode_line_def frame_chars)
  with fed show ?thesis by simp
qed

end
