(* ===== verification/Session_Rows.thy ===== *)
theory Session_Rows
  imports Runner
begin

text \<open>
  The projection tables of the session log and their readers
  (\<open>packages/core/src/services/sessions/session-rows.ts\<close>, columns as in
  \<open>packages/db/migrations/045_agent_session_log.sql\<close>). A table is the list of its rows; a text
  column restricted by a CHECK constraint holds the enumeration it spells, a \<open>jsonb\<close> column
  the value written into it, and a \<open>timestamptz\<close> column an instant. The engine's own columns
  (leases, availability, the runner's state) are here too: other operations read them.
\<close>

section \<open>Rows\<close>

record session_row =
  sr_fields :: session_fields
  sr_event_sequence :: nat
  sr_rewind_until :: "instant option"
  sr_allocation_id :: "ident option"

record turn_row =
  tr_id :: ident
  tr_session_id :: ident
  tr_ordinal :: nat
  tr_status :: turn_status
  tr_input_item_id :: "ident option"
  tr_dispatch :: turn_dispatch
  tr_priority :: int
  tr_available_at :: instant
  tr_lease_owner :: "ident option"
  tr_lease_token :: "ident option"
  tr_lease_expires_at :: "instant option"
  tr_cancellation_requested_at :: "instant option"
  tr_activity :: "string option"
  tr_activity_at :: "instant option"
  tr_provider_retry :: "provider_retry option"
  tr_attempt_count :: nat
  tr_active_attempt_id :: "ident option"
  tr_provider_thread_id :: "ident option"
  tr_error :: "turn_error option"
  tr_outcome :: "turn_outcome option"
  tr_checkpoint_before :: "string option"
  tr_checkpoint_after :: "string option"
  tr_continuation_of :: "ident option"
  tr_created_at :: instant
  tr_started_at :: "instant option"
  tr_completed_at :: "instant option"
  tr_updated_at :: instant

text \<open>
  What an attempt's row keeps about its runner (\<open>RunnerState\<close> of \<open>turn-engine.ts\<close>). A flag that may
  be left out is false; the calls taken and the appends applied are objects keyed by call.
\<close>

datatype owner_only_cause = SignIn | Credentials

record runner_state =
  rs_location :: runner_location
  rs_cursor :: nat
  rs_hello :: "(ident \<times> harness_capabilities) option"
  rs_calls :: "(ident \<times> host_call) list"
  rs_applied :: "ident list"
  rs_owner_only :: bool
  rs_owner_only_because :: "owner_only_cause option"
  rs_restart_with :: "ident list"
  rs_ended :: bool
  rs_consumed :: "ident list"
  rs_started :: bool
  rs_interrupt_sent_at :: "instant option"

record attempt_row =
  ar_attempt :: attempt
  ar_runner :: "runner_state option"
  ar_provider_started_at :: "instant option"

datatype item_kind =
    KUserMessage | KInboundMessage | KTaskNotification | KAssistantMessage | KReasoning | KToolCall
  | KCommand | KFileChange | KPlan | KRequest | KSubagent | KNotice | KContextHandoff

fun kind_of :: "item_body \<Rightarrow> item_kind" where
  "kind_of (UserMessage _ _ _ _ _) = KUserMessage"
| "kind_of (InboundMessage _ _ _ _ _) = KInboundMessage"
| "kind_of (TaskNotification _ _ _ _ _) = KTaskNotification"
| "kind_of (AssistantMessage _ _) = KAssistantMessage"
| "kind_of (Reasoning _) = KReasoning"
| "kind_of (ToolCall _ _ _ _ _ _) = KToolCall"
| "kind_of (Command _ _ _ _) = KCommand"
| "kind_of (FileChange _ _ _) = KFileChange"
| "kind_of (Plan _) = KPlan"
| "kind_of (RequestBody _) = KRequest"
| "kind_of (Subagent _ _ _ _) = KSubagent"
| "kind_of (Notice _ _ _) = KNotice"
| "kind_of (ContextHandoff _ _ _ _ _) = KContextHandoff"

definition INPUT_ITEM_KINDS :: "item_kind list" where
  "INPUT_ITEM_KINDS = [KUserMessage, KInboundMessage, KTaskNotification]"

lemma input_kinds: "kind_of (i_body it) \<in> set INPUT_ITEM_KINDS \<longleftrightarrow> is_input_item it"
  by (cases "i_body it") (auto simp: INPUT_ITEM_KINDS_def is_input_item_def)

datatype author_kind = ByUser | ByAgent | ByAssistant | ByWorkflow | BySystem

record item_row =
  ir_id :: ident
  ir_session_id :: ident
  ir_turn_id :: "ident option"
  ir_attempt_id :: "ident option"
  ir_parent_item_id :: "ident option"
  ir_position :: nat
  ir_kind :: item_kind
  ir_status :: item_status
  ir_text :: string
  ir_author_kind :: "author_kind option"
  ir_dispatch :: "dispatch_mode option"
  ir_attention :: bool
  ir_idempotency_key :: "string option"
  ir_payload :: item
  ir_created_at :: instant
  ir_updated_at :: instant

record request_row =
  rr_session_id :: ident
  rr_request_id :: ident
  rr_turn_id :: "ident option"
  rr_attempt_id :: "ident option"
  rr_item_id :: "ident option"
  rr_kind :: request_kind
  rr_payload :: runtime_request
  rr_status :: request_status
  rr_answerable :: bool
  rr_blocking :: bool
  rr_expires_at :: "instant option"
  rr_response :: "request_response option"
  rr_resolved_by :: "ident option"
  rr_resolved_at :: "instant option"
  rr_reason :: "string option"
  rr_created_at :: instant
  rr_updated_at :: instant
  rr_revision :: nat

record receipt_row =
  cw_session_id :: ident
  cw_type :: string
  cw_external_user_id :: "ident option"
  cw_receipt :: command_receipt

datatype turn_command_kind = CSteer | CInterrupt | CRespond | CRelease | CStop
datatype turn_command_status = CPending | CSent | CAcknowledged | CDropped

record turn_command_row =
  tc_id :: ident
  tc_turn_id :: ident
  tc_attempt_id :: "ident option"
  tc_kind :: turn_command_kind
  tc_payload :: json_object
  tc_status :: turn_command_status
  tc_created_at :: instant
  tc_sent_at :: "instant option"
  tc_acknowledged_at :: "instant option"

datatype allocation_status = AllocationActive | AllocationOther

record allocation_row =
  al_id :: ident
  al_maintenance_claimed_until :: "instant option"
  al_worker_node_id :: "ident option"
  al_status :: allocation_status
  al_binding_id :: string

record worker_node_row =
  wn_id :: ident
  wn_enabled :: bool
  wn_lease_expires_at :: "instant option"
  wn_lease_token :: "ident option"
  wn_remote :: bool

record client_runner_row =
  cl_id :: ident
  cl_lease_expires_at :: "instant option"

record db =
  db_sessions :: "session_row list"
  db_turns :: "turn_row list"
  db_attempts :: "attempt_row list"
  db_items :: "item_row list"
  db_requests :: "request_row list"
  db_threads :: "provider_thread list"
  db_events :: "stored_event list"
  db_receipts :: "receipt_row list"
  db_commands :: "turn_command_row list"
  db_allocations :: "allocation_row list"
  db_nodes :: "worker_node_row list"
  db_client_runners :: "client_runner_row list"

definition empty_db :: db where
  "empty_db = \<lparr>db_sessions = [], db_turns = [], db_attempts = [], db_items = [], db_requests = [],
     db_threads = [], db_events = [], db_receipts = [], db_commands = [], db_allocations = [],
     db_nodes = [], db_client_runners = []\<rparr>"

definition sr_id :: "session_row \<Rightarrow> ident" where
  "sr_id row = f_id (sr_fields row)"

definition ar_id :: "attempt_row \<Rightarrow> ident" where
  "ar_id row = a_id (ar_attempt row)"

definition ar_session_id :: "attempt_row \<Rightarrow> ident" where
  "ar_session_id row = a_session_id (ar_attempt row)"

definition rr_key :: "request_row \<Rightarrow> ident \<times> ident" where
  "rr_key row = (rr_session_id row, rr_request_id row)"

section \<open>Reading rows\<close>

text \<open>JavaScript's \<open>trim\<close>, over the code units a \<open>char\<close> holds.\<close>

definition js_space :: "char \<Rightarrow> bool" where
  "js_space c \<longleftrightarrow> of_char c \<in> {9, 10, 11, 12, 13, 32, 160 :: nat}"

definition js_trim :: "string \<Rightarrow> string" where
  "js_trim s = rev (dropWhile js_space (rev (dropWhile js_space s)))"

text \<open>A checkpoint column is \<open>character(40)\<close>: PostgreSQL pads it with blanks.\<close>

definition checkpoint_from_row :: "turn_row \<Rightarrow> checkpoint" where
  "checkpoint_from_row row =
     \<lparr>ck_before = map_option js_trim (tr_checkpoint_before row),
      ck_after = map_option js_trim (tr_checkpoint_after row)\<rparr>"

definition turn_from_row :: "instant \<Rightarrow> turn_row \<Rightarrow> turn" where
  "turn_from_row now row =
     \<lparr>t_id = tr_id row, t_session_id = tr_session_id row, t_ordinal = tr_ordinal row,
      t_status = tr_status row, t_input_item_id = tr_input_item_id row,
      t_dispatch = tr_dispatch row, t_priority = tr_priority row, t_activity = tr_activity row,
      t_activity_at = tr_activity_at row, t_provider_retry = tr_provider_retry row,
      t_attempt_count = tr_attempt_count row, t_active_attempt_id = tr_active_attempt_id row,
      t_provider_thread_id = tr_provider_thread_id row,
      t_retry_at =
        (if tr_status row = Queued \<and> 0 < tr_attempt_count row \<and> now < tr_available_at row
         then Some (tr_available_at row) else None),
      t_cancellation_requested = (tr_cancellation_requested_at row \<noteq> None),
      t_error = tr_error row, t_outcome = tr_outcome row,
      t_checkpoint = checkpoint_from_row row,
      t_continuation_of = tr_continuation_of row, t_created_at = tr_created_at row,
      t_started_at = tr_started_at row, t_completed_at = tr_completed_at row,
      t_updated_at = tr_updated_at row\<rparr>"

definition attempt_from_row :: "attempt_row \<Rightarrow> attempt" where
  "attempt_from_row row = ar_attempt row"

definition item_from_row :: "item_row \<Rightarrow> item" where
  "item_from_row row = ir_payload row"

definition request_from_row :: "request_row \<Rightarrow> runtime_request" where
  "request_from_row row =
     (rr_payload row)
     \<lparr>r_id := rr_request_id row, r_session_id := rr_session_id row, r_turn_id := rr_turn_id row,
      r_attempt_id := rr_attempt_id row, r_item_id := rr_item_id row, r_status := rr_status row,
      r_answerable := rr_answerable row \<and> rr_status row = RPending,
      r_blocking := rr_blocking row, r_expires_at := rr_expires_at row,
      r_response := rr_response row, r_resolved_by := rr_resolved_by row,
      r_reason := rr_reason row, r_created_at := rr_created_at row,
      r_resolved_at := rr_resolved_at row\<rparr>"

definition provider_thread_from_row :: "provider_thread \<Rightarrow> provider_thread" where
  "provider_thread_from_row row = row"

definition session_fields_from_row :: "session_row \<Rightarrow> session_fields" where
  "session_fields_from_row row = sr_fields row"

text \<open>
  The turns waiting to take in task notifications, in order: queued, never started, and
  started by a notification.
\<close>

definition item_row_of :: "db \<Rightarrow> ident \<Rightarrow> item_row option" where
  "item_row_of d iid = find_row ir_id iid (db_items d)"

definition waiting_notification_turns :: "instant \<Rightarrow> db \<Rightarrow> ident \<Rightarrow> nat \<Rightarrow> turn list" where
  "waiting_notification_turns now d sid limit =
     map (turn_from_row now)
       (take limit
         (sort_key tr_ordinal
           (filter (\<lambda>row. tr_session_id row = sid \<and> tr_status row = Queued \<and>
                tr_attempt_count row = 0 \<and>
                (case tr_input_item_id row of
                   None \<Rightarrow> False
                 | Some iid \<Rightarrow> (case item_row_of d iid of
                     None \<Rightarrow> False
                   | Some irow \<Rightarrow> ir_kind irow = KTaskNotification)))
             (db_turns d))))"

definition waiting_notification_turn :: "instant \<Rightarrow> db \<Rightarrow> ident \<Rightarrow> turn option" where
  "waiting_notification_turn now d sid =
     (case waiting_notification_turns now d sid 1 of [] \<Rightarrow> None | t # _ \<Rightarrow> Some t)"

end
