(* ===== verification/Fixtures.thy ===== *)
theory Fixtures
  imports Session_Rows
begin

text \<open>
  Small concrete records the witnesses evaluate on: a session, a turn of it in a given status,
  an assistant message, and a database that holds the session at a given sequence.
\<close>

definition ex_fields :: "ident \<Rightarrow> session_fields" where
  "ex_fields sid = \<lparr>f_id = sid, f_project_id = ''p'', f_title = None, f_icon = None, f_agent_id = None,
     f_harness = None, f_model = None, f_model_effort = None, f_status = SessionActive,
     f_work_status = WorkOpen, f_activity = None, f_todos = [], f_metadata = [], f_imported = None,
     f_parent_session_id = None, f_forked_from_session_id = None, f_attention_revision = 0,
     f_environment = None, f_authority_host_id = ''h'', f_authority_revision = 0,
     f_handoff_status = HandoffNone, f_updated_at = 0\<rparr>"

definition ex_turn :: "ident \<Rightarrow> nat \<Rightarrow> turn_status \<Rightarrow> turn" where
  "ex_turn tid n st = \<lparr>t_id = tid, t_session_id = ''s'', t_ordinal = n, t_status = st,
     t_input_item_id = None, t_dispatch = TQueue, t_priority = 0, t_activity = None,
     t_activity_at = None, t_provider_retry = None, t_attempt_count = 0, t_active_attempt_id = None,
     t_provider_thread_id = None, t_retry_at = None, t_cancellation_requested = False, t_error = None,
     t_outcome = None, t_checkpoint = \<lparr>ck_before = None, ck_after = None\<rparr>, t_continuation_of = None,
     t_created_at = int n, t_started_at = None, t_completed_at = None, t_updated_at = int n\<rparr>"

definition ex_turn_row :: "ident \<Rightarrow> nat \<Rightarrow> turn_status \<Rightarrow> turn_row" where
  "ex_turn_row tid n st = \<lparr>tr_id = tid, tr_session_id = ''s'', tr_ordinal = n, tr_status = st,
     tr_input_item_id = None, tr_dispatch = TQueue, tr_priority = 0, tr_available_at = 0,
     tr_lease_owner = None, tr_lease_token = None, tr_lease_expires_at = None,
     tr_cancellation_requested_at = None, tr_activity = None, tr_activity_at = None,
     tr_provider_retry = None, tr_attempt_count = 0, tr_active_attempt_id = None,
     tr_provider_thread_id = None, tr_error = None, tr_outcome = None, tr_checkpoint_before = None,
     tr_checkpoint_after = None, tr_continuation_of = None, tr_created_at = int n,
     tr_started_at = None, tr_completed_at = None, tr_updated_at = int n\<rparr>"

definition ex_item :: "ident \<Rightarrow> nat \<Rightarrow> item_body \<Rightarrow> item" where
  "ex_item iid n b = \<lparr>i_id = iid, i_session_id = ''s'', i_turn_id = None, i_attempt_id = None,
     i_parent_item_id = None, i_position = n, i_status = InProgress, i_native_ref = None,
     i_created_at = 0, i_updated_at = 0, i_started_at = None, i_ended_at = None, i_body = b\<rparr>"

definition ex_db :: "nat \<Rightarrow> db" where
  "ex_db n = empty_db\<lparr>db_sessions :=
     [\<lparr>sr_fields = ex_fields ''s'', sr_event_sequence = n, sr_rewind_until = None, sr_allocation_id = None\<rparr>]\<rparr>"

lemmas fixtures = ex_fields_def ex_turn_def ex_turn_row_def ex_item_def ex_db_def empty_db_def

end
