(* ===== verification/Client_State.thy ===== *)
theory Client_State
  imports Reducer Fixtures
begin

text \<open>
  What \<open>packages/agent-protocol/src/state.ts\<close> gives a client: replaying the log is idempotent and
  convergent, a hole is noticed, the transcript keeps its order, and the queue is shown in the
  order the claim takes it. The laws come from the \<open>replay\<close> interface of the reducer.
\<close>

definition ex_client :: "nat \<Rightarrow> session_state" where
  "ex_client n = session_state_from_snapshot
     \<lparr>sn_sequence = n, sn_session = ex_fields ''s'', sn_turns = [ex_turn ''t'' 1 Running],
      sn_attempts = [], sn_items = [ex_item ''b'' 2 (Reasoning ''x''), ex_item ''a'' 1 (Reasoning ''y'')],
      sn_requests = [], sn_provider_threads = [], sn_older_before = None\<rparr>"

definition ex_log :: "stored_event list" where
  "ex_log = [\<lparr>se_session_id = ''s'', se_sequence = 4, se_at = 1, se_command_id = None,
                se_event = TurnChanged (ex_turn ''u'' 2 Queued)\<rparr>,
             \<lparr>se_session_id = ''s'', se_sequence = 5, se_at = 2, se_command_id = None,
                se_event = ItemTextAppended ''b'' TextField ''z'' 2\<rparr>,
             \<lparr>se_session_id = ''s'', se_sequence = 6, se_at = 3, se_command_id = None,
                se_event = TurnChanged (ex_turn ''t'' 1 Completed)\<rparr>]"

lemmas client_eval = ex_client_def ex_log_def session_state_from_snapshot_def by_id_def put_row_def
  apply_one_def item_order_def less_eq_item_key_def append_at_def append_text_def fixtures

section \<open>Replay\<close>

text \<open>
  A delivery in which no event is more than one past the highest sequence before it; repetitions and old
  events may stand anywhere. \<open>reached\<close> is the highest sequence after it.
\<close>

fun unbroken :: "('e \<Rightarrow> nat) \<Rightarrow> nat \<Rightarrow> 'e list \<Rightarrow> bool" where
  "unbroken eseq n [] \<longleftrightarrow> True"
| "unbroken eseq n (e # es) \<longleftrightarrow> eseq e \<le> n + 1 \<and> unbroken eseq (max n (eseq e)) es"

fun reached :: "('e \<Rightarrow> nat) \<Rightarrow> nat \<Rightarrow> 'e list \<Rightarrow> nat" where
  "reached eseq n [] = n"
| "reached eseq n (e # es) = reached eseq (max n (eseq e)) es"

lemma reached_le: "n \<le> reached eseq n es"
  by (induction eseq n es rule: reached.induct) auto

context replay begin

text \<open>Events of one log, whatever else the reader already has: the log's prefix, or a hole it noticed.\<close>

lemma run_unbroken:
  assumes "\<not> stale s" and "follows eseq (seq s) hist" and "\<forall>e \<in> set es. e \<in> set hist \<or> eseq e \<le> seq s"
  shows "if unbroken eseq (seq s) es
    then run s es = foldl step s (take (reached eseq (seq s) es - seq s) hist) \<and> seq (run s es) = reached eseq (seq s) es \<and> \<not> stale (run s es)
    else stale (run s es)"
  using assms
proof (induction es arbitrary: s hist)
  case Nil
  then show ?case by (simp add: run_Nil)
next
  case (Cons e es)
  consider "eseq e \<le> seq s" | "eseq e = seq s + 1" | "seq s + 1 < eseq e" by linarith
  then show ?case
  proof cases
    case 1
    then have same: "run s (e # es) = run s es" "unbroken eseq (seq s) (e # es) = unbroken eseq (seq s) es"
      "reached eseq (seq s) (e # es) = reached eseq (seq s) es"
      using Cons.prems(1) by (simp_all add: run_Cons max_absorb1)
    show ?thesis unfolding same by (rule Cons.IH) (use Cons.prems in auto)
  next
    case 2
    with Cons.prems(3) have "e \<in> set hist" by auto
    then obtain k where "k < length hist" "hist ! k = e" by (auto simp: in_set_conv_nth)
    with follows_nth [OF Cons.prems(2)] 2 have "hist ! 0 = e" "hist \<noteq> []" by fastforce+
    then obtain rest where h: "hist = e # rest" by (cases hist) auto
    have "if unbroken eseq (seq (step s e)) es
      then run (step s e) es = foldl step (step s e) (take (reached eseq (seq (step s e)) es - seq (step s e)) rest) \<and>
        seq (run (step s e) es) = reached eseq (seq (step s e)) es \<and> \<not> stale (run (step s e) es)
      else stale (run (step s e) es)"
      by (rule Cons.IH) (use Cons.prems 2 h in \<open>auto simp: seq_step stale_step\<close>)
    moreover have "reached eseq (Suc (seq s)) es - seq s = Suc (reached eseq (Suc (seq s)) es - Suc (seq s))"
      using reached_le [of "Suc (seq s)" eseq es] by simp
    ultimately show ?thesis using 2 Cons.prems(1) h
      by (cases "unbroken eseq (Suc (seq s)) es") (auto simp: run_Cons seq_step max_absorb2)
  next
    case 3
    with Cons.prems(1) show ?thesis by (simp add: run_Cons stale_mark)
  qed
qed

end

text \<open>Property C16: readers of one log converge. Two clients start from one state that is current, and
  each takes in events of one gapless log that continues it, in windows of its own, with any of them
  repeated and with any events at or below the state's sequence besides. A client whose delivery skips no
  sequence stays current, stands at the highest sequence it was sent, and holds exactly the log applied in
  order up to there; a client whose delivery skips one is told to reload. So two deliveries without a hole
  that end at the same sequence leave the same session.\<close>

theorem readers_converge:
  assumes fresh: "\<not> s_stale st" and hist: "follows se_sequence (s_sequence st) hist"
    and "\<forall>e \<in> set es. e \<in> set hist \<or> se_sequence e \<le> s_sequence st"
    and "\<forall>e \<in> set es'. e \<in> set hist \<or> se_sequence e \<le> s_sequence st"
  shows "(if unbroken se_sequence (s_sequence st) es
      then apply_session_events st es = foldl apply_one st (take (reached se_sequence (s_sequence st) es - s_sequence st) hist) \<and>
        s_sequence (apply_session_events st es) = reached se_sequence (s_sequence st) es \<and> \<not> s_stale (apply_session_events st es)
      else s_stale (apply_session_events st es)) \<and>
    (unbroken se_sequence (s_sequence st) es \<and> unbroken se_sequence (s_sequence st) es' \<and>
      reached se_sequence (s_sequence st) es = reached se_sequence (s_sequence st) es' \<longrightarrow>
      apply_session_events st es = apply_session_events st es')"
  using reader.run_unbroken [OF fresh hist assms(3)] reader.run_unbroken [OF fresh hist assms(4)] by simp

theorem readers_converge_witness:
  "apply_session_events (ex_client 3) (take 2 ex_log) =
     apply_session_events (ex_client 3) (take 1 ex_log @ take 2 ex_log @ take 1 ex_log) \<and>
   apply_session_events (ex_client 3) (take 2 ex_log) = foldl apply_one (ex_client 3) (take 2 ex_log) \<and>
   s_stale (apply_session_events (ex_client 3) (take 1 ex_log @ drop 2 ex_log))"
proof (intro conjI)
  show "apply_session_events (ex_client 3) (take 2 ex_log) =
     apply_session_events (ex_client 3) (take 1 ex_log @ take 2 ex_log @ take 1 ex_log)"
    by (rule readers_converge [of _ ex_log, THEN conjunct2, THEN mp]) (simp_all add: client_eval)
  have "if unbroken se_sequence (s_sequence (ex_client 3)) (take 2 ex_log)
      then apply_session_events (ex_client 3) (take 2 ex_log) =
          foldl apply_one (ex_client 3) (take (reached se_sequence (s_sequence (ex_client 3)) (take 2 ex_log) - s_sequence (ex_client 3)) ex_log) \<and>
        s_sequence (apply_session_events (ex_client 3) (take 2 ex_log)) = reached se_sequence (s_sequence (ex_client 3)) (take 2 ex_log) \<and>
        \<not> s_stale (apply_session_events (ex_client 3) (take 2 ex_log))
      else s_stale (apply_session_events (ex_client 3) (take 2 ex_log))"
    by (rule readers_converge [of _ ex_log _ "[]", THEN conjunct1]) (simp_all add: client_eval)
  then show "apply_session_events (ex_client 3) (take 2 ex_log) = foldl apply_one (ex_client 3) (take 2 ex_log)"
    by (simp add: ex_client_def ex_log_def session_state_from_snapshot_def numeral_2_eq_2)
  show "s_stale (apply_session_events (ex_client 3) (take 1 ex_log @ drop 2 ex_log))"
    using readers_converge [of "ex_client 3" ex_log "take 1 ex_log @ drop 2 ex_log" "[]"]
    by (simp add: ex_client_def ex_log_def session_state_from_snapshot_def)
qed

text \<open>Replaying is idempotent and complete. Applying the same events twice is applying
  them once; and after them a client is either told to reload or has every event it was sent at
  or below its sequence.\<close>

theorem replay_idempotent:
  "apply_session_events (apply_session_events st es) es = apply_session_events st es \<and>
   (s_stale (apply_session_events st es) \<or>
    (\<forall>e \<in> set es. se_sequence e \<le> s_sequence (apply_session_events st es)))"
  using reader.run_idempotent reader.run_covers by blast

theorem replay_idempotent_witness:
  "apply_session_events (apply_session_events (ex_client 3) ex_log) ex_log = apply_session_events (ex_client 3) ex_log"
  using replay_idempotent by blast

text \<open>A hole is always noticed. A current client applies an in-order continuation of its
  log to the last event and stays current; the first event past a hole marks it stale, leaves
  what it shows unchanged, and nothing after it is applied.\<close>

theorem gap_detected:
  assumes "\<not> s_stale st" and "follows se_sequence (s_sequence st) es"
  shows "s_sequence (apply_session_events st es) = s_sequence st + length es \<and>
    \<not> s_stale (apply_session_events st es) \<and>
    (\<forall>e rest. s_sequence st + length es + 1 < se_sequence e \<longrightarrow>
       apply_session_events st (es @ e # rest) = (apply_session_events st es)\<lparr>s_stale := True\<rparr>)"
proof -
  note follows = reader.run_follows [OF assms]
  have "apply_session_events st (es @ e # rest) = (apply_session_events st es)\<lparr>s_stale := True\<rparr>"
    if "s_sequence st + length es + 1 < se_sequence e" for e rest
  proof -
    have "s_sequence (apply_session_events st es) + 1 < se_sequence e" using follows that by metis
    with follows reader.run_gap [of "apply_session_events st es" e rest] show ?thesis
      unfolding reader.run_append by blast
  qed
  with follows show ?thesis by blast
qed

theorem gap_detected_witness:
  "s_stale (apply_session_events (ex_client 3) (take 1 ex_log @ [ex_log ! 2]))"
proof -
  have "\<not> s_stale (ex_client 3)" "follows se_sequence (s_sequence (ex_client 3)) (take 1 ex_log)"
    "s_sequence (ex_client 3) + length (take 1 ex_log) + 1 < se_sequence (ex_log ! 2)"
    by (simp_all add: client_eval)
  with gap_detected [OF this(1,2)] show ?thesis by simp
qed

section \<open>The transcript\<close>

lemma sort_strict:
  "unique_keys i_id xs \<Longrightarrow> sorted_wrt (<) (map item_order (sort_key item_order xs))"
proof -
  assume u: "unique_keys i_id xs"
  have "distinct (map item_order xs)"
    using u by (auto simp: unique_keys_def distinct_map inj_on_def item_order_def)
  moreover have "set (map item_order (sort_key item_order xs)) = set (map item_order xs)" by simp
  ultimately have "distinct (map item_order (sort_key item_order xs))"
    using card_distinct distinct_card by (metis length_map length_sort)
  then show ?thesis by (simp add: strict_sorted_iff)
qed

text \<open>The transcript stays in order and names each item once. From a snapshot whose
  items have distinct ids, through any events and any older pages, the items are strictly
  ordered by position and id, and no id appears twice.\<close>

theorem transcript_order_kept:
  assumes "unique_keys i_id (sn_items sn)"
  shows "transcript (s_items (session_state_from_snapshot sn)) \<and>
    (transcript (s_items st) \<longrightarrow> transcript (s_items (apply_session_events st es)) \<and>
       transcript (s_items (with_older_items st page older)))"
proof -
  have "distinct (map i_id (sort_key item_order (sn_items sn)))"
    using assms unfolding unique_keys_def
    by (metis card_distinct distinct_card length_map length_sort set_map set_sort)
  then have "transcript (s_items (session_state_from_snapshot sn))"
    using sort_strict [OF assms] by (simp add: transcript_def unique_keys_def session_state_from_snapshot_def)
  then show ?thesis using transcript_apply_events transcript_older by blast
qed

theorem transcript_order_kept_witness:
  "transcript (s_items (ex_client 3)) \<and> transcript (s_items (apply_session_events (ex_client 3) ex_log))"
proof -
  have u: "unique_keys i_id [ex_item ''b'' 2 (Reasoning ''x''), ex_item ''a'' 1 (Reasoning ''y'')]"
    by (simp add: unique_keys_def ex_item_def)
  have "transcript (s_items (ex_client 3))" unfolding ex_client_def
    by (rule transcript_order_kept [THEN conjunct1]) (simp add: unique_keys_def ex_item_def)
  moreover from this have "transcript (s_items (apply_session_events (ex_client 3) ex_log))"
    using transcript_order_kept [of "\<lparr>sn_sequence = 0, sn_session = ex_fields ''s'', sn_turns = [],
      sn_attempts = [], sn_items = [ex_item ''b'' 2 (Reasoning ''x''), ex_item ''a'' 1 (Reasoning ''y'')],
      sn_requests = [], sn_provider_threads = [], sn_older_before = None\<rparr>"] u by simp
  ultimately show ?thesis by blast
qed

section \<open>The queue\<close>

text \<open>Sorting by the least significant key first gives the lexicographic order.\<close>

definition lex3 :: "('a \<Rightarrow> 'x :: linorder) \<Rightarrow> ('a \<Rightarrow> 'y :: linorder) \<Rightarrow> ('a \<Rightarrow> 'z :: linorder) \<Rightarrow> 'a \<Rightarrow> 'a \<Rightarrow> bool" where
  "lex3 f g h a b \<longleftrightarrow> f a < f b \<or> f a = f b \<and> (g a < g b \<or> g a = g b \<and> h a \<le> h b)"

lemma insort_key_refines:
  assumes "sorted_wrt R xs" and "\<And>a b. R a b \<longleftrightarrow> f a < f b \<or> f a = f b \<and> Q a b"
    and "\<forall>y \<in> set xs. f y = f x \<longrightarrow> Q x y"
  shows "sorted_wrt R (insort_key f x xs)"
  using assms(1,3)
proof (induction xs)
  case (Cons y ys)
  show ?case
  proof (cases "f x \<le> f y")
    case True
    have "R x z" if "z \<in> set (y # ys)" for z
    proof -
      from Cons.prems(1) that assms(2) have "f y \<le> f z" by (auto simp: less_imp_le)
      with True Cons.prems(2) that show ?thesis unfolding assms(2) by (metis le_less order_trans)
    qed
    with True Cons.prems(1) show ?thesis by simp
  next
    case False
    then have "f y < f x" by simp
    then have "R y x" using assms(2) by blast
    with False Cons show ?thesis by (auto simp: set_insort_key)
  qed
qed simp

lemma sort_key_refines:
  assumes "sorted_wrt Q xs" and "\<And>a b. R a b \<longleftrightarrow> f a < f b \<or> f a = f b \<and> Q a b"
  shows "sorted_wrt R (sort_key f xs)"
  using assms(1)
proof (induction xs)
  case (Cons x xs)
  then show ?case by (simp, intro insort_key_refines [OF _ assms(2)]) auto
qed simp

text \<open>The queue is shown in the order it runs: exactly the queued and held turns, by
  falling priority, then creation time, then ordinal, the order in which the claim takes them.\<close>

theorem queued_turns_order:
  "sorted_wrt (lex3 (\<lambda>t. - t_priority t) t_created_at t_ordinal) (queued_turns st) \<and>
   set (queued_turns st) = {t \<in> set (s_turns st). t_status t = Queued \<or> t_status t = Held} \<and>
   length (queued_turns st) = length (filter (\<lambda>t. t_status t = Queued \<or> t_status t = Held) (s_turns st))"
proof -
  let ?q = "filter (\<lambda>t. t_status t = Queued \<or> t_status t = Held) (s_turns st)"
  have "sorted_wrt (\<lambda>a b. t_ordinal a \<le> t_ordinal b) (sort_key t_ordinal ?q)"
    using sorted_sort_key [of t_ordinal ?q] by (simp only: sorted_wrt_map)
  then have "sorted_wrt (\<lambda>a b. t_created_at a < t_created_at b \<or> t_created_at a = t_created_at b \<and> t_ordinal a \<le> t_ordinal b)
      (sort_key t_created_at (sort_key t_ordinal ?q))"
    by (rule sort_key_refines) simp
  then have "sorted_wrt (lex3 (\<lambda>t. - t_priority t) t_created_at t_ordinal) (queued_turns st)"
    unfolding queued_turns_def by (rule sort_key_refines) (simp add: lex3_def)
  then show ?thesis by (auto simp: queued_turns_def)
qed

end
