(* ===== verification/Metadata.thy ===== *)
theory Metadata
  imports Protocol
begin

text \<open>
  The rules of a session's metadata, \<open>packages/agent-protocol/src/metadata.ts\<close>. An object is
  the list of its members in the order JavaScript keeps them. The rules measure a value by the
  UTF-8 bytes of its JSON text; how JavaScript prints a finite number is the parameter
  \<open>num_bytes\<close>, and everything else of \<open>JSON.stringify\<close> is spelled out in \<open>json_bytes\<close>.
\<close>

section \<open>Limits and errors\<close>

definition METADATA_KEYS :: nat where "METADATA_KEYS = 32"
definition METADATA_KEY_LENGTH :: nat where "METADATA_KEY_LENGTH = 64"
definition METADATA_VALUE_BYTES :: nat where "METADATA_VALUE_BYTES = 16384"
definition METADATA_TOTAL_BYTES :: nat where "METADATA_TOTAL_BYTES = 65536"
definition METADATA_DEPTH :: nat where "METADATA_DEPTH = 16"

datatype metadata_error =
    NoKeyNamed
  | TooManyKeysInWrite
  | TooManyKeys
  | TooManyBytes
  | MalformedKey string
  | NullEntry string
  | ValueTooLarge string
  | NotFinite string
  | TooDeep string
  | NotAnObject

section \<open>The size of JSON text\<close>

definition utf8_bytes :: "char \<Rightarrow> nat" where
  "utf8_bytes c = (if of_char c < (128::nat) then 1 else 2)"

text \<open>A character inside a JSON string: escaped in two or six bytes, or as it is.\<close>

definition json_char_bytes :: "char \<Rightarrow> nat" where
  "json_char_bytes c =
     (let n = (of_char c :: nat) in
      if n \<in> {8, 9, 10, 12, 13, 34, 92} then 2 else if n < 32 then 6 else utf8_bytes c)"

definition json_string_bytes :: "string \<Rightarrow> nat" where
  "json_string_bytes s = 2 + sum_list (map json_char_bytes s)"

fun json_bytes :: "(rat \<Rightarrow> nat) \<Rightarrow> json \<Rightarrow> nat"
  and json_array_bytes :: "(rat \<Rightarrow> nat) \<Rightarrow> json list \<Rightarrow> nat"
  and json_member_bytes :: "(rat \<Rightarrow> nat) \<Rightarrow> (string \<times> json) list \<Rightarrow> nat"
where
  "json_bytes nb JNull = 4"
| "json_bytes nb (JBool b) = (if b then 4 else 5)"
| "json_bytes nb (JNum (Finite q)) = nb q"
| "json_bytes nb (JNum _) = 4"
| "json_bytes nb (JStr s) = json_string_bytes s"
| "json_bytes nb (JArr vs) = 2 + json_array_bytes nb vs + (length vs - 1)"
| "json_bytes nb (JObj ms) = 2 + json_member_bytes nb ms + (length ms - 1)"
| "json_array_bytes nb [] = 0"
| "json_array_bytes nb (v # vs) = json_bytes nb v + json_array_bytes nb vs"
| "json_member_bytes nb [] = 0"
| "json_member_bytes nb ((k, v) # ms) =
     json_string_bytes k + 1 + json_bytes nb v + json_member_bytes nb ms"

section \<open>Keys and values\<close>

definition lower_letter :: "char \<Rightarrow> bool" where
  "lower_letter c \<longleftrightarrow> 97 \<le> (of_char c :: nat) \<and> (of_char c :: nat) \<le> 122"

definition lower_alnum :: "char \<Rightarrow> bool" where
  "lower_alnum c \<longleftrightarrow> lower_letter c \<or> 48 \<le> (of_char c :: nat) \<and> (of_char c :: nat) \<le> 57"

definition key_separator :: "char \<Rightarrow> bool" where
  "key_separator c \<longleftrightarrow> c \<in> {CHR ''_'', CHR ''.'', CHR ''-''}"

text \<open>
  \<open>SESSION_METADATA_KEY_PATTERN\<close>: a letter, then letters and digits, single separators only
  between them. The flag says whether the character before was a letter or a digit.
\<close>

fun key_tail :: "bool \<Rightarrow> string \<Rightarrow> bool" where
  "key_tail word [] = word"
| "key_tail word (c # cs) =
     (if lower_alnum c then key_tail True cs else key_separator c \<and> word \<and> key_tail False cs)"

definition key_pattern :: "string \<Rightarrow> bool" where
  "key_pattern s = (case s of [] \<Rightarrow> False | c # cs \<Rightarrow> lower_letter c \<and> key_tail True cs)"

definition check_key :: "string \<Rightarrow> metadata_error option" where
  "check_key k =
     (if METADATA_KEY_LENGTH < length k \<or> \<not> key_pattern k then Some (MalformedKey k) else None)"

text \<open>\<open>checkValue\<close>: finite numbers and bounded nesting; the first problem found is the error.\<close>

fun check_value :: "string \<Rightarrow> json \<Rightarrow> nat \<Rightarrow> metadata_error option"
  and check_array :: "string \<Rightarrow> json list \<Rightarrow> nat \<Rightarrow> metadata_error option"
  and check_members :: "string \<Rightarrow> (string \<times> json) list \<Rightarrow> nat \<Rightarrow> metadata_error option"
where
  "check_value key JNull depth = None"
| "check_value key (JStr s) depth = None"
| "check_value key (JBool b) depth = None"
| "check_value key (JNum (Finite q)) depth = None"
| "check_value key (JNum _) depth = Some (NotFinite key)"
| "check_value key (JArr vs) depth =
     (if METADATA_DEPTH \<le> depth then Some (TooDeep key) else check_array key vs (depth + 1))"
| "check_value key (JObj ms) depth =
     (if METADATA_DEPTH \<le> depth then Some (TooDeep key) else check_members key ms (depth + 1))"
| "check_array key [] depth = None"
| "check_array key (v # vs) depth =
     (case check_value key v depth of Some e \<Rightarrow> Some e | None \<Rightarrow> check_array key vs depth)"
| "check_members key [] depth = None"
| "check_members key ((k, v) # ms) depth =
     (case check_value key v depth of Some e \<Rightarrow> Some e | None \<Rightarrow> check_members key ms depth)"

definition check_entry :: "(rat \<Rightarrow> nat) \<Rightarrow> string \<Rightarrow> json \<Rightarrow> metadata_error option" where
  "check_entry nb key v =
     (case check_value key v 0 of
        Some e \<Rightarrow> Some e
      | None \<Rightarrow> if METADATA_VALUE_BYTES < json_bytes nb v then Some (ValueTooLarge key) else None)"

text \<open>\<open>sameJson\<close>: equal whatever order an object's keys come in.\<close>

fun same_json :: "json \<Rightarrow> json \<Rightarrow> bool"
  and same_array :: "json list \<Rightarrow> json list \<Rightarrow> bool"
  and same_members :: "(string \<times> json) list \<Rightarrow> (string \<times> json) list \<Rightarrow> bool"
where
  "same_json JNull r = (r = JNull)"
| "same_json (JBool b) r = (r = JBool b)"
| "same_json (JNum (Finite q)) r = (r = JNum (Finite q))"
| "same_json (JNum (Infinite b)) r = (r = JNum (Infinite b))"
| "same_json (JNum NotANumber) r = False"
| "same_json (JStr s) r = (r = JStr s)"
| "same_json (JArr vs) r = (case r of JArr ws \<Rightarrow> length vs = length ws \<and> same_array vs ws | _ \<Rightarrow> False)"
| "same_json (JObj ms) r = (case r of JObj ns \<Rightarrow> length ms = length ns \<and> same_members ms ns | _ \<Rightarrow> False)"
| "same_array [] ws = True"
| "same_array (v # vs) ws = (case ws of [] \<Rightarrow> False | w # ws' \<Rightarrow> same_json v w \<and> same_array vs ws')"
| "same_members [] ns = True"
| "same_members ((k, v) # ms) ns =
     ((case map_of ns k of None \<Rightarrow> False | Some w \<Rightarrow> same_json v w) \<and> same_members ms ns)"

section \<open>Writing and checking metadata\<close>

definition set_member :: "string \<Rightarrow> json \<Rightarrow> json_object \<Rightarrow> json_object" where
  "set_member k v obj = put_row fst (k, v) obj"

definition delete_member :: "string \<Rightarrow> json_object \<Rightarrow> json_object" where
  "delete_member k obj = filter (\<lambda>m. fst m \<noteq> k) obj"

text \<open>The loop of \<open>withSessionMetadata\<close>: the object so far, and whether anything changed.\<close>

fun write_entries ::
  "(rat \<Rightarrow> nat) \<Rightarrow> json_object \<Rightarrow> json_object \<Rightarrow> bool \<Rightarrow> metadata_error + json_object \<times> bool"
where
  "write_entries nb [] nxt changed = Inr (nxt, changed)"
| "write_entries nb ((key, v) # entries) nxt changed =
     (case check_key key of
        Some e \<Rightarrow> Inl e
      | None \<Rightarrow>
          if v = JNull then
            (if map_of nxt key \<noteq> None then write_entries nb entries (delete_member key nxt) True
             else write_entries nb entries nxt changed)
          else
            (case check_entry nb key v of
               Some e \<Rightarrow> Inl e
             | None \<Rightarrow>
                 (case map_of nxt key of
                    Some before \<Rightarrow>
                      if same_json before v then write_entries nb entries nxt changed
                      else write_entries nb entries (set_member key v nxt) True
                  | None \<Rightarrow> write_entries nb entries (set_member key v nxt) True)))"

definition with_session_metadata ::
  "(rat \<Rightarrow> nat) \<Rightarrow> json_object \<Rightarrow> json_object \<Rightarrow> metadata_error + json_object"
where
  "with_session_metadata nb current vals =
     (if vals = [] then Inl NoKeyNamed
      else if METADATA_KEYS < length vals then Inl TooManyKeysInWrite
      else
        case write_entries nb vals current False of
          Inl e \<Rightarrow> Inl e
        | Inr (nxt, changed) \<Rightarrow>
            if \<not> changed then Inr current
            else if METADATA_KEYS < length nxt \<and> length current < length nxt then Inl TooManyKeys
            else if METADATA_TOTAL_BYTES < json_bytes nb (JObj nxt) \<and>
                    json_bytes nb (JObj current) < json_bytes nb (JObj nxt) then Inl TooManyBytes
            else Inr nxt)"

fun check_entries :: "(rat \<Rightarrow> nat) \<Rightarrow> json_object \<Rightarrow> metadata_error option" where
  "check_entries nb [] = None"
| "check_entries nb ((key, v) # entries) =
     (case check_key key of
        Some e \<Rightarrow> Some e
      | None \<Rightarrow>
          if v = JNull then Some (NullEntry key)
          else (case check_entry nb key v of Some e \<Rightarrow> Some e | None \<Rightarrow> check_entries nb entries))"

definition assert_session_metadata :: "(rat \<Rightarrow> nat) \<Rightarrow> json \<Rightarrow> metadata_error option" where
  "assert_session_metadata nb metadata =
     (case metadata of
        JObj entries \<Rightarrow>
          (case check_entries nb entries of
             Some e \<Rightarrow> Some e
           | None \<Rightarrow>
               if METADATA_KEYS < length entries then Some TooManyKeys
               else if METADATA_TOTAL_BYTES < json_bytes nb metadata then Some TooManyBytes
               else None)
      | _ \<Rightarrow> Some NotAnObject)"

text \<open>\<open>sessionMetadataToolWrite\<close>, once its input passed the tool's schema.\<close>

definition session_metadata_tool_write :: "string \<Rightarrow> json option \<Rightarrow> bool \<Rightarrow> json_object option" where
  "session_metadata_tool_write key v remove =
     (if remove then Some [(key, JNull)]
      else case v of None \<Rightarrow> None | Some x \<Rightarrow> Some [(key, x)])"

section \<open>The rules a write keeps\<close>

definition good_entry :: "(rat \<Rightarrow> nat) \<Rightarrow> string \<times> json \<Rightarrow> bool" where
  "good_entry nb m \<longleftrightarrow>
     check_key (fst m) = None \<and> snd m \<noteq> JNull \<and> check_entry nb (fst m) (snd m) = None"

lemma check_entries_iff: "check_entries nb entries = None \<longleftrightarrow> list_all (good_entry nb) entries"
  by (induction nb entries rule: check_entries.induct)
    (auto simp: good_entry_def split: option.splits)

lemma set_member_set: "set (set_member k v obj) \<subseteq> insert (k, v) (set obj)"
  using set_upsert_subset [of fst "\<lambda>_. (k, v)" "(k, v)" obj]
  by (auto simp: set_member_def put_row_def)

lemma map_of_find_row: "map_of obj k = map_option snd (find_row fst k obj)"
  by (induction obj) auto

lemma map_of_set_member: "map_of (set_member k v obj) = (map_of obj)(k \<mapsto> v)"
  using put_row_lookup_same [of fst "(k, v)" obj] put_row_lookup_other [of _ fst "(k, v)" obj]
  by (auto simp: map_of_find_row set_member_def fun_eq_iff)

lemma map_of_delete_member: "map_of (delete_member k obj) = (map_of obj)(k := None)"
  by (induction obj) (auto simp: delete_member_def fun_eq_iff)

lemma distinct_set_member: "distinct (map fst obj) \<Longrightarrow> distinct (map fst (set_member k v obj))"
  using unique_keys_put_row [of fst obj "(k, v)"] by (simp add: set_member_def unique_keys_def)

lemma distinct_delete_member: "distinct (map fst obj) \<Longrightarrow> distinct (map fst (delete_member k obj))"
  by (simp add: delete_member_def distinct_map_filter)

lemma write_entries_good:
  "write_entries nb vals nxt changed = Inr (res, c) \<Longrightarrow> list_all (good_entry nb) nxt \<Longrightarrow>
   list_all (good_entry nb) res"
proof (induction nb vals nxt changed rule: write_entries.induct)
  case (1 nb nxt changed)
  then show ?case by simp
next
  case (2 nb key v entries nxt changed)
  have "list_all (good_entry nb) (delete_member key nxt)"
    using "2.prems"(2) by (auto simp: list_all_iff delete_member_def)
  moreover have "check_key key = None \<Longrightarrow> v \<noteq> JNull \<Longrightarrow> check_entry nb key v = None \<Longrightarrow>
      list_all (good_entry nb) (set_member key v nxt)"
    using "2.prems"(2) set_member_set [of key v nxt] by (auto simp: list_all_iff good_entry_def)
  ultimately show ?case using 2 by (auto split: option.splits if_splits)
qed

lemma write_entries_distinct:
  "write_entries nb vals nxt changed = Inr (res, c) \<Longrightarrow> distinct (map fst nxt) \<Longrightarrow>
   distinct (map fst res)"
proof (induction nb vals nxt changed rule: write_entries.induct)
  case (1 nb nxt changed)
  then show ?case by simp
next
  case (2 nb key v entries nxt changed)
  then show ?case
    by (cases "map_of nxt key"; cases "v = JNull")
      (auto simp: distinct_set_member distinct_delete_member split: option.splits if_splits)
qed

lemma write_entries_keys:
  "write_entries nb vals nxt changed = Inr (res, c) \<Longrightarrow>
   \<forall>m \<in> set vals. check_key (fst m) = None \<and>
     (snd m \<noteq> JNull \<longrightarrow> check_entry nb (fst m) (snd m) = None)"
  by (induction nb vals nxt changed rule: write_entries.induct)
    (auto split: option.splits if_splits)


section \<open>What a write does\<close>

text \<open>JavaScript objects hold a key once.\<close>

fun wf_json :: "json \<Rightarrow> bool" and wf_array :: "json list \<Rightarrow> bool" and wf_members :: "(string \<times> json) list \<Rightarrow> bool"
where
  "wf_json (JArr vs) = wf_array vs"
| "wf_json (JObj ms) = (distinct (map fst ms) \<and> wf_members ms)"
| "wf_json _ = True"
| "wf_array [] = True"
| "wf_array (v # vs) = (wf_json v \<and> wf_array vs)"
| "wf_members [] = True"
| "wf_members ((k, v) # ms) = (wf_json v \<and> wf_members ms)"

lemma same_members_weaken:
  "same_members ms ns \<Longrightarrow> (\<And>k w. map_of ns k = Some w \<Longrightarrow> map_of ns' k = Some w) \<Longrightarrow> same_members ms ns'"
  by (induction ms) (auto split: option.splits)

lemma same_json_refl:
  "wf_json v \<Longrightarrow> check_value key v depth = None \<Longrightarrow> same_json v v"
  "wf_array vs \<Longrightarrow> check_array key vs depth = None \<Longrightarrow> same_array vs vs"
  "distinct (map fst ms) \<Longrightarrow> wf_members ms \<Longrightarrow> check_members key ms depth = None \<Longrightarrow> same_members ms ms"
proof (induction key v depth and key vs depth and key ms depth
    rule: check_value_check_array_check_members.induct)
  case (11 key k v ms depth)
  then have "same_members ms ms" and v: "same_json v v" by (auto split: option.splits)
  then have "same_members ms ((k, v) # ms)"
    using "11.prems"(1) by (elim same_members_weaken) (force dest: map_of_SomeD)
  with v show ?case by simp
qed (auto split: if_splits option.splits)

definition holds_write :: "json_object \<Rightarrow> string \<times> json \<Rightarrow> bool" where
  "holds_write obj m \<longleftrightarrow>
     (case map_of obj (fst m) of
        None \<Rightarrow> snd m = JNull
      | Some w \<Rightarrow> snd m \<noteq> JNull \<and> same_json w (snd m))"

lemma write_entries_effect:
  assumes "write_entries nb vals nxt changed = Inr (res, c)"
    and "distinct (map fst vals)" and "list_all (\<lambda>m. wf_json (snd m)) vals"
  shows "(\<forall>m \<in> set vals. holds_write res m) \<and> (\<forall>k. k \<notin> fst ` set vals \<longrightarrow> map_of res k = map_of nxt k)"
  using assms
proof (induction nb vals nxt changed rule: write_entries.induct)
  case (1 nb nxt changed)
  then show ?case by simp
next
  case (2 nb key v entries nxt changed)
  from "2.prems" have tail: "distinct (map fst entries)" "list_all (\<lambda>m. wf_json (snd m)) entries"
    and new: "key \<notin> fst ` set entries" and key: "check_key key = None"
    by (auto split: option.splits)
  show ?case
  proof (cases "v = JNull")
    case True
    with 2 tail new key show ?thesis
      by (cases "map_of nxt key") (auto simp: holds_write_def map_of_delete_member)
  next
    case False
    with "2.prems" key have entry: "check_entry nb key v = None" by (auto split: option.splits)
    then have "same_json v v"
      using same_json_refl(1) [of v key 0] "2.prems"(3)
      by (auto simp: check_entry_def split: option.splits)
    with 2 tail new key False entry show ?thesis
      by (cases "map_of nxt key") (auto simp: holds_write_def map_of_set_member split: if_splits)
  qed
qed

lemma write_entries_held:
  assumes "\<forall>m \<in> set vals. holds_write obj m \<and> check_key (fst m) = None \<and>
      (snd m \<noteq> JNull \<longrightarrow> check_entry nb (fst m) (snd m) = None)"
  shows "write_entries nb vals obj changed = Inr (obj, changed)"
  using assms
  by (induction vals) (auto simp: holds_write_def split: option.splits)

lemmas metadata_eval =
  assert_session_metadata_def with_session_metadata_def check_key_def check_entry_def key_pattern_def
  lower_letter_def lower_alnum_def key_separator_def METADATA_KEYS_def METADATA_KEY_LENGTH_def
  METADATA_VALUE_BYTES_def METADATA_TOTAL_BYTES_def METADATA_DEPTH_def json_string_bytes_def
  json_char_bytes_def utf8_bytes_def set_member_def put_row_def delete_member_def

lemma write_entries_changed: "write_entries nb vals obj True = Inr (res, c) \<Longrightarrow> c"
proof (induction vals arbitrary: obj)
  case Nil
  then show ?case by simp
next
  case (Cons m vals)
  then show ?case by (cases m) (auto split: option.splits if_splits)
qed

lemma write_entries_unchanged:
  "write_entries nb vals obj changed = Inr (res, c) \<Longrightarrow> \<not> c \<Longrightarrow> res = obj"
proof (induction vals arbitrary: obj changed)
  case Nil
  then show ?case by simp
next
  case (Cons m vals)
  then show ?case
    by (cases m) (auto dest: write_entries_changed split: option.splits if_splits)
qed

text \<open>A write that succeeds keeps every rule of the metadata: well-formed keys, no
  null value, bounded values, at most 32 keys and 65536 bytes in all.
\<close>

theorem metadata_write_keeps_rules:
  assumes "assert_session_metadata nb (JObj current) = None"
    and "with_session_metadata nb current vals = Inr res"
  shows "assert_session_metadata nb (JObj res) = None"
proof -
  from assms(1) have good: "list_all (good_entry nb) current"
    and bounds: "length current \<le> METADATA_KEYS" "json_bytes nb (JObj current) \<le> METADATA_TOTAL_BYTES"
    by (auto simp: assert_session_metadata_def check_entries_iff not_less split: option.splits if_splits)
  from assms(2) obtain nxt c where w: "write_entries nb vals current False = Inr (nxt, c)"
    by (auto simp: with_session_metadata_def split: if_splits sum.splits prod.splits)
  show ?thesis
  proof (cases "res = current")
    case True
    with assms(1) show ?thesis by simp
  next
    case False
    with assms(2) w have "res = nxt"
      and "length res \<le> METADATA_KEYS \<or> length res \<le> length current"
      and "json_bytes nb (JObj res) \<le> METADATA_TOTAL_BYTES \<or>
           json_bytes nb (JObj res) \<le> json_bytes nb (JObj current)"
      by (auto simp: with_session_metadata_def not_less simp del: json_bytes.simps
          split: if_splits sum.splits)
    with write_entries_good [OF w good] bounds show ?thesis
      by (auto simp: assert_session_metadata_def not_less simp del: json_bytes.simps
          simp flip: check_entries_iff)
  qed
qed

theorem metadata_write_keeps_rules_witness:
  "assert_session_metadata (\<lambda>_. 1) (JObj [(''deploy.preview'', JStr ''up'')]) = None"
proof -
  have "assert_session_metadata (\<lambda>_. 1) (JObj [(''pull_requests'', JArr [])]) = None" by (simp add: metadata_eval)
  moreover have "with_session_metadata (\<lambda>_. 1) [(''pull_requests'', JArr [])]
      [(''pull_requests'', JNull), (''deploy.preview'', JStr ''up'')] = Inr [(''deploy.preview'', JStr ''up'')]"
    by (simp add: metadata_eval)
  ultimately show ?thesis by (rule metadata_write_keeps_rules)
qed

text \<open>Writing the same values twice is writing them once: the second write finds every
  value as it left it (whatever order an object's keys are in) and changes nothing.
\<close>

theorem metadata_write_idempotent:
  assumes "with_session_metadata nb current vals = Inr res"
    and "distinct (map fst vals)" and "list_all (\<lambda>m. wf_json (snd m)) vals"
  shows "with_session_metadata nb res vals = Inr res"
proof -
  from assms(1) obtain nxt c where w: "write_entries nb vals current False = Inr (nxt, c)"
    by (auto simp: with_session_metadata_def split: if_splits sum.splits prod.splits)
  from assms(1) w have res: "res = nxt \<or> \<not> c \<and> res = current"
    and len: "vals \<noteq> []" "length vals \<le> METADATA_KEYS"
    by (auto simp: with_session_metadata_def split: if_splits)
  from res write_entries_unchanged [OF w] have "res = nxt" by auto
  with write_entries_effect [OF w assms(2,3)] write_entries_keys [OF w]
  have "write_entries nb vals res False = Inr (res, False)"
    by (intro write_entries_held) auto
  with len show ?thesis by (simp add: with_session_metadata_def)
qed

theorem metadata_write_idempotent_witness:
  "with_session_metadata (\<lambda>_. 1) [(''a'', JObj [(''x'', JNull), (''y'', JBool True)])]
     [(''a'', JObj [(''y'', JBool True), (''x'', JNull)]), (''b'', JNull)] =
   Inr [(''a'', JObj [(''x'', JNull), (''y'', JBool True)])]"
proof -
  have "with_session_metadata (\<lambda>_. 1)
      [(''b'', JStr ''gone''), (''a'', JObj [(''x'', JNull), (''y'', JBool True)])]
      [(''a'', JObj [(''y'', JBool True), (''x'', JNull)]), (''b'', JNull)] =
      Inr [(''a'', JObj [(''x'', JNull), (''y'', JBool True)])]"
    by (simp add: metadata_eval)
  then show ?thesis by (rule metadata_write_idempotent) simp_all
qed

end
