(* ===== verification/Projector.thy ===== *)
theory Projector
  imports Session_Rows Metadata
begin

text \<open>
  The projector of the session log, the second half of
  \<open>packages/core/src/services/sessions/session-log.ts\<close>: the only writer of a session's
  projection tables. One stored event is one statement on one table, with the table's unique
  constraints. Foreign keys are not modelled: every row is written for a session that exists,
  and the operations that name other rows read them first.
\<close>

section \<open>Errors and transactions\<close>

text \<open>
  A transaction returns its result and the new database, or an error that leaves the database
  as it was.
\<close>

datatype log_error =
    SessionNotFound ident
  | LogGap ident nat nat
  | ForeignEvent ident
  | BadMetadata metadata_error
  | HasOwnLog ident
  | CommandRejected string string nat
  | UniqueViolation string
  | LeaseLost ident
  | TurnNotFound ident
  | EmptyMessage
  | ChatClosed ident
  | ChatMoving ident
  | AuthorityElsewhere ident ident nat
  | ChatRewinding ident
  | AccessDenied

type_synonym 'a tx = "log_error + 'a \<times> db"

section \<open>The projector\<close>

text \<open>The unique constraints of \<open>agent_turns\<close>: one turn works in a session at a time.\<close>

definition turn_constraints :: "turn_row list \<Rightarrow> bool" where
  "turn_constraints rows \<longleftrightarrow>
     distinct (map tr_id rows) \<and>
     distinct (map (\<lambda>r. (tr_session_id r, tr_ordinal r)) rows) \<and>
     distinct (map tr_session_id (filter (\<lambda>r. is_active_turn_status (tr_status r)) rows)) \<and>
     distinct (map tr_continuation_of (filter (\<lambda>r. tr_continuation_of r \<noteq> None) rows))"

text \<open>Those of \<open>agent_turn_attempts\<close> and \<open>agent_items\<close>.\<close>

definition attempt_constraints :: "attempt_row list \<Rightarrow> bool" where
  "attempt_constraints rows \<longleftrightarrow>
     distinct (map (\<lambda>r. (a_turn_id (ar_attempt r), a_ordinal (ar_attempt r))) rows)"

definition item_constraints :: "item_row list \<Rightarrow> bool" where
  "item_constraints rows \<longleftrightarrow>
     distinct (map (\<lambda>r. (ir_session_id r, ir_idempotency_key r))
       (filter (\<lambda>r. ir_idempotency_key r \<noteq> None) rows))"

text \<open>A session change writes only the columns it names, and stamps the row when it names any.\<close>

definition patch_writes :: "session_patch \<Rightarrow> bool" where
  "patch_writes c \<longleftrightarrow>
     c_title c \<noteq> None \<or> c_icon c \<noteq> None \<or> c_agent_id c \<noteq> None \<or> c_harness c \<noteq> None \<or>
     c_model c \<noteq> None \<or> c_model_effort c \<noteq> None \<or> c_status c \<noteq> None \<or> c_work_status c \<noteq> None \<or>
     c_activity c \<noteq> None \<or> c_todos c \<noteq> None \<or> c_metadata c \<noteq> None \<or>
     c_attention_revision c \<noteq> None \<or> c_environment c \<noteq> None \<or> c_authority_host_id c \<noteq> None \<or>
     c_authority_revision c \<noteq> None \<or> c_handoff_status c \<noteq> None \<or> c_parent_session_id c \<noteq> None"

definition set_col :: "'a option \<Rightarrow> 'a \<Rightarrow> 'a" where
  "set_col new old = (case new of None \<Rightarrow> old | Some v \<Rightarrow> v)"

definition project_fields :: "instant \<Rightarrow> session_patch \<Rightarrow> session_fields \<Rightarrow> session_fields" where
  "project_fields now c f =
     (if \<not> patch_writes c then f
      else
        f\<lparr>f_title := set_col (c_title c) (f_title f), f_icon := set_col (c_icon c) (f_icon f),
          f_agent_id := set_col (c_agent_id c) (f_agent_id f),
          f_harness := set_col (c_harness c) (f_harness f),
          f_model := set_col (c_model c) (f_model f),
          f_model_effort := set_col (c_model_effort c) (f_model_effort f),
          f_status := set_col (c_status c) (f_status f),
          f_work_status := set_col (c_work_status c) (f_work_status f),
          f_activity := set_col (c_activity c) (f_activity f),
          f_todos := set_col (c_todos c) (f_todos f),
          f_metadata := set_col (c_metadata c) (f_metadata f),
          f_attention_revision := set_col (c_attention_revision c) (f_attention_revision f),
          f_environment := set_col (c_environment c) (f_environment f),
          f_authority_host_id := set_col (c_authority_host_id c) (f_authority_host_id f),
          f_authority_revision := set_col (c_authority_revision c) (f_authority_revision f),
          f_handoff_status := set_col (c_handoff_status c) (f_handoff_status f),
          f_parent_session_id := set_col (c_parent_session_id c) (f_parent_session_id f),
          f_updated_at := set_col (c_updated_at c) now\<rparr>)"

definition project_session :: "instant \<Rightarrow> ident \<Rightarrow> session_patch \<Rightarrow> db \<Rightarrow> db" where
  "project_session now sid c d =
     d\<lparr>db_sessions := update_where (\<lambda>r. sr_id r = sid)
          (\<lambda>r. r\<lparr>sr_fields := project_fields now c (sr_fields r)\<rparr>) (db_sessions d)\<rparr>"

text \<open>
  The row a turn event inserts. \<open>available_at\<close> is the retry's time, or the column's default.
\<close>

definition new_turn_row :: "instant \<Rightarrow> ident \<Rightarrow> instant \<Rightarrow> turn \<Rightarrow> turn_row" where
  "new_turn_row now sid stamp t =
     \<lparr>tr_id = t_id t, tr_session_id = sid, tr_ordinal = t_ordinal t, tr_status = t_status t,
      tr_input_item_id = t_input_item_id t, tr_dispatch = t_dispatch t,
      tr_priority = t_priority t,
      tr_available_at = (case t_retry_at t of None \<Rightarrow> now | Some r \<Rightarrow> r),
      tr_lease_owner = None, tr_lease_token = None, tr_lease_expires_at = None,
      tr_cancellation_requested_at = (if t_cancellation_requested t then Some stamp else None),
      tr_activity = t_activity t, tr_activity_at = t_activity_at t,
      tr_provider_retry = t_provider_retry t, tr_attempt_count = t_attempt_count t,
      tr_active_attempt_id = t_active_attempt_id t,
      tr_provider_thread_id = t_provider_thread_id t, tr_error = t_error t,
      tr_outcome = t_outcome t, tr_checkpoint_before = ck_before (t_checkpoint t),
      tr_checkpoint_after = ck_after (t_checkpoint t),
      tr_continuation_of = t_continuation_of t, tr_created_at = t_created_at t,
      tr_started_at = t_started_at t, tr_completed_at = t_completed_at t,
      tr_updated_at = t_updated_at t\<rparr>"

text \<open>
  The update on conflict. A request to stop stands until the turn leaves its run: a turn
  written while it still runs never withdraws one made meanwhile.
\<close>

definition update_turn_row :: "ident \<Rightarrow> instant \<Rightarrow> turn \<Rightarrow> turn_row \<Rightarrow> turn_row" where
  "update_turn_row sid stamp t row =
     (if tr_session_id row \<noteq> sid then row
      else
        row\<lparr>tr_status := t_status t, tr_input_item_id := t_input_item_id t,
            tr_dispatch := t_dispatch t, tr_priority := t_priority t, tr_activity := t_activity t,
            tr_activity_at := t_activity_at t, tr_provider_retry := t_provider_retry t,
            tr_attempt_count := t_attempt_count t, tr_active_attempt_id := t_active_attempt_id t,
            tr_provider_thread_id := t_provider_thread_id t, tr_error := t_error t,
            tr_outcome := t_outcome t, tr_checkpoint_before := ck_before (t_checkpoint t),
            tr_checkpoint_after := ck_after (t_checkpoint t),
            tr_continuation_of := t_continuation_of t, tr_started_at := t_started_at t,
            tr_completed_at := t_completed_at t, tr_updated_at := t_updated_at t,
            tr_cancellation_requested_at :=
              (if t_cancellation_requested t
               then (case tr_cancellation_requested_at row of None \<Rightarrow> Some stamp | Some x \<Rightarrow> Some x)
               else if is_active_turn_status (t_status t) then tr_cancellation_requested_at row
               else None)\<rparr>)"

definition project_turn :: "instant \<Rightarrow> ident \<Rightarrow> instant \<Rightarrow> turn \<Rightarrow> db \<Rightarrow> db" where
  "project_turn now sid stamp t d =
     d\<lparr>db_turns := upsert tr_id (update_turn_row sid stamp t) (new_turn_row now sid stamp t) (db_turns d)\<rparr>"

definition update_attempt_row :: "ident \<Rightarrow> attempt \<Rightarrow> attempt_row \<Rightarrow> attempt_row" where
  "update_attempt_row sid a row =
     (if ar_session_id row \<noteq> sid then row
      else row\<lparr>ar_attempt := (ar_attempt row)
        \<lparr>a_status := a_status a, a_provider_thread_id := a_provider_thread_id a,
         a_native_turn_ref := a_native_turn_ref a, a_error := a_error a,
         a_started_at := a_started_at a, a_completed_at := a_completed_at a\<rparr>\<rparr>)"

definition project_attempt :: "ident \<Rightarrow> attempt \<Rightarrow> db \<Rightarrow> db" where
  "project_attempt sid a d =
     d\<lparr>db_attempts := upsert ar_id (update_attempt_row sid a)
        \<lparr>ar_attempt = a\<lparr>a_session_id := sid\<rparr>, ar_runner = None, ar_provider_started_at = None\<rparr>
        (db_attempts d)\<rparr>"

text \<open>\<open>itemText\<close>: what workflow events and search read of an item.\<close>

fun join_lines :: "string list \<Rightarrow> string" where
  "join_lines [] = []"
| "join_lines [x] = x"
| "join_lines (x # y # xs) = x @ ''\<newline>'' @ join_lines (y # xs)"

definition item_text :: "item \<Rightarrow> string" where
  "item_text it =
     (case i_body it of
        UserMessage _ _ t _ _ \<Rightarrow> t
      | InboundMessage _ _ t _ _ \<Rightarrow> t
      | AssistantMessage t _ \<Rightarrow> t
      | Reasoning t \<Rightarrow> t
      | Notice _ t _ \<Rightarrow> t
      | ContextHandoff _ _ _ _ t \<Rightarrow> t
      | TaskNotification _ _ summary _ _ \<Rightarrow> summary
      | Command c descr _ _ \<Rightarrow> (case descr of None \<Rightarrow> c | Some x \<Rightarrow> x)
      | ToolCall tool _ descr _ _ _ \<Rightarrow> (case descr of None \<Rightarrow> tool | Some x \<Rightarrow> x)
      | FileChange path _ _ \<Rightarrow> path
      | Subagent title _ _ _ \<Rightarrow> title
      | Plan steps \<Rightarrow> join_lines (map ps_text steps)
      | RequestBody _ \<Rightarrow> [])"

definition author_kind_of :: "item_body \<Rightarrow> author_kind option" where
  "author_kind_of b =
     (case b of
        UserMessage _ _ _ _ _ \<Rightarrow> Some ByUser
      | InboundMessage _ from _ _ _ \<Rightarrow>
          (case from of
             AgentSender _ _ _ \<Rightarrow> Some ByAgent
           | AssistantSender _ \<Rightarrow> Some ByAssistant
           | WorkflowSender _ _ _ _ _ _ _ \<Rightarrow> Some ByWorkflow)
      | AssistantMessage _ _ \<Rightarrow> Some ByAgent
      | TaskNotification _ _ _ _ _ \<Rightarrow> Some BySystem
      | Notice _ _ _ \<Rightarrow> Some BySystem
      | _ \<Rightarrow> None)"

definition new_item_row :: "ident \<Rightarrow> item \<Rightarrow> item_row" where
  "new_item_row sid it =
     (let d = delivery_of (i_body it) in
      \<lparr>ir_id = i_id it, ir_session_id = sid, ir_turn_id = i_turn_id it,
       ir_attempt_id = i_attempt_id it, ir_parent_item_id = i_parent_item_id it,
       ir_position = i_position it, ir_kind = kind_of (i_body it), ir_status = i_status it,
       ir_text = item_text it, ir_author_kind = author_kind_of (i_body it),
       ir_dispatch = map_option d_dispatch d,
       ir_attention = (case d of None \<Rightarrow> False | Some x \<Rightarrow> d_attention_required x),
       ir_idempotency_key = (case d of None \<Rightarrow> None | Some x \<Rightarrow> d_idempotency_key x),
       ir_payload = it, ir_created_at = i_created_at it, ir_updated_at = i_updated_at it\<rparr>)"

text \<open>Positions never change: the stored one wins, and so does its payload copy.\<close>

definition update_item_row :: "ident \<Rightarrow> item \<Rightarrow> item_row \<Rightarrow> item_row" where
  "update_item_row sid it row =
     (if ir_session_id row \<noteq> sid then row
      else (new_item_row sid it)
        \<lparr>ir_id := ir_id row, ir_position := ir_position row, ir_created_at := ir_created_at row,
         ir_payload := it\<lparr>i_position := ir_position row\<rparr>\<rparr>)"

definition project_item :: "ident \<Rightarrow> item \<Rightarrow> db \<Rightarrow> db" where
  "project_item sid it d =
     d\<lparr>db_items := upsert ir_id (update_item_row sid it) (new_item_row sid it) (db_items d)\<rparr>"

text \<open>
  \<open>jsonb_set\<close> appends to the payload's \<open>text\<close> or \<open>output\<close> member, whatever the item's kind, and
  stamps \<open>updatedAt\<close>. A member the kind does not have is created beside the item's own and
  never read back as part of it.
\<close>

definition append_payload :: "stream_field \<Rightarrow> string \<Rightarrow> instant \<Rightarrow> item \<Rightarrow> item" where
  "append_payload field txt tm it =
     it\<lparr>i_updated_at := tm,
        i_body :=
          (case field of
             OutputField \<Rightarrow>
               (case i_body it of Command c d out x \<Rightarrow> Command c d (out @ txt) x | b \<Rightarrow> b)
           | TextField \<Rightarrow>
               (case i_body it of
                  UserMessage d a t atts an \<Rightarrow> UserMessage d a (t @ txt) atts an
                | InboundMessage d fr t atts al \<Rightarrow> InboundMessage d fr (t @ txt) atts al
                | AssistantMessage t a \<Rightarrow> AssistantMessage (t @ txt) a
                | Reasoning t \<Rightarrow> Reasoning (t @ txt)
                | Notice c t dat \<Rightarrow> Notice c (t @ txt) dat
                | ContextHandoff s fr to cov t \<Rightarrow> ContextHandoff s fr to cov (t @ txt)
                | b \<Rightarrow> b))\<rparr>"

definition project_append :: "ident \<Rightarrow> ident \<Rightarrow> stream_field \<Rightarrow> string \<Rightarrow> instant \<Rightarrow> db \<Rightarrow> db" where
  "project_append sid iid field txt tm d =
     d\<lparr>db_items := update_where (\<lambda>r. ir_id r = iid \<and> ir_session_id r = sid)
          (\<lambda>r. r\<lparr>ir_payload := append_payload field txt tm (ir_payload r),
                 ir_text := (if field = TextField then ir_text r @ txt else ir_text r),
                 ir_updated_at := tm\<rparr>) (db_items d)\<rparr>"

definition new_request_row :: "ident \<Rightarrow> instant \<Rightarrow> runtime_request \<Rightarrow> request_row" where
  "new_request_row sid stamp r =
     \<lparr>rr_session_id = sid, rr_request_id = r_id r, rr_turn_id = r_turn_id r,
      rr_attempt_id = r_attempt_id r, rr_item_id = r_item_id r, rr_kind = r_kind r,
      rr_payload = r, rr_status = r_status r, rr_answerable = r_answerable r,
      rr_blocking = r_blocking r, rr_expires_at = r_expires_at r, rr_response = r_response r,
      rr_resolved_by = r_resolved_by r, rr_resolved_at = r_resolved_at r, rr_reason = r_reason r,
      rr_created_at = r_created_at r, rr_updated_at = stamp, rr_revision = 0\<rparr>"

definition update_request_row :: "ident \<Rightarrow> instant \<Rightarrow> runtime_request \<Rightarrow> request_row \<Rightarrow> request_row" where
  "update_request_row sid stamp r row =
     (new_request_row sid stamp r)
     \<lparr>rr_created_at := rr_created_at row, rr_revision := rr_revision row + 1\<rparr>"

definition project_request :: "ident \<Rightarrow> instant \<Rightarrow> runtime_request \<Rightarrow> db \<Rightarrow> db" where
  "project_request sid stamp r d =
     d\<lparr>db_requests := upsert rr_key (update_request_row sid stamp r) (new_request_row sid stamp r) (db_requests d)\<rparr>"

definition update_thread_row :: "ident \<Rightarrow> provider_thread \<Rightarrow> provider_thread \<Rightarrow> provider_thread" where
  "update_thread_row sid p row =
     (if p_session_id row \<noteq> sid then row
      else row\<lparr>p_harness := p_harness p, p_native_ref := p_native_ref p, p_status := p_status p,
               p_last_turn_ordinal := p_last_turn_ordinal p, p_portable := p_portable p,
               p_updated_at := p_updated_at p\<rparr>)"

definition project_thread :: "ident \<Rightarrow> provider_thread \<Rightarrow> db \<Rightarrow> db" where
  "project_thread sid p d =
     d\<lparr>db_threads := upsert p_id (update_thread_row sid p) (p\<lparr>p_session_id := sid\<rparr>) (db_threads d)\<rparr>"

text \<open>The projector; a statement that breaks a unique constraint aborts the transaction.\<close>

definition constrained :: "string \<Rightarrow> ('r list \<Rightarrow> bool) \<Rightarrow> (db \<Rightarrow> 'r list) \<Rightarrow> db \<Rightarrow> log_error + db" where
  "constrained name ok table d = (if ok (table d) then Inr d else Inl (UniqueViolation name))"

definition project :: "instant \<Rightarrow> stored_event \<Rightarrow> db \<Rightarrow> log_error + db" where
  "project now stored d =
     (let sid = se_session_id stored; stamp = se_at stored in
      case se_event stored of
        SessionChanged c \<Rightarrow> Inr (project_session now sid c d)
      | TurnChanged t \<Rightarrow>
          constrained ''agent_turns'' turn_constraints db_turns (project_turn now sid stamp t d)
      | AttemptChanged a \<Rightarrow>
          constrained ''agent_turn_attempts'' attempt_constraints db_attempts (project_attempt sid a d)
      | ItemAdded it \<Rightarrow>
          constrained ''agent_items'' item_constraints db_items (project_item sid it d)
      | ItemChanged it \<Rightarrow>
          constrained ''agent_items'' item_constraints db_items (project_item sid it d)
      | ItemTextAppended iid field txt tm \<Rightarrow> Inr (project_append sid iid field txt tm d)
      | RequestChanged r \<Rightarrow> Inr (project_request sid stamp r d)
      | ProviderThreadChanged p \<Rightarrow> Inr (project_thread sid p d))"

fun project_all :: "instant \<Rightarrow> stored_event list \<Rightarrow> db \<Rightarrow> log_error + db" where
  "project_all now [] d = Inr d"
| "project_all now (e # es) d =
     (case project now e d of Inl err \<Rightarrow> Inl err | Inr d' \<Rightarrow> project_all now es d')"

section \<open>What a projection leaves alone\<close>

lemmas project_steps = project_session_def project_turn_def project_attempt_def project_item_def
  project_append_def project_request_def project_thread_def

lemma project_Inr:
  "project now e d = Inr d' \<Longrightarrow>
   (case se_event e of
      SessionChanged c \<Rightarrow> d' = project_session now (se_session_id e) c d
    | TurnChanged t \<Rightarrow> d' = project_turn now (se_session_id e) (se_at e) t d \<and> turn_constraints (db_turns d')
    | AttemptChanged a \<Rightarrow> d' = project_attempt (se_session_id e) a d \<and> attempt_constraints (db_attempts d')
    | ItemAdded it \<Rightarrow> d' = project_item (se_session_id e) it d \<and> item_constraints (db_items d')
    | ItemChanged it \<Rightarrow> d' = project_item (se_session_id e) it d \<and> item_constraints (db_items d')
    | ItemTextAppended iid field txt tm \<Rightarrow> d' = project_append (se_session_id e) iid field txt tm d
    | RequestChanged r \<Rightarrow> d' = project_request (se_session_id e) (se_at e) r d
    | ProviderThreadChanged p \<Rightarrow> d' = project_thread (se_session_id e) p d)"
  by (auto simp: project_def Let_def constrained_def split: session_event.splits if_splits)

text \<open>Events, receipts and the engine's tables are written by other operations only.\<close>

lemma project_frame:
  assumes "project now e d = Inr d'"
  shows "db_events d' = db_events d" "db_receipts d' = db_receipts d"
    "db_commands d' = db_commands d" "db_allocations d' = db_allocations d"
    "db_nodes d' = db_nodes d" "db_client_runners d' = db_client_runners d"
    "map sr_event_sequence (db_sessions d') = map sr_event_sequence (db_sessions d)"
    "map sr_id (db_sessions d') = map sr_id (db_sessions d)"
proof -
  have id: "sr_id (r\<lparr>sr_fields := project_fields now c (sr_fields r)\<rparr>) = sr_id r" for c r
    by (simp add: sr_id_def project_fields_def)
  show "db_events d' = db_events d" "db_receipts d' = db_receipts d"
    "db_commands d' = db_commands d" "db_allocations d' = db_allocations d"
    "db_nodes d' = db_nodes d" "db_client_runners d' = db_client_runners d"
    "map sr_event_sequence (db_sessions d') = map sr_event_sequence (db_sessions d)"
    "map sr_id (db_sessions d') = map sr_id (db_sessions d)"
    using project_Inr [OF assms] by (auto simp: project_steps map_update_where id split: session_event.splits)
qed

lemma project_turns:
  "project now e d = Inr d' \<Longrightarrow>
   db_turns d' = (case se_event e of
     TurnChanged t \<Rightarrow> upsert tr_id (update_turn_row (se_session_id e) (se_at e) t)
        (new_turn_row now (se_session_id e) (se_at e) t) (db_turns d)
   | _ \<Rightarrow> db_turns d)"
  by (drule project_Inr) (auto simp: project_steps split: session_event.splits)

lemma project_items:
  "project now e d = Inr d' \<Longrightarrow>
   db_items d' = (case se_event e of
     ItemAdded it \<Rightarrow> db_items (project_item (se_session_id e) it d)
   | ItemChanged it \<Rightarrow> db_items (project_item (se_session_id e) it d)
   | ItemTextAppended iid field txt tm \<Rightarrow> db_items (project_append (se_session_id e) iid field txt tm d)
   | _ \<Rightarrow> db_items d)"
  by (drule project_Inr) (auto simp: project_steps split: session_event.splits)

lemma project_all_append:
  "project_all now (xs @ ys) d =
     (case project_all now xs d of Inl err \<Rightarrow> Inl err | Inr d' \<Rightarrow> project_all now ys d')"
  by (induction now xs d rule: project_all.induct) (auto split: sum.splits)

lemma project_all_invariant:
  assumes "project_all now es d = Inr d'" and "P d"
    and "\<And>e d d'. e \<in> set es \<Longrightarrow> project now e d = Inr d' \<Longrightarrow> P d \<Longrightarrow> P d'"
  shows "P d'"
  using assms
proof (induction now es d rule: project_all.induct)
  case (2 now e es d)
  from 2(2) obtain d1 where d1: "project now e d = Inr d1" "project_all now es d1 = Inr d'"
    by (auto split: sum.splits)
  show ?case
  proof (rule 2(1) [OF d1(1) d1(2)])
    show "P d1" using 2(4) [of e d d1] d1(1) 2(3) by simp
    show "\<And>e d d'. e \<in> set es \<Longrightarrow> project now e d = Inr d' \<Longrightarrow> P d \<Longrightarrow> P d'"
      using 2(4) by (meson list.set_intros(2))
  qed
qed simp

lemma project_all_frame:
  assumes "project_all now es d = Inr d'"
  shows "db_events d' = db_events d" "db_receipts d' = db_receipts d"
    "db_commands d' = db_commands d" "db_allocations d' = db_allocations d"
    "db_nodes d' = db_nodes d" "db_client_runners d' = db_client_runners d"
    "map sr_event_sequence (db_sessions d') = map sr_event_sequence (db_sessions d)"
    "map sr_id (db_sessions d') = map sr_id (db_sessions d)"
  by (rule project_all_invariant [OF assms]; simp add: project_frame)+

text \<open>The table's own constraint, with ids unique, holds after every projection.\<close>

lemma project_turn_constraints:
  assumes "project now e d = Inr d'" and "turn_constraints (db_turns d)"
  shows "turn_constraints (db_turns d')"
  using project_Inr [OF assms(1)] assms(2) by (auto simp: project_steps split: session_event.splits)

lemma project_all_turn_constraints:
  "project_all now es d = Inr d' \<Longrightarrow> turn_constraints (db_turns d) \<Longrightarrow> turn_constraints (db_turns d')"
  by (rule project_all_invariant) (auto intro: project_turn_constraints)

end
