(* ===== verification/Session_Log.thy ===== *)
theory Session_Log
  imports Projector Reducer Fixtures
begin

text \<open>
  The session event log, the first half of
  \<open>packages/core/src/services/sessions/session-log.ts\<close>. Every operation is one transaction: it
  returns its result with the new database, or an error and leaves the database as it was. The
  session row's lock orders transactions, so each one runs from the state the one before left.
  \<open>now\<close> is the clock, read once per transaction; \<open>nb\<close> is the parameter of the metadata rules and
  \<open>octets\<close> stands for PostgreSQL's \<open>octet_length(payload::text)\<close>. Hints to pollers
  (\<open>WorkWakeups\<close>) are the topics \<open>wakeup_topics\<close> computes; sending them is not modelled.
\<close>

section \<open>Bounds and patterns\<close>

definition REPLAY_MAX_EVENTS :: nat where "REPLAY_MAX_EVENTS = 256"
definition REPLAY_MAX_BYTES :: nat where "REPLAY_MAX_BYTES = 1024 * 1024"
definition PERSIST_BATCH :: nat where "PERSIST_BATCH = 1000"

text \<open>\<open>RENAME_COMMAND_PATTERN\<close> is the SQL pattern \<open>rename:%\<close>; \<open>fresh\<close> is the random UUID.\<close>

definition is_rename_command :: "string \<Rightarrow> bool" where
  "is_rename_command c \<longleftrightarrow> take 7 c = ''rename:''"

definition rename_command_id :: "ident \<Rightarrow> ident \<Rightarrow> string" where
  "rename_command_id user fresh = ''rename:'' @ user @ '':'' @ fresh"

section \<open>Reading the log\<close>

definition session_row_of :: "db \<Rightarrow> ident \<Rightarrow> session_row option" where
  "session_row_of d sid = find_row sr_id sid (db_sessions d)"

definition events_of :: "ident \<Rightarrow> db \<Rightarrow> stored_event list" where
  "events_of sid d = filter (\<lambda>e. se_session_id e = sid) (db_events d)"

definition latest_sequence :: "db \<Rightarrow> ident \<Rightarrow> nat" where
  "latest_sequence d sid =
     (case session_row_of d sid of None \<Rightarrow> 0 | Some row \<Rightarrow> sr_event_sequence row)"

definition named_by_person :: "db \<Rightarrow> ident \<Rightarrow> bool" where
  "named_by_person d sid \<longleftrightarrow>
     (\<exists>e \<in> set (events_of sid d).
        case se_command_id e of None \<Rightarrow> False | Some c \<Rightarrow> is_rename_command c)"

definition has_logged :: "db \<Rightarrow> ident \<Rightarrow> bool" where
  "has_logged d sid \<longleftrightarrow> events_of sid d \<noteq> []"

datatype replay_answer = Reset | Replay "stored_event list"

definition events_after ::
  "(session_event \<Rightarrow> nat) \<Rightarrow> db \<Rightarrow> ident \<Rightarrow> nat \<Rightarrow> nat option \<Rightarrow> nat option \<Rightarrow> replay_answer"
where
  "events_after octets d sid after max_events max_bytes =
     (let me = (case max_events of None \<Rightarrow> REPLAY_MAX_EVENTS | Some n \<Rightarrow> n);
          mb = (case max_bytes of None \<Rightarrow> REPLAY_MAX_BYTES | Some n \<Rightarrow> n);
          rows = take (me + 1) (sort_key se_sequence
                   (filter (\<lambda>e. after < se_sequence e) (events_of sid d)))
      in if me < length rows then Reset
         else if mb < sum_list (map (\<lambda>e. octets (se_event e)) rows) then Reset
         else Replay rows)"

definition events_after_many :: "db \<Rightarrow> (ident \<times> nat) list \<Rightarrow> nat \<Rightarrow> stored_event list" where
  "events_after_many d cursors limit =
     (if cursors = [] then []
      else take limit (sort_key se_session_id (sort_key se_sequence
             (filter (\<lambda>e. \<exists>c \<in> set cursors. se_session_id e = fst c \<and> snd c < se_sequence e)
               (db_events d)))))"

section \<open>Writing the log\<close>

text \<open>
  \<open>currentTurns\<close>: turn changes as they apply to the turns as they stand. A settled turn is not
  put back to work, and a stop is not withdrawn.
\<close>

definition turn_row_of :: "db \<Rightarrow> ident \<Rightarrow> ident \<Rightarrow> turn_row option" where
  "turn_row_of d sid tid = find_row tr_id tid (filter (\<lambda>r. tr_session_id r = sid) (db_turns d))"

definition current_turn :: "db \<Rightarrow> ident \<Rightarrow> session_event \<Rightarrow> session_event list" where
  "current_turn d sid event =
     (case event of
        TurnChanged t \<Rightarrow>
          (case turn_row_of d sid (t_id t) of
             None \<Rightarrow> [event]
           | Some row \<Rightarrow>
               if is_settled_turn_status (tr_status row) \<and> is_active_turn_status (t_status t) then []
               else if is_active_turn_status (t_status t) \<and> \<not> t_cancellation_requested t \<and>
                       tr_cancellation_requested_at row \<noteq> None
               then [TurnChanged (t\<lparr>t_cancellation_requested := True\<rparr>)]
               else [event])
      | _ \<Rightarrow> [event])"

definition current_turns :: "db \<Rightarrow> ident \<Rightarrow> session_event list \<Rightarrow> session_event list" where
  "current_turns d sid events = concat (map (current_turn d sid) events)"

text \<open>
  An item's position is the sequence of the event that added it; a later change in the same
  batch keeps it. \<open>positions\<close> is the batch's map, the latest entry first.
\<close>

fun place :: "nat \<Rightarrow> (ident \<times> nat) list \<Rightarrow> session_event list \<Rightarrow> session_event list" where
  "place n positions [] = []"
| "place n positions (e # es) =
     (case e of
        ItemAdded it \<Rightarrow>
          ItemAdded (it\<lparr>i_position := n\<rparr>) # place (Suc n) ((i_id it, n) # positions) es
      | ItemChanged it \<Rightarrow>
          (case map_of positions (i_id it) of None \<Rightarrow> e | Some p \<Rightarrow> ItemChanged (it\<lparr>i_position := p\<rparr>))
          # place (Suc n) positions es
      | _ \<Rightarrow> e # place (Suc n) positions es)"

fun stamp_events ::
  "ident \<Rightarrow> instant \<Rightarrow> string option \<Rightarrow> nat \<Rightarrow> session_event list \<Rightarrow> stored_event list"
where
  "stamp_events sid now cmd n [] = []"
| "stamp_events sid now cmd n (e # es) =
     \<lparr>se_session_id = sid, se_sequence = n, se_at = now, se_command_id = cmd, se_event = e\<rparr>
     # stamp_events sid now cmd (Suc n) es"

text \<open>The table's primary key is the session and the sequence.\<close>

definition event_key :: "stored_event \<Rightarrow> ident \<times> nat" where
  "event_key e = (se_session_id e, se_sequence e)"

definition insert_events :: "stored_event list \<Rightarrow> db \<Rightarrow> log_error + db" where
  "insert_events es d =
     (if distinct (map event_key es) \<and> set (map event_key es) \<inter> set (map event_key (db_events d)) = {}
      then Inr (d\<lparr>db_events := db_events d @ es\<rparr>)
      else Inl (UniqueViolation ''agent_session_events''))"

function insert_batches :: "nat \<Rightarrow> stored_event list \<Rightarrow> db \<Rightarrow> log_error + db" where
  "insert_batches start stored d =
     (if start < length stored then
        (case insert_events (take PERSIST_BATCH (drop start stored)) d of
           Inl err \<Rightarrow> Inl err
         | Inr d' \<Rightarrow> insert_batches (start + PERSIST_BATCH) stored d')
      else Inr d)"
  by pat_completeness auto
termination
  by (relation "measure (\<lambda>(start, stored, d). length stored - start)") (auto simp: PERSIST_BATCH_def)

declare insert_batches.simps [simp del]

definition persist :: "instant \<Rightarrow> stored_event list \<Rightarrow> db \<Rightarrow> log_error + db" where
  "persist now stored d =
     (case insert_batches 0 stored d of
        Inl err \<Rightarrow> Inl err
      | Inr d' \<Rightarrow> project_all now stored d')"

datatype work_topic = Sessions | Chats | AgentTopic

definition wakeup_topics :: "stored_event list \<Rightarrow> work_topic list" where
  "wakeup_topics stored =
     [Sessions]
     @ (if \<exists>e \<in> set stored. case se_event e of
            ItemTextAppended _ _ _ _ \<Rightarrow> False | ItemChanged _ \<Rightarrow> False | _ \<Rightarrow> True
        then [Chats] else [])
     @ (if \<exists>e \<in> set stored. case se_event e of TurnChanged t \<Rightarrow> t_status t = Queued | _ \<Rightarrow> False
        then [AgentTopic] else [])"

definition set_sequence :: "ident \<Rightarrow> nat \<Rightarrow> db \<Rightarrow> db" where
  "set_sequence sid n d =
     d\<lparr>db_sessions := update_where (\<lambda>r. sr_id r = sid) (\<lambda>r. r\<lparr>sr_event_sequence := n\<rparr>) (db_sessions d)\<rparr>"

definition append_locked ::
  "instant \<Rightarrow> ident \<Rightarrow> string option \<Rightarrow> session_event list \<Rightarrow> db \<Rightarrow> (stored_event list) tx"
where
  "append_locked now sid cmd events d =
     (case session_row_of d sid of
        None \<Rightarrow> Inl (SessionNotFound sid)
      | Some row \<Rightarrow>
          (let last = sr_event_sequence row + length events;
               first = last - length events + 1;
               stored = stamp_events sid now cmd first (place first [] events)
           in case persist now stored (set_sequence sid last d) of
                Inl err \<Rightarrow> Inl err
              | Inr d' \<Rightarrow> Inr (stored, d')))"

definition append_events ::
  "instant \<Rightarrow> ident \<Rightarrow> string option \<Rightarrow> session_event list \<Rightarrow> db \<Rightarrow> (stored_event list) tx"
where
  "append_events now sid cmd events d =
     (if events = [] then Inr ([], d)
      else (case session_row_of d sid of
              None \<Rightarrow> Inl (SessionNotFound sid)
            | Some _ \<Rightarrow>
                (let es = current_turns d sid events in
                 if es = [] then Inr ([], d) else append_locked now sid cmd es d)))"

section \<open>Copies of a session\<close>

text \<open>\<open>COPIED_SESSION_FIELDS\<close>: what a copy may set of the session.\<close>

definition copied_fields :: "session_patch \<Rightarrow> session_patch" where
  "copied_fields c =
     empty_patch\<lparr>c_title := c_title c, c_icon := c_icon c, c_todos := c_todos c,
       c_metadata := c_metadata c, c_work_status := c_work_status c, c_activity := c_activity c,
       c_updated_at := c_updated_at c\<rparr>"

definition own_event :: "(rat \<Rightarrow> nat) \<Rightarrow> ident \<Rightarrow> session_event \<Rightarrow> log_error + session_event" where
  "own_event nb sid event =
     (case event of
        SessionChanged c \<Rightarrow>
          (case c_metadata c of
             None \<Rightarrow> Inr (SessionChanged (copied_fields c))
           | Some m \<Rightarrow>
               (case assert_session_metadata nb (JObj m) of
                  Some err \<Rightarrow> Inl (BadMetadata err)
                | None \<Rightarrow> Inr (SessionChanged (copied_fields c))))
      | TurnChanged t \<Rightarrow> if t_session_id t \<noteq> sid then Inl (ForeignEvent sid) else Inr event
      | AttemptChanged a \<Rightarrow> if a_session_id a \<noteq> sid then Inl (ForeignEvent sid) else Inr event
      | ItemAdded it \<Rightarrow> if i_session_id it \<noteq> sid then Inl (ForeignEvent sid) else Inr event
      | ItemChanged it \<Rightarrow> if i_session_id it \<noteq> sid then Inl (ForeignEvent sid) else Inr event
      | ItemTextAppended iid field txt tm \<Rightarrow> Inr event
      | RequestChanged r \<Rightarrow> if r_session_id r \<noteq> sid then Inl (ForeignEvent sid) else Inr event
      | ProviderThreadChanged p \<Rightarrow> if p_session_id p \<noteq> sid then Inl (ForeignEvent sid) else Inr event)"

fun own_each :: "(rat \<Rightarrow> nat) \<Rightarrow> ident \<Rightarrow> session_event list \<Rightarrow> log_error + session_event list" where
  "own_each nb sid [] = Inr []"
| "own_each nb sid (e # es) =
     (case own_event nb sid e of
        Inl err \<Rightarrow> Inl err
      | Inr e' \<Rightarrow> (case own_each nb sid es of Inl err \<Rightarrow> Inl err | Inr es' \<Rightarrow> Inr (e' # es')))"

definition opt_list :: "'a option \<Rightarrow> 'a list" where
  "opt_list x = (case x of None \<Rightarrow> [] | Some v \<Rightarrow> [v])"

definition turn_ids :: "session_event \<Rightarrow> ident list" where
  "turn_ids e =
     (case e of TurnChanged t \<Rightarrow> [t_id t] | AttemptChanged a \<Rightarrow> [a_turn_id a]
      | ItemAdded it \<Rightarrow> opt_list (i_turn_id it) | ItemChanged it \<Rightarrow> opt_list (i_turn_id it)
      | RequestChanged r \<Rightarrow> opt_list (r_turn_id r) | _ \<Rightarrow> [])"

definition attempt_ids :: "session_event \<Rightarrow> ident list" where
  "attempt_ids e =
     (case e of AttemptChanged a \<Rightarrow> [a_id a] | RequestChanged r \<Rightarrow> opt_list (r_attempt_id r) | _ \<Rightarrow> [])"

definition item_ids :: "session_event \<Rightarrow> ident list" where
  "item_ids e =
     (case e of ItemAdded it \<Rightarrow> [i_id it] | ItemChanged it \<Rightarrow> [i_id it]
      | ItemTextAppended iid _ _ _ \<Rightarrow> [iid] | RequestChanged r \<Rightarrow> opt_list (r_item_id r) | _ \<Rightarrow> [])"

definition thread_ids :: "session_event \<Rightarrow> ident list" where
  "thread_ids e = (case e of ProviderThreadChanged p \<Rightarrow> [p_id p] | _ \<Rightarrow> [])"

definition request_ids :: "session_event \<Rightarrow> ident list" where
  "request_ids e = (case e of RequestChanged r \<Rightarrow> [r_id r] | _ \<Rightarrow> [])"

definition elsewhere :: "('r \<Rightarrow> ident) \<Rightarrow> ('r \<Rightarrow> ident) \<Rightarrow> 'r list \<Rightarrow> ident \<Rightarrow> ident list \<Rightarrow> bool" where
  "elsewhere key owner rows sid ids \<longleftrightarrow> (\<exists>r \<in> set rows. key r \<in> set ids \<and> owner r \<noteq> sid)"

definition own_events ::
  "(rat \<Rightarrow> nat) \<Rightarrow> db \<Rightarrow> ident \<Rightarrow> session_event list \<Rightarrow> log_error + session_event list"
where
  "own_events nb d sid events =
     (case own_each nb sid events of
        Inl err \<Rightarrow> Inl err
      | Inr own \<Rightarrow>
          if elsewhere tr_id tr_session_id (db_turns d) sid (concat (map turn_ids events)) \<or>
             elsewhere ar_id ar_session_id (db_attempts d) sid (concat (map attempt_ids events)) \<or>
             elsewhere ir_id ir_session_id (db_items d) sid (concat (map item_ids events)) \<or>
             elsewhere p_id p_session_id (db_threads d) sid (concat (map thread_ids events)) \<or>
             elsewhere rr_request_id rr_session_id (db_requests d) sid (concat (map request_ids events))
          then Inl (ForeignEvent sid) else Inr own)"

text \<open>The replicated events continue this copy's log, or the copy refuses them.\<close>

fun continue_log :: "ident \<Rightarrow> nat \<Rightarrow> stored_event list \<Rightarrow> log_error + nat" where
  "continue_log sid sequence [] = Inr sequence"
| "continue_log sid sequence (e # es) =
     (if se_sequence e \<noteq> sequence + 1 then Inl (LogGap sid (sequence + 1) (se_sequence e))
      else continue_log sid (se_sequence e) es)"

definition replicate_events ::
  "(rat \<Rightarrow> nat) \<Rightarrow> instant \<Rightarrow> ident \<Rightarrow> stored_event list \<Rightarrow> db \<Rightarrow> nat tx"
where
  "replicate_events nb now sid events d =
     (case session_row_of d sid of
        None \<Rightarrow> Inl (SessionNotFound sid)
      | Some row \<Rightarrow>
          (let fresh = filter (\<lambda>e. sr_event_sequence row < se_sequence e) events in
           case continue_log sid (sr_event_sequence row) fresh of
             Inl err \<Rightarrow> Inl err
           | Inr sequence \<Rightarrow>
               if fresh = [] then Inr (sequence, d)
               else (case own_events nb d sid (map se_event fresh) of
                       Inl err \<Rightarrow> Inl err
                     | Inr own \<Rightarrow>
                         (case persist now
                            (map2 (\<lambda>e ev. e\<lparr>se_session_id := sid, se_event := ev\<rparr>) fresh own)
                            (set_sequence sid sequence d) of
                            Inl err \<Rightarrow> Inl err
                          | Inr d' \<Rightarrow> Inr (sequence, d')))))"

definition snapshot_events :: "session_snapshot \<Rightarrow> session_event list" where
  "snapshot_events sn =
     map ProviderThreadChanged (sn_provider_threads sn) @ map ItemAdded (sn_items sn) @
     map TurnChanged (sn_turns sn) @ map AttemptChanged (sn_attempts sn) @
     map RequestChanged (sn_requests sn)"

definition import_snapshot ::
  "(rat \<Rightarrow> nat) \<Rightarrow> instant \<Rightarrow> ident \<Rightarrow> session_snapshot \<Rightarrow> db \<Rightarrow> unit tx"
where
  "import_snapshot nb now sid sn d =
     (case own_events nb d sid (snapshot_events sn) of
        Inl err \<Rightarrow> Inl err
      | Inr own \<Rightarrow>
          (case project_all now
                 (map (\<lambda>e. \<lparr>se_session_id = sid, se_sequence = sn_sequence sn, se_at = now,
                            se_command_id = None, se_event = e\<rparr>) own) d of
             Inl err \<Rightarrow> Inl err
           | Inr d' \<Rightarrow>
               Inr ((), d'\<lparr>db_sessions := update_where (\<lambda>r. sr_id r = sid)
                 (\<lambda>r. r\<lparr>sr_event_sequence := max (sr_event_sequence r) (sn_sequence sn)\<rparr>)
                 (db_sessions d')\<rparr>)))"

text \<open>Attempts and turn commands go with their turns (\<open>ON DELETE CASCADE\<close>).\<close>

definition clear_unlogged :: "ident \<Rightarrow> db \<Rightarrow> unit tx" where
  "clear_unlogged sid d =
     (if has_logged d sid then Inl (HasOwnLog sid)
      else
        (let gone = map tr_id (filter (\<lambda>r. tr_session_id r = sid) (db_turns d)) in
         Inr ((), set_sequence sid 0
           (d\<lparr>db_requests := filter (\<lambda>r. rr_session_id r \<noteq> sid) (db_requests d),
              db_turns := filter (\<lambda>r. tr_session_id r \<noteq> sid) (db_turns d),
              db_attempts := filter (\<lambda>r. a_turn_id (ar_attempt r) \<notin> set gone) (db_attempts d),
              db_commands := filter (\<lambda>r. tc_turn_id r \<notin> set gone) (db_commands d),
              db_items := filter (\<lambda>r. ir_session_id r \<noteq> sid) (db_items d),
              db_threads := filter (\<lambda>r. p_session_id r \<noteq> sid) (db_threads d),
              db_receipts := filter (\<lambda>r. cw_session_id r \<noteq> sid) (db_receipts d)\<rparr>))))"

section \<open>Commands\<close>

definition receipt :: "db \<Rightarrow> ident \<Rightarrow> string \<Rightarrow> command_receipt option" where
  "receipt d sid cid =
     map_option cw_receipt
       (find_row (\<lambda>r. (cw_session_id r, cr_command_id (cw_receipt r))) (sid, cid) (db_receipts d))"

text \<open>
  A command runs at most once. \<open>before\<close> is the outcome of the work outside the database (the
  error it threw, if any); \<open>run\<close> is the command's own transaction. A rejection of either is
  recorded; any other error is the caller's to retry.
\<close>

definition record_rejection ::
  "ident \<Rightarrow> string \<Rightarrow> string \<Rightarrow> ident option \<Rightarrow> string \<times> string \<Rightarrow> db \<Rightarrow> command_receipt \<times> db"
where
  "record_rejection sid cid ty user refusal d =
     (let rejected = \<lparr>cr_command_id = cid, cr_status = Rejected, cr_sequence = latest_sequence d sid,
                      cr_result = None, cr_error = Some refusal\<rparr>;
          d' = (case receipt d sid cid of
                  Some _ \<Rightarrow> d
                | None \<Rightarrow> d\<lparr>db_receipts := db_receipts d @
                    [\<lparr>cw_session_id = sid, cw_type = ty, cw_external_user_id = user,
                      cw_receipt = rejected\<rparr>]\<rparr>)
      in (case receipt d' sid cid of Some r \<Rightarrow> r | None \<Rightarrow> rejected, d'))"

definition run_command ::
  "ident \<Rightarrow> string \<Rightarrow> string \<Rightarrow> ident option \<Rightarrow> (db \<Rightarrow> (json_object option) tx) \<Rightarrow> db \<Rightarrow> command_receipt tx"
where
  "run_command sid cid ty user run d =
     (case session_row_of d sid of
        None \<Rightarrow> Inl (SessionNotFound sid)
      | Some _ \<Rightarrow>
          (case receipt d sid cid of
             Some raced \<Rightarrow> Inr (raced, d)
           | None \<Rightarrow>
               (case run d of
                  Inl err \<Rightarrow> Inl err
                | Inr (result, d1) \<Rightarrow>
                    (let accepted = \<lparr>cr_command_id = cid, cr_status = Accepted,
                           cr_sequence = latest_sequence d1 sid, cr_result = result, cr_error = None\<rparr>
                     in Inr (accepted, d1\<lparr>db_receipts := db_receipts d1 @
                          [\<lparr>cw_session_id = sid, cw_type = ty, cw_external_user_id = user,
                            cw_receipt = accepted\<rparr>]\<rparr>)))))"

definition command ::
  "ident \<Rightarrow> string \<Rightarrow> string \<Rightarrow> ident option \<Rightarrow> log_error option \<Rightarrow> (db \<Rightarrow> (json_object option) tx) \<Rightarrow>
   db \<Rightarrow> command_receipt tx"
where
  "command sid cid ty user before run d =
     (case receipt d sid cid of
        Some existing \<Rightarrow> Inr (existing, d)
      | None \<Rightarrow>
          (case (case before of Some err \<Rightarrow> Inl err | None \<Rightarrow> run_command sid cid ty user run d) of
             Inl (CommandRejected code msg _) \<Rightarrow>
               (if session_row_of d sid = None then Inl (SessionNotFound sid)
                else Inr (record_rejection sid cid ty user (code, msg) d))
           | Inl err \<Rightarrow> Inl err
           | Inr res \<Rightarrow> Inr res))"

section \<open>Batches and sequences\<close>

definition storable :: "stored_event list \<Rightarrow> db \<Rightarrow> bool" where
  "storable es d \<longleftrightarrow>
     distinct (map event_key es) \<and> set (map event_key es) \<inter> set (map event_key (db_events d)) = {}"

text \<open>The batched statements store what one statement would.\<close>

lemma insert_batches_all:
  "storable (drop start stored) d \<Longrightarrow>
   insert_batches start stored d = Inr (d\<lparr>db_events := db_events d @ drop start stored\<rparr>)"
proof (induction start stored d rule: insert_batches.induct)
  case (1 start stored d)
  show ?case
  proof (cases "start < length stored")
    case False
    then show ?thesis by (simp add: insert_batches.simps)
  next
    case True
    let ?now = "take PERSIST_BATCH (drop start stored)"
    let ?rest = "drop (start + PERSIST_BATCH) stored"
    have parts: "drop start stored = ?now @ ?rest"
      by (metis add.commute append_take_drop_id drop_drop)
    let ?d = "d\<lparr>db_events := db_events d @ ?now\<rparr>"
    have "storable (?now @ ?rest) d" using 1(2) parts by metis
    then have now: "insert_events ?now d = Inr ?d" and rest: "storable ?rest ?d"
      by (auto simp: storable_def insert_events_def)
    from 1(1) [OF True now rest] now True parts show ?thesis
      by (subst insert_batches.simps) simp
  qed
qed

lemma insert_batches_storable:
  "insert_batches start stored d = Inr d' \<Longrightarrow> db_events d' = db_events d @ drop start stored \<and>
   (\<exists>es. d' = d\<lparr>db_events := es\<rparr>)"
proof (induction start stored d rule: insert_batches.induct)
  case (1 start stored d)
  show ?case
  proof (cases "start < length stored")
    case False
    with 1(2) show ?thesis by (auto simp: insert_batches.simps intro: exI [of _ "db_events d"])
  next
    case True
    with 1(2) obtain d1 where d1: "insert_events (take PERSIST_BATCH (drop start stored)) d = Inr d1"
      and rec: "insert_batches (start + PERSIST_BATCH) stored d1 = Inr d'"
      by (subst (asm) insert_batches.simps) (auto split: sum.splits)
    from 1(1) [OF True d1 rec] d1 show ?thesis
      by (auto simp: insert_events_def add.commute append_take_drop_id simp flip: drop_drop
          split: if_splits)
  qed
qed

lemma stamp_events_length [simp]: "length (stamp_events sid now cmd n es) = length es"
  by (induction es arbitrary: n) auto

lemma stamp_events_follows: "follows se_sequence n (stamp_events sid now cmd (Suc n) es)"
  by (induction es arbitrary: n) auto

lemma stamp_events_in:
  "e \<in> set (stamp_events sid now cmd n es) \<Longrightarrow>
   se_session_id e = sid \<and> se_at e = now \<and> se_command_id e = cmd \<and> se_event e \<in> set es \<and> n \<le> se_sequence e"
  by (induction es arbitrary: n) fastforce+

lemma map_stamp_events: "map se_event (stamp_events sid now cmd n es) = es"
  by (induction es arbitrary: n) auto

lemma place_length [simp]: "length (place n ps es) = length es"
  by (induction n ps es rule: place.induct) (auto split: session_event.splits)

lemma place_turns:
  "TurnChanged t \<in> set (place n ps es) \<longleftrightarrow> TurnChanged t \<in> set es"
  by (induction n ps es rule: place.induct) (auto split: session_event.splits option.splits)

text \<open>
  A session's log is well formed when its events run without a gap up to the session's
  sequence. A copy started from a snapshot holds only the end of the log.
\<close>

definition log_wf :: "ident \<Rightarrow> db \<Rightarrow> bool" where
  "log_wf sid d \<longleftrightarrow>
     length (events_of sid d) \<le> latest_sequence d sid \<and>
     follows se_sequence (latest_sequence d sid - length (events_of sid d)) (events_of sid d)"

lemma log_wf_bound:
  assumes "log_wf sid d" and "e \<in> set (events_of sid d)"
  shows "se_sequence e \<le> latest_sequence d sid"
proof -
  obtain k where k: "k < length (events_of sid d)" "e = events_of sid d ! k"
    using assms(2) by (auto simp: in_set_conv_nth)
  from assms(1) have "follows se_sequence (latest_sequence d sid - length (events_of sid d)) (events_of sid d)"
    by (simp add: log_wf_def)
  from follows_nth [OF this k(1)] k(1) assms(1) show ?thesis
    unfolding k(2) log_wf_def by linarith
qed

lemma log_wf_extend:
  assumes "log_wf sid d" and "events_of sid d' = events_of sid d @ es"
    and "follows se_sequence (latest_sequence d sid) es"
    and "latest_sequence d' sid = latest_sequence d sid + length es"
  shows "log_wf sid d'"
  using assms by (simp add: log_wf_def follows_append)

lemma log_wf_cong:
  "events_of sid d' = events_of sid d \<Longrightarrow> latest_sequence d' sid = latest_sequence d sid \<Longrightarrow>
   log_wf sid d' = log_wf sid d"
  by (simp add: log_wf_def)

lemma latest_sequence_alt:
  "latest_sequence d sid =
     (case map_option sr_event_sequence (find_row sr_id sid (db_sessions d)) of None \<Rightarrow> 0 | Some n \<Rightarrow> n)"
  by (simp add: latest_sequence_def session_row_of_def option.case_eq_if option.map_sel)

lemma session_set_sequence:
  "session_row_of (set_sequence sid n d) s =
     map_option (\<lambda>r. if sr_id r = sid then r\<lparr>sr_event_sequence := n\<rparr> else r) (session_row_of d s)"
proof -
  have "sr_id (r\<lparr>sr_event_sequence := n\<rparr>) = sr_id r" for r by (simp add: sr_id_def)
  then show ?thesis
    unfolding session_row_of_def set_sequence_def by (simp add: find_row_update_where)
qed

lemma latest_set_sequence:
  "latest_sequence (set_sequence sid n d) s =
     (if s = sid \<and> session_row_of d sid \<noteq> None then n else latest_sequence d s)"
proof (cases "session_row_of d s")
  case None
  then show ?thesis by (auto simp: latest_sequence_def session_set_sequence)
next
  case (Some r)
  then have "sr_id r = s" unfolding session_row_of_def using find_row_Some by metis
  with Some show ?thesis by (auto simp: latest_sequence_def session_set_sequence)
qed

lemma set_sequence_frame [simp]:
  "db_events (set_sequence sid n d) = db_events d" "db_turns (set_sequence sid n d) = db_turns d"
  "db_receipts (set_sequence sid n d) = db_receipts d" "db_items (set_sequence sid n d) = db_items d"
  "db_attempts (set_sequence sid n d) = db_attempts d" "db_requests (set_sequence sid n d) = db_requests d"
  "db_threads (set_sequence sid n d) = db_threads d" "db_commands (set_sequence sid n d) = db_commands d"
  by (simp_all add: set_sequence_def)

lemma project_all_latest:
  "project_all now es d = Inr d' \<Longrightarrow> latest_sequence d' s = latest_sequence d s"
  using find_row_column [OF project_all_frame(8,7)] by (simp add: latest_sequence_alt)

lemma project_all_sessions:
  assumes "project_all now es d = Inr d'"
  shows "session_row_of d' s = None \<longleftrightarrow> session_row_of d s = None"
proof -
  have "set (map sr_id (db_sessions d')) = set (map sr_id (db_sessions d))"
    by (simp only: project_all_frame(8) [OF assms])
  then show ?thesis by (simp add: session_row_of_def find_row_None)
qed

lemma events_of_events: "db_events d' = db_events d \<Longrightarrow> events_of s d' = events_of s d"
  by (simp add: events_of_def)

text \<open>Persisting appends the stored events to the log, and moves no sequence.\<close>

lemma persist_effect:
  assumes "persist now stored d = Inr d'"
  shows "db_events d' = db_events d @ stored" "latest_sequence d' s = latest_sequence d s"
    "db_receipts d' = db_receipts d"
proof -
  from assms obtain d1 where d1: "insert_batches 0 stored d = Inr d1" "project_all now stored d1 = Inr d'"
    by (auto simp: persist_def split: sum.splits)
  note ins = insert_batches_storable [OF d1(1)] and fr = project_all_frame [OF d1(2)]
  show "db_events d' = db_events d @ stored" using ins fr(1) by simp
  show "latest_sequence d' s = latest_sequence d s"
    using ins project_all_latest [OF d1(2), of s] by (auto simp: latest_sequence_def session_row_of_def)
  show "db_receipts d' = db_receipts d" using ins fr(2) by auto
qed

lemma events_of_append:
  "db_events d' = db_events d @ es \<Longrightarrow> \<forall>e \<in> set es. se_session_id e = sid \<Longrightarrow>
   events_of s d' = (if s = sid then events_of s d @ es else events_of s d)"
  by (auto simp: events_of_def filter_id_conv filter_empty_conv)

text \<open>What an append does to every session's log.\<close>

lemma append_locked_effect:
  assumes "append_locked now sid cmd events d = Inr (stored, d')"
  shows "events_of s d' = (if s = sid then events_of s d @ stored else events_of s d)"
    and "latest_sequence d' s = (if s = sid then latest_sequence d s + length events else latest_sequence d s)"
    and "follows se_sequence (latest_sequence d sid) stored" and "length stored = length events"
    and "stored = stamp_events sid now cmd (Suc (latest_sequence d sid))
           (place (Suc (latest_sequence d sid)) [] events)"
    and "db_receipts d' = db_receipts d"
proof -
  from assms obtain row where row: "session_row_of d sid = Some row"
    by (auto simp: append_locked_def split: option.splits)
  then have latest: "latest_sequence d sid = sr_event_sequence row" by (simp add: latest_sequence_def)
  let ?n = "sr_event_sequence row"
  from assms row have p: "persist now stored (set_sequence sid (?n + length events) d) = Inr d'"
    and st: "stored = stamp_events sid now cmd (Suc ?n) (place (Suc ?n) [] events)"
    by (auto simp: append_locked_def Let_def split: sum.splits)
  show "events_of s d' = (if s = sid then events_of s d @ stored else events_of s d)"
    using persist_effect(1) [OF p] stamp_events_in st by (intro events_of_append) (auto simp: Let_def)
  show "latest_sequence d' s = (if s = sid then latest_sequence d s + length events else latest_sequence d s)"
    using persist_effect(2) [OF p, of s] latest row by (auto simp: latest_set_sequence)
  show "follows se_sequence (latest_sequence d sid) stored" "length stored = length events"
    using st latest by (simp_all add: stamp_events_follows)
  show "stored = stamp_events sid now cmd (Suc (latest_sequence d sid))
           (place (Suc (latest_sequence d sid)) [] events)" using st latest by simp
  show "db_receipts d' = db_receipts d" using persist_effect(3) [OF p] by simp
qed

lemma append_events_cases:
  assumes "append_events now sid cmd events d = Inr (stored, d')"
  obtains "stored = []" "d' = d" "current_turns d sid events = []"
  | "append_locked now sid cmd (current_turns d sid events) d = Inr (stored, d')"
proof (cases "current_turns d sid events = []")
  case True
  with assms have "stored = [] \<and> d' = d"
    by (simp add: append_events_def Let_def split: if_splits option.splits)
  with True that(1) show ?thesis by simp
next
  case False
  then have "events \<noteq> []" by (auto simp: current_turns_def)
  with assms False have "append_locked now sid cmd (current_turns d sid events) d = Inr (stored, d')"
    by (simp add: append_events_def Let_def split: option.splits)
  with that(2) show ?thesis .
qed

lemma append_events_effect:
  assumes "append_events now sid cmd events d = Inr (stored, d')"
  shows "events_of s d' = (if s = sid then events_of s d @ stored else events_of s d)"
    and "latest_sequence d' s = (if s = sid then latest_sequence d s + length stored else latest_sequence d s)"
    and "follows se_sequence (latest_sequence d sid) stored"
    and "db_receipts d' = db_receipts d"
proof -
  have "events_of s d' = (if s = sid then events_of s d @ stored else events_of s d) \<and>
    latest_sequence d' s = (if s = sid then latest_sequence d s + length stored else latest_sequence d s) \<and>
    follows se_sequence (latest_sequence d sid) stored \<and> db_receipts d' = db_receipts d"
  proof (rule append_events_cases [OF assms])
    assume "append_locked now sid cmd (current_turns d sid events) d = Inr (stored, d')"
    note eff = append_locked_effect [OF this]
    show ?thesis unfolding eff(1,2,6) eff(4) [symmetric] using eff(3) by simp
  qed simp
  then show "events_of s d' = (if s = sid then events_of s d @ stored else events_of s d)"
    "latest_sequence d' s = (if s = sid then latest_sequence d s + length stored else latest_sequence d s)"
    "follows se_sequence (latest_sequence d sid) stored" "db_receipts d' = db_receipts d"
    by simp_all
qed

lemma append_events_wf:
  assumes "append_events now sid cmd events d = Inr (stored, d')" and "log_wf s d"
  shows "log_wf s d'"
proof (cases "s = sid")
  case True
  with append_events_effect [OF assms(1)] assms(2) show ?thesis
    by (intro log_wf_extend [of s d d' stored]) simp_all
next
  case False
  with append_events_effect [OF assms(1)] assms(2) show ?thesis
    by (subst log_wf_cong [of s d' d]) simp_all
qed

text \<open>Property C2: the sequences of a session's log are gapless. An append puts the events it
  stores at the log's end, numbered from the one after the session's sequence, moves that
  sequence to the last of them, and leaves every other session's log alone.\<close>

theorem append_gapless:
  assumes "append_events now sid cmd events d = Inr (stored, d')" and "\<forall>s. log_wf s d"
  shows "(\<forall>s. log_wf s d') \<and>
    events_of sid d' = events_of sid d @ stored \<and>
    map se_sequence stored = [latest_sequence d sid + 1 ..< latest_sequence d sid + 1 + length stored] \<and>
    latest_sequence d' sid = latest_sequence d sid + length stored \<and>
    (\<forall>s. s \<noteq> sid \<longrightarrow> events_of s d' = events_of s d \<and> latest_sequence d' s = latest_sequence d s)"
  using append_events_effect [OF assms(1)] append_events_wf [OF assms(1)] assms(2)
  by (auto simp: follows_def)

lemma insert_batches_eval:
  "storable stored d \<Longrightarrow> insert_batches 0 stored d = Inr (d\<lparr>db_events := db_events d @ stored\<rparr>)"
  using insert_batches_all [of 0 stored d] by simp

lemmas log_eval = Let_def append_events_def append_locked_def session_row_of_def current_turns_def
  current_turn_def turn_row_of_def persist_def insert_batches_eval storable_def event_key_def project_def project_steps constrained_def turn_constraints_def
  item_constraints_def attempt_constraints_def new_turn_row_def update_turn_row_def new_item_row_def
  update_item_row_def set_sequence_def latest_sequence_def events_of_def log_wf_def
  sr_id_def ar_id_def ar_session_id_def rr_key_def fixtures

theorem append_gapless_witness:
  "\<exists>stored d'.
    append_events 5 ''s'' None [TurnChanged (ex_turn ''t'' 1 Queued), TurnChanged (ex_turn ''u'' 2 Queued)] (ex_db 7)
      = Inr (stored, d') \<and> (\<forall>s. log_wf s (ex_db 7)) \<and> (\<forall>s. log_wf s d') \<and> map se_sequence stored = [8, 9]"
proof -
  have wf: "\<forall>s. log_wf s (ex_db 7)" by (simp add: log_eval)
  have "\<exists>stored d'.
    append_events 5 ''s'' None [TurnChanged (ex_turn ''t'' 1 Queued), TurnChanged (ex_turn ''u'' 2 Queued)] (ex_db 7)
      = Inr (stored, d') \<and> length stored = 2" by (simp add: log_eval)
  then obtain stored d' where run:
    "append_events 5 ''s'' None [TurnChanged (ex_turn ''t'' 1 Queued), TurnChanged (ex_turn ''u'' 2 Queued)] (ex_db 7)
      = Inr (stored, d')" and len: "length stored = 2" by blast
  have "latest_sequence (ex_db 7) ''s'' = 7" by (simp add: log_eval)
  then have "map se_sequence stored = [7 + 1 ..< 7 + 1 + 2]"
    using append_gapless [OF run wf, THEN conjunct2, THEN conjunct2, THEN conjunct1] len by (simp only:)
  then have "map se_sequence stored = [8, 9]" by (simp add: upt_conv_Cons)
  with append_gapless [OF run wf, THEN conjunct1] wf run show ?thesis
    by (intro exI [of _ stored] exI [of _ d'] conjI)
qed

section \<open>Turns as they stand\<close>

lemma turn_row_of_upsert:
  assumes "unique_keys tr_id xs"
  shows "find_row tr_id tid (filter (\<lambda>r. tr_session_id r = s)
      (upsert tr_id (update_turn_row sid stamp t) (new_turn_row now sid stamp t) xs)) =
    (if tid \<noteq> t_id t \<or> s \<noteq> sid then find_row tr_id tid (filter (\<lambda>r. tr_session_id r = s) xs)
     else case find_row tr_id tid (filter (\<lambda>r. tr_session_id r = s) xs) of
            Some r \<Rightarrow> Some (update_turn_row sid stamp t r)
          | None \<Rightarrow> if tid \<in> tr_id ` set xs then None else Some (new_turn_row now sid stamp t))"
proof -
  have new: "tr_id (new_turn_row now s' stamp t) = t_id t" "tr_session_id (new_turn_row now s' stamp t) = s'" for s'
    by (simp_all add: new_turn_row_def)
  have upd: "tr_id (update_turn_row s' stamp t r) = tr_id r"
    "tr_session_id (update_turn_row s' stamp t r) = tr_session_id r"
    "tr_session_id r \<noteq> s' \<Longrightarrow> update_turn_row s' stamp t r = r" for r s'
    by (simp_all add: update_turn_row_def)
  have absent: "k \<notin> tr_id ` set ys \<Longrightarrow> find_row tr_id k (filter P ys) = None" for k P ys
    by (auto simp: find_row_None)
  show ?thesis using assms
    by (induction xs) (auto simp: new upd unique_keys_def absent)
qed

lemma turn_constraints_unique: "turn_constraints rows \<Longrightarrow> unique_keys tr_id rows"
  by (simp add: turn_constraints_def unique_keys_def)

lemma turn_row_of_project:
  assumes "project now e d = Inr d'" and "turn_constraints (db_turns d)" and "turn_row_of d s tid = Some row"
  shows "turn_row_of d' s tid = Some
    (case se_event e of
       TurnChanged t \<Rightarrow> (if t_id t = tid \<and> se_session_id e = s then update_turn_row s (se_at e) t row else row)
     | _ \<Rightarrow> row)"
  using assms turn_row_of_upsert [OF turn_constraints_unique [OF assms(2)]]
  by (auto simp: turn_row_of_def project_turns [OF assms(1)] split: session_event.splits)

text \<open>
  A property of one turn's row that every turn event of the batch about it keeps, as the
  batch's \<open>currentTurns\<close> let it through, holds after the append.
\<close>

lemma append_turn_rule:
  assumes run: "append_events now sid cmd events d = Inr (stored, d')"
    and ok: "turn_constraints (db_turns d)" and row: "turn_row_of d sid tid = Some row" "Q row"
    and keep: "\<And>t row. TurnChanged t \<in> set (current_turns d sid events) \<Longrightarrow> t_id t = tid \<Longrightarrow> Q row \<Longrightarrow>
      tr_session_id row = sid \<Longrightarrow> Q (update_turn_row sid now t row)"
  shows "\<exists>row'. turn_row_of d' sid tid = Some row' \<and> Q row'"
proof (rule append_events_cases [OF run])
  assume "d' = d" then show ?thesis using row by blast
next
  assume locked: "append_locked now sid cmd (current_turns d sid events) d = Inr (stored, d')"
  note st = append_locked_effect(5) [OF locked]
  from locked obtain d0 where p: "persist now stored d0 = Inr d'" and d0: "db_turns d0 = db_turns d"
    by (auto simp: append_locked_def Let_def split: option.splits sum.splits)
  then obtain d1 where p1: "project_all now stored d1 = Inr d'" and d1: "db_turns d1 = db_turns d"
    by (auto simp: persist_def dest: insert_batches_storable split: sum.splits)
  have "turn_constraints (db_turns d') \<and>
    (\<exists>row'. turn_row_of d' sid tid = Some row' \<and> Q row' \<and> tr_session_id row' = sid)"
  proof (rule project_all_invariant [OF p1])
    have "tr_session_id row = sid" using row(1) by (auto simp: turn_row_of_def dest!: find_row_Some)
    then show "turn_constraints (db_turns d1) \<and>
        (\<exists>row'. turn_row_of d1 sid tid = Some row' \<and> Q row' \<and> tr_session_id row' = sid)"
      using ok row d1 by (simp add: turn_row_of_def)
  next
    fix e a b
    assume e: "e \<in> set stored" and ab: "project now e a = Inr b"
      and inv: "turn_constraints (db_turns a) \<and>
        (\<exists>row'. turn_row_of a sid tid = Some row' \<and> Q row' \<and> tr_session_id row' = sid)"
    from inv obtain r where r: "turn_row_of a sid tid = Some r" "Q r" "tr_session_id r = sid" by blast
    have at: "se_at e = now" and ev: "se_event e = TurnChanged t \<Longrightarrow> TurnChanged t \<in> set (current_turns d sid events)" for t
      using e stamp_events_in [of e] place_turns unfolding st by metis+
    have "turn_row_of b sid tid = Some (case se_event e of
       TurnChanged t \<Rightarrow> (if t_id t = tid \<and> se_session_id e = sid then update_turn_row sid (se_at e) t r else r)
     | _ \<Rightarrow> r)" using turn_row_of_project [OF ab] inv r(1) by blast
    then show "turn_constraints (db_turns b) \<and>
        (\<exists>row'. turn_row_of b sid tid = Some row' \<and> Q row' \<and> tr_session_id row' = sid)"
      using project_turn_constraints [OF ab] inv r keep at ev
      by (auto simp: update_turn_row_def split: session_event.splits)
  qed
  then show ?thesis by blast
qed

lemma current_turns_turn:
  assumes "TurnChanged t \<in> set (current_turns d sid events)" and "turn_row_of d sid (t_id t) = Some row"
  shows "is_active_turn_status (t_status t) \<Longrightarrow> \<not> is_settled_turn_status (tr_status row)"
    and "is_active_turn_status (t_status t) \<Longrightarrow> tr_cancellation_requested_at row \<noteq> None \<Longrightarrow>
         t_cancellation_requested t"
proof -
  from assms(1) obtain e where e: "TurnChanged t \<in> set (current_turn d sid e)"
    by (auto simp: current_turns_def)
  then obtain u where u: "e = TurnChanged u" by (cases e) (auto simp: current_turn_def)
  have "t = u \<or> t = u\<lparr>t_cancellation_requested := True\<rparr>"
    using e unfolding u current_turn_def
    by (simp del: settled_statuses active_statuses split: option.splits if_splits)
  then have id: "t_id t = t_id u" "t_status t = t_status u" by auto
  have "if is_settled_turn_status (tr_status row) \<and> is_active_turn_status (t_status u) then False
      else if is_active_turn_status (t_status u) \<and> \<not> t_cancellation_requested u \<and>
              tr_cancellation_requested_at row \<noteq> None
           then t = u\<lparr>t_cancellation_requested := True\<rparr> else t = u"
    using e assms(2) unfolding u current_turn_def id
    by (auto simp del: settled_statuses active_statuses split: if_splits)
  with id show "is_active_turn_status (t_status t) \<Longrightarrow> \<not> is_settled_turn_status (tr_status row)"
    and "is_active_turn_status (t_status t) \<Longrightarrow> tr_cancellation_requested_at row \<noteq> None \<Longrightarrow>
         t_cancellation_requested t"
    by (auto simp del: settled_statuses active_statuses split: if_splits)
qed

text \<open>A writer that read a turn before it settled never puts it back to work. A turn
  whose row is settled when an append takes the lock is not preparing, running, waiting or
  finalizing after it, whatever the batch holds.\<close>

theorem settled_turn_stays_settled:
  assumes "append_events now sid cmd events d = Inr (stored, d')"
    and "turn_constraints (db_turns d)" and "turn_row_of d sid tid = Some row"
    and "is_settled_turn_status (tr_status row)"
  shows "\<exists>row'. turn_row_of d' sid tid = Some row' \<and> \<not> is_active_turn_status (tr_status row')"
proof (rule append_turn_rule [OF assms(1-3)])
  show "\<not> is_active_turn_status (tr_status row)" using assms(4) by auto
next
  fix t and row' :: turn_row assume t: "TurnChanged t \<in> set (current_turns d sid events)" "t_id t = tid"
    and "\<not> is_active_turn_status (tr_status row')"
  with current_turns_turn(1) [OF t(1)] assms(3,4) have "\<not> is_active_turn_status (t_status t)" by blast
  then show "tr_session_id row' = sid \<Longrightarrow> \<not> is_active_turn_status (tr_status (update_turn_row sid now t row'))"
    by (simp add: update_turn_row_def)
qed

text \<open>A writer that read a turn before it was asked to stop never withdraws the stop:
  a turn whose stop was requested before an append still has it afterwards, if it still works.\<close>

theorem stop_not_withdrawn:
  assumes "append_events now sid cmd events d = Inr (stored, d')"
    and "turn_constraints (db_turns d)" and "turn_row_of d sid tid = Some row"
    and "tr_cancellation_requested_at row \<noteq> None"
  shows "\<exists>row'. turn_row_of d' sid tid = Some row' \<and>
    (is_active_turn_status (tr_status row') \<longrightarrow> tr_cancellation_requested_at row' \<noteq> None)"
proof (rule append_turn_rule [OF assms(1-3)])
  show "is_active_turn_status (tr_status row) \<longrightarrow> tr_cancellation_requested_at row \<noteq> None"
    using assms(4) by simp
next
  fix t and row' :: turn_row assume t: "TurnChanged t \<in> set (current_turns d sid events)" "t_id t = tid"
    and row': "tr_session_id row' = sid"
  from current_turns_turn(2) [OF t(1)] t(2) assms(3,4)
  have "is_active_turn_status (t_status t) \<longrightarrow> t_cancellation_requested t" by blast
  then show "is_active_turn_status (tr_status (update_turn_row sid now t row')) \<longrightarrow>
      tr_cancellation_requested_at (update_turn_row sid now t row') \<noteq> None"
    using row' by (auto simp: update_turn_row_def simp del: active_statuses split: option.splits)
qed

definition ex_running_db :: "turn_row list \<Rightarrow> db" where
  "ex_running_db rows = (ex_db 3)\<lparr>db_turns := rows\<rparr>"

theorem settled_turn_stays_settled_witness:
  "\<exists>stored d' row'. append_events 5 ''s'' None [TurnChanged (ex_turn ''t'' 1 Running), TurnChanged (ex_turn ''u'' 2 Queued)]
      (ex_running_db [ex_turn_row ''t'' 1 Completed]) = Inr (stored, d') \<and>
    turn_row_of d' ''s'' ''t'' = Some row' \<and> \<not> is_active_turn_status (tr_status row')"
proof -
  let ?es = "[TurnChanged (ex_turn ''t'' 1 Running), TurnChanged (ex_turn ''u'' 2 Queued)]"
  let ?d = "ex_running_db [ex_turn_row ''t'' 1 Completed]"
  have "\<exists>stored d'. append_events 5 ''s'' None ?es ?d = Inr (stored, d')"
    by (simp add: log_eval ex_running_db_def)
  then obtain stored d' where run: "append_events 5 ''s'' None ?es ?d = Inr (stored, d')" by blast
  have "turn_constraints (db_turns ?d)" "turn_row_of ?d ''s'' ''t'' = Some (ex_turn_row ''t'' 1 Completed)"
    "is_settled_turn_status (tr_status (ex_turn_row ''t'' 1 Completed))"
    by (simp_all add: turn_constraints_def turn_row_of_def fixtures ex_running_db_def)
  from settled_turn_stays_settled [OF run this] run show ?thesis by blast
qed

theorem stop_not_withdrawn_witness:
  "\<exists>stored d' row'. append_events 5 ''s'' None [TurnChanged (ex_turn ''t'' 1 Waiting)]
      (ex_running_db [(ex_turn_row ''t'' 1 Running)\<lparr>tr_cancellation_requested_at := Some 4\<rparr>]) = Inr (stored, d') \<and>
    turn_row_of d' ''s'' ''t'' = Some row' \<and>
    (is_active_turn_status (tr_status row') \<longrightarrow> tr_cancellation_requested_at row' \<noteq> None)"
proof -
  let ?row = "(ex_turn_row ''t'' 1 Running)\<lparr>tr_cancellation_requested_at := Some 4\<rparr>"
  let ?es = "[TurnChanged (ex_turn ''t'' 1 Waiting)]"
  have "\<exists>stored d'. append_events 5 ''s'' None ?es (ex_running_db [?row]) = Inr (stored, d')"
    by (simp add: log_eval ex_running_db_def)
  then obtain stored d' where run: "append_events 5 ''s'' None ?es (ex_running_db [?row]) = Inr (stored, d')"
    by blast
  have "turn_constraints (db_turns (ex_running_db [?row]))"
    "turn_row_of (ex_running_db [?row]) ''s'' ''t'' = Some ?row" "tr_cancellation_requested_at ?row \<noteq> None"
    by (simp_all add: turn_constraints_def turn_row_of_def fixtures ex_running_db_def)
  from stop_not_withdrawn [OF run this] run show ?thesis by blast
qed

end
