(* ===== verification/Replication.thy ===== *)
theory Replication
  imports Session_Log
begin

text \<open>
  What the copies of a session rest on: a mirror applies another copy's events
  (\<open>replicate_events\<close>), starts from a snapshot (\<open>import_snapshot\<close>) over a copy that logged nothing
  (\<open>clear_unlogged\<close>), and none of it touches another session or what only this side decides.
\<close>

section \<open>Other sessions are left alone\<close>

record other_rows =
  oth_sessions :: "session_row list"
  oth_turns :: "turn_row list"
  oth_attempts :: "attempt_row list"
  oth_items :: "item_row list"
  oth_requests :: "request_row list"
  oth_threads :: "provider_thread list"
  oth_events :: "stored_event list"
  oth_receipts :: "receipt_row list"

definition others :: "ident \<Rightarrow> db \<Rightarrow> other_rows" where
  "others sid d =
     \<lparr>oth_sessions = filter (\<lambda>r. sr_id r \<noteq> sid) (db_sessions d),
      oth_turns = filter (\<lambda>r. tr_session_id r \<noteq> sid) (db_turns d),
      oth_attempts = filter (\<lambda>r. ar_session_id r \<noteq> sid) (db_attempts d),
      oth_items = filter (\<lambda>r. ir_session_id r \<noteq> sid) (db_items d),
      oth_requests = filter (\<lambda>r. rr_session_id r \<noteq> sid) (db_requests d),
      oth_threads = filter (\<lambda>r. p_session_id r \<noteq> sid) (db_threads d),
      oth_events = filter (\<lambda>e. se_session_id e \<noteq> sid) (db_events d),
      oth_receipts = filter (\<lambda>r. cw_session_id r \<noteq> sid) (db_receipts d)\<rparr>"

lemma filter_update_other: "(\<And>x. p x \<Longrightarrow> \<not> P x \<and> \<not> P (f x)) \<Longrightarrow> filter P (update_where p f xs) = filter P xs"
  by (induction xs) auto

lemma others_project_session: "others sid (project_session now sid c d) = others sid d"
proof -
  have "sr_id (r\<lparr>sr_fields := project_fields now c (sr_fields r)\<rparr>) = sr_id r" for r
    by (simp add: sr_id_def project_fields_def)
  then show ?thesis by (simp add: others_def project_session_def filter_update_other)
qed

lemma others_project_turn: "others sid (project_turn now sid stamp t d) = others sid d"
  unfolding others_def project_turn_def
  by (simp, intro filter_upsert_other) (auto simp: new_turn_row_def update_turn_row_def)

lemma others_project_attempt: "others sid (project_attempt sid a d) = others sid d"
  unfolding others_def project_attempt_def
  by (simp, intro filter_upsert_other) (auto simp: update_attempt_row_def ar_session_id_def)

lemma others_project_item: "others sid (project_item sid it d) = others sid d"
  unfolding others_def project_item_def
  by (simp, intro filter_upsert_other) (auto simp: new_item_row_def update_item_row_def Let_def)

lemma others_project_append: "others sid (project_append sid iid field txt tm d) = others sid d"
  unfolding others_def project_append_def by (simp, intro filter_update_other) auto

lemma others_project_request: "others sid (project_request sid stamp r d) = others sid d"
  unfolding others_def project_request_def
  by (simp, intro filter_upsert_other) (auto simp: new_request_row_def update_request_row_def rr_key_def)

lemma others_project_thread: "others sid (project_thread sid p d) = others sid d"
  unfolding others_def project_thread_def
  by (simp, intro filter_upsert_other) (auto simp: update_thread_row_def)

lemmas others_project = others_project_session others_project_turn others_project_attempt
  others_project_item others_project_append others_project_request others_project_thread

lemma others_project_event: "project now e d = Inr d' \<Longrightarrow> others (se_session_id e) d' = others (se_session_id e) d"
  by (drule project_Inr) (auto simp: others_project split: session_event.splits)

lemma others_project_all:
  assumes "project_all now es d = Inr d'" and "\<forall>e \<in> set es. se_session_id e = sid"
  shows "others sid d' = others sid d"
  by (rule project_all_invariant [OF assms(1)]) (use assms(2) others_project_event in auto)

lemma others_persist:
  assumes "persist now es d = Inr d'" and "\<forall>e \<in> set es. se_session_id e = sid"
  shows "others sid d' = others sid d"
proof -
  from assms(1) obtain d1 where d1: "insert_batches 0 es d = Inr d1" "project_all now es d1 = Inr d'"
    by (auto simp: persist_def split: sum.splits)
  from insert_batches_storable [OF d1(1)] assms(2) have "others sid d1 = others sid d"
    by (auto simp: others_def filter_empty_conv)
  with others_project_all [OF d1(2) assms(2)] show ?thesis by simp
qed

lemma others_set_sequence [simp]: "others sid (set_sequence sid n d) = others sid d"
  by (simp add: others_def set_sequence_def filter_update_other sr_id_def)

lemma others_append:
  assumes "append_events now sid cmd events d = Inr (stored, d')"
  shows "others sid d' = others sid d"
proof (rule append_events_cases [OF assms])
  assume locked: "append_locked now sid cmd (current_turns d sid events) d = Inr (stored, d')"
  then obtain n where "persist now stored (set_sequence sid n d) = Inr d'"
    by (auto simp: append_locked_def Let_def split: option.splits sum.splits)
  moreover have "\<forall>e \<in> set stored. se_session_id e = sid"
    unfolding append_locked_effect(5) [OF locked] using stamp_events_in by blast
  ultimately show ?thesis using others_persist by fastforce
qed simp

section \<open>What a copy may write of the session itself\<close>

text \<open>The fields only this side's own operations change.\<close>

definition owner_fields :: "session_fields \<Rightarrow> session_fields" where
  "owner_fields f =
     f\<lparr>f_title := None, f_icon := None, f_todos := [], f_metadata := [], f_work_status := WorkOpen,
       f_activity := None, f_updated_at := 0\<rparr>"

lemma project_copied_fields: "owner_fields (project_fields now (copied_fields c) f) = owner_fields f"
  by (simp add: owner_fields_def project_fields_def copied_fields_def empty_patch_def set_col_def)

lemma own_event_session:
  "own_event nb sid e = Inr (SessionChanged c) \<Longrightarrow> \<exists>c'. c = copied_fields c'"
  by (auto simp: own_event_def split: session_event.splits option.splits if_splits)

lemma own_each_nth:
  "own_each nb sid es = Inr own \<Longrightarrow> length own = length es \<and> (\<forall>k < length es. own_event nb sid (es ! k) = Inr (own ! k))"
proof (induction es arbitrary: own)
  case (Cons e es)
  then show ?case by (auto simp: nth_Cons split: sum.splits nat.splits)
qed simp

lemma own_events_each: "own_events nb d sid es = Inr own \<Longrightarrow> own_each nb sid es = Inr own"
  by (auto simp: own_events_def split: sum.splits if_splits)

lemma own_events_session:
  assumes "own_events nb d sid es = Inr own" and "SessionChanged c \<in> set own"
  shows "\<exists>c'. c = copied_fields c'"
proof -
  from own_each_nth [OF own_events_each [OF assms(1)]] assms(2) obtain k
    where "own_event nb sid (es ! k) = Inr (SessionChanged c)"
    by (auto simp: in_set_conv_nth)
  then show ?thesis by (rule own_event_session)
qed

definition owner_rows :: "db \<Rightarrow> (ident \<times> session_fields) list" where
  "owner_rows d = map (\<lambda>r. (sr_id r, owner_fields (sr_fields r))) (db_sessions d)"

lemma owner_rows_project:
  assumes "project now e d = Inr d'" and "\<And>c. se_event e = SessionChanged c \<Longrightarrow> \<exists>c'. c = copied_fields c'"
  shows "owner_rows d' = owner_rows d"
proof -
  have id: "sr_id (r\<lparr>sr_fields := project_fields now c (sr_fields r)\<rparr>) = sr_id r" for c r
    by (simp add: sr_id_def project_fields_def)
  show ?thesis using project_Inr [OF assms(1)] assms(2)
    by (auto simp: owner_rows_def project_steps update_where_def id project_copied_fields
        split: session_event.splits)
qed

lemma owner_rows_project_all:
  assumes "project_all now es d = Inr d'" and "\<forall>e \<in> set es. \<forall>c. se_event e = SessionChanged c \<longrightarrow> (\<exists>c'. c = copied_fields c')"
  shows "owner_rows d' = owner_rows d"
  by (rule project_all_invariant [OF assms(1)]) (use assms(2) owner_rows_project in \<open>blast | simp\<close>)+

section \<open>Replication\<close>

lemma continue_log_follows:
  "continue_log sid n es = Inr m \<longleftrightarrow> follows se_sequence n es \<and> m = n + length es"
  by (induction es arbitrary: n) auto

lemma continue_log_gap:
  "continue_log sid n es = Inl err \<Longrightarrow> \<exists>expected received. err = LogGap sid expected received \<and> expected \<noteq> received"
  by (induction es arbitrary: n) (auto split: if_splits)

lemma follows_map_event:
  "length own = length es \<Longrightarrow>
   follows se_sequence n (map2 (\<lambda>e ev. e\<lparr>se_session_id := sid, se_event := ev\<rparr>) es own) = follows se_sequence n es"
  by (induction es own arbitrary: n rule: list_induct2') auto

text \<open>The stored form of the events a replication applies.\<close>

definition replicated :: "ident \<Rightarrow> stored_event list \<Rightarrow> session_event list \<Rightarrow> stored_event list" where
  "replicated sid fresh own = map2 (\<lambda>e ev. e\<lparr>se_session_id := sid, se_event := ev\<rparr>) fresh own"

lemma replicate_cases:
  assumes "replicate_events nb now sid events d = Inr (n, d')"
  obtains (none) "filter (\<lambda>e. latest_sequence d sid < se_sequence e) events = []" "n = latest_sequence d sid" "d' = d"
  | (fresh) fresh own where "fresh = filter (\<lambda>e. latest_sequence d sid < se_sequence e) events" "fresh \<noteq> []"
      "follows se_sequence (latest_sequence d sid) fresh" "n = latest_sequence d sid + length fresh"
      "own_events nb d sid (map se_event fresh) = Inr own" "length own = length fresh"
      "persist now (replicated sid fresh own) (set_sequence sid n d) = Inr d'"
      "session_row_of d sid \<noteq> None"
proof -
  from assms obtain row where row: "session_row_of d sid = Some row"
    by (auto simp: replicate_events_def split: option.splits)
  then have latest: "latest_sequence d sid = sr_event_sequence row" by (simp add: latest_sequence_def)
  define fresh where "fresh = filter (\<lambda>e. latest_sequence d sid < se_sequence e) events"
  show ?thesis
  proof (cases "fresh = []")
    case True
    then have "n = latest_sequence d sid" "d' = d"
      using assms row unfolding latest fresh_def by (simp_all add: replicate_events_def)
    then show ?thesis using none True unfolding fresh_def by blast
  next
    case False
    from assms row have cont: "\<exists>m. continue_log sid (latest_sequence d sid) fresh = Inr m"
      by (auto simp: replicate_events_def fresh_def latest Let_def split: sum.splits)
    then have fol: "follows se_sequence (latest_sequence d sid) fresh"
      and m: "continue_log sid (latest_sequence d sid) fresh = Inr (latest_sequence d sid + length fresh)"
      by (auto simp: continue_log_follows)
    let ?m = "latest_sequence d sid + length fresh"
    have "replicate_events nb now sid events d =
        (case own_events nb d sid (map se_event fresh) of
           Inl err \<Rightarrow> Inl err
         | Inr own \<Rightarrow> (case persist now (replicated sid fresh own) (set_sequence sid ?m d) of
             Inl err \<Rightarrow> Inl err | Inr d' \<Rightarrow> Inr (?m, d')))"
      unfolding replicated_def
      using row m False by (simp add: replicate_events_def Let_def flip: latest fresh_def)
    then obtain own where own: "own_events nb d sid (map se_event fresh) = Inr own"
      and p: "persist now (replicated sid fresh own) (set_sequence sid n d) = Inr d'"
      and n: "n = latest_sequence d sid + length fresh"
      using assms by (simp split: sum.splits)
    have "length own = length fresh" using own_each_nth [OF own_events_each [OF own]] by simp
    moreover have "session_row_of d sid \<noteq> None" using row by simp
    ultimately show ?thesis by (rule fresh [OF fresh_def False fol n own _ p])
  qed
qed

lemma replicated_facts:
  assumes "length own = length fresh"
  shows "\<forall>e \<in> set (replicated sid fresh own). se_session_id e = sid"
    and "map se_sequence (replicated sid fresh own) = map se_sequence fresh"
    and "\<forall>e \<in> set (replicated sid fresh own). se_event e \<in> set own"
    and "length (replicated sid fresh own) = length fresh"
    and "follows se_sequence n (replicated sid fresh own) = follows se_sequence n fresh"
  using assms
  by (induction fresh own arbitrary: n rule: list_induct2') (auto simp: replicated_def)

lemma replicate_effect:
  assumes "replicate_events nb now sid events d = Inr (n, d')"
  shows "latest_sequence d' sid = n" and "latest_sequence d sid \<le> n"
    and "\<forall>e \<in> set events. se_sequence e \<le> n"
    and "log_wf sid d \<Longrightarrow> log_wf sid d'"
    and "s \<noteq> sid \<Longrightarrow> latest_sequence d' s = latest_sequence d s"
    and "\<exists>es. events_of sid d' = events_of sid d @ es \<and> follows se_sequence (latest_sequence d sid) es \<and>
          n = latest_sequence d sid + length es"
    and "others sid d' = others sid d" and "owner_rows d' = owner_rows d"
proof -
  have "latest_sequence d' sid = n \<and> latest_sequence d sid \<le> n \<and>
    (\<forall>e \<in> set events. se_sequence e \<le> n) \<and> (log_wf sid d \<longrightarrow> log_wf sid d') \<and>
    (\<forall>s. s \<noteq> sid \<longrightarrow> latest_sequence d' s = latest_sequence d s) \<and>
    (\<exists>es. events_of sid d' = events_of sid d @ es \<and> follows se_sequence (latest_sequence d sid) es \<and>
          n = latest_sequence d sid + length es) \<and>
    others sid d' = others sid d \<and> owner_rows d' = owner_rows d"
  proof (cases rule: replicate_cases [OF assms])
    case 1
    then have "\<forall>e \<in> set events. se_sequence e \<le> n" by (auto simp: filter_empty_conv)
    with 1 show ?thesis by auto
  next
    case (2 fresh own)
    let ?st = "replicated sid fresh own"
    note facts = replicated_facts [OF 2(6)]
    have ev: "events_of sid d' = events_of sid d @ ?st"
      using events_of_append [OF persist_effect(1) [OF 2(7)] facts(1), of sid]
      by (simp add: events_of_def)
    have latest: "latest_sequence d' s = (if s = sid then n else latest_sequence d s)" for s
      using persist_effect(2) [OF 2(7)] 2(8) by (simp add: latest_set_sequence)
    have fol: "follows se_sequence (latest_sequence d sid) ?st" using facts(5) 2(3) by simp
    have "\<forall>e \<in> set events. se_sequence e \<le> n"
    proof
      fix e assume e: "e \<in> set events"
      show "se_sequence e \<le> n"
      proof (cases "latest_sequence d sid < se_sequence e")
        case True
        with e 2(1) have "e \<in> set fresh" by simp
        then obtain k where "k < length fresh" "fresh ! k = e" unfolding in_set_conv_nth by blast
        with follows_nth [OF 2(3)] 2(4) show ?thesis by fastforce
      next
        case False with 2(4) show ?thesis by simp
      qed
    qed
    moreover have "log_wf sid d \<longrightarrow> log_wf sid d'"
      using log_wf_extend [OF _ ev fol] latest 2(4) facts(4) by simp
    moreover have "others sid d' = others sid d" using others_persist [OF 2(7) facts(1)] by simp
    moreover have "owner_rows d' = owner_rows d"
    proof -
      from 2(7) obtain d1 where d1: "insert_batches 0 ?st (set_sequence sid n d) = Inr d1" "project_all now ?st d1 = Inr d'"
        by (auto simp: persist_def split: sum.splits)
      have "owner_rows d' = owner_rows d1"
        using owner_rows_project_all [OF d1(2)] own_events_session [OF 2(5)] facts(3) by fastforce
      also have "\<dots> = owner_rows (set_sequence sid n d)"
        using insert_batches_storable [OF d1(1)] by (auto simp: owner_rows_def)
      also have "\<dots> = owner_rows d" by (simp add: owner_rows_def set_sequence_def update_where_def sr_id_def)
      finally show ?thesis .
    qed
    ultimately show ?thesis using ev latest fol 2(4) facts(4) by auto
  qed
  then show "latest_sequence d' sid = n" and "latest_sequence d sid \<le> n"
    and "\<forall>e \<in> set events. se_sequence e \<le> n"
    and "log_wf sid d \<Longrightarrow> log_wf sid d'"
    and "s \<noteq> sid \<Longrightarrow> latest_sequence d' s = latest_sequence d s"
    and "\<exists>es. events_of sid d' = events_of sid d @ es \<and> follows se_sequence (latest_sequence d sid) es \<and>
          n = latest_sequence d sid + length es"
    and "others sid d' = others sid d" and "owner_rows d' = owner_rows d"
    by blast+
qed

text \<open>Property C19: a mirror's log stays a gapless copy. Replicating events leaves the copy's log
  gapless, at the sequence it returns, with every offered event at or below it; and replicating
  them again, at any later time, changes nothing and returns the same sequence.\<close>

theorem replicate_gapless_idempotent:
  assumes "replicate_events nb now sid events d = Inr (n, d')" and "log_wf sid d"
  shows "log_wf sid d' \<and> latest_sequence d' sid = n \<and> latest_sequence d sid \<le> n \<and>
    (\<forall>e \<in> set events. se_sequence e \<le> n) \<and>
    replicate_events nb now' sid events d' = Inr (n, d')"
proof -
  note eff = replicate_effect [OF assms(1)]
  from assms(1) have "session_row_of d sid \<noteq> None"
    by (simp add: replicate_events_def split: option.splits)
  then have "sid \<in> set (map fst (owner_rows d'))"
    unfolding eff(8) by (auto simp: owner_rows_def session_row_of_def find_row_None)
  then obtain row where row: "session_row_of d' sid = Some row"
    by (cases "session_row_of d' sid") (auto simp: owner_rows_def session_row_of_def find_row_None)
  then have "sr_event_sequence row = n" using eff(1) by (simp add: latest_sequence_def)
  with row eff(3) have "replicate_events nb now' sid events d' = Inr (n, d')"
    by (simp add: replicate_events_def filter_empty_conv not_less)
  with eff assms(2) show ?thesis by blast
qed

definition ex_stored :: "nat \<Rightarrow> session_event \<Rightarrow> stored_event" where
  "ex_stored n ev = \<lparr>se_session_id = ''s'', se_sequence = n, se_at = 4, se_command_id = None, se_event = ev\<rparr>"

lemmas replicate_eval = replicate_events_def own_events_def own_event_def elsewhere_def turn_ids_def
  attempt_ids_def item_ids_def thread_ids_def request_ids_def opt_list_def copied_fields_def
  empty_patch_def ex_stored_def

theorem replicate_gapless_idempotent_witness:
  "\<exists>d'. replicate_events (\<lambda>_. 1) 5 ''s'' [ex_stored 3 (TurnChanged (ex_turn ''t'' 1 Queued)),
        ex_stored 4 (TurnChanged (ex_turn ''t'' 1 Completed))] (ex_db 3) = Inr (4, d') \<and>
      log_wf ''s'' (ex_db 3) \<and>
      replicate_events (\<lambda>_. 1) 9 ''s'' [ex_stored 3 (TurnChanged (ex_turn ''t'' 1 Queued)),
        ex_stored 4 (TurnChanged (ex_turn ''t'' 1 Completed))] d' = Inr (4, d')"
proof -
  let ?es = "[ex_stored 3 (TurnChanged (ex_turn ''t'' 1 Queued)), ex_stored 4 (TurnChanged (ex_turn ''t'' 1 Completed))]"
  have "\<exists>d'. replicate_events (\<lambda>_. 1) 5 ''s'' ?es (ex_db 3) = Inr (4, d')"
    by (simp add: replicate_eval log_eval)
  then obtain d' where run: "replicate_events (\<lambda>_. 1) 5 ''s'' ?es (ex_db 3) = Inr (4, d')" by blast
  have "log_wf ''s'' (ex_db 3)" by (simp add: log_eval)
  with replicate_gapless_idempotent [OF run this, of 9] run show ?thesis by blast
qed

text \<open>Replication refuses a hole. If the first event past the copy's log is not the
  next one, the copy keeps its database and answers with the gap it saw.\<close>

theorem replicate_refuses_gap:
  assumes "session_row_of d sid = Some row" and "e \<in> set events"
    and "sr_event_sequence row < se_sequence e"
    and "\<forall>x \<in> set events. se_sequence x \<noteq> sr_event_sequence row + 1"
  shows "\<exists>received. replicate_events nb now sid events d = Inl (LogGap sid (sr_event_sequence row + 1) received)"
proof -
  let ?fresh = "filter (\<lambda>x. sr_event_sequence row < se_sequence x) events"
  from assms(2,3) have "e \<in> set ?fresh" by simp
  then obtain f fs where fs: "?fresh = f # fs" by (cases ?fresh) auto
  then have "f \<in> set ?fresh" by simp
  with assms(4) have "se_sequence f \<noteq> sr_event_sequence row + 1" by simp
  with fs assms(1) show ?thesis by (simp add: replicate_events_def Let_def)
qed

theorem replicate_refuses_gap_witness:
  "\<exists>received. replicate_events (\<lambda>_. 1) 5 ''s'' [ex_stored 5 (TurnChanged (ex_turn ''t'' 1 Queued))] (ex_db 3)
     = Inl (LogGap ''s'' 4 received)"
proof -
  obtain row where row: "session_row_of (ex_db 3) ''s'' = Some row" "sr_event_sequence row = 3"
    by (simp add: session_row_of_def sr_id_def fixtures)
  have "\<exists>received. replicate_events (\<lambda>_. 1) 5 ''s'' [ex_stored 5 (TurnChanged (ex_turn ''t'' 1 Queued))] (ex_db 3)
     = Inl (LogGap ''s'' (sr_event_sequence row + 1) received)"
    by (rule replicate_refuses_gap [OF row(1), of "ex_stored 5 (TurnChanged (ex_turn ''t'' 1 Queued))"])
      (simp_all add: row ex_stored_def)
  with row(2) show ?thesis by simp
qed

text \<open>A copy's events reach nothing but the copied session's own records. Whatever was
  sent, every other session's rows, log and receipts are as they were, and of the session's own
  row neither its agent, model, status, Environment, authority nor place in the hierarchy moved.\<close>

theorem replicate_isolated:
  assumes "replicate_events nb now sid events d = Inr (n, d')"
  shows "others sid d' = others sid d \<and> owner_rows d' = owner_rows d"
  using replicate_effect(7,8) [OF assms] by simp

theorem replicate_isolated_witness:
  "\<exists>d'. replicate_events (\<lambda>_. 1) 5 ''s'' [ex_stored 4 (SessionChanged
        (empty_patch\<lparr>c_title := Some (Some ''new''), c_authority_host_id := Some ''evil''\<rparr>))] (ex_db 3) = Inr (4, d') \<and>
      owner_rows d' = owner_rows (ex_db 3)"
proof -
  let ?es = "[ex_stored 4 (SessionChanged (empty_patch\<lparr>c_title := Some (Some ''new''), c_authority_host_id := Some ''evil''\<rparr>))]"
  have "\<exists>d'. replicate_events (\<lambda>_. 1) 5 ''s'' ?es (ex_db 3) = Inr (4, d')"
    by (simp add: replicate_eval log_eval)
  then obtain d' where run: "replicate_events (\<lambda>_. 1) 5 ''s'' ?es (ex_db 3) = Inr (4, d')" by blast
  with replicate_isolated [OF run] show ?thesis by blast
qed

section \<open>Starting a copy from a snapshot\<close>

lemma import_effect:
  assumes "import_snapshot nb now sid sn d = Inr (u, d')"
  shows "latest_sequence d' sid = (if session_row_of d sid = None then 0 else max (latest_sequence d sid) (sn_sequence sn))"
    and "db_events d' = db_events d" and "others sid d' = others sid d"
proof -
  obtain own where own: "own_events nb d sid (snapshot_events sn) = Inr own"
    using assms by (cases "own_events nb d sid (snapshot_events sn)") (auto simp: import_snapshot_def)
  define es where "es = map (\<lambda>e. \<lparr>se_session_id = sid, se_sequence = sn_sequence sn, se_at = now,
      se_command_id = None, se_event = e\<rparr>) own"
  have es: "\<forall>e \<in> set es. se_session_id e = sid" by (auto simp: es_def)
  obtain d1 where p: "project_all now es d = Inr d1"
    using assms own by (cases "project_all now es d") (auto simp: import_snapshot_def es_def)
  have d': "d' = d1\<lparr>db_sessions := update_where (\<lambda>r. sr_id r = sid)
        (\<lambda>r. r\<lparr>sr_event_sequence := max (sr_event_sequence r) (sn_sequence sn)\<rparr>) (db_sessions d1)\<rparr>"
    using assms own p by (simp add: import_snapshot_def es_def)
  have id: "sr_id (r\<lparr>sr_event_sequence := n\<rparr>) = sr_id r" for r n by (simp add: sr_id_def)
  have "session_row_of d' sid = map_option (\<lambda>r. r\<lparr>sr_event_sequence := max (sr_event_sequence r) (sn_sequence sn)\<rparr>)
      (session_row_of d1 sid)"
    unfolding d' session_row_of_def
    by (cases "find_row sr_id sid (db_sessions d1)") (auto simp: find_row_update_where id dest: find_row_Some)
  then have "latest_sequence d' sid = (if session_row_of d1 sid = None then 0 else max (latest_sequence d1 sid) (sn_sequence sn))"
    by (auto simp: latest_sequence_def split: option.splits)
  then show "latest_sequence d' sid = (if session_row_of d sid = None then 0 else max (latest_sequence d sid) (sn_sequence sn))"
    using project_all_latest [OF p] project_all_sessions [OF p] by simp
  show "db_events d' = db_events d" using d' project_all_frame(1) [OF p] by simp
  have "others sid d' = others sid d1" unfolding d' others_def by (simp add: filter_update_other id)
  with others_project_all [OF p es] show "others sid d' = others sid d" by simp
qed

lemma clear_effect:
  assumes "clear_unlogged sid d = Inr (u, d')"
  shows "events_of sid d' = []" and "latest_sequence d' sid = 0"
    and "session_row_of d' sid = None \<longleftrightarrow> session_row_of d sid = None"
proof -
  from assms have none: "events_of sid d = []" and d': "\<exists>x. d' = set_sequence sid 0 x \<and>
      db_sessions x = db_sessions d \<and> db_events x = db_events d"
    by (auto simp: clear_unlogged_def has_logged_def Let_def split: if_splits)
  then obtain x where x: "d' = set_sequence sid 0 x" "db_sessions x = db_sessions d" "db_events x = db_events d"
    by blast
  show "events_of sid d' = []" using none x by (simp add: events_of_def)
  show "latest_sequence d' sid = 0"
    by (simp add: x latest_set_sequence) (simp add: latest_sequence_def)
  show "session_row_of d' sid = None \<longleftrightarrow> session_row_of d sid = None"
    unfolding x session_set_sequence by (simp add: session_row_of_def x)
qed

text \<open>A mirror's base continues from its snapshot. Clearing a copy that logged nothing
  and importing a snapshot leaves an empty, well-formed log at exactly the snapshot's sequence,
  so the next event the other copy commits is the one it accepts; a copy with a log of its own
  is refused instead.\<close>

theorem snapshot_base:
  assumes "session_row_of d sid \<noteq> None"
  shows "(has_logged d sid \<longrightarrow> clear_unlogged sid d = Inl (HasOwnLog sid)) \<and>
    (\<forall>d1 d2. clear_unlogged sid d = Inr ((), d1) \<and> import_snapshot nb now sid sn d1 = Inr ((), d2) \<longrightarrow>
       latest_sequence d2 sid = sn_sequence sn \<and> events_of sid d2 = [] \<and> log_wf sid d2 \<and>
       others sid d2 = others sid d1)"
proof (intro conjI impI allI)
  assume "has_logged d sid" then show "clear_unlogged sid d = Inl (HasOwnLog sid)"
    by (simp add: clear_unlogged_def)
next
  fix d1 d2 assume run: "clear_unlogged sid d = Inr ((), d1) \<and> import_snapshot nb now sid sn d1 = Inr ((), d2)"
  then have c: "clear_unlogged sid d = Inr ((), d1)" and i: "import_snapshot nb now sid sn d1 = Inr ((), d2)" by auto
  note ceff = clear_effect [OF c] and ieff = import_effect [OF i]
  show l: "latest_sequence d2 sid = sn_sequence sn" using ieff(1) ceff(2,3) assms by simp
  show e: "events_of sid d2 = []" using ceff(1) ieff(2) by (simp add: events_of_def)
  show "log_wf sid d2" by (simp add: log_wf_def e)
  show "others sid d2 = others sid d1" by (rule ieff(3))
qed

definition ex_snapshot :: "nat \<Rightarrow> session_snapshot" where
  "ex_snapshot n = \<lparr>sn_sequence = n, sn_session = ex_fields ''s'', sn_turns = [ex_turn ''t'' 1 Completed],
     sn_attempts = [], sn_items = [ex_item ''i'' 1 (Reasoning ''x'')], sn_requests = [], sn_provider_threads = [], sn_older_before = None\<rparr>"

theorem snapshot_base_witness:
  "\<exists>d1 d2. clear_unlogged ''s'' (ex_db 3) = Inr ((), d1) \<and>
     import_snapshot (\<lambda>_. 1) 5 ''s'' (ex_snapshot 9) d1 = Inr ((), d2) \<and> latest_sequence d2 ''s'' = 9"
proof -
  have "\<exists>d1 d2. clear_unlogged ''s'' (ex_db 3) = Inr ((), d1) \<and>
     import_snapshot (\<lambda>_. 1) 5 ''s'' (ex_snapshot 9) d1 = Inr ((), d2)"
    by (simp add: clear_unlogged_def has_logged_def import_snapshot_def snapshot_events_def ex_snapshot_def
        kind_of.simps item_text_def author_kind_of_def replicate_eval log_eval)
  moreover have "session_row_of (ex_db 3) ''s'' \<noteq> None" by (simp add: session_row_of_def sr_id_def fixtures)
  moreover have "sn_sequence (ex_snapshot 9) = 9" by (simp add: ex_snapshot_def)
  ultimately show ?thesis using snapshot_base [of "ex_db 3" "''s''" "\<lambda>_. 1" 5 "ex_snapshot 9"] by metis
qed

end
