(* ===== verification/Commands.thy ===== *)
theory Commands
  imports Session_Log
begin

text \<open>
  Commands run at most once (\<open>SessionLog.command\<close>): an id seen before answers with its first
  receipt and runs nothing. The interface states what a client that repeats commands relies on;
  the session log provides it for every command whose own transaction writes no receipts.
\<close>

section \<open>The at-most-once interface\<close>

locale at_most_once =
  fixes answer :: "'s \<Rightarrow> 'k \<Rightarrow> 'r option"
    and admissible :: "'i \<Rightarrow> bool"
    and execute :: "'k \<Rightarrow> 'i \<Rightarrow> 's \<Rightarrow> 'e + 'r \<times> 's"
  assumes known: "answer s k = Some r \<Longrightarrow> execute k i s = Inr (r, s)"
    and recorded: "admissible i \<Longrightarrow> execute k i s = Inr (r, s') \<Longrightarrow> answer s' k = Some r"
    and kept: "admissible i \<Longrightarrow> answer s k = Some r \<Longrightarrow> execute k' i s = Inr (r', s') \<Longrightarrow> answer s' k = Some r"
begin

text \<open>Executing a series of commands; a failed one leaves the state as it was.\<close>

fun series :: "('k \<times> 'i) list \<Rightarrow> 's \<Rightarrow> 's" where
  "series [] s = s"
| "series ((k, i) # rest) s =
     (case execute k i s of Inl _ \<Rightarrow> series rest s | Inr (_, s') \<Rightarrow> series rest s')"

lemma series_kept: "\<forall>c \<in> set cs. admissible (snd c) \<Longrightarrow> answer s k = Some r \<Longrightarrow> answer (series cs s) k = Some r"
proof (induction cs arbitrary: s)
  case (Cons c cs)
  obtain k' i where c: "c = (k', i)" by (cases c)
  then show ?case using Cons kept [of i s k r k'] by (auto split: sum.splits)
qed simp

lemma repeat_answers:
  assumes "admissible i" and "execute k i s = Inr (r, s')" and "\<forall>c \<in> set cs. admissible (snd c)"
  shows "execute k i' (series cs s') = Inr (r, series cs s')"
  using known series_kept [OF assms(3) recorded [OF assms(1,2)]] by blast

end

section \<open>Receipts\<close>

abbreviation receipt_key :: "receipt_row \<Rightarrow> ident \<times> string" where
  "receipt_key row \<equiv> (cw_session_id row, cr_command_id (cw_receipt row))"

lemma receipt_snoc:
  "receipt (d\<lparr>db_receipts := db_receipts d @ [row]\<rparr>) s c =
     (case receipt d s c of Some r \<Rightarrow> Some r
      | None \<Rightarrow> if receipt_key row = (s, c) then Some (cw_receipt row) else None)"
  by (auto simp: receipt_def find_row_append split: option.splits)

lemma receipt_frame: "db_receipts d' = db_receipts d \<Longrightarrow> receipt d' = receipt d"
  by (simp add: receipt_def fun_eq_iff)

text \<open>A command's own transaction writes to the log, never to the receipts.\<close>

definition leaves_receipts :: "(db \<Rightarrow> (json_object option) tx) \<Rightarrow> bool" where
  "leaves_receipts run \<longleftrightarrow> (\<forall>d res d'. run d = Inr (res, d') \<longrightarrow> db_receipts d' = db_receipts d)"

type_synonym command_input =
  "string \<times> ident option \<times> log_error option \<times> (db \<Rightarrow> (json_object option) tx)"

definition input_run :: "command_input \<Rightarrow> db \<Rightarrow> (json_object option) tx" where
  "input_run i = snd (snd (snd i))"

definition execute_command :: "ident \<times> string \<Rightarrow> command_input \<Rightarrow> db \<Rightarrow> command_receipt tx" where
  "execute_command k i d = command (fst k) (snd k) (fst i) (fst (snd i)) (fst (snd (snd i))) (input_run i) d"

lemma record_rejection_effect:
  assumes "receipt d s c = None" and "record_rejection s c ty user refusal d = (r, d')"
  shows "receipt d' s c = Some r" and "cr_status r = Rejected" and "cr_error r = Some refusal"
    and "d' = d\<lparr>db_receipts := db_receipts d @ [\<lparr>cw_session_id = s, cw_type = ty, cw_external_user_id = user, cw_receipt = r\<rparr>]\<rparr>"
    and "receipt d s' c' = Some r' \<Longrightarrow> receipt d' s' c' = Some r'"
  using assms by (auto simp: record_rejection_def receipt_snoc Let_def split: option.splits)

lemma run_command_effect:
  assumes "run_command s c ty user run d = Inr (r, d')" and "receipt d s c = None" and "leaves_receipts run"
  shows "receipt d' s c = Some r" and "cr_status r = Accepted"
    and "receipt d s' c' = Some r' \<Longrightarrow> receipt d' s' c' = Some r'"
proof -
  from assms(1,2) obtain res d1 where run: "run d = Inr (res, d1)"
    by (auto simp: run_command_def split: option.splits sum.splits)
  with assms(3) have "receipt d1 = receipt d" by (auto simp: leaves_receipts_def intro: receipt_frame)
  with assms(1,2) run show "receipt d' s c = Some r" and "cr_status r = Accepted"
    and "receipt d s' c' = Some r' \<Longrightarrow> receipt d' s' c' = Some r'"
    by (auto simp: run_command_def receipt_snoc Let_def split: option.splits)
qed

lemma command_cases:
  assumes "command s c ty user before run d = Inr (r, d')"
  obtains (seen) "receipt d s c = Some r" "d' = d"
  | (ran) "receipt d s c = None" "before = None" "run_command s c ty user run d = Inr (r, d')"
  | (refused) code msg where "receipt d s c = None" "record_rejection s c ty user (code, msg) d = (r, d')"
proof (cases "receipt d s c")
  case (Some x)
  with assms have "receipt d s c = Some r" "d' = d" by (simp_all add: command_def)
  then show ?thesis by (rule seen)
next
  case None
  let ?out = "case before of Some err \<Rightarrow> Inl err | None \<Rightarrow> run_command s c ty user run d"
  show ?thesis
  proof (cases ?out)
    case (Inr res)
    with assms None have "before = None" "run_command s c ty user run d = Inr (r, d')"
      by (auto simp: command_def split: option.splits)
    with None show ?thesis by (rule ran)
  next
    case (Inl err)
    with assms None obtain code msg where "record_rejection s c ty user (code, msg) d = (r, d')"
      by (cases err) (auto simp: command_def split: if_splits)
    with None show ?thesis by (rule refused)
  qed
qed

interpretation commands: at_most_once "\<lambda>d k. receipt d (fst k) (snd k)" "\<lambda>i. leaves_receipts (input_run i)" execute_command
proof
  fix d k r and i :: command_input
  assume "receipt d (fst k) (snd k) = Some r"
  then show "execute_command k i d = Inr (r, d)" by (simp add: execute_command_def command_def)
next
  fix i :: command_input and k r d d'
  assume i: "leaves_receipts (input_run i)" and run: "execute_command k i d = Inr (r, d')"
  from run show "receipt d' (fst k) (snd k) = Some r"
    unfolding execute_command_def
  proof (cases rule: command_cases)
    case ran
    from run_command_effect(1) [OF ran(3,1) i] show ?thesis .
  next
    case (refused code msg)
    from record_rejection_effect(1) [OF refused] show ?thesis .
  qed simp
next
  fix i :: command_input and d k r k' r' d'
  assume i: "leaves_receipts (input_run i)" and r: "receipt d (fst k) (snd k) = Some r"
    and run: "execute_command k' i d = Inr (r', d')"
  from run show "receipt d' (fst k) (snd k) = Some r"
    unfolding execute_command_def
  proof (cases rule: command_cases)
    case ran
    from run_command_effect(3) [OF ran(3,1) i r] show ?thesis .
  next
    case (refused code msg)
    from record_rejection_effect(5) [OF refused r] show ?thesis .
  qed (use r in simp)
qed

text \<open>A command runs at most once. Once a command id has a receipt, sending it again
  after any further commands of any session, with whatever body, returns that receipt and leaves
  the database exactly as it is.\<close>

theorem command_at_most_once:
  assumes "leaves_receipts (input_run i)" and "execute_command k i d = Inr (r, d')"
    and "\<forall>c \<in> set later. leaves_receipts (input_run (snd c))"
  shows "execute_command k i' (commands.series later d') = Inr (r, commands.series later d')"
  using commands.repeat_answers [OF assms] .

text \<open>The body a \<open>rename\<close> or a queued turn has: an append through the log.\<close>

definition append_run :: "instant \<Rightarrow> ident \<Rightarrow> string \<Rightarrow> session_event list \<Rightarrow> db \<Rightarrow> (json_object option) tx" where
  "append_run now sid cid events d =
     (case append_events now sid (Some cid) events d of Inl err \<Rightarrow> Inl err | Inr (_, d') \<Rightarrow> Inr (None, d'))"

lemma append_run_leaves: "leaves_receipts (append_run now sid cid events)"
  using append_events_effect(4) by (fastforce simp: leaves_receipts_def append_run_def split: sum.splits)

theorem command_at_most_once_witness:
  "\<exists>r d'. let i = (''queue'', None, None, append_run 5 ''s'' ''c1'' [TurnChanged (ex_turn ''t'' 1 Queued)]);
              other = ((''s'', ''c2''), ''stop'', None, Some (CommandRejected ''x'' ''y'' 409), append_run 6 ''s'' ''c2'' [])
     in execute_command (''s'', ''c1'') i (ex_db 0) = Inr (r, d') \<and>
        execute_command (''s'', ''c1'') i (commands.series [other] d') = Inr (r, commands.series [other] d')"
proof -
  let ?i = "(''queue'', None, None, append_run 5 ''s'' ''c1'' [TurnChanged (ex_turn ''t'' 1 Queued)]) :: command_input"
  let ?other = "((''s'', ''c2''), ''stop'', None, Some (CommandRejected ''x'' ''y'' 409), append_run 6 ''s'' ''c2'' [])
    :: (ident \<times> string) \<times> command_input"
  have "\<exists>r d'. execute_command (''s'', ''c1'') ?i (ex_db 0) = Inr (r, d')"
    by (simp add: execute_command_def command_def run_command_def input_run_def append_run_def receipt_def log_eval)
  then obtain r d' where run: "execute_command (''s'', ''c1'') ?i (ex_db 0) = Inr (r, d')" by blast
  have "execute_command (''s'', ''c1'') ?i (commands.series [?other] d') = Inr (r, commands.series [?other] d')"
    by (rule command_at_most_once [OF _ run]) (simp_all add: input_run_def append_run_leaves)
  with run show ?thesis by (auto simp: Let_def)
qed

text \<open>A refusal is durable and changes nothing else. When a new command is rejected, by
  its work before the transaction or inside it, the database differs only by the receipt that
  says so, and that receipt answers every repeat.\<close>

theorem command_rejection_durable:
  assumes "receipt d s c = None" and "session_row_of d s \<noteq> None"
    and "before = Some (CommandRejected code msg st) \<or> before = None \<and> run d = Inl (CommandRejected code msg st)"
  shows "\<exists>r row. command s c ty user before run d = Inr (r, d\<lparr>db_receipts := db_receipts d @ [row]\<rparr>) \<and>
    cr_status r = Rejected \<and> cr_error r = Some (code, msg) \<and> cw_receipt row = r \<and>
    (\<forall>before' run'. command s c ty user before' run' (d\<lparr>db_receipts := db_receipts d @ [row]\<rparr>) =
       Inr (r, d\<lparr>db_receipts := db_receipts d @ [row]\<rparr>))"
proof -
  obtain r d' where rec: "record_rejection s c ty user (code, msg) d = (r, d')" by fastforce
  note eff = record_rejection_effect [OF assms(1) rec]
  let ?row = "\<lparr>cw_session_id = s, cw_type = ty, cw_external_user_id = user, cw_receipt = r\<rparr>"
  have "command s c ty user before run d = Inr (r, d')"
    using assms rec by (auto simp: command_def run_command_def split: option.splits)
  moreover have "command s c ty user before' run' d' = Inr (r, d')" for before' run'
    using eff(1) by (simp add: command_def)
  ultimately show ?thesis using eff unfolding eff(4) by (intro exI [of _ r] exI [of _ ?row]) simp
qed

theorem command_rejection_durable_witness:
  "\<exists>r row. command ''s'' ''c'' ''stop'' None None (\<lambda>_. Inl (CommandRejected ''gone'' ''No turn'' 404)) (ex_db 2)
     = Inr (r, (ex_db 2)\<lparr>db_receipts := db_receipts (ex_db 2) @ [row]\<rparr>) \<and> cr_error r = Some (''gone'', ''No turn'')"
proof -
  have "receipt (ex_db 2) ''s'' ''c'' = None" "session_row_of (ex_db 2) ''s'' \<noteq> None"
    by (simp_all add: receipt_def session_row_of_def sr_id_def fixtures)
  from command_rejection_durable [OF this, of None "''gone''" "''No turn''" 404
      "\<lambda>_. Inl (CommandRejected ''gone'' ''No turn'' 404)" "''stop''" None] show ?thesis by blast
qed

end
