(* ===== verification/Refinement.thy ===== *)
theory Refinement
  imports Session_Log
begin

text \<open>
  The log folds into what the projection holds: a client that applies the events an append
  stored sees the session the database's rows show. The two sides are compared entity by
  entity, each looked up by id: the client's records of \<open>state.ts\<close> against the session's own
  rows, read as \<open>session-rows.ts\<close> reads them. Two fields are outside the comparison, because
  the projection computes them and no event carries them: a turn's \<open>retryAt\<close> (from the row's
  availability) and the session's \<open>updatedAt\<close> (stamped by the projection when a change names
  none).
\<close>

section \<open>Rows of one session, by key\<close>

definition own_lookup :: "('r \<Rightarrow> 'k) \<Rightarrow> ('r \<Rightarrow> ident) \<Rightarrow> ident \<Rightarrow> 'k \<Rightarrow> 'r list \<Rightarrow> 'r option" where
  "own_lookup key owner sid k rows = find_row key k (filter (\<lambda>r. owner r = sid) rows)"

lemma own_lookup_Some: "own_lookup key owner sid k rows = Some r \<Longrightarrow> r \<in> set rows \<and> key r = k \<and> owner r = sid"
  by (auto simp: own_lookup_def dest: find_row_Some)

lemma own_lookup_absent: "k \<notin> key ` set xs \<Longrightarrow> own_lookup key owner s k xs = None"
  by (auto simp: own_lookup_def find_row_None)

lemma own_lookup_upsert:
  assumes "unique_keys key xs" and "owner new = sid"
    and "\<And>x. x \<in> set xs \<Longrightarrow> key x = key new \<Longrightarrow>
      key (upd x) = key x \<and> owner (upd x) = owner x \<and> (owner x \<noteq> sid \<longrightarrow> upd x = x)"
  shows "own_lookup key owner sid k (upsert key upd new xs) =
    (if k \<noteq> key new then own_lookup key owner sid k xs
     else case own_lookup key owner sid k xs of
            Some r \<Rightarrow> Some (upd r)
          | None \<Rightarrow> if key new \<in> key ` set xs then None else Some new)"
  using assms
proof (induction xs)
  case Nil
  then show ?case by (simp add: own_lookup_def)
next
  case (Cons x xs)
  have ux: "unique_keys key xs" and fresh: "key x \<notin> key ` set xs"
    using Cons.prems(1) by (auto simp: unique_keys_def)
  show ?case
  proof (cases "key x = key new")
    case True
    with Cons.prems(3) [of x] have u: "key (upd x) = key x" "owner (upd x) = owner x" "owner x \<noteq> sid \<Longrightarrow> upd x = x"
      by auto
    from fresh True have "own_lookup key owner sid (key new) xs = None" by (simp add: own_lookup_absent)
    with True u show ?thesis by (cases "owner x = sid") (auto simp: own_lookup_def)
  next
    case False
    have IH: "own_lookup key owner sid k (upsert key upd new xs) =
      (if k \<noteq> key new then own_lookup key owner sid k xs
       else case own_lookup key owner sid k xs of
            Some r \<Rightarrow> Some (upd r)
          | None \<Rightarrow> if key new \<in> key ` set xs then None else Some new)"
      by (rule Cons.IH [OF ux Cons.prems(2)]) (use Cons.prems(3) in simp)
    with False show ?thesis by (auto simp: own_lookup_def)
  qed
qed

text \<open>Every table's primary key.\<close>

definition keyed :: "db \<Rightarrow> bool" where
  "keyed d \<longleftrightarrow> unique_keys tr_id (db_turns d) \<and> unique_keys ar_id (db_attempts d) \<and>
     unique_keys ir_id (db_items d) \<and> unique_keys rr_key (db_requests d) \<and> unique_keys p_id (db_threads d) \<and>
     unique_keys sr_id (db_sessions d)"

lemma unique_keys_upsert_key:
  "(\<And>x. x \<in> set xs \<Longrightarrow> key x = key r \<Longrightarrow> key (upd x) = key x) \<Longrightarrow> unique_keys key xs \<Longrightarrow>
   unique_keys key (upsert key upd r xs)"
proof -
  assume "\<And>x. x \<in> set xs \<Longrightarrow> key x = key r \<Longrightarrow> key (upd x) = key x" and u: "unique_keys key xs"
  then have "map key (upsert key upd r xs) = (if key r \<in> key ` set xs then map key xs else map key xs @ [key r])"
    by (induction xs) (auto simp: unique_keys_def)
  with u show ?thesis by (auto simp: unique_keys_def)
qed

lemma update_turn_row_keys [simp]:
  "tr_id (update_turn_row sid stamp t r) = tr_id r" "tr_session_id (update_turn_row sid stamp t r) = tr_session_id r"
  "tr_session_id r \<noteq> sid \<Longrightarrow> update_turn_row sid stamp t r = r"
  "tr_id (new_turn_row now sid stamp t) = t_id t" "tr_session_id (new_turn_row now sid stamp t) = sid"
  by (simp_all add: update_turn_row_def new_turn_row_def)

lemma update_attempt_row_keys [simp]:
  "ar_id (update_attempt_row sid a r) = ar_id r" "ar_session_id (update_attempt_row sid a r) = ar_session_id r"
  "ar_session_id r \<noteq> sid \<Longrightarrow> update_attempt_row sid a r = r"
  by (simp_all add: update_attempt_row_def ar_id_def ar_session_id_def)

lemma update_item_row_keys [simp]:
  "ir_id (update_item_row sid it r) = ir_id r" "ir_session_id (update_item_row sid it r) = ir_session_id r"
  "ir_session_id r \<noteq> sid \<Longrightarrow> update_item_row sid it r = r"
  "ir_id (new_item_row sid it) = i_id it" "ir_session_id (new_item_row sid it) = sid"
  by (simp_all add: update_item_row_def new_item_row_def Let_def)

lemma update_thread_row_keys [simp]:
  "p_id (update_thread_row sid p r) = p_id r" "p_session_id (update_thread_row sid p r) = p_session_id r"
  "p_session_id r \<noteq> sid \<Longrightarrow> update_thread_row sid p r = r"
  by (simp_all add: update_thread_row_def)

lemma request_row_keys [simp]:
  "rr_key (new_request_row sid stamp r) = (sid, r_id r)" "rr_session_id (new_request_row sid stamp r) = sid"
  "rr_key (update_request_row sid stamp r x) = (sid, r_id r)" "rr_session_id (update_request_row sid stamp r x) = sid"
  by (simp_all add: new_request_row_def update_request_row_def rr_key_def)

lemma new_attempt_row_keys [simp]:
  "ar_id \<lparr>ar_attempt = a\<lparr>a_session_id := sid\<rparr>, ar_runner = x, ar_provider_started_at = y\<rparr> = a_id a"
  "ar_session_id \<lparr>ar_attempt = a\<lparr>a_session_id := sid\<rparr>, ar_runner = x, ar_provider_started_at = y\<rparr> = sid"
  by (simp_all add: ar_id_def ar_session_id_def)

lemma keyed_steps:
  assumes "keyed d"
  shows "keyed (project_session now sid c d)" "keyed (project_turn now sid stamp t d)"
    "keyed (project_attempt sid a d)" "keyed (project_item sid it d)"
    "keyed (project_append sid iid field txt tm d)" "keyed (project_request sid stamp r d)"
    "keyed (project_thread sid p d)"
proof -
  have "sr_id (r\<lparr>sr_fields := project_fields now c (sr_fields r)\<rparr>) = sr_id r" for r c
    by (simp add: sr_id_def project_fields_def)
  then show "keyed (project_session now sid c d)"
    using assms by (simp add: keyed_def project_session_def unique_keys_update_where)
  show "keyed (project_turn now sid stamp t d)" using assms
    by (simp add: keyed_def project_turn_def unique_keys_upsert_key)
  show "keyed (project_attempt sid a d)" using assms
    by (simp add: keyed_def project_attempt_def unique_keys_upsert_key)
  show "keyed (project_item sid it d)" using assms
    by (simp add: keyed_def project_item_def unique_keys_upsert_key)
  show "keyed (project_append sid iid field txt tm d)" using assms
    by (simp add: keyed_def project_append_def unique_keys_update_where)
  have "unique_keys rr_key (db_requests (project_request sid stamp r d))"
    unfolding project_request_def using assms by (simp add: keyed_def unique_keys_upsert_key)
  then show "keyed (project_request sid stamp r d)" using assms by (simp add: keyed_def project_request_def)
  show "keyed (project_thread sid p d)" using assms
    by (simp add: keyed_def project_thread_def unique_keys_upsert_key)
qed

lemma keyed_project: "project now e d = Inr d' \<Longrightarrow> keyed d \<Longrightarrow> keyed d'"
  by (drule project_Inr) (auto simp: keyed_steps split: session_event.splits)

section \<open>The client's view and the projection's\<close>

definition turn_view :: "turn \<Rightarrow> turn" where
  "turn_view t = t\<lparr>t_retry_at := None\<rparr>"

definition session_view :: "session_fields \<Rightarrow> session_fields" where
  "session_view f = f\<lparr>f_updated_at := 0\<rparr>"

definition turn_shown :: "db \<Rightarrow> ident \<Rightarrow> ident \<Rightarrow> turn option" where
  "turn_shown d sid k = map_option (\<lambda>r. turn_view (turn_from_row 0 r)) (own_lookup tr_id tr_session_id sid k (db_turns d))"

definition attempt_shown :: "db \<Rightarrow> ident \<Rightarrow> ident \<Rightarrow> attempt option" where
  "attempt_shown d sid k = map_option attempt_from_row (own_lookup ar_id ar_session_id sid k (db_attempts d))"

definition item_shown :: "db \<Rightarrow> ident \<Rightarrow> ident \<Rightarrow> item option" where
  "item_shown d sid k = map_option item_from_row (own_lookup ir_id ir_session_id sid k (db_items d))"

definition request_shown :: "db \<Rightarrow> ident \<Rightarrow> ident \<Rightarrow> runtime_request option" where
  "request_shown d sid k =
     map_option request_from_row (own_lookup rr_key rr_session_id sid (sid, k) (db_requests d))"

definition thread_shown :: "db \<Rightarrow> ident \<Rightarrow> ident \<Rightarrow> provider_thread option" where
  "thread_shown d sid k = map_option provider_thread_from_row (own_lookup p_id p_session_id sid k (db_threads d))"

definition session_shown :: "db \<Rightarrow> ident \<Rightarrow> session_fields option" where
  "session_shown d sid = map_option (\<lambda>r. session_view (session_fields_from_row r)) (session_row_of d sid)"

text \<open>The simulation: what each lookup of the client gives is what the row shows.\<close>

definition agrees :: "db \<Rightarrow> ident \<Rightarrow> session_state \<Rightarrow> bool" where
  "agrees d sid st \<longleftrightarrow>
     session_shown d sid = Some (session_view (s_session st)) \<and>
     (\<forall>k. turn_shown d sid k = map_option turn_view (find_row t_id k (s_turns st))) \<and>
     (\<forall>k. attempt_shown d sid k = find_row a_id k (s_attempts st)) \<and>
     (\<forall>k. item_shown d sid k = find_row i_id k (s_items st)) \<and>
     (\<forall>k. request_shown d sid k = find_row r_id k (s_requests st)) \<and>
     (\<forall>k. thread_shown d sid k = find_row p_id k (s_provider_threads st)) \<and>
     transcript (s_items st) \<and>
     (\<forall>r \<in> set (db_items d). ir_session_id r = sid \<longrightarrow> ir_id r = i_id (ir_payload r) \<and> ir_position r = i_position (ir_payload r))"

text \<open>
  What the log's writers keep to, per event: an entity names no record of another session and
  never changes what its row fixes when it is inserted; checkpoints carry no blanks; a request
  is answerable only while pending; text streams into the items that stream it.
\<close>

definition conforms :: "db \<Rightarrow> ident \<Rightarrow> session_event \<Rightarrow> bool" where
  "conforms d sid e \<longleftrightarrow>
     (case e of
        SessionChanged c \<Rightarrow> c_id c = None \<and> c_project_id c = None \<and> c_imported c = None \<and> c_forked_from_session_id c = None
      | TurnChanged t \<Rightarrow>
          t_session_id t = sid \<and>
          map_option js_trim (ck_before (t_checkpoint t)) = ck_before (t_checkpoint t) \<and>
          map_option js_trim (ck_after (t_checkpoint t)) = ck_after (t_checkpoint t) \<and>
          \<not> elsewhere tr_id tr_session_id (db_turns d) sid [t_id t] \<and>
          (case own_lookup tr_id tr_session_id sid (t_id t) (db_turns d) of
             None \<Rightarrow> True | Some r \<Rightarrow> tr_ordinal r = t_ordinal t \<and> tr_created_at r = t_created_at t)
      | AttemptChanged a \<Rightarrow>
          a_session_id a = sid \<and> \<not> elsewhere ar_id ar_session_id (db_attempts d) sid [a_id a] \<and>
          (case own_lookup ar_id ar_session_id sid (a_id a) (db_attempts d) of
             None \<Rightarrow> True
           | Some r \<Rightarrow> a_turn_id (ar_attempt r) = a_turn_id a \<and> a_ordinal (ar_attempt r) = a_ordinal a \<and>
               a_reason (ar_attempt r) = a_reason a \<and> a_created_at (ar_attempt r) = a_created_at a)
      | ItemAdded it \<Rightarrow> \<not> elsewhere ir_id ir_session_id (db_items d) sid [i_id it]
      | ItemChanged it \<Rightarrow> \<not> elsewhere ir_id ir_session_id (db_items d) sid [i_id it]
      | ItemTextAppended iid field txt tm \<Rightarrow>
          (case own_lookup ir_id ir_session_id sid iid (db_items d) of
             None \<Rightarrow> True
           | Some r \<Rightarrow>
               (case field of
                  OutputField \<Rightarrow> kind_of (i_body (ir_payload r)) = KCommand
                | TextField \<Rightarrow> kind_of (i_body (ir_payload r)) = KAssistantMessage \<or>
                    kind_of (i_body (ir_payload r)) = KReasoning))
      | RequestChanged r \<Rightarrow>
          r_session_id r = sid \<and> (r_answerable r \<longrightarrow> r_status r = RPending) \<and>
          (case own_lookup rr_key rr_session_id sid (sid, r_id r) (db_requests d) of
             None \<Rightarrow> True | Some row \<Rightarrow> rr_created_at row = r_created_at r)
      | ProviderThreadChanged p \<Rightarrow>
          p_session_id p = sid \<and> \<not> elsewhere p_id p_session_id (db_threads d) sid [p_id p] \<and>
          (case own_lookup p_id p_session_id sid (p_id p) (db_threads d) of
             None \<Rightarrow> True | Some row \<Rightarrow> p_created_at row = p_created_at p))"

text \<open>A turn event as \<open>currentTurns\<close> lets it through: it does not withdraw a stop.\<close>

definition keeps_stop :: "db \<Rightarrow> ident \<Rightarrow> session_event \<Rightarrow> bool" where
  "keeps_stop d sid e \<longleftrightarrow>
     (case e of
        TurnChanged t \<Rightarrow>
          (case own_lookup tr_id tr_session_id sid (t_id t) (db_turns d) of
             None \<Rightarrow> True
           | Some r \<Rightarrow> is_active_turn_status (t_status t) \<and> tr_cancellation_requested_at r \<noteq> None \<longrightarrow>
               t_cancellation_requested t)
      | _ \<Rightarrow> True)"

section \<open>Lookups after the client's writes\<close>

lemma find_row_insert:
  "key it \<notin> key ` set (xs @ ys) \<Longrightarrow>
   find_row key k (xs @ it # ys) = (if k = key it then Some it else find_row key k (xs @ ys))"
  by (induction xs) (auto simp: find_row_None)

lemma find_row_upsert_item:
  assumes "unique_keys i_id items"
  shows "find_row i_id k (upsert_item items it) =
    (if k = i_id it
     then Some (case find_row i_id (i_id it) items of None \<Rightarrow> it | Some x \<Rightarrow> it\<lparr>i_position := i_position x\<rparr>)
     else find_row i_id k items)"
proof (cases "i_id it \<in> i_id ` set items")
  case True
  then have up: "upsert_item items it = upsert i_id (\<lambda>x. it\<lparr>i_position := i_position x\<rparr>) it items"
    by (simp add: upsert_item_def)
  have same: "find_row i_id (i_id it) items \<noteq> None" using True by (simp add: find_row_None)
  have "i_id it \<in> i_id ` set xs \<Longrightarrow> find_row i_id k (upsert i_id (\<lambda>x. it\<lparr>i_position := i_position x\<rparr>) it xs) =
    (if k = i_id it
     then map_option (\<lambda>x. it\<lparr>i_position := i_position x\<rparr>) (find_row i_id (i_id it) xs)
     else find_row i_id k xs)" for xs
    by (induction xs) auto
  with True up same show ?thesis by auto
next
  case False
  then have none: "find_row i_id (i_id it) items = None" by (auto simp: find_row_None)
  let ?k = "slot items it (length items)"
  have "i_id it \<notin> i_id ` set (take ?k items @ drop ?k items)" using False by simp
  from find_row_insert [OF this] False none show ?thesis by (simp add: upsert_item_def Let_def)
qed

lemma find_row_append_at:
  "find_row i_id k (append_at iid field txt tm items) =
     (if k = iid then map_option (\<lambda>x. append_text x field txt tm) (find_row i_id iid items)
      else find_row i_id k items)"
proof (cases "find_row i_id iid items")
  case None
  then show ?thesis by (simp add: append_at_def)
next
  case (Some it)
  then have id: "i_id it = iid" using find_row_Some by metis
  let ?upd = "\<lambda>x. append_text x field txt tm"
  have at: "append_at iid field txt tm items = upsert i_id ?upd it items" by (simp add: append_at_def Some)
  have "find_row i_id iid (upsert i_id ?upd it items) = Some (?upd it)"
    using find_row_upsert_same [of i_id ?upd it items] id Some by simp
  moreover have "k \<noteq> iid \<Longrightarrow> find_row i_id k (upsert i_id ?upd it items) = find_row i_id k items"
    using find_row_upsert_other [of i_id ?upd k it items] id by simp
  ultimately show ?thesis unfolding at using Some by simp
qed

section \<open>One event\<close>

lemma agrees_session:
  assumes "agrees d sid st" and "conforms d sid (SessionChanged c)" and "keyed d"
  shows "agrees (project_session now sid c d) sid (st\<lparr>s_session := merge_session (s_session st) c\<rparr>)"
proof -
  have id: "sr_id (r\<lparr>sr_fields := project_fields now c (sr_fields r)\<rparr>) = sr_id r" for r
    by (simp add: sr_id_def project_fields_def)
  have merge: "session_view (merge_session f c) = session_view (project_fields now c f')"
    if "session_view f = session_view f'" for f f'
    using that assms(2)
    by (cases f, cases f') (auto simp: session_view_def merge_session_def project_fields_def conforms_def
        over_def set_col_def patch_writes_def split: option.splits)
  from assms(1) obtain r where r: "session_row_of d sid = Some r" "session_view (sr_fields r) = session_view (s_session st)"
    by (auto simp: agrees_def session_shown_def session_fields_from_row_def)
  then have "sr_id r = sid" unfolding session_row_of_def using find_row_Some by metis
  with r(1) have "session_row_of (project_session now sid c d) sid = Some (r\<lparr>sr_fields := project_fields now c (sr_fields r)\<rparr>)"
    by (simp add: session_row_of_def project_session_def find_row_update_where id)
  then have "session_shown (project_session now sid c d) sid = Some (session_view (merge_session (s_session st) c))"
    using merge [OF r(2) [symmetric]] by (simp add: session_shown_def session_fields_from_row_def)
  with assms(1) show ?thesis
    by (simp add: agrees_def turn_shown_def attempt_shown_def item_shown_def request_shown_def thread_shown_def
        project_session_def)
qed

lemma agrees_turn:
  assumes "agrees d sid st" and "conforms d sid (TurnChanged t)" and "keeps_stop d sid (TurnChanged t)" and "keyed d"
  shows "agrees (project_turn now sid stamp t d) sid (st\<lparr>s_turns := put_row t_id t (s_turns st)\<rparr>)"
proof -
  let ?old = "own_lookup tr_id tr_session_id sid (t_id t) (db_turns d)"
  from assms(4) have u: "unique_keys tr_id (db_turns d)" by (simp add: keyed_def)
  have look: "own_lookup tr_id tr_session_id sid k (db_turns (project_turn now sid stamp t d)) =
      (if k \<noteq> t_id t then own_lookup tr_id tr_session_id sid k (db_turns d)
       else case ?old of Some r \<Rightarrow> Some (update_turn_row sid stamp t r)
          | None \<Rightarrow> if t_id t \<in> tr_id ` set (db_turns d) then None else Some (new_turn_row now sid stamp t))" for k
    using own_lookup_upsert [of tr_id "db_turns d" tr_session_id "new_turn_row now sid stamp t" sid
        "update_turn_row sid stamp t" k] u
    by (simp add: project_turn_def)
  have fresh: "?old = None \<Longrightarrow> t_id t \<notin> tr_id ` set (db_turns d)"
    using assms(2) by (auto simp: conforms_def elsewhere_def own_lookup_def find_row_None)
  have "turn_view (turn_from_row 0 (update_turn_row sid stamp t r)) = turn_view t" if "?old = Some r" for r
    using assms(2) assms(3) that own_lookup_Some [OF that]
    by (cases t, cases "t_checkpoint t")
      (auto simp: conforms_def keeps_stop_def turn_view_def turn_from_row_def update_turn_row_def
        checkpoint_from_row_def simp del: active_statuses split: option.splits)
  moreover have "turn_view (turn_from_row 0 (new_turn_row now sid stamp t)) = turn_view t"
    using assms(2) by (cases t, cases "t_checkpoint t")
      (auto simp: conforms_def turn_view_def turn_from_row_def new_turn_row_def checkpoint_from_row_def)
  ultimately have "turn_shown (project_turn now sid stamp t d) sid k =
      map_option turn_view (find_row t_id k (put_row t_id t (s_turns st)))" for k
    using assms(1) fresh unfolding turn_shown_def look rows.lookup_put
    by (auto simp: agrees_def turn_shown_def split: option.splits)
  with assms(1) show ?thesis
    by (simp add: agrees_def session_shown_def session_row_of_def attempt_shown_def item_shown_def
        request_shown_def thread_shown_def project_turn_def)
qed

lemma agrees_attempt:
  assumes "agrees d sid st" and "conforms d sid (AttemptChanged a)" and "keyed d"
  shows "agrees (project_attempt sid a d) sid (st\<lparr>s_attempts := put_row a_id a (s_attempts st)\<rparr>)"
proof -
  let ?new = "\<lparr>ar_attempt = a\<lparr>a_session_id := sid\<rparr>, ar_runner = None, ar_provider_started_at = None\<rparr>"
  let ?old = "own_lookup ar_id ar_session_id sid (a_id a) (db_attempts d)"
  have look: "own_lookup ar_id ar_session_id sid k (db_attempts (project_attempt sid a d)) =
      (if k \<noteq> a_id a then own_lookup ar_id ar_session_id sid k (db_attempts d)
       else case ?old of Some r \<Rightarrow> Some (update_attempt_row sid a r)
          | None \<Rightarrow> if a_id a \<in> ar_id ` set (db_attempts d) then None else Some ?new)" for k
    using own_lookup_upsert [of ar_id "db_attempts d" ar_session_id ?new sid "update_attempt_row sid a" k] assms(3)
    by (simp add: project_attempt_def keyed_def)
  have fresh: "?old = None \<Longrightarrow> a_id a \<notin> ar_id ` set (db_attempts d)"
    using assms(2) by (auto simp: conforms_def elsewhere_def own_lookup_def find_row_None)
  have "attempt_from_row (update_attempt_row sid a r) = a" if "?old = Some r" for r
    using assms(2) that own_lookup_Some [OF that]
    by (cases a, cases "ar_attempt r")
      (auto simp: conforms_def attempt_from_row_def update_attempt_row_def ar_id_def ar_session_id_def)
  moreover have "attempt_from_row ?new = a"
    using assms(2) by (cases a) (simp add: conforms_def attempt_from_row_def)
  ultimately have "attempt_shown (project_attempt sid a d) sid k = find_row a_id k (put_row a_id a (s_attempts st))" for k
    using assms(1) fresh unfolding attempt_shown_def look rows.lookup_put
    by (auto simp: agrees_def attempt_shown_def split: option.splits)
  with assms(1) show ?thesis
    by (simp add: agrees_def session_shown_def session_row_of_def turn_shown_def item_shown_def
        request_shown_def thread_shown_def project_attempt_def)
qed

lemma agrees_request:
  assumes "agrees d sid st" and "conforms d sid (RequestChanged r)" and "keyed d"
  shows "agrees (project_request sid stamp r d) sid (st\<lparr>s_requests := put_row r_id r (s_requests st)\<rparr>)"
proof -
  let ?new = "new_request_row sid stamp r"
  let ?old = "own_lookup rr_key rr_session_id sid (sid, r_id r) (db_requests d)"
  have look: "own_lookup rr_key rr_session_id sid (sid, k) (db_requests (project_request sid stamp r d)) =
      (if k \<noteq> r_id r then own_lookup rr_key rr_session_id sid (sid, k) (db_requests d)
       else case ?old of Some x \<Rightarrow> Some (update_request_row sid stamp r x)
          | None \<Rightarrow> if (sid, r_id r) \<in> rr_key ` set (db_requests d) then None else Some ?new)" for k
  proof -
    have side: "rr_key (update_request_row sid stamp r x) = rr_key x \<and>
        rr_session_id (update_request_row sid stamp r x) = rr_session_id x \<and>
        (rr_session_id x \<noteq> sid \<longrightarrow> update_request_row sid stamp r x = x)" if "rr_key x = rr_key ?new" for x
      using that by (simp add: rr_key_def [of x])
    from assms(3) have "unique_keys rr_key (db_requests d)" by (simp add: keyed_def)
    from own_lookup_upsert [OF this, of rr_session_id ?new sid "update_request_row sid stamp r" "(sid, k)"] side
    show ?thesis by (simp add: project_request_def)
  qed
  have fresh: "?old = None \<Longrightarrow> (sid, r_id r) \<notin> rr_key ` set (db_requests d)"
    by (auto simp: own_lookup_def find_row_None rr_key_def)
  have "request_from_row (update_request_row sid stamp r x) = r" if "?old = Some x" for x
    using assms(2) that
    by (cases r) (auto simp: conforms_def request_from_row_def update_request_row_def new_request_row_def)
  moreover have "request_from_row ?new = r"
    using assms(2) by (cases r) (auto simp: conforms_def request_from_row_def new_request_row_def)
  ultimately have "request_shown (project_request sid stamp r d) sid k = find_row r_id k (put_row r_id r (s_requests st))" for k
    using assms(1) fresh unfolding request_shown_def look rows.lookup_put
    by (auto simp: agrees_def request_shown_def split: option.splits)
  with assms(1) show ?thesis
    by (simp add: agrees_def session_shown_def session_row_of_def turn_shown_def item_shown_def
        attempt_shown_def thread_shown_def project_request_def)
qed

lemma agrees_thread:
  assumes "agrees d sid st" and "conforms d sid (ProviderThreadChanged p)" and "keyed d"
  shows "agrees (project_thread sid p d) sid (st\<lparr>s_provider_threads := put_row p_id p (s_provider_threads st)\<rparr>)"
proof -
  let ?new = "p\<lparr>p_session_id := sid\<rparr>"
  let ?old = "own_lookup p_id p_session_id sid (p_id p) (db_threads d)"
  have look: "own_lookup p_id p_session_id sid k (db_threads (project_thread sid p d)) =
      (if k \<noteq> p_id p then own_lookup p_id p_session_id sid k (db_threads d)
       else case ?old of Some r \<Rightarrow> Some (update_thread_row sid p r)
          | None \<Rightarrow> if p_id p \<in> p_id ` set (db_threads d) then None else Some ?new)" for k
    using own_lookup_upsert [of p_id "db_threads d" p_session_id ?new sid "update_thread_row sid p" k] assms(3)
    by (simp add: project_thread_def keyed_def)
  have fresh: "?old = None \<Longrightarrow> p_id p \<notin> p_id ` set (db_threads d)"
    using assms(2) by (auto simp: conforms_def elsewhere_def own_lookup_def find_row_None)
  have "provider_thread_from_row (update_thread_row sid p r) = p" if "?old = Some r" for r
    using assms(2) that own_lookup_Some [OF that]
    by (cases p, cases r) (auto simp: conforms_def provider_thread_from_row_def update_thread_row_def)
  moreover have "provider_thread_from_row ?new = p"
    using assms(2) by (cases p) (simp add: conforms_def provider_thread_from_row_def)
  ultimately have "thread_shown (project_thread sid p d) sid k =
      find_row p_id k (put_row p_id p (s_provider_threads st))" for k
    using assms(1) fresh unfolding thread_shown_def look rows.lookup_put
    by (auto simp: agrees_def thread_shown_def split: option.splits)
  with assms(1) show ?thesis
    by (simp add: agrees_def session_shown_def session_row_of_def turn_shown_def item_shown_def
        request_shown_def attempt_shown_def project_thread_def)
qed

lemma agrees_item:
  assumes "agrees d sid st" and "\<not> elsewhere ir_id ir_session_id (db_items d) sid [i_id it]" and "keyed d"
  shows "agrees (project_item sid it d) sid (st\<lparr>s_items := upsert_item (s_items st) it\<rparr>)"
proof -
  let ?old = "own_lookup ir_id ir_session_id sid (i_id it) (db_items d)"
  have look: "own_lookup ir_id ir_session_id sid k (db_items (project_item sid it d)) =
      (if k \<noteq> i_id it then own_lookup ir_id ir_session_id sid k (db_items d)
       else case ?old of Some r \<Rightarrow> Some (update_item_row sid it r)
          | None \<Rightarrow> if i_id it \<in> ir_id ` set (db_items d) then None else Some (new_item_row sid it))" for k
    using own_lookup_upsert [of ir_id "db_items d" ir_session_id "new_item_row sid it" sid "update_item_row sid it" k] assms(3)
    by (simp add: project_item_def keyed_def)
  have fresh: "?old = None \<Longrightarrow> i_id it \<notin> ir_id ` set (db_items d)"
    using assms(2) by (auto simp: elsewhere_def own_lookup_def find_row_None)
  have inv: "\<forall>r \<in> set (db_items d). ir_session_id r = sid \<longrightarrow> ir_id r = i_id (ir_payload r) \<and> ir_position r = i_position (ir_payload r)"
    and shown: "item_shown d sid k = find_row i_id k (s_items st)"
    and tr: "transcript (s_items st)" for k
    using assms(1) by (auto simp: agrees_def)
  have upd: "item_from_row (update_item_row sid it r) = it\<lparr>i_position := i_position (item_from_row r)\<rparr>" if "?old = Some r" for r
    using inv own_lookup_Some [OF that] by (simp add: item_from_row_def update_item_row_def)
  have new: "item_from_row (new_item_row sid it) = it" by (simp add: item_from_row_def new_item_row_def Let_def)
  have "item_shown (project_item sid it d) sid k = find_row i_id k (upsert_item (s_items st) it)" for k
    using tr fresh upd new shown [of "i_id it"] shown [of k]
    unfolding item_shown_def look
    by (auto simp: transcript_def find_row_upsert_item split: option.splits)
  moreover have "\<forall>r \<in> set (db_items (project_item sid it d)). ir_session_id r = sid \<longrightarrow>
      ir_id r = i_id (ir_payload r) \<and> ir_position r = i_position (ir_payload r)"
  proof
    fix r assume "r \<in> set (db_items (project_item sid it d))"
    then have "r = new_item_row sid it \<or> r \<in> set (db_items d) \<or>
        (\<exists>x \<in> set (db_items d). ir_id x = i_id it \<and> r = update_item_row sid it x)"
      using set_upsert_subset [of ir_id "update_item_row sid it" "new_item_row sid it" "db_items d"]
      by (auto simp: project_item_def)
    then show "ir_session_id r = sid \<longrightarrow> ir_id r = i_id (ir_payload r) \<and> ir_position r = i_position (ir_payload r)"
    proof (elim disjE bexE conjE)
      assume "r = new_item_row sid it"
      then show ?thesis by (simp add: new_item_row_def Let_def)
    next
      fix x assume x: "x \<in> set (db_items d)" "ir_id x = i_id it" and r: "r = update_item_row sid it x"
      show ?thesis
      proof (cases "ir_session_id x = sid")
        case True
        with x(2) show ?thesis unfolding r by (simp add: update_item_row_def)
      next
        case False
        then have "r = x" using r by simp
        with False show ?thesis by simp
      qed
    qed (use inv in blast)
  qed
  moreover have "transcript (upsert_item (s_items st) it)" by (rule transcript_upsert_item [OF tr])
  ultimately show ?thesis using assms(1)
    by (simp add: agrees_def session_shown_def session_row_of_def turn_shown_def attempt_shown_def
        request_shown_def thread_shown_def project_item_def)
qed

lemma agrees_append:
  assumes "agrees d sid st" and "conforms d sid (ItemTextAppended iid field txt tm)"
  shows "agrees (project_append sid iid field txt tm d) sid (st\<lparr>s_items := append_at iid field txt tm (s_items st)\<rparr>)"
proof -
  let ?p = "\<lambda>r :: item_row. ir_id r = iid \<and> ir_session_id r = sid"
  let ?f = "\<lambda>r :: item_row. r\<lparr>ir_payload := append_payload field txt tm (ir_payload r),
     ir_text := (if field = TextField then ir_text r @ txt else ir_text r), ir_updated_at := tm\<rparr>"
  have inv: "\<forall>r \<in> set (db_items d). ir_session_id r = sid \<longrightarrow> ir_id r = i_id (ir_payload r) \<and> ir_position r = i_position (ir_payload r)"
    and shown: "item_shown d sid k = find_row i_id k (s_items st)"
    and tr: "transcript (s_items st)" for k
    using assms(1) by (auto simp: agrees_def)
  have "filter (\<lambda>r. ir_session_id r = sid) (update_where ?p ?f xs) =
      update_where ?p ?f (filter (\<lambda>r. ir_session_id r = sid) xs)" for xs
    by (rule filter_update_where) simp
  moreover have "ir_id (?f r) = ir_id r" for r by simp
  ultimately have look: "own_lookup ir_id ir_session_id sid k (db_items (project_append sid iid field txt tm d)) =
      map_option (\<lambda>r. if ?p r then ?f r else r) (own_lookup ir_id ir_session_id sid k (db_items d))" for k
    by (simp add: own_lookup_def project_append_def find_row_update_where)
  have streams: "append_payload field txt tm (ir_payload r) = append_text (ir_payload r) field txt tm"
    if "own_lookup ir_id ir_session_id sid iid (db_items d) = Some r" for r
    using assms(2) that
    by (cases "i_body (ir_payload r)")
      (auto simp: conforms_def append_payload_def append_text_def split: stream_field.splits)
  have "item_shown (project_append sid iid field txt tm d) sid k = find_row i_id k (append_at iid field txt tm (s_items st))" for k
  proof (cases "own_lookup ir_id ir_session_id sid k (db_items d)")
    case None
    with shown [of k] have "find_row i_id k (s_items st) = None" by (simp add: item_shown_def)
    with None show ?thesis by (auto simp: item_shown_def look find_row_append_at)
  next
    case (Some r)
    with shown [of k] have st: "find_row i_id k (s_items st) = Some (ir_payload r)"
      by (simp add: item_shown_def item_from_row_def)
    from own_lookup_Some [OF Some] have "ir_id r = k" "ir_session_id r = sid" by auto
    then have shown_now: "item_shown (project_append sid iid field txt tm d) sid k =
        Some (if k = iid then append_payload field txt tm (ir_payload r) else ir_payload r)"
      unfolding item_shown_def look Some by (simp add: item_from_row_def)
    show ?thesis
    proof (cases "k = iid")
      case True
      with Some streams [of r] st shown_now show ?thesis by (simp add: find_row_append_at)
    next
      case False
      with st shown_now show ?thesis by (simp add: find_row_append_at)
    qed
  qed
  moreover have "\<forall>r \<in> set (db_items (project_append sid iid field txt tm d)). ir_session_id r = sid \<longrightarrow>
      ir_id r = i_id (ir_payload r) \<and> ir_position r = i_position (ir_payload r)"
  proof
    fix r assume "r \<in> set (db_items (project_append sid iid field txt tm d))"
    then obtain x where x: "x \<in> set (db_items d)" and r: "r = (if ?p x then ?f x else x)"
      by (auto simp: project_append_def update_where_def)
    have "i_id (append_payload field txt tm it) = i_id it" "i_position (append_payload field txt tm it) = i_position it" for it
      by (simp_all add: append_payload_def)
    then show "ir_session_id r = sid \<longrightarrow> ir_id r = i_id (ir_payload r) \<and> ir_position r = i_position (ir_payload r)"
      using inv [rule_format, OF x] r by (cases "?p x") simp_all
  qed
  moreover have "transcript (append_at iid field txt tm (s_items st))" by (rule transcript_append_at [OF tr])
  moreover have "session_shown (project_append sid iid field txt tm d) sid = session_shown d sid"
    "turn_shown (project_append sid iid field txt tm d) sid = turn_shown d sid"
    "attempt_shown (project_append sid iid field txt tm d) sid = attempt_shown d sid"
    "request_shown (project_append sid iid field txt tm d) sid = request_shown d sid"
    "thread_shown (project_append sid iid field txt tm d) sid = thread_shown d sid"
    by (simp_all add: fun_eq_iff session_shown_def session_row_of_def turn_shown_def attempt_shown_def
        request_shown_def thread_shown_def project_append_def)
  ultimately show ?thesis using assms(1) by (simp only: agrees_def) simp
qed

lemma agrees_sequence [simp]: "agrees d sid (st\<lparr>s_sequence := n\<rparr>) = agrees d sid st"
  by (simp add: agrees_def)

lemma agrees_step:
  assumes "agrees d sid st" and "project now e d = Inr d'" and "se_session_id e = sid"
    and "conforms d sid (se_event e)" and "keeps_stop d sid (se_event e)" and "keyed d"
  shows "agrees d' sid (apply_one st e)"
proof -
  have base: "agrees d sid (st\<lparr>s_sequence := se_sequence e\<rparr>)" using assms(1) by simp
  show ?thesis
  proof (cases "se_event e")
    case (SessionChanged c)
    with agrees_session [OF base, of c now] assms project_Inr [OF assms(2)]
    show ?thesis by (simp add: apply_one_def)
  next
    case (TurnChanged t)
    with agrees_turn [OF base, of t now "se_at e"] assms project_Inr [OF assms(2)]
    show ?thesis by (simp add: apply_one_def)
  next
    case (AttemptChanged a)
    with agrees_attempt [OF base, of a] assms project_Inr [OF assms(2)]
    show ?thesis by (simp add: apply_one_def)
  next
    case (ItemAdded it)
    with agrees_item [OF base, of it] assms project_Inr [OF assms(2)]
    show ?thesis by (simp add: apply_one_def conforms_def)
  next
    case (ItemChanged it)
    with agrees_item [OF base, of it] assms project_Inr [OF assms(2)]
    show ?thesis by (simp add: apply_one_def conforms_def)
  next
    case (ItemTextAppended iid field more tm)
    with agrees_append [OF base, of iid field more tm] assms project_Inr [OF assms(2)]
    show ?thesis by (simp add: apply_one_def)
  next
    case (RequestChanged r)
    with agrees_request [OF base, of r "se_at e"] assms project_Inr [OF assms(2)]
    show ?thesis by (simp add: apply_one_def)
  next
    case (ProviderThreadChanged p)
    with agrees_thread [OF base, of p] assms project_Inr [OF assms(2)]
    show ?thesis by (simp add: apply_one_def)
  qed
qed

section \<open>A batch\<close>

definition changed_turns :: "session_event list \<Rightarrow> ident list" where
  "changed_turns es = concat (map (\<lambda>e. case e of TurnChanged t \<Rightarrow> [t_id t] | _ \<Rightarrow> []) es)"

text \<open>Every event conforms to the tables as the events before it left them.\<close>

fun conforming :: "instant \<Rightarrow> ident \<Rightarrow> stored_event list \<Rightarrow> db \<Rightarrow> bool" where
  "conforming now sid [] d = True"
| "conforming now sid (e # es) d =
     (conforms d sid (se_event e) \<and>
      (case project now e d of Inl _ \<Rightarrow> True | Inr d' \<Rightarrow> conforming now sid es d'))"

lemma keeps_stop_project:
  assumes "project now e d = Inr d'" and "keyed d" and "se_session_id e = sid" and "keeps_stop d sid ev"
    and "\<And>t t'. se_event e = TurnChanged t \<Longrightarrow> ev = TurnChanged t' \<Longrightarrow> t_id t \<noteq> t_id t'"
  shows "keeps_stop d' sid ev"
proof (cases ev)
  case (TurnChanged t')
  have "own_lookup tr_id tr_session_id sid (t_id t') (db_turns d') = own_lookup tr_id tr_session_id sid (t_id t') (db_turns d)"
  proof (cases "se_event e")
    case (TurnChanged t)
    then have "db_turns d' = upsert tr_id (update_turn_row sid (se_at e) t) (new_turn_row now sid (se_at e) t) (db_turns d)"
      using project_turns [OF assms(1)] assms(3) by simp
    moreover have "t_id t' \<noteq> t_id t" using assms(5) TurnChanged \<open>ev = TurnChanged t'\<close> by metis
    ultimately show ?thesis
      using own_lookup_upsert [of tr_id "db_turns d" tr_session_id "new_turn_row now sid (se_at e) t" sid
          "update_turn_row sid (se_at e) t" "t_id t'"] assms(2)
      by (simp add: keyed_def)
  qed (use project_turns [OF assms(1)] in simp_all)
  with assms(4) TurnChanged show ?thesis by (simp add: keeps_stop_def)
qed (simp_all add: keeps_stop_def)

lemma fold_agrees:
  assumes "project_all now es d = Inr d'" and "agrees d sid st" and "\<forall>e \<in> set es. se_session_id e = sid"
    and "conforming now sid es d" and "\<forall>e \<in> set es. keeps_stop d sid (se_event e)"
    and "distinct (changed_turns (map se_event es))" and "keyed d"
  shows "agrees d' sid (foldl apply_one st es)"
  using assms
proof (induction es arbitrary: d st)
  case (Cons e es)
  from Cons.prems(1) obtain d1 where d1: "project now e d = Inr d1" "project_all now es d1 = Inr d'"
    by (auto split: sum.splits)
  have "agrees d1 sid (apply_one st e)"
    using agrees_step [OF Cons.prems(2) d1(1)] Cons.prems(3-5,7) by simp
  moreover have "\<forall>x \<in> set es. keeps_stop d1 sid (se_event x)"
  proof
    fix x assume x: "x \<in> set es"
    show "keeps_stop d1 sid (se_event x)"
    proof (rule keeps_stop_project [OF d1(1) Cons.prems(7)])
      show "se_session_id e = sid" "keeps_stop d sid (se_event x)" using Cons.prems x by simp_all
      show "t_id t \<noteq> t_id t'" if "se_event e = TurnChanged t" "se_event x = TurnChanged t'" for t t'
        using Cons.prems(6) that x by (force simp: changed_turns_def)
    qed
  qed
  moreover have "distinct (changed_turns (map se_event es))"
    using Cons.prems(6) by (simp add: changed_turns_def)
  ultimately show ?case
    using Cons.IH [OF d1(2), of "apply_one st e"] Cons.prems(3,4) d1(1) keyed_project [OF d1(1) Cons.prems(7)]
    by simp
qed simp

text \<open>The session rows and the log itself play no part in what conforms.\<close>

lemma project_beside:
  "\<exists>S'. project now e (d\<lparr>db_sessions := S, db_events := E\<rparr>) =
     (case project now e d of Inl err \<Rightarrow> Inl err | Inr d' \<Rightarrow> Inr (d'\<lparr>db_sessions := S', db_events := E\<rparr>))"
proof (cases "se_event e")
  case (SessionChanged c)
  then show ?thesis
    by (intro exI [of _ "update_where (\<lambda>r. sr_id r = se_session_id e)
        (\<lambda>r. r\<lparr>sr_fields := project_fields now c (sr_fields r)\<rparr>) S"])
      (simp add: project_def project_session_def)
qed (rule exI [of _ S], simp add: project_def Let_def constrained_def project_steps)+

lemma conforms_beside: "conforms (d\<lparr>db_sessions := S, db_events := E\<rparr>) sid e = conforms d sid e"
  by (auto simp: conforms_def split: session_event.splits)

lemma conforming_beside: "conforming now sid es (d\<lparr>db_sessions := S, db_events := E\<rparr>) = conforming now sid es d"
proof (induction es arbitrary: d S)
  case (Cons e es)
  obtain S' where "project now e (d\<lparr>db_sessions := S, db_events := E\<rparr>) =
     (case project now e d of Inl err \<Rightarrow> Inl err | Inr d' \<Rightarrow> Inr (d'\<lparr>db_sessions := S', db_events := E\<rparr>))"
    using project_beside by blast
  with Cons show ?case by (simp add: conforms_beside split: sum.splits)
qed simp

lemma changed_turns_place: "changed_turns (place n ps es) = changed_turns es"
  by (induction n ps es rule: place.induct)
    (auto simp: changed_turns_def split: session_event.splits option.splits)

lemma changed_turns_current:
  "set (changed_turns (current_turns d sid es)) \<subseteq> set (changed_turns es) \<and>
   (distinct (changed_turns es) \<longrightarrow> distinct (changed_turns (current_turns d sid es)))"
proof (induction es)
  case (Cons e es)
  have "changed_turns (current_turn d sid e) = [] \<or> changed_turns (current_turn d sid e) = changed_turns [e]"
    by (auto simp: changed_turns_def current_turn_def simp del: active_statuses settled_statuses
        split: session_event.splits option.splits)
  moreover have "changed_turns (xs @ ys) = changed_turns xs @ changed_turns ys" for xs ys
    by (simp add: changed_turns_def)
  from this [of "[e]" es] this [of "current_turn d sid e" "current_turns d sid es"]
  have "changed_turns (e # es) = changed_turns [e] @ changed_turns es"
    "changed_turns (current_turns d sid (e # es)) = changed_turns (current_turn d sid e) @ changed_turns (current_turns d sid es)"
    by (simp_all add: current_turns_def)
  ultimately show ?case using Cons by auto
qed (simp add: changed_turns_def current_turns_def)

lemma current_turns_keep_stop: "ev \<in> set (current_turns d sid events) \<Longrightarrow> keeps_stop d sid ev"
  using current_turns_turn(2) [of _ d sid events]
  by (cases ev) (auto simp: keeps_stop_def own_lookup_def turn_row_of_def simp del: active_statuses split: option.splits)

lemma keeps_stop_turns: "db_turns d' = db_turns d \<Longrightarrow> keeps_stop d' = keeps_stop d"
  by (intro ext) (simp only: keeps_stop_def)

text \<open>Property C1: the log folds into what the projection holds. A client that shows what the
  session's rows hold, at the log's end, shows it again after applying the events an append
  stored, at the log's new end and without reloading: for every batch of conforming events
  that changes a turn at most once.\<close>

theorem append_folds_into_projection:
  assumes run: "append_events now sid cmd events d = Inr (stored, d')"
    and st: "agrees d sid st" "s_sequence st = latest_sequence d sid" "\<not> s_stale st"
    and ok: "keyed d" "conforming now sid stored d" "distinct (changed_turns events)"
  shows "agrees d' sid (apply_session_events st stored) \<and>
    s_sequence (apply_session_events st stored) = latest_sequence d' sid \<and>
    \<not> s_stale (apply_session_events st stored)"
proof (rule append_events_cases [OF run])
  assume "stored = []" "d' = d" then show ?thesis using st by simp
next
  assume locked: "append_locked now sid cmd (current_turns d sid events) d = Inr (stored, d')"
  note eff = append_locked_effect [OF locked]
  have "follows se_sequence (s_sequence st) stored" using eff(3) st(2) by simp
  note fold = reader.run_follows [OF st(3) this]
  from locked obtain n where p: "persist now stored (set_sequence sid n d) = Inr d'"
    by (auto simp: append_locked_def Let_def split: option.splits sum.splits)
  then obtain d1 where d1: "insert_batches 0 stored (set_sequence sid n d) = Inr d1" "project_all now stored d1 = Inr d'"
    by (auto simp: persist_def split: sum.splits)
  from insert_batches_storable [OF d1(1)] obtain E where E: "d1 = (set_sequence sid n d)\<lparr>db_events := E\<rparr>" by blast
  then have beside: "d1 = d\<lparr>db_sessions := db_sessions (set_sequence sid n d), db_events := E\<rparr>"
    by (simp add: set_sequence_def)
  have shown: "session_shown d1 sid = session_shown d sid"
  proof -
    have "session_view (session_fields_from_row (if sr_id x = sid then x\<lparr>sr_event_sequence := n\<rparr> else x)) =
        session_view (session_fields_from_row x)" for x
      by (simp add: session_fields_from_row_def)
    moreover have "session_row_of d1 sid = session_row_of (set_sequence sid n d) sid"
      by (simp add: E session_row_of_def)
    ultimately show ?thesis by (simp add: session_shown_def session_set_sequence option.map_comp comp_def)
  qed
  have a1: "agrees d1 sid st"
    using st(1) shown unfolding agrees_def turn_shown_def attempt_shown_def item_shown_def
      request_shown_def thread_shown_def by (simp add: E)
  have a2: "keyed d1"
    using ok(1) by (simp add: E keyed_def set_sequence_def unique_keys_update_where sr_id_def)
  have a3: "conforming now sid stored d1" using ok(2) conforming_beside unfolding beside by blast
  have events: "se_session_id e = sid \<and>
      se_event e \<in> set (place (Suc (latest_sequence d sid)) [] (current_turns d sid events))" if "e \<in> set stored" for e
    using stamp_events_in that unfolding eff(5) by blast
  have "\<forall>e \<in> set stored. keeps_stop d sid (se_event e)"
  proof
    fix e assume "e \<in> set stored"
    with events have m: "se_event e \<in> set (place (Suc (latest_sequence d sid)) [] (current_turns d sid events))" by blast
    show "keeps_stop d sid (se_event e)"
    proof (cases "se_event e")
      case (TurnChanged t)
      with m have "TurnChanged t \<in> set (current_turns d sid events)"
        by (simp only: place_turns)
      then show ?thesis unfolding TurnChanged by (rule current_turns_keep_stop)
    qed (simp_all add: keeps_stop_def)
  qed
  then have a4: "\<forall>e \<in> set stored. keeps_stop d1 sid (se_event e)"
    using keeps_stop_turns [of d1 d] by (simp add: E)
  have a5: "distinct (changed_turns (map se_event stored))"
    unfolding eff(5) map_stamp_events changed_turns_place using changed_turns_current ok(3) by blast
  have "agrees d' sid (foldl apply_one st stored)"
    using fold_agrees [OF d1(2) a1 _ a3 a4 a5 a2] events by blast
  with fold eff(2) [of sid] eff(4) st(2) show ?thesis by (metis)
qed

definition ex_state :: "nat \<Rightarrow> session_state" where
  "ex_state n = \<lparr>s_sequence = n, s_session = ex_fields ''s'', s_turns = [], s_attempts = [], s_items = [],
     s_requests = [], s_provider_threads = [], s_older_before = None, s_stale = False\<rparr>"

lemma ex_state_agrees: "agrees (ex_db n) ''s'' (ex_state n)"
  by (simp add: agrees_def session_shown_def session_row_of_def sr_id_def turn_shown_def attempt_shown_def
      item_shown_def request_shown_def thread_shown_def own_lookup_def transcript_def unique_keys_def
      session_fields_from_row_def session_view_def ex_state_def fixtures)

lemma ex_db_keyed: "keyed (ex_db n)"
  by (simp add: keyed_def unique_keys_def fixtures)

theorem append_folds_into_projection_witness:
  "\<exists>stored d'. append_events 5 ''s'' None [TurnChanged (ex_turn ''t'' 1 Queued),
       ItemAdded (ex_item ''i'' 0 (AssistantMessage ''a'' None)), ItemTextAppended ''i'' TextField ''b'' 6] (ex_db 3)
       = Inr (stored, d') \<and> agrees d' ''s'' (apply_session_events (ex_state 3) stored)"
proof -
  let ?es = "[TurnChanged (ex_turn ''t'' 1 Queued), ItemAdded (ex_item ''i'' 0 (AssistantMessage ''a'' None)),
       ItemTextAppended ''i'' TextField ''b'' 6]"
  have "\<exists>stored d'. append_events 5 ''s'' None ?es (ex_db 3) = Inr (stored, d') \<and> conforming 5 ''s'' stored (ex_db 3)"
    by (simp add: log_eval conforms_def elsewhere_def own_lookup_def item_text_def author_kind_of_def)
  then obtain stored d' where run: "append_events 5 ''s'' None ?es (ex_db 3) = Inr (stored, d')"
    and ok: "conforming 5 ''s'' stored (ex_db 3)" by blast
  have "s_sequence (ex_state 3) = latest_sequence (ex_db 3) ''s''" "\<not> s_stale (ex_state 3)"
    "distinct (changed_turns ?es)"
    by (simp_all add: ex_state_def log_eval changed_turns_def)
  from append_folds_into_projection [OF run ex_state_agrees this(1,2) ex_db_keyed ok this(3)] run
  show ?thesis by blast
qed

section \<open>Where the two differ\<close>

text \<open>
  The conditions are needed. A batch that asks a turn to stop and then writes it running
  without the request is not caught by \<open>currentTurns\<close>, which reads the rows once: the projection
  keeps the stop, the fold loses it.
\<close>

lemma one_batch_loses_stop:
  "\<exists>stored d'. append_events 5 ''s'' None
       [TurnChanged ((ex_turn ''t'' 1 Running)\<lparr>t_cancellation_requested := True\<rparr>), TurnChanged (ex_turn ''t'' 1 Running)]
       (ex_running_db [ex_turn_row ''t'' 1 Running]) = Inr (stored, d') \<and>
     map_option t_cancellation_requested (turn_shown d' ''s'' ''t'') = Some True \<and>
     map_option t_cancellation_requested
       (find_row t_id ''t'' (s_turns (apply_session_events (ex_state 3) stored))) = Some False"
  by (simp add: log_eval ex_running_db_def turn_shown_def own_lookup_def turn_view_def turn_from_row_def
      ex_state_def apply_one_def put_row_def)

text \<open>
  A session change that names no \<open>updatedAt\<close> moves the row's but not the client's, and one that
  names only \<open>updatedAt\<close> moves the client's but not the row's.
\<close>

lemma session_stamp_differs:
  "f_updated_at (project_fields now (empty_patch\<lparr>c_title := Some t\<rparr>) f) = now"
  "f_updated_at (merge_session f (empty_patch\<lparr>c_title := Some t\<rparr>)) = f_updated_at f"
  "f_updated_at (project_fields now (empty_patch\<lparr>c_updated_at := Some u\<rparr>) f) = f_updated_at f"
  "f_updated_at (merge_session f (empty_patch\<lparr>c_updated_at := Some u\<rparr>)) = u"
  by (simp_all add: project_fields_def merge_session_def patch_writes_def empty_patch_def set_col_def over_def)

text \<open>Text appended to an item that does not stream it reaches the row and not the client.\<close>

lemma unstreamed_text_differs:
  "append_payload TextField txt tm (ex_item ''i'' 1 (Notice c t dat)) = (ex_item ''i'' 1 (Notice c (t @ txt) dat))\<lparr>i_updated_at := tm\<rparr>"
  "append_text (ex_item ''i'' 1 (Notice c t dat)) TextField txt tm = ex_item ''i'' 1 (Notice c t dat)"
  by (simp_all add: append_payload_def append_text_def ex_item_def)

end
