(* ===== verification/Turn_Queue.thy ===== *)
theory Turn_Queue
  imports Session_Log Client_State
begin

text \<open>
  The session's queue of turns, \<open>packages/core/src/services/sessions/turn-queue.ts\<close>: who runs
  which turn is decided by leases in the database. \<open>now\<close> is the transaction's clock; a lease
  token is the random UUID the claim drew, a parameter here. Comparisons with a null column are
  false, as in SQL. The session row's lock is the order of transactions; \<open>SKIP LOCKED\<close> then
  skips nothing.
\<close>

section \<open>Which turns this process may drive\<close>

definition LEASE_SECONDS :: int where "LEASE_SECONDS = 60"
definition HOLD_BLOCKS_QUEUE_SECONDS :: int where "HOLD_BLOCKS_QUEUE_SECONDS = 10 * 60"

definition after_now :: "instant \<Rightarrow> instant option \<Rightarrow> bool" where
  "after_now now x \<longleftrightarrow> (case x of None \<Rightarrow> False | Some t \<Rightarrow> now < t)"

text \<open>PostgreSQL's \<open>split_part(s, ':', 2)\<close>.\<close>

definition second_part :: "string \<Rightarrow> string" where
  "second_part s = takeWhile (\<lambda>c. c \<noteq> CHR '':'') (drop 1 (dropWhile (\<lambda>c. c \<noteq> CHR '':'') s))"

definition node_drivable :: "instant \<Rightarrow> (ident \<times> ident) option \<Rightarrow> db \<Rightarrow> ident \<Rightarrow> bool" where
  "node_drivable now local d nid \<longleftrightarrow>
     (\<exists>n \<in> set (db_nodes d). wn_id n = nid \<and> wn_enabled n \<and> after_now now (wn_lease_expires_at n) \<and>
        (wn_remote n \<or>
         (case local of None \<Rightarrow> False
          | Some (lid, ltoken) \<Rightarrow> wn_id n = lid \<and> wn_lease_token n = Some ltoken)))"

definition allocation_blocked :: "instant \<Rightarrow> (ident \<times> ident) option \<Rightarrow> db \<Rightarrow> allocation_row \<Rightarrow> bool" where
  "allocation_blocked now local d a \<longleftrightarrow>
     after_now now (al_maintenance_claimed_until a) \<or>
     (case al_worker_node_id a of
        Some nid \<Rightarrow> al_status a \<noteq> AllocationActive \<or> \<not> node_drivable now local d nid
      | None \<Rightarrow>
          take 7 (al_binding_id a) = ''client:'' \<and>
          \<not> (\<exists>r \<in> set (db_client_runners d).
               cl_id r = second_part (al_binding_id a) \<and> after_now now (cl_lease_expires_at r)))"

definition session_blocked :: "instant \<Rightarrow> (ident \<times> ident) option \<Rightarrow> db \<Rightarrow> ident \<Rightarrow> bool" where
  "session_blocked now local d sid \<longleftrightarrow>
     (\<exists>s \<in> set (db_sessions d). sr_id s = sid \<and> after_now now (sr_rewind_until s)) \<or>
     (\<exists>s \<in> set (db_sessions d). \<exists>a \<in> set (db_allocations d).
        sr_id s = sid \<and> sr_allocation_id s = Some (al_id a) \<and> allocation_blocked now local d a)"

definition eligible :: "instant \<Rightarrow> (ident \<times> ident) option \<Rightarrow> db \<Rightarrow> ident \<Rightarrow> turn_row list" where
  "eligible now local d sid =
     (if session_blocked now local d sid then [] else filter (\<lambda>r. tr_session_id r = sid) (db_turns d))"

section \<open>Claiming\<close>

record claimed_turn =
  cl_turn :: turn
  cl_token :: ident
  cl_recovered :: bool

definition lease :: "instant \<Rightarrow> ident \<Rightarrow> ident \<Rightarrow> ident \<Rightarrow> db \<Rightarrow> db" where
  "lease now tid worker token d =
     d\<lparr>db_turns := update_where (\<lambda>r. tr_id r = tid)
        (\<lambda>r. r\<lparr>tr_lease_owner := Some worker, tr_lease_token := Some token,
               tr_lease_expires_at := Some (now + LEASE_SECONDS * 1000)\<rparr>) (db_turns d)\<rparr>"

definition lease_lapsed :: "instant \<Rightarrow> turn_row \<Rightarrow> bool" where
  "lease_lapsed now r \<longleftrightarrow> (case tr_lease_expires_at r of None \<Rightarrow> True | Some t \<Rightarrow> t \<le> now)"

text \<open>
  A message held for editing, or waiting to be tried again, keeps its place: what was queued
  after it waits, unless it interrupts, or the hold was left untouched for ten minutes.
\<close>

definition waits_behind :: "instant \<Rightarrow> turn_row \<Rightarrow> turn_row \<Rightarrow> bool" where
  "waits_behind now r before \<longleftrightarrow>
     tr_session_id before = tr_session_id r \<and> tr_ordinal before < tr_ordinal r \<and>
     tr_priority r \<le> tr_priority before \<and>
     (tr_status before = Held \<and> now - HOLD_BLOCKS_QUEUE_SECONDS * 1000 < tr_updated_at before \<or>
      tr_status before = Queued \<and> 0 < tr_attempt_count before \<and> now < tr_available_at before)"

definition due :: "instant \<Rightarrow> db \<Rightarrow> turn_row \<Rightarrow> bool" where
  "due now d r \<longleftrightarrow> tr_status r = Queued \<and> tr_available_at r \<le> now \<and>
     \<not> (\<exists>b \<in> set (db_turns d). waits_behind now r b)"

definition queue_head :: "instant \<Rightarrow> (ident \<times> ident) option \<Rightarrow> db \<Rightarrow> ident \<Rightarrow> turn_row option" where
  "queue_head now local d sid =
     (case sort_key (\<lambda>r. - tr_priority r)
             (sort_key tr_created_at (sort_key tr_ordinal (filter (due now d) (eligible now local d sid)))) of
        [] \<Rightarrow> None | r # _ \<Rightarrow> Some r)"

definition lapsed_turn :: "instant \<Rightarrow> (ident \<times> ident) option \<Rightarrow> db \<Rightarrow> ident \<Rightarrow> turn_row option" where
  "lapsed_turn now local d sid =
     find (\<lambda>r. is_active_turn_status (tr_status r) \<and> lease_lapsed now r) (eligible now local d sid)"

definition session_busy :: "db \<Rightarrow> ident \<Rightarrow> bool" where
  "session_busy d sid \<longleftrightarrow>
     (\<exists>r \<in> set (db_turns d). tr_session_id r = sid \<and> is_active_turn_status (tr_status r))"

definition starting_turn :: "instant \<Rightarrow> turn_row \<Rightarrow> turn" where
  "starting_turn now head =
     (turn_from_row now head)
     \<lparr>t_status := Preparing, t_activity := Some ''Preparing agent'', t_activity_at := Some now,
      t_provider_retry := None, t_cancellation_requested := False, t_retry_at := None,
      t_started_at := (case tr_started_at head of None \<Rightarrow> Some now | Some s \<Rightarrow> Some s),
      t_updated_at := now\<rparr>"

definition claim ::
  "instant \<Rightarrow> ident \<Rightarrow> ident \<Rightarrow> (ident \<times> ident) option \<Rightarrow> ident \<Rightarrow> db \<Rightarrow> (claimed_turn option) tx"
where
  "claim now worker sid local token d =
     (case lapsed_turn now local d sid of
        Some lapsed \<Rightarrow>
          Inr (Some \<lparr>cl_turn = turn_from_row now lapsed, cl_token = token, cl_recovered = True\<rparr>,
               lease now (tr_id lapsed) worker token d)
      | None \<Rightarrow>
          if session_busy d sid then Inr (None, d)
          else
            (case queue_head now local d sid of
               None \<Rightarrow> Inr (None, d)
             | Some head \<Rightarrow>
                 (let turn = starting_turn now head in
                  case append_events now sid None [TurnChanged turn] d of
                    Inl err \<Rightarrow> Inl err
                  | Inr (_, d') \<Rightarrow>
                      Inr (Some \<lparr>cl_turn = turn, cl_token = token, cl_recovered = False\<rparr>,
                           lease now (tr_id head) worker token d'))))"

section \<open>Keeping and ending a lease\<close>

record held_turn =
  ht_turn_id :: ident
  ht_cancellation_requested :: bool
  ht_commands :: bool

definition renews :: "instant \<Rightarrow> ident \<Rightarrow> (ident \<times> ident) list \<Rightarrow> turn_row \<Rightarrow> bool" where
  "renews now worker turns r \<longleftrightarrow>
     tr_lease_owner r = Some worker \<and> is_active_turn_status (tr_status r) \<and>
     after_now now (tr_lease_expires_at r) \<and>
     (\<exists>(tid, token) \<in> set turns. tr_id r = tid \<and> tr_lease_token r = Some token)"

definition renew_held ::
  "instant \<Rightarrow> ident \<Rightarrow> (ident \<times> ident) list \<Rightarrow> db \<Rightarrow> held_turn list \<times> db"
where
  "renew_held now worker turns d =
     (if turns = [] then ([], d)
      else
        (map (\<lambda>r. \<lparr>ht_turn_id = tr_id r,
                  ht_cancellation_requested = (tr_cancellation_requested_at r \<noteq> None),
                  ht_commands = (\<exists>c \<in> set (db_commands d). tc_turn_id c = tr_id r \<and> tc_status c = CPending)\<rparr>)
           (filter (renews now worker turns) (db_turns d)),
         d\<lparr>db_turns := update_where (renews now worker turns)
            (\<lambda>r. r\<lparr>tr_lease_expires_at := Some (now + LEASE_SECONDS * 1000)\<rparr>) (db_turns d)\<rparr>))"

definition owns :: "instant \<Rightarrow> ident \<Rightarrow> ident \<Rightarrow> db \<Rightarrow> bool" where
  "owns now tid token d \<longleftrightarrow>
     (\<exists>r \<in> set (db_turns d). tr_id r = tid \<and> tr_lease_token r = Some token \<and> after_now now (tr_lease_expires_at r))"

definition hand_back :: "instant \<Rightarrow> ident \<Rightarrow> ident \<Rightarrow> db \<Rightarrow> db" where
  "hand_back now tid token d =
     d\<lparr>db_turns := update_where (\<lambda>r. tr_id r = tid \<and> tr_lease_token r = Some token)
        (\<lambda>r. r\<lparr>tr_lease_expires_at := Some now, tr_lease_owner := None\<rparr>) (db_turns d)\<rparr>"

definition release :: "ident \<Rightarrow> db \<Rightarrow> db" where
  "release tid d =
     d\<lparr>db_turns := update_where (\<lambda>r. tr_id r = tid)
        (\<lambda>r. r\<lparr>tr_lease_owner := None, tr_lease_token := None, tr_lease_expires_at := None\<rparr>) (db_turns d)\<rparr>"

definition schedule_retry :: "ident \<Rightarrow> instant \<Rightarrow> db \<Rightarrow> db" where
  "schedule_retry tid tm d =
     d\<lparr>db_turns := update_where (\<lambda>r. tr_id r = tid) (\<lambda>r. r\<lparr>tr_available_at := tm\<rparr>) (db_turns d)\<rparr>"

section \<open>Commands for the running turn\<close>

definition enqueue_command ::
  "instant \<Rightarrow> ident \<Rightarrow> ident \<Rightarrow> ident option \<Rightarrow> turn_command_kind \<Rightarrow> json_object option \<Rightarrow> db \<Rightarrow> ident \<times> db"
where
  "enqueue_command now cid tid aid kind payload d =
     (cid, d\<lparr>db_commands := db_commands d @
        [\<lparr>tc_id = cid, tc_turn_id = tid, tc_attempt_id = aid, tc_kind = kind,
          tc_payload = (case payload of None \<Rightarrow> [] | Some p \<Rightarrow> p), tc_status = CPending,
          tc_created_at = now, tc_sent_at = None, tc_acknowledged_at = None\<rparr>]\<rparr>)"

definition open_commands :: "ident \<Rightarrow> db \<Rightarrow> turn_command_row list" where
  "open_commands tid d =
     sort_key tc_created_at (sort_key tc_id
       (filter (\<lambda>c. tc_turn_id c = tid \<and> (tc_status c = CPending \<or> tc_status c = CSent)) (db_commands d)))"

definition mark_commands :: "instant \<Rightarrow> ident list \<Rightarrow> turn_command_status \<Rightarrow> db \<Rightarrow> db" where
  "mark_commands now ids status d =
     (if ids = [] then d
      else d\<lparr>db_commands := update_where
        (\<lambda>c. tc_id c \<in> set ids \<and> (tc_status c = CPending \<or> tc_status c = CSent))
        (\<lambda>c. c\<lparr>tc_status := status,
               tc_sent_at := (if status = CSent then Some now else tc_sent_at c),
               tc_acknowledged_at := (if status = CAcknowledged then Some now else tc_acknowledged_at c)\<rparr>)
        (db_commands d)\<rparr>)"

section \<open>The one worker of a session\<close>

text \<open>What the unique constraints read of a turn's row; leases are no part of it.\<close>

definition turn_key :: "turn_row \<Rightarrow> ident \<times> ident \<times> nat \<times> turn_status \<times> ident option" where
  "turn_key r = (tr_id r, tr_session_id r, tr_ordinal r, tr_status r, tr_continuation_of r)"

lemma turn_constraints_keys:
  "turn_constraints rows =
    (let ks = map turn_key rows in
     distinct (map fst ks) \<and> distinct (map (\<lambda>(i, s, n, _). (s, n)) ks) \<and>
     distinct (map (\<lambda>(i, s, _). s) (filter (\<lambda>(i, s, n, st, c). is_active_turn_status st) ks)) \<and>
     distinct (map (\<lambda>(i, s, n, st, c). c) (filter (\<lambda>(i, s, n, st, c). c \<noteq> None) ks)))"
  by (simp add: turn_constraints_def turn_key_def Let_def filter_map comp_def)

lemma turn_constraints_cong: "map turn_key xs = map turn_key ys \<Longrightarrow> turn_constraints xs = turn_constraints ys"
  by (simp add: turn_constraints_keys del: map_map)

lemma map_update_same: "(\<And>x. p x \<Longrightarrow> g (f x) = g x) \<Longrightarrow> map g (update_where p f xs) = map g xs"
  by (induction xs) auto

lemma lease_keys [simp]:
  "map turn_key (db_turns (lease now tid worker token d)) = map turn_key (db_turns d)"
  "map turn_key (db_turns (snd (renew_held now worker turns d))) = map turn_key (db_turns d)"
  "map turn_key (db_turns (hand_back now tid token d)) = map turn_key (db_turns d)"
  "map turn_key (db_turns (release tid d)) = map turn_key (db_turns d)"
  "map turn_key (db_turns (schedule_retry tid tm d)) = map turn_key (db_turns d)"
  by (simp_all add: lease_def renew_held_def hand_back_def release_def schedule_retry_def
      map_update_same turn_key_def)

lemma lease_constraints [simp]:
  "turn_constraints (db_turns (lease now tid worker token d)) = turn_constraints (db_turns d)"
  "turn_constraints (db_turns (snd (renew_held now worker turns d))) = turn_constraints (db_turns d)"
  "turn_constraints (db_turns (hand_back now tid token d)) = turn_constraints (db_turns d)"
  "turn_constraints (db_turns (release tid d)) = turn_constraints (db_turns d)"
  "turn_constraints (db_turns (schedule_retry tid tm d)) = turn_constraints (db_turns d)"
  by (intro turn_constraints_cong lease_keys)+

lemma append_turn_constraints:
  assumes "append_events now sid cmd events d = Inr (stored, d')" and "turn_constraints (db_turns d)"
  shows "turn_constraints (db_turns d')"
proof (rule append_events_cases [OF assms(1)])
  assume "append_locked now sid cmd (current_turns d sid events) d = Inr (stored, d')"
  then obtain n where "persist now stored (set_sequence sid n d) = Inr d'"
    by (auto simp: append_locked_def Let_def split: option.splits sum.splits)
  then obtain d1 where d1: "insert_batches 0 stored (set_sequence sid n d) = Inr d1" "project_all now stored d1 = Inr d'"
    by (auto simp: persist_def split: sum.splits)
  from insert_batches_storable [OF d1(1)] have "db_turns d1 = db_turns d" by auto
  with project_all_turn_constraints [OF d1(2)] assms(2) show ?thesis by simp
qed (use assms(2) in simp)

lemma claim_cases:
  assumes "claim now worker sid local token d = Inr (res, d')"
  obtains (recovered) row where "lapsed_turn now local d sid = Some row"
      "res = Some \<lparr>cl_turn = turn_from_row now row, cl_token = token, cl_recovered = True\<rparr>"
      "d' = lease now (tr_id row) worker token d"
  | (idle) "res = None" "d' = d" "lapsed_turn now local d sid = None"
      "session_busy d sid \<or> queue_head now local d sid = None"
  | (started) head stored d1 where "lapsed_turn now local d sid = None" "\<not> session_busy d sid"
      "queue_head now local d sid = Some head"
      "append_events now sid None [TurnChanged (starting_turn now head)] d = Inr (stored, d1)"
      "res = Some \<lparr>cl_turn = starting_turn now head, cl_token = token, cl_recovered = False\<rparr>"
      "d' = lease now (tr_id head) worker token d1"
proof (cases "lapsed_turn now local d sid")
  case (Some row)
  with assms recovered show ?thesis by (simp add: claim_def)
next
  case lapsed: None
  show ?thesis
  proof (cases "session_busy d sid \<or> queue_head now local d sid = None")
    case True
    with assms lapsed have "res = None" and "d' = d" by (auto simp: claim_def split: if_splits)
    then show ?thesis using lapsed True by (intro idle)
  next
    case False
    then obtain head where head: "queue_head now local d sid = Some head" "\<not> session_busy d sid" by auto
    show ?thesis
    proof (cases "append_events now sid None [TurnChanged (starting_turn now head)] d")
      case (Inl err)
      with assms lapsed head show ?thesis by (simp add: claim_def)
    next
      case (Inr p)
      obtain stored d1 where p: "p = (stored, d1)" by (cases p)
      with Inr assms lapsed head have
        "res = Some \<lparr>cl_turn = starting_turn now head, cl_token = token, cl_recovered = False\<rparr>"
        "d' = lease now (tr_id head) worker token d1" by (simp_all add: claim_def)
      with Inr p lapsed head show ?thesis by (intro started) simp_all
    qed
  qed
qed

lemma claim_constraints:
  assumes "claim now worker sid local token d = Inr (res, d')" and "turn_constraints (db_turns d)"
  shows "turn_constraints (db_turns d')"
  using assms(1)
proof (cases rule: claim_cases)
  case (started head stored d1)
  from append_turn_constraints [OF started(4) assms(2)] started(6) show ?thesis by simp
qed (use assms(2) in simp_all)

lemma constraints_one_active:
  assumes "turn_constraints rows" and "r \<in> set rows" and "r' \<in> set rows"
    and "tr_session_id r = tr_session_id r'"
    and "is_active_turn_status (tr_status r)" and "is_active_turn_status (tr_status r')"
  shows "r = r'"
proof -
  let ?active = "filter (\<lambda>r. is_active_turn_status (tr_status r)) rows"
  have "inj_on tr_session_id (set ?active)"
    using assms(1) unfolding turn_constraints_def distinct_map by blast
  moreover have "r \<in> set ?active" "r' \<in> set ?active" using assms by simp_all
  ultimately show ?thesis using assms(4) by (auto dest: inj_onD)
qed

lemma lapsed_turn_facts:
  "lapsed_turn now local d sid = Some r \<Longrightarrow>
   r \<in> set (db_turns d) \<and> tr_session_id r = sid \<and> is_active_turn_status (tr_status r) \<and>
   lease_lapsed now r \<and> \<not> session_blocked now local d sid"
  by (auto simp: lapsed_turn_def eligible_def simp del: active_statuses dest!: find_in split: if_splits)

text \<open>A live lease excludes every other claim. While a turn of the session works
  under a lease that has not lapsed, a claim by anyone returns nothing and changes nothing.\<close>

theorem live_lease_excludes_claims:
  assumes "turn_constraints (db_turns d)" and "r \<in> set (db_turns d)" and "tr_session_id r = sid"
    and "is_active_turn_status (tr_status r)" and "tr_lease_expires_at r = Some x" and "now < x"
  shows "claim now worker sid local token d = Inr (None, d)"
proof -
  have "lapsed_turn now local d sid = None"
  proof (rule ccontr)
    assume "lapsed_turn now local d sid \<noteq> None"
    then obtain r' where r': "lapsed_turn now local d sid = Some r'" by auto
    from lapsed_turn_facts [OF r'] constraints_one_active [OF assms(1,2), of r'] assms(3,4)
    have "lease_lapsed now r" by auto
    with assms(5,6) show False by (simp add: lease_lapsed_def)
  qed
  moreover have "session_busy d sid" using assms(2-4) by (auto simp: session_busy_def)
  ultimately show ?thesis by (simp add: claim_def)
qed

section \<open>What a claim takes\<close>

lemma insort_key_head:
  "xs \<noteq> [] \<Longrightarrow> hd (insort_key f x xs) = (if f x \<le> f (hd xs) then x else hd xs)"
  by (cases xs) auto

definition queue_order :: "turn_row \<Rightarrow> turn_row \<Rightarrow> bool" where
  "queue_order = lex3 (\<lambda>r. - tr_priority r) tr_created_at tr_ordinal"

lemma queue_sorted:
  "sorted_wrt queue_order (sort_key (\<lambda>r. - tr_priority r) (sort_key tr_created_at (sort_key tr_ordinal rows)))"
proof -
  have "sorted_wrt (\<lambda>a b. tr_ordinal a \<le> tr_ordinal b) (sort_key tr_ordinal rows)"
    using sorted_sort_key [of tr_ordinal rows] by (simp only: sorted_wrt_map)
  then have "sorted_wrt (\<lambda>a b. tr_created_at a < tr_created_at b \<or> tr_created_at a = tr_created_at b \<and> tr_ordinal a \<le> tr_ordinal b)
      (sort_key tr_created_at (sort_key tr_ordinal rows))"
    by (rule sort_key_refines) simp
  then show ?thesis by (rule sort_key_refines) (simp add: queue_order_def lex3_def)
qed

lemma queue_head_facts:
  assumes "queue_head now local d sid = Some head"
  shows "head \<in> set (db_turns d)" "tr_session_id head = sid" "due now d head" "\<not> session_blocked now local d sid"
    and "\<forall>r \<in> set (db_turns d). tr_session_id r = sid \<and> due now d r \<longrightarrow> r = head \<or> queue_order head r"
proof -
  let ?rows = "filter (due now d) (eligible now local d sid)"
  obtain rest where s: "sort_key (\<lambda>r. - tr_priority r) (sort_key tr_created_at (sort_key tr_ordinal ?rows)) = head # rest"
    using assms by (auto simp: queue_head_def split: list.splits)
  then have in_rows: "set ?rows = insert head (set rest)" by (metis list.simps(15) set_sort)
  then have head: "head \<in> set (eligible now local d sid)" "due now d head" by auto
  show "head \<in> set (db_turns d)" "tr_session_id head = sid" "due now d head" "\<not> session_blocked now local d sid"
    using head by (auto simp: eligible_def split: if_splits)
  then have "set ?rows = {r \<in> set (db_turns d). tr_session_id r = sid \<and> due now d r}"
    by (auto simp: eligible_def)
  moreover have "\<forall>r \<in> set rest. queue_order head r" using queue_sorted [of ?rows] s by simp
  ultimately show "\<forall>r \<in> set (db_turns d). tr_session_id r = sid \<and> due now d r \<longrightarrow> r = head \<or> queue_order head r"
    using in_rows by auto
qed

text \<open>The claim takes the queue in order and never past a message that keeps its
  place. A turn it starts was queued and due; every other due turn of the session comes after
  it by priority, creation and ordinal; and no earlier turn of at least its priority is held
  for editing within the last ten minutes or waiting to be tried again.\<close>

theorem claim_takes_head:
  assumes "claim now worker sid local token d = Inr (Some c, d')" and "\<not> cl_recovered c"
  shows "\<exists>head \<in> set (db_turns d). tr_session_id head = sid \<and> t_id (cl_turn c) = tr_id head \<and>
    tr_status head = Queued \<and> tr_available_at head \<le> now \<and>
    (\<forall>r \<in> set (db_turns d). tr_session_id r = sid \<and> due now d r \<longrightarrow> r = head \<or> queue_order head r) \<and>
    (\<forall>b \<in> set (db_turns d). tr_session_id b = sid \<and> tr_ordinal b < tr_ordinal head \<and> tr_priority head \<le> tr_priority b \<longrightarrow>
       \<not> (tr_status b = Held \<and> now - HOLD_BLOCKS_QUEUE_SECONDS * 1000 < tr_updated_at b) \<and>
       \<not> (tr_status b = Queued \<and> 0 < tr_attempt_count b \<and> now < tr_available_at b))"
  using assms(1)
proof (cases rule: claim_cases)
  case (recovered row)
  with assms(2) show ?thesis by simp
next
  case (started head stored d1)
  note facts = queue_head_facts [OF started(3)]
  have "t_id (cl_turn c) = tr_id head" using started(5) by (simp add: starting_turn_def turn_from_row_def)
  with facts show ?thesis by (intro bexI [of _ head]) (auto simp: due_def waits_behind_def)
qed simp

section \<open>Starting a turn\<close>

lemma lease_row:
  "turn_row_of (lease now tid worker token d) sid k =
     map_option (\<lambda>r. if k = tid then r\<lparr>tr_lease_owner := Some worker, tr_lease_token := Some token,
       tr_lease_expires_at := Some (now + LEASE_SECONDS * 1000)\<rparr> else r) (turn_row_of d sid k)"
proof -
  let ?f = "\<lambda>r :: turn_row. r\<lparr>tr_lease_owner := Some worker, tr_lease_token := Some token,
       tr_lease_expires_at := Some (now + LEASE_SECONDS * 1000)\<rparr>"
  have "filter (\<lambda>r. tr_session_id r = sid) (update_where (\<lambda>r. tr_id r = tid) ?f xs) =
      update_where (\<lambda>r. tr_id r = tid) ?f (filter (\<lambda>r. tr_session_id r = sid) xs)" for xs
    by (rule filter_update_where) simp
  then have "turn_row_of (lease now tid worker token d) sid k =
      map_option (\<lambda>r. if tr_id r = tid then ?f r else r) (turn_row_of d sid k)"
    by (simp add: turn_row_of_def lease_def find_row_update_where)
  also have "\<dots> = map_option (\<lambda>r. if k = tid then ?f r else r) (turn_row_of d sid k)"
  proof (cases "turn_row_of d sid k")
    case (Some r)
    then have "tr_id r = k" unfolding turn_row_of_def using find_row_Some by metis
    with Some show ?thesis by simp
  qed simp
  finally show ?thesis .
qed

lemma constraints_row:
  "turn_constraints (db_turns d) \<Longrightarrow> r \<in> set (db_turns d) \<Longrightarrow> turn_row_of d (tr_session_id r) (tr_id r) = Some r"
proof -
  assume "turn_constraints (db_turns d)" and "r \<in> set (db_turns d)"
  then have "unique_keys tr_id (filter (\<lambda>x. tr_session_id x = tr_session_id r) (db_turns d))"
    "r \<in> set (filter (\<lambda>x. tr_session_id x = tr_session_id r) (db_turns d))"
    by (simp_all add: turn_constraints_def unique_keys_def distinct_map_filter)
  then show ?thesis unfolding turn_row_of_def by (rule find_row_unique)
qed

text \<open>The append that starts a turn leaves it preparing, and every other turn of the session as it was.\<close>

lemma started_row:
  assumes run: "append_events now sid None [TurnChanged (starting_turn now head)] d = Inr (stored, d1)"
    and ok: "turn_constraints (db_turns d)" and row: "turn_row_of d sid (tr_id head) = Some head"
    and home: "tr_session_id head = sid" and queued: "tr_status head = Queued"
  shows "\<exists>row'. turn_row_of d1 sid (tr_id head) = Some row' \<and> tr_status row' = Preparing"
    "k \<noteq> tr_id head \<Longrightarrow> turn_row_of d sid k = Some x \<Longrightarrow> turn_row_of d1 sid k = Some x"
proof -
  let ?t = "starting_turn now head"
  have id: "t_id ?t = tr_id head" "t_status ?t = Preparing" by (simp_all add: starting_turn_def turn_from_row_def)
  have "(\<exists>row'. turn_row_of d1 sid (tr_id head) = Some row' \<and> tr_status row' = Preparing) \<and>
    (k \<noteq> tr_id head \<longrightarrow> turn_row_of d sid k = Some x \<longrightarrow> turn_row_of d1 sid k = Some x)" for k x
  proof (rule append_events_cases [OF run])
    assume "current_turns d sid [TurnChanged ?t] = []"
    then show ?thesis using row id queued by (simp add: current_turns_def current_turn_def split: if_splits)
  next
    assume locked: "append_locked now sid None (current_turns d sid [TurnChanged ?t]) d = Inr (stored, d1)"
    obtain u where u: "current_turns d sid [TurnChanged ?t] = [TurnChanged u]" "t_id u = tr_id head" "t_status u = Preparing"
    proof -
      let ?u = "if tr_cancellation_requested_at head \<noteq> None
        then ?t\<lparr>t_cancellation_requested := True\<rparr> else ?t"
      have "\<not> t_cancellation_requested ?t" by (simp add: starting_turn_def)
      with row id queued have "current_turns d sid [TurnChanged ?t] = [TurnChanged ?u]"
        by (simp add: current_turns_def current_turn_def)
      then show thesis using that [of ?u] id by simp
    qed
    from locked obtain n where p: "persist now stored (set_sequence sid n d) = Inr d1"
      by (auto simp: append_locked_def Let_def split: option.splits sum.splits)
    then obtain d0 where d0: "insert_batches 0 stored (set_sequence sid n d) = Inr d0" "project_all now stored d0 = Inr d1"
      by (auto simp: persist_def split: sum.splits)
    from insert_batches_storable [OF d0(1)] have turns: "db_turns d0 = db_turns d" by auto
    obtain e where e: "stored = [e]" "se_event e = TurnChanged u" "se_session_id e = sid"
      using append_locked_effect(5) [OF locked] u(1) by simp
    with d0(2) have "project now e d0 = Inr d1" by (auto split: sum.splits)
    note proj = turn_row_of_project [OF this]
    from proj [of sid "tr_id head"] ok row turns e u
    have "turn_row_of d1 sid (tr_id head) = Some (update_turn_row sid (se_at e) u head)"
      by (simp add: turn_row_of_def)
    moreover have "k \<noteq> tr_id head \<longrightarrow> turn_row_of d sid k = Some x \<longrightarrow> turn_row_of d1 sid k = Some x"
      using proj [of sid k x] ok turns e u by (simp add: turn_row_of_def)
    moreover have "tr_status (update_turn_row sid (se_at e) u head) = Preparing"
      using u home by (simp add: update_turn_row_def)
    ultimately show ?thesis by blast
  qed
  then show "\<exists>row'. turn_row_of d1 sid (tr_id head) = Some row' \<and> tr_status row' = Preparing"
    "k \<noteq> tr_id head \<Longrightarrow> turn_row_of d sid k = Some x \<Longrightarrow> turn_row_of d1 sid k = Some x" by blast+
qed

text \<open>A claim hands over exactly one lease. The turn it returns works in the session
  afterwards under this worker and token for the next sixty seconds, whether it was started or
  recovered.\<close>

theorem claim_grants_lease:
  assumes "claim now worker sid local token d = Inr (Some c, d')" and "turn_constraints (db_turns d)"
  shows "\<exists>row. turn_row_of d' sid (t_id (cl_turn c)) = Some row \<and> is_active_turn_status (tr_status row) \<and>
    tr_lease_owner row = Some worker \<and> tr_lease_token row = Some token \<and>
    tr_lease_expires_at row = Some (now + 60000) \<and> cl_token c = token"
  using assms(1)
proof (cases rule: claim_cases)
  case (recovered row)
  from lapsed_turn_facts [OF recovered(1)] constraints_row [OF assms(2), of row]
  have "turn_row_of d sid (tr_id row) = Some row" "is_active_turn_status (tr_status row)" by auto
  with recovered show ?thesis by (simp add: lease_row turn_from_row_def LEASE_SECONDS_def)
next
  case (started head stored d1)
  note facts = queue_head_facts [OF started(3)]
  from constraints_row [OF assms(2) facts(1)] facts(2) have row: "turn_row_of d sid (tr_id head) = Some head" by simp
  have queued: "tr_status head = Queued" using facts(3) by (simp add: due_def)
  have "t_id (starting_turn now head) = tr_id head" by (simp add: starting_turn_def turn_from_row_def)
  with started started_row(1) [OF started(4) assms(2) row facts(2) queued] show ?thesis by (auto simp: lease_row LEASE_SECONDS_def)
qed simp

section \<open>A queue that moves\<close>

lemma upsert_as_update:
  "unique_keys key xs \<Longrightarrow> key r \<in> key ` set xs \<Longrightarrow> upsert key upd r xs = update_where (\<lambda>x. key x = key r) upd xs"
proof (induction xs)
  case (Cons x xs)
  show ?case
  proof (cases "key x = key r")
    case True
    with Cons.prems(1) have "key r \<notin> key ` set xs" by (simp add: unique_keys_def)
    then have "y \<in> set xs \<Longrightarrow> key y \<noteq> key r" for y by (metis image_eqI)
    then have "update_where (\<lambda>x. key x = key r) upd xs = xs" by simp
    with True show ?thesis by simp
  next
    case False
    with Cons show ?thesis by (auto simp: unique_keys_def)
  qed
qed simp

lemma constraints_start:
  assumes ok: "turn_constraints rows" and idle: "\<forall>r \<in> set rows. tr_session_id r = sid \<longrightarrow> \<not> is_active_turn_status (tr_status r)"
    and keep: "\<And>r. r \<in> set rows \<Longrightarrow> tr_id r = k \<Longrightarrow> tr_id (f r) = tr_id r \<and> tr_session_id (f r) = sid \<and>
      tr_session_id r = sid \<and> tr_ordinal (f r) = tr_ordinal r \<and> tr_continuation_of (f r) = tr_continuation_of r"
  shows "turn_constraints (update_where (\<lambda>r. tr_id r = k) f rows)"
proof -
  let ?new = "update_where (\<lambda>r. tr_id r = k) f rows"
  have same: "map g ?new = map g rows" if "\<And>r. r \<in> set rows \<Longrightarrow> tr_id r = k \<Longrightarrow> g (f r) = g r" for g :: "turn_row \<Rightarrow> 'x"
    using that by (rule map_update_where)
  have ids: "map tr_id ?new = map tr_id rows" using keep by (intro same) auto
  have ords: "map (\<lambda>r. (tr_session_id r, tr_ordinal r)) ?new = map (\<lambda>r. (tr_session_id r, tr_ordinal r)) rows"
    using keep by (intro same) auto
  have "map tr_continuation_of ?new = map tr_continuation_of rows" using keep by (intro same) auto
  then have "filter (\<lambda>c. c \<noteq> None) (map tr_continuation_of ?new) = filter (\<lambda>c. c \<noteq> None) (map tr_continuation_of rows)"
    by simp
  then have conts: "map tr_continuation_of (filter (\<lambda>r. tr_continuation_of r \<noteq> None) ?new) =
      map tr_continuation_of (filter (\<lambda>r. tr_continuation_of r \<noteq> None) rows)"
    by (simp add: filter_map comp_def)
  have dist: "distinct ?new" using ok ids unfolding turn_constraints_def by (metis distinct_map)
  have "inj_on tr_session_id (set (filter (\<lambda>r. is_active_turn_status (tr_status r)) ?new))"
  proof (rule inj_onI)
    fix a b assume a: "a \<in> set (filter (\<lambda>r. is_active_turn_status (tr_status r)) ?new)"
      and b: "b \<in> set (filter (\<lambda>r. is_active_turn_status (tr_status r)) ?new)" and eq: "tr_session_id a = tr_session_id b"
    from a b obtain x y where x: "x \<in> set rows" "a = (if tr_id x = k then f x else x)"
      and y: "y \<in> set rows" "b = (if tr_id y = k then f y else y)" by (auto simp: update_where_def)
    have old: "tr_session_id z \<noteq> sid" if "z \<in> set rows" "is_active_turn_status (tr_status z)" for z
      using idle that by blast
    have act: "is_active_turn_status (tr_status a)" "is_active_turn_status (tr_status b)" using a b by auto
    show "a = b"
    proof (cases "tr_session_id a = sid")
      case True
      have "tr_id x = k" using x old [of x] act(1) True by (auto simp del: active_statuses split: if_splits)
      moreover have "tr_id y = k" using y old [of y] act(2) True eq by (auto simp del: active_statuses split: if_splits)
      ultimately have "x = y" using ok x(1) y(1) by (auto simp: turn_constraints_def distinct_map dest: inj_onD)
      with x y show ?thesis by simp
    next
      case False
      then have "a = x" "b = y" using x y keep [of x] keep [of y] eq by (auto split: if_splits)
      with x y act eq constraints_one_active [OF ok x(1) y(1)] show ?thesis by simp
    qed
  qed
  with dist have "distinct (map tr_session_id (filter (\<lambda>r. is_active_turn_status (tr_status r)) ?new))"
    by (simp add: distinct_map)
  with ok ids ords conts show ?thesis unfolding turn_constraints_def by simp
qed

lemma append_start_succeeds:
  assumes "\<forall>s. log_wf s d" and "session_row_of d sid \<noteq> None" and ok: "turn_constraints (db_turns d)"
    and idle: "\<not> session_busy d sid" and head: "head \<in> set (db_turns d)" "tr_session_id head = sid" "tr_status head = Queued"
  shows "\<exists>stored d'. append_events now sid None [TurnChanged (starting_turn now head)] d = Inr (stored, d')"
proof -
  let ?t = "starting_turn now head" and ?n = "Suc (latest_sequence d sid)"
  have t: "t_id ?t = tr_id head" "t_status ?t = Preparing" "t_continuation_of ?t = tr_continuation_of head"
    by (simp_all add: starting_turn_def turn_from_row_def)
  have row: "turn_row_of d sid (tr_id head) = Some head" using constraints_row [OF ok head(1)] head(2) by simp
  obtain u where u: "current_turns d sid [TurnChanged ?t] = [TurnChanged u]" "t_id u = tr_id head"
      "t_continuation_of u = tr_continuation_of head"
    using row t head(3) by (cases "tr_cancellation_requested_at head = None")
      (auto simp: current_turns_def current_turn_def starting_turn_def)
  define e where "e = \<lparr>se_session_id = sid, se_sequence = ?n, se_at = now, se_command_id = None, se_event = TurnChanged u\<rparr>"
  obtain srow where srow: "session_row_of d sid = Some srow" using assms(2) by auto
  let ?d0 = "set_sequence sid (latest_sequence d sid + 1) d"
  have "event_key e \<notin> set (map event_key (db_events ?d0))"
  proof
    assume "event_key e \<in> set (map event_key (db_events ?d0))"
    then obtain x where "x \<in> set (db_events d)" "se_session_id x = sid" "se_sequence x = ?n"
      by (auto simp: event_key_def e_def)
    with log_wf_bound [of sid d x] assms(1) show False by (auto simp: events_of_def)
  qed
  then have ins: "insert_batches 0 [e] ?d0 = Inr (?d0\<lparr>db_events := db_events d @ [e]\<rparr>)"
    using insert_batches_eval [of "[e]" ?d0] by (simp add: storable_def)
  let ?upd = "update_turn_row sid now u"
  have "upsert tr_id ?upd (new_turn_row now sid now u) (db_turns d) = update_where (\<lambda>r. tr_id r = tr_id head) ?upd (db_turns d)"
    using upsert_as_update [of tr_id "db_turns d" "new_turn_row now sid now u" ?upd] turn_constraints_unique [OF ok] head(1) u(2)
    by (simp add: new_turn_row_def)
  moreover have "turn_constraints (update_where (\<lambda>r. tr_id r = tr_id head) ?upd (db_turns d))"
  proof (rule constraints_start [OF ok])
    show "\<forall>r \<in> set (db_turns d). tr_session_id r = sid \<longrightarrow> \<not> is_active_turn_status (tr_status r)"
      using idle by (auto simp: session_busy_def simp del: active_statuses)
    fix r assume r: "r \<in> set (db_turns d)" "tr_id r = tr_id head"
    then have "r = head" using ok head(1) by (auto simp: turn_constraints_def distinct_map dest: inj_onD)
    then show "tr_id (?upd r) = tr_id r \<and> tr_session_id (?upd r) = sid \<and> tr_session_id r = sid \<and>
        tr_ordinal (?upd r) = tr_ordinal r \<and> tr_continuation_of (?upd r) = tr_continuation_of r"
      using head(2) u(3) by (simp add: update_turn_row_def)
  qed
  ultimately have "\<exists>d'. persist now [e] ?d0 = Inr d'"
    unfolding persist_def ins by (simp add: project_def constrained_def project_turn_def e_def)
  then show ?thesis using u(1) srow
    by (auto simp: append_events_def append_locked_def Let_def e_def latest_sequence_def)
qed

text \<open>Property C15: the queue moves, in its order. When nothing works in a session, no rollback or
  maintenance blocks it, and some queued turn is due, a claim always succeeds. It takes the head of the
  queue: a turn that is due, with every other due turn of the session after it by priority, creation and
  ordinal. That turn is preparing afterwards and leased to the claimer, under the claim's token, for the
  next sixty seconds; no other turn of the session changes.\<close>

theorem claim_starts_due_turn:
  assumes "\<forall>s. log_wf s d" and "session_row_of d sid \<noteq> None" and "turn_constraints (db_turns d)"
    and "\<not> session_busy d sid" and "\<not> session_blocked now local d sid"
    and "r \<in> set (db_turns d)" and "tr_session_id r = sid" and "due now d r"
  shows "\<exists>c d' head row. claim now worker sid local token d = Inr (Some c, d') \<and>
    c = \<lparr>cl_turn = starting_turn now head, cl_token = token, cl_recovered = False\<rparr> \<and>
    head \<in> set (db_turns d) \<and> tr_session_id head = sid \<and> due now d head \<and>
    (\<forall>other \<in> set (db_turns d). tr_session_id other = sid \<and> due now d other \<longrightarrow> other = head \<or> queue_order head other) \<and>
    turn_row_of d' sid (tr_id head) = Some row \<and> tr_status row = Preparing \<and> tr_lease_owner row = Some worker \<and>
    tr_lease_token row = Some token \<and> tr_lease_expires_at row = Some (now + 60000) \<and>
    (\<forall>k other. k \<noteq> tr_id head \<and> turn_row_of d sid k = Some other \<longrightarrow> turn_row_of d' sid k = Some other)"
proof -
  have lapsed: "lapsed_turn now local d sid = None"
    using assms(4) lapsed_turn_facts [of now local d sid] unfolding session_busy_def
    by (cases "lapsed_turn now local d sid") blast+
  have "r \<in> set (filter (due now d) (eligible now local d sid))"
    using assms(5-8) by (simp add: eligible_def)
  then have "sort_key (\<lambda>r. - tr_priority r) (sort_key tr_created_at (sort_key tr_ordinal
      (filter (due now d) (eligible now local d sid)))) \<noteq> []"
    by (metis length_0_conv length_pos_if_in_set length_sort less_numeral_extra(3))
  then obtain head where head: "queue_head now local d sid = Some head"
    by (cases "sort_key (\<lambda>r. - tr_priority r) (sort_key tr_created_at (sort_key tr_ordinal
      (filter (due now d) (eligible now local d sid))))") (simp_all add: queue_head_def)
  note facts = queue_head_facts [OF head]
  have queued: "tr_status head = Queued" using facts(3) by (simp add: due_def)
  from append_start_succeeds [OF assms(1-4) facts(1,2) queued, of now] obtain stored d1 where
    app: "append_events now sid None [TurnChanged (starting_turn now head)] d = Inr (stored, d1)" by blast
  from constraints_row [OF assms(3) facts(1)] facts(2) have home: "turn_row_of d sid (tr_id head) = Some head" by simp
  note after = started_row [OF app assms(3) home facts(2) queued]
  from after(1) obtain row where row: "turn_row_of d1 sid (tr_id head) = Some row" "tr_status row = Preparing" by blast
  let ?d' = "lease now (tr_id head) worker token d1"
  let ?row = "row\<lparr>tr_lease_owner := Some worker, tr_lease_token := Some token, tr_lease_expires_at := Some (now + 60000)\<rparr>"
  have "claim now worker sid local token d =
      Inr (Some \<lparr>cl_turn = starting_turn now head, cl_token = token, cl_recovered = False\<rparr>, ?d')"
    using lapsed head assms(4) app by (simp add: claim_def)
  moreover have "turn_row_of ?d' sid (tr_id head) = Some ?row" using row(1) by (simp add: lease_row LEASE_SECONDS_def)
  moreover have "\<forall>k other. k \<noteq> tr_id head \<and> turn_row_of d sid k = Some other \<longrightarrow> turn_row_of ?d' sid k = Some other"
    using after(2) by (simp add: lease_row)
  ultimately show ?thesis using facts(1-3,5) row(2)
    by (intro exI [of _ "\<lparr>cl_turn = starting_turn now head, cl_token = token, cl_recovered = False\<rparr>"] exI [of _ ?d'] exI [of _ head]
      exI [of _ ?row]) simp
qed

section \<open>Fencing\<close>

text \<open>
  What a process may rely on of leases: whatever it does under a token that is no longer the
  turn's does nothing, and what other holders do never gives its token back.
\<close>

locale fenced =
  fixes token :: "'s \<Rightarrow> 'k \<Rightarrow> 't option"
    and act :: "'a \<Rightarrow> 'k \<Rightarrow> 't \<Rightarrow> 's \<Rightarrow> 's"
    and ok :: "'s \<Rightarrow> bool"
  assumes act_stale: "ok s \<Longrightarrow> token s k \<noteq> Some t \<Longrightarrow> act a k t s = s"
    and act_token: "ok s \<Longrightarrow> token (act a k t s) = token s"
    and act_ok: "ok s \<Longrightarrow> ok (act a k t s)"
begin

fun acts :: "('a \<times> 'k \<times> 't) list \<Rightarrow> 's \<Rightarrow> 's" where
  "acts [] s = s"
| "acts ((a, k, t) # rest) s = acts rest (act a k t s)"

lemma acts_token: "ok s \<Longrightarrow> token (acts as s) = token s \<and> ok (acts as s)"
  by (induction as s rule: acts.induct) (simp_all add: act_token act_ok)

lemma superseded: "ok s \<Longrightarrow> token s k \<noteq> Some t \<Longrightarrow> act a k t (acts as s) = acts as s"
  using act_stale acts_token by metis

end

definition turn_token :: "db \<Rightarrow> ident \<Rightarrow> ident option" where
  "turn_token d tid =
     (case find_row tr_id tid (db_turns d) of None \<Rightarrow> None | Some r \<Rightarrow> tr_lease_token r)"

datatype holder_act = HandsBack instant | Renews instant ident

fun holder_acts :: "holder_act \<Rightarrow> ident \<Rightarrow> ident \<Rightarrow> db \<Rightarrow> db" where
  "holder_acts (HandsBack now) tid token d = hand_back now tid token d"
| "holder_acts (Renews now worker) tid token d = snd (renew_held now worker [(tid, token)] d)"

lemma holder_acts_update:
  "\<exists>p f. holder_acts a tid token d = d\<lparr>db_turns := update_where p f (db_turns d)\<rparr> \<and>
     (\<forall>r. p r \<longrightarrow> tr_id r = tid \<and> tr_lease_token r = Some token) \<and>
     (\<forall>r. tr_id (f r) = tr_id r \<and> tr_lease_token (f r) = tr_lease_token r)"
proof (cases a)
  case (HandsBack now)
  show ?thesis unfolding HandsBack holder_acts.simps hand_back_def
    by (rule exI, rule exI, rule conjI [OF refl]) simp
next
  case (Renews now worker)
  show ?thesis unfolding Renews holder_acts.simps renew_held_def
    by (simp, rule exI, rule exI, rule conjI [OF refl]) (auto simp: renews_def)
qed

interpretation leases: fenced turn_token holder_acts "\<lambda>d. unique_keys tr_id (db_turns d)"
proof
  fix d :: db and k t a assume ok: "unique_keys tr_id (db_turns d)"
  obtain p f where u: "holder_acts a k t d = d\<lparr>db_turns := update_where p f (db_turns d)\<rparr>"
    and p: "\<And>r. p r \<Longrightarrow> tr_id r = k \<and> tr_lease_token r = Some t"
    and f: "\<And>r. tr_id (f r) = tr_id r \<and> tr_lease_token (f r) = tr_lease_token r"
    using holder_acts_update [of a k t d] by blast
  show "holder_acts a k t d = d" if "turn_token d k \<noteq> Some t"
  proof -
    have "\<not> p r" if "r \<in> set (db_turns d)" for r
      using p [of r] find_row_unique [OF ok that] \<open>turn_token d k \<noteq> Some t\<close> by (auto simp: turn_token_def)
    then show ?thesis using u by simp
  qed
  show "turn_token (holder_acts a k t d) = turn_token d"
    unfolding u by (rule ext) (auto simp: turn_token_def find_row_update_where f split: option.splits)
  show "unique_keys tr_id (db_turns (holder_acts a k t d))"
    unfolding u using ok f by (auto intro: unique_keys_update_where)
qed

text \<open>The turn a claim hands out carries the claim's token, and another token owns nothing of it.\<close>

lemma claim_gives_token:
  assumes "claim now worker sid local tok d = Inr (Some c, d')" and "turn_constraints (db_turns d)"
    and "tid = t_id (cl_turn c)"
  shows "unique_keys tr_id (db_turns d')" and "turn_token d' tid = Some tok"
proof -
  from claim_constraints [OF assms(1,2)] show ok: "unique_keys tr_id (db_turns d')"
    by (simp add: turn_constraints_unique)
  from claim_grants_lease [OF assms(1,2)] assms(3) obtain row where
    row: "turn_row_of d' sid tid = Some row" "tr_lease_token row = Some tok" by auto
  then have "row \<in> set (db_turns d')" "tr_id row = tid" by (auto simp: turn_row_of_def dest!: find_row_Some)
  with find_row_unique [OF ok this(1)] row(2) show "turn_token d' tid = Some tok"
    by (simp add: turn_token_def)
qed

lemma superseded_owns_nothing:
  assumes "unique_keys tr_id (db_turns d)" and "turn_token d tid = Some tok" and "old \<noteq> tok"
  shows "\<not> owns now tid old (leases.acts as d)"
proof -
  from leases.acts_token [OF assms(1), of as] assms(2)
  have later: "turn_token (leases.acts as d) tid = Some tok" "unique_keys tr_id (db_turns (leases.acts as d))" by auto
  show ?thesis using later assms(3) find_row_unique [OF later(2)] by (fastforce simp: owns_def turn_token_def)
qed

text \<open>A holder that was replaced can do no harm. After a claim recovers a turn under a
  new token, and whatever hand backs and renewals any holders attempt meanwhile, the old token
  owns nothing, and renewing or handing back under it changes nothing.\<close>

theorem replaced_holder_fenced:
  assumes "claim now worker sid local token d = Inr (Some c, d')" and "turn_constraints (db_turns d)"
    and "old \<noteq> token" and "tid = t_id (cl_turn c)"
  shows "\<not> owns now' tid old (leases.acts as d') \<and>
    holder_acts a tid old (leases.acts as d') = leases.acts as d'"
proof -
  note tok = claim_gives_token [OF assms(1,2,4)]
  with assms(3) have "turn_token d' tid \<noteq> Some old" by simp
  from leases.superseded [OF tok(1) this] superseded_owns_nothing [OF tok assms(3)] show ?thesis by blast
qed

section \<open>Witnesses\<close>

lemmas queue_eval = claim_def lapsed_turn_def eligible_def session_blocked_def after_now_def
  lease_lapsed_def session_busy_def queue_head_def due_def waits_behind_def HOLD_BLOCKS_QUEUE_SECONDS_def
  LEASE_SECONDS_def starting_turn_def turn_from_row_def checkpoint_from_row_def lease_def ex_running_db_def

definition ex_queue :: db where
  "ex_queue = ex_running_db [ex_turn_row ''a'' 1 Held, ex_turn_row ''b'' 2 Queued,
     (ex_turn_row ''c'' 3 Queued)\<lparr>tr_priority := 1\<rparr>]"

lemma ex_queue_ok: "turn_constraints (db_turns ex_queue)" "\<forall>s. log_wf s ex_queue" "session_row_of ex_queue ''s'' \<noteq> None"
  by (simp_all add: ex_queue_def ex_running_db_def turn_constraints_def log_wf_def events_of_def session_row_of_def
      sr_id_def fixtures)

lemma ex_queue_claim: "\<exists>c d'. claim 5 ''w'' ''s'' None ''tok'' ex_queue = Inr (Some c, d') \<and>
    \<not> cl_recovered c \<and> t_id (cl_turn c) = ''c''"
  by (simp add: ex_queue_def queue_eval log_eval)

theorem claim_takes_head_witness:
  "\<exists>c d' head. claim 5 ''w'' ''s'' None ''tok'' ex_queue = Inr (Some c, d') \<and> head \<in> set (db_turns ex_queue) \<and>
     t_id (cl_turn c) = tr_id head \<and> tr_status head = Queued"
proof -
  obtain c d' where run: "claim 5 ''w'' ''s'' None ''tok'' ex_queue = Inr (Some c, d')" "\<not> cl_recovered c"
    using ex_queue_claim by blast
  from claim_takes_head [OF run] run show ?thesis by blast
qed

theorem claim_starts_due_turn_witness:
  "\<exists>c d' row. claim 5 ''w'' ''s'' None ''tok'' ex_queue = Inr (Some c, d') \<and> t_id (cl_turn c) = ''c'' \<and>
     turn_row_of d' ''s'' ''c'' = Some row \<and> tr_status row = Preparing \<and> tr_lease_expires_at row = Some 60005"
proof -
  have "\<exists>c d' head row. claim 5 ''w'' ''s'' None ''tok'' ex_queue = Inr (Some c, d') \<and>
    c = \<lparr>cl_turn = starting_turn 5 head, cl_token = ''tok'', cl_recovered = False\<rparr> \<and>
    head \<in> set (db_turns ex_queue) \<and> tr_session_id head = ''s'' \<and> due 5 ex_queue head \<and>
    (\<forall>other \<in> set (db_turns ex_queue). tr_session_id other = ''s'' \<and> due 5 ex_queue other \<longrightarrow> other = head \<or> queue_order head other) \<and>
    turn_row_of d' ''s'' (tr_id head) = Some row \<and> tr_status row = Preparing \<and> tr_lease_owner row = Some ''w'' \<and>
    tr_lease_token row = Some ''tok'' \<and> tr_lease_expires_at row = Some (5 + 60000) \<and>
    (\<forall>k other. k \<noteq> tr_id head \<and> turn_row_of ex_queue ''s'' k = Some other \<longrightarrow> turn_row_of d' ''s'' k = Some other)"
    by (rule claim_starts_due_turn [OF ex_queue_ok(2,3,1), of _ _ "(ex_turn_row ''c'' 3 Queued)\<lparr>tr_priority := 1\<rparr>"])
      (simp_all add: ex_queue_def ex_running_db_def session_busy_def session_blocked_def due_def waits_behind_def
        after_now_def sr_id_def fixtures)
  then obtain c d' head row where run: "claim 5 ''w'' ''s'' None ''tok'' ex_queue = Inr (Some c, d')"
    "c = \<lparr>cl_turn = starting_turn 5 head, cl_token = ''tok'', cl_recovered = False\<rparr>"
    "turn_row_of d' ''s'' (tr_id head) = Some row" "tr_status row = Preparing" "tr_lease_expires_at row = Some (5 + 60000)" by metis
  have "t_id (cl_turn c) = tr_id head" unfolding run(2) by (simp add: starting_turn_def turn_from_row_def)
  moreover have "t_id (cl_turn c) = ''c''" using ex_queue_claim run(1) by auto
  ultimately have "tr_id head = ''c''" by simp
  with run \<open>t_id (cl_turn c) = ''c''\<close> show ?thesis by auto
qed

theorem claim_grants_lease_witness:
  "\<exists>c d' row. claim 5 ''w'' ''s'' None ''tok'' ex_queue = Inr (Some c, d') \<and>
     turn_row_of d' ''s'' (t_id (cl_turn c)) = Some row \<and> tr_lease_expires_at row = Some 60005"
proof -
  obtain c d' where run: "claim 5 ''w'' ''s'' None ''tok'' ex_queue = Inr (Some c, d')"
    using ex_queue_claim by blast
  from claim_grants_lease [OF run ex_queue_ok(1)] run show ?thesis by auto
qed

definition ex_leased :: turn_row where
  "ex_leased = (ex_turn_row ''t'' 1 Running)\<lparr>tr_lease_owner := Some ''w'', tr_lease_token := Some ''tok'',
     tr_lease_expires_at := Some 50\<rparr>"

theorem live_lease_excludes_claims_witness:
  "claim 20 ''x'' ''s'' None ''tok2'' (ex_running_db [ex_leased]) = Inr (None, ex_running_db [ex_leased])"
  by (rule live_lease_excludes_claims [where r = ex_leased and x = 50])
    (simp_all add: ex_leased_def ex_running_db_def turn_constraints_def fixtures)

theorem replaced_holder_fenced_witness:
  "\<exists>c d'. claim 90 ''x'' ''s'' None ''tok2'' (ex_running_db [ex_leased]) = Inr (Some c, d') \<and>
     \<not> owns 91 ''t'' ''tok'' (leases.acts [(Renews 90 ''w'', ''t'', ''tok'')] d')"
proof -
  let ?d = "ex_running_db [ex_leased]"
  have "\<exists>c d'. claim 90 ''x'' ''s'' None ''tok2'' ?d = Inr (Some c, d') \<and> t_id (cl_turn c) = ''t''"
    by (simp add: queue_eval ex_leased_def fixtures sr_id_def)
  then obtain c d' where run: "claim 90 ''x'' ''s'' None ''tok2'' ?d = Inr (Some c, d')" and t: "''t'' = t_id (cl_turn c)"
    by auto
  have "turn_constraints (db_turns ?d)" by (simp add: ex_leased_def ex_running_db_def turn_constraints_def fixtures)
  from replaced_holder_fenced [OF run this _ t, of "''tok''" 91 "[(Renews 90 ''w'', ''t'', ''tok'')]"] run
  show ?thesis by blast
qed

end
