(* ===== verification/Request_Policy.thy ===== *)
theory Request_Policy
  imports Session_Rows
begin

text \<open>
  Who answers a chat's approvals, \<open>packages/core/src/services/sessions/request-policy.ts\<close>.
  \<open>policy_source\<close> is the row the query joins (session, project, allocation) and \<open>members\<close> the
  project's memberships. zod keeps the fields a schema names and refuses a value of another
  shape. A wait is a JSON number of minutes; \<open>new Date\<close> drops the fraction of a millisecond.
\<close>

section \<open>What the session and its allocation declare\<close>

definition ATTENDED_APPROVAL_MS :: int where "ATTENDED_APPROVAL_MS = 5 * 60000"
definition UNATTENDED_APPROVAL_MS :: int where "UNATTENDED_APPROVAL_MS = 30 * 60000"

record policy_source =
  ps_tenant_id :: ident
  ps_owner :: ident
  ps_project_id :: ident
  ps_chat_title :: "string option"
  ps_approvers :: json
  ps_policy_snapshot :: json

record membership =
  mb_user :: ident
  mb_roles :: json

record approval_policy =
  ap_tenant_id :: ident
  ap_project_id :: ident
  ap_title :: "string option"
  ap_unattended :: bool
  ap_approvers :: "ident list"
  ap_wait_ms :: rat

definition PROJECT_PRINCIPAL_ID :: ident where "PROJECT_PRINCIPAL_ID = ''catamorphic:project''"

definition is_project_principal :: "ident \<Rightarrow> bool" where
  "is_project_principal user \<longleftrightarrow> user = PROJECT_PRINCIPAL_ID"

text \<open>\<open>z.array(z.string()).optional()\<close> of a member: \<open>None\<close> when refused.\<close>

fun all_strings :: "json list \<Rightarrow> string list option" where
  "all_strings [] = Some []"
| "all_strings (JStr s # vs) = map_option (\<lambda>ss. s # ss) (all_strings vs)"
| "all_strings _ = None"

definition optional_strings :: "json_object \<Rightarrow> string \<Rightarrow> string list option option" where
  "optional_strings obj field =
     (case map_of obj field of
        None \<Rightarrow> Some None
      | Some (JArr vs) \<Rightarrow> map_option Some (all_strings vs)
      | Some _ \<Rightarrow> None)"

text \<open>\<open>approversSchema\<close>: the named members and roles.\<close>

definition parse_approvers :: "json \<Rightarrow> (string list option \<times> string list option) option" where
  "parse_approvers v =
     (case v of
        JObj obj \<Rightarrow>
          (case (optional_strings obj ''members'', optional_strings obj ''roles'') of
             (Some members, Some roles) \<Rightarrow> Some (members, roles)
           | _ \<Rightarrow> None)
      | _ \<Rightarrow> None)"

text \<open>\<open>allocationApprovalsSchema\<close>: the minutes an Environment waits, when it says.\<close>

definition parse_wait_minutes :: "json \<Rightarrow> rat option" where
  "parse_wait_minutes v =
     (case v of
        JObj obj \<Rightarrow>
          (case map_of obj ''approvals'' of
             Some (JObj approvals) \<Rightarrow>
               (case map_of approvals ''waitMinutes'' of Some (JNum (Finite r)) \<Rightarrow> Some r | _ \<Rightarrow> None)
           | _ \<Rightarrow> None)
      | _ \<Rightarrow> None)"

definition holds_role :: "string list \<Rightarrow> membership \<Rightarrow> bool" where
  "holds_role roles m =
     (case mb_roles m of
        JArr vs \<Rightarrow> \<exists>v \<in> set vs. (case v of JStr s \<Rightarrow> s \<in> set roles | _ \<Rightarrow> False)
      | _ \<Rightarrow> False)"

definition listed :: "string list option \<Rightarrow> string list" where
  "listed xs = (case xs of None \<Rightarrow> [] | Some ys \<Rightarrow> ys)"

definition approval_policy :: "membership list \<Rightarrow> policy_source \<Rightarrow> approval_policy" where
  "approval_policy members src =
     (let declared = (if ps_approvers src = JNull then None else parse_approvers (ps_approvers src));
          wait = parse_wait_minutes (ps_policy_snapshot src);
          owner = ps_owner src;
          unattended = (is_project_principal owner \<or> declared \<noteq> None);
          roles = (case declared of None \<Rightarrow> [] | Some (_, rs) \<Rightarrow> listed rs);
          holders = (if roles = [] then [] else map mb_user (filter (holds_role roles) members));
          named = (case declared of None \<Rightarrow> [] | Some (ms, _) \<Rightarrow> listed ms);
          approvers = (if unattended
            then sort (remdups ((if is_project_principal owner then [] else [owner]) @ named @ holders))
            else [])
      in \<lparr>ap_tenant_id = ps_tenant_id src, ap_project_id = ps_project_id src,
          ap_title = ps_chat_title src, ap_unattended = unattended, ap_approvers = approvers,
          ap_wait_ms =
            (if \<not> unattended then of_int ATTENDED_APPROVAL_MS
             else case wait of
                None \<Rightarrow> of_int UNATTENDED_APPROVAL_MS
              | Some m \<Rightarrow> if m = 0 then of_int UNATTENDED_APPROVAL_MS else m * 60000)\<rparr>)"

section \<open>An approval under its policy\<close>

definition truncate :: "rat \<Rightarrow> int" where
  "truncate x = (if 0 \<le> x then \<lfloor>x\<rfloor> else \<lceil>x\<rceil>)"

definition approval_action :: "runtime_request \<Rightarrow> string" where
  "approval_action request =
     (case r_approval request of
        None \<Rightarrow> r_title request
      | Some ask \<Rightarrow>
          (case aa_tool ask of
             None \<Rightarrow> aa_action ask
           | Some tool \<Rightarrow>
               CHR 0x22 # at_name tool @ CHR 0x22 # '' on '' @
               (case at_server tool of None \<Rightarrow> ''this agent'' | Some server \<Rightarrow> server)))"

definition refusal_text :: "runtime_request \<Rightarrow> string" where
  "refusal_text request =
     approval_action request @ '' needs a person'' @ CHR 0x27 # ''s approval, and no one watches this chat. '' @
     ''The automation that delivers into it can name approvers (members or project roles).''"

definition govern_approval ::
  "instant \<Rightarrow> approval_policy \<Rightarrow> runtime_request \<Rightarrow> runtime_request \<times> string option"
where
  "govern_approval now policy request =
     (if ap_unattended policy \<and> ap_approvers policy = []
      then (request\<lparr>r_status := RCancelled, r_answerable := False, r_reason := Some (refusal_text request),
              r_resolved_at := Some now\<rparr>, Some (refusal_text request))
      else (request\<lparr>r_approvers := ap_approvers policy,
              r_expires_at := Some (truncate (of_int now + ap_wait_ms policy))\<rparr>, None))"

fun decimal :: "nat \<Rightarrow> string" where
  "decimal n = (if n < 10 then [char_of (48 + n)] else decimal (n div 10) @ [char_of (48 + n mod 10)])"

declare decimal.simps [simp del]

text \<open>\<open>Math.round\<close>: halves go up.\<close>

definition waited_minutes :: "runtime_request \<Rightarrow> nat" where
  "waited_minutes request =
     (let created = r_created_at request;
          expires = (case r_expires_at request of None \<Rightarrow> created | Some e \<Rightarrow> e)
      in nat (max 1 \<lfloor>rat_of_int (expires - created) / 60000 + 1 / 2\<rfloor>))"

definition expired_approval_reason :: "runtime_request \<Rightarrow> string" where
  "expired_approval_reason request =
     ''No one answered the approval for '' @
     (case r_approval request of
        Some ask \<Rightarrow> (case aa_tool ask of Some tool \<Rightarrow> at_name tool | None \<Rightarrow> r_title request)
      | None \<Rightarrow> r_title request) @
     '' within '' @ decimal (waited_minutes request) @ '' minutes, so it was not run.''"

section \<open>No approval waits for nobody\<close>

lemma approvers_exact:
  "set (ap_approvers (approval_policy members src)) =
     (if ap_unattended (approval_policy members src)
      then (if is_project_principal (ps_owner src) then {} else {ps_owner src}) \<union>
        (case parse_approvers (ps_approvers src) of
           None \<Rightarrow> {}
         | Some (ms, rs) \<Rightarrow> set (listed ms) \<union> {mb_user m |m. m \<in> set members \<and> holds_role (listed rs) m})
      else {})"
proof -
  have none: "\<not> holds_role [] m" for m by (auto simp: holds_role_def split: json.splits)
  have null: "parse_approvers JNull = None" by (simp add: parse_approvers_def)
  show ?thesis
    by (auto simp: approval_policy_def Let_def null none split: option.splits if_splits)
qed

lemma wait_positive:
  "(case parse_wait_minutes (ps_policy_snapshot src) of None \<Rightarrow> True | Some m \<Rightarrow> 0 \<le> m) \<Longrightarrow>
   0 < ap_wait_ms (approval_policy members src)"
  by (auto simp: approval_policy_def Let_def ATTENDED_APPROVAL_MS_def UNATTENDED_APPROVAL_MS_def split: option.splits)

text \<open>No approval waits for nobody. An approval opened under a chat's policy either stays
  open, with a moment it expires at, for the person in the chat or for exactly the people who
  may answer an unattended one (its own person, the named members and the holders of the named
  roles), of whom there is at least one; or it is closed at once, says why, and can no longer
  be answered.\<close>

theorem approval_has_someone:
  fixes members :: "membership list" and src :: policy_source
  assumes "r_status request = RPending"
  defines "policy \<equiv> approval_policy members src"
  shows "case govern_approval now policy request of
       (governed, None) \<Rightarrow> r_status governed = RPending \<and> r_answerable governed = r_answerable request \<and>
         r_expires_at governed \<noteq> None \<and>
         (if ap_unattended policy
          then r_approvers governed \<noteq> [] \<and> distinct (r_approvers governed) \<and>
            (\<forall>u \<in> set (r_approvers governed).
               u = ps_owner src \<and> \<not> is_project_principal u \<or>
               (\<exists>ms rs. parse_approvers (ps_approvers src) = Some (ms, rs) \<and>
                  (u \<in> set (listed ms) \<or> (\<exists>m \<in> set members. mb_user m = u \<and> holds_role (listed rs) m))))
          else r_approvers governed = [])
     | (governed, Some reason) \<Rightarrow> ap_unattended policy \<and> is_project_principal (ps_owner src) \<and>
         r_status governed = RCancelled \<and> \<not> r_answerable governed \<and> r_reason governed = Some reason"
proof (cases "ap_unattended policy \<and> ap_approvers policy = []")
  case True
  moreover have "is_project_principal (ps_owner src)"
    using True approvers_exact [of members src] by (auto simp: policy_def split: if_splits)
  ultimately show ?thesis by (simp add: govern_approval_def)
next
  case False
  have "u = ps_owner src \<and> \<not> is_project_principal u \<or>
      (\<exists>ms rs. parse_approvers (ps_approvers src) = Some (ms, rs) \<and>
         (u \<in> set (listed ms) \<or> (\<exists>m \<in> set members. mb_user m = u \<and> holds_role (listed rs) m)))"
    if "u \<in> set (ap_approvers policy)" for u
    using that unfolding policy_def approvers_exact by (auto split: if_splits option.splits)
  moreover have "distinct (ap_approvers policy)"
    by (simp add: policy_def approval_policy_def Let_def)
  moreover have "\<not> ap_unattended policy \<Longrightarrow> ap_approvers policy = []"
    by (simp add: policy_def approval_policy_def Let_def)
  ultimately show ?thesis using False assms(1) by (auto simp: govern_approval_def)
qed

definition ex_policy_source :: policy_source where
  "ex_policy_source = \<lparr>ps_tenant_id = ''t'', ps_owner = PROJECT_PRINCIPAL_ID, ps_project_id = ''p'',
     ps_chat_title = None, ps_approvers = JObj [(''roles'', JArr [JStr ''admin''])], ps_policy_snapshot = JNull\<rparr>"

definition ex_approval :: runtime_request where
  "ex_approval = \<lparr>r_id = ''r'', r_session_id = ''s'', r_turn_id = Some ''t'', r_attempt_id = Some ''a'',
     r_item_id = None, r_kind = KApproval, r_status = RPending, r_answerable = True, r_blocking = True,
     r_title = ''Run it'', r_description = None, r_origin = \<lparr>ro_kind = OTool, ro_id = ''x'', ro_display_name = None\<rparr>,
     r_questions = None, r_approval = None, r_elicitation = None, r_approvers = [], r_expires_at = None,
     r_response = None, r_resolved_by = None, r_reason = None, r_created_at = 0, r_resolved_at = None,
     r_runner_key = Some ''k''\<rparr>"

theorem approval_has_someone_witness:
  "r_status (fst (govern_approval 0 (approval_policy [\<lparr>mb_user = ''ann'', mb_roles = JArr [JStr ''admin'']\<rparr>] ex_policy_source) ex_approval)) = RPending \<and>
   r_approvers (fst (govern_approval 0 (approval_policy [\<lparr>mb_user = ''ann'', mb_roles = JArr [JStr ''admin'']\<rparr>] ex_policy_source) ex_approval)) = [''ann''] \<and>
   r_status (fst (govern_approval 0 (approval_policy [] ex_policy_source) ex_approval)) = RCancelled"
proof -
  let ?ann = "[\<lparr>mb_user = ''ann'', mb_roles = JArr [JStr ''admin'']\<rparr>]"
  have pending: "r_status ex_approval = RPending" by (simp add: ex_approval_def)
  have eval: "ap_unattended (approval_policy ms ex_policy_source)" for ms
    by (simp add: approval_policy_def ex_policy_source_def Let_def is_project_principal_def)
  have ann: "ap_approvers (approval_policy ?ann ex_policy_source) = [''ann'']"
    and none: "ap_approvers (approval_policy [] ex_policy_source) = []"
    by (simp_all add: approval_policy_def ex_policy_source_def Let_def is_project_principal_def
        parse_approvers_def optional_strings_def listed_def holds_role_def)
  from approval_has_someone [OF pending, where now = 0 and members = ?ann and src = ex_policy_source]
    approval_has_someone [OF pending, where now = 0 and members = "[]" and src = ex_policy_source] eval ann none
  show ?thesis by (auto simp: govern_approval_def split: if_splits)
qed

end
