(* ===== verification/Activity.thy ===== *)
theory Activity
  imports Session_Rows
begin

text \<open>
  The live line of a turn, \<open>packages/agent-protocol/src/activity.ts\<close>: what an item a harness works
  on says while it does, and how any text becomes one line. The ellipsis U+2026 has no \<open>char\<close>: it is
  the parameter \<open>ellipsis\<close>, one code unit. \<open>commandActivity\<close> splits at a separator with the
  whitespace around it and trims the segment; \<open>first_segment\<close> cuts at the separator alone, which
  the trim makes the same. An object literal also answers to the names of \<open>Object.prototype\<close>
  (a program called \<open>constructor\<close>); the table here does not.
\<close>

section \<open>One line of text\<close>

definition ACTIVITY_MAX :: nat where "ACTIVITY_MAX = 200"

lemma length_dropWhile_less [termination_simp]: "length (dropWhile p s) < Suc (length s)"
  by (simp add: le_imp_less_Suc length_dropWhile_le)

text \<open>\<open>text.replace(/\s+/g, " ")\<close>: every run of whitespace is one blank.\<close>

fun collapse :: "string \<Rightarrow> string" where
  "collapse [] = []"
| "collapse (c # s) =
     (if js_space c then CHR '' '' # collapse (dropWhile js_space s) else c # collapse s)"

text \<open>\<open>line.lastIndexOf(" ", max - 1)\<close>: the last blank at or before the index.\<close>

definition last_blank :: "string \<Rightarrow> nat \<Rightarrow> nat option" where
  "last_blank line i = find (\<lambda>k. line ! k = CHR '' '') (rev [0..<min (i + 1) (length line)])"

definition cut_at :: "nat \<Rightarrow> string \<Rightarrow> nat" where
  "cut_at mx line =
     (case last_blank line (mx - 1) of
        Some blank \<Rightarrow> if mx < 2 * blank then blank else mx - 1
      | None \<Rightarrow> mx - 1)"

definition activity_line :: "char \<Rightarrow> nat \<Rightarrow> string option \<Rightarrow> string option" where
  "activity_line ellipsis mx txt =
     (case txt of
        None \<Rightarrow> None
      | Some t \<Rightarrow>
          (let line = js_trim (collapse t) in
           if line = [] then None
           else if length line \<le> mx then Some line
           else Some (take (cut_at mx line) line @ [ellipsis])))"

section \<open>What a step says\<close>

definition described :: "char \<Rightarrow> string option \<Rightarrow> string option" where
  "described ellipsis txt =
     (case txt of
        None \<Rightarrow> None
      | Some t \<Rightarrow>
          if t = [] \<or> CHR ''\<newline>'' \<in> set (js_trim t) \<or> 120 < length t then None
          else activity_line ellipsis ACTIVITY_MAX (Some t))"

definition COMMAND_LABELS :: "(string \<times> string) list" where
  "COMMAND_LABELS =
     [(''sleep'', ''Waiting...''), (''find'', ''Searching files...''), (''grep'', ''Searching files...''),
      (''rg'', ''Searching files...''), (''ag'', ''Searching files...''), (''ls'', ''Looking around...''),
      (''tree'', ''Looking around...''), (''pwd'', ''Looking around...''), (''cat'', ''Reading files...''),
      (''head'', ''Reading files...''), (''tail'', ''Reading files...''), (''wc'', ''Reading files...''),
      (''mkdir'', ''Creating files...''), (''touch'', ''Creating files...''), (''cp'', ''Copying files...''),
      (''mv'', ''Moving files...''), (''git'', ''Working with git...''), (''curl'', ''Fetching a URL...''),
      (''wget'', ''Fetching a URL...''), (''make'', ''Building...''), (''cargo'', ''Building...''),
      (''tsc'', ''Building...''), (''npm'', ''Running scripts...''), (''npx'', ''Running scripts...''),
      (''pnpm'', ''Running scripts...''), (''yarn'', ''Running scripts...''), (''bun'', ''Running scripts...''),
      (''bunx'', ''Running scripts...''), (''node'', ''Running code...''), (''python'', ''Running code...''),
      (''python3'', ''Running code...''), (''vitest'', ''Running tests...''), (''jest'', ''Running tests...''),
      (''pytest'', ''Running tests...'')]"

fun first_segment :: "string \<Rightarrow> string" where
  "first_segment [] = []"
| "first_segment (c # s) =
     (if c = CHR '';'' \<or> c = CHR ''|'' \<or> (c = CHR ''&'' \<and> (case s of d # _ \<Rightarrow> d = CHR ''&'' | [] \<Rightarrow> False))
      then [] else c # first_segment s)"

text \<open>\<open>trimmed.split(/\s+/)\<close>: a trimmed text's words; of the empty text, one empty word.\<close>

fun words_of :: "string \<Rightarrow> string list" where
  "words_of [] = [[]]"
| "words_of (c # s) =
     (if js_space c then [] # words_of (dropWhile js_space s)
      else (case words_of s of [] \<Rightarrow> [[c]] | w # ws \<Rightarrow> (c # w) # ws))"

definition name_start :: "char \<Rightarrow> bool" where
  "name_start c \<longleftrightarrow>
     (let n = of_char c :: nat in 65 \<le> n \<and> n \<le> 90 \<or> 97 \<le> n \<and> n \<le> 122 \<or> n = 95)"

definition name_char :: "char \<Rightarrow> bool" where
  "name_char c \<longleftrightarrow> name_start c \<or> (let n = of_char c :: nat in 48 \<le> n \<and> n \<le> 57)"

text \<open>\<open>/^[A-Za-z_][A-Za-z0-9_]*=/\<close>: an environment assignment.\<close>

definition is_assignment :: "string \<Rightarrow> bool" where
  "is_assignment w =
     (case w of
        [] \<Rightarrow> False
      | c # s \<Rightarrow> name_start c \<and> (case dropWhile name_char s of [] \<Rightarrow> False | d # _ \<Rightarrow> d = CHR ''=''))"

text \<open>\<open>word.split("/").pop()\<close>: what follows the last slash.\<close>

definition base_name :: "string \<Rightarrow> string" where
  "base_name w = rev (takeWhile (\<lambda>c. c \<noteq> CHR ''/'') (rev w))"

definition program_of :: "string list \<Rightarrow> string option" where
  "program_of ws =
     map_option base_name
       (find (\<lambda>w. \<not> is_assignment w \<and> w \<notin> {''env'', ''sudo'', ''command''}) ws)"

text \<open>An empty program is not looked up, and is itself the answer: \<open>""\<close> is not nullish.\<close>

definition command_activity :: "string \<Rightarrow> string" where
  "command_activity command =
     (if command = [] then ''Working...''
      else
        (case program_of (words_of (js_trim (first_segment command))) of
           None \<Rightarrow> ''Working...''
         | Some [] \<Rightarrow> []
         | Some p \<Rightarrow> (case map_of COMMAND_LABELS p of None \<Rightarrow> ''Working...'' | Some l \<Rightarrow> l)))"

definition item_activity :: "char \<Rightarrow> item \<Rightarrow> string option" where
  "item_activity ellipsis it =
     (case i_body it of
        FileChange _ _ _ \<Rightarrow> Some ''Editing files...''
      | Command command description _ _ \<Rightarrow>
          Some (case described ellipsis description of Some l \<Rightarrow> l | None \<Rightarrow> command_activity command)
      | ToolCall _ _ description _ _ _ \<Rightarrow>
          Some (case described ellipsis description of Some l \<Rightarrow> l | None \<Rightarrow> ''Working...'')
      | Subagent title _ _ _ \<Rightarrow>
          Some (if i_status it = InProgress
                then (if title \<noteq> [] then ''Delegating: '' @ title else ''Delegating to a subagent...'')
                else ''Subagent finished...'')
      | Reasoning _ \<Rightarrow> Some ''Thinking...''
      | AssistantMessage _ _ \<Rightarrow> Some ''Writing...''
      | _ \<Rightarrow> None)"

section \<open>A live line is one short line\<close>

text \<open>One line: no whitespace but single blanks, none at either end.\<close>

definition single_line :: "string \<Rightarrow> bool" where
  "single_line s \<longleftrightarrow> (\<forall>c \<in> set s. js_space c \<longrightarrow> c = CHR '' '')"

lemma js_space_blank [simp]: "js_space (CHR '' '')"
  by (simp add: js_space_def)

lemma single_line_collapse: "single_line (collapse s)"
  by (induction s rule: collapse.induct) (auto simp: single_line_def)

lemma set_js_trim: "set (js_trim s) \<subseteq> set s"
  unfolding js_trim_def by (metis set_dropWhileD set_rev subsetI)

lemma js_trim_ends:
  "js_trim s \<noteq> [] \<Longrightarrow> \<not> js_space (hd (js_trim s)) \<and> \<not> js_space (last (js_trim s))"
proof -
  assume ne: "js_trim s \<noteq> []"
  let ?m = "dropWhile js_space s"
  from ne have tl: "dropWhile js_space (rev ?m) \<noteq> []" by (simp add: js_trim_def)
  then have "\<not> js_space (hd (dropWhile js_space (rev ?m)))" by (rule hd_dropWhile)
  then have "\<not> js_space (last (js_trim s))" using tl by (simp add: js_trim_def last_rev)
  moreover have "?m \<noteq> []" using tl by (metis dropWhile.simps(1) rev.simps(1))
  moreover have "hd (js_trim s) = hd ?m"
  proof -
    have "rev ?m = takeWhile js_space (rev ?m) @ dropWhile js_space (rev ?m)" by simp
    then have "?m = js_trim s @ rev (takeWhile js_space (rev ?m))"
      unfolding js_trim_def by (metis rev_append rev_rev_ident)
    then show ?thesis using ne by (metis hd_append2)
  qed
  ultimately show ?thesis using hd_dropWhile by metis
qed

lemma js_trim_id: "s \<noteq> [] \<Longrightarrow> \<not> js_space (hd s) \<Longrightarrow> \<not> js_space (last s) \<Longrightarrow> js_trim s = s"
  by (simp add: js_trim_def dropWhile_eq_self_iff [THEN iffD2] hd_rev)

text \<open>A single-spaced text is its own collapse.\<close>

fun spaced :: "string \<Rightarrow> bool" where
  "spaced (a # b # s) \<longleftrightarrow> \<not> (js_space a \<and> js_space b) \<and> spaced (b # s)"
| "spaced _ \<longleftrightarrow> True"

lemma spaced_Cons: "spaced (a # s) \<longleftrightarrow> (s = [] \<or> \<not> (js_space a \<and> js_space (hd s))) \<and> spaced s"
  by (cases s) auto

lemma collapse_id: "single_line s \<Longrightarrow> spaced s \<Longrightarrow> collapse s = s"
proof (induction s)
  case (Cons c s)
  then have "js_space c \<Longrightarrow> dropWhile js_space s = s" by (cases s) auto
  with Cons show ?case by (auto simp: single_line_def spaced_Cons)
qed simp

lemma collapse_hd: "collapse s \<noteq> [] \<Longrightarrow> js_space (hd (collapse s)) \<longleftrightarrow> js_space (hd s)"
  by (cases s) auto

lemma collapse_Nil [simp]: "collapse s = [] \<longleftrightarrow> s = []"
  by (cases s) auto

lemma spaced_collapse: "spaced (collapse s)"
proof (induction s rule: collapse.induct)
  case (2 c s)
  have "collapse (dropWhile js_space s) \<noteq> [] \<Longrightarrow> \<not> js_space (hd (collapse (dropWhile js_space s)))"
    using hd_dropWhile [of js_space s] collapse_hd by auto
  with 2 show ?case by (auto simp: spaced_Cons)
qed simp

lemma spaced_append: "spaced (xs @ ys) \<Longrightarrow> spaced xs \<and> spaced ys"
  by (induction xs) (auto simp: spaced_Cons)

lemma js_trim_sublist: "\<exists>xs ys. s = xs @ js_trim s @ ys"
proof -
  let ?m = "dropWhile js_space s"
  have "?m = js_trim s @ rev (takeWhile js_space (rev ?m))"
    unfolding js_trim_def by (metis rev_append rev_rev_ident takeWhile_dropWhile_id)
  then show ?thesis by (metis append.assoc takeWhile_dropWhile_id)
qed

lemma line_facts:
  assumes "line = js_trim (collapse t)" and "line \<noteq> []"
  shows "single_line line" and "spaced line" and "\<not> js_space (hd line)" and "\<not> js_space (last line)"
proof -
  show "single_line line" using assms(1) single_line_collapse set_js_trim unfolding single_line_def by blast
  show "spaced line" using assms(1) spaced_collapse js_trim_sublist spaced_append by metis
  show "\<not> js_space (hd line)" "\<not> js_space (last line)" using js_trim_ends assms by auto
qed

lemma last_blank_less: "last_blank line i = Some k \<Longrightarrow> k \<le> i \<and> k < length line \<and> line ! k = CHR '' ''"
  unfolding last_blank_def by (drule find_in) auto

lemma cut_at_less: "0 < mx \<Longrightarrow> cut_at mx line < mx"
  by (auto simp: cut_at_def split: option.splits dest: last_blank_less)

lemma activity_line_short_parts:
  assumes "activity_line ellipsis mx (Some t) = Some line" and "0 < mx" and "\<not> js_space ellipsis"
  shows "line \<noteq> []" and "length line \<le> mx" and "\<forall>c \<in> set line. js_space c \<longrightarrow> c = CHR '' ''"
    and "activity_line ellipsis mx (Some line) = Some line"
proof -
  define l where "l = js_trim (collapse t)"
  have l: "l \<noteq> []" "line = (if length l \<le> mx then l else take (cut_at mx l) l @ [ellipsis])"
    using assms(1) by (auto simp: activity_line_def l_def Let_def split: if_splits)
  note facts = line_facts [OF l_def l(1)]
  have "cut_at mx l < mx" using assms(2) by (rule cut_at_less)
  then show "line \<noteq> []" "length line \<le> mx" using l by auto
  have lines: "single_line (take n l @ [ellipsis])" "spaced (take n l)" for n
    using facts(1,2) assms(3) spaced_append [of "take n l" "drop n l"]
    by (auto simp: single_line_def dest: in_set_takeD)
  have spaced: "spaced (xs @ [ellipsis])" if "spaced xs" for xs
    using that assms(3) by (induction xs) (auto simp: spaced_Cons hd_append)
  have sl: "single_line line" "spaced line" using l(2) facts(1,2) lines spaced by auto
  then show "\<forall>c \<in> set line. js_space c \<longrightarrow> c = CHR '' ''" by (simp add: single_line_def)
  have "\<not> js_space (hd line)" "\<not> js_space (last line)"
    using l facts(3,4) assms(3) by (auto simp: hd_append hd_take)
  with sl \<open>line \<noteq> []\<close> have "js_trim (collapse line) = line" by (simp add: collapse_id js_trim_id)
  with \<open>line \<noteq> []\<close> \<open>length line \<le> mx\<close> show "activity_line ellipsis mx (Some line) = Some line"
    by (simp add: activity_line_def)
qed

text \<open>A live line is one short line. Whatever a harness sends, the line it becomes is
  not empty, holds no whitespace but blanks, is at most \<open>max\<close> code units long, ellipsis
  included, and becoming a line again changes nothing of a line that fitted.\<close>

theorem activity_line_short:
  assumes "activity_line ellipsis mx (Some t) = Some line" and "0 < mx" and "\<not> js_space ellipsis"
  shows "line \<noteq> [] \<and> length line \<le> mx \<and>
      (\<forall>c \<in> set line. js_space c \<longrightarrow> c = CHR '' '') \<and>
      activity_line ellipsis mx (Some line) = Some line"
  using activity_line_short_parts [OF assms] by blast

theorem activity_line_short_witness:
  "activity_line (CHR ''~'') 8 (Some ''run the tests'') = Some ''run the~'' \<and> length ''run the~'' \<le> (8::nat)"
proof -
  have "activity_line (CHR ''~'') 8 (Some ''run the tests'') = Some ''run the~''" by code_simp
  from this activity_line_short [OF this] show ?thesis by (simp add: js_space_def)
qed

text \<open>A command whose first word ends in a slash, or that starts with a separator, says nothing.\<close>

lemma command_activity_empty: "command_activity ''; ls'' = []" "command_activity ''bin/ ls'' = []"
  by code_simp+

lemma command_activity_example:
  "command_activity ''FOO=1 sudo /usr/bin/git status | head'' = ''Working with git...''"
  by code_simp

end
