(* ===== verification/Secret_Mask.thy ===== *)
theory Secret_Mask
  imports Protocol "HOL-Library.Sublist"
begin

text \<open>
  Secret values in a turn's recorded output, \<open>packages/core/src/services/sessions/secret-mask.ts\<close>:
  every value the turn's sandbox received is replaced before the output enters the session log,
  and streamed text is held back while its end could still be the start of a value. A string is
  the list of the code units a \<open>char\<close> holds. A regular expression that is an alternation of
  literals, longest first, matches at the leftmost place the first alternative that fits;
  \<open>replace\<close> and \<open>matchAll\<close> continue after the match. A mask's held text is keyed by item and
  field (the code joins the two with a NUL, which no id holds).
\<close>

section \<open>The forms a value takes\<close>

definition SECRET_MASK_MIN_LENGTH :: nat where "SECRET_MASK_MIN_LENGTH = 6"

definition add_form :: "string list \<Rightarrow> string \<Rightarrow> string list" where
  "add_form forms s = (if s \<in> set forms then forms else forms @ [s])"

fun crlf_to_lf :: "string \<Rightarrow> string" where
  "crlf_to_lf [] = []"
| "crlf_to_lf [c] = [c]"
| "crlf_to_lf (a # b # s) =
     (if of_char a = (13::nat) \<and> of_char b = (10::nat) then b # crlf_to_lf s else a # crlf_to_lf (b # s))"

definition lf_to_crlf :: "string \<Rightarrow> string" where
  "lf_to_crlf s = concat (map (\<lambda>c. if of_char c = (10::nat) then [char_of (13::nat), c] else [c]) s)"

fun split_lines :: "string \<Rightarrow> string list" where
  "split_lines [] = [[]]"
| "split_lines (c # s) =
     (if of_char c = (10::nat) then [] # split_lines s
      else (case split_lines s of [] \<Rightarrow> [[c]] | l # ls \<Rightarrow> (c # l) # ls))"

definition hex_digit :: "nat \<Rightarrow> char" where
  "hex_digit n = (if n < 10 then char_of (48 + n) else char_of (87 + n))"

definition hex_upper :: "nat \<Rightarrow> char" where
  "hex_upper n = (if n < 10 then char_of (48 + n) else char_of (55 + n))"

text \<open>\<open>JSON.stringify(text).slice(1, -1)\<close>.\<close>

definition json_escape_char :: "char \<Rightarrow> string" where
  "json_escape_char c =
     (let n = of_char c :: nat; b = char_of (92::nat) in
      if n = 34 then [b, c] else if n = 92 then [b, b]
      else if n = 8 then [b, CHR ''b''] else if n = 9 then [b, CHR ''t'']
      else if n = 10 then [b, CHR ''n''] else if n = 12 then [b, CHR ''f'']
      else if n = 13 then [b, CHR ''r'']
      else if n < 32 then [b, CHR ''u'', CHR ''0'', CHR ''0'', hex_digit (n div 16), hex_digit (n mod 16)]
      else [c])"

definition json_escape :: "string \<Rightarrow> string" where
  "json_escape s = concat (map json_escape_char s)"

definition utf8 :: "char \<Rightarrow> nat list" where
  "utf8 c = (let n = of_char c :: nat in if n < 128 then [n] else [192 + n div 64, 128 + n mod 64])"

definition utf8_string :: "string \<Rightarrow> nat list" where
  "utf8_string s = concat (map utf8 s)"

definition uri_unreserved :: "char \<Rightarrow> bool" where
  "uri_unreserved c \<longleftrightarrow>
     (let n = of_char c :: nat in 65 \<le> n \<and> n \<le> 90 \<or> 97 \<le> n \<and> n \<le> 122 \<or> 48 \<le> n \<and> n \<le> 57) \<or>
     of_char c \<in> {45, 95, 46, 33, 126, 42, 39, 40, 41 :: nat}"

definition encode_uri_component :: "string \<Rightarrow> string" where
  "encode_uri_component s =
     concat (map (\<lambda>c. if uri_unreserved c then [c]
       else concat (map (\<lambda>n. [CHR ''%'', hex_upper (n div 16), hex_upper (n mod 16)]) (utf8 c))) s)"

definition base64_char :: "bool \<Rightarrow> nat \<Rightarrow> char" where
  "base64_char url n =
     (if n < 26 then char_of (65 + n) else if n < 52 then char_of (71 + n)
      else if n < 62 then char_of (n - 4)
      else if n = 62 then (if url then CHR ''-'' else CHR ''+'') else (if url then CHR ''_'' else CHR ''/''))"

fun base64 :: "bool \<Rightarrow> bool \<Rightarrow> nat list \<Rightarrow> string" where
  "base64 url pad [] = []"
| "base64 url pad [a] =
     [base64_char url (a div 4), base64_char url (a mod 4 * 16)] @ (if pad then ''=='' else [])"
| "base64 url pad [a, b] =
     [base64_char url (a div 4), base64_char url (a mod 4 * 16 + b div 16), base64_char url (b mod 16 * 4)]
     @ (if pad then ''='' else [])"
| "base64 url pad (a # b # c # s) =
     [base64_char url (a div 4), base64_char url (a mod 4 * 16 + b div 16),
      base64_char url (b mod 16 * 4 + c div 64), base64_char url (c mod 64)] @ base64 url pad s"

definition secret_forms :: "string \<Rightarrow> string list" where
  "secret_forms v =
     (if length v < SECRET_MASK_MIN_LENGTH then []
      else
        (let lf = crlf_to_lf v;
             texts = (if \<exists>c \<in> set v. of_char c = (10::nat) \<or> of_char c = (13::nat)
                      then [v, lf, lf_to_crlf lf] @ split_lines lf else [v]);
             forms = fold (\<lambda>t fs. add_form (add_form (add_form fs t) (json_escape t)) (encode_uri_component t))
                       texts []
         in fold (\<lambda>t fs. add_form (add_form (add_form fs (base64 False True (utf8_string t)))
                   (base64 False False (utf8_string t))) (base64 True False (utf8_string t)))
              (add_form [v] lf) forms))"

section \<open>The mask\<close>

record secret_mask =
  sm_labels :: "(string \<times> string) list"
  sm_held :: "((ident \<times> stream_field) \<times> string) list"

definition add_label :: "string \<Rightarrow> string \<Rightarrow> (string \<times> string) list \<Rightarrow> (string \<times> string) list" where
  "add_label name form labels =
     (if SECRET_MASK_MIN_LENGTH \<le> length form \<and> form \<notin> fst ` set labels
      then labels @ [(form, ''[secret '' @ name @ '']'')] else labels)"

definition new_mask :: "(string \<times> string list) list \<Rightarrow> secret_mask" where
  "new_mask secrets =
     \<lparr>sm_labels =
        fold (\<lambda>(name, vs) labels. fold (\<lambda>v ls. fold (add_label name) (secret_forms v) ls) vs labels) secrets [],
      sm_held = []\<rparr>"

text \<open>Longest first: where two values start at one place, the longer wins.\<close>

definition mask_values :: "secret_mask \<Rightarrow> string list" where
  "mask_values m = sort_key (\<lambda>v. - int (length v)) (map fst (sm_labels m))"

definition mask_label :: "secret_mask \<Rightarrow> string \<Rightarrow> string" where
  "mask_label m v = (case map_of (sm_labels m) v of None \<Rightarrow> [] | Some l \<Rightarrow> l)"

definition match_at :: "string list \<Rightarrow> string \<Rightarrow> string option" where
  "match_at vs s = find (\<lambda>v. prefix v s) vs"

text \<open>
  No value is empty, so a match of \<open>v\<close> at the head moves past \<open>length v\<close> code units.
\<close>

function mask_with :: "string list \<Rightarrow> (string \<Rightarrow> string) \<Rightarrow> string \<Rightarrow> string" where
  "mask_with vs label [] = []"
| "mask_with vs label (c # s) =
     (case match_at vs (c # s) of
        None \<Rightarrow> c # mask_with vs label s
      | Some v \<Rightarrow> label v @ mask_with vs label (drop (length v - 1) s))"
  by pat_completeness auto
termination
  by (relation "measure (\<lambda>(vs, label, s). length s)") auto

definition mask_text :: "secret_mask \<Rightarrow> string \<Rightarrow> string" where
  "mask_text m s = mask_with (mask_values m) (mask_label m) s"

function match_all :: "string list \<Rightarrow> nat \<Rightarrow> string \<Rightarrow> (nat \<times> nat) list" where
  "match_all vs i [] = []"
| "match_all vs i (c # s) =
     (case match_at vs (c # s) of
        None \<Rightarrow> match_all vs (i + 1) s
      | Some v \<Rightarrow> (i, length v) # match_all vs (i + 1 + (length v - 1)) (drop (length v - 1) s))"
  by pat_completeness auto
termination
  by (relation "measure (\<lambda>(vs, i, s). length s)") auto

section \<open>Streaming\<close>

text \<open>Where the recordable part of \<open>s\<close> ends.\<close>

definition could_begin :: "string list \<Rightarrow> string \<Rightarrow> bool" where
  "could_begin vs tail \<longleftrightarrow> (\<exists>v \<in> set vs. length tail < length v \<and> prefix tail v)"

definition longest :: "string list \<Rightarrow> nat" where
  "longest vs = (case vs of [] \<Rightarrow> 0 | v # _ \<Rightarrow> length v)"

definition hold_from :: "string list \<Rightarrow> string \<Rightarrow> nat" where
  "hold_from vs s =
     (if vs = [] then length s
      else
        (case find (\<lambda>i. could_begin vs (drop i s)) [length s + 1 - longest vs ..< length s] of
           None \<Rightarrow> length s
         | Some start \<Rightarrow>
             (case find (\<lambda>(i, n). i < start \<and> start < i + n) (match_all vs 0 s) of
                None \<Rightarrow> start
              | Some (i, n) \<Rightarrow> i)))"

definition held_text :: "secret_mask \<Rightarrow> ident \<times> stream_field \<Rightarrow> string" where
  "held_text m k = (case find_row fst k (sm_held m) of None \<Rightarrow> [] | Some (_, t) \<Rightarrow> t)"

definition forget_held :: "ident \<times> stream_field \<Rightarrow> secret_mask \<Rightarrow> secret_mask" where
  "forget_held k m = m\<lparr>sm_held := filter (\<lambda>h. fst h \<noteq> k) (sm_held m)\<rparr>"

definition mask_stream :: "ident \<times> stream_field \<Rightarrow> string \<Rightarrow> secret_mask \<Rightarrow> string \<times> secret_mask" where
  "mask_stream k delta m =
     (if mask_values m = [] then (delta, m)
      else
        (let combined = held_text m k @ delta;
             cut = hold_from (mask_values m) combined
         in (mask_text m (take cut combined),
             if cut < length combined
             then m\<lparr>sm_held := put_row fst (k, drop cut combined) (sm_held m)\<rparr>
             else forget_held k m)))"

definition mask_flush :: "ident \<times> stream_field \<Rightarrow> secret_mask \<Rightarrow> string \<times> secret_mask" where
  "mask_flush k m = (mask_text m (held_text m k), forget_held k m)"

definition mask_holding :: "secret_mask \<Rightarrow> (ident \<times> stream_field) list" where
  "mask_holding m = map fst (sm_held m)"

text \<open>
  \<open>value\<close>: a JSON value with every string, number and member name masked; \<open>str\<close> is JavaScript's
  \<open>String\<close> of a number. \<open>Object.fromEntries\<close> lets a later member win over an earlier of its name.
\<close>

fun mask_json :: "(js_number \<Rightarrow> string) \<Rightarrow> (string \<Rightarrow> string) \<Rightarrow> json \<Rightarrow> json"
  and mask_array :: "(js_number \<Rightarrow> string) \<Rightarrow> (string \<Rightarrow> string) \<Rightarrow> json list \<Rightarrow> json list"
  and mask_members :: "(js_number \<Rightarrow> string) \<Rightarrow> (string \<Rightarrow> string) \<Rightarrow> (string \<times> json) list \<Rightarrow> (string \<times> json) list"
where
  "mask_json str f JNull = JNull"
| "mask_json str f (JBool b) = JBool b"
| "mask_json str f (JNum n) = (if f (str n) = str n then JNum n else JStr (f (str n)))"
| "mask_json str f (JStr s) = JStr (f s)"
| "mask_json str f (JArr vs) = JArr (mask_array str f vs)"
| "mask_json str f (JObj ms) = JObj (fold (put_row fst) (mask_members str f ms) [])"
| "mask_array str f [] = []"
| "mask_array str f (v # vs) = mask_json str f v # mask_array str f vs"
| "mask_members str f [] = []"
| "mask_members str f ((k, v) # ms) = (f k, mask_json str f v) # mask_members str f ms"

definition mask_value :: "(js_number \<Rightarrow> string) \<Rightarrow> secret_mask \<Rightarrow> json \<Rightarrow> json" where
  "mask_value str m v = (if mask_values m = [] then v else mask_json str (mask_text m) v)"

section \<open>The streaming interface\<close>

text \<open>
  A filter may be streamed when the text it works on can be cut at a place found without
  knowing what follows. What is emitted for the pieces of a text, with what is flushed at the
  end, is then the filter of the whole text, however it was split.
\<close>

locale stream_filter =
  fixes whole :: "'c list \<Rightarrow> 'd list" and cut :: "'c list \<Rightarrow> nat"
  assumes cut_sound: "whole (s @ t) = whole (take (cut s) s) @ whole (drop (cut s) s @ t)"
begin

fun emit :: "'c list \<Rightarrow> 'c list list \<Rightarrow> 'd list list \<times> 'c list" where
  "emit held [] = ([], held)"
| "emit held (piece # pieces) =
     (let s = held @ piece; (out, rest) = emit (drop (cut s) s) pieces
      in (whole (take (cut s) s) # out, rest))"

lemma emit_prefix:
  "emit held pieces = (out, rest) \<Longrightarrow> concat out @ whole (rest @ later) = whole (held @ concat pieces @ later)"
proof (induction pieces arbitrary: held out rest)
  case Nil
  then show ?case by simp
next
  case (Cons p ps)
  let ?s = "held @ p"
  obtain out' rest' where e: "emit (drop (cut ?s) ?s) ps = (out', rest')" by (cases "emit (drop (cut ?s) ?s) ps")
  with Cons.prems have out: "out = whole (take (cut ?s) ?s) # out'" "rest = rest'" by (auto simp: Let_def)
  have "whole (held @ concat (p # ps) @ later) = whole (?s @ (concat ps @ later))" by simp
  also have "\<dots> = whole (take (cut ?s) ?s) @ whole (drop (cut ?s) ?s @ concat ps @ later)"
    by (rule cut_sound)
  also have "\<dots> = whole (take (cut ?s) ?s) @ concat out' @ whole (rest' @ later)"
    using Cons.IH [OF e] by simp
  finally show ?case using out by simp
qed

lemma emit_flush: "emit held pieces = (out, rest) \<Longrightarrow> concat out @ whole rest = whole (held @ concat pieces)"
  using emit_prefix [of held pieces out rest "[]"] by simp

lemma emit_independent:
  assumes "emit held pieces = (out, rest)" and "emit held pieces' = (out', rest')" and "concat pieces = concat pieces'"
  shows "concat out @ whole rest = concat out' @ whole rest'"
  using assms emit_flush by metis

end

section \<open>Cutting a text between matches\<close>

definition token :: "string list \<Rightarrow> string \<Rightarrow> nat" where
  "token vs s = (case match_at vs s of None \<Rightarrow> 1 | Some v \<Rightarrow> length v)"

text \<open>\<open>k\<close> is where the scan of \<open>s\<close> stands after whole matches and single code units.\<close>

inductive boundary :: "string list \<Rightarrow> string \<Rightarrow> nat \<Rightarrow> bool" for vs where
  start: "boundary vs s 0"
| move: "s \<noteq> [] \<Longrightarrow> boundary vs (drop (token vs s) s) k \<Longrightarrow> boundary vs s (token vs s + k)"

lemma match_at_Some: "match_at vs s = Some v \<Longrightarrow> v \<in> set vs \<and> prefix v s"
  unfolding match_at_def by (induction vs) (auto split: if_splits)

lemma match_at_cong: "(\<And>v. v \<in> set vs \<Longrightarrow> prefix v s = prefix v s') \<Longrightarrow> match_at vs s = match_at vs s'"
  unfolding match_at_def by (induction vs) auto

lemma match_at_take:
  assumes "match_at vs s = Some v" and "length v \<le> n"
  shows "match_at vs (take n s) = Some v"
proof -
  have whole: "prefix u s" if "prefix u (take n s)" for u
    using that take_is_prefix by (rule prefix_order.trans)
  have "prefix v (take n s)" using match_at_Some [OF assms(1)] assms(2) by (auto simp: prefix_def)
  with assms(1) show ?thesis unfolding match_at_def
    by (induction vs) (auto split: if_splits dest: whole)
qed

lemma match_at_take_None: "match_at vs s = None \<Longrightarrow> match_at vs (take n s) = None"
  unfolding match_at_def by (induction vs) (auto split: if_splits dest: prefix_order.trans [OF _ take_is_prefix])

lemma mask_step:
  assumes "[] \<notin> set vs" and "s \<noteq> []"
  shows "mask_with vs label s =
    (case match_at vs s of None \<Rightarrow> take 1 s | Some v \<Rightarrow> label v) @ mask_with vs label (drop (token vs s) s)"
proof (cases s)
  case (Cons c cs)
  show ?thesis
  proof (cases "match_at vs s")
    case (Some v)
    then have "v \<noteq> []" using match_at_Some assms(1) by blast
    then obtain n where "length v = Suc n" by (cases v) auto
    with Some Cons show ?thesis by (simp add: token_def)
  qed (use Cons in \<open>simp add: token_def\<close>)
qed (use assms in simp)

lemma token_pos: "[] \<notin> set vs \<Longrightarrow> 0 < token vs s"
  by (auto simp: token_def split: option.splits dest!: match_at_Some)

lemma token_le: "s \<noteq> [] \<Longrightarrow> token vs s \<le> length s"
  by (cases s) (auto simp: token_def split: option.splits dest!: match_at_Some prefix_length_le)

lemma boundary_le: "boundary vs s k \<Longrightarrow> k \<le> length s"
proof (induction rule: boundary.induct)
  case (move s k)
  from token_le [OF move(1), of vs] move(3) show ?case by simp
qed simp

text \<open>Masking the two sides of a boundary apart is masking the whole.\<close>

lemma mask_boundary:
  assumes "boundary vs s k" and "[] \<notin> set vs"
  shows "mask_with vs label s = mask_with vs label (take k s) @ mask_with vs label (drop k s)"
  using assms
proof (induction rule: boundary.induct)
  case (move s k)
  let ?n = "token vs s"
  have pre: "take (?n + k) s \<noteq> []" using move(1) token_pos [OF move(4), of s] by (cases s) auto
  have same: "match_at vs (take (?n + k) s) = match_at vs s"
    by (cases "match_at vs s") (auto simp: token_def match_at_take match_at_take_None)
  then have tok: "token vs (take (?n + k) s) = ?n" by (simp add: token_def)
  have one: "take 1 (take (?n + k) s) = take 1 s" using token_pos [OF move(4), of s] by (simp add: min_def)
  have "mask_with vs label (take (?n + k) s) =
      (case match_at vs s of None \<Rightarrow> take 1 s | Some v \<Rightarrow> label v) @ mask_with vs label (take k (drop ?n s))"
    using mask_step [OF move(4) pre, of label] unfolding same tok one by (simp add: drop_take)
  with mask_step [OF move(4,1), of label] move(3,4) show ?case by (simp add: add.commute)
qed simp

lemma boundary_agree:
  assumes "boundary vs s k" and "[] \<notin> set vs"
    and "\<And>p. p < k \<Longrightarrow> match_at vs (drop p s) = match_at vs (drop p (s @ t))"
  shows "boundary vs (s @ t) k"
  using assms
proof (induction rule: boundary.induct)
  case (start s)
  then show ?case by (simp add: boundary.start)
next
  case (move s k)
  let ?n = "token vs s"
  have n: "0 < ?n" "?n \<le> length s" using token_pos [OF move(4)] token_le [OF move(1)] by auto
  have tok: "token vs (s @ t) = ?n" using move(5) [of 0] n by (simp add: token_def)
  have "boundary vs (drop ?n s @ t) k"
  proof (rule move(3) [OF move(4)])
    fix p assume "p < k"
    with move(5) [of "?n + p"] n show "match_at vs (drop p (drop ?n s)) = match_at vs (drop p (drop ?n s @ t))"
      by (simp add: add.commute)
  qed
  moreover have "drop ?n (s @ t) = drop ?n s @ t" using n by simp
  ultimately have "boundary vs (s @ t) (token vs (s @ t) + k)"
    using move(1) tok by (intro boundary.move) simp_all
  with tok show ?case by simp
qed

text \<open>Every index of \<open>match_all\<close> is a boundary, and an index inside no match is one.\<close>

lemma match_all_boundary:
  assumes "[] \<notin> set vs" and "(i, n) \<in> set (match_all vs b s)"
  shows "b \<le> i \<and> boundary vs s (i - b)"
  using assms
proof (induction vs b s rule: match_all.induct)
  case (2 vs b c s)
  let ?s = "c # s"
  show ?case
  proof (cases "match_at vs ?s")
    case None
    with 2 have ih: "b + 1 \<le> i \<and> boundary vs s (i - (b + 1))" by simp
    then have "boundary vs ?s (token vs ?s + (i - (b + 1)))"
      using None by (intro boundary.move) (simp_all add: token_def)
    moreover have "token vs ?s + (i - (b + 1)) = i - b" using None ih by (auto simp: token_def)
    ultimately show ?thesis using ih by simp
  next
    case (Some v)
    then have v: "v \<noteq> []" using match_at_Some 2(3) by blast
    then obtain l where l: "length v = Suc l" by (cases v) auto
    show ?thesis
    proof (cases "(i, n) = (b, length v)")
      case True
      then show ?thesis by (simp add: boundary.start)
    next
      case False
      with 2(2) [OF Some 2(3)] 2(4) Some l
      have ih: "b + length v \<le> i \<and> boundary vs (drop l s) (i - (b + length v))" by auto
      then have "boundary vs ?s (token vs ?s + (i - (b + length v)))"
        using Some l by (intro boundary.move) (simp_all add: token_def)
      moreover have "token vs ?s + (i - (b + length v)) = i - b" using Some ih by (simp add: token_def)
      ultimately show ?thesis using ih by simp
    qed
  qed
qed simp

lemma boundary_unless_inside:
  assumes "[] \<notin> set vs" and "h \<le> length s"
    and "\<forall>(i, n) \<in> set (match_all vs b s). \<not> (i < b + h \<and> b + h < i + n)"
  shows "boundary vs s h"
  using assms
proof (induction vs b s arbitrary: h rule: match_all.induct)
  case (1 vs b)
  then show ?case by (simp add: boundary.start)
next
  case (2 vs b c s)
  let ?s = "c # s"
  show ?case
  proof (cases h)
    case 0
    then show ?thesis by (simp add: boundary.start)
  next
    case (Suc h')
    show ?thesis
    proof (cases "match_at vs ?s")
      case None
      with 2(1) [OF None 2(3), of h'] 2(4,5) Suc have "boundary vs s h'" by simp
      then have "boundary vs ?s (token vs ?s + h')" using None by (intro boundary.move) (simp_all add: token_def)
      with None Suc show ?thesis by (simp add: token_def)
    next
      case (Some v)
      then have v: "v \<noteq> []" using match_at_Some 2(3) by blast
      then obtain l where l: "length v = Suc l" by (cases v) auto
      have "\<not> (b < b + h \<and> b + h < b + length v)" using 2(5) Some by auto
      with Suc have h: "length v \<le> h" by simp
      then have "boundary vs (drop l s) (h - length v)"
        using 2(2) [OF Some 2(3), of "h - length v"] 2(4,5) Some l by auto
      then have "boundary vs ?s (token vs ?s + (h - length v))"
        using Some l by (intro boundary.move) (simp_all add: token_def)
      with Some h show ?thesis by (simp add: token_def)
    qed
  qed
qed

section \<open>The held tail\<close>

lemma find_upt_Some:
  assumes "find P [a..<b] = Some h"
  shows "a \<le> h \<and> h < b \<and> P h \<and> (\<forall>i. a \<le> i \<and> i < h \<longrightarrow> \<not> P i)"
proof -
  from assms obtain k where k: "k < b - a" "P (a + k)" "h = a + k" "\<forall>j<k. \<not> P (a + j)"
    by (auto simp: find_Some_iff)
  have "\<not> P i" if "a \<le> i" "i < h" for i
    using k(4)[rule_format, of "i - a"] k(3) that by simp
  with k show ?thesis by auto
qed

definition hold_start :: "string list \<Rightarrow> string \<Rightarrow> nat" where
  "hold_start vs s =
     (case find (\<lambda>i. could_begin vs (drop i s)) [length s + 1 - longest vs ..< length s] of
        None \<Rightarrow> length s | Some start \<Rightarrow> start)"

lemma hold_start_le: "hold_start vs s \<le> length s"
  using find_upt_Some [of _ "length s + 1 - longest vs" "length s"]
  by (fastforce simp: hold_start_def split: option.splits)

lemma hold_start_early:
  assumes "p < hold_start vs s" and "length s + 1 - longest vs \<le> p"
  shows "\<not> could_begin vs (drop p s)"
proof (cases "find (\<lambda>i. could_begin vs (drop i s)) [length s + 1 - longest vs ..< length s]")
  case None
  then have "p < length s" using assms(1) by (simp add: hold_start_def)
  with None assms(2) show ?thesis by (simp add: find_None_iff)
next
  case (Some h)
  with assms find_upt_Some [OF Some] show ?thesis by (simp add: hold_start_def)
qed

lemma hold_from_cases:
  assumes "vs \<noteq> []"
  obtains (tail) "hold_from vs s = hold_start vs s"
      "\<forall>(i, n) \<in> set (match_all vs 0 s). \<not> (i < hold_start vs s \<and> hold_start vs s < i + n)"
  | (inside) n where "(hold_from vs s, n) \<in> set (match_all vs 0 s)" "hold_from vs s < hold_start vs s"
      "hold_start vs s < hold_from vs s + n"
proof (cases "find (\<lambda>i. could_begin vs (drop i s)) [length s + 1 - longest vs ..< length s]")
  case None
  have "i + n \<le> length s" if "(i, n) \<in> set (match_all vs b u)" "length s = b + length u" for i n b u
    using that
  proof (induction vs b u rule: match_all.induct)
    case (2 vs b c u)
    show ?case
    proof (cases "match_at vs (c # u)")
      case (Some v)
      from match_at_Some [OF Some] have "length v \<le> Suc (length u)" by (auto dest: prefix_length_le)
      with 2(2) [OF Some] 2(3,4) Some show ?thesis by auto
    qed (use 2 in auto)
  qed simp
  from this [of _ _ 0 s] have "\<forall>(i, n) \<in> set (match_all vs 0 s). \<not> length s < i + n" by fastforce
  with None assms show ?thesis by (intro tail) (auto simp: hold_from_def hold_start_def)
next
  case start: (Some h)
  show ?thesis
  proof (cases "find (\<lambda>(i, n). i < h \<and> h < i + n) (match_all vs 0 s)")
    case None
    with start assms have "hold_from vs s = h" "hold_start vs s = h"
      by (simp_all add: hold_from_def hold_start_def)
    moreover have "\<forall>(i, n) \<in> set (match_all vs 0 s). \<not> (i < h \<and> h < i + n)"
      using None by (auto simp: find_None_iff)
    ultimately show ?thesis by (intro tail) simp_all
  next
    case (Some m)
    obtain i n where m: "m = (i, n)" by (cases m)
    from Some have "m \<in> set (match_all vs 0 s) \<and> (case m of (i, n) \<Rightarrow> i < h \<and> h < i + n)"
      by (auto simp: find_Some_iff in_set_conv_nth)
    with Some m start assms show ?thesis by (intro inside [of n]) (auto simp: hold_from_def hold_start_def)
  qed
qed

lemma hold_from_le_start: "vs \<noteq> [] \<Longrightarrow> hold_from vs s \<le> hold_start vs s"
  by (cases rule: hold_from_cases [of vs s]) auto

lemma hold_from_boundary:
  assumes "vs \<noteq> []" and "[] \<notin> set vs"
  shows "boundary vs s (hold_from vs s)"
  using assms(1)
proof (cases rule: hold_from_cases [of vs s])
  case tail
  then show ?thesis
    using boundary_unless_inside [OF assms(2) hold_start_le, where b = 0] by simp
next
  case (inside n)
  from match_all_boundary [OF assms(2) inside(1)] show ?thesis by simp
qed

lemma matches_agree:
  assumes "\<forall>v \<in> set vs. length v \<le> longest vs" and "p < hold_start vs s"
  shows "match_at vs (drop p s) = match_at vs (drop p (s @ t))"
proof (rule match_at_cong)
  fix v assume v: "v \<in> set vs"
  have p: "p < length s" using assms(2) hold_start_le [of vs s] by simp
  show "prefix v (drop p s) = prefix v (drop p (s @ t))"
  proof
    assume "prefix v (drop p s)" then show "prefix v (drop p (s @ t))" using p by simp
  next
    assume pre: "prefix v (drop p (s @ t))"
    show "prefix v (drop p s)"
    proof (cases "length v \<le> length (drop p s)")
      case True
      from pre p obtain us where us: "drop p s @ t = v @ us" by (auto simp: prefix_def)
      then have "take (length v) (drop p s @ t) = v" by simp
      with True have "take (length v) (drop p s) = v" by simp
      then show ?thesis by (metis take_is_prefix)
    next
      case False
      from pre p have "prefix v (drop p s @ t)" by simp
      moreover have "prefix (drop p s) (drop p s @ t)" by simp
      ultimately have "prefix (drop p s) v" using False by (metis linear prefix_length_prefix)
      with False v have begins: "could_begin vs (drop p s)"
        unfolding could_begin_def by (intro bexI [of _ v]) simp_all
      from False v assms(1) p have "length s + 1 - longest vs \<le> p" by fastforce
      with hold_start_early [OF assms(2)] begins show ?thesis by blast
    qed
  qed
qed

lemma cut_sound:
  assumes "vs \<noteq> []" and "[] \<notin> set vs" and "\<forall>v \<in> set vs. length v \<le> longest vs"
  shows "mask_with vs label (s @ t) =
    mask_with vs label (take (hold_from vs s) s) @ mask_with vs label (drop (hold_from vs s) s @ t)"
proof -
  let ?k = "hold_from vs s"
  have k: "?k \<le> length s" using hold_from_le_start [OF assms(1)] hold_start_le le_trans by blast
  have "boundary vs (s @ t) ?k"
  proof (rule boundary_agree [OF hold_from_boundary [OF assms(1,2)] assms(2)])
    fix p assume "p < ?k"
    then have "p < hold_start vs s" using hold_from_le_start [OF assms(1), of s] by simp
    from matches_agree [OF assms(3) this] show "match_at vs (drop p s) = match_at vs (drop p (s @ t))" .
  qed
  from mask_boundary [OF this assms(2)] k show ?thesis by simp
qed

section \<open>The masks the constructor builds\<close>

definition mask_wf :: "secret_mask \<Rightarrow> bool" where
  "mask_wf m \<longleftrightarrow> list_all (\<lambda>l. SECRET_MASK_MIN_LENGTH \<le> length (fst l)) (sm_labels m)"

lemma new_mask_wf: "mask_wf (new_mask secrets)"
proof -
  let ?ok = "list_all (\<lambda>l :: string \<times> string. SECRET_MASK_MIN_LENGTH \<le> length (fst l))"
  have add: "?ok ls \<Longrightarrow> ?ok (add_label n f ls)" for n f ls by (simp add: add_label_def)
  have forms: "?ok ls \<Longrightarrow> ?ok (fold (add_label n) fs ls)" for n fs ls
    by (induction fs arbitrary: ls) (simp_all add: add)
  have vals: "?ok ls \<Longrightarrow> ?ok (fold (\<lambda>v ls. fold (add_label n) (secret_forms v) ls) vs ls)" for n vs ls
    by (induction vs arbitrary: ls) (simp_all add: forms)
  have "?ok ls \<Longrightarrow> ?ok (fold (\<lambda>(name, vs) labels. fold (\<lambda>v ls. fold (add_label name) (secret_forms v) ls) vs labels) secrets ls)" for ls
    by (induction secrets arbitrary: ls) (auto simp: vals)
  from this [of "[]"] show ?thesis by (simp add: mask_wf_def new_mask_def)
qed

lemma mask_values_props:
  assumes "mask_wf m"
  shows "[] \<notin> set (mask_values m)" and "\<forall>v \<in> set (mask_values m). length v \<le> longest (mask_values m)"
proof -
  show "[] \<notin> set (mask_values m)"
    using assms by (auto simp: mask_wf_def mask_values_def list_all_iff SECRET_MASK_MIN_LENGTH_def)
  have sorted: "sorted (map (\<lambda>v. - int (length v)) (mask_values m))" by (simp add: mask_values_def)
  show "\<forall>v \<in> set (mask_values m). length v \<le> longest (mask_values m)"
  proof
    fix v assume v: "v \<in> set (mask_values m)"
    then obtain w ws where w: "mask_values m = w # ws" by (cases "mask_values m") auto
    from sorted v have "length v \<le> length w" unfolding w by auto
    then show "length v \<le> longest (mask_values m)" by (simp add: longest_def w)
  qed
qed

definition cut_of :: "secret_mask \<Rightarrow> string \<Rightarrow> nat" where
  "cut_of m s = (if mask_values m = [] then length s else hold_from (mask_values m) s)"

text \<open>The mask of the text is a stream filter, whatever secrets it was built from.\<close>

interpretation secrets: stream_filter "mask_text (new_mask secrets)" "cut_of (new_mask secrets)" for secrets
proof
  fix s t
  let ?m = "new_mask secrets"
  show "mask_text ?m (s @ t) = mask_text ?m (take (cut_of ?m s) s) @ mask_text ?m (drop (cut_of ?m s) s @ t)"
  proof (cases "mask_values ?m = []")
    case True
    have "mask_with [] label u = u" for label and u :: string
      by (induction u) (simp_all add: match_at_def)
    then have "mask_text ?m u = u" for u unfolding mask_text_def True .
    moreover have "cut_of ?m s = length s" unfolding cut_of_def using True by simp
    ultimately show ?thesis by simp
  next
    case False
    then have cut: "cut_of ?m s = hold_from (mask_values ?m) s" by (simp add: cut_of_def)
    show ?thesis unfolding mask_text_def cut
      by (rule cut_sound [OF False mask_values_props [OF new_mask_wf]])
  qed
qed

lemma add_form_mono: "set fs \<subseteq> set (add_form fs s)"
  by (auto simp: add_form_def)

lemma fold_mono: "(\<And>x ys. set ys \<subseteq> set (f x ys)) \<Longrightarrow> set ys \<subseteq> set (fold f xs ys)"
  by (induction xs arbitrary: ys) (simp, fastforce)

lemma secret_form_itself:
  assumes "SECRET_MASK_MIN_LENGTH \<le> length v"
  shows "v \<in> set (secret_forms v)"
proof -
  let ?f = "\<lambda>t fs. add_form (add_form (add_form fs t) (json_escape t)) (encode_uri_component t)"
  let ?g = "\<lambda>t fs. add_form (add_form (add_form fs (base64 False True (utf8_string t)))
    (base64 False False (utf8_string t))) (base64 True False (utf8_string t))"
  have f: "set ys \<subseteq> set (?f t ys)" and g: "set ys \<subseteq> set (?g t ys)" for t ys
    using add_form_mono by (meson subset_trans)+
  have "v \<in> set (add_form [] v)" by (simp add: add_form_def)
  then have "v \<in> set (?f v [])" using add_form_mono by (meson subsetD)
  then have "v \<in> set (fold ?f ts (?f v []))" for ts using fold_mono [of ?f, OF f] by (meson subsetD)
  then have "v \<in> set (fold ?f (v # ts) [])" for ts by simp
  then have both: "v \<in> set (fold ?g us (fold ?f (v # ts) []))" for us ts
    using fold_mono [of ?g, OF g] by (meson subsetD)
  have long: "\<not> length v < SECRET_MASK_MIN_LENGTH" using assms by simp
  show ?thesis
  proof (cases "\<exists>c \<in> set v. of_char c = (10::nat) \<or> of_char c = (13::nat)")
    case True
    have "secret_forms v = fold ?g (add_form [v] (crlf_to_lf v))
        (fold ?f (v # crlf_to_lf v # lf_to_crlf (crlf_to_lf v) # split_lines (crlf_to_lf v)) [])"
      unfolding secret_forms_def Let_def if_not_P [OF long] if_P [OF True] append.simps by (rule refl)
    then show ?thesis using both by (simp only:)
  next
    case False
    have "secret_forms v = fold ?g (add_form [v] (crlf_to_lf v)) (fold ?f [v] [])"
      unfolding secret_forms_def Let_def if_not_P [OF long] if_not_P [OF False] by (rule refl)
    then show ?thesis using both by (simp only:)
  qed
qed

lemma add_label_keys: "fst ` set ls \<subseteq> fst ` set (add_label n f ls)"
  and add_label_key: "SECRET_MASK_MIN_LENGTH \<le> length f \<Longrightarrow> f \<in> fst ` set (add_label n f ls)"
  by (auto simp: add_label_def)

lemma fold_keys: "(\<And>x ls. fst ` set ls \<subseteq> fst ` set (g x ls)) \<Longrightarrow> fst ` set ls \<subseteq> fst ` set (fold g xs ls)"
proof (induction xs arbitrary: ls)
  case (Cons x xs)
  have "fst ` set ls \<subseteq> fst ` set (g x ls)" by (rule Cons.prems)
  also have "\<dots> \<subseteq> fst ` set (fold g xs (g x ls))" by (rule Cons.IH [OF Cons.prems])
  finally show ?case by simp
qed simp

lemma fold_key_in:
  assumes "\<And>x ls. fst ` set ls \<subseteq> fst ` set (g x ls)" and "x \<in> set xs" and "\<And>ls. v \<in> fst ` set (g x ls)"
  shows "v \<in> fst ` set (fold g xs ls)"
  using assms(2)
proof (induction xs arbitrary: ls)
  case (Cons y ys)
  show ?case
  proof (cases "x = y")
    case True
    have "v \<in> fst ` set (g y ls)" using assms(3) True by simp
    then show ?thesis using fold_keys [of g "g y ls" ys] assms(1) by (simp, blast)
  qed (use Cons in simp)
qed simp

text \<open>Every value long enough to be masked is one of the mask's literals.\<close>

lemma mask_values_contains:
  assumes "(n, vs) \<in> set secrets" and "v \<in> set vs" and "SECRET_MASK_MIN_LENGTH \<le> length v"
  shows "v \<in> set (mask_values (new_mask secrets))"
proof -
  let ?one = "\<lambda>n v ls. fold (add_label n) (secret_forms v) ls"
  let ?all = "\<lambda>(n, vs) ls. fold (?one n) vs ls"
  have one: "fst ` set ls \<subseteq> fst ` set (?one n u ls)" for n u ls by (rule fold_keys [OF add_label_keys])
  have many: "fst ` set ls \<subseteq> fst ` set (?all p ls)" for p ls
    by (cases p) (simp add: fold_keys [OF one])
  have "v \<in> fst ` set (?one n v ls)" for ls
    by (rule fold_key_in [of "add_label n" v, OF add_label_keys secret_form_itself [OF assms(3)] add_label_key [OF assms(3)]])
  then have "v \<in> fst ` set (?all (n, vs) ls)" for ls
    using fold_key_in [of "?one n" v vs v ls] one assms(2) by simp
  from fold_key_in [of ?all, OF many assms(1) this] show ?thesis
    by (simp add: new_mask_def mask_values_def)
qed

section \<open>A field's stream\<close>

fun stream_pieces :: "ident \<times> stream_field \<Rightarrow> string list \<Rightarrow> secret_mask \<Rightarrow> string list \<times> secret_mask" where
  "stream_pieces k [] m = ([], m)"
| "stream_pieces k (piece # pieces) m =
     (let (out, m1) = mask_stream k piece m; (outs, m2) = stream_pieces k pieces m1 in (out # outs, m2))"

definition built_from :: "(string \<times> string list) list \<Rightarrow> secret_mask \<Rightarrow> bool" where
  "built_from secrets m \<longleftrightarrow> sm_labels m = sm_labels (new_mask secrets) \<and> (mask_values m = [] \<longrightarrow> sm_held m = [])"

lemma built_from_mask: "built_from secrets m \<Longrightarrow> mask_text m = mask_text (new_mask secrets) \<and> mask_values m = mask_values (new_mask secrets)"
proof -
  assume "built_from secrets m"
  then have labels: "sm_labels m = sm_labels (new_mask secrets)" by (simp add: built_from_def)
  then have "mask_values m = mask_values (new_mask secrets)" by (simp only: mask_values_def)
  moreover from labels have "mask_label m = mask_label (new_mask secrets)" by (simp only: mask_label_def [abs_def])
  ultimately show ?thesis by (simp add: mask_text_def [abs_def])
qed

lemma find_row_delete: "find_row fst k (filter (\<lambda>h. fst h \<noteq> k) xs) = None"
  by (auto simp: find_row_None)

lemma mask_stream_step:
  assumes "built_from secrets m" and "mask_stream k piece m = (out, m')"
  defines "s \<equiv> held_text m k @ piece"
  shows "out = mask_text (new_mask secrets) (take (cut_of (new_mask secrets) s) s)"
    and "held_text m' k = drop (cut_of (new_mask secrets) s) s" and "built_from secrets m'"
proof -
  note same = built_from_mask [OF assms(1)]
  have "out = mask_text (new_mask secrets) (take (cut_of (new_mask secrets) s) s) \<and>
    held_text m' k = drop (cut_of (new_mask secrets) s) s \<and> built_from secrets m'"
  proof (cases "mask_values m = []")
    case True
    with assms(1) have held: "held_text m k = []" by (simp add: built_from_def held_text_def)
    have "mask_with [] label u = u" for label and u :: string
      by (induction u) (simp_all add: match_at_def)
    then have "mask_text m u = u" for u unfolding mask_text_def True .
    with True same assms(1,2) held show ?thesis
      by (simp add: mask_stream_def cut_of_def s_def)
  next
    case False
    then have cut: "cut_of (new_mask secrets) s = hold_from (mask_values m) s" using same by (simp add: cut_of_def)
    have step: "mask_stream k piece m = (mask_text m (take (hold_from (mask_values m) s) s),
        if hold_from (mask_values m) s < length s
        then m\<lparr>sm_held := put_row fst (k, drop (hold_from (mask_values m) s) s) (sm_held m)\<rparr> else forget_held k m)"
      unfolding mask_stream_def s_def Let_def if_not_P [OF False] by (rule refl)
    have "held_text m' k = drop (hold_from (mask_values m) s) s"
      using assms(2) step put_row_lookup_same [of fst "(k, drop (hold_from (mask_values m) s) s)"]
      by (auto simp: held_text_def forget_held_def find_row_delete)
    moreover have "built_from secrets m'"
      using assms(1,2) step False by (auto simp: built_from_def forget_held_def mask_values_def)
    ultimately show ?thesis using assms(2) step same unfolding cut by simp
  qed
  then show "out = mask_text (new_mask secrets) (take (cut_of (new_mask secrets) s) s)"
    and "held_text m' k = drop (cut_of (new_mask secrets) s) s" and "built_from secrets m'" by auto
qed

lemma stream_pieces_emit:
  "built_from secrets m \<Longrightarrow> stream_pieces k pieces m = (outs, m') \<Longrightarrow>
   secrets.emit secrets (held_text m k) pieces = (outs, held_text m' k) \<and> built_from secrets m'"
proof (induction pieces arbitrary: m outs)
  case (Cons p ps)
  obtain out m1 where one: "mask_stream k p m = (out, m1)" by fastforce
  obtain outs' where rest: "stream_pieces k ps m1 = (outs', m')" and outs: "outs = out # outs'"
    using Cons.prems(2) one by (auto simp: Let_def split: prod.splits)
  note step = mask_stream_step [OF Cons.prems(1) one]
  from Cons.IH [OF step(3) rest] have
    "secrets.emit secrets (held_text m1 k) ps = (outs', held_text m' k)" "built_from secrets m'" by auto
  with step outs show ?case by (simp add: Let_def)
qed simp

lemma new_mask_built: "built_from secrets (new_mask secrets)" "held_text (new_mask secrets) k = []"
  by (simp_all add: built_from_def held_text_def new_mask_def)

text \<open>Property C14: streaming masks what masking the whole would. However a field's text is split
  into deltas, the recorded pieces followed by the flush are the mask of the whole text; and at
  every moment what is recorded is the beginning of the mask of any text it could become, so
  no later delta can show that a recorded part belonged to a value.\<close>

theorem streaming_masks_whole:
  "case stream_pieces k pieces (new_mask secrets) of (outs, m) \<Rightarrow>
     concat outs @ fst (mask_flush k m) = mask_text (new_mask secrets) (concat pieces) \<and>
     (\<forall>later. prefix (concat outs) (mask_text (new_mask secrets) (concat pieces @ later)))"
proof -
  obtain outs m where run: "stream_pieces k pieces (new_mask secrets) = (outs, m)" by fastforce
  from stream_pieces_emit [OF new_mask_built(1) run] have
    emit: "secrets.emit secrets [] pieces = (outs, held_text m k)" and "built_from secrets m"
    by (simp_all add: new_mask_built)
  then have "fst (mask_flush k m) = mask_text (new_mask secrets) (held_text m k)"
    by (simp add: mask_flush_def built_from_mask)
  with secrets.emit_flush [OF emit] have "concat outs @ fst (mask_flush k m) = mask_text (new_mask secrets) (concat pieces)"
    by simp
  moreover have "prefix (concat outs) (mask_text (new_mask secrets) (concat pieces @ later))" for later
    using secrets.emit_prefix [OF emit, of later] by (metis append_Nil prefixI)
  ultimately show ?thesis using run by simp
qed

section \<open>Every occurrence is hit, and little is held\<close>

lemma boundary_match:
  assumes "boundary vs s k" and "[] \<notin> set vs" and "match_at vs (drop k s) = Some u"
  shows "(b + k, length u) \<in> set (match_all vs b s)"
  using assms
proof (induction arbitrary: b rule: boundary.induct)
  case (start s)
  then have "s \<noteq> []" using match_at_Some by fastforce
  then obtain c cs where "s = c # cs" by (cases s) auto
  with start show ?case by simp
next
  case (move s k)
  obtain c cs where s: "s = c # cs" using move(1) by (cases s) auto
  show ?case
  proof (cases "match_at vs s")
    case None
    with move(3) [OF move(4), of "b + 1"] move(5) s show ?thesis by (simp add: token_def)
  next
    case (Some v)
    then have "v \<noteq> []" using match_at_Some move(4) by blast
    then obtain l where l: "length v = Suc l" by (cases v) auto
    with move(3) [OF move(4), of "b + length v"] move(5) s Some show ?thesis
      by (simp add: token_def add.commute add.left_commute)
  qed
qed

text \<open>No secret value survives whole. Wherever a value stands in a text, some replaced
  match begins at or before its first code unit and reaches into it.\<close>

theorem occurrence_masked:
  assumes "v \<in> set (mask_values (new_mask secrets))" and "s = a @ v @ b"
  shows "\<exists>(i, n) \<in> set (match_all (mask_values (new_mask secrets)) 0 s). i \<le> length a \<and> length a < i + n"
proof (rule ccontr)
  let ?vs = "mask_values (new_mask secrets)"
  assume none: "\<not> ?thesis"
  note props = mask_values_props [OF new_mask_wf, of secrets]
  have "boundary ?vs s (length a)"
    by (rule boundary_unless_inside [OF props(1), where b = 0]) (use none assms(2) in auto)
  moreover obtain u where u: "match_at ?vs (drop (length a) s) = Some u"
  proof (cases "match_at ?vs (drop (length a) s)")
    case None
    with assms show thesis by (auto simp: match_at_def find_None_iff)
  qed (use that in blast)
  ultimately have "(length a, length u) \<in> set (match_all ?vs 0 s)"
    using boundary_match [OF _ props(1), of s "length a" u 0] by simp
  moreover have "u \<noteq> []" using match_at_Some [OF u] props(1) by blast
  ultimately show False using none by fastforce
qed

theorem occurrence_masked_witness:
  "\<exists>(i, n) \<in> set (match_all (mask_values (new_mask [(''K'', [''sekret9''])])) 0 ''my sekret9!''). i \<le> 3 \<and> 3 < i + n"
proof -
  have "''sekret9'' \<in> set (mask_values (new_mask [(''K'', [''sekret9''])]))"
    by (rule mask_values_contains) (auto simp: SECRET_MASK_MIN_LENGTH_def)
  moreover have "''my sekret9!'' = ''my '' @ ''sekret9'' @ ''!''" by simp
  moreover have len: "length ''my '' = 3" by simp
  ultimately show ?thesis using occurrence_masked [of "''sekret9''" "[(''K'', [''sekret9''])]" "''my sekret9!''" "''my ''" "''!''"]
    unfolding len by blast
qed

text \<open>Only a bounded tail waits. What a field holds back between deltas is shorter than
  twice the longest value, however much was streamed.\<close>

theorem held_tail_bounded:
  assumes "pieces \<noteq> []" and "mask_values (new_mask secrets) \<noteq> []"
  shows "length (held_text (snd (stream_pieces k pieces (new_mask secrets))) k)
    < 2 * longest (mask_values (new_mask secrets))"
proof -
  let ?vs = "mask_values (new_mask secrets)"
  note props = mask_values_props [OF new_mask_wf, of secrets]
  have pos: "0 < longest ?vs" using assms(2) props by (cases ?vs) (auto simp: longest_def)
  have tail: "length s - cut_of (new_mask secrets) s < 2 * longest ?vs" for s
  proof -
    have hs: "length s - hold_start ?vs s < longest ?vs"
    proof (cases "find (\<lambda>i. could_begin ?vs (drop i s)) [length s + 1 - longest ?vs ..< length s]")
      case (Some h)
      from find_upt_Some [OF Some] have "length s + 1 - longest ?vs \<le> h" by simp
      then have "length s - h < longest ?vs" using pos by linarith
      with Some show ?thesis by (simp add: hold_start_def)
    qed (use pos in \<open>simp add: hold_start_def\<close>)
    have len: "n \<le> longest ?vs" if "(i, n) \<in> set (match_all ?vs b u)" for i n b u
      using that
    proof (induction ?vs b u rule: match_all.induct)
      case (2 b c u)
      then show ?case using props(2) match_at_Some [of ?vs "c # u"] by (auto split: option.splits)
    qed simp
    from assms(2) have "hold_start ?vs s < hold_from ?vs s + longest ?vs"
    proof (cases rule: hold_from_cases [of ?vs s])
      case tail with pos show ?thesis by simp
    next
      case (inside n)
      with len [OF inside(1)] show ?thesis by simp
    qed
    with hs assms(2) show ?thesis by (simp add: cut_of_def)
  qed
  have "length (held_text (snd (stream_pieces k ps m)) k) < 2 * longest ?vs"
    if "built_from secrets m" "ps \<noteq> []" for m ps
    using that
  proof (induction ps arbitrary: m)
    case (Cons p ps)
    obtain out m1 where one: "mask_stream k p m = (out, m1)" by fastforce
    note step = mask_stream_step [OF Cons.prems(1) one]
    show ?case
    proof (cases "ps = []")
      case True
      have "length (held_text m1 k) < 2 * longest ?vs"
        unfolding step(2) length_drop by (rule tail)
      with one True show ?thesis by simp
    next
      case False
      obtain outs m2 where "stream_pieces k ps m1 = (outs, m2)" by fastforce
      with Cons.IH [OF step(3) False] one show ?thesis by simp
    qed
  qed simp
  from this [OF new_mask_built(1) assms(1)] show ?thesis .
qed

theorem held_tail_bounded_witness:
  "length (held_text (snd (stream_pieces (''i'', TextField) [''ab'', ''sek''] (new_mask [(''K'', [''sekret9''])]))) (''i'', TextField))
    < 2 * longest (mask_values (new_mask [(''K'', [''sekret9''])]))"
proof (rule held_tail_bounded)
  have "''sekret9'' \<in> set (mask_values (new_mask [(''K'', [''sekret9''])]))"
    by (rule mask_values_contains) (auto simp: SECRET_MASK_MIN_LENGTH_def)
  then show "mask_values (new_mask [(''K'', [''sekret9''])]) \<noteq> []" by auto
qed simp

end
