(* ===== verification/Turn_Ingest.thy ===== *)
theory Turn_Ingest
  imports Activity Secret_Mask Reducer Session_Log
begin

text \<open>
  How one batch of an attempt's harness events becomes session events,
  \<open>packages/core/src/services/sessions/turn-ingest.ts\<close>. Item and request ids derive from the
  attempt and the adapter's keys; streamed text is gathered into one append per item and field;
  a mask replaces the values the turn's sandbox received; what Work owns of an item is never
  taken from a harness. \<open>ingest_env\<close> holds what is not this code: SHA-256 as hexadecimal digits,
  the ellipsis of a live line, and JavaScript's \<open>String\<close> of a number. A literal of the protocol, a
  field's name and an exit code are constructors and numbers here: what a mask would do to one
  that spells a secret is outside the model.
\<close>

section \<open>Derived ids\<close>

record ingest_env =
  en_sha :: "string \<Rightarrow> string"
  en_ellipsis :: char
  en_str :: "js_number \<Rightarrow> string"

definition hex_value :: "char \<Rightarrow> nat" where
  "hex_value c =
     (let n = of_char c :: nat in
      if 48 \<le> n \<and> n \<le> 57 then n - 48 else if 97 \<le> n \<and> n \<le> 102 then n - 87 else 0)"

text \<open>The layout of a version 8 UUID: \<open>(nibble & 0x3) | 0x8\<close> is the variant digit.\<close>

definition derived_id :: "(string \<Rightarrow> string) \<Rightarrow> ident \<Rightarrow> string \<Rightarrow> ident" where
  "derived_id sha attempt_id key =
     (let hex = sha (attempt_id @ char_of (0::nat) # key);
          dash = CHR ''-'';
          variant = hex_digit (hex_value (hex ! 16) mod 4 + 8)
      in take 8 hex @ dash # take 4 (drop 8 hex) @ dash # CHR ''8'' # take 3 (drop 13 hex) @ dash #
         variant # take 3 (drop 17 hex) @ dash # take 12 (drop 20 hex))"

definition request_key :: "string \<Rightarrow> string" where "request_key key = ''request:'' @ key"
definition request_item_key :: "string \<Rightarrow> string" where "request_item_key key = ''request-item:'' @ key"

section \<open>Items as a harness describes them\<close>

definition HARNESS_ITEM_KINDS :: "item_kind list" where
  "HARNESS_ITEM_KINDS = [KAssistantMessage, KReasoning, KToolCall, KCommand, KFileChange, KPlan, KSubagent]"

definition mask_ref :: "(string \<Rightarrow> string) \<Rightarrow> native_ref \<Rightarrow> native_ref" where
  "mask_ref f r = r\<lparr>n_id := f (n_id r)\<rparr>"

definition mask_step :: "(string \<Rightarrow> string) \<Rightarrow> plan_step \<Rightarrow> plan_step" where
  "mask_step f s = s\<lparr>ps_text := f (ps_text s)\<rparr>"

text \<open>
  \<open>mask.value\<close> of a draft or of changes: every string of the kinds a harness may start. The
  other kinds are refused before they are masked.
\<close>

definition mask_body :: "(js_number \<Rightarrow> string) \<Rightarrow> (string \<Rightarrow> string) \<Rightarrow> item_body \<Rightarrow> item_body" where
  "mask_body str f body =
     (case body of
        AssistantMessage t a \<Rightarrow> AssistantMessage (f t) (map_option f a)
      | Reasoning t \<Rightarrow> Reasoning (f t)
      | ToolCall tool server description inp res err \<Rightarrow>
          ToolCall (f tool) (map_option f server) (map_option f description) (mask_json str f inp)
            (map_option (mask_json str f) res) (map_option f err)
      | Command c description out code \<Rightarrow> Command (f c) (map_option f description) (f out) code
      | FileChange path change previous \<Rightarrow> FileChange (f path) change (map_option f previous)
      | Plan steps \<Rightarrow> Plan (map (mask_step f) steps)
      | Subagent title ty child res \<Rightarrow>
          Subagent (f title) (map_option f ty) (map_option f child) (map_option f res)
      | other \<Rightarrow> other)"

definition mask_changes :: "(js_number \<Rightarrow> string) \<Rightarrow> (string \<Rightarrow> string) \<Rightarrow> item_changes \<Rightarrow> item_changes" where
  "mask_changes str f c =
     c\<lparr>ch_text := map_option f (ch_text c), ch_agent_id := map_option (map_option f) (ch_agent_id c),
       ch_tool := map_option f (ch_tool c), ch_server := map_option (map_option f) (ch_server c),
       ch_description := map_option (map_option f) (ch_description c),
       ch_input := map_option (mask_json str f) (ch_input c),
       ch_result := map_option (map_option (mask_json str f)) (ch_result c),
       ch_error := map_option (map_option f) (ch_error c), ch_command := map_option f (ch_command c),
       ch_output := map_option f (ch_output c), ch_path := map_option f (ch_path c),
       ch_previous := map_option (map_option f) (ch_previous c),
       ch_steps := map_option (map (mask_step f)) (ch_steps c), ch_title := map_option f (ch_title c),
       ch_agent_type := map_option (map_option f) (ch_agent_type c),
       ch_child_session := map_option (map_option f) (ch_child_session c),
       ch_sub_result := map_option (map_option f) (ch_sub_result c)\<rparr>"

text \<open>\<open>WORK_OWNED_ITEM_FIELDS\<close>, deleted from what a harness sends.\<close>

definition content_of :: "item_changes \<Rightarrow> item_changes" where
  "content_of c =
     c\<lparr>ch_id := None, ch_session_id := None, ch_turn_id := None, ch_attempt_id := None,
       ch_parent_item_id := None, ch_position := None, ch_created_at := None\<rparr>"

text \<open>\<open>{...body, ...changes}\<close>: the fields of the item's own kind that the changes name.\<close>

definition merge_body :: "item_changes \<Rightarrow> item_body \<Rightarrow> item_body" where
  "merge_body c body =
     (case body of
        AssistantMessage t a \<Rightarrow> AssistantMessage (over (ch_text c) t) (over (ch_agent_id c) a)
      | Reasoning t \<Rightarrow> Reasoning (over (ch_text c) t)
      | ToolCall tool server description inp res err \<Rightarrow>
          ToolCall (over (ch_tool c) tool) (over (ch_server c) server) (over (ch_description c) description)
            (over (ch_input c) inp) (over (ch_result c) res) (over (ch_error c) err)
      | Command cmd description out code \<Rightarrow>
          Command (over (ch_command c) cmd) (over (ch_description c) description) (over (ch_output c) out)
            (over (ch_exit_code c) code)
      | FileChange path change previous \<Rightarrow>
          FileChange (over (ch_path c) path) (over (ch_change c) change) (over (ch_previous c) previous)
      | Plan steps \<Rightarrow> Plan (over (ch_steps c) steps)
      | Subagent title ty child res \<Rightarrow>
          Subagent (over (ch_title c) title) (over (ch_agent_type c) ty) (over (ch_child_session c) child)
            (over (ch_sub_result c) res)
      | other \<Rightarrow> other)"

definition merge_item :: "item_changes \<Rightarrow> item \<Rightarrow> item" where
  "merge_item c it =
     it\<lparr>i_id := over (ch_id c) (i_id it), i_session_id := over (ch_session_id c) (i_session_id it),
        i_turn_id := over (ch_turn_id c) (i_turn_id it), i_attempt_id := over (ch_attempt_id c) (i_attempt_id it),
        i_parent_item_id := over (ch_parent_item_id c) (i_parent_item_id it),
        i_position := over (ch_position c) (i_position it), i_created_at := over (ch_created_at c) (i_created_at it),
        i_body := merge_body c (i_body it)\<rparr>"

definition mask_error :: "(string \<Rightarrow> string) \<Rightarrow> turn_error \<Rightarrow> turn_error" where
  "mask_error f e = e\<lparr>e_message := f (e_message e)\<rparr>"

definition mask_questions :: "(string \<Rightarrow> string) \<Rightarrow> agent_question \<Rightarrow> agent_question" where
  "mask_questions f q =
     q\<lparr>q_question := f (q_question q), q_header := f (q_header q),
       q_options := map (\<lambda>opt. opt\<lparr>qo_label := f (qo_label opt), qo_description := f (qo_description opt)\<rparr>) (q_options q)\<rparr>"

definition mask_tool :: "(js_number \<Rightarrow> string) \<Rightarrow> (string \<Rightarrow> string) \<Rightarrow> approval_tool \<Rightarrow> approval_tool" where
  "mask_tool str f tool =
     tool\<lparr>at_server := map_option f (at_server tool), at_name := f (at_name tool),
          at_input := mask_json str f (at_input tool)\<rparr>"

definition mask_ask :: "(js_number \<Rightarrow> string) \<Rightarrow> (string \<Rightarrow> string) \<Rightarrow> approval_ask \<Rightarrow> approval_ask" where
  "mask_ask str f ask =
     ask\<lparr>aa_action := f (aa_action ask), aa_details := map_option f (aa_details ask),
         aa_tool := map_option (mask_tool str f) (aa_tool ask)\<rparr>"

definition mask_elicitation :: "(js_number \<Rightarrow> string) \<Rightarrow> (string \<Rightarrow> string) \<Rightarrow> elicitation_ask \<Rightarrow> elicitation_ask" where
  "mask_elicitation str f ask =
     ask\<lparr>ea_server := f (ea_server ask), ea_message := f (ea_message ask),
         ea_schema := map_option (\<lambda>ms. fold (put_row fst) (mask_members str f ms) []) (ea_schema ask),
         ea_url := map_option f (ea_url ask)\<rparr>"

definition mask_draft :: "(js_number \<Rightarrow> string) \<Rightarrow> (string \<Rightarrow> string) \<Rightarrow> request_draft \<Rightarrow> request_draft" where
  "mask_draft str f d =
     d\<lparr>rd_title := f (rd_title d), rd_description := map_option f (rd_description d),
       rd_origin := (rd_origin d)\<lparr>ro_id := f (ro_id (rd_origin d)),
         ro_display_name := map_option f (ro_display_name (rd_origin d))\<rparr>,
       rd_questions := map_option (map (mask_questions f)) (rd_questions d),
       rd_approval := map_option (mask_ask str f) (rd_approval d),
       rd_elicitation := map_option (mask_elicitation str f) (rd_elicitation d)\<rparr>"

section \<open>The state of a batch\<close>

text \<open>
  \<open>IngestState\<close> and what the loop's variables hold: the events so far, the turn, attempt and
  thread as they were last emitted, the items and requests the batch touches, the delta being
  gathered, the live line, and what the batch says beyond its events. The mask is the view of
  \<open>SecretMask.begin\<close>; the caller keeps it when the batch commits.
\<close>

record ingesting =
  ig_session_id :: ident
  ig_agent_id :: "ident option"
  ig_attempt_id :: ident
  ig_now :: instant
  ig_out :: "session_event list"
  ig_turn :: turn
  ig_attempt :: attempt
  ig_thread :: provider_thread
  ig_items :: "item list"
  ig_requests :: "runtime_request list"
  ig_pending :: "((ident \<times> stream_field) \<times> string) option"
  ig_line :: "string option"
  ig_mask :: "secret_mask option"
  ig_completed :: "(completion_status \<times> turn_error option \<times> native_ref option) option"
  ig_usage :: "agent_turn_usage option"
  ig_title :: "string option"
  ig_state_path :: "string option"
  ig_thread_lost :: "string option"
  ig_consumed :: "ident list"
  ig_started :: bool

definition emit :: "session_event \<Rightarrow> ingesting \<Rightarrow> ingesting" where
  "emit e s = s\<lparr>ig_out := ig_out s @ [e]\<rparr>"

definition emit_turn :: "turn \<Rightarrow> ingesting \<Rightarrow> ingesting" where
  "emit_turn t s =
     (let t' = t\<lparr>t_updated_at := ig_now s\<rparr> in emit (TurnChanged t') (s\<lparr>ig_turn := t'\<rparr>))"

definition masked :: "secret_mask option \<Rightarrow> ((string \<Rightarrow> string) \<Rightarrow> 'a \<Rightarrow> 'a) \<Rightarrow> 'a \<Rightarrow> 'a" where
  "masked mk f x =
     (case mk of None \<Rightarrow> x | Some m \<Rightarrow> if mask_values m = [] then x else f (mask_text m) x)"

definition masked_text :: "secret_mask option \<Rightarrow> string \<Rightarrow> string" where
  "masked_text mk t = (case mk of None \<Rightarrow> t | Some m \<Rightarrow> mask_text m t)"

text \<open>A delta through the mask: what may be recorded now.\<close>

definition stream_text :: "ident \<times> stream_field \<Rightarrow> string \<Rightarrow> ingesting \<Rightarrow> string \<times> ingesting" where
  "stream_text k t s =
     (case ig_mask s of
        None \<Rightarrow> (t, s)
      | Some m \<Rightarrow> (let (out, m') = mask_stream k t m in (out, s\<lparr>ig_mask := Some m'\<rparr>)))"

definition append_local :: "item \<Rightarrow> stream_field \<Rightarrow> string \<Rightarrow> instant \<Rightarrow> item" where
  "append_local it field txt tm =
     (case (field, i_body it) of
        (OutputField, Command c d out x) \<Rightarrow> it\<lparr>i_body := Command c d (out @ txt) x, i_updated_at := tm\<rparr>
      | (TextField, AssistantMessage t a) \<Rightarrow> it\<lparr>i_body := AssistantMessage (t @ txt) a, i_updated_at := tm\<rparr>
      | (TextField, Reasoning t) \<Rightarrow> it\<lparr>i_body := Reasoning (t @ txt), i_updated_at := tm\<rparr>
      | _ \<Rightarrow> it)"

definition flush_delta :: "ingesting \<Rightarrow> ingesting" where
  "flush_delta s =
     (case ig_pending s of
        None \<Rightarrow> s
      | Some ((iid, field), txt) \<Rightarrow>
          (let s' = emit (ItemTextAppended iid field txt (ig_now s)) s in
           s'\<lparr>ig_items := (case find_row i_id iid (ig_items s') of
                  None \<Rightarrow> ig_items s'
                | Some it \<Rightarrow> put_row i_id (append_local it field txt (ig_now s)) (ig_items s')),
              ig_pending := None\<rparr>))"

text \<open>\<open>release\<close>: what the mask held back of a field is recorded, if the batch knows its item.\<close>

definition release_held :: "ident \<times> stream_field \<Rightarrow> ingesting \<Rightarrow> ingesting" where
  "release_held k s =
     (case ig_mask s of
        None \<Rightarrow> s
      | Some m \<Rightarrow>
          (let (rest, m') = mask_flush k m; s' = s\<lparr>ig_mask := Some m'\<rparr> in
           if rest = [] \<or> find_row i_id (fst k) (ig_items s') = None then s'
           else flush_delta (s'\<lparr>ig_pending := Some (k, rest)\<rparr>)))"

section \<open>Items\<close>

definition new_item ::
  "ident \<Rightarrow> item_body \<Rightarrow> ident option \<Rightarrow> native_ref option \<Rightarrow> item_status \<Rightarrow> ingesting \<Rightarrow> item"
where
  "new_item iid body parent ref status s =
     \<lparr>i_id = iid, i_session_id = ig_session_id s, i_turn_id = Some (t_id (ig_turn s)),
      i_attempt_id = Some (a_id (ig_attempt s)), i_parent_item_id = parent, i_position = 0,
      i_status = status, i_native_ref = ref, i_created_at = ig_now s, i_updated_at = ig_now s,
      i_started_at = Some (ig_now s), i_ended_at = (if status = InProgress then None else Some (ig_now s)),
      i_body = (case body of AssistantMessage t None \<Rightarrow> AssistantMessage t (ig_agent_id s) | _ \<Rightarrow> body)\<rparr>"

text \<open>The draft's streamed field goes through the mask as a first delta.\<close>

definition stream_draft :: "ident \<Rightarrow> item_body \<Rightarrow> item_body \<Rightarrow> ingesting \<Rightarrow> item_body \<times> ingesting" where
  "stream_draft iid raw draft s =
     (case (raw, draft) of
        (AssistantMessage t _, AssistantMessage _ a) \<Rightarrow>
          (let (t', s') = stream_text (iid, TextField) t s in (AssistantMessage t' a, s'))
      | (Reasoning t, Reasoning _) \<Rightarrow>
          (let (t', s') = stream_text (iid, TextField) t s in (Reasoning t', s'))
      | (Command _ _ out _, Command c d _ x) \<Rightarrow>
          (let (out', s') = stream_text (iid, OutputField) out s in (Command c d out' x, s'))
      | _ \<Rightarrow> (draft, s))"

definition set_line :: "string option \<Rightarrow> ingesting \<Rightarrow> ingesting" where
  "set_line l s = (case l of None \<Rightarrow> s | Some _ \<Rightarrow> s\<lparr>ig_line := l\<rparr>)"

definition or_else :: "'a option \<Rightarrow> 'a option \<Rightarrow> 'a option" where
  "or_else a b = (case a of None \<Rightarrow> b | Some _ \<Rightarrow> a)"

definition start_item ::
  "ingest_env \<Rightarrow> string \<Rightarrow> native_ref option \<Rightarrow> item_draft \<Rightarrow> item_status option \<Rightarrow> string option \<Rightarrow>
   ingesting \<Rightarrow> ingesting"
where
  "start_item env key ref draft status activity s =
     (let iid = derived_id (en_sha env) (ig_attempt_id s) key in
      if find_row i_id iid (ig_items s) \<noteq> None \<or> kind_of (id_body draft) \<notin> set HARNESS_ITEM_KINDS then s
      else
        (let clean = masked (ig_mask s) (mask_body (en_str env)) (id_body draft);
             (body, s1) = (if ig_mask s \<noteq> None \<and> (status = None \<or> status = Some InProgress)
               then stream_draft iid (id_body draft) clean s else (clean, s));
             parent = (case id_parent_key draft of
                None \<Rightarrow> None
              | Some pk \<Rightarrow> if pk = [] then None else Some (derived_id (en_sha env) (ig_attempt_id s) pk));
             it = new_item iid body parent ref (case status of None \<Rightarrow> InProgress | Some x \<Rightarrow> x) s1;
             words = (case activity of None \<Rightarrow> None | Some t \<Rightarrow> Some (masked_text (ig_mask s1) t))
         in set_line (or_else (activity_line (en_ellipsis env) ACTIVITY_MAX words) (item_activity (en_ellipsis env) it))
              (emit (ItemAdded it) (s1\<lparr>ig_items := put_row i_id it (ig_items s1)\<rparr>))))"

definition delta_item :: "ingest_env \<Rightarrow> string \<Rightarrow> stream_field \<Rightarrow> string \<Rightarrow> ingesting \<Rightarrow> ingesting" where
  "delta_item env key field raw s =
     (let iid = derived_id (en_sha env) (ig_attempt_id s) key in
      if find_row i_id iid (ig_items s) = None then s
      else
        (let (txt, s1) = stream_text (iid, field) raw s in
         if txt = [] then s1
         else
           (let s2 = (case ig_pending s1 of
                  Some (k, _) \<Rightarrow> if k \<noteq> (iid, field) then flush_delta s1 else s1
                | None \<Rightarrow> s1)
            in s2\<lparr>ig_pending := (case ig_pending s2 of
                   Some (k, before) \<Rightarrow> Some (k, before @ txt)
                 | None \<Rightarrow> Some ((iid, field), txt))\<rparr>)))"

definition changed_field :: "stream_field \<Rightarrow> item_changes \<Rightarrow> string option" where
  "changed_field field c = (case field of TextField \<Rightarrow> ch_text c | OutputField \<Rightarrow> ch_output c)"

definition set_field :: "stream_field \<Rightarrow> string \<Rightarrow> item_changes \<Rightarrow> item_changes" where
  "set_field field t c =
     (case field of TextField \<Rightarrow> c\<lparr>ch_text := Some t\<rparr> | OutputField \<Rightarrow> c\<lparr>ch_output := Some t\<rparr>)"

definition drop_held :: "ident \<times> stream_field \<Rightarrow> ingesting \<Rightarrow> ingesting" where
  "drop_held k s = s\<lparr>ig_mask := map_option (forget_held k) (ig_mask s)\<rparr>"

text \<open>
  One streamed field of an item that is updated or ends. A field given whole replaces what
  streamed into it, and of an update starts the stream anew; an item that ends records what its
  stream still held.
\<close>

definition settle_field ::
  "bool \<Rightarrow> ident \<Rightarrow> item_changes option \<Rightarrow> stream_field \<Rightarrow> item_changes option \<times> ingesting \<Rightarrow>
   item_changes option \<times> ingesting"
where
  "settle_field ends iid raw field acc =
     (case acc of (changes, s) \<Rightarrow>
        (case (changes, Option.bind raw (changed_field field)) of
           (Some c, Some t) \<Rightarrow>
             (let s1 = drop_held (iid, field) s in
              if ig_mask s1 \<noteq> None \<and> \<not> ends
              then (let (t', s2) = stream_text (iid, field) t s1 in (Some (set_field field t' c), s2))
              else (changes, s1))
         | _ \<Rightarrow> (changes, if ends then release_held (iid, field) s else s)))"

definition change_item ::
  "ingest_env \<Rightarrow> string \<Rightarrow> item_changes option \<Rightarrow> item_status option \<Rightarrow> ingesting \<Rightarrow> ingesting"
where
  "change_item env key raw ended s =
     (let iid = derived_id (en_sha env) (ig_attempt_id s) key in
      if find_row i_id iid (ig_items s) = None then s
      else
        (let clean = map_option (masked (ig_mask s) (mask_changes (en_str env))) raw;
             (changes, s1) = settle_field (ended \<noteq> None) iid raw OutputField
               (settle_field (ended \<noteq> None) iid raw TextField (clean, s))
         in case find_row i_id iid (ig_items s1) of
              None \<Rightarrow> s1
            | Some current \<Rightarrow>
                (let merged = (case changes of None \<Rightarrow> current | Some c \<Rightarrow> merge_item (content_of c) current);
                     final = (case ended of None \<Rightarrow> merged
                        | Some st \<Rightarrow> merged\<lparr>i_status := st, i_ended_at := Some (ig_now s1)\<rparr>)
                       \<lparr>i_updated_at := ig_now s1\<rparr>
                 in emit (ItemChanged final) (s1\<lparr>ig_items := put_row i_id final (ig_items s1)\<rparr>))))"

section \<open>Requests\<close>

definition waiting_line :: "request_kind \<Rightarrow> string" where
  "waiting_line kind = (if kind = KApproval then ''Waiting for your approval'' else ''Waiting for your answer'')"

definition opened_request :: "ident \<Rightarrow> ident \<Rightarrow> string \<Rightarrow> request_draft \<Rightarrow> ingesting \<Rightarrow> runtime_request" where
  "opened_request rid iid key d s =
     \<lparr>r_id = rid, r_session_id = ig_session_id s, r_turn_id = Some (t_id (ig_turn s)),
      r_attempt_id = Some (ig_attempt_id s), r_item_id = Some iid, r_kind = rd_kind d, r_status = RPending,
      r_answerable = True, r_blocking = rd_blocking d, r_title = rd_title d,
      r_description = rd_description d, r_origin = rd_origin d, r_questions = rd_questions d,
      r_approval = rd_approval d, r_elicitation = rd_elicitation d, r_approvers = [],
      r_expires_at = None, r_response = None, r_resolved_by = None, r_reason = None,
      r_created_at = ig_now s, r_resolved_at = None, r_runner_key = Some key\<rparr>"

definition open_request :: "ingest_env \<Rightarrow> string \<Rightarrow> request_draft \<Rightarrow> ingesting \<Rightarrow> ingesting" where
  "open_request env key draft s =
     (let rid = derived_id (en_sha env) (ig_attempt_id s) (request_key key);
          iid = derived_id (en_sha env) (ig_attempt_id s) (request_item_key key) in
      if find_row r_id rid (ig_requests s) \<noteq> None then s
      else
        (let request = opened_request rid iid key (masked (ig_mask s) (mask_draft (en_str env)) draft) s;
             s1 = emit (RequestChanged request) (s\<lparr>ig_requests := put_row r_id request (ig_requests s)\<rparr>);
             it = new_item iid (RequestBody rid) None None InProgress s1;
             s2 = emit (ItemAdded it) (s1\<lparr>ig_items := put_row i_id it (ig_items s1)\<rparr>)
         in if rd_blocking draft \<and> t_status (ig_turn s2) = Running
            then emit_turn ((ig_turn s2)\<lparr>t_status := Waiting, t_activity := Some (waiting_line (rd_kind draft)),
                   t_activity_at := Some (ig_now s2)\<rparr>) s2
            else s2))"

definition close_request :: "ingest_env \<Rightarrow> string \<Rightarrow> string \<Rightarrow> ingesting \<Rightarrow> ingesting" where
  "close_request env key reason s =
     (case find_row r_id (derived_id (en_sha env) (ig_attempt_id s) (request_key key)) (ig_requests s) of
        None \<Rightarrow> s
      | Some current \<Rightarrow>
          if r_status current \<noteq> RPending then s
          else
            (let closed = current\<lparr>r_status := RCancelled, r_answerable := False,
                   r_reason := Some (masked_text (ig_mask s) reason), r_resolved_at := Some (ig_now s)\<rparr>
             in emit (RequestChanged closed) (s\<lparr>ig_requests := put_row r_id closed (ig_requests s)\<rparr>)))"

section \<open>One event, and the batch\<close>

definition clear_retry :: "ingesting \<Rightarrow> ingesting" where
  "clear_retry s =
     (if t_provider_retry (ig_turn s) \<noteq> None then emit_turn ((ig_turn s)\<lparr>t_provider_retry := None\<rparr>) s else s)"

definition end_turn ::
  "completion_status \<Rightarrow> turn_error option \<Rightarrow> native_ref option \<Rightarrow> ingesting \<Rightarrow> ingesting"
where
  "end_turn status err ref s =
     (let s1 = clear_retry s;
          s2 = fold release_held (case ig_mask s1 of None \<Rightarrow> [] | Some m \<Rightarrow> mask_holding m) s1
      in s2\<lparr>ig_completed := Some (status, map_option (masked (ig_mask s2) mask_error) err, ref)\<rparr>)"

definition ingest_event :: "ingest_env \<Rightarrow> harness_event \<Rightarrow> ingesting \<Rightarrow> ingesting" where
  "ingest_event env event s0 =
     (let s = (case event of ItemDelta _ _ _ \<Rightarrow> s0 | _ \<Rightarrow> flush_delta s0) in
      case event of
        ThreadEvent ref path \<Rightarrow>
          if p_status (ig_thread s) = ThreadUnavailable then s
          else
            (let th = (ig_thread s)\<lparr>p_native_ref := Some ref, p_status := ThreadActive, p_updated_at := ig_now s\<rparr>;
                 s1 = emit (ProviderThreadChanged th) (s\<lparr>ig_thread := th\<rparr>)
             in (case path of Some p \<Rightarrow> if p \<noteq> [] then s1\<lparr>ig_state_path := Some p\<rparr> else s1 | None \<Rightarrow> s1))
      | ThreadLost reason \<Rightarrow>
          (let th = (ig_thread s)\<lparr>p_status := ThreadUnavailable, p_updated_at := ig_now s\<rparr>
           in (emit (ProviderThreadChanged th) (s\<lparr>ig_thread := th\<rparr>))
              \<lparr>ig_thread_lost := Some (masked_text (ig_mask s) reason)\<rparr>)
      | TurnStarted ref \<Rightarrow>
          (let s1 = s\<lparr>ig_started := True\<rparr> in
           case ref of
             None \<Rightarrow> s1
           | Some _ \<Rightarrow>
               (let a = (ig_attempt s1)\<lparr>a_native_turn_ref := ref\<rparr> in emit (AttemptChanged a) (s1\<lparr>ig_attempt := a\<rparr>)))
      | ItemStarted key ref draft status activity \<Rightarrow> start_item env key ref draft status activity s
      | ItemDelta key field txt \<Rightarrow> delta_item env key field txt s
      | ItemUpdated key changes \<Rightarrow> change_item env key (Some changes) None s
      | ItemEnded key status changes \<Rightarrow> change_item env key changes (Some status) s
      | RequestOpened key draft \<Rightarrow> open_request env key draft s
      | RequestClosed key reason \<Rightarrow> close_request env key reason s
      | ProviderRetrying retry \<Rightarrow>
          emit_turn ((ig_turn s)\<lparr>t_provider_retry :=
            Some (retry\<lparr>pr_error_message := masked_text (ig_mask s) (pr_error_message retry)\<rparr>)\<rparr>) s
      | ProviderResumed \<Rightarrow> clear_retry s
      | StatusLine t \<Rightarrow>
          set_line (activity_line (en_ellipsis env) ACTIVITY_MAX (Some (masked_text (ig_mask s) t))) s
      | TitleEvent t \<Rightarrow> s\<lparr>ig_title := Some (take 500 (js_trim (masked_text (ig_mask s) t)))\<rparr>
      | UsageEvent u \<Rightarrow> s\<lparr>ig_usage := Some u\<rparr>
      | InputConsumed ids \<Rightarrow> s\<lparr>ig_consumed := ig_consumed s @ ids\<rparr>
      | Diagnostic _ _ \<Rightarrow> s
      | TurnEnded status err ref \<Rightarrow> end_turn status err ref s)"

text \<open>The items and requests a batch names, by their derived ids.\<close>

definition named_item :: "ingest_env \<Rightarrow> ident \<Rightarrow> harness_event \<Rightarrow> ident list" where
  "named_item env aid event =
     (case event of
        ItemStarted key _ _ _ _ \<Rightarrow> [derived_id (en_sha env) aid key]
      | ItemDelta key _ _ \<Rightarrow> [derived_id (en_sha env) aid key]
      | ItemUpdated key _ \<Rightarrow> [derived_id (en_sha env) aid key]
      | ItemEnded key _ _ \<Rightarrow> [derived_id (en_sha env) aid key]
      | _ \<Rightarrow> [])"

definition named_request :: "ingest_env \<Rightarrow> ident \<Rightarrow> harness_event \<Rightarrow> ident list" where
  "named_request env aid event =
     (case event of
        RequestOpened key _ \<Rightarrow> [derived_id (en_sha env) aid (request_key key)]
      | RequestClosed key _ \<Rightarrow> [derived_id (en_sha env) aid (request_key key)]
      | _ \<Rightarrow> [])"

definition load_batch ::
  "ingest_env \<Rightarrow> instant \<Rightarrow> db \<Rightarrow> ident \<Rightarrow> ident option \<Rightarrow> turn \<Rightarrow> attempt \<Rightarrow> provider_thread \<Rightarrow>
   secret_mask option \<Rightarrow> harness_event list \<Rightarrow> ingesting"
where
  "load_batch env now d sid agent t a th mk events =
     (let item_ids = concat (map (named_item env (a_id a)) events);
          request_ids = concat (map (named_request env (a_id a)) events)
      in \<lparr>ig_session_id = sid, ig_agent_id = agent, ig_attempt_id = a_id a, ig_now = now, ig_out = [],
          ig_turn = t, ig_attempt = a, ig_thread = th,
          ig_items = fold (\<lambda>r. put_row i_id (item_from_row r))
            (filter (\<lambda>r. ir_id r \<in> set item_ids) (db_items d)) [],
          ig_requests = fold (\<lambda>r. put_row r_id (request_from_row r))
            (filter (\<lambda>r. rr_session_id r = sid \<and> rr_request_id r \<in> set request_ids) (db_requests d)) [],
          ig_pending = None, ig_line = None, ig_mask = mk, ig_completed = None, ig_usage = None,
          ig_title = None, ig_state_path = None, ig_thread_lost = None, ig_consumed = [], ig_started = False\<rparr>)"

text \<open>What the batch leaves blocking: its own requests as it knows them, the others as stored.\<close>

definition still_waiting :: "ingesting \<Rightarrow> bool" where
  "still_waiting s \<longleftrightarrow> (\<exists>r \<in> set (ig_requests s). r_status r = RPending \<and> r_blocking r)"

definition waits_elsewhere :: "db \<Rightarrow> ident \<Rightarrow> ident \<Rightarrow> ident set \<Rightarrow> bool" where
  "waits_elsewhere d sid tid known \<longleftrightarrow>
     (\<exists>r \<in> set (db_requests d). rr_session_id r = sid \<and> rr_turn_id r = Some tid \<and> rr_status r = RPending \<and>
        rr_blocking r \<and> rr_request_id r \<notin> known)"

definition resume_turn :: "db \<Rightarrow> ingesting \<Rightarrow> ingesting" where
  "resume_turn d s =
     (if t_status (ig_turn s) = Waiting \<and> \<not> still_waiting s \<and>
         \<not> waits_elsewhere d (ig_session_id s) (t_id (ig_turn s)) (r_id ` set (ig_requests s))
      then emit_turn ((ig_turn s)\<lparr>t_status := Running\<rparr>) s else s)"

definition live_line :: "ingesting \<Rightarrow> ingesting" where
  "live_line s =
     (case ig_line s of
        None \<Rightarrow> s
      | Some l \<Rightarrow>
          if l \<noteq> [] \<and> t_activity (ig_turn s) \<noteq> Some l \<and> t_status (ig_turn s) = Running
          then emit_turn ((ig_turn s)\<lparr>t_activity := Some l, t_activity_at := Some (ig_now s)\<rparr>) s else s)"

definition read_steers :: "db \<Rightarrow> ingesting \<Rightarrow> ingesting" where
  "read_steers d s =
     s\<lparr>ig_out := ig_out s @
        map (\<lambda>r. ItemChanged ((item_from_row r)\<lparr>i_status := ItemCompleted, i_updated_at := ig_now s\<rparr>))
          (filter (\<lambda>r. ir_id r \<in> set (ig_consumed s) \<and> ir_turn_id r = Some (t_id (ig_turn s)) \<and>
             ir_status r = InProgress) (db_items d))\<rparr>"

definition ingest_harness_events ::
  "ingest_env \<Rightarrow> instant \<Rightarrow> db \<Rightarrow> ident \<Rightarrow> ident option \<Rightarrow> turn \<Rightarrow> attempt \<Rightarrow> provider_thread \<Rightarrow>
   secret_mask option \<Rightarrow> harness_event list \<Rightarrow> ingesting"
where
  "ingest_harness_events env now d sid agent t a th mk events =
     (let s = flush_delta (fold (ingest_event env) events (load_batch env now d sid agent t a th mk events))
      in read_steers d (live_line (resume_turn d s)))"

section \<open>What a batch does, move by move\<close>

text \<open>
  The fields of an item that are Work's, and what a batch may change of a turn, an attempt and a
  thread.
\<close>

definition owned :: "item \<Rightarrow> ident \<times> ident \<times> ident option \<times> ident option \<times> ident option \<times> nat \<times> item_kind \<times> instant" where
  "owned it = (i_id it, i_session_id it, i_turn_id it, i_attempt_id it, i_parent_item_id it, i_position it,
     kind_of (i_body it), i_created_at it)"

definition same_turn :: "turn \<Rightarrow> turn \<Rightarrow> bool" where
  "same_turn t t' \<longleftrightarrow>
     t' = t\<lparr>t_status := t_status t', t_activity := t_activity t', t_activity_at := t_activity_at t',
            t_provider_retry := t_provider_retry t', t_updated_at := t_updated_at t'\<rparr>"

definition same_attempt :: "attempt \<Rightarrow> attempt \<Rightarrow> bool" where
  "same_attempt a a' \<longleftrightarrow> a' = a\<lparr>a_native_turn_ref := a_native_turn_ref a'\<rparr>"

definition same_thread :: "provider_thread \<Rightarrow> provider_thread \<Rightarrow> bool" where
  "same_thread p p' \<longleftrightarrow>
     p' = p\<lparr>p_native_ref := p_native_ref p', p_status := p_status p', p_updated_at := p_updated_at p'\<rparr>"

lemma same_refl [simp]: "same_turn t t" "same_attempt a a" "same_thread p p"
  by (simp_all add: same_turn_def same_attempt_def same_thread_def)

lemma same_turn_trans: "same_turn a b \<Longrightarrow> same_turn b c \<Longrightarrow> same_turn a c"
  unfolding same_turn_def by (cases a; cases b; cases c) simp

lemma same_attempt_trans: "same_attempt a b \<Longrightarrow> same_attempt b c \<Longrightarrow> same_attempt a c"
  unfolding same_attempt_def by (cases a; cases b; cases c) simp

lemma same_thread_trans: "same_thread a b \<Longrightarrow> same_thread b c \<Longrightarrow> same_thread a c"
  unfolding same_thread_def by (cases a; cases b; cases c) simp

text \<open>What no event and no move touches: the parts every later step reads.\<close>

definition quiet :: "ingesting \<Rightarrow> ingesting \<Rightarrow> bool" where
  "quiet s s' \<longleftrightarrow>
     ig_session_id s' = ig_session_id s \<and> ig_attempt_id s' = ig_attempt_id s \<and> ig_now s' = ig_now s \<and>
     ig_out s' = ig_out s \<and> ig_turn s' = ig_turn s \<and> ig_attempt s' = ig_attempt s \<and>
     ig_thread s' = ig_thread s \<and> ig_items s' = ig_items s \<and> ig_requests s' = ig_requests s"

text \<open>
  The moves: nothing visible; a text append to an item the batch knows; a new item; an item
  changed in what is not Work's; a request opened or closed; the turn, the attempt or the thread.
  \<open>keys\<close> are the item ids the batch's events name.
\<close>

inductive move :: "ident set \<Rightarrow> ingesting \<Rightarrow> ingesting \<Rightarrow> bool" for ids where
  Quiet: "quiet s s' \<Longrightarrow> move ids s s'"
| Appends: "find_row i_id iid (ig_items s) = Some it \<Longrightarrow>
    quiet (s\<lparr>ig_out := ig_out s @ [ItemTextAppended iid field txt (ig_now s)],
             ig_items := put_row i_id (append_local it field txt (ig_now s)) (ig_items s)\<rparr>) s' \<Longrightarrow> move ids s s'"
| Adds: "i_session_id it = ig_session_id s \<Longrightarrow> i_turn_id it = Some (t_id (ig_turn s)) \<Longrightarrow>
    i_attempt_id it = Some (a_id (ig_attempt s)) \<Longrightarrow> i_position it = 0 \<Longrightarrow>
    kind_of (i_body it) = KRequest \<or>
      kind_of (i_body it) \<in> set HARNESS_ITEM_KINDS \<and> i_id it \<in> ids \<and> find_row i_id (i_id it) (ig_items s) = None \<Longrightarrow>
    quiet (s\<lparr>ig_out := ig_out s @ [ItemAdded it], ig_items := put_row i_id it (ig_items s)\<rparr>) s' \<Longrightarrow> move ids s s'"
| Changes: "find_row i_id (i_id it) (ig_items s) = Some before \<Longrightarrow> owned it = owned before \<Longrightarrow>
    quiet (s\<lparr>ig_out := ig_out s @ [ItemChanged it], ig_items := put_row i_id it (ig_items s)\<rparr>) s' \<Longrightarrow> move ids s s'"
| Asks: "r_session_id rq = ig_session_id s \<Longrightarrow> r_turn_id rq = Some (t_id (ig_turn s)) \<Longrightarrow>
    r_attempt_id rq = Some (ig_attempt_id s) \<Longrightarrow> r_status rq = RPending \<Longrightarrow>
    find_row r_id (r_id rq) (ig_requests s) = None \<Longrightarrow>
    quiet (s\<lparr>ig_out := ig_out s @ [RequestChanged rq], ig_requests := put_row r_id rq (ig_requests s)\<rparr>) s' \<Longrightarrow> move ids s s'"
| Withdraws: "find_row r_id (r_id rq) (ig_requests s) = Some before \<Longrightarrow> r_status before = RPending \<Longrightarrow>
    rq = before\<lparr>r_status := RCancelled, r_answerable := False, r_reason := r_reason rq, r_resolved_at := r_resolved_at rq\<rparr> \<Longrightarrow>
    quiet (s\<lparr>ig_out := ig_out s @ [RequestChanged rq], ig_requests := put_row r_id rq (ig_requests s)\<rparr>) s' \<Longrightarrow> move ids s s'"
| Turns: "same_turn (ig_turn s) t' \<Longrightarrow>
    quiet (s\<lparr>ig_out := ig_out s @ [TurnChanged t'], ig_turn := t'\<rparr>) s' \<Longrightarrow> move ids s s'"
| Attempts: "same_attempt (ig_attempt s) a' \<Longrightarrow>
    quiet (s\<lparr>ig_out := ig_out s @ [AttemptChanged a'], ig_attempt := a'\<rparr>) s' \<Longrightarrow> move ids s s'"
| Threads: "same_thread (ig_thread s) p' \<Longrightarrow>
    quiet (s\<lparr>ig_out := ig_out s @ [ProviderThreadChanged p'], ig_thread := p'\<rparr>) s' \<Longrightarrow> move ids s s'"

abbreviation moves :: "ident set \<Rightarrow> ingesting \<Rightarrow> ingesting \<Rightarrow> bool" where
  "moves ids \<equiv> (move ids)\<^sup>*\<^sup>*"

lemma quiet_refl [simp]: "quiet s s"
  by (simp add: quiet_def)

lemma quiet_moves: "quiet s s' \<Longrightarrow> moves ids s s'"
  by (blast intro: move.Quiet)

text \<open>The text being gathered is of an item the batch knows, and every move keeps its items.\<close>

definition pending_known :: "ingesting \<Rightarrow> bool" where
  "pending_known s \<longleftrightarrow>
     (case ig_pending s of None \<Rightarrow> True | Some (k, _) \<Rightarrow> find_row i_id (fst k) (ig_items s) \<noteq> None)"

lemma append_local_id [simp]: "i_id (append_local it field txt tm) = i_id it"
  by (auto simp: append_local_def split: stream_field.splits item_body.splits)

lemma append_local_owned [simp]: "owned (append_local it field txt tm) = owned it"
  by (auto simp: append_local_def owned_def split: stream_field.splits item_body.splits)

lemma append_local_text: "append_local it field txt tm = append_text it field txt tm"
  by (auto simp: append_local_def append_text_def split: stream_field.splits item_body.splits)

lemma find_put_row: "find_row key k (put_row key r xs) = (if k = key r then Some r else find_row key k xs)"
  by (simp add: put_row_lookup_same put_row_lookup_other)

lemma find_row_key: "find_row key k xs = Some r \<Longrightarrow> key r = k"
  by (drule find_row_Some) simp

definition goes :: "ident set \<Rightarrow> ingesting \<Rightarrow> ingesting \<Rightarrow> bool" where
  "goes ids s s' \<longleftrightarrow> (pending_known s \<longrightarrow> moves ids s s' \<and> pending_known s')"

lemma goes_refl [simp]: "goes ids s s"
  by (simp add: goes_def)

lemma goes_trans: "goes ids a b \<Longrightarrow> goes ids b c \<Longrightarrow> goes ids a c"
  unfolding goes_def by (meson rtranclp_trans)

lemma goes_quiet: "quiet s s' \<Longrightarrow> ig_pending s' = ig_pending s \<Longrightarrow> goes ids s s'"
  unfolding goes_def by (simp add: quiet_moves) (simp add: pending_known_def quiet_def split: option.split)

lemma goes_move:
  assumes "move ids s s'" and "ig_pending s' = ig_pending s"
    and "\<And>k. find_row i_id k (ig_items s) \<noteq> None \<Longrightarrow> find_row i_id k (ig_items s') \<noteq> None"
  shows "goes ids s s'"
  using assms by (auto simp: goes_def pending_known_def split: option.splits)

lemma goes_emit_turn: "same_turn (ig_turn s) t \<Longrightarrow> goes ids s (emit_turn t s)"
proof -
  assume same: "same_turn (ig_turn s) t"
  define t' where "t' = t\<lparr>t_updated_at := ig_now s\<rparr>"
  have "same_turn (ig_turn s) t'" using same by (cases t; cases "ig_turn s") (simp add: same_turn_def t'_def)
  then have "move ids s (emit_turn t s)"
    by (rule move.Turns) (simp add: quiet_def emit_turn_def emit_def Let_def t'_def)
  then show ?thesis by (rule goes_move) (simp_all add: emit_turn_def emit_def Let_def)
qed

lemma goes_flush: "goes ids s (flush_delta s)"
proof (cases "ig_pending s")
  case (Some p)
  obtain iid field t where p: "p = ((iid, field), t)" by (metis surj_pair)
  show ?thesis unfolding goes_def
  proof
    assume "pending_known s"
    with Some p obtain it where it: "find_row i_id iid (ig_items s) = Some it" by (auto simp: pending_known_def)
    then have "move ids s (flush_delta s)"
      by (rule move.Appends [of _ _ _ field t]) (simp add: quiet_def flush_delta_def emit_def Some p it)
    moreover have "ig_pending (flush_delta s) = None" by (simp add: flush_delta_def Some p emit_def Let_def)
    ultimately show "moves ids s (flush_delta s) \<and> pending_known (flush_delta s)"
      by (simp add: pending_known_def r_into_rtranclp)
  qed
qed (simp add: flush_delta_def)

lemma flush_delta_frame [simp]:
  "ig_session_id (flush_delta s) = ig_session_id s" "ig_attempt_id (flush_delta s) = ig_attempt_id s"
  "ig_now (flush_delta s) = ig_now s" "ig_turn (flush_delta s) = ig_turn s" "ig_attempt (flush_delta s) = ig_attempt s"
  "ig_thread (flush_delta s) = ig_thread s" "ig_requests (flush_delta s) = ig_requests s"
  "ig_pending (flush_delta s) = None" "ig_mask (flush_delta s) = ig_mask s" "ig_agent_id (flush_delta s) = ig_agent_id s"
  "ig_consumed (flush_delta s) = ig_consumed s" "ig_line (flush_delta s) = ig_line s"
  by (auto simp: flush_delta_def emit_def Let_def split: option.splits prod.splits)

lemma stream_text_quiet: "stream_text k t s = (t', s') \<Longrightarrow> quiet s s' \<and> ig_pending s' = ig_pending s"
  by (auto simp: stream_text_def quiet_def split: option.splits prod.splits)

lemma stream_draft_quiet:
  "stream_draft iid raw draft s = (b, s') \<Longrightarrow> quiet s s' \<and> ig_pending s' = ig_pending s \<and> kind_of b = kind_of draft"
  unfolding stream_draft_def
  by (auto split: item_body.splits prod.splits dest: stream_text_quiet)

lemma goes_release: "goes ids s (release_held k s)"
proof (cases "ig_mask s")
  case (Some m)
  obtain rest m' where flush: "mask_flush k m = (rest, m')" by fastforce
  define s' where "s' = s\<lparr>ig_mask := Some m'\<rparr>"
  have q: "quiet s s'" "ig_pending s' = ig_pending s" by (simp_all add: s'_def quiet_def)
  show ?thesis
  proof (cases "rest = [] \<or> find_row i_id (fst k) (ig_items s') = None")
    case True
    with Some flush q show ?thesis by (auto simp: release_held_def s'_def Let_def intro: goes_quiet)
  next
    case False
    define s2 where "s2 = s'\<lparr>ig_pending := Some (k, rest)\<rparr>"
    have "goes ids s s2"
      using False by (auto simp: goes_def pending_known_def s2_def s'_def intro!: quiet_moves) (simp add: quiet_def)
    with goes_flush have "goes ids s (flush_delta s2)" by (blast intro: goes_trans)
    with False Some flush show ?thesis by (auto simp: release_held_def s'_def s2_def Let_def)
  qed
qed (simp add: release_held_def)

lemma mask_body_kind [simp]: "kind_of (mask_body str f b) = kind_of b"
  by (cases b) (simp_all add: mask_body_def)

lemma masked_body_kind [simp]: "kind_of (masked mk (mask_body str) b) = kind_of b"
  by (simp add: masked_def split: option.splits)

lemma new_item_frame [simp]:
  "i_id (new_item iid body parent ref status s) = iid" "i_session_id (new_item iid body parent ref status s) = ig_session_id s"
  "i_turn_id (new_item iid body parent ref status s) = Some (t_id (ig_turn s))"
  "i_attempt_id (new_item iid body parent ref status s) = Some (a_id (ig_attempt s))"
  "i_position (new_item iid body parent ref status s) = 0"
  "kind_of (i_body (new_item iid body parent ref status s)) = kind_of body"
  by (auto simp: new_item_def split: item_body.splits option.splits)

lemma set_line_quiet: "quiet s (set_line l s)" "ig_pending (set_line l s) = ig_pending s"
  by (auto simp: set_line_def quiet_def split: option.splits)

lemma quiet_trans: "quiet a b \<Longrightarrow> quiet b c \<Longrightarrow> quiet a c"
  by (simp add: quiet_def)

lemma goes_start:
  assumes "derived_id (en_sha env) (ig_attempt_id s) key \<in> ids"
  shows "goes ids s (start_item env key ref draft status activity s)"
proof -
  define iid where "iid = derived_id (en_sha env) (ig_attempt_id s) key"
  define clean where "clean = masked (ig_mask s) (mask_body (en_str env)) (id_body draft)"
  obtain body s1 where b: "(if ig_mask s \<noteq> None \<and> (status = None \<or> status = Some InProgress)
      then stream_draft iid (id_body draft) clean s else (clean, s)) = (body, s1)" by fastforce
  have q: "quiet s s1" "ig_pending s1 = ig_pending s" "kind_of body = kind_of (id_body draft)"
    using b stream_draft_quiet by (auto simp: clean_def split: if_splits)
  show ?thesis
  proof (cases "find_row i_id iid (ig_items s) \<noteq> None \<or> kind_of (id_body draft) \<notin> set HARNESS_ITEM_KINDS")
    case True
    then show ?thesis by (simp add: start_item_def iid_def [symmetric])
  next
    case False
    define it where "it = new_item iid body (case id_parent_key draft of None \<Rightarrow> None
              | Some pk \<Rightarrow> if pk = [] then None else Some (derived_id (en_sha env) (ig_attempt_id s) pk))
              ref (case status of None \<Rightarrow> InProgress | Some x \<Rightarrow> x) s1"
    obtain l where l: "start_item env key ref draft status activity s =
        set_line l (emit (ItemAdded it) (s1\<lparr>ig_items := put_row i_id it (ig_items s1)\<rparr>))"
      using False b unfolding start_item_def Let_def iid_def [symmetric] clean_def [symmetric]
      by (auto simp: it_def)
    have "goes ids s s1" using q by (simp add: goes_quiet)
    moreover have "goes ids s1 (set_line l (emit (ItemAdded it) (s1\<lparr>ig_items := put_row i_id it (ig_items s1)\<rparr>)))"
    proof (rule goes_move)
      show "move ids s1 (set_line l (emit (ItemAdded it) (s1\<lparr>ig_items := put_row i_id it (ig_items s1)\<rparr>)))"
        by (rule move.Adds [of it]) (use False q assms set_line_quiet(1) in \<open>auto simp: it_def quiet_def emit_def set_line_def iid_def split: option.splits\<close>)
    qed (auto simp: set_line_def emit_def find_put_row split: option.splits)
    ultimately show ?thesis unfolding l by (rule goes_trans)
  qed
qed

lemma goes_delta: "goes ids s (delta_item env key field raw s)"
proof -
  define iid where "iid = derived_id (en_sha env) (ig_attempt_id s) key"
  obtain t s1 where st: "stream_text (iid, field) raw s = (t, s1)" by fastforce
  note q = stream_text_quiet [OF st]
  define s2 where "s2 = (case ig_pending s1 of Some (k, _) \<Rightarrow> if k \<noteq> (iid, field) then flush_delta s1 else s1 | None \<Rightarrow> s1)"
  define s3 where "s3 = s2\<lparr>ig_pending := (case ig_pending s2 of Some (k, before) \<Rightarrow> Some (k, before @ t) | None \<Rightarrow> Some ((iid, field), t))\<rparr>"
  have g1: "goes ids s s1" using q by (simp add: goes_quiet)
  have g2: "goes ids s1 s2" unfolding s2_def by (auto split: option.splits intro: goes_flush)
  show ?thesis
  proof (cases "find_row i_id iid (ig_items s) = None \<or> t = []")
    case True
    with g1 st show ?thesis by (auto simp: delta_item_def Let_def iid_def [symmetric])
  next
    case False
    have known: "find_row i_id iid (ig_items s2) \<noteq> None"
      using False q by (auto simp: s2_def flush_delta_def emit_def Let_def quiet_def find_put_row
          split: option.splits prod.splits)
    have "goes ids s2 s3"
      unfolding goes_def
    proof (intro impI conjI)
      show "moves ids s2 s3" by (rule quiet_moves) (simp add: quiet_def s3_def)
    next
      assume "pending_known s2"
      with known show "pending_known s3" by (auto simp: pending_known_def s3_def split: option.splits)
    qed
    with g1 g2 have "goes ids s s3" by (blast intro: goes_trans)
    with False st show ?thesis by (simp add: delta_item_def Let_def iid_def [symmetric] s3_def s2_def)
  qed
qed

lemma goes_settle_field:
  "settle_field ends iid raw field (changes, s) = (changes', s') \<Longrightarrow> goes ids s s'"
proof -
  assume run: "settle_field ends iid raw field (changes, s) = (changes', s')"
  have drop: "goes ids s (drop_held (iid, field) s)"
    by (rule goes_quiet) (simp_all add: drop_held_def quiet_def)
  have stream: "goes ids (drop_held (iid, field) s) s2"
    if "stream_text (iid, field) t (drop_held (iid, field) s) = (t', s2)" for t t' s2
    using stream_text_quiet [OF that] by (simp add: goes_quiet)
  from run drop goes_release show ?thesis
    by (auto simp: settle_field_def Let_def split: option.splits if_splits prod.splits
        intro: goes_trans [OF drop stream])
qed

lemma merge_owned [simp]: "owned (merge_item (content_of c) it) = owned it"
  by (simp add: owned_def merge_item_def content_of_def over_def merge_body_def split: item_body.splits)

lemma owned_frame [simp]:
  "owned (it\<lparr>i_status := st\<rparr>) = owned it" "owned (it\<lparr>i_ended_at := e\<rparr>) = owned it"
  "owned (it\<lparr>i_updated_at := u\<rparr>) = owned it"
  by (simp_all add: owned_def)

lemma owned_id: "owned a = owned b \<Longrightarrow> i_id a = i_id b"
  by (simp add: owned_def)

lemma goes_change: "goes ids s (change_item env key raw ended s)"
proof -
  define iid where "iid = derived_id (en_sha env) (ig_attempt_id s) key"
  define clean where "clean = map_option (masked (ig_mask s) (mask_changes (en_str env))) raw"
  obtain c1 s1 where st1: "settle_field (ended \<noteq> None) iid raw TextField (clean, s) = (c1, s1)" by fastforce
  obtain c2 s2 where st2: "settle_field (ended \<noteq> None) iid raw OutputField (c1, s1) = (c2, s2)" by fastforce
  have g: "goes ids s s2" using goes_settle_field [OF st1] goes_settle_field [OF st2] by (rule goes_trans)
  show ?thesis
  proof (cases "find_row i_id iid (ig_items s) = None")
    case True
    then show ?thesis by (simp add: change_item_def iid_def [symmetric])
  next
    case False
    show ?thesis
    proof (cases "find_row i_id iid (ig_items s2)")
      case None
      with False g st1 st2 show ?thesis
        by (simp add: change_item_def Let_def iid_def [symmetric] clean_def [symmetric])
    next
      case (Some current)
      define merged where "merged = (case c2 of None \<Rightarrow> current | Some c \<Rightarrow> merge_item (content_of c) current)"
      define final where "final = (case ended of None \<Rightarrow> merged
         | Some st \<Rightarrow> merged\<lparr>i_status := st, i_ended_at := Some (ig_now s2)\<rparr>)\<lparr>i_updated_at := ig_now s2\<rparr>"
      have own: "owned final = owned current"
        by (simp add: final_def merged_def split: option.splits)
      then have "i_id final = iid" using owned_id find_row_key [OF Some] by metis
      then have "move ids s2 (emit (ItemChanged final) (s2\<lparr>ig_items := put_row i_id final (ig_items s2)\<rparr>))"
        by (intro move.Changes [of final _ current]) (simp_all add: Some own quiet_def emit_def)
      then have "goes ids s2 (emit (ItemChanged final) (s2\<lparr>ig_items := put_row i_id final (ig_items s2)\<rparr>))"
        by (rule goes_move) (simp_all add: emit_def find_put_row)
      with g have "goes ids s (emit (ItemChanged final) (s2\<lparr>ig_items := put_row i_id final (ig_items s2)\<rparr>))"
        by (rule goes_trans)
      moreover have "change_item env key raw ended s =
          emit (ItemChanged final) (s2\<lparr>ig_items := put_row i_id final (ig_items s2)\<rparr>)"
        unfolding final_def merged_def change_item_def Let_def iid_def [symmetric] clean_def [symmetric]
        using False st1 st2 Some by auto
      ultimately show ?thesis by simp
    qed
  qed
qed

lemma opened_request_frame [simp]:
  "r_id (opened_request rid iid key d s) = rid" "r_session_id (opened_request rid iid key d s) = ig_session_id s"
  "r_turn_id (opened_request rid iid key d s) = Some (t_id (ig_turn s))"
  "r_attempt_id (opened_request rid iid key d s) = Some (ig_attempt_id s)"
  "r_status (opened_request rid iid key d s) = RPending" "r_blocking (opened_request rid iid key d s) = rd_blocking d"
  by (simp_all add: opened_request_def)

lemma goes_open: "goes ids s (open_request env key draft s)"
proof -
  define rid where "rid = derived_id (en_sha env) (ig_attempt_id s) (request_key key)"
  define iid where "iid = derived_id (en_sha env) (ig_attempt_id s) (request_item_key key)"
  define request where "request = opened_request rid iid key (masked (ig_mask s) (mask_draft (en_str env)) draft) s"
  define s1 where "s1 = emit (RequestChanged request) (s\<lparr>ig_requests := put_row r_id request (ig_requests s)\<rparr>)"
  define it where "it = new_item iid (RequestBody rid) None None InProgress s1"
  define s2 where "s2 = emit (ItemAdded it) (s1\<lparr>ig_items := put_row i_id it (ig_items s1)\<rparr>)"
  show ?thesis
  proof (cases "find_row r_id rid (ig_requests s) = None")
    case True
    have "move ids s s1"
      by (rule move.Asks [of request]) (simp_all add: request_def True quiet_def s1_def emit_def)
    then have g1: "goes ids s s1" by (rule goes_move) (simp_all add: s1_def emit_def)
    have "move ids s1 s2"
      by (rule move.Adds [of it]) (simp_all add: it_def quiet_def s2_def emit_def)
    then have "goes ids s1 s2" by (rule goes_move) (simp_all add: s2_def emit_def find_put_row)
    with g1 have g2: "goes ids s s2" by (rule goes_trans)
    have "goes ids s2 (emit_turn ((ig_turn s2)\<lparr>t_status := Waiting, t_activity := Some (waiting_line (rd_kind draft)),
        t_activity_at := Some (ig_now s2)\<rparr>) s2)"
      by (rule goes_emit_turn) (simp add: same_turn_def)
    with g2 True show ?thesis
      by (auto simp: open_request_def Let_def rid_def [symmetric] iid_def [symmetric] request_def [symmetric]
          s1_def [symmetric] it_def [symmetric] s2_def [symmetric] intro: goes_trans)
  next
    case False
    then show ?thesis by (simp add: open_request_def Let_def rid_def [symmetric])
  qed
qed

lemma goes_close: "goes ids s (close_request env key reason s)"
proof (cases "find_row r_id (derived_id (en_sha env) (ig_attempt_id s) (request_key key)) (ig_requests s)")
  case (Some current)
  define closed where "closed = current\<lparr>r_status := RCancelled, r_answerable := False,
    r_reason := Some (masked_text (ig_mask s) reason), r_resolved_at := Some (ig_now s)\<rparr>"
  show ?thesis
  proof (cases "r_status current = RPending")
    case True
    have "move ids s (emit (RequestChanged closed) (s\<lparr>ig_requests := put_row r_id closed (ig_requests s)\<rparr>))"
      by (rule move.Withdraws [of closed _ current])
        (use True Some find_row_key [OF Some] in \<open>simp_all add: closed_def quiet_def emit_def\<close>)
    then have "goes ids s (emit (RequestChanged closed) (s\<lparr>ig_requests := put_row r_id closed (ig_requests s)\<rparr>))"
      by (rule goes_move) (simp_all add: emit_def)
    with True Some show ?thesis by (simp add: close_request_def closed_def Let_def)
  qed (simp add: close_request_def Some)
qed (simp add: close_request_def)

lemma goes_clear_retry: "goes ids s (clear_retry s)"
  by (simp add: clear_retry_def goes_emit_turn same_turn_def)

lemma goes_end_turn: "goes ids s (end_turn status err ref s)"
proof -
  have "goes ids s (fold release_held ks s)" for ks s
    by (induction ks arbitrary: s) (auto intro: goes_release goes_trans)
  with goes_clear_retry have held: "goes ids s (fold release_held ks (clear_retry s))" for ks by (blast intro: goes_trans)
  obtain ks c where "end_turn status err ref s = (fold release_held ks (clear_retry s))\<lparr>ig_completed := c\<rparr>"
    by (simp add: end_turn_def Let_def)
  moreover have "goes ids x (x\<lparr>ig_completed := c\<rparr>)" for x
    by (rule goes_quiet) (simp_all add: quiet_def)
  ultimately show ?thesis using goes_trans [OF held] by metis
qed

text \<open>What stays fixed along the moves.\<close>

definition steady :: "ingesting \<Rightarrow> ingesting \<Rightarrow> bool" where
  "steady s s' \<longleftrightarrow> ig_session_id s' = ig_session_id s \<and> ig_attempt_id s' = ig_attempt_id s \<and> ig_now s' = ig_now s \<and>
     same_turn (ig_turn s) (ig_turn s') \<and> same_attempt (ig_attempt s) (ig_attempt s') \<and>
     same_thread (ig_thread s) (ig_thread s')"

lemma steady_trans: "steady a b \<Longrightarrow> steady b c \<Longrightarrow> steady a c"
  unfolding steady_def using same_turn_trans same_attempt_trans same_thread_trans by metis

lemma move_steady: "move ids s s' \<Longrightarrow> steady s s'"
  by (induction rule: move.induct) (simp_all add: steady_def quiet_def)

lemma moves_steady: "moves ids s s' \<Longrightarrow> steady s s'"
proof (induction rule: rtranclp_induct)
  case base
  then show ?case by (simp add: steady_def)
next
  case (step y z)
  then show ?case using move_steady steady_trans by blast
qed

lemma goes_thread: "same_thread (ig_thread s) p' \<Longrightarrow> goes ids s (emit (ProviderThreadChanged p') (s\<lparr>ig_thread := p'\<rparr>))"
  by (intro goes_move move.Threads [of _ p']) (simp_all add: emit_def quiet_def)

lemma goes_attempt: "same_attempt (ig_attempt s) a' \<Longrightarrow> goes ids s (emit (AttemptChanged a') (s\<lparr>ig_attempt := a'\<rparr>))"
  by (intro goes_move move.Attempts [of _ a']) (simp_all add: emit_def quiet_def)

lemma goes_then: "goes ids s s' \<Longrightarrow> quiet s' s'' \<Longrightarrow> ig_pending s'' = ig_pending s' \<Longrightarrow> goes ids s s''"
  by (blast intro: goes_trans goes_quiet)

lemma goes_event:
  assumes "set (named_item env (ig_attempt_id s) event) \<subseteq> ids"
  shows "goes ids s (ingest_event env event s)"
proof -
  define f where "f = flush_delta s"
  have f: "goes ids s f" unfolding f_def by (rule goes_flush)
  have aid: "ig_attempt_id f = ig_attempt_id s" by (simp add: f_def)
  show ?thesis
  proof (cases event)
    case (ThreadEvent ref path)
    define th where "th = (ig_thread f)\<lparr>p_native_ref := Some ref, p_status := ThreadActive, p_updated_at := ig_now f\<rparr>"
    have g1: "goes ids f (emit (ProviderThreadChanged th) (f\<lparr>ig_thread := th\<rparr>))"
      by (rule goes_thread) (simp add: same_thread_def th_def)
    then have g: "goes ids f ((emit (ProviderThreadChanged th) (f\<lparr>ig_thread := th\<rparr>))\<lparr>ig_state_path := x\<rparr>)" for x
      by (rule goes_then) (simp_all add: quiet_def)
    have "ingest_event env event s \<in> {f, emit (ProviderThreadChanged th) (f\<lparr>ig_thread := th\<rparr>)} \<union>
        range (\<lambda>x. (emit (ProviderThreadChanged th) (f\<lparr>ig_thread := th\<rparr>))\<lparr>ig_state_path := x\<rparr>)"
      unfolding ingest_event_def ThreadEvent Let_def f_def [symmetric]
      by (auto simp: th_def [symmetric] split: option.splits)
    with g g1 f show ?thesis by (auto intro: goes_trans)
  next
    case (ThreadLost reason)
    define th where "th = (ig_thread f)\<lparr>p_status := ThreadUnavailable, p_updated_at := ig_now f\<rparr>"
    have "goes ids f (emit (ProviderThreadChanged th) (f\<lparr>ig_thread := th\<rparr>))"
      by (rule goes_thread) (simp add: same_thread_def th_def)
    then have "goes ids f ((emit (ProviderThreadChanged th) (f\<lparr>ig_thread := th\<rparr>))\<lparr>ig_thread_lost := x\<rparr>)" for x
      by (rule goes_then) (simp_all add: quiet_def)
    with f show ?thesis
      unfolding ingest_event_def ThreadLost Let_def by (simp add: f_def [symmetric] th_def [symmetric] goes_trans)
  next
    case (TurnStarted ref)
    define g where "g = f\<lparr>ig_started := True\<rparr>"
    have "goes ids f g" unfolding g_def by (rule goes_quiet) (simp_all add: quiet_def)
    with f have "goes ids s g" by (rule goes_trans)
    moreover have "goes ids g (emit (AttemptChanged ((ig_attempt g)\<lparr>a_native_turn_ref := ref\<rparr>))
        (g\<lparr>ig_attempt := (ig_attempt g)\<lparr>a_native_turn_ref := ref\<rparr>\<rparr>))"
      by (rule goes_attempt) (simp add: same_attempt_def)
    ultimately show ?thesis
      unfolding ingest_event_def TurnStarted Let_def
      by (auto simp: f_def [symmetric] g_def [symmetric] split: option.splits intro: goes_trans)
  next
    case (ItemStarted key ref draft status activity)
    have "goes ids f (start_item env key ref draft status activity f)"
      by (rule goes_start) (use assms aid in \<open>simp add: ItemStarted named_item_def\<close>)
    with f show ?thesis by (simp add: ingest_event_def ItemStarted f_def goes_trans)
  next
    case (ItemDelta key field raw)
    then show ?thesis by (simp add: ingest_event_def goes_delta)
  next
    case (StatusLine t)
    with goes_then [OF f set_line_quiet(1,2)] show ?thesis by (simp add: ingest_event_def f_def)
  next
    case (ProviderRetrying retry)
    have "goes ids f (emit_turn ((ig_turn f)\<lparr>t_provider_retry := r\<rparr>) f)" for r
      by (rule goes_emit_turn) (simp add: same_turn_def)
    with goes_trans [OF f] ProviderRetrying show ?thesis by (simp add: ingest_event_def f_def)
  next
    case (ItemUpdated key changes)
    with goes_trans [OF f goes_change] show ?thesis by (simp add: ingest_event_def f_def)
  next
    case (ItemEnded key status changes)
    with goes_trans [OF f goes_change] show ?thesis by (simp add: ingest_event_def f_def)
  next
    case (RequestOpened key draft)
    with goes_trans [OF f goes_open] show ?thesis by (simp add: ingest_event_def f_def)
  next
    case (RequestClosed key reason)
    with goes_trans [OF f goes_close] show ?thesis by (simp add: ingest_event_def f_def)
  next
    case (TurnEnded status err ref)
    with goes_trans [OF f goes_end_turn] show ?thesis by (simp add: ingest_event_def f_def)
  next
    case ProviderResumed
    with goes_trans [OF f goes_clear_retry] show ?thesis by (simp add: ingest_event_def f_def)
  qed (unfold ingest_event_def Let_def f_def [symmetric], simp_all add: f goes_then [OF f] quiet_def)
qed

lemma goes_fold:
  assumes "\<forall>e \<in> set events. set (named_item env (ig_attempt_id s) e) \<subseteq> ids" and "pending_known s"
  shows "moves ids s (fold (ingest_event env) events s) \<and> pending_known (fold (ingest_event env) events s)"
  using assms
proof (induction events arbitrary: s)
  case (Cons e es)
  have "goes ids s (ingest_event env e s)" by (rule goes_event) (use Cons.prems in simp)
  then have step: "moves ids s (ingest_event env e s)" "pending_known (ingest_event env e s)"
    using Cons.prems by (simp_all add: goes_def)
  from moves_steady [OF step(1)] have "ig_attempt_id (ingest_event env e s) = ig_attempt_id s" by (simp add: steady_def)
  with Cons.IH [OF _ step(2)] Cons.prems step(1) show ?case by (auto intro: rtranclp_trans)
qed simp

lemma goes_resume: "goes ids s (resume_turn d s)"
  by (simp add: resume_turn_def goes_emit_turn same_turn_def)

lemma goes_live_line: "goes ids s (live_line s)"
  by (auto simp: live_line_def same_turn_def split: option.splits intro: goes_emit_turn)

text \<open>A batch before the steers it read are marked: a run of moves from what it loaded.\<close>

definition unread_batch ::
  "ingest_env \<Rightarrow> instant \<Rightarrow> db \<Rightarrow> ident \<Rightarrow> ident option \<Rightarrow> turn \<Rightarrow> attempt \<Rightarrow> provider_thread \<Rightarrow>
   secret_mask option \<Rightarrow> harness_event list \<Rightarrow> ingesting"
where
  "unread_batch env now d sid agent t a th mk events =
     live_line (resume_turn d (flush_delta (fold (ingest_event env) events (load_batch env now d sid agent t a th mk events))))"

lemma ingest_unread:
  "ingest_harness_events env now d sid agent t a th mk events =
     read_steers d (unread_batch env now d sid agent t a th mk events)"
  by (simp add: ingest_harness_events_def unread_batch_def Let_def)

definition batch_ids :: "ingest_env \<Rightarrow> attempt \<Rightarrow> harness_event list \<Rightarrow> ident set" where
  "batch_ids env a events = set (concat (map (named_item env (a_id a)) events))"

lemma batch_moves:
  "moves (batch_ids env a events) (load_batch env now d sid agent t a th mk events)
     (unread_batch env now d sid agent t a th mk events)"
proof -
  let ?s = "load_batch env now d sid agent t a th mk events" and ?ids = "batch_ids env a events"
  have load: "ig_attempt_id ?s = a_id a" "pending_known ?s" by (simp_all add: load_batch_def Let_def pending_known_def)
  then have fold: "goes ?ids ?s (fold (ingest_event env) events ?s)"
    using goes_fold [of events env ?s ?ids] by (auto simp: goes_def batch_ids_def)
  have "goes ?ids ?s (unread_batch env now d sid agent t a th mk events)"
    unfolding unread_batch_def using fold goes_flush goes_resume goes_live_line by (meson goes_trans)
  with load show ?thesis by (simp add: goes_def)
qed

end
