(* ===== verification/Session_Reads.thy ===== *)
theory Session_Reads
  imports Client_State Refinement "HOL-Library.Sublist"
begin

text \<open>
  Reading a session, \<open>packages/core/src/services/sessions/session-reads.ts\<close>: the bounded
  snapshot a reader starts from, the pages of history before it, the full snapshot a mirror
  starts from, the transcript as people read it and a turn's reply. A repeatable-read
  transaction is one database. \<open>executeTakeFirstOrThrow\<close> is \<open>None\<close> where the session has no row.
  Rows of equal sort keys come in the table's order (in its reverse, descending); PostgreSQL
  leaves theirs open, and no theorem here depends on it.
\<close>

section \<open>The bounded snapshot\<close>

definition SNAPSHOT_TURNS :: nat where "SNAPSHOT_TURNS = 30"
definition HISTORY_PAGE_ITEMS :: nat where "HISTORY_PAGE_ITEMS = 400"

definition items_of :: "ident \<Rightarrow> db \<Rightarrow> item_row list" where
  "items_of sid d = filter (\<lambda>r. ir_session_id r = sid) (db_items d)"

definition turns_of :: "ident \<Rightarrow> db \<Rightarrow> turn_row list" where
  "turns_of sid d = filter (\<lambda>r. tr_session_id r = sid) (db_turns d)"

definition newest_first :: "('r \<Rightarrow> 'k::linorder) \<Rightarrow> 'r list \<Rightarrow> 'r list" where
  "newest_first key rows = rev (sort_key key rows)"

definition recent_turns :: "nat \<Rightarrow> db \<Rightarrow> ident \<Rightarrow> turn_row list" where
  "recent_turns n d sid = take n (newest_first tr_ordinal (turns_of sid d))"

definition pending_turns :: "db \<Rightarrow> ident \<Rightarrow> turn_row list" where
  "pending_turns d sid =
     filter (\<lambda>r. tr_status r \<in> set [Queued, Held, Preparing, Running, Waiting, Finalizing]) (turns_of sid d)"

text \<open>A JavaScript \<open>Map\<close> keeps a key where it was first set and the value it was last set to.\<close>

definition snapshot_turns :: "instant \<Rightarrow> nat \<Rightarrow> db \<Rightarrow> ident \<Rightarrow> turn list" where
  "snapshot_turns now n d sid =
     sort_key t_ordinal
       (map (turn_from_row now) (fold (put_row tr_id) (recent_turns n d sid @ pending_turns d sid) []))"

definition first_position :: "db \<Rightarrow> ident \<Rightarrow> ident \<Rightarrow> nat option" where
  "first_position d sid tid =
     (case map ir_position (filter (\<lambda>r. ir_turn_id r = Some tid) (items_of sid d)) of
        [] \<Rightarrow> None | p # ps \<Rightarrow> Some (fold min ps p))"

definition leading_page :: "db \<Rightarrow> ident \<Rightarrow> nat option \<Rightarrow> nat option" where
  "leading_page d sid before =
     (case drop (HISTORY_PAGE_ITEMS - 1)
             (newest_first ir_position
               (filter (\<lambda>r. case before of None \<Rightarrow> True | Some b \<Rightarrow> ir_position r < b) (items_of sid d))) of
        [] \<Rightarrow> None | r # _ \<Rightarrow> Some (ir_position r))"

text \<open>
  Where the items start: at the earliest turn's first item, or, when no turn came before it (or
  the session has none), a page before that.
\<close>

definition snapshot_from :: "db \<Rightarrow> ident \<Rightarrow> turn list \<Rightarrow> nat option" where
  "snapshot_from d sid turns =
     (case turns of
        [] \<Rightarrow> leading_page d sid None
      | earliest # _ \<Rightarrow>
          if \<exists>r \<in> set (turns_of sid d). tr_ordinal r < t_ordinal earliest
          then first_position d sid (t_id earliest)
          else leading_page d sid (first_position d sid (t_id earliest)))"

definition NO_TURN :: ident where "NO_TURN = ''00000000-0000-0000-0000-000000000000''"

definition snapshot_items :: "db \<Rightarrow> ident \<Rightarrow> turn_row list \<Rightarrow> nat option \<Rightarrow> item_row list" where
  "snapshot_items d sid pending from =
     (let ids = if pending = [] then [NO_TURN] else map tr_id pending in
      sort_key ir_position
        (filter (\<lambda>r. case from of None \<Rightarrow> True
             | Some p \<Rightarrow> p \<le> ir_position r \<or> (case ir_turn_id r of None \<Rightarrow> False | Some t \<Rightarrow> t \<in> set ids))
          (items_of sid d)))"

definition older_before :: "db \<Rightarrow> ident \<Rightarrow> nat option \<Rightarrow> nat option" where
  "older_before d sid from =
     (case from of None \<Rightarrow> None
      | Some p \<Rightarrow> if \<exists>r \<in> set (items_of sid d). ir_position r < p then Some p else None)"

definition of_turns :: "turn list \<Rightarrow> ident option \<Rightarrow> bool" where
  "of_turns turns tid = (case tid of None \<Rightarrow> False | Some t \<Rightarrow> t \<in> t_id ` set turns)"

definition read_snapshot :: "instant \<Rightarrow> nat option \<Rightarrow> db \<Rightarrow> ident \<Rightarrow> session_snapshot option" where
  "read_snapshot now limit d sid =
     (case session_row_of d sid of
        None \<Rightarrow> None
      | Some session \<Rightarrow>
          (let turns = snapshot_turns now (case limit of None \<Rightarrow> SNAPSHOT_TURNS | Some n \<Rightarrow> n) d sid;
               from = snapshot_from d sid turns
           in Some \<lparr>sn_sequence = sr_event_sequence session,
                    sn_session = session_fields_from_row session,
                    sn_turns = turns,
                    sn_attempts = map attempt_from_row
                      (filter (\<lambda>r. a_turn_id (ar_attempt r) \<in> t_id ` set turns) (db_attempts d)),
                    sn_items = map item_from_row (snapshot_items d sid (pending_turns d sid) from),
                    sn_requests = map request_from_row
                      (filter (\<lambda>r. rr_session_id r = sid \<and> (rr_status r = RPending \<or> of_turns turns (rr_turn_id r)))
                        (db_requests d)),
                    sn_provider_threads = map provider_thread_from_row
                      (filter (\<lambda>p. p_session_id p = sid) (db_threads d)),
                    sn_older_before = older_before d sid from\<rparr>))"

section \<open>The full snapshot, and history before a position\<close>

definition read_full_snapshot :: "instant \<Rightarrow> db \<Rightarrow> ident \<Rightarrow> session_snapshot option" where
  "read_full_snapshot now d sid =
     (case session_row_of d sid of
        None \<Rightarrow> None
      | Some session \<Rightarrow>
          Some \<lparr>sn_sequence = sr_event_sequence session,
                sn_session = session_fields_from_row session,
                sn_turns = map (turn_from_row now) (sort_key tr_ordinal (turns_of sid d)),
                sn_attempts = map attempt_from_row (filter (\<lambda>r. ar_session_id r = sid) (db_attempts d)),
                sn_items = map item_from_row (sort_key ir_position (items_of sid d)),
                sn_requests = map request_from_row (filter (\<lambda>r. rr_session_id r = sid) (db_requests d)),
                sn_provider_threads = map provider_thread_from_row
                  (filter (\<lambda>p. p_session_id p = sid) (db_threads d)),
                sn_older_before = None\<rparr>)"

definition read_items_before :: "db \<Rightarrow> ident \<Rightarrow> nat \<Rightarrow> nat option \<Rightarrow> item list \<times> nat option" where
  "read_items_before d sid before limit =
     (let n = (case limit of None \<Rightarrow> HISTORY_PAGE_ITEMS | Some l \<Rightarrow> l);
          rows = take (n + 1) (newest_first ir_position (filter (\<lambda>r. ir_position r < before) (items_of sid d)));
          page = rev (take n rows)
      in (map item_from_row page,
          (case page of [] \<Rightarrow> None | r # _ \<Rightarrow> if n < length rows then Some (ir_position r) else None)))"

section \<open>The transcript\<close>

datatype transcript_role = RUser | RInbound | RNotification | RAssistant | RSystem

record transcript_message =
  tm_id :: ident
  tm_role :: transcript_role
  tm_content :: string
  tm_turn_id :: "ident option"
  tm_status :: item_status
  tm_created_at :: instant
  tm_author :: "session_message_author option"

definition transcript_kinds :: "item_kind list" where
  "transcript_kinds = [KUserMessage, KInboundMessage, KTaskNotification, KAssistantMessage, KNotice]"

definition told :: "item \<Rightarrow> transcript_role \<Rightarrow> string \<Rightarrow> session_message_author option \<Rightarrow> transcript_message list" where
  "told it role content author =
     [\<lparr>tm_id = i_id it, tm_role = role, tm_content = content, tm_turn_id = i_turn_id it,
       tm_status = i_status it, tm_created_at = i_created_at it, tm_author = author\<rparr>]"

definition transcript_message_of :: "item \<Rightarrow> transcript_message list" where
  "transcript_message_of it =
     (case i_body it of
        UserMessage _ author t _ _ \<Rightarrow> told it RUser t (Some (UserAuthor author))
      | InboundMessage _ sender t _ _ \<Rightarrow> told it RInbound t (Some (InboundAuthor sender))
      | TaskNotification _ _ summary detail _ \<Rightarrow>
          told it RNotification (if js_trim detail \<noteq> [] then summary @ char_of (10::nat) # detail else summary) None
      | AssistantMessage t _ \<Rightarrow>
          if js_trim t \<noteq> [] \<or> i_status it = InProgress then told it RAssistant t None else []
      | Notice _ t _ \<Rightarrow> told it RSystem t None
      | _ \<Rightarrow> [])"

definition transcript_rows :: "db \<Rightarrow> ident \<Rightarrow> ident option \<Rightarrow> nat option \<Rightarrow> item_row list" where
  "transcript_rows d sid through limit =
     (let cut = (case through of None \<Rightarrow> None
                 | Some iid \<Rightarrow> map_option ir_position (find_row ir_id iid (items_of sid d)));
          rows = newest_first ir_position
            (filter (\<lambda>r. ir_kind r \<in> set transcript_kinds \<and>
                (case cut of None \<Rightarrow> True | Some p \<Rightarrow> ir_position r \<le> p)) (items_of sid d))
      in rev (case limit of None \<Rightarrow> rows | Some n \<Rightarrow> take n rows))"

definition read_transcript :: "db \<Rightarrow> ident \<Rightarrow> ident option \<Rightarrow> nat option \<Rightarrow> transcript_message list" where
  "read_transcript d sid through limit =
     concat (map (transcript_message_of \<circ> item_from_row) (transcript_rows d sid through limit))"

definition read_reply :: "db \<Rightarrow> ident \<Rightarrow> item option" where
  "read_reply d tid =
     (case newest_first ir_position
             (filter (\<lambda>r. ir_turn_id r = Some tid \<and> ir_kind r = KAssistantMessage) (db_items d)) of
        [] \<Rightarrow> None | r # _ \<Rightarrow> Some (item_from_row r))"

section \<open>Items have places of their own\<close>

text \<open>
  What paging by position rests on: the items of a session hold distinct positions, none past
  the session's sequence, and the payload repeats the row's id and position.
\<close>

definition repeats :: "item_row \<Rightarrow> bool" where
  "repeats r \<longleftrightarrow> ir_id r = i_id (ir_payload r) \<and> ir_position r = i_position (ir_payload r)"

definition placed :: "ident \<Rightarrow> db \<Rightarrow> bool" where
  "placed sid d \<longleftrightarrow>
     unique_keys ir_id (db_items d) \<and> distinct (map ir_position (items_of sid d)) \<and>
     (\<forall>r \<in> set (items_of sid d). repeats r)"

definition places_below :: "nat \<Rightarrow> ident \<Rightarrow> db \<Rightarrow> bool" where
  "places_below n sid d \<longleftrightarrow> (\<forall>r \<in> set (items_of sid d). ir_position r < n)"

lemma places_below_positions: "places_below n sid d \<longleftrightarrow> list_all (\<lambda>p. p < n) (map ir_position (items_of sid d))"
  by (simp add: places_below_def list_all_iff)

lemma list_all_less_Suc: "list_all (\<lambda>p. p < n) ps \<Longrightarrow> list_all (\<lambda>p. p < Suc n) ps"
  by (auto simp: list_all_iff)

text \<open>
  A change names an item that is there, or one the same batch added before it.
\<close>

fun changes_known :: "ident set \<Rightarrow> session_event list \<Rightarrow> bool" where
  "changes_known known [] \<longleftrightarrow> True"
| "changes_known known (e # es) \<longleftrightarrow>
     (case e of
        ItemAdded it \<Rightarrow> changes_known (insert (i_id it) known) es
      | ItemChanged it \<Rightarrow> i_id it \<in> known \<and> changes_known known es
      | _ \<Rightarrow> changes_known known es)"

lemma items_of_project_item:
  assumes "unique_keys ir_id (db_items d)"
  shows "items_of sid (project_item sid it d) =
    (if i_id it \<in> ir_id ` set (db_items d)
     then map (\<lambda>r. if ir_id r = i_id it then update_item_row sid it r else r) (items_of sid d)
     else items_of sid d @ [new_item_row sid it])"
proof -
  have "filter (\<lambda>r. ir_session_id r = sid) (upsert ir_id (update_item_row sid it) (new_item_row sid it) rows) =
    (if i_id it \<in> ir_id ` set rows
     then map (\<lambda>r. if ir_id r = i_id it then update_item_row sid it r else r) (filter (\<lambda>r. ir_session_id r = sid) rows)
     else filter (\<lambda>r. ir_session_id r = sid) rows @ [new_item_row sid it])"
    if "unique_keys ir_id rows" for rows
    using that
  proof (induction rows)
    case (Cons r rows)
    have u: "unique_keys ir_id rows" and fresh: "ir_id r \<notin> ir_id ` set rows"
      using Cons.prems by (auto simp: unique_keys_def)
    show ?case
    proof (cases "ir_id r = i_id it")
      case True
      with fresh have "map (\<lambda>r. if ir_id r = i_id it then update_item_row sid it r else r)
          (filter (\<lambda>r. ir_session_id r = sid) rows) = filter (\<lambda>r. ir_session_id r = sid) rows"
        by (intro map_idI) (auto simp: image_iff)
      with True show ?thesis by simp
    next
      case False
      with Cons.IH [OF u] show ?thesis by auto
    qed
  qed simp
  from this [OF assms] show ?thesis by (simp add: items_of_def project_item_def)
qed

lemma placed_project_item:
  assumes "placed sid d" and "places_below n sid d"
    and "i_id it \<in> ir_id ` set (db_items d) \<or> i_position it = n"
  shows "placed sid (project_item sid it d) \<and> places_below (Suc n) sid (project_item sid it d)"
proof -
  let ?d = "project_item sid it d"
  have u: "unique_keys ir_id (db_items d)" using assms(1) by (simp add: placed_def)
  have k: "unique_keys ir_id (db_items ?d)"
    using u by (simp add: project_item_def unique_keys_upsert_key)
  let ?f = "\<lambda>r. if ir_id r = i_id it then update_item_row sid it r else r"
  have same: "ir_position (?f r) = ir_position r" for r
    by (simp add: update_item_row_def)
  have own: "ir_session_id r = sid" if "r \<in> set (items_of sid d)" for r using that by (simp add: items_of_def)
  show ?thesis
  proof (cases "i_id it \<in> ir_id ` set (db_items d)")
    case True
    then have items: "items_of sid ?d = map ?f (items_of sid d)"
      using items_of_project_item [OF u] by simp
    have positions: "map ir_position (items_of sid ?d) = map ir_position (items_of sid d)"
      unfolding items map_map comp_def same ..
    have "\<forall>r \<in> set (items_of sid d). repeats (?f r)"
      using assms(1) own by (simp add: placed_def repeats_def update_item_row_def)
    then have "\<forall>r \<in> set (items_of sid ?d). repeats r" unfolding items by auto
    with assms(1) k positions have "placed sid ?d" by (simp add: placed_def)
    moreover have "places_below (Suc n) sid ?d"
      using assms(2) unfolding places_below_positions positions by (rule list_all_less_Suc)
    ultimately show ?thesis by blast
  next
    case False
    then have items: "items_of sid ?d = items_of sid d @ [new_item_row sid it]"
      using items_of_project_item [OF u] by simp
    have new: "ir_position (new_item_row sid it) = n" "ir_id (new_item_row sid it) = i_id it"
      "ir_payload (new_item_row sid it) = it" "i_position it = n"
      using assms(3) False by (auto simp: new_item_row_def Let_def)
    have "n \<notin> ir_position ` set (items_of sid d)" using assms(2) by (auto simp: places_below_def)
    with assms(1) k new have "placed sid ?d" by (simp add: placed_def items repeats_def)
    moreover have "places_below (Suc n) sid ?d"
      using assms(2) new(1) by (simp add: places_below_def items less_SucI)
    ultimately show ?thesis by blast
  qed
qed

lemma append_payload_frame [simp]:
  "i_id (append_payload field txt tm it) = i_id it" "i_position (append_payload field txt tm it) = i_position it"
  by (auto simp: append_payload_def split: stream_field.splits item_body.splits)

lemma placed_project_append:
  assumes "placed sid d" and "places_below n sid d"
  shows "placed sid (project_append sid iid field txt tm d) \<and> places_below (Suc n) sid (project_append sid iid field txt tm d)"
proof -
  let ?d = "project_append sid iid field txt tm d"
  let ?f = "\<lambda>r. r\<lparr>ir_payload := append_payload field txt tm (ir_payload r),
      ir_text := (if field = TextField then ir_text r @ txt else ir_text r), ir_updated_at := tm\<rparr>"
  have rows: "db_items ?d = update_where (\<lambda>r. ir_id r = iid \<and> ir_session_id r = sid) ?f (db_items d)"
    by (simp add: project_append_def)
  have items: "items_of sid ?d = update_where (\<lambda>r. ir_id r = iid \<and> ir_session_id r = sid) ?f (items_of sid d)"
    unfolding items_of_def rows by (rule filter_update_where) simp
  have k: "unique_keys ir_id (db_items ?d)" unfolding rows
    using assms(1) by (intro unique_keys_update_where) (simp_all add: placed_def)
  have positions: "map ir_position (items_of sid ?d) = map ir_position (items_of sid d)"
    unfolding items by (rule map_update_where) simp
  have "\<forall>r \<in> set (items_of sid ?d). repeats r"
    using assms(1) unfolding items by (auto simp: placed_def repeats_def update_where_def)
  with assms(1) k positions have "placed sid ?d" by (simp add: placed_def)
  moreover have "places_below (Suc n) sid ?d"
    using assms(2) unfolding places_below_positions positions by (rule list_all_less_Suc)
  ultimately show ?thesis by blast
qed

lemma placed_cong:
  "db_items d' = db_items d \<Longrightarrow> placed sid d' = placed sid d \<and> places_below n sid d' = places_below n sid d"
  by (simp add: placed_def places_below_def items_of_def)

text \<open>Every event keeps the places; \<open>known\<close> names items the database holds.\<close>

lemma placed_project_all:
  assumes "project_all now (stamp_events sid now' cmd n (place n ps events)) d = Inr d'"
    and "placed sid d" and "places_below n sid d"
    and "changes_known known events" and "known \<subseteq> ir_id ` set (db_items d)"
  shows "placed sid d' \<and> places_below (n + length events) sid d'"
  using assms
proof (induction events arbitrary: n ps d known)
  case Nil
  then show ?case by simp
next
  case (Cons e es)
  obtain e' ps' where pl: "place n ps (e # es) = e' # place (Suc n) ps' es"
    and e': "e' = (case e of ItemAdded it \<Rightarrow> ItemAdded (it\<lparr>i_position := n\<rparr>)
      | ItemChanged it \<Rightarrow> (case map_of ps (i_id it) of None \<Rightarrow> e | Some p \<Rightarrow> ItemChanged (it\<lparr>i_position := p\<rparr>))
      | _ \<Rightarrow> e)"
    by (cases e) auto
  let ?se = "\<lparr>se_session_id = sid, se_sequence = n, se_at = now', se_command_id = cmd, se_event = e'\<rparr>"
  obtain d1 where d1: "project now ?se d = Inr d1"
    and rest: "project_all now (stamp_events sid now' cmd (Suc n) (place (Suc n) ps' es)) d1 = Inr d'"
    using Cons.prems(1) unfolding pl by (auto split: sum.splits)
  note items = project_items [OF d1, simplified]
  have keeps: "ir_id ` set (db_items d) \<subseteq> ir_id ` set (db_items (project_item sid it d))"
    and there: "i_id it \<in> ir_id ` set (db_items (project_item sid it d))" for it
  proof -
    have "map ir_id (db_items (project_item sid it d)) = (if i_id it \<in> ir_id ` set (db_items d)
        then map ir_id (db_items d) else map ir_id (db_items d) @ [i_id it])"
      by (simp add: project_item_def keys_upsert)
    then have "ir_id ` set (db_items (project_item sid it d)) = insert (i_id it) (ir_id ` set (db_items d))"
      by (metis (no_types, lifting) insert_absorb set_map set_append Un_commute insert_is_Un list.simps(15) empty_set)
    then show "ir_id ` set (db_items d) \<subseteq> ir_id ` set (db_items (project_item sid it d))"
      "i_id it \<in> ir_id ` set (db_items (project_item sid it d))" by auto
  qed
  have step: "placed sid d1 \<and> places_below (Suc n) sid d1 \<and>
    (\<exists>known'. changes_known known' es \<and> known' \<subseteq> ir_id ` set (db_items d1))"
  proof (cases e)
    case (ItemAdded it)
    let ?it = "it\<lparr>i_position := n\<rparr>"
    have "db_items d1 = db_items (project_item sid ?it d)" using items e' ItemAdded by simp
    note same = placed_cong [OF this] this
    have "placed sid d1 \<and> places_below (Suc n) sid d1"
      using placed_project_item [OF Cons.prems(2,3), of ?it] same by simp
    moreover have "insert (i_id it) known \<subseteq> ir_id ` set (db_items d1)"
      using Cons.prems(5) keeps [of ?it] there [of ?it] same(2) by auto
    ultimately show ?thesis using Cons.prems(4) ItemAdded by auto
  next
    case (ItemChanged it)
    then obtain it' where it': "e' = ItemChanged it'" "i_id it' = i_id it"
      using e' by (auto split: option.splits)
    have "db_items d1 = db_items (project_item sid it' d)" using items it' by simp
    note same = placed_cong [OF this] this
    have "i_id it' \<in> ir_id ` set (db_items d)" using Cons.prems(4,5) ItemChanged it' by auto
    then have "placed sid d1 \<and> places_below (Suc n) sid d1"
      using placed_project_item [OF Cons.prems(2,3), of it'] same by simp
    moreover have "known \<subseteq> ir_id ` set (db_items d1)"
      using Cons.prems(5) keeps [of it'] same(2) by auto
    ultimately show ?thesis using Cons.prems(4) ItemChanged by auto
  next
    case (ItemTextAppended iid fld chunk tm)
    have rows: "db_items d1 = db_items (project_append sid iid fld chunk tm d)" using items e' ItemTextAppended by simp
    have "map ir_id (db_items (project_append sid iid fld chunk tm d)) = map ir_id (db_items d)"
      unfolding project_append_def by (simp add: map_update_where)
    then have "ir_id ` set (db_items d1) = ir_id ` set (db_items d)" unfolding rows by (metis set_map)
    with placed_project_append [OF Cons.prems(2,3), of iid fld chunk tm] placed_cong [OF rows]
      Cons.prems(4,5) ItemTextAppended show ?thesis by auto
  next
    case (SessionChanged c)
    then have "db_items d1 = db_items d" using items e' by simp
    from placed_cong [OF this] this Cons.prems(2-5) SessionChanged show ?thesis
      by (auto simp: places_below_def less_Suc_eq)
  next
    case (TurnChanged t)
    then have "db_items d1 = db_items d" using items e' by simp
    from placed_cong [OF this] this Cons.prems(2-5) TurnChanged show ?thesis
      by (auto simp: places_below_def less_Suc_eq)
  next
    case (AttemptChanged a)
    then have "db_items d1 = db_items d" using items e' by simp
    from placed_cong [OF this] this Cons.prems(2-5) AttemptChanged show ?thesis
      by (auto simp: places_below_def less_Suc_eq)
  next
    case (RequestChanged r)
    then have "db_items d1 = db_items d" using items e' by simp
    from placed_cong [OF this] this Cons.prems(2-5) RequestChanged show ?thesis
      by (auto simp: places_below_def less_Suc_eq)
  next
    case (ProviderThreadChanged p)
    then have "db_items d1 = db_items d" using items e' by simp
    from placed_cong [OF this] this Cons.prems(2-5) ProviderThreadChanged show ?thesis
      by (auto simp: places_below_def less_Suc_eq)
  qed
  then obtain known' where "changes_known known' es" "known' \<subseteq> ir_id ` set (db_items d1)" by blast
  with Cons.IH [OF rest] step show ?case by simp
qed

lemma changes_known_current: "changes_known known events \<Longrightarrow> changes_known known (current_turns d sid events)"
proof (induction events arbitrary: known)
  case (Cons e es)
  have split: "current_turns d sid (ev # es) = current_turn d sid ev @ current_turns d sid es" for ev
    by (simp add: current_turns_def)
  show ?case
  proof (cases e)
    case (TurnChanged t)
    then have "current_turn d sid e = [] \<or> (\<exists>t'. current_turn d sid e = [TurnChanged t'])"
      by (simp add: current_turn_def split: option.splits)
    with Cons TurnChanged show ?thesis unfolding split by auto
  qed (use Cons in \<open>auto simp: split current_turn_def\<close>)
qed (simp add: current_turns_def)

text \<open>Every item keeps a place of its own. If a session's items hold distinct positions
  up to its sequence, they still do after any append that changes no item the session and the
  batch do not know, and the stored payloads repeat the rows' ids and positions.\<close>

theorem appends_place_items:
  assumes "append_events now sid cmd events d = Inr (stored, d')"
    and "placed sid d" and "places_below (Suc (latest_sequence d sid)) sid d"
    and "changes_known (ir_id ` set (db_items d)) events"
  shows "placed sid d' \<and> places_below (Suc (latest_sequence d' sid)) sid d'"
proof (rule append_events_cases [OF assms(1)])
  assume "stored = []" "d' = d"
  with assms show ?thesis by simp
next
  let ?es = "current_turns d sid events"
  assume locked: "append_locked now sid cmd ?es d = Inr (stored, d')"
  note eff = append_locked_effect [OF locked]
  from locked obtain n where "persist now stored (set_sequence sid n d) = Inr d'"
    by (auto simp: append_locked_def Let_def split: option.splits sum.splits)
  then obtain d1 where d1: "insert_batches 0 stored (set_sequence sid n d) = Inr d1" "project_all now stored d1 = Inr d'"
    by (auto simp: persist_def split: sum.splits)
  have rows: "db_items d1 = db_items d" using insert_batches_storable [OF d1(1)] by auto
  have "placed sid d' \<and> places_below (Suc (latest_sequence d sid) + length ?es) sid d'"
  proof (rule placed_project_all)
    show "project_all now (stamp_events sid now cmd (Suc (latest_sequence d sid))
        (place (Suc (latest_sequence d sid)) [] ?es)) d1 = Inr d'" using d1(2) unfolding eff(5) .
    show "placed sid d1" "places_below (Suc (latest_sequence d sid)) sid d1"
      using assms(2,3) placed_cong [OF rows] by auto
    show "changes_known (ir_id ` set (db_items d)) ?es" using assms(4) by (rule changes_known_current)
    show "ir_id ` set (db_items d) \<subseteq> ir_id ` set (db_items d1)" using rows by simp
  qed
  with eff(2) [of sid] show ?thesis by simp
qed

section \<open>Paging back through history\<close>

text \<open>
  What a reader does to see everything: it takes the page before its cursor while one is left
  (\<open>withOlderItems\<close>). The cursor falls with every page.
\<close>

lemma own_places:
  assumes "placed sid d"
  shows "sorted_wrt (<) (map ir_position (sort_key ir_position (filter P (items_of sid d))))"
proof -
  have "distinct (map ir_position (filter P (items_of sid d)))"
    using assms by (simp add: placed_def distinct_map_filter)
  moreover have "set (map ir_position (sort_key ir_position (filter P (items_of sid d)))) =
      set (map ir_position (filter P (items_of sid d)))" by simp
  ultimately have "distinct (map ir_position (sort_key ir_position (filter P (items_of sid d))))"
    using card_distinct distinct_card by (metis length_map length_sort)
  then show ?thesis by (simp add: strict_sorted_iff)
qed

lemma read_items_before_page:
  fixes d sid before
  defines "L \<equiv> sort_key ir_position (filter (\<lambda>r. ir_position r < before) (items_of sid d))"
  shows "read_items_before d sid before limit =
    (let n = (case limit of None \<Rightarrow> HISTORY_PAGE_ITEMS | Some l \<Rightarrow> l); page = drop (length L - n) L
     in (map item_from_row page, case page of [] \<Rightarrow> None | r # _ \<Rightarrow> if n < length L then Some (ir_position r) else None))"
proof -
  have "rev (take n (take (n + 1) (rev L))) = drop (length L - n) L" for n
    by (simp add: rev_take)
  moreover have "n < length (take (n + 1) (rev L)) \<longleftrightarrow> n < length L" for n by simp
  ultimately show ?thesis
    unfolding read_items_before_def newest_first_def L_def [symmetric] Let_def by (simp only:)
qed

lemma read_items_before_cursor: "read_items_before d sid before limit = (items, Some b) \<Longrightarrow> b < before"
  unfolding read_items_before_page Let_def
proof -
  let ?L = "sort_key ir_position (filter (\<lambda>r. ir_position r < before) (items_of sid d))"
  let ?page = "drop (length ?L - (case limit of None \<Rightarrow> HISTORY_PAGE_ITEMS | Some l \<Rightarrow> l)) ?L"
  assume "(map item_from_row ?page, case ?page of [] \<Rightarrow> None
      | r # _ \<Rightarrow> if (case limit of None \<Rightarrow> HISTORY_PAGE_ITEMS | Some l \<Rightarrow> l) < length ?L then Some (ir_position r) else None)
    = (items, Some b)"
  then obtain r rs where page: "?page = r # rs" "b = ir_position r" by (auto split: list.splits if_splits)
  then have "r \<in> set ?L" by (metis in_set_dropD list.set_intros(1))
  with page show "b < before" by simp
qed

function scroll_back :: "db \<Rightarrow> ident \<Rightarrow> nat option \<Rightarrow> nat \<Rightarrow> session_state \<Rightarrow> session_state" where
  "scroll_back d sid limit before st =
     (case read_items_before d sid before limit of
        (items, older) \<Rightarrow>
          (case older of
             None \<Rightarrow> with_older_items st items older
           | Some b \<Rightarrow> scroll_back d sid limit b (with_older_items st items older)))"
  by pat_completeness auto
termination
  by (relation "measure (\<lambda>(d, sid, limit, before, st). before)") (auto dest: read_items_before_cursor [OF sym])

text \<open>The pages it reads, with the cursor each leads to.\<close>

function pages_back :: "db \<Rightarrow> ident \<Rightarrow> nat option \<Rightarrow> nat \<Rightarrow> (item list \<times> nat option) list" where
  "pages_back d sid limit before =
     (case read_items_before d sid before limit of
        (items, older) \<Rightarrow> (items, older) # (case older of None \<Rightarrow> [] | Some b \<Rightarrow> pages_back d sid limit b))"
  by pat_completeness auto
termination
  by (relation "measure (\<lambda>(d, sid, limit, before). before)") (auto dest: read_items_before_cursor [OF sym])

declare scroll_back.simps [simp del] pages_back.simps [simp del]

lemma scroll_back_pages:
  "scroll_back d sid limit before st = foldl (\<lambda>st (items, older). with_older_items st items older) st (pages_back d sid limit before)"
proof (induction d sid limit before st rule: scroll_back.induct)
  case (1 d sid limit before st)
  obtain items older where read: "read_items_before d sid before limit = (items, older)" by fastforce
  with 1 [OF read [symmetric]] show ?case
    by (cases older) (simp_all add: scroll_back.simps [of d sid limit before st] pages_back.simps [of d sid limit before])
qed

definition page_size :: "nat option \<Rightarrow> nat" where
  "page_size limit = (case limit of None \<Rightarrow> HISTORY_PAGE_ITEMS | Some l \<Rightarrow> l)"

definition items_before :: "db \<Rightarrow> ident \<Rightarrow> nat \<Rightarrow> nat" where
  "items_before d sid before = length (filter (\<lambda>r. ir_position r < before) (items_of sid d))"

text \<open>A page that leads on takes its full size off what is left.\<close>

lemma page_rest:
  assumes ok: "placed sid d" and limit: "limit \<noteq> Some 0" and read: "read_items_before d sid before limit = (items, Some b)"
  shows "items_before d sid before = items_before d sid b + page_size limit" "0 < items_before d sid b"
proof -
  let ?L = "sort_key ir_position (filter (\<lambda>r. ir_position r < before) (items_of sid d))"
  let ?k = "length ?L - page_size limit"
  have pos: "0 < page_size limit" using limit by (auto simp: page_size_def HISTORY_PAGE_ITEMS_def split: option.splits)
  obtain r rs where page: "drop ?k ?L = r # rs" "b = ir_position r" "page_size limit < length ?L"
    using read unfolding read_items_before_page Let_def page_size_def [symmetric] by (auto split: list.splits if_splits)
  have L: "?L = take ?k ?L @ r # rs" using page(1) by (metis append_take_drop_id)
  have "sorted_wrt (<) (map ir_position (take ?k ?L @ r # rs))" using own_places [OF ok] L by metis
  then have low: "\<forall>x \<in> set (take ?k ?L). ir_position x < b" and high: "\<forall>x \<in> set (r # rs). \<not> ir_position x < b"
    unfolding page(2) by (auto simp: sorted_wrt_append)
  have "filter (\<lambda>r. ir_position r < b) (take ?k ?L @ r # rs) = take ?k ?L"
    using low high by (simp add: filter_empty_conv)
  then have "filter (\<lambda>r. ir_position r < b) ?L = take ?k ?L" using L by metis
  moreover have "length (filter (\<lambda>r. ir_position r < b) ?L) = items_before d sid b"
  proof -
    have "b < before" by (rule read_items_before_cursor [OF read])
    then have "filter (\<lambda>r. ir_position r < b) (filter (\<lambda>r. ir_position r < before) (items_of sid d)) =
        filter (\<lambda>r. ir_position r < b) (items_of sid d)" by (simp add: filter_filter conj_commute) (metis order.strict_trans)
    then show ?thesis by (simp add: items_before_def filter_sort)
  qed
  ultimately have "items_before d sid b = ?k" by (metis diff_le_self length_take min.absorb2)
  moreover have "length ?L = items_before d sid before" by (simp add: items_before_def)
  ultimately show "items_before d sid before = items_before d sid b + page_size limit" "0 < items_before d sid b"
    using page(3) by simp_all
qed

lemma pages_back_count:
  assumes "placed sid d" and "limit \<noteq> Some 0" and "0 < items_before d sid before"
  shows "length (pages_back d sid limit before) = (items_before d sid before + page_size limit - 1) div page_size limit"
  using assms
proof (induction d sid limit before rule: pages_back.induct)
  case (1 d sid limit before)
  obtain items older where read: "read_items_before d sid before limit = (items, older)" by fastforce
  have pos: "0 < page_size limit" using 1(3) by (auto simp: page_size_def HISTORY_PAGE_ITEMS_def split: option.splits)
  show ?case
  proof (cases older)
    case None
    let ?L = "sort_key ir_position (filter (\<lambda>r. ir_position r < before) (items_of sid d))"
    have "length ?L \<le> page_size limit"
      using read None pos unfolding read_items_before_page Let_def page_size_def [symmetric]
      by (auto split: list.splits if_splits)
    then have "items_before d sid before \<le> page_size limit" by (simp add: items_before_def)
    with 1(4) pos have "(items_before d sid before + page_size limit - 1) div page_size limit = 1"
      by (intro div_nat_eqI) simp_all
    with read None show ?thesis by (simp add: pages_back.simps [of d sid limit before])
  next
    case (Some b)
    note rest = page_rest [OF 1(2,3) read [unfolded Some]]
    have "length (pages_back d sid limit b) = (items_before d sid b + page_size limit - 1) div page_size limit"
      using 1(1) [OF read [symmetric] Some 1(2,3) rest(2)] .
    moreover have "(items_before d sid before + page_size limit - 1) div page_size limit =
        Suc ((items_before d sid b + page_size limit - 1) div page_size limit)"
    proof -
      have same: "items_before d sid before + page_size limit - 1 = (items_before d sid b + page_size limit - 1) + page_size limit"
        using rest(1) pos by simp
      show ?thesis unfolding same by (rule div_add_self2 [THEN trans]) (use pos in simp_all)
    qed
    ultimately show ?thesis using read Some by (simp add: pages_back.simps [of d sid limit before])
  qed
qed

definition payloads :: "ident \<Rightarrow> db \<Rightarrow> (nat \<Rightarrow> bool) \<Rightarrow> item set" where
  "payloads sid d P = item_from_row ` {r \<in> set (items_of sid d). P (ir_position r)}"

lemma page_payloads:
  assumes "placed sid d" and "limit \<noteq> Some 0" and "read_items_before d sid before limit = (items, older)"
  shows "set items = payloads sid d (\<lambda>p. (case older of None \<Rightarrow> 0 | Some b \<Rightarrow> b) \<le> p \<and> p < before)"
proof -
  let ?L = "sort_key ir_position (filter (\<lambda>r. ir_position r < before) (items_of sid d))"
  define n where "n = (case limit of None \<Rightarrow> HISTORY_PAGE_ITEMS | Some l \<Rightarrow> l)"
  have pos: "0 < n" using assms(2) by (auto simp: n_def HISTORY_PAGE_ITEMS_def split: option.splits)
  define page where "page = drop (length ?L - n) ?L"
  have run: "items = map item_from_row page"
    "older = (case page of [] \<Rightarrow> None | r # _ \<Rightarrow> if n < length ?L then Some (ir_position r) else None)"
    using assms(3) unfolding read_items_before_page Let_def n_def [symmetric] page_def by auto
  have sorted: "sorted_wrt (<) (map ir_position ?L)" using own_places [OF assms(1)] .
  have "set page = {r \<in> set ?L. (case older of None \<Rightarrow> 0 | Some b \<Rightarrow> b) \<le> ir_position r}"
  proof (cases "n < length ?L")
    case False
    then have "page = ?L" by (simp add: page_def)
    moreover have "older = None" using run(2) False by (simp split: list.splits)
    ultimately show ?thesis by simp
  next
    case True
    then have "page \<noteq> []" using pos by (simp add: page_def)
    then obtain r rs where page: "page = r # rs" by (cases page) auto
    have older: "older = Some (ir_position r)" using run(2) page True by simp
    have L: "?L = take (length ?L - n) ?L @ r # rs"
      using page unfolding page_def by (metis append_take_drop_id)
    then have "sorted_wrt (<) (map ir_position (take (length ?L - n) ?L @ r # rs))" using sorted by simp
    then have "\<forall>x \<in> set (take (length ?L - n) ?L). ir_position x < ir_position r"
      "\<forall>x \<in> set rs. ir_position r < ir_position x" by (auto simp: sorted_wrt_append)
    moreover have "set ?L = set (take (length ?L - n) ?L) \<union> insert r (set rs)" using L
      by (metis list.simps(15) set_append)
    ultimately show ?thesis unfolding older page by auto
  qed
  then show ?thesis unfolding run(1) payloads_def by auto
qed

lemma payloads_inj:
  assumes "placed sid d" and "x \<in> payloads sid d P" and "y \<in> payloads sid d Q" and "i_id x = i_id y"
  shows "x = y"
proof -
  obtain r q where r: "r \<in> set (items_of sid d)" "x = ir_payload r" and q: "q \<in> set (items_of sid d)" "y = ir_payload q"
    using assms(2,3) by (auto simp: payloads_def item_from_row_def)
  with assms(1,4) have "ir_id r = ir_id q" by (simp add: placed_def repeats_def)
  moreover have "r \<in> set (db_items d)" "q \<in> set (db_items d)" using r q by (auto simp: items_of_def)
  ultimately have "r = q" using assms(1) by (auto simp: placed_def unique_keys_def distinct_map dest: inj_onD)
  with r q show ?thesis by simp
qed

lemma upsert_item_fresh:
  assumes "i_id it \<notin> i_id ` set items"
  shows "set (upsert_item items it) = insert it (set items)"
proof -
  have "set (upsert_item items it) = insert it (set (take (slot items it (length items)) items) \<union>
      set (drop (slot items it (length items)) items))"
    using assms by (simp add: upsert_item_def Let_def)
  then show ?thesis by (metis append_take_drop_id set_append)
qed

lemma upsert_item_same:
  assumes "transcript items" and "\<And>x. x \<in> set items \<Longrightarrow> i_id x = i_id it \<Longrightarrow> x = it"
  shows "set (upsert_item items it) = insert it (set items)"
proof (cases "i_id it \<in> i_id ` set items")
  case False
  then show ?thesis by (rule upsert_item_fresh)
next
  case True
  let ?upd = "\<lambda>x. it\<lparr>i_position := i_position x\<rparr>"
  have "upsert i_id ?upd it xs = xs" if "i_id it \<in> i_id ` set xs" "\<And>x. x \<in> set xs \<Longrightarrow> i_id x = i_id it \<Longrightarrow> x = it" for xs
    using that
  proof (induction xs)
    case (Cons x xs)
    show ?case
    proof (cases "i_id x = i_id it")
      case True
      then have "x = it" using Cons.prems(2) by simp
      then show ?thesis by simp
    next
      case False
      with Cons.prems(1) have "i_id it \<in> i_id ` set xs" by auto
      from Cons.IH [OF this] Cons.prems(2) False show ?thesis by simp
    qed
  qed simp
  from this [OF True assms(2)] have "upsert_item items it = items" using True by (simp add: upsert_item_def)
  moreover have "it \<in> set items" using True assms(2) by (metis imageE)
  ultimately show ?thesis by auto
qed

lemma with_older_payloads:
  assumes "placed sid d" and "transcript (s_items st)" and "set (s_items st) \<subseteq> payloads sid d P"
    and "set page \<subseteq> payloads sid d Q"
  shows "set (s_items (with_older_items st page older)) = set page \<union> set (s_items st)"
proof -
  have "set (fold (\<lambda>it items. upsert_item items it) page items) = set page \<union> set items"
    if "transcript items" "set items \<subseteq> payloads sid d (\<lambda>_. True)" for items
    using that assms(4)
  proof (induction page arbitrary: items)
    case (Cons it page)
    have it: "it \<in> payloads sid d Q" using Cons.prems(3) by simp
    have "set (upsert_item items it) = insert it (set items)"
      using payloads_inj [OF assms(1) _ it] Cons.prems(2) by (intro upsert_item_same [OF Cons.prems(1)]) blast
    moreover have "it \<in> payloads sid d (\<lambda>_. True)" using it by (auto simp: payloads_def)
    ultimately show ?case using Cons.IH [OF transcript_upsert_item [OF Cons.prems(1)]] Cons.prems by simp
  qed simp
  moreover have "set (s_items st) \<subseteq> payloads sid d (\<lambda>_. True)" using assms(3) by (auto simp: payloads_def)
  ultimately show ?thesis using assms(2) by (simp add: with_older_items_def)
qed

lemma scroll_back_complete:
  assumes "placed sid d" and "limit \<noteq> Some 0"
    and "transcript (s_items st)" and "set (s_items st) \<subseteq> payloads sid d (\<lambda>_. True)"
    and "payloads sid d (\<lambda>p. before \<le> p) \<subseteq> set (s_items st)"
  shows "transcript (s_items (scroll_back d sid limit before st)) \<and>
    set (s_items (scroll_back d sid limit before st)) = payloads sid d (\<lambda>_. True) \<and>
    s_older_before (scroll_back d sid limit before st) = None"
  using assms
proof (induction d sid limit before st rule: scroll_back.induct)
  case (1 d sid limit before st)
  obtain page older where read: "read_items_before d sid before limit = (page, older)" by fastforce
  let ?st = "with_older_items st page older"
  note page = page_payloads [OF 1(2,3) read]
  have items: "set (s_items ?st) = set page \<union> set (s_items st)"
    by (rule with_older_payloads [OF 1(2,4,5)]) (use page in \<open>auto simp: payloads_def\<close>)
  have below: "set (s_items ?st) \<subseteq> payloads sid d (\<lambda>_. True)"
    using 1(5) page unfolding items by (auto simp: payloads_def)
  have above: "payloads sid d (\<lambda>p. (case older of None \<Rightarrow> 0 | Some b \<Rightarrow> b) \<le> p) \<subseteq> set (s_items ?st)"
  proof
    fix x assume "x \<in> payloads sid d (\<lambda>p. (case older of None \<Rightarrow> 0 | Some b \<Rightarrow> b) \<le> p)"
    then obtain r where r: "x = item_from_row r" "r \<in> set (items_of sid d)"
      "(case older of None \<Rightarrow> 0 | Some b \<Rightarrow> b) \<le> ir_position r" unfolding payloads_def by blast
    show "x \<in> set (s_items ?st)"
    proof (cases "before \<le> ir_position r")
      case True
      with r(1,2) have "x \<in> payloads sid d (\<lambda>p. before \<le> p)" unfolding payloads_def by blast
      with 1(6) show ?thesis unfolding items by blast
    next
      case False
      with r have "x \<in> set page" unfolding page payloads_def by auto
      then show ?thesis unfolding items by blast
    qed
  qed
  note t = transcript_older [OF 1(4), of page older]
  show ?case
  proof (cases older)
    case None
    with read above below t show ?thesis
      by (auto simp: scroll_back.simps [of d sid limit before st] with_older_items_def)
  next
    case (Some b)
    with above have "payloads sid d (\<lambda>p. b \<le> p) \<subseteq> set (s_items ?st)" by simp
    from 1(1) [OF read [symmetric] Some 1(2,3) t below this] read Some show ?thesis
      by (simp add: scroll_back.simps [of d sid limit before st])
  qed
qed

text \<open>Two transcripts of the same items are the same list.\<close>

lemma transcript_unique: "transcript xs \<Longrightarrow> transcript ys \<Longrightarrow> set xs = set ys \<Longrightarrow> xs = ys"
proof -
  assume xs: "transcript xs" and ys: "transcript ys" and same: "set xs = set ys"
  then have "map item_order xs = map item_order ys"
    by (intro strict_sorted_equal) (simp_all add: transcript_def)
  moreover have "inj_on item_order (set xs \<union> set ys)"
    using xs same by (auto simp: transcript_def strict_sorted_iff distinct_map)
  ultimately show "xs = ys" by (rule map_inj_on)
qed

definition all_items :: "ident \<Rightarrow> db \<Rightarrow> item list" where
  "all_items sid d = map item_from_row (sort_key ir_position (items_of sid d))"

lemma item_rows_ids:
  assumes "placed sid d"
  shows "distinct (map (\<lambda>r. i_id (item_from_row r)) (items_of sid d))"
proof -
  have "map (\<lambda>r. i_id (item_from_row r)) (items_of sid d) = map ir_id (items_of sid d)"
    using assms by (auto simp: placed_def repeats_def item_from_row_def)
  moreover have "distinct (map ir_id (items_of sid d))"
    using assms by (simp add: placed_def unique_keys_def items_of_def distinct_map_filter)
  ultimately show ?thesis by (simp only:)
qed

lemma distinct_map_sort: "distinct (map f (sort_key g xs)) \<longleftrightarrow> distinct (map f xs)"
  by (metis distinct_map distinct_sort set_sort)

lemma all_items_transcript:
  assumes "placed sid d"
  shows "transcript (all_items sid d)" and "set (all_items sid d) = payloads sid d (\<lambda>_. True)"
proof -
  have "sorted_wrt (<) (map ir_position (sort_key ir_position (items_of sid d)))"
    using own_places [OF assms, of "\<lambda>_. True"] by simp
  then have "sorted_wrt (\<lambda>a b. ir_position a < ir_position b) (sort_key ir_position (items_of sid d))"
    by (simp add: sorted_wrt_map)
  then have "sorted_wrt (\<lambda>a b. item_order (item_from_row a) < item_order (item_from_row b)) (sort_key ir_position (items_of sid d))"
    by (rule sorted_wrt_mono_rel [rotated])
      (use assms in \<open>auto simp: placed_def repeats_def item_order_def less_item_key_def item_from_row_def\<close>)
  moreover have "unique_keys i_id (all_items sid d)"
    using item_rows_ids [OF assms] by (simp add: unique_keys_def all_items_def comp_def distinct_map_sort)
  ultimately show "transcript (all_items sid d)"
    by (simp add: transcript_def all_items_def sorted_wrt_map)
  show "set (all_items sid d) = payloads sid d (\<lambda>_. True)"
    by (auto simp: all_items_def payloads_def)
qed

lemma snapshot_payloads:
  assumes "read_snapshot now n d sid = Some sn"
  shows "set (sn_items sn) \<subseteq> payloads sid d (\<lambda>_. True)"
    and "payloads sid d (\<lambda>p. (case sn_older_before sn of None \<Rightarrow> 0 | Some b \<Rightarrow> b) \<le> p) \<subseteq> set (sn_items sn)"
    and "placed sid d \<Longrightarrow> unique_keys i_id (sn_items sn)"
proof -
  obtain start pending where sn: "sn_items sn = map item_from_row (snapshot_items d sid pending start)"
    "sn_older_before sn = older_before d sid start"
    using assms by (auto simp: read_snapshot_def Let_def split: option.splits)
  show "set (sn_items sn) \<subseteq> payloads sid d (\<lambda>_. True)"
    by (auto simp: sn snapshot_items_def Let_def payloads_def)
  show "payloads sid d (\<lambda>p. (case sn_older_before sn of None \<Rightarrow> 0 | Some b \<Rightarrow> b) \<le> p) \<subseteq> set (sn_items sn)"
    by (auto simp: sn snapshot_items_def older_before_def Let_def payloads_def split: option.splits if_splits)
  assume ok: "placed sid d"
  have "distinct (map (\<lambda>r. i_id (item_from_row r)) (filter P (items_of sid d)))" for P
    using item_rows_ids [OF ok] by (rule distinct_map_filter)
  then show "unique_keys i_id (sn_items sn)"
    by (simp add: sn snapshot_items_def Let_def unique_keys_def comp_def distinct_map_sort)
qed

definition opened :: "db \<Rightarrow> ident \<Rightarrow> nat option \<Rightarrow> session_snapshot \<Rightarrow> session_state" where
  "opened d sid limit sn =
     (case sn_older_before sn of
        None \<Rightarrow> session_state_from_snapshot sn
      | Some b \<Rightarrow> scroll_back d sid limit b (session_state_from_snapshot sn))"

definition pages_read :: "db \<Rightarrow> ident \<Rightarrow> nat option \<Rightarrow> session_snapshot \<Rightarrow> (item list \<times> nat option) list" where
  "pages_read d sid limit sn = (case sn_older_before sn of None \<Rightarrow> [] | Some b \<Rightarrow> pages_back d sid limit b)"

lemma opened_pages:
  "opened d sid limit sn =
     foldl (\<lambda>st (items, older). with_older_items st items older) (session_state_from_snapshot sn) (pages_read d sid limit sn)"
  by (simp add: opened_def pages_read_def scroll_back_pages split: option.splits)

lemma snapshot_cursor: "read_snapshot now n d sid = Some sn \<Longrightarrow> sn_older_before sn = Some b \<Longrightarrow> 0 < items_before d sid b"
  by (auto simp: read_snapshot_def Let_def older_before_def items_before_def length_filter_conv_card card_gt_0_iff in_set_conv_nth
      split: option.splits if_splits)

lemma ceil_div_le: "(0::nat) < n \<Longrightarrow> (k + n - 1) div n \<le> k"
  by (cases k) (simp_all add: div_le_mono2 less_mult_imp_div_less)

text \<open>Property C13: a snapshot and the pages before it are the whole history. A reader that opens a
  session's bounded snapshot, whatever turns it carries, and pages back from its cursor, adding each page
  to what it shows, until no older items are left, holds every item of the session exactly once, in order.
  It reads as many pages as the items before the cursor fill, the last one perhaps in part, so never more
  than there are items.\<close>

theorem history_complete:
  assumes "read_snapshot now n d sid = Some sn" and "placed sid d" and "limit \<noteq> Some 0"
  shows "s_items (opened d sid limit sn) = all_items sid d \<and> s_older_before (opened d sid limit sn) = None \<and>
    opened d sid limit sn =
      foldl (\<lambda>st (items, older). with_older_items st items older) (session_state_from_snapshot sn) (pages_read d sid limit sn) \<and>
    length (pages_read d sid limit sn) =
      (case sn_older_before sn of None \<Rightarrow> 0 | Some b \<Rightarrow> (items_before d sid b + page_size limit - 1) div page_size limit) \<and>
    length (pages_read d sid limit sn) \<le> length (all_items sid d)"
proof -
  let ?st = "session_state_from_snapshot sn"
  note snap = snapshot_payloads [OF assms(1)]
  have ids: "unique_keys i_id (sn_items sn)" using snap(3) [OF assms(2)] .
  have items: "set (s_items ?st) = set (sn_items sn)" by (simp add: session_state_from_snapshot_def)
  have t: "transcript (s_items ?st)"
    using sort_strict [OF ids] ids by (simp add: transcript_def session_state_from_snapshot_def unique_keys_def distinct_map_sort)
  have "transcript (s_items (opened d sid limit sn)) \<and>
      set (s_items (opened d sid limit sn)) = payloads sid d (\<lambda>_. True) \<and> s_older_before (opened d sid limit sn) = None"
  proof (cases "sn_older_before sn")
    case None
    with snap(1,2) have "set (sn_items sn) = payloads sid d (\<lambda>_. True)" by auto
    with None t items show ?thesis by (simp add: opened_def session_state_from_snapshot_def)
  next
    case (Some b)
    have "payloads sid d (\<lambda>p. b \<le> p) \<subseteq> set (s_items ?st)" using snap(2) Some items by simp
    from scroll_back_complete [OF assms(2,3) t _ this] snap(1) items Some show ?thesis
      by (simp add: opened_def)
  qed
  then have "s_items (opened d sid limit sn) = all_items sid d" "s_older_before (opened d sid limit sn) = None"
    using transcript_unique all_items_transcript [OF assms(2)] by blast+
  moreover have count: "length (pages_read d sid limit sn) =
      (case sn_older_before sn of None \<Rightarrow> 0 | Some b \<Rightarrow> (items_before d sid b + page_size limit - 1) div page_size limit)"
    using pages_back_count [OF assms(2,3)] snapshot_cursor [OF assms(1)] by (simp add: pages_read_def split: option.splits)
  moreover have "length (pages_read d sid limit sn) \<le> length (all_items sid d)"
  proof -
    have "0 < page_size limit" using assms(3) by (auto simp: page_size_def HISTORY_PAGE_ITEMS_def split: option.splits)
    moreover have "items_before d sid b \<le> length (all_items sid d)" for b by (simp add: items_before_def all_items_def)
    ultimately show ?thesis unfolding count using order_trans [OF ceil_div_le] by (cases "sn_older_before sn") simp_all
  qed
  ultimately show ?thesis using opened_pages by blast
qed

section \<open>What a snapshot shows\<close>

lemma put_rows_set:
  assumes "\<And>x y. x \<in> set xs \<Longrightarrow> y \<in> set xs \<Longrightarrow> key x = key y \<Longrightarrow> x = y"
  shows "set (fold (put_row key) xs []) = set xs"
proof -
  have put: "set (put_row key x ys) = insert x (set ys)"
    if "\<And>y. y \<in> set ys \<Longrightarrow> key y = key x \<Longrightarrow> y = x" for x ys
    using that by (induction ys) (auto simp: put_row_def)
  have "set (fold (put_row key) zs ys) = set zs \<union> set ys" if "set zs \<union> set ys \<subseteq> set xs" for zs ys
    using that
  proof (induction zs arbitrary: ys)
    case (Cons z zs)
    have "set (put_row key z ys) = insert z (set ys)" using Cons.prems assms by (intro put) auto
    with Cons show ?case by simp
  qed simp
  from this [of xs "[]"] show ?thesis by simp
qed

lemma snapshot_turns_set:
  assumes "unique_keys tr_id (db_turns d)"
  shows "set (snapshot_turns now n d sid) = turn_from_row now ` (set (recent_turns n d sid) \<union> set (pending_turns d sid))"
proof -
  have "set (recent_turns n d sid) \<subseteq> set (db_turns d)"
    by (auto simp: recent_turns_def newest_first_def turns_of_def dest: in_set_takeD)
  moreover have "set (pending_turns d sid) \<subseteq> set (db_turns d)"
    by (auto simp: pending_turns_def turns_of_def)
  ultimately have "set (fold (put_row tr_id) (recent_turns n d sid @ pending_turns d sid) []) =
      set (recent_turns n d sid @ pending_turns d sid)"
    using assms by (intro put_rows_set) (auto simp: unique_keys_def distinct_map dest: inj_onD)
  then show ?thesis by (simp add: snapshot_turns_def)
qed

text \<open>A snapshot leaves out nothing that waits or works. Every queued, held or working
  turn of the session is in it as its row reads, with every item of that turn, and so is every
  pending request, whatever the number of recent turns it is limited to.\<close>

theorem snapshot_shows_open_work:
  assumes "read_snapshot now n d sid = Some sn" and "unique_keys tr_id (db_turns d)"
  shows "(\<forall>r \<in> set (db_turns d). tr_session_id r = sid \<and> \<not> is_settled_turn_status (tr_status r) \<longrightarrow>
      turn_from_row now r \<in> set (sn_turns sn) \<and>
      (\<forall>i \<in> set (items_of sid d). ir_turn_id i = Some (tr_id r) \<longrightarrow> item_from_row i \<in> set (sn_items sn))) \<and>
    (\<forall>q \<in> set (db_requests d). rr_session_id q = sid \<and> rr_status q = RPending \<longrightarrow>
      request_from_row q \<in> set (sn_requests sn))"
proof -
  let ?turns = "snapshot_turns now (case n of None \<Rightarrow> SNAPSHOT_TURNS | Some k \<Rightarrow> k) d sid"
  have sn: "sn_turns sn = ?turns"
    "sn_items sn = map item_from_row (snapshot_items d sid (pending_turns d sid) (snapshot_from d sid ?turns))"
    "sn_requests sn = map request_from_row
       (filter (\<lambda>r. rr_session_id r = sid \<and> (rr_status r = RPending \<or> of_turns ?turns (rr_turn_id r))) (db_requests d))"
    using assms(1) by (auto simp: read_snapshot_def Let_def split: option.splits)
  have "turn_from_row now r \<in> set (sn_turns sn) \<and>
      (\<forall>i \<in> set (items_of sid d). ir_turn_id i = Some (tr_id r) \<longrightarrow> item_from_row i \<in> set (sn_items sn))"
    if r: "r \<in> set (db_turns d)" "tr_session_id r = sid" "\<not> is_settled_turn_status (tr_status r)" for r
  proof -
    have "r \<in> set (pending_turns d sid)"
      using r by (cases "tr_status r") (auto simp: pending_turns_def turns_of_def)
    then show ?thesis unfolding sn snapshot_turns_set [OF assms(2)]
      by (auto simp: snapshot_items_def Let_def split: option.splits)
  qed
  then show ?thesis using sn(3) by auto
qed

text \<open>
  The size of a snapshot is bounded by its turns and a page, unless its earliest turn holds no
  item and is not the session's first: then it carries the whole history and no cursor.
\<close>

lemma snapshot_without_start:
  assumes "snapshot_turns now (case n of None \<Rightarrow> SNAPSHOT_TURNS | Some k \<Rightarrow> k) d sid = earliest # later"
    and "\<exists>r \<in> set (turns_of sid d). tr_ordinal r < t_ordinal earliest"
    and "\<forall>r \<in> set (items_of sid d). ir_turn_id r \<noteq> Some (t_id earliest)"
    and "read_snapshot now n d sid = Some sn"
  shows "sn_items sn = all_items sid d \<and> sn_older_before sn = None"
proof -
  have "first_position d sid (t_id earliest) = None"
    using assms(3) by (simp add: first_position_def filter_False)
  then have "snapshot_from d sid (earliest # later) = None" using assms(2) by (simp add: snapshot_from_def)
  with assms(1,4) show ?thesis
    by (auto simp: read_snapshot_def Let_def snapshot_items_def older_before_def all_items_def split: option.splits)
qed

section \<open>The snapshot a mirror starts from\<close>

lemma by_id_unique: "unique_keys key xs \<Longrightarrow> by_id key xs = xs"
proof -
  have "unique_keys key (ys @ xs) \<Longrightarrow> fold (put_row key) xs ys = ys @ xs" for ys
  proof (induction xs arbitrary: ys)
    case (Cons x xs)
    then have "key x \<notin> key ` set ys" by (auto simp: unique_keys_def)
    then have "put_row key x ys = ys @ [x]" unfolding put_row_def by (rule upsert_fresh)
    with Cons.IH [of "ys @ [x]"] Cons.prems show ?case by simp
  qed simp
  from this [of "[]"] show "unique_keys key xs \<Longrightarrow> by_id key xs = xs" by (simp add: by_id_def)
qed

lemma find_row_map:
  "(\<And>x. x \<in> set xs \<Longrightarrow> key' (f x) = key x) \<Longrightarrow> find_row key' k (map f xs) = map_option f (find_row key k xs)"
  by (induction xs) auto

lemma find_row_same_set:
  assumes "unique_keys key xs" and "unique_keys key ys" and "set xs = set ys"
  shows "find_row key k xs = find_row key k ys"
proof (cases "find_row key k xs")
  case None
  then have "find_row key k ys = None" using assms(3) by (simp add: find_row_None)
  with None show ?thesis by simp
next
  case (Some r)
  then have "r \<in> set ys" "key r = k" using assms(3) by (auto dest: find_row_Some)
  with find_row_unique [OF assms(2)] Some show ?thesis by metis
qed

lemma by_id_rows:
  assumes "unique_keys key (filter P xs)" and "\<And>x. x \<in> set xs \<Longrightarrow> P x \<Longrightarrow> key' (f x) = h (key x)" and "inj h"
  shows "find_row key' (h k) (by_id key' (map f (filter P xs))) = map_option f (find_row key k (filter P xs))"
proof -
  have keys: "map key' (map f (filter P xs)) = map h (map key (filter P xs))" using assms(2) by simp
  have "unique_keys key' (map f (filter P xs))"
    unfolding unique_keys_def keys using assms(1,3) by (simp add: unique_keys_def distinct_map inj_on_def inj_def)
  then have "by_id key' (map f (filter P xs)) = map f (filter P xs)" by (rule by_id_unique)
  moreover have "find_row key' (h k) (map f (filter P xs)) = map_option f (find_row (\<lambda>x. h (key x)) (h k) (filter P xs))"
    using assms(2) by (intro find_row_map) auto
  moreover have "find_row (\<lambda>x. h (key x)) (h k) zs = find_row key k zs" for zs
    using assms(3) by (induction zs) (auto simp: inj_eq)
  ultimately show ?thesis by simp
qed

lemma unique_keys_filter: "unique_keys key xs \<Longrightarrow> unique_keys key (filter P xs)"
  by (simp add: unique_keys_def distinct_map_filter)

lemma turn_view_from_row: "turn_view (turn_from_row now r) = turn_view (turn_from_row 0 r)"
  by (simp add: turn_view_def turn_from_row_def)

text \<open>Property C17: a full snapshot is the session. A client that starts from it shows, entity by
  entity, exactly what the session's rows hold, at the session's sequence, with nothing older
  left to page in.\<close>

theorem full_snapshot_agrees:
  assumes "read_full_snapshot now d sid = Some sn" and "keyed d" and "placed sid d"
  shows "agrees d sid (session_state_from_snapshot sn) \<and>
    s_sequence (session_state_from_snapshot sn) = latest_sequence d sid \<and>
    \<not> s_stale (session_state_from_snapshot sn) \<and> s_older_before (session_state_from_snapshot sn) = None"
proof -
  let ?st = "session_state_from_snapshot sn"
  obtain row where row: "session_row_of d sid = Some row" and
    sn: "sn_sequence sn = sr_event_sequence row" "sn_session sn = session_fields_from_row row"
      "sn_turns sn = map (turn_from_row now) (sort_key tr_ordinal (turns_of sid d))"
      "sn_attempts sn = map attempt_from_row (filter (\<lambda>r. ar_session_id r = sid) (db_attempts d))"
      "sn_items sn = all_items sid d"
      "sn_requests sn = map request_from_row (filter (\<lambda>r. rr_session_id r = sid) (db_requests d))"
      "sn_provider_threads sn = map provider_thread_from_row (filter (\<lambda>p. p_session_id p = sid) (db_threads d))"
      "sn_older_before sn = None"
    using assms(1) by (auto simp: read_full_snapshot_def all_items_def split: option.splits)
  note keys = assms(2) [unfolded keyed_def]
  have turns: "turn_shown d sid k = map_option turn_view (find_row t_id k (s_turns ?st))" for k
  proof -
    have u: "unique_keys tr_id (turns_of sid d)" using keys by (simp add: turns_of_def unique_keys_filter)
    then have us: "unique_keys tr_id (sort_key tr_ordinal (turns_of sid d))"
      by (simp add: unique_keys_def distinct_map_sort)
    have ids: "t_id (turn_from_row now r) = tr_id r" for r by (simp add: turn_from_row_def)
    then have "unique_keys t_id (sn_turns sn)"
      using us by (simp add: sn unique_keys_def comp_def)
    then have "s_turns ?st = sn_turns sn" by (simp add: session_state_from_snapshot_def by_id_unique)
    then have "find_row t_id k (s_turns ?st) = map_option (turn_from_row now) (find_row tr_id k (sort_key tr_ordinal (turns_of sid d)))"
      unfolding sn by (simp add: find_row_map ids)
    also have "find_row tr_id k (sort_key tr_ordinal (turns_of sid d)) = find_row tr_id k (turns_of sid d)"
      by (rule find_row_same_set [OF us u]) simp
    finally show ?thesis
      by (simp add: turn_shown_def own_lookup_def turns_of_def option.map_comp comp_def turn_view_from_row [of now])
  qed
  have attempts: "attempt_shown d sid k = find_row a_id k (s_attempts ?st)" for k
    using by_id_rows [of ar_id "\<lambda>r. ar_session_id r = sid" "db_attempts d" a_id attempt_from_row id k] keys
    by (simp add: attempt_shown_def own_lookup_def session_state_from_snapshot_def sn unique_keys_filter
        attempt_from_row_def ar_id_def)
  have requests: "request_shown d sid k = find_row r_id k (s_requests ?st)" for k
  proof -
    let ?own = "filter (\<lambda>r. rr_session_id r = sid) (db_requests d)"
    have "unique_keys rr_key ?own" using keys by (simp add: unique_keys_filter)
    then have u: "unique_keys rr_request_id ?own"
      by (auto simp: unique_keys_def distinct_map inj_on_def rr_key_def)
    have "find_row rr_key (sid, k) (filter (\<lambda>r. rr_session_id r = sid) rows) =
        find_row rr_request_id k (filter (\<lambda>r. rr_session_id r = sid) rows)" for rows
      by (induction rows) (auto simp: rr_key_def)
    then show ?thesis
      using by_id_rows [of rr_request_id "\<lambda>r. rr_session_id r = sid" "db_requests d" r_id request_from_row id k] u
      by (simp add: request_shown_def own_lookup_def session_state_from_snapshot_def sn request_from_row_def)
  qed
  have threads: "thread_shown d sid k = find_row p_id k (s_provider_threads ?st)" for k
    using by_id_rows [of p_id "\<lambda>r. p_session_id r = sid" "db_threads d" p_id provider_thread_from_row id k] keys
    by (simp add: thread_shown_def own_lookup_def session_state_from_snapshot_def sn unique_keys_filter
        provider_thread_from_row_def)
  note all = all_items_transcript [OF assms(3)]
  have "transcript (sort_key item_order (all_items sid d))"
    using all(1) sort_strict [of "all_items sid d"] by (simp add: transcript_def unique_keys_def distinct_map_sort)
  from transcript_unique [OF this all(1)] have items: "s_items ?st = all_items sid d"
    by (simp add: session_state_from_snapshot_def sn)
  have item: "item_shown d sid k = find_row i_id k (s_items ?st)" for k
  proof -
    have u: "unique_keys ir_id (items_of sid d)" using keys by (simp add: items_of_def unique_keys_filter)
    have us: "unique_keys ir_id (sort_key ir_position (items_of sid d))"
      using u by (simp add: unique_keys_def distinct_map_sort)
    have "find_row i_id k (all_items sid d) = map_option item_from_row (find_row ir_id k (sort_key ir_position (items_of sid d)))"
      unfolding all_items_def using assms(3) by (intro find_row_map) (auto simp: placed_def repeats_def item_from_row_def)
    also have "find_row ir_id k (sort_key ir_position (items_of sid d)) = find_row ir_id k (items_of sid d)"
      by (rule find_row_same_set [OF us u]) simp
    finally show ?thesis unfolding items by (simp add: item_shown_def own_lookup_def items_of_def)
  qed
  have rows: "\<forall>r \<in> set (db_items d). ir_session_id r = sid \<longrightarrow>
      ir_id r = i_id (ir_payload r) \<and> ir_position r = i_position (ir_payload r)"
    using assms(3) by (auto simp: placed_def repeats_def items_of_def)
  have "session_shown d sid = Some (session_view (s_session ?st))"
    by (simp add: session_shown_def row session_state_from_snapshot_def sn)
  with turns attempts requests threads item rows all_items_transcript(1) [OF assms(3)] items
  have "agrees d sid ?st" by (simp add: agrees_def)
  then show ?thesis by (simp add: session_state_from_snapshot_def sn latest_sequence_def row)
qed

section \<open>The transcript people read\<close>

lemma transcript_message_length: "length (transcript_message_of it) \<le> 1"
  by (cases "i_body it") (simp_all add: transcript_message_of_def told_def)

lemma length_concat_le: "\<forall>xs \<in> set xss. length xs \<le> 1 \<Longrightarrow> length (concat xss) \<le> length xss"
  by (induction xss) auto

lemma sorted_filter_prefix:
  "sorted_wrt (<) (map g xs) \<Longrightarrow> prefix (filter (\<lambda>x. g x \<le> (p::nat)) xs) xs"
proof (induction xs)
  case (Cons x xs)
  show ?case
  proof (cases "g x \<le> p")
    case False
    with Cons.prems have "filter (\<lambda>x. g x \<le> p) (x # xs) = []" by (auto simp: filter_empty_conv)
    then show ?thesis by simp
  qed (use Cons in auto)
qed simp

text \<open>A limited transcript is the end of the conversation, and one read through a
  message is its beginning. A limit of \<open>n\<close> gives at most \<open>n\<close> messages, the last of the
  conversation; \<open>through\<close> gives what people could read when that item was the latest.\<close>

theorem transcript_window:
  assumes "placed sid d"
  shows "suffix (read_transcript d sid through (Some n)) (read_transcript d sid through None) \<and>
    length (read_transcript d sid through (Some n)) \<le> n \<and>
    prefix (read_transcript d sid through None) (read_transcript d sid None None)"
proof (intro conjI)
  let ?f = "transcript_message_of \<circ> item_from_row"
  let ?rows = "\<lambda>P. sort_key ir_position (filter P (items_of sid d))"
  define P where "P = (\<lambda>r :: item_row. ir_kind r \<in> set transcript_kinds)"
  define cut where "cut = (case through of None \<Rightarrow> None
    | Some iid \<Rightarrow> map_option ir_position (find_row ir_id iid (items_of sid d)))"
  define Q where "Q = (\<lambda>r :: item_row. P r \<and> (case cut of None \<Rightarrow> True | Some p \<Rightarrow> ir_position r \<le> p))"
  have rows: "transcript_rows d sid through None = ?rows Q"
    and limited: "transcript_rows d sid through (Some n) = drop (length (?rows Q) - n) (?rows Q)"
    by (simp_all add: transcript_rows_def Let_def newest_first_def Q_def P_def cut_def rev_take)
  have whole: "transcript_rows d sid None None = ?rows P"
    by (simp add: transcript_rows_def Let_def newest_first_def P_def)
  have "?rows Q = take (length (?rows Q) - n) (?rows Q) @ drop (length (?rows Q) - n) (?rows Q)" by simp
  then have "read_transcript d sid through None =
      concat (map ?f (take (length (?rows Q) - n) (?rows Q))) @ read_transcript d sid through (Some n)"
    unfolding read_transcript_def rows limited by (metis concat_append map_append)
  then show "suffix (read_transcript d sid through (Some n)) (read_transcript d sid through None)"
    by (rule suffixI)
  have "length (read_transcript d sid through (Some n)) \<le> length (drop (length (?rows Q) - n) (?rows Q))"
    unfolding read_transcript_def limited
    by (rule order.trans [OF length_concat_le]) (use transcript_message_length in auto)
  then show "length (read_transcript d sid through (Some n)) \<le> n" by simp
  have "prefix (?rows Q) (?rows P)"
  proof (cases cut)
    case None
    then have "Q = P" by (auto simp: Q_def)
    then show ?thesis by simp
  next
    case (Some p)
    have "?rows Q = sort_key ir_position (filter (\<lambda>r. ir_position r \<le> p) (filter P (items_of sid d)))"
      unfolding filter_filter Q_def Some by (simp add: conj_commute)
    also have "\<dots> = filter (\<lambda>r. ir_position r \<le> p) (?rows P)" by (simp only: filter_sort)
    finally show ?thesis using sorted_filter_prefix [OF own_places [OF assms]] by simp
  qed
  then obtain more_rows where "?rows P = ?rows Q @ more_rows" by (auto simp: prefix_def)
  then show "prefix (read_transcript d sid through None) (read_transcript d sid None None)"
    unfolding read_transcript_def rows whole by (metis concat_append map_append prefixI)
qed

section \<open>Witnesses\<close>

text \<open>A session with a running turn, its two items, and a notice before them.\<close>

definition ex_history :: db where
  "ex_history = (ex_db 3)
     \<lparr>db_turns := [ex_turn_row ''t'' 1 Running],
      db_items := [new_item_row ''s'' (ex_item ''c'' 3 (Reasoning ''c'')\<lparr>i_turn_id := Some ''t''\<rparr>),
        new_item_row ''s'' (ex_item ''a'' 1 (Notice ''n'' ''a'' [])),
        new_item_row ''s'' (ex_item ''b'' 2 (AssistantMessage ''b'' None)\<lparr>i_turn_id := Some ''t''\<rparr>)]\<rparr>"

lemma ex_history_ok:
  "placed ''s'' ex_history" "places_below 4 ''s'' ex_history" "keyed ex_history" "latest_sequence ex_history ''s'' = 3"
  "session_row_of ex_history ''s'' \<noteq> None"
  by (simp_all add: ex_history_def placed_def places_below_def repeats_def items_of_def keyed_def unique_keys_def
      latest_sequence_def session_row_of_def sr_id_def new_item_row_def fixtures)

lemma ex_history_reads: "\<exists>sn. read_snapshot 5 n ex_history ''s'' = Some sn" "\<exists>sn. read_full_snapshot 5 ex_history ''s'' = Some sn"
  using ex_history_ok(5) by (auto simp: read_snapshot_def read_full_snapshot_def Let_def)

theorem appends_place_items_witness:
  "\<exists>stored d'. append_events 5 ''s'' None
     [ItemAdded (ex_item ''d'' 0 (Reasoning ''d'')), ItemChanged (ex_item ''d'' 9 (Reasoning ''e''))] ex_history = Inr (stored, d') \<and>
     placed ''s'' d'"
proof -
  let ?es = "[ItemAdded (ex_item ''d'' 0 (Reasoning ''d'')), ItemChanged (ex_item ''d'' 9 (Reasoning ''e''))]"
  have "\<exists>stored d'. append_events 5 ''s'' None ?es ex_history = Inr (stored, d')"
    by (simp add: log_eval ex_history_def item_text_def author_kind_of_def)
  then obtain stored d' where run: "append_events 5 ''s'' None ?es ex_history = Inr (stored, d')" by blast
  have "changes_known (ir_id ` set (db_items ex_history)) ?es" by (simp add: ex_item_def)
  moreover have "places_below (Suc (latest_sequence ex_history ''s'')) ''s'' ex_history"
    using ex_history_ok(2,4) by simp
  ultimately show ?thesis using appends_place_items [OF run ex_history_ok(1)] run by blast
qed

text \<open>A session whose last turn holds one item, with three before it.\<close>

definition ex_long :: db where
  "ex_long = (ex_db 4)
     \<lparr>db_turns := [ex_turn_row ''t'' 1 Completed, ex_turn_row ''u'' 2 Running],
      db_items := map (new_item_row ''s'')
        [ex_item ''a'' 1 (Reasoning ''a'')\<lparr>i_turn_id := Some ''t''\<rparr>, ex_item ''b'' 2 (Reasoning ''b'')\<lparr>i_turn_id := Some ''t''\<rparr>,
         ex_item ''c'' 3 (Reasoning ''c'')\<lparr>i_turn_id := Some ''t''\<rparr>, ex_item ''d'' 4 (Reasoning ''d'')\<lparr>i_turn_id := Some ''u''\<rparr>]\<rparr>"

lemma ex_long_read:
  "placed ''s'' ex_long"
  "\<exists>sn. read_snapshot 5 (Some 1) ex_long ''s'' = Some sn \<and> map i_id (sn_items sn) = [''d''] \<and> sn_older_before sn = Some 4"
  "items_before ex_long ''s'' 4 = 3"
  by (simp_all add: ex_long_def placed_def repeats_def items_of_def unique_keys_def read_snapshot_def Let_def session_row_of_def sr_id_def
      snapshot_turns_def recent_turns_def newest_first_def turns_of_def pending_turns_def put_row_def snapshot_from_def first_position_def
      snapshot_items_def older_before_def items_before_def turn_from_row_def checkpoint_from_row_def new_item_row_def item_from_row_def fixtures)

theorem history_complete_witness:
  "\<exists>sn. read_snapshot 5 (Some 1) ex_long ''s'' = Some sn \<and> length (sn_items sn) = 1 \<and> length (pages_read ex_long ''s'' (Some 1) sn) = 3 \<and>
     s_items (opened ex_long ''s'' (Some 1) sn) = all_items ''s'' ex_long"
proof -
  obtain sn where sn: "read_snapshot 5 (Some 1) ex_long ''s'' = Some sn" "map i_id (sn_items sn) = [''d'']" "sn_older_before sn = Some 4"
    using ex_long_read(2) by (elim exE conjE)
  from sn(2) have "length (sn_items sn) = 1" by auto
  note all = history_complete [OF sn(1) ex_long_read(1), of "Some 1"]
  have "length (pages_read ex_long ''s'' (Some 1) sn) = 3" using all sn(3) ex_long_read(3) by (simp add: page_size_def)
  with sn(1) \<open>length (sn_items sn) = 1\<close> show ?thesis using conjunct1 [OF all] by (intro exI [of _ sn]) simp
qed

theorem snapshot_shows_open_work_witness:
  "\<exists>sn. read_snapshot 5 (Some 0) ex_history ''s'' = Some sn \<and>
     turn_from_row 5 (ex_turn_row ''t'' 1 Running) \<in> set (sn_turns sn)"
proof -
  obtain sn where sn: "read_snapshot 5 (Some 0) ex_history ''s'' = Some sn" using ex_history_reads(1) by blast
  have "unique_keys tr_id (db_turns ex_history)" using ex_history_ok(3) by (simp add: keyed_def)
  from snapshot_shows_open_work [OF sn this] sn show ?thesis
    by (simp add: ex_history_def ex_turn_row_def)
qed

theorem full_snapshot_agrees_witness:
  "\<exists>sn. read_full_snapshot 5 ex_history ''s'' = Some sn \<and> agrees ex_history ''s'' (session_state_from_snapshot sn)"
  using ex_history_reads(2) full_snapshot_agrees [OF _ ex_history_ok(3,1)] by blast

theorem transcript_window_witness:
  "suffix (read_transcript ex_history ''s'' (Some ''b'') (Some 1)) (read_transcript ex_history ''s'' (Some ''b'') None)"
  using transcript_window [OF ex_history_ok(1)] by blast

end
