(* ===== verification/Ingest_Laws.thy ===== *)
theory Ingest_Laws
  imports Turn_Ingest Session_Reads
begin

text \<open>
  What ingesting a batch of harness events promises: what it may write, that the state it works
  on is what clients see, when a turn waits, and what a mask lets through.
\<close>

section \<open>Nothing beyond its rights\<close>

text \<open>
  What an event of a batch may say, given the events of the batch and the stored rows: an item is
  new and the attempt's own, or keeps what is Work's of one that was stored or added; a request
  is the attempt's own and open, or withdrawn; of the turn, the attempt and the thread only
  what a harness reports changes.
\<close>

definition known_item :: "db \<Rightarrow> session_event set \<Rightarrow> item \<Rightarrow> bool" where
  "known_item d out it \<longleftrightarrow> it \<in> ir_payload ` set (db_items d) \<or> ItemAdded it \<in> out"

definition within_rights ::
  "db \<Rightarrow> ident \<Rightarrow> turn \<Rightarrow> attempt \<Rightarrow> provider_thread \<Rightarrow> session_event set \<Rightarrow> session_event \<Rightarrow> bool"
where
  "within_rights d sid t a th out e =
     (case e of
        SessionChanged _ \<Rightarrow> False
      | TurnChanged t' \<Rightarrow> same_turn t t'
      | AttemptChanged a' \<Rightarrow> same_attempt a a'
      | ProviderThreadChanged p \<Rightarrow> same_thread th p
      | ItemAdded it \<Rightarrow> i_session_id it = sid \<and> i_turn_id it = Some (t_id t) \<and> i_attempt_id it = Some (a_id a) \<and>
          i_position it = 0 \<and>
          (kind_of (i_body it) = KRequest \<or>
           kind_of (i_body it) \<in> set HARNESS_ITEM_KINDS \<and> i_id it \<notin> ir_id ` set (db_items d))
      | ItemChanged it \<Rightarrow> \<exists>it0. known_item d out it0 \<and> owned it = owned it0
      | ItemTextAppended iid _ _ _ \<Rightarrow> \<exists>it0. known_item d out it0 \<and> i_id it0 = iid
      | RequestChanged rq \<Rightarrow>
          r_session_id rq = sid \<and> r_turn_id rq = Some (t_id t) \<and> r_attempt_id rq = Some (a_id a) \<and> r_status rq = RPending \<or>
          r_status rq = RCancelled \<and>
            (r_id rq \<in> rr_request_id ` set (db_requests d) \<or> (\<exists>rq0. RequestChanged rq0 \<in> out \<and> r_id rq0 = r_id rq)))"

lemma within_rights_mono: "within_rights d sid t a th out e \<Longrightarrow> out \<subseteq> out' \<Longrightarrow> within_rights d sid t a th out' e"
  unfolding within_rights_def known_item_def by (auto split: session_event.splits)

text \<open>The ids a batch adds items of a harness's own kinds under.\<close>

definition added_ids :: "session_event list \<Rightarrow> ident list" where
  "added_ids out =
     concat (map (\<lambda>e. case e of ItemAdded it \<Rightarrow> if kind_of (i_body it) = KRequest then [] else [i_id it] | _ \<Rightarrow> []) out)"

lemma added_ids_append [simp]: "added_ids (xs @ ys) = added_ids xs @ added_ids ys"
  by (simp add: added_ids_def)

lemma added_ids_other [simp]:
  "\<forall>it. e \<noteq> ItemAdded it \<Longrightarrow> added_ids [e] = []"
  "kind_of (i_body it) = KRequest \<Longrightarrow> added_ids [ItemAdded it] = []"
  "kind_of (i_body it) \<noteq> KRequest \<Longrightarrow> added_ids [ItemAdded it] = [i_id it]"
  by (auto simp: added_ids_def split: session_event.splits)

definition has_item :: "ingesting \<Rightarrow> ident \<Rightarrow> bool" where
  "has_item s k \<longleftrightarrow> find_row i_id k (ig_items s) \<noteq> None"

record scope =
  sc_db :: db
  sc_session :: ident
  sc_turn :: turn
  sc_attempt :: attempt
  sc_thread :: provider_thread
  sc_ids :: "ident set"

definition rights :: "scope \<Rightarrow> ingesting \<Rightarrow> bool" where
  "rights sc s \<longleftrightarrow>
     ig_session_id s = sc_session sc \<and> ig_attempt_id s = a_id (sc_attempt sc) \<and>
     same_turn (sc_turn sc) (ig_turn s) \<and> same_attempt (sc_attempt sc) (ig_attempt s) \<and> same_thread (sc_thread sc) (ig_thread s) \<and>
     (\<forall>e \<in> set (ig_out s). within_rights (sc_db sc) (sc_session sc) (sc_turn sc) (sc_attempt sc) (sc_thread sc) (set (ig_out s)) e) \<and>
     (\<forall>it \<in> set (ig_items s). \<exists>it0. known_item (sc_db sc) (set (ig_out s)) it0 \<and> owned it = owned it0) \<and>
     (\<forall>r \<in> set (db_items (sc_db sc)). ir_id r \<in> sc_ids sc \<longrightarrow> has_item s (ir_id r)) \<and>
     (\<forall>k \<in> set (added_ids (ig_out s)). has_item s k) \<and> distinct (added_ids (ig_out s)) \<and>
     (\<forall>rq \<in> set (ig_requests s). r_id rq \<in> rr_request_id ` set (db_requests (sc_db sc)) \<or>
        (\<exists>rq0. RequestChanged rq0 \<in> set (ig_out s) \<and> r_id rq0 = r_id rq))"

lemma same_ids: "same_turn t t' \<Longrightarrow> t_id t' = t_id t" "same_attempt a a' \<Longrightarrow> a_id a' = a_id a"
  unfolding same_turn_def same_attempt_def by ((drule arg_cong [where f = t_id] arg_cong [where f = a_id]), simp)+

lemma rights_quiet: "quiet s s' \<Longrightarrow> rights sc s' \<longleftrightarrow> rights sc s"
  by (simp add: quiet_def rights_def has_item_def)

lemma rights_emit:
  assumes "rights sc s"
    and "within_rights (sc_db sc) (sc_session sc) (sc_turn sc) (sc_attempt sc) (sc_thread sc) (insert e (set (ig_out s))) e"
    and "ig_session_id s' = ig_session_id s" and "ig_attempt_id s' = ig_attempt_id s" and "same_turn (ig_turn s) (ig_turn s')"
    and "same_attempt (ig_attempt s) (ig_attempt s')" and "same_thread (ig_thread s) (ig_thread s')"
    and "ig_out s' = ig_out s @ [e]"
    and "\<forall>it \<in> set (ig_items s'). it \<in> set (ig_items s) \<or>
      (\<exists>it0. known_item (sc_db sc) (insert e (set (ig_out s))) it0 \<and> owned it = owned it0)"
    and "\<And>k. has_item s k \<Longrightarrow> has_item s' k" and "\<forall>k \<in> set (added_ids [e]). has_item s' k \<and> \<not> has_item s k"
    and "\<forall>rq \<in> set (ig_requests s'). rq \<in> set (ig_requests s) \<or> RequestChanged rq = e"
  shows "rights sc s'"
proof -
  let ?out = "insert e (set (ig_out s))"
  have sub: "set (ig_out s) \<subseteq> ?out" by blast
  have "\<forall>x \<in> ?out. within_rights (sc_db sc) (sc_session sc) (sc_turn sc) (sc_attempt sc) (sc_thread sc) ?out x"
    using assms(1,2) within_rights_mono [OF _ sub] by (auto simp: rights_def)
  moreover have "\<forall>it \<in> set (ig_items s'). \<exists>it0. known_item (sc_db sc) ?out it0 \<and> owned it = owned it0"
    using assms(1,9) unfolding rights_def known_item_def by blast
  moreover have "\<forall>rq \<in> set (ig_requests s'). r_id rq \<in> rr_request_id ` set (db_requests (sc_db sc)) \<or>
      (\<exists>rq0. RequestChanged rq0 \<in> ?out \<and> r_id rq0 = r_id rq)"
    using assms(1,12) unfolding rights_def by blast
  moreover have "distinct (added_ids (ig_out s @ [e]))"
  proof -
    have "length (added_ids [e]) \<le> 1" by (simp add: added_ids_def split: session_event.split)
    then have "distinct (added_ids [e])" by (cases "added_ids [e]") auto
    with assms(1,11) show ?thesis by (auto simp: rights_def)
  qed
  moreover have "same_turn (sc_turn sc) (ig_turn s')" "same_attempt (sc_attempt sc) (ig_attempt s')"
    "same_thread (sc_thread sc) (ig_thread s')"
    using assms(1,5-7) same_turn_trans same_attempt_trans same_thread_trans unfolding rights_def by blast+
  ultimately show ?thesis
    using assms(1,3,4,8,10,11) by (auto simp: rights_def)
qed

lemma rights_requests:
  "rights sc s \<Longrightarrow> rq \<in> set (ig_requests s) \<Longrightarrow>
   r_id rq \<in> rr_request_id ` set (db_requests (sc_db sc)) \<or> (\<exists>rq0. RequestChanged rq0 \<in> set (ig_out s) \<and> r_id rq0 = r_id rq)"
  by (simp add: rights_def)

lemma set_put_row: "x \<in> set (put_row key r xs) \<Longrightarrow> x = r \<or> x \<in> set xs"
  unfolding put_row_def by (induction xs) (auto split: if_splits)

lemma rights_move: "move ids s s' \<Longrightarrow> sc_ids sc = ids \<Longrightarrow> rights sc s \<Longrightarrow> rights sc s'"
proof (induction rule: move.induct)
  case (Quiet s s')
  then show ?case by (simp add: rights_quiet)
next
  case (Appends iid s it field t s')
  from find_row_Some [OF Appends(1)] obtain it0 where "known_item (sc_db sc) (set (ig_out s)) it0" "owned it = owned it0" "i_id it = iid"
    using Appends(4) by (auto simp: rights_def)
  then have "\<exists>it0. known_item (sc_db sc) (insert (ItemTextAppended iid field t (ig_now s)) (set (ig_out s))) it0 \<and>
      owned it = owned it0 \<and> i_id it0 = iid"
    unfolding known_item_def by (metis insertCI owned_id)
  then have "rights sc (s\<lparr>ig_out := ig_out s @ [ItemTextAppended iid field t (ig_now s)],
      ig_items := put_row i_id (append_local it field t (ig_now s)) (ig_items s)\<rparr>)"
    by (intro rights_emit [OF Appends(4), of "ItemTextAppended iid field t (ig_now s)"])
      (auto simp: within_rights_def has_item_def find_put_row dest!: set_put_row)
  with Appends(2) show ?case by (simp add: rights_quiet)
next
  case (Adds it s s')
  have "i_id it \<notin> ir_id ` set (db_items (sc_db sc))" if "kind_of (i_body it) \<noteq> KRequest"
    using Adds(5,7,8) that by (fastforce simp: rights_def has_item_def)
  moreover have "known_item (sc_db sc) (insert (ItemAdded it) (set (ig_out s))) it" by (simp add: known_item_def)
  ultimately have "rights sc (s\<lparr>ig_out := ig_out s @ [ItemAdded it], ig_items := put_row i_id it (ig_items s)\<rparr>)"
    using Adds(1-5) Adds(8) same_ids
    by (intro rights_emit [OF Adds(8), of "ItemAdded it"])
      (auto simp: within_rights_def has_item_def find_put_row rights_def added_ids_def dest!: set_put_row split: if_splits)
  with Adds(6) show ?case by (simp add: rights_quiet)
next
  case (Changes it s before s')
  from find_row_Some [OF Changes(1)] obtain it0 where "known_item (sc_db sc) (set (ig_out s)) it0" "owned before = owned it0"
    using Changes(5) by (auto simp: rights_def)
  with Changes(2) have "\<exists>it0. known_item (sc_db sc) (insert (ItemChanged it) (set (ig_out s))) it0 \<and> owned it = owned it0"
    unfolding known_item_def by (metis insertCI)
  then have "rights sc (s\<lparr>ig_out := ig_out s @ [ItemChanged it], ig_items := put_row i_id it (ig_items s)\<rparr>)"
    by (intro rights_emit [OF Changes(5), of "ItemChanged it"])
      (auto simp: within_rights_def has_item_def find_put_row dest!: set_put_row)
  with Changes(3) show ?case by (simp add: rights_quiet)
next
  case (Asks rq s s')
  have "rights sc (s\<lparr>ig_out := ig_out s @ [RequestChanged rq], ig_requests := put_row r_id rq (ig_requests s)\<rparr>)"
    using Asks(1-4,8) same_ids
    by (intro rights_emit [OF Asks(8), of "RequestChanged rq"])
      (auto simp: within_rights_def has_item_def rights_def dest!: set_put_row)
  with Asks(6) show ?case by (simp add: rights_quiet)
next
  case (Withdraws rq s before s')
  have "r_status rq = RCancelled" using arg_cong [OF Withdraws(3), of r_status] by simp
  have "r_id rq \<in> rr_request_id ` set (db_requests (sc_db sc)) \<or> (\<exists>rq0. RequestChanged rq0 \<in> set (ig_out s) \<and> r_id rq0 = r_id rq)"
    using find_row_Some [OF Withdraws(1)] rights_requests [OF Withdraws(6)] by metis
  with \<open>r_status rq = RCancelled\<close>
  have "rights sc (s\<lparr>ig_out := ig_out s @ [RequestChanged rq], ig_requests := put_row r_id rq (ig_requests s)\<rparr>)"
    by (intro rights_emit [OF Withdraws(6), of "RequestChanged rq"])
      (auto simp: within_rights_def has_item_def dest!: set_put_row)
  with Withdraws(4) show ?case by (simp add: rights_quiet)
next
  case (Turns s t' s')
  have "same_turn (sc_turn sc) t'" using Turns(1,4) same_turn_trans unfolding rights_def by blast
  then have "rights sc (s\<lparr>ig_out := ig_out s @ [TurnChanged t'], ig_turn := t'\<rparr>)"
    using Turns(1) by (intro rights_emit [OF Turns(4), of "TurnChanged t'"]) (auto simp: within_rights_def has_item_def)
  with Turns(2) show ?case by (simp add: rights_quiet)
next
  case (Attempts s a' s')
  have "same_attempt (sc_attempt sc) a'" using Attempts(1,4) same_attempt_trans unfolding rights_def by blast
  then have "rights sc (s\<lparr>ig_out := ig_out s @ [AttemptChanged a'], ig_attempt := a'\<rparr>)"
    using Attempts(1) by (intro rights_emit [OF Attempts(4), of "AttemptChanged a'"]) (auto simp: within_rights_def has_item_def)
  with Attempts(2) show ?case by (simp add: rights_quiet)
next
  case (Threads s p' s')
  have "same_thread (sc_thread sc) p'" using Threads(1,4) same_thread_trans unfolding rights_def by blast
  then have "rights sc (s\<lparr>ig_out := ig_out s @ [ProviderThreadChanged p'], ig_thread := p'\<rparr>)"
    using Threads(1) by (intro rights_emit [OF Threads(4), of "ProviderThreadChanged p'"]) (auto simp: within_rights_def has_item_def)
  with Threads(2) show ?case by (simp add: rights_quiet)
qed

lemma rights_moves: "moves (sc_ids sc) s s' \<Longrightarrow> rights sc s \<Longrightarrow> rights sc s'"
  by (induction rule: rtranclp_induct) (auto intro: rights_move)

lemma set_fold_put_row: "x \<in> set (fold (\<lambda>r. put_row key (f r)) rows xs) \<Longrightarrow> x \<in> f ` set rows \<or> x \<in> set xs"
  by (induction rows arbitrary: xs) (auto dest: set_put_row)

lemma find_fold_put_row:
  "k \<in> (key \<circ> f) ` set rows \<or> find_row key k xs \<noteq> None \<Longrightarrow> find_row key k (fold (\<lambda>r. put_row key (f r)) rows xs) \<noteq> None"
proof (induction rows arbitrary: xs)
  case (Cons r rows)
  have "k \<in> (key \<circ> f) ` set rows \<or> find_row key k (put_row key (f r) xs) \<noteq> None"
    using Cons.prems by (auto simp: find_put_row)
  from Cons.IH [OF this] show ?case by simp
qed simp

text \<open>Rows repeat the id of their payload.\<close>

definition rows_repeat :: "db \<Rightarrow> bool" where
  "rows_repeat d \<longleftrightarrow> (\<forall>r \<in> set (db_items d). i_id (ir_payload r) = ir_id r)"

lemma rights_load:
  assumes "rows_repeat d"
  shows "rights \<lparr>sc_db = d, sc_session = sid, sc_turn = t, sc_attempt = a, sc_thread = th, sc_ids = batch_ids env a events\<rparr>
    (load_batch env now d sid agent t a th mk events)"
proof -
  let ?s = "load_batch env now d sid agent t a th mk events"
  have "\<forall>it \<in> set (ig_items ?s). it \<in> ir_payload ` set (db_items d)"
    by (auto simp: load_batch_def Let_def item_from_row_def dest!: set_fold_put_row)
  moreover have "has_item ?s (ir_id r)" if "r \<in> set (db_items d)" "ir_id r \<in> batch_ids env a events" for r
  proof -
    from that assms have "ir_id r \<in> (i_id \<circ> item_from_row) ` set (filter (\<lambda>r. ir_id r \<in> batch_ids env a events) (db_items d))"
      by (force simp: rows_repeat_def item_from_row_def image_iff)
    then show ?thesis unfolding has_item_def load_batch_def Let_def batch_ids_def
      by (simp add: find_fold_put_row)
  qed
  moreover have "\<forall>rq \<in> set (ig_requests ?s). r_id rq \<in> rr_request_id ` set (db_requests d)"
    by (auto simp: load_batch_def Let_def request_from_row_def dest!: set_fold_put_row)
  ultimately show ?thesis
    by (auto simp: rights_def load_batch_def Let_def known_item_def added_ids_def)
qed

lemma read_steers_rights:
  assumes "rights sc s"
  shows "(\<forall>e \<in> set (ig_out (read_steers (sc_db sc) s)). within_rights (sc_db sc) (sc_session sc) (sc_turn sc) (sc_attempt sc)
      (sc_thread sc) (set (ig_out (read_steers (sc_db sc) s))) e) \<and> distinct (added_ids (ig_out (read_steers (sc_db sc) s)))"
proof -
  define steers where "steers = map (\<lambda>r. ItemChanged ((item_from_row r)\<lparr>i_status := ItemCompleted, i_updated_at := ig_now s\<rparr>))
    (filter (\<lambda>r. ir_id r \<in> set (ig_consumed s) \<and> ir_turn_id r = Some (t_id (ig_turn s)) \<and> ir_status r = InProgress) (db_items (sc_db sc)))"
  have out: "ig_out (read_steers (sc_db sc) s) = ig_out s @ steers" by (simp add: read_steers_def steers_def)
  have "added_ids steers = []" by (auto simp: added_ids_def steers_def)
  moreover have "within_rights (sc_db sc) (sc_session sc) (sc_turn sc) (sc_attempt sc) (sc_thread sc) out' e"
    if "e \<in> set steers" for e out'
    using that by (fastforce simp: steers_def within_rights_def known_item_def item_from_row_def)
  moreover have "set (ig_out s) \<subseteq> set (ig_out s @ steers)" by simp
  ultimately show ?thesis
    using assms within_rights_mono unfolding out rights_def by fastforce
qed

lemma harness_writes_its_own_parts:
  assumes "rows_repeat d" and "ig_out (ingest_harness_events env now d sid agent t a th mk events) = out"
  shows "\<forall>e \<in> set out. within_rights d sid t a th (set out) e" and "distinct (added_ids out)"
proof -
  let ?sc = "\<lparr>sc_db = d, sc_session = sid, sc_turn = t, sc_attempt = a, sc_thread = th, sc_ids = batch_ids env a events\<rparr>"
  from rights_moves [of ?sc, OF _ rights_load [OF assms(1)]] batch_moves
  have "rights ?sc (unread_batch env now d sid agent t a th mk events)" by fastforce
  from read_steers_rights [OF this]
  show "\<forall>e \<in> set out. within_rights d sid t a th (set out) e" "distinct (added_ids out)"
    using assms(2) by (simp_all add: ingest_unread)
qed

text \<open>A harness writes its own work and nothing else. Every event a batch becomes belongs
  to its session, turn and attempt: an item it adds is of a kind a harness may start (or stands
  for a request) and was not stored before, an item it changes keeps everything Work owns of it
  (its id, place, turn, parent, kind, author and time), a request is opened or withdrawn and
  never answered, of the turn, attempt and thread only what a harness reports changes; and no
  item is added twice, however often a frame is ingested again.\<close>

theorem harness_writes_its_own:
  assumes "rows_repeat d" and "ig_out (ingest_harness_events env now d sid agent t a th mk events) = out"
  shows "(\<forall>e \<in> set out. within_rights d sid t a th (set out) e) \<and> distinct (added_ids out)"
  using harness_writes_its_own_parts [OF assms] by blast

section \<open>What the batch works on is what clients see\<close>

text \<open>An item without its place, which the log decides; and what an event does to items and requests.\<close>

definition unplaced :: "item \<Rightarrow> item" where
  "unplaced it = it\<lparr>i_position := 0\<rparr>"

definition item_effect :: "session_event \<Rightarrow> (ident \<Rightarrow> item option) \<Rightarrow> ident \<Rightarrow> item option" where
  "item_effect e m =
     (case e of
        ItemAdded it \<Rightarrow> m(i_id it \<mapsto> unplaced it)
      | ItemChanged it \<Rightarrow> m(i_id it \<mapsto> unplaced it)
      | ItemTextAppended iid field t tm \<Rightarrow>
          (case m iid of None \<Rightarrow> m | Some it \<Rightarrow> m(iid \<mapsto> append_text it field t tm))
      | _ \<Rightarrow> m)"

definition request_effect :: "session_event \<Rightarrow> (ident \<Rightarrow> runtime_request option) \<Rightarrow> ident \<Rightarrow> runtime_request option" where
  "request_effect e m = (case e of RequestChanged rq \<Rightarrow> m(r_id rq \<mapsto> rq) | _ \<Rightarrow> m)"

definition items_seen :: "item list \<Rightarrow> ident \<Rightarrow> item option" where
  "items_seen items k = map_option unplaced (find_row i_id k items)"

definition requests_seen :: "runtime_request list \<Rightarrow> ident \<Rightarrow> runtime_request option" where
  "requests_seen requests k = find_row r_id k requests"

lemma unplaced_frame [simp]:
  "i_id (unplaced it) = i_id it" "unplaced (it\<lparr>i_position := n\<rparr>) = unplaced it"
  "unplaced (append_text it field t tm) = append_text (unplaced it) field t tm"
  by (auto simp: unplaced_def append_text_def split: stream_field.splits item_body.splits)

lemma find_row_splice:
  "find_row key k (take n xs @ x # drop n xs) = (if k = key x \<and> k \<notin> key ` set (take n xs) then Some x else if k = key x then find_row key k (take n xs) else find_row key k xs)"
proof (cases "k = key x")
  case False
  then show ?thesis using find_row_append [of key k "take n xs" "drop n xs"]
    by (auto simp: find_row_append split: option.splits)
next
  case True
  have "find_row key k (take n xs) = None \<longleftrightarrow> k \<notin> key ` set (take n xs)" by (rule find_row_None)
  with True show ?thesis by (auto simp: find_row_append split: option.splits)
qed

lemma items_seen_upsert: "items_seen (upsert_item items it) = (items_seen items)(i_id it \<mapsto> unplaced it)"
proof (rule ext)
  fix k
  show "items_seen (upsert_item items it) k = ((items_seen items)(i_id it \<mapsto> unplaced it)) k"
  proof (cases "i_id it \<in> i_id ` set items")
    case True
    then have "find_row i_id k (upsert i_id (\<lambda>x. it\<lparr>i_position := i_position x\<rparr>) it items) =
        (if k = i_id it then map_option (\<lambda>x. it\<lparr>i_position := i_position x\<rparr>) (find_row i_id k items) else find_row i_id k items)"
      and "\<exists>x. find_row i_id (i_id it) items = Some x"
      by (induction items) auto
    then show ?thesis using True by (auto simp: upsert_item_def items_seen_def)
  next
    case False
    then have "i_id it \<notin> i_id ` set (take n items)" for n by (auto dest: in_set_takeD)
    with False show ?thesis by (simp add: upsert_item_def items_seen_def Let_def find_row_splice)
  qed
qed

lemma items_seen_append:
  "items_seen (append_at iid field t tm items) = item_effect (ItemTextAppended iid field t tm) (items_seen items)"
proof (cases "find_row i_id iid items")
  case None
  then show ?thesis by (simp add: append_at_def item_effect_def items_seen_def)
next
  case (Some it)
  have "find_row i_id k (upsert i_id (\<lambda>x. append_text x field t tm) it items) =
      (if k = iid then Some (append_text it field t tm) else find_row i_id k items)" for k
    using Some find_row_Some [OF Some]
    by (induction items) (auto split: if_splits)
  with Some show ?thesis by (auto simp: append_at_def item_effect_def items_seen_def)
qed

lemma client_sees:
  "items_seen (s_items (apply_one st e)) = item_effect (se_event e) (items_seen (s_items st))"
  "requests_seen (s_requests (apply_one st e)) = request_effect (se_event e) (requests_seen (s_requests st))"
  by (auto simp: apply_one_def Let_def items_seen_upsert items_seen_append item_effect_def request_effect_def
      requests_seen_def find_put_row split: session_event.splits)

lemma client_sees_all:
  "items_seen (s_items (foldl apply_one st es)) = fold (item_effect \<circ> se_event) es (items_seen (s_items st))"
  "requests_seen (s_requests (foldl apply_one st es)) = fold (request_effect \<circ> se_event) es (requests_seen (s_requests st))"
  by (induction es arbitrary: st) (simp_all add: client_sees)

text \<open>Neither the log's places nor its rules about turns change what an event does to them.\<close>

lemma effect_stamped:
  "fold (item_effect \<circ> se_event) (stamp_events sid now cmd n es) = fold item_effect es"
  "fold (request_effect \<circ> se_event) (stamp_events sid now cmd n es) = fold request_effect es"
  by (induction es arbitrary: n) simp_all

lemma effect_placed: "fold item_effect (place n positions es) = fold item_effect es"
  "fold request_effect (place n positions es) = fold request_effect es"
  by (induction es arbitrary: n positions)
    (auto simp: item_effect_def request_effect_def fun_eq_iff split: session_event.splits option.splits)

lemma effect_current: "fold item_effect (current_turns d sid es) = fold item_effect es"
  "fold request_effect (current_turns d sid es) = fold request_effect es"
proof -
  have one: "fold item_effect (current_turn d sid e) = item_effect e"
    "fold request_effect (current_turn d sid e) = request_effect e" for e
    by (auto simp: current_turn_def item_effect_def request_effect_def fun_eq_iff split: session_event.splits option.splits)
  show "fold item_effect (current_turns d sid es) = fold item_effect es"
    "fold request_effect (current_turns d sid es) = fold request_effect es"
    by (induction es) (simp_all add: current_turns_def one)
qed

definition sees :: "session_state \<Rightarrow> ingesting \<Rightarrow> bool" where
  "sees st s \<longleftrightarrow>
     (\<forall>it \<in> set (ig_items s). items_seen (s_items st) (i_id it) = items_seen (ig_items s) (i_id it)) \<and>
     (\<forall>rq \<in> set (ig_requests s). requests_seen (s_requests st) (r_id rq) = requests_seen (ig_requests s) (r_id rq))"

definition tracks ::
  "(ident \<Rightarrow> item option) \<Rightarrow> (ident \<Rightarrow> runtime_request option) \<Rightarrow> ingesting \<Rightarrow> bool"
where
  "tracks mi mr s \<longleftrightarrow>
     (\<forall>k. find_row i_id k (ig_items s) \<noteq> None \<longrightarrow> fold item_effect (ig_out s) mi k = items_seen (ig_items s) k) \<and>
     (\<forall>k. find_row r_id k (ig_requests s) \<noteq> None \<longrightarrow> fold request_effect (ig_out s) mr k = requests_seen (ig_requests s) k)"

lemma tracks_quiet: "quiet s s' \<Longrightarrow> tracks mi mr s' \<longleftrightarrow> tracks mi mr s"
  by (simp add: quiet_def tracks_def)

lemma tracks_move: "move ids s s' \<Longrightarrow> tracks mi mr s \<Longrightarrow> tracks mi mr s'"
proof (induction rule: move.induct)
  case (Appends iid s it field t s')
  have "i_id it = iid" using find_row_key [OF Appends(1)] .
  moreover have "fold item_effect (ig_out s) mi iid = Some (unplaced it)"
    using Appends(1,3) by (simp add: tracks_def items_seen_def)
  ultimately have "tracks mi mr (s\<lparr>ig_out := ig_out s @ [ItemTextAppended iid field t (ig_now s)],
      ig_items := put_row i_id (append_local it field t (ig_now s)) (ig_items s)\<rparr>)"
    using Appends(3)
    by (auto simp: tracks_def items_seen_def find_put_row item_effect_def request_effect_def append_local_text)
  with Appends(2) show ?case by (simp add: tracks_quiet)
qed (auto simp: tracks_quiet, auto simp: tracks_def items_seen_def requests_seen_def find_put_row item_effect_def
    request_effect_def)

lemma tracks_moves: "moves ids s s' \<Longrightarrow> tracks mi mr s \<Longrightarrow> tracks mi mr s'"
  by (induction rule: rtranclp_induct) (auto intro: tracks_move)

lemma find_row_in: "find_row key k xs \<noteq> None \<longleftrightarrow> (\<exists>x \<in> set xs. key x = k)"
  by (auto simp: find_row_None image_iff)

text \<open>Steers that were read change no item the batch does not name among them.\<close>

lemma read_steers_effect:
  assumes "rows_repeat d" and "k \<notin> set (ig_consumed s)"
  shows "fold item_effect (ig_out (read_steers d s)) mi k = fold item_effect (ig_out s) mi k"
proof -
  have "fold item_effect (map (\<lambda>r. ItemChanged ((item_from_row r)\<lparr>i_status := ItemCompleted, i_updated_at := x\<rparr>))
      (filter (\<lambda>r. ir_id r \<in> set (ig_consumed s) \<and> P r) rows)) m k = m k"
    if "set rows \<subseteq> set (db_items d)" for rows m x P
    using that assms by (induction rows arbitrary: m) (auto simp: item_effect_def item_from_row_def rows_repeat_def)
  from this [of "db_items d"] show ?thesis by (simp add: read_steers_def)
qed

lemma read_steers_requests: "fold request_effect (ig_out (read_steers d s)) mr = fold request_effect (ig_out s) mr"
proof -
  have "fold request_effect (map (\<lambda>r. ItemChanged (f r)) rows) m = m" for f m and rows :: "item_row list"
    by (induction rows) (simp_all add: request_effect_def)
  then show ?thesis by (simp add: read_steers_def)
qed

lemma clients_see_the_batch_parts:
  assumes "rows_repeat d"
    and "ingest_harness_events env now d sid agent t a th mk events = r"
    and "append_events now sid None (ig_out r) d = Inr (stored, d')"
    and "sees st (load_batch env now d sid agent t a th mk events)" and "s_sequence st = latest_sequence d sid" and "\<not> s_stale st"
  shows "\<forall>it \<in> set (ig_items r). i_id it \<notin> set (ig_consumed r) \<longrightarrow>
      items_seen (s_items (apply_session_events st stored)) (i_id it) = items_seen (ig_items r) (i_id it)"
    and "\<forall>rq \<in> set (ig_requests r).
      requests_seen (s_requests (apply_session_events st stored)) (r_id rq) = requests_seen (ig_requests r) (r_id rq)"
proof -
  let ?u = "unread_batch env now d sid agent t a th mk events" and ?l = "load_batch env now d sid agent t a th mk events"
  define mi where "mi = items_seen (s_items st)"
  define mr where "mr = requests_seen (s_requests st)"
  have "ig_out ?l = []" by (simp add: load_batch_def Let_def)
  then have "tracks mi mr ?l"
    using assms(4) unfolding tracks_def find_row_in mi_def mr_def by (auto simp: sees_def)
  with batch_moves tracks_moves have track: "tracks mi mr ?u" by blast
  have r: "r = read_steers d ?u" using assms(2) by (simp add: ingest_unread)
  then have same: "ig_items r = ig_items ?u" "ig_requests r = ig_requests ?u" "ig_consumed r = ig_consumed ?u"
    by (simp_all add: read_steers_def)
  have folded: "fold (item_effect \<circ> se_event) stored mi = fold item_effect (ig_out r) mi \<and>
      fold (request_effect \<circ> se_event) stored mr = fold request_effect (ig_out r) mr \<and>
      apply_session_events st stored = foldl apply_one st stored"
  proof (rule append_events_cases [OF assms(3)])
    assume "stored = []" "d' = d" and none: "current_turns d sid (ig_out r) = []"
    moreover from none have "fold item_effect (ig_out r) mi = mi" "fold request_effect (ig_out r) mr = mr"
      by (metis effect_current fold_simps(1))+
    ultimately show ?thesis by simp
  next
    assume locked: "append_locked now sid None (current_turns d sid (ig_out r)) d = Inr (stored, d')"
    note eff = append_locked_effect [OF locked]
    have "follows se_sequence (s_sequence st) stored" using eff(3) assms(5) by simp
    with reader.run_follows [OF assms(6)] have "apply_session_events st stored = foldl apply_one st stored" by blast
    with eff(5) show ?thesis by (simp add: effect_stamped effect_placed effect_current)
  qed
  show "\<forall>it \<in> set (ig_items r). i_id it \<notin> set (ig_consumed r) \<longrightarrow>
      items_seen (s_items (apply_session_events st stored)) (i_id it) = items_seen (ig_items r) (i_id it)"
  proof (intro ballI impI)
    fix it assume it: "it \<in> set (ig_items r)" "i_id it \<notin> set (ig_consumed r)"
    then have "find_row i_id (i_id it) (ig_items ?u) \<noteq> None" unfolding same find_row_in by blast
    with track have "fold item_effect (ig_out ?u) mi (i_id it) = items_seen (ig_items ?u) (i_id it)" by (simp add: tracks_def)
    with read_steers_effect [OF assms(1), of "i_id it" ?u] it same r
    have "fold item_effect (ig_out r) mi (i_id it) = items_seen (ig_items r) (i_id it)" by simp
    with folded show "items_seen (s_items (apply_session_events st stored)) (i_id it) = items_seen (ig_items r) (i_id it)"
      by (simp add: client_sees_all mi_def)
  qed
  show "\<forall>rq \<in> set (ig_requests r).
      requests_seen (s_requests (apply_session_events st stored)) (r_id rq) = requests_seen (ig_requests r) (r_id rq)"
  proof
    fix rq assume rq: "rq \<in> set (ig_requests r)"
    then have "find_row r_id (r_id rq) (ig_requests ?u) \<noteq> None" unfolding same find_row_in by blast
    with track have "fold request_effect (ig_out ?u) mr (r_id rq) = requests_seen (ig_requests ?u) (r_id rq)" by (simp add: tracks_def)
    then show "requests_seen (s_requests (apply_session_events st stored)) (r_id rq) = requests_seen (ig_requests r) (r_id rq)"
      using folded same r by (simp add: client_sees_all mr_def read_steers_requests)
  qed
qed

text \<open>Property C40: what a batch works on is what clients see. The append of a batch's events, applied
  by a client that saw the stored items and requests the batch touches, leaves it with every
  item (but its place, which the log gives) and every request exactly as ingestion holds them,
  streamed text included; steers the agent took in are marked read besides.\<close>

theorem clients_see_the_batch:
  assumes "rows_repeat d"
    and "ingest_harness_events env now d sid agent t a th mk events = r"
    and "append_events now sid None (ig_out r) d = Inr (stored, d')"
    and "sees st (load_batch env now d sid agent t a th mk events)" and "s_sequence st = latest_sequence d sid" and "\<not> s_stale st"
  shows "(\<forall>it \<in> set (ig_items r). i_id it \<notin> set (ig_consumed r) \<longrightarrow>
      items_seen (s_items (apply_session_events st stored)) (i_id it) = items_seen (ig_items r) (i_id it)) \<and>
      (\<forall>rq \<in> set (ig_requests r).
      requests_seen (s_requests (apply_session_events st stored)) (r_id rq) = requests_seen (ig_requests r) (r_id rq))"
  using clients_see_the_batch_parts [OF assms] by blast

section \<open>A turn waits exactly while something blocks it\<close>

text \<open>What every step but opening and closing a request leaves as it is.\<close>

definition calm :: "ingesting \<Rightarrow> ingesting \<Rightarrow> bool" where
  "calm s s' \<longleftrightarrow> ig_requests s' = ig_requests s \<and> t_status (ig_turn s') = t_status (ig_turn s) \<and>
     t_id (ig_turn s') = t_id (ig_turn s) \<and> ig_session_id s' = ig_session_id s"

lemma calm_refl [simp]: "calm s s"
  by (simp add: calm_def)

lemma calm_trans: "calm a b \<Longrightarrow> calm b c \<Longrightarrow> calm a c"
  by (simp add: calm_def)

lemma calm_quiet: "quiet s s' \<Longrightarrow> calm s s'"
  by (simp add: calm_def quiet_def)

lemma calm_flush: "calm s (flush_delta s)"
  by (simp add: calm_def)

lemma calm_emit_turn: "t_status t = t_status (ig_turn s) \<Longrightarrow> t_id t = t_id (ig_turn s) \<Longrightarrow> calm s (emit_turn t s)"
  by (simp add: calm_def emit_turn_def emit_def Let_def)

lemma calm_release: "calm s (release_held k s)"
  using calm_flush by (auto simp: release_held_def Let_def calm_def split: option.splits prod.splits)

lemma calm_start: "calm s (start_item env key ref draft status activity s)"
proof -
  define iid where "iid = derived_id (en_sha env) (ig_attempt_id s) key"
  define clean where "clean = masked (ig_mask s) (mask_body (en_str env)) (id_body draft)"
  obtain body s1 where b: "(if ig_mask s \<noteq> None \<and> (status = None \<or> status = Some InProgress)
      then stream_draft iid (id_body draft) clean s else (clean, s)) = (body, s1)" by fastforce
  then have "quiet s s1" using stream_draft_quiet by (auto split: if_splits)
  moreover have "calm s1 (set_line l (emit e (s1\<lparr>ig_items := items\<rparr>)))" for l e items
    by (simp add: set_line_def emit_def calm_def split: option.splits)
  ultimately have "calm s (set_line l (emit e (s1\<lparr>ig_items := items\<rparr>)))" for l e items
    using calm_quiet calm_trans by blast
  then show ?thesis using b unfolding start_item_def Let_def iid_def [symmetric] clean_def [symmetric] by simp
qed

lemma calm_delta: "calm s (delta_item env key field raw s)"
proof -
  have "calm s s1" if "stream_text k raw s = (t, s1)" for k t s1
    using stream_text_quiet [OF that] calm_quiet by blast
  then show ?thesis
    by (auto simp: delta_item_def Let_def calm_def split: option.splits prod.splits)
qed

lemma calm_settle_field: "settle_field ends iid raw field (changes, s) = (changes', s') \<Longrightarrow> calm s s'"
proof -
  have "calm s s2" if "stream_text k t (drop_held k s) = (t', s2)" for k t t' s2
    using stream_text_quiet [OF that] by (simp add: calm_def quiet_def drop_held_def)
  moreover have "calm s (drop_held k s)" for k by (simp add: calm_def drop_held_def)
  moreover assume "settle_field ends iid raw field (changes, s) = (changes', s')"
  ultimately show ?thesis using calm_release
    by (auto simp: settle_field_def Let_def split: option.splits if_splits prod.splits)
qed

lemma calm_change: "calm s (change_item env key raw ended s)"
proof -
  define clean where "clean = map_option (masked (ig_mask s) (mask_changes (en_str env))) raw"
  define iid where "iid = derived_id (en_sha env) (ig_attempt_id s) key"
  obtain c1 s1 where st1: "settle_field (ended \<noteq> None) iid raw TextField (clean, s) = (c1, s1)" by fastforce
  obtain c2 s2 where st2: "settle_field (ended \<noteq> None) iid raw OutputField (c1, s1) = (c2, s2)" by fastforce
  have "calm s s2" using calm_settle_field [OF st1] calm_settle_field [OF st2] by (rule calm_trans)
  with st1 st2 show ?thesis unfolding change_item_def Let_def iid_def [symmetric] clean_def [symmetric]
    by (auto simp: calm_def emit_def split: option.splits)
qed

lemma calm_end_turn: "calm s (end_turn status err ref s)"
proof -
  have "calm s (fold release_held ks s)" for ks s
    by (induction ks arbitrary: s) (auto intro: calm_trans calm_release)
  moreover have "calm s (clear_retry s)" by (simp add: clear_retry_def calm_emit_turn)
  ultimately have "calm s (fold release_held ks (clear_retry s))" for ks by (blast intro: calm_trans)
  then show ?thesis by (simp add: end_turn_def Let_def calm_def)
qed

text \<open>While no blocking request is open the turn runs; opening one makes it wait.\<close>

definition waits_rightly :: "db \<Rightarrow> ingesting \<Rightarrow> bool" where
  "waits_rightly d s \<longleftrightarrow> t_status (ig_turn s) \<in> {Running, Waiting} \<and>
     (t_status (ig_turn s) = Running \<longrightarrow>
        \<not> still_waiting s \<and> \<not> waits_elsewhere d (ig_session_id s) (t_id (ig_turn s)) (r_id ` set (ig_requests s)))"

lemma calm_waits: "calm s s' \<Longrightarrow> waits_rightly d s \<Longrightarrow> waits_rightly d s'"
  by (simp add: calm_def waits_rightly_def still_waiting_def)

lemma waits_elsewhere_mono: "waits_elsewhere d sid tid known' \<Longrightarrow> known \<subseteq> known' \<Longrightarrow> waits_elsewhere d sid tid known"
  unfolding waits_elsewhere_def by blast

lemma keys_put_row: "key ` set (put_row key r xs) = insert (key r) (key ` set xs)"
  unfolding put_row_def by (induction xs) auto

lemma waits_open: "waits_rightly d s \<Longrightarrow> waits_rightly d (open_request env key draft s)"
proof -
  assume w: "waits_rightly d s"
  define rid where "rid = derived_id (en_sha env) (ig_attempt_id s) (request_key key)"
  define rq where "rq = opened_request rid (derived_id (en_sha env) (ig_attempt_id s) (request_item_key key)) key
    (masked (ig_mask s) (mask_draft (en_str env)) draft) s"
  show ?thesis
  proof (cases "find_row r_id rid (ig_requests s) = None")
    case True
    have blocking: "r_blocking rq = rd_blocking draft" "r_id rq = rid"
      by (simp_all add: rq_def masked_def mask_draft_def split: option.splits)
    let ?s = "open_request env key draft s"
    have req: "ig_requests ?s = put_row r_id rq (ig_requests s)" and same: "t_id (ig_turn ?s) = t_id (ig_turn s)" "ig_session_id ?s = ig_session_id s"
      and status: "t_status (ig_turn ?s) = (if rd_blocking draft \<and> t_status (ig_turn s) = Running then Waiting else t_status (ig_turn s))"
      using True by (simp_all add: open_request_def Let_def rid_def [symmetric] rq_def [symmetric] emit_def emit_turn_def)
    have "still_waiting ?s \<Longrightarrow> still_waiting s \<or> rd_blocking draft"
      unfolding still_waiting_def req using blocking by (auto dest!: set_put_row)
    moreover have "waits_elsewhere d sid tid (r_id ` set (ig_requests ?s)) \<Longrightarrow> waits_elsewhere d sid tid (r_id ` set (ig_requests s))" for sid tid
      unfolding req keys_put_row by (erule waits_elsewhere_mono) blast
    ultimately show ?thesis using w status same unfolding waits_rightly_def by auto
  qed (use w in \<open>simp add: open_request_def Let_def rid_def\<close>)
qed

lemma waits_close: "waits_rightly d s \<Longrightarrow> waits_rightly d (close_request env key reason s)"
proof -
  assume w: "waits_rightly d s"
  show ?thesis
  proof (cases "close_request env key reason s = s")
    case False
    then obtain before where before: "find_row r_id (derived_id (en_sha env) (ig_attempt_id s) (request_key key)) (ig_requests s) = Some before"
        "r_status before = RPending"
      by (auto simp: close_request_def split: option.splits if_splits)
    define closed where "closed = before\<lparr>r_status := RCancelled, r_answerable := False,
      r_reason := Some (masked_text (ig_mask s) reason), r_resolved_at := Some (ig_now s)\<rparr>"
    have c: "r_status closed = RCancelled" "close_request env key reason s =
        emit (RequestChanged closed) (s\<lparr>ig_requests := put_row r_id closed (ig_requests s)\<rparr>)"
      using before by (simp_all add: close_request_def closed_def Let_def)
    have "still_waiting (close_request env key reason s) \<Longrightarrow> still_waiting s"
      unfolding still_waiting_def c(2) emit_def using c(1) by (auto dest!: set_put_row)
    moreover have "waits_elsewhere d sid tid (r_id ` set (put_row r_id closed (ig_requests s))) \<Longrightarrow>
        waits_elsewhere d sid tid (r_id ` set (ig_requests s))" for sid tid
      unfolding keys_put_row by (erule waits_elsewhere_mono) blast
    ultimately show ?thesis using w unfolding waits_rightly_def c(2) emit_def by auto
  qed (use w in simp)
qed

lemma waits_event:
  assumes "waits_rightly d s"
  shows "waits_rightly d (ingest_event env event s)"
proof -
  define f where "f = flush_delta s"
  have f: "waits_rightly d f" using calm_waits [OF calm_flush assms] by (simp add: f_def)
  have emits: "calm s' (emit e s')" for e s' by (simp add: calm_def emit_def)
  note steps = calm_waits [OF calm_start f] calm_waits [OF calm_change f] calm_waits [OF calm_end_turn f]
    waits_open [OF f] waits_close [OF f]
  show ?thesis
  proof (cases event)
    case (ItemDelta key field raw)
    with calm_waits [OF calm_delta assms] show ?thesis by (simp add: ingest_event_def)
  next
    case (ThreadEvent ref path)
    have "calm f (ingest_event env event s)"
      unfolding ingest_event_def ThreadEvent Let_def f_def [symmetric]
      by (auto simp: calm_def emit_def split: option.splits)
    with f calm_waits show ?thesis by blast
  next
    case (TurnStarted ref)
    have "calm f (ingest_event env event s)"
      unfolding ingest_event_def TurnStarted Let_def f_def [symmetric]
      by (auto simp: calm_def emit_def split: option.splits)
    with f calm_waits show ?thesis by blast
  next
    case (StatusLine t)
    have "calm f (ingest_event env event s)"
      unfolding ingest_event_def StatusLine Let_def f_def [symmetric]
      by (auto simp: calm_def set_line_def split: option.splits)
    with f calm_waits show ?thesis by blast
  next
    case ProviderResumed
    have "calm f (clear_retry f)" by (simp add: clear_retry_def calm_emit_turn)
    with ProviderResumed f calm_waits show ?thesis by (simp add: ingest_event_def f_def)
  next
    case (ProviderRetrying retry)
    have "calm f (ingest_event env event s)"
      unfolding ingest_event_def ProviderRetrying Let_def f_def [symmetric] by (simp add: calm_emit_turn)
    with f calm_waits show ?thesis by blast
  qed (insert f steps, unfold ingest_event_def Let_def f_def [symmetric],
      simp_all add: waits_rightly_def still_waiting_def emit_def)
qed

text \<open>The requests an attempt's keys name are requests of its turn.\<close>

definition own_requests :: "ingest_env \<Rightarrow> db \<Rightarrow> ident \<Rightarrow> turn \<Rightarrow> attempt \<Rightarrow> harness_event list \<Rightarrow> bool" where
  "own_requests env d sid t a events \<longleftrightarrow>
     (\<forall>row \<in> set (db_requests d). rr_session_id row = sid \<and>
        rr_request_id row \<in> set (concat (map (named_request env (a_id a)) events)) \<longrightarrow> rr_turn_id row = Some (t_id t))"

text \<open>A turn waits exactly while something blocks it. If a running turn has no open
  blocking request, then after any batch the turn waits when a request that blocks it is open,
  whether the batch opened it or left one from before, and runs when none is.\<close>

theorem turn_waits_while_blocked:
  assumes "t_status t = Running \<or> t_status t = Waiting"
    and "t_status t = Running \<Longrightarrow> \<not> waits_elsewhere d sid (t_id t) {}"
    and "own_requests env d sid t a events"
    and "ingest_harness_events env now d sid agent t a th mk events = r"
  shows "t_status (ig_turn r) =
    (if still_waiting r \<or> waits_elsewhere d sid (t_id t) (r_id ` set (ig_requests r)) then Waiting else Running)"
proof -
  let ?l = "load_batch env now d sid agent t a th mk events"
  define f where "f = flush_delta (fold (ingest_event env) events ?l)"
  have loaded: "\<exists>row \<in> set (db_requests d). rr_session_id row = sid \<and> rr_turn_id row = Some (t_id t) \<and>
      rr_status row = r_status rq \<and> rr_blocking row = r_blocking rq" if "rq \<in> set (ig_requests ?l)" for rq
    using that assms(3) by (auto simp: load_batch_def Let_def request_from_row_def own_requests_def dest!: set_fold_put_row)
  have "waits_rightly d ?l"
  proof -
    have "t_status t = Running \<Longrightarrow> \<not> still_waiting ?l"
      using assms(2) loaded unfolding still_waiting_def waits_elsewhere_def by fastforce
    moreover have "t_status t = Running \<Longrightarrow> \<not> waits_elsewhere d sid (t_id t) (r_id ` set (ig_requests ?l))"
      using assms(2) waits_elsewhere_mono by blast
    ultimately show ?thesis using assms(1) by (auto simp: waits_rightly_def load_batch_def Let_def)
  qed
  then have "waits_rightly d (fold (ingest_event env) es ?l)" for es
    by (induction es rule: rev_induct) (simp_all add: waits_event)
  then have f: "waits_rightly d f" unfolding f_def by (rule calm_waits [OF calm_flush])
  define g where "g = resume_turn d f"
  have g: "waits_rightly d g \<and> (t_status (ig_turn g) = Waiting \<longrightarrow>
      still_waiting g \<or> waits_elsewhere d (ig_session_id g) (t_id (ig_turn g)) (r_id ` set (ig_requests g)))"
    using f unfolding g_def resume_turn_def waits_rightly_def
    by (auto simp: emit_turn_def emit_def Let_def still_waiting_def)
  have "calm g (live_line g)"
    by (auto simp: live_line_def calm_emit_turn split: option.splits)
  moreover have r: "r = read_steers d (live_line g)"
    using assms(4) by (simp add: ingest_harness_events_def Let_def f_def g_def)
  then have "calm (live_line g) r" by (simp add: read_steers_def calm_def)
  ultimately have c: "calm g r" by (rule calm_trans)
  have ids: "ig_session_id g = sid" "t_id (ig_turn g) = t_id t"
  proof -
    have "steady ?l (unread_batch env now d sid agent t a th mk events)" using batch_moves moves_steady by blast
    then have "ig_session_id r = sid" "t_id (ig_turn r) = t_id t"
      using r same_ids unfolding steady_def
      by (auto simp: unread_batch_def read_steers_def load_batch_def Let_def f_def g_def)
    with c show "ig_session_id g = sid" "t_id (ig_turn g) = t_id t" by (simp_all add: calm_def)
  qed
  from g c ids show ?thesis
    by (auto simp: waits_rightly_def calm_def still_waiting_def)
qed

section \<open>What a mask lets through\<close>

lemma pieces_flush:
  assumes "stream_pieces k pieces (new_mask secrets) = (outs, m)"
  shows "concat outs @ fst (mask_flush k m) = mask_text (new_mask secrets) (concat pieces)"
proof -
  from stream_pieces_emit [OF new_mask_built(1) assms] have
    emit: "secrets.emit secrets [] pieces = (outs, held_text m k)" and "built_from secrets m"
    by (simp_all add: new_mask_built)
  then have "fst (mask_flush k m) = mask_text (new_mask secrets) (held_text m k)"
    by (simp add: mask_flush_def built_from_mask)
  with secrets.emit_flush [OF emit] show ?thesis by simp
qed

text \<open>Another field's held text is not touched.\<close>

lemma mask_stream_other: "mask_stream k p m = (out, m') \<Longrightarrow> j \<noteq> k \<Longrightarrow> held_text m' j = held_text m j"
  by (auto simp: mask_stream_def Let_def held_text_def forget_held_def find_put_row find_row_filter
      split: if_splits option.splits)

lemma stream_pieces_other: "stream_pieces k ps m = (outs, m') \<Longrightarrow> j \<noteq> k \<Longrightarrow> held_text m' j = held_text m j"
proof (induction ps arbitrary: m outs)
  case (Cons p ps)
  obtain out m1 where one: "mask_stream k p m = (out, m1)" by fastforce
  obtain outs1 m2 where rest: "stream_pieces k ps m1 = (outs1, m2)" by fastforce
  from Cons.prems(1) one rest have "m' = m2" by simp
  with Cons.IH [OF _ Cons.prems(2), of m1 outs1] rest mask_stream_other [OF one Cons.prems(2)] show ?case by simp
qed simp

definition gathered :: "ingesting \<Rightarrow> string" where
  "gathered s = (case ig_pending s of None \<Rightarrow> [] | Some (_, t) \<Rightarrow> t)"

text \<open>Deltas of one field only gather text: what the mask lets through of each.\<close>

lemma deltas_gather:
  assumes "find_row i_id iid (ig_items s) \<noteq> None" and "iid = derived_id (en_sha env) (ig_attempt_id s) key"
    and "ig_pending s = None \<or> (\<exists>t. ig_pending s = Some ((iid, field), t))" and "ig_mask s = Some m"
    and "stream_pieces (iid, field) ds m = (outs, m')"
  shows "\<exists>pending. fold (ingest_event env) (map (ItemDelta key field) ds) s = s\<lparr>ig_mask := Some m', ig_pending := pending\<rparr> \<and>
    (pending = None \<or> (\<exists>t. pending = Some ((iid, field), t))) \<and>
    gathered (s\<lparr>ig_pending := pending\<rparr>) = gathered s @ concat outs"
  using assms
proof (induction ds arbitrary: s m outs)
  case Nil
  then show ?case by (intro exI [of _ "ig_pending s"]) simp
next
  case (Cons d ds)
  obtain out m1 where one: "mask_stream (iid, field) d m = (out, m1)" by fastforce
  obtain outs1 m2 where rest: "stream_pieces (iid, field) ds m1 = (outs1, m2)" by fastforce
  from Cons.prems(5) one rest have eqs: "outs = out # outs1" "m' = m2" by simp_all
  define p where "p = (if out = [] then ig_pending s else Some ((iid, field), gathered s @ out))"
  define s1 where "s1 = s\<lparr>ig_mask := Some m1, ig_pending := p\<rparr>"
  have step: "ingest_event env (ItemDelta key field d) s = s1"
    using Cons.prems(1,3,4) one
    by (auto simp: ingest_event_def delta_item_def Cons.prems(2) [symmetric] stream_text_def Let_def s1_def p_def gathered_def)
  have p: "p = None \<or> (\<exists>t. p = Some ((iid, field), t))" "gathered s1 = gathered s @ out"
    using Cons.prems(3) by (auto simp: p_def s1_def gathered_def)
  obtain pending where fin: "fold (ingest_event env) (map (ItemDelta key field) ds) s1 = s1\<lparr>ig_mask := Some m2, ig_pending := pending\<rparr>"
      "pending = None \<or> (\<exists>t. pending = Some ((iid, field), t))"
      "gathered (s1\<lparr>ig_pending := pending\<rparr>) = gathered s1 @ concat outs1"
    using Cons.IH [of s1 m1 outs1] Cons.prems(1,2) p(1) rest by (auto simp: s1_def eqs(2))
  show ?case
  proof (intro exI conjI)
    show "fold (ingest_event env) (map (ItemDelta key field) (d # ds)) s = s\<lparr>ig_mask := Some m', ig_pending := pending\<rparr>"
      using fin(1) step by (simp add: s1_def eqs)
    show "gathered (s\<lparr>ig_pending := pending\<rparr>) = gathered s @ concat outs"
      using fin(3) p(2) by (simp add: s1_def gathered_def eqs)
  qed (rule fin(2))
qed

text \<open>Flushing what was gathered of an assistant's message puts it at the message's end.\<close>

lemma flush_message:
  assumes "find_row i_id iid (ig_items s) = Some it" and "i_body it = AssistantMessage x ag"
    and "ig_pending s = None \<or> (\<exists>t. ig_pending s = Some ((iid, TextField), t))"
  shows "\<exists>it'. find_row i_id iid (ig_items (flush_delta s)) = Some it' \<and> i_body it' = AssistantMessage (x @ gathered s) ag"
  using assms find_row_key [OF assms(1)]
  by (auto simp: flush_delta_def gathered_def emit_def Let_def find_put_row append_local_def)

lemma release_message:
  assumes "find_row i_id iid (ig_items s) = Some it" and "i_body it = AssistantMessage x ag" and "ig_pending s = None"
    and "ig_mask s = Some m"
  shows "\<exists>it'. find_row i_id iid (ig_items (release_held (iid, TextField) s)) = Some it' \<and>
    i_body it' = AssistantMessage (x @ fst (mask_flush (iid, TextField) m)) ag \<and>
    ig_pending (release_held (iid, TextField) s) = None \<and>
    ig_mask (release_held (iid, TextField) s) = Some (forget_held (iid, TextField) m)"
proof -
  define s1 where "s1 = s\<lparr>ig_mask := Some (forget_held (iid, TextField) m),
    ig_pending := Some ((iid, TextField), mask_text m (held_text m (iid, TextField)))\<rparr>"
  have "\<exists>it'. find_row i_id iid (ig_items (flush_delta s1)) = Some it' \<and> i_body it' = AssistantMessage (x @ gathered s1) ag"
    by (rule flush_message) (use assms in \<open>simp_all add: s1_def\<close>)
  with assms show ?thesis
    by (auto simp: release_held_def mask_flush_def s1_def gathered_def Let_def)
qed

lemma start_message:
  assumes "iid = derived_id (en_sha env) (ig_attempt_id s) key" and "find_row i_id iid (ig_items s) = None"
    and "ig_pending s = None" and "ig_mask s = Some m" and "mask_stream (iid, TextField) t m = (out, m1)"
  shows "\<exists>it ag'. let s' = ingest_event env (ItemStarted key ref \<lparr>id_body = AssistantMessage t ag, id_parent_key = parent\<rparr> None act) s in
    find_row i_id iid (ig_items s') = Some it \<and> i_body it = AssistantMessage out ag' \<and> ig_pending s' = None \<and>
    ig_mask s' = Some m1 \<and> ig_attempt_id s' = ig_attempt_id s"
proof -
  obtain t' ag0 where clean: "masked (Some m) (mask_body (en_str env)) (AssistantMessage t ag) = AssistantMessage t' ag0"
    by (cases "mask_values m = []") (auto simp: masked_def mask_body_def)
  have "stream_draft iid (AssistantMessage t ag) (AssistantMessage t' ag0) s = (AssistantMessage out ag0, s\<lparr>ig_mask := Some m1\<rparr>)"
    using assms(4,5) by (simp add: stream_draft_def stream_text_def)
  with assms clean show ?thesis
    by (cases ag0) (simp_all add: ingest_event_def flush_delta_def start_item_def HARNESS_ITEM_KINDS_def Let_def set_line_def emit_def
        find_put_row new_item_def split: option.splits)
qed

lemma end_message:
  assumes "iid = derived_id (en_sha env) (ig_attempt_id s) key" and "find_row i_id iid (ig_items s) = Some it"
    and "i_body it = AssistantMessage x ag" and "ig_pending s = None \<or> (\<exists>t. ig_pending s = Some ((iid, TextField), t))"
    and "ig_mask s = Some m" and "held_text m (iid, OutputField) = []"
  shows "\<exists>it'. find_row i_id iid (ig_items (ingest_event env (ItemEnded key ItemCompleted None) s)) = Some it' \<and>
    i_body it' = AssistantMessage (x @ gathered s @ fst (mask_flush (iid, TextField) m)) ag \<and> i_status it' = ItemCompleted \<and>
    ig_pending (ingest_event env (ItemEnded key ItemCompleted None) s) = None"
proof -
  define f where "f = flush_delta s"
  from flush_message [OF assms(2-4)] obtain it1 where it1: "find_row i_id iid (ig_items f) = Some it1"
    "i_body it1 = AssistantMessage (x @ gathered s) ag" by (auto simp: f_def)
  define g where "g = release_held (iid, TextField) f"
  have "ig_pending f = None" "ig_mask f = Some m" using assms(5) by (simp_all add: f_def)
  from release_message [OF it1 this] obtain it2 where it2: "find_row i_id iid (ig_items g) = Some it2"
    "i_body it2 = AssistantMessage ((x @ gathered s) @ fst (mask_flush (iid, TextField) m)) ag" "ig_pending g = None"
    "ig_mask g = Some (forget_held (iid, TextField) m)" by (auto simp: g_def)
  have "held_text (forget_held (iid, TextField) m) (iid, OutputField) = []"
    using assms(6) by (auto simp: held_text_def forget_held_def find_row_filter split: option.splits)
  then obtain m2 where h: "release_held (iid, OutputField) g = g\<lparr>ig_mask := Some m2\<rparr>"
    using it2(4) by (simp add: release_held_def mask_flush_def mask_text_def Let_def)
  have settled: "settle_field True iid None TextField (None, f) = (None, g)"
    by (simp add: settle_field_def g_def)
  have settled2: "settle_field True iid None OutputField (None, g) = (None, g\<lparr>ig_mask := Some m2\<rparr>)"
    by (simp add: settle_field_def h)
  define final where "final = it2\<lparr>i_status := ItemCompleted, i_ended_at := Some (ig_now g), i_updated_at := ig_now g\<rparr>"
  have "i_id it2 = iid" using it2(1) by (rule find_row_key)
  have "ig_attempt_id f = ig_attempt_id s" by (simp add: f_def)
  then have "ingest_event env (ItemEnded key ItemCompleted None) s =
      emit (ItemChanged final) (g\<lparr>ig_mask := Some m2, ig_items := put_row i_id final (ig_items g)\<rparr>)"
    using it1(1) it2(1) settled settled2 assms(1)
    by (simp add: ingest_event_def f_def [symmetric] change_item_def Let_def final_def)
  with it2 \<open>i_id it2 = iid\<close> show ?thesis by (simp add: emit_def find_put_row final_def)
qed

text \<open>A streamed message is recorded as the mask of its whole text. However an assistant's
  message is split into deltas, when it ends in the batch that began it the item holds its whole
  text with every secret value replaced, and nothing of it is lost.\<close>

theorem streamed_message_masked:
  assumes "iid = derived_id (en_sha env) (a_id a) key" and "iid \<notin> ir_id ` set (db_items d)"
    and "ingest_harness_events env now d sid agent t a th (Some (new_mask secrets))
      (ItemStarted key ref \<lparr>id_body = AssistantMessage t0 ag, id_parent_key = parent\<rparr> None act
       # map (ItemDelta key TextField) ds @ [ItemEnded key ItemCompleted None]) = r"
  shows "\<exists>it ag'. find_row i_id iid (ig_items r) = Some it \<and> i_status it = ItemCompleted \<and>
    i_body it = AssistantMessage (mask_text (new_mask secrets) (t0 @ concat ds)) ag'"
proof -
  let ?start = "ItemStarted key ref \<lparr>id_body = AssistantMessage t0 ag, id_parent_key = parent\<rparr> None act"
  let ?es = "?start # map (ItemDelta key TextField) ds @ [ItemEnded key ItemCompleted None]"
  define l where "l = load_batch env now d sid agent t a th (Some (new_mask secrets)) ?es"
  let ?k = "(iid, TextField)"
  obtain out0 m1 where one: "mask_stream ?k t0 (new_mask secrets) = (out0, m1)" by fastforce
  obtain outs m2 where rest: "stream_pieces ?k ds m1 = (outs, m2)" by fastforce
  from one rest have pieces: "stream_pieces ?k (t0 # ds) (new_mask secrets) = (out0 # outs, m2)" by simp
  have "filter (\<lambda>r. ir_id r \<in> set (concat (map (named_item env (a_id a)) ?es))) (db_items d) = []"
  proof -
    have "set (concat (map (named_item env (a_id a)) ?es)) = {iid}" using assms(1) by (auto simp: named_item_def)
    with assms(2) show ?thesis by (auto simp: filter_empty_conv)
  qed
  then have l: "ig_items l = []" "ig_pending l = None" "ig_mask l = Some (new_mask secrets)" "ig_attempt_id l = a_id a"
    unfolding l_def load_batch_def Let_def by simp_all
  define s1 where "s1 = ingest_event env ?start l"
  from start_message [OF _ _ l(2,3) one, of env key ref ag parent act] l assms(1) obtain it1 ag1 where
    s1: "find_row i_id iid (ig_items s1) = Some it1" "i_body it1 = AssistantMessage out0 ag1" "ig_pending s1 = None"
      "ig_mask s1 = Some m1" "ig_attempt_id s1 = a_id a" by (auto simp: s1_def Let_def)
  define s2 where "s2 = fold (ingest_event env) (map (ItemDelta key TextField) ds) s1"
  from deltas_gather [of iid s1 env key TextField m1 ds outs m2] s1 rest assms(1) obtain pending where
    s2: "s2 = s1\<lparr>ig_mask := Some m2, ig_pending := pending\<rparr>" "pending = None \<or> (\<exists>t. pending = Some (?k, t))"
      "gathered (s1\<lparr>ig_pending := pending\<rparr>) = gathered s1 @ concat outs" by (auto simp: s2_def)
  have g: "gathered s2 = concat outs" using s2(1,3) s1(3) by (simp add: gathered_def)
  have "held_text m2 (iid, OutputField) = []"
    using stream_pieces_other [OF pieces, of "(iid, OutputField)"] by (simp add: new_mask_built)
  with end_message [of iid env s2 key it1 out0 ag1 m2] s1 s2(1,2) assms(1) g obtain it2 where
    it2: "find_row i_id iid (ig_items (ingest_event env (ItemEnded key ItemCompleted None) s2)) = Some it2"
      "i_body it2 = AssistantMessage (out0 @ concat outs @ fst (mask_flush ?k m2)) ag1" "i_status it2 = ItemCompleted"
      "ig_pending (ingest_event env (ItemEnded key ItemCompleted None) s2) = None" by auto
  have text_is: "out0 @ concat outs @ fst (mask_flush ?k m2) = mask_text (new_mask secrets) (t0 @ concat ds)"
    using pieces_flush [OF pieces] by simp
  have "ig_items r = ig_items (ingest_event env (ItemEnded key ItemCompleted None) s2)"
    using assms(3) it2(4)
    by (auto simp: ingest_harness_events_def Let_def l_def [symmetric] s1_def [symmetric] s2_def [symmetric] flush_delta_def
        read_steers_def live_line_def resume_turn_def emit_turn_def emit_def split: option.splits)
  with it2 text_is show ?thesis by auto
qed

section \<open>What is lost and what is repeated\<close>

lemma release_unknown:
  "ig_items s = [] \<Longrightarrow> ig_mask s = Some m \<Longrightarrow>
   fold release_held ks s = s\<lparr>ig_mask := Some (fold forget_held ks m)\<rparr>"
proof (induction ks arbitrary: s m)
  case (Cons k ks)
  have "release_held k s = s\<lparr>ig_mask := Some (forget_held k m)\<rparr>"
    using Cons.prems by (simp add: release_held_def mask_flush_def Let_def)
  with Cons show ?case by simp
qed simp

lemma held_forgotten: "sm_held (fold forget_held ks m) = filter (\<lambda>h. fst h \<notin> set ks) (sm_held m)"
  by (induction ks arbitrary: m) (auto simp: forget_held_def intro!: filter_cong)

text \<open>The tail a mask holds back is lost when a turn ends in a batch of its own. Whatever
  the mask held of a message streamed in earlier batches, a batch that only ends the turn
  forgets all of it and records nothing but changes to the turn: the end of the text never
  reaches the session.\<close>

theorem ended_turn_loses_held_text:
  "case ingest_harness_events env now d sid agent t a th (Some m) [TurnEnded status err ref] of r \<Rightarrow>
     map_option mask_holding (ig_mask r) = Some [] \<and>
     list_all (\<lambda>e. case e of TurnChanged _ \<Rightarrow> True | _ \<Rightarrow> False) (ig_out r)"
proof -
  let ?l = "load_batch env now d sid agent t a th (Some m) [TurnEnded status err ref]"
  define c where "c = clear_retry ?l"
  define s where "s = c\<lparr>ig_mask := Some (fold forget_held (mask_holding m) m)\<rparr>"
  have l: "ig_items ?l = []" "ig_pending ?l = None" "ig_mask ?l = Some m" "ig_out ?l = []" "ig_consumed ?l = []"
    by (simp_all add: load_batch_def Let_def named_item_def)
  have turns: "list_all (\<lambda>e. case e of TurnChanged _ \<Rightarrow> True | _ \<Rightarrow> False) (ig_out c)"
    and c: "ig_items c = []" "ig_mask c = Some m" "ig_pending c = None" "ig_consumed c = []"
    using l by (simp_all add: c_def clear_retry_def emit_turn_def emit_def Let_def)
  have "fold (ingest_event env) [TurnEnded status err ref] ?l =
      s\<lparr>ig_completed := Some (status, map_option (masked (ig_mask s) mask_error) err, ref)\<rparr>"
    using l c release_unknown [OF c(1,2), of "mask_holding m"]
    by (simp add: ingest_event_def flush_delta_def end_turn_def c_def [symmetric] s_def Let_def)
  moreover have "mask_holding (fold forget_held (mask_holding m) m) = []"
    by (simp add: mask_holding_def held_forgotten)
  ultimately show ?thesis
    using turns c by (auto simp: ingest_harness_events_def Let_def s_def flush_delta_def read_steers_def
        live_line_def resume_turn_def emit_turn_def emit_def split: option.splits)
qed

text \<open>A delta of a stored item that is ingested again is appended again.\<close>

lemma delta_ingested_again:
  assumes "r0 \<in> set (db_items d)" and "rows_repeat d" and "ir_id r0 = derived_id (en_sha env) (a_id a) key" and "txt \<noteq> []"
  shows "ItemTextAppended (ir_id r0) field txt now \<in>
    set (ig_out (ingest_harness_events env now d sid agent t a th None [ItemDelta key field txt]))"
proof -
  let ?l = "load_batch env now d sid agent t a th None [ItemDelta key field txt]"
  have "ir_id r0 \<in> (i_id \<circ> item_from_row) ` set (filter (\<lambda>r. ir_id r \<in> {ir_id r0}) (db_items d))"
    using assms(1,2) by (force simp: rows_repeat_def item_from_row_def)
  then have known: "find_row i_id (ir_id r0) (ig_items ?l) \<noteq> None"
    unfolding load_batch_def Let_def by (simp add: named_item_def assms(3) [symmetric] find_fold_put_row)
  have "ig_attempt_id ?l = a_id a" "ig_pending ?l = None" "ig_mask ?l = None" "ig_out ?l = []" "ig_now ?l = now"
    by (simp_all add: load_batch_def Let_def)
  with known assms(3,4) have "fold (ingest_event env) [ItemDelta key field txt] ?l = ?l\<lparr>ig_pending := Some ((ir_id r0, field), txt)\<rparr>"
    by (simp add: ingest_event_def delta_item_def stream_text_def Let_def)
  then show ?thesis
    by (simp add: ingest_harness_events_def Let_def flush_delta_def emit_def read_steers_def live_line_def
        resume_turn_def emit_turn_def \<open>ig_now ?l = now\<close> split: option.splits)
qed

section \<open>Witnesses\<close>

definition ex_env :: ingest_env where
  "ex_env = \<lparr>en_sha = (\<lambda>s. take 64 (s @ replicate 64 (CHR ''0''))), en_ellipsis = CHR ''~'', en_str = (\<lambda>_. [])\<rparr>"

definition ex_attempt :: attempt where
  "ex_attempt = \<lparr>a_id = ''a'', a_turn_id = ''t'', a_session_id = ''s'', a_ordinal = 1, a_reason = Initial,
     a_status = ARunning, a_provider_thread_id = Some ''p'', a_native_turn_ref = None, a_error = None,
     a_created_at = 0, a_started_at = None, a_completed_at = None\<rparr>"

definition ex_thread :: provider_thread where
  "ex_thread = \<lparr>p_id = ''p'', p_session_id = ''s'', p_harness = ''codex'', p_native_ref = None, p_status = ThreadActive,
     p_last_turn_ordinal = None, p_portable = False, p_created_at = 0, p_updated_at = 0\<rparr>"

definition ex_question :: request_draft where
  "ex_question = \<lparr>rd_kind = KQuestion, rd_blocking = True, rd_title = ''Which?'', rd_description = None,
     rd_origin = \<lparr>ro_kind = OHost, ro_id = ''w'', ro_display_name = None\<rparr>, rd_questions = None, rd_approval = None,
     rd_elicitation = None\<rparr>"

definition ex_frames :: "harness_event list" where
  "ex_frames = [ItemStarted ''k'' None \<lparr>id_body = Reasoning ''Hm'', id_parent_key = None\<rparr> None None,
     ItemDelta ''k'' TextField ''m'']"

lemma ex_id: "derived_id (en_sha ex_env) ''a'' ''k'' = [CHR ''a'', CHR 0x00, CHR ''k'', CHR ''0'', CHR ''0'', CHR ''0'', CHR ''0'', CHR ''0'']
    @ ''-0000-8000-8000-000000000000''"
  by code_simp

lemma ex_repeat: "rows_repeat (ex_db n)"
  by (simp add: rows_repeat_def fixtures)

lemma ex_ingest:
  "ig_out (ingest_harness_events ex_env 5 (ex_db 3) ''s'' None (ex_turn ''t'' 1 Running) ex_attempt ex_thread None ex_frames) =
   [ItemAdded (new_item (derived_id (en_sha ex_env) ''a'' ''k'') (Reasoning ''Hm'') None None InProgress
      (load_batch ex_env 5 (ex_db 3) ''s'' None (ex_turn ''t'' 1 Running) ex_attempt ex_thread None ex_frames)),
    ItemTextAppended (derived_id (en_sha ex_env) ''a'' ''k'') TextField ''m'' 5,
    TurnChanged ((ex_turn ''t'' 1 Running)\<lparr>t_activity := Some ''Thinking...'', t_activity_at := Some 5, t_updated_at := 5\<rparr>)]"
  by (simp add: ingest_harness_events_def load_batch_def ex_frames_def Let_def ingest_event_def flush_delta_def start_item_def
      delta_item_def stream_text_def masked_def set_line_def or_else_def item_activity_def activity_line_def emit_def
      HARNESS_ITEM_KINDS_def put_row_def named_item_def ex_attempt_def resume_turn_def live_line_def emit_turn_def
      read_steers_def append_local_def fixtures new_item_def)

theorem harness_writes_its_own_witness:
  "case ig_out (ingest_harness_events ex_env 5 (ex_db 3) ''s'' None (ex_turn ''t'' 1 Running) ex_attempt ex_thread None ex_frames) of
     out \<Rightarrow> length out = 3 \<and>
       list_all (within_rights (ex_db 3) ''s'' (ex_turn ''t'' 1 Running) ex_attempt ex_thread (set out)) out"
proof -
  let ?out = "ig_out (ingest_harness_events ex_env 5 (ex_db 3) ''s'' None (ex_turn ''t'' 1 Running) ex_attempt ex_thread None ex_frames)"
  have "list_all (within_rights (ex_db 3) ''s'' (ex_turn ''t'' 1 Running) ex_attempt ex_thread (set ?out)) ?out"
    unfolding list_all_iff by (rule conjunct1 [OF harness_writes_its_own [OF ex_repeat refl]])
  moreover have "length ?out = 3" unfolding ex_ingest by simp
  ultimately show ?thesis by blast
qed

theorem clients_see_the_batch_witness:
  "\<exists>stored d'. append_events 5 ''s'' None (ig_out (ingest_harness_events ex_env 5 (ex_db 3) ''s'' None
       (ex_turn ''t'' 1 Running) ex_attempt ex_thread None ex_frames)) (ex_db 3) = Inr (stored, d') \<and>
     map_option i_body (items_seen (s_items (apply_session_events (ex_state 3) stored)) (derived_id (en_sha ex_env) ''a'' ''k''))
       = Some (Reasoning ''Hmm'')"
proof -
  let ?r = "ingest_harness_events ex_env 5 (ex_db 3) ''s'' None (ex_turn ''t'' 1 Running) ex_attempt ex_thread None ex_frames"
  let ?l = "load_batch ex_env 5 (ex_db 3) ''s'' None (ex_turn ''t'' 1 Running) ex_attempt ex_thread None ex_frames"
  have "\<exists>stored d'. append_events 5 ''s'' None (ig_out ?r) (ex_db 3) = Inr (stored, d')"
    unfolding ex_ingest by (simp add: log_eval new_item_def load_batch_def ex_attempt_def)
  then obtain stored d' where run: "append_events 5 ''s'' None (ig_out ?r) (ex_db 3) = Inr (stored, d')" by blast
  have "ig_items ?l = []" "ig_requests ?l = []" by (simp_all add: load_batch_def Let_def fixtures)
  then have sees: "sees (ex_state 3) ?l" by (simp add: sees_def)
  have st: "s_sequence (ex_state 3) = latest_sequence (ex_db 3) ''s''" "\<not> s_stale (ex_state 3)"
    by (simp_all add: ex_state_def log_eval)
  let ?id = "derived_id (en_sha ex_env) ''a'' ''k''"
  have items: "ig_items ?r = [append_local (new_item ?id (Reasoning ''Hm'') None None InProgress ?l) TextField ''m'' 5]"
    "ig_consumed ?r = []"
    by (simp_all add: ingest_harness_events_def load_batch_def ex_frames_def Let_def ingest_event_def flush_delta_def start_item_def
      delta_item_def stream_text_def masked_def set_line_def or_else_def item_activity_def activity_line_def emit_def
      HARNESS_ITEM_KINDS_def put_row_def named_item_def ex_attempt_def resume_turn_def live_line_def emit_turn_def
      read_steers_def append_local_def fixtures new_item_def)
  from clients_see_the_batch [OF ex_repeat refl run sees st] items
  have "items_seen (s_items (apply_session_events (ex_state 3) stored)) ?id = items_seen (ig_items ?r) ?id" by simp
  moreover have "map_option i_body (items_seen (ig_items ?r) ?id) = Some (Reasoning ''Hmm'')"
    unfolding items items_seen_def by (simp add: append_local_def new_item_def unplaced_def)
  ultimately show ?thesis using run by metis
qed

theorem turn_waits_while_blocked_witness:
  "t_status (ig_turn (ingest_harness_events ex_env 5 (ex_db 3) ''s'' None (ex_turn ''t'' 1 Running) ex_attempt ex_thread None
     [RequestOpened ''q'' ex_question])) = Waiting"
proof -
  let ?r = "ingest_harness_events ex_env 5 (ex_db 3) ''s'' None (ex_turn ''t'' 1 Running) ex_attempt ex_thread None
     [RequestOpened ''q'' ex_question]"
  have start: "t_status (ex_turn ''t'' 1 Running) = Running \<or> t_status (ex_turn ''t'' 1 Running) = Waiting"
    "\<not> waits_elsewhere (ex_db 3) ''s'' (t_id (ex_turn ''t'' 1 Running)) {}"
    "own_requests ex_env (ex_db 3) ''s'' (ex_turn ''t'' 1 Running) ex_attempt [RequestOpened ''q'' ex_question]"
    by (simp_all add: fixtures waits_elsewhere_def own_requests_def)
  have "still_waiting ?r"
    by (simp add: ingest_harness_events_def load_batch_def Let_def ingest_event_def flush_delta_def open_request_def
        masked_def emit_def put_row_def named_item_def named_request_def resume_turn_def live_line_def emit_turn_def
        read_steers_def fixtures still_waiting_def ex_question_def)
  with turn_waits_while_blocked [OF start(1,2,3) refl, of 5 None ex_thread None] show ?thesis by simp
qed

theorem streamed_message_masked_witness:
  "\<exists>it ag. find_row i_id (derived_id (en_sha ex_env) ''a'' ''k'') (ig_items (ingest_harness_events ex_env 5 (ex_db 3) ''s'' None
       (ex_turn ''t'' 1 Running) ex_attempt ex_thread (Some (new_mask [(''K'', [''sekret9''])]))
       (ItemStarted ''k'' None \<lparr>id_body = AssistantMessage ''my se'' None, id_parent_key = None\<rparr> None None
        # map (ItemDelta ''k'' TextField) [''kre'', ''t9!''] @ [ItemEnded ''k'' ItemCompleted None]))) = Some it \<and>
     i_body it = AssistantMessage (mask_text (new_mask [(''K'', [''sekret9''])]) ''my sekret9!'') ag"
proof -
  have id: "derived_id (en_sha ex_env) ''a'' ''k'' = derived_id (en_sha ex_env) (a_id ex_attempt) ''k''"
    "derived_id (en_sha ex_env) ''a'' ''k'' \<notin> ir_id ` set (db_items (ex_db 3))"
    by (simp_all add: ex_attempt_def fixtures)
  from streamed_message_masked [OF id refl, of 5 "''s''" None "ex_turn ''t'' 1 Running" ex_thread "[(''K'', [''sekret9''])]"
      None "''my se''" None None None "[''kre'', ''t9!'']"]
  show ?thesis by auto
qed

end
