(* ===== verification/Native_State.thy ===== *)
theory Native_State
  imports Session_Rows
begin

text \<open>
  A provider thread's native state, \<open>packages/core/src/services/sessions/native-state.ts\<close>: the
  entries of a transcript, kept in order per thread and subpath, an entry with a \<open>uuid\<close> stored
  once. The table's unique index over thread, subpath and \<open>uuid\<close> is what \<open>ON CONFLICT DO NOTHING\<close>
  answers to; its rows are the list in the order they were inserted.
\<close>

section \<open>The table and its operations\<close>

definition APPEND_BATCH :: nat where "APPEND_BATCH = 1000"

record entry_row =
  en_thread_id :: ident
  en_subpath :: string
  en_seq :: nat
  en_uuid :: "string option"
  en_entry :: json

definition entry_uuid :: "json \<Rightarrow> string option" where
  "entry_uuid entry =
     (case entry of
        JObj ms \<Rightarrow> (case map_of ms ''uuid'' of Some (JStr s) \<Rightarrow> Some s | _ \<Rightarrow> None)
      | _ \<Rightarrow> None)"

definition entries_at :: "ident \<Rightarrow> string \<Rightarrow> entry_row list \<Rightarrow> entry_row list" where
  "entries_at th sub rows = filter (\<lambda>r. en_thread_id r = th \<and> en_subpath r = sub) rows"

definition last_seq :: "ident \<Rightarrow> string \<Rightarrow> entry_row list \<Rightarrow> nat" where
  "last_seq th sub rows = fold max (map en_seq (entries_at th sub rows)) 0"

definition conflicts :: "entry_row list \<Rightarrow> entry_row \<Rightarrow> bool" where
  "conflicts rows r \<longleftrightarrow> en_uuid r \<noteq> None \<and>
     (\<exists>x \<in> set rows. en_thread_id x = en_thread_id r \<and> en_subpath x = en_subpath r \<and> en_uuid x = en_uuid r)"

definition insert_entry :: "entry_row \<Rightarrow> entry_row list \<Rightarrow> entry_row list" where
  "insert_entry r rows = (if conflicts rows r then rows else rows @ [r])"

text \<open>The rows of one statement: \<open>seq\<close> counts every entry, inserted or not.\<close>

fun entry_rows :: "ident \<Rightarrow> string \<Rightarrow> nat \<Rightarrow> json list \<Rightarrow> entry_row list" where
  "entry_rows th sub n [] = []"
| "entry_rows th sub n (e # es) =
     \<lparr>en_thread_id = th, en_subpath = sub, en_seq = Suc n, en_uuid = entry_uuid e, en_entry = e\<rparr>
     # entry_rows th sub (Suc n) es"

function append_batches ::
  "ident \<Rightarrow> string \<Rightarrow> nat \<Rightarrow> json list \<Rightarrow> nat \<Rightarrow> entry_row list \<Rightarrow> entry_row list"
where
  "append_batches th sub start entries n rows =
     (if start < length entries
      then (let chunk = take APPEND_BATCH (drop start entries) in
            append_batches th sub (start + APPEND_BATCH) entries (n + length chunk)
              (fold insert_entry (entry_rows th sub n chunk) rows))
      else rows)"
  by pat_completeness auto
termination
  by (relation "measure (\<lambda>(th, sub, start, entries, n, rows). length entries - start)") (auto simp: APPEND_BATCH_def)

declare append_batches.simps [simp del]

text \<open>
  \<open>append\<close>: the entries, and the thread's row when it turned portable. \<open>now\<close> is the database's clock.
\<close>

definition native_append ::
  "instant \<Rightarrow> ident \<Rightarrow> string option \<Rightarrow> json list \<Rightarrow> entry_row list \<times> provider_thread list \<Rightarrow>
   provider_thread option \<times> entry_row list \<times> provider_thread list"
where
  "native_append now th sub entries tables =
     (case tables of (rows, threads) \<Rightarrow>
        if entries = [] then (None, rows, threads)
        else
          (let path = (case sub of None \<Rightarrow> [] | Some p \<Rightarrow> p);
               rows' = append_batches th path 0 entries (last_seq th path rows) rows;
               turns = (\<lambda>p. p_id p = th \<and> \<not> p_portable p);
               threads' = update_where turns (\<lambda>p. p\<lparr>p_portable := True, p_updated_at := now\<rparr>) threads
           in (map_option (\<lambda>p. p\<lparr>p_portable := True, p_updated_at := now\<rparr>) (find turns threads), rows', threads')))"

definition native_load :: "ident \<Rightarrow> string option \<Rightarrow> entry_row list \<Rightarrow> json list option" where
  "native_load th sub rows =
     (case map en_entry (sort_key en_seq (entries_at th (case sub of None \<Rightarrow> [] | Some p \<Rightarrow> p) rows)) of
        [] \<Rightarrow> None | es \<Rightarrow> Some es)"

definition native_subpaths :: "ident \<Rightarrow> entry_row list \<Rightarrow> string list" where
  "native_subpaths th rows = remdups (map en_subpath (filter (\<lambda>r. en_thread_id r = th \<and> en_subpath r \<noteq> []) rows))"

definition native_has :: "ident \<Rightarrow> entry_row list \<Rightarrow> bool" where
  "native_has th rows \<longleftrightarrow> (\<exists>r \<in> set rows. en_thread_id r = th)"

section \<open>What is loaded is what was appended\<close>

text \<open>The reference: entries in order, one with a \<open>uuid\<close> that is already there left out.\<close>

fun keep_new :: "json list \<Rightarrow> json list \<Rightarrow> json list" where
  "keep_new seen [] = seen"
| "keep_new seen (e # es) =
     (if entry_uuid e \<noteq> None \<and> entry_uuid e \<in> entry_uuid ` set seen then keep_new seen es
      else keep_new (seen @ [e]) es)"

lemma keep_new_append: "keep_new seen (xs @ ys) = keep_new (keep_new seen xs) ys"
  by (induction xs arbitrary: seen) auto

lemma keep_new_seen: "set seen \<subseteq> set (keep_new seen es)"
proof (induction es arbitrary: seen)
  case (Cons e es)
  have "set seen \<subseteq> set (keep_new (seen @ [e]) es)" using Cons.IH [of "seen @ [e]"] by simp
  with Cons.IH [of seen] show ?case by simp
qed simp

lemma keep_new_Nil:
  assumes "es \<noteq> []"
  shows "keep_new seen es \<noteq> []"
proof (cases es)
  case (Cons e ys)
  then show ?thesis using keep_new_seen [of "seen @ [e]" ys] keep_new_seen [of seen ys]
    by (cases "seen = []") auto
qed (use assms in simp)

lemma keep_new_uuid:
  "e \<in> set es \<Longrightarrow> entry_uuid e \<noteq> None \<Longrightarrow> entry_uuid e \<in> entry_uuid ` set (keep_new seen es)"
proof (induction es arbitrary: seen)
  case (Cons x es)
  show ?case
  proof (cases "e \<in> set es")
    case True
    with Cons.IH Cons.prems(2) show ?thesis by simp
  next
    case False
    with Cons.prems have "e = x" by simp
    have "set seen \<subseteq> set (keep_new seen es)" "set (seen @ [x]) \<subseteq> set (keep_new (seen @ [x]) es)" by (rule keep_new_seen)+
    with \<open>e = x\<close> Cons.prems(2) show ?thesis by (cases "entry_uuid x \<in> entry_uuid ` set seen") auto
  qed
qed simp

lemma keep_new_again:
  assumes "\<forall>e \<in> set es. entry_uuid e \<noteq> None"
  shows "keep_new (keep_new seen es) es = keep_new seen es"
proof -
  have skip: "keep_new xs ys = xs" if "\<forall>e \<in> set ys. entry_uuid e \<noteq> None \<and> entry_uuid e \<in> entry_uuid ` set xs" for xs ys
    using that by (induction ys) auto
  have "\<forall>e \<in> set es. entry_uuid e \<noteq> None \<and> entry_uuid e \<in> entry_uuid ` set (keep_new seen es)"
    using assms keep_new_uuid by blast
  then show ?thesis by (rule skip)
qed

text \<open>Rows of one place are in order of their sequence, and each repeats its entry's uuid.\<close>

definition stored_well :: "entry_row list \<Rightarrow> bool" where
  "stored_well rows \<longleftrightarrow>
     (\<forall>th sub. sorted_wrt (<) (map en_seq (entries_at th sub rows))) \<and> (\<forall>r \<in> set rows. en_uuid r = entry_uuid (en_entry r))"

lemma entries_at_append [simp]: "entries_at th sub (xs @ ys) = entries_at th sub xs @ entries_at th sub ys"
  by (simp add: entries_at_def)

lemma fold_max_le: "x \<in> set xs \<Longrightarrow> x \<le> fold max xs (n::nat)"
  and "n \<le> fold max xs n"
proof -
  have le: "n \<le> fold max xs n" for n :: nat and xs 
    by (induction xs arbitrary: n) (simp, metis fold_simps(2) max.cobounded2 order_trans)
  then show "n \<le> fold max xs n" .
  show "x \<in> set xs \<Longrightarrow> x \<le> fold max xs n"
    by (induction xs arbitrary: n) (auto intro: order_trans [OF _ le])
qed

lemma last_seq_le: "r \<in> set (entries_at th sub rows) \<Longrightarrow> en_seq r \<le> last_seq th sub rows"
  unfolding last_seq_def by (rule fold_max_le(1)) simp

text \<open>One statement: what it inserts, and that the rows stay in order.\<close>

lemma insert_rows:
  fixes es :: "json list"
  assumes "stored_well rows" and "\<forall>r \<in> set (entries_at th sub rows). en_seq r \<le> n"
  defines "rows' \<equiv> fold insert_entry (entry_rows th sub n es) rows"
  shows "stored_well rows'" and "\<forall>r \<in> set (entries_at th sub rows'). en_seq r \<le> n + length es"
    and "map en_entry (entries_at th sub rows') = keep_new (map en_entry (entries_at th sub rows)) es"
    and "(th', sub') \<noteq> (th, sub) \<Longrightarrow> entries_at th' sub' rows' = entries_at th' sub' rows"
proof -
  have "stored_well rows' \<and> (\<forall>r \<in> set (entries_at th sub rows'). en_seq r \<le> n + length es) \<and>
      map en_entry (entries_at th sub rows') = keep_new (map en_entry (entries_at th sub rows)) es \<and>
      ((th', sub') \<noteq> (th, sub) \<longrightarrow> entries_at th' sub' rows' = entries_at th' sub' rows)"
    using assms(1,2) unfolding rows'_def
  proof (induction es arbitrary: n rows)
    case (Cons e es)
    define r where "r = \<lparr>en_thread_id = th, en_subpath = sub, en_seq = Suc n, en_uuid = entry_uuid e, en_entry = e\<rparr>"
    define new where "new = insert_entry r rows"
    have conflict: "conflicts rows r \<longleftrightarrow>
        entry_uuid e \<noteq> None \<and> entry_uuid e \<in> entry_uuid ` set (map en_entry (entries_at th sub rows))"
      using Cons.prems(1) by (auto simp: conflicts_def r_def entries_at_def stored_well_def image_iff)
    have place: "entries_at a b [r] = (if (a, b) = (th, sub) then [r] else [])" for a b
      by (auto simp: entries_at_def r_def)
    have r: "en_seq r = Suc n" "en_uuid r = entry_uuid (en_entry r)" by (simp_all add: r_def)
    have well: "stored_well new"
      using Cons.prems r by (auto simp: new_def insert_entry_def stored_well_def place sorted_wrt_append le_imp_less_Suc)
    moreover have "\<forall>x \<in> set (entries_at th sub new). en_seq x \<le> Suc n"
      using Cons.prems(2) r by (auto simp: new_def insert_entry_def place)
    ultimately have IH: "stored_well (fold insert_entry (entry_rows th sub (Suc n) es) new) \<and>
        (\<forall>x \<in> set (entries_at th sub (fold insert_entry (entry_rows th sub (Suc n) es) new)). en_seq x \<le> Suc n + length es) \<and>
        map en_entry (entries_at th sub (fold insert_entry (entry_rows th sub (Suc n) es) new)) =
          keep_new (map en_entry (entries_at th sub new)) es \<and>
        ((th', sub') \<noteq> (th, sub) \<longrightarrow> entries_at th' sub' (fold insert_entry (entry_rows th sub (Suc n) es) new) = entries_at th' sub' new)"
      by (rule Cons.IH)
    have "map en_entry (entries_at th sub new) =
        (if conflicts rows r then map en_entry (entries_at th sub rows) else map en_entry (entries_at th sub rows) @ [e])"
      by (simp add: new_def insert_entry_def place) (simp add: r_def)
    then have keep: "keep_new (map en_entry (entries_at th sub new)) es = keep_new (map en_entry (entries_at th sub rows)) (e # es)"
      using conflict by simp
    have other: "(th', sub') \<noteq> (th, sub) \<Longrightarrow> entries_at th' sub' new = entries_at th' sub' rows"
      by (auto simp: new_def insert_entry_def place)
    have unfold: "fold insert_entry (entry_rows th sub n (e # es)) rows = fold insert_entry (entry_rows th sub (Suc n) es) new"
      by (simp add: new_def r_def)
    show ?case unfolding unfold using IH keep other by auto
  qed simp
  then show "stored_well rows'" "\<forall>r \<in> set (entries_at th sub rows'). en_seq r \<le> n + length es"
    "map en_entry (entries_at th sub rows') = keep_new (map en_entry (entries_at th sub rows)) es"
    "(th', sub') \<noteq> (th, sub) \<Longrightarrow> entries_at th' sub' rows' = entries_at th' sub' rows" by auto
qed

text \<open>Splitting an append into statements changes nothing.\<close>

lemma append_batches_effect:
  assumes "stored_well rows" and "\<forall>r \<in> set (entries_at th sub rows). en_seq r \<le> n" and "start \<le> length entries"
  shows "stored_well (append_batches th sub start entries n rows) \<and>
    map en_entry (entries_at th sub (append_batches th sub start entries n rows)) =
      keep_new (map en_entry (entries_at th sub rows)) (drop start entries) \<and>
    ((th', sub') \<noteq> (th, sub) \<longrightarrow> entries_at th' sub' (append_batches th sub start entries n rows) = entries_at th' sub' rows)"
  using assms
proof (induction th sub start entries n rows rule: append_batches.induct)
  case (1 th sub start entries n rows)
  show ?case
  proof (cases "start < length entries")
    case False
    with 1(2,4) show ?thesis by (simp add: append_batches.simps)
  next
    case True
    define chunk where "chunk = take APPEND_BATCH (drop start entries)"
    define rows1 where "rows1 = fold insert_entry (entry_rows th sub n chunk) rows"
    note one = insert_rows [OF 1(2,3), where es = chunk, folded rows1_def]
    have step: "append_batches th sub start entries n rows =
        append_batches th sub (start + APPEND_BATCH) entries (n + length chunk) rows1"
      using True by (simp add: append_batches.simps [of th sub start] chunk_def rows1_def Let_def)
    have cut: "chunk @ drop (start + APPEND_BATCH) entries = drop start entries"
      unfolding chunk_def by (metis add.commute append_take_drop_id drop_drop)
    show ?thesis
    proof (cases "start + APPEND_BATCH \<le> length entries")
      case True
      from 1(1) [OF \<open>start < length entries\<close> chunk_def one(1) [unfolded rows1_def] one(2) [unfolded rows1_def] True]
        keep_new_append [of "map en_entry (entries_at th sub rows)" chunk "drop (start + APPEND_BATCH) entries", unfolded cut]
      show ?thesis unfolding step using one(3,4) by (auto simp: rows1_def)
    next
      case False
      then have "append_batches th sub (start + APPEND_BATCH) entries (n + length chunk) rows1 = rows1"
        by (simp add: append_batches.simps)
      moreover have "drop start entries = chunk" using False cut by simp
      ultimately show ?thesis unfolding step using one by auto
    qed
  qed
qed

lemma sorted_strict_key: "sorted_wrt (<) (map en_seq xs) \<Longrightarrow> sort_key en_seq xs = xs"
  by (rule sort_key_id_if_sorted) (rule strict_sorted_imp_sorted)

lemma native_load_append_parts:
  assumes "stored_well rows" and "native_append now th sub entries (rows, threads) = (turned, rows', threads')"
    and "entries \<noteq> []"
  shows "native_load th sub rows' = Some (keep_new (case native_load th sub rows of None \<Rightarrow> [] | Some es \<Rightarrow> es) entries)"
    and "stored_well rows'"
    and "(th', case sub' of None \<Rightarrow> [] | Some p \<Rightarrow> p) \<noteq> (th, case sub of None \<Rightarrow> [] | Some p \<Rightarrow> p) \<Longrightarrow>
      native_load th' sub' rows' = native_load th' sub' rows"
    and "\<forall>e \<in> set entries. entry_uuid e \<noteq> None \<Longrightarrow>
      native_load th sub (fst (snd (native_append later th sub entries (rows', threads')))) = native_load th sub rows'"
proof -
  define path where "path = (case sub of None \<Rightarrow> [] | Some p \<Rightarrow> p)"
  have rows': "rows' = append_batches th path 0 entries (last_seq th path rows) rows"
    using assms(2,3) by (simp add: native_append_def Let_def path_def)
  have le: "\<forall>r \<in> set (entries_at th path xs). en_seq r \<le> last_seq th path xs" for xs using last_seq_le by blast
  note effect = append_batches_effect [OF assms(1) le, of 0 entries]
  from effect show well: "stored_well rows'" unfolding rows' by blast
  have load: "native_load t s xs = (case map en_entry (entries_at t (case s of None \<Rightarrow> [] | Some p \<Rightarrow> p) xs) of [] \<Rightarrow> None | es \<Rightarrow> Some es)"
    if "stored_well xs" for t s xs
    using that by (simp add: native_load_def stored_well_def sorted_strict_key)
  have at: "map en_entry (entries_at th path rows') = keep_new (map en_entry (entries_at th path rows)) entries"
    using effect unfolding rows' by simp
  with load [OF well, of th sub] load [OF assms(1), of th sub] keep_new_Nil [OF assms(3)]
  show "native_load th sub rows' = Some (keep_new (case native_load th sub rows of None \<Rightarrow> [] | Some es \<Rightarrow> es) entries)"
    by (auto simp: path_def [symmetric] split: list.splits)
  show "native_load th' sub' rows' = native_load th' sub' rows"
    if "(th', case sub' of None \<Rightarrow> [] | Some p \<Rightarrow> p) \<noteq> (th, case sub of None \<Rightarrow> [] | Some p \<Rightarrow> p)"
  proof -
    from effect that have "entries_at th' (case sub' of None \<Rightarrow> [] | Some p \<Rightarrow> p) rows' = entries_at th' (case sub' of None \<Rightarrow> [] | Some p \<Rightarrow> p) rows"
      unfolding rows' path_def by blast
    with load [OF well] load [OF assms(1)] show ?thesis by simp
  qed
  show "native_load th sub (fst (snd (native_append later th sub entries (rows', threads')))) = native_load th sub rows'"
    if "\<forall>e \<in> set entries. entry_uuid e \<noteq> None"
  proof -
    define rows2 where "rows2 = append_batches th path 0 entries (last_seq th path rows') rows'"
    have "fst (snd (native_append later th sub entries (rows', threads'))) = rows2"
      using assms(3) by (simp add: native_append_def Let_def path_def rows2_def)
    moreover have "stored_well rows2 \<and> map en_entry (entries_at th path rows2) = keep_new (map en_entry (entries_at th path rows')) entries"
      using append_batches_effect [OF well le, of 0 entries] unfolding rows2_def by simp
    moreover have "keep_new (map en_entry (entries_at th path rows')) entries = map en_entry (entries_at th path rows')"
      unfolding at by (rule keep_new_again [OF that])
    ultimately show ?thesis using load [OF well, of th sub] load [of rows2 th sub] by (simp add: path_def [symmetric])
  qed
qed

text \<open>What a thread's state loads is what was appended to it. After an append, the entries
  at its place load in order: those that were there, then the new ones, an entry whose \<open>uuid\<close> is
  there already left out; every other place loads as before; and appending the same entries
  again, as a retry does, changes nothing when each carries a \<open>uuid\<close>.\<close>

theorem native_load_append:
  assumes "stored_well rows" and "native_append now th sub entries (rows, threads) = (turned, rows', threads')"
    and "entries \<noteq> []"
  shows "(native_load th sub rows' = Some (keep_new (case native_load th sub rows of None \<Rightarrow> [] | Some es \<Rightarrow> es) entries)) \<and>
      stored_well rows' \<and>
      ((th', case sub' of None \<Rightarrow> [] | Some p \<Rightarrow> p) \<noteq> (th, case sub of None \<Rightarrow> [] | Some p \<Rightarrow> p) \<longrightarrow>
      native_load th' sub' rows' = native_load th' sub' rows) \<and>
      ((\<forall>e \<in> set entries. entry_uuid e \<noteq> None) \<longrightarrow>
      native_load th sub (fst (snd (native_append later th sub entries (rows', threads')))) = native_load th sub rows')"
  using native_load_append_parts [OF assms] by blast

definition ex_entry :: "string \<Rightarrow> json" where "ex_entry u = JObj [(''uuid'', JStr u)]"

theorem native_load_append_witness:
  "native_load ''p'' None (fst (snd (native_append 0 ''p'' None [ex_entry ''1'', ex_entry ''2'', ex_entry ''1''] ([], [])))) =
     Some [ex_entry ''1'', ex_entry ''2'']"
proof -
  let ?es = "[ex_entry ''1'', ex_entry ''2'', ex_entry ''1'']"
  obtain turned rows' threads' where run: "native_append 0 ''p'' None ?es ([], []) = (turned, rows', threads')"
    by (metis prod_cases3)
  have "stored_well []" by (simp add: stored_well_def entries_at_def)
  from native_load_append [OF this run] have "native_load ''p'' None rows' = Some (keep_new [] ?es)"
    by (simp add: native_load_def entries_at_def)
  then show ?thesis using run by (simp add: ex_entry_def entry_uuid_def)
qed

end
