(* ===== verification/Turn_Frames.thy ===== *)
theory Turn_Frames
  imports Request_Policy Ingest_Laws Native_State Turn_Queue
begin

text \<open>
  Taking in what a runner wrote (\<open>applyFrames\<close> and its helpers in
  \<open>packages/core/src/services/sessions/turn-engine.ts\<close>): one transaction of the turn's lease holder
  that records a batch of frames with the cursor that read it. Native state appends are stored,
  calls are kept until their results are acknowledged, harness events become session events,
  approvals open under the chat's policy, and acknowledged commands are marked. The transaction's
  clock is one instant; the policy's joined rows and the ids the database gives new commands are
  parameters.
\<close>

section \<open>Frames\<close>

definition QUEUED_COMMAND_KINDS :: "string list" where
  "QUEUED_COMMAND_KINDS = [''steer'', ''interrupt'', ''respond'', ''release'', ''stop'']"

definition split_command_id :: "string \<Rightarrow> string \<times> string option" where
  "split_command_id cid =
     (let kind = takeWhile (\<lambda>c. c \<noteq> CHR '':'') cid
      in if length kind = length cid then (cid, None) else (kind, Some (drop (Suc (length kind)) cid)))"

definition APPLIED_APPEND :: host_call where
  "APPLIED_APPEND = NativeAppend None None []"

text \<open>An object keyed by call, as the association list of its entries.\<close>

definition set_call :: "ident \<Rightarrow> host_call \<Rightarrow> (ident \<times> host_call) list \<Rightarrow> (ident \<times> host_call) list" where
  "set_call cid call calls = put_row fst (cid, call) calls"

definition drop_call :: "ident \<Rightarrow> (ident \<times> host_call) list \<Rightarrow> (ident \<times> host_call) list" where
  "drop_call cid calls = filter (\<lambda>c. fst c \<noteq> cid) calls"

text \<open>
  What the frames leave, before anything is stored: the runner's state in memory, the appends and
  the other calls first seen here, the results delivered, the commands acknowledged and the steers
  among them that the harness refused.
\<close>

record taking =
  tk_runner :: runner_state
  tk_appends :: "(ident \<times> string option \<times> json list) list"
  tk_calls :: "(ident \<times> host_call) list"
  tk_delivered :: "ident list"
  tk_acked :: "ident list"
  tk_refused :: "ident list"

definition take_call :: "ident \<Rightarrow> host_call \<Rightarrow> taking \<Rightarrow> taking" where
  "take_call cid call s =
     (let known = rs_calls (tk_runner s) in
      if cid \<in> fst ` set known then s
      else case call of
        NativeAppend _ sub entries \<Rightarrow>
          s\<lparr>tk_appends := tk_appends s @ [(cid, (if sub = Some [] then None else sub), entries)],
            tk_runner := (tk_runner s)\<lparr>rs_calls := set_call cid APPLIED_APPEND known\<rparr>\<rparr>
      | _ \<Rightarrow>
          s\<lparr>tk_calls := tk_calls s @ [(cid, call)],
            tk_runner := (tk_runner s)\<lparr>rs_calls := set_call cid call known\<rparr>\<rparr>)"

definition take_ack :: "ident \<Rightarrow> string \<Rightarrow> string option \<Rightarrow> taking \<Rightarrow> taking" where
  "take_ack aid command_id error s =
     (case split_command_id command_id of
        (_, None) \<Rightarrow> s
      | (kind, Some cid) \<Rightarrow>
          let own = aid @ '':'';
              s1 = (if kind = ''result'' \<and> take (length own) cid = own
                    then s\<lparr>tk_delivered := tk_delivered s @ [drop (Suc (length aid)) cid]\<rparr> else s)
          in if cid \<noteq> [] \<and> kind \<in> set QUEUED_COMMAND_KINDS
             then s1\<lparr>tk_acked := tk_acked s1 @ [cid],
                     tk_refused := tk_refused s1 @
                       (if kind = ''steer'' \<and> error \<noteq> None \<and> error \<noteq> Some [] then [cid] else [])\<rparr>
             else s1)"

definition take_frame :: "ident \<Rightarrow> runner_frame \<Rightarrow> taking \<Rightarrow> taking" where
  "take_frame aid frame s =
     (case fr_body frame of
        Hello _ _ harness capabilities \<Rightarrow>
          s\<lparr>tk_runner := (tk_runner s)\<lparr>rs_hello := Some (harness, capabilities)\<rparr>\<rparr>
      | CallFrame cid call \<Rightarrow> take_call cid call s
      | Ack command_id error \<Rightarrow> take_ack aid command_id error s
      | _ \<Rightarrow> s)"

definition take_frames :: "ident \<Rightarrow> nat \<Rightarrow> runner_state \<Rightarrow> runner_frame list \<Rightarrow> taking" where
  "take_frames aid cursor runner frames =
     fold (take_frame aid) frames
       \<lparr>tk_runner = runner\<lparr>rs_cursor := cursor\<rparr>, tk_appends = [], tk_calls = [], tk_delivered = [],
        tk_acked = [], tk_refused = []\<rparr>"

definition frame_events :: "runner_frame list \<Rightarrow> harness_event list" where
  "frame_events frames =
     concat (map (\<lambda>f. case fr_body f of EventFrame event \<Rightarrow> [event] | _ \<Rightarrow> []) frames)"

section \<open>The runner's state in the attempt's row\<close>

text \<open>
  \<open>runnerWrite\<close>: the state of memory, with the recorded calls and only the added ones, so that a
  call answered meanwhile never comes back.
\<close>

definition runner_write ::
  "runner_state \<Rightarrow> (ident \<times> host_call) list \<Rightarrow> ident list \<Rightarrow> runner_state option \<Rightarrow> runner_state"
where
  "runner_write runner added applied stored =
     runner\<lparr>rs_calls := fold (\<lambda>(cid, call). set_call cid call) added
              (case stored of None \<Rightarrow> [] | Some r \<Rightarrow> rs_calls r),
            rs_applied := fold (\<lambda>cid. put_row id cid) applied
              (case stored of None \<Rightarrow> [] | Some r \<Rightarrow> rs_applied r)\<rparr>"

definition on_runner :: "ident \<Rightarrow> (runner_state option \<Rightarrow> runner_state option) \<Rightarrow> db \<Rightarrow> db" where
  "on_runner aid f d =
     d\<lparr>db_attempts := update_where (\<lambda>r. ar_id r = aid) (\<lambda>r. r\<lparr>ar_runner := f (ar_runner r)\<rparr>) (db_attempts d)\<rparr>"

text \<open>\<open>forgetCall\<close>: an acknowledged result lets its call go.\<close>

definition forget_call :: "ident \<Rightarrow> runner_state \<Rightarrow> runner_state" where
  "forget_call cid r =
     r\<lparr>rs_calls := drop_call cid (rs_calls r), rs_applied := filter (\<lambda>c. c \<noteq> cid) (rs_applied r)\<rparr>"

section \<open>Approvals and steers\<close>

record frames_env =
  fe_ingest :: ingest_env
  fe_policy :: "ident \<Rightarrow> (membership list \<times> policy_source) option"
  fe_command_id :: "nat \<Rightarrow> ident"

record frames_db =
  fx_db :: db
  fx_entries :: "entry_row list"
  fx_paths :: "ident \<rightharpoonup> string"

definition opens_approval :: "session_event \<Rightarrow> runtime_request option" where
  "opens_approval event =
     (case event of
        RequestChanged r \<Rightarrow>
          if r_kind r = KApproval \<and> r_status r = RPending \<and> r_expires_at r = None then Some r else None
      | _ \<Rightarrow> None)"

definition denial :: "ident \<Rightarrow> string \<Rightarrow> json_object" where
  "denial key reason =
     [(''requestKey'', JStr key),
      (''response'', JObj [(''kind'', JStr ''approval''), (''decision'', JStr ''denied''), (''reason'', JStr reason)])]"

text \<open>
  The batch's events with each approval governed, the denials queued for the runner, and the
  approvals approvers are told of.
\<close>

record governing =
  gv_events :: "session_event list"
  gv_db :: db
  gv_denied :: nat
  gv_opened :: "runtime_request list"

definition denies :: "runtime_request \<times> string option \<Rightarrow> (string \<times> string) option" where
  "denies outcome =
     (case (snd outcome, r_runner_key (fst outcome)) of
        (Some reason, Some key) \<Rightarrow> if reason \<noteq> [] \<and> key \<noteq> [] then Some (key, reason) else None
      | _ \<Rightarrow> None)"

definition govern_event ::
  "frames_env \<Rightarrow> instant \<Rightarrow> ident \<Rightarrow> ident \<Rightarrow> ident \<Rightarrow> session_event \<Rightarrow> governing \<Rightarrow> log_error + governing"
where
  "govern_event env now sid tid aid event g =
     (case opens_approval event of
        None \<Rightarrow> Inr (g\<lparr>gv_events := gv_events g @ [event]\<rparr>)
      | Some r \<Rightarrow>
          (case fe_policy env sid of
             None \<Rightarrow> Inl (SessionNotFound sid)
           | Some (members, src) \<Rightarrow>
               (let outcome = govern_approval now (approval_policy members src) r;
                    g1 = g\<lparr>gv_events := gv_events g @ [RequestChanged (fst outcome)]\<rparr>
                in Inr (case denies outcome of
                     Some (key, reason) \<Rightarrow>
                       g1\<lparr>gv_denied := Suc (gv_denied g1),
                          gv_db := snd (enqueue_command now (fe_command_id env (gv_denied g1)) tid (Some aid)
                            CRespond (Some (denial key reason)) (gv_db g1))\<rparr>
                   | None \<Rightarrow>
                       if r_approvers (fst outcome) \<noteq> [] then g1\<lparr>gv_opened := gv_opened g1 @ [fst outcome]\<rparr>
                       else g1))))"

fun govern_events ::
  "frames_env \<Rightarrow> instant \<Rightarrow> ident \<Rightarrow> ident \<Rightarrow> ident \<Rightarrow> session_event list \<Rightarrow> governing \<Rightarrow> log_error + governing"
where
  "govern_events env now sid tid aid [] g = Inr g"
| "govern_events env now sid tid aid (e # es) g =
     (case govern_event env now sid tid aid e g of
        Inl err \<Rightarrow> Inl err
      | Inr g' \<Rightarrow> govern_events env now sid tid aid es g')"

text \<open>A refusal at once may leave nothing to wait on: the turn works on.\<close>

definition changed_requests :: "session_event list \<Rightarrow> runtime_request list" where
  "changed_requests events =
     concat (map (\<lambda>e. case e of RequestChanged r \<Rightarrow> [r] | _ \<Rightarrow> []) events)"

definition resume_refused :: "instant \<Rightarrow> db \<Rightarrow> ident \<Rightarrow> turn \<Rightarrow> governing \<Rightarrow> turn \<times> governing" where
  "resume_refused now d sid t g =
     (let batch = changed_requests (gv_events g) in
      if 0 < gv_denied g \<and> t_status t = Waiting \<and>
         \<not> (\<exists>r \<in> set batch. r_status r = RPending \<and> r_blocking r) \<and>
         \<not> waits_elsewhere d sid (t_id t) (r_id ` set batch)
      then (let t' = t\<lparr>t_status := Running, t_activity := Some ''Working'', t_activity_at := Some now,
                       t_updated_at := now\<rparr>
            in (t', g\<lparr>gv_events := gv_events g @ [TurnChanged t']\<rparr>))
      else (t, g))"

text \<open>\<open>fromPeople\<close>: the steer commands among \<open>ids\<close> whose message a person wrote.\<close>

definition steer_item :: "turn_command_row \<Rightarrow> ident" where
  "steer_item c = (case map_of (tc_payload c) ''itemId'' of Some (JStr s) \<Rightarrow> s | _ \<Rightarrow> [])"

definition from_people :: "db \<Rightarrow> ident list \<Rightarrow> ident list" where
  "from_people d ids =
     filter (\<lambda>cid.
       case find_row tc_id cid (db_commands d) of
         None \<Rightarrow> False
       | Some c \<Rightarrow> steer_item c \<noteq> [] \<and>
           (case find_row ir_id (steer_item c) (db_items d) of
              None \<Rightarrow> False
            | Some row \<Rightarrow> ir_author_kind row = Some ByUser)) ids"

section \<open>The transaction\<close>

record frames_applied =
  fa_turn :: turn
  fa_attempt :: attempt
  fa_thread :: provider_thread
  fa_runner :: runner_state
  fa_calls :: "(ident \<times> host_call) list"
  fa_appended :: "ident list"
  fa_refused_steers :: "ident list"
  fa_thread_lost :: "string option"
  fa_completion :: "(completion_status \<times> turn_error option \<times> native_ref option) option"
  fa_mask :: "secret_mask option"
  fa_opened :: "runtime_request list"
  fa_wakes :: bool

definition ended_attempt ::
  "instant \<Rightarrow> completion_status \<times> turn_error option \<times> native_ref option \<Rightarrow> attempt \<Rightarrow> attempt"
where
  "ended_attempt now completed a =
     (case completed of (status, error, ref) \<Rightarrow>
        a\<lparr>a_status := (case status of TurnDone \<Rightarrow> ACompleted | TurnInterrupted \<Rightarrow> AInterrupted | TurnFailed \<Rightarrow> AFailed),
          a_native_turn_ref := (case ref of None \<Rightarrow> a_native_turn_ref a | Some r \<Rightarrow> Some r),
          a_error := error, a_completed_at := Some now\<rparr>)"

definition with_usage :: "agent_turn_usage \<Rightarrow> turn \<Rightarrow> turn" where
  "with_usage usage t =
     t\<lparr>t_outcome := Some (case t_outcome t of
         None \<Rightarrow> \<lparr>o_changed_files = [], o_usage = Some usage, o_store_sync = None, o_workspace_sync = None,
                  o_notification = None\<rparr>
       | Some o1 \<Rightarrow> o1\<lparr>o_usage := Some usage\<rparr>)\<rparr>"

text \<open>What follows the batch's own events: a title, the turn with its usage, the attempt that ended.\<close>

definition extra_events :: "db \<Rightarrow> ident \<Rightarrow> instant \<Rightarrow> ingesting \<Rightarrow> session_event list \<times> turn \<times> attempt" where
  "extra_events d sid now s =
     (let titled = (case ig_title s of
            Some title \<Rightarrow> if title \<noteq> [] \<and> \<not> named_by_person d sid
              then [SessionChanged (empty_patch\<lparr>c_title := Some (Some title)\<rparr>)] else []
          | None \<Rightarrow> []);
          t = (case ig_usage s of None \<Rightarrow> ig_turn s | Some usage \<Rightarrow> with_usage usage (ig_turn s));
          a = (case ig_completed s of None \<Rightarrow> ig_attempt s | Some completed \<Rightarrow> ended_attempt now completed (ig_attempt s))
      in (titled @ (if ig_usage s = None then [] else [TurnChanged t]) @
            (if ig_completed s = None then [] else [AttemptChanged a]), t, a))"

text \<open>Native appends, each logging its thread when its row turned portable.\<close>

fun store_appends ::
  "instant \<Rightarrow> ident \<Rightarrow> ident \<Rightarrow> (ident \<times> string option \<times> json list) list \<Rightarrow> db \<times> entry_row list \<Rightarrow>
   log_error + db \<times> entry_row list"
where
  "store_appends now sid th [] (d, rows) = Inr (d, rows)"
| "store_appends now sid th ((cid, sub, entries) # later) (d, rows) =
     (case native_append now th sub entries (rows, db_threads d) of
        (turned, rows', threads') \<Rightarrow>
          (case turned of
             None \<Rightarrow> store_appends now sid th later (d\<lparr>db_threads := threads'\<rparr>, rows')
           | Some p \<Rightarrow>
               (case append_events now sid None [ProviderThreadChanged (provider_thread_from_row p)]
                       (d\<lparr>db_threads := threads'\<rparr>) of
                  Inl err \<Rightarrow> Inl err
                | Inr (_, d') \<Rightarrow> store_appends now sid th later (d', rows'))))"

text \<open>The state in memory with what ingestion says, and with the delivered calls let go.\<close>

definition told_runner :: "taking \<Rightarrow> ingesting \<Rightarrow> runner_state" where
  "told_runner tk s =
     (tk_runner tk)\<lparr>rs_consumed := rs_consumed (tk_runner tk) @ ig_consumed s,
                    rs_started := rs_started (tk_runner tk) \<or> ig_started s\<rparr>"

definition kept_runner :: "taking \<Rightarrow> runner_state \<Rightarrow> runner_state" where
  "kept_runner tk runner = fold (\<lambda>c r. r\<lparr>rs_calls := drop_call c (rs_calls r)\<rparr>) (tk_delivered tk) runner"

definition save_runner :: "ident \<Rightarrow> taking \<Rightarrow> runner_state \<Rightarrow> db \<Rightarrow> db" where
  "save_runner aid tk runner d =
     (let appended = map fst (tk_appends tk) in
      fold (\<lambda>c. on_runner aid (map_option (forget_call c))) (tk_delivered tk)
        (on_runner aid (\<lambda>r. Some (runner_write runner (tk_calls tk @ map (\<lambda>c. (c, APPLIED_APPEND)) appended)
           appended r)) d))"

definition save_path :: "ingesting \<Rightarrow> db \<Rightarrow> (ident \<rightharpoonup> string) \<Rightarrow> (ident \<rightharpoonup> string)" where
  "save_path s d paths =
     (let th = p_id (ig_thread s) in
      case ig_state_path s of
        None \<Rightarrow> paths
      | Some path \<Rightarrow> if path \<noteq> [] \<and> th \<in> set (map p_id (db_threads d)) then paths(th \<mapsto> path) else paths)"

text \<open>A person's steer the harness refused restarts the attempt with it; the others acknowledged are done.\<close>

definition settle_commands :: "instant \<Rightarrow> taking \<Rightarrow> db \<Rightarrow> ident list \<times> db" where
  "settle_commands now tk d =
     (let restart = from_people d (tk_refused tk)
      in (restart, mark_commands now (filter (\<lambda>c. c \<notin> set restart) (tk_acked tk)) CAcknowledged d))"

definition record_batch ::
  "frames_env \<Rightarrow> instant \<Rightarrow> ident \<Rightarrow> ident \<Rightarrow> ident \<Rightarrow> taking \<Rightarrow> ingesting \<Rightarrow> frames_db \<Rightarrow>
   log_error + frames_applied \<times> frames_db"
where
  "record_batch env now sid tid aid tk s w =
     (let d = fx_db w; runner = told_runner tk s; (extra, t1, a1) = extra_events d sid now s
      in case govern_events env now sid tid aid (ig_out s) \<lparr>gv_events = [], gv_db = d, gv_denied = 0, gv_opened = []\<rparr> of
           Inl err \<Rightarrow> Inl err
         | Inr g0 \<Rightarrow>
             (let (t2, g) = resume_refused now d sid t1 g0 in
              case append_events now sid None (gv_events g @ extra) (gv_db g) of
                Inl err \<Rightarrow> Inl err
              | Inr (_, d1) \<Rightarrow>
                  (case store_appends now sid (p_id (ig_thread s)) (tk_appends tk) (d1, fx_entries w) of
                     Inl err \<Rightarrow> Inl err
                   | Inr (d2, entries) \<Rightarrow>
                       (let (restart, d3) = settle_commands now tk d2
                        in Inr (\<lparr>fa_turn = t2, fa_attempt = a1, fa_thread = ig_thread s,
                                 fa_runner = kept_runner tk runner, fa_calls = tk_calls tk,
                                 fa_appended = map fst (tk_appends tk), fa_refused_steers = restart,
                                 fa_thread_lost = ig_thread_lost s, fa_completion = ig_completed s,
                                 fa_mask = ig_mask s, fa_opened = gv_opened g, fa_wakes = 0 < gv_denied g\<rparr>,
                                \<lparr>fx_db = save_runner (a_id a1) tk runner d3, fx_entries = entries,
                                 fx_paths = save_path s d1 (fx_paths w)\<rparr>)))))"

text \<open>
  \<open>applyFrames\<close>: only while the lease holds the turn, on the turn as it stands under the lock. A mask
  with nothing to mask stays out of it.
\<close>

definition begin_mask :: "secret_mask option \<Rightarrow> secret_mask option" where
  "begin_mask mk = (case mk of None \<Rightarrow> None | Some m \<Rightarrow> if mask_values m = [] then None else Some m)"

definition ingest_frames ::
  "frames_env \<Rightarrow> instant \<Rightarrow> ident option \<Rightarrow> turn_row \<Rightarrow> ident \<Rightarrow> attempt \<Rightarrow> provider_thread \<Rightarrow>
   secret_mask option \<Rightarrow> runner_frame list \<Rightarrow> db \<Rightarrow> ingesting"
where
  "ingest_frames env now agent row sid a0 th0 mk frames d =
     ingest_harness_events (fe_ingest env) now d sid agent (turn_from_row now row) a0 th0 (begin_mask mk)
       (frame_events frames)"

definition apply_frames ::
  "frames_env \<Rightarrow> instant \<Rightarrow> ident \<Rightarrow> ident \<Rightarrow> ident option \<Rightarrow> turn \<Rightarrow> attempt \<Rightarrow> provider_thread \<Rightarrow>
   runner_state \<Rightarrow> secret_mask option \<Rightarrow> runner_frame list \<Rightarrow> nat \<Rightarrow> frames_db \<Rightarrow>
   log_error + frames_applied \<times> frames_db"
where
  "apply_frames env now claimed tok agent t0 a0 th0 runner0 mk frames cursor w =
     (if \<not> owns now claimed tok (fx_db w) then Inl (LeaseLost claimed)
      else case find_row tr_id (t_id t0) (db_turns (fx_db w)) of
        None \<Rightarrow> Inl (TurnNotFound (t_id t0))
      | Some row \<Rightarrow>
          (case record_batch env now (t_session_id t0) (t_id t0) (a_id a0)
                  (take_frames (a_id a0) cursor runner0 frames)
                  (ingest_frames env now agent row (t_session_id t0) a0 th0 mk frames (fx_db w)) w of
             Inl err \<Rightarrow> Inl err
           | Inr (out, w') \<Rightarrow>
               Inr (if begin_mask mk = None then out\<lparr>fa_mask := mk\<rparr> else out, w')))"

section \<open>What a successful transaction consists of\<close>

lemma extra_attempt_id: "a_id (snd (snd (extra_events d sid now s))) = a_id (ig_attempt s)"
  by (auto simp: extra_events_def Let_def ended_attempt_def split: option.splits prod.splits)

lemma record_batchE:
  assumes "record_batch env now sid tid aid tk s w = Inr (out, w')"
  obtains g0 g stored d1 d2 where
    "govern_events env now sid tid aid (ig_out s) \<lparr>gv_events = [], gv_db = fx_db w, gv_denied = 0, gv_opened = []\<rparr> = Inr g0"
    and "resume_refused now (fx_db w) sid (fst (snd (extra_events (fx_db w) sid now s))) g0 = (fa_turn out, g)"
    and "append_events now sid None (gv_events g @ fst (extra_events (fx_db w) sid now s)) (gv_db g) = Inr (stored, d1)"
    and "store_appends now sid (p_id (ig_thread s)) (tk_appends tk) (d1, fx_entries w) = Inr (d2, fx_entries w')"
    and "fa_refused_steers out = fst (settle_commands now tk d2)"
    and "fx_db w' = save_runner (a_id (ig_attempt s)) tk (told_runner tk s) (snd (settle_commands now tk d2))"
    and "fa_runner out = kept_runner tk (told_runner tk s)"
    and "fa_calls out = tk_calls tk" and "fa_appended out = map fst (tk_appends tk)"
    and "fa_attempt out = snd (snd (extra_events (fx_db w) sid now s))"
proof -
  obtain extra t1 a1 where x: "extra_events (fx_db w) sid now s = (extra, t1, a1)" by (metis prod_cases3)
  then have a1: "a_id a1 = a_id (ig_attempt s)" using extra_attempt_id [of "fx_db w" sid now s] by simp
  from assms x obtain g0 where g0: "govern_events env now sid tid aid (ig_out s)
      \<lparr>gv_events = [], gv_db = fx_db w, gv_denied = 0, gv_opened = []\<rparr> = Inr g0"
    by (auto simp: record_batch_def Let_def split: sum.splits)
  obtain t2 g where g: "resume_refused now (fx_db w) sid t1 g0 = (t2, g)" by fastforce
  from assms x g0 g obtain stored d1 where d1: "append_events now sid None (gv_events g @ extra) (gv_db g) = Inr (stored, d1)"
    by (auto simp: record_batch_def Let_def split: sum.splits)
  from assms x g0 g d1 obtain d2 entries where
    d2: "store_appends now sid (p_id (ig_thread s)) (tk_appends tk) (d1, fx_entries w) = Inr (d2, entries)"
    by (auto simp: record_batch_def Let_def split: sum.splits)
  obtain restart d3 where d3: "settle_commands now tk d2 = (restart, d3)" by fastforce
  from assms x g0 g d1 d2 d3
  have "out = \<lparr>fa_turn = t2, fa_attempt = a1, fa_thread = ig_thread s,
          fa_runner = kept_runner tk (told_runner tk s), fa_calls = tk_calls tk,
          fa_appended = map fst (tk_appends tk), fa_refused_steers = restart,
          fa_thread_lost = ig_thread_lost s, fa_completion = ig_completed s,
          fa_mask = ig_mask s, fa_opened = gv_opened g, fa_wakes = 0 < gv_denied g\<rparr> \<and>
        w' = \<lparr>fx_db = save_runner (a_id a1) tk (told_runner tk s) d3, fx_entries = entries,
          fx_paths = save_path s d1 (fx_paths w)\<rparr>"
    by (simp add: record_batch_def Let_def)
  with that g0 g d1 d2 d3 x a1 show ?thesis by simp
qed

lemma apply_framesE:
  assumes "apply_frames env now claimed tok agent t0 a0 th0 runner0 mk frames cursor w = Inr (out, w')"
  obtains row out0 where "owns now claimed tok (fx_db w)" and "find_row tr_id (t_id t0) (db_turns (fx_db w)) = Some row"
    and "record_batch env now (t_session_id t0) (t_id t0) (a_id a0) (take_frames (a_id a0) cursor runner0 frames)
           (ingest_frames env now agent row (t_session_id t0) a0 th0 mk frames (fx_db w)) w = Inr (out0, w')"
    and "out = out0\<lparr>fa_mask := fa_mask out\<rparr>"
  using assms by (auto simp: apply_frames_def split: if_splits option.splits sum.splits)

section \<open>What an append leaves of the engine's columns\<close>

definition runner_of :: "db \<Rightarrow> ident \<Rightarrow> runner_state option option" where
  "runner_of d aid = map_option ar_runner (find_row ar_id aid (db_attempts d))"

lemma project_runner:
  assumes "project now e a = Inr b" and "runner_of a aid = Some r"
  shows "runner_of b aid = Some r"
proof -
  have id: "ar_id (update_attempt_row s x row) = ar_id row" "ar_runner (update_attempt_row s x row) = ar_runner row" for s x row
    by (simp_all add: update_attempt_row_def ar_id_def)
  show ?thesis
  proof (cases "se_event e")
    case (AttemptChanged x)
    let ?new = "\<lparr>ar_attempt = x\<lparr>a_session_id := se_session_id e\<rparr>, ar_runner = None, ar_provider_started_at = None\<rparr>"
    have new: "ar_id ?new = a_id x" by (simp add: ar_id_def)
    from project_Inr [OF assms(1)] AttemptChanged
    have b: "db_attempts b = upsert ar_id (update_attempt_row (se_session_id e) x) ?new (db_attempts a)"
      by (simp add: project_attempt_def)
    show ?thesis
    proof (cases "a_id x = aid")
      case True
      with assms(2) b show ?thesis
        using find_row_upsert_same [of ar_id "update_attempt_row (se_session_id e) x" ?new "db_attempts a"]
        by (auto simp: runner_of_def id new)
    next
      case False
      with assms(2) b show ?thesis by (auto simp: runner_of_def id new find_row_upsert_other)
    qed
  qed (use assms(2) project_Inr [OF assms(1)] in \<open>auto simp: runner_of_def project_steps\<close>)
qed

lemma append_engine_columns:
  assumes "append_events now sid cmd events d = Inr (stored, d')"
  shows "runner_of d aid = Some r \<longrightarrow> runner_of d' aid = Some r" and "db_commands d' = db_commands d"
proof -
  have "(runner_of d aid = Some r \<longrightarrow> runner_of d' aid = Some r) \<and> db_commands d' = db_commands d"
  proof (rule append_events_cases [OF assms])
    assume "append_locked now sid cmd (current_turns d sid events) d = Inr (stored, d')"
    then obtain d0 where "persist now stored d0 = Inr d'" and d0: "db_attempts d0 = db_attempts d" "db_commands d0 = db_commands d"
      by (auto simp: append_locked_def Let_def set_sequence_def split: option.splits sum.splits)
    then obtain d1 where p1: "project_all now stored d1 = Inr d'"
      and d1: "db_attempts d1 = db_attempts d" "db_commands d1 = db_commands d"
      by (auto simp: persist_def dest: insert_batches_storable split: sum.splits)
    from d1 have "(runner_of d aid = Some r \<longrightarrow> runner_of d1 aid = Some r) \<and> db_commands d1 = db_commands d"
      by (simp add: runner_of_def)
    then show ?thesis
      by (rule project_all_invariant [OF p1]) (auto dest: project_runner project_frame(3))
  qed simp
  then show "runner_of d aid = Some r \<longrightarrow> runner_of d' aid = Some r" "db_commands d' = db_commands d" by blast+
qed

lemma store_appends_columns:
  assumes "store_appends now sid th appends (d, rows) = Inr (d', rows')"
  shows "(runner_of d aid = Some r \<longrightarrow> runner_of d' aid = Some r) \<and> db_commands d' = db_commands d"
  using assms
proof (induction now sid th appends "(d, rows)" arbitrary: d rows rule: store_appends.induct)
  case (2 now sid th cid sub entries later d rows)
  obtain turned rows1 threads1 where n: "native_append now th sub entries (rows, db_threads d) = (turned, rows1, threads1)"
    by (metis prod_cases3)
  show ?case
  proof (cases turned)
    case None
    with 2(1) [OF n [symmetric] refl None] 2(3) n show ?thesis by (simp add: runner_of_def)
  next
    case (Some p)
    with 2(3) n obtain stored d1 where a: "append_events now sid None [ProviderThreadChanged (provider_thread_from_row p)]
        (d\<lparr>db_threads := threads1\<rparr>) = Inr (stored, d1)" and rest: "store_appends now sid th later (d1, rows1) = Inr (d', rows')"
      by (auto split: sum.splits)
    from 2(2) [OF n [symmetric] refl Some a refl rest] append_engine_columns [OF a]
    show ?thesis by (simp add: runner_of_def)
  qed
qed simp


section \<open>The calls a holder knows and the calls its row keeps\<close>

lemma map_of_set_call: "map_of (set_call c call calls) = (map_of calls)(c \<mapsto> call)"
  unfolding set_call_def put_row_def by (induction calls) (auto simp: fun_eq_iff)

lemma map_of_drop_call: "map_of (drop_call c calls) = (map_of calls)(c := None)"
  unfolding drop_call_def by (induction calls) (auto simp: fun_eq_iff)

lemma map_of_set_calls:
  "distinct (map fst added) \<Longrightarrow>
   map_of (fold (\<lambda>(c, call). set_call c call) added calls) = map_of calls ++ map_of added"
proof (induction added arbitrary: calls)
  case (Cons x added)
  obtain c call where x: "x = (c, call)" by fastforce
  with Cons.prems have fresh: "map_of added c = None" by (simp add: map_of_eq_None_iff)
  from Cons x fresh show ?case
    by (simp add: map_of_set_call) (auto simp: fun_eq_iff map_add_def split: option.splits)
qed simp

lemma map_of_drop_calls:
  "map_of a = map_of b \<Longrightarrow>
   map_of (fold (\<lambda>c. drop_call c) cs a) = map_of (fold (\<lambda>c. drop_call c) cs b)"
  by (induction cs arbitrary: a b) (simp_all add: map_of_drop_call)

text \<open>What the frames before noted: the calls first seen, each once, and no other field but the hello.\<close>

definition first_seen :: "taking \<Rightarrow> (ident \<times> host_call) list" where
  "first_seen s = tk_calls s @ map (\<lambda>c. (c, APPLIED_APPEND)) (map fst (tk_appends s))"

definition noted :: "runner_state \<Rightarrow> taking \<Rightarrow> bool" where
  "noted runner s \<longleftrightarrow>
     distinct (map fst (first_seen s)) \<and> set (map fst (first_seen s)) \<inter> fst ` set (rs_calls runner) = {} \<and>
     map_of (rs_calls (tk_runner s)) = map_of (rs_calls runner) ++ map_of (first_seen s) \<and>
     (tk_runner s)\<lparr>rs_hello := None, rs_calls := []\<rparr> = runner\<lparr>rs_hello := None, rs_calls := []\<rparr>"

lemma keys_map_of: "fst ` set xs = dom (map_of xs)"
  by (simp add: dom_map_of_conv_image_fst)

lemma map_of_middle:
  "c \<notin> fst ` set (xs @ ys) \<Longrightarrow> map_of (xs @ (c, v) # ys) = (map_of (xs @ ys))(c \<mapsto> v)"
  by (induction xs) (auto simp: fun_upd_twist)

lemma take_call_cases:
  obtains "c \<in> fst ` set (rs_calls (tk_runner s))" "take_call c call s = s"
  | v xs ys where "c \<notin> fst ` set (rs_calls (tk_runner s))" "first_seen s = xs @ ys"
      "first_seen (take_call c call s) = xs @ (c, v) # ys"
      "tk_runner (take_call c call s) = (tk_runner s)\<lparr>rs_calls := set_call c v (rs_calls (tk_runner s))\<rparr>"
proof (cases "c \<in> fst ` set (rs_calls (tk_runner s))")
  case True
  with that(1) show ?thesis by (simp add: take_call_def Let_def)
next
  case False
  show ?thesis
  proof (cases call)
    case (NativeAppend th sub entries)
    with False that(2) [of "first_seen s" "[]" APPLIED_APPEND] show ?thesis
      by (simp add: take_call_def Let_def first_seen_def)
  qed (use False that(2) [of "tk_calls s" "map (\<lambda>c. (c, APPLIED_APPEND)) (map fst (tk_appends s))" call] in
      \<open>simp_all add: take_call_def Let_def first_seen_def\<close>)
qed

lemma noted_call:
  assumes "noted runner s"
  shows "noted runner (take_call c call s)"
proof (cases rule: take_call_cases [of c s call])
  case (2 v xs ys)
  from assms 2(1,2) have fresh: "c \<notin> fst ` set (rs_calls runner)" "c \<notin> fst ` set (xs @ ys)"
    unfolding noted_def keys_map_of by auto
  from assms have old: "map_of (rs_calls (tk_runner s)) = map_of (rs_calls runner) ++ map_of (xs @ ys)"
    "distinct (map fst (xs @ ys))" "set (map fst (xs @ ys)) \<inter> fst ` set (rs_calls runner) = {}"
    "(tk_runner s)\<lparr>rs_hello := None, rs_calls := []\<rparr> = runner\<lparr>rs_hello := None, rs_calls := []\<rparr>"
    unfolding noted_def 2(2) by blast+
  have "map_of (rs_calls (tk_runner (take_call c call s))) = map_of (rs_calls runner) ++ map_of (xs @ (c, v) # ys)"
    unfolding 2(4) map_of_middle [OF fresh(2)] map_add_upd by (simp add: map_of_set_call old(1) del: map_of_append)
  moreover have "(tk_runner (take_call c call s))\<lparr>rs_hello := None, rs_calls := []\<rparr> = runner\<lparr>rs_hello := None, rs_calls := []\<rparr>"
    using old(4) unfolding 2(4) by simp
  ultimately show ?thesis using fresh old(2,3) unfolding noted_def 2(3) by auto
qed (use assms in simp)

lemma call_known: "c' \<in> fst ` set (rs_calls (tk_runner (take_call c call s))) \<longleftrightarrow>
    c' = c \<or> c' \<in> fst ` set (rs_calls (tk_runner s))"
  by (cases rule: take_call_cases [of c s call]) (auto simp: keys_map_of map_of_set_call)

lemma ack_frame: "tk_runner (take_ack aid cid err s) = tk_runner s" "first_seen (take_ack aid cid err s) = first_seen s"
  "tk_calls (take_ack aid cid err s) = tk_calls s" "tk_appends (take_ack aid cid err s) = tk_appends s"
  by (auto simp: take_ack_def Let_def first_seen_def split: prod.split option.split)

lemma noted_frame: "noted runner s \<Longrightarrow> noted runner (take_frame aid frame s)"
proof (cases "fr_body frame")
  case (CallFrame c call)
  then show "noted runner s \<Longrightarrow> ?thesis" by (simp add: take_frame_def noted_call)
next
  case (Ack cid err)
  then show "noted runner s \<Longrightarrow> ?thesis" by (simp add: take_frame_def noted_def ack_frame)
qed (auto simp: take_frame_def noted_def first_seen_def)

lemma noted_frames: "noted (runner\<lparr>rs_cursor := cursor\<rparr>) (take_frames aid cursor runner frames)"
proof -
  have fold: "noted r s \<Longrightarrow> noted r (fold (take_frame aid) frames s)" for r s
    by (induction frames arbitrary: s) (simp_all add: noted_frame)
  show ?thesis unfolding take_frames_def by (rule fold) (simp add: noted_def first_seen_def)
qed

text \<open>Saving: the row's calls and applied appends, and every other field as memory has it.\<close>

lemma runner_of_on_runner:
  "runner_of (on_runner aid f d) aid' = (if aid' = aid then map_option f (runner_of d aid) else runner_of d aid')"
proof -
  have "find_row ar_id aid' (db_attempts (on_runner aid f d)) =
    map_option (\<lambda>r. if ar_id r = aid then r\<lparr>ar_runner := f (ar_runner r)\<rparr> else r) (find_row ar_id aid' (db_attempts d))"
    unfolding on_runner_def by (simp add: find_row_update_where ar_id_def)
  then show ?thesis by (auto simp: runner_of_def option.map_comp comp_def dest!: find_row_Some intro!: option.map_cong0 split: if_splits)
qed


lemma forget_call_fields: "rs_calls (forget_call c r) = drop_call c (rs_calls r)"
  "set (rs_applied (forget_call c r)) = set (rs_applied r) - {c}"
  "(forget_call c r)\<lparr>rs_calls := [], rs_applied := []\<rparr> = r\<lparr>rs_calls := [], rs_applied := []\<rparr>"
  by (auto simp: forget_call_def)

lemma forget_calls_runner:
  assumes "runner_of d aid = Some (Some r)"
  shows "\<exists>r'. runner_of (fold (\<lambda>c. on_runner aid (map_option (forget_call c))) cs d) aid = Some (Some r') \<and>
    map_of (rs_calls r') = map_of (fold (\<lambda>c. drop_call c) cs (rs_calls r)) \<and>
    set (rs_applied r') = set (rs_applied r) - set cs \<and>
    r'\<lparr>rs_calls := [], rs_applied := []\<rparr> = r\<lparr>rs_calls := [], rs_applied := []\<rparr>"
  using assms
proof (induction cs arbitrary: d r)
  case (Cons c cs)
  from Cons.prems have "runner_of (on_runner aid (map_option (forget_call c)) d) aid = Some (Some (forget_call c r))"
    by (simp add: runner_of_on_runner)
  from Cons.IH [OF this] show ?case unfolding forget_call_fields Diff_insert2 [symmetric] by simp
qed simp

lemma kept_runner_facts:
  "rs_calls (kept_runner tk r) = fold (\<lambda>c. drop_call c) (tk_delivered tk) (rs_calls r)"
  "(kept_runner tk r)\<lparr>rs_calls := []\<rparr> = r\<lparr>rs_calls := []\<rparr>"
proof -
  have "rs_calls (fold (\<lambda>c r. r\<lparr>rs_calls := drop_call c (rs_calls r)\<rparr>) cs r) = fold (\<lambda>c. drop_call c) cs (rs_calls r) \<and>
    (fold (\<lambda>c r. r\<lparr>rs_calls := drop_call c (rs_calls r)\<rparr>) cs r)\<lparr>rs_calls := []\<rparr> = r\<lparr>rs_calls := []\<rparr>" for cs
    by (induction cs arbitrary: r) simp_all
  then show "rs_calls (kept_runner tk r) = fold (\<lambda>c. drop_call c) (tk_delivered tk) (rs_calls r)"
    "(kept_runner tk r)\<lparr>rs_calls := []\<rparr> = r\<lparr>rs_calls := []\<rparr>" unfolding kept_runner_def by blast+
qed

lemma set_put_ids: "set (fold (\<lambda>c. put_row id c) cs xs) = set xs \<union> set cs"
proof -
  have "set (put_row id c ys) = insert c (set ys)" for c and ys :: "'a list"
    unfolding put_row_def by (induction ys) auto
  then show ?thesis by (induction cs arbitrary: xs) auto
qed

lemma save_runner_row:
  assumes "runner_of d aid = Some (Some stored)" and "map_of (rs_calls stored) = map_of (rs_calls runner0)"
    and "noted runner0 tk" and "rs_calls runner = rs_calls (tk_runner tk)"
  shows "\<exists>r'. runner_of (save_runner aid tk runner d) aid = Some (Some r') \<and>
    map_of (rs_calls r') = map_of (rs_calls (kept_runner tk runner)) \<and>
    set (rs_applied r') = (set (rs_applied stored) \<union> set (map fst (tk_appends tk))) - set (tk_delivered tk) \<and>
    r'\<lparr>rs_calls := [], rs_applied := []\<rparr> = (kept_runner tk runner)\<lparr>rs_calls := [], rs_applied := []\<rparr>"
proof -
  let ?r = "runner_write runner (first_seen tk) (map fst (tk_appends tk)) (Some stored)"
  have row: "runner_of (on_runner aid (\<lambda>r. Some (runner_write runner (first_seen tk) (map fst (tk_appends tk)) r)) d) aid = Some (Some ?r)"
    using assms(1) by (simp add: runner_of_on_runner)
  have "map_of (rs_calls ?r) = map_of (rs_calls runner)"
    using assms(2-4) map_of_set_calls [of "first_seen tk" "rs_calls stored"]
    by (simp add: runner_write_def noted_def)
  from map_of_drop_calls [OF this, of "tk_delivered tk"]
  have calls: "map_of (fold (\<lambda>c. drop_call c) (tk_delivered tk) (rs_calls ?r)) = map_of (rs_calls (kept_runner tk runner))"
    by (simp add: kept_runner_facts(1))
  have "?r\<lparr>rs_calls := [], rs_applied := []\<rparr> = (kept_runner tk runner)\<lparr>rs_calls := [], rs_applied := []\<rparr>"
    using arg_cong [OF kept_runner_facts(2) [of tk runner], of "\<lambda>r. r\<lparr>rs_applied := []\<rparr>"] by (simp add: runner_write_def)
  moreover have "set (rs_applied ?r) = set (rs_applied stored) \<union> set (map fst (tk_appends tk))"
    by (simp add: runner_write_def set_put_ids)
  ultimately show ?thesis
    using forget_calls_runner [OF row, of "tk_delivered tk"] calls
    by (simp add: save_runner_def Let_def first_seen_def)
qed


text \<open>Governing writes commands only, and ingestion keeps the attempt it is given.\<close>

lemma govern_event_tables:
  "govern_event env now sid tid aid e g = Inr g' \<Longrightarrow>
   db_attempts (gv_db g') = db_attempts (gv_db g) \<and> events_of s (gv_db g') = events_of s (gv_db g)"
  by (auto simp: govern_event_def enqueue_command_def Let_def events_of_def split: option.splits prod.splits if_splits)

lemma govern_events_tables:
  "govern_events env now sid tid aid es g = Inr g' \<Longrightarrow>
   db_attempts (gv_db g') = db_attempts (gv_db g) \<and> events_of s (gv_db g') = events_of s (gv_db g)"
  by (induction env now sid tid aid es g rule: govern_events.induct) (auto split: sum.splits dest: govern_event_tables)

lemma resume_refused_db: "resume_refused now d sid t g = (t', g') \<Longrightarrow> gv_db g' = gv_db g"
  by (auto simp: resume_refused_def Let_def split: if_splits)

lemma ingested_attempt:
  "a_id (ig_attempt (ingest_harness_events env now d sid agent t a th mk events)) = a_id a"
proof -
  from moves_steady [OF batch_moves [of env a events now d sid agent t th mk]]
  have "same_attempt a (ig_attempt (unread_batch env now d sid agent t a th mk events))"
    by (simp add: steady_def load_batch_def Let_def)
  from arg_cong [OF this [unfolded same_attempt_def], of a_id]
  show ?thesis by (simp add: ingest_unread read_steers_def)
qed

lemma told_runner_calls: "rs_calls (told_runner tk s) = rs_calls (tk_runner tk)"
  by (simp add: told_runner_def)

lemma settle_commands_attempts: "db_attempts (snd (settle_commands now tk d)) = db_attempts d"
  by (simp add: settle_commands_def Let_def mark_commands_def)

section \<open>What the row keeps is what the holder knows\<close>

text \<open>Property C30: the row stays the holder's memory. When a batch is recorded by a holder that knows
  exactly the calls its attempt's row keeps, the row afterwards keeps exactly the calls the holder
  then knows, at the batch's cursor and with every other field as in memory, so a machine that
  takes the turn over goes on from the same point; and every append stored with the batch is
  marked applied there until its result is delivered.\<close>

theorem row_matches_memory:
  assumes "apply_frames env now claimed tok agent t0 a0 th0 runner0 mk frames cursor w = Inr (out, w')"
    and "runner_of (fx_db w) (a_id a0) = Some (Some stored)" and "map_of (rs_calls stored) = map_of (rs_calls runner0)"
  shows "\<exists>stored'. runner_of (fx_db w') (a_id a0) = Some (Some stored') \<and> rs_cursor stored' = cursor \<and>
      map_of (rs_calls stored') = map_of (rs_calls (fa_runner out)) \<and>
      stored'\<lparr>rs_calls := [], rs_applied := []\<rparr> = (fa_runner out)\<lparr>rs_calls := [], rs_applied := []\<rparr> \<and>
      set (fa_appended out) \<subseteq> set (rs_applied stored') \<union> set (tk_delivered (take_frames (a_id a0) cursor runner0 frames))"
proof -
  let ?tk = "take_frames (a_id a0) cursor runner0 frames"
  obtain row out0 where rb: "record_batch env now (t_session_id t0) (t_id t0) (a_id a0) ?tk
      (ingest_frames env now agent row (t_session_id t0) a0 th0 mk frames (fx_db w)) w = Inr (out0, w')"
    and same: "out = out0\<lparr>fa_mask := fa_mask out\<rparr>"
    using assms(1) by (rule apply_framesE)
  define s where "s = ingest_frames env now agent row (t_session_id t0) a0 th0 mk frames (fx_db w)"
  have aid: "a_id (ig_attempt s) = a_id a0" by (simp add: s_def ingest_frames_def ingested_attempt)
  from rb [folded s_def] obtain g0 g evs d1 d2 where
    g0: "govern_events env now (t_session_id t0) (t_id t0) (a_id a0) (ig_out s)
      \<lparr>gv_events = [], gv_db = fx_db w, gv_denied = 0, gv_opened = []\<rparr> = Inr g0"
    and g: "resume_refused now (fx_db w) (t_session_id t0) (fst (snd (extra_events (fx_db w) (t_session_id t0) now s))) g0 = (fa_turn out0, g)"
    and a: "append_events now (t_session_id t0) None (gv_events g @ fst (extra_events (fx_db w) (t_session_id t0) now s)) (gv_db g) = Inr (evs, d1)"
    and st: "store_appends now (t_session_id t0) (p_id (ig_thread s)) (tk_appends ?tk) (d1, fx_entries w) = Inr (d2, fx_entries w')"
    and fin: "fx_db w' = save_runner (a_id (ig_attempt s)) ?tk (told_runner ?tk s) (snd (settle_commands now ?tk d2))"
      "fa_runner out0 = kept_runner ?tk (told_runner ?tk s)" "fa_appended out0 = map fst (tk_appends ?tk)"
    by (rule record_batchE)
  from assms(2) govern_events_tables [OF g0] resume_refused_db [OF g]
  have "runner_of (gv_db g) (a_id a0) = Some (Some stored)" by (simp add: runner_of_def)
  with append_engine_columns(1) [OF a] store_appends_columns [OF st]
  have "runner_of (snd (settle_commands now ?tk d2)) (a_id a0) = Some (Some stored)"
    by (auto simp: runner_of_def settle_commands_attempts)
  from save_runner_row [OF this, of "runner0\<lparr>rs_cursor := cursor\<rparr>" ?tk "told_runner ?tk s"] assms(3) noted_frames
  obtain r' where r': "runner_of (fx_db w') (a_id a0) = Some (Some r')"
    "map_of (rs_calls r') = map_of (rs_calls (fa_runner out0))"
    "set (rs_applied r') = (set (rs_applied stored) \<union> set (map fst (tk_appends ?tk))) - set (tk_delivered ?tk)"
    "r'\<lparr>rs_calls := [], rs_applied := []\<rparr> = (fa_runner out0)\<lparr>rs_calls := [], rs_applied := []\<rparr>"
    using fin aid by (auto simp: told_runner_calls)
  have "(fa_runner out0)\<lparr>rs_calls := []\<rparr> = (told_runner ?tk s)\<lparr>rs_calls := []\<rparr>" unfolding fin by (rule kept_runner_facts(2))
  from arg_cong [OF this, of rs_cursor] have "rs_cursor (fa_runner out0) = rs_cursor (tk_runner ?tk)" by (simp add: told_runner_def)
  moreover from noted_frames have
    "(tk_runner ?tk)\<lparr>rs_hello := None, rs_calls := []\<rparr> = (runner0\<lparr>rs_cursor := cursor\<rparr>)\<lparr>rs_hello := None, rs_calls := []\<rparr>"
    by (simp add: noted_def)
  from arg_cong [OF this, of rs_cursor] have "rs_cursor (tk_runner ?tk) = cursor" by simp
  moreover from arg_cong [OF r'(4), of rs_cursor] have "rs_cursor r' = rs_cursor (fa_runner out0)" by simp
  moreover have "fa_runner out = fa_runner out0" "fa_appended out = fa_appended out0" by (subst same, simp)+
  ultimately show ?thesis using r' fin(3) by auto
qed


section \<open>Calls are taken once\<close>

lemma frames_known:
  "fst ` set (rs_calls (tk_runner (fold (take_frame aid) frames s))) =
   fst ` set (rs_calls (tk_runner s)) \<union> {c. \<exists>f \<in> set frames. \<exists>call. fr_body f = CallFrame c call}"
proof (induction frames arbitrary: s)
  case (Cons f frames)
  have "fst ` set (rs_calls (tk_runner (take_frame aid f s))) =
      fst ` set (rs_calls (tk_runner s)) \<union> {c. \<exists>call. fr_body f = CallFrame c call}"
  proof (cases "fr_body f")
    case (CallFrame c call)
    have "fst ` set (rs_calls (tk_runner (take_call c call s))) = insert c (fst ` set (rs_calls (tk_runner s)))"
      unfolding set_eq_iff insert_iff call_known by blast
    with CallFrame show ?thesis by (simp add: take_frame_def)
  qed (simp_all add: take_frame_def ack_frame)
  with Cons.IH [of "take_frame aid f s"] show ?case by auto
qed simp

lemma frames_nothing_new:
  assumes "\<forall>f \<in> set frames. \<forall>c call. fr_body f = CallFrame c call \<longrightarrow> c \<in> fst ` set (rs_calls runner)"
  shows "tk_calls (take_frames aid cursor runner frames) = []" and "tk_appends (take_frames aid cursor runner frames) = []"
proof -
  have step: "first_seen (take_frame aid f s) = first_seen s \<and>
      fst ` set (rs_calls (tk_runner (take_frame aid f s))) = fst ` set (rs_calls (tk_runner s))"
    if "\<forall>c call. fr_body f = CallFrame c call \<longrightarrow> c \<in> fst ` set (rs_calls (tk_runner s))" for f s
    using that by (cases "fr_body f") (auto simp: take_frame_def take_call_def Let_def ack_frame first_seen_def)
  have "first_seen (fold (take_frame aid) frames s) = first_seen s"
    if "\<forall>f \<in> set frames. \<forall>c call. fr_body f = CallFrame c call \<longrightarrow> c \<in> fst ` set (rs_calls (tk_runner s))" for s
    using that
  proof (induction frames arbitrary: s)
    case (Cons f frames)
    then have f: "\<forall>c call. fr_body f = CallFrame c call \<longrightarrow> c \<in> fst ` set (rs_calls (tk_runner s))" by simp
    with Cons.IH [of "take_frame aid f s"] Cons.prems step [OF f] show ?case by simp
  qed simp
  with assms have "first_seen (take_frames aid cursor runner frames) = []"
    unfolding take_frames_def by (simp add: first_seen_def)
  then show "tk_calls (take_frames aid cursor runner frames) = []" "tk_appends (take_frames aid cursor runner frames) = []"
    by (simp_all add: first_seen_def)
qed

lemma applied_runner_calls:
  assumes "apply_frames env now claimed tok agent t0 a0 th0 runner0 mk frames cursor w = Inr (out, w1)"
  shows "map_of (rs_calls (fa_runner out)) = map_of (fold (\<lambda>c. drop_call c)
    (tk_delivered (take_frames (a_id a0) cursor runner0 frames)) (rs_calls (tk_runner (take_frames (a_id a0) cursor runner0 frames))))"
proof -
  let ?tk = "take_frames (a_id a0) cursor runner0 frames"
  obtain row out0 where rb: "record_batch env now (t_session_id t0) (t_id t0) (a_id a0) ?tk
      (ingest_frames env now agent row (t_session_id t0) a0 th0 mk frames (fx_db w)) w = Inr (out0, w1)"
    and same: "out = out0\<lparr>fa_mask := fa_mask out\<rparr>"
    using assms by (rule apply_framesE)
  from rb have "rs_calls (fa_runner out0) = fold (\<lambda>c. drop_call c) (tk_delivered ?tk) (rs_calls (tk_runner ?tk))"
    by (rule record_batchE) (simp add: kept_runner_facts(1) told_runner_calls)
  with arg_cong [OF same, of fa_runner] show ?thesis by simp
qed

lemma dropped_keys: "fst ` set (fold (\<lambda>c. drop_call c) cs calls) = fst ` set calls - set cs"
proof (induction cs arbitrary: calls)
  case (Cons c cs)
  have "fst ` set (drop_call c calls) = fst ` set calls - {c}" by (auto simp: drop_call_def)
  with Cons show ?case by auto
qed simp

text \<open>A call is taken once, however often its frame is read. After a batch is recorded, a
  batch that repeats its calls (a machine that took over reads from an older cursor) takes up no
  host call and stores no native state a second time, whatever else happened between: only calls
  whose result the runner has acknowledged are forgotten.\<close>

theorem frames_taken_once:
  assumes "apply_frames env now claimed tok agent t0 a0 th0 runner0 mk frames cursor w = Inr (out, w1)"
    and "map_of (rs_calls runner1) = map_of (rs_calls (fa_runner out))"
    and "\<forall>f \<in> set frames1. \<forall>c call. fr_body f = CallFrame c call \<longrightarrow>
           (\<exists>g \<in> set frames. \<exists>call0. fr_body g = CallFrame c call0) \<and>
           c \<notin> set (tk_delivered (take_frames (a_id a0) cursor runner0 frames))"
    and "apply_frames env1 now1 claimed1 tok1 agent1 t1 a1 th1 runner1 mk1 frames1 cursor1 w2 = Inr (out1, w3)"
  shows "fx_entries w3 = fx_entries w2 \<and> fa_calls out1 = [] \<and> fa_appended out1 = []"
proof -
  let ?tk = "take_frames (a_id a0) cursor runner0 frames" and ?tk1 = "take_frames (a_id a1) cursor1 runner1 frames1"
  have "map_of (rs_calls (fa_runner out)) = map_of (fold (\<lambda>c. drop_call c) (tk_delivered ?tk) (rs_calls (tk_runner ?tk)))"
    by (rule applied_runner_calls [OF assms(1)])
  then have "c \<in> fst ` set (rs_calls runner1)" if "c \<in> fst ` set (rs_calls (tk_runner ?tk))" "c \<notin> set (tk_delivered ?tk)" for c
    using that assms(2) dropped_keys [of "tk_delivered ?tk" "rs_calls (tk_runner ?tk)"] by (simp add: keys_map_of)
  moreover have "c \<in> fst ` set (rs_calls (tk_runner ?tk))" if "g \<in> set frames" "fr_body g = CallFrame c call0" for g c call0
    using that unfolding take_frames_def frames_known by blast
  ultimately have "\<forall>f \<in> set frames1. \<forall>c call. fr_body f = CallFrame c call \<longrightarrow> c \<in> fst ` set (rs_calls runner1)"
    using assms(3) by meson
  note none = frames_nothing_new [OF this, of "a_id a1" cursor1]
  from assms(4) obtain row out0 where rb: "record_batch env1 now1 (t_session_id t1) (t_id t1) (a_id a1) ?tk1
      (ingest_frames env1 now1 agent1 row (t_session_id t1) a1 th1 mk1 frames1 (fx_db w2)) w2 = Inr (out0, w3)"
    and same: "out1 = out0\<lparr>fa_mask := fa_mask out1\<rparr>"
    by (rule apply_framesE)
  from rb have "fx_entries w3 = fx_entries w2 \<and> fa_calls out0 = [] \<and> fa_appended out0 = []"
    by (rule record_batchE) (simp add: none)
  with arg_cong [OF same, of fa_calls] arg_cong [OF same, of fa_appended] show ?thesis by simp
qed


section \<open>Approvals open governed\<close>

text \<open>An event that leaves no approval pending without an end.\<close>

definition expiring :: "session_event \<Rightarrow> bool" where
  "expiring e \<longleftrightarrow>
     (case e of
        RequestChanged r \<Rightarrow> r_kind r = KApproval \<and> r_status r = RPending \<longrightarrow> r_expires_at r \<noteq> None
      | _ \<Rightarrow> True)"

lemma govern_event_expiring:
  assumes "govern_event env now sid tid aid e g = Inr g'"
  shows "\<exists>e'. gv_events g' = gv_events g @ [e'] \<and> expiring e'"
proof (cases "opens_approval e")
  case None
  then have "expiring e" by (auto simp: opens_approval_def expiring_def split: session_event.splits if_splits)
  with None assms show ?thesis by (auto simp: govern_event_def)
next
  case (Some r)
  have "expiring (RequestChanged (fst (govern_approval now p r)))" for p
    by (simp add: expiring_def govern_approval_def)
  with Some assms show ?thesis
    by (auto simp: govern_event_def Let_def split: option.splits prod.splits if_splits)
qed

lemma govern_events_expiring:
  "govern_events env now sid tid aid es g = Inr g' \<Longrightarrow> \<forall>e \<in> set (gv_events g). expiring e \<Longrightarrow>
   \<forall>e \<in> set (gv_events g'). expiring e"
proof (induction env now sid tid aid es g rule: govern_events.induct)
  case (2 env now sid tid aid e es g)
  from 2(2) obtain g1 where g1: "govern_event env now sid tid aid e g = Inr g1"
    "govern_events env now sid tid aid es g1 = Inr g'" by (auto split: sum.splits)
  from govern_event_expiring [OF g1(1)] 2(3) have "\<forall>e \<in> set (gv_events g1). expiring e" by auto
  with 2(1) [OF g1] show ?case .
qed simp

text \<open>The denial of an approval nobody can give is queued for the runner that asked.\<close>

definition denial_queued :: "ident \<Rightarrow> ident \<Rightarrow> ident \<Rightarrow> string \<Rightarrow> db \<Rightarrow> bool" where
  "denial_queued tid aid key reason d \<longleftrightarrow>
     (\<exists>c \<in> set (db_commands d). tc_kind c = CRespond \<and> tc_turn_id c = tid \<and> tc_attempt_id c = Some aid \<and>
        tc_payload c = denial key reason)"

lemma govern_event_commands:
  "govern_event env now sid tid aid e g = Inr g' \<Longrightarrow> set (db_commands (gv_db g)) \<subseteq> set (db_commands (gv_db g'))"
  by (auto simp: govern_event_def enqueue_command_def Let_def split: option.splits prod.splits if_splits)

lemma govern_events_commands:
  "govern_events env now sid tid aid es g = Inr g' \<Longrightarrow> set (db_commands (gv_db g)) \<subseteq> set (db_commands (gv_db g'))"
  by (induction env now sid tid aid es g rule: govern_events.induct) (auto split: sum.splits dest: govern_event_commands)

lemma refusal_text_says: "refusal_text r \<noteq> []"
  by (simp add: refusal_text_def)

lemma govern_events_denial:
  assumes "govern_events env now sid tid aid es g = Inr g'" and "RequestChanged r \<in> set es"
    and "opens_approval (RequestChanged r) \<noteq> None" and "fe_policy env sid = Some (members, src)"
    and "ap_unattended (approval_policy members src)" and "ap_approvers (approval_policy members src) = []"
    and "r_runner_key r = Some key" and "key \<noteq> []"
  shows "denial_queued tid aid key (refusal_text r) (gv_db g')"
  using assms(1,2)
proof (induction es arbitrary: g)
  case (Cons e es)
  from Cons.prems obtain g1 where g1: "govern_event env now sid tid aid e g = Inr g1"
    "govern_events env now sid tid aid es g1 = Inr g'" by (auto split: sum.splits)
  show ?case
  proof (cases "RequestChanged r \<in> set es")
    case True
    with Cons.IH [OF g1(2)] show ?thesis .
  next
    case False
    with Cons.prems(2) have e: "e = RequestChanged r" by simp
    from assms(3) have o1: "opens_approval e = Some r"
      unfolding e by (auto simp: opens_approval_def split: if_splits)
    have "denial_queued tid aid key (refusal_text r) (gv_db g1)"
      using g1(1) o1 assms(4-8) refusal_text_says [of r]
      by (auto simp: govern_event_def Let_def govern_approval_def denies_def enqueue_command_def denial_queued_def)
    with govern_events_commands [OF g1(2)] show ?thesis by (auto simp: denial_queued_def)
  qed
qed simp

text \<open>What the log gains of requests is what was appended.\<close>

lemma place_requests: "RequestChanged r \<in> set (place n ps es) \<longleftrightarrow> RequestChanged r \<in> set es"
  by (induction n ps es rule: place.induct) (auto split: session_event.splits option.splits)

lemma current_turn_request: "RequestChanged r \<in> set (current_turn d sid e) \<Longrightarrow> e = RequestChanged r"
  by (cases e) (auto simp: current_turn_def split: option.splits if_splits)

lemma append_requests:
  assumes "append_events now sid cmd events d = Inr (stored, d')" and "e \<in> set (events_of s d')" and "e \<notin> set (events_of s d)"
    and "se_event e = RequestChanged r"
  shows "RequestChanged r \<in> set events"
proof (rule append_events_cases [OF assms(1)])
  assume "append_locked now sid cmd (current_turns d sid events) d = Inr (stored, d')"
  note eff = append_locked_effect [OF this]
  from assms(2,3) eff(1) have "e \<in> set stored" by (auto split: if_splits)
  with eff(5) stamp_events_in [of e] assms(4) place_requests
  have "RequestChanged r \<in> set (current_turns d sid events)" by metis
  then show ?thesis by (auto simp: current_turns_def dest: current_turn_request)
qed (use assms in auto)

lemma store_appends_requests:
  assumes "store_appends now sid th appends (d, rows) = Inr (d', rows')" and "e \<in> set (events_of s d')"
    and "e \<notin> set (events_of s d)"
  shows "se_event e \<noteq> RequestChanged r"
  using assms
proof (induction now sid th appends "(d, rows)" arbitrary: d rows rule: store_appends.induct)
  case (2 now sid th cid sub entries later d rows)
  obtain turned rows1 threads1 where n: "native_append now th sub entries (rows, db_threads d) = (turned, rows1, threads1)"
    by (metis prod_cases3)
  have frame: "events_of s (d\<lparr>db_threads := threads1\<rparr>) = events_of s d" by (simp add: events_of_def)
  show ?case
  proof (cases turned)
    case None
    with 2(3) n have "store_appends now sid th later (d\<lparr>db_threads := threads1\<rparr>, rows1) = Inr (d', rows')" by simp
    from 2(1) [OF n [symmetric] refl None this 2(4)] 2(5) frame show ?thesis by simp
  next
    case (Some p)
    with 2(3) n obtain stored d1 where a: "append_events now sid None [ProviderThreadChanged (provider_thread_from_row p)]
        (d\<lparr>db_threads := threads1\<rparr>) = Inr (stored, d1)" and rest: "store_appends now sid th later (d1, rows1) = Inr (d', rows')"
      by (auto split: sum.splits)
    show ?thesis
    proof (cases "e \<in> set (events_of s d1)")
      case True
      with append_requests [OF a True] 2(5) frame show ?thesis by auto
    next
      case False
      from 2(2) [OF n [symmetric] refl Some a refl rest 2(4) False] show ?thesis .
    qed
  qed
qed simp

lemma on_runner_tables: "db_commands (on_runner aid f d) = db_commands d" "db_events (on_runner aid f d) = db_events d"
  by (simp_all add: on_runner_def)

lemma save_runner_tables: "db_commands (save_runner aid tk r d) = db_commands d" "db_events (save_runner aid tk r d) = db_events d"
proof -
  have "db_commands (fold (\<lambda>c. on_runner aid (map_option (forget_call c))) cs d) = db_commands d \<and>
    db_events (fold (\<lambda>c. on_runner aid (map_option (forget_call c))) cs d) = db_events d" for cs d
    by (induction cs arbitrary: d) (simp_all add: on_runner_tables)
  then show "db_commands (save_runner aid tk r d) = db_commands d" "db_events (save_runner aid tk r d) = db_events d"
    by (simp_all add: save_runner_def Let_def on_runner_tables)
qed

lemma denial_queued_view:
  "denial_queued tid aid key reason d \<longleftrightarrow>
   (CRespond, tid, Some aid, denial key reason) \<in>
     set (map (\<lambda>c. (tc_kind c, tc_turn_id c, tc_attempt_id c, tc_payload c)) (db_commands d))"
  unfolding denial_queued_def set_map image_iff prod.inject by metis

lemma settle_commands_tables:
  "db_events (snd (settle_commands now tk d)) = db_events d"
  "denial_queued tid aid key reason (snd (settle_commands now tk d)) = denial_queued tid aid key reason d"
proof -
  have "map (\<lambda>c. (tc_kind c, tc_turn_id c, tc_attempt_id c, tc_payload c)) (db_commands (mark_commands now ids st d)) =
      map (\<lambda>c. (tc_kind c, tc_turn_id c, tc_attempt_id c, tc_payload c)) (db_commands d)" for ids st
    by (simp add: mark_commands_def map_update_where)
  then show "denial_queued tid aid key reason (snd (settle_commands now tk d)) = denial_queued tid aid key reason d"
    unfolding denial_queued_view by (simp add: settle_commands_def Let_def)
qed (simp add: settle_commands_def Let_def mark_commands_def)

text \<open>Every approval of a batch opens governed. Recording a batch logs no approval that is
  left pending without a time it ends at; and when the chat's policy names nobody who could
  answer, each approval the batch opens is denied to the runner that asked, in the same
  transaction.\<close>

theorem approvals_open_governed:
  assumes "apply_frames env now claimed tok agent t0 a0 th0 runner0 mk frames cursor w = Inr (out, w')"
    and "find_row tr_id (t_id t0) (db_turns (fx_db w)) = Some row"
    and "fe_policy env (t_session_id t0) = Some (members, src)"
  shows "(\<forall>e \<in> set (events_of (t_session_id t0) (fx_db w')). e \<in> set (events_of (t_session_id t0) (fx_db w)) \<or> expiring (se_event e)) \<and>
    (\<forall>r key. ap_unattended (approval_policy members src) \<and> ap_approvers (approval_policy members src) = [] \<and>
       RequestChanged r \<in> set (ig_out (ingest_frames env now agent row (t_session_id t0) a0 th0 mk frames (fx_db w))) \<and>
       opens_approval (RequestChanged r) \<noteq> None \<and> r_runner_key r = Some key \<and> key \<noteq> [] \<longrightarrow>
       denial_queued (t_id t0) (a_id a0) key (refusal_text r) (fx_db w'))"
proof -
  let ?tk = "take_frames (a_id a0) cursor runner0 frames" and ?sid = "t_session_id t0"
  define s where "s = ingest_frames env now agent row ?sid a0 th0 mk frames (fx_db w)"
  obtain row1 out0 where "find_row tr_id (t_id t0) (db_turns (fx_db w)) = Some row1"
    and rb: "record_batch env now ?sid (t_id t0) (a_id a0) ?tk
      (ingest_frames env now agent row1 ?sid a0 th0 mk frames (fx_db w)) w = Inr (out0, w')"
    using assms(1) by (rule apply_framesE)
  with assms(2) have rb: "record_batch env now ?sid (t_id t0) (a_id a0) ?tk s w = Inr (out0, w')" by (simp add: s_def)
  obtain g0 g evs d1 d2 where
    g0: "govern_events env now ?sid (t_id t0) (a_id a0) (ig_out s)
      \<lparr>gv_events = [], gv_db = fx_db w, gv_denied = 0, gv_opened = []\<rparr> = Inr g0"
    and g: "resume_refused now (fx_db w) ?sid (fst (snd (extra_events (fx_db w) ?sid now s))) g0 = (fa_turn out0, g)"
    and a: "append_events now ?sid None (gv_events g @ fst (extra_events (fx_db w) ?sid now s)) (gv_db g) = Inr (evs, d1)"
    and st: "store_appends now ?sid (p_id (ig_thread s)) (tk_appends ?tk) (d1, fx_entries w) = Inr (d2, fx_entries w')"
    and fin: "fx_db w' = save_runner (a_id (ig_attempt s)) ?tk (told_runner ?tk s) (snd (settle_commands now ?tk d2))"
    using rb by (rule record_batchE)
  have events: "events_of ?sid (fx_db w') = events_of ?sid d2"
    by (simp add: fin events_of_def save_runner_tables settle_commands_tables)
  have logged: "expiring e" if "e \<in> set (gv_events g @ fst (extra_events (fx_db w) ?sid now s))" for e
  proof -
    have "\<forall>e \<in> set (gv_events g0). expiring e" by (rule govern_events_expiring [OF g0]) simp
    then have "\<forall>e \<in> set (gv_events g). expiring e"
      using g by (auto simp: resume_refused_def Let_def expiring_def split: if_splits)
    moreover have "\<forall>e \<in> set (fst (extra_events (fx_db w) ?sid now s)). expiring e"
      by (auto simp: extra_events_def Let_def expiring_def split: option.splits)
    ultimately show ?thesis using that by auto
  qed
  have "expiring (se_event e)" if e: "e \<in> set (events_of ?sid (fx_db w'))" "e \<notin> set (events_of ?sid (fx_db w))" for e
  proof (cases "se_event e")
    case (RequestChanged r)
    have "e \<in> set (events_of ?sid d1)" using e(1) store_appends_requests [OF st, of e ?sid r] RequestChanged events by auto
    moreover have "e \<notin> set (events_of ?sid (gv_db g))"
      using e(2) govern_events_tables [OF g0] resume_refused_db [OF g] by simp
    ultimately show ?thesis using append_requests [OF a, of e ?sid r] RequestChanged logged by simp
  qed (simp_all add: expiring_def)
  moreover have "denial_queued (t_id t0) (a_id a0) key (refusal_text r) (fx_db w')"
    if "ap_unattended (approval_policy members src)" "ap_approvers (approval_policy members src) = []"
      "RequestChanged r \<in> set (ig_out s)" "opens_approval (RequestChanged r) \<noteq> None" "r_runner_key r = Some key" "key \<noteq> []" for r key
  proof -
    from govern_events_denial [OF g0 that(3,4) assms(3) that(1,2,5,6)]
    have "denial_queued (t_id t0) (a_id a0) key (refusal_text r) (gv_db g)" by (simp add: resume_refused_db [OF g])
    with append_engine_columns(2) [OF a] store_appends_columns [OF st]
    have "denial_queued (t_id t0) (a_id a0) key (refusal_text r) d2" by (simp add: denial_queued_def)
    then have "denial_queued (t_id t0) (a_id a0) key (refusal_text r) (snd (settle_commands now ?tk d2))"
      by (simp add: settle_commands_tables)
    then show ?thesis by (simp add: fin denial_queued_def save_runner_tables)
  qed
  ultimately show ?thesis unfolding s_def by blast
qed

section \<open>Only the holder records\<close>

text \<open>A replaced holder records nothing. Once a claim has recovered a turn, a batch that the
  holder before it applies under its own token is refused for the lost lease, whatever hand backs
  and renewals came between, so no frame is recorded by two holders.\<close>

theorem replaced_holder_records_nothing:
  assumes "claim now worker sid local tok d = Inr (Some c, d')" and "turn_constraints (db_turns d)"
    and "old \<noteq> tok" and "tid = t_id (cl_turn c)" and "fx_db w = leases.acts as d'"
  shows "apply_frames env now' tid old agent t0 a0 th0 runner0 mk frames cursor w = Inl (LeaseLost tid)"
  using superseded_owns_nothing [OF claim_gives_token [OF assms(1,2,4)] assms(3)]
  by (simp add: apply_frames_def assms(5))


section \<open>Witnesses\<close>

definition ex_runner :: runner_state where
  "ex_runner = \<lparr>rs_location = InProcess ''pr'' ''ru'', rs_cursor = 0, rs_hello = None, rs_calls = [], rs_applied = [],
     rs_owner_only = False, rs_owner_only_because = None, rs_restart_with = [], rs_ended = False, rs_consumed = [],
     rs_started = False, rs_interrupt_sent_at = None\<rparr>"

definition ex_frames_env :: frames_env where
  "ex_frames_env = \<lparr>fe_ingest = ex_env, fe_policy = (\<lambda>_. Some ([], ex_policy_source)), fe_command_id = (\<lambda>_. ''c'')\<rparr>"

definition ex_frames_db :: frames_db where
  "ex_frames_db = \<lparr>fx_db = (ex_running_db [(ex_turn_row ''t'' 1 Running)\<lparr>tr_lease_token := Some ''tok'', tr_lease_expires_at := Some 100\<rparr>])
       \<lparr>db_attempts := [\<lparr>ar_attempt = ex_attempt, ar_runner = Some ex_runner, ar_provider_started_at = None\<rparr>]\<rparr>,
     fx_entries = [], fx_paths = (\<lambda>_. None)\<rparr>"

definition ex_approval_draft :: request_draft where
  "ex_approval_draft = ex_question\<lparr>rd_kind := KApproval\<rparr>"

definition ex_usage :: agent_turn_usage where
  "ex_usage = \<lparr>u_model = None, u_input_tokens = Some 1, u_cached_input_tokens = None, u_cache_creation_tokens = None,
     u_output_tokens = None, u_reasoning_tokens = None, u_cost_usd = None, u_context_tokens = None, u_context_window = None\<rparr>"

lemmas frames_eval = apply_frames_def record_batch_def ingest_frames_def frame_events_def begin_mask_def take_frames_def
  take_frame_def take_call_def set_call_def told_runner_def kept_runner_def save_runner_def on_runner_def runner_write_def
  settle_commands_def from_people_def mark_commands_def save_path_def extra_events_def with_usage_def
  resume_refused_def changed_requests_def govern_event_def opens_approval_def denies_def enqueue_command_def
  owns_def after_now_def ex_frames_db_def ex_frames_env_def ex_running_db_def turn_from_row_def checkpoint_from_row_def

lemmas ingest_eval = ingest_harness_events_def load_batch_def ingest_event_def flush_delta_def open_request_def
  opened_request_def masked_def emit_def emit_turn_def named_item_def named_request_def put_row_def resume_turn_def
  live_line_def read_steers_def new_item_def waits_elsewhere_def still_waiting_def

lemma ex_policy_nobody: "ap_unattended (approval_policy [] ex_policy_source)" "ap_approvers (approval_policy [] ex_policy_source) = []"
  by (simp_all add: approval_policy_def ex_policy_source_def Let_def is_project_principal_def
      parse_approvers_def optional_strings_def listed_def holds_role_def)

text \<open>The usage of a batch undoes its refusals. When a batch opens an approval nobody can give
  and reports usage, the turn's write with its usage, made before the refusal let the turn work on,
  is logged after it: memory has the turn running, while its row waits with no request pending.\<close>

theorem usage_leaves_turn_waiting:
  "\<exists>out w'. apply_frames ex_frames_env 5 ''t'' ''tok'' None (ex_turn ''t'' 1 Running) ex_attempt ex_thread ex_runner None
       [\<lparr>fr_seq = 1, fr_body = EventFrame (RequestOpened ''q'' ex_approval_draft)\<rparr>, \<lparr>fr_seq = 2, fr_body = EventFrame (UsageEvent ex_usage)\<rparr>]
       2 ex_frames_db = Inr (out, w') \<and>
     t_status (fa_turn out) = Running \<and> map tr_status (db_turns (fx_db w')) = [Waiting] \<and>
     map rr_status (db_requests (fx_db w')) = [RCancelled]"
  by (simp add: frames_eval ingest_eval log_eval govern_approval_def ex_policy_nobody refusal_text_says ex_approval_draft_def ex_question_def
      ex_attempt_def ex_thread_def new_request_row_def)


definition ex_calls :: "runner_frame list" where
  "ex_calls = [\<lparr>fr_seq = 1, fr_body = CallFrame ''c1'' (NativeAppend None None [JStr ''x''])\<rparr>,
     \<lparr>fr_seq = 2, fr_body = CallFrame ''c2'' (NativeLoad None None)\<rparr>]"

lemmas frames_run = frames_eval ingest_eval log_eval ex_calls_def ex_attempt_def ex_thread_def ex_runner_def govern_event_def
  native_append_def append_batches.simps insert_entry_def last_seq_def entries_at_def conflicts_def entry_uuid_def APPEND_BATCH_def
  runner_of_def

lemma ex_first_run:
  "\<exists>out w1. apply_frames ex_frames_env 5 ''t'' ''tok'' None (ex_turn ''t'' 1 Running) ex_attempt ex_thread ex_runner None
       ex_calls 2 ex_frames_db = Inr (out, w1) \<and> length (fx_entries w1) = 1 \<and> map fst (fa_calls out) = [''c2''] \<and>
     (\<exists>out1 w3. apply_frames ex_frames_env 6 ''t'' ''tok'' None (ex_turn ''t'' 1 Running) ex_attempt ex_thread (fa_runner out) None
       ex_calls 2 w1 = Inr (out1, w3))"
  by (simp add: frames_run)

theorem row_matches_memory_witness:
  "\<exists>out w1 stored. apply_frames ex_frames_env 5 ''t'' ''tok'' None (ex_turn ''t'' 1 Running) ex_attempt ex_thread ex_runner None
       ex_calls 2 ex_frames_db = Inr (out, w1) \<and> length (fx_entries w1) = 1 \<and>
     runner_of (fx_db w1) ''a'' = Some (Some stored) \<and> rs_cursor stored = 2 \<and>
     map_of (rs_calls stored) = map_of (rs_calls (fa_runner out))"
proof -
  obtain out w1 where run: "apply_frames ex_frames_env 5 ''t'' ''tok'' None (ex_turn ''t'' 1 Running) ex_attempt ex_thread ex_runner
      None ex_calls 2 ex_frames_db = Inr (out, w1)" "length (fx_entries w1) = 1" using ex_first_run by blast
  have "runner_of (fx_db ex_frames_db) (a_id ex_attempt) = Some (Some ex_runner)"
    by (simp add: ex_frames_db_def runner_of_def ar_id_def)
  from row_matches_memory [OF run(1) this refl] run show ?thesis by (auto simp: ex_attempt_def)
qed

theorem frames_taken_once_witness:
  "\<exists>out w1 out1 w3. apply_frames ex_frames_env 5 ''t'' ''tok'' None (ex_turn ''t'' 1 Running) ex_attempt ex_thread ex_runner None
       ex_calls 2 ex_frames_db = Inr (out, w1) \<and> length (fx_entries w1) = 1 \<and> map fst (fa_calls out) = [''c2''] \<and>
     apply_frames ex_frames_env 6 ''t'' ''tok'' None (ex_turn ''t'' 1 Running) ex_attempt ex_thread (fa_runner out) None
       ex_calls 2 w1 = Inr (out1, w3) \<and> fx_entries w3 = fx_entries w1 \<and> fa_calls out1 = []"
proof -
  obtain out w1 out1 w3 where run: "apply_frames ex_frames_env 5 ''t'' ''tok'' None (ex_turn ''t'' 1 Running) ex_attempt ex_thread
      ex_runner None ex_calls 2 ex_frames_db = Inr (out, w1)" "length (fx_entries w1) = 1" "map fst (fa_calls out) = [''c2'']"
    and again: "apply_frames ex_frames_env 6 ''t'' ''tok'' None (ex_turn ''t'' 1 Running) ex_attempt ex_thread (fa_runner out) None
       ex_calls 2 w1 = Inr (out1, w3)" using ex_first_run by (elim exE conjE) (erule (3) that)
  have "tk_delivered (take_frames (a_id ex_attempt) 2 ex_runner ex_calls) = []"
    by (simp add: take_frames_def ex_calls_def take_frame_def take_call_def Let_def ex_runner_def)
  then have "\<forall>f \<in> set ex_calls. \<forall>c call. fr_body f = CallFrame c call \<longrightarrow>
      (\<exists>g \<in> set ex_calls. \<exists>call0. fr_body g = CallFrame c call0) \<and>
      c \<notin> set (tk_delivered (take_frames (a_id ex_attempt) 2 ex_runner ex_calls))" by auto
  from frames_taken_once [OF run(1) refl this again] run again show ?thesis
    by (intro exI [of _ out] exI [of _ w1] exI [of _ out1] exI [of _ w3] conjI) simp_all
qed

theorem approvals_open_governed_witness:
  "\<exists>out w' reason. apply_frames ex_frames_env 5 ''t'' ''tok'' None (ex_turn ''t'' 1 Running) ex_attempt ex_thread ex_runner None
       [\<lparr>fr_seq = 1, fr_body = EventFrame (RequestOpened ''q'' ex_approval_draft)\<rparr>] 1 ex_frames_db = Inr (out, w') \<and>
     denial_queued ''t'' ''a'' ''q'' reason (fx_db w')"
proof -
  let ?row = "(ex_turn_row ''t'' 1 Running)\<lparr>tr_lease_token := Some ''tok'', tr_lease_expires_at := Some 100\<rparr>"
  let ?frames = "[\<lparr>fr_seq = 1, fr_body = EventFrame (RequestOpened ''q'' ex_approval_draft)\<rparr>]"
  obtain out w' where run: "apply_frames ex_frames_env 5 ''t'' ''tok'' None (ex_turn ''t'' 1 Running) ex_attempt ex_thread ex_runner
      None ?frames 1 ex_frames_db = Inr (out, w')"
    by (simp add: frames_eval ingest_eval log_eval govern_approval_def ex_policy_nobody refusal_text_says ex_approval_draft_def
        ex_question_def ex_attempt_def ex_thread_def)
  have row: "find_row tr_id (t_id (ex_turn ''t'' 1 Running)) (db_turns (fx_db ex_frames_db)) = Some ?row"
    by (simp add: ex_frames_db_def ex_running_db_def fixtures)
  have policy: "fe_policy ex_frames_env (t_session_id (ex_turn ''t'' 1 Running)) = Some ([], ex_policy_source)"
    by (simp add: ex_frames_env_def)
  let ?out = "ig_out (ingest_frames ex_frames_env 5 None ?row (t_session_id (ex_turn ''t'' 1 Running)) ex_attempt ex_thread None
      ?frames (fx_db ex_frames_db))"
  have "list_ex (\<lambda>e. case e of RequestChanged r \<Rightarrow> opens_approval e \<noteq> None \<and> r_runner_key r = Some ''q'' | _ \<Rightarrow> False) ?out"
    by (simp add: frames_eval ingest_eval fixtures ex_approval_draft_def ex_question_def ex_attempt_def ex_thread_def Let_def)
  then obtain e where e: "e \<in> set ?out" "case e of RequestChanged r \<Rightarrow> opens_approval e \<noteq> None \<and> r_runner_key r = Some ''q'' | _ \<Rightarrow> False"
    unfolding list_ex_iff by blast
  then obtain r where r: "RequestChanged r \<in> set ?out" "opens_approval (RequestChanged r) \<noteq> None" "r_runner_key r = Some ''q''"
    by - (cases e rule: session_event.exhaust, simp_all)
  from conjunct2 [OF approvals_open_governed [OF run row policy]] r ex_policy_nobody
  have "denial_queued (t_id (ex_turn ''t'' 1 Running)) (a_id ex_attempt) ''q'' (refusal_text r) (fx_db w')" by blast
  with run show ?thesis by (auto simp: ex_attempt_def ex_turn_def)
qed

theorem replaced_holder_records_nothing_witness:
  "\<exists>c d'. claim 5 ''w'' ''s'' None ''tok'' ex_queue = Inr (Some c, d') \<and>
     apply_frames ex_frames_env 6 (t_id (cl_turn c)) ''old'' None (ex_turn ''t'' 1 Running) ex_attempt ex_thread ex_runner None [] 1
       (ex_frames_db\<lparr>fx_db := leases.acts [] d'\<rparr>) = Inl (LeaseLost (t_id (cl_turn c)))"
proof -
  obtain c d' where run: "claim 5 ''w'' ''s'' None ''tok'' ex_queue = Inr (Some c, d')" using ex_queue_claim by blast
  have old: "''old'' \<noteq> ''tok''" by simp
  have w: "fx_db (ex_frames_db\<lparr>fx_db := leases.acts [] d'\<rparr>) = leases.acts [] d'" by simp
  from replaced_holder_records_nothing [OF run ex_queue_ok(1) old refl w] run show ?thesis by blast
qed

end
