(* ===== verification/Turn_Settle.thy ===== *)
theory Turn_Settle
  imports Turn_Frames
begin

text \<open>
  How a turn ends (the settling half of \<open>packages/core/src/services/sessions/turn-engine.ts\<close>): what
  the attempt left open is closed, the turn settles or queues again after a passing failure,
  messages steered into it that no attempt took in become turns of their own, a lost runner's turn
  may be continued once, and the lease is released, all in one transaction of the holder. The host's
  answers (who owns the chat, how its agent recovers) and \<open>Math.random()\<close> are parameters.
\<close>

section \<open>Retries\<close>

definition BACKOFF_MS :: "int list" where
  "BACKOFF_MS = [5000, 15000, 30000, 60000, 120000]"

definition HOST_RETRY_MAX_MS :: rat where "HOST_RETRY_MAX_MS = 60000"
definition MAX_TRANSIENT_RETRIES :: nat where "MAX_TRANSIENT_RETRIES = 5"

definition host_retry_delay :: "js_number \<Rightarrow> rat" where
  "host_retry_delay after =
     (case after of
        NotANumber \<Rightarrow> 0
      | Infinite negative \<Rightarrow> if negative then 0 else HOST_RETRY_MAX_MS
      | Finite ms \<Rightarrow> min HOST_RETRY_MAX_MS (max 0 ms))"

text \<open>\<open>BACKOFF_MS[Math.min(attemptCount - 1, BACKOFF_MS.length - 1)] ?? 60_000\<close>.\<close>

definition backoff_delay :: "nat \<Rightarrow> int" where
  "backoff_delay attempts = (if attempts = 0 then 60000 else BACKOFF_MS ! min (attempts - 1) (length BACKOFF_MS - 1))"

definition retry_instant :: "instant \<Rightarrow> rat \<Rightarrow> nat \<Rightarrow> instant" where
  "retry_instant now random attempts =
     (let delay = backoff_delay attempts in now + delay + \<lfloor>random * of_int delay * (1 / 5)\<rfloor>)"

definition passing_failure :: "completion_status \<Rightarrow> turn_error option \<Rightarrow> nat \<Rightarrow> bool" where
  "passing_failure status error attempts \<longleftrightarrow>
     status = TurnFailed \<and> attempts < MAX_TRANSIENT_RETRIES \<and>
     (case error of None \<Rightarrow> False
      | Some e \<Rightarrow> e_retry_safe e = Some True \<and> (e_kind e = Some RateLimit \<or> e_kind e = Some Unavailable))"

definition attempt_outcome :: "attempt \<Rightarrow> completion_status" where
  "attempt_outcome a =
     (if a_status a = ACompleted then TurnDone
      else if a_status a = AInterrupted \<or> a_status a = ASuperseded \<or> a_status a = ALost then TurnInterrupted
      else TurnFailed)"

definition settled_status :: "completion_status \<Rightarrow> turn_status" where
  "settled_status status = (case status of TurnDone \<Rightarrow> Completed | TurnFailed \<Rightarrow> Failed | TurnInterrupted \<Rightarrow> Interrupted)"

definition ended_status :: "completion_status \<Rightarrow> attempt_status" where
  "ended_status status = (case status of TurnDone \<Rightarrow> ACompleted | TurnFailed \<Rightarrow> AFailed | TurnInterrupted \<Rightarrow> AInterrupted)"

text \<open>Why the next attempt of a turn runs.\<close>

definition next_reason :: "ident \<Rightarrow> db \<Rightarrow> attempt_reason \<times> attempt option" where
  "next_reason tid d =
     (case rev (sort_key (\<lambda>r. a_ordinal (ar_attempt r)) (filter (\<lambda>r. a_turn_id (ar_attempt r) = tid) (db_attempts d))) of
        [] \<Rightarrow> (Initial, None)
      | row # _ \<Rightarrow>
          (let previous = attempt_from_row row in
           (if a_status previous = APreparing then a_reason previous
            else if a_status previous = ASuperseded then SteerRestart
            else if a_status previous = ALost then Recovery
            else Retry, Some previous)))"

section \<open>Closing what is open\<close>

text \<open>A non-blocking question outlives its turn: its answer becomes a message.\<close>

definition pending_of :: "db \<Rightarrow> turn \<Rightarrow> request_row list" where
  "pending_of d t = filter (\<lambda>r. rr_session_id r = t_session_id t \<and> rr_turn_id r = Some (t_id t) \<and> rr_status r = RPending)
     (db_requests d)"

definition outlives :: "request_row \<Rightarrow> bool" where
  "outlives row \<longleftrightarrow> \<not> r_blocking (request_from_row row) \<and> r_kind (request_from_row row) = KQuestion"

definition outliving :: "db \<Rightarrow> turn \<Rightarrow> ident list" where
  "outliving d t = map (\<lambda>r. r_id (request_from_row r)) (filter outlives (pending_of d t))"

definition open_items :: "db \<Rightarrow> turn \<Rightarrow> item_row list" where
  "open_items d t = filter (\<lambda>r. ir_turn_id r = Some (t_id t) \<and> ir_status r = InProgress \<and> ir_kind r \<notin> set INPUT_ITEM_KINDS)
     (db_items d)"

definition asks_on :: "ident list \<Rightarrow> item \<Rightarrow> bool" where
  "asks_on ids it \<longleftrightarrow> (case i_body it of RequestBody rid \<Rightarrow> rid \<in> set ids | _ \<Rightarrow> False)"

definition close_open_work :: "db \<Rightarrow> turn \<Rightarrow> string \<Rightarrow> instant \<Rightarrow> session_event list" where
  "close_open_work d t reason now =
     map (\<lambda>r. ItemChanged ((item_from_row r)\<lparr>i_status := ItemCancelled, i_ended_at := Some now, i_updated_at := now\<rparr>))
       (filter (\<lambda>r. \<not> asks_on (outliving d t) (item_from_row r)) (open_items d t)) @
     map (\<lambda>r. RequestChanged ((request_from_row r)\<lparr>r_status := RExpired, r_answerable := False, r_reason := Some reason,
            r_resolved_at := Some now\<rparr>))
       (filter (\<lambda>r. r_id (request_from_row r) \<notin> set (outliving d t)) (pending_of d t))"

section \<open>Steers nobody took in\<close>

definition steered_item_ids :: "db \<Rightarrow> turn \<Rightarrow> ident list" where
  "steered_item_ids d t =
     map ir_id (sort_key ir_position
       (filter (\<lambda>r. ir_turn_id r = Some (t_id t) \<and> ir_kind r \<in> set INPUT_ITEM_KINDS \<and>
          (case t_input_item_id t of None \<Rightarrow> True | Some iid \<Rightarrow> ir_id r \<noteq> iid)) (db_items d)))"

definition consumed_of :: "db \<Rightarrow> turn \<Rightarrow> ident list" where
  "consumed_of d t =
     concat (map (\<lambda>r. case ar_runner r of None \<Rightarrow> [] | Some s \<Rightarrow> rs_consumed s)
       (filter (\<lambda>r. a_turn_id (ar_attempt r) = t_id t) (db_attempts d)))"

definition pending_steers :: "db \<Rightarrow> turn \<Rightarrow> ident list" where
  "pending_steers d t = filter (\<lambda>iid. iid \<notin> set (consumed_of d t)) (steered_item_ids d t)"

definition max_ordinal :: "db \<Rightarrow> turn \<Rightarrow> nat" where
  "max_ordinal d t =
     (case map tr_ordinal (filter (\<lambda>r. tr_session_id r = t_session_id t) (db_turns d)) of
        [] \<Rightarrow> t_ordinal t | n # ns \<Rightarrow> fold max ns n)"

definition steered_turn_id :: "(string \<Rightarrow> string) \<Rightarrow> ident \<Rightarrow> ident \<Rightarrow> ident" where
  "steered_turn_id sha tid iid = derived_id sha tid (''steer:'' @ iid)"

definition queued_turn ::
  "ident \<Rightarrow> ident \<Rightarrow> nat \<Rightarrow> ident \<Rightarrow> ident option \<Rightarrow> ident option \<Rightarrow> instant \<Rightarrow> turn"
where
  "queued_turn tid sid ordinal input_item thread continuation now =
     \<lparr>t_id = tid, t_session_id = sid, t_ordinal = ordinal, t_status = Queued, t_input_item_id = Some input_item,
      t_dispatch = TQueue, t_priority = 0, t_activity = None, t_activity_at = None, t_provider_retry = None,
      t_attempt_count = 0, t_active_attempt_id = None, t_provider_thread_id = thread, t_retry_at = None,
      t_cancellation_requested = False, t_error = None, t_outcome = None,
      t_checkpoint = \<lparr>ck_before = None, ck_after = None\<rparr>, t_continuation_of = continuation, t_created_at = now,
      t_started_at = None, t_completed_at = None, t_updated_at = now\<rparr>"

fun queue_input :: "item_body \<Rightarrow> item_body" where
  "queue_input (UserMessage d a t atts an) = UserMessage (d\<lparr>d_dispatch := DQueue\<rparr>) a t atts an"
| "queue_input (InboundMessage d f t atts al) = InboundMessage (d\<lparr>d_dispatch := DQueue\<rparr>) f t atts al"
| "queue_input (TaskNotification d t s x src) = TaskNotification (d\<lparr>d_dispatch := DQueue\<rparr>) t s x src"
| "queue_input b = b"

text \<open>An input item as the input of the turn \<open>tid\<close>, which reads it as it starts.\<close>

definition input_of :: "ident \<Rightarrow> instant \<Rightarrow> item \<Rightarrow> item" where
  "input_of tid now it =
     (if is_input_item it
      then it\<lparr>i_turn_id := Some tid, i_body := queue_input (i_body it), i_status := ItemCompleted, i_updated_at := now\<rparr>
      else it\<lparr>i_turn_id := Some tid, i_updated_at := now\<rparr>)"

record settle_env =
  se_sha :: "string \<Rightarrow> string"
  se_owned :: "session_row \<Rightarrow> item \<Rightarrow> bool"

definition notification_turn :: "settle_env \<Rightarrow> instant \<Rightarrow> db \<Rightarrow> session_row \<Rightarrow> ident \<Rightarrow> (ident \<times> bool) option" where
  "notification_turn env now d session sid =
     (case waiting_notification_turn now d sid of
        None \<Rightarrow> None
      | Some t \<Rightarrow>
          (case t_input_item_id t of
             None \<Rightarrow> None
           | Some iid \<Rightarrow>
               (case item_row_of d iid of
                  None \<Rightarrow> None
                | Some row \<Rightarrow> if is_input_item (item_from_row row)
                    then Some (t_id t, se_owned env session (item_from_row row)) else None)))"

definition is_notification :: "item \<Rightarrow> bool" where
  "is_notification it \<longleftrightarrow> kind_of (i_body it) = KTaskNotification"

text \<open>
  Task notifications go on together, in the turn already waiting for them or the first one queued
  here, when they are as much the owner's as that turn's input.
\<close>

definition joins :: "item \<Rightarrow> bool \<Rightarrow> (ident \<times> bool) option \<Rightarrow> ident option" where
  "joins it own notes =
     (case notes of None \<Rightarrow> None
      | Some (tid, theirs) \<Rightarrow> if is_notification it \<and> theirs = own then Some tid else None)"

fun requeue_each ::
  "settle_env \<Rightarrow> instant \<Rightarrow> db \<Rightarrow> session_row \<Rightarrow> turn \<Rightarrow> nat \<Rightarrow> (ident \<times> bool) option \<Rightarrow> ident list \<Rightarrow> session_event list"
where
  "requeue_each env now d session t ordinal notes [] = []"
| "requeue_each env now d session t ordinal notes (iid # ids) =
     (case item_row_of d iid of
        None \<Rightarrow> requeue_each env now d session t ordinal notes ids
      | Some row \<Rightarrow>
          (let it = item_from_row row; own = se_owned env session it in
           case joins it own notes of
             Some tid \<Rightarrow> ItemChanged (input_of tid now it) # requeue_each env now d session t ordinal notes ids
           | None \<Rightarrow>
               (let next = queued_turn (steered_turn_id (se_sha env) (t_id t) iid) (t_session_id t) (Suc ordinal) iid
                             (t_provider_thread_id t) None now
                in TurnChanged next # ItemChanged (input_of (t_id next) now it) #
                   requeue_each env now d session t (Suc ordinal)
                     (if is_notification it then Some (t_id next, own) else notes) ids)))"

definition requeue_steers :: "settle_env \<Rightarrow> instant \<Rightarrow> db \<Rightarrow> turn \<Rightarrow> log_error + session_event list" where
  "requeue_steers env now d t =
     (if pending_steers d t = [] then Inr []
      else case session_row_of d (t_session_id t) of
        None \<Rightarrow> Inl (SessionNotFound (t_session_id t))
      | Some session \<Rightarrow>
          Inr (requeue_each env now d session t (max_ordinal d t)
                 (notification_turn env now d session (t_session_id t)) (pending_steers d t)))"


section \<open>Settling\<close>

record settled =
  sd_turn :: turn
  sd_reply :: "item option"
  sd_retrying :: bool

definition thread_saw :: "db \<Rightarrow> turn \<Rightarrow> attempt \<Rightarrow> completion_status \<Rightarrow> bool" where
  "thread_saw d t a status \<longleftrightarrow>
     (case a_provider_thread_id a of
        None \<Rightarrow> False
      | Some th \<Rightarrow> status = TurnDone \<or>
          (\<exists>r \<in> set (db_attempts d). a_turn_id (ar_attempt r) = t_id t \<and> a_provider_thread_id (ar_attempt r) = Some th \<and>
             (case ar_runner r of None \<Rightarrow> False | Some s \<Rightarrow> rs_started s)))"

definition thread_seen :: "db \<Rightarrow> turn \<Rightarrow> ident option \<Rightarrow> instant \<Rightarrow> session_event list" where
  "thread_seen d t th now =
     (case th of
        None \<Rightarrow> []
      | Some pid \<Rightarrow>
          (case find_row p_id pid (db_threads d) of
             None \<Rightarrow> []
           | Some p \<Rightarrow> [ProviderThreadChanged ((provider_thread_from_row p)
               \<lparr>p_last_turn_ordinal := Some (t_ordinal t), p_updated_at := now\<rparr>)]))"

definition last_reply :: "ident \<Rightarrow> db \<Rightarrow> item option" where
  "last_reply tid d =
     (case rev (sort_key ir_position (filter (\<lambda>r. ir_turn_id r = Some tid \<and> ir_kind r = KAssistantMessage) (db_items d))) of
        [] \<Rightarrow> None | r # _ \<Rightarrow> Some (item_from_row r))"

definition drop_commands :: "instant \<Rightarrow> ident \<Rightarrow> db \<Rightarrow> db" where
  "drop_commands now tid d = mark_commands now (map tc_id (open_commands tid d)) CDropped d"

definition settled_turn ::
  "instant \<Rightarrow> completion_status \<Rightarrow> turn_error option \<Rightarrow> turn_outcome \<Rightarrow> string option \<Rightarrow> instant option \<Rightarrow> turn \<Rightarrow> turn"
where
  "settled_turn now status error outcome after retry_at t =
     t\<lparr>t_status := (if retry_at = None then settled_status status else Queued), t_activity := None,
       t_activity_at := None, t_provider_retry := None, t_cancellation_requested := False,
       t_error := (if status = TurnDone then None else error), t_outcome := Some outcome,
       t_checkpoint := (t_checkpoint t)\<lparr>ck_after := (case after of None \<Rightarrow> ck_after (t_checkpoint t) | Some c \<Rightarrow> Some c)\<rparr>,
       t_retry_at := retry_at, t_completed_at := (if retry_at = None then Some now else None), t_updated_at := now\<rparr>"

text \<open>A person's stop stands: a turn they stopped is not tried again, and ends interrupted.\<close>

definition stop_stands :: "db \<Rightarrow> turn \<Rightarrow> bool" where
  "stop_stands d t \<longleftrightarrow>
     (case find_row tr_id (t_id t) (db_turns d) of None \<Rightarrow> False | Some r \<Rightarrow> tr_cancellation_requested_at r \<noteq> None)"

definition ended_attempt_event :: "instant \<Rightarrow> completion_status \<Rightarrow> turn_error option \<Rightarrow> attempt \<Rightarrow> session_event list" where
  "ended_attempt_event now status error a =
     (if a_status a = APreparing \<or> a_status a = ARunning
      then [AttemptChanged (a\<lparr>a_status := ended_status status, a_completed_at := Some now, a_error := error\<rparr>)] else [])"

definition attention :: "session_fields \<Rightarrow> completion_status \<Rightarrow> bool \<Rightarrow> turn_outcome \<Rightarrow> session_event list" where
  "attention session status retrying outcome =
     (if (status = TurnFailed \<and> \<not> retrying) \<or> o_notification outcome \<noteq> None
      then [SessionChanged (empty_patch\<lparr>c_attention_revision := Some (f_attention_revision session + 1)\<rparr>)] else [])"

definition settle ::
  "settle_env \<Rightarrow> instant \<Rightarrow> rat \<Rightarrow> ident \<Rightarrow> ident \<Rightarrow> session_fields \<Rightarrow> turn \<Rightarrow> attempt \<Rightarrow> completion_status \<Rightarrow>
   turn_error option \<Rightarrow> turn_outcome \<Rightarrow> string option \<Rightarrow> db \<Rightarrow> settled tx"
where
  "settle env now random claimed tok session t a status error outcome after d =
     (let retry_at = (if passing_failure status error (t_attempt_count t)
                      then Some (retry_instant now random (t_attempt_count t)) else None) in
      if \<not> owns now claimed tok d then Inl (LeaseLost claimed)
      else
        (let stopped = (retry_at \<noteq> None \<and> stop_stands d t);
             retrying = (retry_at \<noteq> None \<and> \<not> stopped);
             planned = settled_turn now status error outcome after retry_at t;
             final = (if stopped then planned\<lparr>t_status := Interrupted, t_retry_at := None, t_completed_at := Some now\<rparr>
                      else planned)
         in case (if retrying then Inr [] else requeue_steers env now d t) of
              Inl err \<Rightarrow> Inl err
            | Inr requeued \<Rightarrow>
                (case append_events now (t_session_id t) None
                        (ended_attempt_event now status error a @
                         close_open_work d t ''The turn ended before it was answered.'' now @
                         [TurnChanged final] @ requeued @
                         (if thread_saw d t a status then thread_seen d t (a_provider_thread_id a) now else []) @
                         attention session status retrying outcome) d of
                   Inl err \<Rightarrow> Inl err
                 | Inr (_, d1) \<Rightarrow>
                     (let d2 = drop_commands now (t_id t) d1;
                          d3 = (case retry_at of None \<Rightarrow> d2 | Some at' \<Rightarrow> schedule_retry (t_id t) at' d2);
                          d4 = release (t_id t) d3
                      in Inr (\<lparr>sd_turn = final, sd_reply = last_reply (t_id t) d4, sd_retrying = retrying\<rparr>, d4)))))"

section \<open>Losing the runner\<close>

definition continuation_text :: string where
  "continuation_text = ''The machine running the last turn stopped. The agent continues where it left off.''"

definition continuation_notice :: "ident \<Rightarrow> ident \<Rightarrow> turn \<Rightarrow> instant \<Rightarrow> item" where
  "continuation_notice iid tid t now =
     \<lparr>i_id = iid, i_session_id = t_session_id t, i_turn_id = Some tid, i_attempt_id = None, i_parent_item_id = None,
      i_position = 0, i_status = ItemCompleted, i_native_ref = None, i_created_at = now, i_updated_at = now,
      i_started_at = Some now, i_ended_at = Some now,
      i_body = Notice ''turn_continued'' continuation_text [(''continuationOf'', JStr (t_id t))]\<rparr>"

definition continues ::
  "bool \<Rightarrow> session_fields \<Rightarrow> turn \<Rightarrow> attempt \<Rightarrow> session_event list \<Rightarrow> db \<Rightarrow> bool"
where
  "continues recovers session t a requeued d \<longleftrightarrow>
     recovers \<and>
     (case a_provider_thread_id a of
        None \<Rightarrow> False
      | Some pid \<Rightarrow>
          (case find_row p_id pid (db_threads d) of
             None \<Rightarrow> False
           | Some p \<Rightarrow> (case p_native_ref p of None \<Rightarrow> False | Some ref \<Rightarrow> n_strength ref = Strong))) \<and>
     \<not> (\<exists>r \<in> set (db_turns d). tr_session_id r = t_session_id t \<and> t_ordinal t < tr_ordinal r) \<and>
     requeued = [] \<and> \<not> (\<exists>r \<in> set (db_turns d). tr_continuation_of r = Some (t_id t)) \<and>
     \<not> t_cancellation_requested t \<and> f_status session = SessionActive"

definition lost_turn :: "instant \<Rightarrow> string \<Rightarrow> turn \<Rightarrow> turn" where
  "lost_turn now reason t =
     t\<lparr>t_status := Interrupted, t_activity := None, t_activity_at := None, t_provider_retry := None,
       t_cancellation_requested := False,
       t_error := Some \<lparr>e_message = reason, e_kind = None, e_retry_safe = None\<rparr>, t_completed_at := Some now,
       t_updated_at := now\<rparr>"

definition lose ::
  "settle_env \<Rightarrow> instant \<Rightarrow> ident \<Rightarrow> ident \<Rightarrow> bool \<Rightarrow> session_fields \<Rightarrow> turn \<Rightarrow> attempt \<Rightarrow> string \<Rightarrow> db \<Rightarrow> bool tx"
where
  "lose env now claimed tok recovers session t0 a reason d =
     (if \<not> owns now claimed tok d then Inl (LeaseLost claimed)
      else case find_row tr_id (t_id t0) (db_turns d) of
        None \<Rightarrow> Inl (TurnNotFound (t_id t0))
      | Some row \<Rightarrow>
          (let t = turn_from_row now row in
           case requeue_steers env now d t of
             Inl err \<Rightarrow> Inl err
           | Inr requeued \<Rightarrow>
               (let goes_on = continues recovers session t a requeued d;
                    notice = derived_id (se_sha env) (t_id t) ''continued'';
                    next = derived_id (se_sha env) (t_id t) ''continuation'' in
                case append_events now (t_session_id t) (Some (''continue:'' @ t_id t))
                       ([AttemptChanged (a\<lparr>a_status := ALost, a_completed_at := Some now,
                           a_error := Some \<lparr>e_message = reason, e_kind = None, e_retry_safe = None\<rparr>\<rparr>)] @
                        close_open_work d t ''The agent that asked stopped before it was answered.'' now @
                        [TurnChanged (lost_turn now reason t)] @ requeued @
                        thread_seen d t (a_provider_thread_id a) now @
                        (if goes_on
                         then [ItemAdded (continuation_notice notice next t now),
                               TurnChanged (queued_turn next (t_session_id t) (Suc (t_ordinal t)) notice
                                 (a_provider_thread_id a) (Some (t_id t)) now)]
                         else [])) d of
                  Inl err \<Rightarrow> Inl err
                | Inr (_, d1) \<Rightarrow> Inr (goes_on, release (t_id t) (drop_commands now (t_id t) d1)))))"

end
