(* ===== verification/Settle_Laws.thy ===== *)
theory Settle_Laws
  imports Turn_Settle
begin

text \<open>
  What settling a turn leaves behind: nothing of it open, and no message steered into it dropped.
\<close>

section \<open>What an append does to the tables, event by event\<close>

definition kept_event :: "session_event \<Rightarrow> session_event" where
  "kept_event e = (case e of ItemAdded it \<Rightarrow> ItemAdded (it\<lparr>i_position := 0\<rparr>)
     | ItemChanged it \<Rightarrow> ItemChanged (it\<lparr>i_position := 0\<rparr>) | _ \<Rightarrow> e)"

definition on_turn :: "session_event \<Rightarrow> bool" where
  "on_turn e \<longleftrightarrow> (case e of TurnChanged _ \<Rightarrow> True | _ \<Rightarrow> False)"

lemma kept_place: "map kept_event (place n ps es) = map kept_event es"
  by (induction n ps es rule: place.induct) (auto simp: kept_event_def split: session_event.splits option.splits)

lemma kept_on_turn [simp]: "on_turn (kept_event e) = on_turn e"
  by (auto simp: kept_event_def on_turn_def split: session_event.splits)

lemma current_turns_others: "filter (\<lambda>e. \<not> on_turn e) (current_turns d sid es) = filter (\<lambda>e. \<not> on_turn e) es"
proof (induction es)
  case (Cons e es)
  have "filter (\<lambda>e. \<not> on_turn e) (current_turn d sid e) = filter (\<lambda>e. \<not> on_turn e) [e]"
    by (cases e) (auto simp: current_turn_def on_turn_def split: option.splits if_splits)
  with Cons show ?case by (simp add: current_turns_def)
qed (simp add: current_turns_def)

text \<open>
  An append is a projection, from the tables as they were, of the stored events: all of them of the
  session and of now, and, but for the turns \<open>currentTurns\<close> rewrites, the events themselves.
\<close>

lemma append_runs:
  assumes "append_events now sid cmd events d = Inr (stored, d')"
  obtains d1 where "project_all now stored d1 = Inr d'"
    "db_items d1 = db_items d" "db_requests d1 = db_requests d" "db_turns d1 = db_turns d" "db_threads d1 = db_threads d"
    "\<forall>e \<in> set stored. se_session_id e = sid \<and> se_at e = now"
    "map kept_event (filter (\<lambda>e. \<not> on_turn e) (map se_event stored)) = map kept_event (filter (\<lambda>e. \<not> on_turn e) events)"
    "filter on_turn (map se_event stored) = filter on_turn (current_turns d sid events)"
proof (rule append_events_cases [OF assms])
  assume nil: "stored = []" "d' = d" "current_turns d sid events = []"
  then have "filter (\<lambda>e. \<not> on_turn e) events = []" using current_turns_others [of d sid events] by simp
  with nil that [of d] show thesis by simp
next
  assume locked: "append_locked now sid cmd (current_turns d sid events) d = Inr (stored, d')"
  note st = append_locked_effect(5) [OF locked]
  from locked obtain d0 where "persist now stored d0 = Inr d'" and d0: "db_items d0 = db_items d"
    "db_requests d0 = db_requests d" "db_turns d0 = db_turns d" "db_threads d0 = db_threads d"
    by (auto simp: append_locked_def Let_def set_sequence_def split: option.splits sum.splits)
  then obtain d1 where p1: "project_all now stored d1 = Inr d'"
    and d1: "db_items d1 = db_items d" "db_requests d1 = db_requests d" "db_turns d1 = db_turns d" "db_threads d1 = db_threads d"
    by (auto simp: persist_def dest: insert_batches_storable split: sum.splits)
  have ev: "map se_event stored = place (Suc (latest_sequence d sid)) [] (current_turns d sid events)"
    unfolding st by (rule map_stamp_events)
  have kept: "map kept_event (map se_event stored) = map kept_event (current_turns d sid events)"
    unfolding ev by (rule kept_place)
  have flt: "filter P (map kept_event xs) = map kept_event (filter P xs)" if "P = on_turn \<or> P = (\<lambda>e. \<not> on_turn e)" for P xs
    using that by (induction xs) auto
  have others: "map kept_event (filter (\<lambda>e. \<not> on_turn e) (map se_event stored)) = map kept_event (filter (\<lambda>e. \<not> on_turn e) events)"
    using arg_cong [OF kept, of "filter (\<lambda>e. \<not> on_turn e)"] by (simp only: flt current_turns_others simp_thms)
  have same: "map kept_event (filter on_turn xs) = filter on_turn xs" for xs
    by (induction xs) (auto simp: kept_event_def on_turn_def split: session_event.splits)
  have turns: "filter on_turn (map se_event stored) = filter on_turn (current_turns d sid events)"
    using arg_cong [OF kept, of "filter on_turn"] by (simp add: flt same del: map_map)
  have "\<forall>e \<in> set stored. se_session_id e = sid \<and> se_at e = now" unfolding st using stamp_events_in by blast
  then show thesis using that [OF p1 d1 _ others turns] by blast
qed

lemma stored_item:
  assumes "map kept_event (filter (\<lambda>e. \<not> on_turn e) (map se_event stored)) = map kept_event (filter (\<lambda>e. \<not> on_turn e) events)"
    and "kept_event e0 = e0'" and "\<not> on_turn e0"
  shows "(\<exists>e \<in> set stored. kept_event (se_event e) = e0') \<longleftrightarrow> (\<exists>e \<in> set events. kept_event e = e0')"
proof -
  have "e0' \<in> set (map kept_event (filter (\<lambda>e. \<not> on_turn e) (map se_event stored))) \<longleftrightarrow>
      e0' \<in> set (map kept_event (filter (\<lambda>e. \<not> on_turn e) events))" by (simp only: assms(1))
  moreover have "\<not> on_turn e0'" using assms(2,3) by auto
  ultimately show ?thesis by (auto simp: image_iff)
qed

section \<open>Tables under a projection\<close>

lemma upsert_member:
  assumes "unique_keys key rows" and "\<And>y. key y = key r \<Longrightarrow> key (upd y) = key r" and "x \<in> set (upsert key upd r rows)"
  shows "x \<in> set rows \<and> key x \<noteq> key r \<or> key x = key r \<and> (x = r \<or> (\<exists>y \<in> set rows. key y = key r \<and> x = upd y))"
  using assms(1,3)
proof (induction rows)
  case (Cons a rows)
  then have fresh: "\<forall>y \<in> set rows. key y \<noteq> key a" by (auto simp: unique_keys_def image_iff)
  show ?case
  proof (cases "key a = key r")
    case True
    with Cons.prems(2) fresh assms(2) [OF True] show ?thesis by fastforce
  next
    case False
    with Cons show ?thesis by (auto simp: unique_keys_def)
  qed
qed simp

text \<open>A pending request that a batch leaves pending was there, and the batch says nothing of it.\<close>

lemma project_requests:
  "project now e d = Inr d' \<Longrightarrow> db_requests d' = (case se_event e of
     RequestChanged r \<Rightarrow> upsert rr_key (update_request_row (se_session_id e) (se_at e) r) (new_request_row (se_session_id e) (se_at e) r)
       (db_requests d)
   | _ \<Rightarrow> db_requests d)"
  by (drule project_Inr) (auto simp: project_steps split: session_event.splits)

lemma request_row_key: "rr_key (new_request_row sid stamp r) = (sid, r_id r)"
  by (simp add: rr_key_def new_request_row_def)

lemma request_update_key: "rr_key (update_request_row sid stamp r row) = (sid, r_id r)"
  by (simp add: rr_key_def update_request_row_def new_request_row_def)

lemma upsert_request_member:
  assumes "unique_keys rr_key rows"
    and "x \<in> set (upsert rr_key (update_request_row sid stamp r) (new_request_row sid stamp r) rows)"
  shows "x \<in> set rows \<and> rr_key x \<noteq> (sid, r_id r) \<or> rr_key x = (sid, r_id r) \<and> rr_status x = r_status r"
  using upsert_member [OF assms(1) _ assms(2)]
  by (auto simp: request_row_key request_update_key) (auto simp: update_request_row_def new_request_row_def)

lemma unique_requests:
  "unique_keys rr_key rows \<Longrightarrow>
   unique_keys rr_key (upsert rr_key (update_request_row sid stamp r) (new_request_row sid stamp r) rows)"
proof -
  have "map rr_key (upsert rr_key (update_request_row sid stamp r) (new_request_row sid stamp r) rows) =
     (if (sid, r_id r) \<in> rr_key ` set rows then map rr_key rows else map rr_key rows @ [(sid, r_id r)])"
    by (induction rows) (auto simp: request_row_key request_update_key)
  then show "unique_keys rr_key rows \<Longrightarrow> ?thesis" by (auto simp: unique_keys_def)
qed

lemma pending_after:
  assumes "project_all now es d = Inr d'" and "unique_keys rr_key (db_requests d)"
    and "\<forall>e \<in> set es. \<forall>r. se_event e = RequestChanged r \<longrightarrow> r_status r \<noteq> RPending"
  shows "\<forall>x \<in> set (db_requests d'). rr_status x = RPending \<longrightarrow>
    x \<in> set (db_requests d) \<and> (\<forall>e \<in> set es. \<forall>r. se_event e = RequestChanged r \<longrightarrow> rr_key x \<noteq> (se_session_id e, r_id r))"
  using assms
proof (induction now es d rule: project_all.induct)
  case (2 now e es d)
  from 2(2) obtain d1 where d1: "project now e d = Inr d1" "project_all now es d1 = Inr d'" by (auto split: sum.splits)
  have u: "unique_keys rr_key (db_requests d1)"
    using 2(3) project_requests [OF d1(1)] by (auto simp: unique_requests split: session_event.splits)
  have step: "x \<in> set (db_requests d) \<and> (\<forall>r. se_event e = RequestChanged r \<longrightarrow> rr_key x \<noteq> (se_session_id e, r_id r))"
    if x: "x \<in> set (db_requests d1)" "rr_status x = RPending" for x
  proof (cases "se_event e")
    case (RequestChanged r)
    with x(1) project_requests [OF d1(1)] have
      "x \<in> set (upsert rr_key (update_request_row (se_session_id e) (se_at e) r) (new_request_row (se_session_id e) (se_at e) r) (db_requests d))"
      by simp
    from upsert_request_member [OF 2(3) this] x(2) 2(4) RequestChanged show ?thesis by auto
  qed (use x project_requests [OF d1(1)] in simp_all)
  from 2(1) [OF d1(1) d1(2) u] 2(4) step show ?case by simp
qed simp


text \<open>An item that a batch leaves in progress was there so, and the batch says nothing of it.\<close>

definition item_said :: "session_event \<Rightarrow> item option" where
  "item_said e = (case e of ItemAdded it \<Rightarrow> Some it | ItemChanged it \<Rightarrow> Some it | _ \<Rightarrow> None)"

definition streams :: "session_event \<Rightarrow> bool" where
  "streams e \<longleftrightarrow> (case e of ItemTextAppended _ _ _ _ \<Rightarrow> True | _ \<Rightarrow> False)"

lemma project_items_said:
  "project now e d = Inr d' \<Longrightarrow> \<not> streams (se_event e) \<Longrightarrow> db_items d' = (case item_said (se_event e) of
     Some it \<Rightarrow> upsert ir_id (update_item_row (se_session_id e) it) (new_item_row (se_session_id e) it) (db_items d)
   | None \<Rightarrow> db_items d)"
  by (drule project_Inr) (auto simp: project_steps item_said_def streams_def split: session_event.splits)

lemma item_row_fields: "ir_id (new_item_row sid it) = i_id it" "ir_session_id (new_item_row sid it) = sid"
  "ir_status (new_item_row sid it) = i_status it" "ir_turn_id (new_item_row sid it) = i_turn_id it"
  "ir_id (update_item_row sid it row) = ir_id row"
  "ir_session_id (update_item_row sid it row) = ir_session_id row"
  "ir_status (update_item_row sid it row) = (if ir_session_id row = sid then i_status it else ir_status row)"
  "ir_turn_id (update_item_row sid it row) = (if ir_session_id row = sid then i_turn_id it else ir_turn_id row)"
  by (auto simp: new_item_row_def update_item_row_def Let_def)

lemma upsert_item_member:
  assumes "unique_keys ir_id rows" and "x \<in> set (upsert ir_id (update_item_row sid it) (new_item_row sid it) rows)"
  shows "x \<in> set rows \<and> (ir_id x \<noteq> i_id it \<or> ir_session_id x \<noteq> sid) \<or>
    ir_id x = i_id it \<and> ir_session_id x = sid \<and> ir_status x = i_status it"
proof -
  from upsert_member [OF assms(1) _ assms(2)] consider "x \<in> set rows" "ir_id x \<noteq> i_id it"
    | "x = new_item_row sid it" | y where "y \<in> set rows" "ir_id y = i_id it" "x = update_item_row sid it y"
    by (auto simp: item_row_fields)
  then show ?thesis
  proof cases
    case 3
    show ?thesis
    proof (cases "ir_session_id y = sid")
      case True
      with 3 show ?thesis by (simp add: item_row_fields)
    next
      case False
      then have "update_item_row sid it y = y" by (simp add: update_item_row_def)
      with 3 False show ?thesis by simp
    qed
  qed (auto simp: item_row_fields)
qed

lemma in_progress_after:
  assumes "project_all now es d = Inr d'" and "unique_keys ir_id (db_items d)"
    and "\<forall>e \<in> set es. \<not> streams (se_event e) \<and> (\<forall>it. item_said (se_event e) = Some it \<longrightarrow> i_status it \<noteq> InProgress)"
  shows "\<forall>x \<in> set (db_items d'). ir_status x = InProgress \<longrightarrow>
    x \<in> set (db_items d) \<and> (\<forall>e \<in> set es. \<forall>it. item_said (se_event e) = Some it \<longrightarrow> ir_id x \<noteq> i_id it \<or> ir_session_id x \<noteq> se_session_id e)"
  using assms
proof (induction now es d rule: project_all.induct)
  case (2 now e es d)
  from 2(2) obtain d1 where d1: "project now e d = Inr d1" "project_all now es d1 = Inr d'" by (auto split: sum.splits)
  from 2(4) have quiet: "\<not> streams (se_event e)" by simp
  note it = project_items_said [OF d1(1) quiet]
  have u: "unique_keys ir_id (db_items d1)"
    using 2(3) it by (auto simp: item_row_fields split: option.splits intro!: unique_keys_upsert)
  have step: "x \<in> set (db_items d) \<and> (\<forall>it. item_said (se_event e) = Some it \<longrightarrow> ir_id x \<noteq> i_id it \<or> ir_session_id x \<noteq> se_session_id e)"
    if x: "x \<in> set (db_items d1)" "ir_status x = InProgress" for x
  proof (cases "item_said (se_event e)")
    case (Some i)
    with x(1) it have "x \<in> set (upsert ir_id (update_item_row (se_session_id e) i) (new_item_row (se_session_id e) i) (db_items d))" by simp
    from upsert_item_member [OF 2(3) this] x(2) 2(4) Some show ?thesis by auto
  qed (use x it in simp_all)
  from 2(1) [OF d1(1) d1(2) u] 2(4) step show ?case by simp
qed simp

text \<open>The status of a turn's row, when every turn event about it says the same.\<close>

lemma turn_status_after:
  assumes "project_all now es d = Inr d'" and "turn_constraints (db_turns d)"
    and "\<forall>e \<in> set es. \<forall>t. se_event e = TurnChanged t \<and> t_id t = tid \<longrightarrow> t_status t = st \<and> se_session_id e = sid"
    and "(\<exists>row. turn_row_of d sid tid = Some row \<and> tr_status row = st) \<or>
         (turn_row_of d sid tid \<noteq> None \<or> tid \<notin> tr_id ` set (db_turns d)) \<and> (\<exists>e \<in> set es. \<exists>t. se_event e = TurnChanged t \<and> t_id t = tid)"
  shows "\<exists>row. turn_row_of d' sid tid = Some row \<and> tr_status row = st"
  using assms
proof (induction now es d rule: project_all.induct)
  case (2 now e es d)
  from 2(2) obtain d1 where d1: "project now e d = Inr d1" "project_all now es d1 = Inr d'" by (auto split: sum.splits)
  note tc = project_turn_constraints [OF d1(1) 2(3)]
  note uk = turn_constraints_unique [OF 2(3)]
  let ?said = "\<lambda>e. \<exists>t. se_event e = TurnChanged t \<and> t_id t = tid"
  have "(\<exists>row. turn_row_of d1 sid tid = Some row \<and> tr_status row = st) \<or>
         (turn_row_of d1 sid tid \<noteq> None \<or> tid \<notin> tr_id ` set (db_turns d1)) \<and> (\<exists>e \<in> set es. ?said e)"
  proof (cases "?said e")
    case True
    then obtain t where t: "se_event e = TurnChanged t" "t_id t = tid" by blast
    with 2(4) have st: "t_status t = st" "se_session_id e = sid" by auto
    have tr: "turn_row_of d1 sid tid = (case turn_row_of d sid tid of Some r \<Rightarrow> Some (update_turn_row sid (se_at e) t r)
        | None \<Rightarrow> if tid \<in> tr_id ` set (db_turns d) then None else Some (new_turn_row now sid (se_at e) t))"
      using turn_row_of_upsert [OF uk, where tid = tid and s = sid and sid = sid and stamp = "se_at e" and t = t and now = now] t st project_turns [OF d1(1)]
      by (simp add: turn_row_of_def)
    have ses: "tr_session_id r = sid" if "turn_row_of d sid tid = Some r" for r
      using that by (auto simp: turn_row_of_def dest!: find_row_Some)
    from 2(5) have "turn_row_of d sid tid \<noteq> None \<or> tid \<notin> tr_id ` set (db_turns d)" by auto
    with tr st ses show ?thesis by (auto simp: update_turn_row_def new_turn_row_def split: option.splits)
  next
    case False
    have "db_turns d1 = db_turns d \<or> (\<exists>t. se_event e = TurnChanged t \<and> t_id t \<noteq> tid)"
      using project_turns [OF d1(1)] False by (cases "se_event e") auto
    then show ?thesis
    proof
      assume "db_turns d1 = db_turns d"
      then show ?thesis using 2(5) False by (auto simp: turn_row_of_def)
    next
      assume "\<exists>t. se_event e = TurnChanged t \<and> t_id t \<noteq> tid"
      then obtain t where t: "se_event e = TurnChanged t" "t_id t \<noteq> tid" by blast
      then have "turn_row_of d1 sid tid = turn_row_of d sid tid"
        using turn_row_of_upsert [OF uk, where tid = tid and s = sid and sid = "se_session_id e" and stamp = "se_at e" and t = t and now = now] project_turns [OF d1(1)]
        by (simp add: turn_row_of_def)
      moreover have "tid \<in> tr_id ` set (db_turns d1) \<longleftrightarrow> tid \<in> tr_id ` set (db_turns d)"
      proof -
        have "tr_id (update_turn_row s a t r) = tr_id r" "tr_id (new_turn_row n s a t) = t_id t" for s a t r n
          by (simp_all add: update_turn_row_def new_turn_row_def)
        with t project_turns [OF d1(1)] have "set (map tr_id (db_turns d1)) \<subseteq> insert (t_id t) (set (map tr_id (db_turns d)))"
          "set (map tr_id (db_turns d)) \<subseteq> set (map tr_id (db_turns d1))"
          by (auto simp: keys_upsert simp del: set_map)
        with t(2) show ?thesis by auto
      qed
      ultimately show ?thesis using 2(5) False by auto
    qed
  qed
  then show ?case by (intro 2(1) [OF d1(1) d1(2) tc]) (use 2(4) in auto)
qed simp


section \<open>The events of a settling\<close>

lemma kept_said:
  assumes "kept_event e = kept_event e0"
  shows "map_option (\<lambda>it. it\<lparr>i_position := 0\<rparr>) (item_said e) = map_option (\<lambda>it. it\<lparr>i_position := 0\<rparr>) (item_said e0)"
    "streams e = streams e0" "e = RequestChanged r \<longleftrightarrow> e0 = RequestChanged r"
  using assms by (auto simp: kept_event_def item_said_def streams_def split: session_event.splits)

lemma kept_item:
  assumes "kept_event e = kept_event e0" and "item_said e = Some it"
  obtains it0 where "item_said e0 = Some it0" "i_id it0 = i_id it" "i_status it0 = i_status it" "i_turn_id it0 = i_turn_id it"
proof -
  have same: "i_id (x\<lparr>i_position := 0\<rparr>) = i_id x" "i_status (x\<lparr>i_position := 0\<rparr>) = i_status x"
    "i_turn_id (x\<lparr>i_position := 0\<rparr>) = i_turn_id x" for x :: item by simp_all
  from kept_said(1) [OF assms(1)] assms(2) obtain it0
    where it0: "item_said e0 = Some it0" "it0\<lparr>i_position := 0\<rparr> = it\<lparr>i_position := 0\<rparr>"
    by (cases "item_said e0") auto
  with same show thesis by (intro that [of it0]) (metis it0(2))+
qed

text \<open>An append whose events close items and requests, on the tables.\<close>

definition closing :: "session_event \<Rightarrow> bool" where
  "closing e \<longleftrightarrow> \<not> streams e \<and> (\<forall>it. item_said e = Some it \<longrightarrow> i_status it \<noteq> InProgress) \<and>
     (\<forall>r. e = RequestChanged r \<longrightarrow> r_status r \<noteq> RPending)"

lemma closing_events: "closing (TurnChanged t)" "closing (AttemptChanged a)" "closing (SessionChanged c)"
  "closing (ProviderThreadChanged p)" "closing (ItemChanged it) \<longleftrightarrow> i_status it \<noteq> InProgress"
  "closing (ItemAdded it) \<longleftrightarrow> i_status it \<noteq> InProgress"
  "closing (RequestChanged r) \<longleftrightarrow> r_status r \<noteq> RPending"
  by (auto simp: closing_def streams_def item_said_def)

lemma stored_origin:
  assumes "map kept_event (filter (\<lambda>e. \<not> on_turn e) (map se_event stored)) = map kept_event (filter (\<lambda>e. \<not> on_turn e) events)"
    and "e \<in> set stored" and "\<not> on_turn (se_event e)"
  shows "\<exists>e0 \<in> set events. kept_event (se_event e) = kept_event e0"
proof -
  from assms(2,3) have "kept_event (se_event e) \<in> set (map kept_event (filter (\<lambda>e. \<not> on_turn e) (map se_event stored)))"
    by auto
  then have "kept_event (se_event e) \<in> set (map kept_event (filter (\<lambda>e. \<not> on_turn e) events))" by (simp only: assms(1))
  then show ?thesis by auto
qed

lemma closing_append:
  assumes run: "append_events now sid cmd events d = Inr (stored, d')" and cl: "\<forall>e \<in> set events. closing e"
    and uq: "unique_keys rr_key (db_requests d)" "unique_keys ir_id (db_items d)"
  shows "\<forall>x \<in> set (db_requests d'). rr_status x = RPending \<longrightarrow>
      x \<in> set (db_requests d) \<and> (\<forall>r. RequestChanged r \<in> set events \<longrightarrow> rr_key x \<noteq> (sid, r_id r))"
    "\<forall>x \<in> set (db_items d'). ir_status x = InProgress \<longrightarrow>
      x \<in> set (db_items d) \<and> (\<forall>it. ItemChanged it \<in> set events \<longrightarrow> ir_id x \<noteq> i_id it \<or> ir_session_id x \<noteq> sid)"
proof -
  obtain d1 where p: "project_all now stored d1 = Inr d'" and d1: "db_items d1 = db_items d" "db_requests d1 = db_requests d"
    and st: "\<forall>e \<in> set stored. se_session_id e = sid \<and> se_at e = now"
    and kept: "map kept_event (filter (\<lambda>e. \<not> on_turn e) (map se_event stored)) = map kept_event (filter (\<lambda>e. \<not> on_turn e) events)"
    by (rule append_runs [OF run])
  have quiet: "closing (se_event e)" if "e \<in> set stored" for e
  proof (cases "on_turn (se_event e)")
    case True
    then show ?thesis by (auto simp: on_turn_def closing_events split: session_event.splits)
  next
    case False
    from stored_origin [OF kept that False] obtain e0 where e0: "e0 \<in> set events" "kept_event (se_event e) = kept_event e0"
      by blast
    with cl have "closing e0" by blast
    then show ?thesis unfolding closing_def
      using kept_said(2,3) [OF e0(2)] by (auto elim: kept_item [OF e0(2)])
  qed
  have said: "\<exists>e \<in> set stored. kept_event (se_event e) = kept_event e0" if "e0 \<in> set events" "\<not> on_turn e0" for e0
    using stored_item [OF kept refl that(2)] that(1) by blast
  show "\<forall>x \<in> set (db_requests d'). rr_status x = RPending \<longrightarrow>
      x \<in> set (db_requests d) \<and> (\<forall>r. RequestChanged r \<in> set events \<longrightarrow> rr_key x \<noteq> (sid, r_id r))"
  proof (intro ballI impI)
    fix x assume x: "x \<in> set (db_requests d')" "rr_status x = RPending"
    from pending_after [OF p] uq(1) d1(2) quiet x
    have "x \<in> set (db_requests d)" and no: "\<forall>e \<in> set stored. \<forall>r. se_event e = RequestChanged r \<longrightarrow> rr_key x \<noteq> (sid, r_id r)"
      using st by (auto simp: closing_def)
    moreover have "rr_key x \<noteq> (sid, r_id r)" if r: "RequestChanged r \<in> set events" for r
    proof -
      from said [OF r] obtain e where "e \<in> set stored" "kept_event (se_event e) = kept_event (RequestChanged r)"
        by (auto simp: on_turn_def)
      with no kept_said(3) show ?thesis by blast
    qed
    ultimately show "x \<in> set (db_requests d) \<and> (\<forall>r. RequestChanged r \<in> set events \<longrightarrow> rr_key x \<noteq> (sid, r_id r))" by blast
  qed
  show "\<forall>x \<in> set (db_items d'). ir_status x = InProgress \<longrightarrow>
      x \<in> set (db_items d) \<and> (\<forall>it. ItemChanged it \<in> set events \<longrightarrow> ir_id x \<noteq> i_id it \<or> ir_session_id x \<noteq> sid)"
  proof (intro ballI impI)
    fix x assume x: "x \<in> set (db_items d')" "ir_status x = InProgress"
    from in_progress_after [OF p] uq(2) d1(1) quiet x
    have "x \<in> set (db_items d)" and no: "\<forall>e \<in> set stored. \<forall>it. item_said (se_event e) = Some it \<longrightarrow>
        ir_id x \<noteq> i_id it \<or> ir_session_id x \<noteq> sid"
      using st by (auto simp: closing_def)
    moreover have "ir_id x \<noteq> i_id it \<or> ir_session_id x \<noteq> sid" if it: "ItemChanged it \<in> set events" for it
    proof -
      from said [OF it] obtain e where e: "e \<in> set stored" "kept_event (ItemChanged it) = kept_event (se_event e)"
        by (auto simp: on_turn_def)
      from kept_item [OF e(2), of it] obtain it0 where "item_said (se_event e) = Some it0" "i_id it0 = i_id it"
        by (auto simp: item_said_def)
      with no e(1) show ?thesis by fastforce
    qed
    ultimately show "x \<in> set (db_items d) \<and> (\<forall>it. ItemChanged it \<in> set events \<longrightarrow> ir_id x \<noteq> i_id it \<or> ir_session_id x \<noteq> sid)"
      by blast
  qed
qed

lemma current_turns_from:
  assumes "TurnChanged t \<in> set (current_turns d sid es)"
  obtains u where "TurnChanged u \<in> set es" "t_id u = t_id t" "t_status u = t_status t"
proof -
  from assms obtain e where e: "e \<in> set es" "TurnChanged t \<in> set (current_turn d sid e)" by (auto simp: current_turns_def)
  from e(2) obtain u where u: "e = TurnChanged u" by (auto simp: current_turn_def split: session_event.splits)
  have "t = u \<or> t = u\<lparr>t_cancellation_requested := True\<rparr>"
    using e(2) unfolding u current_turn_def
    by (simp del: settled_statuses active_statuses split: option.splits if_splits)
  with that [of u] e(1) u show thesis by auto
qed

lemma current_turns_keeps:
  assumes "TurnChanged t \<in> set es" and "\<not> is_active_turn_status (t_status t)"
  shows "TurnChanged t \<in> set (current_turns d sid es)"
proof -
  have "current_turn d sid (TurnChanged t) = [TurnChanged t]"
    using assms(2) by (simp add: current_turn_def del: active_statuses split: option.splits)
  then have "TurnChanged t \<in> set (current_turn d sid (TurnChanged t))" by simp
  with assms(1) show ?thesis unfolding current_turns_def set_concat set_map by blast
qed

text \<open>The status a turn has when the batch says one thing of it.\<close>

lemma append_turn_status:
  assumes run: "append_events now sid cmd events d = Inr (stored, d')" and tc: "turn_constraints (db_turns d)"
    and idle: "\<not> is_active_turn_status st"
    and was: "(\<exists>row. turn_row_of d sid tid = Some row \<and> tr_status row = st) \<or>
      (turn_row_of d sid tid \<noteq> None \<or> tid \<notin> tr_id ` set (db_turns d)) \<and> (\<exists>t. TurnChanged t \<in> set events \<and> t_id t = tid)"
    and only: "\<And>u. TurnChanged u \<in> set events \<Longrightarrow> t_id u = tid \<Longrightarrow> t_status u = st"
  shows "\<exists>row. turn_row_of d' sid tid = Some row \<and> tr_status row = st"
proof -
  obtain d1 where p: "project_all now stored d1 = Inr d'" and d1: "db_turns d1 = db_turns d"
    and st: "\<forall>e \<in> set stored. se_session_id e = sid \<and> se_at e = now"
    and turns: "filter on_turn (map se_event stored) = filter on_turn (current_turns d sid events)"
    by (rule append_runs [OF run])
  have mem: "TurnChanged u \<in> se_event ` set stored \<longleftrightarrow> TurnChanged u \<in> set (current_turns d sid events)" for u
    using arg_cong [OF turns, of "\<lambda>es. TurnChanged u \<in> set es"] by (auto simp: on_turn_def)
  have said: "\<exists>e \<in> set stored. \<exists>u. se_event e = TurnChanged u \<and> t_id u = tid"
    if t: "TurnChanged t \<in> set events" "t_id t = tid" for t
  proof -
    from only [OF t] idle have "\<not> is_active_turn_status (t_status t)" by simp
    with t(1) have "TurnChanged t \<in> se_event ` set stored" using mem current_turns_keeps by blast
    then obtain e where "e \<in> set stored" "TurnChanged t = se_event e" by blast
    with t(2) show ?thesis by (metis (mono_tags))
  qed
  show ?thesis
  proof (rule turn_status_after [OF p])
    show "turn_constraints (db_turns d1)" using tc d1 by simp
    show "\<forall>e \<in> set stored. \<forall>u. se_event e = TurnChanged u \<and> t_id u = tid \<longrightarrow> t_status u = st \<and> se_session_id e = sid"
    proof (intro ballI allI impI)
      fix e u assume e: "e \<in> set stored" "se_event e = TurnChanged u \<and> t_id u = tid"
      then have "TurnChanged u \<in> set (current_turns d sid events)" using mem [of u] by force
      from current_turns_from [OF this] only e(2) st e(1)
      show "t_status u = st \<and> se_session_id e = sid" by metis
    qed
    have same: "turn_row_of d1 sid tid = turn_row_of d sid tid" "db_turns d1 = db_turns d" using d1 by (simp_all add: turn_row_of_def)
    show "(\<exists>row. turn_row_of d1 sid tid = Some row \<and> tr_status row = st) \<or>
         (turn_row_of d1 sid tid \<noteq> None \<or> tid \<notin> tr_id ` set (db_turns d1)) \<and>
         (\<exists>e \<in> set stored. \<exists>u. se_event e = TurnChanged u \<and> t_id u = tid)"
      unfolding same using was said by blast
  qed
qed

section \<open>What a settling says\<close>

text \<open>A row of \<open>agent_items\<close> repeats its payload's id and kind.\<close>

definition rows_tell :: "db \<Rightarrow> bool" where
  "rows_tell d \<longleftrightarrow> (\<forall>r \<in> set (db_items d). i_id (ir_payload r) = ir_id r \<and> kind_of (i_body (ir_payload r)) = ir_kind r)"

lemma pending_steers_row:
  assumes "iid \<in> set (pending_steers d t)"
  obtains row where "row \<in> set (db_items d)" "ir_id row = iid" "ir_turn_id row = Some (t_id t)" "ir_kind row \<in> set INPUT_ITEM_KINDS"
  using assms by (auto simp: pending_steers_def steered_item_ids_def)

lemma requeue_each_events:
  assumes "e \<in> set (requeue_each env now d session t n waits ids)"
  shows "(\<exists>iid \<in> set ids. \<exists>m. e = TurnChanged (queued_turn (steered_turn_id (se_sha env) (t_id t) iid) (t_session_id t) m iid
           (t_provider_thread_id t) None now)) \<or>
    (\<exists>iid \<in> set ids. \<exists>row tid. item_row_of d iid = Some row \<and> e = ItemChanged (input_of tid now (item_from_row row)))"
  using assms
proof (induction ids arbitrary: n waits)
  case (Cons iid ids)
  show ?case
  proof (cases "item_row_of d iid")
    case None
    with Cons show ?thesis by auto
  next
    case (Some row)
    show ?thesis
    proof (cases "joins (item_from_row row) (se_owned env session (item_from_row row)) waits")
      case None
      with Some Cons.prems consider
          "e = TurnChanged (queued_turn (steered_turn_id (se_sha env) (t_id t) iid) (t_session_id t) (Suc n) iid
             (t_provider_thread_id t) None now)"
        | "\<exists>tid. e = ItemChanged (input_of tid now (item_from_row row))"
        | "\<exists>n waits. e \<in> set (requeue_each env now d session t n waits ids)"
        by (auto simp: Let_def)
      then show ?thesis using Some Cons.IH by cases (fastforce, fastforce, (elim exE, drule Cons.IH, fastforce))
    next
      case (Some tid)
      with \<open>item_row_of d iid = Some row\<close> Cons.prems have
        "e = ItemChanged (input_of tid now (item_from_row row)) \<or> e \<in> set (requeue_each env now d session t n waits ids)"
        by (auto simp: Let_def)
      with \<open>item_row_of d iid = Some row\<close> Cons.IH [of n waits] show ?thesis by fastforce
    qed
  qed
qed simp

lemma requeued_closing:
  assumes req: "requeue_steers env now d t = Inr es" and rows: "rows_tell d" and uq: "unique_keys ir_id (db_items d)"
    and e: "e \<in> set es"
  shows "closing e"
proof -
  from req e obtain session n waits where in_each: "e \<in> set (requeue_each env now d session t n waits (pending_steers d t))"
    by (auto simp: requeue_steers_def split: if_splits option.splits)
  from requeue_each_events [OF this] show ?thesis
  proof
    assume "\<exists>iid \<in> set (pending_steers d t). \<exists>row tid. item_row_of d iid = Some row \<and>
      e = ItemChanged (input_of tid now (item_from_row row))"
    then obtain iid row u where it: "iid \<in> set (pending_steers d t)" "item_row_of d iid = Some row"
      "e = ItemChanged (input_of u now (item_from_row row))" by blast
    from it(1) obtain row' where row': "row' \<in> set (db_items d)" "ir_id row' = iid" "ir_kind row' \<in> set INPUT_ITEM_KINDS"
      by (rule pending_steers_row)
    have "row = row'" using it(2) find_row_unique [OF uq row'(1)] row'(2) by (simp add: item_row_of_def)
    with row' rows have "is_input_item (item_from_row row)"
      by (auto simp: rows_tell_def item_from_row_def input_kinds [symmetric])
    then show ?thesis unfolding it(3) by (simp add: closing_events input_of_def)
  qed (auto simp: closing_events)
qed

lemma close_open_work_events:
  assumes "e \<in> set (close_open_work d t reason now)"
  shows "closing e" "\<not> on_turn e"
  using assms by (auto simp: close_open_work_def closing_events on_turn_def)

text \<open>Everything open of the turn is named by the events that close it.\<close>

lemma close_open_work_requests:
  assumes "r \<in> set (pending_of d t)" and "\<not> outlives r" and "unique_keys rr_key (db_requests d)"
  shows "\<exists>rq. RequestChanged rq \<in> set (close_open_work d t reason now) \<and> r_id rq = rr_request_id r"
proof -
  have "r_id (request_from_row r) \<notin> set (outliving d t)"
  proof
    assume "r_id (request_from_row r) \<in> set (outliving d t)"
    then obtain r' where r': "r' \<in> set (pending_of d t)" "outlives r'" "rr_request_id r' = rr_request_id r"
      by (auto simp: outliving_def request_from_row_def)
    with assms(1) have "rr_key r' = rr_key r" "r' \<in> set (db_requests d)" "r \<in> set (db_requests d)"
      by (auto simp: rr_key_def pending_of_def)
    with find_row_unique [OF assms(3)] have "r' = r" by (metis option.inject)
    with r'(2) assms(2) show False by simp
  qed
  with assms(1) show ?thesis
    unfolding close_open_work_def by (intro exI [of _ "(request_from_row r)\<lparr>r_status := RExpired, r_answerable := False, r_reason := Some reason,
            r_resolved_at := Some now\<rparr>"]) (force simp: request_from_row_def)
qed

lemma close_open_work_items:
  assumes "r \<in> set (open_items d t)" and "\<not> asks_on (outliving d t) (item_from_row r)" and "rows_tell d"
  shows "\<exists>it. ItemChanged it \<in> set (close_open_work d t reason now) \<and> i_id it = ir_id r"
  using assms unfolding close_open_work_def
  by (intro exI [of _ "(item_from_row r)\<lparr>i_status := ItemCancelled, i_ended_at := Some now, i_updated_at := now\<rparr>"])
    (force simp: rows_tell_def item_from_row_def open_items_def)


lemma settle_cases:
  assumes "settle env now random claimed tok session t a status error outcome after d = Inr (out, d')"
  obtains requeued stored d1 rest where
    "owns now claimed tok d"
    "append_events now (t_session_id t) None
       (ended_attempt_event now status error a @ close_open_work d t ''The turn ended before it was answered.'' now @
        [TurnChanged (sd_turn out)] @ requeued @ rest) d = Inr (stored, d1)"
    "if sd_retrying out then requeued = [] else requeue_steers env now d t = Inr requeued"
    "\<forall>e \<in> set rest. closing e \<and> \<not> on_turn e \<and> item_said e = None"
    "d' = release (t_id t) (drop_commands now (t_id t) d1) \<or>
     (\<exists>tm. d' = release (t_id t) (schedule_retry (t_id t) tm (drop_commands now (t_id t) d1)))"
    "t_id (sd_turn out) = t_id t" "t_session_id (sd_turn out) = t_session_id t"
    "sd_retrying out \<longleftrightarrow> t_status (sd_turn out) = Queued"
    "is_settled_turn_status (t_status (sd_turn out)) \<or> t_status (sd_turn out) = Queued"
proof -
  define retry_at where "retry_at = (if passing_failure status error (t_attempt_count t)
                      then Some (retry_instant now random (t_attempt_count t)) else None)"
  define stopped where "stopped = (retry_at \<noteq> None \<and> stop_stands d t)"
  define retrying where "retrying = (retry_at \<noteq> None \<and> \<not> stopped)"
  define planned where "planned = settled_turn now status error outcome after retry_at t"
  define final where "final = (if stopped then planned\<lparr>t_status := Interrupted, t_retry_at := None, t_completed_at := Some now\<rparr>
                      else planned)"
  define rest where "rest = (if thread_saw d t a status then thread_seen d t (a_provider_thread_id a) now else []) @
                         attention session status retrying outcome"
  define events where "events = (\<lambda>requeued. ended_attempt_event now status error a @
     close_open_work d t ''The turn ended before it was answered.'' now @ [TurnChanged final] @ requeued @ rest)"
  define tail where "tail = (\<lambda>d1. release (t_id t) (case retry_at of None \<Rightarrow> drop_commands now (t_id t) d1
        | Some at' \<Rightarrow> schedule_retry (t_id t) at' (drop_commands now (t_id t) d1)))"
  have eq: "settle env now random claimed tok session t a status error outcome after d =
    (if \<not> owns now claimed tok d then Inl (LeaseLost claimed)
     else case (if retrying then Inr [] else requeue_steers env now d t) of
       Inl err \<Rightarrow> Inl err
     | Inr requeued \<Rightarrow> (case append_events now (t_session_id t) None (events requeued) d of
           Inl err \<Rightarrow> Inl err
         | Inr (_, d1) \<Rightarrow> Inr (\<lparr>sd_turn = final, sd_reply = last_reply (t_id t) (tail d1), sd_retrying = retrying\<rparr>, tail d1)))"
    by (simp only: settle_def Let_def events_def tail_def rest_def final_def planned_def retrying_def stopped_def retry_at_def)
  note runs = assms [unfolded eq]
  have own: "owns now claimed tok d" using runs by (auto split: if_splits)
  obtain requeued where req: "(if retrying then Inr [] else requeue_steers env now d t) = Inr requeued"
    using runs own by (cases "if retrying then Inr [] else requeue_steers env now d t") auto
  obtain stored d1 where run: "append_events now (t_session_id t) None (events requeued) d = Inr (stored, d1)"
    using runs own req by (cases "append_events now (t_session_id t) None (events requeued) d") auto
  have out: "out = \<lparr>sd_turn = final, sd_reply = last_reply (t_id t) (tail d1), sd_retrying = retrying\<rparr>"
    and d': "d' = tail d1"
    using runs own req run by auto
  have turn: "sd_turn out = final" "sd_retrying out = retrying" by (simp_all add: out)
  show thesis
  proof (rule that [OF own])
    show "append_events now (t_session_id t) None
       (ended_attempt_event now status error a @ close_open_work d t ''The turn ended before it was answered.'' now @
        [TurnChanged (sd_turn out)] @ requeued @ rest) d = Inr (stored, d1)" using run turn by (simp add: events_def)
    show "if sd_retrying out then requeued = [] else requeue_steers env now d t = Inr requeued"
      using req turn by (auto split: if_splits)
    show "\<forall>e \<in> set rest. closing e \<and> \<not> on_turn e \<and> item_said e = None"
      by (auto simp: rest_def item_said_def thread_seen_def attention_def closing_events on_turn_def split: option.splits)
    show "d' = release (t_id t) (drop_commands now (t_id t) d1) \<or>
      (\<exists>tm. d' = release (t_id t) (schedule_retry (t_id t) tm (drop_commands now (t_id t) d1)))"
      using d' by (auto simp: tail_def split: option.splits)
    show "t_id (sd_turn out) = t_id t" "t_session_id (sd_turn out) = t_session_id t"
      by (simp_all add: turn final_def planned_def settled_turn_def)
    show "sd_retrying out \<longleftrightarrow> t_status (sd_turn out) = Queued"
      "is_settled_turn_status (t_status (sd_turn out)) \<or> t_status (sd_turn out) = Queued"
      by (auto simp: turn final_def planned_def settled_turn_def retrying_def settled_status_def split: completion_status.splits)
  qed
qed

lemma released_tables:
  assumes "d' = release tid (drop_commands now tid d1) \<or> (\<exists>tm. d' = release tid (schedule_retry tid tm (drop_commands now tid d1)))"
  shows "db_items d' = db_items d1" "db_requests d' = db_requests d1" "open_commands tid d' = []"
    "map_option (\<lambda>r. (tr_status r, tr_lease_token r, tr_lease_owner r)) (turn_row_of d' sid tid) =
     map_option (\<lambda>r. (tr_status r, None, None)) (turn_row_of d1 sid tid)"
    "map_option tr_status (turn_row_of d' sid k) = map_option tr_status (turn_row_of d1 sid k)"
proof -
  have cm: "db_items (drop_commands now tid d1) = db_items d1" "db_requests (drop_commands now tid d1) = db_requests d1"
    "db_turns (drop_commands now tid d1) = db_turns d1"
    by (simp_all add: drop_commands_def mark_commands_def)
  show "db_items d' = db_items d1" "db_requests d' = db_requests d1"
    using assms cm by (auto simp: release_def schedule_retry_def)
  have same: "db_commands d' = db_commands (drop_commands now tid d1)"
    using assms by (auto simp: release_def schedule_retry_def)
  have closed: "tc_turn_id c = tid \<Longrightarrow> tc_status c \<noteq> CPending \<and> tc_status c \<noteq> CSent"
    if "c \<in> set (db_commands (drop_commands now tid d1))" for c
    using that by (auto simp: drop_commands_def mark_commands_def open_commands_def update_where_def set_empty [symmetric]
        simp del: set_empty split: if_splits)
  show "open_commands tid d' = []"
    unfolding open_commands_def same using closed by (auto simp: filter_empty_conv)
  have find: "find_row tr_id tid (filter (\<lambda>r. tr_session_id r = sid) (update_where (\<lambda>r. tr_id r = tid) f xs)) =
      map_option f (find_row tr_id tid (filter (\<lambda>r. tr_session_id r = sid) xs))"
    if "\<And>r. tr_id (f r) = tr_id r" "\<And>r. tr_session_id (f r) = tr_session_id r" for f xs
    using that by (induction xs) auto
  show "map_option (\<lambda>r. (tr_status r, tr_lease_token r, tr_lease_owner r)) (turn_row_of d' sid tid) =
     map_option (\<lambda>r. (tr_status r, None, None)) (turn_row_of d1 sid tid)"
    using assms cm(3) by (auto simp: turn_row_of_def release_def schedule_retry_def find option.map_comp o_def)
  have stat: "map_option tr_status (find_row tr_id k (filter (\<lambda>r. tr_session_id r = sid) (update_where (\<lambda>r. tr_id r = tid) f xs))) =
      map_option tr_status (find_row tr_id k (filter (\<lambda>r. tr_session_id r = sid) xs))"
    if "\<And>r. tr_id (f r) = tr_id r" "\<And>r. tr_session_id (f r) = tr_session_id r" "\<And>r. tr_status (f r) = tr_status r" for f xs
    using that by (induction xs) auto
  show "map_option tr_status (turn_row_of d' sid k) = map_option tr_status (turn_row_of d1 sid k)"
    using assms cm(3) by (auto simp: turn_row_of_def release_def schedule_retry_def stat)
qed


section \<open>Nothing of a settled turn stays open\<close>

text \<open>Property C32: when a turn settles, in one transaction, its row takes the status the holder decided (queued again
  when it is retried, settled otherwise) and loses its lease; no question or approval of it is pending but the
  non-blocking questions, which outlive it; no item of it is in progress but a message nobody took in and the item such a
  question shows in; and no command for it is open.\<close>

theorem settle_leaves_nothing_open:
  assumes run: "settle env now random claimed tok session t a status error outcome after d = Inr (out, d')"
    and tc: "turn_constraints (db_turns d)" and row: "turn_row_of d (t_session_id t) (t_id t) \<noteq> None"
    and uq: "unique_keys rr_key (db_requests d)" "unique_keys ir_id (db_items d)" and rows: "rows_tell d"
    and fresh: "\<forall>iid \<in> set (pending_steers d t). steered_turn_id (se_sha env) (t_id t) iid \<noteq> t_id t"
  shows "(\<exists>r. turn_row_of d' (t_session_id t) (t_id t) = Some r \<and> tr_status r = t_status (sd_turn out) \<and>
          tr_lease_token r = None \<and> tr_lease_owner r = None) \<and>
    (if sd_retrying out then t_status (sd_turn out) = Queued else is_settled_turn_status (t_status (sd_turn out))) \<and>
    (\<forall>r \<in> set (pending_of d' t). r \<in> set (db_requests d) \<and> outlives r) \<and>
    (\<forall>r \<in> set (open_items d' t). ir_session_id r = t_session_id t \<longrightarrow> asks_on (outliving d t) (item_from_row r)) \<and>
    open_commands (t_id t) d' = []"
proof -
  let ?sid = "t_session_id t" and ?work = "close_open_work d t ''The turn ended before it was answered.'' now"
  obtain requeued stored d1 rest where app: "append_events now ?sid None
       (ended_attempt_event now status error a @ ?work @ [TurnChanged (sd_turn out)] @ requeued @ rest) d = Inr (stored, d1)"
    and req: "if sd_retrying out then requeued = [] else requeue_steers env now d t = Inr requeued"
    and rest: "\<forall>e \<in> set rest. closing e \<and> \<not> on_turn e \<and> item_said e = None"
    and tail: "d' = release (t_id t) (drop_commands now (t_id t) d1) \<or>
     (\<exists>tm. d' = release (t_id t) (schedule_retry (t_id t) tm (drop_commands now (t_id t) d1)))"
    and out: "t_id (sd_turn out) = t_id t" "sd_retrying out \<longleftrightarrow> t_status (sd_turn out) = Queued"
      "is_settled_turn_status (t_status (sd_turn out)) \<or> t_status (sd_turn out) = Queued"
    by (rule settle_cases [OF run]) (rule that; assumption)
  let ?es = "ended_attempt_event now status error a @ ?work @ [TurnChanged (sd_turn out)] @ requeued @ rest"
  note tables = released_tables [OF tail]
  have cl: "\<forall>e \<in> set ?es. closing e"
    using rest req close_open_work_events(1) requeued_closing [OF _ rows uq(2)]
    by (auto simp: ended_attempt_event_def closing_events split: if_splits)
  note closed = closing_append [OF app cl uq]
  have turn_es: "t_status u = t_status (sd_turn out)" if u: "TurnChanged u \<in> set ?es" "t_id u = t_id t" for u
  proof -
    have "TurnChanged u \<notin> set requeued"
    proof
      assume mem: "TurnChanged u \<in> set requeued"
      with req obtain s n waits where "TurnChanged u \<in> set (requeue_each env now d s t n waits (pending_steers d t))"
        by (auto simp: requeue_steers_def split: if_splits option.splits)
      from requeue_each_events [OF this] u(2) fresh show False by (auto simp: queued_turn_def)
    qed
    moreover have "on_turn (TurnChanged u)" by (simp add: on_turn_def)
    then have "TurnChanged u \<notin> set ?work" "TurnChanged u \<notin> set rest"
      using close_open_work_events(2) rest by blast+
    ultimately show ?thesis using u by (auto simp: ended_attempt_event_def split: if_splits)
  qed
  have "\<exists>r. turn_row_of d1 ?sid (t_id t) = Some r \<and> tr_status r = t_status (sd_turn out)"
  proof (rule append_turn_status [OF app tc _ disjI2 turn_es])
    show "\<not> is_active_turn_status (t_status (sd_turn out))" using out(3) by auto
    have "TurnChanged (sd_turn out) \<in> set ?es" by simp
    with row out(1) show "(turn_row_of d ?sid (t_id t) \<noteq> None \<or> t_id t \<notin> tr_id ` set (db_turns d)) \<and>
      (\<exists>u. TurnChanged u \<in> set ?es \<and> t_id u = t_id t)" by blast
  qed
  then have st: "\<exists>r. turn_row_of d' ?sid (t_id t) = Some r \<and> tr_status r = t_status (sd_turn out) \<and>
          tr_lease_token r = None \<and> tr_lease_owner r = None"
    using tables(4) [of ?sid] by (cases "turn_row_of d' ?sid (t_id t)") auto
  have reqs: "r \<in> set (db_requests d) \<and> outlives r" if r: "r \<in> set (pending_of d' t)" for r
  proof -
    from r have r1: "r \<in> set (db_requests d1)" "rr_status r = RPending" and of: "rr_session_id r = ?sid" "rr_turn_id r = Some (t_id t)"
      using tables(2) by (auto simp: pending_of_def)
    from closed(1) r1 have old: "r \<in> set (db_requests d)"
      and no: "\<And>rq. RequestChanged rq \<in> set ?es \<Longrightarrow> rr_key r \<noteq> (?sid, r_id rq)" by blast+
    have "outlives r"
    proof (rule ccontr)
      assume "\<not> outlives r"
      moreover have "r \<in> set (pending_of d t)" using old of r1(2) by (simp add: pending_of_def)
      ultimately obtain rq where "RequestChanged rq \<in> set ?work" "r_id rq = rr_request_id r"
        using close_open_work_requests uq(1) by blast
      with no [of rq] of show False by (simp add: rr_key_def)
    qed
    with old show ?thesis ..
  qed
  have items: "asks_on (outliving d t) (item_from_row r)" if r: "r \<in> set (open_items d' t)" "ir_session_id r = ?sid" for r
  proof (rule ccontr)
    assume ask: "\<not> asks_on (outliving d t) (item_from_row r)"
    from r have "r \<in> set (db_items d1)" "ir_status r = InProgress" using tables(1) by (auto simp: open_items_def)
    with closed(2) have old: "r \<in> set (db_items d)"
      and no: "\<And>it. ItemChanged it \<in> set ?es \<Longrightarrow> ir_id r \<noteq> i_id it \<or> ir_session_id r \<noteq> ?sid" by blast+
    from r(1) old have "r \<in> set (open_items d t)" by (auto simp: open_items_def)
    from close_open_work_items [OF this ask rows] obtain it where "ItemChanged it \<in> set ?work" "i_id it = ir_id r" by blast
    with no [of it] r(2) show False by simp
  qed
  have "if sd_retrying out then t_status (sd_turn out) = Queued else is_settled_turn_status (t_status (sd_turn out))"
    using out(2,3) by auto
  with st reqs items tables(3) show ?thesis by blast
qed


section \<open>No message is dropped\<close>

text \<open>Whatever is requeued is said once, of a turn queued here or of the one already waiting.\<close>

lemma requeue_each_covers:
  assumes "distinct ids" and "\<forall>iid \<in> set ids. \<exists>row. item_row_of d iid = Some row \<and> i_id (item_from_row row) = iid"
    and "iid \<in> set ids"
  shows "\<exists>tid. (\<exists>it. ItemChanged it \<in> set (requeue_each env now d session t n waits ids) \<and> i_id it = iid) \<and>
    (\<forall>it. ItemChanged it \<in> set (requeue_each env now d session t n waits ids) \<and> i_id it = iid \<longrightarrow> i_turn_id it = Some tid) \<and>
    ((\<exists>m j. TurnChanged (queued_turn tid (t_session_id t) m j (t_provider_thread_id t) None now)
        \<in> set (requeue_each env now d session t n waits ids)) \<or> (\<exists>own. waits = Some (tid, own)))"
  using assms
proof (induction ids arbitrary: n waits)
  case (Cons k ids)
  let ?each = "\<lambda>n waits. requeue_each env now d session t n waits ids"
  from Cons.prems(2) obtain row where row: "item_row_of d k = Some row" "i_id (item_from_row row) = k" by auto
  have ids: "i_id (input_of u now it) = i_id it" "i_turn_id (input_of u now it) = Some u" for u it
    by (simp_all add: input_of_def)
  have later: "i_id it \<noteq> k" if "ItemChanged it \<in> set (?each n waits)" for it n waits
  proof -
    from requeue_each_events [OF that] obtain k' row' u where k': "k' \<in> set ids" "item_row_of d k' = Some row'"
      "it = input_of u now (item_from_row row')" by auto
    from Cons.prems(2) k'(1,2) have "i_id (item_from_row row') = k'" by auto
    with k'(1,3) Cons.prems(1) show ?thesis by (auto simp: ids)
  qed
  have IH: "\<exists>tid. (\<exists>it. ItemChanged it \<in> set (?each n waits) \<and> i_id it = iid) \<and>
      (\<forall>it. ItemChanged it \<in> set (?each n waits) \<and> i_id it = iid \<longrightarrow> i_turn_id it = Some tid) \<and>
      ((\<exists>m j. TurnChanged (queued_turn tid (t_session_id t) m j (t_provider_thread_id t) None now) \<in> set (?each n waits)) \<or>
       (\<exists>own. waits = Some (tid, own)))" if "iid \<noteq> k" for n waits
  proof -
    have kept: "distinct ids" "iid \<in> set ids" using Cons.prems(1,3) that by auto
    have found: "\<forall>iid \<in> set ids. \<exists>row. item_row_of d iid = Some row \<and> i_id (item_from_row row) = iid"
      using Cons.prems(2) by auto
    show ?thesis by (rule Cons.IH [OF kept(1) found kept(2)])
  qed
  show ?case
  proof (cases "joins (item_from_row row) (se_owned env session (item_from_row row)) waits")
    case (Some u)
    then have run: "requeue_each env now d session t n waits (k # ids) =
        ItemChanged (input_of u now (item_from_row row)) # ?each n waits" by (simp add: row Let_def)
    show ?thesis
    proof (cases "iid = k")
      case True
      have "\<exists>own. waits = Some (u, own)" using Some by (auto simp: joins_def split: option.splits if_splits)
      with True later row(2) show ?thesis unfolding run by (intro exI [of _ u]) (auto simp: ids)
    next
      case False
      from IH [OF this, of n waits] obtain v where "\<exists>it. ItemChanged it \<in> set (?each n waits) \<and> i_id it = iid"
        "\<forall>it. ItemChanged it \<in> set (?each n waits) \<and> i_id it = iid \<longrightarrow> i_turn_id it = Some v"
        "(\<exists>m j. TurnChanged (queued_turn v (t_session_id t) m j (t_provider_thread_id t) None now) \<in> set (?each n waits)) \<or>
         (\<exists>own. waits = Some (v, own))" by blast
      with False row(2) show ?thesis unfolding run by (intro exI [of _ v]) (auto simp: ids)
    qed
  next
    case None
    let ?u = "steered_turn_id (se_sha env) (t_id t) k"
    let ?next = "queued_turn ?u (t_session_id t) (Suc n) k (t_provider_thread_id t) None now"
    let ?waits = "if is_notification (item_from_row row)
      then Some (?u, se_owned env session (item_from_row row)) else waits"
    have [simp]: "t_id ?next = ?u" by (simp add: queued_turn_def)
    from None have run: "requeue_each env now d session t n waits (k # ids) =
        TurnChanged ?next # ItemChanged (input_of ?u now (item_from_row row)) # ?each (Suc n) ?waits"
      by (simp add: row Let_def)
    show ?thesis
    proof (cases "iid = k")
      case True
      with later row(2) show ?thesis unfolding run by (intro exI [of _ ?u]) (auto simp: ids)
    next
      case False
      from IH [OF this, of "Suc n" ?waits] obtain v where v: "\<exists>it. ItemChanged it \<in> set (?each (Suc n) ?waits) \<and> i_id it = iid"
        "\<forall>it. ItemChanged it \<in> set (?each (Suc n) ?waits) \<and> i_id it = iid \<longrightarrow> i_turn_id it = Some v"
        "(\<exists>m j. TurnChanged (queued_turn v (t_session_id t) m j (t_provider_thread_id t) None now) \<in> set (?each (Suc n) ?waits)) \<or>
         (\<exists>own. ?waits = Some (v, own))" by blast
      have "(\<exists>own. ?waits = Some (v, own)) \<Longrightarrow> v = ?u \<or> (\<exists>own. waits = Some (v, own))" by (auto split: if_splits)
      with v False row(2) show ?thesis unfolding run by (intro exI [of _ v]) (auto simp: ids)
    qed
  qed
qed simp

text \<open>The turn an item is of, when every event of the batch about it says the same.\<close>

lemma item_turn_after:
  assumes "project_all now es d = Inr d'" and "unique_keys ir_id (db_items d)"
    and "\<exists>row \<in> set (db_items d). ir_id row = iid \<and> ir_session_id row = sid"
    and "\<forall>e \<in> set es. \<not> streams (se_event e) \<and> se_session_id e = sid \<and>
      (\<forall>it. item_said (se_event e) = Some it \<and> i_id it = iid \<longrightarrow> i_turn_id it = Some tid)"
    and "(\<exists>row \<in> set (db_items d). ir_id row = iid \<and> ir_turn_id row = Some tid) \<or>
         (\<exists>e \<in> set es. \<exists>it. item_said (se_event e) = Some it \<and> i_id it = iid)"
  shows "\<exists>row \<in> set (db_items d'). ir_id row = iid \<and> ir_session_id row = sid \<and> ir_turn_id row = Some tid"
  using assms
proof (induction now es d rule: project_all.induct)
  case (1 now d)
  then obtain row row' where "row \<in> set (db_items d)" "ir_id row = iid" "ir_session_id row = sid"
    "row' \<in> set (db_items d)" "ir_id row' = iid" "ir_turn_id row' = Some tid" by auto
  with find_row_unique [OF 1(2)] have "row = row'" by (metis option.inject)
  with 1(1) \<open>row \<in> _\<close> \<open>ir_id row = iid\<close> \<open>ir_session_id row = sid\<close> \<open>ir_turn_id row' = Some tid\<close> show ?case by auto
next
  case (2 now e es d)
  from 2(2) obtain d1 where d1: "project now e d = Inr d1" "project_all now es d1 = Inr d'" by (auto split: sum.splits)
  from 2(5) have quiet: "\<not> streams (se_event e)" and of: "se_session_id e = sid" by auto
  note it = project_items_said [OF d1(1) quiet, unfolded of]
  have u: "unique_keys ir_id (db_items d1)"
    using 2(3) it by (auto simp: item_row_fields split: option.splits intro!: unique_keys_upsert)
  from 2(4) obtain row where row: "row \<in> set (db_items d)" "ir_id row = iid" "ir_session_id row = sid" by blast
  have find: "find_row ir_id iid (db_items d) = Some row" using find_row_unique [OF 2(3) row(1)] row(2) by simp
  let ?said = "\<exists>i. item_said (se_event e) = Some i \<and> i_id i = iid"
  have next_row: "find_row ir_id iid (db_items d1) = Some (case item_said (se_event e) of None \<Rightarrow> row
      | Some i \<Rightarrow> if i_id i = iid then update_item_row sid i row else row)"
  proof (cases "item_said (se_event e)")
    case (Some i)
    have ids: "ir_id (new_item_row sid i) = i_id i" "\<And>x. ir_id (update_item_row sid i x) = ir_id x"
      by (simp_all add: item_row_fields)
    show ?thesis
    proof (cases "i_id i = iid")
      case True
      with it Some find find_row_upsert_same [of ir_id "update_item_row sid i" "new_item_row sid i" "db_items d"] ids
      show ?thesis by simp
    next
      case False
      with it Some find find_row_upsert_other [of ir_id "update_item_row sid i" iid "new_item_row sid i" "db_items d"] ids
      show ?thesis by simp
    qed
  qed (use it find in simp)
  obtain row1 where row1: "find_row ir_id iid (db_items d1) = Some row1" "ir_session_id row1 = sid"
    "?said \<Longrightarrow> ir_turn_id row1 = Some tid" "\<not> ?said \<Longrightarrow> row1 = row"
    using next_row row(3) 2(5) by (auto simp: item_row_fields split: option.splits if_splits)
  from find_row_Some [OF row1(1)] row1(2) have in1: "row1 \<in> set (db_items d1)" "ir_id row1 = iid" "ir_session_id row1 = sid" by auto
  have "(\<exists>row \<in> set (db_items d1). ir_id row = iid \<and> ir_turn_id row = Some tid) \<or>
         (\<exists>e \<in> set es. \<exists>it. item_said (se_event e) = Some it \<and> i_id it = iid)"
  proof (cases ?said)
    case True
    with row1(3) in1 show ?thesis by blast
  next
    case False
    show ?thesis
    proof (cases "\<exists>e \<in> set es. \<exists>it. item_said (se_event e) = Some it \<and> i_id it = iid")
      case nothing: False
      with 2(6) False obtain r where "r \<in> set (db_items d)" "ir_id r = iid" "ir_turn_id r = Some tid" by auto
      with find_row_unique [OF 2(3)] find have "ir_turn_id row = Some tid" by (metis option.inject)
      with row1(4) [OF False] in1 show ?thesis by auto
    qed blast
  qed
  from 2(1) [OF d1(1) d1(2) u _ _ this] in1 2(5) show ?case by auto
qed


lemma append_item_turn:
  assumes run: "append_events now sid cmd events d = Inr (stored, d')" and uq: "unique_keys ir_id (db_items d)"
    and row: "\<exists>row \<in> set (db_items d). ir_id row = iid \<and> ir_session_id row = sid"
    and quiet: "\<forall>e \<in> set events. \<not> streams e"
    and said: "e0 \<in> set events" "item_said e0 = Some it0" "i_id it0 = iid"
    and only: "\<And>e it. e \<in> set events \<Longrightarrow> item_said e = Some it \<Longrightarrow> i_id it = iid \<Longrightarrow> i_turn_id it = Some tid"
  shows "\<exists>row \<in> set (db_items d'). ir_id row = iid \<and> ir_session_id row = sid \<and> ir_turn_id row = Some tid"
proof -
  obtain d1 where p: "project_all now stored d1 = Inr d'" and d1: "db_items d1 = db_items d"
    and st: "\<forall>e \<in> set stored. se_session_id e = sid \<and> se_at e = now"
    and kept: "map kept_event (filter (\<lambda>e. \<not> on_turn e) (map se_event stored)) = map kept_event (filter (\<lambda>e. \<not> on_turn e) events)"
    by (rule append_runs [OF run])
  show ?thesis
  proof (rule item_turn_after [OF p])
    show "unique_keys ir_id (db_items d1)" "\<exists>row \<in> set (db_items d1). ir_id row = iid \<and> ir_session_id row = sid"
      using uq row d1 by simp_all
    show "\<forall>e \<in> set stored. \<not> streams (se_event e) \<and> se_session_id e = sid \<and>
      (\<forall>it. item_said (se_event e) = Some it \<and> i_id it = iid \<longrightarrow> i_turn_id it = Some tid)"
    proof
      fix e assume e: "e \<in> set stored"
      show "\<not> streams (se_event e) \<and> se_session_id e = sid \<and>
        (\<forall>it. item_said (se_event e) = Some it \<and> i_id it = iid \<longrightarrow> i_turn_id it = Some tid)"
      proof (cases "on_turn (se_event e)")
        case True
        with e st show ?thesis by (auto simp: on_turn_def streams_def item_said_def split: session_event.splits)
      next
        case False
        from stored_origin [OF kept e this] obtain e1 where e1: "e1 \<in> set events" "kept_event (se_event e) = kept_event e1"
          by blast
        have "i_turn_id it = Some tid" if it: "item_said (se_event e) = Some it" "i_id it = iid" for it
        proof -
          obtain it1 where "item_said e1 = Some it1" "i_id it1 = i_id it" "i_turn_id it1 = i_turn_id it"
            by (rule kept_item [OF e1(2) it(1)])
          with only [OF e1(1)] it(2) show ?thesis by metis
        qed
        with e st quiet e1(1) kept_said(2) [OF e1(2)] show ?thesis by blast
      qed
    qed
    have "\<not> on_turn e0" using said(2) by (auto simp: on_turn_def item_said_def split: session_event.splits)
    with stored_item [OF kept refl] said(1) obtain e where e: "e \<in> set stored" "kept_event e0 = kept_event (se_event e)"
      by metis
    obtain it where "item_said (se_event e) = Some it" "i_id it = i_id it0" by (rule kept_item [OF e(2) said(2)])
    with e(1) said(3) show "(\<exists>row \<in> set (db_items d1). ir_id row = iid \<and> ir_turn_id row = Some tid) \<or>
         (\<exists>e \<in> set stored. \<exists>it. item_said (se_event e) = Some it \<and> i_id it = iid)" by blast
  qed
qed

lemma pending_steers_distinct:
  assumes "unique_keys ir_id (db_items d)"
  shows "distinct (pending_steers d t)"
proof -
  have "distinct (map ir_id (filter P (db_items d)))" for P
    using assms by (auto simp: unique_keys_def distinct_map intro: inj_on_subset)
  then have "distinct (map ir_id (sort_key f (filter P (db_items d))))" for f :: "item_row \<Rightarrow> nat" and P
    by (simp add: distinct_map)
  then show ?thesis unfolding pending_steers_def steered_item_ids_def by (intro distinct_filter)
qed

lemma waiting_turn_row:
  assumes "notification_turn env now d session sid = Some (tid, own)" and "unique_keys tr_id (db_turns d)"
  shows "\<exists>row. turn_row_of d sid tid = Some row \<and> tr_status row = Queued"
proof -
  from assms(1) obtain t where "waiting_notification_turn now d sid = Some t" and id: "t_id t = tid"
    by (auto simp: notification_turn_def split: option.splits if_splits)
  then have "t \<in> set (waiting_notification_turns now d sid 1)"
    by (auto simp: waiting_notification_turn_def split: list.splits)
  then obtain row where row: "row \<in> set (db_turns d)" "tr_session_id row = sid" "tr_status row = Queued" "tr_id row = tid"
    using id by (auto simp: waiting_notification_turns_def turn_from_row_def dest!: in_set_takeD)
  have "unique_keys tr_id (filter (\<lambda>r. tr_session_id r = sid) (db_turns d))"
    using assms(2) by (auto simp: unique_keys_def distinct_map intro: inj_on_subset)
  from find_row_unique [OF this, of row] row show ?thesis by (auto simp: turn_row_of_def)
qed

text \<open>
  The events of a settling that ends its turn: its turn events are the turn's own and those of the turns queued for the
  messages nobody took in, and of such a message only the requeuing speaks.
\<close>

definition settling :: "settle_env \<Rightarrow> instant \<Rightarrow> db \<Rightarrow> turn \<Rightarrow> turn \<Rightarrow> session_event list \<Rightarrow> session_event list \<Rightarrow> bool" where
  "settling env now d t final requeued es \<longleftrightarrow> (\<exists>status error a session rest.
     es = ended_attempt_event now status error a @ close_open_work d t ''The turn ended before it was answered.'' now @
       [TurnChanged final] @ requeued @ rest \<and>
     requeued = requeue_each env now d session t (max_ordinal d t) (notification_turn env now d session (t_session_id t))
       (pending_steers d t) \<and>
     (\<forall>e \<in> set rest. closing e \<and> \<not> on_turn e \<and> item_said e = None))"

lemma queued_turn_fields [simp]: "t_id (queued_turn u s m k th c now) = u" "t_status (queued_turn u s m k th c now) = Queued"
  by (simp_all add: queued_turn_def)

lemma settling_requeued:
  assumes "settling env now d t final requeued es" and "e \<in> set requeued"
  shows "(\<exists>k \<in> set (pending_steers d t). \<exists>m. e = TurnChanged (queued_turn (steered_turn_id (se_sha env) (t_id t) k)
      (t_session_id t) m k (t_provider_thread_id t) None now)) \<or> (\<exists>it. e = ItemChanged it)"
  using assms requeue_each_events unfolding settling_def by blast

lemma settling_turns:
  assumes st: "settling env now d t final requeued es" and u: "TurnChanged u \<in> set es"
  shows "u = final \<or> (\<exists>k \<in> set (pending_steers d t). t_id u = steered_turn_id (se_sha env) (t_id t) k \<and> t_status u = Queued)"
proof -
  from st obtain status error a rest where es: "es = ended_attempt_event now status error a @
      close_open_work d t ''The turn ended before it was answered.'' now @ [TurnChanged final] @ requeued @ rest"
    and rest: "\<forall>e \<in> set rest. \<not> on_turn e" unfolding settling_def by blast
  have "on_turn (TurnChanged u)" by (simp add: on_turn_def)
  then have "TurnChanged u \<notin> set (close_open_work d t ''The turn ended before it was answered.'' now)" "TurnChanged u \<notin> set rest"
    using close_open_work_events(2) rest by blast+
  with u have "u = final \<or> TurnChanged u \<in> set requeued" unfolding es by (auto simp: ended_attempt_event_def split: if_splits)
  with settling_requeued [OF st, of "TurnChanged u"] show ?thesis by fastforce
qed

lemma open_work_no_steer:
  assumes pend: "iid \<in> set (pending_steers d t)" and uq: "unique_keys ir_id (db_items d)" and rows: "rows_tell d"
    and it: "ItemChanged it \<in> set (close_open_work d t reason now)"
  shows "i_id it \<noteq> iid"
proof
  assume id: "i_id it = iid"
  from pend obtain irow where irow: "irow \<in> set (db_items d)" "ir_id irow = iid" "ir_kind irow \<in> set INPUT_ITEM_KINDS"
    by (rule pending_steers_row)
  from it obtain r where r: "r \<in> set (open_items d t)" "i_id it = i_id (item_from_row r)" by (auto simp: close_open_work_def)
  then have "r \<in> set (db_items d)" "ir_id r = iid" "ir_kind r \<notin> set INPUT_ITEM_KINDS"
    using rows id by (auto simp: open_items_def rows_tell_def item_from_row_def)
  with irow find_row_unique [OF uq] show False by (metis option.inject)
qed

lemma settling_items:
  assumes st: "settling env now d t final requeued es" and pend: "iid \<in> set (pending_steers d t)"
    and uq: "unique_keys ir_id (db_items d)" and rows: "rows_tell d"
    and e: "e \<in> set es" "item_said e = Some it" "i_id it = iid"
  shows "ItemChanged it \<in> set requeued"
proof -
  from st obtain status error a rest where es: "es = ended_attempt_event now status error a @
      close_open_work d t ''The turn ended before it was answered.'' now @ [TurnChanged final] @ requeued @ rest"
    and rest: "\<forall>e \<in> set rest. item_said e = None" unfolding settling_def by blast
  from rest e(2) have "e \<notin> set rest" by auto
  with e(1) consider "e \<in> set (ended_attempt_event now status error a)"
    | "e \<in> set (close_open_work d t ''The turn ended before it was answered.'' now)" | "e = TurnChanged final"
    | "e \<in> set requeued" unfolding es by auto
  then show ?thesis
  proof cases
    case 2
    then have "e = ItemChanged it" using e(2) by (auto simp: close_open_work_def item_said_def)
    with 2 open_work_no_steer [OF pend uq rows] e(3) show ?thesis by blast
  next
    case 4
    from settling_requeued [OF st this] e(2) have "e = ItemChanged it" by (auto simp: item_said_def)
    with 4 show ?thesis by simp
  qed (use e(2) in \<open>auto simp: ended_attempt_event_def item_said_def split: if_splits\<close>)
qed

lemma settling_quiet:
  assumes st: "settling env now d t final requeued es" and e: "e \<in> set es"
  shows "\<not> streams e"
proof -
  from st obtain status error a rest where es: "es = ended_attempt_event now status error a @
      close_open_work d t ''The turn ended before it was answered.'' now @ [TurnChanged final] @ requeued @ rest"
    and rest: "\<forall>e \<in> set rest. closing e" unfolding settling_def by blast
  from e consider "e \<in> set (ended_attempt_event now status error a)" | "closing e" | "e = TurnChanged final" | "e \<in> set requeued"
    using rest close_open_work_events(1) unfolding es by auto
  then show ?thesis
  proof cases
    case 4
    from settling_requeued [OF st this] show ?thesis by (auto simp: streams_def)
  qed (auto simp: closing_def ended_attempt_event_def streams_def split: if_splits)
qed

lemma settle_settling:
  assumes run: "settle env now random claimed tok session t a status error outcome after d = Inr (out, d')"
    and ends: "\<not> sd_retrying out" and pend: "pending_steers d t \<noteq> []"
  obtains stored d1 requeued es sess where "append_events now (t_session_id t) None es d = Inr (stored, d1)"
    "settling env now d t (sd_turn out) requeued es" "set requeued \<subseteq> set es"
    "requeued = requeue_each env now d sess t (max_ordinal d t) (notification_turn env now d sess (t_session_id t)) (pending_steers d t)"
    "d' = release (t_id t) (drop_commands now (t_id t) d1) \<or>
     (\<exists>tm. d' = release (t_id t) (schedule_retry (t_id t) tm (drop_commands now (t_id t) d1)))"
    "t_id (sd_turn out) = t_id t"
proof (rule settle_cases [OF run])
  fix requeued stored d1 rest
  assume app: "append_events now (t_session_id t) None
       (ended_attempt_event now status error a @ close_open_work d t ''The turn ended before it was answered.'' now @
        [TurnChanged (sd_turn out)] @ requeued @ rest) d = Inr (stored, d1)"
    and req: "if sd_retrying out then requeued = [] else requeue_steers env now d t = Inr requeued"
    and rest: "\<forall>e \<in> set rest. closing e \<and> \<not> on_turn e \<and> item_said e = None"
    and tail: "d' = release (t_id t) (drop_commands now (t_id t) d1) \<or>
     (\<exists>tm. d' = release (t_id t) (schedule_retry (t_id t) tm (drop_commands now (t_id t) d1)))"
    and out: "t_id (sd_turn out) = t_id t"
  from req ends pend obtain sess where each: "requeued = requeue_each env now d sess t (max_ordinal d t)
      (notification_turn env now d sess (t_session_id t)) (pending_steers d t)"
    by (auto simp: requeue_steers_def split: if_splits option.splits)
  have "settling env now d t (sd_turn out) requeued (ended_attempt_event now status error a @
      close_open_work d t ''The turn ended before it was answered.'' now @ [TurnChanged (sd_turn out)] @ requeued @ rest)"
    unfolding settling_def by (intro exI conjI) (rule refl each rest)+
  then show thesis by (rule that [OF app _ _ each tail out]) auto
qed

text \<open>The turn that takes a message over is queued after the batch, and is another.\<close>

lemma taker_queued:
  assumes st: "settling env now d t final requeued es" and app: "append_events now (t_session_id t) None es d = Inr (stored, d1)"
    and into: "set requeued \<subseteq> set es" and tc: "turn_constraints (db_turns d)" and final: "t_id final = t_id t"
    and row: "turn_row_of d (t_session_id t) (t_id t) = Some r0" "tr_status r0 \<noteq> Queued"
    and fresh: "\<forall>k \<in> set (pending_steers d t). steered_turn_id (se_sha env) (t_id t) k \<notin> tr_id ` set (db_turns d)"
    and dest: "(\<exists>m j. TurnChanged (queued_turn tid (t_session_id t) m j (t_provider_thread_id t) None now) \<in> set requeued) \<or>
        (\<exists>own. notification_turn env now d session (t_session_id t) = Some (tid, own))"
  shows "tid \<noteq> t_id t \<and> (\<exists>r. turn_row_of d1 (t_session_id t) tid = Some r \<and> tr_status r = Queued)"
proof -
  let ?sid = "t_session_id t"
  have here: "t_id t \<in> tr_id ` set (db_turns d)" using row(1) by (force simp: turn_row_of_def dest!: find_row_Some)
  have was: "tid \<noteq> t_id t \<and> ((\<exists>row. turn_row_of d ?sid tid = Some row \<and> tr_status row = Queued) \<or>
    (turn_row_of d ?sid tid \<noteq> None \<or> tid \<notin> tr_id ` set (db_turns d)) \<and> (\<exists>u. TurnChanged u \<in> set es \<and> t_id u = tid))"
    using dest
  proof
    assume "\<exists>m j. TurnChanged (queued_turn tid ?sid m j (t_provider_thread_id t) None now) \<in> set requeued"
    then obtain m j where mj: "TurnChanged (queued_turn tid ?sid m j (t_provider_thread_id t) None now) \<in> set requeued" by blast
    from settling_requeued [OF st this] obtain k m' where k: "k \<in> set (pending_steers d t)"
      "queued_turn tid ?sid m j (t_provider_thread_id t) None now =
       queued_turn (steered_turn_id (se_sha env) (t_id t) k) ?sid m' k (t_provider_thread_id t) None now" by auto
    have "tid = steered_turn_id (se_sha env) (t_id t) k" using arg_cong [OF k(2), of t_id] by simp
    with k(1) fresh have "tid \<notin> tr_id ` set (db_turns d)" by simp
    moreover have "tid \<noteq> t_id t" using calculation here by blast
    ultimately show ?thesis using mj into queued_turn_fields(1) by blast
  next
    assume "\<exists>own. notification_turn env now d session ?sid = Some (tid, own)"
    then obtain r where "turn_row_of d ?sid tid = Some r" "tr_status r = Queued"
      using waiting_turn_row turn_constraints_unique [OF tc] by blast
    with row show ?thesis by auto
  qed
  have "\<exists>r. turn_row_of d1 ?sid tid = Some r \<and> tr_status r = Queued"
  proof (rule append_turn_status [OF app tc _ was [THEN conjunct2]])
    show "t_status u = Queued" if "TurnChanged u \<in> set es" "t_id u = tid" for u
      using settling_turns [OF st that(1)] that(2) final was by auto
  qed simp
  with was show ?thesis by blast
qed

text \<open>Property C31: a message steered into a turn that no attempt took in is never dropped: when the turn ends for good, the
  same transaction moves every such message to another turn of the session, and that turn is queued.\<close>

theorem message_never_dropped:
  assumes run: "settle env now random claimed tok session t a status error outcome after d = Inr (out, d')"
    and ends: "\<not> sd_retrying out"
    and tc: "turn_constraints (db_turns d)" and row: "turn_row_of d (t_session_id t) (t_id t) = Some r0" "tr_status r0 \<noteq> Queued"
    and uq: "unique_keys ir_id (db_items d)" and rows: "rows_tell d"
    and own: "\<forall>r \<in> set (db_items d). ir_turn_id r = Some (t_id t) \<longrightarrow> ir_session_id r = t_session_id t"
    and fresh: "\<forall>k \<in> set (pending_steers d t). steered_turn_id (se_sha env) (t_id t) k \<notin> tr_id ` set (db_turns d)"
    and pend: "iid \<in> set (pending_steers d t)"
  shows "\<exists>row \<in> set (db_items d'). \<exists>tid r. ir_id row = iid \<and> ir_session_id row = t_session_id t \<and> ir_turn_id row = Some tid \<and>
    tid \<noteq> t_id t \<and> turn_row_of d' (t_session_id t) tid = Some r \<and> tr_status r = Queued"
proof (rule settle_settling [OF run ends])
  let ?sid = "t_session_id t"
  show "pending_steers d t \<noteq> []" using pend by auto
  fix stored d1 requeued es sess
  assume app: "append_events now ?sid None es d = Inr (stored, d1)" and st: "settling env now d t (sd_turn out) requeued es"
    and sub: "set requeued \<subseteq> set es" and out: "t_id (sd_turn out) = t_id t"
    and each: "requeued = requeue_each env now d sess t (max_ordinal d t) (notification_turn env now d sess ?sid) (pending_steers d t)"
    and tail: "d' = release (t_id t) (drop_commands now (t_id t) d1) \<or>
     (\<exists>tm. d' = release (t_id t) (schedule_retry (t_id t) tm (drop_commands now (t_id t) d1)))"
  note tables = released_tables [OF tail]
  have found: "\<forall>k \<in> set (pending_steers d t). \<exists>row. item_row_of d k = Some row \<and> i_id (item_from_row row) = k"
  proof
    fix k assume "k \<in> set (pending_steers d t)"
    then obtain row where "row \<in> set (db_items d)" "ir_id row = k" by (rule pending_steers_row)
    with find_row_unique [OF uq] rows show "\<exists>row. item_row_of d k = Some row \<and> i_id (item_from_row row) = k"
      by (auto simp: item_row_of_def rows_tell_def item_from_row_def)
  qed
  obtain tid it0 where moved: "ItemChanged it0 \<in> set requeued" "i_id it0 = iid"
      "\<forall>it. ItemChanged it \<in> set requeued \<and> i_id it = iid \<longrightarrow> i_turn_id it = Some tid"
      and dest: "(\<exists>m j. TurnChanged (queued_turn tid ?sid m j (t_provider_thread_id t) None now) \<in> set requeued) \<or>
        (\<exists>own. notification_turn env now d sess ?sid = Some (tid, own))"
    using requeue_each_covers [OF pending_steers_distinct [OF uq] found pend, where env = env and now = now and
        session = sess and n = "max_ordinal d t" and t = t and waits = "notification_turn env now d sess ?sid"]
    unfolding each [symmetric] by blast
  note taker = taker_queued [OF st app sub tc out row fresh dest]
  have "\<exists>row \<in> set (db_items d1). ir_id row = iid \<and> ir_session_id row = ?sid \<and> ir_turn_id row = Some tid"
  proof (rule append_item_turn [OF app uq])
    from pend show "\<exists>row \<in> set (db_items d). ir_id row = iid \<and> ir_session_id row = ?sid"
      by (rule pending_steers_row) (use own in blast)
    show "\<forall>e \<in> set es. \<not> streams e" using settling_quiet [OF st] by blast
    show "ItemChanged it0 \<in> set es" "item_said (ItemChanged it0) = Some it0" "i_id it0 = iid"
      using moved sub by (auto simp: item_said_def)
    show "i_turn_id it = Some tid" if "e \<in> set es" "item_said e = Some it" "i_id it = iid" for e it
      using settling_items [OF st pend uq rows that] moved(3) that(3) by blast
  qed
  then obtain row where "row \<in> set (db_items d1)" "ir_id row = iid" "ir_session_id row = ?sid" "ir_turn_id row = Some tid" by blast
  moreover from taker tables(5) [of ?sid tid] obtain r where "turn_row_of d' ?sid tid = Some r" "tr_status r = Queued"
    by (cases "turn_row_of d' ?sid tid") auto
  ultimately show ?thesis using taker tables(1) by auto
qed


section \<open>Witnesses\<close>

definition ex_settle_env :: settle_env where
  "ex_settle_env = \<lparr>se_sha = (\<lambda>s. ''00000000000000000000000000000000''), se_owned = (\<lambda>_ _. True)\<rparr>"

definition ex_steer :: item where
  "ex_steer = (ex_item ''m'' 1 (UserMessage \<lparr>d_dispatch = DSteer, d_attention_required = False, d_idempotency_key = None,
     d_delivered_by = None, d_causation = []\<rparr> ''u'' ''hi'' [] None))\<lparr>i_turn_id := Some ''t''\<rparr>"

definition ex_thought :: item where "ex_thought = (ex_item ''c'' 2 (Reasoning ''x''))\<lparr>i_turn_id := Some ''t''\<rparr>"

definition ex_settle_db :: db where
  "ex_settle_db = (ex_running_db [(ex_turn_row ''t'' 1 Running)\<lparr>tr_lease_token := Some ''tok'', tr_lease_expires_at := Some 100\<rparr>])
     \<lparr>db_items := [new_item_row ''s'' ex_steer, new_item_row ''s'' ex_thought],
      db_commands := [\<lparr>tc_id = ''k'', tc_turn_id = ''t'', tc_attempt_id = None, tc_kind = CSteer, tc_payload = [],
        tc_status = CPending, tc_created_at = 0, tc_sent_at = None, tc_acknowledged_at = None\<rparr>]\<rparr>"

definition ex_outcome :: turn_outcome where
  "ex_outcome = \<lparr>o_changed_files = [], o_usage = None, o_store_sync = None, o_workspace_sync = None, o_notification = None\<rparr>"

lemmas settle_eval = settle_def owns_def after_now_def passing_failure_def requeue_steers_def pending_steers_def steered_item_ids_def
  consumed_of_def max_ordinal_def notification_turn_def waiting_notification_turn_def waiting_notification_turns_def
  input_of_def queued_turn_def joins_def is_notification_def item_row_of_def item_from_row_def is_input_item_def INPUT_ITEM_KINDS_def
  ended_attempt_event_def ended_status_def close_open_work_def open_items_def pending_of_def outliving_def asks_on_def
  settled_turn_def settled_status_def thread_saw_def thread_seen_def attention_def drop_commands_def open_commands_def
  mark_commands_def release_def last_reply_def steered_turn_id_def derived_id_def hex_value_def hex_digit_def

lemmas ex_settle = ex_settle_env_def ex_steer_def ex_thought_def ex_settle_db_def ex_outcome_def ex_attempt_def ex_running_db_def

lemma ex_settle_run:
  "\<exists>out d'. settle ex_settle_env 5 0 ''t'' ''tok'' (ex_fields ''s'') (ex_turn ''t'' 1 Running) ex_attempt TurnDone None ex_outcome
     None ex_settle_db = Inr (out, d') \<and> \<not> sd_retrying out \<and> t_status (sd_turn out) = Completed \<and> length (db_turns d') = 2 \<and>
     map ir_status (db_items d') = [ItemCompleted, ItemCancelled] \<and> map tc_status (db_commands d') = [CDropped]"
  by (simp add: settle_eval ex_settle log_eval)

lemma ex_settle_ok: "turn_constraints (db_turns ex_settle_db)" "unique_keys rr_key (db_requests ex_settle_db)"
  "unique_keys ir_id (db_items ex_settle_db)" "rows_tell ex_settle_db"
  "pending_steers ex_settle_db (ex_turn ''t'' 1 Running) = [''m'']"
  "\<exists>r. turn_row_of ex_settle_db ''s'' ''t'' = Some r \<and> tr_status r = Running"
  by (simp_all add: ex_settle turn_constraints_def unique_keys_def rows_tell_def pending_steers_def steered_item_ids_def
      consumed_of_def new_item_row_def turn_row_of_def fixtures INPUT_ITEM_KINDS_def)

theorem settle_leaves_nothing_open_witness:
  "\<exists>out d'. settle ex_settle_env 5 0 ''t'' ''tok'' (ex_fields ''s'') (ex_turn ''t'' 1 Running) ex_attempt TurnDone None ex_outcome
     None ex_settle_db = Inr (out, d') \<and> pending_of d' (ex_turn ''t'' 1 Running) = [] \<and> open_commands ''t'' d' = []"
proof -
  obtain out d' where run: "settle ex_settle_env 5 0 ''t'' ''tok'' (ex_fields ''s'') (ex_turn ''t'' 1 Running) ex_attempt TurnDone
      None ex_outcome None ex_settle_db = Inr (out, d')" using ex_settle_run by blast
  have f: "t_id (ex_turn ''t'' 1 Running) = ''t''" "t_session_id (ex_turn ''t'' 1 Running) = ''s''" by (simp_all add: ex_turn_def)
  have fresh: "steered_turn_id (se_sha ex_settle_env) ''t'' iid \<noteq> ''t''" for iid
    by (simp add: steered_turn_id_def derived_id_def ex_settle_env_def Let_def)
  have "turn_row_of ex_settle_db ''s'' ''t'' \<noteq> None" using ex_settle_ok(6) by auto
  from settle_leaves_nothing_open [OF run ex_settle_ok(1) _ ex_settle_ok(2-4), unfolded f] this fresh
  have "\<forall>r \<in> set (pending_of d' (ex_turn ''t'' 1 Running)). r \<in> set (db_requests ex_settle_db)" "open_commands ''t'' d' = []"
    by auto
  moreover have "db_requests ex_settle_db = []" by (simp add: ex_settle fixtures)
  ultimately show ?thesis using run by (intro exI [of _ out] exI [of _ d'] conjI) auto
qed

theorem message_never_dropped_witness:
  "\<exists>out d' tid r. settle ex_settle_env 5 0 ''t'' ''tok'' (ex_fields ''s'') (ex_turn ''t'' 1 Running) ex_attempt TurnDone None
     ex_outcome None ex_settle_db = Inr (out, d') \<and> tid \<noteq> ''t'' \<and> turn_row_of d' ''s'' tid = Some r \<and> tr_status r = Queued"
proof -
  obtain out d' where run: "settle ex_settle_env 5 0 ''t'' ''tok'' (ex_fields ''s'') (ex_turn ''t'' 1 Running) ex_attempt TurnDone
      None ex_outcome None ex_settle_db = Inr (out, d')" "\<not> sd_retrying out" using ex_settle_run by blast
  have f: "t_id (ex_turn ''t'' 1 Running) = ''t''" "t_session_id (ex_turn ''t'' 1 Running) = ''s''" by (simp_all add: ex_turn_def)
  obtain r0 where r0: "turn_row_of ex_settle_db ''s'' ''t'' = Some r0" "tr_status r0 \<noteq> Queued" using ex_settle_ok(6) by auto
  have ids: "tr_id ` set (db_turns ex_settle_db) = {''t''}" by (simp add: ex_settle fixtures)
  have fresh: "\<forall>k \<in> set (pending_steers ex_settle_db (ex_turn ''t'' 1 Running)).
      steered_turn_id (se_sha ex_settle_env) ''t'' k \<notin> tr_id ` set (db_turns ex_settle_db)"
    unfolding ids by (simp add: steered_turn_id_def derived_id_def ex_settle_env_def Let_def)
  have own: "\<forall>r \<in> set (db_items ex_settle_db). ir_turn_id r = Some ''t'' \<longrightarrow> ir_session_id r = ''s''"
    by (simp add: ex_settle new_item_row_def fixtures)
  have pend: "''m'' \<in> set (pending_steers ex_settle_db (ex_turn ''t'' 1 Running))" using ex_settle_ok(5) by simp
  from message_never_dropped [OF run ex_settle_ok(1) _ r0(2) ex_settle_ok(3,4) _ _ pend, unfolded f, OF r0(1) own fresh] run(1)
  show ?thesis by blast
qed

end
