(* ===== verification/Append_Laws.thy ===== *)
theory Append_Laws
  imports Settle_Laws
begin

text \<open>
  What an append leaves in a row of \<open>agent_turns\<close>, \<open>agent_runtime_requests\<close> and \<open>agent_items\<close>: the row
  before it, with the batch's events about it applied in order. Every handler that appends reads its
  effect on a table off these equations.
\<close>

section \<open>Upserts in a row\<close>

text \<open>A table written by upserts only, of which \<open>said\<close> gives the row a new entry would insert.\<close>

lemma find_row_fold_upsert:
  assumes "\<And>w r. key (upd w r) = key r"
  shows "find_row key k (fold (\<lambda>w. upsert key (upd w) (new w)) ws rows) =
     fold (\<lambda>w o'. Some (case o' of None \<Rightarrow> new w | Some r \<Rightarrow> upd w r)) (filter (\<lambda>w. key (new w) = k) ws)
       (find_row key k rows)"
proof (induction ws arbitrary: rows)
  case (Cons w ws)
  show ?case
  proof (cases "key (new w) = k")
    case True
    then have "find_row key k (upsert key (upd w) (new w) rows) =
        Some (case find_row key k rows of None \<Rightarrow> new w | Some r \<Rightarrow> upd w r)"
      using find_row_upsert_same [of key "upd w" "new w" rows] assms by (auto split: option.splits)
    with True Cons.IH show ?thesis by simp
  next
    case False
    with Cons.IH find_row_upsert_other [of key "upd w" k "new w" rows] assms show ?thesis by simp
  qed
qed simp

section \<open>Turns\<close>

definition turn_said :: "session_event \<Rightarrow> turn option" where
  "turn_said e = (case e of TurnChanged t \<Rightarrow> Some t | _ \<Rightarrow> None)"

definition turns_said :: "session_event list \<Rightarrow> turn list" where
  "turns_said es = List.map_filter turn_said es"

definition write_turn :: "instant \<Rightarrow> ident \<Rightarrow> turn \<Rightarrow> turn_row option \<Rightarrow> turn_row option" where
  "write_turn now sid t o' = Some (case o' of None \<Rightarrow> new_turn_row now sid now t | Some r \<Rightarrow> update_turn_row sid now t r)"

lemma turn_row_ids [simp]: "tr_id (update_turn_row sid tm t r) = tr_id r" "tr_id (new_turn_row now sid tm t) = t_id t"
  "tr_session_id (update_turn_row sid tm t r) = tr_session_id r" "tr_session_id (new_turn_row now sid tm t) = sid"
  by (simp_all add: update_turn_row_def new_turn_row_def)

lemma said_simps [simp]:
  "turns_said [] = []" "turns_said (TurnChanged t # es) = t # turns_said es"
  "turns_said (ItemAdded it # es) = turns_said es" "turns_said (ItemChanged it # es) = turns_said es"
  "turns_said (RequestChanged r # es) = turns_said es" "turns_said (SessionChanged c # es) = turns_said es"
  "turns_said (AttemptChanged a # es) = turns_said es" "turns_said (ProviderThreadChanged p # es) = turns_said es"
  "turns_said (ItemTextAppended i f x tm # es) = turns_said es"
  "turns_said (es @ es') = turns_said es @ turns_said es'"
  by (simp_all add: turns_said_def turn_said_def map_filter_def)

lemma in_turns_said: "t \<in> set (turns_said es) \<longleftrightarrow> TurnChanged t \<in> set es"
  by (induction es) (auto simp: turns_said_def turn_said_def map_filter_def split: session_event.splits)

lemma project_all_turns:
  assumes "project_all now es d = Inr d'" and "\<forall>e \<in> set es. se_session_id e = sid \<and> se_at e = now"
  shows "db_turns d' = fold (\<lambda>t. upsert tr_id (update_turn_row sid now t) (new_turn_row now sid now t))
     (turns_said (map se_event es)) (db_turns d)"
  using assms
proof (induction now es d rule: project_all.induct)
  case (2 now e es d)
  from 2(2) obtain d1 where d1: "project now e d = Inr d1" "project_all now es d1 = Inr d'" by (auto split: sum.splits)
  from project_turns [OF d1(1)] 2(3) 2(1) [OF d1] show ?case by (cases "se_event e") simp_all
qed (simp)

lemma turns_said_on_turn: "turns_said (filter on_turn es) = turns_said es"
proof (induction es)
  case (Cons e es)
  then show ?case by (cases e) (simp_all add: on_turn_def)
qed simp

text \<open>What the batch says of one turn, as it applies to the turn as it stands.\<close>

definition said_of :: "db \<Rightarrow> ident \<Rightarrow> ident \<Rightarrow> session_event list \<Rightarrow> turn list" where
  "said_of d sid tid es = filter (\<lambda>t. t_id t = tid) (turns_said (current_turns d sid es))"

lemma current_turn_ids: "t \<in> set (turns_said (current_turn d sid (TurnChanged u))) \<Longrightarrow> t_id t = t_id u"
  by (auto simp: current_turn_def split: option.splits if_splits)

lemma current_turn_same: "current_turn d sid e = [e]" if "turn_said e = None"
  using that by (auto simp: current_turn_def turn_said_def split: session_event.splits)

lemma said_of_simps [simp]:
  "said_of d sid tid [] = []"
  "said_of d sid tid (ItemAdded it # es) = said_of d sid tid es" "said_of d sid tid (ItemChanged it # es) = said_of d sid tid es"
  "said_of d sid tid (RequestChanged r # es) = said_of d sid tid es"
  "said_of d sid tid (SessionChanged c # es) = said_of d sid tid es"
  "said_of d sid tid (AttemptChanged a # es) = said_of d sid tid es"
  "said_of d sid tid (ProviderThreadChanged p # es) = said_of d sid tid es"
  "said_of d sid tid (es @ es') = said_of d sid tid es @ said_of d sid tid es'"
  by (simp_all add: said_of_def current_turns_def current_turn_same turn_said_def)

lemma said_of_turn [simp]:
  "said_of d sid tid (TurnChanged t # es) =
     (if t_id t = tid then turns_said (current_turn d sid (TurnChanged t)) else []) @ said_of d sid tid es"
proof -
  have "filter (\<lambda>u. t_id u = tid) (turns_said (current_turn d sid (TurnChanged t))) =
      (if t_id t = tid then turns_said (current_turn d sid (TurnChanged t)) else [])"
    using current_turn_ids by (auto simp: filter_id_conv filter_empty_conv)
  then show ?thesis by (simp add: said_of_def current_turns_def)
qed

lemma current_turns_source:
  assumes "TurnChanged t \<in> set (current_turns d sid es)"
  obtains u where "TurnChanged u \<in> set es" "t = u \<or> t = u\<lparr>t_cancellation_requested := True\<rparr>"
proof -
  from assms obtain e where e: "e \<in> set es" "TurnChanged t \<in> set (current_turn d sid e)" by (auto simp: current_turns_def)
  from e(2) obtain u where u: "e = TurnChanged u" by (auto simp: current_turn_def split: session_event.splits)
  have "t = u \<or> t = u\<lparr>t_cancellation_requested := True\<rparr>"
    using e(2) unfolding u current_turn_def
    by (simp del: settled_statuses active_statuses split: option.splits if_splits)
  with that e(1) u show thesis by blast
qed

lemma said_of_none: "(\<And>t. TurnChanged t \<in> set es \<Longrightarrow> t_id t \<noteq> tid) \<Longrightarrow> said_of d sid tid es = []"
proof (induction es)
  case (Cons e es)
  have "said_of d sid tid (e # es) = said_of d sid tid [e] @ said_of d sid tid es" using said_of_simps(8) [of d sid tid "[e]" es] by simp
  moreover have "said_of d sid tid [e] = []"
    using Cons.prems by (cases e) (simp_all, simp add: said_of_def current_turns_def current_turn_same turn_said_def)
  ultimately show ?case using Cons by simp
qed simp

theorem append_turn_row:
  assumes run: "append_events now sid cmd events d = Inr (stored, d')"
  shows "find_row tr_id tid (db_turns d') = fold (write_turn now sid) (said_of d sid tid events) (find_row tr_id tid (db_turns d))"
proof -
  obtain d1 where p: "project_all now stored d1 = Inr d'" and d1: "db_turns d1 = db_turns d"
    and st: "\<forall>e \<in> set stored. se_session_id e = sid \<and> se_at e = now"
    and turns: "filter on_turn (map se_event stored) = filter on_turn (current_turns d sid events)"
    by (rule append_runs [OF run])
  have "turns_said (map se_event stored) = turns_said (current_turns d sid events)"
    by (metis turns turns_said_on_turn)
  with project_all_turns [OF p st] d1
  have "db_turns d' = fold (\<lambda>t. upsert tr_id (update_turn_row sid now t) (new_turn_row now sid now t))
      (turns_said (current_turns d sid events)) (db_turns d)" by simp
  then show ?thesis by (simp add: find_row_fold_upsert said_of_def write_turn_def [abs_def])
qed

lemma turn_row_of_find:
  "unique_keys tr_id (db_turns d) \<Longrightarrow> turn_row_of d sid tid =
     (case find_row tr_id tid (db_turns d) of Some r \<Rightarrow> if tr_session_id r = sid then Some r else None | None \<Rightarrow> None)"
proof -
  assume u: "unique_keys tr_id (db_turns d)"
  have "find_row key k (filter P xs) = (case find_row key k xs of Some r \<Rightarrow> if P r then Some r else None | None \<Rightarrow> None)"
    if "unique_keys key xs" for key :: "turn_row \<Rightarrow> ident" and k P xs
    using that by (induction xs) (auto simp: unique_keys_def find_row_None image_iff split: option.splits, (metis find_row_Some)+)
  with u show ?thesis by (simp add: turn_row_of_def)
qed

section \<open>Requests\<close>

definition requests_said :: "session_event list \<Rightarrow> runtime_request list" where
  "requests_said es = List.map_filter (\<lambda>e. case e of RequestChanged r \<Rightarrow> Some r | _ \<Rightarrow> None) es"

lemma requests_said_simps [simp]:
  "requests_said [] = []" "requests_said (RequestChanged r # es) = r # requests_said es"
  "requests_said (ItemAdded it # es) = requests_said es" "requests_said (ItemChanged it # es) = requests_said es"
  "requests_said (TurnChanged t # es) = requests_said es" "requests_said (SessionChanged c # es) = requests_said es"
  "requests_said (AttemptChanged a # es) = requests_said es" "requests_said (ProviderThreadChanged p # es) = requests_said es"
  "requests_said (ItemTextAppended i f x tm # es) = requests_said es"
  "requests_said (es @ es') = requests_said es @ requests_said es'"
  by (simp_all add: requests_said_def map_filter_def)

definition write_request :: "instant \<Rightarrow> ident \<Rightarrow> runtime_request \<Rightarrow> request_row option \<Rightarrow> request_row option" where
  "write_request now sid r o' = Some (case o' of None \<Rightarrow> new_request_row sid now r | Some x \<Rightarrow> update_request_row sid now r x)"

lemma project_all_requests:
  assumes "project_all now es d = Inr d'" and "\<forall>e \<in> set es. se_session_id e = sid \<and> se_at e = now"
  shows "db_requests d' = fold (\<lambda>r. upsert rr_key (update_request_row sid now r) (new_request_row sid now r))
     (requests_said (map se_event es)) (db_requests d)"
  using assms
proof (induction now es d rule: project_all.induct)
  case (2 now e es d)
  from 2(2) obtain d1 where d1: "project now e d = Inr d1" "project_all now es d1 = Inr d'" by (auto split: sum.splits)
  have "db_requests d1 = (case se_event e of RequestChanged r \<Rightarrow>
      upsert rr_key (update_request_row sid now r) (new_request_row sid now r) (db_requests d) | _ \<Rightarrow> db_requests d)"
    using project_Inr [OF d1(1)] 2(3) by (auto simp: project_steps split: session_event.splits)
  with 2(3) 2(1) [OF d1] show ?case by (cases "se_event e") simp_all
qed simp

lemma requests_said_kept: "requests_said (map kept_event (filter (\<lambda>e. \<not> on_turn e) es)) = requests_said es"
proof (induction es)
  case (Cons e es)
  then show ?case by (cases e) (simp_all add: on_turn_def kept_event_def)
qed simp

theorem append_request_rows:
  assumes run: "append_events now sid cmd events d = Inr (stored, d')"
  shows "db_requests d' = fold (\<lambda>r. upsert rr_key (update_request_row sid now r) (new_request_row sid now r))
     (requests_said events) (db_requests d)"
proof -
  obtain d1 where p: "project_all now stored d1 = Inr d'" and d1: "db_requests d1 = db_requests d"
    and st: "\<forall>e \<in> set stored. se_session_id e = sid \<and> se_at e = now"
    and kept: "map kept_event (filter (\<lambda>e. \<not> on_turn e) (map se_event stored)) = map kept_event (filter (\<lambda>e. \<not> on_turn e) events)"
    by (rule append_runs [OF run])
  have "requests_said (map se_event stored) = requests_said events" by (metis kept requests_said_kept)
  with project_all_requests [OF p st] d1 show ?thesis by simp
qed

text \<open>\<open>update_request_row\<close> takes its key from the request; on a row of that request it keeps it.\<close>

lemma find_row_one_upsert:
  assumes "\<And>x. key x = key new \<Longrightarrow> key (upd x) = key x"
  shows "find_row key k (upsert key upd new xs) =
    (if k = key new then Some (case find_row key k xs of None \<Rightarrow> new | Some x \<Rightarrow> upd x) else find_row key k xs)"
  using assms by (induction xs) auto

declare request_row_key [simp] request_update_key [simp]

lemma find_request_fold:
  "find_row rr_key (sid, rid) (fold (\<lambda>r. upsert rr_key (update_request_row sid now r) (new_request_row sid now r)) rs rows) =
     fold (write_request now sid) (filter (\<lambda>r. r_id r = rid) rs) (find_row rr_key (sid, rid) rows)"
proof (induction rs arbitrary: rows)
  case (Cons r rs)
  have "find_row rr_key (sid, rid) (upsert rr_key (update_request_row sid now r) (new_request_row sid now r) rows) =
    (if r_id r = rid then write_request now sid r (find_row rr_key (sid, rid) rows) else find_row rr_key (sid, rid) rows)"
    by (subst find_row_one_upsert) (auto simp: write_request_def)
  with Cons.IH show ?case by simp
qed simp

theorem append_request_row:
  "append_events now sid cmd events d = Inr (stored, d') \<Longrightarrow>
   find_row rr_key (sid, rid) (db_requests d') =
     fold (write_request now sid) (filter (\<lambda>r. r_id r = rid) (requests_said events)) (find_row rr_key (sid, rid) (db_requests d))"
  by (simp add: append_request_rows find_request_fold)

section \<open>Items\<close>

definition items_said :: "session_event list \<Rightarrow> item list" where
  "items_said es = List.map_filter item_said es"

lemma items_said_simps [simp]:
  "items_said [] = []" "items_said (ItemAdded it # es) = it # items_said es" "items_said (ItemChanged it # es) = it # items_said es"
  "items_said (TurnChanged t # es) = items_said es" "items_said (SessionChanged c # es) = items_said es"
  "items_said (RequestChanged r # es) = items_said es"
  "items_said (AttemptChanged a # es) = items_said es" "items_said (ProviderThreadChanged p # es) = items_said es"
  "items_said (ItemTextAppended i f x tm # es) = items_said es"
  "items_said (es @ es') = items_said es @ items_said es'"
  by (simp_all add: items_said_def item_said_def map_filter_def)

definition write_item :: "ident \<Rightarrow> item \<Rightarrow> item_row option \<Rightarrow> item_row option" where
  "write_item sid it o' = Some (case o' of None \<Rightarrow> new_item_row sid it | Some r \<Rightarrow> update_item_row sid it r)"

lemma project_all_items:
  assumes "project_all now es d = Inr d'" and "\<forall>e \<in> set es. se_session_id e = sid \<and> se_at e = now"
    and "\<forall>e \<in> set es. \<not> streams (se_event e)"
  shows "db_items d' = fold (\<lambda>it. upsert ir_id (update_item_row sid it) (new_item_row sid it))
     (items_said (map se_event es)) (db_items d)"
  using assms
proof (induction now es d rule: project_all.induct)
  case (2 now e es d)
  from 2(2) obtain d1 where d1: "project now e d = Inr d1" "project_all now es d1 = Inr d'" by (auto split: sum.splits)
  from 2(4) have "\<not> streams (se_event e)" by simp
  with project_items_said [OF d1(1)] 2(3,4) 2(1) [OF d1] show ?case by (cases "se_event e") (simp_all add: item_said_def)
qed simp

lemma items_said_kept:
  "map (\<lambda>it. it\<lparr>i_position := 0\<rparr>) (items_said (map kept_event (filter (\<lambda>e. \<not> on_turn e) es))) =
   map (\<lambda>it. it\<lparr>i_position := 0\<rparr>) (items_said es)"
proof (induction es)
  case (Cons e es)
  then show ?case by (cases e) (simp_all add: on_turn_def kept_event_def)
qed simp

text \<open>The items of a batch reach the table in its order, with the positions the log gave them.\<close>

lemma append_items:
  assumes run: "append_events now sid cmd events d = Inr (stored, d')" and quiet: "\<forall>e \<in> set events. \<not> streams e"
  obtains its where "map (\<lambda>it. it\<lparr>i_position := 0\<rparr>) its = map (\<lambda>it. it\<lparr>i_position := 0\<rparr>) (items_said events)"
    "db_items d' = fold (\<lambda>it. upsert ir_id (update_item_row sid it) (new_item_row sid it)) its (db_items d)"
proof -
  obtain d1 where p: "project_all now stored d1 = Inr d'" and d1: "db_items d1 = db_items d"
    and st: "\<forall>e \<in> set stored. se_session_id e = sid \<and> se_at e = now"
    and kept: "map kept_event (filter (\<lambda>e. \<not> on_turn e) (map se_event stored)) = map kept_event (filter (\<lambda>e. \<not> on_turn e) events)"
    by (rule append_runs [OF run])
  have "\<not> streams (se_event e)" if e: "e \<in> set stored" for e
  proof (cases "on_turn (se_event e)")
    case True
    then show ?thesis by (auto simp: on_turn_def streams_def split: session_event.splits)
  next
    case False
    from stored_origin [OF kept e this] quiet kept_said(2) show ?thesis by metis
  qed
  with project_all_items [OF p st] d1
  have "db_items d' = fold (\<lambda>it. upsert ir_id (update_item_row sid it) (new_item_row sid it)) (items_said (map se_event stored)) (db_items d)"
    by simp
  moreover have "map (\<lambda>it. it\<lparr>i_position := 0\<rparr>) (items_said (map se_event stored)) = map (\<lambda>it. it\<lparr>i_position := 0\<rparr>) (items_said events)"
    by (metis kept items_said_kept)
  ultimately show thesis using that by blast
qed

lemma position_free:
  assumes "(it :: item)\<lparr>i_position := 0\<rparr> = it'\<lparr>i_position := 0\<rparr>"
  shows "it = it'\<lparr>i_position := i_position it\<rparr>"
proof -
  have "it = (it\<lparr>i_position := 0\<rparr>)\<lparr>i_position := i_position it\<rparr>" by simp
  also have "\<dots> = (it'\<lparr>i_position := 0\<rparr>)\<lparr>i_position := i_position it\<rparr>" by (simp only: assms)
  finally show ?thesis by simp
qed

lemma filter_position_free:
  assumes "map (\<lambda>it. it\<lparr>i_position := 0\<rparr>) its = map (\<lambda>it. it\<lparr>i_position := 0\<rparr>) (its' :: item list)"
  shows "map (\<lambda>it. it\<lparr>i_position := 0\<rparr>) (filter (\<lambda>it. i_id it = iid) its) =
    map (\<lambda>it. it\<lparr>i_position := 0\<rparr>) (filter (\<lambda>it. i_id it = iid) its')"
proof -
  have "filter (\<lambda>it. i_id it = iid) (map (\<lambda>it. it\<lparr>i_position := 0\<rparr>) xs) =
      map (\<lambda>it. it\<lparr>i_position := 0\<rparr>) (filter (\<lambda>it. i_id it = iid) xs)" for xs :: "item list"
    by (induction xs) auto
  then show ?thesis by (metis assms)
qed

lemma append_item_rows:
  assumes run: "append_events now sid cmd events d = Inr (stored, d')" and quiet: "\<forall>e \<in> set events. \<not> streams e"
  obtains its where "map (\<lambda>it. it\<lparr>i_position := 0\<rparr>) its = map (\<lambda>it. it\<lparr>i_position := 0\<rparr>) (filter (\<lambda>it. i_id it = iid) (items_said events))"
    "find_row ir_id iid (db_items d') = fold (write_item sid) its (find_row ir_id iid (db_items d))"
proof -
  obtain its where its: "map (\<lambda>it. it\<lparr>i_position := 0\<rparr>) its = map (\<lambda>it. it\<lparr>i_position := 0\<rparr>) (items_said events)"
    "db_items d' = fold (\<lambda>it. upsert ir_id (update_item_row sid it) (new_item_row sid it)) its (db_items d)"
    by (rule append_items [OF run quiet])
  have "find_row ir_id iid (db_items d') = fold (write_item sid) (filter (\<lambda>it. i_id it = iid) its) (find_row ir_id iid (db_items d))"
    unfolding its(2) by (subst find_row_fold_upsert) (simp_all add: item_row_fields write_item_def [abs_def])
  then show thesis using filter_position_free [OF its(1)] by (rule that [rotated])
qed

text \<open>The three cases handlers need: an item the batch adds, changes once, or leaves alone.\<close>

lemma append_item_added:
  assumes "append_events now sid cmd events d = Inr (stored, d')" and "\<forall>e \<in> set events. \<not> streams e"
    and "filter (\<lambda>x. i_id x = iid) (items_said events) = [it]" and "iid \<notin> ir_id ` set (db_items d)"
  shows "\<exists>p. find_row ir_id iid (db_items d') = Some (new_item_row sid (it\<lparr>i_position := p\<rparr>))"
proof -
  obtain its where its: "map (\<lambda>it. it\<lparr>i_position := 0\<rparr>) its = [it\<lparr>i_position := 0\<rparr>]"
    "find_row ir_id iid (db_items d') = fold (write_item sid) its (find_row ir_id iid (db_items d))"
    using append_item_rows [OF assms(1,2)] assms(3) by (metis list.map)
  from its(1) obtain x where x: "its = [x]" "x\<lparr>i_position := 0\<rparr> = it\<lparr>i_position := 0\<rparr>" by auto
  from assms(4) have "find_row ir_id iid (db_items d) = None" by (simp add: find_row_None)
  with its(2) x(1) position_free [OF x(2)] show ?thesis by (auto simp: write_item_def intro!: exI [of _ "i_position x"])
qed

lemma append_item_changed:
  assumes "append_events now sid cmd events d = Inr (stored, d')" and "\<forall>e \<in> set events. \<not> streams e"
    and "filter (\<lambda>x. i_id x = iid) (items_said events) = [it]" and "find_row ir_id iid (db_items d) = Some row"
  shows "find_row ir_id iid (db_items d') = Some (update_item_row sid it row)"
proof -
  obtain its where its: "map (\<lambda>it. it\<lparr>i_position := 0\<rparr>) its = [it\<lparr>i_position := 0\<rparr>]"
    "find_row ir_id iid (db_items d') = fold (write_item sid) its (find_row ir_id iid (db_items d))"
    using append_item_rows [OF assms(1,2)] assms(3) by (metis list.map)
  from its(1) obtain x where x: "its = [x]" "x\<lparr>i_position := 0\<rparr> = it\<lparr>i_position := 0\<rparr>" by auto
  have "update_item_row sid (it\<lparr>i_position := p\<rparr>) row = update_item_row sid it row" for p
    by (simp add: update_item_row_def new_item_row_def item_text_def Let_def)
  with its(2) x(1) position_free [OF x(2)] assms(4) show ?thesis by (metis fold_simps write_item_def option.simps(5))
qed

lemma append_item_left:
  assumes "append_events now sid cmd events d = Inr (stored, d')" and "\<forall>e \<in> set events. \<not> streams e"
    and "\<And>it. it \<in> set (items_said events) \<Longrightarrow> i_id it \<noteq> iid"
  shows "find_row ir_id iid (db_items d') = find_row ir_id iid (db_items d)"
proof -
  have "filter (\<lambda>it. i_id it = iid) (items_said events) = []" using assms(3) by (simp add: filter_empty_conv)
  with append_item_rows [OF assms(1,2), of iid] show ?thesis by (metis Nil_is_map_conv fold_simps(1) list.simps(8))
qed

section \<open>What it leaves alone\<close>

lemma append_commands: "append_events now sid cmd events d = Inr (stored, d') \<Longrightarrow> db_commands d' = db_commands d"
proof (erule append_events_cases)
  assume "append_locked now sid cmd (current_turns d sid events) d = Inr (stored, d')"
  then obtain d0 where "persist now stored d0 = Inr d'" and d0: "db_commands d0 = db_commands d"
    by (auto simp: append_locked_def Let_def split: option.splits sum.splits)
  then obtain d1 where "project_all now stored d1 = Inr d'" "db_commands d1 = db_commands d"
    by (auto simp: persist_def dest: insert_batches_storable split: sum.splits)
  then show ?thesis using project_all_frame(3) by metis
qed simp

lemma append_session_ids: "append_events now sid cmd events d = Inr (stored, d') \<Longrightarrow> map sr_id (db_sessions d') = map sr_id (db_sessions d)"
proof (erule append_events_cases)
  have ids: "map sr_id (db_sessions (set_sequence s n d)) = map sr_id (db_sessions d)" for s n
    by (auto simp: set_sequence_def sr_id_def intro!: map_update_where)
  assume "append_locked now sid cmd (current_turns d sid events) d = Inr (stored, d')"
  then obtain d0 where "persist now stored d0 = Inr d'" and d0: "map sr_id (db_sessions d0) = map sr_id (db_sessions d)"
    using ids by (auto simp: append_locked_def Let_def split: option.splits sum.splits)
  then obtain d1 where "project_all now stored d1 = Inr d'" "map sr_id (db_sessions d1) = map sr_id (db_sessions d)"
    by (auto simp: persist_def dest: insert_batches_storable split: sum.splits)
  then show ?thesis using project_all_frame(8) by metis
qed simp

end
