(* ===== verification/Turn_Leases.thy ===== *)
theory Turn_Leases
  imports Append_Laws Turn_Queue
begin

text \<open>
  A worker's lease on a turn against everything the other workers, the sweep of closed chats and the
  clock do meanwhile: how long it holds, that nobody else gets the session in that time, and that
  afterwards the turn is there for the next claim.
\<close>

section \<open>What others do\<close>




section \<open>Lease columns\<close>







section \<open>The lease at work, and given up\<close>








section \<open>A lease and its session\<close>
















end
