(* ===== verification/Live_Client.thy ===== *)
theory Live_Client
  imports Session_Reads
begin

text \<open>
  How a live client keeps its copy of a session, the cache entry of
  \<open>packages/react/src/hooks/use-agent-session.ts\<close>: stream messages fold into it, and a fresh
  snapshot (a reset, or a reload after a gap) is merged with the older pages already loaded.
\<close>

section \<open>Merging and folding\<close>

definition merge_fresh :: "session_state option \<Rightarrow> session_state \<Rightarrow> session_state" where
  "merge_fresh current fresh =
     (case current of
        None \<Rightarrow> fresh
      | Some cur \<Rightarrow>
          if \<not> s_stale cur \<and> s_sequence fresh < s_sequence cur then cur
          else
            (case s_older_before fresh of
               None \<Rightarrow> fresh
             | Some fresh_from \<Rightarrow>
                 (let older = filter (\<lambda>it. i_position it < fresh_from) (s_items cur) in
                  if older = [] then fresh
                  else with_older_items fresh older
                    (case s_older_before cur of
                       None \<Rightarrow> None
                     | Some b \<Rightarrow> if b < fresh_from then Some b else Some fresh_from))))"

definition apply_stream_message :: "session_state \<Rightarrow> session_stream_message \<Rightarrow> session_state" where
  "apply_stream_message st message =
     (case message of
        StreamHeartbeat n \<Rightarrow> st
      | StreamReset snapshot \<Rightarrow> merge_fresh (Some st) (session_state_from_snapshot snapshot)
      | StreamEvents events \<Rightarrow> apply_session_events st events)"

text \<open>The pause before reconnecting, in milliseconds.\<close>

definition reconnect_delay_ms :: "nat \<Rightarrow> nat" where
  "reconnect_delay_ms failures = min 10000 (500 * 2 ^ (failures - 1))"

datatype refetch = Never | Every nat

definition snapshot_refetch_interval ::
  "bool option \<Rightarrow> session_state option \<Rightarrow> bool \<Rightarrow> bool \<Rightarrow> nat option \<Rightarrow> nat \<Rightarrow> refetch"
where
  "snapshot_refetch_interval failure data streaming on_screen await poll =
     (case failure of
        Some permanent \<Rightarrow> if permanent then Never else Every 3000
      | None \<Rightarrow>
          (case data of
             None \<Rightarrow> Never
           | Some st \<Rightarrow>
               if streaming then Never
               else if on_screen \<or> (case await of None \<Rightarrow> False | Some n \<Rightarrow> s_sequence st < n) then Every poll
               else if \<exists>t \<in> set (s_turns st). \<not> is_settled_turn_status (t_status t) then Every poll
               else Never))"

section \<open>Where the client stands\<close>

lemma merge_fresh_frame:
  "\<not> s_stale fresh \<Longrightarrow> \<not> s_stale (merge_fresh (Some cur) fresh)"
  "s_sequence (merge_fresh (Some cur) fresh) =
     (if \<not> s_stale cur then max (s_sequence cur) (s_sequence fresh) else s_sequence fresh)"
  by (auto simp: merge_fresh_def Let_def with_older_items_def max_def split: option.splits)

lemma snapshot_state_frame [simp]:
  "s_sequence (session_state_from_snapshot sn) = sn_sequence sn" "\<not> s_stale (session_state_from_snapshot sn)"
  "s_older_before (session_state_from_snapshot sn) = sn_older_before sn"
  by (simp_all add: session_state_from_snapshot_def)

text \<open>An item's id and place; a table of places names each id once.\<close>

definition places :: "item set \<Rightarrow> (ident \<times> nat) set" where
  "places items = (\<lambda>it. (i_id it, i_position it)) ` items"

definition placed_once :: "(ident \<times> nat) set \<Rightarrow> bool" where
  "placed_once K \<longleftrightarrow> (\<forall>k p q. (k, p) \<in> K \<and> (k, q) \<in> K \<longrightarrow> p = q)"

lemma places_simps [simp]:
  "places {} = {}" "places (insert x X) = insert (i_id x, i_position x) (places X)"
  "places (X \<union> Y) = places X \<union> places Y"
  by (auto simp: places_def)

lemma places_mono: "X \<subseteq> Y \<Longrightarrow> places X \<subseteq> places Y"
  by (auto simp: places_def)

lemma in_places: "x \<in> X \<Longrightarrow> (i_id x, i_position x) \<in> places X"
  by (auto simp: places_def)

lemma placed_once_mono: "placed_once K \<Longrightarrow> L \<subseteq> K \<Longrightarrow> placed_once L"
  by (auto simp: placed_once_def)

lemma upsert_item_places:
  assumes "placed_once (insert (i_id new, i_position new) (places (set items)))"
  shows "places (set (upsert_item items new)) = insert (i_id new, i_position new) (places (set items))"
proof (cases "i_id new \<in> i_id ` set items")
  case False
  from upsert_item_fresh [OF this] show ?thesis by (simp add: places_def)
next
  case True
  then obtain x where x: "x \<in> set items" "i_id x = i_id new" by auto
  from in_places [OF x(1)] x(2) have key: "(i_id new, i_position x) \<in> places (set items)" by simp
  with assms have "i_position x = i_position new" unfolding placed_once_def by blast
  with key have old: "(i_id new, i_position new) \<in> places (set items)" by simp
  have "map (\<lambda>it. (i_id it, i_position it)) (upsert i_id (\<lambda>x. new\<lparr>i_position := i_position x\<rparr>) new items) =
      map (\<lambda>it. (i_id it, i_position it)) items"
    using True by (intro upsert_keeps_keys) auto
  then have "map (\<lambda>it. (i_id it, i_position it)) (upsert_item items new) = map (\<lambda>it. (i_id it, i_position it)) items"
    using True by (simp add: upsert_item_def)
  then have "set (map (\<lambda>it. (i_id it, i_position it)) (upsert_item items new)) =
      set (map (\<lambda>it. (i_id it, i_position it)) items)" by (simp only:)
  then have "places (set (upsert_item items new)) = places (set items)" by (simp only: set_map places_def)
  with old show ?thesis by (simp add: insert_absorb)
qed

lemma with_older_places:
  assumes "placed_once (places (set page) \<union> places (set (s_items st)))"
  shows "places (set (s_items (with_older_items st page older))) = places (set page) \<union> places (set (s_items st))"
proof -
  have "places (set (fold (\<lambda>it items. upsert_item items it) page items)) = places (set page) \<union> places (set items)"
    if "placed_once (places (set page) \<union> places (set items))" for items
    using that
  proof (induction page arbitrary: items)
    case (Cons it page)
    let ?k = "(i_id it, i_position it)"
    have all: "places (set (it # page)) \<union> places (set items) = insert ?k (places (set page) \<union> places (set items))"
      by simp
    have "places (set (upsert_item items it)) = insert ?k (places (set items))"
      by (rule upsert_item_places, rule placed_once_mono [OF Cons.prems]) (auto simp: all)
    moreover from this have "placed_once (places (set page) \<union> places (set (upsert_item items it)))"
      using Cons.prems unfolding all by simp
    note Cons.IH [OF this]
    ultimately show ?case unfolding all by simp
  qed simp
  from this [OF assms] show ?thesis by (simp add: with_older_items_def)
qed

text \<open>
  What a client knows of a session's history: its items stand at the session's places, and every
  item between its cursor and the sequence it stands at is among them.
\<close>

definition knows_history :: "ident \<Rightarrow> db \<Rightarrow> session_state \<Rightarrow> bool" where
  "knows_history sid d st \<longleftrightarrow>
     placed_once (places (item_from_row ` set (items_of sid d)) \<union> places (set (s_items st))) \<and>
     (\<forall>r \<in> set (items_of sid d).
        (case s_older_before st of None \<Rightarrow> 0 | Some b \<Rightarrow> b) \<le> ir_position r \<and> ir_position r \<le> s_sequence st \<longrightarrow>
        (ir_id r, ir_position r) \<in> places (set (s_items st)))"

lemma snapshot_knows_history:
  assumes "read_snapshot now n d sid = Some sn" and "placed sid d"
  shows "knows_history sid d (session_state_from_snapshot sn)"
    and "places (set (s_items (session_state_from_snapshot sn))) \<subseteq> places (item_from_row ` set (items_of sid d))"
    and "\<And>r. r \<in> set (items_of sid d) \<Longrightarrow> (case sn_older_before sn of None \<Rightarrow> 0 | Some b \<Rightarrow> b) \<le> ir_position r \<Longrightarrow>
      (ir_id r, ir_position r) \<in> places (set (s_items (session_state_from_snapshot sn)))"
proof -
  let ?st = "session_state_from_snapshot sn"
  note snap = snapshot_payloads [OF assms(1)]
  have items: "set (s_items ?st) = set (sn_items sn)" by (simp add: session_state_from_snapshot_def)
  have all: "payloads sid d (\<lambda>_. True) = item_from_row ` set (items_of sid d)" by (simp add: payloads_def)
  have key: "(ir_id r, ir_position r) = (i_id (item_from_row r), i_position (item_from_row r))"
    if "r \<in> set (items_of sid d)" for r
    using assms(2) that by (simp add: placed_def repeats_def item_from_row_def)
  show sub: "places (set (s_items ?st)) \<subseteq> places (item_from_row ` set (items_of sid d))"
    using snap(1) unfolding all items by (rule places_mono)
  show inside: "(ir_id r, ir_position r) \<in> places (set (s_items ?st))"
    if "r \<in> set (items_of sid d)" "(case sn_older_before sn of None \<Rightarrow> 0 | Some b \<Rightarrow> b) \<le> ir_position r" for r
  proof -
    have "item_from_row r \<in> set (sn_items sn)"
      using snap(2) that by (auto simp: payloads_def)
    then show ?thesis unfolding key [OF that(1)] items by (rule in_places)
  qed
  have "placed_once (places (item_from_row ` set (items_of sid d)))"
    using payloads_inj [OF assms(2)] unfolding placed_once_def places_def all [symmetric] by blast
  then show "knows_history sid d ?st"
    using sub inside by (simp add: knows_history_def Un_absorb2)
qed

text \<open>Property C18: a fresh snapshot loses nothing of the history, unless it starts past the client.
  Merging one into what a client holds keeps every item between the merged cursor and the merged
  sequence, provided the snapshot starts no later than right after what the client has.\<close>

theorem merge_keeps_history:
  assumes "read_snapshot now n d sid = Some sn" and "placed sid d" and "knows_history sid d cur"
    and "case sn_older_before sn of None \<Rightarrow> True | Some b \<Rightarrow> b \<le> s_sequence cur + 1"
  shows "knows_history sid d (merge_fresh (Some cur) (session_state_from_snapshot sn))"
proof -
  let ?fresh = "session_state_from_snapshot sn"
  note fresh = snapshot_knows_history [OF assms(1,2)]
  consider (current) "merge_fresh (Some cur) ?fresh = cur" | (fresh) "merge_fresh (Some cur) ?fresh = ?fresh"
    | (both) b where "sn_older_before sn = Some b" "merge_fresh (Some cur) ?fresh =
        with_older_items ?fresh (filter (\<lambda>it. i_position it < b) (s_items cur))
          (case s_older_before cur of None \<Rightarrow> None | Some c \<Rightarrow> if c < b then Some c else Some b)"
  proof (cases "\<not> s_stale cur \<and> sn_sequence sn < s_sequence cur")
    case True
    then show thesis by (intro that(1)) (simp add: merge_fresh_def)
  next
    case newer: False
    show thesis
    proof (cases "sn_older_before sn")
      case None
      with newer show thesis by (intro that(2)) (auto simp: merge_fresh_def)
    next
      case (Some b)
      show thesis
      proof (cases "filter (\<lambda>it. i_position it < b) (s_items cur) = []")
        case True
        with newer Some show thesis by (intro that(2)) (auto simp: merge_fresh_def)
      next
        case False
        with newer Some show thesis by (intro that(3) [of b]) (auto simp: merge_fresh_def)
      qed
    qed
  qed
  then show ?thesis
  proof cases
    case current
    with assms(3) show ?thesis by simp
  next
    case fresh
    with snapshot_knows_history(1) [OF assms(1,2)] show ?thesis by simp
  next
    case both
    let ?older = "filter (\<lambda>it. i_position it < b) (s_items cur)"
    let ?merged = "merge_fresh (Some cur) ?fresh"
    have "set ?older \<subseteq> set (s_items cur)" by auto
    from places_mono [OF this] fresh(2) have sub: "places (set ?older) \<union> places (set (s_items ?fresh)) \<subseteq>
        places (item_from_row ` set (items_of sid d)) \<union> places (set (s_items cur))" by blast
    have once: "placed_once (places (item_from_row ` set (items_of sid d)) \<union> places (set (s_items cur)))"
      using assms(3) by (simp add: knows_history_def)
    from placed_once_mono [OF once sub] have items:
      "places (set (s_items ?merged)) = places (set ?older) \<union> places (set (s_items ?fresh))"
      unfolding both(2) by (rule with_older_places)
    have cursor: "s_older_before ?merged =
        (case s_older_before cur of None \<Rightarrow> None | Some c \<Rightarrow> if c < b then Some c else Some b)"
      unfolding both(2) by (simp add: with_older_items_def)
    have "(ir_id r, ir_position r) \<in> places (set (s_items ?merged))"
      if r: "r \<in> set (items_of sid d)"
        "(case s_older_before ?merged of None \<Rightarrow> 0 | Some c \<Rightarrow> c) \<le> ir_position r" for r
    proof (cases "b \<le> ir_position r")
      case True
      with fresh(3) [OF r(1)] both(1) items show ?thesis by simp
    next
      case False
      with assms(4) both(1) have "ir_position r \<le> s_sequence cur" by simp
      moreover have "(case s_older_before cur of None \<Rightarrow> 0 | Some c \<Rightarrow> c) \<le> ir_position r"
        using r(2) False unfolding cursor by (auto split: option.splits if_splits)
      ultimately have "(ir_id r, ir_position r) \<in> places (set (s_items cur))"
        using assms(3) r(1) by (simp add: knows_history_def)
      with False have "(ir_id r, ir_position r) \<in> places (set ?older)" by (auto simp: places_def)
      then show ?thesis unfolding items by blast
    qed
    moreover have "placed_once (places (item_from_row ` set (items_of sid d)) \<union> places (set (s_items ?merged)))"
      unfolding items by (rule placed_once_mono [OF once]) (use sub in blast)
    ultimately show ?thesis by (simp add: knows_history_def)
  qed
qed

section \<open>A hole in the history\<close>

text \<open>
  A session of two turns: the client saw the first item and went away; an item was added to the
  first turn, then a second turn began.
\<close>

definition ex_away :: db where
  "ex_away = (ex_db 3)
     \<lparr>db_turns := [ex_turn_row ''t'' 1 Completed, ex_turn_row ''u'' 2 Completed],
      db_items := [new_item_row ''s'' (ex_item ''a'' 1 (Reasoning ''a'')\<lparr>i_turn_id := Some ''t''\<rparr>),
        new_item_row ''s'' (ex_item ''b'' 2 (Reasoning ''b'')\<lparr>i_turn_id := Some ''t''\<rparr>),
        new_item_row ''s'' (ex_item ''c'' 3 (Reasoning ''c'')\<lparr>i_turn_id := Some ''u''\<rparr>)]\<rparr>"

definition ex_before :: session_state where
  "ex_before = (ex_state 1)\<lparr>s_items := [ex_item ''a'' 1 (Reasoning ''a'')\<lparr>i_turn_id := Some ''t''\<rparr>]\<rparr>"

lemma ex_away_ok: "placed ''s'' ex_away" "knows_history ''s'' ex_away ex_before"
proof -
  show "placed ''s'' ex_away"
    by (simp add: ex_away_def placed_def repeats_def items_of_def unique_keys_def new_item_row_def fixtures)
  show "knows_history ''s'' ex_away ex_before"
    by (auto simp: knows_history_def placed_once_def items_of_def ex_away_def ex_before_def ex_state_def
        item_from_row_def new_item_row_def fixtures)
qed

lemma ex_away_snapshot: "\<exists>sn. read_snapshot 5 (Some m) ex_away ''s'' = Some sn"
  by (simp add: read_snapshot_def ex_away_def session_row_of_def sr_id_def Let_def fixtures)

theorem merge_keeps_history_witness:
  "\<exists>sn. read_snapshot 5 (Some 2) ex_away ''s'' = Some sn \<and>
     knows_history ''s'' ex_away (merge_fresh (Some ex_before) (session_state_from_snapshot sn))"
proof -
  have "\<exists>sn. read_snapshot 5 (Some 2) ex_away ''s'' = Some sn \<and> sn_older_before sn = None"
    by (simp add: read_snapshot_def ex_away_def session_row_of_def sr_id_def Let_def snapshot_turns_def recent_turns_def
        pending_turns_def turns_of_def newest_first_def put_row_def turn_from_row_def snapshot_from_def leading_page_def
        first_position_def items_of_def older_before_def HISTORY_PAGE_ITEMS_def fixtures)
  then obtain sn where sn: "read_snapshot 5 (Some 2) ex_away ''s'' = Some sn" "sn_older_before sn = None" by blast
  with merge_keeps_history [OF sn(1) ex_away_ok] show ?thesis by simp
qed

text \<open>A snapshot that starts past what the client has leaves a hole that paging never
  fills. A client that held the whole history, was away while a turn's worth of items was added,
  and merges a snapshot of the later turns, lacks the items between and holds no cursor to them.\<close>

theorem merge_leaves_hole:
  "knows_history ''s'' ex_away ex_before \<and>
   (\<exists>sn. read_snapshot 5 (Some 1) ex_away ''s'' = Some sn \<and>
     (let st = merge_fresh (Some ex_before) (session_state_from_snapshot sn) in
      map i_id (s_items st) = [''a'', ''c''] \<and> s_older_before st = None \<and> \<not> s_stale st \<and>
      \<not> knows_history ''s'' ex_away st))"
proof -
  let ?c = "ex_item ''c'' 3 (Reasoning ''c'')\<lparr>i_turn_id := Some ''u''\<rparr>"
  have "\<exists>sn. read_snapshot 5 (Some 1) ex_away ''s'' = Some sn \<and> sn_items sn = [?c] \<and>
      sn_older_before sn = Some 3 \<and> sn_sequence sn = 3"
    by (simp add: read_snapshot_def ex_away_def session_row_of_def sr_id_def Let_def snapshot_turns_def recent_turns_def
        pending_turns_def turns_of_def newest_first_def put_row_def turn_from_row_def snapshot_from_def leading_page_def
        first_position_def items_of_def older_before_def snapshot_items_def NO_TURN_def item_from_row_def new_item_row_def fixtures)
  then obtain sn where sn: "read_snapshot 5 (Some 1) ex_away ''s'' = Some sn" "sn_items sn = [?c]"
    "sn_older_before sn = Some 3" "sn_sequence sn = 3" by blast
  let ?st = "merge_fresh (Some ex_before) (session_state_from_snapshot sn)"
  have st: "map i_id (s_items ?st) = [''a'', ''c'']" "s_older_before ?st = None" "\<not> s_stale ?st" "s_sequence ?st = 3"
    using sn by (simp_all add: merge_fresh_def ex_before_def ex_state_def session_state_from_snapshot_def
        with_older_items_def upsert_item_def compare_items_def Let_def ex_item_def)
  let ?b = "new_item_row ''s'' (ex_item ''b'' 2 (Reasoning ''b'')\<lparr>i_turn_id := Some ''t''\<rparr>)"
  have "fst ` places (set (s_items ?st)) = set (map i_id (s_items ?st))"
    by (simp add: places_def image_image)
  then have ids: "fst ` places (set (s_items ?st)) = {''a'', ''c''}" unfolding st(1) by simp
  have "(''b'', 2) \<notin> places (set (s_items ?st))"
  proof
    assume "(''b'', 2) \<in> places (set (s_items ?st))"
    from imageI [OF this, of fst] show False unfolding ids by simp
  qed
  then have absent: "(ir_id ?b, ir_position ?b) \<notin> places (set (s_items ?st))" by (simp add: new_item_row_def ex_item_def)
  have there: "?b \<in> set (items_of ''s'' ex_away)"
    by (simp add: items_of_def ex_away_def new_item_row_def fixtures)
  have pos: "ir_position ?b = 2" by (simp add: new_item_row_def ex_item_def)
  have "\<not> knows_history ''s'' ex_away ?st"
  proof
    assume "knows_history ''s'' ex_away ?st"
    then have "(case s_older_before ?st of None \<Rightarrow> 0 | Some b \<Rightarrow> b) \<le> ir_position ?b \<and> ir_position ?b \<le> s_sequence ?st \<longrightarrow>
        (ir_id ?b, ir_position ?b) \<in> places (set (s_items ?st))"
      using there unfolding knows_history_def by blast
    then show False using absent unfolding st(2,4) pos by simp
  qed
  with st sn(1) ex_away_ok(2) show ?thesis by (auto simp: Let_def)
qed

end
