(* ===== verification/Session_Feed.thy ===== *)
theory Session_Feed
  imports Live_Client
begin

text \<open>
  Live session streams, \<open>packages/core/src/services/sessions/session-feed.ts\<close>: one poller reads
  what was logged after its subscribers' cursors and sends it on; a new subscriber joins the poll
  first and catches up after. Every query is awaited, so other subscribers, ticks and appends run
  between a question and the use of its answer: those are separate steps here. \<open>chars\<close> is the
  length of a message as JSON, \<open>octets\<close> that of an event, and \<open>ok\<close> what the transport answers to a send.
\<close>

section \<open>Subscribers\<close>

definition STREAM_MAX_PENDING_EVENTS :: nat where "STREAM_MAX_PENDING_EVENTS = 1000"
definition STREAM_MAX_PENDING_BYTES :: nat where "STREAM_MAX_PENDING_BYTES = 8 * 1024 * 1024"

datatype close_reason = Slow | Ended

text \<open>
  A subscriber object: the cursor it was opened with and the one it stands at, what its
  transport buffers, every message it was sent and every close it was told.
\<close>

record subscriber =
  sb_id :: nat
  sb_session :: ident
  sb_started :: nat
  sb_after :: nat
  sb_pending_events :: nat
  sb_pending_bytes :: nat
  sb_sent :: "session_stream_message list"
  sb_closed :: "close_reason list"

text \<open>The feed: its subscriber objects, those in its set, and whether it polls.\<close>

record feed =
  fd_subscribers :: "subscriber list"
  fd_live :: "nat list"
  fd_polling :: bool

definition empty_feed :: feed where
  "empty_feed = \<lparr>fd_subscribers = [], fd_live = [], fd_polling = False\<rparr>"

definition message_events :: "session_stream_message \<Rightarrow> nat" where
  "message_events m = (case m of StreamEvents es \<Rightarrow> length es | _ \<Rightarrow> 1)"

definition push_message ::
  "(session_stream_message \<Rightarrow> nat) \<Rightarrow> bool \<Rightarrow> session_stream_message \<Rightarrow> subscriber \<Rightarrow> subscriber"
where
  "push_message chars ok m sub =
     sub\<lparr>sb_sent := sb_sent sub @ [m],
         sb_pending_events := (if ok then 0 else sb_pending_events sub + message_events m),
         sb_pending_bytes := (if ok then 0 else sb_pending_bytes sub + chars m)\<rparr>"

definition keeps_up :: "bool \<Rightarrow> subscriber \<Rightarrow> bool" where
  "keeps_up ok sub \<longleftrightarrow> ok \<or>
     sb_pending_events sub \<le> STREAM_MAX_PENDING_EVENTS \<and> sb_pending_bytes sub \<le> STREAM_MAX_PENDING_BYTES"

section \<open>Delivering\<close>

definition on_subscriber :: "nat \<Rightarrow> (subscriber \<Rightarrow> subscriber) \<Rightarrow> feed \<Rightarrow> feed" where
  "on_subscriber k f fd = fd\<lparr>fd_subscribers := update_where (\<lambda>s. sb_id s = k) f (fd_subscribers fd)\<rparr>"

definition stop_if_idle :: "feed \<Rightarrow> feed" where
  "stop_if_idle fd = (if fd_live fd = [] then fd\<lparr>fd_polling := False\<rparr> else fd)"

definition drop_live :: "nat \<Rightarrow> feed \<Rightarrow> feed" where
  "drop_live k fd = fd\<lparr>fd_live := removeAll k (fd_live fd)\<rparr>"

definition deliver ::
  "(session_stream_message \<Rightarrow> nat) \<Rightarrow> bool \<Rightarrow> nat \<Rightarrow> session_stream_message \<Rightarrow> feed \<Rightarrow> feed"
where
  "deliver chars ok k m fd =
     (let fd' = on_subscriber k (push_message chars ok m) fd in
      case find_row sb_id k (fd_subscribers fd') of
        None \<Rightarrow> fd'
      | Some sub \<Rightarrow>
          if keeps_up ok sub then fd'
          else stop_if_idle (on_subscriber k (\<lambda>s. s\<lparr>sb_closed := sb_closed s @ [Slow]\<rparr>) (drop_live k fd')))"

definition deliver_events ::
  "(session_stream_message \<Rightarrow> nat) \<Rightarrow> bool \<Rightarrow> nat \<Rightarrow> stored_event list \<Rightarrow> feed \<Rightarrow> feed"
where
  "deliver_events chars ok k events fd =
     (case find_row sb_id k (fd_subscribers fd) of
        None \<Rightarrow> fd
      | Some sub \<Rightarrow>
          (let fresh = filter (\<lambda>e. sb_after sub < se_sequence e) events in
           if fresh = [] then fd
           else deliver chars ok k (StreamEvents fresh)
                  (on_subscriber k (\<lambda>s. s\<lparr>sb_after := se_sequence (last fresh)\<rparr>) fd)))"

section \<open>Subscribing\<close>

definition join_feed :: "nat \<Rightarrow> ident \<Rightarrow> nat \<Rightarrow> feed \<Rightarrow> feed" where
  "join_feed k sid after fd =
     fd\<lparr>fd_subscribers := fd_subscribers fd @
          [\<lparr>sb_id = k, sb_session = sid, sb_started = after, sb_after = after, sb_pending_events = 0,
            sb_pending_bytes = 0, sb_sent = [], sb_closed = []\<rparr>],
        fd_live := fd_live fd @ [k], fd_polling := True\<rparr>"

definition catch_up_reset ::
  "(session_stream_message \<Rightarrow> nat) \<Rightarrow> bool \<Rightarrow> nat \<Rightarrow> session_snapshot \<Rightarrow> feed \<Rightarrow> feed"
where
  "catch_up_reset chars ok k snapshot fd =
     deliver chars ok k (StreamReset snapshot)
       (on_subscriber k (\<lambda>s. s\<lparr>sb_after := max (sb_after s) (sn_sequence snapshot)\<rparr>) fd)"

definition catch_up_events ::
  "(session_stream_message \<Rightarrow> nat) \<Rightarrow> bool \<Rightarrow> nat \<Rightarrow> stored_event list \<Rightarrow> feed \<Rightarrow> feed"
where
  "catch_up_events chars ok k events fd = (if events = [] then fd else deliver_events chars ok k events fd)"

definition leave_feed :: "nat \<Rightarrow> feed \<Rightarrow> feed" where
  "leave_feed k fd = stop_if_idle (drop_live k fd)"

definition close_feed :: "feed \<Rightarrow> feed" where
  "close_feed fd =
     stop_if_idle (fd\<lparr>fd_subscribers := update_where (\<lambda>s. sb_id s \<in> set (fd_live fd))
          (\<lambda>s. s\<lparr>sb_closed := sb_closed s @ [Ended]\<rparr>) (fd_subscribers fd),
        fd_live := []\<rparr>)"

section \<open>One poll\<close>

definition add_cursor :: "subscriber \<Rightarrow> (ident \<times> nat) list \<Rightarrow> (ident \<times> nat) list" where
  "add_cursor sub cursors =
     (case find_row fst (sb_session sub) cursors of
        None \<Rightarrow> put_row fst (sb_session sub, sb_after sub) cursors
      | Some (_, n) \<Rightarrow> put_row fst (sb_session sub, min n (sb_after sub)) cursors)"

definition tick_cursors :: "feed \<Rightarrow> (ident \<times> nat) list" where
  "tick_cursors fd =
     fold add_cursor (concat (map (\<lambda>k. case find_row sb_id k (fd_subscribers fd) of None \<Rightarrow> [] | Some s \<Rightarrow> [s]) (fd_live fd))) []"

definition TICK_LIMIT :: nat where "TICK_LIMIT = 2000"

definition tick_one ::
  "(session_stream_message \<Rightarrow> nat) \<Rightarrow> (nat \<Rightarrow> bool) \<Rightarrow> stored_event list \<Rightarrow> nat \<Rightarrow> feed \<Rightarrow> feed"
where
  "tick_one chars ok events k fd =
     (case find_row sb_id k (fd_subscribers fd) of
        None \<Rightarrow> fd
      | Some sub \<Rightarrow>
          (let list = filter (\<lambda>e. se_session_id e = sb_session sub) events in
           if list = [] then fd else deliver_events chars (ok k) k list fd))"

definition tick_deliver ::
  "(session_stream_message \<Rightarrow> nat) \<Rightarrow> (nat \<Rightarrow> bool) \<Rightarrow> stored_event list \<Rightarrow> feed \<Rightarrow> feed"
where
  "tick_deliver chars ok events fd =
     (if events = [] then fd else fold (tick_one chars ok events) (fd_live fd) fd)"

section \<open>The world around the feed\<close>

datatype catching = Reading | Read replay_answer | Loaded session_snapshot
datatype tick = Asking "(ident \<times> nat) list" | Answered "stored_event list"

record world =
  w_db :: db
  w_feed :: feed
  w_catching :: "(nat \<times> catching) list"
  w_ticks :: "tick list"

text \<open>
  The steps: an append to some session; a subscriber joins, its gap is read, sent, or, when too
  large, replaced by a snapshot read later; a tick asks, is answered, and is delivered or fails;
  subscribers leave. \<open>calm\<close> restricts the runs to those in which nobody joins while a
  tick is under way.
\<close>

inductive feed_step ::
  "bool \<Rightarrow> (session_event \<Rightarrow> nat) \<Rightarrow> (session_stream_message \<Rightarrow> nat) \<Rightarrow> world \<Rightarrow> world \<Rightarrow> bool"
  for calm octets chars
where
  Logged: "append_events now sid cmd events (w_db w) = Inr (stored, d) \<Longrightarrow> feed_step calm octets chars w (w\<lparr>w_db := d\<rparr>)"
| Joins: "k \<notin> sb_id ` set (fd_subscribers (w_feed w)) \<Longrightarrow> (calm \<longrightarrow> w_ticks w = []) \<Longrightarrow>
    feed_step calm octets chars w (w\<lparr>w_feed := join_feed k sid after (w_feed w), w_catching := (k, Reading) # w_catching w\<rparr>)"
| GapRead: "w_catching w = xs @ (k, Reading) # ys \<Longrightarrow> find_row sb_id k (fd_subscribers (w_feed w)) = Some sub \<Longrightarrow>
    feed_step calm octets chars w
      (w\<lparr>w_catching := xs @ (k, Read (events_after octets (w_db w) (sb_session sub) (sb_started sub) None None)) # ys\<rparr>)"
| CaughtUp: "w_catching w = xs @ (k, Read (Replay events)) # ys \<Longrightarrow>
    feed_step calm octets chars w (w\<lparr>w_feed := catch_up_events chars ok k events (w_feed w), w_catching := xs @ ys\<rparr>)"
| SnapshotRead: "w_catching w = xs @ (k, Read Reset) # ys \<Longrightarrow> find_row sb_id k (fd_subscribers (w_feed w)) = Some sub \<Longrightarrow>
    read_snapshot now None (w_db w) (sb_session sub) = Some snapshot \<Longrightarrow>
    feed_step calm octets chars w (w\<lparr>w_catching := xs @ (k, Loaded snapshot) # ys\<rparr>)"
| WasReset: "w_catching w = xs @ (k, Loaded snapshot) # ys \<Longrightarrow>
    feed_step calm octets chars w (w\<lparr>w_feed := catch_up_reset chars ok k snapshot (w_feed w), w_catching := xs @ ys\<rparr>)"
| Asks: "fd_polling (w_feed w) \<Longrightarrow> fd_live (w_feed w) \<noteq> [] \<Longrightarrow>
    feed_step calm octets chars w (w\<lparr>w_ticks := Asking (tick_cursors (w_feed w)) # w_ticks w\<rparr>)"
| Answers: "w_ticks w = xs @ Asking cursors # ys \<Longrightarrow>
    feed_step calm octets chars w (w\<lparr>w_ticks := xs @ Answered (events_after_many (w_db w) cursors TICK_LIMIT) # ys\<rparr>)"
| Delivers: "w_ticks w = xs @ Answered events # ys \<Longrightarrow>
    feed_step calm octets chars w (w\<lparr>w_feed := tick_deliver chars oks events (w_feed w), w_ticks := xs @ ys\<rparr>)"
| Fails: "w_ticks w = xs @ t # ys \<Longrightarrow> feed_step calm octets chars w (w\<lparr>w_ticks := xs @ ys\<rparr>)"
| Leaves: "feed_step calm octets chars w (w\<lparr>w_feed := leave_feed k (w_feed w)\<rparr>)"
| Closes: "feed_step calm octets chars w (w\<lparr>w_feed := close_feed (w_feed w)\<rparr>)"

inductive_cases feed_stepE [elim]: "feed_step calm octets chars w w'"

section \<open>What every step keeps of a subscriber\<close>

text \<open>The client behind a subscriber: it stood at the cursor and folds what it is sent.\<close>

definition view :: "session_state \<Rightarrow> subscriber \<Rightarrow> session_state" where
  "view st sub = foldl apply_stream_message st (sb_sent sub)"

definition in_step :: "session_state \<Rightarrow> subscriber \<Rightarrow> bool" where
  "in_step st sub \<longleftrightarrow> \<not> s_stale (view st sub) \<and> s_sequence (view st sub) = sb_after sub"

definition progress :: "subscriber \<Rightarrow> subscriber \<Rightarrow> bool" where
  "progress s s' \<longleftrightarrow> sb_id s' = sb_id s \<and> sb_session s' = sb_session s \<and> sb_started s' = sb_started s \<and>
     sb_after s \<le> sb_after s' \<and> (\<forall>st. in_step st s \<longrightarrow> in_step st s')"

definition feed_progress :: "feed \<Rightarrow> feed \<Rightarrow> bool" where
  "feed_progress fd fd' \<longleftrightarrow>
     list_all2 progress (fd_subscribers fd) (fd_subscribers fd') \<and> set (fd_live fd') \<subseteq> set (fd_live fd)"

lemma progress_refl [simp]: "progress s s"
  by (simp add: progress_def)

lemma progress_trans: "progress a b \<Longrightarrow> progress b c \<Longrightarrow> progress a c"
  by (auto simp: progress_def)

lemma feed_progress_refl [simp]: "feed_progress fd fd"
  by (simp add: feed_progress_def list_all2_same)

lemma feed_progress_trans: "feed_progress a b \<Longrightarrow> feed_progress b c \<Longrightarrow> feed_progress a c"
  unfolding feed_progress_def by (auto intro: list_all2_trans [OF progress_trans])

lemma list_all2_update_where:
  "(\<And>x. x \<in> set xs \<Longrightarrow> P x x) \<Longrightarrow> (\<And>x. x \<in> set xs \<Longrightarrow> p x \<Longrightarrow> P x (f x)) \<Longrightarrow> list_all2 P xs (update_where p f xs)"
  by (induction xs) auto

lemma on_subscriber_progress:
  assumes "\<And>s. s \<in> set (fd_subscribers fd) \<Longrightarrow> sb_id s = k \<Longrightarrow> progress s (f s)"
  shows "feed_progress fd (on_subscriber k f fd)"
  using assms by (auto simp: feed_progress_def on_subscriber_def intro!: list_all2_update_where)

lemma view_frame:
  "view st (s\<lparr>sb_closed := x\<rparr>) = view st s" "view st (s\<lparr>sb_after := n\<rparr>) = view st s"
  "view st (push_message chars ok m s) = apply_stream_message (view st s) m"
  by (simp_all add: view_def push_message_def)

lemma push_message_frame [simp]:
  "sb_id (push_message chars ok m s) = sb_id s" "sb_session (push_message chars ok m s) = sb_session s"
  "sb_started (push_message chars ok m s) = sb_started s" "sb_after (push_message chars ok m s) = sb_after s"
  by (simp_all add: push_message_def)

lemma closed_progress: "progress s (s\<lparr>sb_closed := x\<rparr>)"
  by (simp add: progress_def in_step_def view_frame)

lemma idle_progress [simp]: "feed_progress fd (stop_if_idle fd)" "feed_progress fd (drop_live k fd)"
  by (auto simp: stop_if_idle_def drop_live_def feed_progress_def list_all2_same)

text \<open>Moving a subscriber's cursor and sending it a message is one change to it.\<close>

lemma deliver_progress:
  assumes "\<And>s. s \<in> set (fd_subscribers fd) \<Longrightarrow> sb_id s = k \<Longrightarrow> progress s (push_message chars ok m (f s))"
    and "\<And>s. sb_id (f s) = sb_id s"
  shows "feed_progress fd (deliver chars ok k m (on_subscriber k f fd))"
proof -
  have two: "on_subscriber k (push_message chars ok m) (on_subscriber k f fd) =
      on_subscriber k (\<lambda>s. push_message chars ok m (f s)) fd"
    using assms(2) by (simp add: on_subscriber_def update_where_def)
  have sent: "feed_progress fd (on_subscriber k (\<lambda>s. push_message chars ok m (f s)) fd)"
    using assms(1) by (rule on_subscriber_progress)
  have "feed_progress fd' (stop_if_idle (on_subscriber k (\<lambda>s. s\<lparr>sb_closed := sb_closed s @ [Slow]\<rparr>) (drop_live k fd')))" for fd'
    by (rule feed_progress_trans [OF idle_progress(2)], rule feed_progress_trans [OF _ idle_progress(1)],
        rule on_subscriber_progress) (rule closed_progress)
  from feed_progress_trans [OF sent this] sent show ?thesis
    unfolding deliver_def two Let_def by (simp split: option.splits)
qed

section \<open>Runs of the log\<close>

text \<open>A list of events of one session that continues from some place at or before a cursor.\<close>

definition reaches :: "nat \<Rightarrow> stored_event list \<Rightarrow> bool" where
  "reaches n es \<longleftrightarrow> (\<exists>c \<le> n. follows se_sequence c es)"

lemma follows_bounds: "follows eseq c es \<Longrightarrow> x \<in> set es \<Longrightarrow> c < eseq x \<and> eseq x \<le> c + length es"
  by (auto simp: in_set_conv_nth follows_nth)

lemma follows_filter:
  "follows se_sequence c es \<Longrightarrow> c \<le> a \<Longrightarrow> follows se_sequence a (filter (\<lambda>e. a < se_sequence e) es)"
proof (induction es arbitrary: c)
  case (Cons e es)
  show ?case
  proof (cases "Suc c \<le> a")
    case True
    with Cons.IH [of "Suc c"] Cons.prems(1) show ?thesis by simp
  next
    case False
    with Cons.prems have "a = c" by simp
    moreover have "filter (\<lambda>e. a < se_sequence e) (e # es) = e # es"
    proof (rule filter_True)
      have "\<forall>x \<in> set es. Suc c < se_sequence x" using Cons.prems(1) follows_bounds by fastforce
      then show "\<forall>x \<in> set (e # es). a < se_sequence x" using Cons.prems \<open>a = c\<close> by auto
    qed
    ultimately show ?thesis using Cons.prems(1) by simp
  qed
qed simp

lemma deliver_events_progress:
  assumes "\<And>s. s \<in> set (fd_subscribers fd) \<Longrightarrow> sb_id s = k \<Longrightarrow> reaches (sb_after s) events"
    and "unique_keys sb_id (fd_subscribers fd)"
  shows "feed_progress fd (deliver_events chars ok k events fd)"
proof (cases "find_row sb_id k (fd_subscribers fd)")
  case None
  then show ?thesis by (simp add: deliver_events_def)
next
  case (Some sub)
  define fresh where "fresh = filter (\<lambda>e. sb_after sub < se_sequence e) events"
  show ?thesis
  proof (cases "fresh = []")
    case True
    with Some show ?thesis by (simp add: deliver_events_def fresh_def)
  next
    case False
    from Some have sub: "sub \<in> set (fd_subscribers fd)" "sb_id sub = k" by (auto dest: find_row_Some)
    have only: "s = sub" if "s \<in> set (fd_subscribers fd)" "sb_id s = k" for s
      using find_row_unique [OF assms(2) that(1)] Some that(2) by simp
    from assms(1) [OF sub] have cont: "follows se_sequence (sb_after sub) fresh"
      unfolding reaches_def fresh_def using follows_filter by blast
    from False have stop: "se_sequence (last fresh) = sb_after sub + length fresh"
      using follows_nth [OF cont, of "length fresh - 1"] by (simp add: last_conv_nth)
    have "progress sub (push_message chars ok (StreamEvents fresh) (sub\<lparr>sb_after := se_sequence (last fresh)\<rparr>))"
    proof -
      have "in_step st (push_message chars ok (StreamEvents fresh) (sub\<lparr>sb_after := se_sequence (last fresh)\<rparr>))"
        if "in_step st sub" for st
      proof -
        from that have here: "\<not> s_stale (view st sub)" "s_sequence (view st sub) = sb_after sub" by (auto simp: in_step_def)
        with cont have "follows se_sequence (s_sequence (view st sub)) fresh" by simp
        from reader.run_follows [OF here(1) this, THEN conjunct2] here show ?thesis
          by (simp add: in_step_def view_frame apply_stream_message_def stop)
      qed
      then show ?thesis by (simp add: progress_def stop)
    qed
    then have "feed_progress fd (deliver chars ok k (StreamEvents fresh)
        (on_subscriber k (\<lambda>s. s\<lparr>sb_after := se_sequence (last fresh)\<rparr>) fd))"
      by (intro deliver_progress) (auto dest: only)
    with Some False show ?thesis by (simp add: deliver_events_def Let_def flip: fresh_def)
  qed
qed

text \<open>A log that has every event from the session's first, read from a cursor on.\<close>

definition whole_log :: "db \<Rightarrow> ident \<Rightarrow> bool" where
  "whole_log d s \<longleftrightarrow> follows se_sequence 0 (events_of s d) \<and> length (events_of s d) = latest_sequence d s"

lemma whole_log_wf: "whole_log d s \<Longrightarrow> log_wf s d"
  by (simp add: whole_log_def log_wf_def)

lemma append_whole_log:
  assumes "append_events now sid cmd events d = Inr (stored, d')" and "whole_log d s"
  shows "whole_log d' s"
  using append_events_effect(1,2) [OF assms(1), of s] append_events_effect(3) [OF assms(1)] assms(2)
  by (auto simp: whole_log_def follows_append split: if_splits)

lemma whole_log_after:
  assumes "whole_log d s"
  shows "reaches n (filter (\<lambda>e. n < se_sequence e) (events_of s d))"
  using assms follows_filter [of 0 "events_of s d" n] by (auto simp: whole_log_def reaches_def)

lemma follows_take: "follows eseq c es \<Longrightarrow> follows eseq c (take n es)"
  by (metis append_take_drop_id follows_append)

lemma sort_key_follows:
  assumes "follows se_sequence c es"
  shows "sort_key se_sequence es = es"
proof -
  have "sorted_wrt (\<le>) (map se_sequence es)"
    using follows_sorted [OF assms] by (rule sorted_wrt_mono_rel [rotated]) simp
  then show ?thesis by (simp add: sorted_sort_id sort_key_id_if_sorted)
qed

lemma gap_follows:
  assumes "whole_log d s" and "events_after octets d s n me mb = Replay events"
  shows "follows se_sequence n events"
proof -
  have cont: "follows se_sequence n (filter (\<lambda>e. n < se_sequence e) (events_of s d))"
    using assms(1) follows_filter [of 0 "events_of s d" n] by (simp add: whole_log_def)
  have "events = take ((case me of None \<Rightarrow> REPLAY_MAX_EVENTS | Some k \<Rightarrow> k) + 1) (sort_key se_sequence (filter (\<lambda>e. n < se_sequence e) (events_of s d)))"
    using assms(2) by (auto simp: events_after_def Let_def split: if_splits)
  then show ?thesis using follows_take [OF cont] by (simp add: sort_key_follows [OF cont])
qed

lemma filter_take_prefix: "\<exists>m. filter P (take n xs) = take m (filter P xs)"
proof -
  have "filter P xs = filter P (take n xs) @ filter P (drop n xs)"
    by (metis append_take_drop_id filter_append)
  then have "filter P (take n xs) = take (length (filter P (take n xs))) (filter P xs)" by simp
  then show ?thesis by blast
qed

lemma sort_key_const: "\<forall>x \<in> set xs. f x = c \<Longrightarrow> sort_key f xs = xs"
  by (rule sort_key_id_if_sorted) (induction xs, auto)

lemma answer_reaches:
  assumes "whole_log d s" and "unique_keys fst cursors" and "(s, c) \<in> set cursors" and "c \<le> n"
  shows "reaches n (filter (\<lambda>e. se_session_id e = s) (events_after_many d cursors limit))"
proof -
  let ?P = "\<lambda>e. se_session_id e = s"
  let ?F = "filter (\<lambda>e. \<exists>c \<in> set cursors. se_session_id e = fst c \<and> snd c < se_sequence e) (db_events d)"
  have only: "(\<exists>k \<in> set cursors. s = fst k \<and> snd k < m) \<longleftrightarrow> c < m" for m
    using assms(2,3) by (force simp: unique_keys_def distinct_map inj_on_def)
  have "filter ?P ?F = filter (\<lambda>e. c < se_sequence e) (events_of s d)"
    unfolding events_of_def filter_filter
  proof (rule filter_cong [OF refl])
    fix e
    show "(\<exists>c \<in> set cursors. se_session_id e = fst c \<and> snd c < se_sequence e) \<and> se_session_id e = s \<longleftrightarrow>
        se_session_id e = s \<and> c < se_sequence e"
      using only [of "se_sequence e"] by (cases "se_session_id e = s") simp_all
  qed
  moreover have cont: "follows se_sequence c (filter (\<lambda>e. c < se_sequence e) (events_of s d))"
    using assms(1) follows_filter [of 0 "events_of s d" c] by (simp add: whole_log_def)
  ultimately have "filter ?P (sort_key se_session_id (sort_key se_sequence ?F)) = filter (\<lambda>e. c < se_sequence e) (events_of s d)"
    by (simp only: filter_sort sort_key_follows)
      (rule sort_key_const [of _ _ s], simp add: events_of_def)
  moreover have "events_after_many d cursors limit = take limit (sort_key se_session_id (sort_key se_sequence ?F))"
    using assms(3) by (auto simp: events_after_many_def)
  moreover obtain m where "filter ?P (take limit (sort_key se_session_id (sort_key se_sequence ?F))) =
      take m (filter ?P (sort_key se_session_id (sort_key se_sequence ?F)))"
    using filter_take_prefix by blast
  ultimately have "filter ?P (events_after_many d cursors limit) = take m (filter (\<lambda>e. c < se_sequence e) (events_of s d))"
    by (simp only:)
  with follows_take [OF cont] assms(4) show ?thesis unfolding reaches_def by metis
qed

lemma add_cursor_props:
  assumes "unique_keys fst cursors"
  shows "unique_keys fst (add_cursor sub cursors)"
    and "\<exists>c \<le> sb_after sub. (sb_session sub, c) \<in> set (add_cursor sub cursors)"
    and "(s, c) \<in> set cursors \<Longrightarrow> \<exists>c' \<le> c. (s, c') \<in> set (add_cursor sub cursors)"
proof -
  show u: "unique_keys fst (add_cursor sub cursors)"
    using assms by (auto simp: add_cursor_def split: option.splits)
  have here: "find_row fst (sb_session sub) (add_cursor sub cursors) =
      (case find_row fst (sb_session sub) cursors of None \<Rightarrow> Some (sb_session sub, sb_after sub)
       | Some (_, n) \<Rightarrow> Some (sb_session sub, min n (sb_after sub)))"
    using put_row_lookup_same [of fst "(sb_session sub, x)" cursors for x]
    by (auto simp: add_cursor_def split: option.splits)
  have other: "find_row fst k (add_cursor sub cursors) = find_row fst k cursors" if "k \<noteq> sb_session sub" for k
    using that put_row_lookup_other [of k fst "(sb_session sub, x)" cursors for x]
    by (auto simp: add_cursor_def split: option.splits)
  show "\<exists>c \<le> sb_after sub. (sb_session sub, c) \<in> set (add_cursor sub cursors)"
    using here by (auto split: option.splits dest!: find_row_Some intro: exI [of _ "min x (sb_after sub)" for x])
  assume "(s, c) \<in> set cursors"
  from find_row_unique [OF assms this] have row: "find_row fst s cursors = Some (s, c)" by simp
  show "\<exists>c' \<le> c. (s, c') \<in> set (add_cursor sub cursors)"
  proof (cases "s = sb_session sub")
    case True
    with here row have "find_row fst s (add_cursor sub cursors) = Some (s, min c (sb_after sub))" by simp
    then have "(s, min c (sb_after sub)) \<in> set (add_cursor sub cursors)" by (auto dest: find_row_Some)
    then show ?thesis by (meson min.cobounded1)
  next
    case False
    with other row have "find_row fst s (add_cursor sub cursors) = Some (s, c)" by simp
    then show ?thesis by (auto dest: find_row_Some)
  qed
qed

definition asked_from :: "(ident \<times> nat) list \<Rightarrow> ident \<Rightarrow> nat \<Rightarrow> bool" where
  "asked_from cursors s n \<longleftrightarrow> (\<exists>c \<le> n. (s, c) \<in> set cursors)"

lemma add_cursor_asked:
  assumes "unique_keys fst cursors"
  shows "asked_from (add_cursor sub cursors) (sb_session sub) (sb_after sub)"
    and "asked_from cursors s n \<Longrightarrow> asked_from (add_cursor sub cursors) s n"
proof -
  show "asked_from (add_cursor sub cursors) (sb_session sub) (sb_after sub)"
    using add_cursor_props(2) [OF assms] by (simp add: asked_from_def)
  assume "asked_from cursors s n"
  then obtain c where c: "c \<le> n" "(s, c) \<in> set cursors" by (auto simp: asked_from_def)
  from add_cursor_props(3) [OF assms c(2), of sub] obtain c' where "c' \<le> c" "(s, c') \<in> set (add_cursor sub cursors)"
    by blast
  with c(1) show "asked_from (add_cursor sub cursors) s n" unfolding asked_from_def by (meson le_trans)
qed

lemma fold_cursors:
  "unique_keys fst cursors \<Longrightarrow> unique_keys fst (fold add_cursor subs cursors) \<and>
   (\<forall>sub \<in> set subs. asked_from (fold add_cursor subs cursors) (sb_session sub) (sb_after sub)) \<and>
   (\<forall>s n. asked_from cursors s n \<longrightarrow> asked_from (fold add_cursor subs cursors) s n)"
proof (induction subs arbitrary: cursors)
  case (Cons sub subs)
  note IH = Cons.IH [OF add_cursor_props(1) [OF Cons.prems, of sub]]
  with add_cursor_asked(1) [OF Cons.prems, of sub] add_cursor_asked(2) [OF Cons.prems, of _ _ sub] show ?case by simp
qed simp

lemma tick_cursors_props:
  "unique_keys fst (tick_cursors fd)"
  "k \<in> set (fd_live fd) \<Longrightarrow> find_row sb_id k (fd_subscribers fd) = Some sub \<Longrightarrow>
   asked_from (tick_cursors fd) (sb_session sub) (sb_after sub)"
proof -
  let ?subs = "concat (map (\<lambda>k. case find_row sb_id k (fd_subscribers fd) of None \<Rightarrow> [] | Some s \<Rightarrow> [s]) (fd_live fd))"
  have "unique_keys fst ([] :: (ident \<times> nat) list)" by (simp add: unique_keys_def)
  from fold_cursors [OF this, of ?subs] have all: "unique_keys fst (tick_cursors fd) \<and>
      (\<forall>sub \<in> set ?subs. asked_from (tick_cursors fd) (sb_session sub) (sb_after sub))"
    by (simp add: tick_cursors_def)
  then show "unique_keys fst (tick_cursors fd)" by blast
  assume "k \<in> set (fd_live fd)" "find_row sb_id k (fd_subscribers fd) = Some sub"
  then have "sub \<in> set ?subs" by force
  with all show "asked_from (tick_cursors fd) (sb_session sub) (sb_after sub)" by blast
qed

section \<open>The invariant of calm runs\<close>

definition live_subscriber :: "feed \<Rightarrow> subscriber \<Rightarrow> bool" where
  "live_subscriber fd sub \<longleftrightarrow> sub \<in> set (fd_subscribers fd) \<and> sb_id sub \<in> set (fd_live fd)"

definition subscriber_ok :: "subscriber \<Rightarrow> bool" where
  "subscriber_ok sub \<longleftrightarrow> sb_started sub \<le> sb_after sub \<and>
     (\<forall>st. \<not> s_stale st \<and> s_sequence st = sb_started sub \<longrightarrow> in_step st sub)"

definition catching_ok :: "feed \<Rightarrow> nat \<times> catching \<Rightarrow> bool" where
  "catching_ok fd c \<longleftrightarrow>
     (case snd c of
        Read (Replay events) \<Rightarrow>
          (\<forall>sub \<in> set (fd_subscribers fd). sb_id sub = fst c \<longrightarrow> follows se_sequence (sb_started sub) events)
      | _ \<Rightarrow> True)"

definition tick_ok :: "feed \<Rightarrow> tick \<Rightarrow> bool" where
  "tick_ok fd t \<longleftrightarrow>
     (case t of
        Asking cursors \<Rightarrow> unique_keys fst cursors \<and>
          (\<forall>sub. live_subscriber fd sub \<longrightarrow> asked_from cursors (sb_session sub) (sb_after sub))
      | Answered events \<Rightarrow>
          (\<forall>sub. live_subscriber fd sub \<longrightarrow>
             reaches (sb_after sub) (filter (\<lambda>e. se_session_id e = sb_session sub) events)))"

definition world_ok :: "world \<Rightarrow> bool" where
  "world_ok w \<longleftrightarrow>
     (\<forall>s. whole_log (w_db w) s) \<and>
     unique_keys sb_id (fd_subscribers (w_feed w)) \<and>
     list_all subscriber_ok (fd_subscribers (w_feed w)) \<and>
     list_all (catching_ok (w_feed w)) (w_catching w) \<and>
     fst ` set (w_catching w) \<subseteq> sb_id ` set (fd_subscribers (w_feed w)) \<and>
     list_all (tick_ok (w_feed w)) (w_ticks w)"

lemma asked_from_mono: "asked_from cs s n \<Longrightarrow> n \<le> m \<Longrightarrow> asked_from cs s m"
  unfolding asked_from_def by (meson le_trans)

lemma reaches_mono: "reaches n es \<Longrightarrow> n \<le> m \<Longrightarrow> reaches m es"
  unfolding reaches_def by (meson le_trans)

lemma feed_progress_back:
  assumes "feed_progress fd fd'" and "s' \<in> set (fd_subscribers fd')"
  obtains s where "s \<in> set (fd_subscribers fd)" "progress s s'"
  using assms unfolding feed_progress_def by (metis in_set_conv_nth list_all2_conv_all_nth)

lemma feed_progress_ids:
  assumes "feed_progress fd fd'"
  shows "map sb_id (fd_subscribers fd') = map sb_id (fd_subscribers fd)"
proof -
  have "list_all2 progress (fd_subscribers fd) (fd_subscribers fd')" using assms by (simp add: feed_progress_def)
  then show ?thesis by induction (auto simp: progress_def)
qed

lemma feed_progress_live:
  assumes "feed_progress fd fd'" and "live_subscriber fd' s'"
  obtains s where "live_subscriber fd s" "progress s s'"
proof -
  from assms(2) have "s' \<in> set (fd_subscribers fd')" and live: "sb_id s' \<in> set (fd_live fd')"
    by (auto simp: live_subscriber_def)
  from feed_progress_back [OF assms(1) this(1)] obtain s where s: "s \<in> set (fd_subscribers fd)" "progress s s'" .
  moreover have "sb_id s \<in> set (fd_live fd)"
    using assms(1) live s(2) by (auto simp: feed_progress_def progress_def)
  ultimately show thesis using that by (auto simp: live_subscriber_def)
qed

lemma feed_progress_ok:
  assumes "feed_progress fd fd'"
  shows "list_all subscriber_ok (fd_subscribers fd) \<Longrightarrow> list_all subscriber_ok (fd_subscribers fd')"
    and "catching_ok fd c \<Longrightarrow> catching_ok fd' c" and "tick_ok fd t \<Longrightarrow> tick_ok fd' t"
proof -
  assume ok: "list_all subscriber_ok (fd_subscribers fd)"
  show "list_all subscriber_ok (fd_subscribers fd')"
  proof (unfold list_all_iff, rule ballI)
    fix s' assume "s' \<in> set (fd_subscribers fd')"
    from feed_progress_back [OF assms this] obtain s where "s \<in> set (fd_subscribers fd)" "progress s s'" .
    with ok show "subscriber_ok s'" by (auto simp: list_all_iff subscriber_ok_def progress_def)
  qed
next
  assume c: "catching_ok fd c"
  have "follows se_sequence (sb_started s') es" if "snd c = Read (Replay es)" "s' \<in> set (fd_subscribers fd')" "sb_id s' = fst c" for s' es
  proof -
    from feed_progress_back [OF assms that(2)] obtain s where "s \<in> set (fd_subscribers fd)" "progress s s'" .
    with c that show ?thesis by (auto simp: catching_ok_def progress_def)
  qed
  then show "catching_ok fd' c"
    by (auto simp: catching_ok_def split: catching.splits replay_answer.splits)
next
  assume t: "tick_ok fd t"
  have live: "(case t of Asking cs \<Rightarrow> asked_from cs (sb_session s') (sb_after s')
      | Answered es \<Rightarrow> reaches (sb_after s') (filter (\<lambda>e. se_session_id e = sb_session s') es))"
    if "live_subscriber fd' s'" for s'
  proof -
    from feed_progress_live [OF assms that] obtain s where s: "live_subscriber fd s" "progress s s'" .
    with t show ?thesis
      by (auto simp: tick_ok_def progress_def split: tick.splits intro: asked_from_mono reaches_mono)
  qed
  from t live show "tick_ok fd' t" by (cases t) (simp_all add: tick_ok_def)
qed

lemma world_ok_progress:
  "world_ok w \<Longrightarrow> feed_progress (w_feed w) fd \<Longrightarrow> world_ok (w\<lparr>w_feed := fd\<rparr>)"
  using feed_progress_ok [of "w_feed w" fd] feed_progress_ids [of "w_feed w" fd]
  by (auto simp: world_ok_def unique_keys_def list_all_iff simp flip: set_map)

lemma world_ok_queues:
  assumes "world_ok w" and "set cs \<subseteq> set (w_catching w)" and "set ts \<subseteq> set (w_ticks w)"
  shows "world_ok (w\<lparr>w_catching := cs, w_ticks := ts\<rparr>)"
proof -
  have "fst ` set cs \<subseteq> sb_id ` set (fd_subscribers (w_feed w))"
    using assms(1) image_mono [OF assms(2), of fst] unfolding world_ok_def by blast
  with assms show ?thesis by (simp add: world_ok_def list_all_iff) blast
qed

lemma catch_up_progress:
  assumes "world_ok w" and "(k, Read (Replay events)) \<in> set (w_catching w)"
  shows "feed_progress (w_feed w) (catch_up_events chars ok k events (w_feed w))"
proof -
  have "reaches (sb_after s) events" if "s \<in> set (fd_subscribers (w_feed w))" "sb_id s = k" for s
    using assms that by (force simp: world_ok_def list_all_iff catching_ok_def subscriber_ok_def reaches_def)
  with assms(1) show ?thesis
    by (simp add: catch_up_events_def deliver_events_progress world_ok_def)
qed

lemma reset_progress: "feed_progress fd (catch_up_reset chars ok k snapshot fd)"
  unfolding catch_up_reset_def
proof (rule deliver_progress)
  fix s
  let ?s' = "push_message chars ok (StreamReset snapshot) (s\<lparr>sb_after := max (sb_after s) (sn_sequence snapshot)\<rparr>)"
  have "in_step st ?s'" if "in_step st s" for st
    using that merge_fresh_frame(1) [of "session_state_from_snapshot snapshot" "view st s"]
      merge_fresh_frame(2) [of "view st s" "session_state_from_snapshot snapshot"]
    by (simp add: in_step_def view_frame apply_stream_message_def)
  then show "progress s ?s'" by (simp add: progress_def)
qed simp

lemma tick_progress:
  assumes "unique_keys sb_id (fd_subscribers fd)" and "tick_ok fd (Answered events)"
  shows "feed_progress fd (tick_deliver chars oks events fd)"
proof -
  have "feed_progress fd' (fold (tick_one chars oks events) ks fd')"
    if "unique_keys sb_id (fd_subscribers fd')" and "\<And>s. s \<in> set (fd_subscribers fd') \<Longrightarrow> sb_id s \<in> set ks \<Longrightarrow>
      reaches (sb_after s) (filter (\<lambda>e. se_session_id e = sb_session s) events)" for ks fd'
    using that
  proof (induction ks arbitrary: fd')
    case (Cons k ks)
    have one: "feed_progress fd' (tick_one chars oks events k fd')"
    proof (cases "find_row sb_id k (fd_subscribers fd')")
      case None
      then show ?thesis by (simp add: tick_one_def)
    next
      case (Some sub)
      have only: "s = sub" if "s \<in> set (fd_subscribers fd')" "sb_id s = k" for s
        using find_row_unique [OF Cons.prems(1) that(1)] Some that(2) by simp
      have "sub \<in> set (fd_subscribers fd')" "sb_id sub = k" using Some by (auto dest: find_row_Some)
      with Cons.prems(2) have "reaches (sb_after sub) (filter (\<lambda>e. se_session_id e = sb_session sub) events)" by simp
      then have "feed_progress fd' (deliver_events chars (oks k) k (filter (\<lambda>e. se_session_id e = sb_session sub) events) fd')"
        by (intro deliver_events_progress Cons.prems(1)) (auto dest: only)
      with Some show ?thesis by (simp add: tick_one_def Let_def)
    qed
    have "feed_progress (tick_one chars oks events k fd') (fold (tick_one chars oks events) ks (tick_one chars oks events k fd'))"
    proof (rule Cons.IH)
      show "unique_keys sb_id (fd_subscribers (tick_one chars oks events k fd'))"
        using Cons.prems(1) feed_progress_ids [OF one] by (simp add: unique_keys_def)
      fix s' assume s': "s' \<in> set (fd_subscribers (tick_one chars oks events k fd'))" "sb_id s' \<in> set ks"
      from feed_progress_back [OF one s'(1)] obtain s where s: "s \<in> set (fd_subscribers fd')" "progress s s'" .
      with Cons.prems(2) [of s] s'(2) show "reaches (sb_after s') (filter (\<lambda>e. se_session_id e = sb_session s') events)"
        by (auto simp: progress_def intro: reaches_mono)
    qed
    with feed_progress_trans [OF one] show ?case by simp
  qed simp
  from this [OF assms(1), of "fd_live fd"] assms(2) show ?thesis
    by (simp add: tick_deliver_def tick_ok_def live_subscriber_def)
qed

lemma leave_progress: "feed_progress fd (leave_feed k fd)" "feed_progress fd (close_feed fd)"
proof -
  show "feed_progress fd (leave_feed k fd)"
    unfolding leave_feed_def by (rule feed_progress_trans [OF idle_progress(2) idle_progress(1)])
  let ?fd = "fd\<lparr>fd_subscribers := update_where (\<lambda>s. sb_id s \<in> set (fd_live fd))
      (\<lambda>s. s\<lparr>sb_closed := sb_closed s @ [Ended]\<rparr>) (fd_subscribers fd), fd_live := []\<rparr>"
  have "feed_progress fd ?fd"
    by (auto simp: feed_progress_def closed_progress intro!: list_all2_update_where)
  from feed_progress_trans [OF this idle_progress(1)] show "feed_progress fd (close_feed fd)"
    by (simp add: close_feed_def)
qed

lemma join_ok:
  assumes "world_ok w" and "k \<notin> sb_id ` set (fd_subscribers (w_feed w))" and "w_ticks w = []"
  shows "world_ok (w\<lparr>w_feed := join_feed k sid after (w_feed w), w_catching := (k, Reading) # w_catching w\<rparr>)"
proof -
  let ?fd = "join_feed k sid after (w_feed w)"
  let ?new = "\<lparr>sb_id = k, sb_session = sid, sb_started = after, sb_after = after, sb_pending_events = 0,
      sb_pending_bytes = 0, sb_sent = [], sb_closed = []\<rparr>"
  have subs: "fd_subscribers ?fd = fd_subscribers (w_feed w) @ [?new]" by (simp add: join_feed_def)
  have "catching_ok ?fd c" if "c \<in> set (w_catching w)" for c
  proof -
    have "fst c \<noteq> k" using assms(1,2) that by (auto simp: world_ok_def)
    moreover have "catching_ok (w_feed w) c" using assms(1) that by (simp add: world_ok_def list_all_iff)
    ultimately show ?thesis unfolding catching_ok_def subs
      by (auto split: catching.splits replay_answer.splits)
  qed
  moreover have "catching_ok ?fd (k, Reading)" by (simp add: catching_ok_def)
  moreover have "subscriber_ok ?new" by (simp add: subscriber_ok_def in_step_def view_def)
  moreover have "unique_keys sb_id (fd_subscribers ?fd)"
    using assms(1,2) unfolding subs by (auto simp: world_ok_def unique_keys_def)
  ultimately show ?thesis
    using assms(1,3) by (auto simp: world_ok_def list_all_iff subs)
qed

text \<open>Every step of a calm run keeps the invariant.\<close>

lemma feed_step_ok:
  assumes "feed_step True octets chars w w'" and "world_ok w"
  shows "world_ok w'"
  using assms(1)
proof cases
  case (Logged now sid cmd events stored d)
  then show ?thesis using assms(2) append_whole_log by (auto simp: world_ok_def)
next
  case (Joins k sid after)
  with join_ok [OF assms(2)] show ?thesis by blast
next
  case (GapRead xs k ys sub)
  let ?answer = "events_after octets (w_db w) (sb_session sub) (sb_started sub) None None"
  have sub: "sub \<in> set (fd_subscribers (w_feed w))" "sb_id sub = k" using GapRead(3) by (auto dest: find_row_Some)
  have "s = sub" if "s \<in> set (fd_subscribers (w_feed w))" "sb_id s = k" for s
    using find_row_unique [of sb_id "fd_subscribers (w_feed w)" s] that GapRead(3) assms(2) by (simp add: world_ok_def)
  moreover have "whole_log (w_db w) (sb_session sub)" using assms(2) by (simp add: world_ok_def)
  ultimately have "catching_ok (w_feed w) (k, Read ?answer)"
    using gap_follows by (auto simp: catching_ok_def split: replay_answer.splits)
  with assms(2) show ?thesis unfolding GapRead(1) world_ok_def by (auto simp: GapRead(2) list_all_iff)
next
  case (CaughtUp xs k events ys ok)
  have "(k, Read (Replay events)) \<in> set (w_catching w)" by (simp add: CaughtUp(2))
  from world_ok_progress [OF assms(2) catch_up_progress [OF assms(2) this]]
  have "world_ok (w\<lparr>w_feed := catch_up_events chars ok k events (w_feed w)\<rparr>)" .
  from world_ok_queues [OF this, of "xs @ ys" "w_ticks w"] show ?thesis
    unfolding CaughtUp(1) by (auto simp: CaughtUp(2))
next
  case (SnapshotRead xs k ys sub now snapshot)
  with assms(2) show ?thesis by (auto simp: world_ok_def list_all_iff catching_ok_def)
next
  case (WasReset xs k snapshot ys ok)
  from world_ok_progress [OF assms(2) reset_progress]
  have "world_ok (w\<lparr>w_feed := catch_up_reset chars ok k snapshot (w_feed w)\<rparr>)" .
  from world_ok_queues [OF this, of "xs @ ys" "w_ticks w"] show ?thesis
    unfolding WasReset(1) by (auto simp: WasReset(2))
next
  case Asks
  have "tick_ok (w_feed w) (Asking (tick_cursors (w_feed w)))"
    using tick_cursors_props find_row_unique assms(2)
    by (fastforce simp: tick_ok_def live_subscriber_def world_ok_def)
  with assms(2) show ?thesis unfolding Asks(1) by (simp add: world_ok_def)
next
  case (Answers xs cursors ys)
  then have asked: "tick_ok (w_feed w) (Asking cursors)" using assms(2) by (simp add: world_ok_def)
  have "tick_ok (w_feed w) (Answered (events_after_many (w_db w) cursors TICK_LIMIT))"
    using asked assms(2) answer_reaches by (fastforce simp: tick_ok_def asked_from_def world_ok_def)
  with assms(2) show ?thesis unfolding Answers(1) world_ok_def by (auto simp: Answers(2) list_all_iff)
next
  case (Delivers xs events ys oks)
  then have "tick_ok (w_feed w) (Answered events)" "unique_keys sb_id (fd_subscribers (w_feed w))"
    using assms(2) by (simp_all add: world_ok_def)
  from world_ok_progress [OF assms(2) tick_progress [OF this(2,1)]]
  have "world_ok (w\<lparr>w_feed := tick_deliver chars oks events (w_feed w)\<rparr>)" .
  from world_ok_queues [OF this, of "w_catching w" "xs @ ys"] show ?thesis
    unfolding Delivers(1) by (auto simp: Delivers(2))
next
  case (Fails xs t ys)
  with world_ok_queues [OF assms(2), of "w_catching w" "xs @ ys"] show ?thesis by auto
next
  case (Leaves k)
  with world_ok_progress [OF assms(2) leave_progress(1)] show ?thesis by simp
next
  case Closes
  with world_ok_progress [OF assms(2) leave_progress(2)] show ?thesis by simp
qed

lemma feed_run_ok:
  "(feed_step True octets chars)\<^sup>*\<^sup>* w w' \<Longrightarrow> world_ok w \<Longrightarrow> world_ok w'"
  by (induction rule: rtranclp_induct) (auto intro: feed_step_ok)

definition quiet_world :: "db \<Rightarrow> world" where
  "quiet_world d = \<lparr>w_db = d, w_feed = empty_feed, w_catching = [], w_ticks = []\<rparr>"

lemma quiet_world_ok: "\<forall>s. whole_log d s \<Longrightarrow> world_ok (quiet_world d)"
  by (simp add: world_ok_def quiet_world_def empty_feed_def unique_keys_def)

text \<open>Property C3: a stream never leaves its reader behind. Whatever appends, joins, catch-ups,
  ticks, slow readers and closes interleave, as long as nobody joins while a tick is under way,
  a client that stood at a subscriber's cursor and folds what the subscriber was sent stands at
  the subscriber's position, without a gap.\<close>

theorem stream_keeps_reader_in_step:
  assumes "(feed_step True octets chars)\<^sup>*\<^sup>* (quiet_world d) w" and "\<forall>s. whole_log d s"
    and "sub \<in> set (fd_subscribers (w_feed w))" and "\<not> s_stale st" and "s_sequence st = sb_started sub"
  shows "\<not> s_stale (foldl apply_stream_message st (sb_sent sub)) \<and>
    s_sequence (foldl apply_stream_message st (sb_sent sub)) = sb_after sub"
proof -
  have "world_ok w" by (rule feed_run_ok [OF assms(1) quiet_world_ok [OF assms(2)]])
  with assms(3) have "subscriber_ok sub" by (simp add: world_ok_def list_all_iff)
  with assms(4,5) show ?thesis by (simp add: subscriber_ok_def in_step_def view_def)
qed

section \<open>Joining while a tick is under way\<close>

text \<open>
  A session at sequence 2 with its two events; a first subscriber at 2 is polled, a third event
  is logged, and a second subscriber joins at 0 between the tick's question and its delivery.
\<close>

definition ex_note :: "nat \<Rightarrow> session_event" where
  "ex_note n = SessionChanged (empty_patch\<lparr>c_attention_revision := Some n\<rparr>)"

definition ex_stream_db :: "nat \<Rightarrow> db" where
  "ex_stream_db n = (ex_db n)\<lparr>db_events := map (\<lambda>k. \<lparr>se_session_id = ''s'', se_sequence = Suc k, se_at = 0,
     se_command_id = None, se_event = ex_note k\<rparr>) [0..<n]\<rparr>"

text \<open>A subscriber that joins while a tick is under way can lose events. The tick asked
  from another subscriber's later cursor; its answer is sent to the newcomer too and moves the
  newcomer's cursor past what it never received, which the catch-up then filters out: its reader
  goes stale.\<close>

theorem joining_mid_tick_loses_events:
  "\<exists>w sub. (feed_step False (\<lambda>_. 0) chars)\<^sup>*\<^sup>* (quiet_world (ex_stream_db 3)) w \<and> w_catching w = [] \<and> w_ticks w = [] \<and>
     sub \<in> set (fd_subscribers (w_feed w)) \<and> sb_started sub = 0 \<and> sb_after sub = 3 \<and>
     map message_events (sb_sent sub) = [1] \<and>
     s_stale (foldl apply_stream_message (ex_state 0) (sb_sent sub))"
proof -
  let ?step = "feed_step False (\<lambda>_. 0) chars"
  let ?e = "\<lambda>k. \<lparr>se_session_id = ''s'', se_sequence = Suc k, se_at = 0, se_command_id = None, se_event = ex_note k\<rparr>"
  let ?sub = "\<lambda>k a b sent. \<lparr>sb_id = k, sb_session = ''s'', sb_started = a, sb_after = b, sb_pending_events = 0,
      sb_pending_bytes = 0, sb_sent = sent, sb_closed = []\<rparr>"
  let ?d = "ex_stream_db 3"
  let ?world = "\<lambda>subs live catching ticks.
      \<lparr>w_db = ?d, w_feed = \<lparr>fd_subscribers = subs, fd_live = live, fd_polling = True\<rparr>, w_catching = catching, w_ticks = ticks\<rparr>"
  let ?one = "StreamEvents [?e 2]"
  have log: "db_events ?d = [?e 0, ?e 1, ?e 2]"
    by (simp add: ex_stream_db_def upt_rec numeral_2_eq_2)
  have many: "events_after_many ?d [(''s'', 2)] TICK_LIMIT = [?e 2]"
    by (simp add: events_after_many_def log TICK_LIMIT_def)
  have gap: "events_after (\<lambda>_. 0) ?d ''s'' 0 None None = Replay [?e 0, ?e 1, ?e 2]"
    "events_after (\<lambda>_. 0) ?d ''s'' 2 None None = Replay [?e 2]"
    by (simp_all add: events_after_def events_of_def log REPLAY_MAX_EVENTS_def Let_def)
  have "?step (quiet_world ?d) (?world [?sub 0 2 2 []] [0] [(0, Reading)] [])"
    using feed_step.Joins [of 0 "quiet_world ?d" False "\<lambda>_. 0" chars "''s''" 2]
    by (simp add: quiet_world_def empty_feed_def join_feed_def)
  moreover have "?step \<dots> (?world [?sub 0 2 2 []] [0] [(0, Reading)] [Asking [(''s'', 2)]])"
    using feed_step.Asks [of "?world [?sub 0 2 2 []] [0] [(0, Reading)] []" False "\<lambda>_. 0" chars]
    by (simp add: tick_cursors_def add_cursor_def put_row_def)
  moreover have "?step \<dots> (?world [?sub 0 2 2 [], ?sub 1 0 0 []] [0, 1] [(1, Reading), (0, Reading)] [Asking [(''s'', 2)]])"
    using feed_step.Joins [of 1 "?world [?sub 0 2 2 []] [0] [(0, Reading)] [Asking [(''s'', 2)]]" False "\<lambda>_. 0" chars "''s''" 0]
    by (simp add: join_feed_def)
  moreover have "?step \<dots> (?world [?sub 0 2 2 [], ?sub 1 0 0 []] [0, 1] [(1, Reading), (0, Reading)] [Answered [?e 2]])"
    using feed_step.Answers [of "?world [?sub 0 2 2 [], ?sub 1 0 0 []] [0, 1] [(1, Reading), (0, Reading)] [Asking [(''s'', 2)]]"
        "[]" "[(''s'', 2)]" "[]" False "\<lambda>_. 0" chars]
    by (simp add: many)
  moreover have "?step \<dots> (?world [?sub 0 2 3 [?one], ?sub 1 0 3 [?one]] [0, 1] [(1, Reading), (0, Reading)] [])"
    using feed_step.Delivers [of "?world [?sub 0 2 2 [], ?sub 1 0 0 []] [0, 1] [(1, Reading), (0, Reading)] [Answered [?e 2]]"
        "[]" "[?e 2]" "[]" False "\<lambda>_. 0" chars "\<lambda>_. True"]
    by (simp add: tick_deliver_def tick_one_def deliver_events_def deliver_def on_subscriber_def push_message_def
        keeps_up_def Let_def)
  moreover have "?step \<dots> (?world [?sub 0 2 3 [?one], ?sub 1 0 3 [?one]] [0, 1]
      [(1, Read (Replay [?e 0, ?e 1, ?e 2])), (0, Reading)] [])"
    using feed_step.GapRead [of "?world [?sub 0 2 3 [?one], ?sub 1 0 3 [?one]] [0, 1] [(1, Reading), (0, Reading)] []"
        "[]" 1 "[(0, Reading)]" "?sub 1 0 3 [?one]" False "\<lambda>_. 0" chars]
    by (simp add: gap)
  moreover have "?step \<dots> (?world [?sub 0 2 3 [?one], ?sub 1 0 3 [?one]] [0, 1] [(0, Reading)] [])"
    using feed_step.CaughtUp [of "?world [?sub 0 2 3 [?one], ?sub 1 0 3 [?one]] [0, 1]
        [(1, Read (Replay [?e 0, ?e 1, ?e 2])), (0, Reading)] []"
        "[]" 1 "[?e 0, ?e 1, ?e 2]" "[(0, Reading)]" False "\<lambda>_. 0" chars True]
    by (simp add: catch_up_events_def deliver_events_def)
  moreover have "?step \<dots> (?world [?sub 0 2 3 [?one], ?sub 1 0 3 [?one]] [0, 1] [(0, Read (Replay [?e 2]))] [])"
    using feed_step.GapRead [of "?world [?sub 0 2 3 [?one], ?sub 1 0 3 [?one]] [0, 1] [(0, Reading)] []"
        "[]" 0 "[]" "?sub 0 2 3 [?one]" False "\<lambda>_. 0" chars]
    by (simp add: gap)
  moreover have "?step \<dots> (?world [?sub 0 2 3 [?one], ?sub 1 0 3 [?one]] [0, 1] [] [])"
    using feed_step.CaughtUp [of "?world [?sub 0 2 3 [?one], ?sub 1 0 3 [?one]] [0, 1] [(0, Read (Replay [?e 2]))] []"
        "[]" 0 "[?e 2]" "[]" False "\<lambda>_. 0" chars True]
    by (simp add: catch_up_events_def deliver_events_def)
  ultimately have "?step\<^sup>*\<^sup>* (quiet_world ?d) (?world [?sub 0 2 3 [?one], ?sub 1 0 3 [?one]] [0, 1] [] [])"
    by (meson converse_rtranclp_into_rtranclp rtranclp.rtrancl_refl)
  moreover have "s_stale (foldl apply_stream_message (ex_state 0) [?one])"
    by (simp add: apply_stream_message_def ex_state_def)
  ultimately show ?thesis
    by (intro exI [of _ "?world [?sub 0 2 3 [?one], ?sub 1 0 3 [?one]] [0, 1] [] []"] exI [of _ "?sub 1 0 3 [?one]"])
      (simp add: message_events_def)
qed

theorem stream_keeps_reader_in_step_witness:
  "\<exists>w sub. (feed_step True (\<lambda>_. 0) (\<lambda>_. 1))\<^sup>*\<^sup>* (quiet_world (ex_stream_db 3)) w \<and> sub \<in> set (fd_subscribers (w_feed w)) \<and>
     s_sequence (foldl apply_stream_message (ex_state 0) (sb_sent sub)) = sb_after sub"
proof -
  let ?w = "(quiet_world (ex_stream_db 3))\<lparr>w_feed := join_feed 7 ''s'' 0 empty_feed, w_catching := [(7, Reading)]\<rparr>"
  let ?sub = "\<lparr>sb_id = 7, sb_session = ''s'', sb_started = 0, sb_after = 0, sb_pending_events = 0,
      sb_pending_bytes = 0, sb_sent = [], sb_closed = []\<rparr>"
  have "feed_step True (\<lambda>_. 0) (\<lambda>_. 1) (quiet_world (ex_stream_db 3)) ?w"
    using feed_step.Joins [of 7 "quiet_world (ex_stream_db 3)" True "\<lambda>_. 0" "\<lambda>_. 1" "''s''" 0]
    by (simp add: quiet_world_def empty_feed_def)
  then have run: "(feed_step True (\<lambda>_. 0) (\<lambda>_. 1))\<^sup>*\<^sup>* (quiet_world (ex_stream_db 3)) ?w" by (rule r_into_rtranclp)
  have "db_events (ex_stream_db 3) = map (\<lambda>k. \<lparr>se_session_id = ''s'', se_sequence = Suc k, se_at = 0,
      se_command_id = None, se_event = ex_note k\<rparr>) [0..<3]" by (simp add: ex_stream_db_def)
  then have whole: "\<forall>s. whole_log (ex_stream_db 3) s"
    by (auto simp: whole_log_def events_of_def latest_sequence_def session_row_of_def sr_id_def upt_rec
        ex_stream_db_def fixtures)
  have "?sub \<in> set (fd_subscribers (w_feed ?w))" by (simp add: join_feed_def)
  from stream_keeps_reader_in_step [OF run whole this, of "ex_state 0"] this run show ?thesis
    by (intro exI [of _ ?w] exI [of _ ?sub]) (simp add: ex_state_def)
qed

section \<open>Slow readers\<close>

definition bounded_feed :: "feed \<Rightarrow> bool" where
  "bounded_feed fd \<longleftrightarrow> unique_keys sb_id (fd_subscribers fd) \<and>
     (\<forall>sub. live_subscriber fd sub \<longrightarrow> sb_pending_events sub \<le> STREAM_MAX_PENDING_EVENTS \<and>
        sb_pending_bytes sub \<le> STREAM_MAX_PENDING_BYTES)"

lemma on_subscriber_set:
  "(\<And>s. sb_id (f s) = sb_id s) \<Longrightarrow> unique_keys sb_id (fd_subscribers fd) \<Longrightarrow>
   unique_keys sb_id (fd_subscribers (on_subscriber k f fd))"
  "s' \<in> set (fd_subscribers (on_subscriber k f fd)) \<Longrightarrow>
   \<exists>s \<in> set (fd_subscribers fd). s' = (if sb_id s = k then f s else s)"
  "fd_live (on_subscriber k f fd) = fd_live fd"
  by (simp add: on_subscriber_def, rule unique_keys_update_where, simp_all)
    (auto simp: on_subscriber_def update_where_def)

lemma bounded_on_subscriber:
  assumes "bounded_feed fd" and "\<And>s. sb_id (f s) = sb_id s"
    and "\<And>s. sb_pending_events (f s) = sb_pending_events s \<and> sb_pending_bytes (f s) = sb_pending_bytes s"
  shows "bounded_feed (on_subscriber k f fd)"
  unfolding bounded_feed_def
proof (intro conjI allI impI)
  show "unique_keys sb_id (fd_subscribers (on_subscriber k f fd))"
    using assms(1,2) by (simp add: bounded_feed_def on_subscriber_set(1))
  fix s' assume s': "live_subscriber (on_subscriber k f fd) s'"
  then obtain s where s: "s \<in> set (fd_subscribers fd)" "s' = (if sb_id s = k then f s else s)"
    using on_subscriber_set(2) unfolding live_subscriber_def by blast
  then have "live_subscriber fd s"
    using s' assms(2) by (cases "sb_id s = k") (auto simp: live_subscriber_def on_subscriber_set(3))
  with assms(1,3) s(2) show "sb_pending_events s' \<le> STREAM_MAX_PENDING_EVENTS" "sb_pending_bytes s' \<le> STREAM_MAX_PENDING_BYTES"
    by (auto simp: bounded_feed_def)
qed

lemma bounded_fewer:
  "bounded_feed fd \<Longrightarrow> bounded_feed (stop_if_idle fd)" "bounded_feed fd \<Longrightarrow> bounded_feed (drop_live k fd)"
  by (auto simp: bounded_feed_def stop_if_idle_def drop_live_def live_subscriber_def)

lemma bounded_deliver:
  assumes "bounded_feed fd"
  shows "bounded_feed (deliver chars ok k m fd)"
proof -
  let ?fd = "on_subscriber k (push_message chars ok m) fd"
  have u: "unique_keys sb_id (fd_subscribers ?fd)"
    using assms by (simp add: bounded_feed_def on_subscriber_set(1))
  have others: "sb_pending_events s' \<le> STREAM_MAX_PENDING_EVENTS \<and> sb_pending_bytes s' \<le> STREAM_MAX_PENDING_BYTES"
    if s': "live_subscriber ?fd s'" "sb_id s' \<noteq> k" for s'
  proof -
    from s'(1) obtain s where s: "s \<in> set (fd_subscribers fd)" "s' = (if sb_id s = k then push_message chars ok m s else s)"
      using on_subscriber_set(2) unfolding live_subscriber_def by blast
    with s' have "live_subscriber fd s'" by (cases "sb_id s = k") (auto simp: live_subscriber_def on_subscriber_set(3))
    with assms show ?thesis by (simp add: bounded_feed_def)
  qed
  show ?thesis
  proof (cases "find_row sb_id k (fd_subscribers ?fd)")
    case None
    with u others have "bounded_feed ?fd"
      by (force simp: bounded_feed_def live_subscriber_def find_row_None)
    with None show ?thesis by (simp add: deliver_def)
  next
    case (Some sub)
    then have "sub \<in> set (fd_subscribers ?fd)" "sb_id sub = k" by (auto dest: find_row_Some)
    have only: "s = sub" if "s \<in> set (fd_subscribers ?fd)" "sb_id s = k" for s
      using find_row_unique [OF u that(1)] Some that(2) by simp
    show ?thesis
    proof (cases "keeps_up ok sub")
      case True
      have "sb_pending_events sub \<le> STREAM_MAX_PENDING_EVENTS \<and> sb_pending_bytes sub \<le> STREAM_MAX_PENDING_BYTES"
      proof -
        obtain s where "sub = push_message chars ok m s"
          using on_subscriber_set(2) \<open>sub \<in> _\<close> \<open>sb_id sub = k\<close> by (metis push_message_frame(1))
        with True show ?thesis by (cases ok) (auto simp: keeps_up_def push_message_def)
      qed
      with u others only have "bounded_feed ?fd"
        unfolding bounded_feed_def live_subscriber_def by blast
      with True Some show ?thesis by (simp add: deliver_def)
    next
      case False
      have "bounded_feed (drop_live k ?fd)"
        using u others unfolding bounded_feed_def by (auto simp: drop_live_def live_subscriber_def)
      then have "bounded_feed (stop_if_idle (on_subscriber k (\<lambda>s. s\<lparr>sb_closed := sb_closed s @ [Slow]\<rparr>) (drop_live k ?fd)))"
        by (intro bounded_fewer(1) bounded_on_subscriber) simp_all
      with False Some show ?thesis by (simp add: deliver_def Let_def)
    qed
  qed
qed

lemma bounded_deliver_events: "bounded_feed fd \<Longrightarrow> bounded_feed (deliver_events chars ok k events fd)"
  by (auto simp: deliver_events_def Let_def intro!: bounded_deliver bounded_on_subscriber split: option.splits)

lemma bounded_tick: "bounded_feed fd \<Longrightarrow> bounded_feed (tick_deliver chars oks events fd)"
proof -
  have "bounded_feed fd \<Longrightarrow> bounded_feed (fold (tick_one chars oks events) ks fd)" for ks fd
    by (induction ks arbitrary: fd)
      (auto simp: tick_one_def Let_def bounded_deliver_events split: option.splits)
  then show "bounded_feed fd \<Longrightarrow> bounded_feed (tick_deliver chars oks events fd)" by (simp add: tick_deliver_def)
qed

lemma feed_step_bounded:
  "feed_step calm octets chars w w' \<Longrightarrow> bounded_feed (w_feed w) \<Longrightarrow> bounded_feed (w_feed w')"
proof (induction rule: feed_step.induct)
  case (Joins k w sid after)
  then show ?case by (auto simp: bounded_feed_def join_feed_def unique_keys_def live_subscriber_def)
next
  case (CaughtUp w xs k events ys ok)
  then show ?case by (simp add: catch_up_events_def bounded_deliver_events)
next
  case (WasReset w xs k snapshot ys ok)
  then show ?case by (simp add: catch_up_reset_def bounded_deliver bounded_on_subscriber)
next
  case (Delivers w xs events ys oks)
  then show ?case by (simp add: bounded_tick)
next
  case (Leaves w k)
  then show ?case by (simp add: leave_feed_def bounded_fewer)
next
  case (Closes w)
  have "bounded_feed ((w_feed w)\<lparr>fd_subscribers := update_where (\<lambda>s. sb_id s \<in> set (fd_live (w_feed w)))
      (\<lambda>s. s\<lparr>sb_closed := sb_closed s @ [Ended]\<rparr>) (fd_subscribers (w_feed w)), fd_live := []\<rparr>)"
    using Closes by (auto simp: bounded_feed_def live_subscriber_def intro: unique_keys_update_where)
  then show ?case by (simp add: close_feed_def bounded_fewer)
qed simp_all

text \<open>A reader that cannot keep up costs bounded memory. In every run, whoever joins
  when, no subscriber of the feed has more than a thousand events or eight megabytes waiting in
  its transport.\<close>

theorem live_readers_bounded:
  assumes "(feed_step calm octets chars)\<^sup>*\<^sup>* (quiet_world d) w"
    and "sub \<in> set (fd_subscribers (w_feed w))" and "sb_id sub \<in> set (fd_live (w_feed w))"
  shows "sb_pending_events sub \<le> 1000 \<and> sb_pending_bytes sub \<le> 8388608"
proof -
  have "bounded_feed (w_feed (quiet_world d))"
    by (simp add: quiet_world_def empty_feed_def bounded_feed_def unique_keys_def live_subscriber_def)
  with assms(1) have "bounded_feed (w_feed w)"
    by (induction rule: rtranclp_induct) (auto intro: feed_step_bounded)
  with assms(2,3) show ?thesis
    by (auto simp: bounded_feed_def live_subscriber_def STREAM_MAX_PENDING_EVENTS_def STREAM_MAX_PENDING_BYTES_def)
qed

theorem live_readers_bounded_witness:
  "\<exists>w sub. (feed_step False (\<lambda>_. 0) (\<lambda>_. 1))\<^sup>*\<^sup>* (quiet_world (ex_db 3)) w \<and> sub \<in> set (fd_subscribers (w_feed w)) \<and>
     sb_pending_events sub \<le> 1000"
proof -
  let ?w = "(quiet_world (ex_db 3))\<lparr>w_feed := join_feed 7 ''s'' 0 empty_feed, w_catching := [(7, Reading)]\<rparr>"
  let ?sub = "\<lparr>sb_id = 7, sb_session = ''s'', sb_started = 0, sb_after = 0, sb_pending_events = 0,
      sb_pending_bytes = 0, sb_sent = [], sb_closed = []\<rparr>"
  have "feed_step False (\<lambda>_. 0) (\<lambda>_. 1) (quiet_world (ex_db 3)) ?w"
    using feed_step.Joins [of 7 "quiet_world (ex_db 3)" False "\<lambda>_. 0" "\<lambda>_. 1" "''s''" 0]
    by (simp add: quiet_world_def empty_feed_def)
  then have run: "(feed_step False (\<lambda>_. 0) (\<lambda>_. 1))\<^sup>*\<^sup>* (quiet_world (ex_db 3)) ?w" by (rule r_into_rtranclp)
  have "?sub \<in> set (fd_subscribers (w_feed ?w))" "sb_id ?sub \<in> set (fd_live (w_feed ?w))" by (simp_all add: join_feed_def)
  from live_readers_bounded [OF run this] this(1) run show ?thesis by blast
qed

end
