(* ===== verification/Execution_Jobs.thy ===== *)
theory Execution_Jobs
  imports Turn_Queue
begin

text \<open>
  The queue workflow runs execute through, \<open>packages/core/src/services/execution-jobs-service.ts\<close>:
  one row per job, leased by a worker for a while, with attempts counted, lapsed leases refunded and
  a terminal handler claimed once. \<open>now\<close> is the database's clock, \<open>host\<close> this process's; a row's
  id and a lease token are the UUIDs drawn, parameters here. Comparisons with a null column are false.
  \<open>SKIP LOCKED\<close> skips the rows a parameter names. Spans and wakeups are left out.
\<close>

section \<open>Jobs\<close>

datatype job_kind = DurableBoundary | DurablePauseTimeout | BatchSource | BatchItem | BatchStep | BatchSink

datatype job_status = JobPending | JobRunning | JobCompleted | JobFailed | JobCanceled

definition parse_execution_job_kind :: "string \<Rightarrow> string + job_kind" where
  "parse_execution_job_kind v =
     (if v = ''durable_boundary'' then Inr DurableBoundary
      else if v = ''durable_pause_timeout'' then Inr DurablePauseTimeout
      else if v = ''batch_source'' then Inr BatchSource
      else if v = ''batch_item'' then Inr BatchItem
      else if v = ''batch_step'' then Inr BatchStep
      else if v = ''batch_sink'' then Inr BatchSink
      else Inl (''Unknown execution job kind: '' @ v))"

definition parse_execution_job_status :: "string \<Rightarrow> string + job_status" where
  "parse_execution_job_status v =
     (if v = ''pending'' then Inr JobPending
      else if v = ''running'' then Inr JobRunning
      else if v = ''completed'' then Inr JobCompleted
      else if v = ''failed'' then Inr JobFailed
      else if v = ''canceled'' then Inr JobCanceled
      else Inl (''Unknown execution job status: '' @ v))"

text \<open>A row of \<open>execution_jobs\<close>.\<close>

record job_row =
  ej_id :: ident
  ej_tenant_id :: ident
  ej_workflow_run_id :: ident
  ej_workflow_step_attempt_id :: "ident option"
  ej_kind :: job_kind
  ej_payload :: json
  ej_status :: job_status
  ej_priority :: int
  ej_available_at :: instant
  ej_attempt :: int
  ej_max_attempts :: int
  ej_leased_by :: "ident option"
  ej_lease_token :: "ident option"
  ej_lease_generation :: nat
  ej_heartbeat_at :: "instant option"
  ej_lease_expires_at :: "instant option"
  ej_dedupe_key :: "string option"
  ej_last_error :: "string option"
  ej_lease_expiries :: int
  ej_created_at :: instant
  ej_updated_at :: instant
  ej_completed_at :: "instant option"
  ej_exhaustion_handled_at :: "instant option"
  ej_exhaustion_handled :: bool

text \<open>What the service hands out of it.\<close>

record execution_job =
  xj_id :: ident
  xj_tenant_id :: ident
  xj_workflow_run_id :: ident
  xj_workflow_step_attempt_id :: "ident option"
  xj_kind :: job_kind
  xj_payload :: json
  xj_status :: job_status
  xj_priority :: int
  xj_available_at :: instant
  xj_attempt :: int
  xj_max_attempts :: int
  xj_leased_by :: "ident option"
  xj_lease_token :: "ident option"
  xj_lease_generation :: nat
  xj_lease_expires_at :: "instant option"
  xj_dedupe_key :: "string option"
  xj_last_error :: "string option"
  xj_lease_expiries :: int
  xj_created_at :: instant
  xj_updated_at :: instant
  xj_completed_at :: "instant option"
  xj_exhaustion_handled_at :: "instant option"

definition map_execution_job :: "job_row \<Rightarrow> execution_job" where
  "map_execution_job r =
     \<lparr>xj_id = ej_id r, xj_tenant_id = ej_tenant_id r, xj_workflow_run_id = ej_workflow_run_id r,
      xj_workflow_step_attempt_id = ej_workflow_step_attempt_id r, xj_kind = ej_kind r, xj_payload = ej_payload r,
      xj_status = ej_status r, xj_priority = ej_priority r, xj_available_at = ej_available_at r,
      xj_attempt = ej_attempt r, xj_max_attempts = ej_max_attempts r, xj_leased_by = ej_leased_by r,
      xj_lease_token = ej_lease_token r, xj_lease_generation = ej_lease_generation r,
      xj_lease_expires_at = ej_lease_expires_at r, xj_dedupe_key = ej_dedupe_key r, xj_last_error = ej_last_error r,
      xj_lease_expiries = ej_lease_expiries r, xj_created_at = ej_created_at r, xj_updated_at = ej_updated_at r,
      xj_completed_at = ej_completed_at r, xj_exhaustion_handled_at = ej_exhaustion_handled_at r\<rparr>"

text \<open>The rows the queue reads and writes beside them.\<close>

record invocation_row =
  iv_execution_job_id :: ident
  iv_lease_token :: ident
  iv_lease_generation :: nat

record workflow_run_row =
  wr_id :: ident
  wr_allocation_id :: "ident option"
  wr_status :: string

record requirement_row =
  cq_id :: ident
  cq_status :: string

record policy_row =
  tp_tenant_id :: ident
  tp_max_concurrent_jobs :: "int option"
  tp_queue_weight :: int
  tp_jobs_enabled :: bool

record jobs_db =
  jd_jobs :: "job_row list"
  jd_invocations :: "invocation_row list"
  jd_runs :: "workflow_run_row list"
  jd_requirements :: "requirement_row list"
  jd_allocations :: "allocation_row list"
  jd_nodes :: "worker_node_row list"
  jd_policies :: "policy_row list"

definition terminal_job :: "job_status \<Rightarrow> bool" where
  "terminal_job s \<longleftrightarrow> s = JobCompleted \<or> s = JobFailed \<or> s = JobCanceled"

definition live_job :: "job_status \<Rightarrow> bool" where
  "live_job s \<longleftrightarrow> s = JobPending \<or> s = JobRunning"

section \<open>Statements\<close>

text \<open>\<open>UPDATE ... SET f WHERE p RETURNING *\<close>, and deleting the invocations a predicate names.\<close>

definition updating :: "(job_row \<Rightarrow> bool) \<Rightarrow> (job_row \<Rightarrow> job_row) \<Rightarrow> jobs_db \<Rightarrow> job_row list \<times> jobs_db" where
  "updating p f d = (map f (filter p (jd_jobs d)), d\<lparr>jd_jobs := update_where p f (jd_jobs d)\<rparr>)"

definition delete_invocations :: "(invocation_row \<Rightarrow> bool) \<Rightarrow> jobs_db \<Rightarrow> jobs_db" where
  "delete_invocations p d = d\<lparr>jd_invocations := filter (\<lambda>i. \<not> p i) (jd_invocations d)\<rparr>"

definition delete_lease_invocations :: "ident \<Rightarrow> ident \<Rightarrow> nat \<Rightarrow> jobs_db \<Rightarrow> jobs_db" where
  "delete_lease_invocations jid tok gen =
     delete_invocations (\<lambda>i. iv_execution_job_id i = jid \<and> iv_lease_token i = tok \<and> iv_lease_generation i = gen)"

definition delete_job_invocations :: "ident list \<Rightarrow> jobs_db \<Rightarrow> jobs_db" where
  "delete_job_invocations ids = delete_invocations (\<lambda>i. iv_execution_job_id i \<in> set ids)"

definition unleased :: "job_row \<Rightarrow> job_row" where
  "unleased r = r\<lparr>ej_leased_by := None, ej_lease_token := None, ej_heartbeat_at := None, ej_lease_expires_at := None\<rparr>"

section \<open>Enqueueing\<close>

record job_request =
  jq_tenant_id :: ident
  jq_kind :: job_kind
  jq_payload :: json
  jq_priority :: "int option"
  jq_available_at :: "instant option"
  jq_max_attempts :: "int option"
  jq_dedupe_key :: "string option"
  jq_workflow_run_id :: ident
  jq_workflow_step_attempt_id :: "ident option"

datatype job_error = CheckViolated | AmbiguousConflict

definition or_default :: "'a option \<Rightarrow> 'a \<Rightarrow> 'a" where
  "or_default x y = (case x of None \<Rightarrow> y | Some v \<Rightarrow> v)"

definition new_job :: "ident \<Rightarrow> instant \<Rightarrow> job_request \<Rightarrow> job_row" where
  "new_job jid now q =
     \<lparr>ej_id = jid, ej_tenant_id = jq_tenant_id q, ej_workflow_run_id = jq_workflow_run_id q,
      ej_workflow_step_attempt_id = jq_workflow_step_attempt_id q, ej_kind = jq_kind q, ej_payload = jq_payload q,
      ej_status = JobPending, ej_priority = or_default (jq_priority q) 0, ej_available_at = or_default (jq_available_at q) now,
      ej_attempt = 0, ej_max_attempts = or_default (jq_max_attempts q) 5, ej_leased_by = None, ej_lease_token = None,
      ej_lease_generation = 0, ej_heartbeat_at = None, ej_lease_expires_at = None, ej_dedupe_key = jq_dedupe_key q,
      ej_last_error = None, ej_lease_expiries = 0, ej_created_at = now, ej_updated_at = now, ej_completed_at = None,
      ej_exhaustion_handled_at = None, ej_exhaustion_handled = False\<rparr>"

text \<open>A live row absorbs a duplicate; a terminal one is revived by it.\<close>

definition revive_terminal_job :: "instant \<Rightarrow> job_row \<Rightarrow> job_row \<Rightarrow> job_row" where
  "revive_terminal_job host excluded r =
     (if terminal_job (ej_status r)
      then r\<lparr>ej_status := JobPending, ej_attempt := 0, ej_lease_expiries := 0, ej_available_at := ej_available_at excluded,
             ej_payload := ej_payload excluded, ej_completed_at := None, ej_last_error := None,
             ej_exhaustion_handled_at := None, ej_exhaustion_handled := False, ej_updated_at := host\<rparr>
      else r\<lparr>ej_updated_at := host\<rparr>)"

definition same_key :: "job_row \<Rightarrow> job_row \<Rightarrow> bool" where
  "same_key a b \<longleftrightarrow> ej_dedupe_key a \<noteq> None \<and> ej_tenant_id a = ej_tenant_id b \<and> ej_dedupe_key a = ej_dedupe_key b"

definition insert_job :: "instant \<Rightarrow> job_row \<Rightarrow> job_row list \<Rightarrow> job_row list" where
  "insert_job host r rows =
     (if \<exists>x \<in> set rows. same_key r x then update_where (same_key r) (revive_terminal_job host r) rows else rows @ [r])"

definition enqueue :: "instant \<Rightarrow> instant \<Rightarrow> ident \<Rightarrow> job_request \<Rightarrow> jobs_db \<Rightarrow> job_error + execution_job option \<times> jobs_db" where
  "enqueue now host jid q d =
     (let r = new_job jid now q; rows = insert_job host r (jd_jobs d) in
      if ej_max_attempts r < 1 then Inl CheckViolated
      else Inr (map_option map_execution_job (List.find (\<lambda>x. ej_id x = jid \<or> same_key r x) rows), d\<lparr>jd_jobs := rows\<rparr>))"

text \<open>
  \<open>enqueueMany\<close>: of the jobs that name one key, by the string the map is keyed with, the last is kept.
  Two rows of one statement with the same key are an error of \<open>ON CONFLICT DO UPDATE\<close>.
\<close>

definition batch_key :: "job_request \<Rightarrow> string option" where
  "batch_key q = (case jq_dedupe_key q of None \<Rightarrow> None
     | Some k \<Rightarrow> if k = [] then None else Some (jq_tenant_id q @ CHR '' '' # k))"

fun keep_last :: "job_request list \<Rightarrow> job_request list" where
  "keep_last [] = []"
| "keep_last (q # qs) =
     (if batch_key q \<noteq> None \<and> batch_key q \<in> set (map batch_key qs) then keep_last qs else q # keep_last qs)"

definition key_of_row :: "job_row list \<Rightarrow> (ident \<times> string option) list" where
  "key_of_row rows = map (\<lambda>r. (ej_tenant_id r, ej_dedupe_key r)) (filter (\<lambda>r. ej_dedupe_key r \<noteq> None) rows)"

definition enqueue_many :: "instant \<Rightarrow> instant \<Rightarrow> (nat \<Rightarrow> ident) \<Rightarrow> job_request list \<Rightarrow> jobs_db \<Rightarrow> job_error + jobs_db" where
  "enqueue_many now host fresh jobs d =
     (let rows = map (\<lambda>(i, q). new_job (fresh i) now q) (enumerate 0 (keep_last jobs)) in
      if jobs = [] then Inr d
      else if \<exists>r \<in> set rows. ej_max_attempts r < 1 then Inl CheckViolated
      else if \<not> distinct (key_of_row rows) then Inl AmbiguousConflict
      else Inr (d\<lparr>jd_jobs := fold (insert_job host) rows (jd_jobs d)\<rparr>))"

section \<open>Where a job may run\<close>

definition worker_placement :: "instant \<Rightarrow> (ident \<times> ident) option \<Rightarrow> jobs_db \<Rightarrow> job_row \<Rightarrow> bool" where
  "worker_placement now node d r \<longleftrightarrow>
     ej_kind r = DurablePauseTimeout \<or>
     (\<exists>run \<in> set (jd_runs d). wr_id run = ej_workflow_run_id r \<and>
        (case node of
           None \<Rightarrow> wr_allocation_id run = None \<or>
             (\<exists>a \<in> set (jd_allocations d). wr_allocation_id run = Some (al_id a) \<and> al_status a = AllocationActive \<and>
                al_worker_node_id a = None)
         | Some (nid, tok) \<Rightarrow>
             (\<exists>a \<in> set (jd_allocations d). wr_allocation_id run = Some (al_id a) \<and> al_status a = AllocationActive \<and>
                (\<exists>n \<in> set (jd_nodes d). al_worker_node_id a = Some (wn_id n) \<and> wn_id n = nid \<and>
                   wn_lease_token n = Some tok \<and> wn_enabled n \<and> after_now now (wn_lease_expires_at n)))))"

section \<open>Choosing jobs\<close>

text \<open>
  The tenants with pending work. \<open>row_number() OVER ()\<close> numbers a tenant's claimable rows in an order
  SQL leaves to the plan: \<open>numbering\<close> is that order.
\<close>

definition tenant_walk :: "jobs_db \<Rightarrow> ident list" where
  "tenant_walk d = remdups_adj (sort (map ej_tenant_id (filter (\<lambda>r. ej_status r = JobPending) (jd_jobs d))))"

record candidate =
  cd_tenant :: ident
  cd_weight :: int
  cd_max :: "int option"
  cd_running :: int

definition candidate_of :: "jobs_db \<Rightarrow> ident \<Rightarrow> candidate" where
  "candidate_of d t =
     (let p = find_row tp_tenant_id t (jd_policies d);
          leased = filter (\<lambda>r. ej_status r = JobRunning \<and> ej_tenant_id r = t) (jd_jobs d)
      in \<lparr>cd_tenant = t, cd_weight = (case p of None \<Rightarrow> 1 | Some p \<Rightarrow> tp_queue_weight p),
          cd_max = (case p of None \<Rightarrow> None | Some p \<Rightarrow> tp_max_concurrent_jobs p), cd_running = int (length leased)\<rparr>)"

definition candidate_tenants :: "jobs_db \<Rightarrow> candidate list" where
  "candidate_tenants d =
     map (candidate_of d)
       (filter (\<lambda>t. case find_row tp_tenant_id t (jd_policies d) of None \<Rightarrow> True | Some p \<Rightarrow> tp_jobs_enabled p) (tenant_walk d))"

definition claimable :: "instant \<Rightarrow> (ident \<times> ident) option \<Rightarrow> job_kind list \<Rightarrow> jobs_db \<Rightarrow> ident \<Rightarrow> job_row \<Rightarrow> bool" where
  "claimable now node kinds d t r \<longleftrightarrow>
     ej_tenant_id r = t \<and> ej_status r = JobPending \<and> ej_available_at r \<le> now \<and> ej_kind r \<in> set kinds \<and>
     worker_placement now node d r"

definition by_priority :: "job_row list \<Rightarrow> job_row list" where
  "by_priority rows = sort_key (\<lambda>r. - ej_priority r) (sort_key ej_created_at (sort_key ej_id rows))"

record ranked_job =
  rk_id :: ident
  rk_rank :: int
  rk_weight :: int

definition ranked_of ::
  "instant \<Rightarrow> (ident \<times> ident) option \<Rightarrow> job_kind list \<Rightarrow> int \<Rightarrow> (job_row list \<Rightarrow> job_row list) \<Rightarrow> jobs_db \<Rightarrow> candidate \<Rightarrow>
   ranked_job list"
where
  "ranked_of now node kinds limit numbering d c =
     (let eligible = filter (claimable now node kinds d (cd_tenant c)) (jd_jobs d);
          numbers = map (\<lambda>(i, r). (ej_id r, int i)) (enumerate 1 (numbering eligible));
          top = take (nat (max 1 (limit * cd_weight c))) (by_priority eligible)
      in filter (\<lambda>k. case cd_max c of None \<Rightarrow> True | Some m \<Rightarrow> cd_running c + rk_rank k \<le> m)
           (map (\<lambda>r. \<lparr>rk_id = ej_id r, rk_rank = or_default (map_of numbers (ej_id r)) 0, rk_weight = cd_weight c\<rparr>) top))"

definition by_rank :: "ranked_job list \<Rightarrow> ranked_job list" where
  "by_rank ks = sort_key rk_rank (sort_key (\<lambda>k. - rk_weight k) (sort_key rk_id ks))"

definition select_claimable_jobs ::
  "instant \<Rightarrow> (ident \<times> ident) option \<Rightarrow> job_kind list \<Rightarrow> int \<Rightarrow> (job_row list \<Rightarrow> job_row list) \<Rightarrow> ident set \<Rightarrow> jobs_db \<Rightarrow>
   ident list"
where
  "select_claimable_jobs now node kinds limit numbering locked d =
     (let ranked = concat (map (ranked_of now node kinds limit numbering d) (candidate_tenants d));
          eligible = take (nat (limit * 4)) (by_rank ranked);
          pending = filter (\<lambda>k. \<exists>r \<in> set (jd_jobs d). ej_id r = rk_id k \<and> ej_status r = JobPending) eligible
      in map rk_id (take (nat limit) (filter (\<lambda>k. rk_id k \<notin> locked) (by_rank pending))))"

section \<open>Claiming\<close>

definition claim_limit :: "int option \<Rightarrow> int" where
  "claim_limit limit = max 1 (min (or_default limit 10) 100)"

definition leased_job :: "instant \<Rightarrow> instant \<Rightarrow> ident \<Rightarrow> ident \<Rightarrow> int \<Rightarrow> job_row \<Rightarrow> job_row" where
  "leased_job now host worker tok secs r =
     r\<lparr>ej_status := JobRunning, ej_leased_by := Some worker, ej_lease_token := Some tok,
       ej_lease_generation := ej_lease_generation r + 1, ej_heartbeat_at := Some now,
       ej_lease_expires_at := Some (now + 1000 * secs), ej_attempt := ej_attempt r + 1, ej_updated_at := host\<rparr>"

definition claim_jobs ::
  "instant \<Rightarrow> instant \<Rightarrow> ident \<Rightarrow> ident \<Rightarrow> (ident \<times> ident) option \<Rightarrow> job_kind list \<Rightarrow> int option \<Rightarrow> int option \<Rightarrow>
   (job_row list \<Rightarrow> job_row list) \<Rightarrow> ident set \<Rightarrow> jobs_db \<Rightarrow> execution_job list \<times> jobs_db"
where
  "claim_jobs now host worker tok node kinds limit secs numbering locked d =
     (if kinds = [] then ([], d)
      else (let ids = select_claimable_jobs now node kinds (claim_limit limit) numbering locked d in
        if ids = [] then ([], d)
        else (let (rows, d') = updating (\<lambda>r. ej_id r \<in> set ids \<and> ej_status r = JobPending)
                                 (leased_job now host worker tok (or_default secs 60)) d
              in (map map_execution_job rows, d'))))"

definition claim_by_id ::
  "instant \<Rightarrow> instant \<Rightarrow> ident \<Rightarrow> ident \<Rightarrow> (ident \<times> ident) option \<Rightarrow> ident \<Rightarrow> int option \<Rightarrow> jobs_db \<Rightarrow>
   execution_job option \<times> jobs_db"
where
  "claim_by_id now host worker tok node jid secs d =
     (let (rows, d') = updating (\<lambda>r. ej_id r = jid \<and> worker_placement now node d r \<and> ej_status r = JobPending \<and>
                                     ej_available_at r \<le> now) (leased_job now host worker tok (or_default secs 60)) d
      in (case rows of [] \<Rightarrow> None | r # _ \<Rightarrow> Some (map_execution_job r), d'))"

definition next_for_run :: "instant \<Rightarrow> ident \<Rightarrow> ident \<Rightarrow> jobs_db \<Rightarrow> (execution_job \<times> bool) option" where
  "next_for_run now tenant run d =
     (case sort_key ej_created_at (sort_key ej_id (filter (\<lambda>r. ej_tenant_id r = tenant \<and> ej_workflow_run_id r = run \<and>
             live_job (ej_status r)) (jd_jobs d))) of
        [] \<Rightarrow> None | r # _ \<Rightarrow> Some (map_execution_job r, ej_available_at r \<le> now))"

definition next_due_at :: "job_kind list \<Rightarrow> jobs_db \<Rightarrow> instant option" where
  "next_due_at kinds d =
     (if kinds = [] then None
      else (let ours = filter (\<lambda>r. ej_kind r \<in> set kinds) (jd_jobs d);
                available = map ej_available_at (filter (\<lambda>r. ej_status r = JobPending) ours);
                lapses = List.map_filter ej_lease_expires_at (filter (\<lambda>r. ej_status r = JobRunning) ours)
            in case available @ lapses of [] \<Rightarrow> None | t # ts \<Rightarrow> Some (fold min ts t)))"

section \<open>What a holder does\<close>

record job_lease =
  jl_job :: ident
  jl_worker :: ident
  jl_token :: ident
  jl_generation :: nat

definition holds :: "instant \<Rightarrow> job_lease \<Rightarrow> job_row \<Rightarrow> bool" where
  "holds now l r \<longleftrightarrow>
     ej_id r = jl_job l \<and> ej_status r = JobRunning \<and> ej_leased_by r = Some (jl_worker l) \<and>
     ej_lease_token r = Some (jl_token l) \<and> ej_lease_generation r = jl_generation l \<and> after_now now (ej_lease_expires_at r)"

definition heartbeat :: "instant \<Rightarrow> (ident \<times> ident) option \<Rightarrow> job_lease \<Rightarrow> int option \<Rightarrow> jobs_db \<Rightarrow> bool \<times> jobs_db" where
  "heartbeat now node l secs d =
     (let (rows, d') = updating (\<lambda>r. holds now l r \<and> worker_placement now node d r)
        (\<lambda>r. r\<lparr>ej_lease_expires_at := Some (now + 1000 * or_default secs 60), ej_heartbeat_at := Some now, ej_updated_at := now\<rparr>) d
      in (length rows = 1, d'))"

definition drop_lease :: "job_lease \<Rightarrow> jobs_db \<Rightarrow> jobs_db" where
  "drop_lease l = delete_lease_invocations (jl_job l) (jl_token l) (jl_generation l)"

definition complete_job :: "instant \<Rightarrow> job_lease \<Rightarrow> jobs_db \<Rightarrow> bool \<times> jobs_db" where
  "complete_job now l d =
     (let (rows, d') = updating (holds now l)
        (\<lambda>r. (unleased r)\<lparr>ej_status := JobCompleted, ej_completed_at := Some now, ej_updated_at := now\<rparr>) d
      in if length rows \<noteq> 1 then (False, d') else (True, drop_lease l d'))"

definition retry_date :: "instant \<Rightarrow> int \<Rightarrow> instant" where
  "retry_date host attempt = host + min 300 (2 ^ nat (min attempt 8)) * 1000"

text \<open>The row is read for update at \<open>now\<close> and written at \<open>later\<close>, by the same guards.\<close>

definition fail_job ::
  "instant \<Rightarrow> instant \<Rightarrow> instant \<Rightarrow> job_lease \<Rightarrow> string \<Rightarrow> instant option \<Rightarrow> jobs_db \<Rightarrow> job_status option \<times> jobs_db"
where
  "fail_job now later host l err retry_at d =
     (case filter (holds now l) (jd_jobs d) of
        [] \<Rightarrow> (None, d)
      | row # _ \<Rightarrow>
          (let retry = ej_attempt row < ej_max_attempts row;
               status = (if retry then JobPending else JobFailed);
               (rows, d') = updating (holds later l)
                 (\<lambda>r. (unleased r)\<lparr>ej_status := status,
                    ej_available_at := (if retry then or_default retry_at (retry_date host (ej_attempt row)) else host),
                    ej_last_error := Some err, ej_completed_at := (if retry then None else Some host), ej_updated_at := host\<rparr>) d
           in if rows = [] then (None, d') else (Some status, drop_lease l d')))"

definition release_job ::
  "instant \<Rightarrow> instant \<Rightarrow> job_lease \<Rightarrow> instant \<Rightarrow> ident option \<Rightarrow> ident option \<Rightarrow> jobs_db \<Rightarrow> bool \<times> jobs_db"
where
  "release_job now host l available_at paused_run requirement d =
     (let run_goes_on = (case paused_run of None \<Rightarrow> False
            | Some rid \<Rightarrow> (case find_row wr_id rid (jd_runs d) of None \<Rightarrow> True | Some run \<Rightarrow> wr_status run \<noteq> ''paused''));
          resolved = (case requirement of None \<Rightarrow> False
            | Some qid \<Rightarrow> (case find_row cq_id qid (jd_requirements d) of None \<Rightarrow> False | Some q \<Rightarrow> cq_status q = ''resolved''));
          (rows, d') = updating (holds now l)
            (\<lambda>r. (unleased r)\<lparr>ej_status := JobPending, ej_available_at := (if run_goes_on \<or> resolved then now else available_at),
               ej_attempt := ej_attempt r - 1, ej_updated_at := host\<rparr>) d
      in if length rows \<noteq> 1 then (False, d') else (True, drop_lease l d'))"

section \<open>Canceling\<close>

definition canceled_job :: "instant \<Rightarrow> job_row \<Rightarrow> job_row" where
  "canceled_job now r = (unleased r)\<lparr>ej_status := JobCanceled, ej_completed_at := Some now, ej_updated_at := now\<rparr>"

definition cancel_job :: "instant \<Rightarrow> ident \<Rightarrow> jobs_db \<Rightarrow> bool \<times> jobs_db" where
  "cancel_job now jid d =
     (let (rows, d') = updating (\<lambda>r. ej_id r = jid \<and> live_job (ej_status r)) (canceled_job now) d
      in if length rows \<noteq> 1 then (False, d') else (True, delete_job_invocations [jid] d'))"

definition cancel_by_dedupe_key :: "instant \<Rightarrow> ident \<Rightarrow> string \<Rightarrow> jobs_db \<Rightarrow> bool \<times> jobs_db" where
  "cancel_by_dedupe_key now tenant key d =
     (let (rows, d') = updating (\<lambda>r. ej_tenant_id r = tenant \<and> ej_dedupe_key r = Some key \<and> live_job (ej_status r))
        (canceled_job now) d
      in if rows = [] then (False, d') else (True, delete_job_invocations (map ej_id rows) d'))"

text \<open>\<open>replaceAll\<close> of one character by two, and PostgreSQL's \<open>LIKE\<close> with the backslash as its escape.\<close>

definition BACKSLASH :: char where "BACKSLASH = CHR 0x5C"

definition replace_char :: "char \<Rightarrow> string \<Rightarrow> string \<Rightarrow> string" where
  "replace_char c by s = concat (map (\<lambda>x. if x = c then by else [x]) s)"

definition escape_like :: "string \<Rightarrow> string" where
  "escape_like v =
     replace_char (CHR ''_'') [BACKSLASH, CHR ''_'']
       (replace_char (CHR ''%'') [BACKSLASH, CHR ''%''] (replace_char BACKSLASH [BACKSLASH, BACKSLASH] v))"

function like :: "string \<Rightarrow> string \<Rightarrow> bool" where
  "like [] s = (s = [])"
| "like (p # ps) s =
     (if p = CHR ''%'' then like ps s \<or> (case s of [] \<Rightarrow> False | _ # s' \<Rightarrow> like (p # ps) s')
      else if p = CHR ''_'' then (case s of [] \<Rightarrow> False | _ # s' \<Rightarrow> like ps s')
      else if p = BACKSLASH then
        (case ps of [] \<Rightarrow> False | c # cs \<Rightarrow> (case s of [] \<Rightarrow> False | x # s' \<Rightarrow> x = c \<and> like cs s'))
      else (case s of [] \<Rightarrow> False | x # s' \<Rightarrow> x = p \<and> like ps s'))"
  by pat_completeness auto

termination by (relation "measure (\<lambda>(p, s). length p + length s)") auto

declare like.simps(2) [simp del]

definition cancel_by_dedupe_prefix :: "instant \<Rightarrow> ident \<Rightarrow> string \<Rightarrow> jobs_db \<Rightarrow> nat \<times> jobs_db" where
  "cancel_by_dedupe_prefix now tenant start d =
     (let (rows, d') = updating (\<lambda>r. ej_tenant_id r = tenant \<and>
            (case ej_dedupe_key r of None \<Rightarrow> False | Some k \<Rightarrow> like (escape_like start @ ''%'') k) \<and> live_job (ej_status r))
        (canceled_job now) d
      in if rows = [] then (0, d') else (length rows, delete_job_invocations (map ej_id rows) d'))"

section \<open>Waking and redriving\<close>

definition made_available :: "instant \<Rightarrow> instant \<Rightarrow> job_row \<Rightarrow> job_row" where
  "made_available host tm r = r\<lparr>ej_available_at := tm, ej_updated_at := host\<rparr>"

definition make_available :: "instant \<Rightarrow> instant \<Rightarrow> ident \<Rightarrow> string \<Rightarrow> instant option \<Rightarrow> jobs_db \<Rightarrow> jobs_db" where
  "make_available now host tenant key available_at d =
     (let tm = or_default available_at now in
      snd (updating (\<lambda>r. ej_tenant_id r = tenant \<and> ej_dedupe_key r = Some key \<and> ej_status r = JobPending \<and> tm < ej_available_at r)
        (made_available host tm) d))"

definition make_run_available :: "instant \<Rightarrow> instant \<Rightarrow> ident \<Rightarrow> instant option \<Rightarrow> jobs_db \<Rightarrow> nat \<times> jobs_db" where
  "make_run_available now host run available_at d =
     (let tm = or_default available_at now;
          (rows, d') = updating (\<lambda>r. ej_workflow_run_id r = run \<and> ej_status r = JobPending \<and> tm < ej_available_at r)
            (made_available host tm) d
      in (length rows, d'))"

definition make_jobs_available :: "instant \<Rightarrow> instant \<Rightarrow> ident list \<Rightarrow> instant option \<Rightarrow> jobs_db \<Rightarrow> nat \<times> jobs_db" where
  "make_jobs_available now host ids available_at d =
     (if ids = [] then (0, d)
      else (let (rows, d') = updating (\<lambda>r. ej_id r \<in> set ids \<and> ej_status r = JobPending)
              (made_available host (or_default available_at now)) d
            in (length rows, d')))"

definition redrive :: "instant \<Rightarrow> instant \<Rightarrow> ident \<Rightarrow> ident \<Rightarrow> instant option \<Rightarrow> jobs_db \<Rightarrow> bool \<times> jobs_db" where
  "redrive now host tenant jid available_at d =
     (let (rows, d') = updating (\<lambda>r. ej_id r = jid \<and> ej_tenant_id r = tenant \<and> ej_status r = JobFailed)
        (\<lambda>r. (unleased r)\<lparr>ej_status := JobPending, ej_attempt := 0, ej_lease_expiries := 0,
           ej_available_at := or_default available_at now, ej_last_error := None, ej_completed_at := None,
           ej_exhaustion_handled_at := None, ej_exhaustion_handled := False, ej_updated_at := host\<rparr>) d
      in (length rows = 1, d'))"

section \<open>Lapsed leases\<close>

definition MAX_LEASE_EXPIRIES :: int where "MAX_LEASE_EXPIRIES = 20"

definition lapsed :: "instant \<Rightarrow> job_row \<Rightarrow> bool" where
  "lapsed now r \<longleftrightarrow> ej_status r = JobRunning \<and> (case ej_lease_expires_at r of None \<Rightarrow> False | Some t \<Rightarrow> t \<le> now)"

definition sweep_limit :: "int option \<Rightarrow> nat" where
  "sweep_limit limit = nat (max 1 (min (or_default limit 100) 1000))"

definition requeued_job :: "instant \<Rightarrow> job_row \<Rightarrow> job_row" where
  "requeued_job now r =
     (unleased r)\<lparr>ej_status := JobPending, ej_available_at := now, ej_attempt := max (ej_attempt r - 1) 0,
       ej_lease_expiries := ej_lease_expiries r + 1, ej_last_error := Some ''Execution job lease expired before completion'',
       ej_updated_at := now\<rparr>"

definition exhausted_job :: "instant \<Rightarrow> job_row \<Rightarrow> job_row" where
  "exhausted_job now r =
     (unleased r)\<lparr>ej_status := JobFailed, ej_lease_expiries := ej_lease_expiries r + 1,
       ej_last_error := Some ''Execution job lease expired 20 times without completing'', ej_completed_at := Some now,
       ej_updated_at := now\<rparr>"

definition requeue_expired :: "instant \<Rightarrow> int option \<Rightarrow> ident set \<Rightarrow> jobs_db \<Rightarrow> nat \<times> jobs_db" where
  "requeue_expired now limit locked d =
     (let expired = take (sweep_limit limit) (filter (\<lambda>r. ej_id r \<notin> locked)
            (sort_key (\<lambda>r. or_default (ej_lease_expires_at r) 0) (filter (lapsed now) (jd_jobs d))));
          retryable = map ej_id (filter (\<lambda>r. ej_lease_expiries r + 1 < MAX_LEASE_EXPIRIES) expired);
          exhausted = map ej_id (filter (\<lambda>r. ej_lease_expiries r + 1 \<ge> MAX_LEASE_EXPIRIES) expired);
          (rows1, d1) = updating (\<lambda>r. ej_id r \<in> set retryable \<and> lapsed now r) (requeued_job now) d;
          d2 = delete_job_invocations retryable d1;
          (rows2, d3) = updating (\<lambda>r. ej_id r \<in> set exhausted \<and> lapsed now r) (exhausted_job now) d2
      in if expired = [] then (0, d)
         else (length rows1 + length rows2, delete_job_invocations (map ej_id rows2) d3))"

section \<open>The terminal handler\<close>

definition EXHAUSTION_CLAIM_MS :: int where "EXHAUSTION_CLAIM_MS = 10 * 60 * 1000"

definition exhaustion_claimable :: "instant \<Rightarrow> job_row \<Rightarrow> bool" where
  "exhaustion_claimable now r \<longleftrightarrow>
     ej_status r = JobFailed \<and> \<not> ej_exhaustion_handled r \<and>
     (case ej_exhaustion_handled_at r of None \<Rightarrow> True | Some t \<Rightarrow> t < now - EXHAUSTION_CLAIM_MS)"

definition claim_exhausted :: "instant \<Rightarrow> int option \<Rightarrow> ident set \<Rightarrow> jobs_db \<Rightarrow> execution_job list \<times> jobs_db" where
  "claim_exhausted now limit locked d =
     (let ids = map ej_id (take (sweep_limit limit) (filter (\<lambda>r. ej_id r \<notin> locked)
            (sort_key (\<lambda>r. or_default (ej_completed_at r) 0) (filter (exhaustion_claimable now) (jd_jobs d)))));
          (rows, d') = updating (\<lambda>r. ej_id r \<in> set ids) (\<lambda>r. r\<lparr>ej_exhaustion_handled_at := Some now\<rparr>) d
      in (map map_execution_job rows, d'))"

definition claim_exhaustion_for :: "instant \<Rightarrow> ident \<Rightarrow> jobs_db \<Rightarrow> bool \<times> jobs_db" where
  "claim_exhaustion_for now jid d =
     (let (rows, d') = updating (\<lambda>r. ej_id r = jid \<and> exhaustion_claimable now r) (\<lambda>r. r\<lparr>ej_exhaustion_handled_at := Some now\<rparr>) d
      in (length rows = 1, d'))"

definition confirm_exhaustion_handled :: "ident \<Rightarrow> jobs_db \<Rightarrow> jobs_db" where
  "confirm_exhaustion_handled jid d = snd (updating (\<lambda>r. ej_id r = jid) (\<lambda>r. r\<lparr>ej_exhaustion_handled := True\<rparr>) d)"

definition release_exhaustion_claim :: "ident \<Rightarrow> jobs_db \<Rightarrow> jobs_db" where
  "release_exhaustion_claim jid d =
     snd (updating (\<lambda>r. ej_id r = jid \<and> ej_status r = JobFailed) (\<lambda>r. r\<lparr>ej_exhaustion_handled_at := None\<rparr>) d)"

end
