(* ===== verification/Job_Laws.thy ===== *)
theory Job_Laws
  imports Execution_Jobs
begin

text \<open>
  What the job queue keeps: the table's constraints, a bound on the runs of a job, the fencing of
  replaced holders, the tenants' ceilings and floor, and one terminal handler per failure.
\<close>

section \<open>The table's invariant\<close>

definition job_row_ok :: "job_row \<Rightarrow> bool" where
  "job_row_ok r \<longleftrightarrow>
     0 \<le> ej_attempt r \<and> ej_attempt r \<le> ej_max_attempts r \<and> 1 \<le> ej_max_attempts r \<and>
     0 \<le> ej_lease_expiries r \<and> ej_lease_expiries r \<le> MAX_LEASE_EXPIRIES \<and>
     (ej_completed_at r \<noteq> None \<longleftrightarrow> terminal_job (ej_status r)) \<and>
     (if ej_status r = JobRunning
      then ej_leased_by r \<noteq> None \<and> ej_lease_token r \<noteq> None \<and> ej_heartbeat_at r \<noteq> None \<and> ej_lease_expires_at r \<noteq> None
      else ej_leased_by r = None \<and> ej_lease_token r = None \<and> ej_heartbeat_at r = None \<and> ej_lease_expires_at r = None) \<and>
     (ej_status r = JobPending \<longrightarrow> ej_attempt r < ej_max_attempts r \<and> ej_lease_expiries r < MAX_LEASE_EXPIRIES) \<and>
     (ej_status r = JobRunning \<longrightarrow> 1 \<le> ej_attempt r \<and> ej_lease_expiries r < MAX_LEASE_EXPIRIES)"

definition jobs_ok :: "jobs_db \<Rightarrow> bool" where
  "jobs_ok d \<longleftrightarrow> unique_keys ej_id (jd_jobs d) \<and> distinct (key_of_row (jd_jobs d)) \<and> (\<forall>r \<in> set (jd_jobs d). job_row_ok r)"

text \<open>What an update may not touch, and what a step does to one job's row.\<close>

definition job_key :: "job_row \<Rightarrow> ident \<times> ident \<times> string option" where
  "job_key r = (ej_id r, ej_tenant_id r, ej_dedupe_key r)"

definition job_of :: "jobs_db \<Rightarrow> ident \<Rightarrow> job_row option" where
  "job_of d jid = find_row ej_id jid (jd_jobs d)"

lemma keyed_cong: "map job_key xs = map job_key ys \<Longrightarrow> key_of_row xs = key_of_row ys"
proof (induction xs arbitrary: ys)
  case (Cons x xs)
  then show ?case by (cases ys) (auto simp: key_of_row_def job_key_def)
qed simp

lemma jobs_ok_update:
  assumes "jobs_ok d" and "\<And>r. r \<in> set (jd_jobs d) \<Longrightarrow> p r \<Longrightarrow> job_key (f r) = job_key r \<and> (job_row_ok r \<longrightarrow> job_row_ok (f r))"
    and "jd_jobs d' = update_where p f (jd_jobs d)"
  shows "jobs_ok d'"
proof -
  have keys: "map job_key (jd_jobs d') = map job_key (jd_jobs d)"
    unfolding assms(3) by (rule map_update_where) (use assms(2) in blast)
  then have "map ej_id (jd_jobs d') = map ej_id (jd_jobs d)"
    using arg_cong [OF keys, of "map fst"] unfolding map_map by (simp add: job_key_def o_def)
  with keyed_cong [OF keys] assms(1) have "unique_keys ej_id (jd_jobs d')" "distinct (key_of_row (jd_jobs d'))"
    by (simp_all add: jobs_ok_def unique_keys_def)
  moreover have "\<forall>r \<in> set (jd_jobs d'). job_row_ok r"
    unfolding assms(3) using assms(1,2) by (auto simp: update_where_def jobs_ok_def)
  ultimately show ?thesis by (simp add: jobs_ok_def)
qed

lemma updating_jobs [simp]: "jd_jobs (snd (updating p f d)) = update_where p f (jd_jobs d)"
  by (simp add: updating_def)

lemma invocations_jobs [simp]: "jd_jobs (delete_invocations p d) = jd_jobs d" "jd_jobs (drop_lease l d) = jd_jobs d"
  "jd_jobs (delete_job_invocations ids d) = jd_jobs d"
  by (simp_all add: delete_invocations_def drop_lease_def delete_lease_invocations_def delete_job_invocations_def)

lemma job_of_update:
  "(\<And>r. ej_id (f r) = ej_id r) \<Longrightarrow> jd_jobs d' = update_where p f (jd_jobs d) \<Longrightarrow>
   job_of d' jid = map_option (\<lambda>r. if p r then f r else r) (job_of d jid)"
  by (simp add: job_of_def find_row_update_where)

lemma job_of_mem: "job_of d jid = Some r \<Longrightarrow> r \<in> set (jd_jobs d) \<and> ej_id r = jid"
  by (auto simp: job_of_def dest: find_row_Some)

section \<open>Steps\<close>

text \<open>Every operation that writes a job, by what it may do to it: ask for it (again), put it back, or work on it.\<close>

datatype step_kind = Asks | PutsBack | Works

text \<open>What the operations but enqueueing do to the table: one update, or one and then another.\<close>

inductive job_step :: "step_kind \<Rightarrow> jobs_db \<Rightarrow> jobs_db \<Rightarrow> bool" where
  enqueues: "enqueue now host jid q d = Inr (x, d') \<Longrightarrow> jid \<notin> ej_id ` set (jd_jobs d) \<Longrightarrow> job_step Asks d d'"
| enqueues_many: "enqueue_many now host fresh qs d = Inr d' \<Longrightarrow> inj fresh \<Longrightarrow> range fresh \<inter> ej_id ` set (jd_jobs d) = {} \<Longrightarrow>
    job_step Asks d d'"
| redrives: "job_step Asks d (snd (redrive now host tenant jid available_at d))"
| releases: "job_step PutsBack d (snd (release_job now host l available_at paused_run requirement d))"
| claims: "job_step Works d (snd (claim_jobs now host worker tok node kinds limit secs numbering locked d))"
| claims_one: "job_step Works d (snd (claim_by_id now host worker tok node jid secs d))"
| beats: "job_step Works d (snd (heartbeat now node l secs d))"
| completes: "job_step Works d (snd (complete_job now l d))"
| fails: "job_step Works d (snd (fail_job now later host l err retry_at d))"
| cancels: "job_step Works d (snd (cancel_job now jid d))"
| cancels_key: "job_step Works d (snd (cancel_by_dedupe_key now tenant key d))"
| cancels_prefix: "job_step Works d (snd (cancel_by_dedupe_prefix now tenant start d))"
| wakes: "job_step Works d (make_available now host tenant key available_at d)"
| wakes_run: "job_step Works d (snd (make_run_available now host run available_at d))"
| wakes_jobs: "job_step Works d (snd (make_jobs_available now host ids available_at d))"
| sweeps: "job_step Works d (snd (requeue_expired now limit locked d))"
| claims_exhausted: "job_step Works d (snd (claim_exhausted now limit locked d))"
| claims_exhaustion: "job_step Works d (snd (claim_exhaustion_for now jid d))"
| confirms: "job_step Works d (confirm_exhaustion_handled jid d)"
| gives_back_exhaustion: "job_step Works d (release_exhaustion_claim jid d)"

text \<open>The tries a job has left: attempts that count, and lapses of its lease.\<close>

definition tries :: "job_row \<Rightarrow> int" where
  "tries r = (ej_max_attempts r - ej_attempt r) + (MAX_LEASE_EXPIRIES - ej_lease_expiries r)"

text \<open>
  A row a step leads to from a row that is well formed: well formed, of the same key, never of an older
  lease, and, while nobody asks for the job again or puts it back, a try the poorer for each new lease.
\<close>

definition job_moves :: "step_kind \<Rightarrow> job_row \<Rightarrow> job_row \<Rightarrow> bool" where
  "job_moves k r r' \<longleftrightarrow>
     job_key r' = job_key r \<and> (job_row_ok r \<longrightarrow> job_row_ok r' \<and> ej_lease_generation r \<le> ej_lease_generation r' \<and>
       ej_max_attempts r' = ej_max_attempts r \<and>
       (k = Works \<longrightarrow> int (ej_lease_generation r') + tries r' \<le> int (ej_lease_generation r) + tries r))"

lemma job_moves_refl: "job_moves k r r"
  by (simp add: job_moves_def)

lemma moves_step:
  assumes "jobs_ok d" and "jd_jobs d' = update_where p f (jd_jobs d)" and "\<And>r. r \<in> set (jd_jobs d) \<Longrightarrow> p r \<Longrightarrow> job_moves k r (f r)"
  shows "jobs_ok d' \<and> (\<forall>jid r. job_of d jid = Some r \<longrightarrow> (\<exists>r'. job_of d' jid = Some r' \<and> job_moves k r r'))"
proof
  show "jobs_ok d'" by (rule jobs_ok_update [OF assms(1) _ assms(2)]) (use assms(3) in \<open>auto simp: job_moves_def\<close>)
  let ?f = "\<lambda>r. if r \<in> set (jd_jobs d) \<and> p r then f r else r"
  have id: "ej_id (?f r) = ej_id r" for r using assms(3) by (auto simp: job_moves_def job_key_def)
  have "jd_jobs d' = update_where (\<lambda>_. True) ?f (jd_jobs d)" unfolding assms(2) update_where_def by (rule map_cong) auto
  from job_of_update [OF id this] show "\<forall>jid r. job_of d jid = Some r \<longrightarrow> (\<exists>r'. job_of d' jid = Some r' \<and> job_moves k r r')"
    using assms(3) by (auto simp: job_moves_refl)
qed

lemmas row_simps' = job_moves_def job_key_def job_row_ok_def unleased_def tries_def terminal_job_def live_job_def MAX_LEASE_EXPIRIES_def

lemma row_moves:
  "ej_status r = JobPending \<Longrightarrow> job_moves k r (leased_job now host worker tok secs r)"
  "holds now l r \<Longrightarrow> job_moves k r (r\<lparr>ej_lease_expires_at := Some a, ej_heartbeat_at := Some b, ej_updated_at := c\<rparr>)"
  "ej_status r = JobRunning \<Longrightarrow> job_moves k r ((unleased r)\<lparr>ej_status := JobCompleted, ej_completed_at := Some a, ej_updated_at := b\<rparr>)"
  "live_job (ej_status r) \<Longrightarrow> job_moves k r (canceled_job now r)"
  "job_moves k r (made_available host tm r)"
  "lapsed now r \<Longrightarrow> ej_lease_expiries r + 1 < MAX_LEASE_EXPIRIES \<Longrightarrow> job_moves k r (requeued_job now r)"
  "lapsed now r \<Longrightarrow> job_moves k r (exhausted_job now r)"
  "job_moves k r (r\<lparr>ej_exhaustion_handled_at := x\<rparr>)"
  "job_moves k r (r\<lparr>ej_exhaustion_handled := v\<rparr>)"
  by (auto simp: row_simps' leased_job_def holds_def canceled_job_def made_available_def lapsed_def requeued_job_def exhausted_job_def)

lemma fail_moves:
  "ej_status r = JobRunning \<Longrightarrow> job_moves k r ((unleased r)\<lparr>ej_status := if ej_attempt r < ej_max_attempts r then JobPending else JobFailed,
     ej_available_at := a, ej_last_error := e, ej_completed_at := if ej_attempt r < ej_max_attempts r then None else Some h,
     ej_updated_at := u\<rparr>)"
  by (auto simp: row_simps')

lemma release_moves:
  "ej_status r = JobRunning \<Longrightarrow> job_moves PutsBack r ((unleased r)\<lparr>ej_status := JobPending, ej_available_at := a,
     ej_attempt := ej_attempt r - 1, ej_updated_at := u\<rparr>)"
  by (auto simp: row_simps')

lemma redrive_moves:
  "ej_status r = JobFailed \<Longrightarrow> job_moves Asks r ((unleased r)\<lparr>ej_status := JobPending, ej_attempt := 0, ej_lease_expiries := 0,
     ej_available_at := a, ej_last_error := None, ej_completed_at := None, ej_exhaustion_handled_at := None,
     ej_exhaustion_handled := False, ej_updated_at := u\<rparr>)"
  by (auto simp: row_simps')

lemma revive_moves: "job_moves Asks r (revive_terminal_job host x r)"
  by (auto simp: row_simps' revive_terminal_job_def)

lemma new_job_ok: "1 \<le> or_default (jq_max_attempts q) 5 \<Longrightarrow> job_row_ok (new_job jid now q)"
  by (simp add: row_simps' new_job_def)


definition moved :: "step_kind \<Rightarrow> jobs_db \<Rightarrow> jobs_db \<Rightarrow> bool" where
  "moved k d d' \<longleftrightarrow> jobs_ok d' \<and> (\<forall>jid r. job_of d jid = Some r \<longrightarrow> (\<exists>r'. job_of d' jid = Some r' \<and> job_moves k r r'))"

lemma moved_refl: "jobs_ok d \<Longrightarrow> moved k d d"
  by (auto simp: moved_def job_moves_refl)

lemma moved_invocations [simp]: "moved k d (drop_lease l d') \<longleftrightarrow> moved k d d'"
  "moved k d (delete_job_invocations ids d') \<longleftrightarrow> moved k d d'" "moved k (delete_job_invocations ids d) d' \<longleftrightarrow> moved k d d'"
  by (simp_all add: moved_def jobs_ok_def job_of_def)

lemma job_moves_trans: "job_moves k a b \<Longrightarrow> job_moves k b c \<Longrightarrow> job_moves k a c"
  by (auto simp: job_moves_def)

lemma moved_trans: "moved k a b \<Longrightarrow> moved k b c \<Longrightarrow> moved k a c"
  unfolding moved_def by (meson job_moves_trans)

lemma moved_update:
  assumes "jobs_ok d" and "\<And>r. r \<in> set (jd_jobs d) \<Longrightarrow> p r \<Longrightarrow> job_moves k r (f r)"
  shows "moved k d (snd (updating p f d))"
  unfolding moved_def by (rule moves_step [OF assms(1) updating_jobs assms(2)])

text \<open>An insertion: a new row at the end, or the revival of the row with the key.\<close>

lemma keyed_append: "key_of_row (xs @ ys) = key_of_row xs @ key_of_row ys"
  by (simp add: key_of_row_def)

lemma same_key_iff: "same_key r x \<longleftrightarrow> ej_dedupe_key x \<noteq> None \<and> (ej_tenant_id x, ej_dedupe_key x) = (ej_tenant_id r, ej_dedupe_key r)"
  by (auto simp: same_key_def)

lemma moved_insert:
  assumes "jobs_ok d" and "job_row_ok r" and "ej_id r \<notin> ej_id ` set (jd_jobs d)"
  shows "moved Asks d (d\<lparr>jd_jobs := insert_job host r (jd_jobs d)\<rparr>)"
proof (cases "\<exists>x \<in> set (jd_jobs d). same_key r x")
  case True
  have "moved Asks d (snd (updating (same_key r) (revive_terminal_job host r) d))"
    by (rule moved_update [OF assms(1) revive_moves])
  with True show ?thesis by (simp add: insert_job_def updating_def)
next
  case False
  let ?d = "d\<lparr>jd_jobs := jd_jobs d @ [r]\<rparr>"
  have "jobs_ok ?d"
    using assms False by (auto simp: jobs_ok_def unique_keys_def keyed_append key_of_row_def same_key_def)
  moreover have "job_of ?d jid = (case job_of d jid of None \<Rightarrow> if ej_id r = jid then Some r else None | Some x \<Rightarrow> Some x)" for jid
    by (simp add: job_of_def find_row_append split: option.splits)
  ultimately show ?thesis using False by (auto simp: insert_job_def moved_def job_moves_refl)
qed

lemma insert_job_ids: "ej_id ` set (insert_job host r rows) \<subseteq> insert (ej_id r) (ej_id ` set rows)"
proof -
  have "map ej_id (update_where (same_key r) (revive_terminal_job host r) rows) = map ej_id rows"
    by (rule map_update_where) (simp add: revive_terminal_job_def)
  then have "ej_id ` set (update_where (same_key r) (revive_terminal_job host r) rows) = ej_id ` set rows"
    by (metis set_map)
  then show ?thesis by (auto simp: insert_job_def)
qed

lemma disjoint_grown: "A \<subseteq> insert x B \<Longrightarrow> x \<notin> C \<Longrightarrow> C \<inter> B = {} \<Longrightarrow> C \<inter> A = {}"
  by blast

lemma moved_inserts:
  "jobs_ok d \<Longrightarrow> \<forall>r \<in> set rows. job_row_ok r \<Longrightarrow> distinct (map ej_id rows) \<Longrightarrow>
   ej_id ` set rows \<inter> ej_id ` set (jd_jobs d) = {} \<Longrightarrow> moved Asks d (d\<lparr>jd_jobs := fold (insert_job host) rows (jd_jobs d)\<rparr>)"
proof (induction rows arbitrary: d)
  case (Cons r rows)
  let ?d = "d\<lparr>jd_jobs := insert_job host r (jd_jobs d)\<rparr>"
  have m: "moved Asks d ?d" by (rule moved_insert) (use Cons.prems in auto)
  have "moved Asks ?d (?d\<lparr>jd_jobs := fold (insert_job host) rows (jd_jobs ?d)\<rparr>)"
  proof (rule Cons.IH)
    show "jobs_ok ?d" using m by (simp add: moved_def)
    have grown: "ej_id ` set (jd_jobs ?d) \<subseteq> insert (ej_id r) (ej_id ` set (jd_jobs d))" using insert_job_ids by simp
    show "ej_id ` set rows \<inter> ej_id ` set (jd_jobs ?d) = {}"
      by (rule disjoint_grown [OF grown]) (use Cons.prems(3,4) in auto)
  qed (use Cons.prems in auto)
  from moved_trans [OF m this] show ?case by simp
qed (simp add: moved_refl)

lemma job_step_moved:
  assumes "job_step k d d'" and "jobs_ok d"
  shows "moved k d d'"
  using assms
proof (induction rule: job_step.induct)
  case (enqueues now host jid q d x d')
  let ?r = "new_job jid now q"
  from enqueues have ok: "1 \<le> or_default (jq_max_attempts q) 5" and d': "d' = d\<lparr>jd_jobs := insert_job host ?r (jd_jobs d)\<rparr>"
    by (auto simp: enqueue_def Let_def new_job_def split: if_splits)
  show ?case unfolding d' by (rule moved_insert [OF enqueues(3) new_job_ok [OF ok]]) (use enqueues in \<open>simp add: new_job_def\<close>)
next
  case (enqueues_many now host fresh qs d d')
  let ?rows = "map (\<lambda>(i, q). new_job (fresh i) now q) (enumerate 0 (keep_last qs))"
  show ?case
  proof (cases "qs = []")
    case False
    with enqueues_many(1) have d': "d' = d\<lparr>jd_jobs := fold (insert_job host) ?rows (jd_jobs d)\<rparr>"
      and ok: "\<forall>r \<in> set ?rows. 1 \<le> ej_max_attempts r"
      by (auto simp: enqueue_many_def Let_def linorder_not_less split: if_splits)
    have "map ej_id ?rows = map fresh (map fst (enumerate 0 (keep_last qs)))"
      unfolding map_map by (rule map_cong) (auto simp: new_job_def)
    then have ids: "map ej_id ?rows = map fresh [0..<length (keep_last qs)]" by (simp add: map_fst_enumerate)
    show ?thesis unfolding d'
    proof (rule moved_inserts [OF enqueues_many(4)])
      show "\<forall>r \<in> set ?rows. job_row_ok r" using ok by (auto simp: new_job_def intro!: new_job_ok [unfolded new_job_def])
      show "distinct (map ej_id ?rows)" unfolding ids using enqueues_many(2)
        by (auto simp: distinct_map intro: inj_on_subset)
      have "ej_id ` set ?rows \<subseteq> range fresh" by (auto simp: new_job_def)
      with enqueues_many(3) show "ej_id ` set ?rows \<inter> ej_id ` set (jd_jobs d) = {}" by blast
    qed
  qed (use enqueues_many in \<open>simp add: enqueue_many_def moved_refl\<close>)
next
  case (redrives d now host tenant jid available_at)
  then show ?case by (auto simp: redrive_def Let_def case_prod_beta intro!: moved_update redrive_moves)
next
  case (releases d now host l available_at paused_run requirement)
  have "moved PutsBack d (snd (updating (holds now l) (\<lambda>r. (unleased r)\<lparr>ej_status := JobPending,
      ej_available_at := a, ej_attempt := ej_attempt r - 1, ej_updated_at := host\<rparr>) d))" for a
    by (rule moved_update [OF releases]) (auto simp: holds_def intro!: release_moves)
  then show ?case by (auto simp: release_job_def Let_def case_prod_beta)
next
  case (claims d now host worker tok node kinds limit secs numbering locked)
  then show ?case by (auto simp: claim_jobs_def Let_def case_prod_beta moved_refl intro!: moved_update row_moves)
next
  case (claims_one d now host worker tok node jid secs)
  then show ?case by (auto simp: claim_by_id_def Let_def case_prod_beta intro!: moved_update row_moves)
next
  case (beats d now node l secs)
  then show ?case by (auto simp: heartbeat_def Let_def case_prod_beta intro!: moved_update row_moves)
next
  case (completes d now l)
  have "moved Works d (snd (updating (holds now l) (\<lambda>r. (unleased r)\<lparr>ej_status := JobCompleted, ej_completed_at := Some now,
      ej_updated_at := now\<rparr>) d))"
    by (rule moved_update [OF completes]) (auto simp: holds_def intro!: row_moves)
  then show ?case by (auto simp: complete_job_def Let_def case_prod_beta)
next
  case (fails d now later host l err retry_at)
  show ?case
  proof (cases "filter (holds now l) (jd_jobs d)")
    case Nil
    with fails show ?thesis by (simp add: fail_job_def moved_refl)
  next
    case (Cons row rest)
    then have "row \<in> set (filter (holds now l) (jd_jobs d))" by simp
    then have row: "row \<in> set (jd_jobs d)" "ej_id row = jl_job l" by (auto simp: holds_def)
    let ?f = "\<lambda>r. (unleased r)\<lparr>ej_status := if ej_attempt row < ej_max_attempts row then JobPending else JobFailed,
        ej_available_at := if ej_attempt row < ej_max_attempts row then or_default retry_at (retry_date host (ej_attempt row)) else host,
        ej_last_error := Some err, ej_completed_at := if ej_attempt row < ej_max_attempts row then None else Some host,
        ej_updated_at := host\<rparr>"
    have "moved Works d (snd (updating (holds later l) ?f d))"
    proof (rule moved_update [OF fails])
      fix r assume r: "r \<in> set (jd_jobs d)" "holds later l r"
      then have "r = row" using row find_row_unique [of ej_id "jd_jobs d"] fails
        by (metis holds_def jobs_ok_def option.inject)
      with r(2) show "job_moves Works r (?f r)" by (auto simp only: holds_def intro!: fail_moves)
    qed
    then show ?thesis using Cons by (auto simp: fail_job_def Let_def case_prod_beta)
  qed
next
  case (cancels d now jid)
  have "moved Works d (snd (updating (\<lambda>r. ej_id r = jid \<and> live_job (ej_status r)) (canceled_job now) d))"
    by (rule moved_update [OF cancels]) (auto intro!: row_moves)
  then show ?case by (auto simp: cancel_job_def Let_def case_prod_beta)
next
  case (cancels_key d now tenant key)
  have "moved Works d (snd (updating (\<lambda>r. ej_tenant_id r = tenant \<and> ej_dedupe_key r = Some key \<and> live_job (ej_status r))
      (canceled_job now) d))"
    by (rule moved_update [OF cancels_key]) (auto intro!: row_moves)
  then show ?case by (auto simp: cancel_by_dedupe_key_def Let_def case_prod_beta)
next
  case (cancels_prefix d now tenant start)
  have "moved Works d (snd (updating (\<lambda>r. ej_tenant_id r = tenant \<and>
      (case ej_dedupe_key r of None \<Rightarrow> False | Some k \<Rightarrow> like (escape_like start @ ''%'') k) \<and> live_job (ej_status r)) (canceled_job now) d))"
    by (rule moved_update [OF cancels_prefix]) (auto intro!: row_moves)
  then show ?case by (auto simp: cancel_by_dedupe_prefix_def Let_def case_prod_beta)
next
  case (wakes d now host tenant key available_at)
  then show ?case by (auto simp: make_available_def Let_def intro!: moved_update row_moves)
next
  case (wakes_run d now host run available_at)
  then show ?case by (auto simp: make_run_available_def Let_def case_prod_beta intro!: moved_update row_moves)
next
  case (wakes_jobs d now host ids available_at)
  then show ?case by (auto simp: make_jobs_available_def Let_def case_prod_beta moved_refl intro!: moved_update row_moves)
next
  case (sweeps d now limit locked)
  define expired where "expired = take (sweep_limit limit) (filter (\<lambda>r. ej_id r \<notin> locked)
            (sort_key (\<lambda>r. or_default (ej_lease_expires_at r) 0) (filter (lapsed now) (jd_jobs d))))"
  define retryable where "retryable = map ej_id (filter (\<lambda>r. ej_lease_expiries r + 1 < MAX_LEASE_EXPIRIES) expired)"
  define exhausted where "exhausted = map ej_id (filter (\<lambda>r. ej_lease_expiries r + 1 \<ge> MAX_LEASE_EXPIRIES) expired)"
  let ?d1 = "snd (updating (\<lambda>r. ej_id r \<in> set retryable \<and> lapsed now r) (requeued_job now) d)"
  let ?d2 = "delete_job_invocations retryable ?d1"
  let ?d3 = "snd (updating (\<lambda>r. ej_id r \<in> set exhausted \<and> lapsed now r) (exhausted_job now) ?d2)"
  have m1: "moved Works d ?d1"
  proof (rule moved_update [OF sweeps])
    fix r assume r: "r \<in> set (jd_jobs d)" "ej_id r \<in> set retryable \<and> lapsed now r"
    then obtain x where x: "x \<in> set expired" "ej_id x = ej_id r" "ej_lease_expiries x + 1 < MAX_LEASE_EXPIRIES"
      by (auto simp: retryable_def)
    then have "x \<in> set (jd_jobs d)" by (auto simp: expired_def dest!: in_set_takeD)
    with x(2) r(1) find_row_unique [of ej_id "jd_jobs d"] sweeps have "x = r" by (metis jobs_ok_def option.inject)
    with x(3) r(2) show "job_moves Works r (requeued_job now r)" by (auto intro!: row_moves)
  qed
  have "moved Works ?d2 ?d3"
    by (rule moved_update) (use m1 in \<open>auto simp: moved_def jobs_ok_def intro!: row_moves\<close>)
  then have "moved Works d ?d3" using moved_trans [OF m1] by simp
  with sweeps show ?case
    by (auto simp: requeue_expired_def Let_def case_prod_beta moved_refl expired_def retryable_def exhausted_def)
next
  case (claims_exhausted d now limit locked)
  then show ?case by (auto simp: claim_exhausted_def Let_def case_prod_beta intro!: moved_update row_moves)
next
  case (claims_exhaustion d now jid)
  then show ?case by (auto simp: claim_exhaustion_for_def Let_def case_prod_beta intro!: moved_update row_moves)
next
  case (confirms d jid)
  then show ?case by (auto simp: confirm_exhaustion_handled_def intro!: moved_update row_moves)
next
  case (gives_back_exhaustion d jid)
  then show ?case by (auto simp: release_exhaustion_claim_def intro!: moved_update row_moves)
qed

end
