(* ===== verification/Job_Safety.thy ===== *)
theory Job_Safety
  imports Job_Laws
begin

text \<open>
  What the queue promises its users: the table stays sound, a job is not run for ever, a replaced worker
  does no harm, lapsed leases are swept, an exhausted job is handled once, and prefixes mean prefixes.
\<close>

section \<open>What holds of every run\<close>

definition any_step :: "jobs_db \<Rightarrow> jobs_db \<Rightarrow> bool" where
  "any_step d d' \<longleftrightarrow> (\<exists>k. job_step k d d')"

lemma any_step_moved: "any_step d d' \<Longrightarrow> jobs_ok d \<Longrightarrow> moved Asks d d'"
  unfolding any_step_def moved_def job_moves_def using job_step_moved [unfolded moved_def job_moves_def] by fastforce

lemma any_steps_ok: "any_step\<^sup>*\<^sup>* d d' \<Longrightarrow> jobs_ok d \<Longrightarrow> jobs_ok d'"
  by (induction rule: rtranclp_induct) (auto simp: moved_def dest: any_step_moved)

text \<open>Property C33: whatever operations run in whatever order, the job table keeps what its constraints ask
  (one row per id and per deduplication key; the lease columns exactly while running; a completion
  time exactly when terminal; no negative count) and what the service relies on: a job never counts
  more attempts than its maximum nor more lapses than twenty, one that waits has tries of both left.\<close>

theorem job_rows_sound:
  assumes "any_step\<^sup>*\<^sup>* d d'" and "jobs_ok d"
  shows "unique_keys ej_id (jd_jobs d') \<and> distinct (key_of_row (jd_jobs d')) \<and> (\<forall>r \<in> set (jd_jobs d'). job_row_ok r)"
  using any_steps_ok [OF assms] by (simp add: jobs_ok_def)

lemma works_moved:
  assumes "(job_step Works)\<^sup>*\<^sup>* d d'" and "jobs_ok d"
  shows "moved Works d d'"
  using assms
proof (induction rule: rtranclp_induct)
  case (step y z)
  then have m: "moved Works d y" by simp
  then have "jobs_ok y" by (simp add: moved_def)
  with step(2) have "moved Works y z" by (rule job_step_moved)
  with m show ?case by (rule moved_trans)
qed (simp add: moved_refl)

text \<open>Property C34: a job is not run for ever. While nobody asks for it again or puts it back, it is leased at
  most as often as it has attempts and lapses left, so at most its maximum of attempts and twenty
  times more, whoever claims, fails, loses its lease or is swept.\<close>

theorem job_runs_bounded:
  assumes "(job_step Works)\<^sup>*\<^sup>* d d'" and "jobs_ok d" and "job_of d jid = Some r"
  shows "\<exists>r'. job_of d' jid = Some r' \<and> int (ej_lease_generation r') \<le> int (ej_lease_generation r) + tries r \<and>
    int (ej_lease_generation r') \<le> int (ej_lease_generation r) + ej_max_attempts r + 20"
proof -
  have ok: "job_row_ok r" using assms(2) job_of_mem [OF assms(3)] by (simp add: jobs_ok_def)
  from works_moved [OF assms(1,2)] assms(3) obtain r' where r': "job_of d' jid = Some r'" "job_moves Works r r'"
    unfolding moved_def by blast
  with ok have "int (ej_lease_generation r') + tries r' \<le> int (ej_lease_generation r) + tries r" "job_row_ok r'"
    by (auto simp: job_moves_def)
  moreover have "0 \<le> tries r'" "tries r \<le> ej_max_attempts r + 20"
    using \<open>job_row_ok r'\<close> ok by (auto simp: job_row_ok_def tries_def MAX_LEASE_EXPIRIES_def)
  ultimately show ?thesis using r'(1) by auto
qed

section \<open>Fencing\<close>

text \<open>
  What a worker may rely on of a lease whose number only grows: whatever is done under an older
  number, at any later time, is refused and does nothing.
\<close>

locale numbered_leases =
  fixes number :: "'s \<Rightarrow> 'k \<Rightarrow> nat"
    and step :: "'s \<Rightarrow> 's \<Rightarrow> bool"
    and act :: "'a \<Rightarrow> 'k \<Rightarrow> nat \<Rightarrow> 's \<Rightarrow> bool \<times> 's"
    and ok :: "'s \<Rightarrow> bool"
  assumes step_ok: "step s s' \<Longrightarrow> ok s \<Longrightarrow> ok s'"
    and step_number: "step s s' \<Longrightarrow> ok s \<Longrightarrow> number s k \<le> number s' k"
    and act_stale: "ok s \<Longrightarrow> n < number s k \<Longrightarrow> act a k n s = (False, s)"
begin

lemma number_grows: "step\<^sup>*\<^sup>* s s' \<Longrightarrow> ok s \<Longrightarrow> number s k \<le> number s' k \<and> ok s'"
proof (induction rule: rtranclp_induct)
  case (step y z)
  then show ?case using step_ok [of y z] step_number [of y z k] by fastforce
qed simp

lemma stale_for_ever: "step\<^sup>*\<^sup>* s s' \<Longrightarrow> ok s \<Longrightarrow> n < number s k \<Longrightarrow> act a k n s' = (False, s')"
  using number_grows [of s s' k] act_stale by (metis less_le_trans)

end

definition job_generation :: "jobs_db \<Rightarrow> ident \<Rightarrow> nat" where
  "job_generation d jid = (case job_of d jid of None \<Rightarrow> 0 | Some r \<Rightarrow> ej_lease_generation r)"

text \<open>What a worker does with its lease, and whether the service took it.\<close>

datatype lease_act =
    Beats instant "(ident \<times> ident) option" "int option"
  | Completes instant
  | Fails instant instant instant string "instant option"
  | Releases instant instant instant "ident option" "ident option"

fun by_lease :: "lease_act \<Rightarrow> job_lease \<Rightarrow> jobs_db \<Rightarrow> bool \<times> jobs_db" where
  "by_lease (Beats now node secs) l d = heartbeat now node l secs d"
| "by_lease (Completes now) l d = complete_job now l d"
| "by_lease (Fails now later host err retry_at) l d =
     (let (status, d') = fail_job now later host l err retry_at d in (status \<noteq> None, d'))"
| "by_lease (Releases now host available_at run requirement) l d = release_job now host l available_at run requirement d"

lemma updating_none:
  assumes "\<And>r. r \<in> set (jd_jobs d) \<Longrightarrow> \<not> p r"
  shows "updating p f d = ([], d)"
  using assms by (simp add: updating_def filter_empty_conv)

lemma by_lease_refused:
  assumes "\<And>r now. r \<in> set (jd_jobs d) \<Longrightarrow> \<not> holds now l r"
  shows "by_lease a l d = (False, d)"
proof (cases a)
  case (Fails now later host err retry_at)
  have "filter (holds now l) (jd_jobs d) = []" using assms by (simp add: filter_empty_conv)
  then show ?thesis by (simp add: Fails fail_job_def)
qed (simp_all add: heartbeat_def complete_job_def release_job_def updating_none assms Let_def)

lemma stale_holds_nothing:
  assumes "jobs_ok d" and "jl_generation l < job_generation d (jl_job l)" and "r \<in> set (jd_jobs d)"
  shows "\<not> holds now l r"
proof
  assume h: "holds now l r"
  have "job_of d (ej_id r) = Some r" unfolding job_of_def
    by (rule find_row_unique) (use assms(1,3) in \<open>simp_all add: jobs_ok_def\<close>)
  with h assms(2) show False by (simp add: holds_def job_generation_def)
qed

interpretation job_leases: numbered_leases job_generation any_step
  "\<lambda>(a, worker, tok) jid gen. by_lease a \<lparr>jl_job = jid, jl_worker = worker, jl_token = tok, jl_generation = gen\<rparr>" jobs_ok
proof
  fix s s' :: jobs_db and k assume st: "any_step s s'" "jobs_ok s"
  note m = any_step_moved [OF st]
  show "jobs_ok s'" using m by (simp add: moved_def)
  show "job_generation s k \<le> job_generation s' k"
  proof (cases "job_of s k")
    case (Some r)
    with st(2) have "job_row_ok r" by (auto simp: jobs_ok_def dest!: job_of_mem)
    moreover obtain r' where "job_of s' k = Some r'" "job_moves Asks r r'" using m Some unfolding moved_def by blast
    ultimately show ?thesis using Some by (auto simp: job_generation_def job_moves_def)
  qed (simp add: job_generation_def)
next
  fix s :: jobs_db and n k and a :: "lease_act \<times> ident \<times> ident"
  assume "jobs_ok s" "n < job_generation s k"
  then have "\<not> holds now \<lparr>jl_job = k, jl_worker = w, jl_token = t, jl_generation = n\<rparr> r" if "r \<in> set (jd_jobs s)" for now w t r
    using stale_holds_nothing [of s "\<lparr>jl_job = k, jl_worker = w, jl_token = t, jl_generation = n\<rparr>" r now] that by simp
  then have "by_lease b \<lparr>jl_job = k, jl_worker = w, jl_token = t, jl_generation = n\<rparr> s = (False, s)" for b w t
    by (rule by_lease_refused)
  then show "(case a of (a, worker, tok) \<Rightarrow> \<lambda>jid gen. by_lease a \<lparr>jl_job = jid, jl_worker = worker, jl_token = tok,
      jl_generation = gen\<rparr>) k n s = (False, s)" by (simp split: prod.splits)
qed

text \<open>What a claim hands out is a lease with a number of its own.\<close>

lemma claimed_generation:
  assumes "x \<in> set (fst (claim_jobs now host worker tok node kinds limit secs numbering locked d))" and "jobs_ok d"
  shows "job_generation (snd (claim_jobs now host worker tok node kinds limit secs numbering locked d)) (xj_id x) =
    job_generation d (xj_id x) + 1" "xj_lease_generation x = job_generation d (xj_id x) + 1"
proof -
  let ?ids = "select_claimable_jobs now node kinds (claim_limit limit) numbering locked d"
  let ?p = "\<lambda>r. ej_id r \<in> set ?ids \<and> ej_status r = JobPending"
  let ?f = "leased_job now host worker tok (or_default secs 60)"
  from assms(1) have run: "claim_jobs now host worker tok node kinds limit secs numbering locked d =
      (map map_execution_job (fst (updating ?p ?f d)), snd (updating ?p ?f d))"
    by (auto simp: claim_jobs_def Let_def case_prod_beta split: if_splits)
  with assms(1) obtain r where r: "r \<in> set (jd_jobs d)" "?p r" "x = map_execution_job (?f r)" by (auto simp: updating_def)
  have f: "ej_id (?f r) = ej_id r" "ej_lease_generation (?f r) = ej_lease_generation r + 1" for r by (simp_all add: leased_job_def)
  from r(3) have x: "xj_id x = ej_id r" "xj_lease_generation x = ej_lease_generation r + 1"
    by (simp_all add: map_execution_job_def f)
  have "job_of d (ej_id r) = Some r" unfolding job_of_def
    by (rule find_row_unique) (use assms(2) r(1) in \<open>simp_all add: jobs_ok_def\<close>)
  moreover from this have "job_of (snd (updating ?p ?f d)) (ej_id r) = Some (?f r)"
    using job_of_update [of ?f _ ?p d "ej_id r", OF f(1) updating_jobs] r(2) by simp
  ultimately show "job_generation (snd (claim_jobs now host worker tok node kinds limit secs numbering locked d)) (xj_id x) =
    job_generation d (xj_id x) + 1" "xj_lease_generation x = job_generation d (xj_id x) + 1"
    using run x f(2) by (simp_all add: job_generation_def)
qed

text \<open>Property C35: a worker whose job was claimed by another can do no harm. After a claim hands out a job, every
  earlier lease of it (any of an older number, whatever worker and token) is refused for ever: its
  heartbeats, completions, failures and releases change nothing, whatever operations ran in between.\<close>

theorem replaced_worker_fenced:
  assumes "claim_jobs now host worker tok node kinds limit secs numbering locked d = (jobs, d')" and "jobs_ok d"
    and "x \<in> set jobs" and "jl_job l = xj_id x" and "jl_generation l < xj_lease_generation x" and "any_step\<^sup>*\<^sup>* d' d''"
  shows "by_lease a l d'' = (False, d'')"
proof -
  have "any_step d d'" unfolding any_step_def
    using claims [of d now host worker tok node kinds limit secs numbering locked] assms(1) by auto
  then have ok: "jobs_ok d'" using any_step_moved [OF _ assms(2)] by (simp add: moved_def)
  have "jl_generation l < job_generation d' (jl_job l)"
    using claimed_generation [of x now host worker tok node kinds limit secs numbering locked d] assms(1-5) by simp
  from job_leases.stale_for_ever [OF assms(6) ok this, of "(a, jl_worker l, jl_token l)"] show ?thesis
    by (cases l) simp
qed


lemma same_job: "jobs_ok d \<Longrightarrow> x \<in> set (jd_jobs d) \<Longrightarrow> y \<in> set (jd_jobs d) \<Longrightarrow> ej_id x = ej_id y \<Longrightarrow> x = y"
  unfolding jobs_ok_def by (metis find_row_unique option.inject)

lemma named_job: "jobs_ok d \<Longrightarrow> set rows \<subseteq> set (jd_jobs d) \<Longrightarrow> r \<in> set (jd_jobs d) \<Longrightarrow>
    ej_id r \<in> set (map ej_id (filter Q rows)) \<longleftrightarrow> r \<in> set rows \<and> Q r"
  unfolding set_map set_filter using same_job by (blast intro: imageI)

section \<open>Sweeping lapsed leases\<close>

lemma length_take_all: "length xs \<le> n \<Longrightarrow> take n xs = xs"
  by simp

text \<open>No job is left behind by a worker that died. A sweep that sees every lapsed lease (nothing is locked,
  and there are no more than it takes) leaves none lapsed: each of those jobs waits, due at once, with the
  lapse counted and its attempt refunded, or, at its twentieth lapse, has failed for the terminal handler.\<close>

theorem sweep_leaves_none_lapsed:
  assumes "requeue_expired now limit {} d = (n, d')" and "jobs_ok d"
    and "length (filter (lapsed now) (jd_jobs d)) \<le> sweep_limit limit"
  shows "(\<forall>r \<in> set (jd_jobs d'). \<not> lapsed now r) \<and>
    (\<forall>jid r. job_of d jid = Some r \<and> lapsed now r \<longrightarrow> (\<exists>r'. job_of d' jid = Some r' \<and>
       ej_lease_expiries r' = ej_lease_expiries r + 1 \<and>
       (if ej_lease_expiries r + 1 < MAX_LEASE_EXPIRIES
        then ej_status r' = JobPending \<and> ej_available_at r' = now \<and> ej_attempt r' = ej_attempt r - 1
        else ej_status r' = JobFailed \<and> ej_completed_at r' = Some now)))"
proof -
  define expired where "expired = sort_key (\<lambda>r. or_default (ej_lease_expires_at r) 0) (filter (lapsed now) (jd_jobs d))"
  define retryable where "retryable = map ej_id (filter (\<lambda>r. ej_lease_expiries r + 1 < MAX_LEASE_EXPIRIES) expired)"
  define exhausted where "exhausted = map ej_id (filter (\<lambda>r. ej_lease_expiries r + 1 \<ge> MAX_LEASE_EXPIRIES) expired)"
  let ?p1 = "\<lambda>r. ej_id r \<in> set retryable \<and> lapsed now r" and ?p2 = "\<lambda>r. ej_id r \<in> set exhausted \<and> lapsed now r"
  have all: "take (sweep_limit limit) (filter (\<lambda>r. ej_id r \<notin> {}) expired) = expired"
    using assms(3) by (simp add: expired_def)
  have jobs: "jd_jobs d' = update_where ?p2 (exhausted_job now) (update_where ?p1 (requeued_job now) (jd_jobs d))"
  proof (cases "expired = []")
    case True
    with assms(1) all have "d' = d" by (auto simp: requeue_expired_def Let_def case_prod_beta expired_def)
    with True show ?thesis by (simp add: retryable_def exhausted_def)
  next
    case False
    with assms(1) all show ?thesis
      unfolding requeue_expired_def Let_def case_prod_beta expired_def [symmetric] all retryable_def [symmetric] exhausted_def [symmetric]
      by (auto simp: updating_def)
  qed
  have f: "ej_id (requeued_job now r) = ej_id r" "ej_id (exhausted_job now r) = ej_id r" "\<not> lapsed now (requeued_job now r)"
    "\<not> lapsed now (exhausted_job now r)" for r
    by (simp_all add: requeued_job_def exhausted_job_def unleased_def lapsed_def)
  have in_expired: "x \<in> set expired \<longleftrightarrow> x \<in> set (jd_jobs d) \<and> lapsed now x" for x by (auto simp: expired_def)
  have sub: "set expired \<subseteq> set (jd_jobs d)" using in_expired by blast
  have retry: "ej_id r \<in> set retryable \<longleftrightarrow> ej_lease_expiries r + 1 < MAX_LEASE_EXPIRIES"
    "ej_id r \<in> set exhausted \<longleftrightarrow> \<not> ej_lease_expiries r + 1 < MAX_LEASE_EXPIRIES" if "r \<in> set (jd_jobs d)" "lapsed now r" for r
    unfolding retryable_def exhausted_def named_job [OF assms(2) sub that(1)] using that in_expired by auto
  let ?g = "\<lambda>r. if ?p1 r then requeued_job now r else if ?p2 r then exhausted_job now r else r"
  have eq: "jd_jobs d' = map ?g (jd_jobs d)"
    unfolding jobs update_where_def map_map by (rule map_cong) (auto simp: f)
  have "\<not> lapsed now (?g r)" if "r \<in> set (jd_jobs d)" for r
    using retry [OF that] f(3,4) by (cases "lapsed now r") (simp_all del: set_map)
  then have "\<forall>r \<in> set (jd_jobs d'). \<not> lapsed now r" unfolding eq set_map by blast
  moreover have "\<exists>r'. job_of d' jid = Some r' \<and> ej_lease_expiries r' = ej_lease_expiries r + 1 \<and>
       (if ej_lease_expiries r + 1 < MAX_LEASE_EXPIRIES
        then ej_status r' = JobPending \<and> ej_available_at r' = now \<and> ej_attempt r' = ej_attempt r - 1
        else ej_status r' = JobFailed \<and> ej_completed_at r' = Some now)"
    if r: "job_of d jid = Some r" "lapsed now r" for jid r
  proof -
    note mem = job_of_mem [OF r(1)]
    from mem assms(2) r(2) have att: "1 \<le> ej_attempt r" by (auto simp: jobs_ok_def job_row_ok_def lapsed_def)
    have "job_of d' jid = Some (?g r)"
      using job_of_update [of ?g d' "\<lambda>_. True" d jid] eq r(1) f by (simp add: update_where_def)
    with retry [OF conjunct1 [OF mem] r(2)] r(2) att show ?thesis
      by (auto simp: requeued_job_def exhausted_job_def unleased_def)
  qed
  ultimately show ?thesis by blast
qed

section \<open>The terminal handler\<close>

text \<open>A claim of exhausted jobs, in either form: the jobs it takes and the table after it.\<close>

datatype exhaustion_claim = Sweep "int option" "ident set" | Inline ident

fun claims_exhaustion_of :: "exhaustion_claim \<Rightarrow> instant \<Rightarrow> jobs_db \<Rightarrow> ident list \<times> jobs_db" where
  "claims_exhaustion_of (Sweep limit locked) now d = (let (jobs, d') = claim_exhausted now limit locked d in (map xj_id jobs, d'))"
| "claims_exhaustion_of (Inline jid) now d = (let (won, d') = claim_exhaustion_for now jid d in (if won then [jid] else [], d'))"

lemma one_named: "distinct (map f xs) \<Longrightarrow> \<forall>y \<in> set xs. f y = k \<Longrightarrow> map f xs = (if length xs = 1 then [k] else [])"
  by (cases xs; cases "tl xs") auto

lemma exhaustion_update:
  assumes "jobs_ok d"
  shows "\<exists>p. claims_exhaustion_of c now d =
      (map ej_id (filter p (jd_jobs d)), snd (updating p (\<lambda>r. r\<lparr>ej_exhaustion_handled_at := Some now\<rparr>) d)) \<and>
    (\<forall>r \<in> set (jd_jobs d). p r \<longrightarrow> exhaustion_claimable now r)"
proof (cases c)
  case (Sweep limit locked)
  define taken where "taken = take (sweep_limit limit) (filter (\<lambda>r. ej_id r \<notin> locked)
            (sort_key (\<lambda>r. or_default (ej_completed_at r) 0) (filter (exhaustion_claimable now) (jd_jobs d))))"
  have taken: "x \<in> set (jd_jobs d) \<and> exhaustion_claimable now x" if "x \<in> set taken" for x
    using that by (auto simp: taken_def dest!: in_set_takeD)
  have "exhaustion_claimable now r" if r: "r \<in> set (jd_jobs d)" "ej_id r \<in> set (map ej_id taken)" for r
  proof -
    from r(2) obtain x where "x \<in> set taken" "ej_id x = ej_id r" by auto
    with taken same_job [OF assms _ r(1)] show ?thesis by metis
  qed
  moreover have "claims_exhaustion_of c now d =
      (map ej_id (filter (\<lambda>r. ej_id r \<in> set (map ej_id taken)) (jd_jobs d)),
       snd (updating (\<lambda>r. ej_id r \<in> set (map ej_id taken)) (\<lambda>r. r\<lparr>ej_exhaustion_handled_at := Some now\<rparr>) d))"
    unfolding Sweep claims_exhaustion_of.simps claim_exhausted_def taken_def [symmetric] Let_def case_prod_beta
    by (simp add: updating_def map_execution_job_def)
  ultimately show ?thesis by blast
next
  case (Inline jid)
  let ?p = "\<lambda>r. ej_id r = jid \<and> exhaustion_claimable now r"
  have d: "distinct (map ej_id (filter ?p (jd_jobs d)))"
    using assms by (auto simp: jobs_ok_def unique_keys_def distinct_map intro: inj_on_subset)
  have "\<forall>y \<in> set (filter ?p (jd_jobs d)). ej_id y = jid" by simp
  from one_named [OF d this] have "map ej_id (filter ?p (jd_jobs d)) = (if length (filter ?p (jd_jobs d)) = 1 then [jid] else [])" .
  then show ?thesis unfolding Inline
    by (intro exI [of _ ?p]) (simp add: claim_exhaustion_for_def Let_def case_prod_beta updating_def)
qed

lemma confirm_marks: "x \<in> set (jd_jobs (confirm_exhaustion_handled jid d)) \<Longrightarrow> ej_id x = jid \<Longrightarrow> ej_exhaustion_handled x"
proof -
  assume "x \<in> set (jd_jobs (confirm_exhaustion_handled jid d))" and id: "ej_id x = jid"
  then obtain y where "x = (if ej_id y = jid then y\<lparr>ej_exhaustion_handled := True\<rparr> else y)"
    unfolding confirm_exhaustion_handled_def updating_jobs update_where_def set_map by blast
  with id show "ej_exhaustion_handled x" by (cases "ej_id y = jid") auto
qed

text \<open>The terminal handler of an exhausted job runs once. Two claims, by sweeps or inline, of the same
  job never both succeed within ten minutes of the first; a job that was confirmed is never claimed.\<close>

theorem exhaustion_claim_exclusive:
  assumes "claims_exhaustion_of c1 now d = (ids, d')" and "jobs_ok d" and "jid \<in> set ids"
    and "later \<le> now + EXHAUSTION_CLAIM_MS"
  shows "jid \<notin> set (fst (claims_exhaustion_of c2 later d')) \<and>
    jid \<notin> set (fst (claims_exhaustion_of c2 much_later (confirm_exhaustion_handled jid d')))"
proof -
  let ?f = "\<lambda>r. r\<lparr>ej_exhaustion_handled_at := Some now\<rparr>"
  obtain p where p: "ids = map ej_id (filter p (jd_jobs d))" "d' = snd (updating p ?f d)"
    using exhaustion_update [OF assms(2), of c1 now] assms(1) by auto
  have ok: "jobs_ok d'" unfolding p(2) using moved_update [OF assms(2) row_moves(8)] by (simp add: moved_def)
  have ok': "jobs_ok (confirm_exhaustion_handled jid d')" unfolding confirm_exhaustion_handled_def
    using moved_update [OF ok row_moves(9)] by (simp add: moved_def)
  from assms(3) p(1) obtain r where r: "r \<in> set (jd_jobs d)" "p r" "ej_id r = jid" by auto
  have "job_of d jid = Some r" unfolding job_of_def r(3) [symmetric]
    by (rule find_row_unique) (use assms(2) r(1) in \<open>simp_all add: jobs_ok_def\<close>)
  then have "job_of d' jid = Some (?f r)" unfolding p(2)
    using job_of_update [of ?f _ p d jid, OF _ updating_jobs] r(2) by simp
  then have row: "x = ?f r" if "x \<in> set (jd_jobs d')" "ej_id x = jid" for x
    using that find_row_unique [of ej_id "jd_jobs d'" x] ok by (simp add: job_of_def jobs_ok_def)
  have "jid \<notin> set (fst (claims_exhaustion_of c2 later d'))"
  proof
    assume "jid \<in> set (fst (claims_exhaustion_of c2 later d'))"
    with exhaustion_update [OF ok, of c2 later] obtain x where "x \<in> set (jd_jobs d')" "ej_id x = jid" "exhaustion_claimable later x"
      by auto
    with row [of x] assms(4) show False by (auto simp: exhaustion_claimable_def)
  qed
  moreover have "jid \<notin> set (fst (claims_exhaustion_of c2 much_later (confirm_exhaustion_handled jid d')))"
  proof
    assume "jid \<in> set (fst (claims_exhaustion_of c2 much_later (confirm_exhaustion_handled jid d')))"
    with exhaustion_update [OF ok', of c2 much_later] obtain x where
      "x \<in> set (jd_jobs (confirm_exhaustion_handled jid d'))" "ej_id x = jid" "exhaustion_claimable much_later x" by auto
    with confirm_marks show False by (auto simp: exhaustion_claimable_def)
  qed
  ultimately show ?thesis ..
qed

section \<open>Prefixes\<close>

lemma like_any: "like [CHR ''%''] s"
  by (induction s) (simp_all add: like.simps(2))

lemma escape_like_simps: "escape_like [] = []"
  "escape_like (c # cs) = (if c = BACKSLASH \<or> c = CHR ''%'' \<or> c = CHR ''_'' then BACKSLASH # c # escape_like cs else c # escape_like cs)"
  by (auto simp: escape_like_def replace_char_def BACKSLASH_def)

lemma like_escaped: "like (BACKSLASH # c # cs) s = (case s of [] \<Rightarrow> False | x # s' \<Rightarrow> x = c \<and> like cs s')"
  by (subst like.simps(2)) (simp add: BACKSLASH_def)

lemma like_plain:
  assumes "\<not> (c = BACKSLASH \<or> c = CHR ''%'' \<or> c = CHR ''_'')"
  shows "like (c # cs) s = (case s of [] \<Rightarrow> False | x # s' \<Rightarrow> x = c \<and> like cs s')"
  using assms by (subst like.simps(2)) simp

text \<open>Canceling by a prefix cancels exactly the jobs whose key starts with it, whatever characters the
  prefix holds: the pattern \<open>cancelByDedupePrefix\<close> builds matches a key as a prefix does.\<close>

theorem escaped_prefix_matches: "like (escape_like start @ ''%'') key \<longleftrightarrow> take (length start) key = start"
proof (induction start arbitrary: key)
  case (Cons c cs)
  show ?case
  proof (cases "c = BACKSLASH \<or> c = CHR ''%'' \<or> c = CHR ''_''")
    case True
    then have "escape_like (c # cs) = BACKSLASH # c # escape_like cs" by (simp add: escape_like_simps)
    with Cons.IH show ?thesis by (cases key) (auto simp: like_escaped)
  next
    case False
    then have "escape_like (c # cs) = c # escape_like cs" by (simp add: escape_like_simps)
    with Cons.IH show ?thesis by (cases key) (auto simp: like_plain [OF False])
  qed
qed (simp add: escape_like_simps like_any)

section \<open>Batches and sequences\<close>

definition ex_job :: "string \<Rightarrow> job_request" where
  "ex_job payload = \<lparr>jq_tenant_id = ''t'', jq_kind = BatchItem, jq_payload = JStr payload, jq_priority = None,
     jq_available_at = None, jq_max_attempts = Some 1, jq_dedupe_key = Some ''k'', jq_workflow_run_id = ''r'',
     jq_workflow_step_attempt_id = None\<rparr>"

definition ex_jobs_db :: jobs_db where
  "ex_jobs_db = \<lparr>jd_jobs = [], jd_invocations = [], jd_runs = [\<lparr>wr_id = ''r'', wr_allocation_id = None, wr_status = ''running''\<rparr>],
     jd_requirements = [], jd_allocations = [], jd_nodes = [], jd_policies = []\<rparr>"

text \<open>A batch of jobs with one key is not what the same enqueues in turn leave behind: of two jobs with one
  deduplication key, the batch keeps the last one's payload, while enqueueing them in turn keeps the
  first one's, whose live row absorbs the second.\<close>

theorem batch_differs_from_sequence:
  "(\<exists>d'. enqueue_many 5 5 (\<lambda>i. replicate i CHR ''x'') [ex_job ''first'', ex_job ''last''] ex_jobs_db = Inr d' \<and>
     map ej_payload (jd_jobs d') = [JStr ''last'']) \<and>
   (\<exists>x1 d1 x2 d2. enqueue 5 5 ''1'' (ex_job ''first'') ex_jobs_db = Inr (x1, d1) \<and> enqueue 5 5 ''2'' (ex_job ''last'') d1 = Inr (x2, d2) \<and>
     map ej_payload (jd_jobs d2) = [JStr ''first''])"
  by (simp add: enqueue_many_def enqueue_def ex_job_def ex_jobs_db_def Let_def batch_key_def new_job_def key_of_row_def insert_job_def
      same_key_def revive_terminal_job_def terminal_job_def or_default_def)

text \<open>One job, as it waits, runs and has failed for good.\<close>

definition ex_waiting :: job_row where "ex_waiting = new_job ''1'' 5 (ex_job ''p'')"
definition ex_leased_job :: job_row where "ex_leased_job = leased_job 6 6 ''w'' ''tok'' 60 ex_waiting"
definition ex_failed :: job_row where
  "ex_failed = (unleased ex_leased_job)\<lparr>ej_status := JobFailed, ej_available_at := 7, ej_last_error := Some ''boom'',
     ej_completed_at := Some 7, ej_updated_at := 7\<rparr>"
definition ex_one :: "job_row \<Rightarrow> jobs_db" where "ex_one r = ex_jobs_db\<lparr>jd_jobs := [r]\<rparr>"

lemma ex_waiting_facts: "ej_id ex_waiting = ''1''" "ej_workflow_run_id ex_waiting = ''r''" "ej_status ex_waiting = JobPending"
  "ej_available_at ex_waiting = 5" "ej_attempt ex_waiting = 0" "ej_max_attempts ex_waiting = 1" "ej_lease_generation ex_waiting = 0"
  "ej_tenant_id ex_waiting = ''t''" "\<not> ej_exhaustion_handled ex_waiting" "ej_exhaustion_handled_at ex_waiting = None"
  "ej_lease_expiries ex_waiting = 0" "ej_kind ex_waiting = BatchItem" "ej_dedupe_key ex_waiting = Some ''k''"
  "ej_leased_by ex_waiting = None" "ej_lease_token ex_waiting = None" "ej_heartbeat_at ex_waiting = None"
  "ej_lease_expires_at ex_waiting = None" "ej_completed_at ex_waiting = None"
  by (simp_all add: ex_waiting_def new_job_def ex_job_def or_default_def)

definition ex_lease :: "nat \<Rightarrow> job_lease" where
  "ex_lease n = \<lparr>jl_job = ''1'', jl_worker = ''w'', jl_token = ''tok'', jl_generation = n\<rparr>"

lemma updating_one: "updating p f (d\<lparr>jd_jobs := [r]\<rparr>) = (if p r then ([f r], d\<lparr>jd_jobs := [f r]\<rparr>) else ([], d\<lparr>jd_jobs := [r]\<rparr>))"
  by (simp add: updating_def)

lemmas job_eval = worker_placement_def leased_job_def holds_def after_now_def unleased_def or_default_def exhaustion_claimable_def

text \<open>A receipt that comes late strands a job. A job fails, its terminal handler is claimed, and the job
  is redriven while the handler runs; the handler's receipt then marks the redriven job, so when it
  fails again no claim takes it, at any time: its run is never failed.\<close>

theorem late_receipt_strands_job:
  "\<exists>x d1 c1 d2 d3 d4 d5 c2 d6 d7. enqueue 5 5 ''1'' (ex_job ''p'') ex_jobs_db = Inr (x, d1) \<and>
     claim_by_id 6 6 ''w'' ''tok'' None ''1'' None d1 = (Some c1, d2) \<and>
     fail_job 7 7 7 (ex_lease 1) ''boom'' None d2 = (Some JobFailed, d3) \<and>
     claim_exhaustion_for 8 ''1'' d3 = (True, d4) \<and>
     redrive 9 9 ''t'' ''1'' None d4 = (True, d5) \<and>
     claim_by_id 11 11 ''w'' ''tok'' None ''1'' None (confirm_exhaustion_handled ''1'' d5) = (Some c2, d6) \<and>
     fail_job 12 12 12 (ex_lease 2) ''boom'' None d6 = (Some JobFailed, d7) \<and>
     (\<forall>now limit locked. fst (claim_exhausted now limit locked d7) = [] \<and> \<not> fst (claim_exhaustion_for now ''1'' d7))"
proof -
  let ?db = "\<lambda>r. ex_jobs_db\<lparr>jd_jobs := [r]\<rparr>"
  define r1 r2 r3 where rs: "r1 = ex_waiting" "r2 = ex_leased_job" "r3 = ex_failed"
  note r2_def = rs(2) [unfolded ex_leased_job_def, folded rs(1)] and r3_def = rs(3) [unfolded ex_failed_def, folded rs(2)]
  define r4 where "r4 = r3\<lparr>ej_exhaustion_handled_at := Some 8\<rparr>"
  define r5 where "r5 = (unleased r4)\<lparr>ej_status := JobPending, ej_attempt := 0, ej_lease_expiries := 0, ej_available_at := 9,
    ej_last_error := None, ej_completed_at := None, ej_exhaustion_handled_at := None, ej_exhaustion_handled := False, ej_updated_at := 9\<rparr>"
  define r6 where "r6 = leased_job 11 11 ''w'' ''tok'' 60 (r5\<lparr>ej_exhaustion_handled := True\<rparr>)"
  define r7 where "r7 = (unleased r6)\<lparr>ej_status := JobFailed, ej_available_at := 12, ej_last_error := Some ''boom'',
    ej_completed_at := Some 12, ej_updated_at := 12\<rparr>"
  have runs: "jd_runs ex_jobs_db = [\<lparr>wr_id = ''r'', wr_allocation_id = None, wr_status = ''running''\<rparr>]" "jd_jobs ex_jobs_db = []"
    "jd_invocations ex_jobs_db = []" by (simp_all add: ex_jobs_db_def)
  have f1: "ej_id r1 = ''1''" "ej_workflow_run_id r1 = ''r''" "ej_status r1 = JobPending" "ej_available_at r1 = 5" "ej_attempt r1 = 0"
    "ej_max_attempts r1 = 1" "ej_lease_generation r1 = 0" "ej_tenant_id r1 = ''t''" "\<not> ej_exhaustion_handled r1"
    "ej_exhaustion_handled_at r1 = None"
    by (simp_all add: rs ex_waiting_facts)
  have "enqueue 5 5 ''1'' (ex_job ''p'') ex_jobs_db = Inr (Some (map_execution_job r1), ?db r1)"
    by (simp add: enqueue_def insert_job_def runs rs ex_waiting_def [symmetric] ex_waiting_facts Let_def)
  moreover have "claim_by_id 6 6 ''w'' ''tok'' None ''1'' None (?db r1) = (Some (map_execution_job r2), ?db r2)"
    by (simp add: claim_by_id_def updating_one runs f1 r2_def worker_placement_def or_default_def)
  moreover have "fail_job 7 7 7 (ex_lease 1) ''boom'' None (?db r2) = (Some JobFailed, ?db r3)"
    by (simp add: fail_job_def updating_one r2_def r3_def f1 job_eval ex_lease_def drop_lease_def delete_lease_invocations_def
        delete_invocations_def runs)
  moreover have "claim_exhaustion_for 8 ''1'' (?db r3) = (True, ?db r4)"
    by (simp add: claim_exhaustion_for_def updating_one r4_def r3_def r2_def f1 job_eval)
  moreover have "redrive 9 9 ''t'' ''1'' None (?db r4) = (True, ?db r5)"
    by (simp add: redrive_def updating_one r5_def r4_def r3_def r2_def f1 job_eval)
  moreover have "confirm_exhaustion_handled ''1'' (?db r5) = ?db (r5\<lparr>ej_exhaustion_handled := True\<rparr>)"
    by (simp add: confirm_exhaustion_handled_def updating_one r5_def r4_def r3_def r2_def f1 job_eval)
  moreover have "claim_by_id 11 11 ''w'' ''tok'' None ''1'' None (?db (r5\<lparr>ej_exhaustion_handled := True\<rparr>)) =
      (Some (map_execution_job r6), ?db r6)"
    by (simp add: claim_by_id_def updating_one runs f1 r6_def r5_def r4_def r3_def r2_def worker_placement_def or_default_def unleased_def
        leased_job_def)
  moreover have "fail_job 12 12 12 (ex_lease 2) ''boom'' None (?db r6) = (Some JobFailed, ?db r7)"
    by (simp add: fail_job_def updating_one r7_def r6_def r5_def r4_def r3_def r2_def f1 job_eval ex_lease_def drop_lease_def
        delete_lease_invocations_def delete_invocations_def runs)
  moreover have "ej_exhaustion_handled r7" by (simp add: r7_def r6_def leased_job_def unleased_def)
  then have "fst (claim_exhausted now limit locked (?db r7)) = []" "\<not> fst (claim_exhaustion_for now ''1'' (?db r7))" for now limit locked
    by (simp_all add: claim_exhausted_def claim_exhaustion_for_def exhaustion_claimable_def updating_one)
  ultimately show ?thesis by metis
qed


section \<open>Witnesses\<close>

lemmas ex_rows = ex_waiting_facts ex_leased_job_def ex_failed_def leased_job_def unleased_def

lemma ex_one_ok: "jobs_ok (ex_one ex_waiting)" "jobs_ok (ex_one ex_leased_job)" "jobs_ok (ex_one ex_failed)"
  by (simp_all add: jobs_ok_def unique_keys_def key_of_row_def job_row_ok_def ex_rows ex_one_def terminal_job_def MAX_LEASE_EXPIRIES_def)

lemma ex_claim: "claim_by_id 6 6 ''w'' ''tok'' None ''1'' None (ex_one ex_waiting) = (Some (map_execution_job ex_leased_job), ex_one ex_leased_job)"
  by (simp add: claim_by_id_def ex_one_def updating_def ex_waiting_facts ex_leased_job_def worker_placement_def or_default_def ex_jobs_db_def)

lemma ex_works: "(job_step Works)\<^sup>*\<^sup>* (ex_one ex_waiting) (ex_one ex_leased_job)"
proof -
  have "job_step Works (ex_one ex_waiting) (ex_one ex_leased_job)"
    using claims_one [of "ex_one ex_waiting" 6 6 "''w''" "''tok''" None "''1''" None] by (simp add: ex_claim)
  then show ?thesis by blast
qed

theorem job_rows_sound_witness:
  "any_step\<^sup>*\<^sup>* (ex_one ex_waiting) (ex_one ex_leased_job) \<and> unique_keys ej_id (jd_jobs (ex_one ex_leased_job))"
proof -
  have "any_step\<^sup>*\<^sup>* (ex_one ex_waiting) (ex_one ex_leased_job)"
    by (rule mono_rtranclp [rule_format, OF _ ex_works]) (auto simp: any_step_def)
  with job_rows_sound [OF this ex_one_ok(1)] show ?thesis by blast
qed

theorem job_runs_bounded_witness:
  "(job_step Works)\<^sup>*\<^sup>* (ex_one ex_waiting) (ex_one ex_leased_job) \<and>
   (\<exists>r'. job_of (ex_one ex_leased_job) ''1'' = Some r' \<and> int (ej_lease_generation r') \<le> 21)"
proof -
  have "job_of (ex_one ex_waiting) ''1'' = Some ex_waiting" by (simp add: job_of_def ex_one_def ex_waiting_facts)
  from job_runs_bounded [OF ex_works ex_one_ok(1) this] ex_works show ?thesis by (auto simp: ex_waiting_facts)
qed

theorem replaced_worker_fenced_witness:
  "\<exists>jobs d' x. claim_jobs 6 6 ''w'' ''tok'' None [BatchItem] None None by_priority {} (ex_one ex_waiting) = (jobs, d') \<and>
     x \<in> set jobs \<and> by_lease (Completes 7) (ex_lease 0) d' = (False, d')"
proof -
  have run: "claim_jobs 6 6 ''w'' ''tok'' None [BatchItem] None None by_priority {} (ex_one ex_waiting) =
      ([map_execution_job ex_leased_job], ex_one ex_leased_job)"
    by (simp add: claim_jobs_def select_claimable_jobs_def candidate_tenants_def candidate_of_def tenant_walk_def ranked_of_def
        claimable_def by_priority_def by_rank_def worker_placement_def claim_limit_def ex_one_def ex_jobs_db_def updating_def
        ex_waiting_facts ex_leased_job_def Let_def or_default_def enumerate_eq_zip)
  have x: "map_execution_job ex_leased_job \<in> set [map_execution_job ex_leased_job]" by simp
  have l: "jl_job (ex_lease 0) = xj_id (map_execution_job ex_leased_job)"
    "jl_generation (ex_lease 0) < xj_lease_generation (map_execution_job ex_leased_job)"
    by (simp_all add: map_execution_job_def ex_lease_def ex_rows)
  from replaced_worker_fenced [OF run ex_one_ok(1) x l rtranclp.rtrancl_refl] run x show ?thesis by blast
qed

theorem sweep_leaves_none_lapsed_witness:
  "\<exists>n d' r'. requeue_expired 100000 None {} (ex_one ex_leased_job) = (n, d') \<and> job_of d' ''1'' = Some r' \<and>
     ej_status r' = JobPending \<and> ej_attempt r' = 0"
proof -
  obtain n d' where run: "requeue_expired 100000 None {} (ex_one ex_leased_job) = (n, d')" by force
  have "length (filter (lapsed 100000) (jd_jobs (ex_one ex_leased_job))) \<le> sweep_limit None"
    by (simp add: sweep_limit_def ex_one_def or_default_def)
  note props = sweep_leaves_none_lapsed [OF run ex_one_ok(2) this]
  have "job_of (ex_one ex_leased_job) ''1'' = Some ex_leased_job \<and> lapsed 100000 ex_leased_job"
    by (simp add: job_of_def ex_one_def lapsed_def ex_rows)
  moreover have "ej_lease_expiries ex_leased_job = 0" "ej_attempt ex_leased_job = 1" by (simp_all add: ex_rows)
  ultimately show ?thesis using props run by (fastforce simp: MAX_LEASE_EXPIRIES_def)
qed

theorem exhaustion_claim_exclusive_witness:
  "\<exists>ids d'. claims_exhaustion_of (Inline ''1'') 8 (ex_one ex_failed) = (ids, d') \<and> ''1'' \<in> set ids \<and>
     ''1'' \<notin> set (fst (claims_exhaustion_of (Sweep None {}) 600008 d'))"
proof -
  obtain ids d' where run: "claims_exhaustion_of (Inline ''1'') 8 (ex_one ex_failed) = (ids, d')" by force
  have "''1'' \<in> set (fst (claims_exhaustion_of (Inline ''1'') 8 (ex_one ex_failed)))"
    by (simp add: claim_exhaustion_for_def ex_one_def updating_one exhaustion_claimable_def ex_rows)
  with run have mem: "''1'' \<in> set ids" by simp
  have "600008 \<le> 8 + EXHAUSTION_CLAIM_MS" by (simp add: EXHAUSTION_CLAIM_MS_def)
  from exhaustion_claim_exclusive [OF run ex_one_ok(3) mem this] run mem show ?thesis by blast
qed

end
