(* ===== verification/Job_Choice.thy ===== *)
theory Job_Choice
  imports Job_Laws
begin

text \<open>
  How a claim shares the queue between tenants: nobody beyond its ceiling, and nobody a second job
  while another waits for its first, if the ranks are numbered in the order the jobs are taken in.
\<close>

section \<open>Ranks\<close>

definition rank_in :: "job_row list \<Rightarrow> ident \<Rightarrow> int" where
  "rank_in rows jid = or_default (map_of (map (\<lambda>(i, r). (ej_id r, int i)) (enumerate 1 rows)) jid) 0"

lemma map_of_enumerate:
  "distinct (map ej_id rows) \<Longrightarrow> j < length rows \<Longrightarrow>
   map_of (map (\<lambda>(i, r). (ej_id r, int i)) (enumerate n rows)) (ej_id (rows ! j)) = Some (int (n + j))"
proof (induction rows arbitrary: n j)
  case (Cons x xs)
  show ?case
  proof (cases j)
    case (Suc i)
    with Cons.prems have "xs ! i \<in> set xs" "ej_id x \<notin> ej_id ` set xs" by auto
    then have "ej_id (xs ! i) \<noteq> ej_id x" by (metis imageI)
    with Cons.IH [of i "Suc n"] Cons.prems Suc show ?thesis by simp
  qed simp
qed simp

lemma rank_in_nth: "distinct (map ej_id rows) \<Longrightarrow> j < length rows \<Longrightarrow> rank_in rows (ej_id (rows ! j)) = int j + 1"
  by (simp add: rank_in_def map_of_enumerate or_default_def)

lemma rank_in_inj:
  assumes "distinct (map ej_id rows)" and "x \<in> set rows" and "y \<in> set rows" and "rank_in rows (ej_id x) = rank_in rows (ej_id y)"
  shows "x = y"
proof -
  from assms(2,3) obtain i j where "x = rows ! i" "i < length rows" "y = rows ! j" "j < length rows" by (auto simp: in_set_conv_nth)
  with assms(4) rank_in_nth [OF assms(1)] show ?thesis by simp
qed

lemma rank_in_pos: "distinct (map ej_id rows) \<Longrightarrow> x \<in> set rows \<Longrightarrow> 1 \<le> rank_in rows (ej_id x)"
  by (auto simp: in_set_conv_nth rank_in_nth)

section \<open>What a claim takes\<close>

text \<open>\<open>row_number()\<close> numbers each of the rows it is given once, in whatever order.\<close>

definition numbers_rows :: "(job_row list \<Rightarrow> job_row list) \<Rightarrow> bool" where
  "numbers_rows numbering \<longleftrightarrow>
     (\<forall>rows. distinct (map ej_id rows) \<longrightarrow> distinct (map ej_id (numbering rows)) \<and> set (numbering rows) = set rows)"

lemma by_priority_set [simp]: "set (by_priority rows) = set rows"
  by (simp add: by_priority_def)

lemma by_rank_set [simp]: "set (by_rank ks) = set ks"
  by (simp add: by_rank_def)

lemma by_rank_sorted: "sorted (map rk_rank (by_rank ks))"
  by (simp add: by_rank_def)

lemma by_priority_numbers: "numbers_rows by_priority"
  by (auto simp: numbers_rows_def by_priority_def distinct_map)

definition eligible_of :: "instant \<Rightarrow> (ident \<times> ident) option \<Rightarrow> job_kind list \<Rightarrow> jobs_db \<Rightarrow> ident \<Rightarrow> job_row list" where
  "eligible_of now node kinds d t = filter (claimable now node kinds d t) (jd_jobs d)"

lemma ranked_member:
  "k \<in> set (ranked_of now node kinds limit numbering d c) \<longleftrightarrow>
   (\<exists>r \<in> set (take (nat (max 1 (limit * cd_weight c))) (by_priority (eligible_of now node kinds d (cd_tenant c)))).
      k = \<lparr>rk_id = ej_id r, rk_rank = rank_in (numbering (eligible_of now node kinds d (cd_tenant c))) (ej_id r), rk_weight = cd_weight c\<rparr> \<and>
      (case cd_max c of None \<Rightarrow> True | Some m \<Rightarrow> cd_running c + rk_rank k \<le> m))"
  by (auto simp: ranked_of_def Let_def eligible_of_def rank_in_def)

lemma selected_ranked:
  assumes "jid \<in> set (select_claimable_jobs now node kinds limit numbering locked d)"
  shows "\<exists>t k. k \<in> set (ranked_of now node kinds limit numbering d (candidate_of d t)) \<and> rk_id k = jid"
  using assms by (fastforce simp: select_claimable_jobs_def Let_def candidate_tenants_def dest!: in_set_takeD)

lemma cd_tenant [simp]: "cd_tenant (candidate_of d t) = t"
  by (simp add: candidate_of_def Let_def)

text \<open>A selected row of a tenant has a rank of its own, within what the tenant's ceiling leaves.\<close>

lemma selected_rank:
  assumes ok: "jobs_ok d" and num: "numbers_rows numbering" and r: "r \<in> set (jd_jobs d)"
    and sel: "ej_id r \<in> set (select_claimable_jobs now node kinds limit numbering locked d)"
  defines "c \<equiv> candidate_of d (ej_tenant_id r)" and "rows \<equiv> numbering (eligible_of now node kinds d (ej_tenant_id r))"
  shows "distinct (map ej_id rows) \<and> r \<in> set rows \<and> 1 \<le> rank_in rows (ej_id r) \<and>
    (case cd_max c of None \<Rightarrow> True | Some m \<Rightarrow> cd_running c + rank_in rows (ej_id r) \<le> m)"
proof -
  from selected_ranked [OF sel] obtain t k where k: "k \<in> set (ranked_of now node kinds limit numbering d (candidate_of d t))"
    "rk_id k = ej_id r" by blast
  then obtain x where x: "x \<in> set (eligible_of now node kinds d t)" "ej_id x = ej_id r"
    "rk_rank k = rank_in (numbering (eligible_of now node kinds d t)) (ej_id x)"
    "case cd_max (candidate_of d t) of None \<Rightarrow> True | Some m \<Rightarrow> cd_running (candidate_of d t) + rk_rank k \<le> m"
    unfolding ranked_member by (auto dest!: in_set_takeD)
  from x(1) have "x \<in> set (jd_jobs d)" "ej_tenant_id x = t" by (auto simp: eligible_of_def claimable_def)
  moreover have "x = r"
    using calculation(1) r x(2) find_row_unique [of ej_id "jd_jobs d"] ok by (metis jobs_ok_def option.inject)
  ultimately have t: "t = ej_tenant_id r" and xr: "x = r" by auto
  have "distinct (map ej_id (eligible_of now node kinds d t))"
    using ok by (auto simp: eligible_of_def jobs_ok_def unique_keys_def distinct_map intro: inj_on_subset)
  with num have rows: "distinct (map ej_id rows)" "set rows = set (eligible_of now node kinds d t)"
    unfolding rows_def t [symmetric] by (auto simp: numbers_rows_def)
  with x(1) xr have "r \<in> set rows" by simp
  with rows rank_in_pos x(3,4) show ?thesis unfolding c_def rows_def t xr by (simp split: option.splits)
qed

text \<open>The rows a claim leases, and what it does to the number of those a tenant has running.\<close>

definition leases_of :: "ident list \<Rightarrow> ident \<Rightarrow> jobs_db \<Rightarrow> job_row list" where
  "leases_of ids t d = filter (\<lambda>r. ej_tenant_id r = t \<and> ej_id r \<in> set ids \<and> ej_status r = JobPending) (jd_jobs d)"

definition running_of :: "ident \<Rightarrow> jobs_db \<Rightarrow> int" where
  "running_of t d = int (length (filter (\<lambda>r. ej_status r = JobRunning \<and> ej_tenant_id r = t) (jd_jobs d)))"

lemma leased_count:
  "length (filter (\<lambda>r. ej_status r = JobRunning \<and> ej_tenant_id r = t)
     (update_where (\<lambda>r. ej_id r \<in> A \<and> ej_status r = JobPending) (leased_job now host worker tok secs) rows)) =
   length (filter (\<lambda>r. ej_status r = JobRunning \<and> ej_tenant_id r = t) rows) +
   length (filter (\<lambda>r. ej_tenant_id r = t \<and> ej_id r \<in> A \<and> ej_status r = JobPending) rows)"
  by (induction rows) (auto simp: leased_job_def)

lemma leases_bounded:
  assumes ok: "jobs_ok d" and num: "numbers_rows numbering"
    and max: "cd_max (candidate_of d t) = Some m"
  shows "int (length (leases_of (select_claimable_jobs now node kinds limit numbering locked d) t d)) \<le> max 0 (m - running_of t d)"
proof -
  let ?ids = "select_claimable_jobs now node kinds limit numbering locked d"
  let ?rows = "numbering (eligible_of now node kinds d t)" and ?L = "leases_of ?ids t d"
  have mem: "distinct (map ej_id ?rows) \<and> r \<in> set ?rows \<and> 1 \<le> rank_in ?rows (ej_id r) \<and>
      running_of t d + rank_in ?rows (ej_id r) \<le> m" if "r \<in> set ?L" for r
  proof -
    from that have r: "r \<in> set (jd_jobs d)" "ej_tenant_id r = t" "ej_id r \<in> set ?ids" by (auto simp: leases_of_def)
    have run: "cd_running (candidate_of d t) = running_of t d" by (simp add: candidate_of_def running_of_def Let_def)
    from selected_rank [OF ok num r(1,3)] show ?thesis unfolding r(2) max run by simp
  qed
  have inj: "inj_on (\<lambda>r. rank_in ?rows (ej_id r)) (set ?L)"
    by (rule inj_onI) (use mem rank_in_inj in blast)
  have "distinct (map ej_id (jd_jobs d))" using ok by (simp add: jobs_ok_def unique_keys_def)
  then have "distinct ?L" by (simp add: leases_of_def distinct_map)
  then have "length ?L = card ((\<lambda>r. rank_in ?rows (ej_id r)) ` set ?L)"
    using card_image [OF inj] by (simp add: distinct_card)
  also have "\<dots> \<le> card {1..m - running_of t d}"
    by (rule card_mono) (use mem in fastforce)+
  also have "\<dots> = nat (m - running_of t d)" by simp
  finally show ?thesis by simp
qed

text \<open>A claim never leases a tenant past its ceiling. After a claim, a tenant whose policy bounds its
  running jobs has no more of them than that, unless it had more already, when it gets none; in
  whatever order the database numbers the ranks.\<close>

theorem claim_within_ceiling:
  assumes "claim_jobs now host worker tok node kinds limit secs numbering locked d = (jobs, d')" and "jobs_ok d"
    and "numbers_rows numbering"
    and "find_row tp_tenant_id t (jd_policies d) = Some p" and "tp_max_concurrent_jobs p = Some m"
  shows "running_of t d' \<le> max m (running_of t d)"
proof -
  let ?ids = "select_claimable_jobs now node kinds (claim_limit limit) numbering locked d"
  have "cd_max (candidate_of d t) = Some m" by (simp add: candidate_of_def assms(4,5) Let_def)
  note bound = leases_bounded [OF assms(2,3) this, of now node kinds "claim_limit limit" locked]
  show ?thesis
  proof (cases "kinds = [] \<or> ?ids = []")
    case True
    with assms(1) have "d' = d" by (auto simp: claim_jobs_def Let_def split: if_splits)
    then show ?thesis by simp
  next
    case False
    with assms(1) have "jd_jobs d' = update_where (\<lambda>r. ej_id r \<in> set ?ids \<and> ej_status r = JobPending)
        (leased_job now host worker tok (or_default secs 60)) (jd_jobs d)"
      by (auto simp: claim_jobs_def Let_def case_prod_beta)
    then have "running_of t d' = running_of t d + int (length (leases_of ?ids t d))"
      by (simp add: running_of_def leased_count leases_of_def)
    with bound show ?thesis by simp
  qed
qed

section \<open>The fairness floor\<close>

lemma sorted_take:
  assumes "sorted (map f xs)" and "x \<in> set (take n xs)" and "y \<in> set xs" and "f y < f x"
  shows "y \<in> set (take n xs)"
proof (rule ccontr)
  assume "y \<notin> set (take n xs)"
  with assms(3) have "y \<in> set (drop n xs)" by (metis Un_iff append_take_drop_id set_append)
  moreover have "sorted (map f (take n xs @ drop n xs))" using assms(1) by simp
  ultimately have "f x \<le> f y" using assms(2) unfolding map_append sorted_append by auto
  with assms(4) show False by simp
qed

lemma selected_before:
  assumes k: "k \<in> set (ranked_of now node kinds limit numbering d c)" "c \<in> set (candidate_tenants d)"
    and pend: "\<And>c k. k \<in> set (ranked_of now node kinds limit numbering d c) \<Longrightarrow>
      \<exists>r \<in> set (jd_jobs d). ej_id r = rk_id k \<and> ej_status r = JobPending"
    and other: "jid \<in> set (select_claimable_jobs now node kinds limit numbering {} d)"
    and rank: "\<And>k' c'. c' \<in> set (candidate_tenants d) \<Longrightarrow> k' \<in> set (ranked_of now node kinds limit numbering d c') \<Longrightarrow>
      rk_id k' = jid \<Longrightarrow> rk_rank k < rk_rank k'"
  shows "rk_id k \<in> set (select_claimable_jobs now node kinds limit numbering {} d)"
proof -
  let ?ranked = "concat (map (ranked_of now node kinds limit numbering d) (candidate_tenants d))"
  let ?P = "\<lambda>k. \<exists>r \<in> set (jd_jobs d). ej_id r = rk_id k \<and> ej_status r = JobPending"
  let ?pending = "filter ?P (take (nat (limit * 4)) (by_rank ?ranked))"
  have sel: "select_claimable_jobs now node kinds limit numbering {} d = map rk_id (take (nat limit) (by_rank ?pending))"
    by (simp add: select_claimable_jobs_def Let_def)
  from other obtain k' where k': "k' \<in> set (take (nat limit) (by_rank ?pending))" "rk_id k' = jid" unfolding sel by auto
  then have p': "k' \<in> set ?pending" by (auto dest: in_set_takeD)
  then have t': "k' \<in> set (take (nat (limit * 4)) (by_rank ?ranked))" by simp
  then have "k' \<in> set ?ranked" by (auto dest: in_set_takeD)
  with rank k'(2) have less: "rk_rank k < rk_rank k'" by auto
  have "k \<in> set (by_rank ?ranked)" using k by auto
  from sorted_take [OF by_rank_sorted t' this less] pend [OF k(1)] have "k \<in> set (by_rank ?pending)" by simp
  from sorted_take [OF by_rank_sorted k'(1) this less] show ?thesis unfolding sel by auto
qed

lemma in_tenant_walk: "t \<in> set (tenant_walk d) \<longleftrightarrow> (\<exists>r \<in> set (jd_jobs d). ej_status r = JobPending \<and> ej_tenant_id r = t)"
  by (auto simp: tenant_walk_def)

text \<open>Property C36: no tenant gets a second job while another waits for its first. When ranks are numbered in the order
  jobs are taken in and no row is locked, a claim that leases two jobs of one tenant leases a job of
  every tenant that is enabled, has a claimable job and is below its ceiling.\<close>

theorem fairness_floor:
  assumes run: "claim_jobs now host worker tok node kinds limit secs by_priority {} d = (jobs, d')" and ok: "jobs_ok d"
    and two: "x \<in> set jobs" "y \<in> set jobs" "xj_id x \<noteq> xj_id y" "xj_tenant_id x = xj_tenant_id y"
    and u: "r \<in> set (jd_jobs d)" "claimable now node kinds d u r"
    and on: "case find_row tp_tenant_id u (jd_policies d) of None \<Rightarrow> True
      | Some p \<Rightarrow> tp_jobs_enabled p \<and> (case tp_max_concurrent_jobs p of None \<Rightarrow> True | Some m \<Rightarrow> running_of u d < m)"
  shows "\<exists>z \<in> set jobs. xj_tenant_id z = u"
proof -
  let ?lim = "claim_limit limit"
  let ?ids = "select_claimable_jobs now node kinds ?lim by_priority {} d"
  let ?p = "\<lambda>r. ej_id r \<in> set ?ids \<and> ej_status r = JobPending" and ?f = "leased_job now host worker tok (or_default secs 60)"
  from run two(1) have jobs: "jobs = map map_execution_job (map ?f (filter ?p (jd_jobs d)))"
    by (auto simp: claim_jobs_def Let_def case_prod_beta updating_def split: if_splits)
  have f: "xj_id (map_execution_job (?f r)) = ej_id r" "xj_tenant_id (map_execution_job (?f r)) = ej_tenant_id r" for r
    by (simp_all add: map_execution_job_def leased_job_def)
  from two(1,2) jobs obtain a b where ab: "a \<in> set (jd_jobs d)" "?p a" "x = map_execution_job (?f a)"
    "b \<in> set (jd_jobs d)" "?p b" "y = map_execution_job (?f b)" by auto
  with two(3,4) f have "ej_id a \<noteq> ej_id b" and same: "ej_tenant_id a = ej_tenant_id b" by auto
  let ?rank = "\<lambda>t r. rank_in (by_priority (eligible_of now node kinds d t)) (ej_id r)"
  note ra = selected_rank [OF ok by_priority_numbers ab(1) conjunct1 [OF ab(2)]]
    and rb = selected_rank [OF ok by_priority_numbers ab(4) conjunct1 [OF ab(5)]]
  have "?rank (ej_tenant_id a) a \<noteq> ?rank (ej_tenant_id b) b"
    using ra rb rank_in_inj \<open>ej_id a \<noteq> ej_id b\<close> unfolding same by blast
  moreover have "1 \<le> ?rank (ej_tenant_id a) a" "1 \<le> ?rank (ej_tenant_id b) b" using ra rb by blast+
  ultimately have "2 \<le> ?rank (ej_tenant_id a) a \<or> 2 \<le> ?rank (ej_tenant_id b) b" by linarith
  then obtain w where w: "w \<in> set (jd_jobs d)" "?p w" "2 \<le> ?rank (ej_tenant_id w) w" using ab by blast
  let ?el = "by_priority (eligible_of now node kinds d u)"
  have "r \<in> set ?el" using u by (simp add: eligible_of_def)
  then obtain h rest where h: "?el = h # rest" by (metis empty_iff list.exhaust list.set(1))
  have hin: "h \<in> set (eligible_of now node kinds d u)" using h by (metis by_priority_set list.set_intros(1))
  have "distinct (map ej_id (eligible_of now node kinds d u))"
    using ok by (auto simp: eligible_of_def jobs_ok_def unique_keys_def distinct_map intro: inj_on_subset)
  then have dist: "distinct (map ej_id ?el)" using by_priority_numbers by (simp add: numbers_rows_def)
  have rank1: "?rank u h = 1" using rank_in_nth [OF dist, of 0] h by simp
  let ?k = "\<lparr>rk_id = ej_id h, rk_rank = 1, rk_weight = cd_weight (candidate_of d u)\<rparr>"
  have run_u: "cd_running (candidate_of d u) = running_of u d" by (simp add: candidate_of_def running_of_def Let_def)
  have "h \<in> set (take (nat (max 1 (?lim * cd_weight (candidate_of d u)))) ?el)"
    unfolding h by (cases "nat (max 1 (?lim * cd_weight (candidate_of d u)))") simp_all
  moreover have "case cd_max (candidate_of d u) of None \<Rightarrow> True | Some m \<Rightarrow> cd_running (candidate_of d u) + 1 \<le> m"
    using on unfolding run_u by (auto simp: candidate_of_def Let_def split: option.splits)
  ultimately have k: "?k \<in> set (ranked_of now node kinds ?lim by_priority d (candidate_of d u))"
    unfolding ranked_member using rank1 by (intro bexI [of _ h]) (simp_all split: option.splits)
  have "u \<in> set (tenant_walk d)" using u by (auto simp: in_tenant_walk claimable_def)
  then have c: "candidate_of d u \<in> set (candidate_tenants d)"
    using on by (auto simp: candidate_tenants_def split: option.splits)
  have "rk_id ?k \<in> set ?ids"
  proof (rule selected_before [OF k c])
    show "ej_id w \<in> set ?ids" using w(2) by simp
    show "\<exists>r \<in> set (jd_jobs d). ej_id r = rk_id k \<and> ej_status r = JobPending"
      if "k \<in> set (ranked_of now node kinds ?lim by_priority d c)" for c k
      using that unfolding ranked_member by (auto simp: eligible_of_def claimable_def dest!: in_set_takeD)
    show "rk_rank ?k < rk_rank k'" if k': "c' \<in> set (candidate_tenants d)"
      "k' \<in> set (ranked_of now node kinds ?lim by_priority d c')" "rk_id k' = ej_id w" for k' c'
    proof -
      from k'(2) obtain v where v: "v \<in> set (eligible_of now node kinds d (cd_tenant c'))" "ej_id v = ej_id w"
        "rk_rank k' = ?rank (cd_tenant c') v" unfolding ranked_member using k'(3) by (auto dest!: in_set_takeD)
      then have "v \<in> set (jd_jobs d)" "ej_tenant_id v = cd_tenant c'" by (auto simp: eligible_of_def claimable_def)
      with w(1) v(2) have "v = w" using find_row_unique [of ej_id "jd_jobs d"] ok by (metis jobs_ok_def option.inject)
      with v w(3) \<open>ej_tenant_id v = cd_tenant c'\<close> show ?thesis by simp
    qed
  qed
  with hin have "h \<in> set (filter ?p (jd_jobs d))" "ej_tenant_id h = u" by (auto simp: eligible_of_def claimable_def)
  then show ?thesis unfolding jobs using f by force
qed


section \<open>When the ranks are numbered otherwise\<close>

definition ex_queued :: "ident \<Rightarrow> ident \<Rightarrow> int \<Rightarrow> job_row" where
  "ex_queued jid tenant priority =
     \<lparr>ej_id = jid, ej_tenant_id = tenant, ej_workflow_run_id = ''r'', ej_workflow_step_attempt_id = None, ej_kind = DurablePauseTimeout,
      ej_payload = JNull, ej_status = JobPending, ej_priority = priority, ej_available_at = 0, ej_attempt = 0,
      ej_max_attempts = 5, ej_leased_by = None, ej_lease_token = None, ej_lease_generation = 0, ej_heartbeat_at = None,
      ej_lease_expires_at = None, ej_dedupe_key = None, ej_last_error = None, ej_lease_expiries = 0, ej_created_at = 0,
      ej_updated_at = 0, ej_completed_at = None, ej_exhaustion_handled_at = None, ej_exhaustion_handled = False\<rparr>"

definition ex_backlog :: jobs_db where
  "ex_backlog = \<lparr>jd_jobs = [ex_queued ''1'' ''a'' 0, ex_queued ''2'' ''a'' 5, ex_queued ''3'' ''a'' 5, ex_queued ''4'' ''b'' 0,
       ex_queued ''5'' ''b'' 0],
     jd_invocations = [], jd_runs = [], jd_requirements = [], jd_allocations = [], jd_nodes = [],
     jd_policies = [\<lparr>tp_tenant_id = ''b'', tp_max_concurrent_jobs = Some 2, tp_queue_weight = 2, tp_jobs_enabled = True\<rparr>]\<rparr>"

lemmas choice_eval = claim_jobs_def select_claimable_jobs_def candidate_tenants_def candidate_of_def tenant_walk_def ranked_of_def
  claimable_def by_rank_def worker_placement_def claim_limit_def updating_def Let_def or_default_def enumerate_eq_zip
  ex_backlog_def ex_queued_def leased_job_def map_execution_job_def upt_rec [of 1]

lemma ex_backlog_ok: "jobs_ok ex_backlog"
  by (simp add: jobs_ok_def unique_keys_def key_of_row_def job_row_ok_def ex_backlog_def ex_queued_def terminal_job_def MAX_LEASE_EXPIRIES_def)

text \<open>The floor rests on the numbering SQL does not promise. \<open>row_number() OVER ()\<close> may number rows in any
  order; numbered as they are stored, a claim of two gives a tenant both of its jobs and another, whose
  best jobs were stored after a lesser one, none.\<close>

theorem floor_needs_numbering:
  "numbers_rows (\<lambda>rows. rows) \<and>
   (\<exists>jobs d'. claim_jobs 1 1 ''w'' ''tok'' None [DurablePauseTimeout] (Some 2) None (\<lambda>rows. rows) {} ex_backlog = (jobs, d') \<and>
      map xj_tenant_id jobs = [''b'', ''b''])"
  by (simp add: numbers_rows_def) (simp add: choice_eval by_priority_def upt_conv_Cons)

section \<open>Witnesses\<close>

lemma ex_backlog_claim:
  "\<exists>jobs d'. claim_jobs 1 1 ''w'' ''tok'' None [DurablePauseTimeout] (Some 3) None by_priority {} ex_backlog = (jobs, d') \<and>
     map xj_id jobs = [''2'', ''4'', ''5'']"
  by (simp add: choice_eval by_priority_def upt_conv_Cons)

theorem claim_within_ceiling_witness:
  "\<exists>jobs d'. claim_jobs 1 1 ''w'' ''tok'' None [DurablePauseTimeout] (Some 3) None by_priority {} ex_backlog = (jobs, d') \<and>
     length jobs = 3 \<and> running_of ''b'' d' \<le> 2"
proof -
  obtain jobs d' where run: "claim_jobs 1 1 ''w'' ''tok'' None [DurablePauseTimeout] (Some 3) None by_priority {} ex_backlog = (jobs, d')"
    "map xj_id jobs = [''2'', ''4'', ''5'']" using ex_backlog_claim by (elim exE conjE) (rule that)
  let ?p = "\<lparr>tp_tenant_id = ''b'', tp_max_concurrent_jobs = Some 2, tp_queue_weight = 2, tp_jobs_enabled = True\<rparr>"
  have "find_row tp_tenant_id ''b'' (jd_policies ex_backlog) = Some ?p" "tp_max_concurrent_jobs ?p = Some 2"
    by (simp_all add: ex_backlog_def)
  from claim_within_ceiling [OF run(1) ex_backlog_ok by_priority_numbers this] have "running_of ''b'' d' \<le> max 2 (running_of ''b'' ex_backlog)" .
  moreover have "running_of ''b'' ex_backlog = 0" by (simp add: running_of_def ex_backlog_def ex_queued_def)
  moreover have "length jobs = 3" using arg_cong [OF run(2), of length] by simp
  ultimately show ?thesis using run(1) by auto
qed

theorem fairness_floor_witness:
  "\<exists>jobs d' z. claim_jobs 1 1 ''w'' ''tok'' None [DurablePauseTimeout] (Some 3) None by_priority {} ex_backlog = (jobs, d') \<and>
     z \<in> set jobs \<and> xj_tenant_id z = ''a''"
proof -
  obtain jobs d' where run: "claim_jobs 1 1 ''w'' ''tok'' None [DurablePauseTimeout] (Some 3) None by_priority {} ex_backlog = (jobs, d')"
    "map xj_id jobs = [''2'', ''4'', ''5'']" "map xj_tenant_id jobs = [''a'', ''b'', ''b'']"
    by (simp add: choice_eval by_priority_def upt_conv_Cons)
  from run(2,3) obtain j1 x y where jobs: "jobs = [j1, x, y]" "xj_id x = ''4''" "xj_id y = ''5''" "xj_tenant_id x = ''b''" "xj_tenant_id y = ''b''"
    by (auto simp: map_eq_Cons_conv)
  have two: "x \<in> set jobs" "y \<in> set jobs" "xj_id x \<noteq> xj_id y" "xj_tenant_id x = xj_tenant_id y" using jobs by simp_all
  have u: "ex_queued ''1'' ''a'' 0 \<in> set (jd_jobs ex_backlog)"
    "claimable 1 None [DurablePauseTimeout] ex_backlog ''a'' (ex_queued ''1'' ''a'' 0)"
    by (simp_all add: ex_backlog_def ex_queued_def claimable_def worker_placement_def)
  have on: "case find_row tp_tenant_id ''a'' (jd_policies ex_backlog) of None \<Rightarrow> True
      | Some p \<Rightarrow> tp_jobs_enabled p \<and> (case tp_max_concurrent_jobs p of None \<Rightarrow> True | Some m \<Rightarrow> running_of ''a'' ex_backlog < m)"
    by (simp add: ex_backlog_def)
  from fairness_floor [OF run(1) ex_backlog_ok two u on] run(1) show ?thesis by blast
qed

end
