(* ===== verification/Rate_Buckets.thy ===== *)
theory Rate_Buckets
  imports Request_Policy
begin

text \<open>
  Rate reservations, \<open>packages/core/src/services/rate-reservations-service.ts\<close>: token buckets in the
  database that several limits of one call are drawn from together, or not at all. Numbers are exact
  rationals where the code has doubles and PostgreSQL \<open>numeric\<close>; instants are whole milliseconds, as
  a \<open>Date\<close> holds them. \<open>compare\<close> is \<open>localeCompare\<close>, which depends on the host's locale, and \<open>clock i\<close>
  the time the database read when it locked the i-th bucket.
\<close>

section \<open>Limits\<close>

record bucket_key =
  bk_global :: string
  bk_partition :: "string option"

record rate_limit =
  rl_key :: bucket_key
  rl_capacity :: js_number
  rl_rate :: js_number
  rl_cost :: "js_number option"

record norm_key =
  nk_global :: string
  nk_partition :: string

record norm_limit =
  nl_key :: norm_key
  nl_capacity :: rat
  nl_rate :: rat
  nl_cost :: rat

datatype rate_error =
    NoLimits | NoKeys | NotPositive string | CostOverCapacity | BadKeyPart string | DuplicateKeys
  | NoBucket string string | NoMatch | BadText

datatype rate_result =
    Reserved (rs_at: instant) (rs_remaining: rat)
  | Blocked (rs_retry_at: instant) (rs_retry_after_ms: int) (rs_blocked_by: "bucket_key list")

definition require_positive_finite :: "js_number \<Rightarrow> string \<Rightarrow> rate_error + rat" where
  "require_positive_finite v name = (case v of Finite x \<Rightarrow> if x \<le> 0 then Inl (NotPositive name) else Inr x | _ \<Rightarrow> Inl (NotPositive name))"

definition require_key_part :: "string \<Rightarrow> string \<Rightarrow> rate_error + unit" where
  "require_key_part v name = (if length v = 0 \<or> 500 < length v then Inl (BadKeyPart name) else Inr ())"

definition normalize_key :: "bucket_key \<Rightarrow> rate_error + norm_key" where
  "normalize_key key =
     (case require_key_part (bk_global key) ''globalKey'' of
        Inl e \<Rightarrow> Inl e
      | Inr _ \<Rightarrow>
          (case bk_partition key of
             None \<Rightarrow> Inr \<lparr>nk_global = bk_global key, nk_partition = []\<rparr>
           | Some p \<Rightarrow>
               (case require_key_part p ''partitionKey'' of
                  Inl e \<Rightarrow> Inl e
                | Inr _ \<Rightarrow> Inr \<lparr>nk_global = bk_global key, nk_partition = p\<rparr>)))"

definition normalize_limit :: "rate_limit \<Rightarrow> rate_error + norm_limit" where
  "normalize_limit l =
     (case require_positive_finite (rl_capacity l) ''capacity'' of
        Inl e \<Rightarrow> Inl e
      | Inr capacity \<Rightarrow>
          (case require_positive_finite (rl_rate l) ''refillRatePerSecond'' of
             Inl e \<Rightarrow> Inl e
           | Inr rate \<Rightarrow>
               (case require_positive_finite (case rl_cost l of None \<Rightarrow> Finite 1 | Some c \<Rightarrow> c) ''cost'' of
                  Inl e \<Rightarrow> Inl e
                | Inr cost \<Rightarrow>
                    if capacity < cost then Inl CostOverCapacity
                    else (case normalize_key (rl_key l) of
                            Inl e \<Rightarrow> Inl e
                          | Inr key \<Rightarrow> Inr \<lparr>nl_key = key, nl_capacity = capacity, nl_rate = rate, nl_cost = cost\<rparr>))))"

text \<open>\<open>map\<close> with a callback that may throw, and a stable sort by a comparator.\<close>

fun map_or_throw :: "('a \<Rightarrow> 'e + 'b) \<Rightarrow> 'a list \<Rightarrow> 'e + 'b list" where
  "map_or_throw f [] = Inr []"
| "map_or_throw f (x # xs) =
     (case f x of Inl e \<Rightarrow> Inl e
      | Inr y \<Rightarrow> (case map_or_throw f xs of Inl e \<Rightarrow> Inl e | Inr ys \<Rightarrow> Inr (y # ys)))"

fun insert_by :: "('a \<Rightarrow> 'a \<Rightarrow> int) \<Rightarrow> 'a \<Rightarrow> 'a list \<Rightarrow> 'a list" where
  "insert_by cmp x [] = [x]"
| "insert_by cmp x (y # ys) = (if cmp x y \<le> 0 then x # y # ys else y # insert_by cmp x ys)"

definition sort_by :: "('a \<Rightarrow> 'a \<Rightarrow> int) \<Rightarrow> 'a list \<Rightarrow> 'a list" where
  "sort_by cmp xs = foldr (insert_by cmp) xs []"

definition compare_keys :: "(string \<Rightarrow> string \<Rightarrow> int) \<Rightarrow> norm_key \<Rightarrow> norm_key \<Rightarrow> int" where
  "compare_keys compare l r =
     (let c = compare (nk_global l) (nk_global r) in if c \<noteq> 0 then c else compare (nk_partition l) (nk_partition r))"

definition compare_limits :: "(string \<Rightarrow> string \<Rightarrow> int) \<Rightarrow> norm_limit \<Rightarrow> norm_limit \<Rightarrow> int" where
  "compare_limits compare l r = compare_keys compare (nl_key l) (nl_key r)"

definition key_text :: "norm_key \<Rightarrow> string" where
  "key_text k = decimal (length (nk_global k)) @ CHR '':'' # nk_global k @ nk_partition k"

definition assert_unique_keys :: "norm_key list \<Rightarrow> rate_error + unit" where
  "assert_unique_keys keys = (if card (set (map key_text keys)) \<noteq> length keys then Inl DuplicateKeys else Inr ())"

definition normalize_limits :: "(string \<Rightarrow> string \<Rightarrow> int) \<Rightarrow> rate_limit list \<Rightarrow> rate_error + norm_limit list" where
  "normalize_limits compare limits =
     (if limits = [] then Inl NoLimits
      else case map_or_throw normalize_limit limits of
        Inl e \<Rightarrow> Inl e
      | Inr ls \<Rightarrow>
          (let sorted_ls = sort_by (compare_limits compare) ls in
           case assert_unique_keys (map nl_key sorted_ls) of Inl e \<Rightarrow> Inl e | Inr _ \<Rightarrow> Inr sorted_ls))"

definition normalize_keys :: "(string \<Rightarrow> string \<Rightarrow> int) \<Rightarrow> bucket_key list \<Rightarrow> rate_error + norm_key list" where
  "normalize_keys compare keys =
     (if keys = [] then Inl NoKeys
      else case map_or_throw normalize_key keys of
        Inl e \<Rightarrow> Inl e
      | Inr ks \<Rightarrow>
          (let sorted_ks = sort_by (compare_keys compare) ks in
           case assert_unique_keys sorted_ks of Inl e \<Rightarrow> Inl e | Inr _ \<Rightarrow> Inr sorted_ks))"

section \<open>Buckets\<close>

record bucket_row =
  rb_tenant_id :: ident
  rb_global_key :: string
  rb_partition_key :: string
  rb_capacity :: rat
  rb_tokens :: rat
  rb_rate :: rat
  rb_refilled_at :: instant
  rb_blocked_until :: "instant option"
  rb_updated_at :: instant

definition rb_key :: "bucket_row \<Rightarrow> ident \<times> string \<times> string" where
  "rb_key r = (rb_tenant_id r, rb_global_key r, rb_partition_key r)"

definition nk_of :: "ident \<Rightarrow> norm_key \<Rightarrow> ident \<times> string \<times> string" where
  "nk_of tenant k = (tenant, nk_global k, nk_partition k)"

definition bucket_of :: "ident \<times> string \<times> string \<Rightarrow> bucket_row list \<Rightarrow> bucket_row option" where
  "bucket_of = find_row rb_key"

definition new_bucket :: "ident \<Rightarrow> instant \<Rightarrow> norm_limit \<Rightarrow> bucket_row" where
  "new_bucket tenant now l =
     \<lparr>rb_tenant_id = tenant, rb_global_key = nk_global (nl_key l), rb_partition_key = nk_partition (nl_key l),
      rb_capacity = nl_capacity l, rb_tokens = nl_capacity l, rb_rate = nl_rate l, rb_refilled_at = now,
      rb_blocked_until = None, rb_updated_at = now\<rparr>"

text \<open>
  The upsert that creates and locks every bucket, in the limits' order: each row as it is once its
  lock is held, with the clock read then.
\<close>

fun lock_buckets :: "ident \<Rightarrow> (nat \<Rightarrow> instant) \<Rightarrow> nat \<Rightarrow> norm_limit list \<Rightarrow> bucket_row list \<Rightarrow>
  (bucket_row \<times> instant) list \<times> bucket_row list"
where
  "lock_buckets tenant clock i [] rows = ([], rows)"
| "lock_buckets tenant clock i (l # ls) rows =
     (let new = new_bucket tenant (clock i) l;
          rows1 = upsert rb_key (\<lambda>r. r) new rows;
          held = (case bucket_of (rb_key new) rows of None \<Rightarrow> new | Some r \<Rightarrow> r);
          (rest, rows2) = lock_buckets tenant clock (Suc i) ls rows1
      in ((held, clock i) # rest, rows2))"

record bucket_state =
  bs_limit :: norm_limit
  bs_available :: rat
  bs_retry_at_ms :: rat

definition calculate_state :: "bucket_row \<Rightarrow> norm_limit \<Rightarrow> instant \<Rightarrow> bucket_state" where
  "calculate_state row l now =
     (let elapsed = max 0 (of_int (now - rb_refilled_at row) / 1000);
          available = min (nl_capacity l) (rb_tokens row + elapsed * nl_rate l);
          delay = (if nl_cost l \<le> available then 0 else (nl_cost l - available) / nl_rate l * 1000);
          blocked = (case rb_blocked_until row of None \<Rightarrow> 0 | Some t \<Rightarrow> t)
      in \<lparr>bs_limit = l, bs_available = available, bs_retry_at_ms = max (of_int now + delay) (of_int blocked)\<rparr>)"

text \<open>
  The map the rows are looked up in is keyed by both parts with a NUL between. No key holds one:
  PostgreSQL refuses text with it, so the upsert fails.
\<close>

definition NUL :: char where "NUL = CHR 0x00"

definition has_nul :: "norm_key \<Rightarrow> bool" where
  "has_nul k \<longleftrightarrow> NUL \<in> set (nk_global k) \<or> NUL \<in> set (nk_partition k)"

definition map_key :: "string \<Rightarrow> string \<Rightarrow> string" where
  "map_key g p = g @ NUL # p"

definition state_of :: "(bucket_row \<times> instant) list \<Rightarrow> instant \<Rightarrow> norm_limit \<Rightarrow> rate_error + bucket_state" where
  "state_of held now l =
     (case map_of (rev (map (\<lambda>(r, _). (map_key (rb_global_key r) (rb_partition_key r), r)) held))
             (map_key (nk_global (nl_key l)) (nk_partition (nl_key l))) of
        None \<Rightarrow> Inl NoMatch | Some row \<Rightarrow> Inr (calculate_state row l now))"

definition settled_tokens :: "bool \<Rightarrow> bucket_state \<Rightarrow> rat" where
  "settled_tokens consume s = max 0 (bs_available s - (if consume then nl_cost (bs_limit s) else 0))"

definition settle_bucket :: "ident \<Rightarrow> bucket_state list \<Rightarrow> instant \<Rightarrow> bool \<Rightarrow> bucket_row \<Rightarrow> bucket_row" where
  "settle_bucket tenant states now consume r =
     (case List.find (\<lambda>s. nk_of tenant (nl_key (bs_limit s)) = rb_key r) states of
        None \<Rightarrow> r
      | Some s \<Rightarrow> r\<lparr>rb_tokens := settled_tokens consume s, rb_capacity := nl_capacity (bs_limit s),
           rb_rate := nl_rate (bs_limit s), rb_refilled_at := now, rb_updated_at := now\<rparr>)"

definition settle_buckets :: "ident \<Rightarrow> bucket_state list \<Rightarrow> instant \<Rightarrow> bool \<Rightarrow> bucket_row list \<Rightarrow> bucket_row list" where
  "settle_buckets tenant states now consume rows = map (settle_bucket tenant states now consume) rows"

text \<open>\<open>new Date(ms)\<close> drops the fraction.\<close>

definition date_of :: "rat \<Rightarrow> instant" where
  "date_of ms = (if 0 \<le> ms then \<lfloor>ms\<rfloor> else \<lceil>ms\<rceil>)"

definition blocking_key :: "norm_key \<Rightarrow> bucket_key" where
  "blocking_key k = \<lparr>bk_global = nk_global k, bk_partition = (if nk_partition k = [] then None else Some (nk_partition k))\<rparr>"

fun min_list_of :: "rat list \<Rightarrow> rat" where
  "min_list_of [] = 0"
| "min_list_of (x # xs) = fold min xs x"

fun max_list_of :: "rat list \<Rightarrow> rat" where
  "max_list_of [] = 0"
| "max_list_of (x # xs) = fold max xs x"

definition answer :: "instant \<Rightarrow> bucket_state list \<Rightarrow> rate_result" where
  "answer now states =
     (let blocked = filter (\<lambda>s. of_int now < bs_retry_at_ms s) states in
      if blocked = [] then Reserved now (min_list_of (map (\<lambda>s. bs_available s - nl_cost (bs_limit s)) states))
      else (let retry_at = max_list_of (map bs_retry_at_ms blocked)
            in Blocked (date_of retry_at) (max 1 \<lceil>retry_at - of_int now\<rceil>) (map (\<lambda>s. blocking_key (nl_key (bs_limit s))) blocked)))"

definition is_reserved :: "rate_result \<Rightarrow> bool" where
  "is_reserved r = (case r of Reserved _ _ \<Rightarrow> True | Blocked _ _ _ \<Rightarrow> False)"

definition reserve ::
  "(string \<Rightarrow> string \<Rightarrow> int) \<Rightarrow> (nat \<Rightarrow> instant) \<Rightarrow> ident \<Rightarrow> rate_limit list \<Rightarrow> bucket_row list \<Rightarrow>
   rate_error + rate_result \<times> bucket_row list"
where
  "reserve compare clock tenant limits rows =
     (case normalize_limits compare limits of
        Inl e \<Rightarrow> Inl e
      | Inr ls \<Rightarrow>
          if list_ex (\<lambda>l. has_nul (nl_key l)) ls then Inl BadText
          else (let (held, rows1) = lock_buckets tenant clock 0 ls rows; now = snd (hd held) in
           case map_or_throw (state_of held now) ls of
             Inl e \<Rightarrow> Inl e
           | Inr states \<Rightarrow>
               (let result = answer now states
                in Inr (result, settle_buckets tenant states now (is_reserved result) rows1))))"

section \<open>A provider's own limit\<close>

fun update_blocked_rows ::
  "ident \<Rightarrow> norm_key list \<Rightarrow> instant \<Rightarrow> instant \<Rightarrow> bucket_row list \<Rightarrow> rate_error + bucket_row list"
where
  "update_blocked_rows tenant [] now til rows = Inr rows"
| "update_blocked_rows tenant (k # ks) now til rows =
     (if bucket_of (nk_of tenant k) rows = None then Inl (NoBucket (nk_global k) (nk_partition k))
      else update_blocked_rows tenant ks now til
        (update_where (\<lambda>r. rb_key r = nk_of tenant k)
           (\<lambda>r. r\<lparr>rb_blocked_until := Some (case rb_blocked_until r of None \<Rightarrow> til | Some t \<Rightarrow> max t til), rb_updated_at := now\<rparr>) rows))"

definition apply_retry_after ::
  "(string \<Rightarrow> string \<Rightarrow> int) \<Rightarrow> instant \<Rightarrow> ident \<Rightarrow> bucket_key list \<Rightarrow> js_number \<Rightarrow> bucket_row list \<Rightarrow>
   rate_error + instant \<times> bucket_row list"
where
  "apply_retry_after compare now tenant keys ms rows =
     (case normalize_keys compare keys of
        Inl e \<Rightarrow> Inl e
      | Inr ks \<Rightarrow>
          (case require_positive_finite ms ''retryAfterMs'' of
             Inl e \<Rightarrow> Inl e
           | Inr after \<Rightarrow>
               (let til = \<lfloor>of_int now + after\<rfloor> in
                case update_blocked_rows tenant ks now til rows of Inl e \<Rightarrow> Inl e | Inr rows' \<Rightarrow> Inr (til, rows'))))"

section \<open>The table's invariant\<close>

definition bucket_ok :: "bucket_row \<Rightarrow> bool" where
  "bucket_ok r \<longleftrightarrow> 0 < rb_capacity r \<and> 0 < rb_rate r \<and> 0 \<le> rb_tokens r \<and> rb_tokens r \<le> rb_capacity r"

definition buckets_ok :: "bucket_row list \<Rightarrow> bool" where
  "buckets_ok rows \<longleftrightarrow> unique_keys rb_key rows \<and> (\<forall>r \<in> set rows. bucket_ok r)"

definition limit_ok :: "norm_limit \<Rightarrow> bool" where
  "limit_ok l \<longleftrightarrow> 0 < nl_cost l \<and> nl_cost l \<le> nl_capacity l \<and> 0 < nl_rate l"

end
