(* ===== verification/Rate_Laws.thy ===== *)
theory Rate_Laws
  imports Rate_Buckets
begin

text \<open>
  What the token buckets guarantee: tokens stay within the capacity, a bucket grants no more than it
  holds and refills, and the delay a blocked caller is given is enough.
\<close>

section \<open>Limits\<close>

lemma map_or_throw_members:
  "map_or_throw f xs = Inr ys \<Longrightarrow> \<forall>y \<in> set ys. \<exists>x \<in> set xs. f x = Inr y"
  by (induction xs arbitrary: ys) (auto split: sum.splits)

lemma map_or_throw_map:
  "map_or_throw f xs = Inr ys \<longleftrightarrow> map f xs = map Inr ys"
proof (induction xs arbitrary: ys)
  case (Cons x xs)
  show ?case
  proof (cases ys)
    case Nil
    then show ?thesis by (simp split: sum.splits)
  next
    case (Cons y ys')
    with Cons.IH [of ys'] show ?thesis by (auto split: sum.splits)
  qed
qed auto

lemma insert_by_set [simp]: "set (insert_by cmp x xs) = insert x (set xs)"
  by (induction xs) auto

lemma sort_by_set [simp]: "set (sort_by cmp xs) = set xs"
  unfolding sort_by_def by (induction xs) auto

lemma insert_by_distinct: "distinct (insert_by cmp x xs) \<longleftrightarrow> x \<notin> set xs \<and> distinct xs"
  by (induction xs) auto

lemma sort_by_distinct: "distinct (sort_by cmp xs) \<longleftrightarrow> distinct xs"
proof (induction xs)
  case (Cons x xs)
  have "sort_by cmp (x # xs) = insert_by cmp x (sort_by cmp xs)" by (simp add: sort_by_def)
  with Cons show ?case by (simp add: insert_by_distinct)
qed (simp add: sort_by_def)

lemma sort_by_Nil [simp]: "sort_by cmp xs = [] \<longleftrightarrow> xs = []"
  using sort_by_set [of cmp xs] by (metis set_empty)

lemma decimal_digits: "c \<in> set (decimal n) \<Longrightarrow> 48 \<le> (of_char c :: nat) \<and> (of_char c :: nat) \<le> 57"
proof (induction n rule: less_induct)
  case (less n)
  show ?case
  proof (cases "n < 10")
    case False
    with less.prems have "c \<in> set (decimal (n div 10)) \<or> c = char_of (48 + n mod 10)"
      by (subst (asm) decimal.simps) auto
    with less.IH [of "n div 10"] False show ?thesis by auto
  qed (use less.prems in \<open>simp add: decimal.simps [of n]\<close>)
qed

lemma decimal_no_colon: "CHR '':'' \<notin> set (decimal n)"
  using decimal_digits [of "CHR '':''" n] by auto

definition number_value :: "string \<Rightarrow> nat" where
  "number_value s = fold (\<lambda>c v. 10 * v + (of_char c - 48)) s 0"

lemma number_value_decimal: "number_value (decimal n) = n"
proof (induction n rule: less_induct)
  case (less n)
  then show ?case by (cases "n < 10") (auto simp: decimal.simps [of n] number_value_def)
qed

lemma prefix_before: "xs @ c # ys = xs' @ c # ys' \<Longrightarrow> c \<notin> set xs \<Longrightarrow> c \<notin> set xs' \<Longrightarrow> xs = xs' \<and> ys = ys'"
proof (induction xs arbitrary: xs')
  case Nil
  then show ?case by (cases xs') auto
next
  case (Cons x xs)
  then show ?case by (cases xs') auto
qed

lemma key_text_inj: "key_text a = key_text b \<Longrightarrow> a = b"
proof -
  assume "key_text a = key_text b"
  then have eq: "decimal (length (nk_global a)) @ CHR '':'' # nk_global a @ nk_partition a =
      decimal (length (nk_global b)) @ CHR '':'' # nk_global b @ nk_partition b" by (simp add: key_text_def)
  from prefix_before [OF eq decimal_no_colon decimal_no_colon]
  have "decimal (length (nk_global a)) = decimal (length (nk_global b))"
    and rest: "nk_global a @ nk_partition a = nk_global b @ nk_partition b" by auto
  then have "length (nk_global a) = length (nk_global b)" by (metis number_value_decimal)
  with rest show "a = b" by simp
qed

text \<open>Two keys share the text \<open>assertUniqueKeys\<close> compares exactly when they are the same key, so it
  refuses a call that names a bucket twice and no other.\<close>

theorem duplicate_buckets_refused:
  "assert_unique_keys keys = (if distinct keys then Inr () else Inl DuplicateKeys)"
proof -
  have "distinct (map key_text keys) \<longleftrightarrow> distinct keys"
    by (auto simp: distinct_map intro: inj_onI key_text_inj)
  moreover have "card (set (map key_text keys)) = length keys \<longleftrightarrow> distinct (map key_text keys)"
    using card_distinct [of "map key_text keys"] distinct_card [of "map key_text keys"] by (metis length_map)
  ultimately show ?thesis by (simp add: assert_unique_keys_def)
qed

lemma unique_keys_answer: "assert_unique_keys keys = Inr () \<longleftrightarrow> distinct keys"
  by (metis Inl_Inr_False card_distinct distinct_card distinct_map inj_onI key_text_inj length_map assert_unique_keys_def)

lemma unique_keys_answer': "assert_unique_keys keys = (if distinct keys then Inr () else Inl DuplicateKeys)"
  using unique_keys_answer [of keys] by (auto simp: assert_unique_keys_def split: if_splits)

lemma normalize_limit_ok: "normalize_limit l = Inr n \<Longrightarrow> limit_ok n"
  by (auto simp: normalize_limit_def require_positive_finite_def limit_ok_def split: sum.splits js_number.splits if_splits)

lemma normalize_limits_ok:
  assumes "normalize_limits compare limits = Inr ls"
  shows "ls \<noteq> []" "\<forall>l \<in> set ls. limit_ok l" "distinct (map nl_key ls)"
proof -
  from assms obtain ns where ns: "map_or_throw normalize_limit limits = Inr ns" "limits \<noteq> []" "ls = sort_by (compare_limits compare) ns"
    "assert_unique_keys (map nl_key ls) = Inr ()"
    by (auto simp: normalize_limits_def Let_def split: sum.splits if_splits)
  then show "distinct (map nl_key ls)" by (simp add: unique_keys_answer)
  from ns(1,2) have "ns \<noteq> []" by (cases limits) (auto split: sum.splits)
  with ns(3) show "ls \<noteq> []" by simp
  show "\<forall>l \<in> set ls. limit_ok l" using map_or_throw_members [OF ns(1)] normalize_limit_ok ns(3) by fastforce
qed


section \<open>A reservation, bucket by bucket\<close>

definition row_for :: "ident \<Rightarrow> instant \<Rightarrow> norm_limit \<Rightarrow> bucket_row list \<Rightarrow> bucket_row" where
  "row_for tenant t l rows = (case bucket_of (nk_of tenant (nl_key l)) rows of None \<Rightarrow> new_bucket tenant t l | Some r \<Rightarrow> r)"

lemma rb_key_new [simp]: "rb_key (new_bucket tenant t l) = nk_of tenant (nl_key l)"
  by (simp add: rb_key_def new_bucket_def nk_of_def)

lemma nk_of_inj [simp]: "nk_of tenant a = nk_of tenant b \<longleftrightarrow> a = b"
  by (auto simp: nk_of_def)

lemma rb_key_row_for [simp]: "rb_key (row_for tenant t l rows) = nk_of tenant (nl_key l)"
  by (auto simp: row_for_def bucket_of_def dest: find_row_Some split: option.splits)

lemma bucket_of_upsert:
  "bucket_of k (upsert rb_key (\<lambda>r. r) new rows) =
   (if k = rb_key new then Some (case bucket_of k rows of None \<Rightarrow> new | Some r \<Rightarrow> r) else bucket_of k rows)"
proof (cases "k = rb_key new")
  case True
  then show ?thesis using find_row_upsert_same [of rb_key "\<lambda>r. r" new rows] by (simp add: bucket_of_def split: option.splits)
next
  case False
  then show ?thesis using find_row_upsert_other [of rb_key "\<lambda>r. r" k new rows] by (simp add: bucket_of_def)
qed

lemma lock_spec:
  assumes "distinct (map nl_key ls)" and "unique_keys rb_key rows" and "lock_buckets tenant clock i ls rows = (held, rows2)"
  shows "length held = length ls" "\<forall>j < length ls. held ! j = (row_for tenant (clock (i + j)) (ls ! j) rows, clock (i + j))"
    "unique_keys rb_key rows2" "\<forall>k. k \<notin> (\<lambda>l. nk_of tenant (nl_key l)) ` set ls \<longrightarrow> bucket_of k rows2 = bucket_of k rows"
    "\<forall>j < length ls. bucket_of (nk_of tenant (nl_key (ls ! j))) rows2 = Some (row_for tenant (clock (i + j)) (ls ! j) rows)"
proof -
  have "length held = length ls \<and> (\<forall>j < length ls. held ! j = (row_for tenant (clock (i + j)) (ls ! j) rows, clock (i + j))) \<and>
    unique_keys rb_key rows2 \<and> (\<forall>k. k \<notin> (\<lambda>l. nk_of tenant (nl_key l)) ` set ls \<longrightarrow> bucket_of k rows2 = bucket_of k rows) \<and>
    (\<forall>j < length ls. bucket_of (nk_of tenant (nl_key (ls ! j))) rows2 = Some (row_for tenant (clock (i + j)) (ls ! j) rows))"
    using assms
  proof (induction ls arbitrary: i rows held)
    case (Cons l ls)
    let ?new = "new_bucket tenant (clock i) l" and ?key = "\<lambda>l. nk_of tenant (nl_key l)"
    let ?rows1 = "upsert rb_key (\<lambda>r. r) ?new rows"
    obtain rest where lock: "lock_buckets tenant clock (Suc i) ls ?rows1 = (rest, rows2)"
      and held: "held = (row_for tenant (clock i) l rows, clock i) # rest"
      using Cons.prems(3) by (auto simp: Let_def case_prod_beta row_for_def prod_eq_iff)
    have "unique_keys rb_key ?rows1" using Cons.prems(2) by (rule unique_keys_upsert [rotated]) simp
    with Cons.IH [OF _ this lock] Cons.prems(1) have IH: "length rest = length ls"
      "\<forall>j < length ls. rest ! j = (row_for tenant (clock (Suc i + j)) (ls ! j) ?rows1, clock (Suc i + j))"
      "unique_keys rb_key rows2" "\<forall>k. k \<notin> ?key ` set ls \<longrightarrow> bucket_of k rows2 = bucket_of k ?rows1"
      "\<forall>j < length ls. bucket_of (?key (ls ! j)) rows2 = Some (row_for tenant (clock (Suc i + j)) (ls ! j) ?rows1)" by auto
    have fresh: "l' \<in> set ls \<Longrightarrow> nl_key l' \<noteq> nl_key l" for l' using Cons.prems(1) by (auto simp: image_iff)
    have same: "row_for tenant t (ls ! j) ?rows1 = row_for tenant t (ls ! j) rows" if "j < length ls" for t j
      using fresh [of "ls ! j"] that by (simp add: row_for_def bucket_of_upsert)
    have mine: "bucket_of (?key l) rows2 = Some (row_for tenant (clock i) l rows)"
    proof -
      have "?key l \<notin> ?key ` set ls" using fresh by (metis (no_types, lifting) imageE nk_of_inj)
      with IH(4) have "bucket_of (?key l) rows2 = bucket_of (?key l) ?rows1" by blast
      then show ?thesis by (simp add: bucket_of_upsert row_for_def)
    qed
    show ?case
    proof (intro conjI)
      show "\<forall>j < length (l # ls). held ! j = (row_for tenant (clock (i + j)) ((l # ls) ! j) rows, clock (i + j))"
        using IH(2) same by (auto simp: held nth_Cons split: nat.split)
      show "\<forall>k. k \<notin> ?key ` set (l # ls) \<longrightarrow> bucket_of k rows2 = bucket_of k rows"
        using IH(4) by (auto simp: bucket_of_upsert)
      show "\<forall>j < length (l # ls). bucket_of (?key ((l # ls) ! j)) rows2 = Some (row_for tenant (clock (i + j)) ((l # ls) ! j) rows)"
        using IH(5) same mine by (auto simp: nth_Cons split: nat.split)
    qed (use IH held in auto)
  qed simp
  then show "length held = length ls" "\<forall>j < length ls. held ! j = (row_for tenant (clock (i + j)) (ls ! j) rows, clock (i + j))"
    "unique_keys rb_key rows2" "\<forall>k. k \<notin> (\<lambda>l. nk_of tenant (nl_key l)) ` set ls \<longrightarrow> bucket_of k rows2 = bucket_of k rows"
    "\<forall>j < length ls. bucket_of (nk_of tenant (nl_key (ls ! j))) rows2 = Some (row_for tenant (clock (i + j)) (ls ! j) rows)" by auto
qed

lemma map_key_inj: "\<not> has_nul a \<Longrightarrow> \<not> has_nul b \<Longrightarrow>
   map_key (nk_global a) (nk_partition a) = map_key (nk_global b) (nk_partition b) \<longleftrightarrow> a = b"
  by (auto simp: has_nul_def map_key_def dest!: prefix_before [of _ NUL])

text \<open>The state of the j-th bucket of a reservation.\<close>

definition state_at :: "(nat \<Rightarrow> instant) \<Rightarrow> ident \<Rightarrow> norm_limit list \<Rightarrow> bucket_row list \<Rightarrow> nat \<Rightarrow> bucket_state" where
  "state_at clock tenant ls rows j = calculate_state (row_for tenant (clock j) (ls ! j) rows) (ls ! j) (clock 0)"

lemma state_limit [simp]: "bs_limit (calculate_state r l now) = l"
  by (simp add: calculate_state_def Let_def)

lemma state_at_limit [simp]: "bs_limit (state_at clock tenant ls rows j) = ls ! j"
  by (simp add: state_at_def)

lemma map_of_rev_distinct:
  "distinct (map fst xs) \<Longrightarrow> map_of (rev xs) = map_of xs"
  by (subst map_of_inject_set) (simp_all add: rev_map [symmetric])

lemma held_states:
  assumes "distinct (map nl_key ls)" and "\<forall>l \<in> set ls. \<not> has_nul (nl_key l)" and "unique_keys rb_key rows"
    and "lock_buckets tenant clock 0 ls rows = (held, rows2)"
  shows "map_or_throw (state_of held (clock 0)) ls = Inr (map (state_at clock tenant ls rows) [0..<length ls])"
proof -
  note sp = lock_spec [OF assms(1,3,4)]
  let ?keys = "map (\<lambda>(r, _). (map_key (rb_global_key r) (rb_partition_key r), r)) held"
  have key: "map_key (rb_global_key (fst (held ! j))) (rb_partition_key (fst (held ! j))) =
      map_key (nk_global (nl_key (ls ! j))) (nk_partition (nl_key (ls ! j)))" if "j < length ls" for j
  proof -
    have "rb_key (fst (held ! j)) = nk_of tenant (nl_key (ls ! j))" using sp(2) that by simp
    then show ?thesis by (simp add: rb_key_def nk_of_def)
  qed
  have fsts: "map fst ?keys = map (\<lambda>l. map_key (nk_global (nl_key l)) (nk_partition (nl_key l))) ls"
    by (rule nth_equalityI) (use sp(1) key in \<open>simp_all add: case_prod_beta\<close>)
  have dist: "distinct (map fst ?keys)" unfolding fsts
    using assms(1,2) map_key_inj by (auto simp: distinct_map inj_on_def)
  have look: "state_of held (clock 0) (ls ! j) = Inr (state_at clock tenant ls rows j)" if "j < length ls" for j
  proof -
    have "?keys ! j = (map_key (nk_global (nl_key (ls ! j))) (nk_partition (nl_key (ls ! j))), fst (held ! j))"
      using key that sp(1) by (simp add: case_prod_beta)
    then have "map_of ?keys (map_key (nk_global (nl_key (ls ! j))) (nk_partition (nl_key (ls ! j)))) = Some (fst (held ! j))"
      using map_of_is_SomeI [OF dist] nth_mem [of j ?keys] that sp(1) by simp
    then show ?thesis using sp(2) that by (simp add: state_of_def map_of_rev_distinct [OF dist] state_at_def)
  qed
  show ?thesis unfolding map_or_throw_map by (rule nth_equalityI) (simp_all add: look)
qed


definition settled_bucket :: "bucket_row \<Rightarrow> bucket_state \<Rightarrow> instant \<Rightarrow> bool \<Rightarrow> bucket_row" where
  "settled_bucket r s now consume =
     r\<lparr>rb_tokens := settled_tokens consume s, rb_capacity := nl_capacity (bs_limit s), rb_rate := nl_rate (bs_limit s),
       rb_refilled_at := now, rb_updated_at := now\<rparr>"

lemma reserve_runs:
  assumes "normalize_limits compare limits = Inr ls" and "\<forall>l \<in> set ls. \<not> has_nul (nl_key l)" and "unique_keys rb_key rows"
    and "lock_buckets tenant clock 0 ls rows = (held, rows2)"
  defines "result \<equiv> answer (clock 0) (map (state_at clock tenant ls rows) [0..<length ls])"
  shows "reserve compare clock tenant limits rows = Inr (result,
    settle_buckets tenant (map (state_at clock tenant ls rows) [0..<length ls]) (clock 0) (is_reserved result) rows2)"
proof -
  note ok = normalize_limits_ok [OF assms(1)]
  note sp = lock_spec [OF ok(3) assms(3,4), simplified] and states = held_states [OF ok(3) assms(2,3,4)]
  have "0 < length ls" using ok(1) by simp
  with sp(1,2) have now: "snd (hd held) = clock 0" by (cases held) (auto simp: hd_conv_nth)
  have nn: "\<not> list_ex (\<lambda>l. has_nul (nl_key l)) ls" using assms(2) by (simp add: list_ex_iff)
  show ?thesis by (simp add: reserve_def assms(1,4) nn states now Let_def result_def)
qed

text \<open>What a reservation that is answered does: the answer to its states, and each bucket settled.\<close>

lemma reserve_effect:
  assumes "reserve compare clock tenant limits rows = Inr (result, rows')" and "unique_keys rb_key rows"
  obtains ls where "normalize_limits compare limits = Inr ls" "\<forall>l \<in> set ls. \<not> has_nul (nl_key l)" "unique_keys rb_key rows'"
    "result = answer (clock 0) (map (state_at clock tenant ls rows) [0..<length ls])"
    "\<forall>j < length ls. bucket_of (nk_of tenant (nl_key (ls ! j))) rows' =
       Some (settled_bucket (row_for tenant (clock j) (ls ! j) rows) (state_at clock tenant ls rows j) (clock 0) (is_reserved result))"
    "\<forall>k. k \<notin> (\<lambda>l. nk_of tenant (nl_key l)) ` set ls \<longrightarrow> bucket_of k rows' = bucket_of k rows"
proof -
  from assms(1) obtain ls where ls: "normalize_limits compare limits = Inr ls" "\<forall>l \<in> set ls. \<not> has_nul (nl_key l)"
    by (auto simp: reserve_def list_ex_iff Let_def split: sum.splits if_splits)
  note ok = normalize_limits_ok [OF ls(1)]
  obtain held rows2 where lock: "lock_buckets tenant clock 0 ls rows = (held, rows2)" by force
  note sp = lock_spec [OF ok(3) assms(2) lock, simplified]
  let ?states = "map (state_at clock tenant ls rows) [0..<length ls]"
  from assms(1) reserve_runs [OF ls assms(2) lock] have res: "result = answer (clock 0) ?states"
    and rows': "rows' = settle_buckets tenant ?states (clock 0) (is_reserved result) rows2"
    by auto
  let ?f = "settle_bucket tenant ?states (clock 0) (is_reserved result)"
  have key: "rb_key (?f r) = rb_key r" for r by (simp add: settle_bucket_def rb_key_def split: option.splits)
  have bucket: "bucket_of k rows' = map_option ?f (bucket_of k rows2)" for k
  proof -
    have "settle_buckets tenant ?states (clock 0) (is_reserved result) rows2 = update_where (\<lambda>_. True) ?f rows2"
      by (simp add: settle_buckets_def update_where_def)
    then show ?thesis unfolding rows' bucket_of_def using find_row_update_where [of rb_key ?f k "\<lambda>_. True" rows2] key by simp
  qed
  show thesis
  proof (rule that [OF ls _ res])
    have "map rb_key rows' = map rb_key rows2" unfolding rows' settle_buckets_def map_map by (rule map_cong) (simp_all add: key)
    with sp(3) show "unique_keys rb_key rows'" by (simp add: unique_keys_def)
    show "\<forall>j < length ls. bucket_of (nk_of tenant (nl_key (ls ! j))) rows' =
       Some (settled_bucket (row_for tenant (clock j) (ls ! j) rows) (state_at clock tenant ls rows j) (clock 0) (is_reserved result))"
    proof (intro allI impI)
      fix j assume j: "j < length ls"
      let ?r = "row_for tenant (clock j) (ls ! j) rows"
      have "List.find (\<lambda>s. nk_of tenant (nl_key (bs_limit s)) = rb_key ?r) ?states = Some (state_at clock tenant ls rows j)"
        unfolding find_Some_iff
        by (intro exI [of _ j]) (use j ok(3) in \<open>auto simp: distinct_conv_nth\<close>)
      then have "?f ?r = settled_bucket ?r (state_at clock tenant ls rows j) (clock 0) (is_reserved result)"
        by (simp add: settle_bucket_def settled_bucket_def)
      with j sp(5) show "bucket_of (nk_of tenant (nl_key (ls ! j))) rows' =
          Some (settled_bucket ?r (state_at clock tenant ls rows j) (clock 0) (is_reserved result))"
        by (simp add: bucket)
    qed
    show "\<forall>k. k \<notin> (\<lambda>l. nk_of tenant (nl_key l)) ` set ls \<longrightarrow> bucket_of k rows' = bucket_of k rows"
    proof (intro allI impI)
      fix k assume k: "k \<notin> (\<lambda>l. nk_of tenant (nl_key l)) ` set ls"
      have "?f r = r" if "rb_key r = k" for r
      proof -
        have "List.find (\<lambda>s. nk_of tenant (nl_key (bs_limit s)) = rb_key r) ?states = None"
          unfolding find_None_iff using k that by (force simp: in_set_conv_nth)
        then show ?thesis by (simp add: settle_bucket_def)
      qed
      moreover have "bucket_of k rows2 = bucket_of k rows" using lock_spec(4) [OF ok(3) assms(2) lock] k by blast
      moreover have "rb_key r = k" if "bucket_of k rows = Some r" for r
        using that by (auto simp: bucket_of_def dest: find_row_Some)
      ultimately show "bucket_of k rows' = bucket_of k rows"
        unfolding bucket by (cases "bucket_of k rows") simp_all
    qed
  qed
qed

lemma state_available: "bs_available (calculate_state r l now) =
    min (nl_capacity l) (rb_tokens r + max 0 (of_int (now - rb_refilled_at r) / 1000) * nl_rate l)"
  by (simp add: calculate_state_def Let_def)

lemma state_retry: "bs_retry_at_ms (calculate_state r l now) =
    max (of_int now + (if nl_cost l \<le> bs_available (calculate_state r l now) then 0
           else (nl_cost l - bs_available (calculate_state r l now)) / nl_rate l * 1000))
      (of_int (case rb_blocked_until r of None \<Rightarrow> 0 | Some t \<Rightarrow> t))"
  by (simp add: calculate_state_def Let_def)

lemma answer_reserved: "is_reserved (answer now states) \<longleftrightarrow> (\<forall>s \<in> set states. bs_retry_at_ms s \<le> of_int now)"
  by (simp add: answer_def Let_def is_reserved_def filter_empty_conv not_less)

lemma retry_covers_cost:
  assumes "bs_retry_at_ms (calculate_state r l now) \<le> of_int now" and "limit_ok l"
  shows "nl_cost l \<le> bs_available (calculate_state r l now)"
proof (rule ccontr)
  assume "\<not> nl_cost l \<le> bs_available (calculate_state r l now)"
  then have lt: "bs_available (calculate_state r l now) < nl_cost l" by simp
  then have "bs_retry_at_ms (calculate_state r l now) \<ge>
      of_int now + (nl_cost l - bs_available (calculate_state r l now)) / nl_rate l * 1000"
    unfolding state_retry by simp
  moreover have "0 < (nl_cost l - bs_available (calculate_state r l now)) / nl_rate l * 1000"
    using lt assms(2) by (simp add: limit_ok_def)
  ultimately show False using assms(1) by linarith
qed


section \<open>Tokens stay within the capacity\<close>

lemma bucket_in: "unique_keys rb_key rows \<Longrightarrow> r \<in> set rows \<Longrightarrow> bucket_of (rb_key r) rows = Some r"
  by (simp add: bucket_of_def find_row_unique)

lemma row_for_ok: "buckets_ok rows \<Longrightarrow> limit_ok l \<Longrightarrow> bucket_ok (row_for tenant t l rows)"
  by (auto simp: row_for_def bucket_of_def buckets_ok_def limit_ok_def bucket_ok_def new_bucket_def dest!: find_row_Some split: option.splits)

lemma available_pos: "bucket_ok r \<Longrightarrow> limit_ok l \<Longrightarrow> 0 \<le> bs_available (calculate_state r l now)"
  by (auto simp: state_available bucket_ok_def limit_ok_def)

lemma settled_ok: "limit_ok l \<Longrightarrow> bucket_ok (settled_bucket r (calculate_state r' l now) now consume)"
  by (auto simp: settled_bucket_def settled_tokens_def bucket_ok_def limit_ok_def state_available)

lemma reserve_buckets_ok:
  assumes "reserve compare clock tenant limits rows = Inr (result, rows')" and "buckets_ok rows"
  shows "buckets_ok rows'"
proof -
  have uq: "unique_keys rb_key rows" using assms(2) by (simp add: buckets_ok_def)
  obtain ls where ls: "normalize_limits compare limits = Inr ls" and uq': "unique_keys rb_key rows'"
    and named: "\<forall>j < length ls. bucket_of (nk_of tenant (nl_key (ls ! j))) rows' =
       Some (settled_bucket (row_for tenant (clock j) (ls ! j) rows) (state_at clock tenant ls rows j) (clock 0) (is_reserved result))"
    and others: "\<forall>k. k \<notin> (\<lambda>l. nk_of tenant (nl_key l)) ` set ls \<longrightarrow> bucket_of k rows' = bucket_of k rows"
    by (rule reserve_effect [OF assms(1) uq])
  have "bucket_ok r" if r: "r \<in> set rows'" for r
  proof (cases "rb_key r \<in> (\<lambda>l. nk_of tenant (nl_key l)) ` set ls")
    case True
    then obtain j where j: "j < length ls" "rb_key r = nk_of tenant (nl_key (ls ! j))" by (auto simp: in_set_conv_nth)
    with named bucket_in [OF uq' r] have
      "r = settled_bucket (row_for tenant (clock j) (ls ! j) rows) (state_at clock tenant ls rows j) (clock 0) (is_reserved result)" by auto
    with settled_ok normalize_limits_ok(2) [OF ls] j(1) show ?thesis by (simp add: state_at_def)
  next
    case False
    with others bucket_in [OF uq' r] have "bucket_of (rb_key r) rows = Some r" by metis
    then have "r \<in> set rows" by (auto simp: bucket_of_def dest: find_row_Some)
    with assms(2) show ?thesis by (simp add: buckets_ok_def)
  qed
  with uq' show ?thesis by (simp add: buckets_ok_def)
qed

lemma update_blocked_ok:
  "update_blocked_rows tenant ks now til rows = Inr rows' \<Longrightarrow> buckets_ok rows \<Longrightarrow> buckets_ok rows'"
proof (induction tenant ks now til rows rule: update_blocked_rows.induct)
  case (2 tenant k ks now til rows)
  let ?f = "\<lambda>r. r\<lparr>rb_blocked_until := Some (case rb_blocked_until r of None \<Rightarrow> til | Some t \<Rightarrow> max t til), rb_updated_at := now\<rparr>"
  let ?rows = "update_where (\<lambda>r. rb_key r = nk_of tenant k) ?f rows"
  have "map rb_key ?rows = map rb_key rows" by (rule map_update_where) (simp add: rb_key_def)
  moreover have "\<forall>r \<in> set ?rows. bucket_ok r"
    using 2(3) by (auto simp: update_where_def buckets_ok_def bucket_ok_def)
  ultimately have "buckets_ok ?rows" using 2(3) by (simp add: buckets_ok_def unique_keys_def)
  with 2 show ?case by (auto split: if_splits)
qed simp

inductive rate_step :: "bucket_row list \<Rightarrow> bucket_row list \<Rightarrow> bool" where
  reserves: "reserve compare clock tenant limits rows = Inr (result, rows') \<Longrightarrow> rate_step rows rows'"
| pushes_back: "apply_retry_after compare now tenant keys ms rows = Inr (til, rows') \<Longrightarrow> rate_step rows rows'"

inductive_cases rate_stepE: "rate_step rows rows'"

text \<open>A bucket never holds less than nothing nor more than its capacity, and each tenant has one row per key,
  whatever is reserved or pushed back, with whatever clocks: the table's checks never refuse a
  reservation.\<close>

theorem tokens_within_capacity:
  assumes "rate_step\<^sup>*\<^sup>* rows rows'" and "buckets_ok rows"
  shows "unique_keys rb_key rows' \<and> (\<forall>r \<in> set rows'. 0 \<le> rb_tokens r \<and> rb_tokens r \<le> rb_capacity r \<and> 0 < rb_capacity r \<and> 0 < rb_rate r)"
proof -
  have "buckets_ok rows'" using assms
  proof (induction rule: rtranclp_induct)
    case (step y z)
    then have "buckets_ok y" by simp
    with step(2) show ?case
      by (auto elim!: rate_stepE intro: reserve_buckets_ok update_blocked_ok simp: apply_retry_after_def Let_def split: sum.splits)
  qed
  then show ?thesis by (auto simp: buckets_ok_def bucket_ok_def)
qed

section \<open>A bucket grants what it holds and refills\<close>

definition spent_on :: "(string \<Rightarrow> string \<Rightarrow> int) \<Rightarrow> norm_key \<Rightarrow> rate_limit list \<Rightarrow> rate_result \<Rightarrow> rat" where
  "spent_on compare k limits result =
     (case normalize_limits compare limits of
        Inl _ \<Rightarrow> 0
      | Inr ls \<Rightarrow> if is_reserved result then sum_list (map nl_cost (filter (\<lambda>l. nl_key l = k) ls)) else 0)"

text \<open>Reservations one after another, and what they are granted of one bucket.\<close>

fun reserve_all ::
  "(string \<Rightarrow> string \<Rightarrow> int) \<Rightarrow> ident \<Rightarrow> norm_key \<Rightarrow> (instant \<times> rate_limit list) list \<Rightarrow> bucket_row list \<Rightarrow> rat \<times> bucket_row list"
where
  "reserve_all compare tenant k [] rows = (0, rows)"
| "reserve_all compare tenant k ((now, limits) # rest) rows =
     (case reserve compare (\<lambda>_. now) tenant limits rows of
        Inl _ \<Rightarrow> reserve_all compare tenant k rest rows
      | Inr (result, rows1) \<Rightarrow>
          (let (g, rows2) = reserve_all compare tenant k rest rows1 in (spent_on compare k limits result + g, rows2)))"

lemma filter_key_one: "distinct (map f xs) \<Longrightarrow> x \<in> set xs \<Longrightarrow> filter (\<lambda>y. f y = f x) xs = [x]"
proof (induction xs)
  case (Cons y ys)
  show ?case
  proof (cases "x = y")
    case True
    have "f y \<notin> f ` set ys" using Cons.prems(1) by simp
    then have "filter (\<lambda>z. f z = f y) ys = []" unfolding filter_empty_conv by (metis imageI)
    with True show ?thesis by simp
  next
    case False
    with Cons.prems have "x \<in> set ys" "f y \<noteq> f x" by (auto dest: imageI [of x _ f])
    with Cons show ?thesis by simp
  qed
qed simp

lemma reserve_spends:
  assumes "reserve compare (\<lambda>_. now) tenant limits rows = Inr (result, rows')" and "buckets_ok rows"
    and "bucket_of (nk_of tenant k) rows = Some r" and "rb_refilled_at r \<le> now" and "0 \<le> R"
    and rate: "\<forall>ls. normalize_limits compare limits = Inr ls \<longrightarrow> (\<forall>l \<in> set ls. nl_key l = k \<longrightarrow> nl_rate l = R)"
  shows "\<exists>r'. bucket_of (nk_of tenant k) rows' = Some r' \<and> rb_refilled_at r' \<le> now \<and>
    spent_on compare k limits result + rb_tokens r' + R * of_int (now - rb_refilled_at r') / 1000 \<le>
    rb_tokens r + R * of_int (now - rb_refilled_at r) / 1000"
proof -
  have uq: "unique_keys rb_key rows" using assms(2) by (simp add: buckets_ok_def)
  obtain ls where ls: "normalize_limits compare limits = Inr ls"
    and res: "result = answer now (map (state_at (\<lambda>_. now) tenant ls rows) [0..<length ls])"
    and named: "\<forall>j < length ls. bucket_of (nk_of tenant (nl_key (ls ! j))) rows' =
       Some (settled_bucket (row_for tenant now (ls ! j) rows) (state_at (\<lambda>_. now) tenant ls rows j) now (is_reserved result))"
    and others: "\<forall>k. k \<notin> (\<lambda>l. nk_of tenant (nl_key l)) ` set ls \<longrightarrow> bucket_of k rows' = bucket_of k rows"
    by (rule reserve_effect [OF assms(1) uq])
  note ok = normalize_limits_ok [OF ls]
  show ?thesis
  proof (cases "k \<in> nl_key ` set ls")
    case False
    then have "nk_of tenant k \<notin> (\<lambda>l. nk_of tenant (nl_key l)) ` set ls" by auto
    moreover have "filter (\<lambda>l. nl_key l = k) ls = []" using False by (auto simp: filter_empty_conv)
    then have "spent_on compare k limits result = 0" by (simp add: spent_on_def ls)
    moreover from calculation others assms(3) have "bucket_of (nk_of tenant k) rows' = Some r" by metis
    ultimately show ?thesis using assms(4) by auto
  next
    case True
    then obtain j where j: "j < length ls" "nl_key (ls ! j) = k" by (auto simp: in_set_conv_nth)
    let ?l = "ls ! j" and ?s = "calculate_state r (ls ! j) now"
    have l: "limit_ok ?l" "nl_rate ?l = R" using ok(2) rate ls j by auto
    have st: "state_at (\<lambda>_. now) tenant ls rows j = ?s" using assms(3) j(2) by (simp add: state_at_def row_for_def)
    have row: "row_for tenant now ?l rows = r" using assms(3) j(2) by (simp add: row_for_def)
    from assms(2,3) have rok: "bucket_ok r" by (auto simp: buckets_ok_def bucket_of_def dest!: find_row_Some)
    have avail: "0 \<le> bs_available ?s" by (rule available_pos [OF rok l(1)])
    have "bs_available ?s \<le> rb_tokens r + max 0 (of_int (now - rb_refilled_at r) / 1000) * R"
      using l(2) by (simp add: state_available)
    also have "max 0 (of_int (now - rb_refilled_at r) / 1000) = (of_int (now - rb_refilled_at r) / 1000 :: rat)"
      using assms(4) by simp
    finally have most: "bs_available ?s \<le> rb_tokens r + R * of_int (now - rb_refilled_at r) / 1000" by (simp add: mult.commute)
    have "filter (\<lambda>l. nl_key l = k) ls = [?l]"
      using filter_key_one [OF ok(3), of ?l] j by simp
    then have spent: "spent_on compare k limits result = (if is_reserved result then nl_cost ?l else 0)"
      by (simp add: spent_on_def ls)
    have cover: "nl_cost ?l \<le> bs_available ?s" if "is_reserved result"
    proof -
      have "?s \<in> set (map (state_at (\<lambda>_. now) tenant ls rows) [0..<length ls])" using j(1) st by force
      with that have "bs_retry_at_ms ?s \<le> of_int now" unfolding res answer_reserved by blast
      then show ?thesis by (rule retry_covers_cost [OF _ l(1)])
    qed
    let ?r' = "settled_bucket r ?s now (is_reserved result)"
    have "bucket_of (nk_of tenant k) rows' = Some ?r'" using named j st row by auto
    moreover have "spent_on compare k limits result + rb_tokens ?r' = bs_available ?s"
      using spent cover avail by (auto simp: settled_bucket_def settled_tokens_def)
    ultimately show ?thesis using most by (intro exI [of _ ?r']) (simp add: settled_bucket_def)
  qed
qed

text \<open>Property C37: a bucket grants no more than it holds and refills. Of reservations made one after another, each with one
  clock for all its buckets that no earlier reservation was ahead of, those granted take from a bucket
  at most what it held at first and what its rate refilled since, so at most its capacity and that.\<close>

theorem grants_bounded:
  assumes "reserve_all compare tenant k requests rows = (g, rows')" and "buckets_ok rows"
    and "bucket_of (nk_of tenant k) rows = Some r" and "sorted (rb_refilled_at r # map fst requests @ [til])" and "0 \<le> R"
    and "\<forall>(now, limits) \<in> set requests. \<forall>ls. normalize_limits compare limits = Inr ls \<longrightarrow>
      (\<forall>l \<in> set ls. nl_key l = k \<longrightarrow> nl_rate l = R)"
  shows "g \<le> rb_tokens r + R * of_int (til - rb_refilled_at r) / 1000 \<and>
    g \<le> rb_capacity r + R * of_int (til - rb_refilled_at r) / 1000"
proof -
  have "g \<le> rb_tokens r + R * of_int (til - rb_refilled_at r) / 1000"
    using assms
  proof (induction requests arbitrary: rows r g)
    case Nil
    then have "0 \<le> rb_tokens r" by (auto simp: buckets_ok_def bucket_of_def bucket_ok_def dest!: find_row_Some)
    with Nil show ?case by simp
  next
    case (Cons q rest)
    obtain now limits where q: "q = (now, limits)" by force
    show ?case
    proof (cases "reserve compare (\<lambda>_. now) tenant limits rows")
      case (Inl e)
      with Cons q show ?thesis by simp
    next
      case (Inr out)
      obtain result rows1 where out: "out = (result, rows1)" by force
      with Inr have run: "reserve compare (\<lambda>_. now) tenant limits rows = Inr (result, rows1)" by simp
      from Cons.prems(1) obtain g1 where g1: "reserve_all compare tenant k rest rows1 = (g1, rows')"
        "g = spent_on compare k limits result + g1" by (auto simp: q run Let_def split: prod.splits)
      have late: "rb_refilled_at r \<le> now" using Cons.prems(4) by (simp add: q)
      have rates: "\<forall>ls. normalize_limits compare limits = Inr ls \<longrightarrow> (\<forall>l \<in> set ls. nl_key l = k \<longrightarrow> nl_rate l = R)"
        using Cons.prems(6) by (auto simp: q)
      obtain r1 where r1: "bucket_of (nk_of tenant k) rows1 = Some r1" "rb_refilled_at r1 \<le> now"
        "spent_on compare k limits result + rb_tokens r1 + R * of_int (now - rb_refilled_at r1) / 1000 \<le>
         rb_tokens r + R * of_int (now - rb_refilled_at r) / 1000"
        using reserve_spends [OF run Cons.prems(2,3) late Cons.prems(5) rates] by blast
      have "sorted (rb_refilled_at r1 # map fst rest @ [til])" using Cons.prems(4) r1(2) by (fastforce simp: q)
      moreover have "\<forall>(now, limits) \<in> set rest. \<forall>ls. normalize_limits compare limits = Inr ls \<longrightarrow>
          (\<forall>l \<in> set ls. nl_key l = k \<longrightarrow> nl_rate l = R)" using Cons.prems(6) by simp
      ultimately have "g1 \<le> rb_tokens r1 + R * of_int (til - rb_refilled_at r1) / 1000"
        using Cons.IH [OF g1(1) reserve_buckets_ok [OF run Cons.prems(2)] r1(1) _ Cons.prems(5)] by blast
      with r1(3) g1(2) show ?thesis by (simp add: field_simps)
    qed
  qed
  moreover have "rb_tokens r \<le> rb_capacity r"
    using assms(2,3) by (auto simp: buckets_ok_def bucket_of_def bucket_ok_def dest!: find_row_Some)
  ultimately show ?thesis by simp
qed


section \<open>The delay is enough\<close>

lemma date_of_pos: "0 \<le> x \<Longrightarrow> date_of x = \<lfloor>x\<rfloor>"
  by (simp add: date_of_def)

lemma max_list_of_ge: "x \<in> set xs \<Longrightarrow> x \<le> max_list_of xs"
proof -
  have "y \<le> fold max ys y \<and> (\<forall>z \<in> set ys. z \<le> fold max ys y)" for y :: rat and ys
  proof (induction ys arbitrary: y)
    case (Cons z ys)
    from Cons [of "max z y"] show ?case by auto
  qed simp
  then show "x \<in> set xs \<Longrightarrow> x \<le> max_list_of xs" by (cases xs) auto
qed

text \<open>A blocked call's delay reaches past every bucket's.\<close>

lemma delay_reaches:
  assumes "answer now states = Blocked tm ms keys" and "s \<in> set states"
  shows "bs_retry_at_ms s \<le> of_int (now + ms)"
proof -
  let ?blocked = "filter (\<lambda>s. of_int now < bs_retry_at_ms s) states"
  from assms(1) have ms: "ms = max 1 \<lceil>max_list_of (map bs_retry_at_ms ?blocked) - of_int now\<rceil>"
    by (simp add: answer_def Let_def split: if_splits)
  show ?thesis
  proof (cases "of_int now < bs_retry_at_ms s")
    case True
    with assms(2) have "bs_retry_at_ms s \<le> max_list_of (map bs_retry_at_ms ?blocked)" by (intro max_list_of_ge) auto
    moreover have "max_list_of (map bs_retry_at_ms ?blocked) - of_int now \<le> of_int ms"
      using le_of_int_ceiling [of "max_list_of (map bs_retry_at_ms ?blocked) - of_int now"] ms by linarith
    ultimately show ?thesis by simp
  next
    case False
    with ms show ?thesis by simp
  qed
qed

lemma settled_retry:
  assumes l: "limit_ok l" and r: "bucket_ok r" and late: "bs_retry_at_ms (calculate_state r l now) \<le> of_int later" "now \<le> later"
  shows "bs_retry_at_ms (calculate_state (settled_bucket r (calculate_state r l now) now False) l later) \<le> of_int later"
proof -
  let ?s = "calculate_state r l now" and ?r = "settled_bucket r (calculate_state r l now) now False"
  have tok: "rb_tokens ?r = bs_available ?s" and ref: "rb_refilled_at ?r = now" and blk: "rb_blocked_until ?r = rb_blocked_until r"
    using available_pos [OF r l, of now] by (simp_all add: settled_bucket_def settled_tokens_def)
  have "of_int now + (if nl_cost l \<le> bs_available ?s then 0 else (nl_cost l - bs_available ?s) / nl_rate l * 1000) \<le> of_int later"
    and blocked: "of_int (case rb_blocked_until r of None \<Rightarrow> 0 | Some t \<Rightarrow> t) \<le> (of_int later :: rat)"
    using late(1) unfolding state_retry by simp_all
  then have delay: "(if nl_cost l \<le> bs_available ?s then 0 else (nl_cost l - bs_available ?s) / nl_rate l * 1000) \<le> of_int (later - now)"
    by simp
  have "nl_cost l - bs_available ?s \<le> of_int (later - now) / 1000 * nl_rate l"
  proof (cases "nl_cost l \<le> bs_available ?s")
    case True
    moreover have "0 \<le> of_int (later - now) / 1000 * nl_rate l" using l late(2) by (simp add: limit_ok_def)
    ultimately show ?thesis by linarith
  next
    case False
    with delay have "(nl_cost l - bs_available ?s) / nl_rate l \<le> of_int (later - now) / 1000" by simp
    with l show ?thesis by (simp add: limit_ok_def pos_divide_le_eq)
  qed
  then have "nl_cost l \<le> bs_available (calculate_state ?r l later)"
    using l late(2) by (simp add: state_available [of ?r] tok ref limit_ok_def)
  then show ?thesis unfolding state_retry [of ?r] blk using blocked by simp
qed

text \<open>A caller that waits as long as it is told gets through. A call refused with a delay, made again that
  much later or later still, is granted, if nothing else drew on or pushed back its buckets meanwhile.\<close>

theorem delay_is_enough:
  assumes "reserve compare (\<lambda>_. now) tenant limits rows = Inr (Blocked tm ms keys, rows')" and "buckets_ok rows"
    and "now + ms \<le> later"
  shows "\<exists>remaining rows''. reserve compare (\<lambda>_. later) tenant limits rows' = Inr (Reserved later remaining, rows'')"
proof -
  have uq: "unique_keys rb_key rows" using assms(2) by (simp add: buckets_ok_def)
  obtain ls where ls: "normalize_limits compare limits = Inr ls" "\<forall>l \<in> set ls. \<not> has_nul (nl_key l)"
    and uq': "unique_keys rb_key rows'"
    and res: "Blocked tm ms keys = answer now (map (state_at (\<lambda>_. now) tenant ls rows) [0..<length ls])"
    and named: "\<forall>j < length ls. bucket_of (nk_of tenant (nl_key (ls ! j))) rows' =
       Some (settled_bucket (row_for tenant now (ls ! j) rows) (state_at (\<lambda>_. now) tenant ls rows j) now
         (is_reserved (Blocked tm ms keys)))"
    by (rule reserve_effect [OF assms(1) uq])
  have no: "is_reserved (Blocked tm ms keys) = False" by (simp add: is_reserved_def)
  note ok = normalize_limits_ok [OF ls(1)]
  have "1 \<le> ms" using res [symmetric] by (auto simp: answer_def Let_def split: if_splits)
  with assms(3) have late: "now \<le> later" by simp
  have "bs_retry_at_ms (state_at (\<lambda>_. later) tenant ls rows' j) \<le> of_int later" if j: "j < length ls" for j
  proof -
    let ?r = "row_for tenant now (ls ! j) rows"
    have l: "limit_ok (ls ! j)" using ok(2) j by simp
    have "bs_retry_at_ms (state_at (\<lambda>_. now) tenant ls rows j) \<le> of_int (now + ms)"
      using delay_reaches [OF res [symmetric]] j by simp
    also have "of_int (now + ms) \<le> (of_int later :: rat)" using assms(3) unfolding of_int_le_iff .
    finally have "bs_retry_at_ms (calculate_state ?r (ls ! j) now) \<le> of_int later" by (simp add: state_at_def)
    from settled_retry [OF l row_for_ok [OF assms(2) l] this late]
    show ?thesis using named j unfolding no by (simp add: state_at_def row_for_def)
  qed
  then have "is_reserved (answer later (map (state_at (\<lambda>_. later) tenant ls rows') [0..<length ls]))"
    unfolding answer_reserved by auto
  then obtain remaining where "answer later (map (state_at (\<lambda>_. later) tenant ls rows') [0..<length ls]) = Reserved later remaining"
    by (auto simp: answer_def Let_def is_reserved_def split: if_splits)
  moreover obtain held rows2 where "lock_buckets tenant (\<lambda>_. later) 0 ls rows' = (held, rows2)" by force
  ultimately show ?thesis using reserve_runs [OF ls uq', of tenant "\<lambda>_. later"] by auto
qed

section \<open>Clocks and dates\<close>

definition ex_limit :: "string \<Rightarrow> rat \<Rightarrow> rate_limit" where
  "ex_limit g rate = \<lparr>rl_key = \<lparr>bk_global = g, bk_partition = None\<rparr>, rl_capacity = Finite 1, rl_rate = Finite rate, rl_cost = None\<rparr>"

definition ex_norm :: "string \<Rightarrow> rat \<Rightarrow> norm_limit" where
  "ex_norm g rate = \<lparr>nl_key = \<lparr>nk_global = g, nk_partition = []\<rparr>, nl_capacity = 1, nl_rate = rate, nl_cost = 1\<rparr>"

definition ex_reserve :: "(nat \<Rightarrow> instant) \<Rightarrow> rate_limit list \<Rightarrow> bucket_row list \<Rightarrow> rate_error + rate_result \<times> bucket_row list" where
  "ex_reserve clock = reserve (\<lambda>_ _. 0) clock ''t''"

definition ex_bucket :: "string \<Rightarrow> rat \<Rightarrow> rat \<Rightarrow> instant \<Rightarrow> bucket_row" where
  "ex_bucket g rate tokens tm = \<lparr>rb_tenant_id = ''t'', rb_global_key = g, rb_partition_key = [], rb_capacity = 1, rb_tokens = tokens,
     rb_rate = rate, rb_refilled_at = tm, rb_blocked_until = None, rb_updated_at = tm\<rparr>"

lemma ex_normalize:
  "0 < rate \<Longrightarrow> normalize_limits (\<lambda>_ _. 0) [ex_limit ''b'' rate] = Inr [ex_norm ''b'' rate]"
  "0 < rate \<Longrightarrow> normalize_limits (\<lambda>_ _. 0) [ex_limit ''a'' rate, ex_limit ''b'' rate] = Inr [ex_norm ''a'' rate, ex_norm ''b'' rate]"
  by (simp_all add: normalize_limits_def normalize_limit_def ex_limit_def require_positive_finite_def normalize_key_def ex_norm_def
      require_key_part_def sort_by_def compare_limits_def compare_keys_def unique_keys_answer')

lemmas rate_eval = Let_def ex_reserve_def reserve_def ex_normalize has_nul_def NUL_def new_bucket_def ex_norm_def ex_bucket_def
  bucket_of_def rb_key_def nk_of_def state_of_def map_key_def calculate_state_def answer_def is_reserved_def settle_buckets_def
  settle_bucket_def settled_tokens_def date_of_def blocking_key_def

lemma ex_first: "0 < rate \<Longrightarrow> ex_reserve (\<lambda>_. 10000) [ex_limit ''b'' rate] [] = Inr (Reserved 10000 0, [ex_bucket ''b'' rate 0 10000])"
  by (simp add: rate_eval)

text \<open>The date a blocked caller is given can be too soon. \<open>retryAt\<close> is a \<open>Date\<close>, so its fraction of a
  millisecond is dropped: of a bucket refilled three times a second, a call refused until then and made
  again exactly then is refused once more.\<close>

theorem retry_date_too_soon:
  "\<exists>rows tm ms keys rows' tm' ms' keys' rows''.
     ex_reserve (\<lambda>_. 10000) [ex_limit ''b'' 3] [] = Inr (Reserved 10000 0, rows) \<and>
     ex_reserve (\<lambda>_. 10000) [ex_limit ''b'' 3] rows = Inr (Blocked tm ms keys, rows') \<and>
     ex_reserve (\<lambda>_. tm) [ex_limit ''b'' 3] rows' = Inr (Blocked tm' ms' keys', rows'') \<and> tm = 10333 \<and> ms = 334"
proof -
  have f: "\<lfloor>31000 / (3 :: rat)\<rfloor> = 10333" "\<lceil>31000 / (3 :: rat)\<rceil> = 10334" by (simp_all add: floor_eq_iff ceiling_eq_iff)
  have two: "ex_reserve (\<lambda>_. 10000) [ex_limit ''b'' 3] [ex_bucket ''b'' 3 0 10000] =
      Inr (Blocked 10333 334 [\<lparr>bk_global = ''b'', bk_partition = None\<rparr>], [ex_bucket ''b'' 3 0 10000])"
    by (simp add: rate_eval f)
  have "\<exists>tm' ms' keys' rows''. ex_reserve (\<lambda>_. 10333) [ex_limit ''b'' 3] [ex_bucket ''b'' 3 0 10000] = Inr (Blocked tm' ms' keys', rows'')"
    by (simp add: rate_eval)
  with ex_first [of 3] two show ?thesis by fastforce
qed

text \<open>A call for several buckets can hand out time twice. The clock of a reservation is the one read when its
  first bucket was locked, however long it waited for the next: here a call that read the clock at
  9000 gets its second bucket after another call took the bucket's only token at 10000, and moves
  its refill back to 9000; the next call, still at 10000, is granted the token again.\<close>

theorem stale_clock_grants_twice:
  "\<exists>rows1 tm ms keys rows2 rows3.
     ex_reserve (\<lambda>_. 10000) [ex_limit ''b'' 1] [] = Inr (Reserved 10000 0, rows1) \<and>
     ex_reserve (\<lambda>i. if i = 0 then 9000 else 10000) [ex_limit ''a'' 1, ex_limit ''b'' 1] rows1 = Inr (Blocked tm ms keys, rows2) \<and>
     ex_reserve (\<lambda>_. 10000) [ex_limit ''b'' 1] rows2 = Inr (Reserved 10000 0, rows3)"
proof -
  have two: "ex_reserve (\<lambda>i. if i = 0 then 9000 else 10000) [ex_limit ''a'' 1, ex_limit ''b'' 1] [ex_bucket ''b'' 1 0 10000] =
      Inr (Blocked 10000 1000 [\<lparr>bk_global = ''b'', bk_partition = None\<rparr>], [ex_bucket ''b'' 1 0 9000, ex_bucket ''a'' 1 1 9000])"
    by (simp add: rate_eval)
  have "\<exists>rows3. ex_reserve (\<lambda>_. 10000) [ex_limit ''b'' 1] [ex_bucket ''b'' 1 0 9000, ex_bucket ''a'' 1 1 9000] =
      Inr (Reserved 10000 0, rows3)"
    by (simp add: rate_eval)
  with ex_first [of 1] two show ?thesis by fastforce
qed

section \<open>Witnesses\<close>

lemma ex_bucket_ok: "buckets_ok [ex_bucket ''b'' 3 0 10000]"
  by (simp add: buckets_ok_def unique_keys_def bucket_ok_def ex_bucket_def)

theorem tokens_within_capacity_witness:
  "rate_step\<^sup>*\<^sup>* [] [ex_bucket ''b'' 3 0 10000] \<and> rb_tokens (ex_bucket ''b'' 3 0 10000) \<le> rb_capacity (ex_bucket ''b'' 3 0 10000)"
proof -
  have "rate_step [] [ex_bucket ''b'' 3 0 10000]"
    by (rule reserves [OF ex_first [of 3, unfolded ex_reserve_def]]) simp
  then have run: "rate_step\<^sup>*\<^sup>* [] [ex_bucket ''b'' 3 0 10000]" by blast
  from tokens_within_capacity [OF run] run show ?thesis by (simp add: buckets_ok_def unique_keys_def)
qed

theorem grants_bounded_witness:
  "\<exists>g rows'. reserve_all (\<lambda>_ _. 0) ''t'' \<lparr>nk_global = ''b'', nk_partition = []\<rparr>
     [(10000, [ex_limit ''b'' 3]), (10500, [ex_limit ''b'' 3])] [ex_bucket ''b'' 3 0 10000] = (g, rows') \<and> g \<le> 3"
proof -
  let ?k = "\<lparr>nk_global = ''b'', nk_partition = []\<rparr>"
  obtain g rows' where run: "reserve_all (\<lambda>_ _. 0) ''t'' ?k [(10000, [ex_limit ''b'' 3]), (10500, [ex_limit ''b'' 3])]
      [ex_bucket ''b'' 3 0 10000] = (g, rows')" by force
  have "bucket_of (nk_of ''t'' ?k) [ex_bucket ''b'' 3 0 10000] = Some (ex_bucket ''b'' 3 0 10000)"
    by (simp add: bucket_of_def nk_of_def rb_key_def ex_bucket_def)
  moreover have "sorted (rb_refilled_at (ex_bucket ''b'' 3 0 10000) # map fst [(10000, [ex_limit ''b'' 3]), (10500, [ex_limit ''b'' 3])] @ [11000])"
    by (simp add: ex_bucket_def)
  moreover have "\<forall>(now, limits) \<in> set [(10000 :: int, [ex_limit ''b'' 3]), (10500, [ex_limit ''b'' 3])]. \<forall>ls.
      normalize_limits (\<lambda>_ _. 0) limits = Inr ls \<longrightarrow> (\<forall>l \<in> set ls. nl_key l = ?k \<longrightarrow> nl_rate l = 3)"
    by (simp add: ex_normalize ex_norm_def)
  ultimately have "g \<le> rb_tokens (ex_bucket ''b'' 3 0 10000) + 3 * of_int (11000 - rb_refilled_at (ex_bucket ''b'' 3 0 10000)) / 1000"
    using grants_bounded [OF run ex_bucket_ok, of "ex_bucket ''b'' 3 0 10000" 11000 3] by simp
  with run show ?thesis by (simp add: ex_bucket_def)
qed

theorem delay_is_enough_witness:
  "\<exists>tm ms keys rows' remaining rows''.
     reserve (\<lambda>_ _. 0) (\<lambda>_. 10000) ''t'' [ex_limit ''b'' 3] [ex_bucket ''b'' 3 0 10000] = Inr (Blocked tm ms keys, rows') \<and>
     reserve (\<lambda>_ _. 0) (\<lambda>_. 10000 + ms) ''t'' [ex_limit ''b'' 3] rows' = Inr (Reserved (10000 + ms) remaining, rows'')"
proof -
  have "\<exists>tm ms keys rows'. reserve (\<lambda>_ _. 0) (\<lambda>_. 10000) ''t'' [ex_limit ''b'' 3] [ex_bucket ''b'' 3 0 10000] =
      Inr (Blocked tm ms keys, rows')" by (simp add: rate_eval)
  then obtain tm ms keys rows' where run: "reserve (\<lambda>_ _. 0) (\<lambda>_. 10000) ''t'' [ex_limit ''b'' 3] [ex_bucket ''b'' 3 0 10000] =
      Inr (Blocked tm ms keys, rows')" by blast
  from delay_is_enough [OF run ex_bucket_ok order_refl] run show ?thesis by blast
qed

end
