(* ===== verification/Replica_Claims.thy ===== *)
theory Replica_Claims
  imports Prelude
begin

text \<open>
  Named claims between processes, \<open>packages/core/src/services/replica-claims.ts\<close>: who holds a name, for how
  long, and how a process that works under one stops in time. The database's clock and the processes'
  run at one rate, so one clock is modelled; a request to the database is sent, executed and answered
  at three times. A process is named by the UUID it holds its claim with. Timers fire when they are
  due; a process may also die at any time.
\<close>

section \<open>Claims\<close>

record claim_row =
  rc_name :: string
  rc_holder :: ident
  rc_expires_at :: instant

definition take_replica_claim :: "instant \<Rightarrow> string \<Rightarrow> ident \<Rightarrow> int \<Rightarrow> claim_row list \<Rightarrow> bool \<times> claim_row list" where
  "take_replica_claim now name holder ttl rows =
     (let row = \<lparr>rc_name = name, rc_holder = holder, rc_expires_at = now + ttl * 1000\<rparr> in
      case find_row rc_name name rows of
        None \<Rightarrow> (True, rows @ [row])
      | Some r \<Rightarrow> if rc_expires_at r \<le> now then (True, update_where (\<lambda>x. rc_name x = name) (\<lambda>_. row) rows) else (False, rows))"

definition renew_replica_claim :: "instant \<Rightarrow> string \<Rightarrow> ident \<Rightarrow> int \<Rightarrow> claim_row list \<Rightarrow> bool \<times> claim_row list" where
  "renew_replica_claim now name holder ttl rows =
     (let p = (\<lambda>r. rc_name r = name \<and> rc_holder r = holder \<and> now < rc_expires_at r)
      in (length (filter p rows) = 1, update_where p (\<lambda>r. r\<lparr>rc_expires_at := now + ttl * 1000\<rparr>) rows))"

definition release_replica_claim :: "string \<Rightarrow> ident \<Rightarrow> claim_row list \<Rightarrow> claim_row list" where
  "release_replica_claim name holder rows = filter (\<lambda>r. \<not> (rc_name r = name \<and> rc_holder r = holder)) rows"

section \<open>Working under a claim\<close>

text \<open>
  \<open>withReplicaClaim\<close>, step by step: it asks for the claim until it has it or its wait is over, works
  with a timer that ends its work and renewals that move it, and gives the claim back.
\<close>

datatype claim_phase = Unstarted | Asking instant | Answered bool instant | Working | Closing | Closed | Refused

datatype renewal = NoRenewal | Sent instant | Done instant bool

record claim_proc =
  cp_phase :: claim_phase
  cp_ttl :: int
  cp_expiry :: instant
  cp_lost :: bool
  cp_renewed :: bool
  cp_renewing :: renewal

record claim_world =
  cw_now :: instant
  cw_rows :: "claim_row list"
  cw_proc :: "ident \<Rightarrow> claim_proc"

definition works :: "claim_world \<Rightarrow> ident \<Rightarrow> bool" where
  "works w p \<longleftrightarrow> cp_phase (cw_proc w p) = Working \<and> \<not> cp_lost (cw_proc w p)"

definition set_proc :: "ident \<Rightarrow> claim_proc \<Rightarrow> claim_world \<Rightarrow> claim_world" where
  "set_proc p x w = w\<lparr>cw_proc := (cw_proc w)(p := x)\<rparr>"

definition begin_work :: "instant \<Rightarrow> claim_proc \<Rightarrow> claim_proc" where
  "begin_work now x = x\<lparr>cp_phase := Working, cp_expiry := now + cp_ttl x * 1000, cp_lost := False, cp_renewed := False,
     cp_renewing := NoRenewal\<rparr>"

definition land_renewal :: "instant \<Rightarrow> instant \<Rightarrow> bool \<Rightarrow> claim_proc \<Rightarrow> claim_proc" where
  "land_renewal now dispatched held x =
     (if held \<and> \<not> cp_lost x
      then x\<lparr>cp_expiry := max now (dispatched + cp_ttl x * 1000), cp_renewed := True, cp_renewing := NoRenewal\<rparr>
      else x\<lparr>cp_lost := True, cp_renewing := NoRenewal\<rparr>)"

inductive claim_step :: "string \<Rightarrow> claim_world \<Rightarrow> claim_world \<Rightarrow> bool" for name where
  ticks: "cw_now w \<le> now \<Longrightarrow> \<forall>p. works w p \<longrightarrow> now \<le> cp_expiry (cw_proc w p) \<Longrightarrow> claim_step name w (w\<lparr>cw_now := now\<rparr>)"
| starts: "cp_phase (cw_proc w p) = Unstarted \<Longrightarrow> 0 < ttl \<Longrightarrow> 0 \<le> wait_ms \<Longrightarrow>
    claim_step name w (set_proc p ((cw_proc w p)\<lparr>cp_phase := Asking (cw_now w + wait_ms), cp_ttl := ttl\<rparr>) w)"
| asks: "cp_phase (cw_proc w p) = Asking deadline \<Longrightarrow>
    take_replica_claim (cw_now w) name p (cp_ttl (cw_proc w p)) (cw_rows w) = (won, rows) \<Longrightarrow>
    claim_step name w (set_proc p ((cw_proc w p)\<lparr>cp_phase := Answered won deadline\<rparr>) (w\<lparr>cw_rows := rows\<rparr>))"
| polls: "cp_phase (cw_proc w p) = Answered False deadline \<Longrightarrow> cw_now w < deadline \<Longrightarrow>
    claim_step name w (set_proc p ((cw_proc w p)\<lparr>cp_phase := Asking deadline\<rparr>) w)"
| gives_up: "cp_phase (cw_proc w p) = Answered False deadline \<Longrightarrow> deadline \<le> cw_now w \<Longrightarrow>
    claim_step name w (set_proc p ((cw_proc w p)\<lparr>cp_phase := Refused\<rparr>) w)"
| enters: "cp_phase (cw_proc w p) = Answered True deadline \<Longrightarrow>
    claim_step name w (set_proc p (begin_work (cw_now w) (cw_proc w p)) w)"
| sends: "works w p \<Longrightarrow> cp_renewing (cw_proc w p) = NoRenewal \<Longrightarrow>
    claim_step name w (set_proc p ((cw_proc w p)\<lparr>cp_renewing := Sent (cw_now w)\<rparr>) w)"
| renews: "cp_phase (cw_proc w p) = Working \<or> cp_phase (cw_proc w p) = Closing \<Longrightarrow> cp_renewing (cw_proc w p) = Sent dispatched \<Longrightarrow>
    renew_replica_claim (cw_now w) name p (cp_ttl (cw_proc w p)) (cw_rows w) = (held, rows) \<Longrightarrow>
    claim_step name w (set_proc p ((cw_proc w p)\<lparr>cp_renewing := Done dispatched held\<rparr>) (w\<lparr>cw_rows := rows\<rparr>))"
| lands: "cp_phase (cw_proc w p) = Working \<or> cp_phase (cw_proc w p) = Closing \<Longrightarrow> cp_renewing (cw_proc w p) = Done dispatched held \<Longrightarrow>
    claim_step name w (set_proc p (land_renewal (cw_now w) dispatched held (cw_proc w p)) w)"
| fails: "cp_phase (cw_proc w p) = Working \<or> cp_phase (cw_proc w p) = Closing \<Longrightarrow>
    claim_step name w (set_proc p ((cw_proc w p)\<lparr>cp_renewing := NoRenewal\<rparr>) w)"
| stops: "works w p \<Longrightarrow> cp_expiry (cw_proc w p) \<le> cw_now w \<Longrightarrow>
    claim_step name w (set_proc p ((cw_proc w p)\<lparr>cp_lost := True\<rparr>) w)"
| finishes: "cp_phase (cw_proc w p) = Working \<Longrightarrow> claim_step name w (set_proc p ((cw_proc w p)\<lparr>cp_phase := Closing\<rparr>) w)"
| gives_back: "cp_phase (cw_proc w p) = Closing \<Longrightarrow> cp_renewing (cw_proc w p) = NoRenewal \<Longrightarrow>
    claim_step name w (set_proc p ((cw_proc w p)\<lparr>cp_phase := Closed\<rparr>)
      (w\<lparr>cw_rows := release_replica_claim name p (cw_rows w)\<rparr>))"
| dies: "claim_step name w (set_proc p ((cw_proc w p)\<lparr>cp_phase := Closed\<rparr>) w)"

inductive_cases claim_stepE: "claim_step name w w'"

definition fresh_world :: "instant \<Rightarrow> claim_row list \<Rightarrow> claim_world" where
  "fresh_world now rows = \<lparr>cw_now = now, cw_rows = rows,
     cw_proc = (\<lambda>_. \<lparr>cp_phase = Unstarted, cp_ttl = 60, cp_expiry = 0, cp_lost = False, cp_renewed = False, cp_renewing = NoRenewal\<rparr>)\<rparr>"

section \<open>The invariant\<close>

text \<open>What the database guarantees a process until \<open>til\<close>: the row is its own at least that long, or that time is past.\<close>

definition guarded :: "string \<Rightarrow> claim_world \<Rightarrow> ident \<Rightarrow> instant \<Rightarrow> bool" where
  "guarded name w p til \<longleftrightarrow> til \<le> cw_now w \<or>
     (\<exists>r. find_row rc_name name (cw_rows w) = Some r \<and> rc_holder r = p \<and> til \<le> rc_expires_at r)"

definition claims_ok :: "string \<Rightarrow> claim_world \<Rightarrow> bool" where
  "claims_ok name w \<longleftrightarrow> unique_keys rc_name (cw_rows w) \<and>
     (\<forall>r. find_row rc_name name (cw_rows w) = Some r \<longrightarrow> cp_phase (cw_proc w (rc_holder r)) \<noteq> Unstarted \<and>
        rc_expires_at r \<le> cw_now w + cp_ttl (cw_proc w (rc_holder r)) * 1000) \<and>
     (\<forall>p. let x = cw_proc w p in
        (cp_phase x = Working \<or> cp_phase x = Closing \<longrightarrow>
           (cp_renewed x \<longrightarrow> guarded name w p (cp_expiry x)) \<and>
           (case cp_renewing x of NoRenewal \<Rightarrow> True | Sent d \<Rightarrow> d \<le> cw_now w
            | Done d held \<Rightarrow> held \<longrightarrow> guarded name w p (d + cp_ttl x * 1000))))"

lemma find_take:
  assumes "take_replica_claim now name p ttl rows = (won, rows')" and "unique_keys rc_name rows"
  shows "unique_keys rc_name rows'"
    "find_row rc_name name rows = Some r \<Longrightarrow> now < rc_expires_at r \<Longrightarrow> \<not> won \<and> rows' = rows"
    "find_row rc_name name rows' = (if won then Some \<lparr>rc_name = name, rc_holder = p, rc_expires_at = now + ttl * 1000\<rparr>
       else find_row rc_name name rows)"
proof -
  let ?row = "\<lparr>rc_name = name, rc_holder = p, rc_expires_at = now + ttl * 1000\<rparr>"
  have u: "update_where (\<lambda>x. rc_name x = name) (\<lambda>_. ?row) xs = update_where (\<lambda>x. rc_name x = name)
      (\<lambda>x. x\<lparr>rc_name := rc_name x, rc_holder := p, rc_expires_at := now + ttl * 1000\<rparr>) xs" for xs
    by (induction xs) auto
  have f: "find_row rc_name name (update_where (\<lambda>x. rc_name x = name) (\<lambda>_. ?row) rows) = Some ?row"
    if "find_row rc_name name rows = Some r" for r
    using that unfolding u by (subst find_row_update_where) (auto dest!: find_row_Some)
  show "unique_keys rc_name rows'"
    using assms by (auto simp: take_replica_claim_def Let_def u unique_keys_def find_row_None map_update_where split: option.splits if_splits)
  show "find_row rc_name name rows = Some r \<Longrightarrow> now < rc_expires_at r \<Longrightarrow> \<not> won \<and> rows' = rows"
    using assms(1) by (auto simp: take_replica_claim_def Let_def)
  show "find_row rc_name name rows' = (if won then Some ?row else find_row rc_name name rows)"
    using assms(1) f by (auto simp: take_replica_claim_def Let_def find_row_append split: option.splits if_splits)
qed


lemma find_renew:
  assumes "renew_replica_claim now name p ttl rows = (held, rows')" and "unique_keys rc_name rows"
  shows "unique_keys rc_name rows'"
    "find_row rc_name name rows' = map_option (\<lambda>r. if rc_holder r = p \<and> now < rc_expires_at r
       then r\<lparr>rc_expires_at := now + ttl * 1000\<rparr> else r) (find_row rc_name name rows)"
    "held \<Longrightarrow> \<exists>r. find_row rc_name name rows' = Some r \<and> rc_holder r = p \<and> rc_expires_at r = now + ttl * 1000"
proof -
  let ?p = "\<lambda>r. rc_name r = name \<and> rc_holder r = p \<and> now < rc_expires_at r"
  let ?f = "\<lambda>r. r\<lparr>rc_expires_at := now + ttl * 1000\<rparr>"
  from assms(1) have rows': "rows' = update_where ?p ?f rows" and held: "held \<longleftrightarrow> length (filter ?p rows) = 1"
    by (simp_all add: renew_replica_claim_def Let_def)
  show "unique_keys rc_name rows'" unfolding rows' by (rule unique_keys_update_where) (use assms(2) in simp_all)
  have find: "find_row rc_name name rows' = map_option (\<lambda>r. if ?p r then ?f r else r) (find_row rc_name name rows)"
    unfolding rows' by (rule find_row_update_where) simp
  then show eq: "find_row rc_name name rows' = map_option (\<lambda>r. if rc_holder r = p \<and> now < rc_expires_at r
       then ?f r else r) (find_row rc_name name rows)"
    by (cases "find_row rc_name name rows") (auto dest: find_row_Some)
  show "held \<Longrightarrow> \<exists>r. find_row rc_name name rows' = Some r \<and> rc_holder r = p \<and> rc_expires_at r = now + ttl * 1000"
  proof -
    assume held
    with held obtain r where "r \<in> set (filter ?p rows)" by (cases "filter ?p rows") auto
    then have r: "r \<in> set rows" "?p r" by auto
    from find_row_unique [OF assms(2) r(1)] r(2) show ?thesis by (simp add: eq)
  qed
qed

lemma find_release:
  assumes "unique_keys rc_name rows"
  shows "unique_keys rc_name (release_replica_claim name p rows)"
    "find_row rc_name name (release_replica_claim name p rows) =
     (case find_row rc_name name rows of None \<Rightarrow> None | Some r \<Rightarrow> if rc_holder r = p then None else Some r)"
proof -
  show "unique_keys rc_name (release_replica_claim name p rows)"
    using assms by (auto simp: release_replica_claim_def unique_keys_def distinct_map intro: inj_on_subset)
  have gone: "find_row rc_name name (filter q xs) = None" if "name \<notin> rc_name ` set xs" for q xs
    using that by (auto simp: find_row_None)
  show "find_row rc_name name (release_replica_claim name p rows) =
     (case find_row rc_name name rows of None \<Rightarrow> None | Some r \<Rightarrow> if rc_holder r = p then None else Some r)"
    using assms
  proof (induction rows)
    case (Cons a rows)
    then show ?case
      by (cases "rc_name a = name") (auto simp: release_replica_claim_def unique_keys_def gone split: option.splits)
  qed (simp add: release_replica_claim_def)
qed

text \<open>A guarantee outlasts whatever anyone does, but the holder's own release.\<close>

lemma guarded_ticks: "guarded name w p til \<Longrightarrow> cw_now w \<le> now \<Longrightarrow> guarded name (w\<lparr>cw_now := now\<rparr>) p til"
  by (auto simp: guarded_def)

lemma guarded_asks:
  assumes "guarded name w p til" and "take_replica_claim (cw_now w) name q ttl (cw_rows w) = (won, rows)"
    and "unique_keys rc_name (cw_rows w)" and "cw_now w' = cw_now w" and "cw_rows w' = rows"
  shows "guarded name w' p til"
proof (cases "til \<le> cw_now w")
  case False
  with assms(1) obtain r where r: "find_row rc_name name (cw_rows w) = Some r" "rc_holder r = p" "til \<le> rc_expires_at r"
    by (auto simp: guarded_def)
  with False have "cw_now w < rc_expires_at r" by simp
  with find_take(2) [OF assms(2,3) r(1)] assms(5) r show ?thesis by (auto simp: guarded_def)
qed (simp add: guarded_def assms(4))

lemma guarded_renews:
  assumes "guarded name w p til" and "renew_replica_claim (cw_now w) name q (cp_ttl (cw_proc w q)) (cw_rows w) = (held, rows)"
    and "claims_ok name w" and "cw_now w' = cw_now w" and "cw_rows w' = rows"
  shows "guarded name w' p til"
proof (cases "til \<le> cw_now w")
  case False
  with assms(1) obtain r where r: "find_row rc_name name (cw_rows w) = Some r" "rc_holder r = p" "til \<le> rc_expires_at r"
    by (auto simp: guarded_def)
  from assms(3) r(1) have "rc_expires_at r \<le> cw_now w + cp_ttl (cw_proc w (rc_holder r)) * 1000" "unique_keys rc_name (cw_rows w)"
    by (auto simp: claims_ok_def)
  with find_renew(2) [OF assms(2)] r assms(5) show ?thesis by (auto simp: guarded_def)
qed (simp add: guarded_def assms(4))

lemma guarded_releases:
  assumes "guarded name w p til" and "unique_keys rc_name (cw_rows w)" and "p \<noteq> q"
    and "cw_now w' = cw_now w" and "cw_rows w' = release_replica_claim name q (cw_rows w)"
  shows "guarded name w' p til"
  using assms find_release(2) [OF assms(2), of name q] by (auto simp: guarded_def)

lemma guarded_cong: "cw_now w' = cw_now w \<Longrightarrow> cw_rows w' = cw_rows w \<Longrightarrow> guarded name w' p til \<longleftrightarrow> guarded name w p til"
  by (simp add: guarded_def)

definition proc_ok :: "string \<Rightarrow> claim_world \<Rightarrow> ident \<Rightarrow> claim_proc \<Rightarrow> bool" where
  "proc_ok name w p x \<longleftrightarrow>
     (cp_phase x = Working \<or> cp_phase x = Closing \<longrightarrow>
        (cp_renewed x \<longrightarrow> guarded name w p (cp_expiry x)) \<and>
        (case cp_renewing x of NoRenewal \<Rightarrow> True | Sent d \<Rightarrow> d \<le> cw_now w
         | Done d held \<Rightarrow> held \<longrightarrow> guarded name w p (d + cp_ttl x * 1000)))"

definition row_ok :: "string \<Rightarrow> claim_world \<Rightarrow> bool" where
  "row_ok name w \<longleftrightarrow> unique_keys rc_name (cw_rows w) \<and>
     (\<forall>r. find_row rc_name name (cw_rows w) = Some r \<longrightarrow> cp_phase (cw_proc w (rc_holder r)) \<noteq> Unstarted \<and>
        rc_expires_at r \<le> cw_now w + cp_ttl (cw_proc w (rc_holder r)) * 1000)"

lemma claims_ok_alt: "claims_ok name w \<longleftrightarrow> row_ok name w \<and> (\<forall>p. proc_ok name w p (cw_proc w p))"
  by (auto simp: claims_ok_def row_ok_def proc_ok_def Let_def)

lemma proc_ok_mono:
  assumes "proc_ok name w p x" and "\<And>til. guarded name w p til \<Longrightarrow> guarded name w' p til" and "cw_now w \<le> cw_now w'"
  shows "proc_ok name w' p x"
  using assms by (fastforce simp: proc_ok_def split: renewal.splits)

lemma proc_ok_cong: "cw_now w' = cw_now w \<Longrightarrow> cw_rows w' = cw_rows w \<Longrightarrow> proc_ok name w' p x \<longleftrightarrow> proc_ok name w p x"
  by (simp add: proc_ok_def guarded_def cong: renewal.case_cong)

lemma set_proc_sel [simp]: "cw_now (set_proc p x w) = cw_now w" "cw_rows (set_proc p x w) = cw_rows w"
  "cw_proc (set_proc p x w) q = (if q = p then x else cw_proc w q)"
  by (simp_all add: set_proc_def)

text \<open>A step that changes one process and not the table.\<close>

lemma alone_ok:
  assumes "claims_ok name w" and "proc_ok name w p x" and "cp_phase (cw_proc w p) = Unstarted \<or> cp_ttl x = cp_ttl (cw_proc w p)"
    and "cp_phase x \<noteq> Unstarted"
  shows "claims_ok name (set_proc p x w)"
proof -
  have g: "guarded name (set_proc p x w) q til \<longleftrightarrow> guarded name w q til" for q til by (rule guarded_cong) simp_all
  have "proc_ok name (set_proc p x w) q (cw_proc (set_proc p x w) q)" for q
    using assms(1,2) by (auto simp: claims_ok_alt intro!: proc_ok_mono [of name w _ _ "set_proc p x w"] simp: g)
  moreover have "row_ok name (set_proc p x w)" using assms(1,3,4) by (auto simp: claims_ok_alt row_ok_def)
  ultimately show ?thesis by (simp add: claims_ok_alt)
qed

lemma claim_step_ok: "claim_step name w w' \<Longrightarrow> claims_ok name w \<Longrightarrow> claims_ok name w'"
proof (induction rule: claim_step.induct)
  case (ticks w now)
  then show ?case
    by (auto simp: claims_ok_alt row_ok_def intro!: proc_ok_mono [of name w _ _ "w\<lparr>cw_now := now\<rparr>"] guarded_ticks)
next
  case (starts w p ttl wait_ms)
  then show ?case by (intro alone_ok) (auto simp: proc_ok_def)
next
  case (asks w p deadline won rows)
  let ?x = "(cw_proc w p)\<lparr>cp_phase := Answered won deadline\<rparr>"
  let ?w = "w\<lparr>cw_rows := rows\<rparr>"
  from asks(3) have u: "unique_keys rc_name (cw_rows w)" by (simp add: claims_ok_alt row_ok_def)
  note t = find_take [OF asks(2) u]
  have "proc_ok name ?w q (cw_proc w q)" for q
    by (rule proc_ok_mono [of name w]) (use asks in \<open>auto simp: claims_ok_alt intro: guarded_asks [OF _ asks(2) u]\<close>)
  moreover have "unique_keys rc_name rows" by (rule t(1))
  moreover have "proc_ok name (set_proc p ?x ?w) q y \<longleftrightarrow> proc_ok name ?w q y" for q y by (rule proc_ok_cong) simp_all
  moreover have "row_ok name (set_proc p ?x ?w)"
    using asks(1,3) t(1) by (auto simp: row_ok_def claims_ok_alt t(3) split: if_splits)
  ultimately show ?case by (auto simp: claims_ok_alt proc_ok_def [of _ _ p ?x])
next
  case (polls w p deadline)
  then show ?case by (intro alone_ok) (auto simp: proc_ok_def)
next
  case (gives_up w p deadline)
  then show ?case by (intro alone_ok) (auto simp: proc_ok_def)
next
  case (enters w p deadline)
  then show ?case by (intro alone_ok) (auto simp: proc_ok_def begin_work_def)
next
  case (sends w p)
  then show ?case by (intro alone_ok) (auto simp: proc_ok_def works_def claims_ok_alt)
next
  case (renews w p dispatched held rows)
  let ?x = "(cw_proc w p)\<lparr>cp_renewing := Done dispatched held\<rparr>"
  let ?w = "w\<lparr>cw_rows := rows\<rparr>"
  from renews(4) have u: "unique_keys rc_name (cw_rows w)" by (simp add: claims_ok_alt row_ok_def)
  note t = find_renew [OF renews(3) u]
  have others: "proc_ok name ?w q (cw_proc w q)" for q
    by (rule proc_ok_mono [of name w]) (use renews in \<open>auto simp: claims_ok_alt intro: guarded_renews [OF _ renews(3,4)]\<close>)
  have "dispatched \<le> cw_now w" using renews(1,2,4) by (fastforce simp: claims_ok_alt proc_ok_def)
  then have "held \<longrightarrow> guarded name ?w p (dispatched + cp_ttl (cw_proc w p) * 1000)" using t(3) by (force simp: guarded_def)
  with others [of p] have "proc_ok name ?w p ?x" by (simp add: proc_ok_def)
  moreover have "proc_ok name (set_proc p ?x ?w) q y \<longleftrightarrow> proc_ok name ?w q y" for q y by (rule proc_ok_cong) simp_all
  moreover have "row_ok name (set_proc p ?x ?w)"
    using renews(1,4) t(1) by (auto simp: row_ok_def claims_ok_alt t(2) split: if_splits) (drule sym, simp)+
  ultimately show ?case using others by (auto simp: claims_ok_alt)
next
  case (lands w p dispatched held)
  then have "proc_ok name w p (cw_proc w p)" by (simp add: claims_ok_alt)
  with lands(1,2) have "proc_ok name w p (land_renewal (cw_now w) dispatched held (cw_proc w p))"
    by (auto simp: proc_ok_def land_renewal_def guarded_def)
  moreover have "cp_phase (land_renewal (cw_now w) dispatched held (cw_proc w p)) \<noteq> Unstarted" "cp_ttl (land_renewal (cw_now w) dispatched held (cw_proc w p)) = cp_ttl (cw_proc w p)"
    using lands(1) by (auto simp: land_renewal_def)
  ultimately show ?case using lands(3) by (intro alone_ok) auto
next
  case (fails w p)
  then have "proc_ok name w p (cw_proc w p)" by (simp add: claims_ok_alt)
  with fails show ?case by (intro alone_ok) (auto simp: proc_ok_def)
next
  case (stops w p)
  then have "proc_ok name w p (cw_proc w p)" by (simp add: claims_ok_alt)
  with stops show ?case by (intro alone_ok) (auto simp: proc_ok_def works_def cong: renewal.case_cong)
next
  case (finishes w p)
  then have "proc_ok name w p (cw_proc w p)" by (simp add: claims_ok_alt)
  with finishes show ?case by (intro alone_ok) (auto simp: proc_ok_def cong: renewal.case_cong)
next
  case (gives_back w p)
  let ?x = "(cw_proc w p)\<lparr>cp_phase := Closed\<rparr>"
  let ?w = "w\<lparr>cw_rows := release_replica_claim name p (cw_rows w)\<rparr>"
  from gives_back(3) have u: "unique_keys rc_name (cw_rows w)" by (simp add: claims_ok_alt row_ok_def)
  note t = find_release [OF u, of name p]
  have "proc_ok name ?w q (cw_proc w q)" if "q \<noteq> p" for q
    by (rule proc_ok_mono [of name w]) (use gives_back that in \<open>auto simp: claims_ok_alt intro: guarded_releases [OF _ u]\<close>)
  moreover have "proc_ok name (set_proc p ?x ?w) q y \<longleftrightarrow> proc_ok name ?w q y" for q y by (rule proc_ok_cong) simp_all
  moreover have "row_ok name (set_proc p ?x ?w)"
    using gives_back(3) t(1) by (auto simp: row_ok_def claims_ok_alt t(2) split: option.splits if_splits)
  ultimately show ?case by (auto simp: claims_ok_alt proc_ok_def [of _ _ p ?x])
next
  case (dies w p)
  then show ?case by (intro alone_ok) (auto simp: proc_ok_def)
qed

lemma fresh_world_ok: "claims_ok name (fresh_world now [])"
  by (simp add: claims_ok_alt row_ok_def proc_ok_def fresh_world_def unique_keys_def)

lemma claims_reachable_ok: "(claim_step name)\<^sup>*\<^sup>* (fresh_world now []) w \<Longrightarrow> claims_ok name w"
  by (induction rule: rtranclp_induct) (auto intro: fresh_world_ok claim_step_ok)

lemma guarded_alone: "guarded name w p s \<Longrightarrow> guarded name w q t \<Longrightarrow> cw_now w < s \<Longrightarrow> cw_now w < t \<Longrightarrow> p = q"
  by (auto simp: guarded_def)

section \<open>What a claim promises\<close>

text \<open>Property C38: whatever order requests, answers, deaths and time come in, once a renewal of its own has landed
  no other process works under the same name beside it in the same way: at most one process whose
  deadline is still ahead works under a renewed claim.\<close>

theorem renewed_claim_exclusive:
  assumes "(claim_step name)\<^sup>*\<^sup>* (fresh_world now []) w" and "p \<noteq> q"
  shows "\<not> ((works w p \<and> cp_renewed (cw_proc w p) \<and> cw_now w < cp_expiry (cw_proc w p)) \<and>
     (works w q \<and> cp_renewed (cw_proc w q) \<and> cw_now w < cp_expiry (cw_proc w q)))"
proof -
  have "claims_ok name w" by (rule claims_reachable_ok [OF assms(1)])
  then have "guarded name w x (cp_expiry (cw_proc w x))" if "works w x" "cp_renewed (cw_proc w x)" for x
    using that by (auto simp: claims_ok_alt proc_ok_def works_def)
  with guarded_alone assms(2) show ?thesis by blast
qed

text \<open>A process that asks for a free name at once, and has its answer \<open>delay\<close> later.\<close>

definition claimed :: "string \<Rightarrow> ident \<Rightarrow> int \<Rightarrow> int \<Rightarrow> claim_world \<Rightarrow> claim_world" where
  "claimed name p ttl delay w = set_proc p (begin_work (cw_now w + delay) ((cw_proc w p)\<lparr>cp_ttl := ttl, cp_phase := Answered True (cw_now w)\<rparr>))
     (w\<lparr>cw_rows := snd (take_replica_claim (cw_now w) name p ttl (cw_rows w)), cw_now := cw_now w + delay\<rparr>)"

lemma claimed_reached:
  assumes "cp_phase (cw_proc w p) = Unstarted" and "0 < ttl" and "0 \<le> delay"
    and "fst (take_replica_claim (cw_now w) name p ttl (cw_rows w))"
    and "\<forall>q. works w q \<longrightarrow> cw_now w + delay \<le> cp_expiry (cw_proc w q)"
  shows "(claim_step name)\<^sup>*\<^sup>* w (claimed name p ttl delay w)"
proof -
  let ?rows = "snd (take_replica_claim (cw_now w) name p ttl (cw_rows w))"
  let ?w1 = "set_proc p ((cw_proc w p)\<lparr>cp_phase := Asking (cw_now w + 0), cp_ttl := ttl\<rparr>) w"
  let ?w2 = "set_proc p ((cw_proc ?w1 p)\<lparr>cp_phase := Answered True (cw_now w + 0)\<rparr>) (?w1\<lparr>cw_rows := ?rows\<rparr>)"
  let ?w3 = "?w2\<lparr>cw_now := cw_now w + delay\<rparr>"
  have "claim_step name w ?w1" by (rule starts [OF assms(1,2)]) simp
  moreover have "claim_step name ?w1 ?w2" by (rule asks) (use assms(4) in \<open>auto simp: prod_eq_iff\<close>)
  moreover have "claim_step name ?w2 ?w3" by (rule ticks) (use assms(3,5) in \<open>auto simp: works_def\<close>)
  moreover have "claim_step name ?w3 (set_proc p (begin_work (cw_now ?w3) (cw_proc ?w3 p)) ?w3)"
    by (rule enters [of _ _ "cw_now w + 0"]) simp
  moreover have "set_proc p (begin_work (cw_now ?w3) (cw_proc ?w3 p)) ?w3 = claimed name p ttl delay w"
    by (simp add: claimed_def set_proc_def)
  ultimately show ?thesis by (metis (no_types, lifting) converse_rtranclp_into_rtranclp rtranclp.rtrancl_refl)
qed

text \<open>Before its first renewal lands there is no such promise. The first deadline is measured from
  when the claim was answered, not from when it was asked for, so a slow answer leaves two processes working under
  one name, both unaborted and both within their own deadlines.\<close>

theorem late_answer_shares_claim:
  "\<exists>w. (claim_step ''deploy'')\<^sup>*\<^sup>* (fresh_world 0 []) w \<and> works w ''a'' \<and> works w ''b'' \<and>
     cw_now w < cp_expiry (cw_proc w ''a'') \<and> cw_now w < cp_expiry (cw_proc w ''b'')"
proof -
  let ?w0 = "fresh_world 0 []"
  let ?w1 = "claimed ''deploy'' ''a'' 1 500 ?w0"
  let ?w2 = "?w1\<lparr>cw_now := 1000\<rparr>"
  let ?w3 = "claimed ''deploy'' ''b'' 1 0 ?w2"
  note defs = fresh_world_def claimed_def set_proc_def begin_work_def works_def take_replica_claim_def Let_def
  have "(claim_step ''deploy'')\<^sup>*\<^sup>* ?w0 ?w1" by (rule claimed_reached) (simp_all add: defs)
  moreover have "claim_step ''deploy'' ?w1 ?w2" by (rule ticks) (simp_all add: defs)
  moreover have "(claim_step ''deploy'')\<^sup>*\<^sup>* ?w2 ?w3" by (rule claimed_reached) (simp_all add: defs update_where_def)
  ultimately have "(claim_step ''deploy'')\<^sup>*\<^sup>* ?w0 ?w3" by auto
  moreover have "works ?w3 ''a'' \<and> works ?w3 ''b'' \<and> cw_now ?w3 < cp_expiry (cw_proc ?w3 ''a'') \<and>
      cw_now ?w3 < cp_expiry (cw_proc ?w3 ''b'')" by (simp add: defs)
  ultimately show ?thesis by blast
qed

text \<open>A process that has renewed its claim once.\<close>

definition renewed_world :: claim_world where
  "renewed_world = (let w = claimed ''deploy'' ''a'' 60 0 (fresh_world 0 []); sent = set_proc ''a'' ((cw_proc w ''a'')\<lparr>cp_renewing := Sent 0\<rparr>) w;
     rows = snd (renew_replica_claim 0 ''deploy'' ''a'' 60 (cw_rows sent));
     landed = set_proc ''a'' ((cw_proc sent ''a'')\<lparr>cp_renewing := Done 0 True\<rparr>) (sent\<lparr>cw_rows := rows\<rparr>)
   in set_proc ''a'' (land_renewal 0 0 True (cw_proc landed ''a'')) landed)"

lemma renewed_world_reached: "(claim_step ''deploy'')\<^sup>*\<^sup>* (fresh_world 0 []) renewed_world"
proof -
  note defs = fresh_world_def claimed_def set_proc_def begin_work_def works_def take_replica_claim_def renew_replica_claim_def Let_def
  let ?w = "claimed ''deploy'' ''a'' 60 0 (fresh_world 0 [])"
  let ?w1 = "set_proc ''a'' ((cw_proc ?w ''a'')\<lparr>cp_renewing := Sent (cw_now ?w)\<rparr>) ?w"
  let ?w2 = "set_proc ''a'' ((cw_proc ?w1 ''a'')\<lparr>cp_renewing := Done 0 True\<rparr>)
     (?w1\<lparr>cw_rows := snd (renew_replica_claim 0 ''deploy'' ''a'' 60 (cw_rows ?w1))\<rparr>)"
  let ?w3 = "set_proc ''a'' (land_renewal (cw_now ?w2) 0 True (cw_proc ?w2 ''a'')) ?w2"
  note step = rtranclp.rtrancl_into_rtrancl [of "claim_step ''deploy''"]
  have s0: "(claim_step ''deploy'')\<^sup>*\<^sup>* (fresh_world 0 []) ?w" by (rule claimed_reached) (simp_all add: defs)
  have s1: "claim_step ''deploy'' ?w ?w1" by (rule sends) (simp_all add: defs)
  have s2: "claim_step ''deploy'' ?w1 ?w2" by (rule renews) (simp_all add: defs)
  have s3: "claim_step ''deploy'' ?w2 ?w3" by (rule lands) (simp_all add: defs)
  have same: "renewed_world = ?w3" unfolding renewed_world_def Let_def by (simp add: defs)
  show ?thesis unfolding same by (rule step [OF step [OF step [OF s0 s1] s2] s3])
qed

theorem renewed_claim_exclusive_witness:
  "works renewed_world ''a'' \<and> cp_renewed (cw_proc renewed_world ''a'') \<and> \<not> (works renewed_world ''b'' \<and>
     cp_renewed (cw_proc renewed_world ''b'') \<and> cw_now renewed_world < cp_expiry (cw_proc renewed_world ''b''))"
proof -
  have "works renewed_world ''a'' \<and> cp_renewed (cw_proc renewed_world ''a'') \<and> cw_now renewed_world < cp_expiry (cw_proc renewed_world ''a'')"
    by (simp add: renewed_world_def Let_def fresh_world_def claimed_def set_proc_def begin_work_def works_def land_renewal_def)
  then show ?thesis using renewed_claim_exclusive [OF renewed_world_reached, of "''a''" "''b''"] by auto
qed

end
