(* ===== verification/Answer_Pills.thy ===== *)
theory Answer_Pills
  imports Turn_Ingest Request_Policy
begin

text \<open>
  Attachments in a text (\<open>packages/sandbox/src/coding-agent/text-attachments.ts\<close>) and the answers to an
  agent's questions that carry them (\<open>agent-sessions-service.ts\<close>). A pill stands in the text as one
  marker, a code unit of its own; the signs that are no single byte here are parameters.
\<close>

record pill_signs =
  ps_marker :: char
  ps_dash :: string
  ps_range :: string

definition is_media :: "agent_attachment \<Rightarrow> bool" where
  "is_media a = (case a of MediaAttachment _ _ _ _ \<Rightarrow> True | TextAttachment _ _ _ \<Rightarrow> False)"

abbreviation media_of :: "agent_attachment list \<Rightarrow> agent_attachment list" where
  "media_of xs \<equiv> filter is_media xs"

section \<open>Markers\<close>

text \<open>\<open>inlineAttachmentReferences\<close>: the n-th marker is the n-th attachment; markers past the last one go.\<close>

fun inline_from :: "char \<Rightarrow> (nat \<Rightarrow> agent_attachment \<Rightarrow> string) \<Rightarrow> agent_attachment list \<Rightarrow> nat \<Rightarrow> string \<Rightarrow> string" where
  "inline_from m render atts n [] = []"
| "inline_from m render atts n (c # cs) =
     (if c = m then (if n < length atts then render n (atts ! n) else []) @ inline_from m render atts (Suc n) cs
      else c # inline_from m render atts n cs)"

definition inline_attachment_references ::
  "char \<Rightarrow> (nat \<Rightarrow> agent_attachment \<Rightarrow> string) \<Rightarrow> string \<Rightarrow> agent_attachment list \<Rightarrow> string" where
  "inline_attachment_references m render message atts =
     (if m \<notin> set message then message else inline_from m render atts 0 message)"

definition inline_reference :: "nat \<Rightarrow> agent_attachment \<Rightarrow> string" where
  "inline_reference index a = ''[attachment '' @ decimal (index + 1) @ '': '' @ att_name a @ '']''"

definition message_with_attachment_names :: "char \<Rightarrow> string \<Rightarrow> agent_attachment list option \<Rightarrow> string" where
  "message_with_attachment_names m message atts =
     inline_attachment_references m (\<lambda>_ a. CHR ''['' # att_name a @ '']'') message (case atts of None \<Rightarrow> [] | Some xs \<Rightarrow> xs)"

text \<open>\<open>splitAttachmentMarkers\<close>: runs of prose and slots, in order. \<open>before\<close> is the prose read since the last slot.\<close>

datatype message_part = Prose string | Pill nat

definition prose_part :: "string \<Rightarrow> message_part list" where
  "prose_part txt = (if txt = [] then [] else [Prose txt])"

fun split_parts :: "char \<Rightarrow> nat \<Rightarrow> string \<Rightarrow> string \<Rightarrow> message_part list" where
  "split_parts m n before [] = prose_part before"
| "split_parts m n before (c # cs) =
     (if c = m then prose_part before @ Pill n # split_parts m (Suc n) [] cs else split_parts m n (before @ [c]) cs)"

definition split_attachment_markers :: "char \<Rightarrow> string \<Rightarrow> message_part list" where
  "split_attachment_markers m message = split_parts m 0 [] message"

text \<open>\<open>withMarkerCount\<close>: one marker for each attachment, and no more.\<close>

fun keep_markers :: "char \<Rightarrow> nat \<Rightarrow> nat \<Rightarrow> string \<Rightarrow> nat \<times> string" where
  "keep_markers m atts kept [] = (kept, [])"
| "keep_markers m atts kept (c # cs) =
     (if c = m
      then (let (n, rest) = keep_markers m atts (Suc kept) cs in (n, (if Suc kept \<le> atts then [m] else []) @ rest))
      else (let (n, rest) = keep_markers m atts kept cs in (n, c # rest)))"

definition with_marker_count :: "char \<Rightarrow> string \<Rightarrow> nat \<Rightarrow> string" where
  "with_marker_count m txt atts = (let (kept, placed) = keep_markers m atts 0 txt in placed @ replicate (atts - kept) m)"

section \<open>What the agent reads\<close>

definition line_break :: "char \<Rightarrow> bool" where "line_break c \<longleftrightarrow> c = CHR 0x0A \<or> c = CHR 0x0D"

text \<open>The pattern \<open>/^(workflow|app|session):(.+)$/\<close>: a name is not empty and holds no line terminator.\<close>

definition link_name :: "string \<Rightarrow> string \<Rightarrow> string option" where
  "link_name scheme url =
     (let name = drop (length scheme + 1) url in
      if take (length scheme + 1) url = scheme @ '':'' \<and> name \<noteq> [] \<and> \<not> list_ex line_break name then Some name else None)"

definition describe_link :: "string \<Rightarrow> string" where
  "describe_link url =
     (case link_name ''workflow'' url of Some name \<Rightarrow> ''Workflow '' @ name @ '' (link '' @ url @ '')''
      | None \<Rightarrow> (case link_name ''app'' url of Some name \<Rightarrow> ''App '' @ name @ '' (link '' @ url @ '')''
      | None \<Rightarrow> (case link_name ''session'' url of Some name \<Rightarrow>
           ''Chat session '' @ name @ '' in this project; read it with read_project_session''
      | None \<Rightarrow> ''URL: '' @ url)))"

definition DOUBLE_QUOTE :: char where "DOUBLE_QUOTE = CHR 0x22"

definition quoted :: "string \<Rightarrow> string" where "quoted s = DOUBLE_QUOTE # s @ [DOUBLE_QUOTE]"

definition ends_in_slash :: "string \<Rightarrow> bool" where "ends_in_slash path \<longleftrightarrow> path \<noteq> [] \<and> last path = CHR ''/''"

definition describe_text_source :: "pill_signs \<Rightarrow> agent_text_source \<Rightarrow> string" where
  "describe_text_source sg source =
     (case source of
        Paste \<Rightarrow> ''Pasted text''
      | Selection path first final \<Rightarrow> ''Selected in '' @ path @
          (case first of None \<Rightarrow> []
           | Some a \<Rightarrow> (case final of
                None \<Rightarrow> '', line '' @ decimal a
              | Some b \<Rightarrow> if b \<noteq> a then '', lines '' @ decimal a @ ps_range sg @ decimal b else '', line '' @ decimal a))
      | UrlSource url \<Rightarrow> describe_link url
      | PathSource path \<Rightarrow> if ends_in_slash path then ''Folder: '' @ path else ''File path: '' @ path
      | TabSource key kind title url path \<Rightarrow>
          (let where' = (case url of Some u \<Rightarrow> u | None \<Rightarrow> (case path of Some p \<Rightarrow> p | None \<Rightarrow> [])) in
           ''Open '' @ kind @ '' tab '' @ quoted title @ (if where' = [] then [] else '' ('' @ where' @ '')'') @
           ps_dash sg @ ''key '' @ key @ ''; read it with read_tab'')
      | SkillSource name path \<Rightarrow>
          (case path of
             Some p \<Rightarrow> if p = [] then ''Skill '' @ quoted name @ '': use it for this message''
               else ''Skill '' @ quoted name @ '' at '' @ quoted (json_escape p) @ '': follow it for this message''
           | None \<Rightarrow> ''Skill '' @ quoted name @ '': use it for this message''))"

definition is_bare_reference :: "agent_text_source \<Rightarrow> bool" where
  "is_bare_reference source =
     (case source of UrlSource _ \<Rightarrow> True | PathSource _ \<Rightarrow> True | TabSource _ _ _ _ _ \<Rightarrow> True | SkillSource _ _ \<Rightarrow> True | _ \<Rightarrow> False)"

definition NL :: char where "NL = CHR 0x0A"

definition attachment_block :: "pill_signs \<Rightarrow> nat \<Rightarrow> agent_attachment \<Rightarrow> string list" where
  "attachment_block sg index a =
     (case a of
        MediaAttachment _ _ _ _ \<Rightarrow> []
      | TextAttachment name body source \<Rightarrow>
          (let header = ''[Attachment '' @ decimal (index + 1) @ '': '' @ name @ ps_dash sg @ describe_text_source sg source @ '']''
           in if is_bare_reference source then [header]
              else [header @ [NL] @ ''<<<'' @ [NL] @ body @ [NL] @ ''>>>'']))"

fun join_with :: "string \<Rightarrow> string list \<Rightarrow> string" where
  "join_with sep [] = []"
| "join_with sep [x] = x"
| "join_with sep (x # xs) = x @ sep @ join_with sep xs"

definition render_text_attachments :: "pill_signs \<Rightarrow> agent_attachment list \<Rightarrow> string" where
  "render_text_attachments sg atts =
     (let blocks = concat (map (\<lambda>(i, a). attachment_block sg i a) (enumerate 0 atts)) in
      if blocks = [] then [] else [NL, NL] @ join_with [NL, NL] blocks)"

definition omitted_media :: "nat \<Rightarrow> agent_attachment \<Rightarrow> string" where
  "omitted_media index a =
     (case a of
        TextAttachment _ _ _ \<Rightarrow> inline_reference index a
      | MediaAttachment kind name _ _ \<Rightarrow> ''[attachment '' @ decimal (index + 1) @ '': '' @ name @ '' ('' @
          (case kind of ImageMedia \<Rightarrow> ''image'' | DocumentMedia \<Rightarrow> ''document'') @ '' not delivered; this agent reads text only)]'')"

definition render_user_message :: "pill_signs \<Rightarrow> string \<Rightarrow> agent_attachment list option \<Rightarrow> bool \<Rightarrow> string" where
  "render_user_message sg message atts omit_media =
     (let xs = (case atts of None \<Rightarrow> [] | Some xs \<Rightarrow> xs) in
      inline_attachment_references (ps_marker sg) (if omit_media then omitted_media else inline_reference) message xs @
      render_text_attachments sg xs)"

text \<open>\<open>renderQuestionAnswer\<close>: a medium is named by its number in the message that follows the answers.\<close>

definition following :: "nat \<Rightarrow> agent_attachment list \<Rightarrow> nat \<Rightarrow> nat" where
  "following first atts index = first + length (media_of (take index atts))"

definition answer_reference :: "nat \<Rightarrow> agent_attachment list \<Rightarrow> nat \<Rightarrow> agent_attachment \<Rightarrow> string" where
  "answer_reference first atts index a =
     (if \<not> is_media a then inline_reference index a
      else ''[attachment '' @ decimal (index + 1) @ '': '' @ att_name a @ '', attachment '' @ decimal (following first atts index) @
        '' of the message after these answers]'')"

definition render_question_answer :: "pill_signs \<Rightarrow> string \<Rightarrow> agent_attachment list \<Rightarrow> nat \<Rightarrow> string" where
  "render_question_answer sg answer atts first =
     inline_attachment_references (ps_marker sg) (answer_reference first atts) answer atts @ render_text_attachments sg atts"

section \<open>Answers to questions\<close>

text \<open>\<open>withAnswerPills\<close>: one list of pills per answer, and one marker per pill.\<close>

definition pill_lists :: "string list \<Rightarrow> agent_attachment list list option \<Rightarrow> agent_attachment list list" where
  "pill_lists answers pills =
     map (\<lambda>i. case pills of None \<Rightarrow> [] | Some ps \<Rightarrow> if i < length ps then ps ! i else []) [0..<length answers]"

definition with_answer_pills :: "char \<Rightarrow> string list \<Rightarrow> agent_attachment list list option \<Rightarrow> request_response" where
  "with_answer_pills m answers pills =
     (let ls = pill_lists answers pills in
      QuestionResponse (map (\<lambda>(a, l). with_marker_count m a (length l)) (zip answers ls))
        (if list_ex (\<lambda>l. l \<noteq> []) ls then Some ls else None))"

definition media_before :: "agent_attachment list list \<Rightarrow> nat \<Rightarrow> nat" where
  "media_before ls index = length (media_of (concat (take index ls)))"

definition agent_response :: "pill_signs \<Rightarrow> request_response \<Rightarrow> request_response" where
  "agent_response sg response =
     (case response of
        QuestionResponse answers (Some ls) \<Rightarrow>
          QuestionResponse (map (\<lambda>(i, a). render_question_answer sg a (if i < length ls then ls ! i else []) (1 + media_before ls i))
             (enumerate 0 answers)) None
      | _ \<Rightarrow> response)"

text \<open>\<open>answerMedia\<close>: the media of the answers as one message, each beside its question.\<close>

definition question_text :: "agent_question list \<Rightarrow> nat \<Rightarrow> string" where
  "question_text questions i = (if i < length questions then q_question (questions ! i) else ''Question '' @ decimal (i + 1))"

definition media_groups :: "agent_question list \<Rightarrow> agent_attachment list list option \<Rightarrow> (string \<times> agent_attachment list) list" where
  "media_groups questions pills =
     filter (\<lambda>g. snd g \<noteq> [])
       (map (\<lambda>(i, l). (question_text questions i, media_of l)) (enumerate 0 (case pills of None \<Rightarrow> [] | Some ls \<Rightarrow> ls)))"

definition answer_media :: "char \<Rightarrow> agent_question list \<Rightarrow> agent_attachment list list option \<Rightarrow> (string \<times> agent_attachment list) option" where
  "answer_media m questions pills =
     (let groups = media_groups questions pills in
      if groups = [] then None
      else Some (join_with [NL] (map (\<lambda>(q, media). ''With my answer to '' @ quoted q @ '': '' @ replicate (length media) m) groups),
                 concat (map snd groups)))"

section \<open>Markers and pills agree\<close>

lemma keep_markers_spec:
  "fst (keep_markers m atts kept s) = kept + length (filter (\<lambda>c. c = m) s) \<and>
   length (filter (\<lambda>c. c = m) (snd (keep_markers m atts kept s))) = min (length (filter (\<lambda>c. c = m) s)) (atts - kept) \<and>
   filter (\<lambda>c. c \<noteq> m) (snd (keep_markers m atts kept s)) = filter (\<lambda>c. c \<noteq> m) s"
proof (induction s arbitrary: kept)
  case (Cons c s)
  show ?case using Cons.IH [of kept] Cons.IH [of "Suc kept"] by (auto simp: case_prod_beta)
qed simp

lemma marker_count:
  "length (filter (\<lambda>c. c = m) (with_marker_count m txt atts)) = atts"
  "filter (\<lambda>c. c \<noteq> m) (with_marker_count m txt atts) = filter (\<lambda>c. c \<noteq> m) txt"
  using keep_markers_spec [of m atts 0 "txt"] by (auto simp: with_marker_count_def case_prod_beta filter_replicate)

fun rejoined :: "char \<Rightarrow> message_part list \<Rightarrow> string" where
  "rejoined m [] = []"
| "rejoined m (Prose txt # parts) = txt @ rejoined m parts"
| "rejoined m (Pill _ # parts) = m # rejoined m parts"

lemma rejoined_append: "rejoined m (xs @ ys) = rejoined m xs @ rejoined m ys"
  by (induction m xs rule: rejoined.induct) auto

definition pills_of :: "message_part list \<Rightarrow> nat list" where
  "pills_of parts = concat (map (\<lambda>p. case p of Pill n \<Rightarrow> [n] | Prose _ \<Rightarrow> []) parts)"

lemma pills_of_simps [simp]:
  "pills_of (xs @ ys) = pills_of xs @ pills_of ys" "pills_of (Pill n # xs) = n # pills_of xs" "pills_of [] = []"
  "pills_of (prose_part txt) = []"
  by (simp_all add: pills_of_def prose_part_def)

lemma rejoined_prose: "rejoined m (prose_part before) = before"
  by (simp add: prose_part_def)

lemma split_parts_spec:
  "rejoined m (split_parts m n before s) = before @ s \<and>
   pills_of (split_parts m n before s) = [n..<n + length (filter (\<lambda>c. c = m) s)]"
proof (induction s arbitrary: n before)
  case Nil
  then show ?case by (simp add: rejoined_prose)
next
  case (Cons c s)
  show ?case
  proof (cases "c = m")
    case True
    then show ?thesis using Cons.IH [of "Suc n" "[]"] by (simp add: rejoined_append rejoined_prose upt_conv_Cons del: upt_Suc)
  next
    case False
    then show ?thesis using Cons.IH [of n "before @ [c]"] by simp
  qed
qed

text \<open>The parts a timeline draws are the message: rejoined they give it back, and its slots count its markers.\<close>

theorem split_rejoins:
  "rejoined m (split_attachment_markers m message) = message \<and>
   pills_of (split_attachment_markers m message) = [0..<length (filter (\<lambda>c. c = m) message)]"
  using split_parts_spec [of m 0 "[]" message] by (simp add: split_attachment_markers_def)

lemma groups_media: "concat (map snd (media_groups questions pills)) = media_of (concat (case pills of None \<Rightarrow> [] | Some ls \<Rightarrow> ls))"
proof -
  have "concat (map snd (filter (\<lambda>g. snd g \<noteq> []) (map (\<lambda>(i, l). (question_text questions i, media_of l)) (enumerate n ls)))) =
      media_of (concat ls)" for n ls
    by (induction ls arbitrary: n) auto
  then show ?thesis by (simp add: media_groups_def)
qed

lemma media_at:
  assumes "j < length xs" and "is_media (xs ! j)"
  shows "media_of xs ! length (media_of (take j xs)) = xs ! j \<and> length (media_of (take j xs)) < length (media_of xs)"
proof -
  have "media_of xs = media_of (take j xs) @ xs ! j # media_of (drop (Suc j) xs)"
    using assms by (subst id_take_nth_drop [OF assms(1)]) simp
  then show ?thesis by simp
qed

lemma media_numbered:
  assumes "i < length ls" and "j < length (ls ! i)" and "is_media (ls ! i ! j)"
  shows "following (1 + media_before ls i) (ls ! i) j - 1 < length (media_of (concat ls)) \<and>
    media_of (concat ls) ! (following (1 + media_before ls i) (ls ! i) j - 1) = ls ! i ! j"
proof -
  have "media_of (concat ls) = media_of (concat (take i ls)) @ media_of (ls ! i) @ media_of (concat (drop (Suc i) ls))"
    by (subst id_take_nth_drop [OF assms(1)]) simp
  moreover note media_at [OF assms(2,3)]
  ultimately show ?thesis by (auto simp: following_def media_before_def nth_append)
qed

text \<open>An answer that carries media names each of them by its number in the message that follows the
  answers, and that message carries it there: whichever answer a medium is pinned to, and whatever else is pinned
  before it, the number the agent reads leads to that medium.\<close>

theorem media_named_by_number:
  assumes "answer_media m questions (Some ls) = Some (message, atts)" and "i < length ls" and "j < length (ls ! i)"
    and "is_media (ls ! i ! j)"
  shows "\<exists>n. answer_reference (1 + media_before ls i) (ls ! i) j (ls ! i ! j) = ''[attachment '' @ decimal (j + 1) @ '': '' @
      att_name (ls ! i ! j) @ '', attachment '' @ decimal n @ '' of the message after these answers]'' \<and>
    1 \<le> n \<and> n \<le> length atts \<and> atts ! (n - 1) = ls ! i ! j"
proof -
  have "atts = media_of (concat ls)"
    using assms(1) groups_media [of questions "Some ls"] by (auto simp: answer_media_def Let_def split: if_splits)
  moreover have "1 \<le> following (1 + media_before ls i) (ls ! i) j" by (simp add: following_def)
  ultimately show ?thesis using media_numbered [OF assms(2-4)] assms(4)
    by (intro exI [of _ "following (1 + media_before ls i) (ls ! i) j"]) (auto simp: answer_reference_def)
qed

definition ex_pills :: "agent_attachment list list" where
  "ex_pills = [[TextAttachment ''t'' ''x'' Paste, MediaAttachment ImageMedia ''a'' ''image/png'' []],
     [MediaAttachment DocumentMedia ''b'' ''application/pdf'' []]]"

theorem media_named_by_number_witness:
  "\<exists>n message atts. answer_media CHR ''~'' [] (Some ex_pills) = Some (message, atts) \<and> n \<le> length atts \<and>
     atts ! (n - 1) = MediaAttachment DocumentMedia ''b'' ''application/pdf'' []"
proof -
  obtain message atts where run: "answer_media CHR ''~'' [] (Some ex_pills) = Some (message, atts)"
    by (simp add: answer_media_def media_groups_def ex_pills_def is_media_def)
  from media_named_by_number [OF run, of 1 0] show ?thesis using run
    by (fastforce simp: ex_pills_def is_media_def)
qed

end
