(* ===== verification/Session_Delivery.thy ===== *)
theory Session_Delivery
  imports Turn_Settle Answer_Pills Activity
begin

text \<open>
  Putting input into a session (\<open>deliverIn\<close>, \<open>deferWaitingRequests\<close>, \<open>authoredByOwner\<close> and what stands
  around them in \<open>agent-sessions-service.ts\<close>), as transactions on the tables of the session log. What the
  session's row keeps beside the fields clients see (who owns it), the workflow runs and the ids and
  hashes drawn at random are in \<open>desk\<close>.
\<close>

section \<open>The desk\<close>

text \<open>A run of a workflow, joined with the enablement that started it.\<close>

record run_author =
  ru_id :: ident
  ru_project_id :: ident
  ru_external_user_id :: "ident option"
  ru_enablement_id :: "ident option"
  ru_owner_is_member :: bool
  ru_owner_external_user_id :: "ident option"

record desk =
  dk_host_id :: ident
  dk_owner :: "ident \<Rightarrow> ident"
  dk_runs :: "run_author list"
  dk_sha :: "string \<Rightarrow> string"
  dk_signs :: pill_signs
  dk_ellipsis :: char
  dk_command_id :: "nat \<Rightarrow> ident"
  dk_turn_id :: ident
  dk_item_id :: ident

definition active_turn_row :: "db \<Rightarrow> ident \<Rightarrow> turn_row option" where
  "active_turn_row d sid = List.find (\<lambda>r. tr_session_id r = sid \<and> is_active_turn_status (tr_status r)) (db_turns d)"

definition queue_command ::
  "desk \<Rightarrow> instant \<Rightarrow> ident \<Rightarrow> ident option \<Rightarrow> turn_command_kind \<Rightarrow> json_object option \<Rightarrow> db \<Rightarrow> db" where
  "queue_command desk now tid aid kind payload d =
     snd (enqueue_command now (dk_command_id desk (length (db_commands d))) tid aid kind payload d)"

section \<open>Whose words\<close>

definition authored_by_owner :: "desk \<Rightarrow> db \<Rightarrow> ident \<Rightarrow> ident \<Rightarrow> session_input \<Rightarrow> ident option \<Rightarrow> bool" where
  "authored_by_owner desk d pid own input delivered_by =
     (case input of
        UserInput author _ _ _ \<Rightarrow> author = own
      | TaskInput _ _ _ _ \<Rightarrow> delivered_by = Some own
      | InboundInput from' _ _ _ \<Rightarrow>
          delivered_by = Some own \<and>
          (case from' of
             AssistantSender user \<Rightarrow> user = own
           | AgentSender sid _ proj \<Rightarrow>
               (case find_row sr_id sid (db_sessions d) of
                  None \<Rightarrow> False
                | Some row \<Rightarrow> f_project_id (sr_fields row) = (case proj of None \<Rightarrow> pid | Some p \<Rightarrow> p) \<and> dk_owner desk sid = own)
           | WorkflowSender run _ _ _ _ _ _ \<Rightarrow>
               (case List.find (\<lambda>r. ru_id r = run \<and> ru_project_id r = pid) (dk_runs desk) of
                  None \<Rightarrow> False
                | Some r \<Rightarrow> if ru_enablement_id r \<noteq> None
                    then ru_owner_is_member r \<and> ru_owner_external_user_id r = Some own
                    else ru_external_user_id r = Some own)))"

text \<open>An input item is a session input with the fields of its delivery.\<close>

fun input_from_body :: "item_body \<Rightarrow> session_input option" where
  "input_from_body (UserMessage _ a t atts an) = Some (UserInput a t atts an)"
| "input_from_body (InboundMessage _ f t atts al) = Some (InboundInput f t atts al)"
| "input_from_body (TaskNotification _ t s x src) = Some (TaskInput t s x src)"
| "input_from_body _ = None"

definition item_by_owner :: "desk \<Rightarrow> db \<Rightarrow> session_row \<Rightarrow> item \<Rightarrow> bool" where
  "item_by_owner desk d session it =
     (case input_from_body (i_body it) of
        None \<Rightarrow> False
      | Some input \<Rightarrow> authored_by_owner desk d (f_project_id (sr_fields session)) (dk_owner desk (sr_id session)) input
          (case delivery_of (i_body it) of None \<Rightarrow> None | Some f \<Rightarrow> d_delivered_by f))"

definition alike_for_owner :: "desk \<Rightarrow> db \<Rightarrow> session_row \<Rightarrow> session_input \<Rightarrow> ident option \<Rightarrow> turn \<Rightarrow> bool" where
  "alike_for_owner desk d session input delivered_by t =
     (case t_input_item_id t of
        None \<Rightarrow> False
      | Some iid \<Rightarrow>
          (case item_row_of d iid of
             None \<Rightarrow> False
           | Some row \<Rightarrow> is_input_item (item_from_row row) \<and>
               authored_by_owner desk d (f_project_id (sr_fields session)) (dk_owner desk (sr_id session)) input delivered_by =
               item_by_owner desk d session (item_from_row row)))"

section \<open>What a delivery becomes\<close>

record delivery =
  dl_input :: session_input
  dl_dispatch :: dispatch_mode
  dl_attention :: bool
  dl_idempotency_key :: "string option"
  dl_delivered_by :: "ident option"
  dl_causation :: "ident list"
  dl_command_id :: "string option"
  dl_item_id :: "ident option"
  dl_for_agent :: bool

record delivery_receipt =
  dr_message_id :: ident
  dr_turn_id :: "ident option"
  dr_mode :: dispatch_mode
  dr_created :: bool

definition says_nothing :: "session_input \<Rightarrow> bool" where
  "says_nothing input =
     (case input of
        TaskInput _ summary _ _ \<Rightarrow> js_trim summary = []
      | UserInput _ words atts _ \<Rightarrow> js_trim words = [] \<and> atts = []
      | InboundInput _ words atts _ \<Rightarrow> js_trim words = [] \<and> atts = [])"

definition is_task_input :: "session_input \<Rightarrow> bool" where
  "is_task_input input = (case input of TaskInput _ _ _ _ \<Rightarrow> True | _ \<Rightarrow> False)"

definition parse_dispatch :: "dispatch_mode option \<Rightarrow> dispatch_mode" where
  "parse_dispatch value = (case value of None \<Rightarrow> DQueue | Some m \<Rightarrow> m)"

definition delivered_before :: "db \<Rightarrow> ident \<Rightarrow> delivery \<Rightarrow> item_row option" where
  "delivered_before d sid dl =
     (case dl_idempotency_key dl of
        None \<Rightarrow> None
      | Some k \<Rightarrow> if k = [] then None
          else List.find (\<lambda>r. ir_session_id r = sid \<and> ir_idempotency_key r = Some k) (db_items d))"

text \<open>
  A turn on its owner's sign-in or files takes in only what the owner wrote; before its runner starts,
  whether it is one is unknown. An active turn without an attempt has no runner to ask here; the code
  then compares the attempts' uuid key with the empty string, which PostgreSQL refuses, so for words that
  are not the owner's the code's transaction fails there where this one goes on.
\<close>

definition joinable :: "desk \<Rightarrow> db \<Rightarrow> session_row \<Rightarrow> delivery \<Rightarrow> turn_row option \<Rightarrow> bool" where
  "joinable desk d session dl active =
     (case active of
        None \<Rightarrow> True
      | Some row \<Rightarrow>
          authored_by_owner desk d (f_project_id (sr_fields session)) (dk_owner desk (sr_id session)) (dl_input dl) (dl_delivered_by dl) \<or>
          (case tr_active_attempt_id row of
             None \<Rightarrow> False
           | Some aid \<Rightarrow>
               (case find_row ar_id aid (db_attempts d) of
                  None \<Rightarrow> False
                | Some a \<Rightarrow> (case ar_runner a of None \<Rightarrow> False | Some s \<Rightarrow> \<not> rs_owner_only s))))"

definition from_child :: "db \<Rightarrow> ident \<Rightarrow> delivery \<Rightarrow> bool" where
  "from_child d sid dl \<longleftrightarrow>
     dl_for_agent dl \<and>
     (case dl_input dl of
        InboundInput (AgentSender child _ _) _ _ _ \<Rightarrow>
          (\<exists>row \<in> set (db_sessions d). sr_id row = child \<and> f_parent_session_id (sr_fields row) = Some sid)
      | _ \<Rightarrow> False)"

definition requested_dispatch :: "bool \<Rightarrow> turn_row option \<Rightarrow> dispatch_mode \<Rightarrow> dispatch_mode" where
  "requested_dispatch child active mode =
     (if child \<and> ((case active of None \<Rightarrow> False | Some r \<Rightarrow> tr_status r \<noteq> Finalizing) \<or> mode = DQueue) then DSteer else mode)"

definition replies_to_waiting :: "bool \<Rightarrow> session_input \<Rightarrow> dispatch_mode \<Rightarrow> turn_row option \<Rightarrow> bool" where
  "replies_to_waiting can_join input requested active \<longleftrightarrow>
     can_join \<and>
     (case input of
        UserInput _ _ _ answer \<Rightarrow> answer = None
      | InboundInput (AssistantSender _) _ _ _ \<Rightarrow> True
      | _ \<Rightarrow> False) \<and>
     (requested = DQueue \<or> requested = DSteer) \<and>
     (case active of None \<Rightarrow> False | Some r \<Rightarrow> tr_status r = Waiting)"

definition steerable :: "bool \<Rightarrow> session_input \<Rightarrow> turn_row option \<Rightarrow> bool" where
  "steerable can_join input active \<longleftrightarrow>
     (case active of None \<Rightarrow> False | Some r \<Rightarrow> can_join \<and> (\<not> is_task_input input \<or> tr_status r \<noteq> Finalizing))"

definition chosen_dispatch :: "bool \<Rightarrow> dispatch_mode \<Rightarrow> bool \<Rightarrow> dispatch_mode" where
  "chosen_dispatch reply requested steers =
     (if reply then DSteer else if requested = DSteer \<and> \<not> steers then DQueue else requested)"

text \<open>The words of a question that stays open, and of a permission request that is withdrawn.\<close>

definition release_reason :: "ident \<Rightarrow> string" where
  "release_reason rid =
     ''The user wrote in the chat before answering. Their message follows; respond to it. Question request '' @ rid @
     '' stays open beside the chat and its answer arrives as a later message, so do not ask it again. If their message '' @
     ''answers it or makes it moot, close it with close_questions.''"

definition withdrawn_reason :: string where
  "withdrawn_reason =
     ''The user wrote in the chat instead of answering this permission request, so it was withdrawn and nothing ran. '' @
     ''Their message follows; respond to it.''"

definition waiting_requests :: "db \<Rightarrow> ident \<Rightarrow> request_row list" where
  "waiting_requests d tid = filter (\<lambda>r. rr_turn_id r = Some tid \<and> rr_status r = RPending \<and> rr_blocking r) (db_requests d)"

definition deferred_request :: "instant \<Rightarrow> runtime_request \<Rightarrow> session_event" where
  "deferred_request now r =
     (if r_kind r = KQuestion then RequestChanged (r\<lparr>r_blocking := False\<rparr>)
      else RequestChanged (r\<lparr>r_status := RCancelled, r_answerable := False, r_reason := Some withdrawn_reason, r_resolved_at := Some now\<rparr>))"

definition deferral_command :: "runtime_request \<Rightarrow> string \<Rightarrow> turn_command_kind \<times> json_object" where
  "deferral_command r key =
     (case r_kind r of
        KQuestion \<Rightarrow> (CRelease, [(''requestKey'', JStr key), (''reason'', JStr (release_reason (r_id r)))])
      | KApproval \<Rightarrow> (CRespond, denial key withdrawn_reason)
      | KElicitation \<Rightarrow> (CRespond, [(''requestKey'', JStr key),
          (''response'', JObj [(''kind'', JStr ''elicitation''), (''action'', JStr ''decline'')])]))"

definition defer_one :: "desk \<Rightarrow> instant \<Rightarrow> ident \<Rightarrow> runtime_request \<Rightarrow> db \<Rightarrow> db" where
  "defer_one desk now tid r d =
     (case r_runner_key r of
        None \<Rightarrow> d
      | Some key \<Rightarrow> if key = [] then d
          else queue_command desk now tid (r_attempt_id r) (fst (deferral_command r key)) (Some (snd (deferral_command r key))) d)"

definition defer_waiting_requests :: "desk \<Rightarrow> instant \<Rightarrow> turn \<Rightarrow> db \<Rightarrow> session_event list \<times> db" where
  "defer_waiting_requests desk now t d =
     (let requests = map request_from_row (waiting_requests d (t_id t)) in
      (if requests = [] then []
       else map (deferred_request now) requests @
         [TurnChanged (t\<lparr>t_status := Running, t_activity := Some ''Reading your message'', t_activity_at := Some now, t_updated_at := now\<rparr>)],
       fold (defer_one desk now (t_id t)) requests d))"

definition provisional_title :: "char \<Rightarrow> string \<Rightarrow> agent_attachment list \<Rightarrow> string" where
  "provisional_title ellipsis words atts =
     (let names = filter (\<lambda>n. n \<noteq> []) (map att_name atts);
          line = js_trim (collapse words);
          title = (if line = [] then join_with '', '' names else line)
      in if 500 < length title then take 499 title @ [ellipsis] else title)"

definition titled :: "desk \<Rightarrow> session_row \<Rightarrow> dispatch_mode \<Rightarrow> session_input \<Rightarrow> session_event list" where
  "titled desk session mode input =
     (if f_title (sr_fields session) = None \<and> mode \<noteq> DMessageOnly
      then (case input of
              TaskInput _ _ _ _ \<Rightarrow> []
            | _ \<Rightarrow> (let title = provisional_title (dk_ellipsis desk) (in_text input) (in_attachments input) in
                if title = [] then [] else [SessionChanged (empty_patch\<lparr>c_title := Some (Some title)\<rparr>)]))
      else [])"

definition body_of :: "session_input \<Rightarrow> delivery_fields \<Rightarrow> item_body" where
  "body_of input f =
     (case input of
        UserInput a t atts an \<Rightarrow> UserMessage f a t atts an
      | InboundInput from' t atts al \<Rightarrow> InboundMessage f from' t atts al
      | TaskInput t s x src \<Rightarrow> TaskNotification f t s x src)"

definition delivered_item :: "instant \<Rightarrow> ident \<Rightarrow> ident \<Rightarrow> ident option \<Rightarrow> bool \<Rightarrow> dispatch_mode \<Rightarrow> delivery \<Rightarrow> item" where
  "delivered_item now sid iid tid unread mode dl =
     \<lparr>i_id = iid, i_session_id = sid, i_turn_id = tid, i_attempt_id = None, i_parent_item_id = None, i_position = 0,
      i_status = (if unread then InProgress else ItemCompleted), i_native_ref = None, i_created_at = now, i_updated_at = now,
      i_started_at = Some now, i_ended_at = Some now,
      i_body = body_of (dl_input dl)
        \<lparr>d_dispatch = mode, d_attention_required = dl_attention dl, d_idempotency_key = dl_idempotency_key dl,
         d_delivered_by = dl_delivered_by dl, d_causation = dl_causation dl\<rparr>\<rparr>"

definition next_ordinal :: "db \<Rightarrow> ident \<Rightarrow> nat" where
  "next_ordinal d sid = fold max (map tr_ordinal (filter (\<lambda>r. tr_session_id r = sid) (db_turns d))) 0 + 1"

definition delivered_turn :: "ident \<Rightarrow> ident \<Rightarrow> nat \<Rightarrow> ident \<Rightarrow> bool \<Rightarrow> instant \<Rightarrow> turn" where
  "delivered_turn tid sid ordinal iid interrupts now =
     (queued_turn tid sid ordinal iid None None now)
       \<lparr>t_dispatch := (if interrupts then TInterrupt else TQueue), t_priority := (if interrupts then 100 else 0)\<rparr>"

definition stop_requested :: "instant \<Rightarrow> turn \<Rightarrow> turn" where
  "stop_requested now t = t\<lparr>t_cancellation_requested := True, t_updated_at := now\<rparr>"

text \<open>
  The turn of the delivery: the active one it steers into, the one waiting for notifications, or a
  turn of its own, which stops the active one when it interrupts.
\<close>

definition turn_for ::
  "desk \<Rightarrow> instant \<Rightarrow> ident \<Rightarrow> ident \<Rightarrow> dispatch_mode \<Rightarrow> turn_row option \<Rightarrow> turn option \<Rightarrow> db \<Rightarrow>
   ident option \<times> session_event list \<times> db"
where
  "turn_for desk now sid iid mode active waiting d =
     (case (if mode = DSteer then active else None) of
        Some row \<Rightarrow> (Some (tr_id row), [], d)
      | None \<Rightarrow>
          (case waiting of
             Some t \<Rightarrow> (Some (t_id t), [], d)
           | None \<Rightarrow>
               if mode = DQueue \<or> mode = DInterrupt
               then (let tid = dk_turn_id desk;
                         new = TurnChanged (delivered_turn tid sid (next_ordinal d sid) iid (mode = DInterrupt) now)
                     in case (if mode = DInterrupt then active else None) of
                          None \<Rightarrow> (Some tid, [new], d)
                        | Some row \<Rightarrow> (Some tid, [new, TurnChanged (stop_requested now (turn_from_row now row))],
                            queue_command desk now (tr_id row) (tr_active_attempt_id row) CInterrupt None d))
               else (None, [], d)))"

section \<open>Delivering\<close>

definition deliver_in :: "desk \<Rightarrow> instant \<Rightarrow> session_row \<Rightarrow> delivery \<Rightarrow> db \<Rightarrow> delivery_receipt tx" where
  "deliver_in desk now session dl d =
     (let sid = sr_id session; input = dl_input dl in
      if says_nothing input then Inl EmptyMessage
      else case delivered_before d sid dl of
        Some r \<Rightarrow> Inr (\<lparr>dr_message_id = ir_id r, dr_turn_id = ir_turn_id r, dr_mode = parse_dispatch (ir_dispatch r), dr_created = False\<rparr>, d)
      | None \<Rightarrow>
          (let active = active_turn_row d sid;
               can_join = joinable desk d session dl active;
               requested = requested_dispatch (from_child d sid dl) active (dl_dispatch dl);
               reply = replies_to_waiting can_join input requested active;
               mode = chosen_dispatch reply requested (steerable can_join input active);
               waiting = (if is_task_input input \<and> mode = DQueue
                 then (case waiting_notification_turn now d sid of
                         None \<Rightarrow> None
                       | Some t \<Rightarrow> if alike_for_owner desk d session input (dl_delivered_by dl) t then Some t else None)
                 else None);
               iid = (case dl_item_id dl of None \<Rightarrow> dk_item_id desk | Some i \<Rightarrow> i);
               (deferred, d1) = (case (if reply then active else None) of
                  None \<Rightarrow> ([], d) | Some row \<Rightarrow> defer_waiting_requests desk now (turn_from_row now row) d);
               (tid, turns, d2) = turn_for desk now sid iid mode active waiting d1;
               steered = (mode = DSteer \<and> active \<noteq> None);
               unread = ((mode = DMessageOnly \<and> dl_for_agent dl) \<or> steered);
               events = ItemAdded (delivered_item now sid iid tid unread mode dl) # deferred @ turns @ titled desk session mode input @
                 (if dl_attention dl then [SessionChanged (empty_patch\<lparr>c_attention_revision := Some (f_attention_revision (sr_fields session) + 1)\<rparr>)]
                  else []);
               d3 = (case (if steered then active else None) of
                  None \<Rightarrow> d2
                | Some row \<Rightarrow> queue_command desk now (tr_id row) (tr_active_attempt_id row) CSteer (Some [(''itemId'', JStr iid)]) d2)
           in case append_events now sid (dl_command_id dl) events d3 of
                Inl err \<Rightarrow> Inl err
              | Inr (_, d4) \<Rightarrow> Inr (\<lparr>dr_message_id = iid, dr_turn_id = tid, dr_mode = mode, dr_created = True\<rparr>, d4)))"

text \<open>\<open>assertAcceptsInput\<close>: a session that is closed, moving or another host's takes no input here.\<close>

definition unassigned :: ident where "unassigned = ''unassigned''"

definition accepts_input :: "desk \<Rightarrow> session_row \<Rightarrow> log_error option" where
  "accepts_input desk session =
     (let f = sr_fields session in
      if f_status f \<noteq> SessionActive then Some (ChatClosed (f_id f))
      else if f_handoff_status f = HandoffPending then Some (ChatMoving (f_id f))
      else if f_authority_host_id f \<noteq> unassigned \<and> f_authority_host_id f \<noteq> dk_host_id desk
      then Some (AuthorityElsewhere (f_id f) (f_authority_host_id f) (f_authority_revision f)) else None)"

text \<open>
  What a delivery that needs attention does beside the log: the owner's view of the chat is promoted
  (an archived one stays archived) and the owner is notified.
\<close>

datatype visibility = Promoted | Archived | Other string

record view_row =
  vw_session_id :: ident
  vw_tenant_id :: ident
  vw_user_id :: ident
  vw_visibility :: visibility
  vw_previous :: visibility
  vw_updated_at :: instant

record notice_row =
  nr_user_id :: ident
  nr_session_id :: ident
  nr_body :: string
  nr_collapse_key :: string

definition vw_key :: "view_row \<Rightarrow> ident \<times> ident \<times> ident" where
  "vw_key v = (vw_session_id v, vw_tenant_id v, vw_user_id v)"

definition promote_view :: "instant \<Rightarrow> ident \<Rightarrow> ident \<Rightarrow> ident \<Rightarrow> view_row list \<Rightarrow> view_row list" where
  "promote_view now sid tenant user =
     upsert vw_key
       (\<lambda>v. v\<lparr>vw_visibility := (if vw_visibility v = Archived then Archived else Promoted), vw_previous := Promoted, vw_updated_at := now\<rparr>)
       \<lparr>vw_session_id = sid, vw_tenant_id = tenant, vw_user_id = user, vw_visibility = Promoted, vw_previous = Promoted, vw_updated_at = now\<rparr>"

definition attention_notice :: "ident \<Rightarrow> ident \<Rightarrow> ident \<Rightarrow> session_input \<Rightarrow> notice_row" where
  "attention_notice user sid iid input =
     \<lparr>nr_user_id = user, nr_session_id = sid, nr_body = (case input of TaskInput _ summary _ _ \<Rightarrow> summary | _ \<Rightarrow> in_text input),
      nr_collapse_key = ''message:'' @ iid\<rparr>"

definition deliver_with_attention ::
  "desk \<Rightarrow> instant \<Rightarrow> ident \<Rightarrow> session_row \<Rightarrow> delivery \<Rightarrow> db \<times> view_row list \<times> notice_row list \<Rightarrow>
   log_error + delivery_receipt \<times> db \<times> view_row list \<times> notice_row list"
where
  "deliver_with_attention desk now tenant session dl = (\<lambda>(d, views, notices).
     case deliver_in desk now session dl d of
       Inl err \<Rightarrow> Inl err
     | Inr (rc, d') \<Rightarrow>
         (let user = dk_owner desk (sr_id session) in
          if dr_created rc \<and> dl_attention dl
          then Inr (rc, d', promote_view now (sr_id session) tenant user views,
                 notices @ [attention_notice user (sr_id session) (dr_message_id rc) (dl_input dl)])
          else Inr (rc, d', views, notices)))"

text \<open>\<open>importMailbox\<close> of an input item: only what the owner wrote runs, anything else is there to read.\<close>

record mailbox_item =
  mb_id :: ident
  mb_source_host :: ident
  mb_message_id :: ident
  mb_input :: session_input
  mb_mode :: dispatch_mode
  mb_attention :: bool
  mb_delivered_by :: "ident option"
  mb_owner_authored :: bool
  mb_causation :: "ident list"

definition mailbox_delivery :: "mailbox_item \<Rightarrow> delivery" where
  "mailbox_delivery mb =
     \<lparr>dl_input = mb_input mb, dl_dispatch = (if mb_owner_authored mb then mb_mode mb else DMessageOnly), dl_attention = mb_attention mb,
      dl_idempotency_key = Some (''mailbox:'' @ mb_source_host mb @ '':'' @ mb_id mb), dl_delivered_by = mb_delivered_by mb,
      dl_causation = mb_causation mb, dl_command_id = None, dl_item_id = Some (mb_message_id mb), dl_for_agent = mb_owner_authored mb\<rparr>"

text \<open>
  \<open>riders\<close> of \<open>turn-engine.ts\<close>: the context a starting turn reads beside its input. What waits to be
  read so is \<open>unread_context\<close>, the rows of its query before the limit.
\<close>

definition unread_context :: "db \<Rightarrow> ident \<Rightarrow> item_row list" where
  "unread_context d sid =
     sort_key ir_position (filter (\<lambda>r. ir_session_id r = sid \<and> ir_kind r \<in> set INPUT_ITEM_KINDS \<and>
       ir_dispatch r = Some DMessageOnly \<and> ir_status r = InProgress \<and> ir_turn_id r = None) (db_items d))"

definition riders :: "desk \<Rightarrow> db \<Rightarrow> session_row \<Rightarrow> bool \<Rightarrow> item list" where
  "riders desk d session owner_only =
     (let items = filter is_input_item (map item_from_row (take 50 (unread_context d (sr_id session))))
      in if \<not> owner_only then items else filter (item_by_owner desk d session) items)"

end
