(* ===== verification/Delivery_Laws.thy ===== *)
theory Delivery_Laws
  imports Append_Laws Session_Delivery
begin

text \<open>
  What a delivery promises: the words are in the session, on the turn its receipt names, where the agent
  reads them (as the turn's input, by a steering command, or as context for the next turn); sent again
  under the same key it answers with the first delivery; and a person's reply to a waiting turn lets it
  work on, with its questions still open.
\<close>

section \<open>Queued commands\<close>

lemma queue_command_frame [simp]:
  "db_turns (queue_command desk now tid aid kind payload d) = db_turns d"
  "db_items (queue_command desk now tid aid kind payload d) = db_items d"
  "db_requests (queue_command desk now tid aid kind payload d) = db_requests d"
  "db_attempts (queue_command desk now tid aid kind payload d) = db_attempts d"
  "db_threads (queue_command desk now tid aid kind payload d) = db_threads d"
  "db_sessions (queue_command desk now tid aid kind payload d) = db_sessions d"
  "db_receipts (queue_command desk now tid aid kind payload d) = db_receipts d"
  by (simp_all add: queue_command_def enqueue_command_def)

lemma queue_command_commands:
  "db_commands (queue_command desk now tid aid kind payload d) = db_commands d @
     [\<lparr>tc_id = dk_command_id desk (length (db_commands d)), tc_turn_id = tid, tc_attempt_id = aid, tc_kind = kind,
       tc_payload = (case payload of None \<Rightarrow> [] | Some p \<Rightarrow> p), tc_status = CPending, tc_created_at = now,
       tc_sent_at = None, tc_acknowledged_at = None\<rparr>]"
  by (simp add: queue_command_def enqueue_command_def)

text \<open>An open command for a turn's attempt, as the engine reads it.\<close>

definition asked_of_turn :: "db \<Rightarrow> ident \<Rightarrow> ident option \<Rightarrow> turn_command_kind \<Rightarrow> json_object \<Rightarrow> bool" where
  "asked_of_turn d tid aid kind payload \<longleftrightarrow>
     (\<exists>c \<in> set (open_commands tid d). tc_attempt_id c = aid \<and> tc_kind c = kind \<and> tc_payload c = payload)"

lemma asked_of_turn_alt:
  "asked_of_turn d tid aid kind payload \<longleftrightarrow>
     (\<exists>c \<in> set (db_commands d). tc_turn_id c = tid \<and> tc_attempt_id c = aid \<and> tc_kind c = kind \<and> tc_payload c = payload \<and>
        (tc_status c = CPending \<or> tc_status c = CSent))"
  by (auto simp: asked_of_turn_def open_commands_def)

lemma asked_queue [simp]:
  "asked_of_turn (queue_command desk now tid aid kind payload d) t a k p \<longleftrightarrow>
     asked_of_turn d t a k p \<or> tid = t \<and> aid = a \<and> kind = k \<and> (case payload of None \<Rightarrow> [] | Some x \<Rightarrow> x) = p"
  by (auto simp: asked_of_turn_alt queue_command_commands)

lemma asked_append: "append_events now sid cmd events d = Inr (stored, d') \<Longrightarrow> asked_of_turn d' t a k p = asked_of_turn d t a k p"
  by (simp add: asked_of_turn_alt append_commands)

lemma defer_one_frame [simp]:
  "db_turns (defer_one desk now tid r d) = db_turns d" "db_items (defer_one desk now tid r d) = db_items d"
  "db_requests (defer_one desk now tid r d) = db_requests d" "db_attempts (defer_one desk now tid r d) = db_attempts d"
  "db_threads (defer_one desk now tid r d) = db_threads d"
  "db_sessions (defer_one desk now tid r d) = db_sessions d" "db_receipts (defer_one desk now tid r d) = db_receipts d"
  by (simp_all add: defer_one_def split: option.splits)

lemma defer_all_frame [simp]:
  "db_turns (fold (defer_one desk now tid) rs d) = db_turns d" "db_items (fold (defer_one desk now tid) rs d) = db_items d"
  "db_requests (fold (defer_one desk now tid) rs d) = db_requests d"
  "db_attempts (fold (defer_one desk now tid) rs d) = db_attempts d"
  "db_threads (fold (defer_one desk now tid) rs d) = db_threads d"
  "db_sessions (fold (defer_one desk now tid) rs d) = db_sessions d"
  "db_receipts (fold (defer_one desk now tid) rs d) = db_receipts d"
  by (induction rs arbitrary: d) simp_all

section \<open>A delivery, step by step\<close>

record planned =
  pl_active :: "turn_row option"
  pl_reply :: bool
  pl_mode :: dispatch_mode
  pl_waiting :: "turn option"
  pl_item :: ident

text \<open>What \<open>deliver_in\<close> settles before it writes anything.\<close>

definition plan_delivery :: "desk \<Rightarrow> instant \<Rightarrow> session_row \<Rightarrow> delivery \<Rightarrow> db \<Rightarrow> planned" where
  "plan_delivery desk now session dl d =
     (let sid = sr_id session; input = dl_input dl; active = active_turn_row d sid;
          can_join = joinable desk d session dl active;
          requested = requested_dispatch (from_child d sid dl) active (dl_dispatch dl);
          reply = replies_to_waiting can_join input requested active;
          mode = chosen_dispatch reply requested (steerable can_join input active)
      in \<lparr>pl_active = active, pl_reply = reply, pl_mode = mode,
          pl_waiting = (if is_task_input input \<and> mode = DQueue
            then (case waiting_notification_turn now d sid of None \<Rightarrow> None
                  | Some t \<Rightarrow> if alike_for_owner desk d session input (dl_delivered_by dl) t then Some t else None)
            else None),
          pl_item = (case dl_item_id dl of None \<Rightarrow> dk_item_id desk | Some i \<Rightarrow> i)\<rparr>)"

definition rest_said :: "desk \<Rightarrow> session_row \<Rightarrow> delivery \<Rightarrow> dispatch_mode \<Rightarrow> session_event list" where
  "rest_said desk session dl mode = titled desk session mode (dl_input dl) @
     (if dl_attention dl then [SessionChanged (empty_patch\<lparr>c_attention_revision := Some (f_attention_revision (sr_fields session) + 1)\<rparr>)]
      else [])"

lemma rest_said_quiet [simp]:
  "turns_said (rest_said desk session dl mode) = []" "items_said (rest_said desk session dl mode) = []"
  "requests_said (rest_said desk session dl mode) = []" "said_of d sid tid (rest_said desk session dl mode) = []"
  "e \<in> set (rest_said desk session dl mode) \<Longrightarrow> \<not> streams e"
  by (auto simp: rest_said_def titled_def Let_def streams_def split: session_input.splits if_splits)

definition defers :: "desk \<Rightarrow> instant \<Rightarrow> planned \<Rightarrow> db \<Rightarrow> session_event list \<times> db" where
  "defers desk now pl d =
     (case (if pl_reply pl then pl_active pl else None) of None \<Rightarrow> ([], d)
      | Some row \<Rightarrow> defer_waiting_requests desk now (turn_from_row now row) d)"

definition delivery_batch :: "desk \<Rightarrow> instant \<Rightarrow> session_row \<Rightarrow> delivery \<Rightarrow> planned \<Rightarrow> session_event list \<Rightarrow> ident option \<Rightarrow> session_event list \<Rightarrow> session_event list" where
  "delivery_batch desk now session dl pl deferred tid turns =
     ItemAdded (delivered_item now (sr_id session) (pl_item pl) tid
       ((pl_mode pl = DMessageOnly \<and> dl_for_agent dl) \<or> (pl_mode pl = DSteer \<and> pl_active pl \<noteq> None)) (pl_mode pl) dl) #
     deferred @ turns @ rest_said desk session dl (pl_mode pl)"

definition steers :: "desk \<Rightarrow> instant \<Rightarrow> planned \<Rightarrow> db \<Rightarrow> db" where
  "steers desk now pl d =
     (case (if pl_mode pl = DSteer then pl_active pl else None) of None \<Rightarrow> d
      | Some row \<Rightarrow> queue_command desk now (tr_id row) (tr_active_attempt_id row) CSteer (Some [(''itemId'', JStr (pl_item pl))]) d)"

text \<open>A delivery that writes: its batch, and the commands it leaves open.\<close>

lemma deliver_in_plan:
  assumes "\<not> says_nothing (dl_input dl)" and "delivered_before d (sr_id session) dl = None"
    and "pl = plan_delivery desk now session dl d" and "defers desk now pl d = (deferred, d1)"
    and "turn_for desk now (sr_id session) (pl_item pl) (pl_mode pl) (pl_active pl) (pl_waiting pl) d1 = (tid, turns, d2)"
  shows "deliver_in desk now session dl d =
    (case append_events now (sr_id session) (dl_command_id dl) (delivery_batch desk now session dl pl deferred tid turns) (steers desk now pl d2) of
       Inl err \<Rightarrow> Inl err
     | Inr (_, d') \<Rightarrow> Inr (\<lparr>dr_message_id = pl_item pl, dr_turn_id = tid, dr_mode = pl_mode pl, dr_created = True\<rparr>, d'))"
proof -
  let ?can = "joinable desk d session dl (pl_active pl)"
  let ?asked = "requested_dispatch (from_child d (sr_id session) dl) (pl_active pl) (dl_dispatch dl)"
  have active: "active_turn_row d (sr_id session) = pl_active pl" by (simp add: assms(3) plan_delivery_def Let_def)
  have reply: "replies_to_waiting ?can (dl_input dl) ?asked (pl_active pl) = pl_reply pl" by (simp add: assms(3) plan_delivery_def Let_def)
  have mode: "chosen_dispatch (pl_reply pl) ?asked (steerable ?can (dl_input dl) (pl_active pl)) = pl_mode pl"
    by (simp add: assms(3) plan_delivery_def Let_def)
  have waiting: "(if is_task_input (dl_input dl) \<and> pl_mode pl = DQueue
     then (case waiting_notification_turn now d (sr_id session) of None \<Rightarrow> None
           | Some t \<Rightarrow> if alike_for_owner desk d session (dl_input dl) (dl_delivered_by dl) t then Some t else None)
     else None) = pl_waiting pl" by (simp add: assms(3) plan_delivery_def Let_def)
  have iid: "(case dl_item_id dl of None \<Rightarrow> dk_item_id desk | Some i \<Rightarrow> i) = pl_item pl" by (simp add: assms(3) plan_delivery_def Let_def)
  note df = assms(4) [unfolded defers_def]
  show ?thesis
    unfolding deliver_in_def Let_def delivery_batch_def rest_said_def steers_def active reply mode waiting iid assms(2) df assms(5)
      prod.case
    using assms(1) by simp
qed

lemma deliver_creates:
  assumes run: "deliver_in desk now session dl d = Inr (rc, d')" and new: "dr_created rc"
  obtains pl deferred d1 tid turns d2 stored where
    "pl = plan_delivery desk now session dl d" "defers desk now pl d = (deferred, d1)"
    "turn_for desk now (sr_id session) (pl_item pl) (pl_mode pl) (pl_active pl) (pl_waiting pl) d1 = (tid, turns, d2)"
    "append_events now (sr_id session) (dl_command_id dl) (delivery_batch desk now session dl pl deferred tid turns)
       (steers desk now pl d2) = Inr (stored, d')"
    "rc = \<lparr>dr_message_id = pl_item pl, dr_turn_id = tid, dr_mode = pl_mode pl, dr_created = True\<rparr>"
    "\<not> says_nothing (dl_input dl)" "delivered_before d (sr_id session) dl = None"
proof -
  have now: "\<not> says_nothing (dl_input dl)" "delivered_before d (sr_id session) dl = None"
    using run new by (auto simp: deliver_in_def Let_def split: if_splits option.splits)
  let ?pl = "plan_delivery desk now session dl d"
  obtain deferred d1 where df: "defers desk now ?pl d = (deferred, d1)" by (metis surj_pair)
  obtain tid turns d2 where tf: "turn_for desk now (sr_id session) (pl_item ?pl) (pl_mode ?pl) (pl_active ?pl) (pl_waiting ?pl) d1 = (tid, turns, d2)"
    by (metis surj_pair)
  from run deliver_in_plan [OF now refl df tf] show ?thesis
    using that [OF refl df tf _ _ now] by (auto split: sum.splits)
qed

section \<open>The plan\<close>

lemma plan_steers:
  "pl_mode (plan_delivery desk now session dl d) = DSteer \<Longrightarrow>
   \<exists>row. pl_active (plan_delivery desk now session dl d) = Some row"
  by (auto simp: plan_delivery_def Let_def chosen_dispatch_def steerable_def replies_to_waiting_def split: if_splits option.splits)

lemma plan_replies:
  assumes "pl_reply (plan_delivery desk now session dl d)"
  shows "pl_mode (plan_delivery desk now session dl d) = DSteer"
    "\<exists>row. pl_active (plan_delivery desk now session dl d) = Some row \<and> tr_status row = Waiting"
  using assms by (auto simp: plan_delivery_def Let_def chosen_dispatch_def replies_to_waiting_def split: option.splits)

lemma plan_waits:
  assumes "pl_waiting (plan_delivery desk now session dl d) = Some t"
  shows "pl_mode (plan_delivery desk now session dl d) = DQueue" "waiting_notification_turn now d (sr_id session) = Some t"
  using assms by (auto simp: plan_delivery_def Let_def split: if_splits option.splits)

lemma active_row:
  assumes "active_turn_row d sid = Some row" and "unique_keys tr_id (db_turns d)"
  shows "turn_row_of d sid (tr_id row) = Some row" "is_active_turn_status (tr_status row)" "row \<in> set (db_turns d)"
    "tr_session_id row = sid"
proof -
  from find_in [OF assms(1) [unfolded active_turn_row_def]]
  have row: "row \<in> set (db_turns d)" "tr_session_id row = sid" "is_active_turn_status (tr_status row)" by simp_all
  then show "row \<in> set (db_turns d)" "tr_session_id row = sid" "is_active_turn_status (tr_status row)" by auto
  show "turn_row_of d sid (tr_id row) = Some row"
    using find_row_unique [OF assms(2) row(1)] row(2) turn_row_of_find [OF assms(2)] by simp
qed

lemma waiting_row:
  assumes "waiting_notification_turn now d sid = Some t" and "unique_keys tr_id (db_turns d)"
  shows "\<exists>row. turn_row_of d sid (t_id t) = Some row \<and> tr_status row = Queued"
proof -
  from assms(1) have "t \<in> set (waiting_notification_turns now d sid 1)"
    by (auto simp: waiting_notification_turn_def split: list.splits)
  then obtain row where "row \<in> set (db_turns d)" "tr_session_id row = sid" "tr_status row = Queued" "t = turn_from_row now row"
    unfolding waiting_notification_turns_def by (auto dest!: in_set_takeD)
  then show ?thesis using find_row_unique [OF assms(2)] turn_row_of_find [OF assms(2)] by (auto simp: turn_from_row_def)
qed

section \<open>Deferred requests\<close>

lemma defers_said:
  assumes "defers desk now pl d = (deferred, d1)"
  shows "items_said deferred = []" "e \<in> set deferred \<Longrightarrow> \<not> streams e"
    "TurnChanged t \<in> set deferred \<Longrightarrow> t_status t = Running \<and>
       (\<exists>row. pl_active pl = Some row \<and> t_id t = tr_id row \<and> t_active_attempt_id t = tr_active_attempt_id row \<and> t_cancellation_requested t = (tr_cancellation_requested_at row \<noteq> None))"
    "\<not> pl_reply pl \<Longrightarrow> deferred = [] \<and> d1 = d"
    "db_turns d1 = db_turns d" "db_items d1 = db_items d" "db_requests d1 = db_requests d"
    "db_attempts d1 = db_attempts d" "db_sessions d1 = db_sessions d" "db_receipts d1 = db_receipts d"
proof -
  have items: "items_said (map (deferred_request now) rs) = []" for rs
    by (induction rs) (simp_all add: deferred_request_def)
  have all: "items_said deferred = [] \<and> (\<forall>e \<in> set deferred. \<not> streams e) \<and> (\<forall>t. TurnChanged t \<in> set deferred \<longrightarrow> t_status t = Running \<and>
       (\<exists>row. pl_active pl = Some row \<and> t_id t = tr_id row \<and> t_active_attempt_id t = tr_active_attempt_id row \<and> t_cancellation_requested t = (tr_cancellation_requested_at row \<noteq> None))) \<and>
     (\<not> pl_reply pl \<longrightarrow> deferred = [] \<and> d1 = d)"
    using assms
    by (auto simp: defers_def defer_waiting_requests_def Let_def items streams_def deferred_request_def turn_from_row_def
      simp del: map_map split: option.splits if_splits)
  from all show "items_said deferred = []" "e \<in> set deferred \<Longrightarrow> \<not> streams e"
    "TurnChanged t \<in> set deferred \<Longrightarrow> t_status t = Running \<and>
       (\<exists>row. pl_active pl = Some row \<and> t_id t = tr_id row \<and> t_active_attempt_id t = tr_active_attempt_id row \<and> t_cancellation_requested t = (tr_cancellation_requested_at row \<noteq> None))"
    "\<not> pl_reply pl \<Longrightarrow> deferred = [] \<and> d1 = d" by blast+
  show "db_turns d1 = db_turns d" "db_items d1 = db_items d" "db_requests d1 = db_requests d"
    "db_attempts d1 = db_attempts d" "db_sessions d1 = db_sessions d" "db_receipts d1 = db_receipts d"
    using assms by (auto simp: defers_def defer_waiting_requests_def Let_def split: option.splits)
qed

lemma turn_for_said:
  assumes "turn_for desk now sid iid mode active waiting d = (tid, turns, d')"
  shows "items_said turns = []" "requests_said turns = []" "e \<in> set turns \<Longrightarrow> \<not> streams e"
    "db_turns d' = db_turns d" "db_items d' = db_items d" "db_requests d' = db_requests d"
    "db_attempts d' = db_attempts d" "db_sessions d' = db_sessions d" "db_receipts d' = db_receipts d"
  using assms by (auto simp: turn_for_def Let_def streams_def split: option.splits if_splits)

lemma steers_frame [simp]:
  "db_turns (steers desk now pl d) = db_turns d" "db_items (steers desk now pl d) = db_items d"
  "db_requests (steers desk now pl d) = db_requests d" "db_attempts (steers desk now pl d) = db_attempts d"
  "db_sessions (steers desk now pl d) = db_sessions d" "db_receipts (steers desk now pl d) = db_receipts d"
  by (simp_all add: steers_def split: option.splits)

lemma batch_said:
  assumes "defers desk now pl d = (deferred, d1)"
    and "turn_for desk now (sr_id session) (pl_item pl) (pl_mode pl) (pl_active pl) (pl_waiting pl) d1 = (tid, turns, d2)"
  shows "items_said (delivery_batch desk now session dl pl deferred tid turns) =
      [delivered_item now (sr_id session) (pl_item pl) tid
       ((pl_mode pl = DMessageOnly \<and> dl_for_agent dl) \<or> (pl_mode pl = DSteer \<and> pl_active pl \<noteq> None)) (pl_mode pl) dl]"
    "requests_said (delivery_batch desk now session dl pl deferred tid turns) = requests_said deferred"
    "e \<in> set (delivery_batch desk now session dl pl deferred tid turns) \<Longrightarrow> \<not> streams e"
    "TurnChanged t \<in> set (delivery_batch desk now session dl pl deferred tid turns) \<longleftrightarrow>
       TurnChanged t \<in> set deferred \<or> TurnChanged t \<in> set turns"
    "said_of x s i (delivery_batch desk now session dl pl deferred tid turns) = said_of x s i deferred @ said_of x s i turns"
  using defers_said(1,2) [OF assms(1)] turn_for_said(1-3) [OF assms(2)] rest_said_quiet(1)
  by (auto simp: delivery_batch_def in_turns_said [symmetric] streams_def [of "ItemAdded _"])

section \<open>The words are in the session\<close>

text \<open>
  The turn a delivery reaches, and how its agent gets to read it. Context on no turn waits among the items
  the session's next turns read beside their input, which while there are at most fifty is the next turn;
  what is only for people never waits there.
\<close>

definition agent_reads :: "desk \<Rightarrow> db \<Rightarrow> session_row \<Rightarrow> bool \<Rightarrow> item_row \<Rightarrow> dispatch_mode \<Rightarrow> ident option \<Rightarrow> bool" where
  "agent_reads desk d session for_agent item mode tid \<longleftrightarrow>
     (case tid of
        None \<Rightarrow> mode = DMessageOnly \<and>
          (if for_agent
           then item \<in> set (unread_context d (sr_id session)) \<and>
             (length (unread_context d (sr_id session)) \<le> 50 \<longrightarrow> item_from_row item \<in> set (riders desk d session False) \<and>
                (item_by_owner desk d session (item_from_row item) \<longrightarrow> item_from_row item \<in> set (riders desk d session True)))
           else ir_status item = ItemCompleted \<and> item \<notin> set (unread_context d (sr_id session)))
      | Some i \<Rightarrow>
          (\<exists>t. turn_row_of d (sr_id session) i = Some t \<and>
             (if mode = DSteer
              then is_active_turn_status (tr_status t) \<and> ir_status item = InProgress \<and>
                asked_of_turn d i (tr_active_attempt_id t) CSteer [(''itemId'', JStr (ir_id item))]
              else tr_status t = Queued \<and> ir_status item = ItemCompleted)))"

lemma context_reads:
  assumes "item \<in> set (db_items d)" "ir_session_id item = sr_id session" "is_input_item (item_from_row item)"
    "ir_kind item \<in> set INPUT_ITEM_KINDS" "ir_dispatch item = Some DMessageOnly" "ir_turn_id item = None"
    and st: "ir_status item = (if for_agent then InProgress else ItemCompleted)"
  shows "agent_reads desk d session for_agent item DMessageOnly None"
  using assms by (auto simp: agent_reads_def riders_def unread_context_def)

lemma delivered_fields [simp]:
  "i_id (delivered_item now sid iid tid unread mode dl) = iid" "i_turn_id (delivered_item now sid iid tid unread mode dl) = tid"
  "i_status (delivered_item now sid iid tid unread mode dl) = (if unread then InProgress else ItemCompleted)"
  by (simp_all add: delivered_item_def)

lemma delivered_row:
  "ir_dispatch (new_item_row sid (delivered_item now sid iid tid unread mode dl\<lparr>i_position := p\<rparr>)) = Some mode"
  "ir_idempotency_key (new_item_row sid (delivered_item now sid iid tid unread mode dl\<lparr>i_position := p\<rparr>)) = dl_idempotency_key dl"
  "input_from_body (i_body (item_from_row (new_item_row sid (delivered_item now sid iid tid unread mode dl\<lparr>i_position := p\<rparr>)))) = Some (dl_input dl)"
  by (cases "dl_input dl"; simp add: new_item_row_def delivered_item_def body_of_def item_from_row_def Let_def)+

lemma delivered_kind:
  "is_input_item (item_from_row (new_item_row sid (delivered_item now sid iid tid unread mode dl\<lparr>i_position := p\<rparr>)))"
  "ir_kind (new_item_row sid (delivered_item now sid iid tid unread mode dl\<lparr>i_position := p\<rparr>)) \<in> set INPUT_ITEM_KINDS"
  by (cases "dl_input dl"; simp add: new_item_row_def delivered_item_def body_of_def item_from_row_def Let_def is_input_item_def INPUT_ITEM_KINDS_def)+

lemma delivered_turn_fields [simp]: "t_id (delivered_turn tid sid n iid b now) = tid" "t_status (delivered_turn tid sid n iid b now) = Queued"
  by (simp_all add: delivered_turn_def)

text \<open>A new turn said once has the row the projector inserts.\<close>

lemma append_new_turn:
  assumes run: "append_events now sid cmd events d = Inr (stored, d')" and tc: "turn_constraints (db_turns d)"
    and fresh: "t_id t \<notin> tr_id ` set (db_turns d)" and said: "said_of d sid (t_id t) events = [t]"
  shows "turn_row_of d' sid (t_id t) = Some (new_turn_row now sid now t)"
proof -
  from fresh have "find_row tr_id (t_id t) (db_turns d) = None" by (simp add: find_row_None)
  with append_turn_row [OF run, of "t_id t"] said
  have "find_row tr_id (t_id t) (db_turns d') = Some (new_turn_row now sid now t)" by (simp add: write_turn_def)
  moreover from append_turn_constraints [OF run tc] have "unique_keys tr_id (db_turns d')" by (rule turn_constraints_unique)
  ultimately show ?thesis by (simp add: turn_row_of_find)
qed

lemma current_turn_new: "turn_row_of d sid (t_id t) = None \<Longrightarrow> current_turn d sid (TurnChanged t) = [TurnChanged t]"
  by (simp add: current_turn_def)

lemma turn_row_absent: "tid \<notin> tr_id ` set (db_turns d) \<Longrightarrow> turn_row_of d sid tid = None"
  by (auto simp: turn_row_of_def find_row_None)

lemma turn_row_of_cong: "db_turns d = db_turns d' \<Longrightarrow> turn_row_of d = turn_row_of d'"
  by (simp add: turn_row_of_def fun_eq_iff)

lemma delivered_turn_reached:
  assumes pl: "pl = plan_delivery desk now session dl d" and df: "defers desk now pl d = (deferred, d1)"
    and tf: "turn_for desk now (sr_id session) (pl_item pl) (pl_mode pl) (pl_active pl) (pl_waiting pl) d1 = (tid, turns, d2)"
    and run: "append_events now (sr_id session) cmd (delivery_batch desk now session dl pl deferred tid turns) (steers desk now pl d2) = Inr (stored, d')"
    and tc: "turn_constraints (db_turns d)" and fresh: "dk_turn_id desk \<notin> tr_id ` set (db_turns d)"
    and iid: "ir_id item = pl_item pl"
    and st: "ir_status item = (if (pl_mode pl = DMessageOnly \<and> dl_for_agent dl) \<or> (pl_mode pl = DSteer \<and> pl_active pl \<noteq> None)
      then InProgress else ItemCompleted)"
    and home: "item \<in> set (db_items d')" "ir_session_id item = sr_id session" "is_input_item (item_from_row item)"
      "ir_kind item \<in> set INPUT_ITEM_KINDS" "ir_dispatch item = Some (pl_mode pl)" "ir_turn_id item = tid"
  shows "agent_reads desk d' session (dl_for_agent dl) item (pl_mode pl) tid"
proof -
  let ?sid = "sr_id session" and ?d3 = "steers desk now pl d2"
  note uk = turn_constraints_unique [OF tc]
  have same: "db_turns ?d3 = db_turns d" using defers_said(5) [OF df] turn_for_said(4) [OF tf] by simp
  note rows = turn_row_of_cong [OF same]
  note said = batch_said [OF df tf]
  have active: "pl_active pl = active_turn_row d ?sid" by (simp add: pl plan_delivery_def Let_def)
  show ?thesis
  proof (cases "pl_mode pl = DSteer")
    case True
    with plan_steers [of desk now session dl d] pl obtain row where row: "pl_active pl = Some row" by auto
    note act = active_row [OF row [unfolded active] uk]
    from tf row True have tid: "tid = Some (tr_id row)" "turns = []" by (auto simp: turn_for_def)
    have "\<exists>row'. turn_row_of d' ?sid (tr_id row) = Some row' \<and>
        (is_active_turn_status (tr_status row') \<and> tr_active_attempt_id row' = tr_active_attempt_id row)"
    proof (rule append_turn_rule [OF run])
      show "turn_constraints (db_turns ?d3)" using tc same by simp
      show "turn_row_of ?d3 ?sid (tr_id row) = Some row" using act(1) rows by simp
      show "is_active_turn_status (tr_status row) \<and> tr_active_attempt_id row = tr_active_attempt_id row" using act(2) by simp
      fix t and row' :: turn_row
      assume t: "TurnChanged t \<in> set (current_turns ?d3 ?sid (delivery_batch desk now session dl pl deferred tid turns))"
        "t_id t = tr_id row" and row': "is_active_turn_status (tr_status row') \<and> tr_active_attempt_id row' = tr_active_attempt_id row"
        "tr_session_id row' = ?sid"
      from current_turns_source [OF t(1)] obtain u where u: "TurnChanged u \<in> set deferred"
        "t = u \<or> t = u\<lparr>t_cancellation_requested := True\<rparr>" using said(4) tid(2) by auto
      from defers_said(3) [OF df u(1)] u(2) row have "t_status t = Running \<and> t_active_attempt_id t = tr_active_attempt_id row" by auto
      with row' show "is_active_turn_status (tr_status (update_turn_row ?sid now t row')) \<and>
          tr_active_attempt_id (update_turn_row ?sid now t row') = tr_active_attempt_id row" by (simp add: update_turn_row_def)
    qed
    then obtain row' where row': "turn_row_of d' ?sid (tr_id row) = Some row'" "is_active_turn_status (tr_status row')"
      "tr_active_attempt_id row' = tr_active_attempt_id row" by blast
    have "asked_of_turn ?d3 (tr_id row) (tr_active_attempt_id row) CSteer [(''itemId'', JStr (pl_item pl))]"
      using True row by (simp add: steers_def)
    with row' st iid True row tid(1) asked_append [OF run] show ?thesis by (simp add: agent_reads_def)
  next
    case False
    then have no: "\<not> pl_reply pl" using plan_replies(1) [of desk now session dl d] pl by auto
    with defers_said(4) [OF df] have df0: "deferred = []" "d1 = d" by auto
    show ?thesis
    proof (cases "pl_waiting pl")
      case (Some t)
      from plan_waits [OF Some [unfolded pl]] pl have w: "pl_mode pl = DQueue" "waiting_notification_turn now d ?sid = Some t" by auto
      from tf False Some have tid: "tid = Some (t_id t)" "turns = []" by (auto simp: turn_for_def)
      from waiting_row [OF w(2) uk] obtain row where row: "turn_row_of d ?sid (t_id t) = Some row" "tr_status row = Queued" by blast
      have "said_of ?d3 ?sid (t_id t) (delivery_batch desk now session dl pl deferred tid turns) = []"
        unfolding said(5) by (simp add: df0(1) tid(2))
      then have "find_row tr_id (t_id t) (db_turns d') = find_row tr_id (t_id t) (db_turns d)"
        using append_turn_row [OF run, of "t_id t"] same by simp
      then have "turn_row_of d' ?sid (t_id t) = Some row"
        using row(1) turn_row_of_find [OF uk] turn_row_of_find [OF turn_constraints_unique [OF append_turn_constraints [OF run]]] tc same by simp
      with row(2) w(1) tid(1) st show ?thesis by (simp add: agent_reads_def)
    next
      case None
      show ?thesis
      proof (cases "pl_mode pl = DQueue \<or> pl_mode pl = DInterrupt")
        case True
        let ?t = "delivered_turn (dk_turn_id desk) ?sid (next_ordinal d1 ?sid) (pl_item pl) (pl_mode pl = DInterrupt) now"
        from tf False None True obtain rest where tid: "tid = Some (dk_turn_id desk)" and ts: "turns = TurnChanged ?t # rest"
          and rest: "rest = [] \<or> (\<exists>row. pl_active pl = Some row \<and> rest = [TurnChanged (stop_requested now (turn_from_row now row))])"
          by (auto simp: turn_for_def Let_def split: option.splits if_splits)
        have "said_of ?d3 ?sid (dk_turn_id desk) rest = []"
        proof (rule said_of_none)
          fix t assume "TurnChanged t \<in> set rest"
          with rest obtain row where "pl_active pl = Some row" "t_id t = tr_id row"
            by (auto simp: stop_requested_def turn_from_row_def)
          then show "t_id t \<noteq> dk_turn_id desk" using active_row(3) [OF _ uk] fresh active by force
        qed
        then have one: "said_of ?d3 ?sid (t_id ?t) (delivery_batch desk now session dl pl deferred tid turns) = [?t]"
          unfolding said(5) using fresh same by (simp add: df0(1) ts current_turn_new turn_row_absent)
        from append_new_turn [OF run _ _ one] tc fresh same
        have "turn_row_of d' ?sid (dk_turn_id desk) = Some (new_turn_row now ?sid now ?t)" by simp
        with tid st False True show ?thesis by (auto simp: agent_reads_def new_turn_row_def)
      next
        case other: False
        with tf False None have no: "tid = None" by (auto simp: turn_for_def)
        from other False have md: "pl_mode pl = DMessageOnly" by (cases "pl_mode pl") simp_all
        from context_reads [of item d' session "dl_for_agent dl"] home st no md show ?thesis by simp
      qed
    qed
  qed
qed

text \<open>Property C5: a delivery lands where its receipt says. The item of a new delivery is in the
  session with its words, its mode and its key, on the turn the receipt names; and the agent gets to read
  it: steered, the turn is working and an open command tells its attempt of the item; queued or
  interrupting, the turn waits to run; with no turn, it is context, unread among what the session's next
  turns read beside their input: the next turn, while at most fifty wait and, where that turn runs on its
  owner's sign-in or files, the owner wrote it. Context that is only for people is in the session as read
  and is not among what a turn takes in.\<close>

theorem delivery_lands:
  assumes run: "deliver_in desk now session dl d = Inr (rc, d')" and new: "dr_created rc"
    and tc: "turn_constraints (db_turns d)" and fresh: "dk_turn_id desk \<notin> tr_id ` set (db_turns d)"
    and item: "dr_message_id rc \<notin> ir_id ` set (db_items d)"
  shows "\<exists>row. item_row_of d' (dr_message_id rc) = Some row \<and> ir_session_id row = sr_id session \<and> ir_turn_id row = dr_turn_id rc \<and>
    ir_dispatch row = Some (dr_mode rc) \<and> ir_idempotency_key row = dl_idempotency_key dl \<and>
    input_from_body (i_body (item_from_row row)) = Some (dl_input dl) \<and>
    agent_reads desk d' session (dl_for_agent dl) row (dr_mode rc) (dr_turn_id rc)"
proof -
  from deliver_creates [OF run new] obtain pl deferred d1 tid turns d2 stored where
    pl: "pl = plan_delivery desk now session dl d" and df: "defers desk now pl d = (deferred, d1)"
    and tf: "turn_for desk now (sr_id session) (pl_item pl) (pl_mode pl) (pl_active pl) (pl_waiting pl) d1 = (tid, turns, d2)"
    and app: "append_events now (sr_id session) (dl_command_id dl) (delivery_batch desk now session dl pl deferred tid turns)
       (steers desk now pl d2) = Inr (stored, d')"
    and rc: "rc = \<lparr>dr_message_id = pl_item pl, dr_turn_id = tid, dr_mode = pl_mode pl, dr_created = True\<rparr>" by metis
  note said = batch_said [OF df tf]
  have items: "db_items (steers desk now pl d2) = db_items d" using defers_said(6) [OF df] turn_for_said(5) [OF tf] by simp
  obtain p where p: "find_row ir_id (pl_item pl) (db_items d') = Some (new_item_row (sr_id session)
      (delivered_item now (sr_id session) (pl_item pl) tid ((pl_mode pl = DMessageOnly \<and> dl_for_agent dl) \<or>
        (pl_mode pl = DSteer \<and> pl_active pl \<noteq> None)) (pl_mode pl) dl\<lparr>i_position := p\<rparr>))" (is "_ = Some ?row")
    using append_item_added [OF app, of "pl_item pl"] said(3) item rc items by (auto simp: said(1))
  have "agent_reads desk d' session (dl_for_agent dl) ?row (pl_mode pl) tid"
    by (rule delivered_turn_reached [OF pl df tf app tc fresh])
      (use find_row_Some [OF p] in \<open>simp_all add: item_row_fields delivered_row delivered_kind\<close>)
  then show ?thesis using p rc by (simp add: item_row_of_def item_row_fields delivered_row)
qed

section \<open>Delivered once\<close>

lemma find_unique:
  "xs = ys @ [x] \<Longrightarrow> (\<forall>y \<in> set ys. \<not> P y) \<Longrightarrow> P x \<Longrightarrow> List.find P xs = Some x"
  by (induction ys arbitrary: xs) auto

lemma delivered_items:
  assumes run: "deliver_in desk now session dl d = Inr (rc, d')" and new: "dr_created rc"
    and item: "dr_message_id rc \<notin> ir_id ` set (db_items d)"
  shows "\<exists>row. db_items d' = db_items d @ [row] \<and> ir_id row = dr_message_id rc \<and> ir_session_id row = sr_id session \<and>
    ir_turn_id row = dr_turn_id rc \<and> ir_dispatch row = Some (dr_mode rc) \<and> ir_idempotency_key row = dl_idempotency_key dl"
proof -
  from deliver_creates [OF run new] obtain pl deferred d1 tid turns d2 stored where
    df: "defers desk now pl d = (deferred, d1)"
    and tf: "turn_for desk now (sr_id session) (pl_item pl) (pl_mode pl) (pl_active pl) (pl_waiting pl) d1 = (tid, turns, d2)"
    and app: "append_events now (sr_id session) (dl_command_id dl) (delivery_batch desk now session dl pl deferred tid turns)
       (steers desk now pl d2) = Inr (stored, d')"
    and rc: "rc = \<lparr>dr_message_id = pl_item pl, dr_turn_id = tid, dr_mode = pl_mode pl, dr_created = True\<rparr>" by metis
  note said = batch_said [OF df tf]
  have items: "db_items (steers desk now pl d2) = db_items d" using defers_said(6) [OF df] turn_for_said(5) [OF tf] by simp
  let ?it = "delivered_item now (sr_id session) (pl_item pl) tid ((pl_mode pl = DMessageOnly \<and> dl_for_agent dl) \<or>
        (pl_mode pl = DSteer \<and> pl_active pl \<noteq> None)) (pl_mode pl) dl"
  obtain its where its0: "map (\<lambda>it. it\<lparr>i_position := 0\<rparr>) its =
      map (\<lambda>it. it\<lparr>i_position := 0\<rparr>) (items_said (delivery_batch desk now session dl pl deferred tid turns))"
    "db_items d' = fold (\<lambda>it. upsert ir_id (update_item_row (sr_id session) it) (new_item_row (sr_id session) it)) its
      (db_items (steers desk now pl d2))"
    by (rule append_items [OF app]) (use said(3) in blast)
  have its: "map (\<lambda>it. it\<lparr>i_position := 0\<rparr>) its = [?it\<lparr>i_position := 0\<rparr>]" using its0(1) unfolding said(1) by simp
  then obtain x where x: "its = [x]" "x\<lparr>i_position := 0\<rparr> = ?it\<lparr>i_position := 0\<rparr>" by (cases its) auto
  have "x = ?it\<lparr>i_position := i_position x\<rparr>" by (rule position_free [OF x(2)])
  then obtain p where p: "x = ?it\<lparr>i_position := p\<rparr>" by blast
  have "db_items d' = db_items d @ [new_item_row (sr_id session) x]"
    using its0(2) items x(1) item rc p by (simp add: upsert_fresh item_row_fields)
  then show ?thesis unfolding p using rc by (simp add: item_row_fields delivered_row)
qed

lemma deliver_known:
  assumes "\<not> says_nothing (dl_input dl)" and "delivered_before d (sr_id session) dl = Some r"
  shows "deliver_in desk now session dl d = Inr (\<lparr>dr_message_id = ir_id r, dr_turn_id = ir_turn_id r,
    dr_mode = parse_dispatch (ir_dispatch r), dr_created = False\<rparr>, d)"
  unfolding deliver_in_def Let_def assms(2) using assms(1) by simp

text \<open>Property C29: a delivery happens once. Sent again under its key, whatever it says then and
  whatever its desk, it answers with the first item, turn and mode and writes nothing.\<close>

theorem delivery_happens_once:
  assumes run: "deliver_in desk now session dl d = Inr (rc, d')" and item: "dr_created rc \<longrightarrow> dr_message_id rc \<notin> ir_id ` set (db_items d)"
    and key: "dl_idempotency_key dl = Some k" "k \<noteq> []"
    and again: "dl_idempotency_key dl2 = Some k" "\<not> says_nothing (dl_input dl2)" "sr_id session2 = sr_id session"
  shows "deliver_in desk2 now2 session2 dl2 d' = Inr (rc\<lparr>dr_created := False\<rparr>, d')"
proof (cases "dr_created rc")
  case True
  from delivered_items [OF run True] item True obtain row where row: "db_items d' = db_items d @ [row]" "ir_id row = dr_message_id rc"
    "ir_session_id row = sr_id session" "ir_turn_id row = dr_turn_id rc" "ir_dispatch row = Some (dr_mode rc)"
    "ir_idempotency_key row = Some k" using key(1) by auto
  have "delivered_before d (sr_id session) dl = None" using deliver_creates [OF run True] by blast
  then have "\<forall>y \<in> set (db_items d). \<not> (ir_session_id y = sr_id session \<and> ir_idempotency_key y = Some k)"
    using key by (simp add: delivered_before_def find_None)
  then have "delivered_before d' (sr_id session) dl2 = Some row"
    using find_unique [OF row(1), where P = "\<lambda>r. ir_session_id r = sr_id session \<and> ir_idempotency_key r = Some k"] row(3,6) again(1) key(2)
    by (simp add: delivered_before_def)
  with deliver_known [OF again(2)] again(3) row(2,4,5) True show ?thesis by (simp add: parse_dispatch_def)
next
  case False
  obtain deferred d1 where df: "defers desk now (plan_delivery desk now session dl d) d = (deferred, d1)" by (metis surj_pair)
  obtain tid turns d2 where tf: "turn_for desk now (sr_id session) (pl_item (plan_delivery desk now session dl d))
      (pl_mode (plan_delivery desk now session dl d)) (pl_active (plan_delivery desk now session dl d))
      (pl_waiting (plan_delivery desk now session dl d)) d1 = (tid, turns, d2)" by (metis surj_pair)
  have speaks: "\<not> says_nothing (dl_input dl)" using run by (auto simp: deliver_in_def Let_def)
  have "delivered_before d (sr_id session) dl \<noteq> None"
  proof
    assume none: "delivered_before d (sr_id session) dl = None"
    from deliver_in_plan [OF speaks none refl df tf] run False show False by (auto split: sum.splits)
  qed
  then obtain row where row: "delivered_before d (sr_id session) dl = Some row" by blast
  have "delivered_before d (sr_id session) dl2 = Some row" using row key again(1) by (simp add: delivered_before_def)
  with deliver_known [OF again(2)] deliver_known [OF speaks row] run again(3) show ?thesis by auto
qed

section \<open>A person's reply lets a waiting turn work on\<close>

lemma keys_upsert_at:
  assumes "\<And>x. key x = key r \<Longrightarrow> key (upd x) = key x"
  shows "map key (upsert key upd r xs) = (if key r \<in> key ` set xs then map key xs else map key xs @ [key r])"
  using assms by (induction xs) auto

lemma unique_requests_fold:
  "unique_keys rr_key rows \<Longrightarrow>
   unique_keys rr_key (fold (\<lambda>r. upsert rr_key (update_request_row sid now r) (new_request_row sid now r)) rs rows)"
proof (induction rs arbitrary: rows)
  case (Cons r rs)
  have "unique_keys rr_key (upsert rr_key (update_request_row sid now r) (new_request_row sid now r) rows)"
    using Cons.prems unfolding unique_keys_def by (subst keys_upsert_at) (auto simp: rev_image_eqI)
  then show ?case using Cons.IH by simp
qed simp

lemma append_unique_requests:
  "append_events now sid cmd events d = Inr (stored, d') \<Longrightarrow> unique_keys rr_key (db_requests d) \<Longrightarrow> unique_keys rr_key (db_requests d')"
  by (simp add: append_request_rows unique_requests_fold)

lemma fold_write_request:
  assumes "rs \<noteq> []"
  shows "\<exists>r x. r \<in> set rs \<and> fold (write_request now sid) rs o' = Some x \<and> rr_status x = r_status r \<and> rr_blocking x = r_blocking r \<and>
    rr_resolved_by x = r_resolved_by r \<and> rr_answerable x = r_answerable r \<and> rr_turn_id x = r_turn_id r"
proof -
  from assms have rs: "rs = butlast rs @ [last rs]" by simp
  have "fold (write_request now sid) rs o' = write_request now sid (last rs) (fold (write_request now sid) (butlast rs) o')"
    by (subst rs) simp
  then show ?thesis using assms
    by (intro exI [of _ "last rs"]) (auto simp: write_request_def update_request_row_def new_request_row_def split: option.splits)
qed

text \<open>A request's row repeats its turn's session.\<close>

definition requests_at_home :: "db \<Rightarrow> ident \<Rightarrow> ident \<Rightarrow> bool" where
  "requests_at_home d sid tid \<longleftrightarrow> (\<forall>r \<in> set (db_requests d). rr_turn_id r = Some tid \<longrightarrow> rr_session_id r = sid)"

definition set_aside :: "instant \<Rightarrow> runtime_request \<Rightarrow> runtime_request" where
  "set_aside now r = (if r_kind r = KQuestion then r\<lparr>r_blocking := False\<rparr>
     else r\<lparr>r_status := RCancelled, r_answerable := False, r_reason := Some withdrawn_reason, r_resolved_at := Some now\<rparr>)"

lemma deferred_requests_said: "requests_said (map (deferred_request now) rs) = map (set_aside now) rs"
  by (induction rs) (simp_all add: deferred_request_def set_aside_def)

lemma deferral_turns: "turns_said (map (deferred_request now) rs) = []" "said_of d sid tid (map (deferred_request now) rs) = []"
proof -
  show "turns_said (map (deferred_request now) rs) = []" by (induction rs) (simp_all add: deferred_request_def)
  show "said_of d sid tid (map (deferred_request now) rs) = []" by (rule said_of_none) (auto simp: deferred_request_def split: if_splits)
qed

definition asks_now :: "request_row \<Rightarrow> bool" where
  "asks_now row \<longleftrightarrow> r_kind (request_from_row row) = KQuestion"

lemma set_aside_fields [simp]:
  "r_id (set_aside now (request_from_row q)) = rr_request_id q"
  "r_status (set_aside now (request_from_row q)) = (if asks_now q then rr_status q else RCancelled)"
  "r_blocking (set_aside now (request_from_row q)) = (if asks_now q then False else rr_blocking q)"
  by (simp_all add: set_aside_def request_from_row_def asks_now_def)

lemma find_request_elsewhere:
  "s \<noteq> sid \<Longrightarrow> find_row rr_key (s, rid) (fold (\<lambda>r. upsert rr_key (update_request_row sid now r) (new_request_row sid now r)) rs rows) =
     find_row rr_key (s, rid) rows"
proof (induction rs arbitrary: rows)
  case (Cons r rs)
  have "find_row rr_key (s, rid) (upsert rr_key (update_request_row sid now r) (new_request_row sid now r) rows) = find_row rr_key (s, rid) rows"
    using Cons.prems by (subst find_row_one_upsert) auto
  with Cons show ?case by simp
qed simp

text \<open>The requests of a waiting turn once they are all set aside.\<close>

lemma set_aside_rows:
  assumes uq: "unique_keys rr_key (db_requests d)" and home: "requests_at_home d sid tid"
    and after: "db_requests d' = fold (\<lambda>r. upsert rr_key (update_request_row sid now r) (new_request_row sid now r))
      (map (set_aside now) (map request_from_row (waiting_requests d tid))) (db_requests d)"
  shows "waiting_requests d' tid = []"
    "r \<in> set (waiting_requests d tid) \<Longrightarrow> \<exists>r'. find_row rr_key (rr_key r) (db_requests d') = Some r' \<and>
       (if asks_now r then rr_status r' = RPending \<and> \<not> rr_blocking r' else rr_status r' = RCancelled)"
proof -
  let ?w = "waiting_requests d tid"
  let ?mine = "\<lambda>rid. filter (\<lambda>x. r_id x = rid) (map (set_aside now) (map request_from_row ?w))"
  have key: "rr_key q = (sid, rr_request_id q)" if "q \<in> set ?w" for q
    using that home by (auto simp: waiting_requests_def requests_at_home_def rr_key_def)
  have find: "find_row rr_key (sid, rid) (db_requests d') = fold (write_request now sid) (?mine rid) (find_row rr_key (sid, rid) (db_requests d))" for rid
    unfolding after by (rule find_request_fold)
  have mine: "\<exists>q \<in> set ?w. x = set_aside now (request_from_row q) \<and> rr_request_id q = rid" if "x \<in> set (?mine rid)" for x rid
    using that by auto
  show "waiting_requests d' tid = []"
  proof (rule ccontr)
    assume "waiting_requests d' tid \<noteq> []"
    then obtain x where x: "x \<in> set (db_requests d')" "rr_turn_id x = Some tid" "rr_status x = RPending" "rr_blocking x"
      by (auto simp: waiting_requests_def filter_empty_conv)
    from uq have "unique_keys rr_key (db_requests d')" unfolding after by (rule unique_requests_fold)
    from find_row_unique [OF this x(1)] have fx: "find_row rr_key (rr_session_id x, rr_request_id x) (db_requests d') = Some x"
      by (simp add: rr_key_def)
    have old: "x \<in> set ?w" if "x \<in> set (db_requests d)" using that x by (simp add: waiting_requests_def)
    have sid: "rr_session_id x = sid"
    proof (rule ccontr)
      assume no: "rr_session_id x \<noteq> sid"
      with fx have "find_row rr_key (rr_session_id x, rr_request_id x) (db_requests d) = Some x"
        unfolding after by (simp only: find_request_elsewhere [OF no])
      then have "x \<in> set (db_requests d)" by (auto dest: find_row_Some)
      with no home x(2) show False by (auto simp: requests_at_home_def)
    qed
    show False
    proof (cases "?mine (rr_request_id x) = []")
      case True
      with fx find [of "rr_request_id x"] sid have "find_row rr_key (sid, rr_request_id x) (db_requests d) = Some x" by (metis fold_simps(1))
      then have "x \<in> set ?w" using old by (auto dest: find_row_Some)
      then have "set_aside now (request_from_row x) \<in> set (?mine (rr_request_id x))" by simp
      with True show False by (metis empty_iff list.set(1))
    next
      case False
      from fold_write_request [OF False, of now sid "find_row rr_key (sid, rr_request_id x) (db_requests d)"] find [of "rr_request_id x"] fx sid
      obtain r where r: "r \<in> set (?mine (rr_request_id x))" "rr_status x = r_status r" "rr_blocking x = r_blocking r"
        by (metis option.inject)
      from mine [OF r(1)] r(2,3) x(3,4) show False by (auto split: if_splits)
    qed
  qed
  assume r: "r \<in> set ?w"
  have one: "q = r" if q: "q \<in> set ?w" and "rr_request_id q = rr_request_id r" for q
  proof -
    from that(2) key [OF q] key [OF r] have "rr_key q = rr_key r" by simp
    moreover from q r have "q \<in> set (db_requests d)" "r \<in> set (db_requests d)" by (simp_all add: waiting_requests_def)
    ultimately show "q = r" using find_row_unique [OF uq] by (metis option.inject)
  qed
  have "set_aside now (request_from_row r) \<in> set (?mine (rr_request_id r))" using r by simp
  then have ne: "?mine (rr_request_id r) \<noteq> []" by (metis empty_iff list.set(1))
  from fold_write_request [OF ne, of now sid "find_row rr_key (sid, rr_request_id r) (db_requests d)"] find [of "rr_request_id r"]
  obtain a x where x: "a \<in> set (?mine (rr_request_id r))" "find_row rr_key (sid, rr_request_id r) (db_requests d') = Some x"
    "rr_status x = r_status a" "rr_blocking x = r_blocking a" by metis
  from mine [OF x(1)] one have "a = set_aside now (request_from_row r)" by blast
  moreover have "rr_status r = RPending" using r by (simp add: waiting_requests_def)
  ultimately show "\<exists>r'. find_row rr_key (rr_key r) (db_requests d') = Some r' \<and>
       (if asks_now r then rr_status r' = RPending \<and> \<not> rr_blocking r' else rr_status r' = RCancelled)"
    using x(2-4) key [OF r] by auto
qed

text \<open>Property C28: a person who writes in the chat instead of answering is heard. Their message joins
  the waiting turn, which works on with nothing keeping it waiting; each question it waited on stays open
  beside the chat, and each permission request is withdrawn.\<close>

theorem reply_unblocks:
  assumes run: "deliver_in desk now session dl d = Inr (rc, d')" and new: "dr_created rc"
    and turn: "active_turn_row d (sr_id session) = Some row" "tr_status row = Waiting"
    and words: "dl_input dl = UserInput user words atts None" and mode: "dl_dispatch dl = DQueue \<or> dl_dispatch dl = DSteer"
    and may: "joinable desk d session dl (Some row)" and blocked: "waiting_requests d (tr_id row) \<noteq> []"
    and tc: "turn_constraints (db_turns d)" and uq: "unique_keys rr_key (db_requests d)"
    and home: "requests_at_home d (sr_id session) (tr_id row)"
  shows "dr_turn_id rc = Some (tr_id row) \<and> dr_mode rc = DSteer \<and> waiting_requests d' (tr_id row) = [] \<and>
    (\<exists>row'. turn_row_of d' (sr_id session) (tr_id row) = Some row' \<and> tr_status row' = Running) \<and>
    (\<forall>r \<in> set (waiting_requests d (tr_id row)). \<exists>r'. find_row rr_key (rr_key r) (db_requests d') = Some r' \<and>
       (if asks_now r then rr_status r' = RPending \<and> \<not> rr_blocking r' else rr_status r' = RCancelled))"
proof -
  let ?sid = "sr_id session"
  from deliver_creates [OF run new] obtain pl deferred d1 tid turns d2 stored where
    pl: "pl = plan_delivery desk now session dl d" and df: "defers desk now pl d = (deferred, d1)"
    and tf: "turn_for desk now ?sid (pl_item pl) (pl_mode pl) (pl_active pl) (pl_waiting pl) d1 = (tid, turns, d2)"
    and app: "append_events now ?sid (dl_command_id dl) (delivery_batch desk now session dl pl deferred tid turns)
       (steers desk now pl d2) = Inr (stored, d')"
    and rc: "rc = \<lparr>dr_message_id = pl_item pl, dr_turn_id = tid, dr_mode = pl_mode pl, dr_created = True\<rparr>" by metis
  note said = batch_said [OF df tf] and uk = turn_constraints_unique [OF tc]
  have plan: "pl_reply pl" "pl_mode pl = DSteer" "pl_active pl = Some row"
    using turn words mode may by (auto simp: pl plan_delivery_def Let_def replies_to_waiting_def chosen_dispatch_def requested_dispatch_def from_child_def)
  with tf have tid: "tid = Some (tr_id row)" "turns = []" by (auto simp: turn_for_def)
  have same: "db_turns (steers desk now pl d2) = db_turns d" "db_requests (steers desk now pl d2) = db_requests d"
    using defers_said(5,7) [OF df] turn_for_said(4,6) [OF tf] by simp_all
  let ?rs = "map request_from_row (waiting_requests d (tr_id row))"
  let ?t = "(turn_from_row now row)\<lparr>t_status := Running, t_activity := Some ''Reading your message'', t_activity_at := Some now, t_updated_at := now\<rparr>"
  have tidrow: "t_id (turn_from_row now row) = tr_id row" by (simp add: turn_from_row_def)
  have deferred: "deferred = map (deferred_request now) ?rs @ [TurnChanged ?t]"
    using df plan blocked by (auto simp: defers_def defer_waiting_requests_def Let_def tidrow)
  have rests: "requests_said (delivery_batch desk now session dl pl deferred tid turns) = map (set_aside now) ?rs"
    unfolding said(2) unfolding deferred by (simp add: deferred_requests_said del: map_map)
  have after: "db_requests d' = fold (\<lambda>r. upsert rr_key (update_request_row ?sid now r) (new_request_row ?sid now r))
      (map (set_aside now) ?rs) (db_requests d)" using append_request_rows [OF app] unfolding rests same .
  have "\<exists>row'. turn_row_of d' ?sid (tr_id row) = Some row' \<and> tr_status row' = Running"
  proof -
    note act = active_row [OF turn(1) uk]
    have "said_of (steers desk now pl d2) ?sid (tr_id row) (delivery_batch desk now session dl pl deferred tid turns) =
        turns_said (current_turn (steers desk now pl d2) ?sid (TurnChanged ?t))"
      unfolding said(5) unfolding deferred tid(2) by (simp add: deferral_turns tidrow del: map_map)
    also have "\<dots> = [?t]"
      using act(1) turn(2) tidrow by (auto simp: current_turn_def turn_row_of_cong [OF same(1)] turn_from_row_def)
    finally have one: "said_of (steers desk now pl d2) ?sid (tr_id row) (delivery_batch desk now session dl pl deferred tid turns) = [?t]" .
    have "find_row tr_id (tr_id row) (db_turns d) = Some row" using find_row_unique [OF uk act(3)] .
    with append_turn_row [OF app, of "tr_id row"] one same
    have "find_row tr_id (tr_id row) (db_turns d') = Some (update_turn_row ?sid now ?t row)" by (simp add: write_turn_def)
    moreover have "unique_keys tr_id (db_turns d')" using append_turn_constraints [OF app] tc same by (simp add: turn_constraints_unique)
    ultimately show ?thesis using act(4) by (simp add: turn_row_of_find) (simp add: update_turn_row_def)
  qed
  with set_aside_rows [OF uq home after] tid(1) plan(2) rc show ?thesis by simp
qed

section \<open>A concrete chat\<close>

definition ex_desk :: desk where
  "ex_desk = \<lparr>dk_host_id = ''h'', dk_owner = (\<lambda>_. ''u''), dk_runs = [], dk_sha = (\<lambda>s. ''00000000000000000000000000000000''),
     dk_signs = \<lparr>ps_marker = CHR ''^'', ps_dash = ''-'', ps_range = ''-''\<rparr>, dk_ellipsis = CHR ''.'', dk_command_id = (\<lambda>n. replicate n CHR ''c''),
     dk_turn_id = ''new'', dk_item_id = ''m''\<rparr>"

definition ex_words :: "dispatch_mode \<Rightarrow> delivery" where
  "ex_words mode = \<lparr>dl_input = UserInput ''u'' ''hi'' [] None, dl_dispatch = mode, dl_attention = False, dl_idempotency_key = Some ''k'',
     dl_delivered_by = Some ''u'', dl_causation = [], dl_command_id = None, dl_item_id = None, dl_for_agent = True\<rparr>"

definition ex_asked :: "ident \<Rightarrow> request_kind \<Rightarrow> request_row" where
  "ex_asked rid kind = new_request_row ''s'' 1 (ex_approval\<lparr>r_id := rid, r_session_id := ''s'', r_turn_id := Some ''t'', r_attempt_id := None,
     r_item_id := None, r_kind := kind, r_status := RPending, r_answerable := True, r_blocking := True, r_approvers := [], r_questions := None, r_runner_key := Some ''key''\<rparr>)"

definition ex_waiting_db :: db where
  "ex_waiting_db = (ex_running_db [ex_turn_row ''t'' 1 Waiting])\<lparr>db_requests := [ex_asked ''q'' KQuestion, ex_asked ''a'' KApproval]\<rparr>"

definition ex_session :: session_row where
  "ex_session = \<lparr>sr_fields = ex_fields ''s'', sr_event_sequence = 3, sr_rewind_until = None, sr_allocation_id = None\<rparr>"

lemmas deliver_eval = deliver_in_def says_nothing_def delivered_before_def active_turn_row_def joinable_def authored_by_owner_def
  requested_dispatch_def from_child_def replies_to_waiting_def chosen_dispatch_def steerable_def is_task_input_def turn_for_def
  defer_waiting_requests_def waiting_requests_def deferred_request_def deferral_command_def defer_one_def queue_command_def
  enqueue_command_def titled_def delivered_item_def body_of_def next_ordinal_def delivered_turn_def queued_turn_def stop_requested_def
  provisional_title_def turn_from_row_def request_from_row_def checkpoint_from_row_def update_request_row_def new_request_row_def

lemmas ex_chat = ex_desk_def ex_words_def ex_asked_def ex_waiting_db_def ex_session_def ex_running_db_def ex_approval_def

lemma ex_reply:
  "\<exists>rc d'. deliver_in ex_desk 5 ex_session (ex_words DQueue) ex_waiting_db = Inr (rc, d') \<and> dr_created rc \<and> dr_message_id rc = ''m'' \<and>
     dr_mode rc = DSteer \<and> map rr_status (db_requests d') = [RPending, RCancelled] \<and> map tc_kind (db_commands d') = [CRelease, CRespond, CSteer]"
  by (simp add: deliver_eval ex_chat log_eval denial_def project_fields_def patch_writes_def empty_patch_def set_col_def js_trim_def js_space_def)

lemma ex_chat_ok: "turn_constraints (db_turns ex_waiting_db)" "unique_keys rr_key (db_requests ex_waiting_db)"
  "requests_at_home ex_waiting_db ''s'' ''t''" "dk_turn_id ex_desk \<notin> tr_id ` set (db_turns ex_waiting_db)"
  "''m'' \<notin> ir_id ` set (db_items ex_waiting_db)" "sr_id ex_session = ''s''"
  "active_turn_row ex_waiting_db ''s'' = Some (ex_turn_row ''t'' 1 Waiting)" "tr_status (ex_turn_row ''t'' 1 Waiting) = Waiting"
  "tr_id (ex_turn_row ''t'' 1 Waiting) = ''t''"
  "joinable ex_desk ex_waiting_db ex_session (ex_words mode) (Some (ex_turn_row ''t'' 1 Waiting))"
  "length (waiting_requests ex_waiting_db ''t'') = 2" "\<not> says_nothing (dl_input (ex_words mode))"
  "dl_input (ex_words mode) = UserInput ''u'' ''hi'' [] None" "dl_dispatch (ex_words mode) = mode"
  "dl_idempotency_key (ex_words mode) = Some ''k''"
  by (simp_all add: deliver_eval ex_chat turn_constraints_def unique_keys_def requests_at_home_def rr_key_def sr_id_def fixtures
    js_trim_def js_space_def)

lemma ex_context:
  "\<exists>rc d'. deliver_in ex_desk 5 ex_session (ex_words DMessageOnly) ex_waiting_db = Inr (rc, d') \<and> dr_created rc \<and> dr_message_id rc = ''m'' \<and>
     dr_mode rc = DMessageOnly \<and> dr_turn_id rc = None \<and> length (db_items d') = 1"
  by (simp add: deliver_eval ex_chat log_eval denial_def project_fields_def patch_writes_def empty_patch_def set_col_def js_trim_def js_space_def)

theorem delivery_lands_witness:
  "(\<exists>rc d' row. deliver_in ex_desk 5 ex_session (ex_words DQueue) ex_waiting_db = Inr (rc, d') \<and>
     item_row_of d' ''m'' = Some row \<and> agent_reads ex_desk d' ex_session True row DSteer (dr_turn_id rc)) \<and>
   (\<exists>rc d' row. deliver_in ex_desk 5 ex_session (ex_words DMessageOnly) ex_waiting_db = Inr (rc, d') \<and>
     item_row_of d' ''m'' = Some row \<and> item_from_row row \<in> set (riders ex_desk d' ex_session False))"
proof (rule conjI)
  obtain rc d' where run: "deliver_in ex_desk 5 ex_session (ex_words DQueue) ex_waiting_db = Inr (rc, d')" "dr_created rc"
    "dr_message_id rc = ''m''" "dr_mode rc = DSteer" using ex_reply by blast
  from delivery_lands [OF run(1,2) ex_chat_ok(1,4)] ex_chat_ok(5) run(3,4)
  show "\<exists>rc d' row. deliver_in ex_desk 5 ex_session (ex_words DQueue) ex_waiting_db = Inr (rc, d') \<and>
     item_row_of d' ''m'' = Some row \<and> agent_reads ex_desk d' ex_session True row DSteer (dr_turn_id rc)"
    using run(1) by (auto simp: ex_words_def)
next
  obtain rc d' where run: "deliver_in ex_desk 5 ex_session (ex_words DMessageOnly) ex_waiting_db = Inr (rc, d')" "dr_created rc"
    "dr_message_id rc = ''m''" "dr_mode rc = DMessageOnly" "dr_turn_id rc = None" "length (db_items d') = 1" using ex_context by blast
  from delivery_lands [OF run(1,2) ex_chat_ok(1,4)] ex_chat_ok(5) run(3-5)
  obtain row where row: "item_row_of d' ''m'' = Some row" "agent_reads ex_desk d' ex_session True row DMessageOnly None"
    by (auto simp: ex_words_def)
  have "length (unread_context d' (sr_id ex_session)) \<le> length (db_items d')" by (simp add: unread_context_def)
  with row(2) run(6) have "item_from_row row \<in> set (riders ex_desk d' ex_session False)" by (simp add: agent_reads_def)
  with row(1) run(1) show "\<exists>rc d' row. deliver_in ex_desk 5 ex_session (ex_words DMessageOnly) ex_waiting_db = Inr (rc, d') \<and>
     item_row_of d' ''m'' = Some row \<and> item_from_row row \<in> set (riders ex_desk d' ex_session False)" by blast
qed

theorem delivery_happens_once_witness:
  "\<exists>rc d'. deliver_in ex_desk 5 ex_session (ex_words DQueue) ex_waiting_db = Inr (rc, d') \<and>
     deliver_in ex_desk 9 ex_session (ex_words DInterrupt) d' = Inr (rc\<lparr>dr_created := False\<rparr>, d')"
proof -
  obtain rc d' where run: "deliver_in ex_desk 5 ex_session (ex_words DQueue) ex_waiting_db = Inr (rc, d')"
    "dr_message_id rc = ''m''" using ex_reply by blast
  have "deliver_in ex_desk 9 ex_session (ex_words DInterrupt) d' = Inr (rc\<lparr>dr_created := False\<rparr>, d')"
    by (rule delivery_happens_once [OF run(1) _ ex_chat_ok(15) _ ex_chat_ok(15) ex_chat_ok(12) refl]) (use ex_chat_ok(5) run(2) in simp_all)
  with run(1) show ?thesis by blast
qed

theorem reply_unblocks_witness:
  "\<exists>rc d'. deliver_in ex_desk 5 ex_session (ex_words DQueue) ex_waiting_db = Inr (rc, d') \<and> waiting_requests d' ''t'' = [] \<and>
     waiting_requests ex_waiting_db ''t'' \<noteq> []"
proof -
  obtain rc d' where run: "deliver_in ex_desk 5 ex_session (ex_words DQueue) ex_waiting_db = Inr (rc, d')" "dr_created rc"
    using ex_reply by blast
  have some: "waiting_requests ex_waiting_db ''t'' \<noteq> []" using ex_chat_ok(11) by auto
  have "waiting_requests d' ''t'' = []"
    using reply_unblocks [OF run, of "ex_turn_row ''t'' 1 Waiting" "''u''" "''hi''" "[]"] ex_chat_ok some by auto
  with run(1) some show ?thesis by blast
qed

end
