(* ===== verification/Session_Commands.thy ===== *)
theory Session_Commands
  imports Session_Delivery Commands
begin

text \<open>
  A person's commands on a session (\<open>command\<close> and the handlers it runs in \<open>agent-sessions-service.ts\<close>): each
  handler is the transaction the session log runs at most once under the command's id.
\<close>

definition rejected :: "string \<Rightarrow> string \<Rightarrow> nat \<Rightarrow> log_error + 'a" where
  "rejected code message status = Inl (CommandRejected code message status)"

definition settling_env :: "desk \<Rightarrow> db \<Rightarrow> settle_env" where
  "settling_env desk d = \<lparr>se_sha = dk_sha desk, se_owned = item_by_owner desk d\<rparr>"

section \<open>Stopping and trying again\<close>

text \<open>
  \<open>interruptIn\<close>: an active turn is asked to stop; one that waits to try again is stopped there, and what
  was steered into it runs on its own; a queued one is canceled only when it is named.
\<close>

fun interrupt_each ::
  "desk \<Rightarrow> instant \<Rightarrow> bool \<Rightarrow> turn_row list \<Rightarrow> db \<Rightarrow> log_error + session_event list \<times> db" where
  "interrupt_each desk now named [] d = Inr ([], d)"
| "interrupt_each desk now named (row # rows) d =
     (let t = turn_from_row now row in
      if is_active_turn_status (t_status t)
      then (case interrupt_each desk now named rows (queue_command desk now (t_id t) (t_active_attempt_id t) CInterrupt None d) of
              Inl err \<Rightarrow> Inl err
            | Inr (es, d') \<Rightarrow> Inr (TurnChanged (stop_requested now t) # es, d'))
      else if 0 < t_attempt_count t
      then (case requeue_steers (settling_env desk d) now d t of
              Inl err \<Rightarrow> Inl err
            | Inr requeued \<Rightarrow>
                (case interrupt_each desk now named rows d of
                   Inl err \<Rightarrow> Inl err
                 | Inr (es, d') \<Rightarrow>
                     Inr (TurnChanged (t\<lparr>t_status := Interrupted, t_error := None, t_retry_at := None, t_completed_at := Some now,
                            t_updated_at := now\<rparr>) # requeued @ es, d')))
      else (case interrupt_each desk now named rows d of
              Inl err \<Rightarrow> Inl err
            | Inr (es, d') \<Rightarrow>
                Inr ((if named then [TurnChanged (t\<lparr>t_status := Cancelled, t_completed_at := Some now, t_updated_at := now\<rparr>)] else []) @ es, d')))"

definition interruptible :: "ident \<Rightarrow> ident option \<Rightarrow> turn_row \<Rightarrow> bool" where
  "interruptible sid tid r \<longleftrightarrow>
     tr_session_id r = sid \<and> (case tid of None \<Rightarrow> True | Some i \<Rightarrow> tr_id r = i) \<and>
     (tr_status r = Queued \<or> tr_status r = Held \<or> is_active_turn_status (tr_status r))"

definition interrupt_in :: "desk \<Rightarrow> instant \<Rightarrow> ident \<Rightarrow> ident option \<Rightarrow> string \<Rightarrow> db \<Rightarrow> (json_object option) tx" where
  "interrupt_in desk now sid tid cmd d =
     (let rows = filter (interruptible sid tid) (db_turns d) in
      case interrupt_each desk now (tid \<noteq> None) rows d of
        Inl err \<Rightarrow> Inl err
      | Inr (events, d1) \<Rightarrow>
          (case append_events now sid (Some cmd) events d1 of
             Inl err \<Rightarrow> Inl err
           | Inr (_, d2) \<Rightarrow> Inr (Some [(''interrupted'', JArr (map (JStr \<circ> tr_id) rows))], d2)))"

definition no_such_turn :: "log_error + 'a" where
  "no_such_turn = rejected ''not_found'' ''That turn does not exist.'' 404"

text \<open>\<open>retryIn\<close>: a failed or interrupted turn waits again, ahead of the others, unless the session works.\<close>

definition retried_turn :: "instant \<Rightarrow> turn \<Rightarrow> turn" where
  "retried_turn now t =
     t\<lparr>t_status := Queued, t_error := None, t_cancellation_requested := False, t_completed_at := None, t_retry_at := None,
       t_priority := 100, t_updated_at := now\<rparr>"

definition retry_in :: "instant \<Rightarrow> ident \<Rightarrow> ident \<Rightarrow> string \<Rightarrow> db \<Rightarrow> (json_object option) tx" where
  "retry_in now sid tid cmd d =
     (case turn_row_of d sid tid of
        None \<Rightarrow> no_such_turn
      | Some row \<Rightarrow>
          (let t = turn_from_row now row in
           if t_status t \<noteq> Failed \<and> t_status t \<noteq> Interrupted
           then rejected ''not_retryable'' ''Only a failed or interrupted turn can be retried.'' 409
           else if active_turn_row d sid \<noteq> None
           then rejected ''turn_in_progress'' ''Wait for the running turn to finish, or interrupt it.'' 409
           else (case append_events now sid (Some cmd) [TurnChanged (retried_turn now t)] (schedule_retry tid now d) of
                   Inl err \<Rightarrow> Inl err
                 | Inr (_, d') \<Rightarrow> Inr (Some [(''turnId'', JStr tid)], d'))))"

section \<open>Messages not read yet\<close>

text \<open>\<open>steerNowIn\<close>: the attempt is interrupted to read a message steered into its turn, if it still has to.\<close>

definition works_unstopped :: "turn \<Rightarrow> bool" where
  "works_unstopped t \<longleftrightarrow> (t_status t = Running \<or> t_status t = Waiting) \<and> \<not> t_cancellation_requested t"

definition steer_now_in :: "desk \<Rightarrow> instant \<Rightarrow> ident \<Rightarrow> ident \<Rightarrow> string \<Rightarrow> db \<Rightarrow> (json_object option) tx" where
  "steer_now_in desk now sid iid cmd d =
     (case List.find (\<lambda>r. ir_id r = iid \<and> ir_session_id r = sid) (db_items d) of
        None \<Rightarrow> rejected ''not_found'' ''That message does not exist.'' 404
      | Some irow \<Rightarrow>
          (let it = item_from_row irow;
               found = (if is_unread_steer it
                 then (case i_turn_id it of None \<Rightarrow> None | Some tid \<Rightarrow> map_option (turn_from_row now) (find_row tr_id tid (db_turns d)))
                 else None)
           in if kind_of (i_body it) \<noteq> KUserMessage then rejected ''not_found'' ''That message does not exist.'' 404
              else case found of
                None \<Rightarrow> Inr (Some [(''itemId'', JStr (i_id it)), (''interrupted'', JBool False)], d)
              | Some t \<Rightarrow>
                  if \<not> works_unstopped t then Inr (Some [(''itemId'', JStr (i_id it)), (''interrupted'', JBool False)], d)
                  else (case append_events now sid (Some cmd)
                          [TurnChanged (t\<lparr>t_activity := Some ''Stopping to read your message'', t_activity_at := Some now, t_updated_at := now\<rparr>)]
                          (queue_command desk now (t_id t) (t_active_attempt_id t) CInterrupt
                             (Some [(''restart'', JBool True), (''itemId'', JStr (i_id it))]) d) of
                     Inl err \<Rightarrow> Inl err
                   | Inr (_, d') \<Rightarrow>
                       Inr (Some [(''turnId'', JStr (t_id t)), (''itemId'', JStr (i_id it)), (''interrupted'', JBool True)], d'))))"

section \<open>Queued turns\<close>

datatype queued_change = EditQueued "string option" "bool option" | CancelQueued | SendNow

text \<open>Words stay their author's: nobody else rewrites them.\<close>

definition edited_input :: "instant \<Rightarrow> ident \<Rightarrow> turn \<Rightarrow> string option \<Rightarrow> db \<Rightarrow> log_error + session_event list" where
  "edited_input now user t words d =
     (case (words, t_input_item_id t) of
        (Some w, Some iid) \<Rightarrow>
          (case map_option item_from_row (item_row_of d iid) of
             None \<Rightarrow> Inr []
           | Some it \<Rightarrow>
               (case i_body it of
                  UserMessage f author _ atts answer \<Rightarrow>
                    if author \<noteq> user then rejected ''not_author'' ''Only the person who wrote a queued message can edit it.'' 403
                    else Inr [ItemChanged (it\<lparr>i_body := UserMessage f author w atts answer, i_updated_at := now\<rparr>)]
                | _ \<Rightarrow> rejected ''not_author'' ''Only the person who wrote a queued message can edit it.'' 403))
      | _ \<Rightarrow> Inr [])"

definition queued_changes ::
  "desk \<Rightarrow> instant \<Rightarrow> ident \<Rightarrow> ident \<Rightarrow> queued_change \<Rightarrow> turn \<Rightarrow> db \<Rightarrow> log_error + session_event list \<times> db"
where
  "queued_changes desk now user sid change t d =
     (case change of
        CancelQueued \<Rightarrow> Inr ([TurnChanged (t\<lparr>t_status := Cancelled, t_completed_at := Some now, t_updated_at := now\<rparr>)], d)
      | EditQueued words held \<Rightarrow>
          (case edited_input now user t words d of
             Inl err \<Rightarrow> Inl err
           | Inr es \<Rightarrow> Inr (es @ (case held of None \<Rightarrow> []
               | Some h \<Rightarrow> [TurnChanged (t\<lparr>t_status := (if h then Held else Queued), t_updated_at := now\<rparr>)]), d))
      | SendNow \<Rightarrow>
          (let first = TurnChanged (t\<lparr>t_status := Queued, t_priority := 100, t_dispatch := TInterrupt, t_updated_at := now\<rparr>) in
           case active_turn_row d sid of
             None \<Rightarrow> Inr ([first], d)
           | Some row \<Rightarrow> Inr ([first, TurnChanged (stop_requested now (turn_from_row now row))],
               queue_command desk now (tr_id row) (tr_active_attempt_id row) CInterrupt None d)))"

definition change_queued_in ::
  "desk \<Rightarrow> instant \<Rightarrow> ident \<Rightarrow> ident \<Rightarrow> ident \<Rightarrow> queued_change \<Rightarrow> string \<Rightarrow> db \<Rightarrow> (json_object option) tx"
where
  "change_queued_in desk now user sid tid change cmd d =
     (case turn_row_of d sid tid of
        None \<Rightarrow> no_such_turn
      | Some row \<Rightarrow>
          (let t = turn_from_row now row in
           if t_status t \<noteq> Queued \<and> t_status t \<noteq> Held then rejected ''not_queued'' ''That message already ran.'' 409
           else case queued_changes desk now user sid change t d of
             Inl err \<Rightarrow> Inl err
           | Inr (events, d1) \<Rightarrow>
               (case append_events now sid (Some cmd) events d1 of
                  Inl err \<Rightarrow> Inl err
                | Inr (_, d2) \<Rightarrow> Inr (Some [(''turnId'', JStr tid)], d2))))"

section \<open>Answering\<close>

definition response_kind :: "request_response \<Rightarrow> request_kind" where
  "response_kind response =
     (case response of ApprovalResponse _ _ _ \<Rightarrow> KApproval | QuestionResponse _ _ \<Rightarrow> KQuestion | ElicitationResponse _ _ \<Rightarrow> KElicitation)"

definition kind_name :: "request_kind \<Rightarrow> string" where
  "kind_name k = (case k of KQuestion \<Rightarrow> ''question'' | KApproval \<Rightarrow> ''approval'' | KElicitation \<Rightarrow> ''elicitation'')"

text \<open>
  An approver answers an approval; otherwise whoever may change the chat, which the caller decides.
\<close>

definition may_answer :: "ident \<Rightarrow> bool \<Rightarrow> runtime_request \<Rightarrow> log_error option" where
  "may_answer user may_change r =
     (if r_approvers r \<noteq> []
      then (if user \<in> set (r_approvers r) then None
            else Some (CommandRejected ''not_an_approver'' ''Only this chat's approvers can answer this request.'' 403))
      else if may_change then None else Some AccessDenied)"

definition not_answerable :: string where
  "not_answerable = ''The agent that asked stopped, so this can no longer be answered. Send a message to continue.''"

text \<open>An attempt on its owner's sign-in or files takes only the owner's words; an approval loses its reason.\<close>

definition owner_only_runner :: "desk \<Rightarrow> ident \<Rightarrow> ident \<Rightarrow> runtime_request \<Rightarrow> db \<Rightarrow> runner_state option" where
  "owner_only_runner desk user sid r d =
     (case r_attempt_id r of
        None \<Rightarrow> None
      | Some aid \<Rightarrow>
          if user = dk_owner desk sid then None
          else (case find_row ar_id aid (db_attempts d) of
             None \<Rightarrow> None
           | Some a \<Rightarrow> (case ar_runner a of None \<Rightarrow> None | Some s \<Rightarrow> if rs_owner_only s then Some s else None)))"

definition owners_words :: "runner_state option \<Rightarrow> request_response \<Rightarrow> log_error + request_response" where
  "owners_words runner response =
     (case runner of
        None \<Rightarrow> Inr response
      | Some s \<Rightarrow>
          (case response of
             ApprovalResponse approved remember _ \<Rightarrow> Inr (ApprovalResponse approved remember None)
           | _ \<Rightarrow> rejected ''owner_only''
               (if rs_owner_only_because s = Some Credentials
                then ''This turn has its owner's own secrets or files, so only they can answer it.''
                else ''This chat runs on its owner's own sign-in, so only they can answer it.'') 403))"

definition response_json :: "request_response \<Rightarrow> json_object" where
  "response_json response =
     (case response of
        ApprovalResponse approved remember reason \<Rightarrow>
          [(''kind'', JStr ''approval''), (''decision'', JStr (if approved then ''approved'' else ''denied''))] @
          (if remember then [(''remember'', JStr ''always'')] else []) @
          (case reason of None \<Rightarrow> [] | Some s \<Rightarrow> [(''reason'', JStr s)])
      | QuestionResponse answers _ \<Rightarrow> [(''kind'', JStr ''question''), (''answers'', JArr (map JStr answers))]
      | ElicitationResponse action content \<Rightarrow>
          [(''kind'', JStr ''elicitation''),
           (''action'', JStr (case action of EAccept \<Rightarrow> ''accept'' | EDecline \<Rightarrow> ''decline'' | ECancel \<Rightarrow> ''cancel''))] @
          (case content of None \<Rightarrow> [] | Some c \<Rightarrow> [(''content'', c)]))"

text \<open>\<open>unblockedTurn\<close>: the turn of the request works on, unless another request keeps it waiting.\<close>

definition unblocked_turn :: "instant \<Rightarrow> runtime_request \<Rightarrow> db \<Rightarrow> session_event list" where
  "unblocked_turn now r d =
     (case r_turn_id r of
        None \<Rightarrow> []
      | Some tid \<Rightarrow>
          (case find_row tr_id tid (db_turns d) of
             None \<Rightarrow> []
           | Some row \<Rightarrow>
               if tr_status row \<noteq> Waiting then []
               else if \<exists>x \<in> set (waiting_requests d tid). rr_request_id x \<noteq> r_id r then []
               else [TurnChanged ((turn_from_row now row)\<lparr>t_status := Running, t_activity := Some ''Continuing'', t_activity_at := Some now,
                       t_updated_at := now\<rparr>)]))"

definition answers_live :: "runtime_request \<Rightarrow> turn option \<Rightarrow> bool" where
  "answers_live r turn \<longleftrightarrow>
     r_blocking r \<and> (case turn of None \<Rightarrow> False | Some t \<Rightarrow> is_active_turn_status (t_status t) \<and> t_active_attempt_id t = r_attempt_id r)"

definition resolved_request :: "instant \<Rightarrow> ident \<Rightarrow> request_response \<Rightarrow> runtime_request \<Rightarrow> runtime_request" where
  "resolved_request now user response r =
     r\<lparr>r_status := RResolved, r_answerable := False, r_response := Some response, r_resolved_by := Some user, r_resolved_at := Some now\<rparr>"

definition answered_item :: "instant \<Rightarrow> ident \<Rightarrow> runtime_request \<Rightarrow> db \<Rightarrow> session_event list" where
  "answered_item now sid r d =
     (case r_item_id r of
        None \<Rightarrow> []
      | Some iid \<Rightarrow>
          (case List.find (\<lambda>x. ir_session_id x = sid \<and> ir_id x = iid) (db_items d) of
             None \<Rightarrow> []
           | Some x \<Rightarrow> [ItemChanged ((item_from_row x)\<lparr>i_status := ItemCompleted, i_ended_at := Some now, i_updated_at := now\<rparr>)]))"

definition person_delivery :: "ident \<Rightarrow> string \<Rightarrow> agent_attachment list \<Rightarrow> question_answer option \<Rightarrow> dispatch_mode \<Rightarrow> string \<Rightarrow> string option \<Rightarrow> delivery" where
  "person_delivery user words atts answer mode key cmd =
     \<lparr>dl_input = UserInput user words atts answer, dl_dispatch = mode, dl_attention = False, dl_idempotency_key = Some key,
      dl_delivered_by = Some user, dl_causation = [], dl_command_id = cmd, dl_item_id = None, dl_for_agent = True\<rparr>"

text \<open>
  What the answer to a question becomes beside its resolution: the answer of an agent that moved on is
  a message, within the turn that works or as one of its own; the media of an answer the agent waited
  for follow it.
\<close>

definition answer_delivery :: "desk \<Rightarrow> ident \<Rightarrow> runtime_request \<Rightarrow> bool \<Rightarrow> turn option \<Rightarrow> request_response \<Rightarrow> delivery option" where
  "answer_delivery desk user r live turn response =
     (case response of
        QuestionResponse answers pills \<Rightarrow>
          (let questions = (case r_questions r of None \<Rightarrow> [] | Some qs \<Rightarrow> qs);
               m = ps_marker (dk_signs desk);
               answer = \<lparr>qa_request_id = r_id r, qa_questions = questions, qa_answers = answers\<rparr>
           in if \<not> live
              then Some (person_delivery user
                (join_with [NL] (map (\<lambda>q. filter (\<lambda>c. c \<noteq> m) (q_question q)) questions) @ [NL, NL] @ ''User answer:'' @ [NL] @ join_with [NL] answers)
                (concat (case pills of None \<Rightarrow> [] | Some ls \<Rightarrow> ls)) (Some answer)
                (if (case turn of None \<Rightarrow> False | Some t \<Rightarrow> is_active_turn_status (t_status t)) then DSteer else DQueue)
                (''question-answer:'' @ r_id r) None)
              else map_option (\<lambda>(words, atts). person_delivery user words atts (Some answer) DSteer (''question-media:'' @ r_id r) None)
                     (answer_media m questions pills))
      | _ \<Rightarrow> None)"

definition with_pills :: "desk \<Rightarrow> request_response \<Rightarrow> request_response" where
  "with_pills desk response =
     (case response of QuestionResponse answers pills \<Rightarrow> with_answer_pills (ps_marker (dk_signs desk)) answers pills | _ \<Rightarrow> response)"

definition refuses_answer :: "ident \<Rightarrow> bool \<Rightarrow> runtime_request \<Rightarrow> request_response \<Rightarrow> log_error option" where
  "refuses_answer user may_change r response =
     (case may_answer user may_change r of
        Some err \<Rightarrow> Some err
      | None \<Rightarrow>
          if r_status r \<noteq> RPending then Some (CommandRejected ''already_answered'' ''That request was already answered or withdrawn.'' 409)
          else if \<not> r_answerable r \<and> r_blocking r
          then Some (CommandRejected ''not_answerable'' (case r_reason r of None \<Rightarrow> not_answerable | Some s \<Rightarrow> s) 409)
          else if response_kind response \<noteq> r_kind r
          then Some (CommandRejected ''wrong_kind'' (''This request needs a '' @ kind_name (r_kind r) @ '' answer.'') 409)
          else None)"

definition answer_commands :: "desk \<Rightarrow> instant \<Rightarrow> runtime_request \<Rightarrow> turn option \<Rightarrow> bool \<Rightarrow> request_response \<Rightarrow> db \<Rightarrow> db" where
  "answer_commands desk now r turn live response d =
     (case (turn, r_runner_key r) of
        (Some t, Some key) \<Rightarrow>
          if live \<and> key \<noteq> []
          then queue_command desk now (t_id t) (r_attempt_id r) CRespond
                 (Some [(''requestKey'', JStr key), (''response'', JObj (response_json (agent_response (dk_signs desk) response)))]) d
          else d
      | _ \<Rightarrow> d)"

definition respond_in ::
  "desk \<Rightarrow> instant \<Rightarrow> ident \<Rightarrow> bool \<Rightarrow> session_row \<Rightarrow> ident \<Rightarrow> request_response \<Rightarrow> string \<Rightarrow> db \<Rightarrow> (json_object option) tx"
where
  "respond_in desk now user may_change session rid response cmd d =
     (let sid = sr_id session in
      case find_row rr_key (sid, rid) (db_requests d) of
        None \<Rightarrow> rejected ''not_found'' ''That request does not exist.'' 404
      | Some row \<Rightarrow>
          (let r = request_from_row row in
           case refuses_answer user may_change r response of
             Some err \<Rightarrow> Inl err
           | None \<Rightarrow>
               (case owners_words (owner_only_runner desk user sid r d) response of
                  Inl err \<Rightarrow> Inl err
                | Inr said \<Rightarrow>
                    (let answer = with_pills desk said;
                         turn = (case r_turn_id r of None \<Rightarrow> None | Some tid \<Rightarrow> map_option (turn_from_row now) (find_row tr_id tid (db_turns d)));
                         live = answers_live r turn;
                         events = [RequestChanged (resolved_request now user answer r)] @ (if live then unblocked_turn now r d else []) @
                           answered_item now sid r d
                     in case append_events now sid (Some cmd) events (answer_commands desk now r turn live answer d) of
                          Inl err \<Rightarrow> Inl err
                        | Inr (_, d1) \<Rightarrow>
                            (case answer_delivery desk user r live turn answer of
                               None \<Rightarrow> Inr (Some [(''requestId'', JStr (r_id r))], d1)
                             | Some dl \<Rightarrow>
                                 (case deliver_in desk now session dl d1 of
                                    Inl err \<Rightarrow> Inl err
                                  | Inr (_, d2) \<Rightarrow> Inr (Some [(''requestId'', JStr (r_id r))], d2)))))))"

section \<open>Rolling back\<close>

text \<open>
  \<open>rollbackPlan\<close>: the turn and every later one that still stands. \<open>beginRewind\<close> keeps turns from being
  claimed while the files are restored; \<open>rollbackIn\<close> rolls back exactly the turns whose files went back.
\<close>

definition rollback_plan :: "instant \<Rightarrow> ident \<Rightarrow> ident \<Rightarrow> db \<Rightarrow> log_error + turn \<times> turn_row list" where
  "rollback_plan now sid tid d =
     (if active_turn_row d sid \<noteq> None then rejected ''turn_in_progress'' ''Stop the running turn before rolling back.'' 409
      else case turn_row_of d sid tid of
        None \<Rightarrow> no_such_turn
      | Some row \<Rightarrow>
          (let target = turn_from_row now row in
           if t_status target = RolledBack then rejected ''already_rolled_back'' ''That turn was already rolled back.'' 409
           else Inr (target, sort_key tr_ordinal
             (filter (\<lambda>r. tr_session_id r = sid \<and> t_ordinal target \<le> tr_ordinal r \<and> tr_status r \<noteq> RolledBack) (db_turns d)))))"

definition REWIND_MS :: int where "REWIND_MS = 2 * 60 * 1000"

definition begin_rewind :: "instant \<Rightarrow> ident \<Rightarrow> db \<Rightarrow> log_error + db" where
  "begin_rewind now sid d =
     (let p = (\<lambda>r. sr_id r = sid \<and> (case sr_rewind_until r of None \<Rightarrow> True | Some til \<Rightarrow> til \<le> now)) in
      if \<exists>r \<in> set (db_sessions d). p r
      then Inr (d\<lparr>db_sessions := update_where p (\<lambda>r. r\<lparr>sr_rewind_until := Some (now + REWIND_MS)\<rparr>) (db_sessions d)\<rparr>)
      else Inl (ChatRewinding sid))"

definition end_rewind :: "ident \<Rightarrow> db \<Rightarrow> db" where
  "end_rewind sid d = d\<lparr>db_sessions := update_where (\<lambda>r. sr_id r = sid) (\<lambda>r. r\<lparr>sr_rewind_until := None\<rparr>) (db_sessions d)\<rparr>"

text \<open>The commit to restore, the head the workspace is expected at, and the turns to undo (\<open>rewindFiles\<close>).\<close>

definition non_blank :: "string option \<Rightarrow> string option" where
  "non_blank s = (case map_option js_trim s of None \<Rightarrow> None | Some t \<Rightarrow> if t = [] then None else Some t)"

definition expected_head :: "turn_row list \<Rightarrow> string option" where
  "expected_head later =
     (case later of [] \<Rightarrow> None
      | _ \<Rightarrow> (case non_blank (tr_checkpoint_after (last later)) of
           Some c \<Rightarrow> Some c | None \<Rightarrow> non_blank (tr_checkpoint_before (last later))))"

definition rewind_files ::
  "(string \<Rightarrow> string option \<Rightarrow> string option) \<Rightarrow> instant \<Rightarrow> ident \<Rightarrow> ident \<Rightarrow> db \<Rightarrow> log_error + ident list" where
  "rewind_files restore now sid tid d =
     (case rollback_plan now sid tid d of
        Inl err \<Rightarrow> Inl err
      | Inr (target, later) \<Rightarrow>
          (case (case ck_before (t_checkpoint target) of None \<Rightarrow> None
                 | Some c \<Rightarrow> if c = [] then None else restore c (expected_head later)) of
             Some refusal \<Rightarrow> rejected ''workspace_not_restored'' refusal 409
           | None \<Rightarrow> Inr (map tr_id later)))"

definition settled_before :: "ident \<Rightarrow> turn \<Rightarrow> db \<Rightarrow> turn_row option" where
  "settled_before sid target d =
     (case rev (sort_key tr_ordinal (filter (\<lambda>r. tr_session_id r = sid \<and> tr_ordinal r < t_ordinal target \<and>
        (tr_status r = Completed \<or> tr_status r = Failed \<or> tr_status r = Interrupted)) (db_turns d))) of
        [] \<Rightarrow> None | r # _ \<Rightarrow> Some r)"

text \<open>The thread to fork and the turn of it to fork through: what the new thread's row keeps as its source.\<close>

record fork_source =
  fs_source :: native_ref
  fs_through :: native_ref
  fs_thread_id :: ident
  fs_born_at :: nat

definition fork_point :: "turn_row option \<Rightarrow> db \<Rightarrow> (provider_thread \<times> fork_source) option" where
  "fork_point previous d =
     (case previous of
        None \<Rightarrow> None
      | Some row \<Rightarrow>
          (case (case tr_provider_thread_id row of None \<Rightarrow> None | Some pid \<Rightarrow> find_row p_id pid (db_threads d)) of
             None \<Rightarrow> None
           | Some thread \<Rightarrow>
               (case (p_native_ref thread,
                      case tr_active_attempt_id row of None \<Rightarrow> None
                      | Some aid \<Rightarrow> (case find_row ar_id aid (db_attempts d) of None \<Rightarrow> None | Some a \<Rightarrow> a_native_turn_ref (ar_attempt a))) of
                  (Some source, Some through) \<Rightarrow>
                    Some (thread, \<lparr>fs_source = source, fs_through = through, fs_thread_id = p_id thread, fs_born_at = tr_ordinal row\<rparr>)
                | _ \<Rightarrow> None)))"

definition forked_thread :: "instant \<Rightarrow> ident \<Rightarrow> ident \<Rightarrow> provider_thread \<Rightarrow> fork_source \<Rightarrow> provider_thread" where
  "forked_thread now sid fork thread source =
     \<lparr>p_id = fork, p_session_id = sid, p_harness = p_harness thread, p_native_ref = None, p_status = ThreadActive,
      p_last_turn_ordinal = Some (fs_born_at source), p_portable = False, p_created_at = now, p_updated_at = now\<rparr>"

definition rollback_in ::
  "desk \<Rightarrow> instant \<Rightarrow> ident \<Rightarrow> ident \<Rightarrow> ident list \<Rightarrow> string \<Rightarrow> db \<Rightarrow> (ident list \<times> fork_source option) tx"
where
  "rollback_in desk now sid tid undo cmd d =
     (case rollback_plan now sid tid d of
        Inl err \<Rightarrow> Inl err
      | Inr (target, planned) \<Rightarrow>
          (let later = filter (\<lambda>r. tr_id r \<in> set undo) planned;
               rolled = map (\<lambda>r. TurnChanged ((turn_from_row now r)\<lparr>t_status := RolledBack, t_updated_at := now\<rparr>)) later;
               closed = map (\<lambda>p. ProviderThreadChanged ((provider_thread_from_row p)\<lparr>p_status := ThreadClosed, p_updated_at := now\<rparr>))
                 (filter (\<lambda>p. p_session_id p = sid \<and> p_status p = ThreadActive) (db_threads d));
               point = fork_point (settled_before sid target d) d;
               forked = (case point of None \<Rightarrow> [] | Some (thread, source) \<Rightarrow>
                 [ProviderThreadChanged (forked_thread now sid (dk_turn_id desk) thread source)])
           in if length later \<noteq> length undo
              then rejected ''chat_moved_on'' ''The chat moved on while its files were rewound. Roll back again.'' 409
              else case append_events now sid (Some cmd) (rolled @ closed @ forked) d of
                Inl err \<Rightarrow> Inl err
              | Inr (_, d') \<Rightarrow> Inr ((map tr_id later, map_option snd point), d')))"

section \<open>Requests nobody answered\<close>

text \<open>\<open>expireRequests\<close>: one candidate in its transaction; answered meanwhile, the answer stands.\<close>

definition expiry_response :: "runtime_request \<Rightarrow> string \<Rightarrow> json_object" where
  "expiry_response r key =
     (case r_kind r of
        KApproval \<Rightarrow> denial key (expired_approval_reason r)
      | KElicitation \<Rightarrow> [(''requestKey'', JStr key), (''response'', JObj [(''kind'', JStr ''elicitation''), (''action'', JStr ''cancel'')])]
      | KQuestion \<Rightarrow> [(''requestKey'', JStr key),
          (''response'', JObj [(''kind'', JStr ''question''), (''answers'', JArr [JStr ''(No answer in time.)''])])])"

definition expire_one :: "desk \<Rightarrow> instant \<Rightarrow> ident \<times> ident \<Rightarrow> db \<Rightarrow> unit tx" where
  "expire_one desk now key d =
     (case List.find (\<lambda>r. rr_key r = key \<and> rr_status r = RPending) (db_requests d) of
        None \<Rightarrow> Inr ((), d)
      | Some row \<Rightarrow>
          (let r = request_from_row row;
               d1 = (case (r_turn_id r, r_attempt_id r, r_runner_key r) of
                  (Some tid, Some aid, Some k) \<Rightarrow> if k = [] then d else queue_command desk now tid (Some aid) CRespond (Some (expiry_response r k)) d
                | _ \<Rightarrow> d)
           in case append_events now (r_session_id r) None
                 [RequestChanged (r\<lparr>r_status := RExpired, r_answerable := False, r_reason := Some ''Nobody answered in time.'', r_resolved_at := Some now\<rparr>)] d1 of
                Inl err \<Rightarrow> Inl err
              | Inr (_, d2) \<Rightarrow> Inr ((), d2)))"

definition expirable :: "desk \<Rightarrow> instant \<Rightarrow> db \<Rightarrow> request_row \<Rightarrow> bool" where
  "expirable desk now d r \<longleftrightarrow>
     rr_status r = RPending \<and> (case rr_expires_at r of None \<Rightarrow> False | Some til \<Rightarrow> til \<le> now) \<and>
     (\<exists>s \<in> set (db_sessions d). sr_id s = rr_session_id r \<and>
        (f_authority_host_id (sr_fields s) = dk_host_id desk \<or> f_authority_host_id (sr_fields s) = unassigned))"

definition expiring_requests :: "desk \<Rightarrow> instant \<Rightarrow> db \<Rightarrow> (ident \<times> ident) list" where
  "expiring_requests desk now d = map rr_key (take 50 (filter (expirable desk now d) (db_requests d)))"

section \<open>Commands\<close>

datatype session_command =
    SendCmd string "agent_attachment list" "dispatch_mode option" bool
  | InterruptCmd "ident option"
  | RetryCmd ident
  | QueuedCmd ident queued_change
  | SteerNowCmd ident
  | RespondCmd ident request_response
  | RollbackCmd ident

definition dispatch_name :: "dispatch_mode \<Rightarrow> string" where
  "dispatch_name m = (case m of DQueue \<Rightarrow> ''queue'' | DSteer \<Rightarrow> ''steer'' | DInterrupt \<Rightarrow> ''interrupt'' | DMessageOnly \<Rightarrow> ''message_only'')"

definition command_type :: "session_command \<Rightarrow> string" where
  "command_type c =
     (case c of
        SendCmd _ _ _ _ \<Rightarrow> ''send'' | InterruptCmd _ \<Rightarrow> ''interrupt'' | RetryCmd _ \<Rightarrow> ''retry''
      | QueuedCmd _ change \<Rightarrow>
          (case change of EditQueued _ _ \<Rightarrow> ''edit_queued'' | CancelQueued \<Rightarrow> ''cancel_queued'' | SendNow \<Rightarrow> ''send_now'')
      | SteerNowCmd _ \<Rightarrow> ''steer_now'' | RespondCmd _ _ \<Rightarrow> ''respond'' | RollbackCmd _ \<Rightarrow> ''rollback'')"

text \<open>Who runs it, whether they may change the chat, the turn that must be the latest, the turns rewound.\<close>

record caller =
  ca_user :: ident
  ca_may_change :: bool
  ca_latest :: "ident option"
  ca_undo :: "ident list"

definition latest_turn :: "ident \<Rightarrow> db \<Rightarrow> turn_row option" where
  "latest_turn sid d =
     (case rev (sort_key tr_ordinal (filter (\<lambda>r. tr_session_id r = sid) (db_turns d))) of [] \<Rightarrow> None | r # _ \<Rightarrow> Some r)"

definition send_in ::
  "desk \<Rightarrow> instant \<Rightarrow> ident \<Rightarrow> session_row \<Rightarrow> string \<Rightarrow> agent_attachment list \<Rightarrow> dispatch_mode option \<Rightarrow> bool \<Rightarrow> string \<Rightarrow> db \<Rightarrow>
   (json_object option) tx"
where
  "send_in desk now user session words atts mode moving cmd d =
     (case accepts_input desk session of
        Some err \<Rightarrow> Inl err
      | None \<Rightarrow>
          (case deliver_in desk now session (person_delivery user words atts None
                  (case mode of Some m \<Rightarrow> m | None \<Rightarrow> if moving then DQueue else DSteer) cmd (Some cmd)) d of
             Inl err \<Rightarrow> Inl err
           | Inr (rc, d') \<Rightarrow>
               Inr (Some [(''itemId'', JStr (dr_message_id rc)),
                 (''turnId'', case dr_turn_id rc of None \<Rightarrow> JNull | Some t \<Rightarrow> JStr t), (''mode'', JStr (dispatch_name (dr_mode rc)))], d')))"

definition handle_command ::
  "desk \<Rightarrow> instant \<Rightarrow> caller \<Rightarrow> session_row \<Rightarrow> string \<Rightarrow> session_command \<Rightarrow> db \<Rightarrow> (json_object option) tx" where
  "handle_command desk now by session cmd c d =
     (let sid = sr_id session; user = ca_user by in
      case c of
        SendCmd words atts mode moving \<Rightarrow> send_in desk now user session words atts mode moving cmd d
      | InterruptCmd tid \<Rightarrow> interrupt_in desk now sid tid cmd d
      | RetryCmd tid \<Rightarrow> retry_in now sid tid cmd d
      | QueuedCmd tid change \<Rightarrow> change_queued_in desk now user sid tid change cmd d
      | SteerNowCmd iid \<Rightarrow> steer_now_in desk now sid iid cmd d
      | RespondCmd rid response \<Rightarrow> respond_in desk now user (ca_may_change by) session rid response cmd d
      | RollbackCmd tid \<Rightarrow>
          (case rollback_in desk now sid tid (ca_undo by) cmd d of
             Inl err \<Rightarrow> Inl err
           | Inr ((ids, _), d') \<Rightarrow> Inr (Some [(''rolledBack'', JArr (map JStr ids))], d')))"

definition run_session_command :: "desk \<Rightarrow> instant \<Rightarrow> caller \<Rightarrow> ident \<Rightarrow> string \<Rightarrow> session_command \<Rightarrow> db \<Rightarrow> (json_object option) tx" where
  "run_session_command desk now by sid cmd c d =
     (case session_row_of d sid of
        None \<Rightarrow> Inl (SessionNotFound sid)
      | Some session \<Rightarrow>
          if (case ca_latest by of None \<Rightarrow> False | Some tid \<Rightarrow> map_option tr_id (latest_turn sid d) \<noteq> Some tid)
          then rejected ''not_latest'' ''Something came after that turn.'' 409
          else handle_command desk now by session cmd c d)"

definition person_command_id :: "ident \<Rightarrow> string \<Rightarrow> string" where
  "person_command_id user cid = ''user:'' @ user @ '':'' @ cid"

definition person_command ::
  "desk \<Rightarrow> instant \<Rightarrow> caller \<Rightarrow> ident \<Rightarrow> string \<Rightarrow> log_error option \<Rightarrow> session_command \<Rightarrow> db \<Rightarrow> command_receipt tx"
where
  "person_command desk now by sid cid before c =
     (let cmd = person_command_id (ca_user by) cid in
      command sid cmd (command_type c) (Some (ca_user by)) before (run_session_command desk now by sid cmd c))"

text \<open>A rollback holds the turns, restores the files, rolls back what it restored and lets the turns go again.\<close>

definition rollback_command ::
  "desk \<Rightarrow> instant \<Rightarrow> caller \<Rightarrow> ident \<Rightarrow> string \<Rightarrow> (string \<Rightarrow> string option \<Rightarrow> string option) \<Rightarrow> (db \<Rightarrow> db) \<Rightarrow> ident \<Rightarrow> db \<Rightarrow>
   (log_error + command_receipt) \<times> db"
where
  "rollback_command desk now by sid cid restore meanwhile tid d =
     (case receipt d sid (person_command_id (ca_user by) cid) of
        Some r \<Rightarrow> (Inr r, d)
      | None \<Rightarrow>
          (case begin_rewind now sid d of
             Inl err \<Rightarrow> (Inl err, d)
           | Inr held \<Rightarrow>
               (let rewound = rewind_files restore now sid tid held;
                    d1 = meanwhile held;
                    run = person_command desk now (by\<lparr>ca_undo := (case rewound of Inl _ \<Rightarrow> [] | Inr ids \<Rightarrow> ids)\<rparr>) sid cid
                      (case rewound of Inl err \<Rightarrow> Some err | Inr _ \<Rightarrow> None) (RollbackCmd tid) d1
                in case run of Inl err \<Rightarrow> (Inl err, end_rewind sid d1) | Inr (r, d2) \<Rightarrow> (Inr r, end_rewind sid d2))))"

end
