(* ===== verification/Command_Laws.thy ===== *)
theory Command_Laws
  imports Delivery_Laws Session_Commands
begin

text \<open>
  What a person's commands promise: each runs at most once whatever its kind; an answer is taken once
  and reaches the agent that asked, or is a message of its own; a stop reaches every turn that works; and
  a rollback rolls back exactly the turns whose files went back.
\<close>

section \<open>Commands run once\<close>

lemma deliver_receipts: "deliver_in desk now session dl d = Inr (rc, d') \<Longrightarrow> db_receipts d' = db_receipts d"
proof -
  assume run: "deliver_in desk now session dl d = Inr (rc, d')"
  have speaks: "\<not> says_nothing (dl_input dl)" using run by (auto simp: deliver_in_def Let_def)
  show ?thesis
  proof (cases "delivered_before d (sr_id session) dl")
    case (Some r)
    from deliver_known [OF speaks Some] run show ?thesis by simp
  next
    case None
    let ?pl = "plan_delivery desk now session dl d"
    obtain deferred d1 where df: "defers desk now ?pl d = (deferred, d1)" by (metis surj_pair)
    obtain tid turns d2 where tf: "turn_for desk now (sr_id session) (pl_item ?pl) (pl_mode ?pl) (pl_active ?pl) (pl_waiting ?pl) d1 = (tid, turns, d2)"
      by (metis surj_pair)
    from run obtain stored where "append_events now (sr_id session) (dl_command_id dl) (delivery_batch desk now session dl ?pl deferred tid turns)
        (steers desk now ?pl d2) = Inr (stored, d')"
      unfolding deliver_in_plan [OF speaks None refl df tf] by (auto split: sum.splits)
    from append_events_effect(4) [OF this] defers_said(10) [OF df] turn_for_said(9) [OF tf] show ?thesis by simp
  qed
qed

text \<open>\<open>interruptIn\<close> turn by turn: what it says of each, and the commands it leaves open.\<close>

definition interrupted_turn :: "instant \<Rightarrow> turn \<Rightarrow> turn" where
  "interrupted_turn now t = t\<lparr>t_status := Interrupted, t_error := None, t_retry_at := None, t_completed_at := Some now, t_updated_at := now\<rparr>"

definition stop_said :: "desk \<Rightarrow> instant \<Rightarrow> bool \<Rightarrow> db \<Rightarrow> turn_row \<Rightarrow> session_event list" where
  "stop_said desk now named d row =
     (let t = turn_from_row now row in
      if is_active_turn_status (tr_status row) then [TurnChanged (stop_requested now t)]
      else if 0 < tr_attempt_count row then TurnChanged (interrupted_turn now t) #
        (case requeue_steers (settling_env desk d) now d t of Inl _ \<Rightarrow> [] | Inr es \<Rightarrow> es)
      else if named then [TurnChanged (t\<lparr>t_status := Cancelled, t_completed_at := Some now, t_updated_at := now\<rparr>)] else [])"

definition stop_command :: "desk \<Rightarrow> instant \<Rightarrow> turn_row \<Rightarrow> db \<Rightarrow> db" where
  "stop_command desk now row d =
     (if is_active_turn_status (tr_status row) then queue_command desk now (tr_id row) (tr_active_attempt_id row) CInterrupt None d else d)"

lemma commands_unread:
  "waiting_notification_turn now (d\<lparr>db_commands := cs\<rparr>) sid = waiting_notification_turn now d sid"
  "item_row_of (d\<lparr>db_commands := cs\<rparr>) = item_row_of d" "session_row_of (d\<lparr>db_commands := cs\<rparr>) sid = session_row_of d sid"
  "pending_steers (d\<lparr>db_commands := cs\<rparr>) t = pending_steers d t" "max_ordinal (d\<lparr>db_commands := cs\<rparr>) t = max_ordinal d t"
  "item_by_owner desk (d\<lparr>db_commands := cs\<rparr>) = item_by_owner desk d"
proof -
  show items: "item_row_of (d\<lparr>db_commands := cs\<rparr>) = item_row_of d" by (simp add: item_row_of_def fun_eq_iff)
  show "waiting_notification_turn now (d\<lparr>db_commands := cs\<rparr>) sid = waiting_notification_turn now d sid"
    unfolding waiting_notification_turn_def waiting_notification_turns_def items by simp
  show "session_row_of (d\<lparr>db_commands := cs\<rparr>) sid = session_row_of d sid" by (simp add: session_row_of_def)
  show "pending_steers (d\<lparr>db_commands := cs\<rparr>) t = pending_steers d t"
    by (simp add: pending_steers_def steered_item_ids_def consumed_of_def)
  show "max_ordinal (d\<lparr>db_commands := cs\<rparr>) t = max_ordinal d t" by (simp add: max_ordinal_def)
  have sessions: "db_sessions (d\<lparr>db_commands := cs\<rparr>) = db_sessions d" by simp
  have "authored_by_owner desk (d\<lparr>db_commands := cs\<rparr>) = authored_by_owner desk d" by (intro ext) (simp only: authored_by_owner_def sessions)
  then show "item_by_owner desk (d\<lparr>db_commands := cs\<rparr>) = item_by_owner desk d" by (intro ext) (simp only: item_by_owner_def)
qed

lemma requeue_commands:
  "requeue_steers (settling_env desk (d\<lparr>db_commands := cs\<rparr>)) now (d\<lparr>db_commands := cs\<rparr>) t = requeue_steers (settling_env desk d) now d t"
proof -
  have env: "settling_env desk (d\<lparr>db_commands := cs\<rparr>) = settling_env desk d" by (simp add: settling_env_def commands_unread)
  have each: "requeue_each env now (d\<lparr>db_commands := cs\<rparr>) session t n waits ids = requeue_each env now d session t n waits ids"
    for env session n waits ids
    by (induction env now d session t n waits ids rule: requeue_each.induct) (simp_all add: commands_unread Let_def split: option.splits)
  have "notification_turn env now (d\<lparr>db_commands := cs\<rparr>) session sid = notification_turn env now d session sid" for env session sid
    by (simp only: notification_turn_def commands_unread)
  then show ?thesis by (simp only: requeue_steers_def env each commands_unread)
qed

lemma stop_said_commands: "stop_said desk now named (d\<lparr>db_commands := cs\<rparr>) row = stop_said desk now named d row"
  unfolding stop_said_def Let_def requeue_commands ..

lemma queue_command_as: "\<exists>cs. queue_command desk now tid aid kind payload d = d\<lparr>db_commands := cs\<rparr>"
  by (auto simp: queue_command_def enqueue_command_def)

lemma interrupt_each_stops:
  "interrupt_each desk now named rows d = Inr (es, d') \<Longrightarrow>
   es = concat (map (stop_said desk now named d) rows) \<and> d' = fold (stop_command desk now) rows d"
proof (induction rows arbitrary: d es d')
  case (Cons row rows)
  let ?t = "turn_from_row now row"
  have t: "t_id ?t = tr_id row" "t_status ?t = tr_status row" "t_attempt_count ?t = tr_attempt_count row"
    "t_active_attempt_id ?t = tr_active_attempt_id row" by (simp_all add: turn_from_row_def)
  show ?case
  proof (cases "is_active_turn_status (tr_status row)")
    case True
    let ?d = "queue_command desk now (tr_id row) (tr_active_attempt_id row) CInterrupt None d"
    from Cons.prems True obtain rest where rest: "interrupt_each desk now named rows ?d = Inr (rest, d')"
      and es: "es = TurnChanged (stop_requested now ?t) # rest"
      by (auto simp: Let_def t simp del: active_statuses split: sum.splits)
    have "stop_said desk now named ?d = stop_said desk now named d"
      using queue_command_as [of desk now "tr_id row" "tr_active_attempt_id row" CInterrupt None d] by (auto simp: fun_eq_iff stop_said_commands)
    with Cons.IH [OF rest] es True show ?thesis by (simp add: stop_said_def [of _ _ _ _ row] stop_command_def Let_def)
  next
    case idle: False
    show ?thesis
    proof (cases "0 < tr_attempt_count row")
      case True
      from Cons.prems idle True obtain rq rest where rest: "interrupt_each desk now named rows d = Inr (rest, d')"
        and rq: "requeue_steers (settling_env desk d) now d ?t = Inr rq" and es: "es = TurnChanged (interrupted_turn now ?t) # rq @ rest"
        by (auto simp: Let_def t interrupted_turn_def simp del: active_statuses split: sum.splits)
      with Cons.IH [OF rest] idle True show ?thesis by (simp add: stop_said_def [of _ _ _ _ row] stop_command_def Let_def del: active_statuses)
    next
      case False
      from Cons.prems idle False obtain rest where rest: "interrupt_each desk now named rows d = Inr (rest, d')"
        and es: "es = (if named then [TurnChanged (?t\<lparr>t_status := Cancelled, t_completed_at := Some now, t_updated_at := now\<rparr>)] else []) @ rest"
        by (auto simp: Let_def t simp del: active_statuses split: sum.splits)
      with Cons.IH [OF rest] idle False show ?thesis by (simp add: stop_said_def [of _ _ _ _ row] stop_command_def Let_def del: active_statuses)
    qed
  qed
qed simp

lemma stop_command_frame [simp]:
  "db_receipts (stop_command desk now row d) = db_receipts d" "db_turns (stop_command desk now row d) = db_turns d"
  "db_items (stop_command desk now row d) = db_items d"
  by (simp_all add: stop_command_def)

lemma stop_commands_frame [simp]:
  "db_receipts (fold (stop_command desk now) rows d) = db_receipts d" "db_turns (fold (stop_command desk now) rows d) = db_turns d"
  "db_items (fold (stop_command desk now) rows d) = db_items d"
  by (induction rows arbitrary: d) simp_all

lemma handler_receipts:
  "interrupt_in desk now sid tid cmd d = Inr (res, d') \<Longrightarrow> db_receipts d' = db_receipts d"
  "retry_in now sid t cmd d = Inr (res, d') \<Longrightarrow> db_receipts d' = db_receipts d"
  "steer_now_in desk now sid iid cmd d = Inr (res, d') \<Longrightarrow> db_receipts d' = db_receipts d"
  "change_queued_in desk now user sid t change cmd d = Inr (res, d') \<Longrightarrow> db_receipts d' = db_receipts d"
  "rollback_in desk now sid t undo cmd d = Inr (out, d') \<Longrightarrow> db_receipts d' = db_receipts d"
proof -
  show "interrupt_in desk now sid tid cmd d = Inr (res, d') \<Longrightarrow> db_receipts d' = db_receipts d"
    by (auto simp: interrupt_in_def Let_def split: sum.splits dest!: append_events_effect(4) interrupt_each_stops)
  show "retry_in now sid t cmd d = Inr (res, d') \<Longrightarrow> db_receipts d' = db_receipts d"
    by (auto simp: retry_in_def rejected_def no_such_turn_def schedule_retry_def Let_def simp del: active_statuses
      split: option.splits sum.splits if_splits dest!: append_events_effect(4))
  show "steer_now_in desk now sid iid cmd d = Inr (res, d') \<Longrightarrow> db_receipts d' = db_receipts d"
    by (auto simp: steer_now_in_def rejected_def Let_def split: option.splits sum.splits if_splits dest!: append_events_effect(4))
  show "rollback_in desk now sid t undo cmd d = Inr (out, d') \<Longrightarrow> db_receipts d' = db_receipts d"
    by (auto simp: rollback_in_def rejected_def Let_def split: option.splits sum.splits if_splits dest!: append_events_effect(4))
  have "queued_changes desk now user sid change u d = Inr (es, d1) \<Longrightarrow> db_receipts d1 = db_receipts d" for u es d1
    by (auto simp: queued_changes_def Let_def split: queued_change.splits option.splits sum.splits)
  then show "change_queued_in desk now user sid t change cmd d = Inr (res, d') \<Longrightarrow> db_receipts d' = db_receipts d"
    by (fastforce simp: change_queued_in_def rejected_def no_such_turn_def Let_def
      split: option.splits sum.splits if_splits dest: append_events_effect(4))
qed

lemma answer_commands_frame [simp]:
  "db_receipts (answer_commands desk now r turn live response d) = db_receipts d"
  "db_turns (answer_commands desk now r turn live response d) = db_turns d"
  "db_items (answer_commands desk now r turn live response d) = db_items d"
  "db_requests (answer_commands desk now r turn live response d) = db_requests d"
  "db_sessions (answer_commands desk now r turn live response d) = db_sessions d"
  by (auto simp: answer_commands_def split: option.splits)

text \<open>An answer that is taken, step by step.\<close>

definition turn_asking :: "instant \<Rightarrow> db \<Rightarrow> runtime_request \<Rightarrow> turn option" where
  "turn_asking now d r = (case r_turn_id r of None \<Rightarrow> None | Some tid \<Rightarrow> map_option (turn_from_row now) (find_row tr_id tid (db_turns d)))"

definition answered_live :: "instant \<Rightarrow> db \<Rightarrow> runtime_request \<Rightarrow> bool" where
  "answered_live now d r = answers_live r (turn_asking now d r)"

definition answer_said :: "instant \<Rightarrow> ident \<Rightarrow> ident \<Rightarrow> request_response \<Rightarrow> runtime_request \<Rightarrow> db \<Rightarrow> session_event list" where
  "answer_said now user sid answer r d = [RequestChanged (resolved_request now user answer r)] @
     (if answered_live now d r then unblocked_turn now r d else []) @ answered_item now sid r d"

lemma respond_cases:
  assumes run: "respond_in desk now user may session rid response cmd d = Inr (res, d')"
  obtains row r said stored d1 where "find_row rr_key (sr_id session, rid) (db_requests d) = Some row" "r = request_from_row row"
    "refuses_answer user may r response = None" "owners_words (owner_only_runner desk user (sr_id session) r d) response = Inr said"
    "append_events now (sr_id session) (Some cmd) (answer_said now user (sr_id session) (with_pills desk said) r d)
       (answer_commands desk now r (turn_asking now d r) (answered_live now d r) (with_pills desk said) d) = Inr (stored, d1)"
    "case answer_delivery desk user r (answered_live now d r) (turn_asking now d r) (with_pills desk said) of
       None \<Rightarrow> d' = d1 | Some dl \<Rightarrow> \<exists>rc. deliver_in desk now session dl d1 = Inr (rc, d')"
proof -
  obtain row where row: "find_row rr_key (sr_id session, rid) (db_requests d) = Some row"
    using run by (auto simp: respond_in_def rejected_def Let_def split: option.splits)
  let ?r = "request_from_row row"
  have ok: "refuses_answer user may ?r response = None"
    using run by (auto simp: respond_in_def Let_def row split: option.splits)
  obtain said where said: "owners_words (owner_only_runner desk user (sr_id session) ?r d) response = Inr said"
    using run by (auto simp: respond_in_def Let_def row ok split: sum.splits)
  let ?dl = "answer_delivery desk user ?r (answered_live now d ?r) (turn_asking now d ?r) (with_pills desk said)"
  have body: "(case append_events now (sr_id session) (Some cmd) (answer_said now user (sr_id session) (with_pills desk said) ?r d)
       (answer_commands desk now ?r (turn_asking now d ?r) (answered_live now d ?r) (with_pills desk said) d) of
      Inl err \<Rightarrow> Inl err
    | Inr (_, d1) \<Rightarrow>
        (case ?dl of None \<Rightarrow> Inr (Some [(''requestId'', JStr (r_id ?r))], d1)
         | Some dl \<Rightarrow> (case deliver_in desk now session dl d1 of Inl err \<Rightarrow> Inl err
             | Inr (_, d2) \<Rightarrow> Inr (Some [(''requestId'', JStr (r_id ?r))], d2)))) = Inr (res, d')"
    using run unfolding respond_in_def Let_def row option.case ok said sum.case turn_asking_def [symmetric] answered_live_def [symmetric]
      answer_said_def [symmetric] .
  then obtain stored d1 where app: "append_events now (sr_id session) (Some cmd) (answer_said now user (sr_id session) (with_pills desk said) ?r d)
       (answer_commands desk now ?r (turn_asking now d ?r) (answered_live now d ?r) (with_pills desk said) d) = Inr (stored, d1)"
    by (auto split: sum.splits)
  have "case ?dl of None \<Rightarrow> d' = d1 | Some dl \<Rightarrow> \<exists>rc. deliver_in desk now session dl d1 = Inr (rc, d')"
    using body unfolding app by (auto split: option.splits sum.splits)
  with that [OF row refl ok said app] show thesis .
qed

lemma respond_receipts: "respond_in desk now user may session rid response cmd d = Inr (res, d') \<Longrightarrow> db_receipts d' = db_receipts d"
  by (erule respond_cases) (auto dest!: append_events_effect(4) deliver_receipts split: option.splits)

lemma send_receipts: "send_in desk now user session words atts mode moving cmd d = Inr (res, d') \<Longrightarrow> db_receipts d' = db_receipts d"
  by (auto simp: send_in_def split: option.splits sum.splits dest: deliver_receipts)

lemma handler_leaves_receipts: "leaves_receipts (run_session_command desk now by' sid cmd c)"
  unfolding leaves_receipts_def run_session_command_def
proof (intro allI impI)
  fix d res d'
  assume "(case session_row_of d sid of None \<Rightarrow> Inl (SessionNotFound sid)
      | Some session \<Rightarrow>
          if (case ca_latest by' of None \<Rightarrow> False | Some tid \<Rightarrow> map_option tr_id (latest_turn sid d) \<noteq> Some tid)
          then rejected ''not_latest'' ''Something came after that turn.'' 409
          else handle_command desk now by' session cmd c d) = Inr (res, d')"
  then obtain session where "handle_command desk now by' session cmd c d = Inr (res, d')"
    by (auto simp: rejected_def split: option.splits if_splits)
  then show "db_receipts d' = db_receipts d"
    by (auto simp: handle_command_def Let_def split: session_command.splits sum.splits
      dest: handler_receipts respond_receipts send_receipts)
qed

text \<open>Commands people send, one after another; a failed one leaves the database as it was.\<close>

record sent =
  sc_desk :: desk
  sc_at :: instant
  sc_caller :: caller
  sc_session_id :: ident
  sc_command_id :: string
  sc_before :: "log_error option"
  sc_command :: session_command

definition run_sent :: "sent \<Rightarrow> db \<Rightarrow> command_receipt tx" where
  "run_sent s = person_command (sc_desk s) (sc_at s) (sc_caller s) (sc_session_id s) (sc_command_id s) (sc_before s) (sc_command s)"

fun run_all_sent :: "sent list \<Rightarrow> db \<Rightarrow> db" where
  "run_all_sent [] d = d"
| "run_all_sent (s # rest) d = (case run_sent s d of Inl _ \<Rightarrow> run_all_sent rest d | Inr (_, d') \<Rightarrow> run_all_sent rest d')"

definition sent_key :: "sent \<Rightarrow> ident \<times> string" where
  "sent_key s = (sc_session_id s, person_command_id (ca_user (sc_caller s)) (sc_command_id s))"

definition sent_input :: "sent \<Rightarrow> command_input" where
  "sent_input s = (command_type (sc_command s), Some (ca_user (sc_caller s)), sc_before s,
     run_session_command (sc_desk s) (sc_at s) (sc_caller s) (sc_session_id s) (person_command_id (ca_user (sc_caller s)) (sc_command_id s)) (sc_command s))"

lemma run_sent_execute: "run_sent s d = execute_command (sent_key s) (sent_input s) d"
  by (simp add: run_sent_def person_command_def execute_command_def sent_key_def sent_input_def input_run_def Let_def)

lemma run_all_sent_series: "run_all_sent ss d = commands.series (map (\<lambda>s. (sent_key s, sent_input s)) ss) d"
  by (induction ss arbitrary: d) (auto simp: run_sent_execute split: sum.splits)

lemma sent_leaves: "leaves_receipts (input_run (sent_input s))"
  by (simp add: sent_input_def input_run_def handler_leaves_receipts)

text \<open>Property C4: whatever a person asks of a chat happens once. A message, a stop, an answer, a
  rollback or any other command sent again under its id, after any further commands of anybody and with
  any body, returns the receipt of the first time and changes nothing.\<close>

theorem person_command_once:
  assumes "run_sent s d = Inr (r, d')" and "sent_key again = sent_key s"
  shows "run_sent again (run_all_sent later d') = Inr (r, run_all_sent later d')"
proof -
  let ?later = "map (\<lambda>s. (sent_key s, sent_input s)) later"
  have "\<forall>c \<in> set ?later. leaves_receipts (input_run (snd c))" by (auto simp: sent_leaves)
  from commands.repeat_answers [OF sent_leaves assms(1) [unfolded run_sent_execute] this]
  show ?thesis unfolding run_sent_execute run_all_sent_series assms(2) .
qed

section \<open>Answers\<close>

lemma deliver_old:
  assumes run: "deliver_in desk now session dl d = Inr (rc, d')" and old: "\<not> dr_created rc"
  shows "d' = d"
proof -
  have speaks: "\<not> says_nothing (dl_input dl)" using run by (auto simp: deliver_in_def Let_def)
  have "delivered_before d (sr_id session) dl \<noteq> None"
  proof
    assume none: "delivered_before d (sr_id session) dl = None"
    obtain deferred d1 where df: "defers desk now (plan_delivery desk now session dl d) d = (deferred, d1)" by (metis surj_pair)
    obtain tid turns d2 where tf: "turn_for desk now (sr_id session) (pl_item (plan_delivery desk now session dl d))
        (pl_mode (plan_delivery desk now session dl d)) (pl_active (plan_delivery desk now session dl d))
        (pl_waiting (plan_delivery desk now session dl d)) d1 = (tid, turns, d2)" by (metis surj_pair)
    from deliver_in_plan [OF speaks none refl df tf] run old show False by (auto split: sum.splits)
  qed
  with deliver_known [OF speaks] run show ?thesis by auto
qed

text \<open>An answer is never taken for a reply in the chat: it defers nothing.\<close>

lemma answer_defers_nothing:
  assumes run: "deliver_in desk now session dl d = Inr (rc, d')" and ans: "dl_input dl = UserInput u words atts (Some answer)"
  shows "db_requests d' = db_requests d" "asked_of_turn d t a k p \<Longrightarrow> asked_of_turn d' t a k p"
proof -
  have "db_requests d' = db_requests d \<and> (asked_of_turn d t a k p \<longrightarrow> asked_of_turn d' t a k p)"
  proof (cases "dr_created rc")
    case True
    from deliver_creates [OF run True] obtain pl deferred d1 tid turns d2 stored where
      pl: "pl = plan_delivery desk now session dl d" and df: "defers desk now pl d = (deferred, d1)"
      and tf: "turn_for desk now (sr_id session) (pl_item pl) (pl_mode pl) (pl_active pl) (pl_waiting pl) d1 = (tid, turns, d2)"
      and app: "append_events now (sr_id session) (dl_command_id dl) (delivery_batch desk now session dl pl deferred tid turns)
         (steers desk now pl d2) = Inr (stored, d')" by metis
    have "\<not> pl_reply pl" by (simp add: pl plan_delivery_def Let_def replies_to_waiting_def ans)
    with defers_said(4) [OF df] have none: "deferred = []" "d1 = d" by auto
    have "requests_said (delivery_batch desk now session dl pl deferred tid turns) = []" unfolding batch_said(2) [OF df tf] unfolding none by simp
    with append_request_rows [OF app] turn_for_said(6) [OF tf] none have same: "db_requests d' = db_requests d" by simp
    have "asked_of_turn d t a k p \<Longrightarrow> asked_of_turn d2 t a k p"
      using tf none by (auto simp: turn_for_def Let_def split: option.splits if_splits)
    then have "asked_of_turn d t a k p \<Longrightarrow> asked_of_turn (steers desk now pl d2) t a k p" by (simp add: steers_def split: option.splits)
    with same asked_append [OF app] show ?thesis by simp
  next
    case False
    from deliver_old [OF run False] show ?thesis by simp
  qed
  then show "db_requests d' = db_requests d" "asked_of_turn d t a k p \<Longrightarrow> asked_of_turn d' t a k p" by auto
qed

lemma answer_delivery_input:
  "answer_delivery desk user r live turn response = Some dl \<Longrightarrow> \<exists>words atts answer. dl_input dl = UserInput user words atts (Some answer)"
  by (auto simp: answer_delivery_def Let_def person_delivery_def split: request_response.splits if_splits)

lemma resolved_fields [simp]:
  "r_id (resolved_request now user answer r) = r_id r" "r_status (resolved_request now user answer r) = RResolved"
  "r_resolved_by (resolved_request now user answer r) = Some user" "r_answerable (resolved_request now user answer r) = False"
  by (simp_all add: resolved_request_def)

lemma answer_said_requests: "requests_said (answer_said now user sid answer r d) = [resolved_request now user answer r]"
  by (auto simp: answer_said_def unblocked_turn_def answered_item_def split: option.splits)

text \<open>Property C6: a request is answered once. After an answer is taken the request is resolved by
  whoever gave it, and every later answer, whoever gives it, is refused as already answered.\<close>

theorem answered_once:
  assumes run: "respond_in desk now user may session rid response cmd d = Inr (res, d')"
  shows "\<exists>row. find_row rr_key (sr_id session, rid) (db_requests d') = Some row \<and> rr_status row = RResolved \<and>
    rr_resolved_by row = Some user \<and>
    (\<forall>desk2 now2 user2 may2 response2 cmd2. may_answer user2 may2 (request_from_row row) = None \<longrightarrow>
       respond_in desk2 now2 user2 may2 session rid response2 cmd2 d' =
         Inl (CommandRejected ''already_answered'' ''That request was already answered or withdrawn.'' 409))"
proof -
  obtain row r said stored d1 where row: "find_row rr_key (sr_id session, rid) (db_requests d) = Some row"
    and r: "r = request_from_row row"
    and app: "append_events now (sr_id session) (Some cmd) (answer_said now user (sr_id session) (with_pills desk said) r d)
       (answer_commands desk now r (turn_asking now d r) (answered_live now d r) (with_pills desk said) d) = Inr (stored, d1)"
    and out: "case answer_delivery desk user r (answered_live now d r) (turn_asking now d r) (with_pills desk said) of
       None \<Rightarrow> d' = d1 | Some dl \<Rightarrow> \<exists>rc. deliver_in desk now session dl d1 = Inr (rc, d')" by (rule respond_cases [OF run])
  have id: "r_id r = rid" using find_row_Some [OF row] by (auto simp: r request_from_row_def rr_key_def)
  have "db_requests d' = db_requests d1"
  proof (cases "answer_delivery desk user r (answered_live now d r) (turn_asking now d r) (with_pills desk said)")
    case (Some dl)
    from answer_delivery_input [OF Some] obtain words atts answer where "dl_input dl = UserInput user words atts (Some answer)" by blast
    with out Some answer_defers_nothing(1) show ?thesis by auto
  qed (use out in simp)
  with append_request_row [OF app, of rid] row id
  have after: "find_row rr_key (sr_id session, rid) (db_requests d') =
      Some (update_request_row (sr_id session) now (resolved_request now user (with_pills desk said) r) row)"
    unfolding answer_said_requests by (simp add: write_request_def)
  let ?row = "update_request_row (sr_id session) now (resolved_request now user (with_pills desk said) r) row"
  have st: "rr_status ?row = RResolved" "rr_resolved_by ?row = Some user" by (simp_all add: update_request_row_def new_request_row_def)
  then have "r_status (request_from_row ?row) \<noteq> RPending" by (simp add: request_from_row_def)
  then have "respond_in desk2 now2 user2 may2 session rid response2 cmd2 d' =
         Inl (CommandRejected ''already_answered'' ''That request was already answered or withdrawn.'' 409)"
    if "may_answer user2 may2 (request_from_row ?row) = None" for desk2 now2 user2 may2 response2 cmd2
    unfolding respond_in_def Let_def after option.case refuses_answer_def that by simp
  with after st show ?thesis by blast
qed

text \<open>Nor does it change a turn that is there: it joins one, or waits as a turn of its own.\<close>

lemma answer_keeps_turns:
  assumes run: "deliver_in desk now session dl d = Inr (rc, d')" and ans: "dl_input dl = UserInput u words atts (Some answer)"
    and mode: "dl_dispatch dl = DSteer \<or> dl_dispatch dl = DQueue" and tid: "tid \<noteq> dk_turn_id desk"
  shows "find_row tr_id tid (db_turns d') = find_row tr_id tid (db_turns d)"
proof (cases "dr_created rc")
  case True
  from deliver_creates [OF run True] obtain pl deferred d1 i turns d2 stored where
    pl: "pl = plan_delivery desk now session dl d" and df: "defers desk now pl d = (deferred, d1)"
    and tf: "turn_for desk now (sr_id session) (pl_item pl) (pl_mode pl) (pl_active pl) (pl_waiting pl) d1 = (i, turns, d2)"
    and app: "append_events now (sr_id session) (dl_command_id dl) (delivery_batch desk now session dl pl deferred i turns)
       (steers desk now pl d2) = Inr (stored, d')" by metis
  have quiet: "\<not> pl_reply pl" "pl_mode pl \<noteq> DInterrupt"
    using mode by (auto simp: pl plan_delivery_def Let_def replies_to_waiting_def ans chosen_dispatch_def requested_dispatch_def from_child_def)
  with defers_said(4) [OF df] have none: "deferred = []" "d1 = d" by auto
  have "turns = [] \<or> (\<exists>n b. turns = [TurnChanged (delivered_turn (dk_turn_id desk) (sr_id session) n (pl_item pl) b now)])"
    using tf quiet(2) by (auto simp: turn_for_def Let_def split: option.splits if_splits)
  then have "said_of (steers desk now pl d2) (sr_id session) tid (delivery_batch desk now session dl pl deferred i turns) = []"
    unfolding batch_said(5) [OF df tf] unfolding none using tid by auto
  with append_turn_row [OF app, of tid] turn_for_said(4) [OF tf] none show ?thesis by simp
next
  case False
  from deliver_old [OF run False] show ?thesis by simp
qed

lemma answer_delivery_mode:
  "answer_delivery desk user r live turn response = Some dl \<Longrightarrow> dl_dispatch dl = DSteer \<or> dl_dispatch dl = DQueue"
  by (auto simp: answer_delivery_def Let_def person_delivery_def split: request_response.splits if_splits)

definition still_waits :: "db \<Rightarrow> ident \<Rightarrow> ident \<Rightarrow> bool" where
  "still_waits d tid rid \<longleftrightarrow> (\<exists>x \<in> set (waiting_requests d tid). rr_request_id x \<noteq> rid)"

lemma answer_turn_said:
  assumes "find_row tr_id tid (db_turns d) = Some row" and "tr_session_id row = sid" and "turn_constraints (db_turns d)"
    and "r_turn_id r = Some tid" and "answered_live now d r" and "is_active_turn_status (tr_status row)" and "db_turns d0 = db_turns d"
  shows "said_of d0 sid tid (answer_said now user sid answer r d) =
     (if tr_status row = Waiting \<and> \<not> still_waits d tid (r_id r)
      then [(turn_from_row now row)\<lparr>t_status := Running, t_activity := Some ''Continuing'', t_activity_at := Some now, t_updated_at := now\<rparr>]
      else [])"
proof -
  have "turn_row_of d sid tid = Some row" using assms(1,2) turn_row_of_find [OF turn_constraints_unique [OF assms(3)]] by simp
  then have tr: "turn_row_of d0 sid tid = Some row" using turn_row_of_cong [OF assms(7)] by simp
  have id: "tr_id row = tid" using find_row_Some [OF assms(1)] by simp
  have item: "said_of d0 sid tid (answered_item now sid r d) = []" by (auto simp: answered_item_def split: option.splits)
  show ?thesis
    using assms(1,4,5,6) tr id
    by (auto simp: answer_said_def item unblocked_turn_def still_waits_def current_turn_def turn_from_row_def)
qed

text \<open>Property C27: an answer to a working agent reaches it. An open command hands the attempt that asked
  the answer under the runner's own key for the request; and the turn works on, unless another request
  it asked is still waiting for a person.\<close>

theorem answer_reaches_agent:
  assumes run: "respond_in desk now user may session rid response cmd d = Inr (res, d')"
    and row: "find_row rr_key (sr_id session, rid) (db_requests d) = Some row"
    and live: "answered_live now d (request_from_row row)"
    and key: "r_runner_key (request_from_row row) = Some k" "k \<noteq> []"
    and turn: "find_row tr_id tid (db_turns d) = Some trow" "rr_turn_id row = Some tid" "tr_session_id trow = sr_id session"
    and tc: "turn_constraints (db_turns d)" and fresh: "dk_turn_id desk \<noteq> tid"
  shows "\<exists>said trow'. owners_words (owner_only_runner desk user (sr_id session) (request_from_row row) d) response = Inr said \<and>
    asked_of_turn d' tid (rr_attempt_id row) CRespond
      [(''requestKey'', JStr k), (''response'', JObj (response_json (agent_response (dk_signs desk) (with_pills desk said))))] \<and>
    find_row tr_id tid (db_turns d') = Some trow' \<and>
    (tr_status trow = Waiting \<longrightarrow> tr_status trow' = (if still_waits d tid rid then Waiting else Running))"
proof -
  let ?r = "request_from_row row" and ?sid = "sr_id session"
  obtain row2 r said stored d1 where row2: "find_row rr_key (?sid, rid) (db_requests d) = Some row2" and r: "r = request_from_row row2"
    and ok: "refuses_answer user may r response = None" and said: "owners_words (owner_only_runner desk user ?sid r d) response = Inr said"
    and app: "append_events now ?sid (Some cmd) (answer_said now user ?sid (with_pills desk said) r d)
       (answer_commands desk now r (turn_asking now d r) (answered_live now d r) (with_pills desk said) d) = Inr (stored, d1)"
    and out: "case answer_delivery desk user r (answered_live now d r) (turn_asking now d r) (with_pills desk said) of
       None \<Rightarrow> d' = d1 | Some dl \<Rightarrow> \<exists>rc. deliver_in desk now session dl d1 = Inr (rc, d')" by (rule respond_cases [OF run])
  have same: "r = ?r" using row row2 r by simp
  have fields: "r_turn_id ?r = rr_turn_id row" "r_attempt_id ?r = rr_attempt_id row" "r_id ?r = rid"
    using find_row_Some [OF row] by (simp_all add: request_from_row_def rr_key_def)
  have asking: "turn_asking now d ?r = Some (turn_from_row now trow)" by (simp add: turn_asking_def fields turn)
  with live have "is_active_turn_status (tr_status trow)"
    by (simp add: answered_live_def answers_live_def turn_from_row_def del: active_statuses)
  note act = this asking
  have tid: "t_id (turn_from_row now trow) = tid" using find_row_Some [OF turn(1)] by (simp add: turn_from_row_def)
  let ?payload = "[(''requestKey'', JStr k), (''response'', JObj (response_json (agent_response (dk_signs desk) (with_pills desk said))))]"
  let ?d0 = "answer_commands desk now ?r (turn_asking now d ?r) (answered_live now d ?r) (with_pills desk said) d"
  have "asked_of_turn ?d0 tid (rr_attempt_id row) CRespond ?payload"
    using live key act(2) tid fields(2) by (simp add: answer_commands_def)
  then have asked: "asked_of_turn d1 tid (rr_attempt_id row) CRespond ?payload" using asked_append [OF app] same by simp
  have "find_row tr_id tid (db_turns d1) = fold (write_turn now ?sid) (said_of ?d0 ?sid tid (answer_said now user ?sid (with_pills desk said) ?r d)) (Some trow)"
    using append_turn_row [OF app, of tid] turn(1) same by simp
  also have "\<dots> = Some (if tr_status trow = Waiting \<and> \<not> still_waits d tid rid
      then update_turn_row ?sid now ((turn_from_row now trow)\<lparr>t_status := Running, t_activity := Some ''Continuing'',
        t_activity_at := Some now, t_updated_at := now\<rparr>) trow else trow)"
    by (subst answer_turn_said [OF turn(1,3) tc _ live act(1)]) (simp_all add: fields turn(2) write_turn_def)
  finally have after: "\<exists>trow'. find_row tr_id tid (db_turns d1) = Some trow' \<and>
      (tr_status trow = Waiting \<longrightarrow> tr_status trow' = (if still_waits d tid rid then Waiting else Running))"
    using turn(3) by (auto simp: update_turn_row_def)
  have "asked_of_turn d' tid (rr_attempt_id row) CRespond ?payload \<and> find_row tr_id tid (db_turns d') = find_row tr_id tid (db_turns d1)"
  proof (cases "answer_delivery desk user r (answered_live now d r) (turn_asking now d r) (with_pills desk said)")
    case (Some dl)
    from answer_delivery_input [OF Some] obtain words atts answer where ans: "dl_input dl = UserInput user words atts (Some answer)" by blast
    from out Some obtain rc where dl: "deliver_in desk now session dl d1 = Inr (rc, d')" by auto
    from answer_defers_nothing(2) [OF dl ans asked] answer_keeps_turns [OF dl ans answer_delivery_mode [OF Some]] fresh show ?thesis by auto
  qed (use out asked in simp)
  with after said same show ?thesis by auto
qed

section \<open>Stops\<close>

lemma said_of_concat: "said_of d sid tid (concat (map f xs)) = concat (map (\<lambda>x. said_of d sid tid (f x)) xs)"
  by (induction xs) simp_all

lemma concat_one:
  assumes "x \<in> set xs" and "distinct (map key xs)" and "\<And>y. y \<in> set xs \<Longrightarrow> key y \<noteq> key x \<Longrightarrow> g y = []"
  shows "concat (map g xs) = g x"
  using assms
proof (induction xs)
  case (Cons y ys)
  show ?case
  proof (cases "x = y")
    case True
    with Cons.prems(2) have "key z \<noteq> key x" if "z \<in> set ys" for z using that by (auto simp: image_iff)
    with Cons.prems(3) have "concat (map g ys) = []" by simp
    with True show ?thesis by simp
  next
    case False
    with Cons.prems have "x \<in> set ys" "key y \<noteq> key x" by (auto simp: image_iff)
    with Cons show ?thesis by simp
  qed
qed simp

lemma distinct_keys_filter: "unique_keys key xs \<Longrightarrow> distinct (map key (filter P xs))"
  by (simp add: unique_keys_def distinct_map_filter)

text \<open>The turns a stop queues are new ones, with ids of their own.\<close>

definition fresh_steers :: "desk \<Rightarrow> db \<Rightarrow> turn_row \<Rightarrow> instant \<Rightarrow> bool" where
  "fresh_steers desk d row now \<longleftrightarrow> (\<forall>iid \<in> set (pending_steers d (turn_from_row now row)).
     steered_turn_id (dk_sha desk) (tr_id row) iid \<notin> tr_id ` set (db_turns d))"

lemma requeued_said_of:
  assumes "requeue_steers (settling_env desk d) now d (turn_from_row now row) = Inr es" and "fresh_steers desk d row now"
    and "tid \<in> tr_id ` set (db_turns d)"
  shows "said_of d0 sid tid es = []"
proof (rule said_of_none)
  fix t assume t: "TurnChanged t \<in> set es"
  with assms(1) obtain session where "TurnChanged t \<in> set (requeue_each (settling_env desk d) now d session (turn_from_row now row)
      (max_ordinal d (turn_from_row now row)) (notification_turn (settling_env desk d) now d session (t_session_id (turn_from_row now row)))
      (pending_steers d (turn_from_row now row)))"
    by (auto simp: requeue_steers_def split: if_splits option.splits)
  from requeue_each_events [OF this] obtain iid where "iid \<in> set (pending_steers d (turn_from_row now row))"
    "t_id t = steered_turn_id (dk_sha desk) (tr_id row) iid" by (auto simp: settling_env_def turn_from_row_def)
  with assms(2,3) show "t_id t \<noteq> tid" by (auto simp: fresh_steers_def)
qed

lemma stop_said_of:
  assumes "fresh_steers desk d row now" and "tid \<in> tr_id ` set (db_turns d)"
  shows "said_of d0 sid tid (stop_said desk now named d row) =
    (if tr_id row \<noteq> tid then []
     else if is_active_turn_status (tr_status row) then turns_said (current_turn d0 sid (TurnChanged (stop_requested now (turn_from_row now row))))
     else if 0 < tr_attempt_count row then turns_said (current_turn d0 sid (TurnChanged (interrupted_turn now (turn_from_row now row))))
     else if named then turns_said (current_turn d0 sid (TurnChanged ((turn_from_row now row)\<lparr>t_status := Cancelled, t_completed_at := Some now, t_updated_at := now\<rparr>)))
     else [])"
proof -
  have ids: "t_id (stop_requested now (turn_from_row now row)) = tr_id row" "t_id (interrupted_turn now (turn_from_row now row)) = tr_id row"
    "t_id ((turn_from_row now row)\<lparr>t_status := Cancelled, t_completed_at := Some now, t_updated_at := now\<rparr>) = tr_id row"
    by (simp_all add: stop_requested_def interrupted_turn_def turn_from_row_def)
  have rq: "said_of d0 sid tid (case requeue_steers (settling_env desk d) now d (turn_from_row now row) of Inl _ \<Rightarrow> [] | Inr es \<Rightarrow> es) = []"
    using requeued_said_of [OF _ assms] by (auto split: sum.splits)
  show ?thesis by (simp add: stop_said_def Let_def ids rq del: active_statuses)
qed

lemma stop_commands_asked:
  "row \<in> set rows \<Longrightarrow> is_active_turn_status (tr_status row) \<Longrightarrow>
   asked_of_turn (fold (stop_command desk now) rows d) (tr_id row) (tr_active_attempt_id row) CInterrupt []"
proof -
  have keep: "asked_of_turn (fold (stop_command desk now) rows d) t a k p" if "asked_of_turn d t a k p" for rows d t a k p
    using that by (induction rows arbitrary: d) (auto simp: stop_command_def)
  assume "row \<in> set rows" "is_active_turn_status (tr_status row)"
  then show ?thesis
  proof (induction rows arbitrary: d)
    case (Cons x xs)
    show ?case
    proof (cases "row = x")
      case True
      with Cons.prems(2) have "asked_of_turn (stop_command desk now x d) (tr_id row) (tr_active_attempt_id row) CInterrupt []"
        by (simp add: stop_command_def del: active_statuses)
      from keep [OF this] show ?thesis by simp
    next
      case False
      with Cons show ?thesis by (simp del: active_statuses)
    qed
  qed simp
qed

text \<open>What a stop makes of a turn it reaches, and of one it does not.\<close>

definition stopped :: "bool \<Rightarrow> turn_row \<Rightarrow> turn_row \<Rightarrow> bool" where
  "stopped named before after \<longleftrightarrow>
     (if is_active_turn_status (tr_status before) then tr_status after = tr_status before \<and> tr_cancellation_requested_at after \<noteq> None
      else if 0 < tr_attempt_count before then tr_status after = Interrupted
      else if named then tr_status after = Cancelled else after = before)"

text \<open>Property C26: a stop reaches every turn it is for. A turn that works is asked to stop, by its row
  and by an open command to its attempt; one waiting to try again is interrupted; one that never ran is
  canceled only when it was named; and no other turn changes.\<close>

theorem stop_reaches_all:
  assumes run: "interrupt_in desk now sid tid cmd d = Inr (res, d')" and tc: "turn_constraints (db_turns d)"
    and fresh: "\<forall>r \<in> set (db_turns d). interruptible sid tid r \<longrightarrow> fresh_steers desk d r now"
    and row: "row \<in> set (db_turns d)" "tr_session_id row = sid"
  shows "\<exists>row'. turn_row_of d' sid (tr_id row) = Some row' \<and>
    (if interruptible sid tid row
     then stopped (tid \<noteq> None) row row' \<and>
       (is_active_turn_status (tr_status row) \<longrightarrow> asked_of_turn d' (tr_id row) (tr_active_attempt_id row) CInterrupt [])
     else row' = row)"
proof -
  let ?rows = "filter (interruptible sid tid) (db_turns d)"
  obtain events d1 stored where each: "interrupt_each desk now (tid \<noteq> None) ?rows d = Inr (events, d1)"
    and app: "append_events now sid (Some cmd) events d1 = Inr (stored, d')"
    using run by (auto simp: interrupt_in_def Let_def split: sum.splits)
  from interrupt_each_stops [OF each] have ev: "events = concat (map (stop_said desk now (tid \<noteq> None) d) ?rows)"
    and d1: "d1 = fold (stop_command desk now) ?rows d" by auto
  have same: "db_turns d1 = db_turns d" by (simp add: d1)
  note uk = turn_constraints_unique [OF tc]
  have tr: "turn_row_of d1 sid (tr_id row) = Some row"
    using find_row_unique [OF uk row(1)] row(2) turn_row_of_find [OF uk] turn_row_of_cong [OF same] by simp
  have there: "tr_id row \<in> tr_id ` set (db_turns d)" using row(1) by simp
  let ?said = "said_of d1 sid (tr_id row) events"
  have rows_said: "said_of d1 sid (tr_id row) (stop_said desk now (tid \<noteq> None) d y) = []" if "y \<in> set ?rows" "tr_id y \<noteq> tr_id row" for y
    using stop_said_of [OF _ there, where row = y] fresh that by simp
  have after: "turn_row_of d' sid (tr_id row) = (case fold (write_turn now sid) ?said (Some row) of
      Some r \<Rightarrow> if tr_session_id r = sid then Some r else None | None \<Rightarrow> None)"
    using append_turn_row [OF app, of "tr_id row"] turn_row_of_find [OF turn_constraints_unique [OF append_turn_constraints [OF app]]]
      tc same find_row_unique [OF uk row(1)] by simp
  show ?thesis
  proof (cases "interruptible sid tid row")
    case True
    then have "row \<in> set ?rows" using row(1) by simp
    then have said: "?said = said_of d1 sid (tr_id row) (stop_said desk now (tid \<noteq> None) d row)"
      unfolding ev said_of_concat using rows_said by (intro concat_one [OF _ distinct_keys_filter [OF uk]]) auto
    have fr: "fresh_steers desk d row now" using fresh row(1) True by blast
    have "stopped (tid \<noteq> None) row (case fold (write_turn now sid) ?said (Some row) of Some r \<Rightarrow> r | None \<Rightarrow> row)"
      unfolding said stop_said_of [OF fr there]
      using tr row(2) by (auto simp: stopped_def current_turn_def write_turn_def update_turn_row_def stop_requested_def interrupted_turn_def turn_from_row_def
        split: option.splits)
    moreover have "\<exists>r. fold (write_turn now sid) ?said (Some row) = Some r \<and> tr_session_id r = sid"
      unfolding said stop_said_of [OF fr there] using tr row(2)
      by (auto simp: current_turn_def write_turn_def stop_requested_def interrupted_turn_def turn_from_row_def)
    ultimately show ?thesis using after True asked_append [OF app] stop_commands_asked [OF \<open>row \<in> set ?rows\<close>] d1 by auto
  next
    case False
    have "?said = []" unfolding ev said_of_concat using rows_said False find_row_unique [OF uk] row(1)
      by (auto simp: filter_empty_conv) (metis mem_Collect_eq option.inject rows_said set_filter)
    with after row(2) False show ?thesis by simp
  qed
qed

section \<open>Rollbacks\<close>

lemma rollback_runs:
  assumes "rollback_in desk now sid tid undo cmd d = Inr ((ids, source), d')"
  obtains target planned rest stored where "rollback_plan now sid tid d = Inr (target, planned)"
    "ids = map tr_id (filter (\<lambda>r. tr_id r \<in> set undo) planned)" "length ids = length undo" "turns_said rest = []"
    "append_events now sid (Some cmd) (map (\<lambda>r. TurnChanged ((turn_from_row now r)\<lparr>t_status := RolledBack, t_updated_at := now\<rparr>))
       (filter (\<lambda>r. tr_id r \<in> set undo) planned) @ rest) d = Inr (stored, d')"
proof -
  obtain target planned where plan: "rollback_plan now sid tid d = Inr (target, planned)"
    using assms by (auto simp: rollback_in_def split: sum.splits)
  have threads: "turns_said (map (\<lambda>p. ProviderThreadChanged (f p)) ps) = []" for f and ps :: "provider_thread list" by (induction ps) simp_all
  let ?point = "fork_point (settled_before sid target d) d"
  let ?rest = "map (\<lambda>p. ProviderThreadChanged ((provider_thread_from_row p)\<lparr>p_status := ThreadClosed, p_updated_at := now\<rparr>))
      (filter (\<lambda>p. p_session_id p = sid \<and> p_status p = ThreadActive) (db_threads d)) @
    (case ?point of None \<Rightarrow> [] | Some (thread, source) \<Rightarrow> [ProviderThreadChanged (forked_thread now sid (dk_turn_id desk) thread source)])"
  have quiet: "turns_said ?rest = []" by (simp add: threads split: option.splits)
  have "ids = map tr_id (filter (\<lambda>r. tr_id r \<in> set undo) planned) \<and> length ids = length undo \<and>
    (\<exists>stored. append_events now sid (Some cmd) (map (\<lambda>r. TurnChanged ((turn_from_row now r)\<lparr>t_status := RolledBack, t_updated_at := now\<rparr>))
       (filter (\<lambda>r. tr_id r \<in> set undo) planned) @ ?rest) d = Inr (stored, d'))"
    using assms plan by (auto simp: rollback_in_def rejected_def Let_def split: sum.splits if_splits)
  with that [OF plan _ _ quiet] show thesis by blast
qed

lemma plan_rows:
  assumes "rollback_plan now sid tid d = Inr (target, planned)"
  shows "active_turn_row d sid = None" "\<exists>row. turn_row_of d sid tid = Some row \<and> target = turn_from_row now row"
    "set planned = {r \<in> set (db_turns d). tr_session_id r = sid \<and> t_ordinal target \<le> tr_ordinal r \<and> tr_status r \<noteq> RolledBack}"
    "unique_keys tr_id (db_turns d) \<Longrightarrow> distinct (map tr_id planned)"
proof -
  show "active_turn_row d sid = None" "\<exists>row. turn_row_of d sid tid = Some row \<and> target = turn_from_row now row"
    "set planned = {r \<in> set (db_turns d). tr_session_id r = sid \<and> t_ordinal target \<le> tr_ordinal r \<and> tr_status r \<noteq> RolledBack}"
    using assms by (auto simp: rollback_plan_def rejected_def no_such_turn_def Let_def split: if_splits option.splits)
  assume u: "unique_keys tr_id (db_turns d)"
  have "planned = sort_key tr_ordinal (filter (\<lambda>r. tr_session_id r = sid \<and> t_ordinal target \<le> tr_ordinal r \<and> tr_status r \<noteq> RolledBack) (db_turns d))"
    using assms by (auto simp: rollback_plan_def rejected_def no_such_turn_def Let_def split: if_splits option.splits)
  moreover have "distinct (map tr_id (sort_key f xs))" if "distinct (map tr_id xs)" for f :: "turn_row \<Rightarrow> nat" and xs
    using that by (simp add: distinct_map)
  ultimately show "distinct (map tr_id planned)" using distinct_keys_filter [OF u] by simp
qed

text \<open>Property C25: a rollback rolls back exactly the turns whose files went back. No turn works while it
  happens; each of them is at or after the turn asked for and ends rolled back; and every other turn of the
  chat, a message sent meanwhile among them, is as it was.\<close>

theorem rollback_exact:
  assumes run: "rollback_in desk now sid tid undo cmd d = Inr ((ids, source), d')" and tc: "turn_constraints (db_turns d)"
    and undo: "distinct undo"
  shows "set ids = set undo \<and> active_turn_row d sid = None \<and>
    (\<exists>target. turn_row_of d sid tid = Some target \<and>
      (\<forall>row \<in> set (db_turns d). tr_session_id row = sid \<longrightarrow>
        (\<exists>row'. turn_row_of d' sid (tr_id row) = Some row' \<and>
          (if tr_id row \<in> set undo then tr_ordinal target \<le> tr_ordinal row \<and> tr_status row' = RolledBack else row' = row))))"
proof -
  obtain target planned rest stored where plan: "rollback_plan now sid tid d = Inr (target, planned)"
    and ids: "ids = map tr_id (filter (\<lambda>r. tr_id r \<in> set undo) planned)" and len: "length ids = length undo" and rest: "turns_said rest = []"
    and app: "append_events now sid (Some cmd) (map (\<lambda>r. TurnChanged ((turn_from_row now r)\<lparr>t_status := RolledBack, t_updated_at := now\<rparr>))
       (filter (\<lambda>r. tr_id r \<in> set undo) planned) @ rest) d = Inr (stored, d')"
    by (rule rollback_runs [OF run])
  note uk = turn_constraints_unique [OF tc] and rows = plan_rows [OF plan]
  let ?later = "filter (\<lambda>r. tr_id r \<in> set undo) planned"
  have dist: "distinct (map tr_id ?later)" using rows(4) [OF uk] by (simp add: distinct_map_filter)
  have "set ids \<subseteq> set undo" using ids by auto
  moreover have "card (set ids) = card (set undo)" by (metis dist distinct_card ids len undo)
  ultimately have all: "set ids = set undo" by (simp add: card_subset_eq)
  obtain trow where trow: "turn_row_of d sid tid = Some trow" "target = turn_from_row now trow" using rows(2) by blast
  have step: "\<exists>row'. turn_row_of d' sid (tr_id row) = Some row' \<and>
      (if tr_id row \<in> set undo then tr_ordinal trow \<le> tr_ordinal row \<and> tr_status row' = RolledBack else row' = row)"
    if row: "row \<in> set (db_turns d)" "tr_session_id row = sid" for row
  proof -
    let ?t = "\<lambda>r. (turn_from_row now r)\<lparr>t_status := RolledBack, t_updated_at := now\<rparr>"
    let ?said = "said_of d sid (tr_id row) (map (\<lambda>r. TurnChanged (?t r)) ?later @ rest)"
    have "said_of d sid (tr_id row) rest = []" by (rule said_of_none) (use rest in \<open>auto simp: in_turns_said [symmetric]\<close>)
    then have "?said = concat (map (\<lambda>r. said_of d sid (tr_id row) [TurnChanged (?t r)]) ?later)"
      using said_of_concat [of d sid "tr_id row" "\<lambda>r. [TurnChanged (?t r)]" ?later] by simp
    also have "\<dots> = concat (map (\<lambda>r. if tr_id r = tr_id row then [?t r] else []) ?later)"
      by (intro arg_cong [of _ _ concat] map_cong refl) (simp add: current_turn_def turn_from_row_def split: option.splits)
    finally have said: "?said = concat (map (\<lambda>r. if tr_id r = tr_id row then [?t r] else []) ?later)" .
    have after: "turn_row_of d' sid (tr_id row) = (case fold (write_turn now sid) ?said (Some row) of
        Some r \<Rightarrow> if tr_session_id r = sid then Some r else None | None \<Rightarrow> None)"
      using append_turn_row [OF app, of "tr_id row"] turn_row_of_find [OF turn_constraints_unique [OF append_turn_constraints [OF app]]]
        tc find_row_unique [OF uk row(1)] by simp
    show ?thesis
    proof (cases "tr_id row \<in> set undo")
      case True
      with all have "tr_id row \<in> set ids" by simp
      then obtain r where r: "r \<in> set planned" "tr_id r = tr_id row" unfolding ids by auto
      with rows(3) row find_row_unique [OF uk] have "r = row" by (metis (mono_tags, lifting) mem_Collect_eq option.inject)
      with r True have mem: "row \<in> set ?later" by simp
      then have "?said = [?t row]" unfolding said by (subst concat_one [OF mem dist]) auto
      moreover have "tr_ordinal trow \<le> tr_ordinal row" using rows(3) mem trow(2) by (auto simp: turn_from_row_def)
      ultimately show ?thesis using after True row(2) by (simp add: write_turn_def) (simp add: update_turn_row_def)
    next
      case False
      then have "?said = []" unfolding said by (auto simp: filter_empty_conv)
      with after row(2) False show ?thesis by simp
    qed
  qed
  from all rows(1) trow(1) step show ?thesis by blast
qed

text \<open>A rollback whose files cannot go back changes no turn. The person gets the reason as
  the command's receipt, the turns are those the wait left, and the chat's queue runs again.\<close>

theorem refused_rewind_rolls_nothing_back:
  assumes new: "receipt d sid (person_command_id (ca_user by') cid) = None" and held: "begin_rewind now sid d = Inr held"
    and refused: "rewind_files restore now sid tid held = Inl (CommandRejected code message status)"
    and none: "receipt (meanwhile held) sid (person_command_id (ca_user by') cid) = None" and there: "session_row_of (meanwhile held) sid \<noteq> None"
  shows "\<exists>r d'. rollback_command desk now by' sid cid restore meanwhile tid d = (Inr r, d') \<and> cr_status r = Rejected \<and>
    cr_error r = Some (code, message) \<and> db_turns d' = db_turns (meanwhile held) \<and> db_events d' = db_events (meanwhile held) \<and>
    (\<forall>row \<in> set (db_sessions d'). sr_id row = sid \<longrightarrow> sr_rewind_until row = None)"
proof -
  let ?cmd = "person_command_id (ca_user by') cid"
  obtain r d2 where rec: "record_rejection sid ?cmd (command_type (RollbackCmd tid)) (Some (ca_user by')) (code, message) (meanwhile held) = (r, d2)"
    by (metis surj_pair)
  note eff = record_rejection_effect [OF none rec]
  have "person_command desk now (by'\<lparr>ca_undo := []\<rparr>) sid cid (Some (CommandRejected code message status)) (RollbackCmd tid) (meanwhile held) = Inr (r, d2)"
    using none rec there unfolding person_command_def command_def Let_def by auto
  then have "rollback_command desk now by' sid cid restore meanwhile tid d = (Inr r, end_rewind sid d2)"
    using new held refused by (simp add: rollback_command_def Let_def)
  moreover have "db_turns (end_rewind sid d2) = db_turns (meanwhile held)" "db_events (end_rewind sid d2) = db_events (meanwhile held)"
    by (simp_all add: end_rewind_def eff(4))
  moreover have "\<forall>row \<in> set (db_sessions (end_rewind sid d2)). sr_id row = sid \<longrightarrow> sr_rewind_until row = None"
  proof (intro ballI impI)
    fix row assume "row \<in> set (db_sessions (end_rewind sid d2))" and id: "sr_id row = sid"
    moreover have "db_sessions (end_rewind sid d2) = map (\<lambda>r. if sr_id r = sid then r\<lparr>sr_rewind_until := None\<rparr> else r) (db_sessions d2)"
      by (simp add: end_rewind_def update_where_def)
    ultimately obtain r where r: "row = (if sr_id r = sid then r\<lparr>sr_rewind_until := None\<rparr> else r)"
      by (simp only: set_map image_iff) blast
    with id show "sr_rewind_until row = None" by (cases "sr_id r = sid") simp_all
  qed
  ultimately show ?thesis using eff(2,3) by blast
qed

section \<open>A person at a chat\<close>

definition ex_caller :: caller where
  "ex_caller = \<lparr>ca_user = ''u'', ca_may_change = True, ca_latest = None, ca_undo = []\<rparr>"

definition ex_sent :: "string \<Rightarrow> session_command \<Rightarrow> sent" where
  "ex_sent cid c = \<lparr>sc_desk = ex_desk, sc_at = 5, sc_caller = ex_caller, sc_session_id = ''s'', sc_command_id = cid, sc_before = None, sc_command = c\<rparr>"

definition ex_yes :: request_response where "ex_yes = ApprovalResponse True False None"

definition ex_settled_db :: db where
  "ex_settled_db = ex_running_db [(ex_turn_row ''t'' 1 Completed)\<lparr>tr_checkpoint_before := Some ''c''\<rparr>, ex_turn_row ''n'' 2 Queued]"

lemmas command_eval = person_command_def command_def run_command_def run_session_command_def handle_command_def respond_in_def refuses_answer_def may_answer_def
  response_kind_def owners_words_def owner_only_runner_def with_pills_def answers_live_def answer_commands_def answered_item_def
  unblocked_turn_def answer_delivery_def resolved_request_def agent_response_def response_json_def rejected_def person_command_id_def command_type_def
  interrupt_in_def interruptible_def rollback_in_def rollback_plan_def settled_before_def fork_point_def receipt_def latest_turn_def
  rewind_files_def begin_rewind_def expected_head_def non_blank_def

lemma ex_yes_taken:
  "\<exists>res d'. respond_in ex_desk 5 ''u'' True ex_session ''a'' ex_yes ''c'' ex_waiting_db = Inr (res, d')"
  by (simp add: command_eval ex_yes_def deliver_eval ex_chat log_eval)

lemma ex_sent_yes: "\<exists>r d'. run_sent (ex_sent ''1'' (RespondCmd ''a'' ex_yes)) ex_waiting_db = Inr (r, d') \<and> cr_status r = Accepted"
  by (simp add: run_sent_def ex_sent_def ex_caller_def command_eval ex_yes_def deliver_eval ex_chat log_eval)

lemma ex_stop: "\<exists>res d'. interrupt_in ex_desk 5 ''s'' None ''c'' ex_waiting_db = Inr (res, d')"
  by (simp add: command_eval deliver_eval ex_chat log_eval)

lemma ex_undone: "\<exists>ids src d'. rollback_in ex_desk 5 ''s'' ''t'' [''t''] ''c'' ex_settled_db = Inr ((ids, src), d')"
  by (simp add: command_eval ex_settled_db_def deliver_eval ex_chat log_eval)

lemma ex_held: "\<exists>held. begin_rewind 5 ''s'' ex_settled_db = Inr held \<and> receipt held ''s'' ''user:u:1'' = None \<and> session_row_of held ''s'' \<noteq> None \<and>
   rewind_files (\<lambda>_ _. Some ''dirty'') 5 ''s'' ''t'' held = Inl (CommandRejected ''workspace_not_restored'' ''dirty'' 409)"
  by (simp add: command_eval ex_settled_db_def deliver_eval ex_chat log_eval REWIND_MS_def js_trim_def js_space_def)

lemma ex_command_ok: "find_row rr_key (sr_id ex_session, ''a'') (db_requests ex_waiting_db) = Some (ex_asked ''a'' KApproval)"
  "answered_live 5 ex_waiting_db (request_from_row (ex_asked ''a'' KApproval))"
  "r_runner_key (request_from_row (ex_asked ''a'' KApproval)) = Some ''key''"
  "find_row tr_id ''t'' (db_turns ex_waiting_db) = Some (ex_turn_row ''t'' 1 Waiting)" "rr_turn_id (ex_asked ''a'' KApproval) = Some ''t''"
  "tr_session_id (ex_turn_row ''t'' 1 Waiting) = sr_id ex_session" "dk_turn_id ex_desk \<noteq> ''t''"
  "\<forall>r \<in> set (db_turns ex_waiting_db). interruptible ''s'' None r \<longrightarrow> fresh_steers ex_desk ex_waiting_db r 5"
  "ex_turn_row ''t'' 1 Waiting \<in> set (db_turns ex_waiting_db)" "interruptible ''s'' None (ex_turn_row ''t'' 1 Waiting)"
  "turn_constraints (db_turns ex_settled_db)" "ex_turn_row ''n'' 2 Queued \<in> set (db_turns ex_settled_db)"
  "still_waits ex_waiting_db ''t'' ''a''"
  by (simp_all add: ex_chat fixtures sr_id_def rr_key_def new_request_row_def answered_live_def answers_live_def turn_asking_def request_from_row_def
    turn_from_row_def fresh_steers_def pending_steers_def steered_item_ids_def interruptible_def ex_settled_db_def turn_constraints_def
    still_waits_def waiting_requests_def)

theorem person_command_once_witness:
  "\<exists>r d'. run_sent (ex_sent ''1'' (RespondCmd ''a'' ex_yes)) ex_waiting_db = Inr (r, d') \<and>
     run_sent (ex_sent ''1'' (InterruptCmd None)) (run_all_sent [ex_sent ''2'' (InterruptCmd None)] d') =
       Inr (r, run_all_sent [ex_sent ''2'' (InterruptCmd None)] d')"
proof -
  obtain r d' where run: "run_sent (ex_sent ''1'' (RespondCmd ''a'' ex_yes)) ex_waiting_db = Inr (r, d')" using ex_sent_yes by blast
  have "sent_key (ex_sent ''1'' (InterruptCmd None)) = sent_key (ex_sent ''1'' (RespondCmd ''a'' ex_yes))"
    by (simp add: sent_key_def ex_sent_def)
  from person_command_once [OF run this] run show ?thesis by blast
qed

theorem answered_once_witness:
  "\<exists>res d' row. respond_in ex_desk 5 ''u'' True ex_session ''a'' ex_yes ''c'' ex_waiting_db = Inr (res, d') \<and>
     find_row rr_key (''s'', ''a'') (db_requests d') = Some row \<and> rr_status row = RResolved"
  using ex_yes_taken answered_once [of ex_desk 5 "''u''" True ex_session "''a''" ex_yes "''c''" ex_waiting_db] ex_chat_ok(6) by metis

theorem answer_reaches_agent_witness:
  "\<exists>res d' trow'. respond_in ex_desk 5 ''u'' True ex_session ''a'' ex_yes ''c'' ex_waiting_db = Inr (res, d') \<and>
     find_row tr_id ''t'' (db_turns d') = Some trow' \<and> tr_status trow' = Waiting \<and> open_commands ''t'' d' \<noteq> []"
proof -
  obtain res d' where run: "respond_in ex_desk 5 ''u'' True ex_session ''a'' ex_yes ''c'' ex_waiting_db = Inr (res, d')"
    using ex_yes_taken by blast
  obtain trow' a p where trow': "find_row tr_id ''t'' (db_turns d') = Some trow'" "tr_status trow' = Waiting" "asked_of_turn d' ''t'' a CRespond p"
    using answer_reaches_agent [OF run ex_command_ok(1-3) _ ex_command_ok(4-6) ex_chat_ok(1) ex_command_ok(7)] ex_chat_ok(8) ex_command_ok(13)
    by auto
  then have "open_commands ''t'' d' \<noteq> []" by (auto simp: asked_of_turn_def)
  with run trow' show ?thesis by blast
qed

theorem stop_reaches_all_witness:
  "\<exists>res d' row'. interrupt_in ex_desk 5 ''s'' None ''c'' ex_waiting_db = Inr (res, d') \<and> turn_row_of d' ''s'' ''t'' = Some row' \<and>
     tr_cancellation_requested_at row' \<noteq> None"
proof -
  obtain res d' where run: "interrupt_in ex_desk 5 ''s'' None ''c'' ex_waiting_db = Inr (res, d')" using ex_stop by blast
  from stop_reaches_all [OF run ex_chat_ok(1) ex_command_ok(8,9)] ex_command_ok(6,10) ex_chat_ok(6,8,9)
  have "\<exists>row'. turn_row_of d' ''s'' ''t'' = Some row' \<and> stopped False (ex_turn_row ''t'' 1 Waiting) row'" by auto
  with run ex_chat_ok(8) show ?thesis by (auto simp: stopped_def)
qed

theorem rollback_exact_witness:
  "\<exists>ids src d' row'. rollback_in ex_desk 5 ''s'' ''t'' [''t''] ''c'' ex_settled_db = Inr ((ids, src), d') \<and>
     turn_row_of d' ''s'' ''n'' = Some row' \<and> row' = ex_turn_row ''n'' 2 Queued \<and> set ids = {''t''}"
proof -
  obtain ids src d' where run: "rollback_in ex_desk 5 ''s'' ''t'' [''t''] ''c'' ex_settled_db = Inr ((ids, src), d')" using ex_undone by blast
  have row: "tr_session_id (ex_turn_row ''n'' 2 Queued) = ''s''" "tr_id (ex_turn_row ''n'' 2 Queued) = ''n''" by (simp_all add: fixtures)
  have "distinct [''t'']" by simp
  note done' = rollback_exact [OF run ex_command_ok(11) this]
  from done' [THEN conjunct2, THEN conjunct2] obtain target where "turn_row_of ex_settled_db ''s'' ''t'' = Some target \<and>
    (\<forall>row \<in> set (db_turns ex_settled_db). tr_session_id row = ''s'' \<longrightarrow> (\<exists>row'. turn_row_of d' ''s'' (tr_id row) = Some row' \<and>
      (if tr_id row \<in> set [''t''] then tr_ordinal target \<le> tr_ordinal row \<and> tr_status row' = RolledBack else row' = row)))" by (rule exE)
  note all = this [THEN conjunct2]
  from bspec [OF all ex_command_ok(12)] row have "turn_row_of d' ''s'' ''n'' = Some (ex_turn_row ''n'' 2 Queued)" by simp
  with run done' [THEN conjunct1] show ?thesis by (simp only: list.set) blast
qed

theorem refused_rewind_rolls_nothing_back_witness:
  "\<exists>r d'. rollback_command ex_desk 5 ex_caller ''s'' ''1'' (\<lambda>_ _. Some ''dirty'') id ''t'' ex_settled_db = (Inr r, d') \<and>
     cr_error r = Some (''workspace_not_restored'', ''dirty'')"
proof -
  obtain held where held: "begin_rewind 5 ''s'' ex_settled_db = Inr held" "receipt held ''s'' ''user:u:1'' = None" "session_row_of held ''s'' \<noteq> None"
    "rewind_files (\<lambda>_ _. Some ''dirty'') 5 ''s'' ''t'' held = Inl (CommandRejected ''workspace_not_restored'' ''dirty'' 409)"
    using ex_held by blast
  have cmd: "person_command_id (ca_user ex_caller) ''1'' = ''user:u:1''" by (simp add: person_command_id_def ex_caller_def)
  have new: "receipt ex_settled_db ''s'' (person_command_id (ca_user ex_caller) ''1'') = None"
    by (simp add: receipt_def ex_settled_db_def ex_running_db_def fixtures)
  have none: "receipt (id held) ''s'' (person_command_id (ca_user ex_caller) ''1'') = None" "session_row_of (id held) ''s'' \<noteq> None"
    using held(2,3) cmd by simp_all
  from refused_rewind_rolls_nothing_back [where meanwhile = id, OF new held(1,4) none(1) none(2), of ex_desk] show ?thesis by blast
qed

end
