(* ===== verification/Run_Tables.thy ===== *)
theory Run_Tables
  imports Job_Safety
begin

text \<open>
  The tables workflow runs live in, as \<open>packages/core/src/services/run-coordinator.ts\<close> reads and writes
  them: runs, where each one is in its plan, the attempts at its steps, pauses, signals, and beside them
  the jobs, invocations, allocations and batch rows a transition touches. The \<open>projects\<close> table appears as
  the tenant of each project. A plan is the list of its steps; \<open>sd_unit\<close> is the step as JSON, which the
  policies are read from.
\<close>

section \<open>Rows\<close>

datatype run_status = RunPending | RunRunning | RunWaiting | RunPaused | RunCanceling | RunCompleted | RunFailed | RunCanceled

datatype run_phase = ExecutePhase | BoundaryPhase | SourcePhase | ProcessPhase | SinkPhase | PausePhase | ChildPhase

datatype step_status = StepPending | StepRunning | StepWaiting | StepCompleted | StepFailed | StepCanceled

datatype executor = ByBoundary | ByBatch

datatype pause_status = PauseOpen | PauseResumed | PauseTimedOut | PauseCanceled

datatype signal_status = SignalBuffered | SignalResumed | SignalDiscarded

record run_row =
  ru_id :: ident
  ru_project_id :: ident
  ru_workflow_name :: string
  ru_status :: run_status
  ru_phase :: run_phase
  ru_input :: "json option"
  ru_result :: "json option"
  ru_error :: "string option"
  ru_cancel_requested_at :: "instant option"
  ru_cancel_reason :: "string option"
  ru_parent_run_id :: "ident option"
  ru_parent_attempt_id :: "ident option"
  ru_allocation_id :: "ident option"
  ru_environment_name :: "string option"
  ru_correlation_key :: "string option"
  ru_provenance :: json_object
  ru_deployment_artifact_id :: "ident option"
  ru_session_artifact_id :: "ident option"
  ru_external_user_id :: "ident option"
  ru_caller_scope :: "json option"
  ru_caller_execution_scope :: "json option"
  ru_caller_connection_scope :: "json option"
  ru_caller_permissions :: "json option"
  ru_started_at :: "instant option"
  ru_completed_at :: "instant option"
  ru_updated_at :: instant

record step_descriptor =
  sd_executor :: executor
  sd_index :: nat
  sd_node_id :: string
  sd_unit :: json

record run_state_row =
  rs_run_id :: ident
  rs_plan :: "step_descriptor list"
  rs_step_index :: nat
  rs_input :: json
  rs_active_attempt :: "ident option"
  rs_prev_status :: "run_status option"
  rs_prev_phase :: "run_phase option"
  rs_updated_at :: instant

record step_attempt_row =
  sa_id :: ident
  sa_run_id :: ident
  sa_step_index :: nat
  sa_node_id :: string
  sa_executor :: executor
  sa_attempt :: nat
  sa_status :: step_status
  sa_input :: json
  sa_output :: "json option"
  sa_error :: "string option"
  sa_policy :: json
  sa_call_state :: "json option"
  sa_started_at :: "instant option"
  sa_completed_at :: "instant option"
  sa_updated_at :: instant

record pause_row =
  pz_id :: ident
  pz_run_id :: ident
  pz_attempt_id :: ident
  pz_status :: pause_status
  pz_state :: "json option"
  pz_timeout_at :: "instant option"
  pz_signal_name :: "string option"
  pz_resume_value :: "json option"
  pz_resume_key :: "string option"
  pz_resume_hash :: "string option"
  pz_resolved_at :: "instant option"

record signal_row =
  sg_id :: ident
  sg_sequence :: nat
  sg_run_id :: ident
  sg_name :: string
  sg_key :: string
  sg_hash :: string
  sg_value :: "json option"
  sg_status :: signal_status
  sg_pause_id :: "ident option"
  sg_resolved_at :: "instant option"

record run_invocation_row = invocation_row +
  ai_invocation_id :: ident
  ai_run_id :: ident
  ai_attempt_id :: "ident option"
  ai_created_at :: instant

record run_allocation_row = allocation_row +
  ra_root_workload_id :: ident
  ra_released_at :: "instant option"

record grant_row =
  cg_allocation_id :: ident
  cg_revoked_at :: "instant option"

text \<open>A row of a batch table, of what the coordinator reads and writes of it.\<close>

datatype batch_status = BatchPending | BatchRunning | BatchWaiting | BatchCanceled | BatchUnresolved | BatchFailed | BatchOther

record batch_row =
  bt_run_id :: ident
  bt_attempt_id :: ident
  bt_status :: batch_status
  bt_error :: "string option"
  bt_completed_at :: "instant option"
  bt_updated_at :: instant

record batch_tables =
  bd_states :: "(ident \<times> ident \<times> json) list"
  bd_items :: "batch_row list"
  bd_invocations :: "batch_row list"
  bd_members :: "batch_row list"
  bd_item_steps :: "batch_row list"
  bd_sink_chunks :: "batch_row list"

record run_db =
  rd_tenant_of :: "ident \<Rightarrow> ident"
  rd_runs :: "run_row list"
  rd_states :: "run_state_row list"
  rd_attempts :: "step_attempt_row list"
  rd_pauses :: "pause_row list"
  rd_signals :: "signal_row list"
  rd_sequence :: nat
  rd_jobs :: "job_row list"
  rd_invocations :: "run_invocation_row list"
  rd_allocations :: "run_allocation_row list"
  rd_waits :: "ident list"
  rd_grants :: "grant_row list"
  rd_nodes :: "worker_node_row list"
  rd_policies :: "policy_row list"
  rd_requirements :: "requirement_row list"
  rd_batch :: batch_tables

section \<open>Statuses\<close>

definition ACTIVE_RUN_STATUSES :: "run_status list" where
  "ACTIVE_RUN_STATUSES = [RunPending, RunRunning, RunWaiting]"

definition TERMINAL_RUN_STATUSES :: "run_status list" where
  "TERMINAL_RUN_STATUSES = [RunCompleted, RunFailed, RunCanceled]"

definition is_active_run_status :: "run_status \<Rightarrow> bool" where
  "is_active_run_status s \<longleftrightarrow> s \<in> set ACTIVE_RUN_STATUSES"

definition is_terminal_run_status :: "run_status \<Rightarrow> bool" where
  "is_terminal_run_status s \<longleftrightarrow> s \<in> set TERMINAL_RUN_STATUSES"

definition live_step :: "step_status \<Rightarrow> bool" where
  "live_step s \<longleftrightarrow> s \<in> {StepPending, StepRunning, StepWaiting}"

lemma live_step_simps [simp]:
  "live_step StepPending" "live_step StepRunning" "live_step StepWaiting"
  "\<not> live_step StepCompleted" "\<not> live_step StepFailed" "\<not> live_step StepCanceled"
  by (simp_all add: live_step_def)

lemma active_status_simps [simp]:
  "is_active_run_status RunPending" "is_active_run_status RunRunning" "is_active_run_status RunWaiting"
  "\<not> is_active_run_status RunPaused" "\<not> is_active_run_status RunCanceling" "\<not> is_active_run_status RunCompleted"
  "\<not> is_active_run_status RunFailed" "\<not> is_active_run_status RunCanceled"
  by (simp_all add: is_active_run_status_def ACTIVE_RUN_STATUSES_def)

lemma terminal_status_simps [simp]:
  "\<not> is_terminal_run_status RunPending" "\<not> is_terminal_run_status RunRunning" "\<not> is_terminal_run_status RunWaiting"
  "\<not> is_terminal_run_status RunPaused" "\<not> is_terminal_run_status RunCanceling" "is_terminal_run_status RunCompleted"
  "is_terminal_run_status RunFailed" "is_terminal_run_status RunCanceled"
  by (simp_all add: is_terminal_run_status_def TERMINAL_RUN_STATUSES_def)

lemma active_not_terminal: "is_active_run_status s \<Longrightarrow> \<not> is_terminal_run_status s"
  by (cases s) auto

fun run_status_text :: "run_status \<Rightarrow> string" where
  "run_status_text RunPending = ''pending''"
| "run_status_text RunRunning = ''running''"
| "run_status_text RunWaiting = ''waiting''"
| "run_status_text RunPaused = ''paused''"
| "run_status_text RunCanceling = ''canceling''"
| "run_status_text RunCompleted = ''completed''"
| "run_status_text RunFailed = ''failed''"
| "run_status_text RunCanceled = ''canceled''"

section \<open>The queue's view of the tables\<close>

definition queue_view :: "run_db \<Rightarrow> jobs_db" where
  "queue_view d =
     \<lparr>jd_jobs = rd_jobs d, jd_invocations = map invocation_row.truncate (rd_invocations d),
      jd_runs = map (\<lambda>r. \<lparr>wr_id = ru_id r, wr_allocation_id = ru_allocation_id r, wr_status = run_status_text (ru_status r)\<rparr>) (rd_runs d),
      jd_requirements = rd_requirements d, jd_allocations = map allocation_row.truncate (rd_allocations d),
      jd_nodes = rd_nodes d, jd_policies = rd_policies d\<rparr>"

section \<open>Transactions\<close>

datatype run_error =
    EmptyPlan | RunNotFound ident | PauseNotFound ident | ResumeConflict string
  | SignalNotFound string string string | SignalInvalid string | SignalLimit string
  | UnsupportedDuration string | MissingStep string | MissingArtifact | InvalidTimeoutJob | NoLeaseToken
  | InvalidSignalReceipt | DeferredUntil instant | UniqueViolated | QueueFailed job_error

text \<open>
  What a transaction draws from outside: the database's clock, this process's clock, and the UUIDs it
  makes up. They are told apart by what they are drawn for: an attempt's by its run, step and number, a
  job's by its attempt or pause; a transaction makes one pause, signal or child run at most.
\<close>

record run_env =
  re_now :: instant
  re_host :: instant
  re_attempt_id :: "ident \<Rightarrow> nat \<Rightarrow> nat \<Rightarrow> ident"
  re_job_id :: "ident \<Rightarrow> ident"
  re_pause_id :: ident
  re_signal_id :: ident
  re_child_id :: ident

definition bind_run :: "run_error + 'a \<Rightarrow> ('a \<Rightarrow> run_error + 'b) \<Rightarrow> run_error + 'b" where
  "bind_run m f = (case m of Inl e \<Rightarrow> Inl e | Inr x \<Rightarrow> f x)"

lemma bind_run_simps [simp]: "bind_run (Inl e) f = Inl e" "bind_run (Inr x) f = f x"
  by (simp_all add: bind_run_def)

lemma bind_run_Inr: "bind_run m f = Inr y \<longleftrightarrow> (\<exists>x. m = Inr x \<and> f x = Inr y)"
  by (cases m) auto

section \<open>Statements\<close>

text \<open>
  Every statement of the coordinator on \<open>workflow_runs\<close> sets the status, so the trigger of migration 072 runs for each row it
  writes: a run that ends or is being canceled discards the signals it has not taken.
\<close>

definition discards_signals :: "run_status \<Rightarrow> bool" where
  "discards_signals s \<longleftrightarrow> s \<in> {RunCanceling, RunCompleted, RunFailed, RunCanceled}"

definition discard_workflow_signals :: "instant \<Rightarrow> ident list \<Rightarrow> run_db \<Rightarrow> run_db" where
  "discard_workflow_signals now ids d =
     d\<lparr>rd_signals := update_where (\<lambda>s. sg_run_id s \<in> set ids \<and> sg_status s = SignalBuffered)
        (\<lambda>s. s\<lparr>sg_status := SignalDiscarded, sg_value := None, sg_resolved_at := Some now\<rparr>) (rd_signals d)\<rparr>"

definition update_runs :: "instant \<Rightarrow> (run_row \<Rightarrow> bool) \<Rightarrow> (run_row \<Rightarrow> run_row) \<Rightarrow> run_db \<Rightarrow> run_row list \<times> run_db" where
  "update_runs now p f d =
     (let written = map f (filter p (rd_runs d)) in
      (written, discard_workflow_signals now (map ru_id (filter (\<lambda>r. discards_signals (ru_status r)) written))
                  (d\<lparr>rd_runs := update_where p f (rd_runs d)\<rparr>)))"

definition update_attempts :: "(step_attempt_row \<Rightarrow> bool) \<Rightarrow> (step_attempt_row \<Rightarrow> step_attempt_row) \<Rightarrow> run_db \<Rightarrow> run_db" where
  "update_attempts p f d = d\<lparr>rd_attempts := update_where p f (rd_attempts d)\<rparr>"

definition update_states :: "(run_state_row \<Rightarrow> bool) \<Rightarrow> (run_state_row \<Rightarrow> run_state_row) \<Rightarrow> run_db \<Rightarrow> run_db" where
  "update_states p f d = d\<lparr>rd_states := update_where p f (rd_states d)\<rparr>"

definition update_pauses :: "(pause_row \<Rightarrow> bool) \<Rightarrow> (pause_row \<Rightarrow> pause_row) \<Rightarrow> run_db \<Rightarrow> run_db" where
  "update_pauses p f d = d\<lparr>rd_pauses := update_where p f (rd_pauses d)\<rparr>"

definition update_jobs :: "(job_row \<Rightarrow> bool) \<Rightarrow> (job_row \<Rightarrow> job_row) \<Rightarrow> run_db \<Rightarrow> run_db" where
  "update_jobs p f d = d\<lparr>rd_jobs := update_where p f (rd_jobs d)\<rparr>"

definition delete_run_invocations :: "(run_invocation_row \<Rightarrow> bool) \<Rightarrow> run_db \<Rightarrow> run_db" where
  "delete_run_invocations p d = d\<lparr>rd_invocations := filter (\<lambda>i. \<not> p i) (rd_invocations d)\<rparr>"

definition lock_run :: "ident \<Rightarrow> run_db \<Rightarrow> run_row option" where
  "lock_run rid d = find_row ru_id rid (rd_runs d)"

definition run_active :: "ident \<Rightarrow> run_db \<Rightarrow> bool" where
  "run_active rid d \<longleftrightarrow> (case lock_run rid d of None \<Rightarrow> False | Some r \<Rightarrow> is_active_run_status (ru_status r))"

text \<open>\<open>ownsJob\<close>: the worker still holds the lease the job was handed out with.\<close>

definition lease_of :: "execution_job \<Rightarrow> job_lease option" where
  "lease_of job = (case (xj_leased_by job, xj_lease_token job) of
     (Some w, Some tok) \<Rightarrow> Some \<lparr>jl_job = xj_id job, jl_worker = w, jl_token = tok, jl_generation = xj_lease_generation job\<rparr>
   | _ \<Rightarrow> None)"

definition owns_job :: "instant \<Rightarrow> execution_job \<Rightarrow> run_db \<Rightarrow> bool" where
  "owns_job now job d = (case lease_of job of None \<Rightarrow> False | Some l \<Rightarrow> \<exists>r \<in> set (rd_jobs d). holds now l r)"

definition may_act :: "instant \<Rightarrow> execution_job option \<Rightarrow> run_db \<Rightarrow> bool" where
  "may_act now job d = (case job of None \<Rightarrow> True | Some j \<Rightarrow> owns_job now j d)"

end
