(* ===== verification/Run_Policy.thy ===== *)
theory Run_Policy
  imports Run_Tables Request_Policy
begin

text \<open>
  What a step's policy says of its retries (\<open>boundaryPolicy\<close>, \<open>batchPolicy\<close>, \<open>retryAt\<close> in
  \<open>run-coordinator.ts\<close>), what a signal's payload must be (\<open>run-signals.ts\<close>), and which permissions a child
  run gets of its parent's (\<open>packages/core/src/identity.ts\<close>). Numbers are exact: what a double would round
  is outside the model. \<open>number\<close> is JavaScript's \<open>Number\<close> of a text.
\<close>

section \<open>Reading JSON\<close>

definition json_record :: "json \<Rightarrow> json_object" where
  "json_record v = (case v of JObj o' \<Rightarrow> o' | _ \<Rightarrow> [])"

definition string_value :: "json option \<Rightarrow> string option" where
  "string_value v = (case v of Some (JStr s) \<Rightarrow> if s = [] then None else Some s | _ \<Rightarrow> None)"

definition member :: "string \<Rightarrow> json \<Rightarrow> json option" where
  "member k v = map_of (json_record v) k"

definition or_null :: "json option \<Rightarrow> json" where
  "or_null v = (case v of None \<Rightarrow> JNull | Some x \<Rightarrow> x)"

definition finite_integer :: "json option \<Rightarrow> int option" where
  "finite_integer v = (case v of
     Some (JNum (Finite q)) \<Rightarrow> if q \<in> \<int> \<and> 0 < q then Some \<lfloor>q\<rfloor> else None
   | _ \<Rightarrow> None)"

section \<open>Constant expressions of the source\<close>

definition expression_number :: "(string \<Rightarrow> js_number) \<Rightarrow> json option \<Rightarrow> rat option" where
  "expression_number number v = (case v of
     Some (JStr s) \<Rightarrow> (case number (js_trim (filter (\<lambda>c. c \<noteq> CHR ''_'') s)) of Finite q \<Rightarrow> Some q | _ \<Rightarrow> None)
   | _ \<Rightarrow> None)"

definition APOSTROPHE :: char where "APOSTROPHE = CHR 0x27"

definition QUOTE :: char where "QUOTE = CHR 0x22"

definition BACKTICK :: char where "BACKTICK = CHR 0x60"

definition quoted_by :: "char \<Rightarrow> string \<Rightarrow> bool" where
  "quoted_by c s \<longleftrightarrow> s \<noteq> [] \<and> hd s = c \<and> last s = c"

definition expression_string :: "json option \<Rightarrow> string option" where
  "expression_string v = (case v of
     Some (JStr s) \<Rightarrow>
       (let t = js_trim s in
        if quoted_by QUOTE t \<or> quoted_by APOSTROPHE t \<or> quoted_by BACKTICK t then Some (butlast (tl t))
        else if t = [] then None else Some t)
   | _ \<Rightarrow> None)"

section \<open>Policies\<close>

definition when_some :: "string \<Rightarrow> ('a \<Rightarrow> json) \<Rightarrow> 'a option \<Rightarrow> json_object" where
  "when_some k f v = (case v of None \<Rightarrow> [] | Some x \<Rightarrow> [(k, f x)])"

definition jnum :: "rat \<Rightarrow> json" where "jnum q = JNum (Finite q)"

definition non_empty :: "string option \<Rightarrow> string option" where
  "non_empty v = (case v of Some [] \<Rightarrow> None | _ \<Rightarrow> v)"

definition non_zero :: "rat option \<Rightarrow> rat option" where
  "non_zero v = (case v of Some q \<Rightarrow> if q = 0 then None else Some q | None \<Rightarrow> None)"

definition boundary_rate_limit :: "(string \<Rightarrow> js_number) \<Rightarrow> json \<Rightarrow> json list" where
  "boundary_rate_limit number entry =
     (case (non_empty (expression_string (member ''globalKeyExpression'' entry)),
            non_zero (expression_number number (member ''capacityExpression'' entry)),
            non_zero (expression_number number (member ''refillRatePerSecondExpression'' entry))) of
        (Some key, Some capacity, Some rate) \<Rightarrow>
          [JObj ([(''globalKey'', JStr key)]
             @ when_some ''partitionKey'' JStr (non_empty (expression_string (member ''partitionKeyExpression'' entry)))
             @ [(''capacity'', jnum capacity), (''refillRatePerSecond'', jnum rate)]
             @ when_some ''cost'' jnum (non_zero (expression_number number (member ''costExpression'' entry))))]
      | _ \<Rightarrow> [])"

definition boundary_rate_limits :: "(string \<Rightarrow> js_number) \<Rightarrow> json option \<Rightarrow> json list" where
  "boundary_rate_limits number v = (case v of Some (JArr es) \<Rightarrow> concat (map (boundary_rate_limit number) es) | _ \<Rightarrow> [])"

definition text_or_null :: "string option \<Rightarrow> json" where
  "text_or_null v = (case v of None \<Rightarrow> JNull | Some s \<Rightarrow> JStr s)"

definition boundary_policy :: "(string \<Rightarrow> js_number) \<Rightarrow> json \<Rightarrow> json" where
  "boundary_policy number u =
     (let retry = or_null (member ''retry'' u); backoff = or_null (member ''backoff'' retry);
          limits = boundary_rate_limits number (member ''rateLimits'' u)
      in JObj ([(''maxAttempts'', jnum (or_default (expression_number number (member ''maxAttemptsExpression'' retry)) 1)),
                (''initial'', text_or_null (expression_string (member ''initialExpression'' backoff))),
                (''maximum'', text_or_null (expression_string (member ''maximumExpression'' backoff))),
                (''multiplier'', jnum (or_default (expression_number number (member ''multiplierExpression'' backoff)) 2))]
               @ (if limits = [] then [] else [(''rateLimits'', JArr limits)])))"

definition batch_policy :: "(string \<Rightarrow> js_number) \<Rightarrow> json \<Rightarrow> json" where
  "batch_policy number u =
     (let policy = or_null (member ''failurePolicy'' u);
          mode = (case expression_string (member ''modeExpression'' policy) of
                    Some m \<Rightarrow> Some m | None \<Rightarrow> string_value (member ''mode'' policy));
          most = (case expression_number number (member ''maxFailuresExpression'' policy) of
                    Some q \<Rightarrow> Some q | None \<Rightarrow> map_option of_int (finite_integer (member ''maxFailures'' policy)))
      in JObj ([(''mode'', JStr (if mode = Some ''fail_fast'' then ''fail_fast'' else ''continue''))]
               @ when_some ''maxFailures'' jnum (non_zero most)))"

definition policy_of :: "(string \<Rightarrow> js_number) \<Rightarrow> step_descriptor \<Rightarrow> json" where
  "policy_of number desc =
     (case sd_executor desc of ByBoundary \<Rightarrow> boundary_policy number (sd_unit desc) | ByBatch \<Rightarrow> batch_policy number (sd_unit desc))"

definition phase_for :: "step_descriptor \<Rightarrow> run_phase" where
  "phase_for desc = (case sd_executor desc of ByBoundary \<Rightarrow> BoundaryPhase | ByBatch \<Rightarrow> SourcePhase)"

section \<open>Durations\<close>

text \<open>
  The regular expression \<open>(digits)(.digits)? spaces unit\<close>, anchored at both ends and blind to the case of
  the unit. \<open>Number\<close> of such digits is the rational they spell.
\<close>

definition is_digit :: "char \<Rightarrow> bool" where
  "is_digit c \<longleftrightarrow> 48 \<le> (of_char c :: nat) \<and> (of_char c :: nat) \<le> 57"

definition digits_value :: "string \<Rightarrow> rat" where
  "digits_value s = fold (\<lambda>c n. 10 * n + of_nat (of_char c - 48)) s 0"

definition fraction_value :: "string \<Rightarrow> rat" where
  "fraction_value s = digits_value s / 10 ^ length s"

definition lower_char :: "char \<Rightarrow> char" where
  "lower_char c = (if 65 \<le> (of_char c :: nat) \<and> (of_char c :: nat) \<le> 90 then char_of ((of_char c :: nat) + 32) else c)"

definition unit_ms :: "string \<Rightarrow> rat option" where
  "unit_ms u =
     (let l = map lower_char u in
      if l = ''ms'' then Some 1 else if l = ''s'' then Some 1000 else if l = ''m'' then Some 60000
      else if l = ''h'' then Some 3600000 else if l = ''d'' then Some 86400000 else None)"

definition parse_duration :: "string \<Rightarrow> run_error + rat" where
  "parse_duration raw =
     (let v = js_trim (filter (\<lambda>c. c \<noteq> QUOTE) raw);
          whole = takeWhile is_digit v; rest = dropWhile is_digit v;
          (fraction, rest') = (case rest of
              c # cs \<Rightarrow> if c = CHR ''.'' \<and> takeWhile is_digit cs \<noteq> [] then (takeWhile is_digit cs, dropWhile is_digit cs) else ([], rest)
            | [] \<Rightarrow> ([], rest))
      in case (whole, unit_ms (dropWhile js_space rest')) of
           (_ # _, Some ms) \<Rightarrow> Inr ((digits_value whole + fraction_value fraction) * ms)
         | _ \<Rightarrow> Inl (UnsupportedDuration raw))"

definition duration_field :: "string \<Rightarrow> json \<Rightarrow> run_error + rat option" where
  "duration_field k policy = (case member k policy of
     Some (JStr s) \<Rightarrow> (case parse_duration s of Inl e \<Rightarrow> Inl e | Inr q \<Rightarrow> Inr (Some q))
   | _ \<Rightarrow> Inr None)"

text \<open>A \<open>Date\<close> drops the fraction of a millisecond.\<close>

definition to_ms :: "rat \<Rightarrow> int" where
  "to_ms q = (if 0 \<le> q then \<lfloor>q\<rfloor> else \<lceil>q\<rceil>)"

definition retry_multiplier :: "json \<Rightarrow> rat" where
  "retry_multiplier policy = (case member ''multiplier'' policy of Some (JNum (Finite q)) \<Rightarrow> q | _ \<Rightarrow> 2)"

definition retry_at :: "json \<Rightarrow> nat \<Rightarrow> instant \<Rightarrow> run_error + instant" where
  "retry_at policy attempt now =
     bind_run (duration_field ''initial'' policy) (\<lambda>initial.
     bind_run (duration_field ''maximum'' policy) (\<lambda>maximum.
       (let wait = or_default initial 1000 * retry_multiplier policy ^ (attempt - 1)
        in Inr (to_ms (of_int now + (case maximum of None \<Rightarrow> wait | Some m \<Rightarrow> min m wait))))))"

definition max_attempts :: "json \<Rightarrow> nat" where
  "max_attempts policy = nat (or_default (finite_integer (member ''maxAttempts'' policy)) 1)"

section \<open>Signals\<close>

definition RUN_SIGNAL_MAX_BYTES :: nat where "RUN_SIGNAL_MAX_BYTES = 64 * 1024"

definition RUN_SIGNAL_MAX_PENDING :: nat where "RUN_SIGNAL_MAX_PENDING = 256"

definition RUN_SIGNAL_MAX_RECEIPTS :: nat where "RUN_SIGNAL_MAX_RECEIPTS = 1024"

text \<open>\<open>scalar\<close> is the text \<open>jsonbText\<close> gives a value that holds no other, a key included.\<close>

definition enclosed :: "char \<Rightarrow> char \<Rightarrow> string list \<Rightarrow> string" where
  "enclosed l r parts = l # concat (case parts of [] \<Rightarrow> [] | p # ps \<Rightarrow> p # map (\<lambda>q. CHR '','' # q) ps) @ [r]"

fun canonical_json :: "(json \<Rightarrow> string) \<Rightarrow> json \<Rightarrow> string" where
  "canonical_json scalar (JArr vs) = enclosed (CHR ''['') (CHR '']'') (map (canonical_json scalar) vs)"
| "canonical_json scalar (JObj kvs) =
     enclosed (CHR ''{'') (CHR ''}'')
       (map (\<lambda>(k, text). scalar (JStr k) @ CHR '':'' # text)
         (sort_key fst (map (\<lambda>(k, v). (k, canonical_json scalar v)) kvs)))"
| "canonical_json scalar v = scalar v"

record signal_env =
  se_scalar :: "json \<Rightarrow> string"
  se_octets :: "string \<Rightarrow> nat"
  se_sha256 :: "string \<Rightarrow> string"
  se_storable :: "string \<Rightarrow> string"

definition signal_payload :: "signal_env \<Rightarrow> string \<Rightarrow> string \<Rightarrow> json \<Rightarrow> run_error + string \<times> string" where
  "signal_payload e signal key value =
     (let encoded = canonical_json (se_scalar e) value in
      if signal = [] \<or> 255 < length signal then Inl (SignalInvalid ''signal must contain 1 to 255 characters'')
      else if key = [] \<or> 255 < length key then Inl (SignalInvalid ''idempotencyKey must contain 1 to 255 characters'')
      else if RUN_SIGNAL_MAX_BYTES < se_octets e encoded then Inl (SignalLimit ''Signal value exceeds 64 KiB'')
      else Inr (se_storable e signal, se_sha256 e encoded))"

section \<open>Permissions\<close>

type_synonym permission = string

type_synonym permission_ref = "ident \<times> permission"

text \<open>\<open>split(':')\<close>, of which the code takes the first two parts.\<close>

definition permission_thing :: "permission \<Rightarrow> string" where
  "permission_thing p = takeWhile (\<lambda>c. c \<noteq> CHR '':'') p"

definition permission_action :: "permission \<Rightarrow> string option" where
  "permission_action p = (case dropWhile (\<lambda>c. c \<noteq> CHR '':'') p of
     [] \<Rightarrow> None | _ # rest \<Rightarrow> Some (takeWhile (\<lambda>c. c \<noteq> CHR '':'') rest))"

definition permission_covers :: "permission \<Rightarrow> permission \<Rightarrow> bool" where
  "permission_covers granted wanted \<longleftrightarrow>
     granted = ''*'' \<or> granted = wanted \<or>
     permission_thing granted \<noteq> [] \<and> permission_thing granted = permission_thing wanted \<and>
     (permission_action granted = Some ''*'' \<or>
      permission_action wanted = Some ''read'' \<and>
      (permission_action granted = Some ''write'' \<or> permission_action granted = Some ''publish''))"

text \<open>The permissions of an identity with a scope; one without holds them all.\<close>

definition has_project_permission :: "permission_ref list option \<Rightarrow> ident \<Rightarrow> permission \<Rightarrow> bool" where
  "has_project_permission held proj wanted =
     (case held of None \<Rightarrow> True
      | Some refs \<Rightarrow> \<exists>(p, granted) \<in> set refs. p = proj \<and> permission_covers granted wanted)"

fun first_occurrences :: "'a list \<Rightarrow> 'a list" where
  "first_occurrences [] = []"
| "first_occurrences (x # xs) = x # filter (\<lambda>y. y \<noteq> x) (first_occurrences xs)"

definition intersect_project_permissions :: "permission_ref list \<Rightarrow> permission_ref list option \<Rightarrow> permission_ref list" where
  "intersect_project_permissions grants held =
     (case held of None \<Rightarrow> grants
      | Some refs \<Rightarrow> first_occurrences (concat (map (\<lambda>(proj, wanted).
            if has_project_permission held proj wanted then [(proj, wanted)]
            else filter (\<lambda>(p, granted). p = proj \<and> permission_covers wanted granted) refs) grants)))"

definition held_permissions :: "json option \<Rightarrow> permission_ref list" where
  "held_permissions v = (case v of
     Some (JArr es) \<Rightarrow> concat (map (\<lambda>e. case (member ''projectId'' e, member ''permission'' e) of
        (Some (JStr p), Some (JStr q)) \<Rightarrow> [(p, q)] | _ \<Rightarrow> []) es)
   | _ \<Rightarrow> [])"

definition child_permissions :: "ident \<Rightarrow> json option \<Rightarrow> permission list \<Rightarrow> permission_ref list" where
  "child_permissions proj held declared =
     intersect_project_permissions (map (\<lambda>p. (proj, p)) declared) (Some (held_permissions held))"

definition permissions_json :: "permission_ref list \<Rightarrow> json" where
  "permissions_json refs = JArr (map (\<lambda>(p, q). JObj [(''projectId'', JStr p), (''permission'', JStr q)]) refs)"

end
