(* ===== verification/Run_Coordinator.thy ===== *)
theory Run_Coordinator
  imports Run_Policy
begin

text \<open>
  The coordinator of workflow runs, \<open>packages/core/src/services/run-coordinator.ts\<close>: a run goes through the
  steps of its plan, one attempt at a time, each attempt worked on through a job; it pauses for a signal
  or a time, waits for a child run, and ends with every run that waited for it told in the same
  transaction. Locks order the transactions on one run; the database's clock is read once in each.
\<close>

section \<open>Cleaning up\<close>

definition canceled_now :: "instant \<Rightarrow> job_row \<Rightarrow> job_row" where
  "canceled_now now r =
     (unleased r)\<lparr>ej_status := JobCanceled, ej_completed_at := Some now, ej_updated_at := now\<rparr>"

definition spared :: "ident option \<Rightarrow> job_row \<Rightarrow> bool" where
  "spared exclude r \<longleftrightarrow> (case exclude of None \<Rightarrow> False | Some jid \<Rightarrow> ej_id r = jid)"

definition end_batch_rows ::
  "ident \<Rightarrow> ident \<Rightarrow> batch_status list \<Rightarrow> batch_status \<Rightarrow> string \<Rightarrow> instant \<Rightarrow> batch_row list \<Rightarrow> batch_row list"
where
  "end_batch_rows rid aid from_statuses status err now =
     update_where (\<lambda>b. bt_run_id b = rid \<and> bt_attempt_id b = aid \<and> bt_status b \<in> set from_statuses)
       (\<lambda>b. b\<lparr>bt_status := status, bt_error := Some err, bt_completed_at := Some now, bt_updated_at := now\<rparr>)"

definition end_batch_members :: "ident \<Rightarrow> ident \<Rightarrow> string \<Rightarrow> instant \<Rightarrow> batch_row list \<Rightarrow> batch_row list" where
  "end_batch_members rid aid err now =
     update_where (\<lambda>b. bt_run_id b = rid \<and> bt_attempt_id b = aid \<and> bt_status b = BatchPending)
       (\<lambda>b. b\<lparr>bt_status := BatchUnresolved, bt_error := Some err, bt_completed_at := Some now\<rparr>)"

definition cleanup_batch :: "ident \<Rightarrow> ident \<Rightarrow> string \<Rightarrow> instant \<Rightarrow> batch_tables \<Rightarrow> batch_tables" where
  "cleanup_batch rid aid err now b =
     b\<lparr>bd_items := end_batch_rows rid aid [BatchPending, BatchRunning, BatchWaiting] BatchCanceled err now (bd_items b),
       bd_invocations := end_batch_rows rid aid [BatchPending, BatchRunning] BatchCanceled err now (bd_invocations b),
       bd_members := end_batch_members rid aid err now (bd_members b),
       bd_item_steps := end_batch_rows rid aid [BatchPending, BatchRunning, BatchWaiting] BatchFailed err now (bd_item_steps b),
       bd_sink_chunks := end_batch_rows rid aid [BatchPending, BatchRunning] BatchFailed err now (bd_sink_chunks b)\<rparr>"

definition cancel_pause :: "instant \<Rightarrow> pause_row \<Rightarrow> pause_row" where
  "cancel_pause now p = p\<lparr>pz_status := PauseCanceled, pz_resolved_at := Some now\<rparr>"

definition cleanup_step_scope :: "instant \<Rightarrow> ident \<Rightarrow> ident \<Rightarrow> string \<Rightarrow> ident option \<Rightarrow> run_db \<Rightarrow> run_db" where
  "cleanup_step_scope now rid aid err exclude d =
     (let d1 = delete_run_invocations (\<lambda>i. ai_run_id i = rid \<and> ai_attempt_id i = Some aid) d;
          d2 = update_jobs (\<lambda>j. ej_workflow_run_id j = rid \<and> ej_workflow_step_attempt_id j = Some aid \<and>
                 \<not> spared exclude j \<and> live_job (ej_status j)) (canceled_now now) d1;
          d3 = update_pauses (\<lambda>p. pz_run_id p = rid \<and> pz_attempt_id p = aid \<and> pz_status p = PauseOpen) (cancel_pause now) d2
      in d3\<lparr>rd_batch := cleanup_batch rid aid err now (rd_batch d3)\<rparr>)"

definition failed_attempt :: "string \<Rightarrow> instant \<Rightarrow> step_attempt_row \<Rightarrow> step_attempt_row" where
  "failed_attempt err now a =
     a\<lparr>sa_status := StepFailed, sa_error := Some err, sa_completed_at := Some now, sa_updated_at := now\<rparr>"

definition live_attempts :: "ident \<Rightarrow> run_db \<Rightarrow> ident list" where
  "live_attempts rid d = map sa_id (filter (\<lambda>a. sa_run_id a = rid \<and> live_step (sa_status a)) (rd_attempts d))"

definition cleanup_run_scope :: "instant \<Rightarrow> ident \<Rightarrow> string \<Rightarrow> ident option \<Rightarrow> run_db \<Rightarrow> run_db" where
  "cleanup_run_scope now rid err exclude d =
     (let d1 = fold (\<lambda>aid. cleanup_step_scope now rid aid err exclude) (live_attempts rid d) d;
          d2 = update_attempts (\<lambda>a. sa_run_id a = rid \<and> live_step (sa_status a)) (failed_attempt err now) d1;
          d3 = update_states (\<lambda>s. rs_run_id s = rid)
                 (\<lambda>s. s\<lparr>rs_prev_status := None, rs_prev_phase := None, rs_updated_at := now\<rparr>) d2;
          d4 = delete_run_invocations (\<lambda>i. ai_run_id i = rid) d3
      in update_jobs (\<lambda>j. ej_workflow_run_id j = rid \<and> \<not> spared exclude j \<and> live_job (ej_status j)) (canceled_now now) d4)"

definition release_allocation :: "instant \<Rightarrow> ident \<Rightarrow> run_db \<Rightarrow> run_db" where
  "release_allocation now aid d =
     (let roots = map ra_root_workload_id (filter (\<lambda>a. al_id a = aid) (rd_allocations d)) in
      d\<lparr>rd_waits := filter (\<lambda>w. w \<notin> set roots) (rd_waits d),
        rd_grants := update_where (\<lambda>g. cg_allocation_id g = aid \<and> cg_revoked_at g = None)
          (\<lambda>g. g\<lparr>cg_revoked_at := Some now\<rparr>) (rd_grants d),
        rd_allocations := update_where (\<lambda>a. al_id a = aid \<and> al_status a = AllocationActive)
          (\<lambda>a. a\<lparr>al_status := AllocationOther, ra_released_at := Some now\<rparr>) (rd_allocations d)\<rparr>)"

text \<open>Only a root run holds an allocation of its own.\<close>

definition release_root :: "instant \<Rightarrow> run_row \<Rightarrow> run_db \<Rightarrow> run_db" where
  "release_root now r d =
     (case (ru_parent_run_id r, ru_allocation_id r) of (None, Some aid) \<Rightarrow> release_allocation now aid d | _ \<Rightarrow> d)"

section \<open>Attempts\<close>

definition job_kind_of :: "step_descriptor \<Rightarrow> job_kind" where
  "job_kind_of desc = (case sd_executor desc of ByBoundary \<Rightarrow> DurableBoundary | ByBatch \<Rightarrow> BatchSource)"

definition enqueue_job :: "run_env \<Rightarrow> ident \<Rightarrow> job_request \<Rightarrow> run_db \<Rightarrow> run_error + run_db" where
  "enqueue_job e jid q d =
     (case enqueue (re_now e) (re_host e) jid q (queue_view d) of
        Inl err \<Rightarrow> Inl (QueueFailed err) | Inr (_, j) \<Rightarrow> Inr (d\<lparr>rd_jobs := jd_jobs j\<rparr>))"

text \<open>\<open>co_number\<close> is JavaScript's \<open>Number\<close> of a text, \<open>co_sha256\<close> the hash of a value's JSON text.\<close>

record coordinator =
  co_number :: "string \<Rightarrow> js_number"
  co_sha256 :: "json \<Rightarrow> string"

definition step_job_key :: "ident \<Rightarrow> step_descriptor \<Rightarrow> nat \<Rightarrow> string" where
  "step_job_key rid desc attempt =
     ''run:'' @ rid @ '':step:'' @ decimal (sd_index desc) @ '':attempt:'' @ decimal attempt @ '':'' @
     (case sd_executor desc of ByBoundary \<Rightarrow> ''durable_boundary'' | ByBatch \<Rightarrow> ''batch_source'')"

definition pause_job_key :: "ident \<Rightarrow> ident \<Rightarrow> string" where
  "pause_job_key rid pause = ''run:'' @ rid @ '':pause:'' @ pause @ '':timeout''"

definition new_attempt :: "coordinator \<Rightarrow> run_env \<Rightarrow> ident \<Rightarrow> step_descriptor \<Rightarrow> json \<Rightarrow> nat \<Rightarrow> step_attempt_row" where
  "new_attempt c e rid desc input attempt =
     \<lparr>sa_id = re_attempt_id e rid (sd_index desc) attempt, sa_run_id = rid, sa_step_index = sd_index desc, sa_node_id = sd_node_id desc,
      sa_executor = sd_executor desc, sa_attempt = attempt, sa_status = StepPending, sa_input = input, sa_output = None,
      sa_error = None, sa_policy = policy_of (co_number c) desc, sa_call_state = None, sa_started_at = None,
      sa_completed_at = None, sa_updated_at = re_now e\<rparr>"

definition step_job :: "ident \<Rightarrow> ident \<Rightarrow> ident \<Rightarrow> step_descriptor \<Rightarrow> nat \<Rightarrow> instant option \<Rightarrow> job_request" where
  "step_job tenant rid aid desc attempt available =
     \<lparr>jq_tenant_id = tenant, jq_kind = job_kind_of desc,
      jq_payload = JObj [(''operation'', JStr (case sd_executor desc of ByBoundary \<Rightarrow> ''run'' | ByBatch \<Rightarrow> ''initialize''))],
      jq_priority = None, jq_available_at = available, jq_max_attempts = Some 10,
      jq_dedupe_key = Some (step_job_key rid desc attempt),
      jq_workflow_run_id = rid, jq_workflow_step_attempt_id = Some aid\<rparr>"

text \<open>A step's attempts are numbered: the table refuses a number used before.\<close>

definition create_step_attempt ::
  "coordinator \<Rightarrow> run_env \<Rightarrow> ident \<Rightarrow> ident \<Rightarrow> step_descriptor \<Rightarrow> json \<Rightarrow> nat \<Rightarrow> instant option \<Rightarrow> run_db \<Rightarrow> run_error + run_db"
where
  "create_step_attempt c e tenant rid desc input attempt available d =
     (let a = new_attempt c e rid desc input attempt; now = re_now e;
          d1 = d\<lparr>rd_attempts := rd_attempts d @ [a]\<rparr>;
          d2 = (case sd_executor desc of ByBoundary \<Rightarrow> d1
                | ByBatch \<Rightarrow> d1\<lparr>rd_batch := (rd_batch d1)\<lparr>bd_states := bd_states (rd_batch d1) @ [(rid, sa_id a, sa_policy a)]\<rparr>\<rparr>);
          d3 = update_states (\<lambda>s. rs_run_id s = rid)
                 (\<lambda>s. s\<lparr>rs_step_index := sd_index desc, rs_input := input, rs_active_attempt := Some (sa_id a), rs_updated_at := now\<rparr>) d2;
          d4 = snd (update_runs now (\<lambda>r. ru_id r = rid \<and> is_active_run_status (ru_status r))
                 (\<lambda>r. r\<lparr>ru_status := RunPending, ru_phase := phase_for desc, ru_updated_at := now\<rparr>) d3)
      in if \<exists>x \<in> set (rd_attempts d). sa_run_id x = rid \<and> sa_step_index x = sd_index desc \<and> sa_attempt x = attempt
         then Inl UniqueViolated
         else enqueue_job e (re_job_id e (sa_id a)) (step_job tenant rid (sa_id a) desc attempt available) d4)"

definition new_state :: "instant \<Rightarrow> ident \<Rightarrow> step_descriptor list \<Rightarrow> json \<Rightarrow> run_state_row" where
  "new_state now rid plan input =
     \<lparr>rs_run_id = rid, rs_plan = plan, rs_step_index = 0, rs_input = input, rs_active_attempt = None,
      rs_prev_status = None, rs_prev_phase = None, rs_updated_at = now\<rparr>"

definition initialize ::
  "coordinator \<Rightarrow> run_env \<Rightarrow> ident \<Rightarrow> ident \<Rightarrow> step_descriptor list \<Rightarrow> json \<Rightarrow> run_db \<Rightarrow> run_error + run_db"
where
  "initialize c e tenant rid plan input d =
     (case plan of [] \<Rightarrow> Inl EmptyPlan
      | first # _ \<Rightarrow>
          if \<exists>s \<in> set (rd_states d). rs_run_id s = rid then Inl UniqueViolated
          else create_step_attempt c e tenant rid first input 1 None
                 (d\<lparr>rd_states := rd_states d @ [new_state (re_now e) rid plan input]\<rparr>))"

section \<open>The attempt a run is on\<close>

record attempt_context =
  cx_attempt :: step_attempt_row
  cx_state :: run_state_row
  cx_run :: run_row
  cx_tenant :: ident

definition lock_active_attempt :: "ident \<Rightarrow> run_db \<Rightarrow> attempt_context option" where
  "lock_active_attempt aid d =
     (case find_row sa_id aid (rd_attempts d) of None \<Rightarrow> None
      | Some a \<Rightarrow> (case lock_run (sa_run_id a) d of None \<Rightarrow> None
          | Some r \<Rightarrow>
              if \<not> is_active_run_status (ru_status r) then None
              else (case find_row rs_run_id (sa_run_id a) (rd_states d) of None \<Rightarrow> None
                    | Some s \<Rightarrow> if rs_active_attempt s = Some aid
                        then Some \<lparr>cx_attempt = a, cx_state = s, cx_run = r, cx_tenant = rd_tenant_of d (ru_project_id r)\<rparr>
                        else None)))"

definition nth_step :: "nat \<Rightarrow> step_descriptor list \<Rightarrow> step_descriptor option" where
  "nth_step i plan = (if i < length plan then Some (plan ! i) else None)"

definition completed_attempt :: "json \<Rightarrow> instant \<Rightarrow> step_attempt_row \<Rightarrow> step_attempt_row" where
  "completed_attempt output now a =
     a\<lparr>sa_status := StepCompleted, sa_output := Some output, sa_completed_at := Some now, sa_updated_at := now\<rparr>"

section \<open>How a run ends, and the runs that wait for it\<close>

text \<open>
  A run that ends tells the run that waits for it (\<open>finishParent\<close>), which may end with that and tell its
  own. Each step of the chain is a function that says which run ended in it, if one did, with what it
  tells its parent; \<open>finish_parent\<close> follows them. The error a child ends with is a text: an empty one is
  false in JavaScript.
\<close>

record outcome =
  oc_output :: "json option"
  oc_error :: string

definition put_output :: "json \<Rightarrow> outcome" where "put_output v = \<lparr>oc_output = Some v, oc_error = []\<rparr>"

definition put_error :: "string \<Rightarrow> outcome" where "put_error err = \<lparr>oc_output = None, oc_error = err\<rparr>"

type_synonym told = "(ident \<times> outcome) option"

definition complete_run :: "instant \<Rightarrow> run_row \<Rightarrow> json \<Rightarrow> run_db \<Rightarrow> run_db \<times> told" where
  "complete_run now run output d =
     (let rid = ru_id run;
          d1 = update_states (\<lambda>s. rs_run_id s = rid)
                 (\<lambda>s. s\<lparr>rs_input := output, rs_active_attempt := None, rs_updated_at := now\<rparr>) d;
          (written, d2) = update_runs now (\<lambda>r. ru_id r = rid \<and> is_active_run_status (ru_status r))
                 (\<lambda>r. r\<lparr>ru_status := RunCompleted, ru_result := Some output, ru_error := None,
                    ru_completed_at := Some now, ru_updated_at := now\<rparr>) d1
      in if written = [] then (d2, None) else (release_root now run d2, Some (rid, put_output output)))"

definition advance_run ::
  "coordinator \<Rightarrow> run_env \<Rightarrow> ident \<Rightarrow> ident \<Rightarrow> nat \<Rightarrow> json \<Rightarrow> run_db \<Rightarrow> run_error + run_db \<times> told"
where
  "advance_run c e tenant rid done_index output d =
     (case lock_run rid d of None \<Rightarrow> Inr (d, None)
      | Some run \<Rightarrow>
          if \<not> is_active_run_status (ru_status run) then Inr (d, None)
          else (case find_row rs_run_id rid (rd_states d) of None \<Rightarrow> Inl (RunNotFound rid)
            | Some s \<Rightarrow>
                if rs_step_index s \<noteq> done_index then Inr (d, None)
                else (case nth_step (done_index + 1) (rs_plan s) of
                    None \<Rightarrow> Inr (complete_run (re_now e) run output d)
                  | Some desc \<Rightarrow> bind_run (create_step_attempt c e tenant rid desc output 1 None d) (\<lambda>d'. Inr (d', None)))))"

definition end_run :: "instant \<Rightarrow> ident \<Rightarrow> string \<Rightarrow> ident option \<Rightarrow> run_status list \<Rightarrow> run_db \<Rightarrow> run_db \<times> told" where
  "end_run now rid err exclude statuses d =
     (let d1 = cleanup_run_scope now rid err exclude d;
          (written, d2) = update_runs now (\<lambda>r. ru_id r = rid \<and> ru_status r \<in> set statuses)
                 (\<lambda>r. r\<lparr>ru_status := RunFailed, ru_error := Some err, ru_completed_at := Some now, ru_updated_at := now\<rparr>) d1
      in case written of [] \<Rightarrow> (d2, None) | r # _ \<Rightarrow> (release_root now r d2, Some (rid, put_error err)))"

text \<open>What \<open>failStep\<close> and \<open>finishParent\<close> do to the attempt that failed: again, or the run fails.\<close>

definition fail_attempt ::
  "coordinator \<Rightarrow> run_env \<Rightarrow> attempt_context \<Rightarrow> string \<Rightarrow> ident option \<Rightarrow> bool \<Rightarrow> string \<Rightarrow> run_db \<Rightarrow> run_error + run_db \<times> told"
where
  "fail_attempt c e ctx err exclude allow missing d =
     (let now = re_now e; a = cx_attempt ctx; rid = sa_run_id a;
          d1 = cleanup_step_scope now rid (sa_id a) err exclude d;
          d2 = update_attempts (\<lambda>x. sa_id x = sa_id a) (failed_attempt err now) d1
      in if allow \<and> sa_executor a = ByBoundary \<and> sa_attempt a < max_attempts (sa_policy a)
         then (case nth_step (sa_step_index a) (rs_plan (cx_state ctx)) of
             None \<Rightarrow> Inl (MissingStep missing)
           | Some desc \<Rightarrow>
               bind_run (retry_at (sa_policy a) (sa_attempt a) now) (\<lambda>tm.
               bind_run (create_step_attempt c e (cx_tenant ctx) rid desc (sa_input a) (sa_attempt a + 1) (Some tm) d2)
                 (\<lambda>d'. Inr (d', None))))
         else Inr (end_run now rid err exclude ACTIVE_RUN_STATUSES d2))"

definition parent_output :: "step_attempt_row \<Rightarrow> json option \<Rightarrow> json" where
  "parent_output a output =
     (case sa_call_state a of
        None \<Rightarrow> or_null output
      | Some st \<Rightarrow> JObj [(''result'', or_null output), (''state'', st)])"

definition tell_parent :: "coordinator \<Rightarrow> run_env \<Rightarrow> ident \<Rightarrow> outcome \<Rightarrow> run_db \<Rightarrow> run_error + run_db \<times> told" where
  "tell_parent c e child oc d =
     (case lock_run child d of None \<Rightarrow> Inr (d, None)
      | Some r \<Rightarrow> (case (ru_parent_run_id r, ru_parent_attempt_id r) of
          (Some pid, Some aid) \<Rightarrow>
            (case lock_active_attempt aid d of None \<Rightarrow> Inr (d, None)
             | Some ctx \<Rightarrow>
                 if sa_status (cx_attempt ctx) \<noteq> StepWaiting then Inr (d, None)
                 else if oc_error oc \<noteq> [] then fail_attempt c e ctx (oc_error oc) None True ''Parent workflow step is missing'' d
                 else (let a = cx_attempt ctx; output = parent_output a (oc_output oc);
                           d1 = update_attempts (\<lambda>x. sa_id x = sa_id a) (completed_attempt output (re_now e)) d
                       in advance_run c e (cx_tenant ctx) pid (sa_step_index a) output d1))
        | _ \<Rightarrow> Inr (d, None)))"

definition active_count :: "run_db \<Rightarrow> nat" where
  "active_count d = length (filter (\<lambda>r. is_active_run_status (ru_status r)) (rd_runs d))"

text \<open>What the pieces leave alone.\<close>

lemmas run_updates =
  update_attempts_def update_states_def update_pauses_def update_jobs_def delete_run_invocations_def
  discard_workflow_signals_def

lemma fold_keeps: "(\<And>x d. g (f x d) = g d) \<Longrightarrow> g (fold f xs d) = g d"
  by (induction xs arbitrary: d) simp_all

lemma update_runs_runs [simp]: "rd_runs (snd (update_runs now p f d)) = update_where p f (rd_runs d)"
  by (simp add: update_runs_def run_updates Let_def)

lemma fst_update_runs: "fst (update_runs now p f d) = map f (filter p (rd_runs d))"
  by (simp add: update_runs_def Let_def)

lemma cleanup_step_scope_runs [simp]: "rd_runs (cleanup_step_scope now rid aid err x d) = rd_runs d"
  by (simp add: cleanup_step_scope_def run_updates Let_def)

lemma cleanup_run_scope_runs [simp]: "rd_runs (cleanup_run_scope now rid err x d) = rd_runs d"
  by (simp add: cleanup_run_scope_def run_updates Let_def fold_keeps [of rd_runs])

lemma release_allocation_runs [simp]: "rd_runs (release_allocation now aid d) = rd_runs d"
  by (simp add: release_allocation_def Let_def)

lemma release_root_runs [simp]: "rd_runs (release_root now r d) = rd_runs d"
  by (simp add: release_root_def split: option.split)

lemma count_update_where_le:
  "(\<And>x. x \<in> set xs \<Longrightarrow> p x \<Longrightarrow> \<not> P (f x)) \<Longrightarrow> length (filter P (update_where p f xs)) \<le> length (filter P xs)"
  by (induction xs) (auto simp: le_SucI)

lemma count_update_where:
  assumes "\<And>x. x \<in> set xs \<Longrightarrow> p x \<Longrightarrow> P x \<and> \<not> P (f x)" and "filter p xs \<noteq> []"
  shows "length (filter P (update_where p f xs)) < length (filter P xs)"
  using assms
proof (induction xs)
  case (Cons x xs)
  have "length (filter P (update_where p f xs)) \<le> length (filter P xs)"
    by (rule count_update_where_le) (use Cons.prems(1) in auto)
  with Cons show ?case by (cases "p x") (auto simp: less_Suc_eq_le)
qed simp

lemma complete_run_ends:
  assumes "complete_run now run output d = (d', Some t)"
  shows "active_count d' < active_count d"
proof -
  let ?p = "\<lambda>r. ru_id r = ru_id run \<and> is_active_run_status (ru_status r)"
  let ?f = "\<lambda>r. r\<lparr>ru_status := RunCompleted, ru_result := Some output, ru_error := None, ru_completed_at := Some now, ru_updated_at := now\<rparr>"
  from assms have runs: "rd_runs d' = update_where ?p ?f (rd_runs d)" and some: "filter ?p (rd_runs d) \<noteq> []"
    by (auto simp: complete_run_def Let_def update_runs_def run_updates split: if_splits)
  show ?thesis unfolding active_count_def runs by (rule count_update_where) (use some in auto)
qed

lemma end_run_ends:
  assumes "end_run now rid err x ACTIVE_RUN_STATUSES d = (d', Some t)"
  shows "active_count d' < active_count d"
proof -
  let ?p = "\<lambda>r. ru_id r = rid \<and> ru_status r \<in> set ACTIVE_RUN_STATUSES"
  let ?f = "\<lambda>r. r\<lparr>ru_status := RunFailed, ru_error := Some err, ru_completed_at := Some now, ru_updated_at := now\<rparr>"
  from assms have runs: "rd_runs d' = update_where ?p ?f (rd_runs d)" and some: "filter ?p (rd_runs d) \<noteq> []"
    by (auto simp: end_run_def Let_def update_runs_def run_updates split: list.splits)
  show ?thesis unfolding active_count_def runs
    by (rule count_update_where) (use some in \<open>auto simp: is_active_run_status_def [symmetric]\<close>)
qed

lemma fail_attempt_ends:
  assumes "fail_attempt c e ctx err x allow msg d = Inr (d', Some t)"
  shows "active_count d' < active_count d"
proof -
  let ?d = "update_attempts (\<lambda>y. sa_id y = sa_id (cx_attempt ctx)) (failed_attempt err (re_now e))
    (cleanup_step_scope (re_now e) (sa_run_id (cx_attempt ctx)) (sa_id (cx_attempt ctx)) err x d)"
  have "active_count ?d = active_count d" by (simp add: active_count_def update_attempts_def)
  moreover from assms have "end_run (re_now e) (sa_run_id (cx_attempt ctx)) err x ACTIVE_RUN_STATUSES ?d = (d', Some t)"
    by (auto simp: fail_attempt_def Let_def bind_run_Inr split: if_splits option.splits)
  ultimately show ?thesis using end_run_ends by metis
qed

lemma advance_run_ends: "advance_run c e tenant rid i output d = Inr (d', Some t) \<Longrightarrow> active_count d' < active_count d"
  by (auto simp: advance_run_def bind_run_Inr split: option.splits if_splits dest: complete_run_ends)

text \<open>A run that is told and ends with it was active: the chain is no longer than there are active runs.\<close>

lemma tell_parent_ends:
  assumes "tell_parent c e child oc d = Inr (d', Some t)"
  shows "active_count d' < active_count d"
proof -
  have eq: "active_count (update_attempts p f d) = active_count d" for p f
    by (simp add: active_count_def update_attempts_def)
  show ?thesis using assms
    by (auto simp: tell_parent_def Let_def eq split: option.splits if_splits dest: advance_run_ends fail_attempt_ends)
qed

function finish_parent :: "coordinator \<Rightarrow> run_env \<Rightarrow> ident \<Rightarrow> outcome \<Rightarrow> run_db \<Rightarrow> run_error + run_db" where
  "finish_parent c e child oc d =
     (case tell_parent c e child oc d of
        Inl err \<Rightarrow> Inl err
      | Inr (d', None) \<Rightarrow> Inr d'
      | Inr (d', Some (child', oc')) \<Rightarrow> finish_parent c e child' oc' d')"
  by pat_completeness auto

termination
  by (relation "measure (\<lambda>(c, e, child, oc, d). active_count d)") (auto dest: tell_parent_ends)

declare finish_parent.simps [simp del]

definition finish_told :: "coordinator \<Rightarrow> run_env \<Rightarrow> run_db \<times> told \<Rightarrow> run_error + run_db" where
  "finish_told c e x = (case x of (d, None) \<Rightarrow> Inr d | (d, Some (child, oc)) \<Rightarrow> finish_parent c e child oc d)"

definition advance ::
  "coordinator \<Rightarrow> run_env \<Rightarrow> ident \<Rightarrow> ident \<Rightarrow> nat \<Rightarrow> json \<Rightarrow> run_db \<Rightarrow> run_error + run_db"
where
  "advance c e tenant rid done_index output d =
     bind_run (advance_run c e tenant rid done_index output d) (finish_told c e)"

definition fail_run ::
  "coordinator \<Rightarrow> run_env \<Rightarrow> ident \<Rightarrow> string \<Rightarrow> ident option \<Rightarrow> run_status list \<Rightarrow> run_db \<Rightarrow> run_error + run_db"
where
  "fail_run c e rid err exclude statuses d = finish_told c e (end_run (re_now e) rid err exclude statuses d)"

end
