(* ===== verification/Run_Operations.thy ===== *)
theory Run_Operations
  imports Run_Coordinator
begin

text \<open>
  What the coordinator of workflow runs is asked (the public methods of \<open>run-coordinator.ts\<close>): the worker
  of a job begins, completes, fails or suspends its attempt; a signal, a person or a timer ends a pause;
  an operator holds and resumes a batch; a run is canceled with the runs under it. Each is one
  transaction, except \<open>cancel\<close>, which tells the parent in a second one.
\<close>

section \<open>The worker of an attempt\<close>

definition begin_attempt :: "run_env \<Rightarrow> execution_job \<Rightarrow> run_phase \<Rightarrow> run_db \<Rightarrow> bool \<times> run_db" where
  "begin_attempt e job phase d =
     (case xj_workflow_step_attempt_id job of None \<Rightarrow> (False, d)
      | Some aid \<Rightarrow>
          (let rid = xj_workflow_run_id job; now = re_now e in
           if \<not> run_active rid d \<or> \<not> owns_job now job d then (False, d)
           else (case find_row sa_id aid (rd_attempts d) of None \<Rightarrow> (False, d)
             | Some a \<Rightarrow>
                 if sa_run_id a \<noteq> rid \<or> sa_status a \<notin> {StepPending, StepRunning} then (False, d)
                 else (True, snd (update_runs now (\<lambda>r. ru_id r = rid \<and> is_active_run_status (ru_status r))
                        (\<lambda>r. r\<lparr>ru_status := RunRunning, ru_phase := phase,
                           ru_started_at := Some (or_default (ru_started_at r) now), ru_updated_at := now\<rparr>)
                        (update_attempts (\<lambda>x. sa_id x = aid \<and> sa_status x \<in> {StepPending, StepRunning})
                           (\<lambda>x. x\<lparr>sa_status := StepRunning, sa_started_at := Some (or_default (sa_started_at x) now),
                              sa_updated_at := now\<rparr>) d))))))"

definition boundary_deadline :: "instant \<Rightarrow> execution_job \<Rightarrow> run_db \<Rightarrow> instant option" where
  "boundary_deadline now job d =
     (case xj_workflow_step_attempt_id job of None \<Rightarrow> None
      | Some aid \<Rightarrow> (case lock_active_attempt aid d of None \<Rightarrow> None
          | Some ctx \<Rightarrow>
              if sa_status (cx_attempt ctx) \<noteq> StepRunning \<or> \<not> owns_job now job d then None
              else map_option (\<lambda>t. t + 300000) (sa_started_at (cx_attempt ctx))))"

definition set_phase :: "run_env \<Rightarrow> ident \<Rightarrow> ident \<Rightarrow> run_status option \<Rightarrow> run_phase \<Rightarrow> run_db \<Rightarrow> run_db" where
  "set_phase e rid aid status phase d =
     (let st = or_default status RunRunning in
      snd (update_runs (re_now e)
        (\<lambda>r. ru_id r = rid \<and> is_active_run_status (ru_status r) \<and> (ru_status r \<noteq> st \<or> ru_phase r \<noteq> phase) \<and>
             (\<exists>s \<in> set (rd_states d). rs_run_id s = ru_id r \<and> rs_active_attempt s = Some aid))
        (\<lambda>r. r\<lparr>ru_status := st, ru_phase := phase, ru_updated_at := re_now e\<rparr>) d))"

definition complete_step ::
  "coordinator \<Rightarrow> run_env \<Rightarrow> ident \<Rightarrow> json \<Rightarrow> execution_job option \<Rightarrow> run_db \<Rightarrow> run_error + run_db"
where
  "complete_step c e aid output job d =
     (case lock_active_attempt aid d of None \<Rightarrow> Inr d
      | Some ctx \<Rightarrow>
          (let a = cx_attempt ctx in
           if sa_status a \<notin> {StepRunning, StepWaiting} \<or> \<not> may_act (re_now e) job d then Inr d
           else advance c e (cx_tenant ctx) (sa_run_id a) (sa_step_index a) output
                  (update_attempts (\<lambda>x. sa_id x = sa_id a)
                     (\<lambda>x. (completed_attempt output (re_now e) x)\<lparr>sa_error := None\<rparr>) d)))"

definition job_id_of :: "execution_job option \<Rightarrow> ident option" where
  "job_id_of job = map_option xj_id job"

definition fail_step ::
  "coordinator \<Rightarrow> run_env \<Rightarrow> ident \<Rightarrow> string \<Rightarrow> execution_job option \<Rightarrow> bool \<Rightarrow> run_db \<Rightarrow> run_error + run_db"
where
  "fail_step c e aid err job allow d =
     (case lock_active_attempt aid d of None \<Rightarrow> Inr d
      | Some ctx \<Rightarrow>
          if \<not> live_step (sa_status (cx_attempt ctx)) \<or> \<not> may_act (re_now e) job d then Inr d
          else bind_run (fail_attempt c e ctx err (job_id_of job) allow ''Active workflow step is missing'' d)
                 (finish_told c e))"

section \<open>Invocations\<close>

definition register_invocation :: "run_env \<Rightarrow> execution_job \<Rightarrow> ident \<Rightarrow> run_db \<Rightarrow> bool \<times> run_db" where
  "register_invocation e job iid d =
     (case lease_of job of None \<Rightarrow> (False, d)
      | Some l \<Rightarrow>
          if \<not> run_active (xj_workflow_run_id job) d \<or> \<not> owns_job (re_now e) job d then (False, d)
          else if iid \<in> ai_invocation_id ` set (rd_invocations d) then (False, d)
          else (True, d\<lparr>rd_invocations := rd_invocations d @
                 [\<lparr>iv_execution_job_id = jl_job l, iv_lease_token = jl_token l, iv_lease_generation = jl_generation l,
                   ai_invocation_id = iid, ai_run_id = xj_workflow_run_id job,
                   ai_attempt_id = xj_workflow_step_attempt_id job, ai_created_at = re_now e\<rparr>]\<rparr>))"

definition unregister_invocation :: "run_env \<Rightarrow> execution_job \<Rightarrow> ident \<Rightarrow> run_db \<Rightarrow> bool \<times> run_db" where
  "unregister_invocation e job iid d =
     (case lease_of job of None \<Rightarrow> (False, d)
      | Some l \<Rightarrow>
          (let ours = (\<lambda>i. ai_invocation_id i = iid \<and> iv_execution_job_id i = jl_job l \<and> iv_lease_token i = jl_token l \<and>
                           iv_lease_generation i = jl_generation l) in
           if \<not> run_active (xj_workflow_run_id job) d \<or> \<not> owns_job (re_now e) job d then (False, d)
           else (\<exists>i \<in> set (rd_invocations d). ours i, delete_run_invocations ours d)))"

text \<open>
  \<open>invokeRuntime\<close>: what the runtime answers is taken only by a worker that held the lease before and after.
  \<open>meanwhile\<close> is what everybody else did to the tables while the runtime worked.
\<close>

datatype 'r invoked = Returned 'r | NotPrepared string | Threw string

datatype 'r invocation = Fenced | Answered 'r | Failed string | Rethrown string

definition invoke_runtime ::
  "run_env \<Rightarrow> run_env \<Rightarrow> execution_job \<Rightarrow> ident \<Rightarrow> 'r invoked \<Rightarrow> (run_db \<Rightarrow> run_db) \<Rightarrow> run_db \<Rightarrow> 'r invocation \<times> run_db"
where
  "invoke_runtime e1 e2 job iid result meanwhile d =
     (case register_invocation e1 job iid d of
        (False, d1) \<Rightarrow> (Fenced, d1)
      | (True, d1) \<Rightarrow>
          (case unregister_invocation e2 job iid (meanwhile d1) of
             (False, d2) \<Rightarrow> (Fenced, d2)
           | (True, d2) \<Rightarrow>
               (case result of Returned r \<Rightarrow> Answered r | NotPrepared m \<Rightarrow> Failed m | Threw m \<Rightarrow> Rethrown m, d2)))"

section \<open>Pauses and signals\<close>

datatype pause_end = Resumed | TimedOut

definition pause_output :: "pause_row \<Rightarrow> pause_end \<Rightarrow> json" where
  "pause_output p reason =
     JObj ([(''reason'', JStr (case reason of Resumed \<Rightarrow> ''resumed'' | TimedOut \<Rightarrow> ''timed_out''))]
       @ (case reason of Resumed \<Rightarrow> [(''value'', or_null (pz_resume_value p))] | TimedOut \<Rightarrow> [])
       @ when_some ''state'' (\<lambda>v. v) (pz_state p))"

definition resolve_pause :: "coordinator \<Rightarrow> run_env \<Rightarrow> pause_row \<Rightarrow> pause_end \<Rightarrow> run_db \<Rightarrow> run_error + run_db" where
  "resolve_pause c e p reason d =
     (case lock_active_attempt (pz_attempt_id p) d of None \<Rightarrow> Inr d
      | Some ctx \<Rightarrow>
          (let a = cx_attempt ctx; output = pause_output p reason in
           if sa_status a \<noteq> StepWaiting then Inr d
           else advance c e (cx_tenant ctx) (pz_run_id p) (sa_step_index a) output
                  (update_attempts (\<lambda>x. sa_id x = sa_id a) (completed_attempt output (re_now e)) d)))"

definition timed_out_pause :: "instant \<Rightarrow> pause_row \<Rightarrow> pause_row" where
  "timed_out_pause now p = p\<lparr>pz_status := PauseTimedOut, pz_resolved_at := Some now\<rparr>"

definition resumed_pause :: "instant \<Rightarrow> json \<Rightarrow> string \<Rightarrow> string \<Rightarrow> pause_row \<Rightarrow> pause_row" where
  "resumed_pause now value key hash p =
     p\<lparr>pz_status := PauseResumed, pz_resume_value := Some value, pz_resume_key := Some key,
       pz_resume_hash := Some hash, pz_resolved_at := Some now\<rparr>"

definition pause_due :: "instant \<Rightarrow> pause_row \<Rightarrow> bool" where
  "pause_due now p \<longleftrightarrow> (case pz_timeout_at p of None \<Rightarrow> False | Some t \<Rightarrow> t \<le> now)"

definition buffered_for :: "ident \<Rightarrow> string \<Rightarrow> run_db \<Rightarrow> signal_row list" where
  "buffered_for rid name d =
     sort_key sg_sequence (filter (\<lambda>s. sg_run_id s = rid \<and> sg_name s = name \<and> sg_status s = SignalBuffered) (rd_signals d))"

definition taken_signal :: "instant \<Rightarrow> ident \<Rightarrow> signal_row \<Rightarrow> signal_row" where
  "taken_signal now pause s =
     s\<lparr>sg_status := SignalResumed, sg_pause_id := Some pause, sg_value := None, sg_resolved_at := Some now\<rparr>"

definition resolve_named_pause :: "coordinator \<Rightarrow> run_env \<Rightarrow> pause_row \<Rightarrow> run_db \<Rightarrow> run_error + bool \<times> run_db" where
  "resolve_named_pause c e p d =
     (let now = re_now e in
      if pause_due now p
      then bind_run (resolve_pause c e p TimedOut (update_pauses (\<lambda>x. pz_id x = pz_id p) (timed_out_pause now) d))
             (\<lambda>d'. Inr (True, d'))
      else (case pz_signal_name p of None \<Rightarrow> Inr (False, d)
        | Some name \<Rightarrow> (case buffered_for (pz_run_id p) name d of [] \<Rightarrow> Inr (False, d)
            | s # _ \<Rightarrow>
                (let v = or_null (sg_value s);
                     d1 = d\<lparr>rd_signals := update_where (\<lambda>x. sg_id x = sg_id s) (taken_signal now (pz_id p)) (rd_signals d)\<rparr>;
                     d2 = update_pauses (\<lambda>x. pz_id x = pz_id p) (resumed_pause now v (sg_key s) (co_sha256 c v)) d1
                 in bind_run (resolve_pause c e (p\<lparr>pz_resume_value := sg_value s\<rparr>) Resumed d2) (\<lambda>d'. Inr (True, d'))))))"

definition new_pause :: "run_env \<Rightarrow> step_attempt_row \<Rightarrow> json_object \<Rightarrow> instant option \<Rightarrow> pause_row" where
  "new_pause e a transition timeout_at =
     \<lparr>pz_id = re_pause_id e, pz_run_id = sa_run_id a, pz_attempt_id = sa_id a, pz_status = PauseOpen,
      pz_state = (if map_of transition ''statePresent'' = Some (JBool True) then Some (or_null (map_of transition ''state'')) else None),
      pz_timeout_at = timeout_at, pz_signal_name = string_value (map_of transition ''signal''),
      pz_resume_value = None, pz_resume_key = None, pz_resume_hash = None, pz_resolved_at = None\<rparr>"

definition pause_refused :: "pause_row \<Rightarrow> run_db \<Rightarrow> bool" where
  "pause_refused p d \<longleftrightarrow>
     (\<exists>x \<in> set (rd_pauses d). pz_run_id x = pz_run_id p \<and>
        (pz_attempt_id x = pz_attempt_id p \<or>
         pz_signal_name p \<noteq> None \<and> pz_signal_name x = pz_signal_name p \<and> pz_status x = PauseOpen))"

definition timeout_job :: "ident \<Rightarrow> pause_row \<Rightarrow> instant \<Rightarrow> job_request" where
  "timeout_job tenant p tm =
     \<lparr>jq_tenant_id = tenant, jq_kind = DurablePauseTimeout, jq_payload = JObj [(''pauseId'', JStr (pz_id p))],
      jq_priority = None, jq_available_at = Some tm, jq_max_attempts = Some 10,
      jq_dedupe_key = Some (pause_job_key (pz_run_id p) (pz_id p)), jq_workflow_run_id = pz_run_id p,
      jq_workflow_step_attempt_id = Some (pz_attempt_id p)\<rparr>"

definition pause_timeout :: "instant \<Rightarrow> json_object \<Rightarrow> run_error + instant option" where
  "pause_timeout now transition =
     bind_run (duration_field ''timeout'' (JObj transition)) (\<lambda>q. Inr (map_option (\<lambda>ms. to_ms (of_int now + ms)) q))"

definition suspend_for_pause ::
  "coordinator \<Rightarrow> run_env \<Rightarrow> ident \<Rightarrow> execution_job \<Rightarrow> json_object \<Rightarrow> run_db \<Rightarrow> run_error + run_db"
where
  "suspend_for_pause c e aid job transition d =
     (case lock_active_attempt aid d of None \<Rightarrow> Inr d
      | Some ctx \<Rightarrow>
          (let a = cx_attempt ctx; now = re_now e; rid = sa_run_id a in
           if sa_status a \<noteq> StepRunning \<or> \<not> owns_job now job d then Inr d
           else bind_run (pause_timeout now transition) (\<lambda>timeout_at.
             (let p = new_pause e a transition timeout_at;
                  d1 = d\<lparr>rd_pauses := rd_pauses d @ [p]\<rparr>;
                  d2 = update_attempts (\<lambda>x. sa_id x = sa_id a) (\<lambda>x. x\<lparr>sa_status := StepWaiting, sa_updated_at := now\<rparr>) d1;
                  d3 = snd (update_runs now (\<lambda>r. ru_id r = rid \<and> is_active_run_status (ru_status r))
                         (\<lambda>r. r\<lparr>ru_status := RunWaiting, ru_phase := PausePhase, ru_updated_at := now\<rparr>) d2)
              in if pause_refused p d then Inl UniqueViolated
                 else bind_run (resolve_named_pause c e p d3) (\<lambda>(resolved, d4).
                   if resolved then Inr d4
                   else (case timeout_at of None \<Rightarrow> Inr d4
                     | Some tm \<Rightarrow> enqueue_job e (re_job_id e (pz_id p)) (timeout_job (cx_tenant ctx) p tm) d4))))))"

datatype signal_outcome = SignalKept | SignalDropped | SignalTaken ident

record signal_receipt =
  sr_id :: ident
  sr_run_id :: ident
  sr_outcome :: signal_outcome

definition receipt_of_signal :: "signal_row \<Rightarrow> run_error + signal_receipt" where
  "receipt_of_signal s =
     (case (sg_status s, sg_pause_id s) of
        (SignalResumed, Some p) \<Rightarrow> Inr \<lparr>sr_id = sg_id s, sr_run_id = sg_run_id s, sr_outcome = SignalTaken p\<rparr>
      | (SignalBuffered, _) \<Rightarrow> Inr \<lparr>sr_id = sg_id s, sr_run_id = sg_run_id s, sr_outcome = SignalKept\<rparr>
      | (SignalDiscarded, _) \<Rightarrow> Inr \<lparr>sr_id = sg_id s, sr_run_id = sg_run_id s, sr_outcome = SignalDropped\<rparr>
      | (SignalResumed, None) \<Rightarrow> Inl InvalidSignalReceipt)"

record signal_request =
  sq_tenant :: ident
  sq_project_id :: ident
  sq_workflow_name :: string
  sq_correlation_key :: string
  sq_run_id :: ident
  sq_signal :: string
  sq_key :: string
  sq_value :: json

definition signaled_run :: "signal_request \<Rightarrow> run_db \<Rightarrow> run_row option" where
  "signaled_run q d =
     (case lock_run (sq_run_id q) d of None \<Rightarrow> None
      | Some r \<Rightarrow> if rd_tenant_of d (ru_project_id r) = sq_tenant q \<and> ru_project_id r = sq_project_id q \<and>
            ru_workflow_name r = sq_workflow_name q \<and> ru_correlation_key r = Some (sq_correlation_key q) then Some r else None)"

definition new_signal :: "run_env \<Rightarrow> signal_request \<Rightarrow> string \<times> string \<Rightarrow> run_db \<Rightarrow> signal_row" where
  "new_signal e q payload d =
     \<lparr>sg_id = re_signal_id e, sg_sequence = rd_sequence d + 1, sg_run_id = sq_run_id q, sg_name = fst payload,
      sg_key = sq_key q, sg_hash = snd payload, sg_value = Some (sq_value q), sg_status = SignalBuffered,
      sg_pause_id = None, sg_resolved_at = None\<rparr>"

definition open_pause_named :: "ident \<Rightarrow> string \<Rightarrow> run_db \<Rightarrow> pause_row option" where
  "open_pause_named rid name d =
     List.find (\<lambda>p. pz_run_id p = rid \<and> pz_signal_name p = Some name \<and> pz_status p = PauseOpen) (rd_pauses d)"

definition put_signal :: "coordinator \<Rightarrow> run_env \<Rightarrow> signal_row \<Rightarrow> run_db \<Rightarrow> run_error + signal_receipt \<times> run_db" where
  "put_signal c e s d =
     (let d1 = d\<lparr>rd_signals := rd_signals d @ [s], rd_sequence := sg_sequence s\<rparr> in
      bind_run (case open_pause_named (sg_run_id s) (sg_name s) d1 of None \<Rightarrow> Inr d1
                | Some p \<Rightarrow> bind_run (resolve_named_pause c e p d1) (\<lambda>x. Inr (snd x))) (\<lambda>d2.
      (case find_row sg_id (sg_id s) (rd_signals d2) of None \<Rightarrow> Inl InvalidSignalReceipt
       | Some s' \<Rightarrow> bind_run (receipt_of_signal s') (\<lambda>r. Inr (r, d2)))))"

definition signal_by_key ::
  "coordinator \<Rightarrow> signal_env \<Rightarrow> run_env \<Rightarrow> signal_request \<Rightarrow> run_db \<Rightarrow> run_error + signal_receipt \<times> run_db"
where
  "signal_by_key c se e q d =
     bind_run (signal_payload se (sq_signal q) (sq_key q) (sq_value q)) (\<lambda>payload.
       (case signaled_run q d of
          None \<Rightarrow> Inl (SignalNotFound (sq_workflow_name q) (sq_correlation_key q) (sq_signal q))
        | Some run \<Rightarrow>
            (case List.find (\<lambda>s. sg_run_id s = ru_id run \<and> sg_key s = sq_key q) (rd_signals d) of
               Some s \<Rightarrow>
                 if sg_name s \<noteq> fst payload \<or> sg_hash s \<noteq> snd payload
                 then Inl (ResumeConflict ''Signal idempotency key was used with different content'')
                 else bind_run (receipt_of_signal s) (\<lambda>r. Inr (r, d))
             | None \<Rightarrow>
                 (let ours = filter (\<lambda>s. sg_run_id s = ru_id run) (rd_signals d) in
                  if \<not> is_active_run_status (ru_status run) then Inl (ResumeConflict ''Run generation is not active'')
                  else if RUN_SIGNAL_MAX_RECEIPTS \<le> length ours
                  then Inl (SignalLimit ''Run has reached its 1024 signal receipt limit'')
                  else if RUN_SIGNAL_MAX_PENDING \<le> length (filter (\<lambda>s. sg_status s = SignalBuffered) ours)
                  then Inl (SignalLimit ''Run has reached its 256 pending signal limit'')
                  else put_signal c e (new_signal e q payload d) d))))"

definition owned_run :: "ident \<Rightarrow> ident \<Rightarrow> run_db \<Rightarrow> run_row option" where
  "owned_run tenant rid d =
     (case lock_run rid d of None \<Rightarrow> None
      | Some r \<Rightarrow> if rd_tenant_of d (ru_project_id r) = tenant then Some r else None)"

definition resume_pause ::
  "coordinator \<Rightarrow> run_env \<Rightarrow> ident \<Rightarrow> ident \<Rightarrow> ident \<Rightarrow> string \<Rightarrow> json \<Rightarrow> run_db \<Rightarrow> run_error + run_db"
where
  "resume_pause c e tenant rid pid key value d =
     (let now = re_now e; hash = co_sha256 c value in
      case owned_run tenant rid d of None \<Rightarrow> Inl (RunNotFound rid)
      | Some run \<Rightarrow>
          (case find_row pz_id pid (rd_pauses d) of None \<Rightarrow> Inl (PauseNotFound pid)
           | Some p \<Rightarrow>
               if pz_run_id p \<noteq> rid then Inl (PauseNotFound pid)
               else if pz_status p \<noteq> PauseOpen
               then (if pz_resume_key p = Some key \<and> pz_resume_hash p = Some hash then Inr d
                     else Inl (ResumeConflict ''Pause is already resolved''))
               else if \<not> is_active_run_status (ru_status run) then Inl (ResumeConflict ''Run is not active'')
               else if pause_due now p
               then resolve_pause c e p TimedOut
                      (update_pauses (\<lambda>x. pz_id x = pid \<and> pz_status x = PauseOpen) (timed_out_pause now) d)
               else resolve_pause c e (p\<lparr>pz_resume_value := Some value\<rparr>) Resumed
                      (update_pauses (\<lambda>x. pz_id x = pid) (resumed_pause now value key hash) d)))"

definition resolve_pause_timeout :: "coordinator \<Rightarrow> run_env \<Rightarrow> execution_job \<Rightarrow> run_db \<Rightarrow> run_error + run_db" where
  "resolve_pause_timeout c e job d =
     (let now = re_now e; rid = xj_workflow_run_id job in
      case string_value (member ''pauseId'' (xj_payload job)) of None \<Rightarrow> Inl InvalidTimeoutJob
      | Some pid \<Rightarrow>
          if \<not> run_active rid d \<or> \<not> owns_job now job d then Inr d
          else (case find_row pz_id pid (rd_pauses d) of None \<Rightarrow> Inr d
            | Some p \<Rightarrow>
                if pz_run_id p \<noteq> rid \<or> pz_status p \<noteq> PauseOpen then Inr d
                else (case pz_timeout_at p of None \<Rightarrow> Inr d
                  | Some tm \<Rightarrow>
                      if now < tm then Inl (DeferredUntil tm)
                      else resolve_pause c e p TimedOut (update_pauses (\<lambda>x. pz_id x = pid) (timed_out_pause now) d))))"

section \<open>Children\<close>

record child_request =
  cr_workflow_name :: string
  cr_capabilities :: json
  cr_plan :: "step_descriptor list"
  cr_permissions :: "permission list"
  cr_display_name :: "string option"
  cr_input :: json

definition set_member :: "string \<Rightarrow> json option \<Rightarrow> json_object \<Rightarrow> json_object" where
  "set_member k v o' = (case v of None \<Rightarrow> filter (\<lambda>kv. fst kv \<noteq> k) o' | Some x \<Rightarrow> put_row fst (k, x) o')"

definition child_run :: "run_env \<Rightarrow> attempt_context \<Rightarrow> child_request \<Rightarrow> step_descriptor \<Rightarrow> run_row" where
  "child_run e ctx q first =
     (let parent = cx_run ctx in
      \<lparr>ru_id = re_child_id e, ru_project_id = ru_project_id parent, ru_workflow_name = cr_workflow_name q,
       ru_status = RunPending, ru_phase = phase_for first, ru_input = Some (cr_input q), ru_result = None, ru_error = None,
       ru_cancel_requested_at = None, ru_cancel_reason = None, ru_parent_run_id = Some (ru_id parent),
       ru_parent_attempt_id = Some (sa_id (cx_attempt ctx)), ru_allocation_id = ru_allocation_id parent,
       ru_environment_name = ru_environment_name parent, ru_correlation_key = None,
       ru_provenance = set_member ''capabilities'' (Some (cr_capabilities q))
         (set_member ''displayName'' (map_option JStr (cr_display_name q)) (ru_provenance parent)),
       ru_deployment_artifact_id = ru_deployment_artifact_id parent, ru_session_artifact_id = ru_session_artifact_id parent,
       ru_external_user_id = ru_external_user_id parent, ru_caller_scope = ru_caller_scope parent,
       ru_caller_execution_scope = ru_caller_execution_scope parent, ru_caller_connection_scope = ru_caller_connection_scope parent,
       ru_caller_permissions = (if ru_caller_scope parent = None then None
         else Some (permissions_json (child_permissions (ru_project_id parent) (ru_caller_permissions parent) (cr_permissions q)))),
       ru_started_at = None, ru_completed_at = None, ru_updated_at = re_now e\<rparr>)"

definition suspend_for_child ::
  "coordinator \<Rightarrow> run_env \<Rightarrow> ident \<Rightarrow> execution_job \<Rightarrow> child_request \<Rightarrow> json option \<Rightarrow> run_db \<Rightarrow>
   run_error + ident option \<times> run_db"
where
  "suspend_for_child c e aid job q state d =
     (case lock_active_attempt aid d of None \<Rightarrow> Inr (None, d)
      | Some ctx \<Rightarrow>
          (let a = cx_attempt ctx; now = re_now e; parent = cx_run ctx in
           if ru_status parent \<noteq> RunRunning \<or> sa_status a \<noteq> StepRunning \<or> \<not> owns_job now job d then Inr (None, d)
           else if ru_deployment_artifact_id parent = None then Inl MissingArtifact
           else (case cr_plan q of [] \<Rightarrow> Inl EmptyPlan
             | first # _ \<Rightarrow>
                 (let d1 = d\<lparr>rd_runs := rd_runs d @ [child_run e ctx q first]\<rparr>;
                      d2 = update_attempts (\<lambda>x. sa_id x = sa_id a)
                             (\<lambda>x. x\<lparr>sa_status := StepWaiting, sa_updated_at := now,
                                sa_call_state := (case state of None \<Rightarrow> sa_call_state x | Some v \<Rightarrow> Some v)\<rparr>) d1;
                      d3 = snd (update_runs now (\<lambda>r. ru_id r = ru_id parent \<and> is_active_run_status (ru_status r))
                             (\<lambda>r. r\<lparr>ru_status := RunWaiting, ru_phase := ChildPhase, ru_updated_at := now\<rparr>) d2)
                  in if \<exists>r \<in> set (rd_runs d). ru_parent_run_id r = Some (ru_id parent) \<and> ru_parent_attempt_id r = Some (sa_id a)
                     then Inl UniqueViolated
                     else bind_run (initialize c e (cx_tenant ctx) (re_child_id e) (cr_plan q) (cr_input q) d3)
                            (\<lambda>d'. Inr (Some (re_child_id e), d'))))))"

definition ended_with :: "run_row \<Rightarrow> outcome" where
  "ended_with r =
     (if ru_status r = RunCompleted then put_output (or_null (ru_result r))
      else put_error (case ru_error r of Some err \<Rightarrow> err
        | None \<Rightarrow> (case ru_cancel_reason r of Some why \<Rightarrow> why
            | None \<Rightarrow> ''Child workflow '' @ run_status_text (ru_status r))))"

definition reconcile_parent :: "coordinator \<Rightarrow> run_env \<Rightarrow> ident \<Rightarrow> run_db \<Rightarrow> run_error + run_db" where
  "reconcile_parent c e child d =
     (case lock_run child d of None \<Rightarrow> Inr d
      | Some r \<Rightarrow> if \<not> is_terminal_run_status (ru_status r) then Inr d else finish_parent c e child (ended_with r) d)"

definition reconcile_terminal_child :: "coordinator \<Rightarrow> run_env \<Rightarrow> execution_job \<Rightarrow> run_db \<Rightarrow> run_error + run_db" where
  "reconcile_terminal_child c e job d =
     (if owns_job (re_now e) job d then reconcile_parent c e (xj_workflow_run_id job) d else Inr d)"

end
