(* ===== verification/Run_Control.thy ===== *)
theory Run_Control
  imports Run_Operations
begin

text \<open>
  What is done to a run from outside its steps (\<open>run-coordinator.ts\<close>): an operator holds a batch and lets
  it go on, a run is canceled with every run under it, a tree that can run nowhere fails, and a job
  that was tried too often fails its attempt.
\<close>

section \<open>Operators\<close>

definition active_batch_state :: "ident \<Rightarrow> run_db \<Rightarrow> run_state_row option" where
  "active_batch_state rid d =
     (case find_row rs_run_id rid (rd_states d) of None \<Rightarrow> None
      | Some s \<Rightarrow> (case rs_active_attempt s of None \<Rightarrow> None
          | Some aid \<Rightarrow> (case find_row sa_id aid (rd_attempts d) of None \<Rightarrow> None
              | Some a \<Rightarrow> if sa_executor a = ByBatch then Some s else None)))"

datatype pause_answer = Paused | AlreadyPaused | PauseUnavailable

definition batch_phase :: "run_phase \<Rightarrow> bool" where
  "batch_phase p \<longleftrightarrow> p \<in> {SourcePhase, ProcessPhase, SinkPhase}"

definition pause_operator :: "run_env \<Rightarrow> ident \<Rightarrow> ident \<Rightarrow> run_db \<Rightarrow> run_error + pause_answer \<times> run_db" where
  "pause_operator e tenant rid d =
     (case owned_run tenant rid d of None \<Rightarrow> Inl (RunNotFound rid)
      | Some run \<Rightarrow>
          (let st = active_batch_state rid d; now = re_now e in
           if ru_status run = RunPaused
           then Inr (case st of Some s \<Rightarrow> if rs_prev_status s \<noteq> None then AlreadyPaused else PauseUnavailable
                     | None \<Rightarrow> PauseUnavailable, d)
           else (case st of None \<Rightarrow> Inr (PauseUnavailable, d)
             | Some s \<Rightarrow>
                 if \<not> is_active_run_status (ru_status run) \<or> \<not> batch_phase (ru_phase run) \<or> rs_prev_status s \<noteq> None
                 then Inr (PauseUnavailable, d)
                 else Inr (Paused, snd (update_runs now (\<lambda>r. ru_id r = rid \<and> is_active_run_status (ru_status r))
                        (\<lambda>r. r\<lparr>ru_status := RunPaused, ru_updated_at := now\<rparr>)
                        (update_states (\<lambda>x. rs_run_id x = rid \<and> rs_prev_status x = None)
                           (\<lambda>x. x\<lparr>rs_prev_status := Some (ru_status run), rs_prev_phase := Some (ru_phase run),
                              rs_updated_at := now\<rparr>) d))))))"

datatype resume_answer = OperatorResumed | AlreadyRunning | ResumeUnavailable

definition wake_run_jobs :: "run_env \<Rightarrow> ident \<Rightarrow> run_db \<Rightarrow> run_db" where
  "wake_run_jobs e rid d =
     d\<lparr>rd_jobs := jd_jobs (snd (make_run_available (re_now e) (re_host e) rid (Some (re_now e)) (queue_view d)))\<rparr>"

definition resume_operator :: "run_env \<Rightarrow> ident \<Rightarrow> ident \<Rightarrow> run_db \<Rightarrow> run_error + resume_answer \<times> run_db" where
  "resume_operator e tenant rid d =
     (case owned_run tenant rid d of None \<Rightarrow> Inl (RunNotFound rid)
      | Some run \<Rightarrow>
          (case active_batch_state rid d of None \<Rightarrow> Inr (ResumeUnavailable, d)
           | Some s \<Rightarrow>
               (let now = re_now e in
                if ru_status run \<noteq> RunPaused
                then Inr (if ru_status run = RunRunning \<and> batch_phase (ru_phase run) \<and> rs_prev_status s = None
                          then AlreadyRunning else ResumeUnavailable, d)
                else if rs_prev_status s = None then Inr (ResumeUnavailable, d)
                else Inr (OperatorResumed, wake_run_jobs e rid
                       (update_states (\<lambda>x. rs_run_id x = rid)
                          (\<lambda>x. x\<lparr>rs_prev_status := None, rs_prev_phase := None, rs_updated_at := now\<rparr>)
                          (snd (update_runs now (\<lambda>r. ru_id r = rid \<and> ru_status r = RunPaused)
                             (\<lambda>r. r\<lparr>ru_status := or_default (rs_prev_status s) RunRunning,
                                ru_phase := or_default (rs_prev_phase s) ProcessPhase, ru_updated_at := now\<rparr>) d)))))))"

section \<open>The runs under a run\<close>

definition children_of :: "run_row list \<Rightarrow> run_row \<Rightarrow> run_row list" where
  "children_of rows parent = sort_key ru_id (filter (\<lambda>r. ru_parent_run_id r = Some (ru_id parent)) rows)"

definition add_run :: "run_row \<Rightarrow> run_row list \<Rightarrow> run_row list" where
  "add_run r runs = (if ru_id r \<in> ru_id ` set runs then runs else runs @ [r])"

text \<open>A row added is one less to add.\<close>

definition rows_left :: "run_row list \<Rightarrow> run_row list \<Rightarrow> nat" where
  "rows_left rows runs = card (ru_id ` set rows - ru_id ` set runs)"

lemma rows_left_add: "r \<in> set rows \<Longrightarrow> rows_left rows (add_run r runs) + length (add_run r runs) = rows_left rows runs + length runs"
proof -
  assume r: "r \<in> set rows"
  show ?thesis
  proof (cases "ru_id r \<in> ru_id ` set runs")
    case False
    then have "ru_id ` set rows - ru_id ` set (runs @ [r]) = (ru_id ` set rows - ru_id ` set runs) - {ru_id r}" by auto
    moreover have "ru_id r \<in> ru_id ` set rows - ru_id ` set runs" using r False by auto
    ultimately have "Suc (rows_left rows (runs @ [r])) = rows_left rows runs"
      unfolding rows_left_def by (metis List.finite_set card_Suc_Diff1 finite_Diff finite_imageI)
    with False show ?thesis by (simp add: add_run_def)
  qed (simp add: add_run_def)
qed

lemma rows_left_fold:
  "set rs \<subseteq> set rows \<Longrightarrow> rows_left rows (fold add_run rs runs) + length (fold add_run rs runs) = rows_left rows runs + length runs"
  by (induction rs arbitrary: runs) (auto simp: rows_left_add)

lemma length_fold_add_run: "length runs \<le> length (fold add_run rs runs)"
proof (induction rs arbitrary: runs)
  case (Cons r rs)
  have "length runs \<le> length (add_run r runs)" by (simp add: add_run_def)
  with Cons show ?case using order_trans by fastforce
qed simp

lemma children_of_subset: "set (children_of rows parent) \<subseteq> set rows"
  by (auto simp: children_of_def)

function run_hierarchy :: "run_row list \<Rightarrow> nat \<Rightarrow> run_row list \<Rightarrow> run_row list" where
  "run_hierarchy rows i runs =
     (if i < length runs then run_hierarchy rows (Suc i) (fold add_run (children_of rows (runs ! i)) runs) else runs)"
  by pat_completeness auto

termination
proof (relation "measure (\<lambda>(rows, i, runs). rows_left rows runs + length runs - i)")
  fix rows runs :: "run_row list" and i assume i: "i < length runs"
  let ?rs = "fold add_run (children_of rows (runs ! i)) runs"
  have "rows_left rows ?rs + length ?rs = rows_left rows runs + length runs"
    by (rule rows_left_fold [OF children_of_subset])
  with i length_fold_add_run [of runs "children_of rows (runs ! i)"]
  show "((rows, Suc i, ?rs), rows, i, runs) \<in> measure (\<lambda>(rows, i, runs). rows_left rows runs + length runs - i)" by simp
qed simp

declare run_hierarchy.simps [simp del]

definition lock_run_hierarchy :: "run_row \<Rightarrow> run_db \<Rightarrow> run_row list" where
  "lock_run_hierarchy topmost d = run_hierarchy (rd_runs d) 0 [topmost]"

section \<open>Canceling\<close>

definition cancel_batch :: "ident set \<Rightarrow> instant \<Rightarrow> batch_tables \<Rightarrow> batch_tables" where
  "cancel_batch ids now b =
     (let ended = (\<lambda>x. x\<lparr>bt_status := BatchCanceled, bt_completed_at := Some now, bt_updated_at := now\<rparr>) in
      b\<lparr>bd_items := update_where (\<lambda>x. bt_run_id x \<in> ids \<and> bt_status x \<in> {BatchPending, BatchRunning, BatchWaiting}) ended (bd_items b),
        bd_invocations := update_where (\<lambda>x. bt_run_id x \<in> ids \<and> bt_status x \<in> {BatchPending, BatchRunning}) ended (bd_invocations b)\<rparr>)"

definition cancel_runs :: "instant \<Rightarrow> string option \<Rightarrow> ident set \<Rightarrow> run_db \<Rightarrow> run_db" where
  "cancel_runs now reason ids d =
     (let d1 = snd (update_runs now (\<lambda>r. ru_id r \<in> ids)
                 (\<lambda>r. r\<lparr>ru_status := RunCanceling, ru_cancel_requested_at := Some now, ru_cancel_reason := reason,
                    ru_updated_at := now\<rparr>) d);
          d2 = update_attempts (\<lambda>a. sa_run_id a \<in> ids \<and> live_step (sa_status a))
                 (\<lambda>a. a\<lparr>sa_status := StepCanceled, sa_completed_at := Some now, sa_updated_at := now\<rparr>) d1;
          d3 = update_pauses (\<lambda>p. pz_run_id p \<in> ids \<and> pz_status p = PauseOpen) (cancel_pause now) d2;
          d4 = d3\<lparr>rd_batch := cancel_batch ids now (rd_batch d3)\<rparr>;
          d5 = update_jobs (\<lambda>j. ej_workflow_run_id j \<in> ids \<and> live_job (ej_status j)) (canceled_now now) d4;
          d6 = delete_run_invocations (\<lambda>i. ai_run_id i \<in> ids) d5
      in snd (update_runs now (\<lambda>r. ru_id r \<in> ids \<and> ru_status r = RunCanceling)
           (\<lambda>r. r\<lparr>ru_status := RunCanceled, ru_completed_at := Some now, ru_updated_at := now\<rparr>) d6))"

definition stopped_invocations :: "run_row list \<Rightarrow> run_row list \<Rightarrow> run_db \<Rightarrow> (ident \<times> ident) list" where
  "stopped_invocations runs active d =
     List.map_filter (\<lambda>i. map_option (\<lambda>artifact. (artifact, ai_invocation_id i))
         (Option.bind (find_row ru_id (ai_run_id i) active) ru_deployment_artifact_id))
       (sort_key ai_created_at (filter (\<lambda>i. ai_run_id i \<in> ru_id ` set runs) (rd_invocations d)))"

definition cancel_in ::
  "run_env \<Rightarrow> ident \<Rightarrow> ident \<Rightarrow> string option \<Rightarrow> run_db \<Rightarrow> run_error + ((ident \<times> ident) list \<times> ident option) \<times> run_db"
where
  "cancel_in e tenant rid reason d =
     (case owned_run tenant rid d of None \<Rightarrow> Inl (RunNotFound rid)
      | Some topmost \<Rightarrow>
          (let runs = lock_run_hierarchy topmost d;
               active = filter (\<lambda>r. \<not> is_terminal_run_status (ru_status r)) runs
           in if active = []
              then Inr (([], if ru_parent_run_id topmost = None then None else Some rid), d)
              else Inr ((stopped_invocations runs active d,
                         case ru_parent_run_id topmost of None \<Rightarrow> None
                         | Some p \<Rightarrow> if p \<in> ru_id ` set runs then None else Some rid),
                        fold (release_root (re_now e)) active (cancel_runs (re_now e) reason (ru_id ` set active) d))))"

text \<open>\<open>e2\<close> is the second transaction's, and \<open>meanwhile\<close> what others did before it.\<close>

definition cancel ::
  "coordinator \<Rightarrow> run_env \<Rightarrow> run_env \<Rightarrow> ident \<Rightarrow> ident \<Rightarrow> string option \<Rightarrow> (run_db \<Rightarrow> run_db) \<Rightarrow> run_db \<Rightarrow>
   run_error + (ident \<times> ident) list \<times> run_db"
where
  "cancel c e e2 tenant rid reason meanwhile d =
     bind_run (cancel_in e tenant rid reason d) (\<lambda>((stopped, child), d1).
       (case child of None \<Rightarrow> Inr (stopped, d1)
        | Some ch \<Rightarrow> bind_run (reconcile_parent c e2 ch (meanwhile d1)) (\<lambda>d2. Inr (stopped, d2))))"

section \<open>Failing a tree, and a job tried too often\<close>

definition fail_each :: "coordinator \<Rightarrow> run_env \<Rightarrow> string \<Rightarrow> run_row \<Rightarrow> run_error + run_db \<Rightarrow> run_error + run_db" where
  "fail_each c e err r m =
     (if ru_status r \<in> set (ACTIVE_RUN_STATUSES @ [RunPaused])
      then bind_run m (fail_run c e (ru_id r) err None (ACTIVE_RUN_STATUSES @ [RunPaused])) else m)"

definition fail_run_tree :: "coordinator \<Rightarrow> run_env \<Rightarrow> ident \<Rightarrow> string \<Rightarrow> run_db \<Rightarrow> run_error + run_db" where
  "fail_run_tree c e rid err d =
     (case lock_run rid d of None \<Rightarrow> Inr d
      | Some topmost \<Rightarrow> fold (fail_each c e err) (lock_run_hierarchy topmost d) (Inr d))"

definition handle_exhausted_job :: "coordinator \<Rightarrow> run_env \<Rightarrow> execution_job \<Rightarrow> string \<Rightarrow> run_db \<Rightarrow> run_error + run_db" where
  "handle_exhausted_job c e job err d =
     (case xj_workflow_step_attempt_id job of
        Some aid \<Rightarrow> fail_step c e aid err None (xj_kind job \<noteq> DurableBoundary) d
      | None \<Rightarrow>
          (let rid = xj_workflow_run_id job in
           case lock_run rid d of None \<Rightarrow> Inr d
           | Some r \<Rightarrow>
               if is_terminal_run_status (ru_status r) then reconcile_parent c e rid d
               else if \<not> is_active_run_status (ru_status r) then Inr d
               else fail_run c e rid err None ACTIVE_RUN_STATUSES d))"

section \<open>Starting a run\<close>

text \<open>
  How \<open>runs-service.ts\<close> starts a run of its own: the row is inserted pending, with no parent, with what
  its caller may do, and the coordinator is asked to begin it, in one transaction. \<open>held\<close> are the
  permissions of a caller with a scope, \<open>declared\<close> those of the workflow.
\<close>

record new_run =
  nr_id :: ident
  nr_project_id :: ident
  nr_workflow_name :: string
  nr_allocation_id :: "ident option"
  nr_environment_name :: "string option"
  nr_correlation_key :: "string option"
  nr_provenance :: json_object
  nr_capabilities :: json
  nr_artifact_id :: ident
  nr_session_artifact_id :: "ident option"
  nr_external_user_id :: ident
  nr_scope :: "json option"
  nr_execution_scope :: "json option"
  nr_connection_scope :: "json option"
  nr_held :: "permission_ref list"
  nr_declared :: "permission list"
  nr_plan :: "step_descriptor list"
  nr_input :: json

definition started_run :: "instant \<Rightarrow> new_run \<Rightarrow> run_row" where
  "started_run now q =
     \<lparr>ru_id = nr_id q, ru_project_id = nr_project_id q, ru_workflow_name = nr_workflow_name q, ru_status = RunPending,
      ru_phase = (case nr_plan q of desc # _ \<Rightarrow> phase_for desc | [] \<Rightarrow> BoundaryPhase),
      ru_input = Some (nr_input q), ru_result = None, ru_error = None, ru_cancel_requested_at = None, ru_cancel_reason = None,
      ru_parent_run_id = None, ru_parent_attempt_id = None, ru_allocation_id = nr_allocation_id q,
      ru_environment_name = nr_environment_name q, ru_correlation_key = nr_correlation_key q,
      ru_provenance = set_member ''capabilities'' (Some (nr_capabilities q)) (nr_provenance q),
      ru_deployment_artifact_id = Some (nr_artifact_id q), ru_session_artifact_id = nr_session_artifact_id q,
      ru_external_user_id = Some (nr_external_user_id q), ru_caller_scope = nr_scope q,
      ru_caller_execution_scope = nr_execution_scope q, ru_caller_connection_scope = nr_connection_scope q,
      ru_caller_permissions = (if nr_scope q = None then None
        else Some (permissions_json (intersect_project_permissions (map (\<lambda>p. (nr_project_id q, p)) (nr_declared q)) (Some (nr_held q))))),
      ru_started_at = None, ru_completed_at = None, ru_updated_at = now\<rparr>"

definition key_taken :: "new_run \<Rightarrow> run_db \<Rightarrow> bool" where
  "key_taken q d \<longleftrightarrow>
     nr_correlation_key q \<noteq> None \<and>
     (\<exists>r \<in> set (rd_runs d). ru_project_id r = nr_project_id q \<and> ru_workflow_name r = nr_workflow_name q \<and>
        ru_correlation_key r = nr_correlation_key q \<and> \<not> is_terminal_run_status (ru_status r))"

definition start_run :: "coordinator \<Rightarrow> run_env \<Rightarrow> ident \<Rightarrow> new_run \<Rightarrow> run_db \<Rightarrow> run_error + run_db" where
  "start_run c e tenant q d =
     (if nr_id q \<in> ru_id ` set (rd_runs d) \<or> key_taken q d then Inl UniqueViolated
      else initialize c e tenant (nr_id q) (nr_plan q) (nr_input q) (d\<lparr>rd_runs := rd_runs d @ [started_run (re_now e) q]\<rparr>))"

end
