(* ===== verification/Run_Laws.thy ===== *)
theory Run_Laws
  imports Run_Control
begin

text \<open>
  What the transactions of the run coordinator leave in each table, row by row, and the invariant they
  keep: a run is on one attempt of one step, its steps completed in order and handed their outputs on,
  open pauses and buffered signals never miss each other, and whoever waits has something to wait for.
\<close>

section \<open>Looking rows up\<close>

abbreviation run_at :: "run_db \<Rightarrow> ident \<Rightarrow> run_row option" where
  "run_at d rid \<equiv> find_row ru_id rid (rd_runs d)"

abbreviation state_at :: "run_db \<Rightarrow> ident \<Rightarrow> run_state_row option" where
  "state_at d rid \<equiv> find_row rs_run_id rid (rd_states d)"

abbreviation attempt_at :: "run_db \<Rightarrow> ident \<Rightarrow> step_attempt_row option" where
  "attempt_at d aid \<equiv> find_row sa_id aid (rd_attempts d)"

abbreviation pause_at :: "run_db \<Rightarrow> ident \<Rightarrow> pause_row option" where
  "pause_at d pid \<equiv> find_row pz_id pid (rd_pauses d)"

abbreviation signal_at :: "run_db \<Rightarrow> ident \<Rightarrow> signal_row option" where
  "signal_at d sid \<equiv> find_row sg_id sid (rd_signals d)"

named_theorems effects \<open>what a transaction leaves in each table\<close>

lemma update_runs_effect [effects]:
  "rd_runs (snd (update_runs now p f d)) = update_where p f (rd_runs d)"
  "rd_states (snd (update_runs now p f d)) = rd_states d"
  "rd_attempts (snd (update_runs now p f d)) = rd_attempts d"
  "rd_pauses (snd (update_runs now p f d)) = rd_pauses d"
  "rd_sequence (snd (update_runs now p f d)) = rd_sequence d"
  "rd_tenant_of (snd (update_runs now p f d)) = rd_tenant_of d"
  "rd_jobs (snd (update_runs now p f d)) = rd_jobs d"
  "rd_invocations (snd (update_runs now p f d)) = rd_invocations d"
  by (simp_all add: update_runs_def run_updates Let_def)

lemma update_runs_signals:
  "rd_signals (snd (update_runs now p f d)) =
     update_where (\<lambda>s. (\<exists>r \<in> set (rd_runs d). p r \<and> discards_signals (ru_status (f r)) \<and> ru_id (f r) = sg_run_id s) \<and>
                       sg_status s = SignalBuffered)
       (\<lambda>s. s\<lparr>sg_status := SignalDiscarded, sg_value := None, sg_resolved_at := Some now\<rparr>) (rd_signals d)"
proof -
  have "sid \<in> set (map ru_id (filter (\<lambda>r. discards_signals (ru_status r)) (map f (filter p (rd_runs d))))) \<longleftrightarrow>
    (\<exists>r \<in> set (rd_runs d). p r \<and> discards_signals (ru_status (f r)) \<and> ru_id (f r) = sid)" for sid by auto
  then show ?thesis by (simp add: update_runs_def run_updates Let_def)
qed

lemma update_runs_keep_signals:
  "(\<And>r. p r \<Longrightarrow> \<not> discards_signals (ru_status (f r))) \<Longrightarrow> rd_signals (snd (update_runs now p f d)) = rd_signals d"
  by (auto simp: update_runs_signals intro: update_where_none)

lemma discards_simps [simp]:
  "\<not> discards_signals RunPending" "\<not> discards_signals RunRunning" "\<not> discards_signals RunWaiting"
  "\<not> discards_signals RunPaused" "discards_signals RunCompleted" "discards_signals RunFailed"
  "discards_signals RunCanceled" "discards_signals RunCanceling"
  by (simp_all add: discards_signals_def)

lemma frame_effects [effects]:
  "rd_runs (update_attempts q g d) = rd_runs d" "rd_states (update_attempts q g d) = rd_states d"
  "rd_attempts (update_attempts q g d) = update_where q g (rd_attempts d)" "rd_pauses (update_attempts q g d) = rd_pauses d"
  "rd_signals (update_attempts q g d) = rd_signals d" "rd_sequence (update_attempts q g d) = rd_sequence d"
  "rd_tenant_of (update_attempts q g d) = rd_tenant_of d" "rd_jobs (update_attempts q g d) = rd_jobs d"
  "rd_runs (update_states q' g' d) = rd_runs d" "rd_states (update_states q' g' d) = update_where q' g' (rd_states d)"
  "rd_attempts (update_states q' g' d) = rd_attempts d" "rd_pauses (update_states q' g' d) = rd_pauses d"
  "rd_signals (update_states q' g' d) = rd_signals d" "rd_sequence (update_states q' g' d) = rd_sequence d"
  "rd_tenant_of (update_states q' g' d) = rd_tenant_of d" "rd_jobs (update_states q' g' d) = rd_jobs d"
  "rd_runs (update_pauses q2 g2 d) = rd_runs d" "rd_states (update_pauses q2 g2 d) = rd_states d"
  "rd_attempts (update_pauses q2 g2 d) = rd_attempts d" "rd_pauses (update_pauses q2 g2 d) = update_where q2 g2 (rd_pauses d)"
  "rd_signals (update_pauses q2 g2 d) = rd_signals d" "rd_sequence (update_pauses q2 g2 d) = rd_sequence d"
  "rd_tenant_of (update_pauses q2 g2 d) = rd_tenant_of d" "rd_jobs (update_pauses q2 g2 d) = rd_jobs d"
  "rd_runs (update_jobs q3 g3 d) = rd_runs d" "rd_states (update_jobs q3 g3 d) = rd_states d"
  "rd_attempts (update_jobs q3 g3 d) = rd_attempts d" "rd_pauses (update_jobs q3 g3 d) = rd_pauses d"
  "rd_signals (update_jobs q3 g3 d) = rd_signals d" "rd_sequence (update_jobs q3 g3 d) = rd_sequence d"
  "rd_tenant_of (update_jobs q3 g3 d) = rd_tenant_of d" "rd_jobs (update_jobs q3 g3 d) = update_where q3 g3 (rd_jobs d)"
  "rd_runs (delete_run_invocations q4 d) = rd_runs d" "rd_states (delete_run_invocations q4 d) = rd_states d"
  "rd_attempts (delete_run_invocations q4 d) = rd_attempts d" "rd_pauses (delete_run_invocations q4 d) = rd_pauses d"
  "rd_signals (delete_run_invocations q4 d) = rd_signals d" "rd_sequence (delete_run_invocations q4 d) = rd_sequence d"
  "rd_tenant_of (delete_run_invocations q4 d) = rd_tenant_of d" "rd_jobs (delete_run_invocations q4 d) = rd_jobs d"
  by (simp_all add: run_updates)

lemma release_effects [effects]:
  "rd_runs (release_root now r d) = rd_runs d" "rd_states (release_root now r d) = rd_states d"
  "rd_attempts (release_root now r d) = rd_attempts d" "rd_pauses (release_root now r d) = rd_pauses d"
  "rd_signals (release_root now r d) = rd_signals d" "rd_sequence (release_root now r d) = rd_sequence d"
  "rd_tenant_of (release_root now r d) = rd_tenant_of d" "rd_jobs (release_root now r d) = rd_jobs d"
  "rd_invocations (release_root now r d) = rd_invocations d"
  by (simp_all add: release_root_def release_allocation_def Let_def split: option.split)

lemma enqueue_job_effect:
  "enqueue_job e jid q d = Inr d' \<Longrightarrow>
     rd_runs d' = rd_runs d \<and> rd_states d' = rd_states d \<and> rd_attempts d' = rd_attempts d \<and> rd_pauses d' = rd_pauses d \<and>
     rd_signals d' = rd_signals d \<and> rd_sequence d' = rd_sequence d \<and> rd_tenant_of d' = rd_tenant_of d"
  by (auto simp: enqueue_job_def split: sum.splits)

section \<open>Cleaning up\<close>

lemma cleanup_step_scope_effect [effects]:
  "rd_runs (cleanup_step_scope now rid aid err x d) = rd_runs d"
  "rd_states (cleanup_step_scope now rid aid err x d) = rd_states d"
  "rd_attempts (cleanup_step_scope now rid aid err x d) = rd_attempts d"
  "rd_pauses (cleanup_step_scope now rid aid err x d) =
     update_where (\<lambda>p. pz_run_id p = rid \<and> pz_attempt_id p = aid \<and> pz_status p = PauseOpen) (cancel_pause now) (rd_pauses d)"
  "rd_signals (cleanup_step_scope now rid aid err x d) = rd_signals d"
  "rd_sequence (cleanup_step_scope now rid aid err x d) = rd_sequence d"
  "rd_tenant_of (cleanup_step_scope now rid aid err x d) = rd_tenant_of d"
  by (simp_all add: cleanup_step_scope_def effects Let_def)

lemma update_where_twice:
  assumes "\<And>x. p x \<Longrightarrow> \<not> q (f x)"
  shows "update_where q f (update_where p f xs) = update_where (\<lambda>x. p x \<or> q x) f xs"
  using assms by (induction xs) auto

lemma cancel_pause_fields [simp]:
  "pz_id (cancel_pause now p) = pz_id p" "pz_run_id (cancel_pause now p) = pz_run_id p"
  "pz_attempt_id (cancel_pause now p) = pz_attempt_id p" "pz_status (cancel_pause now p) = PauseCanceled"
  "pz_signal_name (cancel_pause now p) = pz_signal_name p"
  by (simp_all add: cancel_pause_def)

lemma cleanup_steps_pauses:
  "rd_pauses (fold (\<lambda>aid. cleanup_step_scope now rid aid err x) aids d) =
     update_where (\<lambda>p. pz_run_id p = rid \<and> pz_attempt_id p \<in> set aids \<and> pz_status p = PauseOpen) (cancel_pause now) (rd_pauses d)"
proof (induction aids arbitrary: d)
  case (Cons aid aids)
  have eq: "(\<lambda>p. pz_run_id p = rid \<and> pz_attempt_id p = aid \<and> pz_status p = PauseOpen \<or>
      pz_run_id p = rid \<and> pz_attempt_id p \<in> set aids \<and> pz_status p = PauseOpen) =
      (\<lambda>p. pz_run_id p = rid \<and> pz_attempt_id p \<in> set (aid # aids) \<and> pz_status p = PauseOpen)" by auto
  show ?case by (simp add: Cons.IH effects) (subst update_where_twice, auto simp: eq)
qed simp

lemma cleanup_run_scope_effect [effects]:
  "rd_runs (cleanup_run_scope now rid err x d) = rd_runs d"
  "rd_states (cleanup_run_scope now rid err x d) =
     update_where (\<lambda>s. rs_run_id s = rid) (\<lambda>s. s\<lparr>rs_prev_status := None, rs_prev_phase := None, rs_updated_at := now\<rparr>) (rd_states d)"
  "rd_attempts (cleanup_run_scope now rid err x d) =
     update_where (\<lambda>a. sa_run_id a = rid \<and> live_step (sa_status a)) (failed_attempt err now) (rd_attempts d)"
  "rd_pauses (cleanup_run_scope now rid err x d) =
     update_where (\<lambda>p. pz_run_id p = rid \<and> pz_attempt_id p \<in> set (live_attempts rid d) \<and> pz_status p = PauseOpen)
       (cancel_pause now) (rd_pauses d)"
  "rd_signals (cleanup_run_scope now rid err x d) = rd_signals d"
  "rd_sequence (cleanup_run_scope now rid err x d) = rd_sequence d"
  "rd_tenant_of (cleanup_run_scope now rid err x d) = rd_tenant_of d"
  by (simp_all add: cleanup_run_scope_def effects Let_def cleanup_steps_pauses fold_keeps [of rd_states] fold_keeps [of rd_attempts]
      fold_keeps [of rd_signals] fold_keeps [of rd_sequence] fold_keeps [of rd_tenant_of] fold_keeps [of rd_runs])

section \<open>Attempts and ends\<close>

lemma create_step_attempt_effect:
  assumes "create_step_attempt c e tenant rid desc input n available d = Inr d'"
  shows "rd_attempts d' = rd_attempts d @ [new_attempt c e rid desc input n]"
    and "rd_states d' = update_where (\<lambda>s. rs_run_id s = rid)
      (\<lambda>s. s\<lparr>rs_step_index := sd_index desc, rs_input := input, rs_active_attempt := Some (re_attempt_id e rid (sd_index desc) n),
             rs_updated_at := re_now e\<rparr>) (rd_states d)"
    and "rd_runs d' = update_where (\<lambda>r. ru_id r = rid \<and> is_active_run_status (ru_status r))
      (\<lambda>r. r\<lparr>ru_status := RunPending, ru_phase := phase_for desc, ru_updated_at := re_now e\<rparr>) (rd_runs d)"
    and "rd_pauses d' = rd_pauses d" and "rd_signals d' = rd_signals d" and "rd_sequence d' = rd_sequence d"
    and "rd_tenant_of d' = rd_tenant_of d"
    and "\<not> (\<exists>x \<in> set (rd_attempts d). sa_run_id x = rid \<and> sa_step_index x = sd_index desc \<and> sa_attempt x = n)"
  using assms
  by (auto simp: create_step_attempt_def Let_def effects update_runs_keep_signals new_attempt_def
      dest!: enqueue_job_effect split: if_splits executor.splits)

lemma complete_run_effect:
  assumes "complete_run now run output d = (d', t)" and "run_at d (ru_id run) = Some run" and "is_active_run_status (ru_status run)"
    and "unique_keys ru_id (rd_runs d)"
  shows "t = Some (ru_id run, put_output output) \<and>
    rd_runs d' = update_where (\<lambda>r. ru_id r = ru_id run \<and> is_active_run_status (ru_status r))
      (\<lambda>r. r\<lparr>ru_status := RunCompleted, ru_result := Some output, ru_error := None, ru_completed_at := Some now, ru_updated_at := now\<rparr>) (rd_runs d) \<and>
    rd_states d' = update_where (\<lambda>s. rs_run_id s = ru_id run)
      (\<lambda>s. s\<lparr>rs_input := output, rs_active_attempt := None, rs_updated_at := now\<rparr>) (rd_states d) \<and>
    rd_attempts d' = rd_attempts d \<and>
    rd_pauses d' = rd_pauses d \<and>
    rd_signals d' = update_where (\<lambda>s. sg_run_id s = ru_id run \<and> sg_status s = SignalBuffered)
       (\<lambda>s. s\<lparr>sg_status := SignalDiscarded, sg_value := None, sg_resolved_at := Some now\<rparr>) (rd_signals d) \<and>
    rd_sequence d' = rd_sequence d \<and>
    rd_tenant_of d' = rd_tenant_of d"
proof -
  let ?p = "\<lambda>r. ru_id r = ru_id run \<and> is_active_run_status (ru_status r)"
  let ?f = "\<lambda>r. r\<lparr>ru_status := RunCompleted, ru_result := Some output, ru_error := None, ru_completed_at := Some now, ru_updated_at := now\<rparr>"
  let ?d = "update_states (\<lambda>s. rs_run_id s = ru_id run) (\<lambda>s. s\<lparr>rs_input := output, rs_active_attempt := None, rs_updated_at := now\<rparr>) d"
  have mem: "run \<in> set (rd_runs d)" using find_row_Some [OF assms(2)] by simp
  then have "fst (update_runs now ?p ?f ?d) \<noteq> []"
    using assms(3) by (auto simp: fst_update_runs effects filter_empty_conv)
  then have d': "d' = release_root now run (snd (update_runs now ?p ?f ?d))" and t: "t = Some (ru_id run, put_output output)"
    using assms(1) by (auto simp: complete_run_def Let_def split: prod.splits if_splits)
  have ex: "(\<exists>r \<in> set (rd_runs d). ?p r \<and> discards_signals (ru_status (?f r)) \<and> ru_id (?f r) = i) \<longleftrightarrow> i = ru_id run" for i
    using mem assms(3) by auto
  have sig: "rd_signals d' = update_where (\<lambda>s. sg_run_id s = ru_id run \<and> sg_status s = SignalBuffered)
       (\<lambda>s. s\<lparr>sg_status := SignalDiscarded, sg_value := None, sg_resolved_at := Some now\<rparr>) (rd_signals d)"
    unfolding d' release_effects update_runs_signals frame_effects ex ..
  show ?thesis by (simp add: sig t) (simp add: d' effects)
qed

lemma end_run_effect:
  assumes "end_run now rid err x statuses d = (d', t)" and "run_at d rid = Some run" and "ru_status run \<in> set statuses"
  shows "t = Some (rid, put_error err) \<and>
    rd_runs d' = update_where (\<lambda>r. ru_id r = rid \<and> ru_status r \<in> set statuses)
      (\<lambda>r. r\<lparr>ru_status := RunFailed, ru_error := Some err, ru_completed_at := Some now, ru_updated_at := now\<rparr>) (rd_runs d) \<and>
    rd_states d' = rd_states (cleanup_run_scope now rid err x d) \<and>
    rd_attempts d' = rd_attempts (cleanup_run_scope now rid err x d) \<and>
    rd_pauses d' = rd_pauses (cleanup_run_scope now rid err x d) \<and>
    rd_signals d' = update_where (\<lambda>s. sg_run_id s = rid \<and> sg_status s = SignalBuffered)
       (\<lambda>s. s\<lparr>sg_status := SignalDiscarded, sg_value := None, sg_resolved_at := Some now\<rparr>) (rd_signals d) \<and>
    rd_sequence d' = rd_sequence d \<and>
    rd_tenant_of d' = rd_tenant_of d"
proof -
  let ?p = "\<lambda>r. ru_id r = rid \<and> ru_status r \<in> set statuses"
  let ?f = "\<lambda>r. r\<lparr>ru_status := RunFailed, ru_error := Some err, ru_completed_at := Some now, ru_updated_at := now\<rparr>"
  let ?d = "cleanup_run_scope now rid err x d"
  have mem: "run \<in> set (rd_runs d)" and id: "ru_id run = rid" using find_row_Some [OF assms(2)] by simp_all
  then have ne: "fst (update_runs now ?p ?f ?d) \<noteq> []"
    using assms(3) by (auto simp: fst_update_runs effects filter_empty_conv)
  then have "\<exists>r. d' = release_root now r (snd (update_runs now ?p ?f ?d)) \<and> t = Some (rid, put_error err)"
    using assms(1) by (auto simp: end_run_def Let_def split: prod.splits list.splits)
  then obtain r where d': "d' = release_root now r (snd (update_runs now ?p ?f ?d))" and t: "t = Some (rid, put_error err)" by blast
  have ex: "(\<exists>r \<in> set (rd_runs d). ?p r \<and> discards_signals (ru_status (?f r)) \<and> ru_id (?f r) = i) \<longleftrightarrow> i = rid" for i
    using mem id assms(3) by auto
  have sig: "rd_signals d' = update_where (\<lambda>s. sg_run_id s = rid \<and> sg_status s = SignalBuffered)
       (\<lambda>s. s\<lparr>sg_status := SignalDiscarded, sg_value := None, sg_resolved_at := Some now\<rparr>) (rd_signals d)"
    unfolding d' release_effects update_runs_signals cleanup_run_scope_effect ex ..
  show ?thesis by (simp add: sig t) (simp add: d' effects)
qed

lemma end_run_missed:
  assumes "end_run now rid err x statuses d = (d', t)" and "\<And>r. r \<in> set (rd_runs d) \<Longrightarrow> ru_id r = rid \<Longrightarrow> ru_status r \<notin> set statuses"
  shows "t = None \<and> d' = cleanup_run_scope now rid err x d"
proof -
  let ?p = "\<lambda>r. ru_id r = rid \<and> ru_status r \<in> set statuses"
  let ?f = "\<lambda>r. r\<lparr>ru_status := RunFailed, ru_error := Some err, ru_completed_at := Some now, ru_updated_at := now\<rparr>"
  let ?d = "cleanup_run_scope now rid err x d"
  have "filter ?p (rd_runs ?d) = []" using assms(2) by (auto simp: effects filter_empty_conv)
  moreover have "update_where ?p ?f (rd_runs ?d) = rd_runs ?d" using assms(2) by (auto simp: effects intro: update_where_none)
  ultimately have "update_runs now ?p ?f ?d = ([], ?d)" by (simp add: update_runs_def run_updates)
  with assms(1) show ?thesis by (auto simp: end_run_def Let_def)
qed

end
