(* ===== verification/Run_Invariant.thy ===== *)
theory Run_Invariant
  imports Run_Laws
begin

text \<open>
  The invariant of workflow runs. \<open>steps_ok\<close>: a run works on one attempt of the step it is at; each step
  completes once, in the order of the plan, and hands its output to the next. \<open>waits_ok\<close>: who waits has
  something to wait for, and no signal lies beside a pause that waits for it.
\<close>

section \<open>Steps\<close>

definition plan_indexed :: "step_descriptor list \<Rightarrow> bool" where
  "plan_indexed plan \<longleftrightarrow> (\<forall>i < length plan. sd_index (plan ! i) = i)"

definition steps_done :: "run_state_row \<Rightarrow> run_row \<Rightarrow> nat" where
  "steps_done s r = (if ru_status r = RunCompleted then length (rs_plan s) else rs_step_index s)"

definition completed_at :: "run_db \<Rightarrow> ident \<Rightarrow> nat \<Rightarrow> step_attempt_row \<Rightarrow> bool" where
  "completed_at d rid i b \<longleftrightarrow>
     attempt_at d (sa_id b) = Some b \<and> sa_run_id b = rid \<and> sa_step_index b = i \<and> sa_status b = StepCompleted"

definition fed :: "run_db \<Rightarrow> run_row \<Rightarrow> step_attempt_row \<Rightarrow> bool" where
  "fed d r a \<longleftrightarrow>
     (case sa_step_index a of
        0 \<Rightarrow> ru_input r = Some (sa_input a)
      | Suc i \<Rightarrow> \<exists>b. completed_at d (sa_run_id a) i b \<and> sa_output b = Some (sa_input a))"

definition placed :: "step_attempt_row \<Rightarrow> run_state_row \<Rightarrow> run_row \<Rightarrow> bool" where
  "placed a s r \<longleftrightarrow>
     (live_step (sa_status a) \<longrightarrow> rs_active_attempt s = Some (sa_id a) \<and> rs_step_index s = sa_step_index a \<and>
        \<not> is_terminal_run_status (ru_status r) \<and> (sa_executor a = ByBoundary \<longrightarrow> is_active_run_status (ru_status r))) \<and>
     (sa_status a = StepWaiting \<longrightarrow> sa_executor a = ByBoundary) \<and>
     (sa_status a = StepCompleted \<longrightarrow> sa_output a \<noteq> None \<and> sa_step_index a < steps_done s r)"

definition progressed :: "run_db \<Rightarrow> ident \<Rightarrow> run_state_row \<Rightarrow> run_row \<Rightarrow> bool" where
  "progressed d rid s r \<longleftrightarrow>
     rs_plan s \<noteq> [] \<and> plan_indexed (rs_plan s) \<and>
     (ru_status r \<noteq> RunCompleted \<longrightarrow> rs_step_index s < length (rs_plan s)) \<and>
     (\<forall>st. rs_prev_status s = Some st \<longrightarrow> is_active_run_status st) \<and>
     (\<forall>i < steps_done s r. \<exists>b. completed_at d rid i b) \<and>
     (ru_status r = RunCompleted \<longrightarrow> (\<exists>b. completed_at d rid (length (rs_plan s) - 1) b \<and> ru_result r = sa_output b))"

definition attempts_ok :: "run_db \<Rightarrow> bool" where
  "attempts_ok d \<longleftrightarrow>
     (\<forall>aid a. attempt_at d aid = Some a \<longrightarrow>
        (\<exists>s r. state_at d (sa_run_id a) = Some s \<and> run_at d (sa_run_id a) = Some r \<and> placed a s r \<and> fed d r a))"

definition states_ok :: "run_db \<Rightarrow> bool" where
  "states_ok d \<longleftrightarrow>
     (\<forall>rid s. state_at d rid = Some s \<longrightarrow> (\<exists>r. run_at d rid = Some r \<and> progressed d rid s r)) \<and>
     (\<forall>rid r. run_at d rid = Some r \<longrightarrow> state_at d rid \<noteq> None)"

definition once_ok :: "run_db \<Rightarrow> bool" where
  "once_ok d \<longleftrightarrow> (\<forall>rid i a b. completed_at d rid i a \<longrightarrow> completed_at d rid i b \<longrightarrow> a = b)"

definition steps_ok :: "run_db \<Rightarrow> bool" where
  "steps_ok d \<longleftrightarrow> attempts_ok d \<and> states_ok d \<and> once_ok d"

lemma attempts_okD:
  "attempts_ok d \<Longrightarrow> attempt_at d aid = Some a \<Longrightarrow>
     \<exists>s r. state_at d (sa_run_id a) = Some s \<and> run_at d (sa_run_id a) = Some r \<and> placed a s r \<and> fed d r a"
  by (simp add: attempts_ok_def)

lemma states_okD:
  "states_ok d \<Longrightarrow> state_at d rid = Some s \<Longrightarrow> \<exists>r. run_at d rid = Some r \<and> progressed d rid s r"
  by (simp add: states_ok_def)

lemma completed_id: "completed_at d rid i b \<Longrightarrow> attempt_at d (sa_id b) = Some b"
  by (simp add: completed_at_def)

section \<open>Transitions that complete nothing\<close>

text \<open>
  Rows are rewritten one by one: \<open>g\<close> rewrites an attempt, \<open>h\<close> a run, \<open>k\<close> a state. No attempt completes and
  no run does; what completed stays as it is.
\<close>

definition keeps_attempt :: "(step_attempt_row \<Rightarrow> step_attempt_row) \<Rightarrow> step_attempt_row \<Rightarrow> bool" where
  "keeps_attempt g a \<longleftrightarrow>
     sa_id (g a) = sa_id a \<and> sa_run_id (g a) = sa_run_id a \<and> sa_step_index (g a) = sa_step_index a \<and>
     sa_executor (g a) = sa_executor a \<and> sa_input (g a) = sa_input a \<and>
     (sa_status a = StepCompleted \<longrightarrow> g a = a) \<and> (sa_status (g a) = StepCompleted \<longrightarrow> sa_status a = StepCompleted) \<and>
     (live_step (sa_status (g a)) \<longrightarrow> live_step (sa_status a)) \<and>
     (sa_status (g a) = StepWaiting \<longrightarrow> sa_executor a = ByBoundary)"

lemma keeps_attemptD:
  assumes "keeps_attempt g a"
  shows keeps_fields: "sa_id (g a) = sa_id a" "sa_run_id (g a) = sa_run_id a" "sa_step_index (g a) = sa_step_index a"
      "sa_executor (g a) = sa_executor a" "sa_input (g a) = sa_input a"
    and keeps_done: "sa_status a = StepCompleted \<Longrightarrow> g a = a" "sa_status (g a) = StepCompleted \<Longrightarrow> g a = a"
    and keeps_live: "live_step (sa_status (g a)) \<Longrightarrow> live_step (sa_status a)"
    and keeps_waiting: "sa_status (g a) = StepWaiting \<Longrightarrow> sa_executor a = ByBoundary"
  using assms unfolding keeps_attempt_def by blast+

definition keeps_run :: "(run_row \<Rightarrow> run_row) \<Rightarrow> run_row \<Rightarrow> bool" where
  "keeps_run h r \<longleftrightarrow>
     ru_id (h r) = ru_id r \<and> ru_input (h r) = ru_input r \<and> ru_result (h r) = ru_result r \<and>
     (ru_status (h r) = RunCompleted \<longleftrightarrow> ru_status r = RunCompleted)"

definition keeps_state :: "(run_state_row \<Rightarrow> run_state_row) \<Rightarrow> run_state_row \<Rightarrow> bool" where
  "keeps_state k s \<longleftrightarrow>
     rs_run_id (k s) = rs_run_id s \<and> rs_plan (k s) = rs_plan s \<and> rs_step_index (k s) = rs_step_index s \<and>
     rs_active_attempt (k s) = rs_active_attempt s \<and>
     ((\<forall>st. rs_prev_status s = Some st \<longrightarrow> is_active_run_status st) \<longrightarrow>
      (\<forall>st. rs_prev_status (k s) = Some st \<longrightarrow> is_active_run_status st))"

lemma keeps_stateD:
  assumes "keeps_state k s"
  shows keeps_state_fields: "rs_run_id (k s) = rs_run_id s" "rs_plan (k s) = rs_plan s" "rs_step_index (k s) = rs_step_index s"
      "rs_active_attempt (k s) = rs_active_attempt s"
    and keeps_prev: "(\<And>st. rs_prev_status s = Some st \<Longrightarrow> is_active_run_status st) \<Longrightarrow>
      rs_prev_status (k s) = Some st \<Longrightarrow> is_active_run_status st"
  using assms unfolding keeps_state_def by blast+

lemma keeps_runD:
  assumes "keeps_run h r"
  shows "ru_id (h r) = ru_id r" "ru_input (h r) = ru_input r" "ru_result (h r) = ru_result r"
    "ru_status (h r) = RunCompleted \<longleftrightarrow> ru_status r = RunCompleted"
  using assms unfolding keeps_run_def by blast+

lemma completed_rewritten:
  assumes att: "\<And>aid. attempt_at d' aid = map_option g (attempt_at d aid)"
    and g: "\<And>aid a. attempt_at d aid = Some a \<Longrightarrow> keeps_attempt g a"
  shows "completed_at d' rid i b \<longleftrightarrow> completed_at d rid i b"
proof
  assume b: "completed_at d' rid i b"
  then obtain a where a: "attempt_at d (sa_id b) = Some a" and ba: "b = g a" by (auto simp: completed_at_def att)
  from b have "sa_status (g a) = StepCompleted" by (simp add: completed_at_def ba)
  then have "b = a" using keeps_done(2) [OF g [OF a]] ba by simp
  with a b show "completed_at d rid i b" by (simp add: completed_at_def)
next
  assume b: "completed_at d rid i b"
  then have "g b = b" using keeps_done(1) [OF g [OF completed_id [OF b]]] by (simp add: completed_at_def)
  with b show "completed_at d' rid i b" by (simp add: completed_at_def att)
qed

lemma steps_rewritten:
  assumes ok: "steps_ok d"
    and att: "\<And>aid. attempt_at d' aid = map_option g (attempt_at d aid)"
    and run: "\<And>rid. run_at d' rid = map_option h (run_at d rid)"
    and sta: "\<And>rid. state_at d' rid = map_option k (state_at d rid)"
    and g: "\<And>aid a. attempt_at d aid = Some a \<Longrightarrow> keeps_attempt g a"
    and h: "\<And>rid r. run_at d rid = Some r \<Longrightarrow> keeps_run h r"
    and k: "\<And>rid s. state_at d rid = Some s \<Longrightarrow> keeps_state k s"
    and live: "\<And>aid a r. attempt_at d aid = Some a \<Longrightarrow> live_step (sa_status (g a)) \<Longrightarrow> run_at d (sa_run_id a) = Some r \<Longrightarrow>
        \<not> is_terminal_run_status (ru_status r) \<Longrightarrow> \<not> is_terminal_run_status (ru_status (h r)) \<and>
        (sa_executor a = ByBoundary \<longrightarrow> is_active_run_status (ru_status r) \<longrightarrow> is_active_run_status (ru_status (h r)))"
  shows "steps_ok d'"
proof -
  have same: "completed_at d' rid i b \<longleftrightarrow> completed_at d rid i b" for rid i b
    by (rule completed_rewritten [where g = g]) (use att g in auto)
  have done_same: "steps_done (k s) (h r) = steps_done s r" if "keeps_state k s" "keeps_run h r" for s r
    using that by (simp add: steps_done_def keeps_state_def keeps_run_def)
  have "attempts_ok d'"
    unfolding attempts_ok_def
  proof (intro allI impI)
    fix aid a' assume "attempt_at d' aid = Some a'"
    then obtain a where a: "attempt_at d aid = Some a" and a': "a' = g a" by (auto simp: att)
    from ok obtain s r where s: "state_at d (sa_run_id a) = Some s" and r: "run_at d (sa_run_id a) = Some r"
      and p: "placed a s r" and f: "fed d r a" using a by (auto simp: steps_ok_def dest!: attempts_okD)
    note ga = g [OF a] and hr = h [OF r] and ks = k [OF s]
    have "placed (g a) (k s) (h r)"
      unfolding placed_def
    proof (intro conjI impI)
      assume l: "live_step (sa_status (g a))"
      from keeps_live [OF ga l] p have now: "rs_active_attempt s = Some (sa_id a)" "rs_step_index s = sa_step_index a"
        "\<not> is_terminal_run_status (ru_status r)" "sa_executor a = ByBoundary \<longrightarrow> is_active_run_status (ru_status r)"
        by (simp_all add: placed_def)
      from live [OF a l r now(3)] now(4)
      show "\<not> is_terminal_run_status (ru_status (h r))" "sa_executor (g a) = ByBoundary \<Longrightarrow> is_active_run_status (ru_status (h r))"
        by (simp_all add: keeps_fields [OF ga])
      from now show "rs_active_attempt (k s) = Some (sa_id (g a))" "rs_step_index (k s) = sa_step_index (g a)"
        by (simp_all add: keeps_fields [OF ga] keeps_state_fields [OF ks])
    next
      assume "sa_status (g a) = StepWaiting"
      then show "sa_executor (g a) = ByBoundary" using keeps_waiting [OF ga] by (simp add: keeps_fields [OF ga])
    next
      assume c: "sa_status (g a) = StepCompleted"
      note same_a = keeps_done(2) [OF ga c]
      from c p show "sa_output (g a) \<noteq> None" "sa_step_index (g a) < steps_done (k s) (h r)"
        unfolding same_a by (simp_all add: placed_def done_same [OF ks hr])
    qed
    moreover have "fed d' (h r) (g a)"
      using f by (auto simp: fed_def same keeps_fields [OF ga] keeps_runD [OF hr] split: nat.splits)
    ultimately show "\<exists>s r. state_at d' (sa_run_id a') = Some s \<and> run_at d' (sa_run_id a') = Some r \<and> placed a' s r \<and> fed d' r a'"
      using s r by (auto simp: a' sta run keeps_fields [OF ga])
  qed
  moreover have "states_ok d'"
    unfolding states_ok_def
  proof (intro conjI allI impI)
    fix rid s' assume "state_at d' rid = Some s'"
    then obtain s where s: "state_at d rid = Some s" and s': "s' = k s" by (auto simp: sta)
    from ok obtain r where r: "run_at d rid = Some r" and p: "progressed d rid s r" using s by (auto simp: steps_ok_def dest!: states_okD)
    note hr = h [OF r] and ks = k [OF s]
    have "\<forall>st. rs_prev_status (k s) = Some st \<longrightarrow> is_active_run_status st"
      using p keeps_prev [OF ks] unfolding progressed_def by blast
    with p have "progressed d' rid (k s) (h r)"
      by (simp add: progressed_def same keeps_runD [OF hr] keeps_state_fields [OF ks] done_same [OF ks hr])
    with r show "\<exists>r. run_at d' rid = Some r \<and> progressed d' rid s' r" by (auto simp: run s')
  next
    fix rid r' assume "run_at d' rid = Some r'"
    then show "state_at d' rid \<noteq> None" using ok by (auto simp: run sta steps_ok_def states_ok_def)
  qed
  moreover have "once_ok d'" using ok unfolding once_ok_def steps_ok_def same by blast
  ultimately show ?thesis by (simp add: steps_ok_def)
qed

section \<open>Transitions that end an attempt\<close>

text \<open>
  The attempt a run is on ends, completed or not; the run moves on to a new attempt or ends too. Nothing
  else of the run is live, and nothing of other runs changes.
\<close>

lemma live_is_active:
  assumes "attempts_ok d" and "attempt_at d x = Some b" and "live_step (sa_status b)" and "sa_run_id b = rid" and "state_at d rid = Some s"
  shows "rs_active_attempt s = Some x \<and> rs_step_index s = sa_step_index b"
  using attempts_okD [OF assms(1,2)] assms(3-5) find_row_Some [OF assms(2)] by (auto simp: placed_def)

lemma steps_moved:
  assumes ok: "steps_ok d"
    and a: "attempt_at d aid = Some a" and l: "live_step (sa_status a)" and rid: "sa_run_id a = rid"
    and s: "state_at d rid = Some s" and r: "run_at d rid = Some r"
    and att: "\<And>x. attempt_at d' x = (if x = aid then Some a' else case new of
           None \<Rightarrow> attempt_at d x | Some n \<Rightarrow> if x = sa_id n then Some n else attempt_at d x)"
    and sta: "\<And>x. state_at d' x = (if x = rid then Some s' else state_at d x)"
    and run: "\<And>x. run_at d' x = (if x = rid then Some r' else run_at d x)"
    and a': "sa_id a' = sa_id a" "sa_run_id a' = sa_run_id a" "sa_step_index a' = sa_step_index a" "sa_input a' = sa_input a"
      "\<not> live_step (sa_status a')" "sa_status a' = StepCompleted \<Longrightarrow> sa_output a' \<noteq> None \<and> sa_step_index a < steps_done s' r'"
    and new: "\<And>n. new = Some n \<Longrightarrow> attempt_at d (sa_id n) = None \<and> sa_run_id n = rid \<and> sa_status n = StepPending \<and>
        rs_active_attempt s' = Some (sa_id n) \<and> rs_step_index s' = sa_step_index n \<and> is_active_run_status (ru_status r') \<and> fed d' r' n"
    and s': "rs_plan s' = rs_plan s" "\<And>st. rs_prev_status s' = Some st \<Longrightarrow> is_active_run_status st"
      "ru_status r' \<noteq> RunCompleted \<Longrightarrow> rs_step_index s' < length (rs_plan s)"
    and r': "ru_input r' = ru_input r" "ru_status r' = RunCompleted \<Longrightarrow> sa_status a' = StepCompleted \<and>
        sa_step_index a = length (rs_plan s) - 1 \<and> ru_result r' = sa_output a'"
    and more: "steps_done s r \<le> steps_done s' r'"
      "\<And>i. steps_done s r \<le> i \<Longrightarrow> i < steps_done s' r' \<Longrightarrow> sa_status a' = StepCompleted \<and> sa_step_index a = i"
  shows "steps_ok d'"
proof -
  have ao: "attempts_ok d" and so: "states_ok d" and oo: "once_ok d" using ok by (simp_all add: steps_ok_def)
  have aid: "sa_id a = aid" using find_row_Some [OF a] by simp
  from attempts_okD [OF ao a] rid s r have p: "placed a s r" and f: "fed d r a" by auto
  from states_okD [OF so s] r have pg: "progressed d rid s r" by simp
  have ix: "rs_step_index s = sa_step_index a" and nc: "ru_status r \<noteq> RunCompleted" and act: "rs_active_attempt s = Some aid"
    using p l aid by (auto simp: placed_def)
  then have dn: "steps_done s r = sa_step_index a" by (simp add: steps_done_def)
  have comp_keep: "completed_at d' i j b" if "completed_at d i j b" for i j b
  proof -
    from that have b: "attempt_at d (sa_id b) = Some b" "sa_status b = StepCompleted" by (simp_all add: completed_at_def)
    have "sa_id b \<noteq> aid" using b a l by auto
    moreover have "new = Some n \<Longrightarrow> sa_id b \<noteq> sa_id n" for n using new [of n] b by auto
    ultimately show ?thesis using that by (auto simp: completed_at_def att split: option.splits)
  qed
  have comp_new: "completed_at d i j b \<or> b = a' \<and> sa_status a' = StepCompleted \<and> i = rid \<and> j = sa_step_index a" if c: "completed_at d' i j b" for i j b
  proof -
    from c have b: "attempt_at d' (sa_id b) = Some b" and f: "sa_run_id b = i" "sa_step_index b = j" "sa_status b = StepCompleted"
      by (simp_all add: completed_at_def)
    show ?thesis
    proof (cases "sa_id b = aid")
      case True
      with b have "b = a'" by (simp add: att)
      with f rid show ?thesis by (simp add: a'(2,3))
    next
      case False
      have "b \<noteq> n" if "new = Some n" for n using new [OF that] f(3) by auto
      with b False have "attempt_at d (sa_id b) = Some b" by (auto simp: att split: option.splits if_splits)
      with f show ?thesis by (simp add: completed_at_def)
    qed
  qed
  have comp_a': "completed_at d' rid (sa_step_index a) a'" if "sa_status a' = StepCompleted"
    using that rid aid by (simp add: completed_at_def att a'(1-3))
  have attempt: "\<exists>s r. state_at d' (sa_run_id b) = Some s \<and> run_at d' (sa_run_id b) = Some r \<and> placed b s r \<and> fed d' r b"
    if b: "attempt_at d' x = Some b" for x b
  proof -
    have feds: "fed d' q b" if "fed d q0 b" "ru_input q = ru_input q0" for q q0
      using that comp_keep by (auto simp: fed_def split: nat.splits)
    have "x = aid \<and> b = a' \<or> (\<exists>n. new = Some n \<and> b = n) \<or> x \<noteq> aid \<and> attempt_at d x = Some b"
      using b unfolding att by (simp split: if_split_asm option.split_asm)
    then consider "x = aid" "b = a'" | n where "new = Some n" "b = n" | "x \<noteq> aid" "attempt_at d x = Some b" by blast
    then show ?thesis
    proof cases
      case 1
      have "placed a' s' r'" using a'(5,6) by (auto simp: placed_def a'(3) live_step_def)
      moreover have "fed d' r' a'" using f comp_keep by (fastforce simp: fed_def a'(2-4) r'(1) split: nat.splits)
      ultimately show ?thesis using 1 rid by (simp add: sta run a'(2))
    next
      case 2
      note n = new [OF 2(1)]
      then have "placed n s' r'" by (simp add: placed_def active_not_terminal)
      with n 2(2) show ?thesis by (simp add: sta run)
    next
      case 3
      from attempts_okD [OF ao 3(2)] obtain s0 r0 where o: "state_at d (sa_run_id b) = Some s0" "run_at d (sa_run_id b) = Some r0"
        "placed b s0 r0" "fed d r0 b" by auto
      show ?thesis
      proof (cases "sa_run_id b = rid")
        case True
        then have "\<not> live_step (sa_status b)" using live_is_active [OF ao 3(2) _ True s] act 3(1) by auto
        moreover have "sa_step_index b < steps_done s' r'" if "sa_status b = StepCompleted"
          using that o True s r more(1) by (auto simp: placed_def)
        ultimately have "placed b s' r'" using o True s by (auto simp: placed_def live_step_def)
        with o True r show ?thesis by (auto simp: sta run r' intro: feds)
      next
        case False
        with o show ?thesis by (auto simp: sta run intro: feds)
      qed
    qed
  qed
  have state: "\<exists>q. run_at d' x = Some q \<and> progressed d' x t q" if t: "state_at d' x = Some t" for x t
  proof (cases "x = rid")
    case True
    have "\<exists>b. completed_at d' rid i b" if i: "i < steps_done s' r'" for i
    proof (cases "i < steps_done s r")
      case True
      then show ?thesis using pg comp_keep unfolding progressed_def by blast
    next
      case False
      with more(2) [of i] i comp_a' show ?thesis by auto
    qed
    moreover have "\<exists>b. completed_at d' rid (length (rs_plan s) - 1) b \<and> ru_result r' = sa_output b" if "ru_status r' = RunCompleted"
      using r'(2) [OF that] comp_a' by auto
    ultimately have "progressed d' rid s' r'"
      using pg s'(2,3) unfolding progressed_def s'(1) by blast
    with True t show ?thesis by (auto simp: sta run)
  next
    case False
    with t have "state_at d x = Some t" by (simp add: sta)
    from states_okD [OF so this] obtain q where q: "run_at d x = Some q" "progressed d x t q" by blast
    then have "progressed d' x t q" using comp_keep unfolding progressed_def by meson
    with False q show ?thesis by (simp add: run)
  qed
  have "once_ok d'"
    unfolding once_ok_def
  proof (intro allI impI)
    fix i j b b' assume b: "completed_at d' i j b" "completed_at d' i j b'"
    have no: "\<not> completed_at d rid (sa_step_index a) q" for q
    proof
      assume q: "completed_at d rid (sa_step_index a) q"
      then have "attempt_at d (sa_id q) = Some q" "sa_run_id q = rid" by (simp_all add: completed_at_def)
      with attempts_okD [OF ao, of "sa_id q" q] s r have "placed q s r" by auto
      with q dn show False by (simp add: placed_def completed_at_def)
    qed
    from comp_new [OF b(1)] comp_new [OF b(2)] no oo show "b = b'" unfolding once_ok_def by blast
  qed
  moreover have "attempts_ok d'" using attempt unfolding attempts_ok_def by blast
  moreover have "states_ok d'"
    unfolding states_ok_def using state so by (auto simp: sta run states_ok_def)
  ultimately show ?thesis by (simp add: steps_ok_def)
qed

section \<open>A run begins\<close>

lemma steps_begun:
  assumes ok: "steps_ok d" and fresh: "run_at d (ru_id r) = None" "attempt_at d (sa_id n) = None"
    and att: "\<And>x. attempt_at d' x = (if x = sa_id n then Some n else attempt_at d x)"
    and sta: "\<And>x. state_at d' x = (if x = ru_id r then Some s else state_at d x)"
    and run: "\<And>x. run_at d' x = (if x = ru_id r then Some r else run_at d x)"
    and n: "sa_run_id n = ru_id r" "sa_step_index n = 0" "sa_status n = StepPending" "ru_input r = Some (sa_input n)"
    and s: "rs_plan s \<noteq> []" "plan_indexed (rs_plan s)" "rs_step_index s = 0" "rs_active_attempt s = Some (sa_id n)" "rs_prev_status s = None"
    and r: "is_active_run_status (ru_status r)"
  shows "steps_ok d'"
proof -
  have ao: "attempts_ok d" and so: "states_ok d" and oo: "once_ok d" using ok by (simp_all add: steps_ok_def)
  have nost: "state_at d (ru_id r) = None"
    using states_okD [OF so, of "ru_id r"] fresh(1) by (cases "state_at d (ru_id r)") auto
  have noat: "sa_run_id b \<noteq> ru_id r" if "attempt_at d x = Some b" for x b
    using attempts_okD [OF ao that] nost by auto
  have same: "completed_at d' i j b \<longleftrightarrow> completed_at d i j b" for i j b
    using n(3) fresh(2) by (auto simp: completed_at_def att)
  have nc: "ru_status r \<noteq> RunCompleted" using r by auto
  have "attempts_ok d'"
    unfolding attempts_ok_def
  proof (intro allI impI)
    fix x b assume b: "attempt_at d' x = Some b"
    show "\<exists>s r. state_at d' (sa_run_id b) = Some s \<and> run_at d' (sa_run_id b) = Some r \<and> placed b s r \<and> fed d' r b"
    proof (cases "x = sa_id n")
      case True
      with b have "b = n" by (simp add: att)
      moreover have "placed n s r" "fed d' r n" using n s r by (simp_all add: placed_def fed_def active_not_terminal)
      ultimately show ?thesis by (simp add: sta run n(1))
    next
      case False
      with b have b': "attempt_at d x = Some b" by (simp add: att)
      from attempts_okD [OF ao b'] obtain s0 r0 where o: "state_at d (sa_run_id b) = Some s0" "run_at d (sa_run_id b) = Some r0"
        "placed b s0 r0" "fed d r0 b" by auto
      then have "fed d' r0 b" unfolding fed_def same by simp
      with o noat [OF b'] show ?thesis by (simp add: sta run)
    qed
  qed
  moreover have "states_ok d'"
    unfolding states_ok_def
  proof (intro conjI allI impI)
    fix x t assume t: "state_at d' x = Some t"
    show "\<exists>r. run_at d' x = Some r \<and> progressed d' x t r"
    proof (cases "x = ru_id r")
      case True
      with t have "t = s" by (simp add: sta)
      moreover have "progressed d' x s r" using s nc by (simp add: progressed_def steps_done_def)
      ultimately show ?thesis using True by (simp add: run)
    next
      case False
      with t have "state_at d x = Some t" by (simp add: sta)
      from states_okD [OF so this] False show ?thesis by (auto simp: run progressed_def same)
    qed
  next
    fix x q assume "run_at d' x = Some q"
    then show "state_at d' x \<noteq> None" using so by (auto simp: run sta states_ok_def split: if_splits)
  qed
  moreover have "once_ok d'" using oo unfolding once_ok_def same .
  ultimately show ?thesis by (simp add: steps_ok_def)
qed

section \<open>Waiting\<close>

definition unended :: "run_row \<Rightarrow> bool" where
  "unended r \<longleftrightarrow> ru_status r \<noteq> RunCompleted \<and> ru_status r \<noteq> RunFailed"

definition begun :: "step_status \<Rightarrow> bool" where
  "begun s \<longleftrightarrow> s \<noteq> StepPending \<and> s \<noteq> StepRunning"

definition pauses_ok :: "run_db \<Rightarrow> bool" where
  "pauses_ok d \<longleftrightarrow>
     (\<forall>pid p. pause_at d pid = Some p \<longrightarrow> pz_status p = PauseOpen \<longrightarrow>
        (\<exists>a. attempt_at d (pz_attempt_id p) = Some a \<and> sa_run_id a = pz_run_id p \<and> sa_status a = StepWaiting)) \<and>
     (\<forall>i j p q. pause_at d i = Some p \<longrightarrow> pause_at d j = Some q \<longrightarrow> pz_run_id p = pz_run_id q \<longrightarrow>
        pz_attempt_id p = pz_attempt_id q \<longrightarrow> i = j)"

text \<open>No signal lies buffered beside an open pause that waits for it, and none in a run that ended.\<close>

definition inbox_ok :: "run_db \<Rightarrow> bool" where
  "inbox_ok d \<longleftrightarrow>
     (\<forall>pid p sid s. pause_at d pid = Some p \<longrightarrow> pz_status p = PauseOpen \<longrightarrow> signal_at d sid = Some s \<longrightarrow>
        sg_status s = SignalBuffered \<longrightarrow> sg_run_id s = pz_run_id p \<longrightarrow> pz_signal_name p \<noteq> Some (sg_name s)) \<and>
     (\<forall>sid s. signal_at d sid = Some s \<longrightarrow> sg_status s = SignalBuffered \<longrightarrow>
        (\<exists>r. run_at d (sg_run_id s) = Some r \<and> \<not> is_terminal_run_status (ru_status r)))"

definition children_ok :: "run_db \<Rightarrow> bool" where
  "children_ok d \<longleftrightarrow>
     (\<forall>rid r. run_at d rid = Some r \<longrightarrow> ru_status r \<noteq> RunCanceling \<and>
        (\<forall>aid. ru_parent_attempt_id r = Some aid \<longrightarrow>
           (\<exists>a. attempt_at d aid = Some a \<and> ru_parent_run_id r = Some (sa_run_id a) \<and> begun (sa_status a)) \<and>
           (\<forall>pid p. pause_at d pid = Some p \<longrightarrow> pz_status p = PauseOpen \<longrightarrow> pz_attempt_id p \<noteq> aid)))"

text \<open>
  What a waiting attempt waits for: a pause that is open, or a child that neither completed nor failed. In
  the middle of a transaction some are \<open>owed\<close> an answer.
\<close>

definition awaited :: "run_db \<Rightarrow> ident \<Rightarrow> bool" where
  "awaited d aid \<longleftrightarrow>
     (\<exists>pid p. pause_at d pid = Some p \<and> pz_status p = PauseOpen \<and> pz_attempt_id p = aid) \<or>
     (\<exists>rid r. run_at d rid = Some r \<and> ru_parent_attempt_id r = Some aid \<and> unended r)"

definition waiting_ok :: "ident set \<Rightarrow> run_db \<Rightarrow> bool" where
  "waiting_ok owed d \<longleftrightarrow>
     (\<forall>aid a. attempt_at d aid = Some a \<longrightarrow> sa_status a = StepWaiting \<longrightarrow> aid \<notin> owed \<longrightarrow> awaited d aid)"

definition waits_ok :: "ident set \<Rightarrow> run_db \<Rightarrow> bool" where
  "waits_ok owed d \<longleftrightarrow> pauses_ok d \<and> inbox_ok d \<and> children_ok d \<and> waiting_ok owed d"

lemma pauses_okD:
  "waits_ok owed d \<Longrightarrow> pause_at d pid = Some p \<Longrightarrow> pz_status p = PauseOpen \<Longrightarrow>
   \<exists>a. attempt_at d (pz_attempt_id p) = Some a \<and> sa_run_id a = pz_run_id p \<and> sa_status a = StepWaiting"
  unfolding waits_ok_def pauses_ok_def by blast

lemma one_pause:
  "waits_ok owed d \<Longrightarrow> pause_at d i = Some p \<Longrightarrow> pause_at d j = Some q \<Longrightarrow> pz_run_id p = pz_run_id q \<Longrightarrow>
   pz_attempt_id p = pz_attempt_id q \<Longrightarrow> i = j"
  unfolding waits_ok_def pauses_ok_def by blast

lemma inbox_okD:
  assumes "waits_ok owed d" and "signal_at d sid = Some s" and "sg_status s = SignalBuffered"
  shows no_open_pause: "pause_at d pid = Some p \<Longrightarrow> pz_status p = PauseOpen \<Longrightarrow> sg_run_id s = pz_run_id p \<Longrightarrow>
      pz_signal_name p \<noteq> Some (sg_name s)"
    and signal_run: "\<exists>r. run_at d (sg_run_id s) = Some r \<and> \<not> is_terminal_run_status (ru_status r)"
  using assms unfolding waits_ok_def inbox_ok_def by blast+

lemma children_okD:
  assumes "waits_ok owed d" and "run_at d rid = Some r"
  shows never_canceling: "ru_status r \<noteq> RunCanceling"
    and parent_attempt: "ru_parent_attempt_id r = Some aid \<Longrightarrow>
      \<exists>a. attempt_at d aid = Some a \<and> ru_parent_run_id r = Some (sa_run_id a) \<and> begun (sa_status a)"
    and no_pause_beside: "ru_parent_attempt_id r = Some aid \<Longrightarrow> pause_at d pid = Some p \<Longrightarrow> pz_status p = PauseOpen \<Longrightarrow>
      pz_attempt_id p \<noteq> aid"
  using assms unfolding waits_ok_def children_ok_def by blast+

lemma waiting_okD:
  "waits_ok owed d \<Longrightarrow> attempt_at d aid = Some a \<Longrightarrow> sa_status a = StepWaiting \<Longrightarrow> aid \<notin> owed \<Longrightarrow> awaited d aid"
  unfolding waits_ok_def waiting_ok_def by blast

definition keeps_wait :: "(step_attempt_row \<Rightarrow> step_attempt_row) \<Rightarrow> step_attempt_row \<Rightarrow> bool" where
  "keeps_wait g a \<longleftrightarrow>
     sa_run_id (g a) = sa_run_id a \<and> (sa_status (g a) = StepWaiting \<longrightarrow> sa_status a = StepWaiting) \<and>
     (begun (sa_status a) \<longrightarrow> begun (sa_status (g a)))"

definition keeps_links :: "(run_row \<Rightarrow> run_row) \<Rightarrow> run_row \<Rightarrow> bool" where
  "keeps_links h r \<longleftrightarrow>
     ru_parent_run_id (h r) = ru_parent_run_id r \<and> ru_parent_attempt_id (h r) = ru_parent_attempt_id r \<and>
     ru_status (h r) \<noteq> RunCanceling"

definition keeps_pause :: "(pause_row \<Rightarrow> pause_row) \<Rightarrow> pause_row \<Rightarrow> bool" where
  "keeps_pause q p \<longleftrightarrow>
     pz_run_id (q p) = pz_run_id p \<and> pz_attempt_id (q p) = pz_attempt_id p \<and> pz_signal_name (q p) = pz_signal_name p \<and>
     (pz_status (q p) = PauseOpen \<longrightarrow> pz_status p = PauseOpen)"

definition keeps_signal :: "(signal_row \<Rightarrow> signal_row) \<Rightarrow> signal_row \<Rightarrow> bool" where
  "keeps_signal z s \<longleftrightarrow>
     sg_run_id (z s) = sg_run_id s \<and> sg_name (z s) = sg_name s \<and>
     (sg_status (z s) = SignalBuffered \<longrightarrow> sg_status s = SignalBuffered)"

lemma waits_rewritten:
  assumes ok: "waits_ok owed d"
    and att: "\<And>x. attempt_at d' x = map_option g (attempt_at d x)"
    and run: "\<And>x. run_at d' x = map_option h (run_at d x)"
    and pau: "\<And>x. pause_at d' x = map_option q (pause_at d x)"
    and sig: "\<And>x. signal_at d' x = map_option z (signal_at d x)"
    and g: "\<And>x a. attempt_at d x = Some a \<Longrightarrow> keeps_wait g a"
    and h: "\<And>x r. run_at d x = Some r \<Longrightarrow> keeps_links h r"
    and q: "\<And>x p. pause_at d x = Some p \<Longrightarrow> keeps_pause q p"
    and z: "\<And>x s. signal_at d x = Some s \<Longrightarrow> keeps_signal z s"
    and stays: "\<And>x p a. pause_at d x = Some p \<Longrightarrow> pz_status (q p) = PauseOpen \<Longrightarrow> attempt_at d (pz_attempt_id p) = Some a \<Longrightarrow>
        sa_status a = StepWaiting \<Longrightarrow> sa_status (g a) = StepWaiting"
    and lasts: "\<And>x s r. signal_at d x = Some s \<Longrightarrow> sg_status (z s) = SignalBuffered \<Longrightarrow> run_at d (sg_run_id s) = Some r \<Longrightarrow>
        \<not> is_terminal_run_status (ru_status r) \<Longrightarrow> \<not> is_terminal_run_status (ru_status (h r))"
    and await: "\<And>x a. attempt_at d x = Some a \<Longrightarrow> sa_status (g a) = StepWaiting \<Longrightarrow> x \<notin> owed' \<Longrightarrow>
        x \<notin> owed \<and> (awaited d x \<longrightarrow> awaited d' x)"
  shows "waits_ok owed' d'"
proof -
  have "pauses_ok d'"
    unfolding pauses_ok_def
  proof (intro conjI allI impI)
    fix i j p' q' assume "pause_at d' i = Some p'" "pause_at d' j = Some q'" and eq: "pz_run_id p' = pz_run_id q'" "pz_attempt_id p' = pz_attempt_id q'"
    then obtain p0 q0 where p: "pause_at d i = Some p0" "p' = q p0" and q': "pause_at d j = Some q0" "q' = q q0" by (auto simp: pau)
    from eq q [OF p(1), unfolded keeps_pause_def] q [OF q'(1), unfolded keeps_pause_def]
    have "pz_run_id p0 = pz_run_id q0" "pz_attempt_id p0 = pz_attempt_id q0" by (simp_all add: p(2) q'(2))
    with one_pause [OF ok p(1) q'(1)] show "i = j" by blast
  next
    fix x p' assume "pause_at d' x = Some p'" and o': "pz_status p' = PauseOpen"
    then obtain p where p: "pause_at d x = Some p" "p' = q p" by (auto simp: pau)
    note kp = q [OF p(1), unfolded keeps_pause_def]
    from kp o' p(2) have "pz_status p = PauseOpen" by blast
    from pauses_okD [OF ok p(1) this] obtain a where a: "attempt_at d (pz_attempt_id p) = Some a" "sa_run_id a = pz_run_id p"
      "sa_status a = StepWaiting" by blast
    from stays [OF p(1) _ a(1,3)] o' p(2) have "sa_status (g a) = StepWaiting" by simp
    with a g [OF a(1)] kp show "\<exists>a. attempt_at d' (pz_attempt_id p') = Some a \<and> sa_run_id a = pz_run_id p' \<and> sa_status a = StepWaiting"
      by (simp add: att p(2) keeps_wait_def)
  qed
  moreover have "inbox_ok d'"
    unfolding inbox_ok_def
  proof (intro conjI allI impI)
    fix x p' y s' assume p': "pause_at d' x = Some p'" "pz_status p' = PauseOpen" and s': "signal_at d' y = Some s'"
      "sg_status s' = SignalBuffered" "sg_run_id s' = pz_run_id p'"
    then obtain p s where p: "pause_at d x = Some p" "p' = q p" and s: "signal_at d y = Some s" "s' = z s" by (auto simp: pau sig)
    note kp = q [OF p(1), unfolded keeps_pause_def] and ks = z [OF s(1), unfolded keeps_signal_def]
    from kp ks p' s' p s have "pz_status p = PauseOpen" "sg_status s = SignalBuffered" "sg_run_id s = pz_run_id p" by auto
    then have "pz_signal_name p \<noteq> Some (sg_name s)" by (intro no_open_pause [OF ok s(1) _ p(1)])
    with kp ks p s show "pz_signal_name p' \<noteq> Some (sg_name s')" by simp
  next
    fix y s' assume s': "signal_at d' y = Some s'" "sg_status s' = SignalBuffered"
    then obtain s where s: "signal_at d y = Some s" "s' = z s" by (auto simp: sig)
    note ks = z [OF s(1), unfolded keeps_signal_def]
    from ks s s' have "sg_status s = SignalBuffered" by blast
    from signal_run [OF ok s(1) this] obtain r where r: "run_at d (sg_run_id s) = Some r" "\<not> is_terminal_run_status (ru_status r)"
      by blast
    from lasts [OF s(1) _ r] s' s r ks show "\<exists>r. run_at d' (sg_run_id s') = Some r \<and> \<not> is_terminal_run_status (ru_status r)"
      by (simp add: run)
  qed
  moreover have "children_ok d'"
    unfolding children_ok_def
  proof (intro allI impI conjI)
    fix x r' assume "run_at d' x = Some r'"
    then obtain r where r: "run_at d x = Some r" "r' = h r" by (auto simp: run)
    note kr = h [OF r(1), unfolded keeps_links_def]
    from kr r(2) show "ru_status r' \<noteq> RunCanceling" by simp
    fix aid assume "ru_parent_attempt_id r' = Some aid"
    with kr r(2) have pa: "ru_parent_attempt_id r = Some aid" by simp
    from parent_attempt [OF ok r(1) pa] obtain a where a: "attempt_at d aid = Some a" "ru_parent_run_id r = Some (sa_run_id a)"
      "begun (sa_status a)" by blast
    note no = no_pause_beside [OF ok r(1) pa]
    from a g [OF a(1)] kr r(2)
    show "\<exists>a. attempt_at d' aid = Some a \<and> ru_parent_run_id r' = Some (sa_run_id a) \<and> begun (sa_status a)"
      by (simp add: att keeps_wait_def)
    fix pid p' assume "pause_at d' pid = Some p'" and o': "pz_status p' = PauseOpen"
    then obtain p where p: "pause_at d pid = Some p" "p' = q p" by (auto simp: pau)
    from q [OF p(1), unfolded keeps_pause_def] o' p no show "pz_attempt_id p' \<noteq> aid" by auto
  qed
  moreover have "waiting_ok owed' d'"
    unfolding waiting_ok_def
  proof (intro allI impI)
    fix x a' assume "attempt_at d' x = Some a'" and w: "sa_status a' = StepWaiting" and n: "x \<notin> owed'"
    then obtain a where a: "attempt_at d x = Some a" "a' = g a" by (auto simp: att)
    from g [OF a(1)] w a(2) have "sa_status a = StepWaiting" by (auto simp: keeps_wait_def)
    moreover from await [OF a(1) _ n] w a(2) have "x \<notin> owed" "awaited d x \<longrightarrow> awaited d' x" by simp_all
    ultimately show "awaited d' x" using waiting_okD [OF ok a(1)] by blast
  qed
  ultimately show ?thesis by (simp add: waits_ok_def)
qed

text \<open>Reasons that stay: a pause left open, a child left unended.\<close>

lemma awaited_rewritten:
  assumes run: "\<And>x. run_at d' x = map_option h (run_at d x)" and pau: "\<And>x. pause_at d' x = map_option q (pause_at d x)"
    and h: "\<And>x r. run_at d x = Some r \<Longrightarrow> ru_parent_attempt_id r = Some aid \<Longrightarrow> unended r \<Longrightarrow>
        ru_parent_attempt_id (h r) = Some aid \<and> unended (h r)"
    and q: "\<And>x p. pause_at d x = Some p \<Longrightarrow> pz_status p = PauseOpen \<Longrightarrow> pz_attempt_id p = aid \<Longrightarrow>
        pz_status (q p) = PauseOpen \<and> pz_attempt_id (q p) = aid"
  shows "awaited d aid \<Longrightarrow> awaited d' aid"
proof -
  assume "awaited d aid"
  then consider (pause) x p where "pause_at d x = Some p" "pz_status p = PauseOpen" "pz_attempt_id p = aid"
    | (child) x r where "run_at d x = Some r" "ru_parent_attempt_id r = Some aid" "unended r"
    unfolding awaited_def by blast
  then show ?thesis
  proof cases
    case pause
    then have "pause_at d' x = Some (q p)" by (simp add: pau)
    with q [OF pause] show ?thesis unfolding awaited_def by blast
  next
    case child
    then have "run_at d' x = Some (h r)" by (simp add: run)
    with h [OF child] show ?thesis unfolding awaited_def by blast
  qed
qed

lemma waits_new_attempt:
  assumes ok: "waits_ok owed d" and fresh: "attempt_at d (sa_id n) = None" and n: "sa_status n = StepPending"
    and att: "\<And>x. attempt_at d' x = (if x = sa_id n then Some n else attempt_at d x)"
    and run: "\<And>x. run_at d' x = run_at d x" and pau: "\<And>x. pause_at d' x = pause_at d x" and sig: "\<And>x. signal_at d' x = signal_at d x"
  shows "waits_ok owed d'"
proof -
  have other: "attempt_at d x = Some a \<Longrightarrow> attempt_at d' x = Some a" for x a using fresh by (auto simp: att)
  have "pauses_ok d'" using ok other unfolding waits_ok_def pauses_ok_def pau by blast
  moreover have "inbox_ok d'" using ok unfolding waits_ok_def inbox_ok_def pau sig run by blast
  moreover have "children_ok d'" using ok other unfolding waits_ok_def children_ok_def pau run by blast
  moreover have "waiting_ok owed d'"
    using ok n unfolding waits_ok_def waiting_ok_def awaited_def pau run att by (auto split: if_splits)
  ultimately show ?thesis by (simp add: waits_ok_def)
qed

section \<open>Signals\<close>

text \<open>
  A signal that was taken names the pause it resumed, which no other signal did; the signals of one name
  are taken in the order they came; a key names one signal of its run.
\<close>

definition took :: "run_db \<Rightarrow> signal_row \<Rightarrow> pause_row \<Rightarrow> bool" where
  "took d s p \<longleftrightarrow>
     sg_pause_id s = Some (pz_id p) \<and> sg_status s = SignalResumed \<and> pz_status p = PauseResumed \<and>
     pz_resume_key p = Some (sg_key s) \<and> pz_signal_name p = Some (sg_name s) \<and> pz_run_id p = sg_run_id s"

definition taken_ok :: "run_db \<Rightarrow> bool" where
  "taken_ok d \<longleftrightarrow>
     (\<forall>sid s. signal_at d sid = Some s \<longrightarrow> sg_status s = SignalResumed \<or> sg_pause_id s \<noteq> None \<longrightarrow>
        (\<exists>p. pause_at d (pz_id p) = Some p \<and> took d s p)) \<and>
     (\<forall>i j s t pid. signal_at d i = Some s \<longrightarrow> signal_at d j = Some t \<longrightarrow> sg_pause_id s = Some pid \<longrightarrow> sg_pause_id t = Some pid \<longrightarrow> i = j)"

definition order_ok :: "run_db \<Rightarrow> bool" where
  "order_ok d \<longleftrightarrow>
     (\<forall>i s. signal_at d i = Some s \<longrightarrow> sg_sequence s \<le> rd_sequence d) \<and>
     (\<forall>i j s t. signal_at d i = Some s \<longrightarrow> signal_at d j = Some t \<longrightarrow> sg_sequence s = sg_sequence t \<longrightarrow> i = j) \<and>
     (\<forall>i j s t. signal_at d i = Some s \<longrightarrow> signal_at d j = Some t \<longrightarrow> sg_run_id s = sg_run_id t \<longrightarrow> sg_name s = sg_name t \<longrightarrow>
        sg_status s = SignalResumed \<longrightarrow> sg_status t = SignalBuffered \<longrightarrow> sg_sequence s < sg_sequence t) \<and>
     (\<forall>i j s t. signal_at d i = Some s \<longrightarrow> signal_at d j = Some t \<longrightarrow> sg_run_id s = sg_run_id t \<longrightarrow> sg_key s = sg_key t \<longrightarrow> i = j)"

definition signals_ok :: "run_db \<Rightarrow> bool" where
  "signals_ok d \<longleftrightarrow> taken_ok d \<and> order_ok d"

definition fades :: "(signal_row \<Rightarrow> signal_row) \<Rightarrow> signal_row \<Rightarrow> bool" where
  "fades z s \<longleftrightarrow> z s = s \<or> (sg_status s = SignalBuffered \<and> sg_pause_id (z s) = sg_pause_id s \<and> sg_status (z s) = SignalDiscarded \<and>
     sg_run_id (z s) = sg_run_id s \<and> sg_name (z s) = sg_name s \<and> sg_key (z s) = sg_key s \<and> sg_sequence (z s) = sg_sequence s)"

lemma signals_rewritten:
  assumes ok: "signals_ok d"
    and pau: "\<And>x. pause_at d' x = map_option q (pause_at d x)"
    and sig: "\<And>x. signal_at d' x = map_option z (signal_at d x)"
    and seq: "rd_sequence d' = rd_sequence d"
    and q: "\<And>x p. pause_at d x = Some p \<Longrightarrow> pz_status p \<noteq> PauseOpen \<Longrightarrow> q p = p"
    and z: "\<And>x s. signal_at d x = Some s \<Longrightarrow> fades z s"
  shows "signals_ok d'"
proof -
  have same: "sg_pause_id (z s) = sg_pause_id s" "sg_run_id (z s) = sg_run_id s" "sg_name (z s) = sg_name s" "sg_key (z s) = sg_key s"
    "sg_sequence (z s) = sg_sequence s" if "signal_at d x = Some s" for x s
    using z [OF that] by (auto simp: fades_def)
  have res: "sg_status (z s) = SignalResumed \<longleftrightarrow> sg_status s = SignalResumed" if "signal_at d x = Some s" for x s
    using z [OF that] by (auto simp: fades_def)
  have buf: "sg_status (z s) = SignalBuffered \<longrightarrow> sg_status s = SignalBuffered" if "signal_at d x = Some s" for x s
    using z [OF that] by (auto simp: fades_def)
  from ok have tk: "taken_ok d" and oo: "order_ok d" by (simp_all add: signals_ok_def)
  have "taken_ok d'"
    unfolding taken_ok_def
  proof (intro conjI allI impI)
    fix x s' assume "signal_at d' x = Some s'" and c: "sg_status s' = SignalResumed \<or> sg_pause_id s' \<noteq> None"
    then obtain s where s: "signal_at d x = Some s" "s' = z s" by (auto simp: sig)
    from c have "sg_status s = SignalResumed \<or> sg_pause_id s \<noteq> None" using res [OF s(1)] same(1) [OF s(1)] s(2) by simp
    with tk s(1) obtain p where p: "pause_at d (pz_id p) = Some p" "took d s p" unfolding taken_ok_def by blast
    then have "q p = p" using q [OF p(1)] by (simp add: took_def)
    moreover have "took d' s' p" using p(2) res [OF s(1)] by (simp add: took_def s(2) same [OF s(1)])
    ultimately show "\<exists>p. pause_at d' (pz_id p) = Some p \<and> took d' s' p" using p(1) by (intro exI [of _ p]) (simp add: pau)
  next
    fix i j s' t' pid
    assume "signal_at d' i = Some s'" "signal_at d' j = Some t'" and c: "sg_pause_id s' = Some pid" "sg_pause_id t' = Some pid"
    then obtain s t where s: "signal_at d i = Some s" "s' = z s" and t: "signal_at d j = Some t" "t' = z t" by (auto simp: sig)
    from c have "sg_pause_id s = Some pid" "sg_pause_id t = Some pid" by (simp_all add: s(2) t(2) same(1) [OF s(1)] same(1) [OF t(1)])
    with tk s(1) t(1) show "i = j" unfolding taken_ok_def by blast
  qed
  moreover have "order_ok d'"
    unfolding order_ok_def
  proof (intro conjI allI impI)
    fix i s' assume "signal_at d' i = Some s'"
    then obtain s where s: "signal_at d i = Some s" "s' = z s" by (auto simp: sig)
    with oo show "sg_sequence s' \<le> rd_sequence d'" by (auto simp: order_ok_def seq same(5) [OF s(1)])
  next
    fix i j s' t' assume "signal_at d' i = Some s'" "signal_at d' j = Some t'"
    then obtain s t where s: "signal_at d i = Some s" "s' = z s" and t: "signal_at d j = Some t" "t' = z t" by (auto simp: sig)
    note ss = same [OF s(1)] and tt = same [OF t(1)]
    show "sg_sequence s' = sg_sequence t' \<Longrightarrow> i = j"
      using oo s t ss(5) tt(5) unfolding order_ok_def by metis
    show "sg_run_id s' = sg_run_id t' \<Longrightarrow> sg_name s' = sg_name t' \<Longrightarrow> sg_status s' = SignalResumed \<Longrightarrow> sg_status t' = SignalBuffered \<Longrightarrow>
      sg_sequence s' < sg_sequence t'"
      using oo s(1) t(1) res [OF s(1)] buf [OF t(1)] unfolding order_ok_def s(2) t(2) ss tt by blast
    show "sg_run_id s' = sg_run_id t' \<Longrightarrow> sg_key s' = sg_key t' \<Longrightarrow> i = j"
      using oo s(1) t(1) unfolding order_ok_def s(2) t(2) ss tt by blast
  qed
  ultimately show ?thesis by (simp add: signals_ok_def)
qed

section \<open>The invariant\<close>

definition keys_ok :: "run_db \<Rightarrow> bool" where
  "keys_ok d \<longleftrightarrow>
     unique_keys ru_id (rd_runs d) \<and> unique_keys rs_run_id (rd_states d) \<and> unique_keys sa_id (rd_attempts d) \<and>
     unique_keys pz_id (rd_pauses d) \<and> unique_keys sg_id (rd_signals d)"

definition run_ok :: "ident set \<Rightarrow> run_db \<Rightarrow> bool" where
  "run_ok owed d \<longleftrightarrow> keys_ok d \<and> steps_ok d \<and> waits_ok owed d \<and> signals_ok d"

lemma run_okD:
  assumes "run_ok owed d"
  shows "keys_ok d" "steps_ok d" "waits_ok owed d" "signals_ok d"
  using assms by (simp_all add: run_ok_def)

lemma waits_weaken: "waits_ok owed d \<Longrightarrow> owed \<subseteq> owed' \<Longrightarrow> waits_ok owed' d"
  unfolding waits_ok_def waiting_ok_def by blast

lemma run_weaken: "run_ok owed d \<Longrightarrow> owed \<subseteq> owed' \<Longrightarrow> run_ok owed' d"
  using waits_weaken by (auto simp: run_ok_def)

text \<open>What is not in these tables does not matter to it.\<close>

definition same_tables :: "run_db \<Rightarrow> run_db \<Rightarrow> bool" where
  "same_tables d d' \<longleftrightarrow>
     rd_runs d' = rd_runs d \<and> rd_states d' = rd_states d \<and> rd_attempts d' = rd_attempts d \<and> rd_pauses d' = rd_pauses d \<and>
     rd_signals d' = rd_signals d \<and> rd_sequence d' = rd_sequence d"

lemma run_ok_same:
  assumes ok: "run_ok owed d" and same: "same_tables d d'"
  shows "run_ok owed d'"
proof -
  note eqs = same [unfolded same_tables_def, THEN conjunct1] same [unfolded same_tables_def, THEN conjunct2, THEN conjunct1]
    same [unfolded same_tables_def, THEN conjunct2, THEN conjunct2, THEN conjunct1]
    same [unfolded same_tables_def, THEN conjunct2, THEN conjunct2, THEN conjunct2, THEN conjunct1]
    same [unfolded same_tables_def, THEN conjunct2, THEN conjunct2, THEN conjunct2, THEN conjunct2, THEN conjunct1]
    same [unfolded same_tables_def, THEN conjunct2, THEN conjunct2, THEN conjunct2, THEN conjunct2, THEN conjunct2]
  have comp: "completed_at d' = completed_at d" unfolding completed_at_def [abs_def] eqs ..
  have feds: "fed d' = fed d" unfolding fed_def [abs_def] comp ..
  have pros: "progressed d' = progressed d" unfolding progressed_def [abs_def] comp ..
  have "steps_ok d' = steps_ok d"
    unfolding steps_ok_def attempts_ok_def states_ok_def once_ok_def comp feds pros eqs ..
  moreover have "waits_ok owed d' = waits_ok owed d"
    unfolding waits_ok_def pauses_ok_def inbox_ok_def children_ok_def waiting_ok_def awaited_def eqs ..
  moreover have "signals_ok d' = signals_ok d"
    unfolding signals_ok_def taken_ok_def took_def order_ok_def eqs ..
  moreover have "keys_ok d' = keys_ok d" unfolding keys_ok_def eqs ..
  ultimately show ?thesis using ok by (simp add: run_ok_def)
qed

text \<open>Ids that a transaction draws are not in the tables, and an attempt's goes with its run, step and number.\<close>

definition fresh_attempts :: "run_env \<Rightarrow> run_db \<Rightarrow> bool" where
  "fresh_attempts e d \<longleftrightarrow>
     (\<forall>rid i n rid' i' n'. re_attempt_id e rid i n = re_attempt_id e rid' i' n' \<longrightarrow> rid = rid' \<and> i = i' \<and> n = n') \<and>
     (\<forall>rid i n. (\<forall>a \<in> set (rd_attempts d). \<not> (sa_run_id a = rid \<and> sa_step_index a = i \<and> sa_attempt a = n)) \<longrightarrow>
        re_attempt_id e rid i n \<notin> sa_id ` set (rd_attempts d))"

end
