(* ===== verification/Run_Chain.thy ===== *)
theory Run_Chain
  imports Run_Invariant
begin

text \<open>
  The invariant of workflow runs through the ends of attempts and runs: an attempt completes or fails, its
  run goes on, tries again or ends, and the run that waits for it is told, up the whole chain.
\<close>

section \<open>Rows by their ids\<close>

lemma at_id:
  "run_at d i = Some r \<Longrightarrow> ru_id r = i" "state_at d i = Some s \<Longrightarrow> rs_run_id s = i" "attempt_at d i = Some a \<Longrightarrow> sa_id a = i"
  "pause_at d i = Some p \<Longrightarrow> pz_id p = i" "signal_at d i = Some g \<Longrightarrow> sg_id g = i"
  by (auto dest: find_row_Some)

lemma rewrite_one:
  assumes "find_row key k xs = Some r"
  shows "map_option (\<lambda>x. if key x = k then f x else x) (find_row key y xs) = (if y = k then Some (f r) else find_row key y xs)"
    and "P r \<Longrightarrow> map_option (\<lambda>x. if key x = k \<and> P x then f x else x) (find_row key y xs) =
      (if y = k then Some (f r) else find_row key y xs)"
proof -
  have r: "key r = k" using find_row_Some [OF assms] by simp
  have other: "map_option g (find_row key y xs) = find_row key y xs" if "y \<noteq> k" "\<And>x. key x \<noteq> k \<Longrightarrow> g x = x" for g
  proof (cases "find_row key y xs")
    case (Some x)
    then show ?thesis using that find_row_Some [OF Some] by simp
  qed simp
  show "map_option (\<lambda>x. if key x = k then f x else x) (find_row key y xs) = (if y = k then Some (f r) else find_row key y xs)"
    by (cases "y = k") (simp_all add: assms r other)
  show "P r \<Longrightarrow> map_option (\<lambda>x. if key x = k \<and> P x then f x else x) (find_row key y xs) =
      (if y = k then Some (f r) else find_row key y xs)"
    by (cases "y = k") (simp_all add: assms r other)
qed

lemma rewrite_active:
  assumes "run_at d k = Some r" and "is_active_run_status (ru_status r)"
  shows "map_option (\<lambda>x. if ru_id x = k \<and> is_active_run_status (ru_status x) then f x else x) (run_at d y) =
    (if y = k then Some (f r) else run_at d y)"
  by (rule rewrite_one(2) [where P = "\<lambda>r. is_active_run_status (ru_status r)"]) (use assms in auto)

lemma failed_attempt_fields [simp]:
  "sa_id (failed_attempt err now a) = sa_id a" "sa_run_id (failed_attempt err now a) = sa_run_id a"
  "sa_step_index (failed_attempt err now a) = sa_step_index a" "sa_executor (failed_attempt err now a) = sa_executor a"
  "sa_input (failed_attempt err now a) = sa_input a" "sa_status (failed_attempt err now a) = StepFailed"
  "sa_attempt (failed_attempt err now a) = sa_attempt a"
  by (simp_all add: failed_attempt_def)

lemma completed_attempt_fields [simp]:
  "sa_id (completed_attempt v now a) = sa_id a" "sa_run_id (completed_attempt v now a) = sa_run_id a"
  "sa_step_index (completed_attempt v now a) = sa_step_index a" "sa_executor (completed_attempt v now a) = sa_executor a"
  "sa_input (completed_attempt v now a) = sa_input a" "sa_status (completed_attempt v now a) = StepCompleted"
  "sa_attempt (completed_attempt v now a) = sa_attempt a" "sa_output (completed_attempt v now a) = Some v"
  by (simp_all add: completed_attempt_def)

text \<open>A waiting attempt's run is active and on it.\<close>

lemma lock_active_attempt_Some:
  "lock_active_attempt aid d = Some ctx \<longleftrightarrow>
     (\<exists>a r s. attempt_at d aid = Some a \<and> run_at d (sa_run_id a) = Some r \<and> is_active_run_status (ru_status r) \<and>
        state_at d (sa_run_id a) = Some s \<and> rs_active_attempt s = Some aid \<and>
        ctx = \<lparr>cx_attempt = a, cx_state = s, cx_run = r, cx_tenant = rd_tenant_of d (ru_project_id r)\<rparr>)"
  by (auto simp: lock_active_attempt_def lock_run_def split: option.splits if_splits)

lemma waiting_locked:
  assumes "steps_ok d" and a: "attempt_at d aid = Some a" and w: "sa_status a = StepWaiting"
  shows "\<exists>ctx. lock_active_attempt aid d = Some ctx \<and> cx_attempt ctx = a"
proof -
  from attempts_okD [OF _ a] assms(1) obtain s r where s: "state_at d (sa_run_id a) = Some s" "run_at d (sa_run_id a) = Some r" "placed a s r"
    by (auto simp: steps_ok_def)
  with w at_id(3) [OF a] have "is_active_run_status (ru_status r)" "rs_active_attempt s = Some aid" by (auto simp: placed_def)
  with a s show ?thesis by (auto simp: lock_active_attempt_Some)
qed

section \<open>A run ends\<close>

definition attempts_of :: "ident \<Rightarrow> run_db \<Rightarrow> ident set" where
  "attempts_of rid d = {aid. \<exists>a. attempt_at d aid = Some a \<and> sa_run_id a = rid}"

definition parent_owed :: "run_row \<Rightarrow> ident set" where
  "parent_owed r = (case ru_parent_attempt_id r of None \<Rightarrow> {} | Some p \<Rightarrow> {p})"

lemma in_live_attempts:
  "unique_keys sa_id (rd_attempts d) \<Longrightarrow>
   aid \<in> set (live_attempts rid d) \<longleftrightarrow> (\<exists>a. attempt_at d aid = Some a \<and> sa_run_id a = rid \<and> live_step (sa_status a))"
  by (fastforce simp: live_attempts_def dest: find_row_unique find_row_Some)

lemma run_ended:
  assumes ok: "run_ok owed d" and run: "run_at d rid = Some r" and st: "ru_status r \<in> set statuses"
    and open_st: "\<And>s. s \<in> set statuses \<Longrightarrow> \<not> is_terminal_run_status s"
    and e: "end_run now rid err x statuses d = (d', t)"
  shows "t = Some (rid, put_error err) \<and> run_ok ((owed - attempts_of rid d) \<union> parent_owed r) d' \<and>
    (\<exists>r'. run_at d' rid = Some r' \<and> ru_status r' = RunFailed \<and> ru_parent_attempt_id r' = ru_parent_attempt_id r)"
proof -
  note k = run_okD(1) [OF ok] and so = run_okD(2) [OF ok] and wo = run_okD(3) [OF ok] and go = run_okD(4) [OF ok]
  note eff = end_run_effect [OF e run st, simplified effects]
  let ?g = "\<lambda>a. if sa_run_id a = rid \<and> live_step (sa_status a) then failed_attempt err now a else a"
  let ?h = "\<lambda>q. if ru_id q = rid \<and> ru_status q \<in> set statuses
    then q\<lparr>ru_status := RunFailed, ru_error := Some err, ru_completed_at := Some now, ru_updated_at := now\<rparr> else q"
  let ?k = "\<lambda>s. if rs_run_id s = rid then s\<lparr>rs_prev_status := None, rs_prev_phase := None, rs_updated_at := now\<rparr> else s"
  let ?q = "\<lambda>p. if pz_run_id p = rid \<and> pz_attempt_id p \<in> set (live_attempts rid d) \<and> pz_status p = PauseOpen then cancel_pause now p else p"
  let ?z = "\<lambda>s. if sg_run_id s = rid \<and> sg_status s = SignalBuffered
    then s\<lparr>sg_status := SignalDiscarded, sg_value := None, sg_resolved_at := Some now\<rparr> else s"
  have at: "attempt_at d' y = map_option ?g (attempt_at d y)" "run_at d' y = map_option ?h (run_at d y)"
    "state_at d' y = map_option ?k (state_at d y)" "pause_at d' y = map_option ?q (pause_at d y)"
    "signal_at d' y = map_option ?z (signal_at d y)" for y
    using eff by (simp_all add: find_row_update_where)
  have live: "y \<in> set (live_attempts rid d) \<longleftrightarrow> (\<exists>a. attempt_at d y = Some a \<and> sa_run_id a = rid \<and> live_step (sa_status a))" for y
    by (rule in_live_attempts) (use k in \<open>simp add: keys_ok_def\<close>)
  have nt: "RunCompleted \<notin> set statuses" using open_st by fastforce
  have "keys_ok d'" using k eff by (auto simp: keys_ok_def)
  moreover have "steps_ok d'"
  proof (rule steps_rewritten [OF so at(1) at(2) at(3)])
    fix y a assume a: "attempt_at d y = Some a"
    show "keeps_attempt ?g a" by (auto simp: keeps_attempt_def)
      (use so a in \<open>auto simp: steps_ok_def placed_def dest!: attempts_okD\<close>)
    fix q assume "live_step (sa_status (?g a))" "run_at d (sa_run_id a) = Some q" "\<not> is_terminal_run_status (ru_status q)"
    then show "\<not> is_terminal_run_status (ru_status (?h q)) \<and>
      (sa_executor a = ByBoundary \<longrightarrow> is_active_run_status (ru_status q) \<longrightarrow> is_active_run_status (ru_status (?h q)))"
      using at_id(1) [of "sa_run_id a" d q] by (auto split: if_splits)
  next
    fix y q assume "run_at d y = Some q" then show "keeps_run ?h q" using nt by (auto simp: keeps_run_def)
  next
    fix y s assume "state_at d y = Some s" then show "keeps_state ?k s" by (auto simp: keeps_state_def)
  qed
  moreover have "waits_ok ((owed - attempts_of rid d) \<union> parent_owed r) d'"
  proof (rule waits_rewritten [OF wo at(1) at(2) at(4) at(5)])
    fix y a assume a: "attempt_at d y = Some a"
    show "keeps_wait ?g a" by (auto simp: keeps_wait_def begun_def)
    assume w: "sa_status (?g a) = StepWaiting" and n: "y \<notin> (owed - attempts_of rid d) \<union> parent_owed r"
    from w have other: "sa_run_id a \<noteq> rid" by (auto split: if_splits)
    have "awaited d y \<longrightarrow> awaited d' y"
    proof (intro impI awaited_rewritten [OF at(2) at(4)])
      fix i q assume q: "run_at d i = Some q" "ru_parent_attempt_id q = Some y" "unended q"
      have "ru_id q \<noteq> rid" using q run n at_id(1) [OF q(1)] by (auto simp: parent_owed_def)
      with q show "ru_parent_attempt_id (?h q) = Some y \<and> unended (?h q)" by simp
    next
      fix i p assume p: "pause_at d i = Some p" "pz_status p = PauseOpen" "pz_attempt_id p = y"
      from pauses_okD [OF wo p(1,2)] p(3) a other have "pz_run_id p \<noteq> rid" by auto
      with p show "pz_status (?q p) = PauseOpen \<and> pz_attempt_id (?q p) = y" by simp
    qed
    moreover have "y \<notin> owed" using n other a by (auto simp: attempts_of_def)
    ultimately show "y \<notin> owed \<and> (awaited d y \<longrightarrow> awaited d' y)" by blast
  next
    fix y q assume q: "run_at d y = Some q" then show "keeps_links ?h q" using never_canceling [OF wo q] by (auto simp: keeps_links_def)
  next
    fix y p assume "pause_at d y = Some p" then show "keeps_pause ?q p" by (auto simp: keeps_pause_def)
  next
    fix y s assume "signal_at d y = Some s" then show "keeps_signal ?z s" by (auto simp: keeps_signal_def)
  next
    fix y p a assume p: "pause_at d y = Some p" "pz_status (?q p) = PauseOpen" "attempt_at d (pz_attempt_id p) = Some a"
      and w: "sa_status a = StepWaiting"
    from p(2) have po: "pz_status p = PauseOpen" by (auto split: if_splits)
    from pauses_okD [OF wo p(1) po] p(3) have pr: "sa_run_id a = pz_run_id p" by auto
    have "sa_run_id a \<noteq> rid"
    proof
      assume "sa_run_id a = rid"
      with p po pr w have "pz_attempt_id p \<in> set (live_attempts rid d)" by (auto simp: live)
      with p(2) po pr \<open>sa_run_id a = rid\<close> show False by simp
    qed
    with w show "sa_status (?g a) = StepWaiting" by simp
  next
    fix y s q assume "signal_at d y = Some s" "sg_status (?z s) = SignalBuffered" "run_at d (sg_run_id s) = Some q" "\<not> is_terminal_run_status (ru_status q)"
    then show "\<not> is_terminal_run_status (ru_status (?h q))" using at_id(1) [of "sg_run_id s" d q] by (auto split: if_splits)
  qed
  moreover have "signals_ok d'"
  proof (rule signals_rewritten [OF go at(4) at(5)])
    show "rd_sequence d' = rd_sequence d" using eff by simp
  next
    fix y s assume "signal_at d y = Some s" then show "fades ?z s" by (auto simp: fades_def)
  qed auto
  moreover have "\<exists>r'. run_at d' rid = Some r' \<and> ru_status r' = RunFailed \<and> ru_parent_attempt_id r' = ru_parent_attempt_id r"
    using run st at_id(1) [OF run] by (simp add: at(2))
  ultimately show ?thesis using eff by (simp add: run_ok_def)
qed

section \<open>An attempt ends\<close>

lemma waits_attempt_done:
  assumes ok: "waits_ok owed d"
    and att: "\<And>x. attempt_at d' x = map_option (\<lambda>a. if sa_id a = aid then f a else a) (attempt_at d x)"
    and f: "\<And>a. sa_run_id (f a) = sa_run_id a" "\<And>a. sa_status (f a) \<noteq> StepWaiting" "\<And>a. begun (sa_status (f a))"
    and run: "\<And>x. run_at d' x = map_option h (run_at d x)"
    and pau: "\<And>x. pause_at d' x = map_option q (pause_at d x)"
    and sig: "\<And>x. signal_at d' x = map_option z (signal_at d x)"
    and h: "\<And>x r. run_at d x = Some r \<Longrightarrow> keeps_links h r"
    and q: "\<And>x p. pause_at d x = Some p \<Longrightarrow> keeps_pause q p"
    and open_q: "\<And>x p. pause_at d x = Some p \<Longrightarrow> pz_status p = PauseOpen \<Longrightarrow>
        if pz_attempt_id p = aid then pz_status (q p) \<noteq> PauseOpen else q p = p"
    and z: "\<And>x s. signal_at d x = Some s \<Longrightarrow> keeps_signal z s"
    and lasts: "\<And>x s r. signal_at d x = Some s \<Longrightarrow> sg_status (z s) = SignalBuffered \<Longrightarrow> run_at d (sg_run_id s) = Some r \<Longrightarrow>
        \<not> is_terminal_run_status (ru_status r) \<Longrightarrow> \<not> is_terminal_run_status (ru_status (h r))"
    and ends: "\<And>x r y. run_at d x = Some r \<Longrightarrow> ru_parent_attempt_id r = Some y \<Longrightarrow> unended r \<Longrightarrow> y \<notin> X \<Longrightarrow> unended (h r)"
  shows "waits_ok ((owed - {aid}) \<union> X) d'"
proof (rule waits_rewritten [OF ok att run pau sig _ h q z])
  fix y a assume a: "attempt_at d y = Some a"
  show "keeps_wait (\<lambda>a. if sa_id a = aid then f a else a) a" using f by (auto simp: keeps_wait_def)
  assume w: "sa_status (if sa_id a = aid then f a else a) = StepWaiting" and n: "y \<notin> (owed - {aid}) \<union> X"
  from w f(2) at_id(3) [OF a] have other: "y \<noteq> aid" by (auto split: if_splits)
  have "awaited d y \<longrightarrow> awaited d' y"
  proof (intro impI awaited_rewritten [OF run pau])
    fix i r assume r: "run_at d i = Some r" "ru_parent_attempt_id r = Some y" "unended r"
    with ends [OF r] n h [OF r(1)] show "ru_parent_attempt_id (h r) = Some y \<and> unended (h r)" by (auto simp: keeps_links_def)
  next
    fix i p assume p: "pause_at d i = Some p" "pz_status p = PauseOpen" "pz_attempt_id p = y"
    with open_q [OF p(1,2)] other show "pz_status (q p) = PauseOpen \<and> pz_attempt_id (q p) = y" by auto
  qed
  with n other show "y \<notin> owed \<and> (awaited d y \<longrightarrow> awaited d' y)" by blast
next
  fix y p a assume p: "pause_at d y = Some p" "pz_status (q p) = PauseOpen" and a: "attempt_at d (pz_attempt_id p) = Some a"
    and w: "sa_status a = StepWaiting"
  from q [OF p(1)] p(2) have "pz_status p = PauseOpen" by (auto simp: keeps_pause_def)
  with open_q [OF p(1)] p(2) have "pz_attempt_id p \<noteq> aid" by (auto split: if_splits)
  with at_id(3) [OF a] w show "sa_status (if sa_id a = aid then f a else a) = StepWaiting" by simp
qed (use lasts in auto)

definition told_owed :: "run_db \<Rightarrow> told \<Rightarrow> ident set" where
  "told_owed d t = (case t of None \<Rightarrow> {} | Some (child, _) \<Rightarrow> (case run_at d child of None \<Rightarrow> {} | Some r \<Rightarrow> parent_owed r))"

definition chain_ok :: "run_env \<Rightarrow> ident set \<Rightarrow> run_db \<times> told \<Rightarrow> bool" where
  "chain_ok e owed x \<longleftrightarrow> run_ok (owed \<union> told_owed (fst x) (snd x)) (fst x) \<and> fresh_attempts e (fst x)"

lemma fresh_same:
  assumes "fresh_attempts e d"
    and "map (\<lambda>a. (sa_id a, sa_run_id a, sa_step_index a, sa_attempt a)) (rd_attempts d') =
      map (\<lambda>a. (sa_id a, sa_run_id a, sa_step_index a, sa_attempt a)) (rd_attempts d)"
  shows "fresh_attempts e d'"
proof -
  let ?k = "\<lambda>a. (sa_id a, sa_run_id a, sa_step_index a, sa_attempt a)"
  have sets: "?k ` set (rd_attempts d') = ?k ` set (rd_attempts d)" using arg_cong [OF assms(2), of set] by simp
  have ids: "sa_id ` set (rd_attempts d') = sa_id ` set (rd_attempts d)"
    using arg_cong [OF sets, of "image fst"] by (simp add: image_image)
  have all: "(\<forall>a \<in> set (rd_attempts x). \<not> (sa_run_id a = rid \<and> sa_step_index a = i \<and> sa_attempt a = n)) \<longleftrightarrow>
    (\<forall>k \<in> ?k ` set (rd_attempts x). \<not> (fst (snd k) = rid \<and> fst (snd (snd k)) = i \<and> snd (snd (snd k)) = n))" for x rid i n by simp
  show ?thesis using assms(1) unfolding fresh_attempts_def all sets ids .
qed

lemma fresh_update:
  assumes "fresh_attempts e d" and "rd_attempts d' = update_where p f (rd_attempts d)"
    and "\<And>a. sa_id (f a) = sa_id a \<and> sa_run_id (f a) = sa_run_id a \<and> sa_step_index (f a) = sa_step_index a \<and> sa_attempt (f a) = sa_attempt a"
  shows "fresh_attempts e d'"
  by (rule fresh_same [OF assms(1)]) (simp add: assms(2) map_update_where assms(3))

lemma fresh_new:
  assumes fr: "fresh_attempts e d" and at: "rd_attempts d' = rd_attempts d @ [a]"
    and id: "sa_id a = re_attempt_id e (sa_run_id a) (sa_step_index a) (sa_attempt a)"
  shows "fresh_attempts e d'"
  unfolding fresh_attempts_def
proof (intro conjI)
  show inj: "\<forall>rid i n rid' i' n'. re_attempt_id e rid i n = re_attempt_id e rid' i' n' \<longrightarrow> rid = rid' \<and> i = i' \<and> n = n'"
    using fr unfolding fresh_attempts_def by blast
  show "\<forall>rid i n. (\<forall>b \<in> set (rd_attempts d'). \<not> (sa_run_id b = rid \<and> sa_step_index b = i \<and> sa_attempt b = n)) \<longrightarrow>
      re_attempt_id e rid i n \<notin> sa_id ` set (rd_attempts d')"
  proof (intro allI impI)
    fix rid i n assume no: "\<forall>b \<in> set (rd_attempts d'). \<not> (sa_run_id b = rid \<and> sa_step_index b = i \<and> sa_attempt b = n)"
    then have "re_attempt_id e rid i n \<notin> sa_id ` set (rd_attempts d)" using fr at unfolding fresh_attempts_def by auto
    moreover have "re_attempt_id e rid i n \<noteq> sa_id a"
    proof
      assume "re_attempt_id e rid i n = sa_id a"
      with inj id have "rid = sa_run_id a \<and> i = sa_step_index a \<and> n = sa_attempt a" by metis
      with no at show False by simp
    qed
    ultimately show "re_attempt_id e rid i n \<notin> sa_id ` set (rd_attempts d')" by (simp add: at)
  qed
qed

lemma created_rows:
  assumes c: "create_step_attempt c e tenant rid desc input n available d = Inr d'" and fr: "fresh_attempts e d"
  defines "a \<equiv> new_attempt c e rid desc input n"
  shows "attempt_at d (sa_id a) = None"
    and "attempt_at d' x = (if x = sa_id a then Some a else attempt_at d x)"
    and "state_at d' x = map_option (\<lambda>s. if rs_run_id s = rid then s\<lparr>rs_step_index := sd_index desc, rs_input := input,
        rs_active_attempt := Some (sa_id a), rs_updated_at := re_now e\<rparr> else s) (state_at d x)"
    and "run_at d' x = map_option (\<lambda>r. if ru_id r = rid \<and> is_active_run_status (ru_status r)
        then r\<lparr>ru_status := RunPending, ru_phase := phase_for desc, ru_updated_at := re_now e\<rparr> else r) (run_at d x)"
    and "fresh_attempts e d'"
proof -
  note eff = create_step_attempt_effect [OF c]
  have id: "sa_id a = re_attempt_id e rid (sd_index desc) n" "sa_run_id a = rid" "sa_step_index a = sd_index desc" "sa_attempt a = n"
    by (simp_all add: a_def new_attempt_def)
  have "sa_id a \<notin> sa_id ` set (rd_attempts d)" using fr eff(8) unfolding fresh_attempts_def id(1) by blast
  then show none: "attempt_at d (sa_id a) = None" by (simp add: find_row_None)
  show "attempt_at d' x = (if x = sa_id a then Some a else attempt_at d x)"
    using none by (auto simp: eff(1) find_row_append a_def [symmetric] split: option.splits)
  show "state_at d' x = map_option (\<lambda>s. if rs_run_id s = rid then s\<lparr>rs_step_index := sd_index desc, rs_input := input,
        rs_active_attempt := Some (sa_id a), rs_updated_at := re_now e\<rparr> else s) (state_at d x)"
    unfolding id(1) by (simp add: eff(2) find_row_update_where)
  show "run_at d' x = map_option (\<lambda>r. if ru_id r = rid \<and> is_active_run_status (ru_status r)
        then r\<lparr>ru_status := RunPending, ru_phase := phase_for desc, ru_updated_at := re_now e\<rparr> else r) (run_at d x)"
    by (simp add: eff(3) find_row_update_where)
  show "fresh_attempts e d'" by (rule fresh_new [OF fr eff(1)]) (simp add: new_attempt_def)
qed

lemma created_keys:
  assumes "create_step_attempt c e tenant rid desc input n available d = Inr d'" and "fresh_attempts e d" and "keys_ok d"
  shows "keys_ok d'"
proof -
  note eff = create_step_attempt_effect [OF assms(1)] and none = created_rows(1) [OF assms(1,2)]
  show ?thesis using assms(3) none by (auto simp: keys_ok_def eff find_row_None unique_keys_def map_update_where)
qed

text \<open>The rows of the run that is on attempt \<open>aid\<close>.\<close>

lemma active_rows:
  assumes "steps_ok d" and "lock_active_attempt aid d = Some ctx" and "live_step (sa_status (cx_attempt ctx))"
  obtains a r s where "cx_attempt ctx = a" "cx_state ctx = s" "cx_run ctx = r" "attempt_at d aid = Some a" "sa_id a = aid"
    "live_step (sa_status a)" "run_at d (sa_run_id a) = Some r" "is_active_run_status (ru_status r)" "state_at d (sa_run_id a) = Some s"
    "rs_active_attempt s = Some aid" "rs_step_index s = sa_step_index a" "placed a s r" "fed d r a" "progressed d (sa_run_id a) s r"
proof -
  from assms(2) obtain a r s where a: "attempt_at d aid = Some a" and r: "run_at d (sa_run_id a) = Some r"
    "is_active_run_status (ru_status r)" and s: "state_at d (sa_run_id a) = Some s" "rs_active_attempt s = Some aid"
    and ctx: "cx_attempt ctx = a" "cx_state ctx = s" "cx_run ctx = r" by (auto simp: lock_active_attempt_Some)
  from attempts_okD [OF _ a] assms(1) r s have p: "placed a s r" "fed d r a" by (auto simp: steps_ok_def)
  from states_okD [OF _ s(1)] assms(1) r have g: "progressed d (sa_run_id a) s r" by (auto simp: steps_ok_def)
  from p(1) assms(3) ctx have "rs_step_index s = sa_step_index a" by (simp add: placed_def)
  with that [OF ctx a at_id(3) [OF a] _ r s _ p g] assms(3) ctx show ?thesis by simp
qed

lemma plan_step:
  assumes "plan_indexed plan" and "nth_step i plan = Some desc"
  shows "sd_index desc = i" "i < length plan"
  using assms by (auto simp: nth_step_def plan_indexed_def split: if_splits)

lemma signals_same:
  assumes "signals_ok d" and "rd_pauses d' = rd_pauses d" "rd_signals d' = rd_signals d" "rd_sequence d' = rd_sequence d"
  shows "signals_ok d'"
  by (rule signals_rewritten [OF assms(1), of _ "\<lambda>p. p" "\<lambda>s. s"]) (simp_all add: assms(2-4) fades_def option.map_ident)

lemma advance_ok:
  assumes ok: "run_ok owed d" and lk: "lock_active_attempt aid d = Some ctx" and l: "live_step (sa_status (cx_attempt ctx))"
    and np: "\<And>x p. pause_at d x = Some p \<Longrightarrow> pz_status p = PauseOpen \<Longrightarrow> pz_attempt_id p \<noteq> aid"
    and f: "\<And>x. sa_id (f x) = sa_id x" "\<And>x. sa_run_id (f x) = sa_run_id x" "\<And>x. sa_step_index (f x) = sa_step_index x"
      "\<And>x. sa_input (f x) = sa_input x" "\<And>x. sa_attempt (f x) = sa_attempt x" "\<And>x. sa_status (f x) = StepCompleted"
      "\<And>x. sa_output (f x) = Some v"
    and fr: "fresh_attempts e d"
    and adv: "advance_run c e tenant (sa_run_id (cx_attempt ctx)) (sa_step_index (cx_attempt ctx)) v
      (update_attempts (\<lambda>x. sa_id x = aid) f d) = Inr (d', t)"
  shows "chain_ok e (owed - {aid}) (d', t)"
proof -
  note k = run_okD(1) [OF ok] and so = run_okD(2) [OF ok] and wo = run_okD(3) [OF ok] and go = run_okD(4) [OF ok]
  from active_rows [OF so lk l] obtain a r s where ctx: "cx_attempt ctx = a" and a: "attempt_at d aid = Some a" "sa_id a = aid"
    and la: "live_step (sa_status a)" and r: "run_at d (sa_run_id a) = Some r" "is_active_run_status (ru_status r)"
    and s: "state_at d (sa_run_id a) = Some s" "rs_active_attempt s = Some aid" "rs_step_index s = sa_step_index a"
    and p: "placed a s r" "fed d r a" "progressed d (sa_run_id a) s r" .
  define rid where "rid = sa_run_id a"
  define d1 where "d1 = update_attempts (\<lambda>x. sa_id x = aid) f d"
  have plan: "rs_plan s \<noteq> []" "plan_indexed (rs_plan s)" using p(3) by (simp_all add: progressed_def)
  have prev: "is_active_run_status st" if "rs_prev_status s = Some st" for st using p(3) that by (simp add: progressed_def)
  have ix: "sa_step_index a < length (rs_plan s)" using p(3) r(2) s(3) by (auto simp: progressed_def)
  have dn: "steps_done s r = sa_step_index a" using r(2) s(3) by (auto simp: steps_done_def)
  have d1: "rd_runs d1 = rd_runs d" "rd_states d1 = rd_states d" "rd_pauses d1 = rd_pauses d" "rd_signals d1 = rd_signals d"
    "rd_sequence d1 = rd_sequence d" "rd_attempts d1 = update_where (\<lambda>x. sa_id x = aid) f (rd_attempts d)"
    by (simp_all add: d1_def effects)
  have at1: "attempt_at d1 x = map_option (\<lambda>b. if sa_id b = aid then f b else b) (attempt_at d x)" for x
    by (simp add: d1(6) find_row_update_where f(1))
  have at1': "attempt_at d1 x = (if x = aid then Some (f a) else attempt_at d x)" for x
    unfolding at1 by (rule rewrite_one(1) [OF a(1)])
  have k1: "keys_ok d1" using k by (auto simp: keys_ok_def d1 f(1))
  have fr1: "fresh_attempts e d1" by (rule fresh_update [OF fr d1(6)]) (simp add: f)
  have adv': "(case nth_step (sa_step_index a + 1) (rs_plan s) of None \<Rightarrow> Inr (complete_run (re_now e) r v d1)
      | Some desc \<Rightarrow> bind_run (create_step_attempt c e tenant rid desc v 1 None d1) (\<lambda>d'. Inr (d', None))) = Inr (d', t)"
    unfolding rid_def using adv r s ctx by (simp add: advance_run_def d1_def [symmetric] lock_run_def d1)
  have out: "completed_at d1 rid (sa_step_index a) (f a)"
    using a by (simp add: completed_at_def at1' f rid_def)
  show ?thesis
  proof (cases "nth_step (sa_step_index a + 1) (rs_plan s)")
    case None
    then have last: "sa_step_index a + 1 = length (rs_plan s)" using ix by (auto simp: nth_step_def split: if_splits)
    from adv' None have cr: "complete_run (re_now e) r v d1 = (d', t)" by simp
    have rr: "run_at d1 (ru_id r) = Some r" "ru_id r = rid" using r at_id(1) [OF r(1)] by (simp_all add: d1 rid_def)
    have "unique_keys ru_id (rd_runs d1)" using k1 by (simp add: keys_ok_def)
    note eff = complete_run_effect [OF cr rr(1) r(2) this, unfolded rr(2)]
    have e': "t = Some (rid, put_output v)"
      "run_at d' x = map_option (\<lambda>q. if ru_id q = rid \<and> is_active_run_status (ru_status q) then q\<lparr>ru_status := RunCompleted,
          ru_result := Some v, ru_error := None, ru_completed_at := Some (re_now e), ru_updated_at := re_now e\<rparr> else q) (run_at d x)"
      "state_at d' x = map_option (\<lambda>q. if rs_run_id q = rid then q\<lparr>rs_input := v, rs_active_attempt := None, rs_updated_at := re_now e\<rparr> else q) (state_at d x)"
      "attempt_at d' x = attempt_at d1 x" "pause_at d' x = map_option (\<lambda>q. q) (pause_at d x)"
      "signal_at d' x = map_option (\<lambda>q. if sg_run_id q = rid \<and> sg_status q = SignalBuffered then q\<lparr>sg_status := SignalDiscarded,
          sg_value := None, sg_resolved_at := Some (re_now e)\<rparr> else q) (signal_at d x)"
      "rd_sequence d' = rd_sequence d" for x
      using eff by (simp_all add: d1 find_row_update_where option.map_ident)
    let ?r' = "r\<lparr>ru_status := RunCompleted, ru_result := Some v, ru_error := None, ru_completed_at := Some (re_now e), ru_updated_at := re_now e\<rparr>"
    let ?s' = "s\<lparr>rs_input := v, rs_active_attempt := None, rs_updated_at := re_now e\<rparr>"
    have run': "run_at d' x = (if x = rid then Some ?r' else run_at d x)" for x
      unfolding e'(2) rid_def by (rule rewrite_active [OF r(1) r(2)])
    have sta': "state_at d' x = (if x = rid then Some ?s' else state_at d x)" for x
      unfolding e'(3) rid_def by (rule rewrite_one(1) [OF s(1)])
    have dn': "steps_done ?s' ?r' = Suc (sa_step_index a)" using last by (simp add: steps_done_def)
    have "steps_ok d'"
      by (rule steps_moved [OF so a(1) la _ s(1) r(1), where new = None and a' = "f a" and s' = ?s' and r' = ?r'])
        (use last in \<open>auto simp: e'(4) at1' run' sta' f dn' dn rid_def prev\<close>)
    moreover have "waits_ok ((owed - {aid}) \<union> parent_owed r) d'"
    proof (rule waits_attempt_done [OF wo at1 [folded e'(4)] _ _ _ e'(2) e'(5) e'(6)])
      fix x q assume q: "run_at d x = Some q"
      show "keeps_links (\<lambda>q. if ru_id q = rid \<and> is_active_run_status (ru_status q) then q\<lparr>ru_status := RunCompleted,
          ru_result := Some v, ru_error := None, ru_completed_at := Some (re_now e), ru_updated_at := re_now e\<rparr> else q) q"
        using never_canceling [OF wo q] by (auto simp: keeps_links_def)
      fix y assume "ru_parent_attempt_id q = Some y" "unended q" "y \<notin> parent_owed r"
      with q r at_id(1) [OF q] show "unended (if ru_id q = rid \<and> is_active_run_status (ru_status q) then q\<lparr>ru_status := RunCompleted,
          ru_result := Some v, ru_error := None, ru_completed_at := Some (re_now e), ru_updated_at := re_now e\<rparr> else q)"
        by (auto simp: parent_owed_def rid_def)
    next
      fix x g q assume "signal_at d x = Some g" "sg_status (if sg_run_id g = rid \<and> sg_status g = SignalBuffered then g\<lparr>sg_status := SignalDiscarded,
          sg_value := None, sg_resolved_at := Some (re_now e)\<rparr> else g) = SignalBuffered" "run_at d (sg_run_id g) = Some q"
        "\<not> is_terminal_run_status (ru_status q)"
      then show "\<not> is_terminal_run_status (ru_status (if ru_id q = rid \<and> is_active_run_status (ru_status q) then q\<lparr>ru_status := RunCompleted,
          ru_result := Some v, ru_error := None, ru_completed_at := Some (re_now e), ru_updated_at := re_now e\<rparr> else q))"
        using at_id(1) [of "sg_run_id g" d q] by (auto split: if_splits)
    qed (use np in \<open>auto simp: f keeps_pause_def keeps_signal_def begun_def\<close>)
    moreover have "signals_ok d'"
      by (rule signals_rewritten [OF go e'(5) e'(6) e'(7)]) (auto simp: fades_def)
    moreover have "keys_ok d'" using eff k1 by (auto simp: keys_ok_def)
    moreover have "fresh_attempts e d'" by (rule fresh_same [OF fr1]) (use eff in simp)
    moreover have "told_owed d' t = parent_owed r" by (simp add: told_owed_def e'(1) run' parent_owed_def)
    ultimately show ?thesis by (simp add: chain_ok_def run_ok_def)
  next
    case (Some desc)
    have di: "sd_index desc = Suc (sa_step_index a)" "Suc (sa_step_index a) < length (rs_plan s)"
      using plan_step [OF plan(2) Some] by simp_all
    from adv' Some have cr: "create_step_attempt c e tenant rid desc v 1 None d1 = Inr d'" and t: "t = None"
      by (auto simp: bind_run_Inr)
    define n where "n = new_attempt c e rid desc v 1"
    note rows = created_rows [OF cr fr1, folded n_def] and eff = create_step_attempt_effect [OF cr]
    have n: "sa_run_id n = rid" "sa_step_index n = Suc (sa_step_index a)" "sa_status n = StepPending" "sa_input n = v"
      using di by (simp_all add: n_def new_attempt_def)
    let ?r' = "r\<lparr>ru_status := RunPending, ru_phase := phase_for desc, ru_updated_at := re_now e\<rparr>"
    let ?s' = "s\<lparr>rs_step_index := sd_index desc, rs_input := v, rs_active_attempt := Some (sa_id n), rs_updated_at := re_now e\<rparr>"
    have run': "run_at d' x = (if x = rid then Some ?r' else run_at d x)" for x
      unfolding rows(4) d1 rid_def by (rule rewrite_active [OF r(1) r(2)])
    have sta': "state_at d' x = (if x = rid then Some ?s' else state_at d x)" for x
      unfolding rows(3) d1 rid_def by (rule rewrite_one(1) [OF s(1)])
    have ne: "sa_id n \<noteq> aid" using rows(1) by (auto simp: at1')
    have none: "attempt_at d (sa_id n) = None" using rows(1) ne by (simp add: at1')
    have dn': "steps_done ?s' ?r' = Suc (sa_step_index a)" using di by (simp add: steps_done_def)
    have att': "attempt_at d' x = (if x = aid then Some (f a) else case Some n of None \<Rightarrow> attempt_at d x
        | Some n \<Rightarrow> if x = sa_id n then Some n else attempt_at d x)" for x
      using ne by (auto simp: rows(2) at1')
    have "completed_at d' rid (sa_step_index a) (f a)" using out ne a(2) by (simp add: completed_at_def rows(2) f(1))
    moreover have "sa_output (f a) = Some (sa_input n)" by (simp add: f(7) n(4))
    ultimately have "fed d' ?r' n" unfolding fed_def n(1,2) by auto
    then have "steps_ok d'"
      by (intro steps_moved [OF so a(1) la _ s(1) r(1) att' sta' [unfolded rid_def] run' [unfolded rid_def]])
        (use di n(1-3) none in \<open>auto simp: f dn dn' [unfolded di(1)] rid_def prev\<close>)
    moreover have "waits_ok (owed - {aid}) d'"
    proof (rule waits_new_attempt [where d = "d'\<lparr>rd_attempts := rd_attempts d1\<rparr>" and n = n])
      have "waits_ok ((owed - {aid}) \<union> {}) (d'\<lparr>rd_attempts := rd_attempts d1\<rparr>)"
      proof (rule waits_attempt_done [OF wo, where f = f and q = "\<lambda>p. p" and z = "\<lambda>g. g"])
        fix x
        show "run_at (d'\<lparr>rd_attempts := rd_attempts d1\<rparr>) x = map_option (\<lambda>r. if ru_id r = rid \<and> is_active_run_status (ru_status r)
          then r\<lparr>ru_status := RunPending, ru_phase := phase_for desc, ru_updated_at := re_now e\<rparr> else r) (run_at d x)"
          using rows(4) by (simp add: d1)
      qed (use np never_canceling [OF wo] in \<open>auto simp: find_row_update_where eff d1 f keeps_pause_def keeps_signal_def keeps_links_def begun_def
          unended_def option.map_ident\<close>)
      then show "waits_ok (owed - {aid}) (d'\<lparr>rd_attempts := rd_attempts d1\<rparr>)" by simp
    qed (use rows n in simp_all)
    moreover have "signals_ok d'" by (rule signals_same [OF go]) (simp_all add: eff d1)
    moreover have "keys_ok d'" by (rule created_keys [OF cr fr1 k1])
    ultimately show ?thesis using rows(5) by (simp add: chain_ok_def run_ok_def t told_owed_def)
  qed
qed

lemma completed_kept:
  assumes "completed_at d rid i b" and "attempt_at d aid = Some a" and "live_step (sa_status a)"
    and "\<And>x. x \<noteq> aid \<Longrightarrow> attempt_at d x \<noteq> None \<Longrightarrow> attempt_at d' x = attempt_at d x"
  shows "completed_at d' rid i b"
proof -
  have b: "attempt_at d (sa_id b) = Some b" "sa_status b = StepCompleted" using assms(1) by (simp_all add: completed_at_def)
  then have "sa_id b \<noteq> aid" using assms(2,3) by auto
  with assms(1,4) b show ?thesis by (simp add: completed_at_def)
qed

definition closed_pause :: "instant \<Rightarrow> ident \<Rightarrow> ident \<Rightarrow> pause_row \<Rightarrow> pause_row" where
  "closed_pause now rid aid p =
     (if pz_run_id p = rid \<and> pz_attempt_id p = aid \<and> pz_status p = PauseOpen then cancel_pause now p else p)"

lemma fail_ok:
  assumes ok: "run_ok owed d" and lk: "lock_active_attempt aid d = Some ctx" and l: "live_step (sa_status (cx_attempt ctx))"
    and fr: "fresh_attempts e d" and fa: "fail_attempt c e ctx err x allow msg d = Inr (d', t)"
  shows "chain_ok e (owed - {aid}) (d', t)"
proof -
  note k = run_okD(1) [OF ok] and so = run_okD(2) [OF ok] and wo = run_okD(3) [OF ok] and go = run_okD(4) [OF ok]
  from active_rows [OF so lk l] obtain a r s where ctx: "cx_attempt ctx = a" "cx_state ctx = s" and a: "attempt_at d aid = Some a" "sa_id a = aid"
    and la: "live_step (sa_status a)" and r: "run_at d (sa_run_id a) = Some r" "is_active_run_status (ru_status r)"
    and s: "state_at d (sa_run_id a) = Some s" "rs_active_attempt s = Some aid" "rs_step_index s = sa_step_index a"
    and p: "placed a s r" "fed d r a" "progressed d (sa_run_id a) s r" .
  define rid where "rid = sa_run_id a"
  define now where "now = re_now e"
  define d2 where "d2 = update_attempts (\<lambda>y. sa_id y = aid) (failed_attempt err now) (cleanup_step_scope now rid aid err x d)"
  have plan: "rs_plan s \<noteq> []" "plan_indexed (rs_plan s)" using p(3) by (simp_all add: progressed_def)
  have prev: "is_active_run_status st" if "rs_prev_status s = Some st" for st using p(3) that by (simp add: progressed_def)
  have ix: "sa_step_index a < length (rs_plan s)" using p(3) r(2) s(3) by (auto simp: progressed_def)
  have dn: "steps_done s r = sa_step_index a" using r(2) s(3) by (auto simp: steps_done_def)
  have rows2: "rd_runs d2 = rd_runs d" "rd_states d2 = rd_states d" "rd_signals d2 = rd_signals d" "rd_sequence d2 = rd_sequence d"
    "rd_attempts d2 = update_where (\<lambda>y. sa_id y = aid) (failed_attempt err now) (rd_attempts d)"
    "rd_pauses d2 = update_where (\<lambda>p. pz_run_id p = rid \<and> pz_attempt_id p = aid \<and> pz_status p = PauseOpen) (cancel_pause now) (rd_pauses d)"
    by (simp_all add: d2_def effects)
  let ?g = "\<lambda>b. if sa_id b = aid then failed_attempt err now b else b"
  have at2: "attempt_at d2 y = map_option ?g (attempt_at d y)" and run2: "run_at d2 y = map_option (\<lambda>r. r) (run_at d y)"
    and sta2: "state_at d2 y = map_option (\<lambda>s. s) (state_at d y)" and sig2: "signal_at d2 y = map_option (\<lambda>g. g) (signal_at d y)"
    and pau2: "pause_at d2 y = map_option (closed_pause now rid aid) (pause_at d y)" for y
    by (simp_all add: rows2 find_row_update_where option.map_ident closed_pause_def [abs_def])
  have at2': "attempt_at d2 y = (if y = aid then Some (failed_attempt err now a) else attempt_at d y)" for y
    unfolding at2 by (rule rewrite_one(1) [OF a(1)])
  have k2: "keys_ok d2" using k by (auto simp: keys_ok_def rows2)
  have fr2: "fresh_attempts e d2" by (rule fresh_update [OF fr rows2(5)]) simp
  have closes: "if pz_attempt_id q = aid then pz_status (closed_pause now rid aid q) \<noteq> PauseOpen else closed_pause now rid aid q = q"
    if "pause_at d y = Some q" "pz_status q = PauseOpen" for y q
    using pauses_okD [OF wo that] a by (auto simp: closed_pause_def rid_def)
  have kp: "keeps_pause (closed_pause now rid aid) q" for q by (auto simp: keeps_pause_def closed_pause_def)
  have signals2: "signals_ok d2"
    by (rule signals_rewritten [OF go pau2 sig2 rows2(4)]) (auto simp: closed_pause_def fades_def)
  have waits2: "waits_ok ((owed - {aid}) \<union> {}) d2"
    by (rule waits_attempt_done [OF wo at2 _ _ _ run2 pau2 sig2])
      (use closes kp never_canceling [OF wo] in \<open>auto simp: keeps_links_def keeps_signal_def begun_def\<close>)
  show ?thesis
  proof (cases "allow \<and> sa_executor a = ByBoundary \<and> sa_attempt a < max_attempts (sa_policy a)")
    case True
    with fa ctx obtain desc tm where desc: "nth_step (sa_step_index a) (rs_plan s) = Some desc" and t: "t = None"
      and cr: "create_step_attempt c e (cx_tenant ctx) rid desc (sa_input a) (sa_attempt a + 1) (Some tm) d2 = Inr d'"
      by (auto simp: fail_attempt_def Let_def bind_run_Inr rid_def [symmetric] a(2) now_def [symmetric] d2_def [symmetric] split: option.splits)
    note di = plan_step [OF plan(2) desc]
    define n where "n = new_attempt c e rid desc (sa_input a) (sa_attempt a + 1)"
    note rows = created_rows [OF cr fr2, folded n_def] and eff = create_step_attempt_effect [OF cr]
    have n: "sa_run_id n = rid" "sa_step_index n = sa_step_index a" "sa_status n = StepPending" "sa_input n = sa_input a"
      using di by (simp_all add: n_def new_attempt_def)
    let ?r' = "r\<lparr>ru_status := RunPending, ru_phase := phase_for desc, ru_updated_at := re_now e\<rparr>"
    let ?s' = "s\<lparr>rs_step_index := sd_index desc, rs_input := sa_input a, rs_active_attempt := Some (sa_id n), rs_updated_at := re_now e\<rparr>"
    have run': "run_at d' y = (if y = rid then Some ?r' else run_at d y)" for y
      unfolding rows(4) rows2 rid_def by (rule rewrite_active [OF r(1) r(2)])
    have sta': "state_at d' y = (if y = rid then Some ?s' else state_at d y)" for y
      unfolding rows(3) rows2 rid_def by (rule rewrite_one(1) [OF s(1)])
    have ne: "sa_id n \<noteq> aid" using rows(1) by (auto simp: at2')
    have none: "attempt_at d (sa_id n) = None" using rows(1) ne by (simp add: at2')
    have dn': "steps_done ?s' ?r' = sa_step_index a" using di by (simp add: steps_done_def)
    have att': "attempt_at d' y = (if y = aid then Some (failed_attempt err now a) else case Some n of None \<Rightarrow> attempt_at d y
        | Some n \<Rightarrow> if y = sa_id n then Some n else attempt_at d y)" for y
      using ne by (auto simp: rows(2) at2')
    have other: "attempt_at d' y = attempt_at d y" if "y \<noteq> aid" "attempt_at d y \<noteq> None" for y
      using that none by (auto simp: att')
    have "fed d' ?r' n"
    proof (cases "sa_step_index a")
      case 0
      with p(2) show ?thesis by (simp add: fed_def n)
    next
      case (Suc i)
      with p(2) obtain b where b: "completed_at d rid i b" "sa_output b = Some (sa_input a)" by (auto simp: fed_def rid_def)
      from completed_kept [OF b(1) a(1) la other] b(2) Suc show ?thesis unfolding fed_def n by auto
    qed
    then have "steps_ok d'"
      by (intro steps_moved [OF so a(1) la _ s(1) r(1) att' sta' [unfolded rid_def] run' [unfolded rid_def]])
        (use di n ix none in \<open>auto simp: dn dn' [unfolded di(1)] rid_def prev\<close>)
    moreover have "waits_ok (owed - {aid}) d'"
    proof (rule waits_new_attempt [where d = "d'\<lparr>rd_attempts := rd_attempts d2\<rparr>" and n = n])
      have "waits_ok ((owed - {aid}) \<union> {}) (d'\<lparr>rd_attempts := rd_attempts d2\<rparr>)"
      proof (rule waits_attempt_done [OF wo, where f = "failed_attempt err now" and q = "closed_pause now rid aid" and z = "\<lambda>g. g"])
        fix y
        show "run_at (d'\<lparr>rd_attempts := rd_attempts d2\<rparr>) y = map_option (\<lambda>r. if ru_id r = rid \<and> is_active_run_status (ru_status r)
          then r\<lparr>ru_status := RunPending, ru_phase := phase_for desc, ru_updated_at := re_now e\<rparr> else r) (run_at d y)"
          using rows(4) by (simp add: rows2)
        show "pause_at (d'\<lparr>rd_attempts := rd_attempts d2\<rparr>) y = map_option (closed_pause now rid aid) (pause_at d y)"
          using pau2 by (simp add: eff)
      qed (use closes kp never_canceling [OF wo] in \<open>auto simp: find_row_update_where eff rows2 keeps_signal_def keeps_links_def
          begun_def unended_def option.map_ident\<close>)
      then show "waits_ok (owed - {aid}) (d'\<lparr>rd_attempts := rd_attempts d2\<rparr>)" by simp
    qed (use rows n in simp_all)
    moreover have "signals_ok d'" by (rule signals_same [OF signals2]) (simp_all add: eff)
    moreover have "keys_ok d'" by (rule created_keys [OF cr fr2 k2])
    ultimately show ?thesis using rows(5) by (simp add: chain_ok_def run_ok_def t told_owed_def)
  next
    case False
    then have er: "end_run now rid err x ACTIVE_RUN_STATUSES d2 = (d', t)"
      using fa unfolding fail_attempt_def Let_def ctx rid_def d2_def now_def a(2) by (simp split: if_splits)
    have "steps_ok d2"
    proof (rule steps_rewritten [OF so at2 run2 sta2])
      fix y b assume b: "attempt_at d y = Some b"
      from attempts_okD [OF _ b] so have w: "sa_status b = StepWaiting \<longrightarrow> sa_executor b = ByBoundary"
        by (auto simp: steps_ok_def placed_def)
      show "keeps_attempt ?g b"
      proof (cases "sa_id b = aid")
        case True
        then have "b = a" using b a(1) at_id(3) [OF b] by simp
        with la have "live_step (sa_status b)" by simp
        with True show ?thesis by (auto simp: keeps_attempt_def)
      qed (use w in \<open>simp add: keeps_attempt_def\<close>)
    qed (auto simp: keeps_run_def keeps_state_def)
    with waits2 k2 signals2 have ok2: "run_ok (owed - {aid}) d2" by (simp add: run_ok_def)
    have r2: "run_at d2 rid = Some r" "ru_status r \<in> set ACTIVE_RUN_STATUSES" using r by (simp_all add: rows2 rid_def is_active_run_status_def)
    have open_st: "\<not> is_terminal_run_status q" if "q \<in> set ACTIVE_RUN_STATUSES" for q
      using that by (auto simp: ACTIVE_RUN_STATUSES_def)
    from run_ended [OF ok2 r2 open_st er] obtain r' where t: "t = Some (rid, put_error err)" and
      ok': "run_ok ((owed - {aid} - attempts_of rid d2) \<union> parent_owed r) d'" and
      r': "run_at d' rid = Some r'" "ru_parent_attempt_id r' = ru_parent_attempt_id r"
      by auto
    have "told_owed d' t = parent_owed r" by (simp add: told_owed_def t r' parent_owed_def)
    moreover have "run_ok ((owed - {aid}) \<union> parent_owed r) d'" by (rule run_weaken [OF ok']) auto
    moreover have "rd_attempts d' = update_where (\<lambda>a. sa_run_id a = rid \<and> live_step (sa_status a)) (failed_attempt err now) (rd_attempts d2)"
      using end_run_effect [OF er r2] by (simp add: effects)
    then have "fresh_attempts e d'" by (rule fresh_update [OF fr2]) simp
    ultimately show ?thesis by (simp add: chain_ok_def)
  qed
qed

section \<open>The run that waits is told\<close>

lemma tell_parent_ok:
  assumes ok: "chain_ok e owed (d, Some (child, oc))" and t: "tell_parent c e child oc d = Inr (d', t)"
  shows "chain_ok e owed (d', t)"
proof -
  let ?owed = "owed \<union> told_owed d (Some (child, oc))"
  have ro: "run_ok ?owed d" and fr: "fresh_attempts e d" using ok by (simp_all add: chain_ok_def)
  note so = run_okD(2) [OF ro] and wo = run_okD(3) [OF ro]
  have stop: "chain_ok e owed (d, None)" if "told_owed d (Some (child, oc)) \<subseteq> {aid. \<forall>a. attempt_at d aid = Some a \<longrightarrow> sa_status a \<noteq> StepWaiting}"
  proof -
    have "waiting_ok owed d" using wo that unfolding waits_ok_def waiting_ok_def by blast
    with ro have "run_ok owed d" by (simp add: run_ok_def waits_ok_def)
    with fr show ?thesis by (simp add: chain_ok_def told_owed_def)
  qed
  have none: "chain_ok e owed (d, None)" if "told_owed d (Some (child, oc)) = {}" using stop that by simp
  show ?thesis
  proof (cases "lock_run child d")
    case None
    with t none show ?thesis by (auto simp: tell_parent_def told_owed_def lock_run_def)
  next
    case (Some r)
    then have r: "run_at d child = Some r" by (simp add: lock_run_def)
    have td: "told_owed d (Some (child, oc)) = parent_owed r" by (simp add: told_owed_def r)
    show ?thesis
    proof (cases "ru_parent_attempt_id r")
      case None
      with t Some none td show ?thesis by (auto simp: tell_parent_def parent_owed_def split: option.splits)
    next
      case (Some aid)
      from parent_attempt [OF wo r Some] obtain a where a: "attempt_at d aid = Some a" "ru_parent_run_id r = Some (sa_run_id a)" by blast
      note np = no_pause_beside [OF wo r Some]
      have tdd: "told_owed d (Some (child, oc)) = {aid}" by (simp add: td parent_owed_def Some)
      show ?thesis
      proof (cases "sa_status a = StepWaiting")
        case False
        then have "d' = d \<and> t = None"
        proof (cases "lock_active_attempt aid d")
          case None
          then show ?thesis using t a(2) Some \<open>lock_run child d = Some r\<close> by (simp add: tell_parent_def)
        next
          case lk: (Some ctx)
          then have "cx_attempt ctx = a" using a(1) by (auto simp: lock_active_attempt_Some)
          with lk show ?thesis using t a(2) False Some \<open>lock_run child d = Some r\<close> by (simp add: tell_parent_def)
        qed
        moreover have "chain_ok e owed (d, None)" by (rule stop) (use tdd a False in auto)
        ultimately show ?thesis by simp
      next
        case True
        from waiting_locked [OF so a(1) True] obtain ctx where lk: "lock_active_attempt aid d = Some ctx" and ctx: "cx_attempt ctx = a" by blast
        have l: "live_step (sa_status (cx_attempt ctx))" by (simp add: ctx True)
        have le: "?owed - {aid} \<subseteq> owed" by (simp add: tdd)
        have weak: "chain_ok e owed (d', t)" if "chain_ok e (?owed - {aid}) (d', t)"
        proof -
          have "?owed - {aid} \<union> told_owed d' t \<subseteq> owed \<union> told_owed d' t" using le by blast
          with that show ?thesis by (auto simp: chain_ok_def intro: run_weaken)
        qed
        show ?thesis
        proof (cases "oc_error oc = []")
          case False
          then have "fail_attempt c e ctx (oc_error oc) None True ''Parent workflow step is missing'' d = Inr (d', t)"
            using t a Some lk ctx True \<open>lock_run child d = Some r\<close> by (simp add: tell_parent_def)
          from fail_ok [OF ro lk l fr this] show ?thesis by (rule weak)
        next
          case True
          have id: "sa_id a = aid" by (rule at_id(3) [OF a(1)])
          let ?v = "parent_output a (oc_output oc)"
          have adv: "advance_run c e (cx_tenant ctx) (sa_run_id (cx_attempt ctx)) (sa_step_index (cx_attempt ctx)) ?v
              (update_attempts (\<lambda>x. sa_id x = aid) (completed_attempt ?v (re_now e)) d) = Inr (d', t)"
            using t a Some lk ctx True \<open>sa_status a = StepWaiting\<close> \<open>lock_run child d = Some r\<close> id by (simp add: tell_parent_def Let_def)
          have "chain_ok e (?owed - {aid}) (d', t)"
            by (rule advance_ok [OF ro lk l np _ _ _ _ _ _ _ fr adv]) simp_all
          then show ?thesis by (rule weak)
        qed
      qed
    qed
  qed
qed

lemma finish_parent_ok:
  assumes "finish_parent c e child oc d = Inr d'" and "chain_ok e owed (d, Some (child, oc))"
  shows "run_ok owed d' \<and> fresh_attempts e d'"
  using assms
proof (induction c e child oc d arbitrary: d' rule: finish_parent.induct)
  case (1 c e child oc d)
  show ?case
  proof (cases "tell_parent c e child oc d")
    case (Inl err)
    with "1.prems"(1) show ?thesis by (simp add: finish_parent.simps)
  next
    case (Inr x)
    obtain d1 t where x: "x = (d1, t)" by (cases x)
    have ok: "chain_ok e owed (d1, t)" using tell_parent_ok [OF "1.prems"(2)] Inr x by simp
    show ?thesis
    proof (cases t)
      case None
      with "1.prems"(1) Inr x have "d' = d1" by (simp add: finish_parent.simps [of c e child])
      with ok None show ?thesis by (simp add: chain_ok_def told_owed_def)
    next
      case (Some y)
      obtain child' oc' where y: "y = (child', oc')" by (cases y)
      have "finish_parent c e child' oc' d1 = Inr d'"
        using "1.prems"(1) Inr x Some y by (simp add: finish_parent.simps [of c e child])
      from "1.IH" [OF Inr x [symmetric] Some y [symmetric] this] ok Some y show ?thesis by simp
    qed
  qed
qed

lemma finish_told_ok:
  assumes "chain_ok e owed x" and "finish_told c e x = Inr d'"
  shows "run_ok owed d' \<and> fresh_attempts e d'"
proof (cases x)
  case (Pair d t)
  show ?thesis
  proof (cases t)
    case None
    with assms Pair show ?thesis by (simp add: finish_told_def chain_ok_def told_owed_def)
  next
    case (Some y)
    with assms Pair finish_parent_ok show ?thesis by (cases y) (auto simp: finish_told_def)
  qed
qed

end
