(* ===== verification/Run_Keeps.thy ===== *)
theory Run_Keeps
  imports Run_Chain
begin

text \<open>
  Every transaction of the run coordinator keeps the invariant of workflow runs.
\<close>

section \<open>Rows rewritten in every table\<close>

lemma run_rewritten:
  assumes ok: "run_ok owed d"
    and att: "\<And>x. attempt_at d' x = map_option g (attempt_at d x)"
    and run: "\<And>x. run_at d' x = map_option h (run_at d x)"
    and sta: "\<And>x. state_at d' x = map_option k (state_at d x)"
    and pau: "\<And>x. pause_at d' x = map_option q (pause_at d x)"
    and sig: "\<And>x. signal_at d' x = map_option z (signal_at d x)"
    and seq: "rd_sequence d' = rd_sequence d" and keys: "keys_ok d'"
    and g: "\<And>x a. attempt_at d x = Some a \<Longrightarrow> keeps_attempt g a \<and> keeps_wait g a"
    and h: "\<And>x r. run_at d x = Some r \<Longrightarrow> keeps_run h r \<and> keeps_links h r"
    and k: "\<And>x s. state_at d x = Some s \<Longrightarrow> keeps_state k s"
    and q: "\<And>x p. pause_at d x = Some p \<Longrightarrow> keeps_pause q p \<and> (pz_status p \<noteq> PauseOpen \<longrightarrow> q p = p)"
    and z: "\<And>x s. signal_at d x = Some s \<Longrightarrow> fades z s"
    and live: "\<And>x a r. attempt_at d x = Some a \<Longrightarrow> live_step (sa_status (g a)) \<Longrightarrow> run_at d (sa_run_id a) = Some r \<Longrightarrow>
        \<not> is_terminal_run_status (ru_status r) \<Longrightarrow> \<not> is_terminal_run_status (ru_status (h r)) \<and>
        (sa_executor a = ByBoundary \<longrightarrow> is_active_run_status (ru_status r) \<longrightarrow> is_active_run_status (ru_status (h r)))"
    and stays: "\<And>x p a. pause_at d x = Some p \<Longrightarrow> pz_status (q p) = PauseOpen \<Longrightarrow> attempt_at d (pz_attempt_id p) = Some a \<Longrightarrow>
        sa_status a = StepWaiting \<Longrightarrow> sa_status (g a) = StepWaiting"
    and lasts: "\<And>x s r. signal_at d x = Some s \<Longrightarrow> sg_status (z s) = SignalBuffered \<Longrightarrow> run_at d (sg_run_id s) = Some r \<Longrightarrow>
        \<not> is_terminal_run_status (ru_status r) \<Longrightarrow> \<not> is_terminal_run_status (ru_status (h r))"
    and await: "\<And>x a. attempt_at d x = Some a \<Longrightarrow> sa_status (g a) = StepWaiting \<Longrightarrow> x \<notin> owed' \<Longrightarrow>
        x \<notin> owed \<and> (awaited d x \<longrightarrow> awaited d' x)"
  shows "run_ok owed' d'"
proof -
  have "steps_ok d'" by (rule steps_rewritten [OF run_okD(2) [OF ok] att run sta]) (use g h k live in auto)
  moreover have "keeps_signal z s" if "signal_at d x = Some s" for x s
    using z [OF that] by (auto simp: fades_def keeps_signal_def)
  then have "waits_ok owed' d'"
    by (intro waits_rewritten [OF run_okD(3) [OF ok] att run pau sig]) (use g h q stays lasts await in auto)
  moreover have "signals_ok d'" by (rule signals_rewritten [OF run_okD(4) [OF ok] pau sig seq]) (use q z in auto)
  ultimately show ?thesis using keys by (simp add: run_ok_def)
qed

text \<open>Only runs and attempts that work are touched, and they go on working.\<close>

lemma run_touched:
  assumes ok: "run_ok owed d"
    and att: "\<And>x. attempt_at d' x = map_option g (attempt_at d x)"
    and run: "\<And>x. run_at d' x = map_option h (run_at d x)"
    and rest: "rd_states d' = rd_states d" "rd_pauses d' = rd_pauses d" "rd_signals d' = rd_signals d" "rd_sequence d' = rd_sequence d"
    and keys: "keys_ok d'"
    and g: "\<And>x a. attempt_at d x = Some a \<Longrightarrow> g a = a \<or> (live_step (sa_status a) \<and> sa_status a \<noteq> StepWaiting \<and> sa_status (g a) = StepRunning \<and>
        sa_id (g a) = sa_id a \<and> sa_run_id (g a) = sa_run_id a \<and> sa_step_index (g a) = sa_step_index a \<and>
        sa_executor (g a) = sa_executor a \<and> sa_input (g a) = sa_input a)"
    and h: "\<And>x r. run_at d x = Some r \<Longrightarrow> h r = r \<or> (is_active_run_status (ru_status r) \<and> is_active_run_status (ru_status (h r)) \<and>
        ru_id (h r) = ru_id r \<and> ru_input (h r) = ru_input r \<and> ru_result (h r) = ru_result r \<and>
        ru_parent_run_id (h r) = ru_parent_run_id r \<and> ru_parent_attempt_id (h r) = ru_parent_attempt_id r)"
  shows "run_ok owed d'"
proof -
  note so = run_okD(2) [OF ok] and wo = run_okD(3) [OF ok]
  have gw: "sa_status (g a) = StepWaiting \<longleftrightarrow> sa_status a = StepWaiting" if "attempt_at d x = Some a" for x a
    using g [OF that] by auto
  have hh: "ru_parent_attempt_id (h r) = ru_parent_attempt_id r \<and> (unended r \<longrightarrow> unended (h r)) \<and>
      (is_terminal_run_status (ru_status (h r)) \<longrightarrow> is_terminal_run_status (ru_status r)) \<and>
      (is_active_run_status (ru_status r) \<longrightarrow> is_active_run_status (ru_status (h r)))" if "run_at d x = Some r" for x r
    using h [OF that] active_not_terminal by (auto simp: unended_def)
  show ?thesis
  proof (rule run_rewritten [OF ok att run, where k = "\<lambda>s. s" and q = "\<lambda>p. p" and z = "\<lambda>s. s"])
    fix x a assume a: "attempt_at d x = Some a"
    from attempts_okD [OF _ a] so have w: "sa_status a = StepWaiting \<longrightarrow> sa_executor a = ByBoundary"
      by (auto simp: steps_ok_def placed_def)
    show "keeps_attempt g a \<and> keeps_wait g a"
    proof (cases "g a = a")
      case True
      with w show ?thesis by (simp add: keeps_attempt_def keeps_wait_def)
    next
      case False
      with g [OF a] show ?thesis by (auto simp: keeps_attempt_def keeps_wait_def begun_def live_step_def)
    qed
    assume "sa_status (g a) = StepWaiting" "x \<notin> owed"
    moreover have "awaited d x \<Longrightarrow> awaited d' x"
    proof (rule awaited_rewritten [OF run, where q = "\<lambda>p. p"])
      fix i r assume r: "run_at d i = Some r" "ru_parent_attempt_id r = Some x" "unended r"
      with hh [OF r(1)] show "ru_parent_attempt_id (h r) = Some x \<and> unended (h r)" by simp
    qed (simp_all add: rest option.map_ident)
    ultimately show "x \<notin> owed \<and> (awaited d x \<longrightarrow> awaited d' x)" by simp
  next
    fix x r assume r: "run_at d x = Some r"
    from h [OF r] never_canceling [OF wo r] show "keeps_run h r \<and> keeps_links h r"
      by (auto simp: keeps_run_def keeps_links_def)
  next
    fix x a r assume "attempt_at d x = Some a" and r: "run_at d (sa_run_id a) = Some r" "\<not> is_terminal_run_status (ru_status r)"
    with hh [OF r(1)] show "\<not> is_terminal_run_status (ru_status (h r)) \<and>
        (sa_executor a = ByBoundary \<longrightarrow> is_active_run_status (ru_status r) \<longrightarrow> is_active_run_status (ru_status (h r)))" by blast
  next
    fix x s r assume r: "run_at d (sg_run_id s) = Some r" "\<not> is_terminal_run_status (ru_status r)"
    with hh [OF r(1)] show "\<not> is_terminal_run_status (ru_status (h r))" by blast
  next
    fix x p a assume "attempt_at d (pz_attempt_id p) = Some a" "sa_status a = StepWaiting"
    with gw show "sa_status (g a) = StepWaiting" by blast
  qed (use keys in \<open>simp_all add: rest keeps_state_def keeps_pause_def fades_def option.map_ident\<close>)
qed

section \<open>Beginning and phases\<close>

lemma begin_attempt_ok:
  assumes ok: "run_ok owed d" and b: "begin_attempt e job phase d = (began, d')"
  shows "run_ok owed d'"
proof (cases "d' = d")
  case False
  let ?rid = "xj_workflow_run_id job"
  let ?f = "\<lambda>x. x\<lparr>sa_status := StepRunning, sa_started_at := Some (or_default (sa_started_at x) (re_now e)), sa_updated_at := re_now e\<rparr>"
  let ?h = "\<lambda>r. r\<lparr>ru_status := RunRunning, ru_phase := phase, ru_started_at := Some (or_default (ru_started_at r) (re_now e)), ru_updated_at := re_now e\<rparr>"
  from b False obtain aid where d': "d' = snd (update_runs (re_now e) (\<lambda>r. ru_id r = ?rid \<and> is_active_run_status (ru_status r)) ?h
      (update_attempts (\<lambda>x. sa_id x = aid \<and> sa_status x \<in> {StepPending, StepRunning}) ?f d))"
    by (auto simp: begin_attempt_def Let_def split: option.splits if_splits)
  have sig: "rd_signals d' = rd_signals d"
    unfolding d' by (subst update_runs_keep_signals) (simp_all add: effects)
  show ?thesis
  proof (rule run_touched [OF ok])
    show "attempt_at d' x = map_option (\<lambda>a. if sa_id a = aid \<and> sa_status a \<in> {StepPending, StepRunning} then ?f a else a) (attempt_at d x)" for x
      by (simp add: d' effects find_row_update_where)
    show "run_at d' x = map_option (\<lambda>r. if ru_id r = ?rid \<and> is_active_run_status (ru_status r) then ?h r else r) (run_at d x)" for x
      by (simp add: d' effects find_row_update_where)
    show "keys_ok d'" using run_okD(1) [OF ok] sig by (auto simp: keys_ok_def d' effects)
  qed (use sig in \<open>auto simp: d' effects\<close>)
qed (use ok in simp)

lemma set_phase_ok:
  assumes ok: "run_ok owed d" and st: "\<And>s. status = Some s \<Longrightarrow> is_active_run_status s"
  shows "run_ok owed (set_phase e rid aid status phase d)"
proof -
  let ?st = "or_default status RunRunning" and ?d = "set_phase e rid aid status phase d"
  let ?p = "\<lambda>r. ru_id r = rid \<and> is_active_run_status (ru_status r) \<and> (ru_status r \<noteq> ?st \<or> ru_phase r \<noteq> phase) \<and>
      (\<exists>s \<in> set (rd_states d). rs_run_id s = ru_id r \<and> rs_active_attempt s = Some aid)"
  have act: "is_active_run_status ?st" using st by (cases status) (simp_all add: or_default_def)
  then have "\<not> discards_signals ?st" by (cases ?st) auto
  then have sig: "rd_signals ?d = rd_signals d"
    unfolding set_phase_def Let_def by (subst update_runs_keep_signals) simp_all
  show ?thesis
  proof (rule run_touched [OF ok])
    show "attempt_at ?d x = map_option (\<lambda>a. a) (attempt_at d x)" for x
      by (simp add: set_phase_def Let_def effects option.map_ident)
    show "run_at ?d x = map_option (\<lambda>r. if ?p r then r\<lparr>ru_status := ?st, ru_phase := phase, ru_updated_at := re_now e\<rparr> else r) (run_at d x)" for x
      by (simp add: set_phase_def Let_def effects find_row_update_where)
    show "keys_ok ?d" using run_okD(1) [OF ok] sig by (auto simp: keys_ok_def set_phase_def Let_def effects)
  qed (use sig act in \<open>auto simp: set_phase_def Let_def effects\<close>)
qed

section \<open>The end of an attempt\<close>

lemma advance_told:
  assumes "advance c e tenant rid i v d = Inr d'"
  obtains x t where "advance_run c e tenant rid i v d = Inr (x, t)" "finish_told c e (x, t) = Inr d'"
  using assms by (auto simp: advance_def bind_run_Inr)

text \<open>A caller completes an attempt that runs.\<close>

lemma complete_step_ok:
  assumes ok: "run_ok owed d" and fr: "fresh_attempts e d" and cs: "complete_step c e aid v job d = Inr d'"
    and runs: "\<And>a. attempt_at d aid = Some a \<Longrightarrow> sa_status a \<noteq> StepWaiting"
  shows "run_ok owed d'"
proof (cases "d' = d")
  case False
  note wo = run_okD(3) [OF ok]
  let ?f = "\<lambda>x. (completed_attempt v (re_now e) x)\<lparr>sa_error := None\<rparr>"
  from cs False obtain ctx where lk: "lock_active_attempt aid d = Some ctx" and st: "sa_status (cx_attempt ctx) \<in> {StepRunning, StepWaiting}"
    and ad: "advance c e (cx_tenant ctx) (sa_run_id (cx_attempt ctx)) (sa_step_index (cx_attempt ctx)) v
      (update_attempts (\<lambda>x. sa_id x = sa_id (cx_attempt ctx)) ?f d) = Inr d'"
    by (auto simp: complete_step_def Let_def split: option.splits if_splits)
  from lk have a: "attempt_at d aid = Some (cx_attempt ctx)" by (auto simp: lock_active_attempt_Some)
  have id: "sa_id (cx_attempt ctx) = aid" by (rule at_id(3) [OF a])
  from ad obtain x t where ar: "advance_run c e (cx_tenant ctx) (sa_run_id (cx_attempt ctx)) (sa_step_index (cx_attempt ctx)) v
      (update_attempts (\<lambda>x. sa_id x = aid) ?f d) = Inr (x, t)" and ft: "finish_told c e (x, t) = Inr d'"
    unfolding id by (rule advance_told)
  have "chain_ok e (owed - {aid}) (x, t)"
  proof (rule advance_ok [OF ok lk _ _ _ _ _ _ _ _ _ fr ar])
    show "live_step (sa_status (cx_attempt ctx))" using st by auto
    fix i p assume p: "pause_at d i = Some p" "pz_status p = PauseOpen"
    from pauses_okD [OF wo p] runs show "pz_attempt_id p \<noteq> aid" by auto
  qed simp_all
  from finish_told_ok [OF this ft] show ?thesis by (auto intro: run_weaken)
qed (use ok in simp)

lemma fail_step_ok:
  assumes ok: "run_ok owed d" and fr: "fresh_attempts e d" and fs: "fail_step c e aid err job allow d = Inr d'"
  shows "run_ok owed d'"
proof (cases "d' = d")
  case False
  from fs False obtain ctx x t where lk: "lock_active_attempt aid d = Some ctx" and l: "live_step (sa_status (cx_attempt ctx))"
    and fa: "fail_attempt c e ctx err (job_id_of job) allow ''Active workflow step is missing'' d = Inr (x, t)"
    and ft: "finish_told c e (x, t) = Inr d'"
    by (auto simp: fail_step_def bind_run_Inr split: option.splits if_splits)
  from finish_told_ok [OF fail_ok [OF ok lk l fr fa] ft] show ?thesis by (auto intro: run_weaken)
qed (use ok in simp)

end
