(* ===== verification/Run_Pauses.thy ===== *)
theory Run_Pauses
  imports Run_Keeps
begin

text \<open>
  Pauses and signals keep the invariant of workflow runs: in the middle of a transaction a signal may lie
  beside the one open pause that waits for it, and the transaction puts the two together.
\<close>

section \<open>One pause out of step\<close>

definition inbox_but :: "ident \<Rightarrow> run_db \<Rightarrow> bool" where
  "inbox_but pid d \<longleftrightarrow>
     (\<forall>x p sid s. x \<noteq> pid \<longrightarrow> pause_at d x = Some p \<longrightarrow> pz_status p = PauseOpen \<longrightarrow> signal_at d sid = Some s \<longrightarrow>
        sg_status s = SignalBuffered \<longrightarrow> sg_run_id s = pz_run_id p \<longrightarrow> pz_signal_name p \<noteq> Some (sg_name s)) \<and>
     (\<forall>sid s. signal_at d sid = Some s \<longrightarrow> sg_status s = SignalBuffered \<longrightarrow>
        (\<exists>r. run_at d (sg_run_id s) = Some r \<and> \<not> is_terminal_run_status (ru_status r)))"

definition pending_ok :: "ident set \<Rightarrow> ident \<Rightarrow> run_db \<Rightarrow> bool" where
  "pending_ok owed pid d \<longleftrightarrow>
     keys_ok d \<and> steps_ok d \<and> signals_ok d \<and> pauses_ok d \<and> inbox_but pid d \<and> children_ok d \<and> waiting_ok owed d"

lemma pending_okD:
  assumes "pending_ok owed pid d"
  shows "keys_ok d" "steps_ok d" "signals_ok d" "pauses_ok d" "inbox_but pid d" "children_ok d" "waiting_ok owed d"
  using assms by (simp_all add: pending_ok_def)

lemma run_pending: "run_ok owed d \<Longrightarrow> pending_ok owed pid d"
  unfolding run_ok_def waits_ok_def inbox_ok_def pending_ok_def inbox_but_def by blast

lemma pending_run:
  assumes "pending_ok owed pid d"
    and "\<And>p sid s. pause_at d pid = Some p \<Longrightarrow> pz_status p = PauseOpen \<Longrightarrow> signal_at d sid = Some s \<Longrightarrow>
      sg_status s = SignalBuffered \<Longrightarrow> sg_run_id s = pz_run_id p \<Longrightarrow> pz_signal_name p \<noteq> Some (sg_name s)"
  shows "run_ok owed d"
proof -
  note po = pending_okD [OF assms(1)]
  have "inbox_ok d"
    unfolding inbox_ok_def
  proof (intro conjI allI impI)
    fix x p sid s assume h: "pause_at d x = Some p" "pz_status p = PauseOpen" "signal_at d sid = Some s" "sg_status s = SignalBuffered"
      "sg_run_id s = pz_run_id p"
    show "pz_signal_name p \<noteq> Some (sg_name s)"
    proof (cases "x = pid")
      case True
      with assms(2) h show ?thesis by simp
    next
      case False
      with h po(5) show ?thesis unfolding inbox_but_def by blast
    qed
  qed (use po(5) in \<open>simp add: inbox_but_def\<close>)
  with po show ?thesis by (simp add: run_ok_def waits_ok_def)
qed

lemma run_unowed:
  assumes "run_ok (insert aid owed) d" and "\<And>a. attempt_at d aid = Some a \<Longrightarrow> sa_status a \<noteq> StepWaiting"
  shows "run_ok owed d"
proof -
  have "waiting_ok owed d" using assms unfolding run_ok_def waits_ok_def waiting_ok_def by blast
  with assms(1) show ?thesis by (simp add: run_ok_def waits_ok_def)
qed

lemma steps_same:
  assumes "steps_ok d" and "rd_runs d' = rd_runs d" "rd_states d' = rd_states d" "rd_attempts d' = rd_attempts d"
  shows "steps_ok d'"
proof -
  have comp: "completed_at d' = completed_at d" unfolding completed_at_def [abs_def] assms(2-4) ..
  have feds: "fed d' = fed d" unfolding fed_def [abs_def] comp ..
  have pros: "progressed d' = progressed d" unfolding progressed_def [abs_def] comp ..
  show ?thesis using assms(1) unfolding steps_ok_def attempts_ok_def states_ok_def once_ok_def comp feds pros assms(2-4) .
qed

text \<open>The open pauses of a run are one: the run works on one attempt.\<close>

lemma one_open_pause:
  assumes st: "steps_ok d" and pa: "pauses_ok d" and p: "pause_at d i = Some p" "pz_status p = PauseOpen"
    and q: "pause_at d j = Some q" "pz_status q = PauseOpen" and eq: "pz_run_id p = pz_run_id q"
  shows "i = j"
proof -
  from pa p obtain a where a: "attempt_at d (pz_attempt_id p) = Some a" "sa_run_id a = pz_run_id p" "sa_status a = StepWaiting"
    unfolding pauses_ok_def by blast
  from pa q obtain b where b: "attempt_at d (pz_attempt_id q) = Some b" "sa_run_id b = pz_run_id q" "sa_status b = StepWaiting"
    unfolding pauses_ok_def by blast
  from waiting_locked [OF st a(1,3)] obtain s where s: "state_at d (sa_run_id a) = Some s" "rs_active_attempt s = Some (pz_attempt_id p)"
    by (auto simp: lock_active_attempt_Some)
  from waiting_locked [OF st b(1,3)] obtain t where t: "state_at d (sa_run_id b) = Some t" "rs_active_attempt t = Some (pz_attempt_id q)"
    by (auto simp: lock_active_attempt_Some)
  from s t a b eq have "pz_attempt_id p = pz_attempt_id q" by simp
  with pa p(1) q(1) eq show ?thesis unfolding pauses_ok_def by blast
qed

section \<open>A pause closes\<close>

lemma pause_closed:
  assumes ok: "pending_ok owed pid d" and p: "pause_at d pid = Some p" "pz_status p = PauseOpen"
    and same: "rd_runs d' = rd_runs d" "rd_states d' = rd_states d" "rd_attempts d' = rd_attempts d"
    and pau: "\<And>x. pause_at d' x = (if x = pid then Some p' else pause_at d x)"
    and p': "pz_run_id p' = pz_run_id p" "pz_attempt_id p' = pz_attempt_id p" "pz_status p' \<noteq> PauseOpen"
    and sig: "\<And>x s. signal_at d' x = Some s \<Longrightarrow> sg_status s = SignalBuffered \<Longrightarrow> signal_at d x = Some s"
    and so: "signals_ok d'" and keys: "keys_ok d'"
  shows "run_ok (insert (pz_attempt_id p) owed) d'"
    and "pause_at d' x = Some q \<Longrightarrow> pz_status q = PauseOpen \<Longrightarrow> pz_attempt_id q \<noteq> pz_attempt_id p"
proof -
  note po = pending_okD [OF ok]
  have open': "x \<noteq> pid \<and> pause_at d x = Some q" if "pause_at d' x = Some q" "pz_status q = PauseOpen" for x q
    using that p'(3) by (auto simp: pau split: if_splits)
  have ids: "\<exists>q0. pause_at d x = Some q0 \<and> pz_run_id q = pz_run_id q0 \<and> pz_attempt_id q = pz_attempt_id q0" if "pause_at d' x = Some q" for x q
    using that p p' by (auto simp: pau split: if_splits)
  have "pauses_ok d'"
    unfolding pauses_ok_def
  proof (intro conjI allI impI)
    fix x q assume "pause_at d' x = Some q" "pz_status q = PauseOpen"
    from open' [OF this] this po(4) show "\<exists>a. attempt_at d' (pz_attempt_id q) = Some a \<and> sa_run_id a = pz_run_id q \<and> sa_status a = StepWaiting"
      unfolding pauses_ok_def same by blast
  next
    fix i j q r assume "pause_at d' i = Some q" "pause_at d' j = Some r" "pz_run_id q = pz_run_id r" "pz_attempt_id q = pz_attempt_id r"
    with ids [of i q] ids [of j r] po(4) show "i = j" unfolding pauses_ok_def by metis
  qed
  moreover have "inbox_ok d'"
    unfolding inbox_ok_def
  proof (intro conjI allI impI)
    fix x q sid s assume "pause_at d' x = Some q" "pz_status q = PauseOpen" and s: "signal_at d' sid = Some s" "sg_status s = SignalBuffered"
      "sg_run_id s = pz_run_id q"
    with open' [of x q] sig [OF s(1,2)] po(5) show "pz_signal_name q \<noteq> Some (sg_name s)" unfolding inbox_but_def by blast
  next
    fix sid s assume "signal_at d' sid = Some s" "sg_status s = SignalBuffered"
    with sig [of sid s] po(5) show "\<exists>r. run_at d' (sg_run_id s) = Some r \<and> \<not> is_terminal_run_status (ru_status r)"
      unfolding inbox_but_def same by blast
  qed
  moreover have "children_ok d'"
    using po(6) open' unfolding children_ok_def same by blast
  moreover have "waiting_ok (insert (pz_attempt_id p) owed) d'"
    unfolding waiting_ok_def same
  proof (intro allI impI)
    fix x a assume a: "attempt_at d x = Some a" "sa_status a = StepWaiting" and x: "x \<notin> insert (pz_attempt_id p) owed"
    with po(7) have "awaited d x" unfolding waiting_ok_def by blast
    then show "awaited d' x"
    proof (unfold awaited_def same, elim disjE exE conjE)
      fix i q assume q: "pause_at d i = Some q" "pz_status q = PauseOpen" "pz_attempt_id q = x"
      with x p have "i \<noteq> pid" by auto
      with q pau [of i] show "(\<exists>pid p. pause_at d' pid = Some p \<and> pz_status p = PauseOpen \<and> pz_attempt_id p = x) \<or>
        (\<exists>rid r. run_at d rid = Some r \<and> ru_parent_attempt_id r = Some x \<and> unended r)" by auto
    qed blast
  qed
  moreover have "steps_ok d'" by (rule steps_same [OF po(2) same])
  ultimately show "run_ok (insert (pz_attempt_id p) owed) d'" using so keys by (simp add: run_ok_def waits_ok_def)
  assume q: "pause_at d' x = Some q" "pz_status q = PauseOpen"
  note qd = open' [OF q]
  show "pz_attempt_id q \<noteq> pz_attempt_id p"
  proof
    assume eq: "pz_attempt_id q = pz_attempt_id p"
    from po(4) p obtain a where "attempt_at d (pz_attempt_id p) = Some a" "sa_run_id a = pz_run_id p" unfolding pauses_ok_def by blast
    moreover from po(4) qd q(2) obtain b where "attempt_at d (pz_attempt_id q) = Some b" "sa_run_id b = pz_run_id q" unfolding pauses_ok_def by blast
    ultimately have "pz_run_id q = pz_run_id p" using eq by simp
    with one_open_pause [OF po(2,4) _ q(2) p, of x] qd show False by simp
  qed
qed

section \<open>The attempt of a closed pause goes on\<close>

lemma resolve_pause_ok:
  assumes ok: "run_ok (insert aid owed) d" and fr: "fresh_attempts e d"
    and np: "\<And>x q. pause_at d x = Some q \<Longrightarrow> pz_status q = PauseOpen \<Longrightarrow> pz_attempt_id q \<noteq> aid"
    and p: "pz_attempt_id p = aid" "\<And>a. attempt_at d aid = Some a \<Longrightarrow> sa_run_id a = pz_run_id p"
    and rp: "resolve_pause c e p reason d = Inr d'"
  shows "run_ok owed d'"
proof (cases "\<exists>a. attempt_at d aid = Some a \<and> sa_status a = StepWaiting")
  case False
  have "d' = d"
  proof (cases "lock_active_attempt aid d")
    case None
    with rp p(1) show ?thesis by (simp add: resolve_pause_def)
  next
    case (Some ctx)
    then have "sa_status (cx_attempt ctx) \<noteq> StepWaiting" using False by (auto simp: lock_active_attempt_Some)
    with Some rp p(1) show ?thesis by (simp add: resolve_pause_def Let_def)
  qed
  with run_unowed [OF ok] False show ?thesis by blast
next
  case True
  then obtain a where a: "attempt_at d aid = Some a" "sa_status a = StepWaiting" by blast
  from waiting_locked [OF run_okD(2) [OF ok] a] obtain ctx where lk: "lock_active_attempt aid d = Some ctx" and ctx: "cx_attempt ctx = a" by blast
  have id: "sa_id a = aid" and l: "live_step (sa_status (cx_attempt ctx))" using at_id(3) [OF a(1)] a(2) ctx by simp_all
  let ?v = "pause_output p reason"
  from rp lk ctx a(2) p(1) p(2) [OF a(1)] id have "advance c e (cx_tenant ctx) (sa_run_id (cx_attempt ctx)) (sa_step_index (cx_attempt ctx)) ?v
      (update_attempts (\<lambda>x. sa_id x = aid) (completed_attempt ?v (re_now e)) d) = Inr d'"
    by (simp add: resolve_pause_def Let_def)
  then obtain x t where ar: "advance_run c e (cx_tenant ctx) (sa_run_id (cx_attempt ctx)) (sa_step_index (cx_attempt ctx)) ?v
      (update_attempts (\<lambda>x. sa_id x = aid) (completed_attempt ?v (re_now e)) d) = Inr (x, t)" and ft: "finish_told c e (x, t) = Inr d'"
    by (rule advance_told)
  have "chain_ok e (insert aid owed - {aid}) (x, t)"
    by (rule advance_ok [OF ok lk l np _ _ _ _ _ _ _ fr ar]) simp_all
  from finish_told_ok [OF this ft] have "run_ok (insert aid owed - {aid}) d'" by simp
  then show ?thesis by (rule run_weaken) auto
qed

section \<open>A pause takes a signal\<close>

lemma signals_okD:
  assumes "signals_ok d" and "signal_at d i = Some s"
  shows signal_numbered: "sg_sequence s \<le> rd_sequence d"
    and signal_number: "signal_at d j = Some t \<Longrightarrow> sg_sequence s = sg_sequence t \<Longrightarrow> i = j"
    and signal_order: "signal_at d j = Some t \<Longrightarrow> sg_run_id s = sg_run_id t \<Longrightarrow> sg_name s = sg_name t \<Longrightarrow>
      sg_status s = SignalResumed \<Longrightarrow> sg_status t = SignalBuffered \<Longrightarrow> sg_sequence s < sg_sequence t"
    and signal_key: "signal_at d j = Some t \<Longrightarrow> sg_run_id s = sg_run_id t \<Longrightarrow> sg_key s = sg_key t \<Longrightarrow> i = j"
    and signal_took: "sg_status s = SignalResumed \<or> sg_pause_id s \<noteq> None \<Longrightarrow> \<exists>p. pause_at d (pz_id p) = Some p \<and> took d s p"
    and signal_taker: "signal_at d j = Some t \<Longrightarrow> sg_pause_id s = Some pid \<Longrightarrow> sg_pause_id t = Some pid \<Longrightarrow> i = j"
proof -
  from assms(1) have tk: "taken_ok d" and oo: "order_ok d" by (simp_all add: signals_ok_def)
  note o1 = oo [unfolded order_ok_def, THEN conjunct1, rule_format]
    and o2 = oo [unfolded order_ok_def, THEN conjunct2, THEN conjunct1, rule_format]
    and o3 = oo [unfolded order_ok_def, THEN conjunct2, THEN conjunct2, THEN conjunct1, rule_format]
    and o4 = oo [unfolded order_ok_def, THEN conjunct2, THEN conjunct2, THEN conjunct2, rule_format]
    and t1 = tk [unfolded taken_ok_def, THEN conjunct1, rule_format]
    and t2 = tk [unfolded taken_ok_def, THEN conjunct2, rule_format]
  show "sg_sequence s \<le> rd_sequence d" by (rule o1 [OF assms(2)])
  show "signal_at d j = Some t \<Longrightarrow> sg_sequence s = sg_sequence t \<Longrightarrow> i = j" by (rule o2 [OF assms(2)])
  show "signal_at d j = Some t \<Longrightarrow> sg_run_id s = sg_run_id t \<Longrightarrow> sg_name s = sg_name t \<Longrightarrow>
      sg_status s = SignalResumed \<Longrightarrow> sg_status t = SignalBuffered \<Longrightarrow> sg_sequence s < sg_sequence t" by (rule o3 [OF assms(2)])
  show "signal_at d j = Some t \<Longrightarrow> sg_run_id s = sg_run_id t \<Longrightarrow> sg_key s = sg_key t \<Longrightarrow> i = j" by (rule o4 [OF assms(2)])
  show "sg_status s = SignalResumed \<or> sg_pause_id s \<noteq> None \<Longrightarrow> \<exists>p. pause_at d (pz_id p) = Some p \<and> took d s p"
    by (rule t1 [OF assms(2)])
  show "signal_at d j = Some t \<Longrightarrow> sg_pause_id s = Some pid \<Longrightarrow> sg_pause_id t = Some pid \<Longrightarrow> i = j" by (rule t2 [OF assms(2)])
qed

lemma signals_taken:
  assumes go: "signals_ok d" and p: "pause_at d pid = Some p" "pz_status p = PauseOpen" and g: "signal_at d sid = Some s" "sg_status s = SignalBuffered"
    and pau: "\<And>x. pause_at d' x = (if x = pid then Some p' else pause_at d x)"
    and sig: "\<And>x. signal_at d' x = (if x = sid then Some (taken_signal now pid s) else signal_at d x)"
    and seq: "rd_sequence d' = rd_sequence d"
    and first: "\<And>x t. signal_at d x = Some t \<Longrightarrow> sg_status t = SignalBuffered \<Longrightarrow> sg_run_id t = sg_run_id s \<Longrightarrow> sg_name t = sg_name s \<Longrightarrow>
        sg_sequence s \<le> sg_sequence t"
    and p': "pz_id p' = pid" "pz_status p' = PauseResumed" "pz_resume_key p' = Some (sg_key s)" "pz_signal_name p' = Some (sg_name s)"
      "pz_run_id p' = sg_run_id s"
  shows "signals_ok d'"
proof -
  from go have tk: "taken_ok d" and oo: "order_ok d" by (simp_all add: signals_ok_def)
  let ?s = "taken_signal now pid s"
  have s': "sg_status ?s = SignalResumed" "sg_pause_id ?s = Some pid" "sg_run_id ?s = sg_run_id s" "sg_name ?s = sg_name s" "sg_key ?s = sg_key s"
    "sg_sequence ?s = sg_sequence s" by (simp_all add: taken_signal_def)
  have free: "sg_pause_id t \<noteq> Some pid" if "signal_at d x = Some t" for x t
  proof
    assume t: "sg_pause_id t = Some pid"
    with tk that obtain q where "pause_at d (pz_id q) = Some q" "took d t q" unfolding taken_ok_def by blast
    with t p show False by (auto simp: took_def)
  qed
  have "taken_ok d'"
    unfolding taken_ok_def
  proof (intro conjI allI impI)
    fix x t assume t: "signal_at d' x = Some t" and c: "sg_status t = SignalResumed \<or> sg_pause_id t \<noteq> None"
    show "\<exists>q. pause_at d' (pz_id q) = Some q \<and> took d' t q"
    proof (cases "x = sid")
      case True
      with t have "t = ?s" by (simp add: sig)
      then have "took d' t p'" by (simp add: took_def s' p')
      moreover have "pause_at d' (pz_id p') = Some p'" by (simp add: pau p'(1))
      ultimately show ?thesis by blast
    next
      case False
      with t have t': "signal_at d x = Some t" by (simp add: sig)
      with c tk obtain q where q: "pause_at d (pz_id q) = Some q" "took d t q" unfolding taken_ok_def by blast
      with free [OF t'] have "pz_id q \<noteq> pid" by (auto simp: took_def)
      with q have "pause_at d' (pz_id q) = Some q" "took d' t q" by (simp_all add: pau took_def)
      then show ?thesis by blast
    qed
  next
    fix i j t u k assume "signal_at d' i = Some t" "signal_at d' j = Some u" "sg_pause_id t = Some k" "sg_pause_id u = Some k"
    with free [of i t] free [of j u] tk s'(2) show "i = j" unfolding taken_ok_def by (auto simp: sig split: if_splits)
  qed
  moreover have "order_ok d'"
  proof -
    have orig: thesis if "signal_at d' x = Some t" and "\<And>t0. signal_at d x = Some t0 \<Longrightarrow> sg_sequence t = sg_sequence t0 \<Longrightarrow>
        sg_run_id t = sg_run_id t0 \<Longrightarrow> sg_name t = sg_name t0 \<Longrightarrow> sg_key t = sg_key t0 \<Longrightarrow> thesis" for x t thesis
      using that(1) that(2) [of "if x = sid then s else t"] g s' by (auto simp: sig split: if_splits)
    show ?thesis
      unfolding order_ok_def
    proof (intro conjI allI impI)
      fix i t assume "signal_at d' i = Some t"
      then show "sg_sequence t \<le> rd_sequence d'" by (rule orig) (simp add: seq signal_numbered [OF go])
    next
      fix i j t u assume t: "signal_at d' i = Some t" and u: "signal_at d' j = Some u"
      from t obtain t0 where t0: "signal_at d i = Some t0" "sg_sequence t = sg_sequence t0" "sg_run_id t = sg_run_id t0" "sg_key t = sg_key t0"
        by (rule orig)
      from u obtain u0 where u0: "signal_at d j = Some u0" "sg_sequence u = sg_sequence u0" "sg_run_id u = sg_run_id u0" "sg_key u = sg_key u0"
        by (rule orig)
      show "sg_sequence t = sg_sequence u \<Longrightarrow> i = j" by (rule signal_number [OF go t0(1) u0(1)]) (simp only: t0(2) u0(2))
      show "sg_run_id t = sg_run_id u \<Longrightarrow> sg_key t = sg_key u \<Longrightarrow> i = j"
        by (rule signal_key [OF go t0(1) u0(1)]) (simp_all only: t0(3,4) u0(3,4))
      assume h: "sg_run_id t = sg_run_id u" "sg_name t = sg_name u" "sg_status t = SignalResumed" "sg_status u = SignalBuffered"
      have j: "j \<noteq> sid" using u h(4) s'(1) by (auto simp: sig)
      with u have u': "signal_at d j = Some u" by (simp add: sig)
      show "sg_sequence t < sg_sequence u"
      proof (cases "i = sid")
        case True
        with t have t: "t = ?s" by (simp add: sig)
        have "sg_sequence s \<le> sg_sequence u" by (rule first [OF u' h(4)]) (use h(1,2) t s' in simp_all)
        moreover have "sg_sequence s \<noteq> sg_sequence u" using signal_number [OF go g(1) u'] j by blast
        ultimately show ?thesis using t s' by simp
      next
        case False
        with t have "signal_at d i = Some t" by (simp add: sig)
        from signal_order [OF go this u' h] show ?thesis .
      qed
    qed
  qed
  ultimately show ?thesis by (simp add: signals_ok_def)
qed

lemma signals_pause_set:
  assumes go: "signals_ok d" and p: "\<And>p. pause_at d pid = Some p \<Longrightarrow> pz_status p = PauseOpen"
    and pau: "\<And>x. pause_at d' x = (if x = pid then Some p' else pause_at d x)"
    and same: "rd_signals d' = rd_signals d" "rd_sequence d' = rd_sequence d"
  shows "signals_ok d'"
proof -
  from go have tk: "taken_ok d" and oo: "order_ok d" by (simp_all add: signals_ok_def)
  have keep: "pause_at d' (pz_id q) = Some q" if "pause_at d (pz_id q) = Some q" "took d t q" for t q
    using that p [of q] by (auto simp: pau took_def)
  have "taken_ok d'" using tk keep unfolding taken_ok_def took_def same by blast
  moreover have "order_ok d'" using oo unfolding order_ok_def same .
  ultimately show ?thesis by (simp add: signals_ok_def)
qed

lemma buffered_first:
  assumes "buffered_for rid name d = s # rest"
  shows "s \<in> set (rd_signals d)" "sg_run_id s = rid" "sg_name s = name" "sg_status s = SignalBuffered"
    and "t \<in> set (rd_signals d) \<Longrightarrow> sg_run_id t = rid \<Longrightarrow> sg_name t = name \<Longrightarrow> sg_status t = SignalBuffered \<Longrightarrow> sg_sequence s \<le> sg_sequence t"
proof -
  let ?xs = "filter (\<lambda>s. sg_run_id s = rid \<and> sg_name s = name \<and> sg_status s = SignalBuffered) (rd_signals d)"
  have eq: "sort_key sg_sequence ?xs = s # rest" using assms by (simp add: buffered_for_def)
  have "set (sort_key sg_sequence ?xs) = set ?xs" by simp
  then have els: "set (s # rest) = set ?xs" unfolding eq .
  then have "s \<in> set ?xs" by auto
  then show "s \<in> set (rd_signals d)" "sg_run_id s = rid" "sg_name s = name" "sg_status s = SignalBuffered" by simp_all
  assume t: "t \<in> set (rd_signals d)" "sg_run_id t = rid" "sg_name t = name" "sg_status t = SignalBuffered"
  have "sorted (map sg_sequence (s # rest))" using sorted_sort_key [of sg_sequence ?xs] by (simp add: eq)
  moreover have "t \<in> set ?xs" using t by simp
  then have "t \<in> set (s # rest)" unfolding els .
  ultimately show "sg_sequence s \<le> sg_sequence t" by auto
qed

lemma buffered_none:
  assumes "buffered_for rid name d = []" and "signal_at d x = Some s" and "sg_status s = SignalBuffered" and "sg_run_id s = rid"
  shows "sg_name s \<noteq> name"
proof
  assume n: "sg_name s = name"
  have "set (buffered_for rid name d) = {}" using assms(1) by simp
  moreover have "s \<in> set (rd_signals d)" using find_row_Some [OF assms(2)] by simp
  ultimately show False using assms(3,4) n by (auto simp: buffered_for_def)
qed

lemma fresh_frame:
  assumes "fresh_attempts e d" and "rd_attempts d' = rd_attempts d"
  shows "fresh_attempts e d'"
  by (rule fresh_same [OF assms(1)]) (simp add: assms(2))

text \<open>What every end of an open pause rests on: it closes, and its attempt goes on.\<close>

lemma closed_resolved:
  assumes ok: "pending_ok owed pid d" and fr: "fresh_attempts e d" and p: "pause_at d pid = Some p" "pz_status p = PauseOpen"
    and same: "rd_runs d1 = rd_runs d" "rd_states d1 = rd_states d" "rd_attempts d1 = rd_attempts d"
    and pau: "\<And>x. pause_at d1 x = (if x = pid then Some p' else pause_at d x)"
    and p': "pz_run_id p' = pz_run_id p" "pz_attempt_id p' = pz_attempt_id p" "pz_status p' \<noteq> PauseOpen"
    and sig: "\<And>x s. signal_at d1 x = Some s \<Longrightarrow> sg_status s = SignalBuffered \<Longrightarrow> signal_at d x = Some s"
    and so: "signals_ok d1" and keys: "keys_ok d1"
    and q: "pz_run_id q = pz_run_id p" "pz_attempt_id q = pz_attempt_id p"
    and rp: "resolve_pause c e q reason d1 = Inr d'"
  shows "run_ok owed d'"
proof (rule resolve_pause_ok [where aid = "pz_attempt_id p", OF _ _ _ _ _ rp])
  show "run_ok (insert (pz_attempt_id p) owed) d1" by (rule pause_closed(1) [OF ok p same pau p' sig so keys])
  show "fresh_attempts e d1" by (rule fresh_frame [OF fr same(3)])
  show "pz_attempt_id r \<noteq> pz_attempt_id p" if "pause_at d1 x = Some r" "pz_status r = PauseOpen" for x r
    by (rule pause_closed(2) [OF ok p same pau p' sig so keys that])
  show "pz_attempt_id q = pz_attempt_id p" by (rule q)
  fix a assume "attempt_at d1 (pz_attempt_id p) = Some a"
  with pending_okD(4) [OF ok] p q(1) show "sa_run_id a = pz_run_id q" by (fastforce simp: pauses_ok_def same)
qed

lemma ended_pause_fields [simp]:
  "pz_id (timed_out_pause now p) = pz_id p" "pz_run_id (timed_out_pause now p) = pz_run_id p"
  "pz_attempt_id (timed_out_pause now p) = pz_attempt_id p" "pz_status (timed_out_pause now p) = PauseTimedOut"
  "pz_id (resumed_pause now v k h p) = pz_id p" "pz_run_id (resumed_pause now v k h p) = pz_run_id p"
  "pz_attempt_id (resumed_pause now v k h p) = pz_attempt_id p" "pz_status (resumed_pause now v k h p) = PauseResumed"
  "pz_resume_key (resumed_pause now v k h p) = Some k" "pz_signal_name (resumed_pause now v k h p) = pz_signal_name p"
  by (simp_all add: timed_out_pause_def resumed_pause_def)

text \<open>A pause ends without a signal: a person or the clock ended it.\<close>

lemma plain_end_ok:
  assumes ok: "pending_ok owed pid d" and fr: "fresh_attempts e d" and p: "pause_at d pid = Some p" "pz_status p = PauseOpen"
    and f: "\<And>x. pz_id (f x) = pz_id x" "pz_run_id (f p) = pz_run_id p" "pz_attempt_id (f p) = pz_attempt_id p" "pz_status (f p) \<noteq> PauseOpen"
    and P: "P p" and q: "pz_run_id q = pz_run_id p" "pz_attempt_id q = pz_attempt_id p"
    and rp: "resolve_pause c e q reason (update_pauses (\<lambda>x. pz_id x = pid \<and> P x) f d) = Inr d'"
  shows "run_ok owed d'"
proof (rule closed_resolved [OF ok fr p _ _ _ _ f(2-4) _ _ _ q rp])
  note po = pending_okD [OF ok]
  let ?d = "update_pauses (\<lambda>x. pz_id x = pid \<and> P x) f d"
  show pau: "pause_at ?d x = (if x = pid then Some (f p) else pause_at d x)" for x
    using rewrite_one(2) [where P = P, OF p(1) P, of f x] by (simp add: effects find_row_update_where f(1))
  show "signals_ok ?d" by (rule signals_pause_set [OF po(3) _ pau]) (use p in \<open>simp_all add: effects\<close>)
  show "keys_ok ?d" using po(1) by (auto simp: keys_ok_def effects f(1))
qed (simp_all add: effects)

lemma resolve_named_pause_ok:
  assumes ok: "pending_ok owed pid d" and fr: "fresh_attempts e d" and p: "pause_at d pid = Some p" "pz_status p = PauseOpen"
    and rn: "resolve_named_pause c e p d = Inr (resolved, d')"
  shows "run_ok owed d'"
proof -
  note po = pending_okD [OF ok]
  have id: "pz_id p = pid" by (rule at_id(4) [OF p(1)])
  consider (timeout) "resolve_pause c e p TimedOut (update_pauses (\<lambda>x. pz_id x = pid \<and> True) (timed_out_pause (re_now e)) d) = Inr d'"
    | (quiet) "pz_signal_name p = None \<or> (\<exists>name. pz_signal_name p = Some name \<and> buffered_for (pz_run_id p) name d = [])" "d' = d"
    | (takes) name s rest where "pz_signal_name p = Some name" "buffered_for (pz_run_id p) name d = s # rest"
      "resolve_pause c e (p\<lparr>pz_resume_value := sg_value s\<rparr>) Resumed (update_pauses (\<lambda>x. pz_id x = pid)
        (resumed_pause (re_now e) (or_null (sg_value s)) (sg_key s) (co_sha256 c (or_null (sg_value s))))
        (d\<lparr>rd_signals := update_where (\<lambda>x. sg_id x = sg_id s) (taken_signal (re_now e) pid) (rd_signals d)\<rparr>)) = Inr d'"
    using rn id by (auto simp: resolve_named_pause_def Let_def bind_run_Inr split: if_splits option.splits list.splits)
  then show ?thesis
  proof cases
    case timeout
    show ?thesis by (rule plain_end_ok [OF ok fr p _ _ _ _ _ _ _ timeout]) simp_all
  next
    case quiet
    have "run_ok owed d"
    proof (rule pending_run [OF ok])
      fix p' sid s assume "pause_at d pid = Some p'" and s: "signal_at d sid = Some s" "sg_status s = SignalBuffered" "sg_run_id s = pz_run_id p'"
      with p have eq: "p' = p" by simp
      show "pz_signal_name p' \<noteq> Some (sg_name s)"
      proof
        assume "pz_signal_name p' = Some (sg_name s)"
        with quiet(1) eq have "buffered_for (pz_run_id p) (sg_name s) d = []" by auto
        from buffered_none [OF this s(1,2)] s(3) eq show False by simp
      qed
    qed
    with quiet(2) show ?thesis by simp
  next
    case takes
    note bf = buffered_first [OF takes(2)]
    have us: "unique_keys sg_id (rd_signals d)" using po(1) by (simp add: keys_ok_def)
    from find_row_unique [OF us bf(1)] have g: "signal_at d (sg_id s) = Some s" .
    define v where "v = or_null (sg_value s)"
    let ?f = "resumed_pause (re_now e) v (sg_key s) (co_sha256 c v)"
    let ?d = "update_pauses (\<lambda>x. pz_id x = pid) ?f
        (d\<lparr>rd_signals := update_where (\<lambda>x. sg_id x = sg_id s) (taken_signal (re_now e) pid) (rd_signals d)\<rparr>)"
    have kt: "sg_id (taken_signal n k x) = sg_id x" for n k x by (simp add: taken_signal_def)
    have sig: "signal_at ?d x = (if x = sg_id s then Some (taken_signal (re_now e) pid s) else signal_at d x)" for x
      using rewrite_one(1) [OF g, of "taken_signal (re_now e) pid" x] by (simp add: effects find_row_update_where kt)
    have pau: "pause_at ?d x = (if x = pid then Some (?f p) else pause_at d x)" for x
      using rewrite_one(1) [OF p(1), of ?f x] by (simp add: effects find_row_update_where)
    have rp: "resolve_pause c e (p\<lparr>pz_resume_value := sg_value s\<rparr>) Resumed ?d = Inr d'" using takes(3) by (simp add: v_def)
    show ?thesis
    proof (rule closed_resolved [OF ok fr p _ _ _ pau _ _ _ _ _ _ _ _ rp])
      fix x t assume "signal_at ?d x = Some t" "sg_status t = SignalBuffered"
      then show "signal_at d x = Some t" unfolding sig by (auto simp: taken_signal_def split: if_splits)
    next
      show "signals_ok ?d"
      proof (rule signals_taken [OF po(3) p g bf(4) pau sig])
        fix x t assume t: "signal_at d x = Some t" "sg_status t = SignalBuffered" "sg_run_id t = sg_run_id s" "sg_name t = sg_name s"
        show "sg_sequence s \<le> sg_sequence t"
          by (rule bf(5)) (use t bf find_row_Some [OF t(1)] in auto)
      qed (use id takes(1) bf in \<open>simp_all add: effects\<close>)
    next
      show "keys_ok ?d" using po(1) by (auto simp: keys_ok_def effects kt)
    qed (simp_all add: effects)
  qed
qed

section \<open>Who ends a pause\<close>

lemma resume_pause_ok:
  assumes ok: "run_ok owed d" and fr: "fresh_attempts e d" and rp: "resume_pause c e tenant rid pid key value d = Inr d'"
  shows "run_ok owed d'"
proof (cases "d' = d")
  case False
  with rp obtain p where p: "pause_at d pid = Some p" "pz_status p = PauseOpen" and c:
    "resolve_pause c e p TimedOut (update_pauses (\<lambda>x. pz_id x = pid \<and> pz_status x = PauseOpen) (timed_out_pause (re_now e)) d) = Inr d' \<or>
     resolve_pause c e (p\<lparr>pz_resume_value := Some value\<rparr>) Resumed
       (update_pauses (\<lambda>x. pz_id x = pid \<and> True) (resumed_pause (re_now e) value key (co_sha256 c value)) d) = Inr d'"
    by (auto simp: resume_pause_def Let_def split: option.splits if_splits)
  from c show ?thesis
  proof
    assume t: "resolve_pause c e p TimedOut (update_pauses (\<lambda>x. pz_id x = pid \<and> pz_status x = PauseOpen) (timed_out_pause (re_now e)) d) = Inr d'"
    show ?thesis by (rule plain_end_ok [OF run_pending [OF ok] fr p _ _ _ _ _ _ _ t]) (simp_all add: p(2))
  next
    assume t: "resolve_pause c e (p\<lparr>pz_resume_value := Some value\<rparr>) Resumed
       (update_pauses (\<lambda>x. pz_id x = pid \<and> True) (resumed_pause (re_now e) value key (co_sha256 c value)) d) = Inr d'"
    show ?thesis by (rule plain_end_ok [OF run_pending [OF ok] fr p _ _ _ _ _ _ _ t]) simp_all
  qed
qed (use ok in simp)

lemma resolve_pause_timeout_ok:
  assumes ok: "run_ok owed d" and fr: "fresh_attempts e d" and rp: "resolve_pause_timeout c e job d = Inr d'"
  shows "run_ok owed d'"
proof (cases "d' = d")
  case False
  with rp obtain pid p where p: "pause_at d pid = Some p" "pz_status p = PauseOpen" and t:
    "resolve_pause c e p TimedOut (update_pauses (\<lambda>x. pz_id x = pid \<and> True) (timed_out_pause (re_now e)) d) = Inr d'"
    by (auto simp: resolve_pause_timeout_def Let_def split: option.splits if_splits)
  show ?thesis by (rule plain_end_ok [OF run_pending [OF ok] fr p _ _ _ _ _ _ _ t]) simp_all
qed (use ok in simp)

end
