(* ===== verification/Run_Suspends.thy ===== *)
theory Run_Suspends
  imports Run_Pauses
begin

text \<open>
  An attempt that suspends, for a pause or for a child, a signal that arrives, and a run that begins keep
  the invariant of workflow runs.
\<close>

lemma update_where_append: "update_where p f (xs @ ys) = update_where p f xs @ update_where p f ys"
  by (induction xs) simp_all

section \<open>What a transaction draws is new\<close>

definition fresh_ids :: "run_env \<Rightarrow> run_db \<Rightarrow> bool" where
  "fresh_ids e d \<longleftrightarrow>
     fresh_attempts e d \<and> re_pause_id e \<notin> pz_id ` set (rd_pauses d) \<and> re_signal_id e \<notin> sg_id ` set (rd_signals d) \<and>
     re_child_id e \<notin> ru_id ` set (rd_runs d)"

section \<open>An attempt waits\<close>

lemma attempt_suspended:
  assumes ok: "run_ok owed d" and a: "attempt_at d aid = Some a" "sa_status a = StepRunning" "sa_executor a = ByBoundary"
    and att: "rd_attempts d' = update_where (\<lambda>x. sa_id x = aid) f (rd_attempts d)"
    and run: "rd_runs d' = update_where (\<lambda>r. ru_id r = rid \<and> is_active_run_status (ru_status r)) h (rd_runs d)"
    and same: "rd_states d' = rd_states d" "rd_pauses d' = rd_pauses d" "rd_signals d' = rd_signals d" "rd_sequence d' = rd_sequence d"
    and f: "\<And>x. sa_id (f x) = sa_id x \<and> sa_run_id (f x) = sa_run_id x \<and> sa_step_index (f x) = sa_step_index x \<and>
        sa_executor (f x) = sa_executor x \<and> sa_input (f x) = sa_input x \<and> sa_status (f x) = StepWaiting"
    and h: "\<And>r. ru_id (h r) = ru_id r \<and> ru_input (h r) = ru_input r \<and> ru_result (h r) = ru_result r \<and>
        ru_parent_run_id (h r) = ru_parent_run_id r \<and> ru_parent_attempt_id (h r) = ru_parent_attempt_id r \<and> ru_status (h r) = RunWaiting"
  shows "run_ok (insert aid owed) d'"
proof -
  note so = run_okD(2) [OF ok] and wo = run_okD(3) [OF ok]
  let ?g = "\<lambda>x. if sa_id x = aid then f x else x"
  let ?h = "\<lambda>r. if ru_id r = rid \<and> is_active_run_status (ru_status r) then h r else r"
  have at': "attempt_at d' x = map_option ?g (attempt_at d x)" for x unfolding att by (rule find_row_update_where) (simp add: f)
  have at1: "attempt_at d' x = (if x = aid then Some (f a) else attempt_at d x)" for x unfolding at' by (rule rewrite_one(1) [OF a(1)])
  have run': "run_at d' x = map_option ?h (run_at d x)" for x unfolding run by (rule find_row_update_where) (simp add: h)
  have hs: "is_terminal_run_status (ru_status (?h r)) \<longleftrightarrow> is_terminal_run_status (ru_status r)"
    "is_active_run_status (ru_status (?h r)) \<longleftrightarrow> is_active_run_status (ru_status r)" "unended r \<longrightarrow> unended (?h r)" for r :: run_row
    using active_not_terminal [of "ru_status r"] by (auto simp: h unended_def)
  have boundary: "sa_status b = StepWaiting \<longrightarrow> sa_executor b = ByBoundary" if "attempt_at d x = Some b" for x b
    using attempts_okD [OF _ that] so by (auto simp: steps_ok_def placed_def)
  have "steps_ok d'"
  proof (rule steps_rewritten [OF so at' run', where k = "\<lambda>s. s"])
    fix x b assume b: "attempt_at d x = Some b"
    show "keeps_attempt ?g b"
    proof (cases "sa_id b = aid")
      case True
      with b a(1) at_id(3) [OF b] have "b = a" by simp
      with a(2,3) f True show ?thesis by (simp add: keeps_attempt_def)
    qed (use boundary [OF b] in \<open>simp add: keeps_attempt_def\<close>)
  next
    fix x and r :: run_row show "keeps_run ?h r" using h by (auto simp: keeps_run_def)
  next
    fix x b and r :: run_row assume "\<not> is_terminal_run_status (ru_status r)"
    then show "\<not> is_terminal_run_status (ru_status (?h r)) \<and>
      (sa_executor b = ByBoundary \<longrightarrow> is_active_run_status (ru_status r) \<longrightarrow> is_active_run_status (ru_status (?h r)))"
      unfolding hs by blast
  qed (simp_all add: same option.map_ident keeps_state_def)
  moreover have "waits_ok (insert aid owed) d'"
  proof -
    let ?d = "d\<lparr>rd_attempts := rd_attempts d'\<rparr>"
    have other: "x \<noteq> aid" if "attempt_at d x = Some b" "sa_status b = StepWaiting" for x b using that a by auto
    have begun': "begun (sa_status b) \<Longrightarrow> attempt_at d x = Some b \<Longrightarrow> attempt_at d' x = Some b" for x b
      using a(2) at1 [of x] a(1) by (auto simp: begun_def)
    have "pauses_ok ?d"
      using wo other unfolding waits_ok_def pauses_ok_def by (simp add: at1) blast
    moreover have "inbox_ok ?d" using wo unfolding waits_ok_def inbox_ok_def by simp
    moreover have "children_ok ?d"
      unfolding children_ok_def
    proof (simp, intro allI impI conjI)
      fix x r assume r: "run_at d x = Some r"
      from never_canceling [OF wo r] show "ru_status r \<noteq> RunCanceling" .
      fix y assume y: "ru_parent_attempt_id r = Some y"
      from parent_attempt [OF wo r y] begun'
      show "\<exists>b. attempt_at d' y = Some b \<and> ru_parent_run_id r = Some (sa_run_id b) \<and> begun (sa_status b)" by blast
      fix i p assume "pause_at d i = Some p" "pz_status p = PauseOpen"
      from no_pause_beside [OF wo r y this] show "pz_attempt_id p \<noteq> y" .
    qed
    moreover have "waiting_ok (insert aid owed) ?d"
      using wo unfolding waits_ok_def waiting_ok_def awaited_def by (simp add: at1)
    ultimately have "waits_ok (insert aid owed) ?d" by (simp add: waits_ok_def)
    then show ?thesis
    proof (rule waits_rewritten [where g = "\<lambda>a. a" and h = ?h and q = "\<lambda>p. p" and z = "\<lambda>s. s"])
      fix x assume "x \<notin> insert aid owed"
      moreover have "awaited ?d x \<longrightarrow> awaited d' x"
      proof (rule impI, rule awaited_rewritten [where d = ?d and h = ?h and q = "\<lambda>p. p"])
        fix i and r :: run_row assume "ru_parent_attempt_id r = Some x" "unended r"
        with h hs(3) [of r] show "ru_parent_attempt_id (?h r) = Some x \<and> unended (?h r)" by auto
      qed (simp_all add: run' same option.map_ident)
      ultimately show "x \<notin> insert aid owed \<and> (awaited ?d x \<longrightarrow> awaited d' x)" by simp
    next
      fix x r assume "run_at ?d x = Some r"
      then have "run_at d x = Some r" by simp
      from never_canceling [OF wo this] h show "keeps_links ?h r" by (auto simp: keeps_links_def)
    next
      fix r :: run_row assume "\<not> is_terminal_run_status (ru_status r)"
      then show "\<not> is_terminal_run_status (ru_status (?h r))" unfolding hs .
    qed (simp_all add: run' same option.map_ident keeps_wait_def keeps_pause_def keeps_signal_def)
  qed
  moreover have "signals_ok d'" by (rule signals_same [OF run_okD(4) [OF ok] same(2-4)])
  moreover have "keys_ok d'" using run_okD(1) [OF ok] by (auto simp: keys_ok_def att run same f h)
  ultimately show ?thesis by (simp add: run_ok_def)
qed

text \<open>Nobody's parent is an attempt that runs.\<close>

lemma running_no_child:
  assumes "waits_ok owed d" and "run_at d x = Some r" and "attempt_at d aid = Some a" and "sa_status a = StepRunning"
  shows "ru_parent_attempt_id r \<noteq> Some aid"
  using parent_attempt [OF assms(1,2), of aid] assms(3,4) by (auto simp: begun_def)

section \<open>For a pause\<close>

lemma pause_added:
  assumes ok: "run_ok (insert aid owed) d" and a: "attempt_at d aid = Some a" "sa_status a = StepWaiting"
    and p: "pz_attempt_id p = aid" "pz_run_id p = sa_run_id a" "pz_id p \<notin> pz_id ` set (rd_pauses d)"
    and alone: "\<And>q. q \<in> set (rd_pauses d) \<Longrightarrow> pz_run_id q = pz_run_id p \<Longrightarrow> pz_attempt_id q \<noteq> aid"
    and no_child: "\<And>x r. run_at d x = Some r \<Longrightarrow> ru_parent_attempt_id r \<noteq> Some aid"
    and same: "rd_runs d' = rd_runs d" "rd_states d' = rd_states d" "rd_attempts d' = rd_attempts d" "rd_signals d' = rd_signals d"
      "rd_sequence d' = rd_sequence d" "rd_pauses d' = rd_pauses d @ [p]" and po: "pz_status p = PauseOpen"
  shows "pending_ok owed (pz_id p) d'" "pause_at d' (pz_id p) = Some p"
proof -
  note ko = run_okD(1) [OF ok] and wo = run_okD(3) [OF ok]
  have none: "pause_at d (pz_id p) = None" using p(3) by (simp add: find_row_None)
  have pau: "pause_at d' x = (if x = pz_id p then Some p else pause_at d x)" for x
    using none by (auto simp: same(6) find_row_append split: option.splits)
  then show "pause_at d' (pz_id p) = Some p" by simp
  have wp: "pauses_ok d" "children_ok d" "inbox_ok d" "waiting_ok (insert aid owed) d" using wo by (simp_all add: waits_ok_def)
  have alone': "pz_run_id q = pz_run_id p \<Longrightarrow> pz_attempt_id q \<noteq> pz_attempt_id p" if "pause_at d x = Some q" for x q
    using alone [of q] find_row_Some [OF that] p(1) by simp
  have "pauses_ok d'"
    unfolding pauses_ok_def
  proof (intro conjI allI impI)
    fix x q assume "pause_at d' x = Some q" "pz_status q = PauseOpen"
    with wp(1) a p(1,2) show "\<exists>a. attempt_at d' (pz_attempt_id q) = Some a \<and> sa_run_id a = pz_run_id q \<and> sa_status a = StepWaiting"
      unfolding pauses_ok_def by (cases "x = pz_id p") (simp_all add: pau same(3))
  next
    fix i j q r assume h: "pause_at d' i = Some q" "pause_at d' j = Some r" "pz_run_id q = pz_run_id r" "pz_attempt_id q = pz_attempt_id r"
    show "i = j"
    proof (cases "i = pz_id p \<or> j = pz_id p")
      case True
      with h alone' [of i q] alone' [of j r] show ?thesis by (auto simp: pau split: if_splits)
    next
      case False
      with h have "pause_at d i = Some q" "pause_at d j = Some r" by (simp_all add: pau)
      with h one_pause [OF wo] show ?thesis by blast
    qed
  qed
  moreover have "inbox_but (pz_id p) d'"
    using wp(3) unfolding inbox_but_def inbox_ok_def same(1,4) pau by simp
  moreover have "children_ok d'"
    using wp(2) no_child p(1) unfolding children_ok_def same(1,3) pau by (auto split: if_splits)
  moreover have "waiting_ok owed d'"
    unfolding waiting_ok_def same(3)
  proof (intro allI impI)
    fix x b assume b: "attempt_at d x = Some b" "sa_status b = StepWaiting" "x \<notin> owed"
    show "awaited d' x"
    proof (cases "x = aid")
      case True
      with p(1) po show ?thesis unfolding awaited_def by (intro disjI1 exI [of _ "pz_id p"] exI [of _ p]) (simp add: pau)
    next
      case False
      with b wp(4) have "awaited d x" unfolding waiting_ok_def by blast
      moreover have "pause_at d i = Some q \<Longrightarrow> pause_at d' i = Some q" for i q using none by (auto simp: pau)
      ultimately show ?thesis unfolding awaited_def same(1) by blast
    qed
  qed
  moreover have "signals_ok d'" by (rule signals_pause_set [OF run_okD(4) [OF ok] _ pau same(4,5)]) (use none in simp)
  moreover have "steps_ok d'" by (rule steps_same [OF run_okD(2) [OF ok] same(1-3)])
  moreover have "keys_ok d'" using ko p(3) by (auto simp: keys_ok_def same unique_keys_def)
  ultimately show "pending_ok owed (pz_id p) d'" by (simp add: pending_ok_def)
qed

lemma enqueue_same: "enqueue_job e jid q d = Inr d' \<Longrightarrow> same_tables d d'"
  by (auto simp: same_tables_def dest: enqueue_job_effect)

text \<open>What a suspension for a pause went through, when it did anything.\<close>

lemma suspend_for_pause_steps:
  assumes sp: "suspend_for_pause c e aid job transition d = Inr d'" and ne: "d' \<noteq> d"
  obtains ctx a tm p d3 resolved d4 where "lock_active_attempt aid d = Some ctx" "a = cx_attempt ctx" "sa_status a = StepRunning"
    "p = new_pause e a transition tm" "\<not> pause_refused p d"
    "d3 = snd (update_runs (re_now e) (\<lambda>r. ru_id r = sa_run_id a \<and> is_active_run_status (ru_status r))
       (\<lambda>r. r\<lparr>ru_status := RunWaiting, ru_phase := PausePhase, ru_updated_at := re_now e\<rparr>)
       (update_attempts (\<lambda>x. sa_id x = sa_id a) (\<lambda>x. x\<lparr>sa_status := StepWaiting, sa_updated_at := re_now e\<rparr>)
         (d\<lparr>rd_pauses := rd_pauses d @ [p]\<rparr>)))"
    "resolve_named_pause c e p d3 = Inr (resolved, d4)" "d' = d4 \<or> (\<exists>jid q. enqueue_job e jid q d4 = Inr d')"
proof -
  from sp ne obtain ctx where lk: "lock_active_attempt aid d = Some ctx" by (auto simp: suspend_for_pause_def split: option.splits)
  have st: "sa_status (cx_attempt ctx) = StepRunning" and ow: "owns_job (re_now e) job d"
    using sp ne lk by (auto simp: suspend_for_pause_def Let_def split: if_splits)
  let ?d3 = "\<lambda>p. snd (update_runs (re_now e) (\<lambda>r. ru_id r = sa_run_id (cx_attempt ctx) \<and> is_active_run_status (ru_status r))
       (\<lambda>r. r\<lparr>ru_status := RunWaiting, ru_phase := PausePhase, ru_updated_at := re_now e\<rparr>)
       (update_attempts (\<lambda>x. sa_id x = sa_id (cx_attempt ctx)) (\<lambda>x. x\<lparr>sa_status := StepWaiting, sa_updated_at := re_now e\<rparr>)
         (d\<lparr>rd_pauses := rd_pauses d @ [p]\<rparr>)))"
  let ?body = "\<lambda>tm. (let p = new_pause e (cx_attempt ctx) transition tm
              in if pause_refused p d then Inl UniqueViolated
                 else bind_run (resolve_named_pause c e p (?d3 p)) (\<lambda>(resolved, d4).
                   if resolved then Inr d4
                   else (case tm of None \<Rightarrow> Inr d4
                     | Some tm \<Rightarrow> enqueue_job e (re_job_id e (pz_id p)) (timeout_job (cx_tenant ctx) p tm) d4)))"
  have "bind_run (pause_timeout (re_now e) transition) ?body = Inr d'"
    using sp unfolding suspend_for_pause_def lk by (simp add: Let_def st ow)
  then obtain tm where rest: "?body tm = Inr d'" unfolding bind_run_Inr by blast
  define p where "p = new_pause e (cx_attempt ctx) transition tm"
  define d3 where "d3 = ?d3 p"
  from rest obtain resolved d4 where "\<not> pause_refused p d" "resolve_named_pause c e p d3 = Inr (resolved, d4)"
    "d' = d4 \<or> (\<exists>jid q. enqueue_job e jid q d4 = Inr d')"
    unfolding Let_def p_def [symmetric] d3_def [symmetric] by (auto simp: bind_run_Inr split: if_splits option.splits)
  with that [OF lk refl st p_def _ d3_def] show thesis by blast
qed

lemma suspend_for_pause_ok:
  assumes ok: "run_ok owed d" and fr: "fresh_ids e d" and sp: "suspend_for_pause c e aid job transition d = Inr d'"
    and boundary: "\<And>a. attempt_at d aid = Some a \<Longrightarrow> sa_executor a = ByBoundary"
  shows "run_ok owed d'"
proof (cases "d' = d")
  case False
  note wo = run_okD(3) [OF ok]
  obtain ctx a tm p d3 resolved d4 where lk: "lock_active_attempt aid d = Some ctx" and ca: "a = cx_attempt ctx"
    and sta: "sa_status a = StepRunning" and p_def: "p = new_pause e a transition tm" and nr: "\<not> pause_refused p d"
    and d3': "d3 = snd (update_runs (re_now e) (\<lambda>r. ru_id r = sa_run_id a \<and> is_active_run_status (ru_status r))
       (\<lambda>r. r\<lparr>ru_status := RunWaiting, ru_phase := PausePhase, ru_updated_at := re_now e\<rparr>)
       (update_attempts (\<lambda>x. sa_id x = sa_id a) (\<lambda>x. x\<lparr>sa_status := StepWaiting, sa_updated_at := re_now e\<rparr>)
         (d\<lparr>rd_pauses := rd_pauses d @ [p]\<rparr>)))"
    and rn: "resolve_named_pause c e p d3 = Inr (resolved, d4)" and tail: "d' = d4 \<or> (\<exists>jid q. enqueue_job e jid q d4 = Inr d')"
    by (rule suspend_for_pause_steps [OF sp False])
  from lk have a: "attempt_at d aid = Some a" by (auto simp: lock_active_attempt_Some ca)
  have id: "sa_id a = aid" by (rule at_id(3) [OF a])
  let ?f = "\<lambda>x. x\<lparr>sa_status := StepWaiting, sa_updated_at := re_now e\<rparr>"
  let ?h = "\<lambda>r. r\<lparr>ru_status := RunWaiting, ru_phase := PausePhase, ru_updated_at := re_now e\<rparr>"
  let ?P = "\<lambda>r. ru_id r = sa_run_id a \<and> is_active_run_status (ru_status r)"
  note d3_def = d3' [unfolded id]
  define d2 where "d2 = snd (update_runs (re_now e) ?P ?h (update_attempts (\<lambda>x. sa_id x = aid) ?f d))"
  have sig: "rd_signals (snd (update_runs (re_now e) ?P ?h x)) = rd_signals x" for x by (rule update_runs_keep_signals) simp
  have t2: "rd_runs d2 = update_where ?P ?h (rd_runs d)" "rd_attempts d2 = update_where (\<lambda>x. sa_id x = aid) ?f (rd_attempts d)"
    "rd_states d2 = rd_states d" "rd_pauses d2 = rd_pauses d" "rd_signals d2 = rd_signals d" "rd_sequence d2 = rd_sequence d"
    unfolding d2_def by (simp_all add: sig effects)
  have t3: "rd_runs d3 = rd_runs d2" "rd_states d3 = rd_states d2" "rd_attempts d3 = rd_attempts d2" "rd_signals d3 = rd_signals d2"
    "rd_sequence d3 = rd_sequence d2" "rd_pauses d3 = rd_pauses d2 @ [p]"
    unfolding d3_def d2_def by (simp_all add: sig effects)
  have fields: "pz_id p = re_pause_id e" "pz_run_id p = sa_run_id a" "pz_attempt_id p = aid" "pz_status p = PauseOpen"
    using id by (simp_all add: p_def new_pause_def)
  have ok2: "run_ok (insert aid owed) d2"
    by (rule attempt_suspended [OF ok a sta boundary [OF a] t2(2,1,3-6)]) simp_all
  have a2: "attempt_at d2 aid = Some (?f a)" using a id by (simp add: t2(2) find_row_update_where)
  have alone: "pz_attempt_id q \<noteq> aid" if "q \<in> set (rd_pauses d2)" "pz_run_id q = pz_run_id p" for q
    using nr that fields by (auto simp: pause_refused_def t2)
  have no_child: "ru_parent_attempt_id r \<noteq> Some aid" if "run_at d2 x = Some r" for x r
  proof -
    from that obtain r0 where "run_at d x = Some r0" "ru_parent_attempt_id r = ru_parent_attempt_id r0"
      by (auto simp: t2(1) find_row_update_where)
    with running_no_child [OF wo _ a sta] show ?thesis by simp
  qed
  have new: "pz_id p \<notin> pz_id ` set (rd_pauses d2)" using fr fields by (simp add: fresh_ids_def t2)
  note pend = pause_added [OF ok2 a2 _ fields(3) _ new alone no_child t3 fields(4)]
  have fr3: "fresh_attempts e d3"
    by (rule fresh_update [where d = d and f = ?f]) (use fr in \<open>simp_all add: t3 t2 fresh_ids_def\<close>)
  have "run_ok owed d4" by (rule resolve_named_pause_ok [OF pend(1) fr3 pend(2) fields(4) rn]) (simp_all add: fields)
  with tail show ?thesis using run_ok_same enqueue_same by blast
qed (use ok in simp)

section \<open>For a child, and the start of a run\<close>

lemma waits_run_added:
  assumes ok: "waits_ok owed d" and fresh: "run_at d rid = None" "attempt_at d (sa_id n) = None" and n: "sa_status n = StepPending"
    and att: "\<And>x. attempt_at d' x = (if x = sa_id n then Some n else attempt_at d x)"
    and run: "\<And>x. run_at d' x = (if x = rid then Some r else run_at d x)" and r: "is_active_run_status (ru_status r)"
    and same: "rd_pauses d' = rd_pauses d" "rd_signals d' = rd_signals d"
    and parent: "\<And>aid. ru_parent_attempt_id r = Some aid \<Longrightarrow>
        (\<exists>a. attempt_at d aid = Some a \<and> ru_parent_run_id r = Some (sa_run_id a) \<and> begun (sa_status a)) \<and>
        (\<forall>pid p. pause_at d pid = Some p \<longrightarrow> pz_status p = PauseOpen \<longrightarrow> pz_attempt_id p \<noteq> aid)"
  shows "waits_ok (owed - parent_owed r) d'"
proof -
  have wp: "pauses_ok d" "children_ok d" "inbox_ok d" "waiting_ok owed d" using ok by (simp_all add: waits_ok_def)
  have keep: "attempt_at d x = Some a \<Longrightarrow> attempt_at d' x = Some a" for x a using fresh(2) by (auto simp: att)
  have keep_run: "run_at d x = Some q \<Longrightarrow> run_at d' x = Some q" for x q using fresh(1) by (auto simp: run)
  have "pauses_ok d'" using wp(1) keep unfolding pauses_ok_def same by blast
  moreover have "inbox_ok d'" using wp(3) keep_run unfolding inbox_ok_def same by blast
  moreover have "children_ok d'"
    unfolding children_ok_def same
  proof (intro allI impI)
    fix x q assume q: "run_at d' x = Some q"
    show "ru_status q \<noteq> RunCanceling \<and> (\<forall>aid. ru_parent_attempt_id q = Some aid \<longrightarrow>
        (\<exists>a. attempt_at d' aid = Some a \<and> ru_parent_run_id q = Some (sa_run_id a) \<and> begun (sa_status a)) \<and>
        (\<forall>pid p. pause_at d pid = Some p \<longrightarrow> pz_status p = PauseOpen \<longrightarrow> pz_attempt_id p \<noteq> aid))"
    proof (cases "x = rid")
      case True
      with q have "q = r" by (simp add: run)
      moreover have "ru_status r \<noteq> RunCanceling" using r by auto
      ultimately show ?thesis using parent keep by blast
    next
      case False
      with q have "run_at d x = Some q" by (simp add: run)
      with wp(2) keep show ?thesis unfolding children_ok_def by blast
    qed
  qed
  moreover have "waiting_ok (owed - parent_owed r) d'"
    unfolding waiting_ok_def
  proof (intro allI impI)
    fix x a assume a: "attempt_at d' x = Some a" "sa_status a = StepWaiting" "x \<notin> owed - parent_owed r"
    show "awaited d' x"
    proof (cases "ru_parent_attempt_id r = Some x")
      case True
      moreover have "unended r" using r by (auto simp: unended_def)
      moreover have "run_at d' rid = Some r" by (simp add: run)
      ultimately show ?thesis unfolding awaited_def by blast
    next
      case False
      with a(3) have "x \<notin> owed" by (auto simp: parent_owed_def split: option.splits)
      moreover from a n have "attempt_at d x = Some a" by (auto simp: att split: if_splits)
      ultimately have "awaited d x" using wp(4) a(2) unfolding waiting_ok_def by blast
      with keep_run show ?thesis unfolding awaited_def same by blast
    qed
  qed
  ultimately show ?thesis by (simp add: waits_ok_def)
qed

lemma run_begun:
  assumes ok: "run_ok owed d" and fr: "fresh_attempts e d" and new: "run_at d rid = None" and rid: "ru_id r = rid"
    and r: "is_active_run_status (ru_status r)" "ru_input r = Some input" and plan: "plan_indexed plan"
    and t0: "rd_runs d0 = rd_runs d @ [r]" "rd_states d0 = rd_states d" "rd_attempts d0 = rd_attempts d" "rd_pauses d0 = rd_pauses d"
      "rd_signals d0 = rd_signals d" "rd_sequence d0 = rd_sequence d"
    and parent: "\<And>aid. ru_parent_attempt_id r = Some aid \<Longrightarrow>
        (\<exists>a. attempt_at d aid = Some a \<and> ru_parent_run_id r = Some (sa_run_id a) \<and> begun (sa_status a)) \<and>
        (\<forall>pid p. pause_at d pid = Some p \<longrightarrow> pz_status p = PauseOpen \<longrightarrow> pz_attempt_id p \<noteq> aid)"
    and ini: "initialize c e tenant rid plan input d0 = Inr d'"
  shows "run_ok (owed - parent_owed r) d' \<and> fresh_attempts e d'"
proof -
  note ko = run_okD(1) [OF ok] and so = run_okD(2) [OF ok]
  from ini obtain desc rest where pl: "plan = desc # rest" by (auto simp: initialize_def split: list.splits)
  define s where "s = new_state (re_now e) rid plan input"
  define d1 where "d1 = d0\<lparr>rd_states := rd_states d0 @ [s]\<rparr>"
  have ns: "rs_run_id s = rid" "rs_plan s = plan" "rs_prev_status s = None" by (simp_all add: s_def new_state_def)
  from ini have nost: "\<not> (\<exists>s \<in> set (rd_states d). rs_run_id s = rid)" and cr: "create_step_attempt c e tenant rid desc input 1 None d1 = Inr d'"
    by (auto simp: initialize_def pl d1_def s_def t0 split: if_splits)
  have index: "sd_index desc = 0" using plan by (auto simp: plan_indexed_def pl)
  have k1: "keys_ok d1" using ko new nost by (auto simp: keys_ok_def d1_def t0 unique_keys_def ns rid find_row_None)
  have fr1: "fresh_attempts e d1" by (rule fresh_frame [OF fr]) (simp add: d1_def t0)
  define n where "n = new_attempt c e rid desc input 1"
  note rows = created_rows [OF cr fr1, folded n_def] and eff = create_step_attempt_effect [OF cr]
  have n: "sa_run_id n = rid" "sa_step_index n = 0" "sa_status n = StepPending" "sa_input n = input"
    using index by (simp_all add: n_def new_attempt_def)
  have run1: "run_at d1 x = (if x = rid then Some r else run_at d x)" for x
    using new rid by (auto simp: d1_def t0 find_row_append split: option.splits)
  have "state_at d rid = None" using nost by (auto simp: find_row_None)
  then have st1: "state_at d1 x = (if x = rid then Some s else state_at d x)" for x
    using ns(1) by (auto simp: d1_def t0 find_row_append split: option.splits)
  let ?r = "r\<lparr>ru_status := RunPending, ru_phase := phase_for desc, ru_updated_at := re_now e\<rparr>"
  let ?s = "s\<lparr>rs_step_index := sd_index desc, rs_input := input, rs_active_attempt := Some (sa_id n), rs_updated_at := re_now e\<rparr>"
  have run': "run_at d' x = (if x = rid then Some ?r else run_at d x)" for x
    unfolding rows(4) using rewrite_active [where d = d1 and k = rid and r = r and y = x] r(1) run1 by simp
  have sta': "state_at d' x = (if x = rid then Some ?s else state_at d x)" for x
    unfolding rows(3) using rewrite_one(1) [where key = rs_run_id and k = rid and r = s and xs = "rd_states d1" and y = x] st1 by simp
  have at1: "attempt_at d1 x = attempt_at d x" for x by (simp add: d1_def t0)
  note att' = rows(2) [unfolded at1] and none = rows(1) [unfolded at1]
  have "steps_ok d'"
    by (rule steps_begun [OF so, where r = ?r and s = ?s and n = n])
      (use new none att' run' sta' n rid r plan pl ns index in simp_all)
  moreover have "waits_ok (owed - parent_owed ?r) d'"
    by (rule waits_run_added [OF run_okD(3) [OF ok] new none n(3) att' run'])
      (use parent in \<open>simp_all add: eff d1_def t0\<close>)
  moreover have "signals_ok d'" by (rule signals_same [OF run_okD(4) [OF ok]]) (simp_all add: eff d1_def t0)
  moreover have "keys_ok d'" by (rule created_keys [OF cr fr1 k1])
  ultimately show ?thesis using rows(5) by (simp add: run_ok_def parent_owed_def)
qed

lemma suspend_for_child_ok:
  assumes ok: "run_ok owed d" and fr: "fresh_ids e d" and sc: "suspend_for_child c e aid job q state d = Inr (child, d')"
    and boundary: "\<And>a. attempt_at d aid = Some a \<Longrightarrow> sa_executor a = ByBoundary" and plan: "plan_indexed (cr_plan q)"
  shows "run_ok owed d'"
proof (cases "d' = d")
  case False
  note wo = run_okD(3) [OF ok]
  from sc False obtain ctx where lk: "lock_active_attempt aid d = Some ctx" by (auto simp: suspend_for_child_def split: option.splits)
  define a where "a = cx_attempt ctx"
  define parent where "parent = cx_run ctx"
  from lk have a: "attempt_at d aid = Some a" and pr: "run_at d (sa_run_id a) = Some parent"
    by (auto simp: lock_active_attempt_Some a_def parent_def)
  have id: "sa_id a = aid" "ru_id parent = sa_run_id a" using at_id(3) [OF a] at_id(1) [OF pr] by simp_all
  have st: "sa_status a = StepRunning"
    using sc False unfolding suspend_for_child_def lk by (auto simp: Let_def a_def split: if_splits)
  let ?f = "\<lambda>x. x\<lparr>sa_status := StepWaiting, sa_updated_at := re_now e,
      sa_call_state := (case state of None \<Rightarrow> sa_call_state x | Some v \<Rightarrow> Some v)\<rparr>"
  let ?h = "\<lambda>r. r\<lparr>ru_status := RunWaiting, ru_phase := ChildPhase, ru_updated_at := re_now e\<rparr>"
  let ?P = "\<lambda>r. ru_id r = sa_run_id a \<and> is_active_run_status (ru_status r)"
  define d2 where "d2 = snd (update_runs (re_now e) ?P ?h (update_attempts (\<lambda>x. sa_id x = aid) ?f d))"
  from sc False obtain desc rest where pl: "cr_plan q = desc # rest"
    unfolding suspend_for_child_def lk by (auto simp: Let_def split: if_splits list.splits)
  define r where "r = child_run e ctx q desc"
  define d3 where "d3 = snd (update_runs (re_now e) ?P ?h (update_attempts (\<lambda>x. sa_id x = aid) ?f (d\<lparr>rd_runs := rd_runs d @ [r]\<rparr>)))"
  have ini: "initialize c e (cx_tenant ctx) (re_child_id e) (cr_plan q) (cr_input q) d3 = Inr d'"
    using sc False unfolding suspend_for_child_def lk
    by (auto simp: Let_def pl bind_run_Inr a_def [symmetric] parent_def [symmetric] id r_def [symmetric] d3_def [symmetric] split: if_splits)
  have rf: "ru_id r = re_child_id e" "ru_status r = RunPending" "ru_input r = Some (cr_input q)" "ru_parent_run_id r = Some (sa_run_id a)"
    "ru_parent_attempt_id r = Some aid"
    using id by (simp_all add: r_def child_run_def Let_def a_def parent_def)
  have nr: "run_at d (re_child_id e) = None" using fr by (simp add: fresh_ids_def find_row_None)
  then have ne: "re_child_id e \<noteq> sa_run_id a" using pr by auto
  have sig: "rd_signals (snd (update_runs (re_now e) ?P ?h x)) = rd_signals x" for x by (rule update_runs_keep_signals) simp
  have t2: "rd_runs d2 = update_where ?P ?h (rd_runs d)" "rd_attempts d2 = update_where (\<lambda>x. sa_id x = aid) ?f (rd_attempts d)"
    "rd_states d2 = rd_states d" "rd_pauses d2 = rd_pauses d" "rd_signals d2 = rd_signals d" "rd_sequence d2 = rd_sequence d"
    unfolding d2_def by (simp_all add: sig effects)
  have t3: "rd_runs d3 = rd_runs d2 @ [r]" "rd_states d3 = rd_states d2" "rd_attempts d3 = rd_attempts d2" "rd_pauses d3 = rd_pauses d2"
    "rd_signals d3 = rd_signals d2" "rd_sequence d3 = rd_sequence d2"
    unfolding d3_def d2_def by (simp_all add: sig effects rf ne update_where_append)
  have ok2: "run_ok (insert aid owed) d2"
    by (rule attempt_suspended [OF ok a st boundary [OF a] t2(2,1,3-6)]) simp_all
  have a2: "attempt_at d2 aid = Some (?f a)" using a id by (simp add: t2(2) find_row_update_where)
  have no_pause: "pz_attempt_id p \<noteq> aid" if "pause_at d2 i = Some p" "pz_status p = PauseOpen" for i p
    using pauses_okD [OF wo, of i p] that a st by (auto simp: t2)
  have fr2: "fresh_attempts e d2"
    by (rule fresh_update [where d = d and f = ?f]) (use fr in \<open>simp_all add: t2 fresh_ids_def\<close>)
  have "run_ok (insert aid owed - parent_owed r) d' \<and> fresh_attempts e d'"
  proof (rule run_begun [OF ok2 fr2 _ rf(1) _ rf(3) plan t3 _ ini])
    show "run_at d2 (re_child_id e) = None" using nr by (simp add: t2 find_row_update_where)
    fix x assume "ru_parent_attempt_id r = Some x"
    then have "x = aid" by (simp add: rf)
    with a2 no_pause rf(4) show "(\<exists>a. attempt_at d2 x = Some a \<and> ru_parent_run_id r = Some (sa_run_id a) \<and> begun (sa_status a)) \<and>
        (\<forall>pid p. pause_at d2 pid = Some p \<longrightarrow> pz_status p = PauseOpen \<longrightarrow> pz_attempt_id p \<noteq> x)"
      by (auto simp: begun_def)
  qed (simp add: rf)
  then show ?thesis by (auto simp: parent_owed_def rf intro: run_weaken)
qed (use ok in simp)

lemma start_run_ok:
  assumes ok: "run_ok owed d" and fr: "fresh_attempts e d" and sr: "start_run c e tenant q d = Inr d'" and plan: "plan_indexed (nr_plan q)"
  shows "run_ok owed d'"
proof -
  let ?r = "started_run (re_now e) q"
  have rf: "ru_id ?r = nr_id q" "ru_status ?r = RunPending" "ru_input ?r = Some (nr_input q)" "ru_parent_attempt_id ?r = None"
    by (simp_all add: started_run_def)
  from sr have new: "run_at d (nr_id q) = None"
    and ini: "initialize c e tenant (nr_id q) (nr_plan q) (nr_input q) (d\<lparr>rd_runs := rd_runs d @ [?r]\<rparr>) = Inr d'"
    by (auto simp: start_run_def find_row_None split: if_splits)
  have "run_ok (owed - parent_owed ?r) d' \<and> fresh_attempts e d'"
    by (rule run_begun [OF ok fr new rf(1) _ rf(3) plan _ _ _ _ _ _ _ ini]) (simp_all add: rf)
  then show ?thesis by (simp add: parent_owed_def rf)
qed

end
