(* ===== verification/Run_Endings.thy ===== *)
theory Run_Endings
  imports Run_Suspends
begin

text \<open>
  The invariant of workflow runs through signals, operators, cancellation and the failure of whole trees.
\<close>

section \<open>A signal arrives\<close>

lemma signals_new:
  assumes go: "signals_ok d" and fresh: "sg_id s \<notin> sg_id ` set (rd_signals d)" and s: "sg_sequence s = rd_sequence d + 1" "sg_status s = SignalBuffered"
      "sg_pause_id s = None"
    and key: "\<And>t. t \<in> set (rd_signals d) \<Longrightarrow> sg_run_id t = sg_run_id s \<Longrightarrow> sg_key t \<noteq> sg_key s"
    and same: "rd_pauses d' = rd_pauses d" "rd_signals d' = rd_signals d @ [s]" "rd_sequence d' = sg_sequence s"
  shows "signals_ok d'"
proof -
  have none: "signal_at d (sg_id s) = None" using fresh by (simp add: find_row_None)
  have sig: "signal_at d' x = (if x = sg_id s then Some s else signal_at d x)" for x
    using none by (auto simp: same find_row_append split: option.splits)
  have old: "sg_sequence t < sg_sequence s" if "signal_at d x = Some t" for x t
    using signal_numbered [OF go that] s(1) by simp
  have other: "sg_run_id t = sg_run_id s \<Longrightarrow> sg_key t \<noteq> sg_key s" if "signal_at d x = Some t" for x t
    using key [of t] find_row_Some [OF that] by simp
  have "taken_ok d'"
    unfolding taken_ok_def same(1)
  proof (intro conjI allI impI)
    fix x t assume t: "signal_at d' x = Some t" "sg_status t = SignalResumed \<or> sg_pause_id t \<noteq> None"
    with s have "signal_at d x = Some t" by (auto simp: sig split: if_splits)
    from signal_took [OF go this t(2)] show "\<exists>p. pause_at d (pz_id p) = Some p \<and> took d' t p" by (simp add: took_def)
  next
    fix i j t u pid assume h: "signal_at d' i = Some t" "signal_at d' j = Some u" "sg_pause_id t = Some pid" "sg_pause_id u = Some pid"
    with s have "signal_at d i = Some t" "signal_at d j = Some u" by (auto simp: sig split: if_splits)
    from signal_taker [OF go this h(3,4)] show "i = j" .
  qed
  moreover have "order_ok d'"
    unfolding order_ok_def same(3)
  proof (intro conjI allI impI)
    fix i t assume "signal_at d' i = Some t"
    with old [of i t] show "sg_sequence t \<le> sg_sequence s" by (auto simp: sig split: if_splits)
  next
    fix i j t u assume h: "signal_at d' i = Some t" "signal_at d' j = Some u"
    have it: "i = sg_id s \<and> t = s \<or> i \<noteq> sg_id s \<and> signal_at d i = Some t" using h(1) unfolding sig by (simp split: if_split_asm)
    have ju: "j = sg_id s \<and> u = s \<or> j \<noteq> sg_id s \<and> signal_at d j = Some u" using h(2) unfolding sig by (simp split: if_split_asm)
    consider "i = sg_id s" "j = sg_id s" | "i = sg_id s" "j \<noteq> sg_id s" "t = s" "signal_at d j = Some u"
      | "i \<noteq> sg_id s" "j = sg_id s" "u = s" "signal_at d i = Some t" | "signal_at d i = Some t" "signal_at d j = Some u"
      using it ju by blast
    note cs = this
    show "sg_sequence t = sg_sequence u \<Longrightarrow> i = j"
      by (cases rule: cs) (use old in \<open>fastforce dest: signal_number [OF go]\<close>)+
    show "sg_run_id t = sg_run_id u \<Longrightarrow> sg_key t = sg_key u \<Longrightarrow> i = j"
      by (cases rule: cs) (use other in \<open>fastforce dest: signal_key [OF go]\<close>)+
    assume r: "sg_run_id t = sg_run_id u" "sg_name t = sg_name u" "sg_status t = SignalResumed" "sg_status u = SignalBuffered"
    show "sg_sequence t < sg_sequence u"
      by (cases rule: cs) (use h r s(2) old in \<open>auto simp: sig intro: signal_order [OF go]\<close>)
  qed
  ultimately show ?thesis by (simp add: signals_ok_def)
qed

lemma put_signal_ok:
  assumes ok: "run_ok owed d" and fr: "fresh_attempts e d" and new: "sg_id s \<notin> sg_id ` set (rd_signals d)"
    and s: "sg_sequence s = rd_sequence d + 1" "sg_status s = SignalBuffered" "sg_pause_id s = None"
    and key: "\<And>t. t \<in> set (rd_signals d) \<Longrightarrow> sg_run_id t = sg_run_id s \<Longrightarrow> sg_key t \<noteq> sg_key s"
    and run: "run_at d (sg_run_id s) = Some r" "is_active_run_status (ru_status r)"
    and ps: "put_signal c e s d = Inr (rcp, d')"
  shows "run_ok owed d'"
proof -
  note ko = run_okD(1) [OF ok] and so = run_okD(2) [OF ok] and wo = run_okD(3) [OF ok]
  have wp: "pauses_ok d" "children_ok d" "inbox_ok d" "waiting_ok owed d" using wo by (simp_all add: waits_ok_def)
  define d1 where "d1 = d\<lparr>rd_signals := rd_signals d @ [s], rd_sequence := sg_sequence s\<rparr>"
  have t1: "rd_runs d1 = rd_runs d" "rd_states d1 = rd_states d" "rd_attempts d1 = rd_attempts d" "rd_pauses d1 = rd_pauses d"
    "rd_signals d1 = rd_signals d @ [s]" "rd_sequence d1 = sg_sequence s" by (simp_all add: d1_def)
  have none: "signal_at d (sg_id s) = None" using new by (simp add: find_row_None)
  have sig: "signal_at d1 x = (if x = sg_id s then Some s else signal_at d x)" for x
    using none by (auto simp: t1 find_row_append split: option.splits)
  have pend: "pending_ok owed pid d1"
    if only: "\<And>x p. pause_at d x = Some p \<Longrightarrow> pz_status p = PauseOpen \<Longrightarrow> pz_run_id p = sg_run_id s \<Longrightarrow>
      pz_signal_name p = Some (sg_name s) \<Longrightarrow> x = pid" for pid
  proof -
    have "pauses_ok d1" using wp(1) unfolding pauses_ok_def t1 .
    moreover have "children_ok d1" using wp(2) unfolding children_ok_def t1 .
    moreover have "waiting_ok owed d1" using wp(4) unfolding waiting_ok_def awaited_def t1 .
    moreover have "inbox_but pid d1"
      unfolding inbox_but_def t1(1,4)
    proof (intro conjI allI impI)
      fix x p i g assume h: "x \<noteq> pid" "pause_at d x = Some p" "pz_status p = PauseOpen" "signal_at d1 i = Some g" "sg_status g = SignalBuffered"
        "sg_run_id g = pz_run_id p"
      show "pz_signal_name p \<noteq> Some (sg_name g)"
      proof (cases "i = sg_id s")
        case True
        with h(4) have "g = s" by (simp add: sig)
        with only [OF h(2,3)] h(1,6) show ?thesis by auto
      next
        case False
        with h(4) have "signal_at d i = Some g" by (simp add: sig)
        from no_open_pause [OF wo this h(5,2,3,6)] show ?thesis .
      qed
    next
      fix i g assume h: "signal_at d1 i = Some g" "sg_status g = SignalBuffered"
      show "\<exists>r. run_at d (sg_run_id g) = Some r \<and> \<not> is_terminal_run_status (ru_status r)"
      proof (cases "i = sg_id s")
        case True
        with h have "g = s" by (simp add: sig)
        with run active_not_terminal show ?thesis by blast
      next
        case False
        with h have "signal_at d i = Some g" by (simp add: sig)
        from signal_run [OF wo this h(2)] show ?thesis .
      qed
    qed
    moreover have "signals_ok d1" by (rule signals_new [OF run_okD(4) [OF ok] new s key t1(4,5,6)])
    moreover have "steps_ok d1" by (rule steps_same [OF so t1(1-3)])
    moreover have "keys_ok d1" using ko new by (auto simp: keys_ok_def t1 unique_keys_def)
    ultimately show ?thesis by (simp add: pending_ok_def)
  qed
  have fr1: "fresh_attempts e d1" by (rule fresh_frame [OF fr t1(3)])
  show ?thesis
  proof (cases "open_pause_named (sg_run_id s) (sg_name s) d1")
    case None
    then have no: "\<not> (pz_run_id p = sg_run_id s \<and> pz_signal_name p = Some (sg_name s) \<and> pz_status p = PauseOpen)" if "p \<in> set (rd_pauses d)" for p
      using that by (auto simp: open_pause_named_def t1 find_None_iff)
    have "d' = d1"
      using ps None by (auto simp: put_signal_def Let_def d1_def [symmetric] bind_run_Inr split: option.splits)
    moreover have "run_ok owed d1"
    proof (rule pending_run [OF pend [of "[]"]])
      fix x p assume "pause_at d x = Some p" "pz_status p = PauseOpen" "pz_run_id p = sg_run_id s" "pz_signal_name p = Some (sg_name s)"
      with no [of p] find_row_Some [of pz_id x "rd_pauses d" p] show "x = []" by simp
    next
      fix p i g assume h: "pause_at d1 [] = Some p" "pz_status p = PauseOpen" "signal_at d1 i = Some g" "sg_status g = SignalBuffered"
        "sg_run_id g = pz_run_id p"
      then have p: "pause_at d [] = Some p" by (simp add: t1)
      show "pz_signal_name p \<noteq> Some (sg_name g)"
      proof (cases "i = sg_id s")
        case True
        with h(3) have "g = s" by (simp add: sig)
        with no [of p] find_row_Some [OF p] h(2,5) show ?thesis by auto
      next
        case False
        with h(3) have "signal_at d i = Some g" by (simp add: sig)
        from no_open_pause [OF wo this h(4) p h(2,5)] show ?thesis .
      qed
    qed
    ultimately show ?thesis by simp
  next
    case (Some p)
    then have mem: "p \<in> set (rd_pauses d)" and p: "pz_run_id p = sg_run_id s" "pz_signal_name p = Some (sg_name s)" "pz_status p = PauseOpen"
      by (auto simp: open_pause_named_def t1 find_Some_iff)
    have pat: "pause_at d (pz_id p) = Some p" by (rule find_row_unique [OF _ mem]) (use ko in \<open>simp add: keys_ok_def\<close>)
    from ps Some obtain resolved where rn: "resolve_named_pause c e p d1 = Inr (resolved, d')"
      by (auto simp: put_signal_def Let_def d1_def [symmetric] bind_run_Inr split: option.splits)
    have "pending_ok owed (pz_id p) d1"
    proof (rule pend)
      fix x q assume "pause_at d x = Some q" "pz_status q = PauseOpen" "pz_run_id q = sg_run_id s"
      with one_open_pause [OF so wp(1) _ _ pat p(3), of x q] p(1) show "x = pz_id p" by simp
    qed
    then show ?thesis by (rule resolve_named_pause_ok [OF _ fr1 _ p(3) rn]) (simp add: t1 pat)
  qed
qed

lemma signal_by_key_ok:
  assumes ok: "run_ok owed d" and fr: "fresh_ids e d" and sk: "signal_by_key c se e q d = Inr (rcp, d')"
  shows "run_ok owed d'"
proof (cases "d' = d")
  case False
  from sk obtain payload where sp: "signal_payload se (sq_signal q) (sq_key q) (sq_value q) = Inr payload"
    unfolding signal_by_key_def bind_run_Inr by blast
  from sk obtain run where run: "signaled_run q d = Some run" unfolding signal_by_key_def sp by (simp split: option.split_asm)
  have unused: "List.find (\<lambda>s. sg_run_id s = ru_id run \<and> sg_key s = sq_key q) (rd_signals d) = None"
    using sk False unfolding signal_by_key_def sp run
    by (cases "List.find (\<lambda>s. sg_run_id s = ru_id run \<and> sg_key s = sq_key q) (rd_signals d)") (auto simp: bind_run_Inr split: if_split_asm)
  from sk have act: "is_active_run_status (ru_status run)" and ps: "put_signal c e (new_signal e q payload d) d = Inr (rcp, d')"
    unfolding signal_by_key_def sp run by (simp_all add: unused Let_def split: if_split_asm)
  from run have rat: "run_at d (sq_run_id q) = Some run" by (auto simp: signaled_run_def lock_run_def split: option.splits if_splits)
  have id: "ru_id run = sq_run_id q" by (rule at_id(1) [OF rat])
  show ?thesis
  proof (rule put_signal_ok [OF ok _ _ _ _ _ _ _ act ps])
    fix t assume "t \<in> set (rd_signals d)" "sg_run_id t = sg_run_id (new_signal e q payload d)"
    with unused id show "sg_key t \<noteq> sg_key (new_signal e q payload d)" by (auto simp: find_None_iff new_signal_def)
  qed (use fr rat in \<open>simp_all add: new_signal_def fresh_ids_def\<close>)
qed (use ok in simp)

section \<open>Operators\<close>

text \<open>A run whose attempt is a batch has no boundary attempt that lives.\<close>

lemma batch_run:
  assumes so: "steps_ok d" and ab: "active_batch_state rid d = Some s" and a: "attempt_at d x = Some a" "live_step (sa_status a)" "sa_run_id a = rid"
  shows "state_at d rid = Some s \<and> sa_executor a = ByBatch"
proof -
  from ab obtain aid b where s: "state_at d rid = Some s" "rs_active_attempt s = Some aid" "attempt_at d aid = Some b" "sa_executor b = ByBatch"
    by (auto simp: active_batch_state_def split: option.splits if_splits)
  from attempts_okD [OF _ a(1)] so a(2,3) s(1) have "rs_active_attempt s = Some (sa_id a)" by (auto simp: steps_ok_def placed_def)
  with s a(1) at_id(3) [OF a(1)] show ?thesis by simp
qed

lemma operator_ok:
  assumes ok: "run_ok owed d" and ab: "active_batch_state rid d = Some s" and r0: "run_at d rid = Some r0" "\<not> is_terminal_run_status (ru_status r0)"
    and run: "rd_runs d' = update_where P h (rd_runs d)" and P: "\<And>r. P r \<Longrightarrow> ru_id r = rid"
    and sta: "rd_states d' = update_where Q k (rd_states d)" and Q: "\<And>x. Q x \<Longrightarrow> rs_run_id x = rid"
    and same: "rd_attempts d' = rd_attempts d" "rd_pauses d' = rd_pauses d" "rd_signals d' = rd_signals d" "rd_sequence d' = rd_sequence d"
    and h: "\<And>r. ru_id (h r) = ru_id r \<and> ru_input (h r) = ru_input r \<and> ru_result (h r) = ru_result r \<and>
        ru_parent_run_id (h r) = ru_parent_run_id r \<and> ru_parent_attempt_id (h r) = ru_parent_attempt_id r"
    and st: "ru_status (h r0) = RunPaused \<or> is_active_run_status (ru_status (h r0))" and k: "\<And>x. keeps_state k x"
  shows "run_ok owed d'"
proof -
  note so = run_okD(2) [OF ok] and wo = run_okD(3) [OF ok]
  let ?h = "\<lambda>r. if P r then h r else r" and ?k = "\<lambda>x. if Q x then k x else x"
  have run': "run_at d' x = map_option ?h (run_at d x)" for x unfolding run by (rule find_row_update_where) (simp add: h)
  have ks: "rs_run_id (k x) = rs_run_id x" for x using keeps_state_fields [OF k] by simp
  have sta': "state_at d' x = map_option ?k (state_at d x)" for x unfolding sta by (rule find_row_update_where) (simp add: ks)
  have only: "r = r0" if "P r" "run_at d x = Some r" for x r using P [OF that(1)] at_id(1) [OF that(2)] that(2) r0(1) by simp
  have alive: "\<not> is_terminal_run_status (ru_status (h r0))" "unended (h r0)" "ru_status (h r0) \<noteq> RunCanceling"
    using st active_not_terminal by (auto simp: unended_def)
  show ?thesis
  proof (rule run_rewritten [OF ok, where g = "\<lambda>a. a" and h = ?h and k = ?k and q = "\<lambda>p. p" and z = "\<lambda>s. s"])
    fix x a assume a: "attempt_at d x = Some a"
    from attempts_okD [OF _ a] so have "sa_status a = StepWaiting \<longrightarrow> sa_executor a = ByBoundary" by (auto simp: steps_ok_def placed_def)
    then show "keeps_attempt (\<lambda>a. a) a \<and> keeps_wait (\<lambda>a. a) a" by (simp add: keeps_attempt_def keeps_wait_def)
    assume "x \<notin> owed"
    moreover have "awaited d x \<Longrightarrow> awaited d' x"
    proof (rule awaited_rewritten [OF run', where q = "\<lambda>p. p"])
      fix i r assume r: "run_at d i = Some r" "ru_parent_attempt_id r = Some x" "unended r"
      with only [OF _ r(1)] h alive show "ru_parent_attempt_id (?h r) = Some x \<and> unended (?h r)" by auto
    qed (simp_all add: same option.map_ident)
    ultimately show "x \<notin> owed \<and> (awaited d x \<longrightarrow> awaited d' x)" by simp
  next
    fix x r assume r: "run_at d x = Some r"
    have "ru_status (?h r) = RunCompleted \<longleftrightarrow> ru_status r = RunCompleted"
      using only [OF _ r] r0(2) alive(2) by (auto simp: unended_def)
    moreover have "ru_status (?h r) \<noteq> RunCanceling" using only [OF _ r] alive(3) never_canceling [OF wo r] by auto
    ultimately show "keeps_run ?h r \<and> keeps_links ?h r" using h by (auto simp: keeps_run_def keeps_links_def)
  next
    fix x a r assume a: "attempt_at d x = Some a" "live_step (sa_status a)" and r: "run_at d (sa_run_id a) = Some r" "\<not> is_terminal_run_status (ru_status r)"
    show "\<not> is_terminal_run_status (ru_status (?h r)) \<and>
        (sa_executor a = ByBoundary \<longrightarrow> is_active_run_status (ru_status r) \<longrightarrow> is_active_run_status (ru_status (?h r)))"
    proof (cases "P r")
      case True
      have "sa_run_id a = rid" using P [OF True] at_id(1) [OF r(1)] by simp
      with batch_run [OF so ab a] only [OF True r(1)] alive(1) True show ?thesis by simp
    qed (use r in simp)
  next
    fix x s' r assume r: "run_at d (sg_run_id s') = Some r" "\<not> is_terminal_run_status (ru_status r)"
    with only [OF _ r(1)] alive(1) show "\<not> is_terminal_run_status (ru_status (?h r))" by auto
  next
    fix x t show "keeps_state ?k t"
    proof (cases "Q t")
      case True
      with k [of t] show ?thesis unfolding keeps_state_def by (simp only: if_True) blast
    next
      case False
      then show ?thesis unfolding keeps_state_def by (simp only: if_False simp_thms)
    qed
  next
    show "keys_ok d'" using run_okD(1) [OF ok] by (auto simp: keys_ok_def run sta same h ks)
  qed (simp_all add: run' sta' same option.map_ident keeps_pause_def fades_def)
qed

lemma pause_operator_ok:
  assumes ok: "run_ok owed d" and po: "pause_operator e tenant rid d = Inr (answer, d')"
  shows "run_ok owed d'"
proof (cases "d' = d")
  case False
  from po obtain run where own: "owned_run tenant rid d = Some run" by (auto simp: pause_operator_def split: option.splits)
  then have r: "run_at d rid = Some run" by (auto simp: owned_run_def lock_run_def split: option.splits if_splits)
  have id: "ru_id run = rid" by (rule at_id(1) [OF r])
  let ?P = "\<lambda>r. ru_id r = rid \<and> is_active_run_status (ru_status r)" and ?h = "\<lambda>r. r\<lparr>ru_status := RunPaused, ru_updated_at := re_now e\<rparr>"
  let ?Q = "\<lambda>x. rs_run_id x = rid \<and> rs_prev_status x = None"
  let ?k = "\<lambda>x. x\<lparr>rs_prev_status := Some (ru_status run), rs_prev_phase := Some (ru_phase run), rs_updated_at := re_now e\<rparr>"
  from po False own obtain s where ab: "active_batch_state rid d = Some s" and act: "is_active_run_status (ru_status run)"
    and d': "d' = snd (update_runs (re_now e) ?P ?h (update_states ?Q ?k d))"
    by (auto simp: pause_operator_def Let_def split: option.splits if_splits)
  have sig: "rd_signals d' = rd_signals d" unfolding d' by (subst update_runs_keep_signals) (simp_all add: effects)
  show ?thesis
  proof (rule operator_ok [OF ok ab r])
    show "rd_runs d' = update_where ?P ?h (rd_runs d)" "rd_states d' = update_where ?Q ?k (rd_states d)" by (simp_all add: d' effects)
    show "keeps_state ?k x" for x using act by (simp add: keeps_state_def)
  qed (use sig act active_not_terminal in \<open>simp_all add: d' effects\<close>)
qed (use ok in simp)

lemma resume_operator_ok:
  assumes ok: "run_ok owed d" and ro: "resume_operator e tenant rid d = Inr (answer, d')"
  shows "run_ok owed d'"
proof (cases "d' = d")
  case False
  from ro obtain run where own: "owned_run tenant rid d = Some run" by (auto simp: resume_operator_def split: option.splits)
  then have r: "run_at d rid = Some run" by (auto simp: owned_run_def lock_run_def split: option.splits if_splits)
  from ro False own obtain s where ab: "active_batch_state rid d = Some s" and st: "ru_status run = RunPaused"
    by (auto simp: resume_operator_def Let_def split: option.splits if_splits)
  then obtain aid b where s: "state_at d rid = Some s" by (auto simp: active_batch_state_def split: option.splits if_splits)
  let ?P = "\<lambda>r. ru_id r = rid \<and> ru_status r = RunPaused"
  let ?h = "\<lambda>r. r\<lparr>ru_status := or_default (rs_prev_status s) RunRunning, ru_phase := or_default (rs_prev_phase s) ProcessPhase, ru_updated_at := re_now e\<rparr>"
  let ?Q = "\<lambda>x. rs_run_id x = rid" and ?k = "\<lambda>x. x\<lparr>rs_prev_status := None, rs_prev_phase := None, rs_updated_at := re_now e\<rparr>"
  from ro False own ab st have d': "d' = wake_run_jobs e rid (update_states ?Q ?k (snd (update_runs (re_now e) ?P ?h d)))"
    by (auto simp: resume_operator_def Let_def split: option.splits if_splits)
  from states_okD [OF _ s] run_okD(2) [OF ok] have prev: "is_active_run_status q" if "rs_prev_status s = Some q" for q
    using that by (auto simp: steps_ok_def progressed_def)
  then have act: "is_active_run_status (or_default (rs_prev_status s) RunRunning)" by (cases "rs_prev_status s") (simp_all add: or_default_def)
  then have "\<not> discards_signals (or_default (rs_prev_status s) RunRunning)" by (cases "or_default (rs_prev_status s) RunRunning") auto
  then have sig: "rd_signals d' = rd_signals d"
    unfolding d' wake_run_jobs_def by (simp add: effects) (subst update_runs_keep_signals, simp_all)
  show ?thesis
  proof (rule operator_ok [OF ok ab r])
    show "rd_runs d' = update_where ?P ?h (rd_runs d)" "rd_states d' = update_where ?Q ?k (rd_states d)" by (simp_all add: d' wake_run_jobs_def effects)
    show "keeps_state ?k x" for x by (simp add: keeps_state_def)
  qed (use sig act st in \<open>simp_all add: d' wake_run_jobs_def effects\<close>)
qed (use ok in simp)

section \<open>Canceling\<close>

lemma update_where_comp:
  assumes "\<And>x. p x \<Longrightarrow> q (f x)" and "\<And>x. \<not> p x \<Longrightarrow> \<not> q x"
  shows "update_where q g (update_where p f xs) = update_where p (\<lambda>x. g (f x)) xs"
  using assms by (induction xs) auto

lemma update_where_again:
  assumes "\<And>x. x \<in> set xs \<Longrightarrow> q x \<Longrightarrow> p x" and "\<And>x. x \<in> set xs \<Longrightarrow> p x \<Longrightarrow> \<not> q (f x)"
  shows "update_where q g (update_where p f xs) = update_where p f xs"
  using assms by (induction xs) auto

lemma cancel_runs_rows:
  defines "discard now \<equiv> \<lambda>s. s\<lparr>sg_status := SignalDiscarded, sg_value := None, sg_resolved_at := Some now\<rparr>"
  shows "rd_runs (cancel_runs now reason ids d) = update_where (\<lambda>r. ru_id r \<in> ids)
      (\<lambda>r. r\<lparr>ru_cancel_requested_at := Some now, ru_cancel_reason := reason, ru_status := RunCanceled, ru_completed_at := Some now, ru_updated_at := now\<rparr>) (rd_runs d)"
    and "rd_states (cancel_runs now reason ids d) = rd_states d"
    and "rd_attempts (cancel_runs now reason ids d) = update_where (\<lambda>a. sa_run_id a \<in> ids \<and> live_step (sa_status a))
      (\<lambda>a. a\<lparr>sa_status := StepCanceled, sa_completed_at := Some now, sa_updated_at := now\<rparr>) (rd_attempts d)"
    and "rd_pauses (cancel_runs now reason ids d) = update_where (\<lambda>p. pz_run_id p \<in> ids \<and> pz_status p = PauseOpen) (cancel_pause now) (rd_pauses d)"
    and "rd_signals (cancel_runs now reason ids d) = update_where (\<lambda>s. (\<exists>r \<in> set (rd_runs d). ru_id r \<in> ids \<and> ru_id r = sg_run_id s) \<and>
      sg_status s = SignalBuffered) (discard now) (rd_signals d)"
    and "rd_sequence (cancel_runs now reason ids d) = rd_sequence d"
    and "rd_jobs (cancel_runs now reason ids d) = update_where (\<lambda>j. ej_workflow_run_id j \<in> ids \<and> live_job (ej_status j)) (canceled_now now) (rd_jobs d)"
    and "rd_invocations (cancel_runs now reason ids d) = filter (\<lambda>i. ai_run_id i \<notin> ids) (rd_invocations d)"
proof -
  show "rd_states (cancel_runs now reason ids d) = rd_states d"
    "rd_attempts (cancel_runs now reason ids d) = update_where (\<lambda>a. sa_run_id a \<in> ids \<and> live_step (sa_status a))
      (\<lambda>a. a\<lparr>sa_status := StepCanceled, sa_completed_at := Some now, sa_updated_at := now\<rparr>) (rd_attempts d)"
    "rd_pauses (cancel_runs now reason ids d) = update_where (\<lambda>p. pz_run_id p \<in> ids \<and> pz_status p = PauseOpen) (cancel_pause now) (rd_pauses d)"
    "rd_sequence (cancel_runs now reason ids d) = rd_sequence d"
    "rd_jobs (cancel_runs now reason ids d) = update_where (\<lambda>j. ej_workflow_run_id j \<in> ids \<and> live_job (ej_status j)) (canceled_now now) (rd_jobs d)"
    "rd_invocations (cancel_runs now reason ids d) = filter (\<lambda>i. ai_run_id i \<notin> ids) (rd_invocations d)"
    by (simp_all add: cancel_runs_def Let_def effects) (simp_all add: update_jobs_def update_pauses_def update_attempts_def delete_run_invocations_def effects)
  show "rd_runs (cancel_runs now reason ids d) = update_where (\<lambda>r. ru_id r \<in> ids)
      (\<lambda>r. r\<lparr>ru_cancel_requested_at := Some now, ru_cancel_reason := reason, ru_status := RunCanceled, ru_completed_at := Some now, ru_updated_at := now\<rparr>) (rd_runs d)"
    by (simp add: cancel_runs_def Let_def effects) (subst update_where_comp, simp_all)
  show "rd_signals (cancel_runs now reason ids d) = update_where (\<lambda>s. (\<exists>r \<in> set (rd_runs d). ru_id r \<in> ids \<and> ru_id r = sg_run_id s) \<and>
      sg_status s = SignalBuffered) (discard now) (rd_signals d)"
    unfolding cancel_runs_def Let_def update_runs_signals
    by (simp add: effects update_runs_signals discard_def) (rule update_where_again, auto simp: update_where_def split: if_splits)
qed

lemma cancel_runs_ok:
  assumes ok: "run_ok owed d" and open_runs: "\<And>r. r \<in> set (rd_runs d) \<Longrightarrow> ru_id r \<in> ids \<Longrightarrow> \<not> is_terminal_run_status (ru_status r)"
  shows "run_ok owed (cancel_runs now reason ids d)"
proof -
  note so = run_okD(2) [OF ok] and wo = run_okD(3) [OF ok]
  let ?d = "cancel_runs now reason ids d"
  let ?h0 = "\<lambda>r. r\<lparr>ru_cancel_requested_at := Some now, ru_cancel_reason := reason, ru_status := RunCanceled, ru_completed_at := Some now, ru_updated_at := now\<rparr>"
  let ?h = "\<lambda>r. if ru_id r \<in> ids then ?h0 r else r"
  let ?f = "\<lambda>a. a\<lparr>sa_status := StepCanceled, sa_completed_at := Some now, sa_updated_at := now\<rparr>"
  let ?g = "\<lambda>a. if sa_run_id a \<in> ids \<and> live_step (sa_status a) then ?f a else a"
  let ?q = "\<lambda>p. if pz_run_id p \<in> ids \<and> pz_status p = PauseOpen then cancel_pause now p else p"
  let ?z = "\<lambda>s. if (\<exists>r \<in> set (rd_runs d). ru_id r \<in> ids \<and> ru_id r = sg_run_id s) \<and> sg_status s = SignalBuffered
    then s\<lparr>sg_status := SignalDiscarded, sg_value := None, sg_resolved_at := Some now\<rparr> else s"
  note rows = cancel_runs_rows [of now reason ids d]
  have run': "run_at ?d x = map_option ?h (run_at d x)" and att': "attempt_at ?d x = map_option ?g (attempt_at d x)"
    and pau': "pause_at ?d x = map_option ?q (pause_at d x)" and sig': "signal_at ?d x = map_option ?z (signal_at d x)"
    and sta': "state_at ?d x = map_option (\<lambda>s. s) (state_at d x)" for x
    unfolding rows by (simp_all add: find_row_update_where option.map_ident)
  have open': "\<not> is_terminal_run_status (ru_status r)" if "run_at d x = Some r" "ru_id r \<in> ids" for x r
    using open_runs [of r] find_row_Some [OF that(1)] that(2) by simp
  have unended': "unended r \<Longrightarrow> unended (?h r)" for r :: run_row by (simp add: unended_def)
  show ?thesis
  proof (rule run_rewritten [OF ok att' run' sta' pau' sig'])
    fix x a assume a: "attempt_at d x = Some a"
    from attempts_okD [OF _ a] so have w: "sa_status a = StepWaiting \<longrightarrow> sa_executor a = ByBoundary" by (auto simp: steps_ok_def placed_def)
    then show "keeps_attempt ?g a \<and> keeps_wait ?g a"
      by (cases "sa_run_id a \<in> ids \<and> live_step (sa_status a)") (auto simp: keeps_attempt_def keeps_wait_def begun_def)
    assume g: "sa_status (?g a) = StepWaiting" and n: "x \<notin> owed"
    then have other: "sa_run_id a \<notin> ids" by (auto split: if_splits)
    have "awaited d x \<Longrightarrow> awaited ?d x"
    proof (rule awaited_rewritten [OF run' pau'])
      fix i r assume "run_at d i = Some r" "ru_parent_attempt_id r = Some x" "unended r"
      then show "ru_parent_attempt_id (?h r) = Some x \<and> unended (?h r)" using unended' [of r] by simp
    next
      fix i p assume p: "pause_at d i = Some p" "pz_status p = PauseOpen" "pz_attempt_id p = x"
      with pauses_okD [OF wo p(1,2)] a other show "pz_status (?q p) = PauseOpen \<and> pz_attempt_id (?q p) = x" by auto
    qed
    with n show "x \<notin> owed \<and> (awaited d x \<longrightarrow> awaited ?d x)" by blast
  next
    fix x r assume r: "run_at d x = Some r"
    from open' [OF r] never_canceling [OF wo r] show "keeps_run ?h r \<and> keeps_links ?h r" by (auto simp: keeps_run_def keeps_links_def)
  next
    fix x a r assume "live_step (sa_status (?g a))" and r: "run_at d (sa_run_id a) = Some r" "\<not> is_terminal_run_status (ru_status r)"
    then have "sa_run_id a \<notin> ids" by (auto split: if_splits)
    with r at_id(1) [OF r(1)] show "\<not> is_terminal_run_status (ru_status (?h r)) \<and>
        (sa_executor a = ByBoundary \<longrightarrow> is_active_run_status (ru_status r) \<longrightarrow> is_active_run_status (ru_status (?h r)))" by simp
  next
    fix x p a assume p: "pause_at d x = Some p" "pz_status (?q p) = PauseOpen" and a: "attempt_at d (pz_attempt_id p) = Some a" "sa_status a = StepWaiting"
    from p(2) have po: "pz_status p = PauseOpen" and "pz_run_id p \<notin> ids" by (auto split: if_splits)
    with pauses_okD [OF wo p(1) po] a show "sa_status (?g a) = StepWaiting" by simp
  next
    fix x s r assume s: "sg_status (?z s) = SignalBuffered" and r: "run_at d (sg_run_id s) = Some r" "\<not> is_terminal_run_status (ru_status r)"
    have "ru_id r \<notin> ids" using s find_row_Some [OF r(1)] by (auto split: if_splits)
    with r(2) show "\<not> is_terminal_run_status (ru_status (?h r))" by simp
  next
    show "keys_ok ?d" using run_okD(1) [OF ok] by (auto simp: keys_ok_def rows)
  qed (auto simp: rows keeps_pause_def fades_def keeps_state_def)
qed

end
