(* ===== verification/Run_Others.thy ===== *)
theory Run_Others
  imports Run_Endings
begin

text \<open>
  What the rest of the program writes to the tables of workflow runs beside the coordinator: a run is moved
  to another allocation or loses the one it had, an attempt is stamped, and whole trees of runs are
  deleted. All of it keeps the invariant of workflow runs.
\<close>

section \<open>Rows moved and stamped\<close>

text \<open>
  A run without what is rewritten of it wherever it stands: where it runs (node recovery moves every run of
  an allocation, ended ones too; a deleted allocation or session artifact leaves a null) and when it was
  last written.
\<close>

definition placement_free :: "run_row \<Rightarrow> run_row" where
  "placement_free r = r\<lparr>ru_allocation_id := None, ru_session_artifact_id := None, ru_updated_at := 0\<rparr>"

definition unstamped :: "step_attempt_row \<Rightarrow> step_attempt_row" where
  "unstamped a = a\<lparr>sa_updated_at := 0\<rparr>"

lemma placement_freeD:
  assumes "placement_free r' = placement_free r"
  shows "ru_id r' = ru_id r" "ru_project_id r' = ru_project_id r" "ru_workflow_name r' = ru_workflow_name r"
    "ru_status r' = ru_status r" "ru_phase r' = ru_phase r" "ru_input r' = ru_input r" "ru_result r' = ru_result r" "ru_error r' = ru_error r"
    "ru_parent_run_id r' = ru_parent_run_id r" "ru_parent_attempt_id r' = ru_parent_attempt_id r"
    "ru_correlation_key r' = ru_correlation_key r"
  using arg_cong [OF assms, of ru_id] arg_cong [OF assms, of ru_project_id] arg_cong [OF assms, of ru_workflow_name]
    arg_cong [OF assms, of ru_status] arg_cong [OF assms, of ru_phase] arg_cong [OF assms, of ru_input] arg_cong [OF assms, of ru_result]
    arg_cong [OF assms, of ru_error] arg_cong [OF assms, of ru_parent_run_id] arg_cong [OF assms, of ru_parent_attempt_id]
    arg_cong [OF assms, of ru_correlation_key]
  by (simp_all add: placement_free_def)

lemma unstampedD:
  assumes "unstamped a' = unstamped a"
  shows "sa_id a' = sa_id a" "sa_run_id a' = sa_run_id a" "sa_step_index a' = sa_step_index a" "sa_status a' = sa_status a"
    "sa_executor a' = sa_executor a" "sa_input a' = sa_input a" "sa_output a' = sa_output a"
  using arg_cong [OF assms, of sa_id] arg_cong [OF assms, of sa_run_id] arg_cong [OF assms, of sa_step_index] arg_cong [OF assms, of sa_status]
    arg_cong [OF assms, of sa_executor] arg_cong [OF assms, of sa_input] arg_cong [OF assms, of sa_output]
  by (simp_all add: unstamped_def)

definition beside :: "run_db \<Rightarrow> run_db \<Rightarrow> bool" where
  "beside d d' \<longleftrightarrow>
     map placement_free (rd_runs d') = map placement_free (rd_runs d) \<and> map unstamped (rd_attempts d') = map unstamped (rd_attempts d) \<and>
     rd_states d' = rd_states d \<and> rd_pauses d' = rd_pauses d \<and> rd_signals d' = rd_signals d \<and> rd_sequence d' = rd_sequence d \<and>
     rd_tenant_of d' = rd_tenant_of d"

lemma beside_same: "same_tables d d' \<Longrightarrow> rd_tenant_of d' = rd_tenant_of d \<Longrightarrow> beside d d'"
  by (simp add: beside_def same_tables_def)

lemma find_row_map_key:
  "(\<And>x. key (f x) = key x) \<Longrightarrow> find_row key k (map f xs) = map_option f (find_row key k xs)"
  by (induction xs) simp_all

lemma placement_key: "ru_id (placement_free r) = ru_id r" and unstamped_key: "sa_id (unstamped a) = sa_id a"
  by (simp_all add: placement_free_def unstamped_def)

lemma beside_run:
  assumes "beside d d'"
  shows "run_at d x = Some r \<Longrightarrow> \<exists>r'. run_at d' x = Some r' \<and> placement_free r' = placement_free r"
    "run_at d' x = Some r' \<Longrightarrow> \<exists>r. run_at d x = Some r \<and> placement_free r' = placement_free r"
proof -
  have "map_option placement_free (run_at d' x) = map_option placement_free (run_at d x)"
    using assms unfolding beside_def by (metis (no_types, lifting) find_row_map_key placement_key)
  then show "run_at d x = Some r \<Longrightarrow> \<exists>r'. run_at d' x = Some r' \<and> placement_free r' = placement_free r"
    "run_at d' x = Some r' \<Longrightarrow> \<exists>r. run_at d x = Some r \<and> placement_free r' = placement_free r"
    by (cases "run_at d' x"; cases "run_at d x"; simp)+
qed

lemma beside_attempt:
  assumes "beside d d'"
  shows "attempt_at d x = Some a \<Longrightarrow> \<exists>a'. attempt_at d' x = Some a' \<and> unstamped a' = unstamped a"
    "attempt_at d' x = Some a' \<Longrightarrow> \<exists>a. attempt_at d x = Some a \<and> unstamped a' = unstamped a"
proof -
  have "map_option unstamped (attempt_at d' x) = map_option unstamped (attempt_at d x)"
    using assms unfolding beside_def by (metis (no_types, lifting) find_row_map_key unstamped_key)
  then show "attempt_at d x = Some a \<Longrightarrow> \<exists>a'. attempt_at d' x = Some a' \<and> unstamped a' = unstamped a"
    "attempt_at d' x = Some a' \<Longrightarrow> \<exists>a. attempt_at d x = Some a \<and> unstamped a' = unstamped a"
    by (cases "attempt_at d' x"; cases "attempt_at d x"; simp)+
qed

lemma beside_others:
  "beside d d' \<Longrightarrow> rd_states d' = rd_states d \<and> rd_pauses d' = rd_pauses d \<and> rd_signals d' = rd_signals d \<and> rd_sequence d' = rd_sequence d \<and>
     rd_tenant_of d' = rd_tenant_of d"
  by (simp add: beside_def)

lemma beside_sym: "beside d d' \<Longrightarrow> beside d' d"
  by (simp add: beside_def)

lemma beside_completed:
  assumes b: "beside d d'" and c: "completed_at d rid i x"
  shows "\<exists>y. completed_at d' rid i y \<and> unstamped y = unstamped x"
proof -
  from c have "attempt_at d (sa_id x) = Some x" by (rule completed_id)
  from beside_attempt(1) [OF b this] obtain y where y: "attempt_at d' (sa_id x) = Some y" "unstamped y = unstamped x" by blast
  with c unstampedD [OF y(2)] have "completed_at d' rid i y" by (simp add: completed_at_def)
  with y(2) show ?thesis by blast
qed

lemma beside_steps:
  assumes b: "beside d d'" and ok: "steps_ok d"
  shows "steps_ok d'"
proof -
  have ao: "attempts_ok d" and so: "states_ok d" and oo: "once_ok d" using ok by (simp_all add: steps_ok_def)
  note rest = beside_others [OF b]
  have "attempts_ok d'"
    unfolding attempts_ok_def
  proof (intro allI impI)
    fix x a' assume a': "attempt_at d' x = Some a'"
    from beside_attempt(2) [OF b a'] obtain a where a: "attempt_at d x = Some a" "unstamped a' = unstamped a" by blast
    note fa = unstampedD [OF a(2)]
    from attempts_okD [OF ao a(1)] obtain s r where s: "state_at d (sa_run_id a) = Some s" "run_at d (sa_run_id a) = Some r"
      "placed a s r" "fed d r a" by blast
    from beside_run(1) [OF b s(2)] obtain r' where r': "run_at d' (sa_run_id a) = Some r'" "placement_free r' = placement_free r" by blast
    note fr = placement_freeD [OF r'(2)]
    have "placed a' s r'" using s(3) by (simp add: placed_def fa fr steps_done_def)
    moreover have "fed d' r' a'"
    proof (cases "sa_step_index a")
      case 0
      with s(4) show ?thesis by (simp add: fed_def fa fr)
    next
      case (Suc i)
      with s(4) obtain x where x: "completed_at d (sa_run_id a) i x" "sa_output x = Some (sa_input a)" by (auto simp: fed_def)
      from beside_completed [OF b x(1)] obtain y where y: "completed_at d' (sa_run_id a) i y" "unstamped y = unstamped x" by blast
      with x(2) unstampedD [OF y(2)] Suc show ?thesis by (auto simp: fed_def fa)
    qed
    ultimately show "\<exists>s r. state_at d' (sa_run_id a') = Some s \<and> run_at d' (sa_run_id a') = Some r \<and> placed a' s r \<and> fed d' r a'"
      using s(1) r'(1) rest by (simp add: fa)
  qed
  moreover have "states_ok d'"
    unfolding states_ok_def
  proof (intro conjI allI impI)
    fix x s assume "state_at d' x = Some s"
    with rest have s: "state_at d x = Some s" by simp
    from states_okD [OF so s] obtain r where r: "run_at d x = Some r" "progressed d x s r" by blast
    from beside_run(1) [OF b r(1)] obtain r' where r': "run_at d' x = Some r'" "placement_free r' = placement_free r" by blast
    note fr = placement_freeD [OF r'(2)]
    have "\<exists>y. completed_at d' x i y" if "i < steps_done s r" for i
      using r(2) that beside_completed [OF b] unfolding progressed_def by blast
    moreover have "\<exists>y. completed_at d' x (length (rs_plan s) - 1) y \<and> ru_result r = sa_output y" if "ru_status r = RunCompleted"
    proof -
      from r(2) that obtain z where z: "completed_at d x (length (rs_plan s) - 1) z" "ru_result r = sa_output z" by (auto simp: progressed_def)
      from beside_completed [OF b z(1)] obtain y where "completed_at d' x (length (rs_plan s) - 1) y" "unstamped y = unstamped z" by blast
      with z(2) unstampedD show ?thesis by metis
    qed
    ultimately have "progressed d' x s r'" using r(2) by (simp add: progressed_def fr steps_done_def)
    with r'(1) show "\<exists>r. run_at d' x = Some r \<and> progressed d' x s r" by blast
  next
    fix x r' assume "run_at d' x = Some r'"
    with beside_run(2) [OF b] obtain r where "run_at d x = Some r" by blast
    with so rest show "state_at d' x \<noteq> None" by (simp add: states_ok_def)
  qed
  moreover have "once_ok d'"
    unfolding once_ok_def
  proof (intro allI impI)
    fix rid i x y assume x: "completed_at d' rid i x" and y: "completed_at d' rid i y"
    from beside_completed [OF beside_sym [OF b] x] beside_completed [OF beside_sym [OF b] y] obtain u v where
      "completed_at d rid i u" "unstamped u = unstamped x" "completed_at d rid i v" "unstamped v = unstamped y" by blast
    with oo have "unstamped x = unstamped y" unfolding once_ok_def by metis
    then have "sa_id x = sa_id y" by (rule unstampedD)
    with completed_id [OF x] completed_id [OF y] show "x = y" by (metis option.inject)
  qed
  ultimately show ?thesis by (simp add: steps_ok_def)
qed

lemma beside_awaited: "beside d d' \<Longrightarrow> awaited d x \<Longrightarrow> awaited d' x"
proof -
  assume b: "beside d d'" and "awaited d x"
  then consider (pause) i p where "pause_at d i = Some p" "pz_status p = PauseOpen" "pz_attempt_id p = x"
    | (child) i r where "run_at d i = Some r" "ru_parent_attempt_id r = Some x" "unended r" by (auto simp: awaited_def)
  then show ?thesis
  proof cases
    case pause
    then show ?thesis using beside_others [OF b] by (auto simp: awaited_def)
  next
    case child
    from beside_run(1) [OF b child(1)] obtain r' where r': "run_at d' i = Some r'" "placement_free r' = placement_free r" by blast
    with child placement_freeD [OF r'(2)] have "ru_parent_attempt_id r' = Some x" "unended r'" by (simp_all add: unended_def)
    with r'(1) show ?thesis by (auto simp: awaited_def)
  qed
qed

lemma beside_waits:
  assumes b: "beside d d'" and ok: "waits_ok owed d"
  shows "waits_ok owed d'"
proof -
  define g where "g a = (case attempt_at d' (sa_id a) of None \<Rightarrow> a | Some a' \<Rightarrow> a')" for a
  define h where "h r = (case run_at d' (ru_id r) of None \<Rightarrow> r | Some r' \<Rightarrow> r')" for r
  have g: "attempt_at d' x = Some (g a) \<and> unstamped (g a) = unstamped a" if "attempt_at d x = Some a" for x a
    using beside_attempt(1) [OF b that] find_row_Some [OF that] by (auto simp: g_def)
  have h: "run_at d' x = Some (h r) \<and> placement_free (h r) = placement_free r" if "run_at d x = Some r" for x r
    using beside_run(1) [OF b that] find_row_Some [OF that] by (auto simp: h_def)
  have att: "attempt_at d' x = map_option g (attempt_at d x)" for x
  proof (cases "attempt_at d x")
    case None
    then show ?thesis using beside_attempt(2) [OF b, of x] by (cases "attempt_at d' x") auto
  qed (use g in simp)
  have run: "run_at d' x = map_option h (run_at d x)" for x
  proof (cases "run_at d x")
    case None
    then show ?thesis using beside_run(2) [OF b, of x] by (cases "run_at d' x") auto
  qed (use h in simp)
  note rest = beside_others [OF b]
  show ?thesis
  proof (rule waits_rewritten [OF ok att run, where q = "\<lambda>p. p" and z = "\<lambda>s. s"])
    fix x a assume a: "attempt_at d x = Some a"
    note fa = unstampedD [OF conjunct2 [OF g [OF a]]]
    show "keeps_wait g a" by (simp add: keeps_wait_def fa)
    show "x \<notin> owed \<Longrightarrow> x \<notin> owed \<and> (awaited d x \<longrightarrow> awaited d' x)" using beside_awaited [OF b] by blast
  next
    fix x r assume r: "run_at d x = Some r"
    note fr = placement_freeD [OF conjunct2 [OF h [OF r]]]
    show "keeps_links h r" using never_canceling [OF ok r] by (simp add: keeps_links_def fr)
  next
    fix x p a assume "attempt_at d (pz_attempt_id p) = Some a" "sa_status a = StepWaiting"
    with unstampedD(4) [OF conjunct2 [OF g]] show "sa_status (g a) = StepWaiting" by metis
  next
    fix x s r assume "run_at d (sg_run_id s) = Some r" "\<not> is_terminal_run_status (ru_status r)"
    with placement_freeD(4) [OF conjunct2 [OF h]] show "\<not> is_terminal_run_status (ru_status (h r))" by metis
  qed (use rest in \<open>simp_all add: option.map_ident keeps_pause_def keeps_signal_def\<close>)
qed

lemma map_key_eq: "map f xs = map f ys \<Longrightarrow> (\<And>x. key (f x) = key x) \<Longrightarrow> map key xs = map key ys"
proof -
  assume "map f xs = map f ys" and k: "\<And>x. key (f x) = key x"
  then have "map key (map f xs) = map key (map f ys)" by simp
  with k show ?thesis by (simp add: comp_def)
qed

lemma beside_ok:
  assumes "run_ok owed d" and b: "beside d d'"
  shows "run_ok owed d'"
proof -
  have "map ru_id (rd_runs d') = map ru_id (rd_runs d)" "map sa_id (rd_attempts d') = map sa_id (rd_attempts d)"
    using b unfolding beside_def by (metis map_key_eq placement_key, metis map_key_eq unstamped_key)
  then have "keys_ok d'" using run_okD(1) [OF assms(1)] beside_others [OF b] by (simp add: keys_ok_def unique_keys_def)
  moreover have "signals_ok d'"
    by (rule signals_same [OF run_okD(4) [OF assms(1)]]) (use beside_others [OF b] in simp_all)
  ultimately show ?thesis using beside_steps [OF b] beside_waits [OF b] run_okD [OF assms(1)] by (simp add: run_ok_def)
qed

section \<open>Trees deleted\<close>

text \<open>
  The rows of the runs of \<open>D\<close> are gone from every table, by the foreign keys that cascade; no child run is
  left without its parent, and none goes without it.
\<close>

definition forgets :: "ident set \<Rightarrow> run_db \<Rightarrow> run_db \<Rightarrow> bool" where
  "forgets D d d' \<longleftrightarrow>
     (\<forall>r \<in> set (rd_runs d). \<forall>p. ru_parent_run_id r = Some p \<longrightarrow> (ru_id r \<in> D \<longleftrightarrow> p \<in> D)) \<and>
     rd_runs d' = filter (\<lambda>r. ru_id r \<notin> D) (rd_runs d) \<and> rd_states d' = filter (\<lambda>s. rs_run_id s \<notin> D) (rd_states d) \<and>
     rd_attempts d' = filter (\<lambda>a. sa_run_id a \<notin> D) (rd_attempts d) \<and> rd_pauses d' = filter (\<lambda>p. pz_run_id p \<notin> D) (rd_pauses d) \<and>
     rd_signals d' = filter (\<lambda>s. sg_run_id s \<notin> D) (rd_signals d) \<and> rd_sequence d' = rd_sequence d \<and> rd_tenant_of d' = rd_tenant_of d"

lemma find_row_kept:
  "unique_keys key xs \<Longrightarrow> find_row key k (filter P xs) = Some r \<longleftrightarrow> find_row key k xs = Some r \<and> P r"
proof -
  assume u: "unique_keys key xs"
  then have v: "unique_keys key (filter P xs)" by (simp add: unique_keys_def distinct_map_filter)
  show ?thesis
    using find_row_unique [OF u, of r] find_row_unique [OF v, of r] find_row_Some [of key k "filter P xs" r] find_row_Some [of key k xs r] by auto
qed

lemma unique_keys_kept: "unique_keys key xs \<Longrightarrow> unique_keys key (filter P xs)"
  by (simp add: unique_keys_def distinct_map_filter)

lemma forgets_rows:
  assumes keys: "keys_ok d" and f: "forgets D d d'"
  shows forgets_run: "run_at d' x = Some r \<longleftrightarrow> run_at d x = Some r \<and> x \<notin> D"
    and forgets_state: "state_at d' x = Some s \<longleftrightarrow> state_at d x = Some s \<and> x \<notin> D"
    and forgets_attempt: "attempt_at d' x = Some a \<longleftrightarrow> attempt_at d x = Some a \<and> sa_run_id a \<notin> D"
    and forgets_pause: "pause_at d' x = Some p \<longleftrightarrow> pause_at d x = Some p \<and> pz_run_id p \<notin> D"
    and forgets_signal: "signal_at d' x = Some g \<longleftrightarrow> signal_at d x = Some g \<and> sg_run_id g \<notin> D"
  using keys f find_row_Some [of ru_id x "rd_runs d" r] find_row_Some [of rs_run_id x "rd_states d" s]
  by (auto simp: keys_ok_def forgets_def find_row_kept)

lemma forgets_completed:
  assumes "keys_ok d" and "forgets D d d'"
  shows "completed_at d' rid i b \<longleftrightarrow> completed_at d rid i b \<and> rid \<notin> D"
  using forgets_attempt [OF assms] by (auto simp: completed_at_def)

lemma forgets_steps:
  assumes keys: "keys_ok d" and f: "forgets D d d'" and ok: "steps_ok d"
  shows "steps_ok d'"
proof -
  have ao: "attempts_ok d" and so: "states_ok d" and oo: "once_ok d" using ok by (simp_all add: steps_ok_def)
  note rows = forgets_rows [OF keys f] forgets_completed [OF keys f]
  have "attempts_ok d'"
    unfolding attempts_ok_def
  proof (intro allI impI)
    fix x a assume "attempt_at d' x = Some a"
    then have a: "attempt_at d x = Some a" "sa_run_id a \<notin> D" by (simp_all add: rows)
    from attempts_okD [OF ao a(1)] obtain s r where s: "state_at d (sa_run_id a) = Some s" "run_at d (sa_run_id a) = Some r"
      "placed a s r" "fed d r a" by blast
    then have "fed d' r a" using a(2) by (auto simp: fed_def rows split: nat.splits)
    with s a(2) show "\<exists>s r. state_at d' (sa_run_id a) = Some s \<and> run_at d' (sa_run_id a) = Some r \<and> placed a s r \<and> fed d' r a"
      by (simp add: rows)
  qed
  moreover have "states_ok d'"
    unfolding states_ok_def
  proof (intro conjI allI impI)
    fix x s assume "state_at d' x = Some s"
    then have s: "state_at d x = Some s" "x \<notin> D" by (simp_all add: rows)
    from states_okD [OF so s(1)] obtain r where "run_at d x = Some r" "progressed d x s r" by blast
    with s(2) show "\<exists>r. run_at d' x = Some r \<and> progressed d' x s r" by (simp add: rows progressed_def)
  next
    fix x r assume "run_at d' x = Some r"
    then have r: "run_at d x = Some r" "x \<notin> D" by (simp_all add: rows)
    with so obtain s where "state_at d x = Some s" unfolding states_ok_def by blast
    with r(2) have "state_at d' x = Some s" by (simp add: rows)
    then show "state_at d' x \<noteq> None" by simp
  qed
  moreover have "once_ok d'" using oo unfolding once_ok_def rows by blast
  ultimately show ?thesis by (simp add: steps_ok_def)
qed

lemma forgets_waits:
  assumes keys: "keys_ok d" and f: "forgets D d d'" and ok: "waits_ok owed d"
  shows "waits_ok owed d'"
proof -
  note rows = forgets_rows [OF keys f]
  have closed: "x \<in> D \<longleftrightarrow> p \<in> D" if "run_at d x = Some r" "ru_parent_run_id r = Some p" for x r p
    using f find_row_Some [OF that(1)] that(2) unfolding forgets_def by blast
  have "pauses_ok d'"
    unfolding pauses_ok_def
  proof (intro conjI allI impI)
    fix x p assume p: "pause_at d' x = Some p" "pz_status p = PauseOpen"
    then have "pause_at d x = Some p" "pz_run_id p \<notin> D" by (simp_all add: rows)
    with pauses_okD [OF ok _ p(2)] show "\<exists>a. attempt_at d' (pz_attempt_id p) = Some a \<and> sa_run_id a = pz_run_id p \<and> sa_status a = StepWaiting"
      by (fastforce simp: rows)
  next
    fix i j p q assume "pause_at d' i = Some p" "pause_at d' j = Some q" "pz_run_id p = pz_run_id q" "pz_attempt_id p = pz_attempt_id q"
    then show "i = j" using one_pause [OF ok] by (simp add: rows)
  qed
  moreover have "inbox_ok d'"
    unfolding inbox_ok_def
  proof (intro conjI allI impI)
    fix i p x s assume "pause_at d' i = Some p" "pz_status p = PauseOpen" "signal_at d' x = Some s" "sg_status s = SignalBuffered"
      "sg_run_id s = pz_run_id p"
    then show "pz_signal_name p \<noteq> Some (sg_name s)" using no_open_pause [OF ok, of x s i p] by (simp add: rows)
  next
    fix x s assume "signal_at d' x = Some s" "sg_status s = SignalBuffered"
    then show "\<exists>r. run_at d' (sg_run_id s) = Some r \<and> \<not> is_terminal_run_status (ru_status r)" using signal_run [OF ok, of x s] by (simp add: rows)
  qed
  moreover have "children_ok d'"
    unfolding children_ok_def
  proof (intro allI impI conjI)
    fix x r assume "run_at d' x = Some r"
    then have r: "run_at d x = Some r" "x \<notin> D" by (simp_all add: rows)
    show "ru_status r \<noteq> RunCanceling" by (rule never_canceling [OF ok r(1)])
    fix aid assume aid: "ru_parent_attempt_id r = Some aid"
    from parent_attempt [OF ok r(1) aid] obtain a where a: "attempt_at d aid = Some a" "ru_parent_run_id r = Some (sa_run_id a)" "begun (sa_status a)"
      by blast
    with closed [OF r(1) a(2)] r(2) show "\<exists>a. attempt_at d' aid = Some a \<and> ru_parent_run_id r = Some (sa_run_id a) \<and> begun (sa_status a)"
      by (simp add: rows)
    fix i p assume "pause_at d' i = Some p" "pz_status p = PauseOpen"
    then show "pz_attempt_id p \<noteq> aid" using no_pause_beside [OF ok r(1) aid, of i p] by (simp add: rows)
  qed
  moreover have "waiting_ok owed d'"
    unfolding waiting_ok_def
  proof (intro allI impI)
    fix x a assume "attempt_at d' x = Some a" and w: "sa_status a = StepWaiting" "x \<notin> owed"
    then have a: "attempt_at d x = Some a" "sa_run_id a \<notin> D" by (simp_all add: rows)
    from waiting_okD [OF ok a(1) w] consider
        (pause) i p where "pause_at d i = Some p" "pz_status p = PauseOpen" "pz_attempt_id p = x"
      | (child) i r where "run_at d i = Some r" "ru_parent_attempt_id r = Some x" "unended r" by (auto simp: awaited_def)
    then show "awaited d' x"
    proof cases
      case pause
      with pauses_okD [OF ok pause(1,2)] a have "pz_run_id p \<notin> D" by auto
      with pause have "pause_at d' i = Some p" by (simp add: rows)
      with pause show ?thesis by (auto simp: awaited_def)
    next
      case child
      from parent_attempt [OF ok child(1,2)] a have "ru_parent_run_id r = Some (sa_run_id a)" by auto
      with closed [OF child(1)] a(2) child(1) have "run_at d' i = Some r" by (simp add: rows)
      with child show ?thesis by (auto simp: awaited_def)
    qed
  qed
  ultimately show ?thesis by (simp add: waits_ok_def)
qed

lemma forgets_signals:
  assumes keys: "keys_ok d" and f: "forgets D d d'" and ok: "signals_ok d"
  shows "signals_ok d'"
proof -
  note rows = forgets_rows [OF keys f]
  have tk: "taken_ok d" and oo: "order_ok d" using ok by (simp_all add: signals_ok_def)
  have seq: "rd_sequence d' = rd_sequence d" using f by (simp add: forgets_def)
  have "taken_ok d'"
    unfolding taken_ok_def
  proof (intro conjI allI impI)
    fix x s assume "signal_at d' x = Some s" and c: "sg_status s = SignalResumed \<or> sg_pause_id s \<noteq> None"
    then have s: "signal_at d x = Some s" "sg_run_id s \<notin> D" by (simp_all add: rows)
    with tk c obtain p where "pause_at d (pz_id p) = Some p" "took d s p" unfolding taken_ok_def by blast
    with s(2) show "\<exists>p. pause_at d' (pz_id p) = Some p \<and> took d' s p" by (auto simp: rows took_def)
  next
    fix i j s t pid assume "signal_at d' i = Some s" "signal_at d' j = Some t" "sg_pause_id s = Some pid" "sg_pause_id t = Some pid"
    with tk show "i = j" unfolding taken_ok_def by (simp add: rows)
  qed
  moreover have "order_ok d'" using oo unfolding order_ok_def rows seq by blast
  ultimately show ?thesis by (simp add: signals_ok_def)
qed

lemma forgets_ok:
  assumes "run_ok owed d" and f: "forgets D d d'"
  shows "run_ok owed d'"
proof -
  note ok = run_okD [OF assms(1)]
  have "keys_ok d'" using ok(1) f by (simp add: keys_ok_def forgets_def unique_keys_kept)
  with forgets_steps [OF ok(1) f ok(2)] forgets_waits [OF ok(1) f ok(3)] forgets_signals [OF ok(1) f ok(4)] show ?thesis
    by (simp add: run_ok_def)
qed

end
