(* ===== verification/Run_Calls.thy ===== *)
theory Run_Calls
  imports Run_Others
begin

text \<open>
  The calls on the coordinator of workflow runs as one step, what a caller owes it, and the states that
  calls lead to: they all keep the invariant.
\<close>

section \<open>Trees and exhausted jobs\<close>

lemma chain_weaken: "chain_ok e owed (d, t) \<Longrightarrow> finish_told c e (d, t) = Inr d' \<Longrightarrow> run_ok owed d' \<and> fresh_attempts e d'"
  by (rule finish_told_ok)

lemma end_run_ok:
  assumes ok: "run_ok owed d" and fr: "fresh_attempts e d" and er: "end_run (re_now e) rid err x statuses d = (d', t)"
    and open_st: "\<And>s. s \<in> set statuses \<Longrightarrow> \<not> is_terminal_run_status s"
    and rest: "\<And>r. run_at d rid = Some r \<Longrightarrow> ru_status r \<notin> set statuses \<Longrightarrow> is_terminal_run_status (ru_status r)"
  shows "chain_ok e owed (d', t)"
proof (cases "\<exists>r. run_at d rid = Some r \<and> ru_status r \<in> set statuses")
  case True
  then obtain r where r: "run_at d rid = Some r" "ru_status r \<in> set statuses" by blast
  from run_ended [OF ok r open_st er] obtain r' where t: "t = Some (rid, put_error err)"
    and ok': "run_ok ((owed - attempts_of rid d) \<union> parent_owed r) d'"
    and r': "run_at d' rid = Some r'" "ru_parent_attempt_id r' = ru_parent_attempt_id r" by auto
  have "told_owed d' t = parent_owed r" by (simp add: told_owed_def t r' parent_owed_def)
  moreover have "run_ok (owed \<union> parent_owed r) d'" by (rule run_weaken [OF ok']) auto
  moreover have "fresh_attempts e d'"
    by (rule fresh_update [OF fr, where f = "failed_attempt err (re_now e)" and p = "\<lambda>a. sa_run_id a = rid \<and> live_step (sa_status a)"])
      (use end_run_effect [OF er r] in \<open>simp_all add: effects failed_attempt_def\<close>)
  ultimately show ?thesis by (simp add: chain_ok_def)
next
  case False
  note so = run_okD(2) [OF ok]
  have uk: "unique_keys ru_id (rd_runs d)" "unique_keys sa_id (rd_attempts d)" using run_okD(1) [OF ok] by (simp_all add: keys_ok_def)
  have "t = None \<and> d' = cleanup_run_scope (re_now e) rid err x d"
    by (rule end_run_missed [OF er]) (use False find_row_unique [OF uk(1)] in blast)
  then have t: "t = None" and d': "d' = cleanup_run_scope (re_now e) rid err x d" by simp_all
  have ended: "\<not> live_step (sa_status a)" if a: "attempt_at d y = Some a" "sa_run_id a = rid" for y a
  proof
    assume "live_step (sa_status a)"
    with attempts_okD [OF _ a(1)] so a(2) obtain r where "run_at d rid = Some r" "\<not> is_terminal_run_status (ru_status r)"
      by (auto simp: steps_ok_def placed_def)
    with False rest show False by blast
  qed
  have none: "live_attempts rid d = []"
  proof -
    have "\<not> (sa_run_id a = rid \<and> live_step (sa_status a))" if "a \<in> set (rd_attempts d)" for a
      using ended [OF find_row_unique [OF uk(2) that]] by blast
    then show ?thesis by (auto simp: live_attempts_def filter_empty_conv)
  qed
  let ?k = "\<lambda>s. s\<lparr>rs_prev_status := None, rs_prev_phase := None, rs_updated_at := re_now e\<rparr>"
  have atts: "rd_attempts d' = rd_attempts d"
    unfolding d' cleanup_run_scope_effect
  proof (rule update_where_none)
    fix a assume "a \<in> set (rd_attempts d)"
    with ended [OF find_row_unique [OF uk(2) this]] show "\<not> (sa_run_id a = rid \<and> live_step (sa_status a))" by blast
  qed
  have pauses: "rd_pauses d' = rd_pauses d" by (simp add: d' cleanup_run_scope_effect none)
  have others: "rd_runs d' = rd_runs d" "rd_signals d' = rd_signals d" "rd_sequence d' = rd_sequence d"
    "rd_states d' = update_where (\<lambda>s. rs_run_id s = rid) ?k (rd_states d)" by (simp_all add: d' cleanup_run_scope_effect)
  have "steps_ok d'"
  proof (rule steps_rewritten [OF so, where g = "\<lambda>a. a" and h = "\<lambda>r. r" and k = "\<lambda>s. if rs_run_id s = rid then ?k s else s"])
    fix y a assume "attempt_at d y = Some a"
    from attempts_okD [OF _ this] so show "keeps_attempt (\<lambda>a. a) a" by (auto simp: steps_ok_def placed_def keeps_attempt_def)
  qed (auto simp: atts others option.map_ident find_row_update_where keeps_run_def keeps_state_def)
  moreover have "waits_ok owed d'"
    using run_okD(3) [OF ok] unfolding waits_ok_def pauses_ok_def inbox_ok_def children_ok_def waiting_ok_def awaited_def atts pauses others .
  moreover have "signals_ok d'" by (rule signals_same [OF run_okD(4) [OF ok] pauses others(2,3)])
  moreover have "keys_ok d'" using run_okD(1) [OF ok] by (auto simp: keys_ok_def atts pauses others)
  moreover have "fresh_attempts e d'" by (rule fresh_frame [OF fr atts])
  ultimately show ?thesis by (simp add: chain_ok_def run_ok_def t told_owed_def)
qed

lemma open_statuses:
  "s \<in> set ACTIVE_RUN_STATUSES \<Longrightarrow> \<not> is_terminal_run_status s"
  "s \<in> set (ACTIVE_RUN_STATUSES @ [RunPaused]) \<Longrightarrow> \<not> is_terminal_run_status s"
  "s \<notin> set (ACTIVE_RUN_STATUSES @ [RunPaused]) \<Longrightarrow> s \<noteq> RunCanceling \<Longrightarrow> is_terminal_run_status s"
  by (cases s; auto simp: ACTIVE_RUN_STATUSES_def)+

lemma fail_run_ok:
  assumes "run_ok owed d" and "fresh_attempts e d" and "fail_run c e rid err x statuses d = Inr d'"
    and "\<And>s. s \<in> set statuses \<Longrightarrow> \<not> is_terminal_run_status s"
    and "\<And>r. run_at d rid = Some r \<Longrightarrow> ru_status r \<notin> set statuses \<Longrightarrow> is_terminal_run_status (ru_status r)"
  shows "run_ok owed d' \<and> fresh_attempts e d'"
proof -
  obtain d1 t where er: "end_run (re_now e) rid err x statuses d = (d1, t)" by (cases "end_run (re_now e) rid err x statuses d")
  from end_run_ok [OF assms(1,2) er assms(4,5)] have "chain_ok e owed (d1, t)" by blast
  from finish_told_ok [OF this] assms(3) er show ?thesis by (simp add: fail_run_def)
qed

lemma fail_run_tree_ok:
  assumes ok: "run_ok owed d" and fr: "fresh_attempts e d" and ft: "fail_run_tree c e rid err d = Inr d'"
  shows "run_ok owed d'"
proof -
  let ?P = "\<lambda>m. \<forall>x. m = Inr x \<longrightarrow> run_ok owed x \<and> fresh_attempts e x"
  have step: "?P (fail_each c e err r m)" if "?P m" for r m
  proof (cases "ru_status r \<in> set (ACTIVE_RUN_STATUSES @ [RunPaused])")
    case True
    show ?thesis
    proof (intro allI impI)
      fix x assume "fail_each c e err r m = Inr x"
      with True obtain y where y: "m = Inr y" "fail_run c e (ru_id r) err None (ACTIVE_RUN_STATUSES @ [RunPaused]) y = Inr x"
        unfolding fail_each_def by (auto simp only: if_True bind_run_Inr)
      from that y(1) have "run_ok owed y" "fresh_attempts e y" by simp_all
      from fail_run_ok [OF this y(2) open_statuses(2)] never_canceling [OF run_okD(3) [OF this(1)]] open_statuses(3)
      show "run_ok owed x \<and> fresh_attempts e x" by blast
    qed
  next
    case False
    with that show ?thesis unfolding fail_each_def by simp
  qed
  have "?P (fold (fail_each c e err) rs m)" if "?P m" for rs m
    using that
  proof (induction rs arbitrary: m)
    case (Cons r rs)
    show ?case unfolding fold_Cons comp_apply by (rule Cons.IH) (rule step [OF Cons.prems])
  qed (simp only: fold_Nil id_apply)
  from this [of "Inr d"] ok fr ft show ?thesis
    by (auto simp: fail_run_tree_def split: option.splits)
qed

lemma reconcile_parent_ok:
  assumes ok: "run_ok owed d" and fr: "fresh_attempts e d" and rp: "reconcile_parent c e child d = Inr d'"
  shows "run_ok owed d'"
proof (cases "d' = d")
  case False
  with rp obtain r where fp: "finish_parent c e child (ended_with r) d = Inr d'"
    by (auto simp: reconcile_parent_def split: option.splits if_splits)
  have "chain_ok e owed (d, Some (child, ended_with r))" using run_weaken [OF ok] fr by (simp add: chain_ok_def)
  from finish_parent_ok [OF fp this] show ?thesis by blast
qed (use ok in simp)

lemma handle_exhausted_job_ok:
  assumes ok: "run_ok owed d" and fr: "fresh_attempts e d" and he: "handle_exhausted_job c e job err d = Inr d'"
  shows "run_ok owed d'"
proof (cases "xj_workflow_step_attempt_id job")
  case (Some aid)
  with he show ?thesis by (auto simp: handle_exhausted_job_def intro: fail_step_ok [OF ok fr])
next
  case None
  show ?thesis
  proof (cases "lock_run (xj_workflow_run_id job) d")
    case no: None
    with None he ok show ?thesis by (simp add: handle_exhausted_job_def Let_def)
  next
    case (Some r)
    then have r: "run_at d (xj_workflow_run_id job) = Some r" by (simp add: lock_run_def)
    show ?thesis
    proof (cases "is_terminal_run_status (ru_status r) \<or> \<not> is_active_run_status (ru_status r)")
      case True
      with None Some he ok show ?thesis
        by (auto simp: handle_exhausted_job_def Let_def split: if_splits intro: reconcile_parent_ok [OF ok fr])
    next
      case False
      with None Some he have "fail_run c e (xj_workflow_run_id job) err None ACTIVE_RUN_STATUSES d = Inr d'"
        by (simp add: handle_exhausted_job_def Let_def)
      moreover have "ru_status r \<in> set ACTIVE_RUN_STATUSES" using False by (simp add: is_active_run_status_def)
      ultimately show ?thesis using fail_run_ok [OF ok fr _ open_statuses(1)] r by fastforce
    qed
  qed
qed

section \<open>Canceling\<close>

lemma run_hierarchy_rows:
  "set runs \<subseteq> set rows \<Longrightarrow> set (run_hierarchy rows i runs) \<subseteq> set rows"
proof (induction rows i runs rule: run_hierarchy.induct)
  case (1 rows i runs)
  have "set (fold add_run rs xs) \<subseteq> set rows" if "set rs \<subseteq> set rows" "set xs \<subseteq> set rows" for rs xs
    using that by (induction rs arbitrary: xs) (simp_all add: add_run_def)
  with 1 children_of_subset show ?case by (subst run_hierarchy.simps) simp
qed

lemma hierarchy_rows: "run_at d rid = Some r \<Longrightarrow> set (lock_run_hierarchy r d) \<subseteq> set (rd_runs d)"
  unfolding lock_run_hierarchy_def by (rule run_hierarchy_rows) (auto dest: find_row_Some)

lemma fold_release: "same_tables d (fold (release_root now) rs d)"
proof (induction rs arbitrary: d)
  case (Cons r rs)
  from Cons [of "release_root now r d"] show ?case by (simp add: same_tables_def effects)
qed (simp add: same_tables_def)

lemma cancel_in_ok:
  assumes ok: "run_ok owed d" and ci: "cancel_in e tenant rid reason d = Inr (x, d')"
  shows "run_ok owed d'"
proof (cases "d' = d")
  case False
  from ci obtain topmost where own: "owned_run tenant rid d = Some topmost" by (auto simp: cancel_in_def split: option.splits)
  then have r: "run_at d rid = Some topmost" by (auto simp: owned_run_def lock_run_def split: option.splits if_splits)
  define active where "active = filter (\<lambda>r. \<not> is_terminal_run_status (ru_status r)) (lock_run_hierarchy topmost d)"
  from ci own False have d': "d' = fold (release_root (re_now e)) active (cancel_runs (re_now e) reason (ru_id ` set active) d)"
    by (auto simp: cancel_in_def Let_def active_def [symmetric] split: if_splits)
  have uk: "unique_keys ru_id (rd_runs d)" using run_okD(1) [OF ok] by (simp add: keys_ok_def)
  have "run_ok owed (cancel_runs (re_now e) reason (ru_id ` set active) d)"
  proof (rule cancel_runs_ok [OF ok])
    fix q assume q: "q \<in> set (rd_runs d)" "ru_id q \<in> ru_id ` set active"
    then obtain a where a: "a \<in> set active" "ru_id q = ru_id a" by auto
    with hierarchy_rows [OF r] have "a \<in> set (rd_runs d)" by (auto simp: active_def)
    from find_row_unique [OF uk this] find_row_unique [OF uk q(1), unfolded a(2)] have "a = q" by simp
    with a(1) show "\<not> is_terminal_run_status (ru_status q)" by (simp add: active_def)
  qed
  with run_ok_same fold_release show ?thesis unfolding d' by blast
qed (use ok in simp)

section \<open>Invocations\<close>

lemma register_same: "register_invocation e job iid d = (b, d') \<Longrightarrow> same_tables d d'"
  by (auto simp: register_invocation_def same_tables_def Let_def split: option.splits if_splits)

lemma unregister_same: "unregister_invocation e job iid d = (b, d') \<Longrightarrow> same_tables d d'"
  by (auto simp: unregister_invocation_def same_tables_def Let_def effects split: option.splits if_splits)

section \<open>One call\<close>

text \<open>
  A transaction on the tables, of those the coordinator offers; the one that \<open>cancel\<close> tells the parent in
  is \<open>ReconcileParent\<close>. One that throws is rolled back.
\<close>

datatype run_call =
    StartRun ident new_run
  | BeginAttempt execution_job run_phase
  | SetPhase ident ident "run_status option" run_phase
  | CompleteStep ident json "execution_job option"
  | FailStep ident string "execution_job option" bool
  | SuspendForPause ident execution_job json_object
  | SuspendForChild ident execution_job child_request "json option"
  | SignalByKey signal_env signal_request
  | ResumePause ident ident ident string json
  | ResolvePauseTimeout execution_job
  | ReconcileTerminalChild execution_job
  | ReconcileParent ident
  | PauseOperator ident ident
  | ResumeOperator ident ident
  | CancelIn ident ident "string option"
  | FailRunTree ident string
  | HandleExhaustedJob execution_job string
  | RegisterInvocation execution_job ident
  | UnregisterInvocation execution_job ident

definition left_db :: "run_error + 'a \<times> run_db \<Rightarrow> run_error + run_db" where
  "left_db m = (case m of Inl err \<Rightarrow> Inl err | Inr (_, d) \<Rightarrow> Inr d)"

lemma left_db_Inr [simp]: "left_db m = Inr d \<longleftrightarrow> (\<exists>x. m = Inr (x, d))"
  by (auto simp: left_db_def split: sum.splits)

fun call_run :: "coordinator \<Rightarrow> run_env \<Rightarrow> run_call \<Rightarrow> run_db \<Rightarrow> run_error + run_db" where
  "call_run c e (StartRun tenant q) d = start_run c e tenant q d"
| "call_run c e (BeginAttempt job phase) d = Inr (snd (begin_attempt e job phase d))"
| "call_run c e (SetPhase rid aid status phase) d = Inr (set_phase e rid aid status phase d)"
| "call_run c e (CompleteStep aid v job) d = complete_step c e aid v job d"
| "call_run c e (FailStep aid err job allow) d = fail_step c e aid err job allow d"
| "call_run c e (SuspendForPause aid job transition) d = suspend_for_pause c e aid job transition d"
| "call_run c e (SuspendForChild aid job q state) d = left_db (suspend_for_child c e aid job q state d)"
| "call_run c e (SignalByKey se q) d = left_db (signal_by_key c se e q d)"
| "call_run c e (ResumePause tenant rid pid key v) d = resume_pause c e tenant rid pid key v d"
| "call_run c e (ResolvePauseTimeout job) d = resolve_pause_timeout c e job d"
| "call_run c e (ReconcileTerminalChild job) d = reconcile_terminal_child c e job d"
| "call_run c e (ReconcileParent child) d = reconcile_parent c e child d"
| "call_run c e (PauseOperator tenant rid) d = left_db (pause_operator e tenant rid d)"
| "call_run c e (ResumeOperator tenant rid) d = left_db (resume_operator e tenant rid d)"
| "call_run c e (CancelIn tenant rid reason) d = left_db (cancel_in e tenant rid reason d)"
| "call_run c e (FailRunTree rid err) d = fail_run_tree c e rid err d"
| "call_run c e (HandleExhaustedJob job err) d = handle_exhausted_job c e job err d"
| "call_run c e (RegisterInvocation job iid) d = Inr (snd (register_invocation e job iid d))"
| "call_run c e (UnregisterInvocation job iid) d = Inr (snd (unregister_invocation e job iid d))"

text \<open>
  What a caller owes: ids that are new, a plan whose steps carry their places, a batch phase set with an
  active status, a step completed by who ran it and not while it waits, and only a boundary step
  suspended. \<open>boundary-execution-handler.ts\<close> and \<open>batch-execution-handler.ts\<close> are such callers: a job handed out again while its attempt waits is turned away by \<open>begin_attempt\<close>.
\<close>

fun conforms :: "run_call \<Rightarrow> run_db \<Rightarrow> bool" where
  "conforms (StartRun tenant q) d \<longleftrightarrow> plan_indexed (nr_plan q)"
| "conforms (SetPhase rid aid status phase) d \<longleftrightarrow> (\<forall>s. status = Some s \<longrightarrow> is_active_run_status s)"
| "conforms (CompleteStep aid v job) d \<longleftrightarrow> (\<forall>a. attempt_at d aid = Some a \<longrightarrow> sa_status a \<noteq> StepWaiting)"
| "conforms (SuspendForPause aid job transition) d \<longleftrightarrow> (\<forall>a. attempt_at d aid = Some a \<longrightarrow> sa_executor a = ByBoundary)"
| "conforms (SuspendForChild aid job q state) d \<longleftrightarrow>
     (\<forall>a. attempt_at d aid = Some a \<longrightarrow> sa_executor a = ByBoundary) \<and> plan_indexed (cr_plan q)"
| "conforms _ d \<longleftrightarrow> True"

lemma call_run_ok:
  assumes ok: "run_ok owed d" and fr: "fresh_ids e d" and cf: "conforms call d" and cr: "call_run c e call d = Inr d'"
  shows "run_ok owed d'"
proof -
  have fa: "fresh_attempts e d" using fr by (simp add: fresh_ids_def)
  show ?thesis
  proof (cases call)
    case (BeginAttempt job phase)
    with cr begin_attempt_ok [OF ok] show ?thesis by (cases "begin_attempt e job phase d") auto
  next
    case (RegisterInvocation job iid)
    with cr run_ok_same [OF ok register_same] show ?thesis by (cases "register_invocation e job iid d") auto
  next
    case (UnregisterInvocation job iid)
    with cr run_ok_same [OF ok unregister_same] show ?thesis by (cases "unregister_invocation e job iid d") auto
  next
    case (ReconcileTerminalChild job)
    with cr ok reconcile_parent_ok [OF ok fa] show ?thesis by (auto simp: reconcile_terminal_child_def split: if_splits)
  next
    case (StartRun tenant q) with cr cf start_run_ok [OF ok fa] show ?thesis by auto
  next
    case (SetPhase rid aid status phase) with cr cf set_phase_ok [OF ok] show ?thesis by auto
  next
    case (CompleteStep aid v job) with cr cf complete_step_ok [OF ok fa] show ?thesis by auto
  next
    case (FailStep aid err job allow) with cr fail_step_ok [OF ok fa] show ?thesis by auto
  next
    case (SuspendForPause aid job transition) with cr cf suspend_for_pause_ok [OF ok fr] show ?thesis by auto
  next
    case (SuspendForChild aid job q state) with cr cf suspend_for_child_ok [OF ok fr] show ?thesis by auto
  next
    case (SignalByKey se q) with cr signal_by_key_ok [OF ok fr] show ?thesis by auto
  next
    case (ResumePause tenant rid pid key v) with cr resume_pause_ok [OF ok fa] show ?thesis by auto
  next
    case (ResolvePauseTimeout job) with cr resolve_pause_timeout_ok [OF ok fa] show ?thesis by auto
  next
    case (ReconcileParent child) with cr reconcile_parent_ok [OF ok fa] show ?thesis by auto
  next
    case (PauseOperator tenant rid) with cr pause_operator_ok [OF ok] show ?thesis by auto
  next
    case (ResumeOperator tenant rid) with cr resume_operator_ok [OF ok] show ?thesis by auto
  next
    case (CancelIn tenant rid reason) with cr cancel_in_ok [OF ok] show ?thesis by auto
  next
    case (FailRunTree rid err) with cr fail_run_tree_ok [OF ok fa] show ?thesis by auto
  next
    case (HandleExhaustedJob job err) with cr handle_exhausted_job_ok [OF ok fa] show ?thesis by auto
  qed
qed

section \<open>The states calls lead to\<close>

definition no_runs :: "run_db \<Rightarrow> bool" where
  "no_runs d \<longleftrightarrow> rd_runs d = [] \<and> rd_states d = [] \<and> rd_attempts d = [] \<and> rd_pauses d = [] \<and> rd_signals d = []"

text \<open>
  What others do in between: workers take jobs and allocations end, runs are moved and attempts stamped
  (\<open>beside\<close>), and whole trees are deleted (\<open>forgets\<close>), by retention or with their project.
\<close>

inductive run_reach :: "coordinator \<Rightarrow> run_db \<Rightarrow> bool" for c where
  begin_runs: "no_runs d \<Longrightarrow> run_reach c d"
| call_runs: "run_reach c d \<Longrightarrow> fresh_ids e d \<Longrightarrow> conforms call d \<Longrightarrow> call_run c e call d = Inr d' \<Longrightarrow> run_reach c d'"
| beside_runs: "run_reach c d \<Longrightarrow> beside d d' \<Longrightarrow> run_reach c d'"
| forget_runs: "run_reach c d \<Longrightarrow> forgets D d d' \<Longrightarrow> run_reach c d'"

lemma no_runs_ok: "no_runs d \<Longrightarrow> run_ok owed d"
  by (simp add: no_runs_def run_ok_def keys_ok_def steps_ok_def attempts_ok_def states_ok_def once_ok_def completed_at_def waits_ok_def
      pauses_ok_def inbox_ok_def children_ok_def waiting_ok_def signals_ok_def taken_ok_def order_ok_def unique_keys_def)

lemma run_reach_ok: "run_reach c d \<Longrightarrow> run_ok {} d"
proof (induction rule: run_reach.induct)
  case (begin_runs d) then show ?case by (rule no_runs_ok)
next
  case (call_runs d e call d') then show ?case by (blast intro: call_run_ok)
next
  case (beside_runs d d') then show ?case by (blast intro: beside_ok)
next
  case (forget_runs d D d') then show ?case by (blast intro: forgets_ok)
qed

end
