(* ===== verification/Run_Kept.thy ===== *)
theory Run_Kept
  imports Run_Calls
begin

text \<open>
  What no call on the coordinator of workflow runs takes back: who a run is and whose child, how it
  ended, and who a signal is.
\<close>

section \<open>Rows that are kept\<close>

definition run_kept :: "(run_row \<Rightarrow> run_row) \<Rightarrow> run_row \<Rightarrow> bool" where
  "run_kept F r \<longleftrightarrow>
     ru_id (F r) = ru_id r \<and> ru_project_id (F r) = ru_project_id r \<and> ru_workflow_name (F r) = ru_workflow_name r \<and>
     ru_correlation_key (F r) = ru_correlation_key r \<and> ru_parent_run_id (F r) = ru_parent_run_id r \<and>
     ru_parent_attempt_id (F r) = ru_parent_attempt_id r \<and> (is_terminal_run_status (ru_status r) \<longrightarrow> F r = r)"

definition signal_kept :: "(signal_row \<Rightarrow> signal_row) \<Rightarrow> signal_row \<Rightarrow> bool" where
  "signal_kept Z s \<longleftrightarrow>
     sg_id (Z s) = sg_id s \<and> sg_run_id (Z s) = sg_run_id s \<and> sg_name (Z s) = sg_name s \<and> sg_key (Z s) = sg_key s \<and>
     sg_hash (Z s) = sg_hash s \<and> (sg_status s \<noteq> SignalBuffered \<longrightarrow> Z s = s)"

lemma kept_buffered: "signal_kept Z s \<Longrightarrow> sg_status (Z s) = SignalBuffered \<Longrightarrow> sg_status s = SignalBuffered"
  unfolding signal_kept_def by metis

definition kept_db :: "run_db \<Rightarrow> run_db \<Rightarrow> bool" where
  "kept_db d d' \<longleftrightarrow>
     (\<exists>F. rd_runs d' = map F (rd_runs d) \<and> (\<forall>r \<in> set (rd_runs d). run_kept F r)) \<and>
     (\<exists>Z. rd_signals d' = map Z (rd_signals d) \<and> (\<forall>s \<in> set (rd_signals d). signal_kept Z s)) \<and>
     rd_tenant_of d' = rd_tenant_of d"

lemma kept_refl [simp]: "kept_db d d"
  by (auto simp: kept_db_def run_kept_def signal_kept_def intro!: exI [of _ "\<lambda>x. x"])

lemma kept_trans [trans]:
  assumes "kept_db d d1" and "kept_db d1 d2"
  shows "kept_db d d2"
proof -
  from assms obtain F Z G Y where F: "rd_runs d1 = map F (rd_runs d)" "\<forall>r \<in> set (rd_runs d). run_kept F r"
    and Z: "rd_signals d1 = map Z (rd_signals d)" "\<forall>s \<in> set (rd_signals d). signal_kept Z s"
    and G: "rd_runs d2 = map G (rd_runs d1)" "\<forall>r \<in> set (rd_runs d1). run_kept G r"
    and Y: "rd_signals d2 = map Y (rd_signals d1)" "\<forall>s \<in> set (rd_signals d1). signal_kept Y s"
    and t: "rd_tenant_of d1 = rd_tenant_of d" "rd_tenant_of d2 = rd_tenant_of d1" unfolding kept_db_def by blast
  have "\<forall>r \<in> set (rd_runs d). run_kept (\<lambda>x. G (F x)) r"
  proof
    fix r assume r: "r \<in> set (rd_runs d)"
    with F G have "run_kept F r" "run_kept G (F r)" by simp_all
    then show "run_kept (\<lambda>x. G (F x)) r" unfolding run_kept_def by metis
  qed
  moreover have "\<forall>s \<in> set (rd_signals d). signal_kept (\<lambda>x. Y (Z x)) s"
  proof
    fix s assume s: "s \<in> set (rd_signals d)"
    with Z Y have "signal_kept Z s" "signal_kept Y (Z s)" by simp_all
    then show "signal_kept (\<lambda>x. Y (Z x)) s" unfolding signal_kept_def by metis
  qed
  ultimately show ?thesis unfolding kept_db_def using F(1) Z(1) G(1) Y(1) t
    by (intro conjI exI [of _ "\<lambda>x. G (F x)"] exI [of _ "\<lambda>x. Y (Z x)"]) simp_all
qed

lemma kept_same:
  assumes "rd_runs d' = rd_runs d" "rd_signals d' = rd_signals d" "rd_tenant_of d' = rd_tenant_of d"
  shows "kept_db d d'"
  unfolding kept_db_def assms run_kept_def signal_kept_def by (intro conjI exI [of _ "\<lambda>x. x"]) simp_all

lemma kept_update_runs:
  assumes "\<And>r. r \<in> set (rd_runs d) \<Longrightarrow> p r \<Longrightarrow> \<not> is_terminal_run_status (ru_status r)"
    and "\<And>r. ru_id (f r) = ru_id r \<and> ru_project_id (f r) = ru_project_id r \<and> ru_workflow_name (f r) = ru_workflow_name r \<and>
      ru_correlation_key (f r) = ru_correlation_key r \<and> ru_parent_run_id (f r) = ru_parent_run_id r \<and>
      ru_parent_attempt_id (f r) = ru_parent_attempt_id r"
  shows "kept_db d (snd (update_runs now p f d))"
  unfolding kept_db_def
proof (intro conjI)
  show "\<exists>F. rd_runs (snd (update_runs now p f d)) = map F (rd_runs d) \<and> (\<forall>r \<in> set (rd_runs d). run_kept F r)"
    unfolding update_runs_effect update_where_def using assms by (intro exI conjI) (rule refl, auto simp: run_kept_def)
  show "\<exists>Z. rd_signals (snd (update_runs now p f d)) = map Z (rd_signals d) \<and> (\<forall>s \<in> set (rd_signals d). signal_kept Z s)"
    unfolding update_runs_signals update_where_def by (intro exI conjI) (rule refl, auto simp: signal_kept_def)
qed (simp add: effects)

lemma kept_signals:
  assumes "rd_runs d' = rd_runs d" "rd_tenant_of d' = rd_tenant_of d" and "rd_signals d' = update_where p f (rd_signals d)"
    and "\<And>s. s \<in> set (rd_signals d) \<Longrightarrow> p s \<Longrightarrow> signal_kept f s"
  shows "kept_db d d'"
proof -
  have "\<exists>F. rd_runs d' = map F (rd_runs d) \<and> (\<forall>r \<in> set (rd_runs d). run_kept F r)"
    by (rule exI [of _ "\<lambda>x. x"]) (simp add: assms(1) run_kept_def)
  moreover have "\<exists>Z. rd_signals d' = map Z (rd_signals d) \<and> (\<forall>s \<in> set (rd_signals d). signal_kept Z s)"
    unfolding assms(3) update_where_def using assms(4) by (intro exI conjI) (rule refl, auto simp: signal_kept_def)
  ultimately show ?thesis using assms(2) unfolding kept_db_def by blast
qed

section \<open>Ends keep them\<close>

lemma create_step_attempt_kept:
  assumes "create_step_attempt c e tenant rid desc input n available d = Inr d'"
  shows "kept_db d d'"
proof -
  note eff = create_step_attempt_effect [OF assms]
  let ?p = "\<lambda>r. ru_id r = rid \<and> is_active_run_status (ru_status r)"
  let ?f = "\<lambda>r. r\<lparr>ru_status := RunPending, ru_phase := phase_for desc, ru_updated_at := re_now e\<rparr>"
  have "kept_db d (snd (update_runs (re_now e) ?p ?f d))" by (rule kept_update_runs) (auto dest: active_not_terminal)
  also have "kept_db (snd (update_runs (re_now e) ?p ?f d)) d'"
    by (rule kept_same) (simp_all add: eff effects update_runs_keep_signals)
  finally show ?thesis .
qed

lemma update_attempts_kept: "kept_db d (update_attempts p f d)"
  by (rule kept_same) (simp_all add: effects)

lemma complete_run_kept:
  assumes "complete_run now run output d = (d', t)"
  shows "kept_db d d'"
proof -
  let ?p = "\<lambda>r. ru_id r = ru_id run \<and> is_active_run_status (ru_status r)"
  let ?f = "\<lambda>r. r\<lparr>ru_status := RunCompleted, ru_result := Some output, ru_error := None, ru_completed_at := Some now, ru_updated_at := now\<rparr>"
  let ?d = "update_states (\<lambda>s. rs_run_id s = ru_id run) (\<lambda>s. s\<lparr>rs_input := output, rs_active_attempt := None, rs_updated_at := now\<rparr>) d"
  have "kept_db d ?d" by (rule kept_same) (simp_all add: effects)
  also have "kept_db ?d (snd (update_runs now ?p ?f ?d))" by (rule kept_update_runs) (auto dest: active_not_terminal)
  also from assms have "d' = snd (update_runs now ?p ?f ?d) \<or> d' = release_root now run (snd (update_runs now ?p ?f ?d))"
    by (auto simp: complete_run_def Let_def split: prod.splits if_splits)
  then have "kept_db (snd (update_runs now ?p ?f ?d)) d'" by (auto intro: kept_same simp: release_effects)
  finally show ?thesis .
qed

lemma end_run_kept:
  assumes "end_run now rid err x statuses d = (d', t)" and "\<And>s. s \<in> set statuses \<Longrightarrow> \<not> is_terminal_run_status s"
  shows "kept_db d d'"
proof -
  let ?p = "\<lambda>r. ru_id r = rid \<and> ru_status r \<in> set statuses"
  let ?f = "\<lambda>r. r\<lparr>ru_status := RunFailed, ru_error := Some err, ru_completed_at := Some now, ru_updated_at := now\<rparr>"
  let ?d = "cleanup_run_scope now rid err x d"
  have "kept_db d ?d" by (rule kept_same) (simp_all add: effects)
  also have "kept_db ?d (snd (update_runs now ?p ?f ?d))" by (rule kept_update_runs) (auto dest: assms(2))
  also from assms(1) have "d' = snd (update_runs now ?p ?f ?d) \<or> (\<exists>r. d' = release_root now r (snd (update_runs now ?p ?f ?d)))"
    by (auto simp: end_run_def Let_def split: prod.splits list.splits)
  then have "kept_db (snd (update_runs now ?p ?f ?d)) d'" by (auto intro: kept_same simp: release_effects)
  finally show ?thesis .
qed

lemma advance_run_kept: "advance_run c e tenant rid i v d = Inr (d', t) \<Longrightarrow> kept_db d d'"
  by (auto simp: advance_run_def bind_run_Inr split: option.splits if_splits intro: complete_run_kept create_step_attempt_kept)

lemma fail_attempt_kept:
  assumes "fail_attempt c e ctx err x allow msg d = Inr (d', t)"
  shows "kept_db d d'"
proof -
  let ?d = "update_attempts (\<lambda>y. sa_id y = sa_id (cx_attempt ctx)) (failed_attempt err (re_now e))
    (cleanup_step_scope (re_now e) (sa_run_id (cx_attempt ctx)) (sa_id (cx_attempt ctx)) err x d)"
  have "kept_db d ?d" by (rule kept_same) (simp_all add: effects)
  also from assms have "kept_db ?d d'"
    by (auto simp: fail_attempt_def Let_def bind_run_Inr split: if_splits option.splits
        intro: create_step_attempt_kept end_run_kept dest: open_statuses(1))
  finally show ?thesis .
qed

lemma tell_parent_kept: "tell_parent c e child oc d = Inr (d', t) \<Longrightarrow> kept_db d d'"
  by (auto simp: tell_parent_def Let_def split: option.splits if_splits
      dest!: advance_run_kept fail_attempt_kept intro: kept_trans [OF update_attempts_kept])

lemma finish_parent_kept: "finish_parent c e child oc d = Inr d' \<Longrightarrow> kept_db d d'"
proof (induction c e child oc d arbitrary: d' rule: finish_parent.induct)
  case (1 c e child oc d)
  from "1.prems" obtain d1 t where t: "tell_parent c e child oc d = Inr (d1, t)"
    by (cases "tell_parent c e child oc d") (auto simp: finish_parent.simps [of c e child])
  show ?case
  proof (cases t)
    case None
    with "1.prems" t have "d' = d1" by (simp add: finish_parent.simps [of c e child])
    with tell_parent_kept [OF t] show ?thesis by simp
  next
    case (Some y)
    obtain child' oc' where y: "y = (child', oc')" by (cases y)
    with "1.prems" t Some have "finish_parent c e child' oc' d1 = Inr d'" by (simp add: finish_parent.simps [of c e child])
    from "1.IH" [OF t refl Some y [symmetric] this] tell_parent_kept [OF t] show ?thesis by (blast intro: kept_trans)
  qed
qed

lemma finish_told_kept: "finish_told c e (d, t) = Inr d' \<Longrightarrow> kept_db d d'"
  by (auto simp: finish_told_def split: option.splits intro: finish_parent_kept)

lemma advance_kept: "advance c e tenant rid i v d = Inr d' \<Longrightarrow> kept_db d d'"
  by (auto simp: advance_def bind_run_Inr intro: kept_trans [OF advance_run_kept finish_told_kept])

lemma fail_run_kept:
  assumes "fail_run c e rid err x statuses d = Inr d'" and "\<And>s. s \<in> set statuses \<Longrightarrow> \<not> is_terminal_run_status s"
  shows "kept_db d d'"
proof -
  obtain d1 t where er: "end_run (re_now e) rid err x statuses d = (d1, t)" by (cases "end_run (re_now e) rid err x statuses d")
  with assms(1) have "finish_told c e (d1, t) = Inr d'" by (simp add: fail_run_def)
  with end_run_kept [OF er assms(2)] finish_told_kept show ?thesis by (blast intro: kept_trans)
qed

section \<open>Pauses keep them\<close>

lemma update_pauses_kept: "kept_db d (update_pauses p f d)"
  by (rule kept_same) (simp_all add: effects)

lemma resolve_pause_kept: "resolve_pause c e p reason d = Inr d' \<Longrightarrow> kept_db d d'"
  by (auto simp: resolve_pause_def Let_def split: option.splits if_splits dest!: advance_kept intro: kept_trans [OF update_attempts_kept])

lemma closed_kept: "resolve_pause c e q reason (update_pauses p f d) = Inr d' \<Longrightarrow> kept_db d d'"
  by (blast intro: kept_trans [OF update_pauses_kept] resolve_pause_kept)

lemma kept_signal_keys:
  assumes "kept_db d d'" and "unique_keys sg_id (rd_signals d)"
  shows "unique_keys sg_id (rd_signals d')"
proof -
  from assms(1) obtain Z where Z: "rd_signals d' = map Z (rd_signals d)" "\<forall>s \<in> set (rd_signals d). signal_kept Z s" by (auto simp: kept_db_def)
  then have "map sg_id (rd_signals d') = map sg_id (rd_signals d)" by (simp add: signal_kept_def)
  with assms(2) show ?thesis by (simp add: unique_keys_def)
qed

text \<open>The signal a pause takes was buffered.\<close>

lemma resolve_named_pause_kept:
  assumes rn: "resolve_named_pause c e p d = Inr (b, d')" and uk: "unique_keys sg_id (rd_signals d)"
  shows "kept_db d d'"
proof (cases "d' = d")
  case False
  have taken: "kept_db d (d\<lparr>rd_signals := update_where (\<lambda>x. sg_id x = sg_id s) (taken_signal n i) (rd_signals d)\<rparr>)"
    if "s \<in> set (buffered_for rid name d)" for s n i rid name
  proof (rule kept_signals [where f = "taken_signal n i"])
    from that have s: "s \<in> set (rd_signals d)" "sg_status s = SignalBuffered" by (simp_all add: buffered_for_def)
    fix x assume "x \<in> set (rd_signals d)" "sg_id x = sg_id s"
    with find_row_unique [OF uk] s(1) have "x = s" by (metis option.inject)
    with s(2) show "signal_kept (taken_signal n i) x" by (simp add: signal_kept_def taken_signal_def)
  qed simp_all
  show ?thesis
  proof (cases "pause_due (re_now e) p")
    case True
    with rn show ?thesis by (auto simp: resolve_named_pause_def Let_def bind_run_Inr dest!: closed_kept)
  next
    case due: False
    with rn False obtain name s rest where b: "buffered_for (pz_run_id p) name d = s # rest"
      and r: "resolve_pause c e (p\<lparr>pz_resume_value := sg_value s\<rparr>) Resumed (update_pauses (\<lambda>x. pz_id x = pz_id p)
        (resumed_pause (re_now e) (or_null (sg_value s)) (sg_key s) (co_sha256 c (or_null (sg_value s))))
        (d\<lparr>rd_signals := update_where (\<lambda>x. sg_id x = sg_id s) (taken_signal (re_now e) (pz_id p)) (rd_signals d)\<rparr>)) = Inr d'"
      by (auto simp: resolve_named_pause_def Let_def bind_run_Inr split: option.splits list.splits)
    from taken [of s] b have "kept_db d (d\<lparr>rd_signals := update_where (\<lambda>x. sg_id x = sg_id s) (taken_signal (re_now e) (pz_id p)) (rd_signals d)\<rparr>)"
      by (metis list.set_intros(1))
    then show ?thesis using closed_kept [OF r] by (rule kept_trans)
  qed
qed simp

lemma suspended_kept:
  assumes "\<And>r. ru_id (h r) = ru_id r \<and> ru_project_id (h r) = ru_project_id r \<and> ru_workflow_name (h r) = ru_workflow_name r \<and>
      ru_correlation_key (h r) = ru_correlation_key r \<and> ru_parent_run_id (h r) = ru_parent_run_id r \<and>
      ru_parent_attempt_id (h r) = ru_parent_attempt_id r"
  shows "kept_db d (snd (update_runs now (\<lambda>r. ru_id r = rid \<and> is_active_run_status (ru_status r)) h (update_attempts p f d)))"
  by (rule kept_trans [OF update_attempts_kept kept_update_runs [OF _ assms]]) (auto dest: active_not_terminal)

lemma suspend_for_pause_kept:
  assumes "suspend_for_pause c e aid job transition d = Inr d'" and uk: "unique_keys sg_id (rd_signals d)"
  shows "kept_db d d'"
proof (cases "d' = d")
  case False
  obtain ctx a tm p d3 resolved d4 where "lock_active_attempt aid d = Some ctx" and "a = cx_attempt ctx"
    and "sa_status a = StepRunning" and "p = new_pause e a transition tm" and "\<not> pause_refused p d"
    and d3: "d3 = snd (update_runs (re_now e) (\<lambda>r. ru_id r = sa_run_id a \<and> is_active_run_status (ru_status r))
       (\<lambda>r. r\<lparr>ru_status := RunWaiting, ru_phase := PausePhase, ru_updated_at := re_now e\<rparr>)
       (update_attempts (\<lambda>x. sa_id x = sa_id a) (\<lambda>x. x\<lparr>sa_status := StepWaiting, sa_updated_at := re_now e\<rparr>)
         (d\<lparr>rd_pauses := rd_pauses d @ [p]\<rparr>)))"
    and rn: "resolve_named_pause c e p d3 = Inr (resolved, d4)" and tail: "d' = d4 \<or> (\<exists>jid q. enqueue_job e jid q d4 = Inr d')"
    by (rule suspend_for_pause_steps [OF assms(1) False])
  have "kept_db d (d\<lparr>rd_pauses := rd_pauses d @ [p]\<rparr>)" by (rule kept_same) simp_all
  also have "kept_db (d\<lparr>rd_pauses := rd_pauses d @ [p]\<rparr>) d3" unfolding d3 by (rule suspended_kept) simp
  finally have before: "kept_db d d3" .
  also have "kept_db d3 d4" by (rule resolve_named_pause_kept [OF rn kept_signal_keys [OF before uk]])
  also from tail have "kept_db d4 d'" by (auto intro: kept_same dest: enqueue_job_effect)
  finally show ?thesis .
qed simp

lemma resume_pause_kept: "resume_pause c e tenant rid pid key v d = Inr d' \<Longrightarrow> kept_db d d'"
  by (auto simp: resume_pause_def Let_def split: option.splits if_splits dest!: closed_kept)

lemma resolve_pause_timeout_kept: "resolve_pause_timeout c e job d = Inr d' \<Longrightarrow> kept_db d d'"
  by (auto simp: resolve_pause_timeout_def Let_def split: option.splits if_splits dest!: closed_kept)

section \<open>Workers and operators keep them\<close>

lemma begin_attempt_kept: "begin_attempt e job phase d = (b, d') \<Longrightarrow> kept_db d d'"
  by (auto simp: begin_attempt_def Let_def split: option.splits if_splits intro!: suspended_kept)

lemma set_phase_kept: "kept_db d (set_phase e rid aid status phase d)"
  unfolding set_phase_def Let_def by (rule kept_update_runs) (auto dest: active_not_terminal)

lemma complete_step_kept: "complete_step c e aid v job d = Inr d' \<Longrightarrow> kept_db d d'"
  by (auto simp: complete_step_def Let_def split: option.splits if_splits dest!: advance_kept intro: kept_trans [OF update_attempts_kept])

lemma fail_step_kept: "fail_step c e aid err job allow d = Inr d' \<Longrightarrow> kept_db d d'"
  by (auto simp: fail_step_def bind_run_Inr split: option.splits if_splits intro: kept_trans [OF fail_attempt_kept finish_told_kept])

lemma reconcile_parent_kept: "reconcile_parent c e child d = Inr d' \<Longrightarrow> kept_db d d'"
  by (auto simp: reconcile_parent_def split: option.splits if_splits intro: finish_parent_kept)

lemma pause_operator_kept:
  assumes "pause_operator e tenant rid d = Inr (x, d')"
  shows "kept_db d d'"
proof (cases "d' = d")
  case False
  with assms obtain p f q g where d': "d' = snd (update_runs (re_now e) (\<lambda>r. ru_id r = rid \<and> is_active_run_status (ru_status r))
      (\<lambda>r. r\<lparr>ru_status := RunPaused, ru_updated_at := re_now e\<rparr>) (update_states q g d))"
    by (auto simp: pause_operator_def Let_def split: option.splits if_splits)
  have "kept_db d (update_states q g d)" by (rule kept_same) (simp_all add: effects)
  then show ?thesis unfolding d' by (rule kept_trans [OF _ kept_update_runs]) (auto dest: active_not_terminal)
qed simp

lemma resume_operator_kept:
  assumes ro: "resume_operator e tenant rid d = Inr (x, d')"
  shows "kept_db d d'"
proof (cases "d' = d")
  case False
  from ro obtain run where own: "owned_run tenant rid d = Some run" by (auto simp: resume_operator_def split: option.splits)
  from ro False own obtain s where ab: "active_batch_state rid d = Some s" and st: "ru_status run = RunPaused"
    by (auto simp: resume_operator_def Let_def split: option.splits if_splits)
  let ?d = "snd (update_runs (re_now e) (\<lambda>r. ru_id r = rid \<and> ru_status r = RunPaused)
        (\<lambda>r. r\<lparr>ru_status := or_default (rs_prev_status s) RunRunning, ru_phase := or_default (rs_prev_phase s) ProcessPhase,
           ru_updated_at := re_now e\<rparr>) d)"
  from ro False own ab st have d': "d' = wake_run_jobs e rid (update_states (\<lambda>x. rs_run_id x = rid)
      (\<lambda>x. x\<lparr>rs_prev_status := None, rs_prev_phase := None, rs_updated_at := re_now e\<rparr>) ?d)"
    by (auto simp: resume_operator_def Let_def split: option.splits if_splits)
  have "kept_db d ?d" by (rule kept_update_runs) auto
  also have "kept_db ?d d'" unfolding d' wake_run_jobs_def by (rule kept_same) (simp_all add: effects)
  finally show ?thesis .
qed simp

lemma fold_release_tenant: "rd_tenant_of (fold (release_root now) rs d) = rd_tenant_of d"
  by (induction rs arbitrary: d) (simp_all add: effects)

lemma cancel_runs_kept:
  assumes "\<And>r. r \<in> set (rd_runs d) \<Longrightarrow> ru_id r \<in> ids \<Longrightarrow> \<not> is_terminal_run_status (ru_status r)"
  shows "kept_db d (cancel_runs now reason ids d)"
  unfolding kept_db_def
proof (intro conjI)
  show "\<exists>F. rd_runs (cancel_runs now reason ids d) = map F (rd_runs d) \<and> (\<forall>r \<in> set (rd_runs d). run_kept F r)"
    unfolding cancel_runs_rows update_where_def using assms by (intro exI conjI) (rule refl, auto simp: run_kept_def)
  show "\<exists>Z. rd_signals (cancel_runs now reason ids d) = map Z (rd_signals d) \<and> (\<forall>s \<in> set (rd_signals d). signal_kept Z s)"
    unfolding cancel_runs_rows update_where_def by (intro exI conjI) (rule refl, auto simp: signal_kept_def)
  show "rd_tenant_of (cancel_runs now reason ids d) = rd_tenant_of d" by (simp add: cancel_runs_def Let_def effects)
qed

text \<open>What a cancellation does, in terms of the open runs of the tree.\<close>

definition tree_open :: "run_row \<Rightarrow> run_db \<Rightarrow> run_row list" where
  "tree_open topmost d = filter (\<lambda>r. \<not> is_terminal_run_status (ru_status r)) (lock_run_hierarchy topmost d)"

lemma cancel_in_cases:
  assumes "cancel_in e tenant rid reason d = Inr (x, d')"
  obtains topmost where "run_at d rid = Some topmost"
    "d' = d \<and> tree_open topmost d = [] \<or>
     d' = fold (release_root (re_now e)) (tree_open topmost d) (cancel_runs (re_now e) reason (ru_id ` set (tree_open topmost d)) d)"
proof -
  from assms obtain topmost where own: "owned_run tenant rid d = Some topmost" by (auto simp: cancel_in_def split: option.splits)
  then have "run_at d rid = Some topmost" by (auto simp: owned_run_def lock_run_def split: option.splits if_splits)
  moreover from assms own have "d' = d \<and> tree_open topmost d = [] \<or>
     d' = fold (release_root (re_now e)) (tree_open topmost d) (cancel_runs (re_now e) reason (ru_id ` set (tree_open topmost d)) d)"
    by (auto simp: cancel_in_def Let_def tree_open_def [symmetric] split: if_splits)
  ultimately show thesis by (rule that)
qed

lemma tree_open_rows:
  assumes uk: "unique_keys ru_id (rd_runs d)" and r: "run_at d rid = Some topmost" and q: "q \<in> set (rd_runs d)" "ru_id q \<in> ru_id ` set (tree_open topmost d)"
  shows "\<not> is_terminal_run_status (ru_status q)"
proof -
  from q obtain a where a: "a \<in> set (tree_open topmost d)" "ru_id q = ru_id a" by auto
  with hierarchy_rows [OF r] have "a \<in> set (rd_runs d)" by (auto simp: tree_open_def)
  from find_row_unique [OF uk this] find_row_unique [OF uk q(1), unfolded a(2)] have "a = q" by simp
  with a(1) show ?thesis by (simp add: tree_open_def)
qed

lemma cancel_in_kept:
  assumes ci: "cancel_in e tenant rid reason d = Inr (x, d')" and uk: "unique_keys ru_id (rd_runs d)"
  shows "kept_db d d'"
  using ci
proof (rule cancel_in_cases)
  fix topmost assume r: "run_at d rid = Some topmost"
  assume "d' = d \<and> tree_open topmost d = [] \<or>
     d' = fold (release_root (re_now e)) (tree_open topmost d) (cancel_runs (re_now e) reason (ru_id ` set (tree_open topmost d)) d)"
  then show ?thesis
  proof
    assume d': "d' = fold (release_root (re_now e)) (tree_open topmost d) (cancel_runs (re_now e) reason (ru_id ` set (tree_open topmost d)) d)"
    have "kept_db d (cancel_runs (re_now e) reason (ru_id ` set (tree_open topmost d)) d)"
      by (rule cancel_runs_kept) (rule tree_open_rows [OF uk r])
    also have "kept_db (cancel_runs (re_now e) reason (ru_id ` set (tree_open topmost d)) d) d'"
      unfolding d' by (rule kept_same) (use fold_release in \<open>auto simp: same_tables_def fold_release_tenant\<close>)
    finally show ?thesis .
  qed simp
qed

lemma fail_run_tree_kept:
  assumes "fail_run_tree c e rid err d = Inr d'"
  shows "kept_db d d'"
proof -
  let ?P = "\<lambda>m. \<forall>x. m = Inr x \<longrightarrow> kept_db d x"
  have step: "?P (fail_each c e err r m)" if "?P m" for r m
    using that unfolding fail_each_def
    by (cases "ru_status r \<in> set (ACTIVE_RUN_STATUSES @ [RunPaused])")
      (auto simp only: if_True if_False bind_run_Inr intro: kept_trans [OF _ fail_run_kept [OF _ open_statuses(2)]])
  have "?P (fold (fail_each c e err) rs m)" if "?P m" for rs m
    using that
  proof (induction rs arbitrary: m)
    case (Cons r rs)
    show ?case unfolding fold_Cons comp_apply by (rule Cons.IH) (rule step [OF Cons.prems])
  qed (simp only: fold_Nil id_apply)
  from this [of "Inr d"] assms show ?thesis by (auto simp: fail_run_tree_def split: option.splits)
qed

lemma handle_exhausted_job_kept: "handle_exhausted_job c e job err d = Inr d' \<Longrightarrow> kept_db d d'"
  by (auto simp: handle_exhausted_job_def Let_def split: option.splits if_splits
      intro: fail_step_kept reconcile_parent_kept fail_run_kept [OF _ open_statuses(1)])

lemma same_tables_kept: "same_tables d d' \<Longrightarrow> rd_tenant_of d' = rd_tenant_of d \<Longrightarrow> kept_db d d'"
  by (rule kept_same) (simp_all add: same_tables_def)

lemma register_kept: "register_invocation e job iid d = (b, d') \<Longrightarrow> kept_db d d'"
  by (auto simp: register_invocation_def split: option.splits if_splits intro: kept_same)

lemma unregister_kept: "unregister_invocation e job iid d = (b, d') \<Longrightarrow> kept_db d d'"
  by (auto simp: unregister_invocation_def Let_def split: option.splits if_splits intro: kept_same simp: effects)

section \<open>Every call keeps them\<close>

lemma initialize_kept:
  assumes "initialize c e tenant rid plan input d = Inr d'"
  shows "kept_db d d'"
proof -
  from assms obtain desc s where "create_step_attempt c e tenant rid desc input 1 None (d\<lparr>rd_states := rd_states d @ [s]\<rparr>) = Inr d'"
    by (auto simp: initialize_def split: list.splits if_splits)
  with create_step_attempt_kept have "kept_db (d\<lparr>rd_states := rd_states d @ [s]\<rparr>) d'" by blast
  moreover have "kept_db d (d\<lparr>rd_states := rd_states d @ [s]\<rparr>)" by (rule kept_same) simp_all
  ultimately show ?thesis by (rule kept_trans [rotated])
qed

lemma suspend_for_child_kept:
  assumes sc: "suspend_for_child c e aid job q state d = Inr (child, d')" and ne: "d' \<noteq> d"
  obtains ctx desc where "lock_active_attempt aid d = Some ctx" "sa_status (cx_attempt ctx) = StepRunning"
    "kept_db (d\<lparr>rd_runs := rd_runs d @ [child_run e ctx q desc]\<rparr>) d'"
proof -
  from sc ne obtain ctx where lk: "lock_active_attempt aid d = Some ctx" by (auto simp: suspend_for_child_def split: option.splits)
  have st: "sa_status (cx_attempt ctx) = StepRunning"
    using sc ne unfolding suspend_for_child_def lk by (auto simp: Let_def split: if_splits)
  let ?f = "\<lambda>x. x\<lparr>sa_status := StepWaiting, sa_updated_at := re_now e,
      sa_call_state := (case state of None \<Rightarrow> sa_call_state x | Some v \<Rightarrow> Some v)\<rparr>"
  let ?h = "\<lambda>r. r\<lparr>ru_status := RunWaiting, ru_phase := ChildPhase, ru_updated_at := re_now e\<rparr>"
  let ?P = "\<lambda>r. ru_id r = ru_id (cx_run ctx) \<and> is_active_run_status (ru_status r)"
  from sc ne obtain desc rest where pl: "cr_plan q = desc # rest"
    unfolding suspend_for_child_def lk by (auto simp: Let_def split: if_splits list.splits)
  let ?d1 = "d\<lparr>rd_runs := rd_runs d @ [child_run e ctx q desc]\<rparr>"
  define d3 where "d3 = snd (update_runs (re_now e) ?P ?h (update_attempts (\<lambda>x. sa_id x = sa_id (cx_attempt ctx)) ?f ?d1))"
  have ini: "initialize c e (cx_tenant ctx) (re_child_id e) (cr_plan q) (cr_input q) d3 = Inr d'"
    using sc ne unfolding suspend_for_child_def lk
    by (auto simp: Let_def pl bind_run_Inr d3_def [symmetric] split: if_splits)
  have "kept_db ?d1 d3" unfolding d3_def by (rule suspended_kept) simp
  with initialize_kept [OF ini] have "kept_db ?d1 d'" by (blast intro: kept_trans)
  with that lk st show thesis by blast
qed

lemma put_signal_kept:
  assumes "put_signal c e s d = Inr (rcp, d')" and uk: "unique_keys sg_id (rd_signals d)" and new: "sg_id s \<notin> sg_id ` set (rd_signals d)"
  shows "kept_db (d\<lparr>rd_signals := rd_signals d @ [s]\<rparr>) d'"
proof -
  let ?d1 = "d\<lparr>rd_signals := rd_signals d @ [s], rd_sequence := sg_sequence s\<rparr>"
  have "unique_keys sg_id (rd_signals ?d1)" using uk new by (simp add: unique_keys_def)
  note taken = resolve_named_pause_kept [OF _ this]
  have "kept_db (d\<lparr>rd_signals := rd_signals d @ [s]\<rparr>) ?d1" by (rule kept_same) simp_all
  moreover have "kept_db ?d1 d'"
    using assms(1) by (auto simp: put_signal_def Let_def bind_run_Inr split: option.splits dest!: taken)
  ultimately show ?thesis by (rule kept_trans)
qed

text \<open>What a signal was let in under.\<close>

definition room_for_signal :: "signal_row \<Rightarrow> run_db \<Rightarrow> bool" where
  "room_for_signal s d \<longleftrightarrow>
     length (filter (\<lambda>t. sg_run_id t = sg_run_id s) (rd_signals d)) < RUN_SIGNAL_MAX_RECEIPTS \<and>
     length (filter (\<lambda>t. sg_run_id t = sg_run_id s \<and> sg_status t = SignalBuffered) (rd_signals d)) < RUN_SIGNAL_MAX_PENDING"

lemma signal_by_key_kept:
  assumes sk: "signal_by_key c se e q d = Inr (rcp, d')" and ne: "d' \<noteq> d" and keys: "keys_ok d" and fr: "fresh_ids e d"
  obtains payload where "signal_payload se (sq_signal q) (sq_key q) (sq_value q) = Inr payload"
    "room_for_signal (new_signal e q payload d) d" "kept_db (d\<lparr>rd_signals := rd_signals d @ [new_signal e q payload d]\<rparr>) d'"
    "put_signal c e (new_signal e q payload d) d = Inr (rcp, d')"
proof -
  from sk obtain payload where sp: "signal_payload se (sq_signal q) (sq_key q) (sq_value q) = Inr payload"
    unfolding signal_by_key_def bind_run_Inr by blast
  from sk obtain run where run: "signaled_run q d = Some run" unfolding signal_by_key_def sp by (simp split: option.split_asm)
  then have "run_at d (sq_run_id q) = Some run" by (auto simp: signaled_run_def lock_run_def split: option.splits if_splits)
  then have id: "ru_id run = sq_run_id q" by (rule at_id(1))
  have unused: "List.find (\<lambda>s. sg_run_id s = ru_id run \<and> sg_key s = sq_key q) (rd_signals d) = None"
    using sk ne unfolding signal_by_key_def sp run
    by (cases "List.find (\<lambda>s. sg_run_id s = ru_id run \<and> sg_key s = sq_key q) (rd_signals d)") (auto simp: bind_run_Inr split: if_split_asm)
  from sk have ps: "put_signal c e (new_signal e q payload d) d = Inr (rcp, d')"
    and room: "\<not> RUN_SIGNAL_MAX_RECEIPTS \<le> length (filter (\<lambda>s. sg_run_id s = ru_id run) (rd_signals d))"
      "\<not> RUN_SIGNAL_MAX_PENDING \<le> length (filter (\<lambda>s. sg_status s = SignalBuffered) (filter (\<lambda>s. sg_run_id s = ru_id run) (rd_signals d)))"
    unfolding signal_by_key_def sp run by (simp_all add: unused Let_def split: if_split_asm)
  have "room_for_signal (new_signal e q payload d) d"
    using room by (simp add: room_for_signal_def new_signal_def id conj_commute)
  moreover have "sg_id (new_signal e q payload d) \<notin> sg_id ` set (rd_signals d)" "unique_keys sg_id (rd_signals d)"
    using fr keys by (simp_all add: fresh_ids_def new_signal_def keys_ok_def)
  ultimately show thesis using that [OF sp _ put_signal_kept [OF ps] ps] by blast
qed

lemma call_run_kept:
  assumes cr: "call_run c e call d = Inr d'" and keys: "keys_ok d" and fr: "fresh_ids e d"
  obtains (kept) "kept_db d d'"
    | (started) tenant q where "call = StartRun tenant q" "nr_id q \<notin> ru_id ` set (rd_runs d)"
        "kept_db (d\<lparr>rd_runs := rd_runs d @ [started_run (re_now e) q]\<rparr>) d'"
    | (child) aid job q state ctx desc where "call = SuspendForChild aid job q state" "lock_active_attempt aid d = Some ctx"
        "sa_status (cx_attempt ctx) = StepRunning" "kept_db (d\<lparr>rd_runs := rd_runs d @ [child_run e ctx q desc]\<rparr>) d'"
    | (signal) se q payload where "call = SignalByKey se q" "room_for_signal (new_signal e q payload d) d"
        "kept_db (d\<lparr>rd_signals := rd_signals d @ [new_signal e q payload d]\<rparr>) d'"
proof (cases "d' = d")
  case True
  with that(1) show ?thesis by simp
next
  case False
  from keys have uk: "unique_keys ru_id (rd_runs d)" and us: "unique_keys sg_id (rd_signals d)" by (simp_all add: keys_ok_def)
  show ?thesis
  proof (cases call)
    case (StartRun tenant q)
    from cr StartRun have "nr_id q \<notin> ru_id ` set (rd_runs d)"
      "initialize c e tenant (nr_id q) (nr_plan q) (nr_input q) (d\<lparr>rd_runs := rd_runs d @ [started_run (re_now e) q]\<rparr>) = Inr d'"
      by (simp_all add: start_run_def split: if_split_asm)
    with that(2) [OF StartRun] initialize_kept show ?thesis by blast
  next
    case (SuspendForChild aid job q state)
    with cr obtain child where "suspend_for_child c e aid job q state d = Inr (child, d')" by auto
    from suspend_for_child_kept [OF this False] that(3) [OF SuspendForChild] show ?thesis by blast
  next
    case (SignalByKey se q)
    with cr obtain rcp where "signal_by_key c se e q d = Inr (rcp, d')" by auto
    from signal_by_key_kept [OF this False keys fr] that(4) [OF SignalByKey] show ?thesis by blast
  next
    case (BeginAttempt job phase)
    with cr that(1) begin_attempt_kept show ?thesis by (cases "begin_attempt e job phase d") auto
  next
    case (RegisterInvocation job iid)
    with cr that(1) register_kept show ?thesis by (cases "register_invocation e job iid d") auto
  next
    case (UnregisterInvocation job iid)
    with cr that(1) unregister_kept show ?thesis by (cases "unregister_invocation e job iid d") auto
  next
    case (SetPhase rid aid status phase)
    with cr that(1) set_phase_kept show ?thesis by auto
  next
    case (CompleteStep aid v job)
    with cr that(1) complete_step_kept show ?thesis by auto
  next
    case (FailStep aid err job allow)
    with cr that(1) fail_step_kept show ?thesis by auto
  next
    case (SuspendForPause aid job transition)
    with cr that(1) suspend_for_pause_kept [OF _ us] show ?thesis by auto
  next
    case (ResumePause tenant rid pid key v)
    with cr that(1) resume_pause_kept show ?thesis by auto
  next
    case (ResolvePauseTimeout job)
    with cr that(1) resolve_pause_timeout_kept show ?thesis by auto
  next
    case (ReconcileTerminalChild job)
    with cr False have "reconcile_parent c e (xj_workflow_run_id job) d = Inr d'" by (auto simp: reconcile_terminal_child_def split: if_splits)
    with that(1) reconcile_parent_kept show ?thesis by blast
  next
    case (ReconcileParent child)
    with cr that(1) reconcile_parent_kept show ?thesis by auto
  next
    case (PauseOperator tenant rid)
    with cr that(1) pause_operator_kept show ?thesis by auto
  next
    case (ResumeOperator tenant rid)
    with cr that(1) resume_operator_kept show ?thesis by auto
  next
    case (CancelIn tenant rid reason)
    with cr that(1) cancel_in_kept [OF _ uk] show ?thesis by auto
  next
    case (FailRunTree rid err)
    with cr that(1) fail_run_tree_kept show ?thesis by auto
  next
    case (HandleExhaustedJob job err)
    with cr that(1) handle_exhausted_job_kept show ?thesis by auto
  qed
qed

text \<open>A run that is kept, and one that a call adds beside it.\<close>

lemma find_row_map_rows:
  "(\<And>x. x \<in> set xs \<Longrightarrow> key (F x) = key x) \<Longrightarrow> find_row key k (map F xs) = map_option F (find_row key k xs)"
  by (induction xs) simp_all

lemma kept_run_at:
  assumes "kept_db d d'" and "run_at d rid = Some r"
  shows "\<exists>F. run_kept F r \<and> run_at d' rid = Some (F r)"
proof -
  from assms(1) obtain F where F: "rd_runs d' = map F (rd_runs d)" "\<forall>r \<in> set (rd_runs d). run_kept F r" by (auto simp: kept_db_def)
  have "run_at d' rid = map_option F (run_at d rid)"
    unfolding F(1) by (rule find_row_map_rows) (use F(2) in \<open>simp add: run_kept_def\<close>)
  with assms(2) F(2) find_row_Some [OF assms(2)] show ?thesis by auto
qed

lemma kept_extended:
  assumes "kept_db (d\<lparr>rd_runs := rd_runs d @ [x]\<rparr>) d'" and "run_at d rid = Some r"
  shows "\<exists>F. run_kept F r \<and> run_at d' rid = Some (F r)"
  by (rule kept_run_at [OF assms(1)]) (simp add: find_row_append assms(2))

lemma call_run_keeps_run:
  assumes "call_run c e call d = Inr d'" and "keys_ok d" and "fresh_ids e d" and "run_at d rid = Some r"
  shows "\<exists>F. run_kept F r \<and> run_at d' rid = Some (F r)"
  using assms(1-3)
proof (cases rule: call_run_kept)
  case kept then show ?thesis by (rule kept_run_at [OF _ assms(4)])
next
  case (started tenant q) then show ?thesis by (blast intro: kept_extended [OF _ assms(4)])
next
  case (child aid job q state ctx desc) then show ?thesis by (blast intro: kept_extended [OF _ assms(4)])
next
  case (signal se q payload) show ?thesis by (rule kept_run_at [OF signal(3)]) (simp add: assms(4))
qed

end
