(* ===== verification/Run_Later.thy ===== *)
theory Run_Later
  imports Run_Kept
begin

text \<open>
  What lies ahead of a state of workflow runs: in every later one the same runs and signals, as far as
  nobody deleted them, an attempt with one child at most, and an inbox within its bounds.
\<close>

section \<open>Signals that are kept\<close>

lemma kept_signal_at:
  assumes "kept_db d d'" and "signal_at d sid = Some s"
  shows "\<exists>Z. signal_kept Z s \<and> signal_at d' sid = Some (Z s)"
proof -
  from assms(1) obtain Z where Z: "rd_signals d' = map Z (rd_signals d)" "\<forall>s \<in> set (rd_signals d). signal_kept Z s" by (auto simp: kept_db_def)
  have "signal_at d' sid = map_option Z (signal_at d sid)"
    unfolding Z(1) by (rule find_row_map_rows) (use Z(2) in \<open>simp add: signal_kept_def\<close>)
  with assms(2) Z(2) find_row_Some [OF assms(2)] show ?thesis by auto
qed

lemma call_run_keeps_signal:
  assumes "call_run c e call d = Inr d'" and "keys_ok d" and "fresh_ids e d" and s: "signal_at d sid = Some s"
  shows "\<exists>Z. signal_kept Z s \<and> signal_at d' sid = Some (Z s)"
  using assms(1-3)
proof (cases rule: call_run_kept)
  case kept then show ?thesis by (rule kept_signal_at [OF _ s])
next
  case (started tenant q) show ?thesis by (rule kept_signal_at [OF started(3)]) (simp add: s)
next
  case (child aid job q state ctx desc) show ?thesis by (rule kept_signal_at [OF child(4)]) (simp add: s)
next
  case (signal se q payload) show ?thesis by (rule kept_signal_at [OF signal(3)]) (simp add: find_row_append s)
qed

lemma call_run_keeps_tenant:
  assumes "call_run c e call d = Inr d'" and "keys_ok d" and "fresh_ids e d"
  shows "rd_tenant_of d' = rd_tenant_of d"
  using assms by (cases rule: call_run_kept) (auto simp: kept_db_def)

section \<open>Later states\<close>

text \<open>
  A later state, by calls and by what others do in between, as long as no run of \<open>K\<close> is deleted.
\<close>

inductive run_later :: "coordinator \<Rightarrow> ident set \<Rightarrow> run_db \<Rightarrow> run_db \<Rightarrow> bool" for c K d where
  later_same: "run_later c K d d"
| later_call: "run_later c K d d1 \<Longrightarrow> fresh_ids e d1 \<Longrightarrow> conforms call d1 \<Longrightarrow> call_run c e call d1 = Inr d2 \<Longrightarrow> run_later c K d d2"
| later_beside: "run_later c K d d1 \<Longrightarrow> beside d1 d2 \<Longrightarrow> run_later c K d d2"
| later_forget: "run_later c K d d1 \<Longrightarrow> forgets D d1 d2 \<Longrightarrow> D \<inter> K = {} \<Longrightarrow> run_later c K d d2"

lemma reach_later: "run_later c K d d' \<Longrightarrow> run_reach c d \<Longrightarrow> run_reach c d'"
  by (induction rule: run_later.induct) (blast intro: run_reach.intros)+

lemma reach_keys: "run_reach c d \<Longrightarrow> keys_ok d"
  by (rule run_okD(1) [OF run_reach_ok])

text \<open>Who a run is stays; once it ended, everything but where it is placed does.\<close>

definition run_lasts :: "run_row \<Rightarrow> run_row \<Rightarrow> bool" where
  "run_lasts r r' \<longleftrightarrow>
     ru_id r' = ru_id r \<and> ru_project_id r' = ru_project_id r \<and> ru_workflow_name r' = ru_workflow_name r \<and>
     ru_correlation_key r' = ru_correlation_key r \<and> ru_parent_run_id r' = ru_parent_run_id r \<and>
     ru_parent_attempt_id r' = ru_parent_attempt_id r \<and>
     (is_terminal_run_status (ru_status r) \<longrightarrow> placement_free r' = placement_free r)"

lemma run_lasts_refl: "run_lasts r r"
  by (simp add: run_lasts_def)

lemma run_lasts_trans:
  assumes "run_lasts a b" and "run_lasts b c"
  shows "run_lasts a c"
proof -
  have "placement_free c = placement_free a" if "is_terminal_run_status (ru_status a)"
  proof -
    from assms(1) that have ab: "placement_free b = placement_free a" by (simp add: run_lasts_def)
    from that have "is_terminal_run_status (ru_status b)" unfolding placement_freeD(4) [OF ab] .
    with assms(2) ab show ?thesis by (simp add: run_lasts_def)
  qed
  with assms show ?thesis by (simp add: run_lasts_def)
qed

lemma run_kept_lasts: "run_kept F r \<Longrightarrow> run_lasts r (F r)"
  by (auto simp: run_kept_def run_lasts_def)

lemma beside_lasts: "placement_free r' = placement_free r \<Longrightarrow> run_lasts r r'"
  using placement_freeD [of r' r] by (simp add: run_lasts_def)

lemma later_keeps_run:
  assumes "run_later c K d d'" and "run_reach c d" and "run_at d rid = Some r" and "rid \<in> K"
  shows "\<exists>r'. run_at d' rid = Some r' \<and> run_lasts r r'"
  using assms
proof (induction rule: run_later.induct)
  case later_same
  then show ?case using run_lasts_refl by blast
next
  case (later_call d1 e call d2)
  then obtain r1 where r1: "run_at d1 rid = Some r1" "run_lasts r r1" by blast
  from call_run_keeps_run [OF later_call(4) reach_keys [OF reach_later [OF later_call(1) later_call.prems(1)]] later_call(2) r1(1)]
  obtain F where "run_kept F r1" "run_at d2 rid = Some (F r1)" by blast
  with r1(2) run_lasts_trans run_kept_lasts show ?case by blast
next
  case (later_beside d1 d2)
  then obtain r1 where r1: "run_at d1 rid = Some r1" "run_lasts r r1" by blast
  from beside_run(1) [OF later_beside(2) r1(1)] obtain r2 where "run_at d2 rid = Some r2" "placement_free r2 = placement_free r1" by blast
  with r1(2) run_lasts_trans beside_lasts show ?case by blast
next
  case (later_forget d1 D d2)
  then obtain r1 where r1: "run_at d1 rid = Some r1" "run_lasts r r1" by blast
  have "rid \<notin> D" using later_forget(3) later_forget.prems(3) by blast
  with forgets_run [OF reach_keys [OF reach_later [OF later_forget(1) later_forget.prems(1)]] later_forget(2)] r1 show ?case by blast
qed

lemma later_keeps_signal:
  assumes "run_later c K d d'" and "run_reach c d" and "signal_at d sid = Some s" and "sg_run_id s \<in> K"
  shows "\<exists>Z. signal_kept Z s \<and> signal_at d' sid = Some (Z s)"
  using assms
proof (induction rule: run_later.induct)
  case later_same
  then show ?case by (auto simp: signal_kept_def intro!: exI [of _ "\<lambda>x. x"])
next
  case (later_call d1 e call d2)
  then obtain Z where Z: "signal_kept Z s" "signal_at d1 sid = Some (Z s)" by blast
  from call_run_keeps_signal [OF later_call(4) reach_keys [OF reach_later [OF later_call(1) later_call.prems(1)]] later_call(2) Z(2)]
  obtain Y where Y: "signal_kept Y (Z s)" "signal_at d2 sid = Some (Y (Z s))" by blast
  have "signal_kept (\<lambda>x. Y (Z x)) s" using Z(1) Y(1) unfolding signal_kept_def by metis
  with Y(2) show ?case by (intro exI [of _ "\<lambda>x. Y (Z x)"]) simp
next
  case (later_beside d1 d2)
  then show ?case using beside_others by metis
next
  case (later_forget d1 D d2)
  then obtain Z where Z: "signal_kept Z s" "signal_at d1 sid = Some (Z s)" by blast
  have "sg_run_id (Z s) \<notin> D" using Z(1) later_forget(3) later_forget.prems(3) by (auto simp: signal_kept_def)
  with forgets_signal [OF reach_keys [OF reach_later [OF later_forget(1) later_forget.prems(1)]] later_forget(2)] Z show ?case by blast
qed

lemma later_tenant: "run_later c K d d' \<Longrightarrow> run_reach c d \<Longrightarrow> rd_tenant_of d' = rd_tenant_of d"
proof (induction rule: run_later.induct)
  case (later_call d1 e call d2)
  then show ?case using call_run_keeps_tenant [OF later_call(4) reach_keys [OF reach_later [OF later_call(1) later_call.prems]] later_call(2)] by simp
next
  case (later_beside d1 d2)
  then show ?case using beside_others by metis
next
  case (later_forget d1 D d2)
  then show ?case by (simp add: forgets_def)
qed simp

section \<open>One child per attempt, and a bounded inbox\<close>

definition one_child :: "run_db \<Rightarrow> bool" where
  "one_child d \<longleftrightarrow>
     (\<forall>r \<in> set (rd_runs d). \<forall>q \<in> set (rd_runs d). ru_parent_attempt_id r \<noteq> None \<longrightarrow>
        ru_parent_attempt_id r = ru_parent_attempt_id q \<longrightarrow> ru_id r = ru_id q)"

definition inbox_within :: "run_db \<Rightarrow> bool" where
  "inbox_within d \<longleftrightarrow>
     (\<forall>rid. length (filter (\<lambda>s. sg_run_id s = rid) (rd_signals d)) \<le> RUN_SIGNAL_MAX_RECEIPTS \<and>
        length (filter (\<lambda>s. sg_run_id s = rid \<and> sg_status s = SignalBuffered) (rd_signals d)) \<le> RUN_SIGNAL_MAX_PENDING)"

lemma filter_map_le:
  "(\<And>x. x \<in> set xs \<Longrightarrow> P (f x) \<Longrightarrow> Q x) \<Longrightarrow> length (filter P (map f xs)) \<le> length (filter Q xs)"
  by (induction xs) (auto simp: le_SucI)

lemma kept_one_child:
  assumes "kept_db d d'" and "one_child d"
  shows "one_child d'"
proof -
  from assms(1) obtain F where F: "rd_runs d' = map F (rd_runs d)" "\<forall>r \<in> set (rd_runs d). run_kept F r" by (auto simp: kept_db_def)
  have "ru_id (F r) = ru_id r \<and> ru_parent_attempt_id (F r) = ru_parent_attempt_id r" if "r \<in> set (rd_runs d)" for r
    using F(2) that by (simp add: run_kept_def)
  then show ?thesis
    using assms(2) unfolding one_child_def F(1) set_map ball_simps by simp
qed

lemma one_child_add:
  assumes "one_child d"
    and "ru_parent_attempt_id n = None \<or> (\<forall>r \<in> set (rd_runs d). ru_parent_attempt_id r \<noteq> ru_parent_attempt_id n)"
  shows "one_child (d\<lparr>rd_runs := rd_runs d @ [n]\<rparr>)"
  unfolding one_child_def
proof (intro ballI impI)
  fix r q
  assume rq: "r \<in> set (rd_runs (d\<lparr>rd_runs := rd_runs d @ [n]\<rparr>))" "q \<in> set (rd_runs (d\<lparr>rd_runs := rd_runs d @ [n]\<rparr>))"
    and some: "ru_parent_attempt_id r \<noteq> None" and eq: "ru_parent_attempt_id r = ru_parent_attempt_id q"
  from rq consider "r = n" "q = n" | "r = n" "q \<in> set (rd_runs d)" | "r \<in> set (rd_runs d)" "q = n"
    | "r \<in> set (rd_runs d)" "q \<in> set (rd_runs d)" by auto
  then show "ru_id r = ru_id q"
  proof cases
    case 1 then show ?thesis by simp
  next
    case 2 with assms(2) some eq show ?thesis by metis
  next
    case 3 with assms(2) some eq show ?thesis by metis
  next
    case 4 with assms(1) some eq show ?thesis unfolding one_child_def by blast
  qed
qed

lemma kept_counts:
  "signal_kept Z s \<Longrightarrow> sg_run_id (Z s) = rid \<and> sg_status (Z s) = SignalBuffered \<Longrightarrow> sg_run_id s = rid \<and> sg_status s = SignalBuffered"
  unfolding signal_kept_def by metis

lemma kept_inbox_within:
  assumes "kept_db d d'" and "inbox_within d"
  shows "inbox_within d'"
proof -
  from assms(1) obtain Z where Z: "rd_signals d' = map Z (rd_signals d)" "\<forall>s \<in> set (rd_signals d). signal_kept Z s" by (auto simp: kept_db_def)
  show ?thesis
    unfolding inbox_within_def Z(1)
  proof (intro allI conjI)
    fix rid
    have "length (filter (\<lambda>s. sg_run_id s = rid) (map Z (rd_signals d))) \<le> length (filter (\<lambda>s. sg_run_id s = rid) (rd_signals d))"
      by (rule filter_map_le) (use Z(2) in \<open>simp add: signal_kept_def\<close>)
    with assms(2) show "length (filter (\<lambda>s. sg_run_id s = rid) (map Z (rd_signals d))) \<le> RUN_SIGNAL_MAX_RECEIPTS"
      unfolding inbox_within_def using order_trans by blast
    have "length (filter (\<lambda>s. sg_run_id s = rid \<and> sg_status s = SignalBuffered) (map Z (rd_signals d))) \<le>
        length (filter (\<lambda>s. sg_run_id s = rid \<and> sg_status s = SignalBuffered) (rd_signals d))"
      by (rule filter_map_le) (use Z(2) kept_counts in blast)
    with assms(2) show "length (filter (\<lambda>s. sg_run_id s = rid \<and> sg_status s = SignalBuffered) (map Z (rd_signals d))) \<le> RUN_SIGNAL_MAX_PENDING"
      unfolding inbox_within_def using order_trans by blast
  qed
qed

lemma reach_one_child: "run_reach c d \<Longrightarrow> one_child d"
proof (induction rule: run_reach.induct)
  case (begin_runs d) then show ?case by (simp add: no_runs_def one_child_def)
next
  case (call_runs d e call d')
  note ok = run_reach_ok [OF call_runs(1)]
  from call_runs(4) reach_keys [OF call_runs(1)] call_runs(2) show ?case
  proof (cases rule: call_run_kept)
    case kept then show ?thesis using kept_one_child call_runs(5) by blast
  next
    case (started tenant q)
    have "one_child (d\<lparr>rd_runs := rd_runs d @ [started_run (re_now e) q]\<rparr>)"
      using call_runs(5) one_child_add [of d] by (simp add: started_run_def)
    with started(3) kept_one_child show ?thesis by blast
  next
    case (child aid job q state ctx desc)
    from child(2) have a: "attempt_at d aid = Some (cx_attempt ctx)" by (auto simp: lock_active_attempt_Some)
    have uk: "unique_keys ru_id (rd_runs d)" using reach_keys [OF call_runs(1)] by (simp add: keys_ok_def)
    have "ru_parent_attempt_id r \<noteq> Some aid" if "r \<in> set (rd_runs d)" for r
      using running_no_child [OF run_okD(3) [OF ok] _ a child(3)] find_row_unique [OF uk that] by blast
    moreover have "ru_parent_attempt_id (child_run e ctx q desc) = Some aid"
      using at_id(3) [OF a] by (simp add: child_run_def Let_def)
    ultimately have "one_child (d\<lparr>rd_runs := rd_runs d @ [child_run e ctx q desc]\<rparr>)"
      using call_runs(5) one_child_add [of d] by simp
    with child(4) kept_one_child show ?thesis by blast
  next
    case (signal se q payload)
    have "one_child (d\<lparr>rd_signals := rd_signals d @ [new_signal e q payload d]\<rparr>)" using call_runs(5) by (simp add: one_child_def)
    with signal(3) kept_one_child show ?thesis by blast
  qed
next
  case (beside_runs d d')
  from beside_runs(2) have m: "map placement_free (rd_runs d') = map placement_free (rd_runs d)" by (simp add: beside_def)
  have row: "\<exists>x \<in> set (rd_runs d). placement_free r = placement_free x" if "r \<in> set (rd_runs d')" for r
  proof -
    from that have "placement_free r \<in> set (map placement_free (rd_runs d))" unfolding m [symmetric] by simp
    then show ?thesis by auto
  qed
  show ?case
    unfolding one_child_def
  proof (intro ballI impI)
    fix r q assume "r \<in> set (rd_runs d')" "q \<in> set (rd_runs d')" and p: "ru_parent_attempt_id r \<noteq> None" "ru_parent_attempt_id r = ru_parent_attempt_id q"
    with row obtain x y where x: "x \<in> set (rd_runs d)" "placement_free r = placement_free x"
      and y: "y \<in> set (rd_runs d)" "placement_free q = placement_free y" by blast
    with p placement_freeD(1,10) [OF x(2)] placement_freeD(1,10) [OF y(2)] beside_runs(3) show "ru_id r = ru_id q"
      unfolding one_child_def by metis
  qed
next
  case (forget_runs d D d') then show ?case by (auto simp: forgets_def one_child_def)
qed

lemma reach_inbox_within: "run_reach c d \<Longrightarrow> inbox_within d"
proof (induction rule: run_reach.induct)
  case (begin_runs d) then show ?case by (simp add: no_runs_def inbox_within_def)
next
  case (call_runs d e call d')
  from call_runs(4) reach_keys [OF call_runs(1)] call_runs(2) show ?case
  proof (cases rule: call_run_kept)
    case kept then show ?thesis using kept_inbox_within call_runs(5) by blast
  next
    case (started tenant q)
    have "inbox_within (d\<lparr>rd_runs := rd_runs d @ [started_run (re_now e) q]\<rparr>)" using call_runs(5) by (simp add: inbox_within_def)
    with started(3) kept_inbox_within show ?thesis by blast
  next
    case (child aid job q state ctx desc)
    have "inbox_within (d\<lparr>rd_runs := rd_runs d @ [child_run e ctx q desc]\<rparr>)" using call_runs(5) by (simp add: inbox_within_def)
    with child(4) kept_inbox_within show ?thesis by blast
  next
    case (signal se q payload)
    have "inbox_within (d\<lparr>rd_signals := rd_signals d @ [new_signal e q payload d]\<rparr>)"
      using call_runs(5) signal(2) by (auto simp: inbox_within_def room_for_signal_def Suc_le_eq)
    with signal(3) kept_inbox_within show ?thesis by blast
  qed
next
  case (beside_runs d d') then show ?case using beside_others [OF beside_runs(2)] by (simp add: inbox_within_def)
next
  case (forget_runs d D d')
  have le: "length (filter P (filter Q xs)) \<le> length (filter P xs)" for P Q and xs :: "signal_row list"
    by (induction xs) auto
  from forget_runs(2) have rows: "rd_signals d' = filter (\<lambda>s. sg_run_id s \<notin> D) (rd_signals d)" by (simp add: forgets_def)
  show ?case
    unfolding inbox_within_def rows using forget_runs(3) [unfolded inbox_within_def] by (intro allI conjI order_trans [OF le]) simp_all
qed

end
