(* ===== verification/Run_Tree.thy ===== *)
theory Run_Tree
  imports Run_Later
begin

text \<open>
  The runs under a run, by the links to their parents, and that the walk \<open>lock_run_hierarchy\<close> makes over
  them leaves none out.
\<close>

section \<open>The runs under a run\<close>

inductive under :: "run_row list \<Rightarrow> ident \<Rightarrow> ident \<Rightarrow> bool" for rows above where
  under_self: "under rows above above"
| under_child: "under rows above p \<Longrightarrow> r \<in> set rows \<Longrightarrow> ru_parent_run_id r = Some p \<Longrightarrow> under rows above (ru_id r)"

section \<open>The walk\<close>

abbreviation ids_of :: "run_row list \<Rightarrow> ident set" where "ids_of runs \<equiv> ru_id ` set runs"

lemma fold_add_run:
  "\<exists>ys. fold add_run rs runs = runs @ ys \<and> ids_of rs \<subseteq> ids_of (runs @ ys)"
proof (induction rs arbitrary: runs)
  case (Cons r rs)
  obtain y where y: "add_run r runs = runs @ y" "ru_id r \<in> ids_of (runs @ y)"
    by (cases "ru_id r \<in> ids_of runs") (simp_all add: add_run_def)
  from Cons [of "runs @ y"] obtain ys where "fold add_run rs (runs @ y) = (runs @ y) @ ys" "ids_of rs \<subseteq> ids_of ((runs @ y) @ ys)" by blast
  with y show ?case by (intro exI [of _ "y @ ys"]) auto
qed simp

text \<open>Whose children are all listed.\<close>

definition closed_at :: "run_row list \<Rightarrow> run_row list \<Rightarrow> nat \<Rightarrow> bool" where
  "closed_at rows runs j \<longleftrightarrow> ids_of (children_of rows (runs ! j)) \<subseteq> ids_of runs"

lemma run_hierarchy_closed:
  "(\<And>j. j < i \<Longrightarrow> j < length runs \<Longrightarrow> closed_at rows runs j) \<Longrightarrow>
     (\<exists>ys. run_hierarchy rows i runs = runs @ ys) \<and>
     (\<forall>j < length (run_hierarchy rows i runs). closed_at rows (run_hierarchy rows i runs) j)"
proof (induction rows i runs rule: run_hierarchy.induct)
  case (1 rows i runs)
  show ?case
  proof (cases "i < length runs")
    case True
    obtain ys where ys: "fold add_run (children_of rows (runs ! i)) runs = runs @ ys"
      "ids_of (children_of rows (runs ! i)) \<subseteq> ids_of (runs @ ys)" using fold_add_run by blast
    have "closed_at rows (runs @ ys) j" if "j < Suc i" "j < length (runs @ ys)" for j
    proof (cases "j = i")
      case True
      with ys(2) \<open>i < length runs\<close> show ?thesis by (simp add: closed_at_def nth_append)
    next
      case False
      with that \<open>i < length runs\<close> 1(2) have "closed_at rows runs j" "j < length runs" by auto
      then show ?thesis by (auto simp: closed_at_def nth_append)
    qed
    from 1(1) [OF True, unfolded ys(1), OF this] have "(\<exists>zs. run_hierarchy rows (Suc i) (runs @ ys) = (runs @ ys) @ zs) \<and>
        (\<forall>j < length (run_hierarchy rows (Suc i) (runs @ ys)). closed_at rows (run_hierarchy rows (Suc i) (runs @ ys)) j)" by blast
    moreover have "run_hierarchy rows i runs = run_hierarchy rows (Suc i) (runs @ ys)"
      using True by (subst run_hierarchy.simps) (simp add: ys(1))
    ultimately show ?thesis by auto
  next
    case False
    then have "run_hierarchy rows i runs = runs" by (subst run_hierarchy.simps) simp
    with 1(2) False show ?thesis by simp
  qed
qed

lemma hierarchy_complete:
  assumes "under (rd_runs d) (ru_id topmost) x"
  shows "x \<in> ids_of (lock_run_hierarchy topmost d)"
proof -
  let ?runs = "lock_run_hierarchy topmost d"
  from run_hierarchy_closed [of 0 "[topmost]" "rd_runs d"]
  have walk: "\<exists>ys. ?runs = [topmost] @ ys" "\<And>j. j < length ?runs \<Longrightarrow> closed_at (rd_runs d) ?runs j"
    by (simp_all add: lock_run_hierarchy_def)
  from assms show ?thesis
  proof (induction rule: under.induct)
    case under_self
    from walk(1) show ?case by auto
  next
    case (under_child p r)
    then obtain j where j: "j < length ?runs" "ru_id (?runs ! j) = p" by (auto simp: in_set_conv_nth)
    with under_child have "r \<in> set (children_of (rd_runs d) (?runs ! j))" by (simp add: children_of_def)
    with walk(2) [OF j(1)] show ?case by (auto simp: closed_at_def)
  qed
qed

lemma tree_open_ids:
  assumes "run_at d rid = Some topmost" and "unique_keys ru_id (rd_runs d)" and "under (rd_runs d) rid x" and x: "run_at d x = Some r"
    and "\<not> is_terminal_run_status (ru_status r)"
  shows "x \<in> ids_of (tree_open topmost d)"
proof -
  from find_row_Some [OF assms(1)] assms(3) have "x \<in> ids_of (lock_run_hierarchy topmost d)" by (intro hierarchy_complete) simp
  then obtain q where q: "q \<in> set (lock_run_hierarchy topmost d)" "ru_id q = x" by auto
  with hierarchy_rows [OF assms(1)] have "q \<in> set (rd_runs d)" by blast
  from find_row_unique [OF assms(2) this] q(2) x have "q = r" by simp
  with q assms(5) show ?thesis by (auto simp: tree_open_def)
qed

section \<open>What a cancellation leaves of an open run in the tree\<close>

lemma fold_release_rows:
  "rd_jobs (fold (release_root now) rs d) = rd_jobs d" "rd_invocations (fold (release_root now) rs d) = rd_invocations d"
  "rd_runs (fold (release_root now) rs d) = rd_runs d"
  by (induction rs arbitrary: d) (simp_all add: effects)

lemma canceled_open:
  assumes ci: "cancel_in e tenant rid reason d = Inr (x, d')" and uk: "unique_keys ru_id (rd_runs d)"
    and u: "under (rd_runs d) rid y" and r: "run_at d y = Some r" and o': "\<not> is_terminal_run_status (ru_status r)"
  shows "run_at d' y = Some (r\<lparr>ru_cancel_requested_at := Some (re_now e), ru_cancel_reason := reason, ru_status := RunCanceled,
      ru_completed_at := Some (re_now e), ru_updated_at := re_now e\<rparr>) \<and>
    (\<forall>j \<in> set (rd_jobs d'). ej_workflow_run_id j = y \<longrightarrow> \<not> live_job (ej_status j)) \<and>
    (\<forall>i \<in> set (rd_invocations d'). ai_run_id i \<noteq> y)"
  using ci
proof (rule cancel_in_cases)
  fix topmost assume top': "run_at d rid = Some topmost"
  let ?ids = "ids_of (tree_open topmost d)"
  have y: "y \<in> ?ids" by (rule tree_open_ids [OF top' uk u r o'])
  assume "d' = d \<and> tree_open topmost d = [] \<or>
    d' = fold (release_root (re_now e)) (tree_open topmost d) (cancel_runs (re_now e) reason ?ids d)"
  with y have d': "d' = fold (release_root (re_now e)) (tree_open topmost d) (cancel_runs (re_now e) reason ?ids d)" by auto
  let ?f = "\<lambda>r. r\<lparr>ru_cancel_requested_at := Some (re_now e), ru_cancel_reason := reason, ru_status := RunCanceled,
    ru_completed_at := Some (re_now e), ru_updated_at := re_now e\<rparr>"
  have "run_at d' y = map_option (\<lambda>r. if ru_id r \<in> ?ids then ?f r else r) (run_at d y)"
    unfolding d' fold_release_rows cancel_runs_rows update_where_def by (rule find_row_map_rows) simp
  moreover have "\<forall>j \<in> set (rd_jobs d'). ej_workflow_run_id j = y \<longrightarrow> \<not> live_job (ej_status j)"
    unfolding d' fold_release_rows cancel_runs_rows update_where_def using y
    by (auto simp: canceled_now_def unleased_def live_job_def)
  moreover have "\<forall>i \<in> set (rd_invocations d'). ai_run_id i \<noteq> y"
    unfolding d' fold_release_rows cancel_runs_rows using y by auto
  ultimately show ?thesis using r y at_id(1) [OF r] by simp
qed

end
