(* ===== verification/Run_Retention.thy ===== *)
theory Run_Retention
  imports Run_Tree
begin

text \<open>
  The writers of workflow runs beside the coordinator: node recovery, which moves the runs of an allocation
  (\<open>node-recovery-service.ts\<close>), the record of a rate limit on an attempt (\<open>boundary-execution-handler.ts\<close>),
  and retention, which deletes what ended long ago (\<open>retention-service.ts\<close>). Each is one of the steps
  \<open>run_reach\<close> and \<open>run_later\<close> allow beside the calls.
\<close>

section \<open>Moving and stamping\<close>

text \<open>The statement node recovery moves an allocation's runs with, ended child runs too.\<close>

definition move_runs :: "instant \<Rightarrow> ident \<Rightarrow> ident \<Rightarrow> run_db \<Rightarrow> run_db" where
  "move_runs now old next d =
     d\<lparr>rd_runs := update_where (\<lambda>r. ru_allocation_id r = Some old)
        (\<lambda>r. r\<lparr>ru_allocation_id := Some next, ru_updated_at := now\<rparr>) (rd_runs d)\<rparr>"

text \<open>\<open>recordRateBlock\<close>; the columns of the block itself are not among those modelled.\<close>

definition record_rate_block :: "instant \<Rightarrow> ident \<Rightarrow> run_db \<Rightarrow> run_db" where
  "record_rate_block now aid d = update_attempts (\<lambda>a. sa_id a = aid) (\<lambda>a. a\<lparr>sa_updated_at := now\<rparr>) d"

lemma move_runs_beside: "beside d (move_runs now old next d)"
  by (simp add: beside_def move_runs_def update_where_def placement_free_def)

lemma record_rate_block_beside: "beside d (record_rate_block now aid d)"
  by (simp add: beside_def record_rate_block_def update_attempts_def update_where_def unstamped_def)

section \<open>Retention\<close>

record retention =
  rt_enabled :: bool
  rt_days :: nat
  rt_batch :: nat
  rt_policy :: "ident \<Rightarrow> nat option"

definition DAY_MS :: int where "DAY_MS = 24 * 60 * 60 * 1000"

text \<open>The instant before which a project's ended runs go: its tenant's policy, or the installation's days.\<close>

definition purge_before :: "retention \<Rightarrow> instant \<Rightarrow> ident \<Rightarrow> instant" where
  "purge_before rt now tenant = now - int (or_default (rt_policy rt tenant) (rt_days rt)) * DAY_MS"

definition purge_candidate :: "retention \<Rightarrow> instant \<Rightarrow> run_db \<Rightarrow> run_row \<Rightarrow> bool" where
  "purge_candidate rt now d r \<longleftrightarrow>
     is_terminal_run_status (ru_status r) \<and>
     (case ru_completed_at r of None \<Rightarrow> False | Some t \<Rightarrow> t < purge_before rt now (rd_tenant_of d (ru_project_id r))) \<and>
     ru_parent_run_id r = None"

definition earliest :: "nat \<Rightarrow> run_row list \<Rightarrow> run_row list" where
  "earliest n rs = take n (sort_key (\<lambda>r. case ru_completed_at r of None \<Rightarrow> 0 | Some t \<Rightarrow> t) rs)"

definition purge_candidates :: "retention \<Rightarrow> instant \<Rightarrow> nat \<Rightarrow> run_db \<Rightarrow> run_row list" where
  "purge_candidates rt now n d =
     earliest n (concat (map (\<lambda>pid. earliest n (filter (\<lambda>r. ru_project_id r = pid \<and> purge_candidate rt now d r) (rd_runs d)))
       (remdups (map ru_project_id (rd_runs d)))))"

text \<open>A tree with a run that has not ended stays whole.\<close>

definition purge_blocked :: "run_db \<Rightarrow> run_row \<Rightarrow> bool" where
  "purge_blocked d top' \<longleftrightarrow> (\<exists>r \<in> set (lock_run_hierarchy top' d). \<not> is_terminal_run_status (ru_status r))"

text \<open>Deleting runs takes along, by the foreign keys that cascade, what hangs off them.\<close>

definition delete_runs :: "ident set \<Rightarrow> run_db \<Rightarrow> run_db" where
  "delete_runs D d =
     d\<lparr>rd_runs := filter (\<lambda>r. ru_id r \<notin> D) (rd_runs d), rd_states := filter (\<lambda>s. rs_run_id s \<notin> D) (rd_states d),
       rd_attempts := filter (\<lambda>a. sa_run_id a \<notin> D) (rd_attempts d), rd_pauses := filter (\<lambda>p. pz_run_id p \<notin> D) (rd_pauses d),
       rd_signals := filter (\<lambda>s. sg_run_id s \<notin> D) (rd_signals d), rd_jobs := filter (\<lambda>j. ej_workflow_run_id j \<notin> D) (rd_jobs d),
       rd_invocations := filter (\<lambda>i. ai_run_id i \<notin> D) (rd_invocations d),
       rd_batch := (rd_batch d)\<lparr>bd_states := filter (\<lambda>(rid, _). rid \<notin> D) (bd_states (rd_batch d)),
         bd_items := filter (\<lambda>b. bt_run_id b \<notin> D) (bd_items (rd_batch d)),
         bd_invocations := filter (\<lambda>b. bt_run_id b \<notin> D) (bd_invocations (rd_batch d)),
         bd_members := filter (\<lambda>b. bt_run_id b \<notin> D) (bd_members (rd_batch d)),
         bd_item_steps := filter (\<lambda>b. bt_run_id b \<notin> D) (bd_item_steps (rd_batch d)),
         bd_sink_chunks := filter (\<lambda>b. bt_run_id b \<notin> D) (bd_sink_chunks (rd_batch d))\<rparr>\<rparr>"

definition purged_ids :: "run_db \<Rightarrow> run_row list \<Rightarrow> ident set" where
  "purged_ids d tops = (\<Union>t \<in> set tops. ids_of (lock_run_hierarchy t d))"

definition purge_expired_runs :: "retention \<Rightarrow> instant \<Rightarrow> nat option \<Rightarrow> run_db \<Rightarrow> nat \<times> run_db" where
  "purge_expired_runs rt now limit d =
     (if \<not> rt_enabled rt then (0, d)
      else
        (let n = max 1 (min (or_default limit (rt_batch rt)) 50000);
             tops = filter (\<lambda>r. \<not> purge_blocked d r) (purge_candidates rt now n d)
         in (length tops, delete_runs (purged_ids d tops) d)))"

section \<open>A purge deletes whole trees that ended\<close>

lemma fold_add_run_sound: "x \<in> ids_of (fold add_run rs runs) \<Longrightarrow> x \<in> ids_of rs \<or> x \<in> ids_of runs"
proof (induction rs arbitrary: runs)
  case (Cons r rs)
  from Cons.IH [of "add_run r runs"] Cons.prems show ?case by (auto simp: add_run_def split: if_splits)
qed simp

lemma run_hierarchy_sound:
  "(\<And>x. x \<in> ids_of runs \<Longrightarrow> under rows home x) \<Longrightarrow> x \<in> ids_of (run_hierarchy rows i runs) \<Longrightarrow> under rows home x"
proof (induction rows i runs rule: run_hierarchy.induct)
  case (1 rows i runs)
  show ?case
  proof (cases "i < length runs")
    case True
    have "under rows home y" if y: "y \<in> ids_of (fold add_run (children_of rows (runs ! i)) runs)" for y
    proof (cases "y \<in> ids_of runs")
      case False
      with fold_add_run_sound [OF y] obtain r where r: "r \<in> set rows" "ru_parent_run_id r = Some (ru_id (runs ! i))" "y = ru_id r"
        by (auto simp: children_of_def)
      have "under rows home (ru_id (runs ! i))" by (rule 1(2)) (use True in simp)
      from under_child [OF this r(1,2)] r(3) show ?thesis by simp
    qed (rule 1(2))
    moreover have "x \<in> ids_of (run_hierarchy rows (Suc i) (fold add_run (children_of rows (runs ! i)) runs))"
      using 1(3) True by (subst (asm) run_hierarchy.simps) simp
    ultimately show ?thesis using 1(1) [OF True] by blast
  next
    case False
    with 1(3) have "x \<in> ids_of runs" by (subst (asm) run_hierarchy.simps) simp
    then show ?thesis by (rule 1(2))
  qed
qed

lemma hierarchy_ids: "ids_of (lock_run_hierarchy topmost d) = {x. under (rd_runs d) (ru_id topmost) x}"
proof
  show "ids_of (lock_run_hierarchy topmost d) \<subseteq> {x. under (rd_runs d) (ru_id topmost) x}"
  proof (rule subsetI, rule CollectI)
    fix x assume "x \<in> ids_of (lock_run_hierarchy topmost d)"
    then show "under (rd_runs d) (ru_id topmost) x"
      unfolding lock_run_hierarchy_def by (rule run_hierarchy_sound [rotated]) (auto intro: under_self)
  qed
  show "{x. under (rd_runs d) (ru_id topmost) x} \<subseteq> ids_of (lock_run_hierarchy topmost d)"
    using hierarchy_complete by auto
qed

lemma delete_forgets:
  assumes keys: "keys_ok d" and roots: "\<And>t. t \<in> set tops \<Longrightarrow> t \<in> set (rd_runs d) \<and> ru_parent_run_id t = None"
  shows "forgets (purged_ids d tops) d (delete_runs (purged_ids d tops) d)"
proof -
  have uk: "unique_keys ru_id (rd_runs d)" using keys by (simp add: keys_ok_def)
  have ids: "purged_ids d tops = (\<Union>t \<in> set tops. {x. under (rd_runs d) (ru_id t) x})" by (simp add: purged_ids_def hierarchy_ids)
  have "ru_id r \<in> purged_ids d tops \<longleftrightarrow> p \<in> purged_ids d tops" if r: "r \<in> set (rd_runs d)" "ru_parent_run_id r = Some p" for r p
  proof
    assume "p \<in> purged_ids d tops"
    then show "ru_id r \<in> purged_ids d tops" unfolding ids using under_child r by fastforce
  next
    assume "ru_id r \<in> purged_ids d tops"
    then obtain t where t: "t \<in> set tops" "under (rd_runs d) (ru_id t) (ru_id r)" unfolding ids by blast
    have one: "r = y" if "y \<in> set (rd_runs d)" "ru_id y = ru_id r" for y
      using find_row_unique [OF uk r(1)] find_row_unique [OF uk that(1)] that(2) by simp
    from t(2) have "under (rd_runs d) (ru_id t) p"
    proof (cases rule: under.cases)
      case under_self
      from one [of t] under_self roots [OF t(1)] have "r = t" by simp
      with roots [OF t(1)] r(2) show ?thesis by simp
    next
      case (under_child q x)
      from one [of x] under_child have "r = x" by simp
      with under_child(2,4) r(2) show ?thesis by simp
    qed
    with t(1) show "p \<in> purged_ids d tops" unfolding ids by blast
  qed
  then show ?thesis by (simp add: forgets_def delete_runs_def)
qed

lemma purge_candidates_rows: "r \<in> set (purge_candidates rt now n d) \<Longrightarrow> r \<in> set (rd_runs d) \<and> purge_candidate rt now d r"
  by (auto simp: purge_candidates_def earliest_def dest!: in_set_takeD)

text \<open>Every run a purge deletes had ended, and no run stays behind whose parent it deleted.\<close>

lemma purge_forgets:
  assumes keys: "keys_ok d" and run: "purge_expired_runs rt now limit d = (n, d')"
  shows "\<exists>D. forgets D d d' \<and> (\<forall>x \<in> D. \<exists>r. run_at d x = Some r \<and> is_terminal_run_status (ru_status r))"
proof (cases "rt_enabled rt")
  case False
  with run have "d' = d" by (simp add: purge_expired_runs_def)
  then show ?thesis by (intro exI [of _ "{}"]) (simp add: forgets_def)
next
  case True
  have uk: "unique_keys ru_id (rd_runs d)" using keys by (simp add: keys_ok_def)
  define tops where "tops = filter (\<lambda>r. \<not> purge_blocked d r) (purge_candidates rt now (max 1 (min (or_default limit (rt_batch rt)) 50000)) d)"
  have d': "d' = delete_runs (purged_ids d tops) d" using run True by (simp add: purge_expired_runs_def Let_def tops_def)
  have roots: "t \<in> set (rd_runs d) \<and> ru_parent_run_id t = None" if "t \<in> set tops" for t
    using that purge_candidates_rows by (fastforce simp: tops_def purge_candidate_def)
  have "\<exists>r. run_at d x = Some r \<and> is_terminal_run_status (ru_status r)" if "x \<in> purged_ids d tops" for x
  proof -
    from that obtain t r where t: "t \<in> set tops" "r \<in> set (lock_run_hierarchy t d)" "x = ru_id r" by (auto simp: purged_ids_def)
    then have "is_terminal_run_status (ru_status r)" by (auto simp: tops_def purge_blocked_def)
    moreover have "r \<in> set (rd_runs d)" using hierarchy_rows [OF find_row_unique [OF uk]] roots [OF t(1)] t(2) by blast
    ultimately show ?thesis using find_row_unique [OF uk] t(3) by blast
  qed
  with delete_forgets [OF keys roots] d' show ?thesis by blast
qed

text \<open>So a state stays reachable whatever these writers do.\<close>

lemma others_reach:
  assumes "run_reach c d"
  shows "run_reach c (move_runs now old next d)" "run_reach c (record_rate_block now aid d)"
    "run_reach c (snd (purge_expired_runs rt now limit d))"
proof -
  show "run_reach c (move_runs now old next d)" by (rule beside_runs [OF assms move_runs_beside])
  show "run_reach c (record_rate_block now aid d)" by (rule beside_runs [OF assms record_rate_block_beside])
  obtain n d' where p: "purge_expired_runs rt now limit d = (n, d')" by (cases "purge_expired_runs rt now limit d")
  from purge_forgets [OF reach_keys [OF assms] p] obtain D where "forgets D d d'" by blast
  with p show "run_reach c (snd (purge_expired_runs rt now limit d))" by (simp add: forget_runs [OF assms])
qed

end
