(* ===== verification/Run_Example.thy ===== *)
theory Run_Example
  imports Run_Kept
begin

text \<open>A run that pauses, one that completes and one that calls a child, with the calls that lead there.\<close>

section \<open>Ids that tell\<close>

definition ex_attempt_id :: "ident \<Rightarrow> nat \<Rightarrow> nat \<Rightarrow> ident" where
  "ex_attempt_id rid i n = replicate i (CHR ''i'') @ CHR ''.'' # replicate n (CHR ''n'') @ CHR ''.'' # rid"

lemma replicate_split: "replicate i x @ y # xs = replicate j x @ y # ys \<Longrightarrow> x \<noteq> y \<Longrightarrow> i = j \<and> xs = ys"
proof (induction i arbitrary: j)
  case 0
  then show ?case by (cases j) auto
next
  case (Suc i)
  then show ?case by (cases j) auto
qed

lemma ex_attempt_id_inj: "ex_attempt_id rid i n = ex_attempt_id rid' i' n' \<longleftrightarrow> rid = rid' \<and> i = i' \<and> n = n'"
  unfolding ex_attempt_id_def by (auto dest!: replicate_split)

definition ex_env :: run_env where
  "ex_env = \<lparr>re_now = 10, re_host = 10, re_attempt_id = ex_attempt_id, re_job_id = (\<lambda>a. ''job '' @ a),
     re_pause_id = ''pause'', re_signal_id = ''signal'', re_child_id = ''child''\<rparr>"

lemma ex_fresh:
  assumes "\<And>a. a \<in> set (rd_attempts d) \<Longrightarrow> sa_id a = ex_attempt_id (sa_run_id a) (sa_step_index a) (sa_attempt a)"
    and "''pause'' \<notin> pz_id ` set (rd_pauses d)" "''signal'' \<notin> sg_id ` set (rd_signals d)" "''child'' \<notin> ru_id ` set (rd_runs d)"
  shows "fresh_ids ex_env d"
  using assms by (auto simp: fresh_ids_def fresh_attempts_def ex_env_def ex_attempt_id_inj)

text \<open>The calls after one that made a child or a pause.\<close>

definition ex_env2 :: run_env where
  "ex_env2 = ex_env\<lparr>re_child_id := ''child 2'', re_pause_id := ''pause 2''\<rparr>"

lemma ex_fresh2:
  assumes "\<And>a. a \<in> set (rd_attempts d) \<Longrightarrow> sa_id a = ex_attempt_id (sa_run_id a) (sa_step_index a) (sa_attempt a)"
    and "''pause 2'' \<notin> pz_id ` set (rd_pauses d)" "''signal'' \<notin> sg_id ` set (rd_signals d)" "''child 2'' \<notin> ru_id ` set (rd_runs d)"
  shows "fresh_ids ex_env2 d"
  using assms by (auto simp: fresh_ids_def fresh_attempts_def ex_env2_def ex_env_def ex_attempt_id_inj)

section \<open>The program and its callers\<close>

definition ex_coordinator :: coordinator where
  "ex_coordinator = \<lparr>co_number = (\<lambda>_. Finite 1), co_sha256 = (\<lambda>_. ''hash'')\<rparr>"

definition ex_step :: "nat \<Rightarrow> step_descriptor" where
  "ex_step i = \<lparr>sd_executor = ByBoundary, sd_index = i, sd_node_id = ''node'', sd_unit = JObj []\<rparr>"

definition ex_no_runs :: run_db where
  "ex_no_runs = \<lparr>rd_tenant_of = (\<lambda>_. ''tenant''), rd_runs = [], rd_states = [], rd_attempts = [], rd_pauses = [], rd_signals = [],
     rd_sequence = 0, rd_jobs = [], rd_invocations = [], rd_allocations = [], rd_waits = [], rd_grants = [], rd_nodes = [],
     rd_policies = [], rd_requirements = [], rd_batch = \<lparr>bd_states = [], bd_items = [], bd_invocations = [], bd_members = [],
       bd_item_steps = [], bd_sink_chunks = []\<rparr>\<rparr>"

definition ex_new_run :: new_run where
  "ex_new_run = \<lparr>nr_id = ''run'', nr_project_id = ''project'', nr_workflow_name = ''flow'', nr_allocation_id = None,
     nr_environment_name = None, nr_correlation_key = Some ''key'', nr_provenance = [], nr_capabilities = JArr [],
     nr_artifact_id = ''artifact'', nr_session_artifact_id = None, nr_external_user_id = ''user'', nr_scope = None,
     nr_execution_scope = None, nr_connection_scope = None, nr_held = [], nr_declared = [], nr_plan = [ex_step 0],
     nr_input = JNull\<rparr>"

text \<open>A worker took the job of the attempt.\<close>

definition ex_lease_job :: "ident \<Rightarrow> ident \<Rightarrow> job_row" where
  "ex_lease_job rid aid = ex_leased_job\<lparr>ej_workflow_run_id := rid, ej_workflow_step_attempt_id := Some aid, ej_lease_expires_at := Some 1000\<rparr>"

definition ex_worker :: "ident \<Rightarrow> ident \<Rightarrow> execution_job" where
  "ex_worker rid aid = map_execution_job (ex_lease_job rid aid)"

definition ex_leased :: "ident \<Rightarrow> run_db \<Rightarrow> run_db" where
  "ex_leased rid d = d\<lparr>rd_jobs := [ex_lease_job rid (ex_attempt_id rid 0 1)]\<rparr>"

abbreviation ex_aid :: ident where "ex_aid \<equiv> ex_attempt_id ''run'' 0 1"

definition ex_begin :: "ident \<Rightarrow> run_call" where
  "ex_begin rid = BeginAttempt (ex_worker rid (ex_attempt_id rid 0 1)) BoundaryPhase"

definition ex_pause_call :: run_call where
  "ex_pause_call = SuspendForPause ex_aid (ex_worker ''run'' ex_aid) [(''signal'', JStr ''go'')]"

definition ex_signal_env :: signal_env where
  "ex_signal_env = \<lparr>se_scalar = (\<lambda>_. ''null''), se_octets = length, se_sha256 = (\<lambda>s. s), se_storable = (\<lambda>s. s)\<rparr>"

definition ex_signal :: signal_request where
  "ex_signal = \<lparr>sq_tenant = ''tenant'', sq_project_id = ''project'', sq_workflow_name = ''flow'', sq_correlation_key = ''key'',
     sq_run_id = ''run'', sq_signal = ''go'', sq_key = ''once'', sq_value = JNull\<rparr>"

definition ex_child_request :: child_request where
  "ex_child_request = \<lparr>cr_workflow_name = ''inner'', cr_capabilities = JArr [], cr_plan = [ex_step 0], cr_permissions = [],
     cr_display_name = None, cr_input = JNull\<rparr>"

definition ex_child_call :: run_call where
  "ex_child_call = SuspendForChild ex_aid (ex_worker ''run'' ex_aid) ex_child_request None"

section \<open>States on the way\<close>

definition ex_run :: "run_status \<Rightarrow> run_phase \<Rightarrow> run_row" where
  "ex_run st ph = (started_run 10 ex_new_run)\<lparr>ru_status := st, ru_phase := ph, ru_started_at := Some 10\<rparr>"

definition ex_attempt :: "step_status \<Rightarrow> step_attempt_row" where
  "ex_attempt st = (new_attempt ex_coordinator ex_env ''run'' (ex_step 0) JNull 1)\<lparr>sa_status := st, sa_started_at := Some 10\<rparr>"

definition ex_place :: run_state_row where
  "ex_place = (new_state 10 ''run'' [ex_step 0] JNull)\<lparr>rs_active_attempt := Some ex_aid\<rparr>"

definition ex_started :: run_db where
  "ex_started = ex_no_runs\<lparr>rd_runs := [started_run 10 ex_new_run], rd_states := [ex_place],
     rd_attempts := [new_attempt ex_coordinator ex_env ''run'' (ex_step 0) JNull 1]\<rparr>"

definition ex_running :: run_db where
  "ex_running = ex_started\<lparr>rd_runs := [ex_run RunRunning BoundaryPhase], rd_attempts := [ex_attempt StepRunning],
     rd_jobs := [ex_lease_job ''run'' ex_aid]\<rparr>"

definition ex_pause :: pause_row where
  "ex_pause = \<lparr>pz_id = ''pause'', pz_run_id = ''run'', pz_attempt_id = ex_aid, pz_status = PauseOpen, pz_state = None,
     pz_timeout_at = None, pz_signal_name = Some ''go'', pz_resume_value = None, pz_resume_key = None, pz_resume_hash = None,
     pz_resolved_at = None\<rparr>"

definition ex_paused :: run_db where
  "ex_paused = ex_running\<lparr>rd_runs := [ex_run RunWaiting PausePhase], rd_attempts := [ex_attempt StepWaiting], rd_pauses := [ex_pause]\<rparr>"

lemmas ex_defs = ex_no_runs_def ex_started_def ex_running_def ex_paused_def ex_run_def ex_attempt_def ex_place_def ex_pause_def
  ex_new_run_def ex_coordinator_def ex_env_def ex_step_def

lemma ex_start: "\<exists>js. call_run ex_coordinator ex_env (StartRun ''tenant'' ex_new_run) ex_no_runs = Inr (ex_started\<lparr>rd_jobs := js\<rparr>)"
  by (simp add: ex_defs start_run_def key_taken_def initialize_def create_step_attempt_def enqueue_job_def enqueue_def Let_def
      new_job_def step_job_def started_run_def new_state_def new_attempt_def run_updates update_runs_def or_default_def)

lemmas ex_job_defs = ex_worker_def map_execution_job_def ex_lease_job_def ex_leased_job_def ex_waiting_def ex_job_def new_job_def leased_job_def
  owns_job_def lease_of_def holds_def after_now_def ex_leased_def

lemmas ex_row_defs = started_run_def new_state_def new_attempt_def run_updates update_runs_def Let_def lock_run_def run_active_def

lemma ex_begins: "call_run ex_coordinator ex_env (ex_begin ''run'') (ex_leased ''run'' ex_started) = Inr ex_running"
  by (simp add: ex_defs ex_begin_def begin_attempt_def ex_job_defs ex_row_defs or_default_def)

lemma ex_pauses: "call_run ex_coordinator ex_env ex_pause_call ex_running = Inr ex_paused"
  by (simp add: ex_defs ex_pause_call_def suspend_for_pause_def lock_active_attempt_def ex_job_defs ex_row_defs pause_timeout_def
      duration_field_def member_def json_record_def new_pause_def string_value_def pause_refused_def resolve_named_pause_def pause_due_def
      buffered_for_def)

section \<open>The examples are reached\<close>

lemma same_tables_jobs [simp]: "same_tables d (d\<lparr>rd_jobs := js\<rparr>)" "same_tables (d\<lparr>rd_jobs := js\<rparr>) d"
  by (simp_all add: same_tables_def)

lemmas ex_call = call_runs [where e = ex_env, OF _ ex_fresh]

lemma reach_started: "run_reach ex_coordinator (ex_leased ''run'' ex_started)"
proof -
  from ex_start obtain js where js: "call_run ex_coordinator ex_env (StartRun ''tenant'' ex_new_run) ex_no_runs = Inr (ex_started\<lparr>rd_jobs := js\<rparr>)" by blast
  have "run_reach ex_coordinator ex_no_runs" by (rule begin_runs) (simp add: no_runs_def ex_no_runs_def)
  then have "run_reach ex_coordinator (ex_started\<lparr>rd_jobs := js\<rparr>)"
    by (rule ex_call [OF _ _ _ _ _ _ js]) (simp_all add: ex_no_runs_def ex_new_run_def plan_indexed_def ex_step_def)
  then show ?thesis by (rule beside_runs) (simp_all add: ex_leased_def beside_def ex_started_def)
qed

lemma ex_attempt_fields [simp]:
  "sa_id (ex_attempt st) = ex_aid" "sa_run_id (ex_attempt st) = ''run''" "sa_step_index (ex_attempt st) = 0"
  "sa_attempt (ex_attempt st) = 1" "sa_executor (ex_attempt st) = ByBoundary" "sa_status (ex_attempt st) = st"
  by (simp_all add: ex_attempt_def new_attempt_def ex_env_def ex_step_def)

lemma ex_new_attempt_fields [simp]:
  "sa_id (new_attempt ex_coordinator ex_env rid (ex_step 0) v n) = ex_attempt_id rid 0 n"
  "sa_run_id (new_attempt ex_coordinator ex_env rid (ex_step 0) v n) = rid"
  "sa_step_index (new_attempt ex_coordinator ex_env rid (ex_step 0) v n) = 0"
  "sa_attempt (new_attempt ex_coordinator ex_env rid (ex_step 0) v n) = n"
  by (simp_all add: new_attempt_def ex_env_def ex_step_def)

lemma ex_run_fields [simp]: "ru_id (ex_run st ph) = ''run''" "ru_id (started_run 10 ex_new_run) = ''run''"
  by (simp_all add: ex_run_def started_run_def ex_new_run_def)

lemma ex_rows [simp]:
  "rd_attempts (ex_leased ''run'' ex_started) = [new_attempt ex_coordinator ex_env ''run'' (ex_step 0) JNull 1]"
  "rd_runs (ex_leased ''run'' ex_started) = [started_run 10 ex_new_run]"
  "rd_pauses (ex_leased ''run'' ex_started) = []" "rd_signals (ex_leased ''run'' ex_started) = []"
  "rd_attempts ex_running = [ex_attempt StepRunning]" "rd_runs ex_running = [ex_run RunRunning BoundaryPhase]"
  "rd_pauses ex_running = []" "rd_signals ex_running = []"
  "rd_attempts ex_paused = [ex_attempt StepWaiting]" "rd_runs ex_paused = [ex_run RunWaiting PausePhase]"
  "rd_pauses ex_paused = [ex_pause]" "rd_signals ex_paused = []"
  by (simp_all add: ex_leased_def ex_started_def ex_running_def ex_paused_def ex_no_runs_def)

lemma reach_running: "run_reach ex_coordinator ex_running"
  by (rule ex_call [OF reach_started _ _ _ _ _ ex_begins]) (simp_all add: ex_begin_def)

lemma reach_paused: "run_reach ex_coordinator ex_paused"
  by (rule ex_call [OF reach_running _ _ _ _ _ ex_pauses]) (simp_all add: ex_pause_call_def)

text \<open>The attempt completes, and the run with it.\<close>

definition ex_completed_row :: run_row where
  "ex_completed_row = (ex_run RunCompleted BoundaryPhase)\<lparr>ru_result := Some (JStr ''out''), ru_completed_at := Some 10\<rparr>"

definition ex_done_attempt :: step_attempt_row where
  "ex_done_attempt = (ex_attempt StepCompleted)\<lparr>sa_output := Some (JStr ''out''), sa_completed_at := Some 10\<rparr>"

definition ex_completed :: run_db where
  "ex_completed = ex_running\<lparr>rd_runs := [ex_completed_row], rd_attempts := [ex_done_attempt],
     rd_states := [ex_place\<lparr>rs_input := JStr ''out'', rs_active_attempt := None\<rparr>]\<rparr>"

definition ex_complete :: run_call where
  "ex_complete = CompleteStep ex_aid (JStr ''out'') (Some (ex_worker ''run'' ex_aid))"

lemma ex_completes: "call_run ex_coordinator ex_env ex_complete ex_running = Inr ex_completed"
  by (simp add: ex_defs ex_completed_def ex_completed_row_def ex_done_attempt_def ex_complete_def complete_step_def lock_active_attempt_def
      may_act_def ex_job_defs ex_row_defs advance_def advance_run_def nth_step_def complete_run_def finish_told_def finish_parent.simps
      tell_parent_def completed_attempt_def release_root_def put_output_def)

lemma reach_completed: "run_reach ex_coordinator ex_completed"
  by (rule ex_call [OF reach_running _ _ _ _ _ ex_completes]) (simp_all add: ex_complete_def)

text \<open>The attempt calls a child, and the child fails.\<close>

abbreviation ex_child_aid :: ident where "ex_child_aid \<equiv> ex_attempt_id ''child'' 0 1"

definition ex_child_row :: run_row where
  "ex_child_row = (started_run 10 ex_new_run)\<lparr>ru_id := ''child'', ru_workflow_name := ''inner'', ru_parent_run_id := Some ''run'',
     ru_parent_attempt_id := Some ex_aid, ru_correlation_key := None\<rparr>"

definition ex_calling :: run_db where
  "ex_calling = ex_running\<lparr>rd_runs := [ex_run RunWaiting ChildPhase, ex_child_row],
     rd_attempts := [ex_attempt StepWaiting, new_attempt ex_coordinator ex_env ''child'' (ex_step 0) JNull 1],
     rd_states := [ex_place, (new_state 10 ''child'' [ex_step 0] JNull)\<lparr>rs_active_attempt := Some ex_child_aid\<rparr>]\<rparr>"

lemma ex_calls: "\<exists>js. call_run ex_coordinator ex_env ex_child_call ex_running = Inr (ex_calling\<lparr>rd_jobs := js\<rparr>)"
  by (simp add: ex_defs ex_calling_def ex_child_row_def ex_child_call_def ex_child_request_def suspend_for_child_def lock_active_attempt_def
      ex_job_defs ex_row_defs initialize_def create_step_attempt_def enqueue_job_def enqueue_def step_job_def child_run_def left_db_def
      set_member_def or_default_def put_row_def)

definition ex_child_running :: run_db where
  "ex_child_running = ex_calling\<lparr>
     rd_runs := [ex_run RunWaiting ChildPhase, ex_child_row\<lparr>ru_status := RunRunning, ru_phase := BoundaryPhase, ru_started_at := Some 10\<rparr>],
     rd_attempts := [ex_attempt StepWaiting, (new_attempt ex_coordinator ex_env ''child'' (ex_step 0) JNull 1)
       \<lparr>sa_status := StepRunning, sa_started_at := Some 10\<rparr>],
     rd_jobs := [ex_lease_job ''child'' ex_child_aid]\<rparr>"

lemma ex_child_begins: "call_run ex_coordinator ex_env2 (ex_begin ''child'') (ex_leased ''child'' ex_calling) = Inr ex_child_running"
  by (simp add: ex_env2_def ex_defs ex_calling_def ex_child_running_def ex_child_row_def ex_begin_def begin_attempt_def ex_job_defs ex_row_defs
      or_default_def ex_attempt_id_inj)

definition ex_child_complete :: run_call where
  "ex_child_complete = CompleteStep ex_child_aid (JStr ''out'') (Some (ex_worker ''child'' ex_child_aid))"

definition ex_answered :: run_db where
  "ex_answered = ex_child_running\<lparr>
     rd_runs := [ex_completed_row\<lparr>ru_phase := ChildPhase\<rparr>, ex_child_row\<lparr>ru_status := RunCompleted, ru_phase := BoundaryPhase, ru_started_at := Some 10,
       ru_result := Some (JStr ''out''), ru_completed_at := Some 10\<rparr>],
     rd_attempts := [ex_done_attempt, (new_attempt ex_coordinator ex_env ''child'' (ex_step 0) JNull 1)
       \<lparr>sa_status := StepCompleted, sa_started_at := Some 10, sa_output := Some (JStr ''out''), sa_completed_at := Some 10\<rparr>],
     rd_states := [ex_place\<lparr>rs_input := JStr ''out'', rs_active_attempt := None\<rparr>,
       (new_state 10 ''child'' [ex_step 0] JNull)\<lparr>rs_input := JStr ''out''\<rparr>]\<rparr>"

lemma ex_answers: "call_run ex_coordinator ex_env2 ex_child_complete ex_child_running = Inr ex_answered"
  by (simp add: ex_env2_def ex_defs ex_calling_def ex_child_running_def ex_answered_def ex_child_row_def ex_completed_row_def ex_done_attempt_def
      ex_child_complete_def complete_step_def lock_active_attempt_def
      may_act_def ex_job_defs ex_row_defs advance_def advance_run_def nth_step_def complete_run_def finish_told_def finish_parent.simps
      tell_parent_def completed_attempt_def release_root_def put_output_def ex_attempt_id_inj parent_output_def or_null_def)

lemma ex_child_rows [simp]:
  "ru_id ex_child_row = ''child''" "ru_id ex_completed_row = ''run''"
  "rd_attempts (ex_leased ''child'' ex_calling) = [ex_attempt StepWaiting, new_attempt ex_coordinator ex_env ''child'' (ex_step 0) JNull 1]"
  "rd_runs (ex_leased ''child'' ex_calling) = [ex_run RunWaiting ChildPhase, ex_child_row]"
  "rd_pauses (ex_leased ''child'' ex_calling) = []" "rd_signals (ex_leased ''child'' ex_calling) = []"
  "rd_attempts ex_child_running = [ex_attempt StepWaiting, (new_attempt ex_coordinator ex_env ''child'' (ex_step 0) JNull 1)
     \<lparr>sa_status := StepRunning, sa_started_at := Some 10\<rparr>]"
  "rd_runs ex_child_running = [ex_run RunWaiting ChildPhase,
     ex_child_row\<lparr>ru_status := RunRunning, ru_phase := BoundaryPhase, ru_started_at := Some 10\<rparr>]"
  "rd_pauses ex_child_running = []" "rd_signals ex_child_running = []"
  by (simp_all add: ex_leased_def ex_calling_def ex_child_running_def ex_child_row_def ex_completed_row_def)

lemma ex_calls_conform: "conforms ex_child_call ex_running"
  by (simp add: ex_child_call_def ex_child_request_def plan_indexed_def ex_step_def)

lemma reach_calling: "run_reach ex_coordinator (ex_leased ''child'' ex_calling)"
proof -
  from ex_calls obtain js where js: "call_run ex_coordinator ex_env ex_child_call ex_running = Inr (ex_calling\<lparr>rd_jobs := js\<rparr>)" by blast
  have "run_reach ex_coordinator (ex_calling\<lparr>rd_jobs := js\<rparr>)"
    by (rule ex_call [OF reach_running _ _ _ _ ex_calls_conform js]) simp_all
  then show ?thesis by (rule beside_runs) (simp_all add: ex_leased_def beside_def)
qed

lemmas ex_call2 = call_runs [where e = ex_env2, OF _ ex_fresh2]

lemma reach_child_running: "run_reach ex_coordinator ex_child_running"
  by (rule ex_call2 [OF reach_calling _ _ _ _ _ ex_child_begins]) (auto simp: ex_begin_def)

lemma reach_answered: "run_reach ex_coordinator ex_answered"
  by (rule ex_call2 [OF reach_child_running _ _ _ _ _ ex_answers]) (auto simp: ex_child_complete_def ex_attempt_id_inj)

text \<open>The pause takes a signal, and the run completes with it.\<close>

definition ex_signal_call :: run_call where
  "ex_signal_call = SignalByKey ex_signal_env ex_signal"

definition ex_answer :: json where
  "ex_answer = JObj [(''reason'', JStr ''resumed''), (''value'', JNull)]"

definition ex_taken_signal :: signal_row where
  "ex_taken_signal = \<lparr>sg_id = ''signal'', sg_sequence = 1, sg_run_id = ''run'', sg_name = ''go'', sg_key = ''once'', sg_hash = ''null'',
     sg_value = None, sg_status = SignalResumed, sg_pause_id = Some ''pause'', sg_resolved_at = Some 10\<rparr>"

definition ex_taken :: run_db where
  "ex_taken = ex_paused\<lparr>
     rd_runs := [(ex_run RunCompleted PausePhase)\<lparr>ru_result := Some ex_answer, ru_completed_at := Some 10\<rparr>],
     rd_attempts := [(ex_attempt StepCompleted)\<lparr>sa_output := Some ex_answer, sa_completed_at := Some 10\<rparr>],
     rd_states := [ex_place\<lparr>rs_input := ex_answer, rs_active_attempt := None\<rparr>],
     rd_pauses := [ex_pause\<lparr>pz_status := PauseResumed, pz_resume_value := Some JNull, pz_resume_key := Some ''once'',
       pz_resume_hash := Some ''hash'', pz_resolved_at := Some 10\<rparr>],
     rd_signals := [ex_taken_signal], rd_sequence := 1\<rparr>"

definition ex_receipt :: signal_receipt where
  "ex_receipt = \<lparr>sr_id = ''signal'', sr_run_id = ''run'', sr_outcome = SignalTaken ''pause''\<rparr>"

lemma ex_payload: "signal_payload ex_signal_env (sq_signal ex_signal) (sq_key ex_signal) (sq_value ex_signal) = Inr (''go'', ''null'')"
  by (simp add: signal_payload_def ex_signal_def ex_signal_env_def RUN_SIGNAL_MAX_BYTES_def)

lemma ex_takes: "signal_by_key ex_coordinator ex_signal_env ex_env2 ex_signal ex_paused = Inr (ex_receipt, ex_taken)"
  unfolding signal_by_key_def ex_payload
  by (simp add: ex_env2_def ex_defs ex_receipt_def ex_taken_def ex_taken_signal_def ex_answer_def ex_signal_def ex_job_defs ex_row_defs
      signaled_run_def put_signal_def new_signal_def open_pause_named_def resolve_named_pause_def pause_due_def buffered_for_def
      taken_signal_def resumed_pause_def resolve_pause_def lock_active_attempt_def pause_output_def or_null_def when_some_def
      advance_def advance_run_def nth_step_def complete_run_def finish_told_def finish_parent.simps tell_parent_def completed_attempt_def
      release_root_def put_output_def receipt_of_signal_def RUN_SIGNAL_MAX_RECEIPTS_def RUN_SIGNAL_MAX_PENDING_def)

lemma ex_paused_fresh: "fresh_ids ex_env2 ex_paused"
  by (rule ex_fresh2) (simp_all add: ex_pause_def)

lemma ex_signals: "call_run ex_coordinator ex_env2 ex_signal_call ex_paused = Inr ex_taken"
  by (simp add: ex_signal_call_def ex_takes)

lemma reach_taken: "run_reach ex_coordinator ex_taken"
  by (rule call_runs [OF reach_paused ex_paused_fresh _ ex_signals]) (simp add: ex_signal_call_def)

end
