(* ===== verification/Run_Promises.thy ===== *)
theory Run_Promises
  imports Run_Retention Run_Example
begin

text \<open>
  What the coordinator of workflow runs promises whoever calls it, in every state that calls lead to:
  steps run once and in order, whoever waits is answered, a signal is neither lost nor taken twice, what
  ended stays as it ended, a cancellation reaches the whole tree, and a worker without its lease does
  nothing. Beside them, that a child run is allowed nothing its parent is not.
\<close>

section \<open>Steps\<close>

lemma same_row: "unique_keys key xs \<Longrightarrow> x \<in> set xs \<Longrightarrow> y \<in> set xs \<Longrightarrow> key x = key y \<Longrightarrow> x = y"
  using find_row_unique [of key xs] by (metis option.inject)

lemma reach_steps: "run_reach c d \<Longrightarrow> steps_ok d" and reach_waits: "run_reach c d \<Longrightarrow> waits_ok {} d"
  and reach_signals: "run_reach c d \<Longrightarrow> signals_ok d"
  using run_reach_ok [of c d] by (simp_all add: run_ok_def)

text \<open>Property C8: however calls on the coordinator interleave, each step of a run's plan below the one it is
  at (all of them, when it completed) completed in exactly one attempt, no later one in any; an attempt works
  on what the run was started with, or on the output of the one completed attempt of the step before; an
  attempt that is live is the active one, of the step the run is at; and the result of a run that completed
  is the output of its last step.\<close>

theorem steps_run_once_in_order:
  assumes "run_reach c d" and "run_at d rid = Some r" and "state_at d rid = Some s"
  shows "(\<forall>i < steps_done s r. \<exists>!b. completed_at d rid i b) \<and>
    (\<forall>i \<ge> steps_done s r. \<forall>b. \<not> completed_at d rid i b) \<and>
    (\<forall>aid a. attempt_at d aid = Some a \<and> sa_run_id a = rid \<longrightarrow>
       (sa_step_index a = 0 \<longrightarrow> ru_input r = Some (sa_input a)) \<and>
       (\<forall>i. sa_step_index a = Suc i \<longrightarrow> (\<exists>b. completed_at d rid i b \<and> sa_output b = Some (sa_input a))) \<and>
       (live_step (sa_status a) \<longrightarrow> rs_active_attempt s = Some aid \<and> rs_step_index s = sa_step_index a)) \<and>
    (ru_status r = RunCompleted \<longrightarrow> (\<exists>b. completed_at d rid (length (rs_plan s) - 1) b \<and> ru_result r = sa_output b))"
proof -
  have ok: "attempts_ok d" "states_ok d" "once_ok d" using reach_steps [OF assms(1)] by (simp_all add: steps_ok_def)
  from states_okD [OF ok(2) assms(3)] assms(2) have p: "progressed d rid s r" by auto
  have at: "placed a s r \<and> fed d r a \<and> sa_id a = aid" if "attempt_at d aid = Some a" "sa_run_id a = rid" for aid a
    using attempts_okD [OF ok(1) that(1)] that(2) assms(2,3) find_row_Some [OF that(1)] by auto
  have "\<exists>!b. completed_at d rid i b" if "i < steps_done s r" for i
    using p that ok(3) unfolding progressed_def once_ok_def by blast
  moreover have "\<not> completed_at d rid i b" if "steps_done s r \<le> i" for i b
    using at [of "sa_id b" b] that by (auto simp: completed_at_def placed_def)
  moreover have "(sa_step_index a = 0 \<longrightarrow> ru_input r = Some (sa_input a)) \<and>
       (\<forall>i. sa_step_index a = Suc i \<longrightarrow> (\<exists>b. completed_at d rid i b \<and> sa_output b = Some (sa_input a))) \<and>
       (live_step (sa_status a) \<longrightarrow> rs_active_attempt s = Some aid \<and> rs_step_index s = sa_step_index a)"
    if "attempt_at d aid = Some a" "sa_run_id a = rid" for aid a
    using at [OF that] that(2) by (auto simp: fed_def placed_def)
  moreover have "ru_status r = RunCompleted \<longrightarrow> (\<exists>b. completed_at d rid (length (rs_plan s) - 1) b \<and> ru_result r = sa_output b)"
    using p by (simp add: progressed_def)
  ultimately show ?thesis by blast
qed

lemma steps_run_once_in_order_witness:
  "\<exists>!b. completed_at ex_completed ''run'' 0 b"
proof -
  have "run_at ex_completed ''run'' = Some ex_completed_row" by (simp add: ex_completed_def)
  moreover have "state_at ex_completed ''run'' = Some (ex_place\<lparr>rs_input := JStr ''out'', rs_active_attempt := None\<rparr>)"
    by (simp add: ex_completed_def ex_place_def new_state_def)
  ultimately show ?thesis
    using steps_run_once_in_order [OF reach_completed] by (force simp: steps_done_def ex_completed_row_def ex_run_def ex_place_def new_state_def)
qed

section \<open>Waiting\<close>

text \<open>Property C9: an attempt that waits always has who answers it, and only one: a pause of it that is open,
  or a child run of it that neither completed nor failed, never both and never two.\<close>

theorem waiting_is_awaited:
  assumes "run_reach c d" and "attempt_at d aid = Some a" and "sa_status a = StepWaiting"
  shows "(\<exists>!p. p \<in> set (rd_pauses d) \<and> pz_attempt_id p = aid \<and> pz_status p = PauseOpen) \<and>
      (\<forall>r \<in> set (rd_runs d). ru_parent_attempt_id r \<noteq> Some aid) \<or>
    (\<exists>!r. r \<in> set (rd_runs d) \<and> ru_parent_attempt_id r = Some aid) \<and>
      (\<forall>r \<in> set (rd_runs d). ru_parent_attempt_id r = Some aid \<longrightarrow> unended r) \<and>
      (\<forall>p \<in> set (rd_pauses d). pz_attempt_id p = aid \<longrightarrow> pz_status p \<noteq> PauseOpen)"
proof -
  note w = reach_waits [OF assms(1)]
  have keys: "unique_keys ru_id (rd_runs d)" "unique_keys pz_id (rd_pauses d)"
    using run_okD(1) [OF run_reach_ok [OF assms(1)]] by (simp_all add: keys_ok_def)
  have one_run: "r = q" if "r \<in> set (rd_runs d)" "q \<in> set (rd_runs d)" "ru_parent_attempt_id r = Some aid" "ru_parent_attempt_id q = Some aid" for r q
  proof -
    have "ru_id r = ru_id q" using reach_one_child [OF assms(1)] that unfolding one_child_def by (metis option.distinct(1))
    then show ?thesis by (rule same_row [OF keys(1) that(1,2)])
  qed
  have one_row: "p = q" if "p \<in> set (rd_pauses d)" "q \<in> set (rd_pauses d)" "pz_attempt_id p = aid" "pz_attempt_id q = aid"
    "pz_status p = PauseOpen" "pz_status q = PauseOpen" for p q
  proof -
    note at = find_row_unique [OF keys(2) that(1)] find_row_unique [OF keys(2) that(2)]
    from pauses_okD [OF w at(1) that(5)] pauses_okD [OF w at(2) that(6)] that(3,4) have "pz_run_id p = pz_run_id q" by auto
    with one_pause [OF w at] that(3,4) have "pz_id p = pz_id q" by simp
    then show ?thesis by (rule same_row [OF keys(2) that(1,2)])
  qed
  have apart: "pz_attempt_id p \<noteq> aid \<or> pz_status p \<noteq> PauseOpen" if "r \<in> set (rd_runs d)" "ru_parent_attempt_id r = Some aid" "p \<in> set (rd_pauses d)" for r p
    using no_pause_beside [OF w find_row_unique [OF keys(1) that(1)] that(2) find_row_unique [OF keys(2) that(3)]] by blast
  from waiting_okD [OF w assms(2,3)] consider
      (pause) pid p where "pause_at d pid = Some p" "pz_status p = PauseOpen" "pz_attempt_id p = aid"
    | (child) rid r where "run_at d rid = Some r" "ru_parent_attempt_id r = Some aid" "unended r" by (auto simp: awaited_def)
  then show ?thesis
  proof cases
    case pause
    then have p: "p \<in> set (rd_pauses d)" by (auto dest: find_row_Some)
    with pause have "\<exists>!p. p \<in> set (rd_pauses d) \<and> pz_attempt_id p = aid \<and> pz_status p = PauseOpen" using one_row by blast
    moreover have "\<forall>r \<in> set (rd_runs d). ru_parent_attempt_id r \<noteq> Some aid" using apart p pause by blast
    ultimately show ?thesis by blast
  next
    case child
    then have r: "r \<in> set (rd_runs d)" by (auto dest: find_row_Some)
    with child have "\<exists>!r. r \<in> set (rd_runs d) \<and> ru_parent_attempt_id r = Some aid" using one_run by blast
    moreover have "\<forall>q \<in> set (rd_runs d). ru_parent_attempt_id q = Some aid \<longrightarrow> unended q" using one_run r child by blast
    moreover have "\<forall>p \<in> set (rd_pauses d). pz_attempt_id p = aid \<longrightarrow> pz_status p \<noteq> PauseOpen" using apart r child by blast
    ultimately show ?thesis by blast
  qed
qed

lemma waiting_is_awaited_witness:
  "\<exists>!p. p \<in> set (rd_pauses ex_paused) \<and> pz_attempt_id p = ex_aid \<and> pz_status p = PauseOpen"
proof -
  have "attempt_at ex_paused ex_aid = Some (ex_attempt StepWaiting)" by simp
  moreover have "ru_parent_attempt_id (ex_run RunWaiting PausePhase) \<noteq> Some ex_aid" by (simp add: ex_run_def started_run_def)
  ultimately show ?thesis using waiting_is_awaited [OF reach_paused, of ex_aid "ex_attempt StepWaiting"] by auto
qed

text \<open>Property C10: once a child run completed or failed, the attempt that called it is answered: it works and
  waits no longer.\<close>

theorem ended_child_answers:
  assumes "run_reach c d" and "run_at d child = Some r" and "ru_status r = RunCompleted \<or> ru_status r = RunFailed"
    and "ru_parent_attempt_id r = Some aid"
  shows "\<exists>a. attempt_at d aid = Some a \<and> ru_parent_run_id r = Some (sa_run_id a) \<and> \<not> live_step (sa_status a)"
proof -
  note w = reach_waits [OF assms(1)]
  from parent_attempt [OF w assms(2,4)] obtain a where a: "attempt_at d aid = Some a" "ru_parent_run_id r = Some (sa_run_id a)" "begun (sa_status a)" by blast
  have "sa_status a \<noteq> StepWaiting"
  proof
    assume "sa_status a = StepWaiting"
    from waiting_okD [OF w a(1) this] no_pause_beside [OF w assms(2,4)]
    obtain x q where q: "run_at d x = Some q" "ru_parent_attempt_id q = Some aid" "unended q" by (auto simp: awaited_def)
    from reach_one_child [OF assms(1)] find_row_Some [OF q(1)] find_row_Some [OF assms(2)] q(2) assms(4)
    have "x = child" unfolding one_child_def by fastforce
    with q assms(2,3) show False by (auto simp: unended_def)
  qed
  with a show ?thesis by (cases "sa_status a") (auto simp: begun_def)
qed

lemma ended_child_answers_witness:
  "\<exists>a. attempt_at ex_answered ex_aid = Some a \<and> \<not> live_step (sa_status a)"
proof -
  have "\<exists>r. run_at ex_answered ''child'' = Some r \<and> ru_status r = RunCompleted \<and> ru_parent_attempt_id r = Some ex_aid"
    by (simp add: ex_answered_def ex_completed_row_def ex_child_row_def)
  then show ?thesis using ended_child_answers [OF reach_answered] by blast
qed

section \<open>Signals\<close>

text \<open>Property C12: a signal never lies in the inbox of a run beside an open pause that waits for it: while a
  pause of a run waits for a name, the inbox of the run holds no signal of that name.\<close>

theorem signal_never_missed:
  assumes "run_reach c d" and "p \<in> set (rd_pauses d)" and "pz_status p = PauseOpen" and "pz_signal_name p = Some name"
  shows "buffered_for (pz_run_id p) name d = []"
proof -
  have keys: "unique_keys pz_id (rd_pauses d)" "unique_keys sg_id (rd_signals d)"
    using run_okD(1) [OF run_reach_ok [OF assms(1)]] by (simp_all add: keys_ok_def)
  have "\<not> (sg_run_id s = pz_run_id p \<and> sg_name s = name \<and> sg_status s = SignalBuffered)" if "s \<in> set (rd_signals d)" for s
    using no_open_pause [OF reach_waits [OF assms(1)] find_row_unique [OF keys(2) that] _ find_row_unique [OF keys(1) assms(2)] assms(3)] assms(4) by auto
  then show ?thesis by (simp add: buffered_for_def)
qed

lemma signal_never_missed_witness: "buffered_for ''run'' ''go'' ex_paused = []"
  using signal_never_missed [OF reach_paused, of ex_pause "''go''"] by (simp add: ex_pause_def)

text \<open>Property C21: of the signals of a run under one name, each was taken by at most one pause and each pause
  took one at most, one that had waited for it by name, in the order they came: a signal that was taken
  came before every one that still lies in the inbox. No two signals of a run share a key.\<close>

theorem signals_taken_once_in_order:
  assumes "run_reach c d" and "s \<in> set (rd_signals d)" and "t \<in> set (rd_signals d)" and "sg_run_id s = sg_run_id t"
  shows "(sg_status s = SignalResumed \<longrightarrow> (\<exists>!p. p \<in> set (rd_pauses d) \<and> sg_pause_id s = Some (pz_id p) \<and>
       pz_status p = PauseResumed \<and> pz_run_id p = sg_run_id s \<and> pz_signal_name p = Some (sg_name s) \<and> pz_resume_key p = Some (sg_key s))) \<and>
    (sg_pause_id s \<noteq> None \<and> sg_pause_id s = sg_pause_id t \<longrightarrow> s = t) \<and>
    (sg_key s = sg_key t \<longrightarrow> s = t) \<and>
    (sg_name s = sg_name t \<and> sg_status s = SignalResumed \<and> sg_status t = SignalBuffered \<longrightarrow> sg_sequence s < sg_sequence t)"
proof -
  have keys: "unique_keys pz_id (rd_pauses d)" "unique_keys sg_id (rd_signals d)"
    using run_okD(1) [OF run_reach_ok [OF assms(1)]] by (simp_all add: keys_ok_def)
  note at = find_row_unique [OF keys(2) assms(2)] find_row_unique [OF keys(2) assms(3)]
  note same = same_row [OF keys(2) assms(2,3)]
  have tk: "taken_ok d" and od: "order_ok d" using reach_signals [OF assms(1)] by (simp_all add: signals_ok_def)
  have "\<exists>!p. p \<in> set (rd_pauses d) \<and> sg_pause_id s = Some (pz_id p) \<and> pz_status p = PauseResumed \<and>
      pz_run_id p = sg_run_id s \<and> pz_signal_name p = Some (sg_name s) \<and> pz_resume_key p = Some (sg_key s)" if "sg_status s = SignalResumed"
  proof -
    from tk at(1) that obtain p where p: "pause_at d (pz_id p) = Some p" "took d s p" unfolding taken_ok_def by blast
    have "q = p" if "q \<in> set (rd_pauses d)" "pz_id q = pz_id p" for q using find_row_unique [OF keys(1) that(1)] that(2) p(1) by simp
    with p find_row_Some [OF p(1)] show ?thesis unfolding took_def by (intro ex1I [of _ p]) auto
  qed
  moreover have "sg_pause_id s \<noteq> None \<and> sg_pause_id s = sg_pause_id t \<longrightarrow> s = t"
    using tk at same unfolding taken_ok_def by (metis option.exhaust)
  moreover have "sg_key s = sg_key t \<longrightarrow> s = t" using od at same assms(4) unfolding order_ok_def by metis
  moreover have "sg_name s = sg_name t \<and> sg_status s = SignalResumed \<and> sg_status t = SignalBuffered \<longrightarrow> sg_sequence s < sg_sequence t"
    using od at assms(4) unfolding order_ok_def by metis
  ultimately show ?thesis by blast
qed

lemma signals_taken_once_in_order_witness:
  "\<exists>!p. p \<in> set (rd_pauses ex_taken) \<and> sg_pause_id ex_taken_signal = Some (pz_id p) \<and> pz_status p = PauseResumed \<and>
     pz_run_id p = ''run'' \<and> pz_signal_name p = Some ''go'' \<and> pz_resume_key p = Some ''once''"
proof -
  have s: "ex_taken_signal \<in> set (rd_signals ex_taken)" by (simp add: ex_taken_def)
  have "sg_status ex_taken_signal = SignalResumed" "sg_run_id ex_taken_signal = ''run''" "sg_name ex_taken_signal = ''go''"
    "sg_key ex_taken_signal = ''once''" by (simp_all add: ex_taken_signal_def)
  with signals_taken_once_in_order [OF reach_taken s s refl] show ?thesis by (simp only: simp_thms)
qed

text \<open>Property C39: the inbox of a run stays within its bounds, whoever sends how much: 1024 signals in all and
  256 of them still to be taken.\<close>

theorem inbox_bounded:
  assumes "run_reach c d"
  shows "length (filter (\<lambda>s. sg_run_id s = rid) (rd_signals d)) \<le> 1024 \<and>
    length (filter (\<lambda>s. sg_run_id s = rid \<and> sg_status s = SignalBuffered) (rd_signals d)) \<le> 256"
  using reach_inbox_within [OF assms] by (simp add: inbox_within_def RUN_SIGNAL_MAX_RECEIPTS_def RUN_SIGNAL_MAX_PENDING_def)

lemma inbox_bounded_witness: "length (filter (\<lambda>s. sg_run_id s = ''run'') (rd_signals ex_taken)) \<le> 1024"
  using inbox_bounded [OF reach_taken] by blast

section \<open>Ends\<close>

lemma terminal_nothing_open:
  assumes ok: "run_ok {} d" and "run_at d rid = Some r" and t: "is_terminal_run_status (ru_status r)"
  shows "(\<forall>a \<in> set (rd_attempts d). sa_run_id a = rid \<longrightarrow> \<not> live_step (sa_status a)) \<and>
    (\<forall>p \<in> set (rd_pauses d). pz_run_id p = rid \<longrightarrow> pz_status p \<noteq> PauseOpen) \<and>
    (\<forall>s \<in> set (rd_signals d). sg_run_id s = rid \<longrightarrow> sg_status s \<noteq> SignalBuffered)"
proof -
  have keys: "unique_keys pz_id (rd_pauses d)" "unique_keys sg_id (rd_signals d)" "unique_keys sa_id (rd_attempts d)"
    using run_okD(1) [OF ok] by (simp_all add: keys_ok_def)
  have w: "waits_ok {} d" and st: "attempts_ok d" using ok by (simp_all add: run_ok_def steps_ok_def)
  have dead: "\<not> live_step (sa_status a)" if "attempt_at d x = Some a" "sa_run_id a = rid" for x a
    using attempts_okD [OF st that(1)] that(2) assms(2) t by (auto simp: placed_def)
  have "\<not> live_step (sa_status a)" if "a \<in> set (rd_attempts d)" "sa_run_id a = rid" for a
    by (rule dead [OF find_row_unique [OF keys(3) that(1)] that(2)])
  moreover have "pz_status p \<noteq> PauseOpen" if "p \<in> set (rd_pauses d)" "pz_run_id p = rid" for p
    using pauses_okD [OF w find_row_unique [OF keys(1) that(1)]] dead that(2) by fastforce
  moreover have "sg_status s \<noteq> SignalBuffered" if "s \<in> set (rd_signals d)" "sg_run_id s = rid" for s
    using signal_run [OF w find_row_unique [OF keys(2) that(1)]] that(2) assms(2) t by auto
  ultimately show ?thesis by blast
qed

text \<open>Property C20: a run that completed, failed or was canceled stays as it ended for as long as it is kept,
  whatever is called later, also by workers and timers that come too late, and whatever others write: its
  status, its result, its error and when it completed stay, and all else but where it is placed and when it was
  last written (node recovery moves ended runs too, and a deleted allocation or session artifact leaves a
  null); no attempt of it is live, no pause of it open and no signal buffered for it. What ends this is that
  the run itself is deleted, by retention or with its project; that other runs are does not.\<close>

theorem ended_run_stays_ended:
  assumes "run_reach c d" and "run_at d rid = Some r" and "is_terminal_run_status (ru_status r)"
    and "run_later c K d d'" and "rid \<in> K"
  shows "(\<exists>r'. run_at d' rid = Some r' \<and> placement_free r' = placement_free r \<and> ru_status r' = ru_status r \<and>
      ru_result r' = ru_result r \<and> ru_error r' = ru_error r \<and> ru_completed_at r' = ru_completed_at r) \<and>
    (\<forall>a \<in> set (rd_attempts d'). sa_run_id a = rid \<longrightarrow> \<not> live_step (sa_status a)) \<and>
    (\<forall>p \<in> set (rd_pauses d'). pz_run_id p = rid \<longrightarrow> pz_status p \<noteq> PauseOpen) \<and>
    (\<forall>s \<in> set (rd_signals d'). sg_run_id s = rid \<longrightarrow> sg_status s \<noteq> SignalBuffered)"
proof -
  from later_keeps_run [OF assms(4,1,2,5)] assms(3) obtain r' where r': "run_at d' rid = Some r'" "placement_free r' = placement_free r"
    by (auto simp: run_lasts_def)
  note same = placement_freeD [OF r'(2)]
  have "is_terminal_run_status (ru_status r')" using assms(3) by (simp add: same)
  note ends = terminal_nothing_open [OF run_reach_ok [OF reach_later [OF assms(4,1)]] r'(1) this]
  have "ru_completed_at r' = ru_completed_at r" using arg_cong [OF r'(2), of ru_completed_at] by (simp add: placement_free_def)
  with ends r' same show ?thesis by blast
qed

text \<open>The run that completed stands on an allocation; a worker comes too late, and node recovery moves it.\<close>

definition ex_stood :: run_db where
  "ex_stood = ex_completed\<lparr>rd_runs := [ex_completed_row\<lparr>ru_allocation_id := Some ''old''\<rparr>]\<rparr>"

definition ex_moved :: run_db where
  "ex_moved = move_runs 20 ''old'' ''new'' ex_stood"

lemma ended_run_stays_ended_witness:
  "run_at ex_moved ''run'' \<noteq> run_at ex_stood ''run'' \<and>
   (\<exists>r'. run_at ex_moved ''run'' = Some r' \<and> ru_status r' = RunCompleted \<and> ru_result r' = Some (JStr ''out'') \<and> ru_completed_at r' = Some 10)"
proof -
  let ?row = "ex_completed_row\<lparr>ru_allocation_id := Some ''old''\<rparr>"
  have st: "run_reach ex_coordinator ex_stood"
    by (rule beside_runs [OF reach_completed]) (simp add: ex_stood_def beside_def placement_free_def ex_completed_def)
  have at: "run_at ex_stood ''run'' = Some ?row" by (simp add: ex_stood_def)
  have t: "is_terminal_run_status (ru_status ex_completed_row)" by (simp add: ex_completed_row_def ex_run_def)
  have late: "call_run ex_coordinator ex_env ex_complete ex_stood = Inr ex_stood"
    by (simp add: ex_complete_def complete_step_def lock_active_attempt_def lock_run_def ex_stood_def ex_completed_def ex_done_attempt_def t)
  have "run_later ex_coordinator {''run''} ex_stood ex_stood"
    by (rule later_call [OF later_same ex_fresh _ late])
      (simp_all add: ex_stood_def ex_completed_def ex_done_attempt_def ex_complete_def)
  then have "run_later ex_coordinator {''run''} ex_stood ex_moved"
    unfolding ex_moved_def by (rule later_beside) (rule move_runs_beside)
  from ended_run_stays_ended [OF st at _ this] t
  have "\<exists>r'. run_at ex_moved ''run'' = Some r' \<and> ru_status r' = RunCompleted \<and> ru_result r' = Some (JStr ''out'') \<and> ru_completed_at r' = Some 10"
    by (auto simp: ex_completed_row_def ex_run_def)
  moreover have "run_at ex_moved ''run'' \<noteq> run_at ex_stood ''run''"
    by (simp add: ex_moved_def move_runs_def ex_stood_def update_where_def ex_completed_row_def ex_run_def started_run_def ex_new_run_def)
  ultimately show ?thesis by blast
qed

section \<open>Cancellations\<close>

text \<open>Property C11: canceling a run reaches every run under it, children, their children and so on: each that had
  not ended is canceled, with the reason, and keeps no live attempt, no open pause, no signal to be taken, no
  job that waits or runs and no invocation; each that had ended stays as it ended.\<close>

theorem cancel_reaches_whole_tree:
  assumes "run_reach c d" and "cancel_in e tenant rid reason d = Inr (x, d')"
    and "under (rd_runs d) rid y" and "run_at d y = Some r"
  shows "(if is_terminal_run_status (ru_status r) then run_at d' y = Some r
      else run_at d' y = Some (r\<lparr>ru_cancel_requested_at := Some (re_now e), ru_cancel_reason := reason, ru_status := RunCanceled,
          ru_completed_at := Some (re_now e), ru_updated_at := re_now e\<rparr>) \<and>
        (\<forall>j \<in> set (rd_jobs d'). ej_workflow_run_id j = y \<longrightarrow> \<not> live_job (ej_status j)) \<and>
        (\<forall>i \<in> set (rd_invocations d'). ai_run_id i \<noteq> y)) \<and>
    (\<forall>a \<in> set (rd_attempts d'). sa_run_id a = y \<longrightarrow> \<not> live_step (sa_status a)) \<and>
    (\<forall>p \<in> set (rd_pauses d'). pz_run_id p = y \<longrightarrow> pz_status p \<noteq> PauseOpen) \<and>
    (\<forall>s \<in> set (rd_signals d'). sg_run_id s = y \<longrightarrow> sg_status s \<noteq> SignalBuffered)"
proof -
  note ok = cancel_in_ok [OF run_reach_ok [OF assms(1)] assms(2)]
  have uk: "unique_keys ru_id (rd_runs d)" using reach_keys [OF assms(1)] by (simp add: keys_ok_def)
  show ?thesis
  proof (cases "is_terminal_run_status (ru_status r)")
    case True
    from kept_run_at [OF cancel_in_kept [OF assms(2) uk] assms(4)] True have "run_at d' y = Some r" by (auto simp: run_kept_def)
    with terminal_nothing_open [OF ok this True] True show ?thesis by simp
  next
    case False
    note c = canceled_open [OF assms(2) uk assms(3,4) False]
    from terminal_nothing_open [OF ok conjunct1 [OF c]] c False show ?thesis by simp
  qed
qed

lemma cancel_reaches_whole_tree_witness:
  "\<exists>x d' q. cancel_in ex_env ''tenant'' ''run'' (Some ''why'') (ex_leased ''child'' ex_calling) = Inr (x, d') \<and>
     run_at d' ''child'' = Some q \<and> ru_status q = RunCanceled \<and> ru_cancel_reason q = Some ''why'' \<and>
     (\<forall>j \<in> set (rd_jobs d'). ej_workflow_run_id j = ''child'' \<longrightarrow> \<not> live_job (ej_status j))"
proof -
  let ?d = "ex_leased ''child'' ex_calling"
  have t: "rd_tenant_of ?d p = ''tenant''" for p by (simp add: ex_leased_def ex_calling_def ex_running_def ex_started_def ex_no_runs_def)
  have "\<exists>x d'. cancel_in ex_env ''tenant'' ''run'' (Some ''why'') ?d = Inr (x, d')"
    by (simp add: cancel_in_def owned_run_def lock_run_def t Let_def)
  then obtain x d' where ci: "cancel_in ex_env ''tenant'' ''run'' (Some ''why'') ?d = Inr (x, d')" by blast
  have "under (rd_runs ?d) ''run'' (ru_id ex_child_row)"
    by (rule under_child [OF under_self]) (simp_all add: ex_child_row_def)
  then have u: "under (rd_runs ?d) ''run'' ''child''" by simp
  have "run_at ?d ''child'' = Some ex_child_row" by simp
  moreover have "\<not> is_terminal_run_status (ru_status ex_child_row)" by (simp add: ex_child_row_def started_run_def)
  ultimately show ?thesis using cancel_reaches_whole_tree [OF reach_calling ci u] ci by auto
qed

section \<open>A signal sent again\<close>

lemma receipt_fields: "receipt_of_signal s = Inr rcp \<Longrightarrow> sr_id rcp = sg_id s \<and> sr_run_id rcp = sg_run_id s"
  by (auto simp: receipt_of_signal_def split: signal_status.splits option.splits)

lemma signaled_run_at: "signaled_run q d = Some run \<Longrightarrow> run_at d (sq_run_id q) = Some run \<and> ru_id run = sq_run_id q"
  by (auto simp: signaled_run_def lock_run_def split: option.splits if_splits dest: find_row_Some)

lemma signal_sent:
  assumes sk: "signal_by_key c se e q d = Inr (rcp, d1)" and ok: "run_ok {} d" and fr: "fresh_ids e d"
  obtains payload s where "signal_payload se (sq_signal q) (sq_key q) (sq_value q) = Inr payload"
    "signal_at d1 (sr_id rcp) = Some s" "sg_run_id s = sq_run_id q" "sg_key s = sq_key q" "sg_name s = fst payload"
    "sg_hash s = snd payload" "receipt_of_signal s = Inr rcp"
proof -
  have uk: "unique_keys sg_id (rd_signals d)" using run_okD(1) [OF ok] by (simp add: keys_ok_def)
  from sk obtain payload where sp: "signal_payload se (sq_signal q) (sq_key q) (sq_value q) = Inr payload"
    unfolding signal_by_key_def bind_run_Inr by blast
  from sk obtain run where run: "signaled_run q d = Some run" unfolding signal_by_key_def sp by (simp split: option.split_asm)
  with signaled_run_at have id: "ru_id run = sq_run_id q" by blast
  show thesis
  proof (cases "List.find (\<lambda>s. sg_run_id s = ru_id run \<and> sg_key s = sq_key q) (rd_signals d)")
    case (Some s)
    then have s: "s \<in> set (rd_signals d)" "sg_run_id s = ru_id run" "sg_key s = sq_key q" by (auto simp: find_Some_iff in_set_conv_nth)
    from sk Some have "sg_name s = fst payload" "sg_hash s = snd payload" "receipt_of_signal s = Inr rcp" "d1 = d"
      unfolding signal_by_key_def sp run by (auto simp: bind_run_Inr split: if_split_asm)
    with that [OF sp, of s] s id find_row_unique [OF uk s(1)] receipt_fields [of s] show thesis by simp
  next
    case None
    let ?n = "new_signal e q payload d"
    from sk have ps: "put_signal c e ?n d = Inr (rcp, d1)"
      unfolding signal_by_key_def sp run by (simp add: None Let_def split: if_split_asm)
    have "signal_at (d\<lparr>rd_signals := rd_signals d @ [?n]\<rparr>) (re_signal_id e) = Some ?n"
      using fr find_row_None [of sg_id "re_signal_id e" "rd_signals d"] by (simp add: find_row_append fresh_ids_def new_signal_def)
    moreover have "sg_id ?n \<notin> sg_id ` set (rd_signals d)" using fr by (simp add: fresh_ids_def new_signal_def)
    ultimately obtain Z where Z: "signal_kept Z ?n" "signal_at d1 (re_signal_id e) = Some (Z ?n)"
      using kept_signal_at [OF put_signal_kept [OF ps uk]] by blast
    from ps have rc: "receipt_of_signal (Z ?n) = Inr rcp"
      using Z(2) by (auto simp: put_signal_def Let_def bind_run_Inr new_signal_def split: option.splits)
    from receipt_fields [OF rc] Z that [OF sp, of "Z ?n"] rc show thesis by (simp add: signal_kept_def new_signal_def)
  qed
qed

lemma key_found:
  assumes "run_reach c d" and s: "signal_at d sid = Some s"
  shows "List.find (\<lambda>t. sg_run_id t = sg_run_id s \<and> sg_key t = sg_key s) (rd_signals d) = Some s"
proof -
  let ?P = "\<lambda>t. sg_run_id t = sg_run_id s \<and> sg_key t = sg_key s"
  have keys: "unique_keys sg_id (rd_signals d)" using run_okD(1) [OF run_reach_ok [OF assms(1)]] by (simp add: keys_ok_def)
  from find_row_Some [OF s] obtain t where t: "List.find ?P (rd_signals d) = Some t"
    by (cases "List.find ?P (rd_signals d)") (auto simp: find_None_iff)
  then have tin: "t \<in> set (rd_signals d)" "sg_run_id t = sg_run_id s" "sg_key t = sg_key s" by (auto simp: find_Some_iff in_set_conv_nth)
  from reach_signals [OF assms(1)] have "order_ok d" by (simp add: signals_ok_def)
  with find_row_unique [OF keys tin(1)] s tin(2,3) have "sg_id t = sid" unfolding order_ok_def by blast
  with find_row_unique [OF keys tin(1)] s t show ?thesis by simp
qed

lemma receipt_there: "run_reach c d \<Longrightarrow> signal_at d sid = Some s \<Longrightarrow> \<exists>rcp. receipt_of_signal s = Inr rcp"
proof -
  assume "run_reach c d" and s: "signal_at d sid = Some s"
  then have "taken_ok d" using reach_signals by (simp add: signals_ok_def)
  then have "sg_status s = SignalResumed \<longrightarrow> (\<exists>p. took d s p)" using s unfolding taken_ok_def by blast
  then have "sg_status s = SignalResumed \<Longrightarrow> sg_pause_id s \<noteq> None" by (auto simp: took_def)
  then show ?thesis by (cases "sg_status s") (auto simp: receipt_of_signal_def)
qed

text \<open>Property C22: a signal that was accepted is accepted for good: sent again under its key and with its value,
  whatever was called in between and whether the run took it, still holds it or ended meanwhile, nothing is
  written, and the answer is the receipt of the same signal as it stands by then (which may say that a pause
  took it when the first one said it was kept for later). A signal whose receipt said it was taken, or dropped,
  gets that very receipt each time. This lasts for as long as the run is kept: retention, or the end of its
  project, deletes the run with its signals.\<close>

theorem signal_accepted_once:
  assumes "run_reach c d" and "fresh_ids e d" and "signal_by_key c se e q d = Inr (rcp, d1)"
    and "run_later c K d1 d2" and "sq_run_id q \<in> K"
  shows "\<exists>again s. signal_by_key c se e' q d2 = Inr (again, d2) \<and>
    sr_id again = sr_id rcp \<and> sr_run_id again = sr_run_id rcp \<and>
    signal_at d2 (sr_id rcp) = Some s \<and> receipt_of_signal s = Inr again \<and>
    (sr_outcome rcp \<noteq> SignalKept \<longrightarrow> again = rcp)"
proof -
  from assms(3) signal_sent [OF assms(3) run_reach_ok [OF assms(1)] assms(2)] obtain payload s
    where sp: "signal_payload se (sq_signal q) (sq_key q) (sq_value q) = Inr payload" and s: "signal_at d1 (sr_id rcp) = Some s"
      "sg_run_id s = sq_run_id q" "sg_key s = sq_key q" "sg_name s = fst payload" "sg_hash s = snd payload" "receipt_of_signal s = Inr rcp" by blast
  have r1: "run_reach c d1" by (rule call_runs [OF assms(1,2), where call = "SignalByKey se q"]) (use assms(3) in simp_all)
  note r2 = reach_later [OF assms(4) r1] and keys = reach_keys [OF assms(1)]
  from assms(3) obtain run where run: "signaled_run q d = Some run" unfolding signal_by_key_def sp by (simp split: option.split_asm)
  have cr: "call_run c e (SignalByKey se q) d = Inr d1" using assms(3) by simp
  from signaled_run_at [OF run] have at: "run_at d (sq_run_id q) = Some run" and id: "ru_id run = sq_run_id q" by blast+
  from call_run_keeps_run [OF cr keys assms(2) at] obtain F where F: "run_kept F run" "run_at d1 (sq_run_id q) = Some (F run)" by blast
  from later_keeps_run [OF assms(4) r1 F(2) assms(5)] obtain run' where G: "run_lasts (F run) run'" "run_at d2 (sq_run_id q) = Some run'" by blast
  note lasts = run_lasts_trans [OF run_kept_lasts [OF F(1)] G(1)]
  have "rd_tenant_of d2 = rd_tenant_of d"
    using later_tenant [OF assms(4) r1] call_run_keeps_tenant [OF cr keys assms(2)] by simp
  with run lasts G have run2: "signaled_run q d2 = Some run'"
    by (auto simp: signaled_run_def lock_run_def run_lasts_def at split: if_split_asm)
  from later_keeps_signal [OF assms(4) r1 s(1)] s(2) assms(5) obtain Z where Z: "signal_kept Z s" "signal_at d2 (sr_id rcp) = Some (Z s)" by auto
  have id2: "ru_id run' = sq_run_id q" using at_id(1) [OF G(2)] .
  from Z(1) s have z: "sg_run_id (Z s) = sq_run_id q" "sg_key (Z s) = sq_key q" "sg_name (Z s) = fst payload" "sg_hash (Z s) = snd payload"
    by (simp_all add: signal_kept_def)
  from receipt_there [OF r2 Z(2)] obtain again where again: "receipt_of_signal (Z s) = Inr again" by blast
  with receipt_fields [OF again] receipt_fields [OF s(6)] find_row_Some [OF Z(2)] z(1) s(2)
  have ids: "sr_id again = sr_id rcp" "sr_run_id again = sr_run_id rcp" by auto
  have "again = rcp" if "sr_outcome rcp \<noteq> SignalKept"
  proof -
    have "sg_status s \<noteq> SignalBuffered" using s(6) that by (auto simp: receipt_of_signal_def)
    with Z(1) have "Z s = s" by (simp add: signal_kept_def)
    with again s(6) show ?thesis by simp
  qed
  moreover have "signal_by_key c se e' q d2 = Inr (again, d2)"
    using again key_found [OF r2 Z(2)] by (simp add: signal_by_key_def sp run2 id2 z)
  ultimately show ?thesis using ids Z(2) again by blast
qed

text \<open>The signal comes before the run pauses: the inbox keeps it, and the pause takes it.\<close>

definition ex_early_receipt :: signal_receipt where
  "ex_early_receipt = \<lparr>sr_id = ''signal'', sr_run_id = ''run'', sr_outcome = SignalKept\<rparr>"

definition ex_kept_signal :: signal_row where
  "ex_kept_signal = \<lparr>sg_id = ''signal'', sg_sequence = 1, sg_run_id = ''run'', sg_name = ''go'', sg_key = ''once'', sg_hash = ''null'',
     sg_value = Some JNull, sg_status = SignalBuffered, sg_pause_id = None, sg_resolved_at = None\<rparr>"

definition ex_early :: run_db where
  "ex_early = ex_running\<lparr>rd_signals := [ex_kept_signal], rd_sequence := 1\<rparr>"

definition ex_env3 :: run_env where
  "ex_env3 = ex_env\<lparr>re_signal_id := ''signal 2''\<rparr>"

lemma ex_keeps: "signal_by_key ex_coordinator ex_signal_env ex_env ex_signal ex_running = Inr (ex_early_receipt, ex_early)"
  unfolding signal_by_key_def ex_payload
  by (simp add: ex_defs ex_early_receipt_def ex_early_def ex_kept_signal_def ex_signal_def ex_job_defs ex_row_defs
      signaled_run_def put_signal_def new_signal_def open_pause_named_def receipt_of_signal_def RUN_SIGNAL_MAX_RECEIPTS_def RUN_SIGNAL_MAX_PENDING_def)

definition ex_taking :: run_db where
  "ex_taking = ex_paused\<lparr>rd_signals := rd_signals ex_early, rd_sequence := 1\<rparr>"

lemma ex_inbox: "buffered_for ''run'' ''go'' ex_taking = [ex_kept_signal]"
  by (simp add: buffered_for_def ex_taking_def ex_early_def ex_kept_signal_def)

lemma ex_pause_takes_it: "resolve_named_pause ex_coordinator ex_env3 ex_pause ex_taking = Inr (True, ex_taken)"
proof -
  have p: "pz_signal_name ex_pause = Some ''go''" "pz_run_id ex_pause = ''run''" "\<not> pause_due t ex_pause" for t
    by (simp_all add: ex_pause_def pause_due_def)
  show ?thesis
    unfolding resolve_named_pause_def Let_def p ex_inbox option.case list.case if_False
    by (simp add: ex_env3_def ex_defs ex_taking_def ex_early_def ex_kept_signal_def ex_taken_def ex_taken_signal_def pause_due_def ex_answer_def ex_job_defs ex_row_defs
        taken_signal_def resumed_pause_def resolve_pause_def lock_active_attempt_def pause_output_def or_null_def when_some_def
        advance_def advance_run_def nth_step_def complete_run_def finish_told_def finish_parent.simps tell_parent_def completed_attempt_def
        release_root_def put_output_def)
qed

lemma ex_pause_takes: "call_run ex_coordinator ex_env3 ex_pause_call ex_early = Inr ex_taken"
proof -
  let ?tr = "[(''signal'', JStr ''go'')]"
  have "lock_active_attempt ex_aid ex_early = Some \<lparr>cx_attempt = ex_attempt StepRunning, cx_state = ex_place, cx_run = ex_run RunRunning BoundaryPhase, cx_tenant = ''tenant''\<rparr>"
    by (simp add: lock_active_attempt_def ex_early_def ex_defs ex_row_defs)
  moreover have "owns_job (re_now ex_env3) (ex_worker ''run'' ex_aid) ex_early"
    by (simp add: ex_env3_def ex_env_def ex_early_def ex_running_def ex_job_defs)
  moreover have "pause_timeout (re_now ex_env3) ?tr = Inr None"
    by (simp add: pause_timeout_def duration_field_def member_def json_record_def)
  moreover have "new_pause ex_env3 (ex_attempt StepRunning) ?tr None = ex_pause"
    by (simp add: new_pause_def ex_env3_def ex_env_def ex_pause_def string_value_def)
  moreover have "\<not> pause_refused ex_pause ex_early"
    by (simp add: pause_refused_def ex_early_def ex_running_def ex_started_def ex_no_runs_def)
  moreover have "snd (update_runs (re_now ex_env3) (\<lambda>r. ru_id r = ''run'' \<and> is_active_run_status (ru_status r))
      (\<lambda>r. r\<lparr>ru_status := RunWaiting, ru_phase := PausePhase, ru_updated_at := re_now ex_env3\<rparr>)
      (update_attempts (\<lambda>x. sa_id x = ex_aid) (\<lambda>x. x\<lparr>sa_status := StepWaiting, sa_updated_at := re_now ex_env3\<rparr>)
        (ex_early\<lparr>rd_pauses := rd_pauses ex_early @ [ex_pause]\<rparr>))) = ex_taking"
    by (simp add: ex_env3_def ex_early_def ex_kept_signal_def ex_taking_def ex_defs ex_row_defs image_iff)
  ultimately show ?thesis
    by (simp add: ex_pause_call_def suspend_for_pause_def Let_def ex_pause_takes_it)
qed

lemma signal_accepted_once_witness:
  "sr_outcome ex_early_receipt = SignalKept \<and>
   signal_by_key ex_coordinator ex_signal_env ex_env ex_signal ex_taken = Inr (ex_receipt, ex_taken)"
proof -
  have fresh: "fresh_ids ex_env ex_running" by (rule ex_fresh) simp_all
  have "fresh_ids ex_env3 ex_early"
    using ex_attempt_id_inj by (simp add: fresh_ids_def fresh_attempts_def ex_env3_def ex_env_def ex_early_def ex_kept_signal_def)
  then have "run_later ex_coordinator {''run''} ex_early ex_taken"
    by (rule later_call [OF later_same _ _ ex_pause_takes]) (simp add: ex_pause_call_def ex_early_def)
  from signal_accepted_once [OF reach_running fresh ex_keeps this, where e' = ex_env] obtain again s
    where again: "signal_by_key ex_coordinator ex_signal_env ex_env ex_signal ex_taken = Inr (again, ex_taken)"
      and s: "signal_at ex_taken ''signal'' = Some s" "receipt_of_signal s = Inr again"
    by (auto simp: ex_signal_def ex_early_receipt_def)
  from s(1) have "s = ex_taken_signal" by (simp add: ex_taken_def ex_taken_signal_def)
  with s(2) have "again = ex_receipt" by (simp add: receipt_of_signal_def ex_taken_signal_def ex_receipt_def)
  with again show ?thesis by (simp add: ex_early_receipt_def)
qed

section \<open>Leases\<close>

fun worker_of :: "run_call \<Rightarrow> execution_job option" where
  "worker_of (BeginAttempt job phase) = Some job"
| "worker_of (CompleteStep aid v job) = job"
| "worker_of (FailStep aid err job allow) = job"
| "worker_of (SuspendForPause aid job transition) = Some job"
| "worker_of (SuspendForChild aid job q state) = Some job"
| "worker_of (ResolvePauseTimeout job) = Some job"
| "worker_of (ReconcileTerminalChild job) = Some job"
| "worker_of (RegisterInvocation job iid) = Some job"
| "worker_of (UnregisterInvocation job iid) = Some job"
| "worker_of _ = None"

text \<open>Property C23: a worker whose job was claimed again, ended or outlived its lease changes nothing of a run any
  more, whichever call it makes: beginning, completing, failing or suspending its attempt, ending a pause,
  telling the parent, or entering and leaving an invocation. (\<open>setPhase\<close>, which sets the phase and the
  status of an active run between batch phases, takes no job and is fenced by nothing in the source; it is not among these calls.)\<close>

theorem worker_without_lease_changes_nothing:
  assumes "worker_of call = Some job" and "call_run c e call d = Inr d'"
    and gone: "\<And>r. r \<in> set (rd_jobs d) \<Longrightarrow> ej_id r = xj_id job \<Longrightarrow>
      ej_status r \<noteq> JobRunning \<or> ej_lease_generation r \<noteq> xj_lease_generation job \<or> \<not> after_now (re_now e) (ej_lease_expires_at r)"
  shows "d' = d"
proof -
  have "\<not> owns_job (re_now e) job d"
    using gone by (fastforce simp: owns_job_def lease_of_def holds_def split: option.splits)
  with assms(1,2) show ?thesis
    by (cases call) (auto simp: begin_attempt_def complete_step_def fail_step_def suspend_for_pause_def suspend_for_child_def
      resolve_pause_timeout_def reconcile_terminal_child_def register_invocation_def unregister_invocation_def may_act_def Let_def
      split: option.splits if_splits)
qed

lemma worker_without_lease_changes_nothing_witness:
  "call_run ex_coordinator (ex_env\<lparr>re_now := 1000\<rparr>) ex_complete ex_running = Inr ex_running"
proof -
  have "\<exists>d'. call_run ex_coordinator (ex_env\<lparr>re_now := 1000\<rparr>) ex_complete ex_running = Inr d'"
    by (simp add: ex_defs ex_complete_def complete_step_def lock_active_attempt_def may_act_def ex_job_defs ex_row_defs)
  then obtain d' where d': "call_run ex_coordinator (ex_env\<lparr>re_now := 1000\<rparr>) ex_complete ex_running = Inr d'" by blast
  have "d' = ex_running"
    by (rule worker_without_lease_changes_nothing [OF _ d', where job = "ex_worker ''run'' ex_aid"])
      (simp_all add: ex_complete_def ex_running_def ex_job_defs)
  with d' show ?thesis by simp
qed

section \<open>Permissions\<close>

text \<open>
  The syntax a granted permission has (\<open>PROJECT_PERMISSION_GRANT_PATTERN\<close>): the star stands alone or after the
  colon, never before it.
\<close>

definition granted_well :: "permission \<Rightarrow> bool" where
  "granted_well p \<longleftrightarrow> (permission_thing p = ''*'' \<longrightarrow> p = ''*'')"

lemma thing_star [simp]: "permission_thing ''*'' = ''*''" "permission_action ''*'' = None"
  by (simp_all add: permission_thing_def permission_action_def)

lemma permission_covers_trans:
  assumes "permission_covers a b" and "permission_covers b c" and "granted_well a"
  shows "permission_covers a c"
proof (cases "b = ''*''")
  case True
  with assms(1,3) have "a = ''*''" by (auto simp: permission_covers_def granted_well_def)
  then show ?thesis by (simp add: permission_covers_def)
next
  case False
  with assms(1,2) show ?thesis by (auto simp: permission_covers_def)
qed

lemma held_permissions_json [simp]: "held_permissions (Some (permissions_json refs)) = refs"
  by (induction refs) (auto simp: held_permissions_def permissions_json_def member_def json_record_def)

lemma set_first_occurrences [simp]: "set (first_occurrences xs) = set xs"
  by (induction xs) auto

text \<open>
  The project permissions of the identity a run acts with. One without a scope is not restricted at all.
\<close>

definition caller_grants :: "run_row \<Rightarrow> permission_ref list option" where
  "caller_grants r = (case ru_caller_scope r of Some (JArr _) \<Rightarrow> Some (held_permissions (ru_caller_permissions r)) | _ \<Rightarrow> None)"

text \<open>Property C24: a child run is allowed nothing its parent is not: each permission the identity it acts with
  holds, also by a wildcard or by what a write permission implies, the identity of its parent holds. Where
  the parent acts with a scope, the permission is moreover one of the parent's project, and the workflow of the
  child declared something that covers it. Where the parent acts without one, so does the child: both are
  unrestricted, whatever the workflow declared. Assumed of the grants the parent holds and of the permissions the
  workflow declares is the syntax they are accepted in: a star stands alone or after the colon, never for
  the thing before it.\<close>

theorem child_within_parent:
  assumes well: "\<forall>(p, granted) \<in> set (held_permissions (ru_caller_permissions (cx_run ctx))). granted_well granted"
      "\<forall>granted \<in> set (cr_permissions q). granted_well granted"
    and has: "has_project_permission (caller_grants (child_run e ctx q first)) proj wanted"
  shows "has_project_permission (caller_grants (cx_run ctx)) proj wanted \<and>
    (case caller_grants (cx_run ctx) of
       None \<Rightarrow> caller_grants (child_run e ctx q first) = None
     | Some held \<Rightarrow> caller_grants (child_run e ctx q first) \<noteq> None \<and>
         proj = ru_project_id (cx_run ctx) \<and> (\<exists>declared \<in> set (cr_permissions q). permission_covers declared wanted))"
proof (cases "caller_grants (cx_run ctx)")
  case None
  then have "caller_grants (child_run e ctx q first) = None"
    by (simp add: caller_grants_def child_run_def Let_def split: option.splits json.splits)
  with None show ?thesis by (simp add: has_project_permission_def)
next
  case (Some held)
  let ?held = "held_permissions (ru_caller_permissions (cx_run ctx))"
  from Some have held: "held = ?held" and child: "caller_grants (child_run e ctx q first) =
      Some (child_permissions (ru_project_id (cx_run ctx)) (ru_caller_permissions (cx_run ctx)) (cr_permissions q))"
    by (auto simp: caller_grants_def child_run_def Let_def split: option.splits json.splits)
  from has obtain g where g: "(proj, g) \<in> set (child_permissions (ru_project_id (cx_run ctx)) (ru_caller_permissions (cx_run ctx)) (cr_permissions q))"
    "permission_covers g wanted" by (auto simp: has_project_permission_def child)
  from g(1) obtain declared where dcl: "declared \<in> set (cr_permissions q)" "proj = ru_project_id (cx_run ctx)"
    and "g = declared \<and> has_project_permission (Some ?held) proj declared \<or> (proj, g) \<in> set ?held \<and> permission_covers declared g"
    by (auto simp: child_permissions_def intersect_project_permissions_def split: if_splits)
  then consider (whole) h where "g = declared" "(proj, h) \<in> set ?held" "permission_covers h declared"
    | (part) "(proj, g) \<in> set ?held" "permission_covers declared g" by (auto simp: has_project_permission_def)
  then have "has_project_permission (Some ?held) proj wanted \<and> (\<exists>declared \<in> set (cr_permissions q). permission_covers declared wanted)"
  proof cases
    case whole
    then have "granted_well h" using well(1) by auto
    with whole permission_covers_trans [OF whole(3)] g(2) dcl show ?thesis by (auto simp: has_project_permission_def)
  next
    case part
    then have "granted_well g" "granted_well declared" using well dcl by auto
    with part permission_covers_trans [OF part(2)] g(2) dcl show ?thesis by (auto simp: has_project_permission_def)
  qed
  with Some child dcl(2) show ?thesis by (simp add: held)
qed

definition ex_scoped :: attempt_context where
  "ex_scoped = \<lparr>cx_attempt = ex_attempt StepRunning, cx_state = ex_place, cx_run = (ex_run RunRunning BoundaryPhase)
     \<lparr>ru_caller_scope := Some (JArr []), ru_caller_permissions := Some (permissions_json [(''project'', ''program:write'')])\<rparr>, cx_tenant = ''tenant''\<rparr>"

lemma child_within_parent_witness:
  "has_project_permission (caller_grants (cx_run ex_scoped)) ''project'' ''program:read''"
proof -
  let ?q = "ex_child_request\<lparr>cr_permissions := [''program:*'']\<rparr>"
  have g: "caller_grants (cx_run ex_scoped) = Some [(''project'', ''program:write'')]"
    and h: "held_permissions (ru_caller_permissions (cx_run ex_scoped)) = [(''project'', ''program:write'')]"
    and p: "ru_project_id (cx_run ex_scoped) = ''project''" and s: "ru_caller_scope (cx_run ex_scoped) = Some (JArr [])"
    by (simp_all add: caller_grants_def ex_scoped_def ex_run_def started_run_def ex_new_run_def)
  have things: "granted_well ''program:write''" "granted_well ''program:*''" by (simp_all add: granted_well_def permission_thing_def)
  have "\<not> has_project_permission (Some [(''project'', ''program:write'')]) ''project'' ''program:*''"
    by (simp add: has_project_permission_def permission_covers_def permission_thing_def permission_action_def)
  then have "child_permissions ''project'' (ru_caller_permissions (cx_run ex_scoped)) [''program:*''] = [(''project'', ''program:write'')]"
    by (simp add: child_permissions_def intersect_project_permissions_def h permission_covers_def permission_thing_def permission_action_def)
  then have "has_project_permission (caller_grants (child_run ex_env ex_scoped ?q (ex_step 0))) ''project'' ''program:read''"
    by (simp add: caller_grants_def s child_run_def Let_def p has_project_permission_def permission_covers_def permission_thing_def permission_action_def)
  from child_within_parent [OF _ _ this, unfolded h] show ?thesis by (simp add: things)
qed

end
