(* ===== verification/Spec2Isabelle.thy ===== *)
theory Spec2Isabelle
  imports Client_State Metadata Replication Commands Refinement Turn_Queue Turn_Leases Secret_Mask Session_Feed
    Settle_Laws Job_Safety Job_Choice Rate_Laws Replica_Claims Command_Laws Run_Promises
begin

text \<open>
  The core of an agent session, from a person's command to what every reader of the session sees, the
  queue its surroundings run on, and the coordinator of workflow runs beside it. A session is an append-only log of events, projected into
  tables in the same transaction; turns wait in a queue, a worker leases one and drives a runner,
  and what the runner writes is taken back into the log.

  \<^bold>\<open>How the parts meet.\<close> A person's command (\<open>run_session_command\<close>) is a transaction that the log runs
  at most once. It delivers words (\<open>deliver_in\<close>), stops, retries, edits, answers or rewinds turns,
  and does all of it by appending events (\<open>append_events\<close>), which number themselves, enter the log
  and are projected. A worker claims the head of the queue (\<open>claim\<close>), its runner reports frames,
  \<open>apply_frames\<close> records them under the lease, \<open>ingest_harness_events\<close> turns what a harness said into
  session events, and \<open>settle\<close> or \<open>lose\<close> ends the turn. Readers start from a snapshot (\<open>read_snapshot\<close>),
  follow the stream (\<open>feed_step\<close>) and fold every event into their copy (\<open>apply_session_events\<close>).

  \<^bold>\<open>The wire.\<close> \<open>Protocol\<close> has the entities and events of \<open>agent-protocol/src/model.ts\<close> and \<open>events.ts\<close>,
  \<open>Runner\<close> the frames of \<open>runner.ts\<close> and their framing into lines (\<open>runner-channels.ts\<close>),
  \<open>Metadata\<close> the rules of \<open>metadata.ts\<close>, \<open>Activity\<close> the live line of \<open>activity.ts\<close>.
  \<open>Reducer\<close> is the client's fold of \<open>state.ts\<close>; \<open>Client_State\<close> states what it gives a client:
  replays change nothing, readers converge, a hole is noticed, the transcript keeps its order.
  \<open>Live_Client\<close> is the cache entry of \<open>use-agent-session.ts\<close> around that fold.

  \<^bold>\<open>The log.\<close> \<open>Session_Rows\<close> has the tables of \<open>session-rows.ts\<close> and their readers, \<open>Projector\<close> and
  \<open>Session_Log\<close> the two halves of \<open>session-log.ts\<close>: one statement per event, and the transactions around
  them (append, replication, import, receipts, bounded replay). \<open>Replication\<close> shows what copies of
  a session rest on, \<open>Commands\<close> that a command runs once, and \<open>Refinement\<close> that the fold of the events
  is what the projection holds: the abstract session of a client simulates the rows entity by
  entity, for every batch that conforms to what the code appends. \<open>Append_Laws\<close> writes an append's
  effect on each table as one equation, which the later theories work with.
  \<open>Session_Reads\<close> is \<open>session-reads.ts\<close> (snapshots, pages of history, transcript, reply) and
  \<open>Session_Feed\<close> is \<open>session-feed.ts\<close>, whose awaited queries are separate steps of one step function,
  so that its theorems hold for every interleaving of appends, ticks, joins and closes.

  \<^bold>\<open>The turn.\<close> \<open>Turn_Queue\<close> is \<open>turn-queue.ts\<close>: eligibility, claim, lease, renewal, release, retry;
  \<open>Turn_Leases\<close> follows one lease through everything that touches turns beside its holder (\<open>lease_step\<close>).
  \<open>Secret_Mask\<close> is \<open>secret-mask.ts\<close>, \<open>Request_Policy\<close> is \<open>request-policy.ts\<close>, \<open>Native_State\<close> is
  \<open>native-state.ts\<close>, \<open>Turn_Ingest\<close> is \<open>turn-ingest.ts\<close> (with \<open>Ingest_Laws\<close>). Of \<open>turn-engine.ts\<close>,
  \<open>Turn_Frames\<close> holds the transaction that records what a runner wrote, and \<open>Turn_Settle\<close> the one that
  ends a turn or loses its attempt (with \<open>Settle_Laws\<close>: nothing is left open, no message is dropped).

  \<^bold>\<open>The person.\<close> \<open>Answer_Pills\<close> is \<open>text-attachments.ts\<close> and the answers that carry attachments. Of
  \<open>agent-sessions-service.ts\<close>, \<open>Session_Delivery\<close> holds how input enters a session (\<open>deliverIn\<close> and what it
  calls) and what a starting turn reads of it (\<open>riders\<close> of the turn engine) and \<open>Session_Commands\<close> the handlers of every command. \<open>Delivery_Laws\<close>: the words land where the
  agent reads them, once per key, and a reply lets a waiting turn work on. \<open>Command_Laws\<close>: each command
  runs once, a request is answered once and the answer reaches the attempt that asked, a stop
  reaches every working turn, a rollback rolls back exactly the turns whose files went back.

  \<^bold>\<open>The queues around it.\<close> \<open>Execution_Jobs\<close> is \<open>execution-jobs-service.ts\<close>; \<open>Job_Laws\<close>, \<open>Job_Safety\<close> and
  \<open>Job_Choice\<close> show that its rows stay sound, runs are bounded, replaced workers are fenced and a
  claim is fair between tenants. \<open>Rate_Buckets\<close> and \<open>Rate_Laws\<close> are \<open>rate-reservations-service.ts\<close>, and
  \<open>Replica_Claims\<close> is \<open>replica-claims.ts\<close>, with requests sent, executed and answered at three times.

  \<^bold>\<open>Workflow runs.\<close> \<open>run-coordinator.ts\<close> keeps runs, their attempts, pauses, signals and children.
  \<open>Run_Tables\<close> has the tables and the trigger on them, \<open>Run_Policy\<close> what steps, signals
  (\<open>run-signals.ts\<close>) and permissions (\<open>identity.ts\<close>) are read from, \<open>Run_Coordinator\<close> its private
  transactions down to the chain of parents a run that ends tells (\<open>finish_parent\<close>), \<open>Run_Operations\<close> what
  workers, people and timers ask of it, and \<open>Run_Control\<close> operators, cancellation, failing trees and how
  \<open>runs-service.ts\<close> starts a run. \<open>Run_Laws\<close> writes what each leaves in each table; \<open>Run_Invariant\<close> states
  the invariant (\<open>run_ok\<close>: steps in order, who waits is awaited, signals taken in order) and how kinds of
  transitions keep it, \<open>Run_Chain\<close>, \<open>Run_Keeps\<close>, \<open>Run_Pauses\<close>, \<open>Run_Suspends\<close> and \<open>Run_Endings\<close> that each operation
  does. \<open>Run_Others\<close> has what the rest of the program may write to the same tables (\<open>beside\<close>: runs moved,
  attempts stamped, jobs and allocations of any kind; \<open>forgets\<close>: whole trees deleted) and that it keeps the
  invariant. \<open>Run_Calls\<close> puts them together: \<open>call_run\<close> is one call of any kind, \<open>conforms\<close> what its caller
  owes, \<open>run_reach\<close> the states that calls and the other writers lead to. \<open>Run_Kept\<close> and \<open>Run_Later\<close> say what later
  states keep (\<open>run_later\<close> names the runs nobody deletes), \<open>Run_Tree\<close> which runs are under a run,
  \<open>Run_Retention\<close> models the other writers themselves (node recovery's move, the record of a rate limit, the
  sweep of \<open>retention-service.ts\<close>) and shows that they are such steps, \<open>Run_Example\<close> has states on the way,
  and \<open>Run_Promises\<close> the properties. \<open>setPhase\<close> is a call like the others here, but takes no job in the source:
  what is said of workers without a lease is said of the nine calls that do.

  \<^bold>\<open>How code becomes definitions.\<close> An interface is a record, a union of literals or of shapes a
  datatype, a table the list of its rows in insertion order with the code's key as a function. A
  transaction is a function from the database to an error or a result with the new database; a
  thrown error leaves the database as it was. The lock on a session's row is the order in which
  transactions run. Comparisons with a null column are false. Where the code awaits between steps
  that others may come between (streams, replica claims, queue and lease steps), the model is a
  step function over explicit steps and the theorems quantify over all sequences of them.

  \<^bold>\<open>Interfaces.\<close> \<open>dictionary\<close> (Prelude) is a table looked up by key; \<open>replay\<close> (Reducer) a reader that
  takes in a numbered log; \<open>at_most_once\<close> (Commands) a command remembered by its receipt; \<open>fenced\<close>
  (\<open>Turn_Queue\<close>) and \<open>numbered_leases\<close> (\<open>Job_Safety\<close>) rows whose holders are replaced; \<open>stream_filter\<close>
  (\<open>Secret_Mask\<close>) a filter that may hold back the end of a stream. Each is interpreted on the definitions
  of the program in the theory that provides it.

  \<^bold>\<open>Parameters.\<close> What is not in the sources is an argument: SHA-256 as hexadecimal digits, random ids,
  lease tokens and the clock, \<open>octet_length\<close> of a payload, the printing of a number, \<open>localeCompare\<close>, the
  signs beyond one byte (ellipsis, dash, marker), what git answered about a checkpoint, and what a
  host says of a chat. Hypotheses about them stand in the statements that need them.

  \<^bold>\<open>Termination and bounds.\<close> Every definition is total; nothing runs on fuel. Loops of the code are
  structural or have a measure (the text left to match, the items left before a cursor, the runs still
  active above a child that ends, the runs not yet listed under one that is canceled), and reads of
  unbounded length are windows of the bounds the code names (\<open>REPLAY_MAX_EVENTS\<close>, \<open>HISTORY_PAGE_ITEMS\<close>,
  \<open>TICK_LIMIT\<close>). Numbers the code holds in doubles are integers or exact rationals: rounding is
  outside the model. Instants are whole milliseconds.

  \<^bold>\<open>Not modelled.\<close> Preparing an attempt and driving its runner (the rest of \<open>turn-engine.ts\<close>), creating
  sessions, workspaces and hosts (the rest of \<open>agent-sessions-service.ts\<close>) orchestrate git, containers
  and agents outside the sources. The handlers that run the steps of a workflow and of a batch, the
  rest of \<open>runs-service.ts\<close> (reads, triggers, hooks), placement of machines and the rest of node recovery, connections and credentials,
  projects and publications, deployments, the workflow language (which works on the TypeScript
  compiler's API), the harness adapters, the drivers of sandboxes and storage, the HTTP routes, the
  generated clients and the user interfaces are not here. Parsing by zod, telemetry and in-process
  wakeups are left out of the parts that are.
\<close>

end
